(* ===== verification/Prelude.thy ===== *)
theory Prelude
  imports Main "HOL-Library.Word" "HOL-Library.Monad_Syntax"
begin

unbundle bit_operations_syntax

text \<open>
  Shared vocabulary of the development: the machine integers of
  \<^verbatim>\<open>include/c_types.h\<close>, the byte memory on which the pointer code of the
  firmware works, the C library's \<^verbatim>\<open>memcpy\<close> and \<^verbatim>\<open>memset\<close> on it, and the list and
  word facts the component theories use.

  A result of type \<open>'a option\<close> stands for code that can run into undefined behaviour
  (an access outside every object, an overlapping \<^verbatim>\<open>memcpy\<close>) or that can fail to
  return: both are \<open>None\<close>, so a theorem with \<open>Some\<close> on its right-hand side excludes
  them.
\<close>

section \<open>Machine integers\<close>

type_synonym u8 = "8 word"
type_synonym u16 = "16 word"
type_synonym u32 = "32 word"

named_theorems mem_simps \<open>rewriting of reads after memory operations\<close>

section \<open>Byte memory\<close>

text \<open>
  An address is a natural number, \<open>None\<close> at an address says that no object of the program
  holds it, and \<open>NULL\<close> is the address 0. Objects do not wrap around the address space,
  so pointer arithmetic is addition.
\<close>

type_synonym ptr = nat
type_synonym mem = "ptr \<rightharpoonup> u8"

abbreviation (input) NULL :: ptr where
  "NULL \<equiv> 0"

definition valid_range :: "mem \<Rightarrow> ptr \<Rightarrow> nat \<Rightarrow> bool" where
  "valid_range m a n = list_all (\<lambda>i. m (a + i) \<noteq> None) [0..<n]"

definition bytes_at :: "mem \<Rightarrow> ptr \<Rightarrow> nat \<Rightarrow> u8 list" where
  "bytes_at m a n = map (\<lambda>i. the (m (a + i))) [0..<n]"

definition disjoint_ranges :: "ptr \<Rightarrow> nat \<Rightarrow> ptr \<Rightarrow> nat \<Rightarrow> bool" where
  "disjoint_ranges a n b k \<longleftrightarrow> n = 0 \<or> k = 0 \<or> a + n \<le> b \<or> b + k \<le> a"

text \<open>
  \<^verbatim>\<open>memcpy\<close> is undefined when a byte of either range is outside every object or when
  the two ranges overlap.
\<close>

definition memcpy :: "ptr \<Rightarrow> ptr \<Rightarrow> nat \<Rightarrow> mem \<Rightarrow> mem option" where
  "memcpy d s n m =
     (if valid_range m d n \<and> valid_range m s n \<and> disjoint_ranges d n s n
      then Some (\<lambda>a. if d \<le> a \<and> a < d + n then m (s + (a - d)) else m a)
      else None)"

definition memset :: "ptr \<Rightarrow> u8 \<Rightarrow> nat \<Rightarrow> mem \<Rightarrow> mem option" where
  "memset d v n m =
     (if valid_range m d n then Some (\<lambda>a. if d \<le> a \<and> a < d + n then Some v else m a)
      else None)"

text \<open>A store through a pointer.\<close>

definition poke :: "ptr \<Rightarrow> u8 \<Rightarrow> mem \<Rightarrow> mem option" where
  "poke a v m = (if m a = None then None else Some (m(a \<mapsto> v)))"

lemma valid_range_iff: "valid_range m a n \<longleftrightarrow> (\<forall>i<n. m (a + i) \<noteq> None)"
  by (auto simp: valid_range_def list_all_iff)

lemma valid_range_sub:
  "valid_range m a n \<Longrightarrow> j + k \<le> n \<Longrightarrow> valid_range m (a + j) k"
  by (auto simp: valid_range_iff add.assoc)

lemma valid_range_0 [simp]: "valid_range m a 0"
  by (simp add: valid_range_iff)

lemma length_bytes_at [simp]: "length (bytes_at m a n) = n"
  by (simp add: bytes_at_def)

lemma bytes_at_0 [simp]: "bytes_at m a 0 = []"
  by (simp add: bytes_at_def)

lemma nth_bytes_at [simp]: "i < n \<Longrightarrow> bytes_at m a n ! i = the (m (a + i))"
  by (simp add: bytes_at_def)

lemma bytes_at_append: "bytes_at m a (j + k) = bytes_at m a j @ bytes_at m (a + j) k"
  by (rule nth_equalityI) (auto simp: nth_append)

lemma take_bytes_at: "j \<le> n \<Longrightarrow> take j (bytes_at m a n) = bytes_at m a j"
  by (rule nth_equalityI) auto

lemma drop_bytes_at: "j \<le> n \<Longrightarrow> drop j (bytes_at m a n) = bytes_at m (a + j) (n - j)"
  by (rule nth_equalityI) (auto simp: add.assoc)

lemma bytes_at_cong:
  "(\<And>i. i < n \<Longrightarrow> m (a + i) = m' (b + i)) \<Longrightarrow> bytes_at m a n = bytes_at m' b n"
  by (rule nth_equalityI) auto

lemma memcpy_Some:
  assumes "valid_range m d n" "valid_range m s n" "disjoint_ranges d n s n"
  shows "\<exists>m'. memcpy d s n m = Some m'"
  using assms by (simp add: memcpy_def)

lemma memcpy_defined [mem_simps]:
  assumes "memcpy d s n m = Some m'"
  shows "(m' a = None) = (m a = None)"
proof -
  have dom: "\<And>i. i < n \<Longrightarrow> m (d + i) \<noteq> None" "\<And>i. i < n \<Longrightarrow> m (s + i) \<noteq> None"
    and m': "m' = (\<lambda>a. if d \<le> a \<and> a < d + n then m (s + (a - d)) else m a)"
    using assms by (auto simp: memcpy_def valid_range_iff split: if_splits)
  show ?thesis
  proof (cases "d \<le> a \<and> a < d + n")
    case True
    then have "m a \<noteq> None" "m (s + (a - d)) \<noteq> None"
      using dom(1) [of "a - d"] dom(2) [of "a - d"] by auto
    with True m' show ?thesis by auto
  qed (use m' in auto)
qed

lemma valid_range_memcpy:
  "memcpy d s n m = Some m' \<Longrightarrow> valid_range m' a k = valid_range m a k"
  by (simp add: valid_range_iff memcpy_defined)

lemma bytes_at_memcpy_dst:
  assumes "memcpy d s n m = Some m'"
  shows "bytes_at m' d n = bytes_at m s n"
  using assms by (intro bytes_at_cong) (auto simp: memcpy_def split: if_splits)

lemma bytes_at_memcpy_frame:
  assumes "memcpy d s n m = Some m'" "disjoint_ranges d n a k"
  shows "bytes_at m' a k = bytes_at m a k"
  using assms
  by (intro bytes_at_cong) (auto simp: memcpy_def disjoint_ranges_def split: if_splits)

lemma memcpy_frame:
  "memcpy d s n m = Some m' \<Longrightarrow> a < d \<or> d + n \<le> a \<Longrightarrow> m' a = m a"
  by (auto simp: memcpy_def split: if_splits)

lemma memset_frame:
  "memset d v n m = Some m' \<Longrightarrow> a < d \<or> d + n \<le> a \<Longrightarrow> m' a = m a"
  by (auto simp: memset_def split: if_splits)

lemma bytes_at_memset:
  "memset d v n m = Some m' \<Longrightarrow> bytes_at m' d n = replicate n v"
  by (rule nth_equalityI) (auto simp: memset_def split: if_splits)

lemma valid_range_memset:
  assumes "memset d v n m = Some m'" "valid_range m a k"
  shows "valid_range m' a k"
  using assms by (auto simp: memset_def valid_range_iff split: if_splits)

lemma memset_Some: "valid_range m d n \<Longrightarrow> \<exists>m'. memset d v n m = Some m'"
  by (simp add: memset_def)

section \<open>Words\<close>

lemma unat_add_u32: "unat (a + b :: u32) = (if unat a + unat b < 2 ^ 32 then unat a + unat b
     else unat a + unat b - 2 ^ 32)"
  by (simp add: unat_plus_if')

lemma unat_sub_u32: "b \<le> a \<Longrightarrow> unat (a - b :: u32) = unat a - unat b"
  by (rule unat_sub)

lemma bit_u8_high [simp]: "8 \<le> n \<Longrightarrow> \<not> bit (x :: u8) n"
  using bit_imp_le_length [of x n] by auto

lemma bit_u8_less: "bit (x :: u8) n \<Longrightarrow> n < 8"
  using bit_imp_le_length [of x n] by simp

lemma unat_u8_less: "unat (x :: u8) < 256"
  using unsigned_less [of x] by simp

lemma unat_ucast_u8_u32 [simp]: "unat (ucast (x :: u8) :: u32) = unat x"
  using unat_u8_less [of x] by (simp add: unsigned_ucast_eq take_bit_nat_eq_self)

lemma ucast_u8_u32_u8 [simp]: "ucast (ucast (x :: u8) :: u32) = x"
  by (rule bit_eqI) (auto simp: bit_simps dest: bit_u8_less)

lemma ucast_u8_u32_eq [simp]: "(ucast a :: u32) = ucast b \<longleftrightarrow> a = (b :: u8)"
  by (metis ucast_u8_u32_u8)

lemma bit_low_ones: "x = mask k \<Longrightarrow> k \<le> LENGTH('a) \<Longrightarrow> bit (x :: 'a::len word) n \<longleftrightarrow> n < k"
  by (auto simp: bit_mask_iff)

lemma xor_left_cancel: "(c XOR a = c XOR b) \<longleftrightarrow> (a = (b :: 'a::len word))"
  by (metis xor.assoc xor.left_neutral xor_self_eq)

lemma xor_right_cancel: "(a XOR c = b XOR c) \<longleftrightarrow> (a = (b :: 'a::len word))"
  by (metis xor.assoc xor.right_neutral xor_self_eq)

lemma unat_of_nat_u16: "n < 2 ^ 16 \<Longrightarrow> unat (of_nat n :: u16) = n"
  by (simp add: unat_of_nat take_bit_nat_eq_self)

lemma unat_ucast_u16_u32: "unat (ucast (x :: u16) :: u32) = unat x"
  using unsigned_less [of x, where 'a = nat] by (simp add: unsigned_ucast_eq take_bit_nat_eq_self)

lemma unat_of_nat_u32: "n < 2 ^ 32 \<Longrightarrow> unat (of_nat n :: u32) = n"
  by (simp add: unat_of_nat take_bit_nat_eq_self)

lemma drop_bit_join [simp]: "drop_bit 8 (push_bit 8 (ucast (h :: u8)) OR ucast (l :: u8) :: u16) = ucast h"
  by (rule bit_eqI) (auto simp: bit_simps dest: bit_u8_less)

lemma join_u16_eq:
  "(push_bit 8 (ucast h) OR ucast l :: u16) = push_bit 8 (ucast h') OR ucast l'
     \<longleftrightarrow> (h :: u8) = h' \<and> (l :: u8) = l'"
proof
  assume eq: "(push_bit 8 (ucast h) OR ucast l :: u16) = push_bit 8 (ucast h') OR ucast l'"
  have "bit h n = bit h' n" if "n < 8" for n
    using arg_cong [OF eq, of "\<lambda>x. bit x (n + 8)"] that by (simp add: bit_simps)
  moreover have "bit l n = bit l' n" if "n < 8" for n
    using arg_cong [OF eq, of "\<lambda>x. bit x n"] that by (simp add: bit_simps)
  ultimately show "h = h' \<and> l = l'" by (auto intro!: bit_word_eqI)
qed simp

section \<open>Strings\<close>

text \<open>Bytes at an address, and a C string: no zero byte before the one that ends it.\<close>

definition str_at :: "mem \<Rightarrow> ptr \<Rightarrow> u8 list \<Rightarrow> bool" where
  "str_at m p bs \<longleftrightarrow> (\<forall>i<length bs. m (p + i) = Some (bs ! i))"

lemma str_at_simps [simp]:
  "str_at m p []" "str_at m p (b # bs) \<longleftrightarrow> m p = Some b \<and> str_at m (p + 1) bs"
  by (auto simp: str_at_def nth_Cons' less_Suc_eq_0_disj)

lemma str_at_append [simp]: "str_at m p (xs @ ys) \<longleftrightarrow> str_at m p xs \<and> str_at m (p + length xs) ys"
  by (induction xs arbitrary: p) auto

lemma str_at_upd [simp]: "str_at m p bs \<Longrightarrow> a < p \<or> p + length bs \<le> a \<Longrightarrow> str_at (m(a \<mapsto> v)) p bs"
  by (auto simp: str_at_def)

lemma str_at_bytes: "str_at m p bs \<Longrightarrow> bytes_at m p (length bs) = bs"
  by (rule nth_equalityI) (auto simp: str_at_def)

lemma str_at_valid: "str_at m p bs \<Longrightarrow> n \<le> length bs \<Longrightarrow> valid_range m p n"
  by (auto simp: str_at_def valid_range_iff)

definition c_string :: "mem \<Rightarrow> ptr \<Rightarrow> u8 list \<Rightarrow> bool" where
  "c_string m p s \<longleftrightarrow> str_at m p (s @ [0]) \<and> 0 \<notin> set s"

partial_function (option) strlen :: "ptr \<Rightarrow> mem \<Rightarrow> nat option" where
  "strlen p m = do { c \<leftarrow> m p; if c = 0 then Some 0 else do { n \<leftarrow> strlen (p + 1) m; Some (Suc n) } }"

lemma strlen_c_string: "c_string m p s \<Longrightarrow> strlen p m = Some (length s)"
proof (induction s arbitrary: p)
  case Nil
  then show ?case by (subst strlen.simps) (simp add: c_string_def)
next
  case (Cons b s)
  then have "strlen (p + 1) m = Some (length s)" by (intro Cons.IH) (auto simp: c_string_def)
  with Cons.prems show ?case by (subst strlen.simps) (auto simp: c_string_def)
qed

section \<open>The queue interface of the byte buffers\<close>

text \<open>
  The firmware has several byte buffers (the TCP send ring, the MQTT message ring, the
  UART driver's buffers). Each promises its clients the same thing, stated over the list
  of unread bytes: a write that fits appends, a read takes a prefix, and neither leaves
  the invariant. \<open>src_ok\<close> and \<open>dst_ok\<close> say when a source or a destination may be
  used, \<open>payload\<close> and \<open>delivered\<close> what it holds.
\<close>

locale byte_fifo =
  fixes invar :: "'q \<Rightarrow> bool"
    and contents :: "'q \<Rightarrow> 'a list"
    and capacity :: "'q \<Rightarrow> nat"
    and enq :: "'s \<Rightarrow> 'q \<Rightarrow> 'q option"
    and src_ok :: "'s \<Rightarrow> 'q \<Rightarrow> bool"
    and payload :: "'s \<Rightarrow> 'q \<Rightarrow> 'a list"
    and deq :: "'d \<Rightarrow> 'q \<Rightarrow> 'q option"
    and dst_ok :: "'d \<Rightarrow> 'q \<Rightarrow> bool"
    and want :: "'d \<Rightarrow> nat"
    and delivered :: "'d \<Rightarrow> 'q \<Rightarrow> 'q \<Rightarrow> 'a list"
  assumes enq_fits: "invar q \<Longrightarrow> src_ok s q \<Longrightarrow>
      length (contents q) + length (payload s q) \<le> capacity q \<Longrightarrow>
      \<exists>q'. enq s q = Some q' \<and> invar q' \<and> contents q' = contents q @ payload s q
         \<and> capacity q' = capacity q \<and> (\<forall>d. dst_ok d q \<longrightarrow> dst_ok d q')"
    and deq_takes: "invar q \<Longrightarrow> dst_ok d q \<Longrightarrow>
      \<exists>q'. deq d q = Some q' \<and> invar q' \<and> contents q' = drop (want d) (contents q)
         \<and> delivered d q q' = take (want d) (contents q) \<and> capacity q' = capacity q"
begin

lemma enq_deq_empty:
  assumes "invar q" "contents q = []" "src_ok s q" "dst_ok d q"
    and "length (payload s q) \<le> capacity q" "length (payload s q) \<le> want d"
  shows "\<exists>q1 q2. enq s q = Some q1 \<and> deq d q1 = Some q2 \<and> invar q2
           \<and> delivered d q1 q2 = payload s q \<and> contents q2 = []"
proof -
  obtain q1 where q1: "enq s q = Some q1" "invar q1" "contents q1 = payload s q" "dst_ok d q1"
    using enq_fits [of q s] assms by auto
  obtain q2 where "deq d q1 = Some q2" "invar q2" "contents q2 = drop (want d) (contents q1)"
      "delivered d q1 q2 = take (want d) (contents q1)"
    using deq_takes [OF q1(2,4)] by blast
  with q1 assms show ?thesis by auto
qed

lemma deq_order:
  assumes "invar q" "dst_ok d q" "src_ok s q"
    and "length (contents q) + length (payload s q) \<le> capacity q"
    and "want d \<le> length (contents q)"
  shows "\<exists>q1 q2. enq s q = Some q1 \<and> deq d q1 = Some q2 \<and> invar q2
           \<and> delivered d q1 q2 = take (want d) (contents q)
           \<and> contents q2 = drop (want d) (contents q) @ payload s q"
proof -
  obtain q1 where q1: "enq s q = Some q1" "invar q1" "contents q1 = contents q @ payload s q"
      "dst_ok d q1"
    using enq_fits [of q s] assms by auto
  obtain q2 where "deq d q1 = Some q2" "invar q2" "contents q2 = drop (want d) (contents q1)"
      "delivered d q1 q2 = take (want d) (contents q1)"
    using deq_takes [OF q1(2,4)] by blast
  with q1 assms show ?thesis by auto
qed

end

end
