(* ===== verification/Peripherals.thy ===== *)
theory Peripherals
  imports Prelude
begin

text \<open>
  The machine the drivers run on: memory-mapped registers
  (\<^verbatim>\<open>include/eagle_soc.h\<close>), the register layout of the UARTs
  (\<^verbatim>\<open>app/include/driver/uart_register.h\<close>), the GPIO macros (\<^verbatim>\<open>include/gpio.h\<close>) and the
  calls into the SDK and the boot ROM.

  The hardware and the SDK are not part of the sources. They are parameters of the state:
  \<open>dev n\<close> is what the hardware makes of the registers before the \<open>n\<close>-th access,
  \<open>sdk_ret n\<close> is what the SDK answers at that time. Nothing is assumed of them here; a
  theorem that needs, say, that a configuration register keeps the value written to it
  says so in a hypothesis. Register writes and calls are recorded in order in \<open>log\<close>.
  \<open>ram\<close> is the byte memory and \<open>blocks\<close> the sizes of the allocated heap blocks; where a
  block lies (or whether there is none left) is the SDK's choice, and a fresh block holds
  the bytes \<open>junk\<close> gives.
\<close>

section \<open>Calls into the SDK\<close>

datatype STATUS = OK | FAIL | PENDING | BUSY | CANCEL

datatype GPIO_INT_TYPE =
    GPIO_PIN_INTR_DISABLE | GPIO_PIN_INTR_POSEDGE | GPIO_PIN_INTR_NEGEDGE
  | GPIO_PIN_INTR_ANYEDGE | GPIO_PIN_INTR_LOLEVEL | GPIO_PIN_INTR_HILEVEL

text \<open>The timers of the firmware; the key timers carry the key's index.\<close>

datatype timer =
    key_3s nat | key_50ms nat | dns_timer | sc_timer | xlink_loop_timer | key_tmr
  | buff_timer_t | mqttTimer_t | WiFiLinker

text \<open>The firmware's functions that are installed as callbacks.\<close>

datatype (plugins del: quickcheck_random quickcheck_exhaustive quickcheck_narrowing
    quickcheck_bounded_forall quickcheck_full_exhaustive lifting transfer) callback =
    key_intr_handler_cb | key_3s_cb_fn | key_50ms_cb_fn | uart0_rx_intr_handler_cb
  | uart_intr_handler_cb | uart_recvTask_cb | uart0_write_char_cb | uart0_write_char_no_wait_cb
  | uart1_write_char_cb | hw_timer_isr_cb_fn | uart_test_rx_cb
  | user_smartconfig_timeout_cb_fn | user_smartconfig_done_cb | user_restart_cb
  | user_tcp_dns_check_cb_fn | user_tcp_dns_found_cb | user_tcp_func_process_cb
  | user_tcp_connect_cb_fn | user_tcp_disconnect_cb_fn | user_tcp_reconnect_cb_fn
  | user_tcp_recv_cb_fn | user_tcp_sent_cb_fn | user_udp_recv_cb_fn
  | modbus_receive_cb | modbus_send_cb | user_net_send_pipe_cb
  | user_key_long_press_cb | user_key_short_press_cb | app_init_cb
  | mqtt_dns_found_cb | mqtt_tcpclient_recv_cb | mqtt_tcpclient_sent_cb_fn | mqtt_tcpclient_connect_cb_fn
  | mqtt_tcpclient_discon_cb_fn | mqtt_tcpclient_recon_cb_fn | mqtt_timer_cb | MQTT_Task_cb
  | mqttConnectedCb_fn | mqttDisconnectedCb_fn | mqttPublishedCb_fn | mqttDataCb_fn | wifiConnectCb_fn | wifi_check_ip_cb

datatype conn = user_tcp_client_conn | user_udp_server_conn | mqtt_espconn ptr

text \<open>Calls whose effect the firmware does not see, with their arguments, by SDK module.\<close>

datatype os_call =
    Ets_isr_attach u8 callback | Nmi_tim_set_func callback | Ets_isr_unmask u32 | Ets_isr_mask u32
  | System_os_task callback u8 u8 | System_os_post u8 u32 u32 | Os_install_putc1 callback
  | Os_timer_disarm timer | Os_timer_setfn timer callback | Os_timer_arm timer u32 bool
  | Os_delay_us u16 | Os_free ptr

datatype io_call =
    Uart_div_modify u8 u32 | Gpio_init | Gpio_output_set u32 u32 u32 u32 | Gpio_register_set u32 u32
  | Gpio_pin_intr_state_set u32 GPIO_INT_TYPE
  | Spi_flash_erase_sector u16 | Spi_flash_write u32 "u8 list"

datatype net_call =
    Espconn_connect conn | Espconn_disconnect conn | Espconn_create conn
  | Espconn_send conn "u8 list" | Espconn_regist conn callback
  | Espconn_gethostbyname conn string callback | Espconn_gethostbyname_ptr conn ptr callback
  | Espconn_delete conn | Espconn_secure_connect conn | Espconn_secure_disconnect conn
  | Espconn_secure_send conn "u8 list"

datatype xlink_call =
    Xsdk_closeTCP int | SetServerStatus u8 u8 | Process_tcp_data "u8 list"
  | Process_udp_data "u8 list" u32 u16 | XlinkSendTcpPipe2 "u8 list" | XlinkSendUdpPipe "u8 list" u32 u16
  | XlinkSystemLoop u32 int | XlinkSystemInit string string | XlinkSetACK int
  | XlinkSystemSetDeviceName string | XlinkPorcess_UDP_Enable | XlinkSystemSetWifiStatus u8
  | XlinkReSetSDK

datatype system_call =
    Wifi_set_opmode u8 | Wifi_station_set_config | Wifi_station_disconnect | Wifi_station_connect
  | Smartconfig_start callback | Smartconfig_stop | Smartconfig_set_type u8
  | System_restore | System_restart | System_uart_swap | System_init_done_cb callback
  | Wifi_set_opmode_current u8 | Wifi_station_set_config_current "u8 list"

datatype sdk_call =
    Os os_call | Io io_call | Net net_call | Xlink xlink_call | System system_call

text \<open>Values the firmware asks the SDK for.\<close>

datatype sdk_query =
    system_get_time | gpio_input_get | system_get_free_heap_size
  | wifi_get_opmode | wifi_station_get_connect_status | wifi_get_ip_info_ip
  | os_malloc_addr nat | xlink_get_ack | espconn_port | espconn_send_result | espconn_secure_send_result
  | system_get_chip_id

section \<open>Registers\<close>

datatype io_event = Reg_write u32 u32 | Call sdk_call

record soc =
  regs :: "u32 \<Rightarrow> u32"
  dev :: "nat \<Rightarrow> (u32 \<Rightarrow> u32) \<Rightarrow> (u32 \<Rightarrow> u32)"
  sdk_ret :: "nat \<Rightarrow> sdk_query \<Rightarrow> u32"
  junk :: "nat \<Rightarrow> ptr \<Rightarrow> u8"
  clk :: nat
  log :: "io_event list"
  ram :: mem
  blocks :: "ptr \<rightharpoonup> nat"

definition READ_PERI_REG :: "u32 \<Rightarrow> 'a soc_scheme \<Rightarrow> u32 \<times> 'a soc_scheme" where
  "READ_PERI_REG a s =
     (let r = dev s (clk s) (regs s) in (r a, s\<lparr>regs := r, clk := Suc (clk s)\<rparr>))"

definition WRITE_PERI_REG :: "u32 \<Rightarrow> u32 \<Rightarrow> 'a soc_scheme \<Rightarrow> 'a soc_scheme" where
  "WRITE_PERI_REG a v s =
     s\<lparr>regs := (regs s)(a := v), clk := Suc (clk s), log := log s @ [Reg_write a v]\<rparr>"

definition CLEAR_PERI_REG_MASK :: "u32 \<Rightarrow> u32 \<Rightarrow> 'a soc_scheme \<Rightarrow> 'a soc_scheme" where
  "CLEAR_PERI_REG_MASK reg msk s =
     (let (v, s) = READ_PERI_REG reg s in WRITE_PERI_REG reg (v AND NOT msk) s)"

definition SET_PERI_REG_MASK :: "u32 \<Rightarrow> u32 \<Rightarrow> 'a soc_scheme \<Rightarrow> 'a soc_scheme" where
  "SET_PERI_REG_MASK reg msk s =
     (let (v, s) = READ_PERI_REG reg s in WRITE_PERI_REG reg (v OR msk) s)"

definition SET_PERI_REG_BITS :: "u32 \<Rightarrow> u32 \<Rightarrow> u32 \<Rightarrow> nat \<Rightarrow> 'a soc_scheme \<Rightarrow> 'a soc_scheme" where
  "SET_PERI_REG_BITS reg bit_map value shift s =
     (let (v, s) = READ_PERI_REG reg s
      in WRITE_PERI_REG reg ((v AND NOT (push_bit shift bit_map)) OR push_bit shift value) s)"

definition call :: "sdk_call \<Rightarrow> 'a soc_scheme \<Rightarrow> 'a soc_scheme" where
  "call c s = s\<lparr>clk := Suc (clk s), log := log s @ [Call c]\<rparr>"

definition ask :: "sdk_query \<Rightarrow> 'a soc_scheme \<Rightarrow> u32 \<times> 'a soc_scheme" where
  "ask q s = (sdk_ret s (clk s) q, s\<lparr>clk := Suc (clk s)\<rparr>)"

section \<open>The heap\<close>

definition fill_block :: "ptr \<Rightarrow> nat \<Rightarrow> (ptr \<Rightarrow> u8) \<Rightarrow> mem \<Rightarrow> mem" where
  "fill_block p n f m = (\<lambda>a. if p \<le> a \<and> a < p + n then Some (f a) else m a)"

definition os_alloc :: "nat \<Rightarrow> (ptr \<Rightarrow> u8) \<Rightarrow> 'a soc_scheme \<Rightarrow> ptr \<times> 'a soc_scheme" where
  "os_alloc n f s =
     (let (a, s) = ask (os_malloc_addr n) s; p = unat a
      in if p = NULL then (NULL, s)
         else (p, s\<lparr>ram := fill_block p n f (ram s), blocks := (blocks s)(p \<mapsto> n)\<rparr>))"

definition os_malloc :: "nat \<Rightarrow> 'a soc_scheme \<Rightarrow> ptr \<times> 'a soc_scheme" where
  "os_malloc n s = os_alloc n (junk s (clk s)) s"

definition os_zalloc :: "nat \<Rightarrow> 'a soc_scheme \<Rightarrow> ptr \<times> 'a soc_scheme" where
  "os_zalloc n s = os_alloc n (\<lambda>a. 0) s"

text \<open>Freeing takes the block's bytes out of memory; a pointer that is not a block is undefined.\<close>

definition os_free :: "ptr \<Rightarrow> 'a soc_scheme \<Rightarrow> 'a soc_scheme option" where
  "os_free p s =
     (if p = NULL then Some s
      else case blocks s p of
        None \<Rightarrow> None
      | Some n \<Rightarrow> Some (s\<lparr>ram := (\<lambda>a. if p \<le> a \<and> a < p + n then None else ram s a),
                         blocks := (blocks s)(p := None)\<rparr>))"

definition load8 :: "ptr \<Rightarrow> 'a soc_scheme \<Rightarrow> u8 option" where
  "load8 a s = ram s a"

definition store8 :: "ptr \<Rightarrow> u8 \<Rightarrow> 'a soc_scheme \<Rightarrow> 'a soc_scheme option" where
  "store8 a v s = (case ram s a of None \<Rightarrow> None | Some w \<Rightarrow> Some (s\<lparr>ram := (ram s)(a \<mapsto> v)\<rparr>))"

definition os_memcpy :: "ptr \<Rightarrow> ptr \<Rightarrow> nat \<Rightarrow> 'a soc_scheme \<Rightarrow> 'a soc_scheme option" where
  "os_memcpy d p n s = map_option (\<lambda>m. s\<lparr>ram := m\<rparr>) (memcpy d p n (ram s))"

definition os_memset :: "ptr \<Rightarrow> u8 \<Rightarrow> nat \<Rightarrow> 'a soc_scheme \<Rightarrow> 'a soc_scheme option" where
  "os_memset d v n s = map_option (\<lambda>m. s\<lparr>ram := m\<rparr>) (memset d v n (ram s))"

text \<open>A C string literal as its bytes.\<close>

definition bytes :: "string \<Rightarrow> u8 list" where
  "bytes str = map of_char str"

section \<open>Pins, GPIO and interrupts\<close>

definition BIT :: "nat \<Rightarrow> u32" where
  "BIT nr = push_bit nr 1"

definition PIN_PULLUP_DIS :: "u32 \<Rightarrow> 'a soc_scheme \<Rightarrow> 'a soc_scheme" where
  "PIN_PULLUP_DIS pin s = CLEAR_PERI_REG_MASK pin (BIT 7) s"

definition PIN_FUNC_SELECT :: "u32 \<Rightarrow> u32 \<Rightarrow> 'a soc_scheme \<Rightarrow> 'a soc_scheme" where
  "PIN_FUNC_SELECT pin func s =
     (let (v, s) = READ_PERI_REG pin s
      in WRITE_PERI_REG pin ((v AND NOT (push_bit 4 0x13)) OR
           push_bit 4 (push_bit 2 (func AND BIT 2) OR (func AND 0x3))) s)"

definition GPIO_REG_READ :: "u32 \<Rightarrow> 'a soc_scheme \<Rightarrow> u32 \<times> 'a soc_scheme" where
  "GPIO_REG_READ reg s = READ_PERI_REG (0x60000300 + reg) s"

definition GPIO_REG_WRITE :: "u32 \<Rightarrow> u32 \<Rightarrow> 'a soc_scheme \<Rightarrow> 'a soc_scheme" where
  "GPIO_REG_WRITE reg v s = WRITE_PERI_REG (0x60000300 + reg) v s"

definition GPIO_PIN_ADDR :: "u32 \<Rightarrow> u32" where
  "GPIO_PIN_ADDR i = 0x28 + i * 4"

definition GPIO_INPUT_GET :: "nat \<Rightarrow> 'a soc_scheme \<Rightarrow> u32 \<times> 'a soc_scheme" where
  "GPIO_INPUT_GET gpio_no s =
     (let (v, s) = ask gpio_input_get s in (drop_bit gpio_no v AND 1, s))"

definition GPIO_OUTPUT_SET :: "nat \<Rightarrow> u32 \<Rightarrow> 'a soc_scheme \<Rightarrow> 'a soc_scheme" where
  "GPIO_OUTPUT_SET gpio_no bit_value s =
     call (Io (Gpio_output_set (push_bit gpio_no bit_value)
             (push_bit gpio_no (NOT bit_value AND 1)) (push_bit gpio_no 1) 0)) s"

definition GPIO_DIS_OUTPUT :: "nat \<Rightarrow> 'a soc_scheme \<Rightarrow> 'a soc_scheme" where
  "GPIO_DIS_OUTPUT gpio_no s = call (Io (Gpio_output_set 0 0 0 (push_bit gpio_no 1))) s"

definition ETS_UART_INTR_ENABLE :: "'a soc_scheme \<Rightarrow> 'a soc_scheme" where
  "ETS_UART_INTR_ENABLE s = call (Os (Ets_isr_unmask (BIT 5))) s"

definition ETS_UART_INTR_DISABLE :: "'a soc_scheme \<Rightarrow> 'a soc_scheme" where
  "ETS_UART_INTR_DISABLE s = call (Os (Ets_isr_mask (BIT 5))) s"

definition ETS_GPIO_INTR_ENABLE :: "'a soc_scheme \<Rightarrow> 'a soc_scheme" where
  "ETS_GPIO_INTR_ENABLE s = call (Os (Ets_isr_unmask (BIT 4))) s"

definition ETS_GPIO_INTR_DISABLE :: "'a soc_scheme \<Rightarrow> 'a soc_scheme" where
  "ETS_GPIO_INTR_DISABLE s = call (Os (Ets_isr_mask (BIT 4))) s"

section \<open>UART register layout\<close>

definition REG_UART_BASE :: "u8 \<Rightarrow> u32" where
  "REG_UART_BASE i = 0x60000000 + ucast i * 0xf00"

definition UART_FIFO :: "u8 \<Rightarrow> u32" where "UART_FIFO i = REG_UART_BASE i + 0x0"
definition UART_INT_ST :: "u8 \<Rightarrow> u32" where "UART_INT_ST i = REG_UART_BASE i + 0x8"
definition UART_INT_ENA :: "u8 \<Rightarrow> u32" where "UART_INT_ENA i = REG_UART_BASE i + 0xC"
definition UART_INT_CLR :: "u8 \<Rightarrow> u32" where "UART_INT_CLR i = REG_UART_BASE i + 0x10"
definition UART_STATUS :: "u8 \<Rightarrow> u32" where "UART_STATUS i = REG_UART_BASE i + 0x1C"
definition UART_CONF0 :: "u8 \<Rightarrow> u32" where "UART_CONF0 i = REG_UART_BASE i + 0x20"
definition UART_CONF1 :: "u8 \<Rightarrow> u32" where "UART_CONF1 i = REG_UART_BASE i + 0x24"

text \<open>The interrupt bits have the same position in the status, enable and clear registers.\<close>

definition UART_RXFIFO_TOUT_INT :: u32 where "UART_RXFIFO_TOUT_INT = BIT 8"
definition UART_RXFIFO_OVF_INT :: u32 where "UART_RXFIFO_OVF_INT = BIT 4"
definition UART_FRM_ERR_INT :: u32 where "UART_FRM_ERR_INT = BIT 3"
definition UART_TXFIFO_EMPTY_INT :: u32 where "UART_TXFIFO_EMPTY_INT = BIT 1"
definition UART_RXFIFO_FULL_INT :: u32 where "UART_RXFIFO_FULL_INT = BIT 0"

text \<open>The byte counts in the status register (8 bits each).\<close>

definition txfifo_cnt :: "u32 \<Rightarrow> u32" where
  "txfifo_cnt status = drop_bit 16 status AND 0xFF"

definition rxfifo_cnt :: "u32 \<Rightarrow> u32" where
  "rxfifo_cnt status = drop_bit 0 status AND 0xFF"

section \<open>Timers, and reading back a configuration register\<close>

text \<open>The timers of the SDK.\<close>

definition os_timer_disarm :: "timer \<Rightarrow> 'a soc_scheme \<Rightarrow> 'a soc_scheme" where
  "os_timer_disarm t s = call (Os (Os_timer_disarm t)) s"

definition os_timer_setfn :: "timer \<Rightarrow> callback \<Rightarrow> 'a soc_scheme \<Rightarrow> 'a soc_scheme" where
  "os_timer_setfn t cb s = call (Os (Os_timer_setfn t cb)) s"

definition os_timer_arm :: "timer \<Rightarrow> u32 \<Rightarrow> bool \<Rightarrow> 'a soc_scheme \<Rightarrow> 'a soc_scheme" where
  "os_timer_arm t ms repeat s = call (Os (Os_timer_arm t ms repeat)) s"

named_theorems reg_simps \<open>effect of the register macros on the state\<close>

text \<open>The hardware leaves the register alone between the firmware's writes.\<close>

definition keeps :: "'a soc_scheme \<Rightarrow> u32 \<Rightarrow> bool" where
  "keeps s a \<longleftrightarrow> (\<forall>n r. dev s n r a = r a)"

lemma read_fields [reg_simps]:
  "fst (READ_PERI_REG a s) = dev s (clk s) (regs s) a"
  "regs (snd (READ_PERI_REG a s)) = dev s (clk s) (regs s)"
  "dev (snd (READ_PERI_REG a s)) = dev s"
  "sdk_ret (snd (READ_PERI_REG a s)) = sdk_ret s"
  "clk (snd (READ_PERI_REG a s)) = Suc (clk s)"
  "log (snd (READ_PERI_REG a s)) = log s"
  "ram (snd (READ_PERI_REG a s)) = ram s"
  "blocks (snd (READ_PERI_REG a s)) = blocks s"
  by (simp_all add: READ_PERI_REG_def Let_def)

lemma write_fields [reg_simps]:
  "regs (WRITE_PERI_REG a v s) = (regs s)(a := v)"
  "dev (WRITE_PERI_REG a v s) = dev s"
  "sdk_ret (WRITE_PERI_REG a v s) = sdk_ret s"
  "clk (WRITE_PERI_REG a v s) = Suc (clk s)"
  "log (WRITE_PERI_REG a v s) = log s @ [Reg_write a v]"
  "ram (WRITE_PERI_REG a v s) = ram s"
  "blocks (WRITE_PERI_REG a v s) = blocks s"
  by (simp_all add: WRITE_PERI_REG_def)

lemma call_fields [reg_simps]:
  "regs (call c s) = regs s" "dev (call c s) = dev s" "sdk_ret (call c s) = sdk_ret s"
  "clk (call c s) = Suc (clk s)" "log (call c s) = log s @ [Call c]"
  "ram (call c s) = ram s" "blocks (call c s) = blocks s"
  by (simp_all add: call_def)

lemma ask_fields [reg_simps]:
  "fst (ask q s) = sdk_ret s (clk s) q" "regs (snd (ask q s)) = regs s"
  "dev (snd (ask q s)) = dev s" "sdk_ret (snd (ask q s)) = sdk_ret s"
  "clk (snd (ask q s)) = Suc (clk s)" "log (snd (ask q s)) = log s"
  "ram (snd (ask q s)) = ram s" "blocks (snd (ask q s)) = blocks s"
  by (simp_all add: ask_def)

lemma keeps_dev [reg_simps]: "keeps s a \<Longrightarrow> dev s n r a = r a"
  by (simp add: keeps_def)

lemma set_mask_reg [reg_simps]:
  "keeps s a \<Longrightarrow> regs (SET_PERI_REG_MASK a m s) a = regs s a OR m"
  by (simp add: SET_PERI_REG_MASK_def case_prod_beta reg_simps)

lemma clear_mask_reg [reg_simps]:
  "keeps s a \<Longrightarrow> regs (CLEAR_PERI_REG_MASK a m s) a = regs s a AND NOT m"
  by (simp add: CLEAR_PERI_REG_MASK_def case_prod_beta reg_simps)

lemma set_bits_reg [reg_simps]:
  "keeps s a \<Longrightarrow> regs (SET_PERI_REG_BITS a bm v sh s) a
     = (regs s a AND NOT (push_bit sh bm)) OR push_bit sh v"
  by (simp add: SET_PERI_REG_BITS_def case_prod_beta reg_simps)

lemma rmw_env [reg_simps]:
  "dev (SET_PERI_REG_MASK a m s) = dev s" "dev (CLEAR_PERI_REG_MASK a m s) = dev s"
  "dev (SET_PERI_REG_BITS a bm v sh s) = dev s"
  "sdk_ret (SET_PERI_REG_MASK a m s) = sdk_ret s" "sdk_ret (CLEAR_PERI_REG_MASK a m s) = sdk_ret s"
  "sdk_ret (SET_PERI_REG_BITS a bm v sh s) = sdk_ret s"
  "ram (SET_PERI_REG_MASK a m s) = ram s" "ram (CLEAR_PERI_REG_MASK a m s) = ram s"
  "ram (SET_PERI_REG_BITS a bm v sh s) = ram s"
  by (simp_all add: SET_PERI_REG_MASK_def CLEAR_PERI_REG_MASK_def SET_PERI_REG_BITS_def
      case_prod_beta reg_simps)

lemma keeps_cong [reg_simps]:
  "keeps (snd (READ_PERI_REG b s)) a = keeps s a" "keeps (WRITE_PERI_REG b v s) a = keeps s a"
  "keeps (SET_PERI_REG_MASK b m s) a = keeps s a" "keeps (CLEAR_PERI_REG_MASK b m s) a = keeps s a"
  "keeps (SET_PERI_REG_BITS b bm v sh s) a = keeps s a"
  "keeps (call c s) a = keeps s a" "keeps (snd (ask q s)) a = keeps s a"
  by (simp_all add: keeps_def reg_simps)

lemma rmw_other [reg_simps]:
  assumes "keeps s b" "a \<noteq> b"
  shows "regs (SET_PERI_REG_MASK a m s) b = regs s b"
    "regs (CLEAR_PERI_REG_MASK a m s) b = regs s b"
    "regs (SET_PERI_REG_BITS a bm v sh s) b = regs s b"
  using assms by (simp_all add: SET_PERI_REG_MASK_def CLEAR_PERI_REG_MASK_def
      SET_PERI_REG_BITS_def case_prod_beta reg_simps)

text \<open>A machine whose hardware does nothing by itself, for examples.\<close>

definition quiet_soc :: "(u32 \<Rightarrow> u32) \<Rightarrow> soc" where
  "quiet_soc r = \<lparr>regs = r, dev = (\<lambda>n r. r), sdk_ret = (\<lambda>n q. 0), junk = (\<lambda>n a. 0),
     clk = 0, log = [], ram = (\<lambda>a. None), blocks = (\<lambda>a. None)\<rparr>"

lemma keeps_quiet [simp]: "keeps (quiet_soc r) a"
  by (simp add: keeps_def quiet_soc_def)

end
