(* ===== verification/Circular.thy ===== *)
theory Circular
  imports Prelude
begin

text \<open>
  Circular use of a memory area, shared by the byte buffers that keep their positions as
  pointers or as counters: \<open>slot\<close> is the address of the \<open>i\<close>-th byte after position \<open>k\<close> in an
  area of \<open>S\<close> bytes at \<open>base\<close>, \<open>circ\<close> the \<open>n\<close> bytes from position \<open>k\<close> on. The lemmas say what
  one or two block copies, or single stores, make of it.
\<close>

definition slot :: "ptr \<Rightarrow> nat \<Rightarrow> nat \<Rightarrow> nat \<Rightarrow> ptr" where
  "slot base S k i = base + (k + i) mod S"

definition circ :: "ptr \<Rightarrow> nat \<Rightarrow> nat \<Rightarrow> nat \<Rightarrow> mem \<Rightarrow> u8 list" where
  "circ base S k n m = map (\<lambda>i. the (m (slot base S k i))) [0..<n]"

lemma length_circ [simp]: "length (circ base S k n m) = n"
  by (simp add: circ_def)

lemma nth_circ [simp]: "i < n \<Longrightarrow> circ base S k n m ! i = the (m (slot base S k i))"
  by (simp add: circ_def)

lemma circ_0 [simp]: "circ base S k 0 m = []"
  by (simp add: circ_def)

lemma slot_range: "0 < S \<Longrightarrow> base \<le> slot base S k i \<and> slot base S k i < base + S"
  by (simp add: slot_def)

lemma slot_add: "slot base S (k + j) i = slot base S k (j + i)"
  by (simp add: slot_def add.assoc)

lemma slot_mod: "slot base S (k mod S) i = slot base S k i"
  by (simp add: slot_def mod_add_left_eq)

lemma circ_mod: "circ base S (k mod S) n m = circ base S k n m"
  by (simp add: circ_def slot_mod)

lemma mod_add_left_imp_eq: "((k::nat) + i) mod S = (k + j) mod S \<Longrightarrow> i mod S = j mod S"
proof (induction i j rule: linorder_wlog)
  case (le i j)
  then have "S dvd (k + j) - (k + i)"
    using mod_eq_dvd_iff_nat [of "k + i" "k + j" S] by simp
  then show ?case using mod_eq_dvd_iff_nat [OF le(1), of S] by simp
qed simp

lemma slot_inj:
  assumes "slot base S k i = slot base S k j" "i < S" "j < S"
  shows "i = j"
proof -
  have eq: "(k + i) mod S = (k + j) mod S" using assms(1) by (simp add: slot_def)
  have "i mod S = j mod S"
  proof (rule mod_add_left_imp_eq)
    show "(k + i) mod S = (k + j) mod S" by (rule eq)
  qed
  with assms(2,3) show ?thesis by simp
qed

lemma circ_split: "j \<le> n \<Longrightarrow> circ base S k n m = circ base S k j m @ circ base S (k + j) (n - j) m"
  by (rule nth_equalityI) (auto simp: nth_append slot_add)

lemma circ_drop: "j \<le> n \<Longrightarrow> circ base S (k + j) (n - j) m = drop j (circ base S k n m)"
  by (simp add: circ_split)

lemma circ_take: "j \<le> n \<Longrightarrow> circ base S k j m = take j (circ base S k n m)"
  by (simp add: circ_split)

lemma circ_cong:
  "(\<And>i. i < n \<Longrightarrow> m (slot base S k i) = m' (slot base S k i)) \<Longrightarrow> circ base S k n m = circ base S k n m'"
  by (rule nth_equalityI) auto

lemma circ_frame:
  assumes "\<And>a. base \<le> a \<Longrightarrow> a < base + S \<Longrightarrow> m' a = m a" "0 < S"
  shows "circ base S k n m' = circ base S k n m"
  using slot_range [OF assms(2), of base k] by (intro circ_cong assms(1)) auto

lemma circ_linear:
  assumes "k + n \<le> S"
  shows "circ base S k n m = bytes_at m (base + k) n"
  using assms by (intro nth_equalityI) (auto simp: slot_def add.assoc)

lemma circ_wrap:
  assumes "k < S" "S \<le> k + n" "n \<le> S"
  shows "circ base S k n m = bytes_at m (base + k) (S - k) @ bytes_at m base (k + n - S)"
proof -
  have "circ base S k n m = circ base S k (S - k) m @ circ base S (k + (S - k)) (n - (S - k)) m"
    using assms by (intro circ_split) simp
  moreover have "circ base S (k + (S - k)) (n - (S - k)) m = circ base S 0 (k + n - S) m"
    using assms circ_mod [of base S "k + (S - k)" "k + n - S" m] by (simp add: add.commute)
  ultimately show ?thesis using assms by (simp add: circ_linear)
qed

section \<open>Writing after the last byte\<close>

text \<open>
  The memory \<open>m'\<close> holds \<open>bs\<close> in the slots after the first \<open>u\<close> and is otherwise \<open>m\<close>.
\<close>

definition circ_put :: "ptr \<Rightarrow> nat \<Rightarrow> nat \<Rightarrow> u8 list \<Rightarrow> mem \<Rightarrow> mem \<Rightarrow> bool" where
  "circ_put base S k bs m m' \<longleftrightarrow>
     (\<forall>i<length bs. m' (slot base S k i) = Some (bs ! i)) \<and>
     (\<forall>a. (\<forall>i<length bs. a \<noteq> slot base S k i) \<longrightarrow> m' a = m a)"

lemma circ_append:
  assumes "circ_put base S (k + u) bs m m'" "u + length bs \<le> S"
  shows "circ base S k (u + length bs) m' = circ base S k u m @ bs"
proof -
  have "circ base S k u m' = circ base S k u m"
  proof (rule circ_cong)
    fix i assume i: "i < u"
    have "slot base S k i \<noteq> slot base S (k + u) j" if "j < length bs" for j
      using slot_inj [of base S k i "u + j"] i that assms(2) by (auto simp: slot_add)
    then show "m' (slot base S k i) = m (slot base S k i)"
      using assms(1) by (auto simp: circ_put_def)
  qed
  moreover have "circ base S (k + u) (length bs) m' = bs"
    using assms(1) by (intro nth_equalityI) (auto simp: circ_put_def)
  ultimately show ?thesis using circ_split [of u "u + length bs" base S k m'] by simp
qed

lemma circ_put_frame:
  assumes "circ_put base S k bs m m'" "0 < S" "a < base \<or> base + S \<le> a"
  shows "m' a = m a"
proof -
  have "a \<noteq> slot base S k i" for i using slot_range [OF assms(2), of base k i] assms(3) by auto
  then show ?thesis using assms(1) by (auto simp: circ_put_def)
qed

lemma circ_put_defined:
  assumes "circ_put base S k bs m m'" "0 < S" "valid_range m base S"
  shows "(m' a = None) = (m a = None)"
proof (cases "\<exists>i<length bs. a = slot base S k i")
  case True
  then obtain i where i: "i < length bs" "a = slot base S k i" by blast
  have "m a \<noteq> None"
    using assms(2,3) i(2) by (simp add: valid_range_iff slot_def)
  then show ?thesis using assms(1) i by (auto simp: circ_put_def)
qed (use assms(1) in \<open>auto simp: circ_put_def\<close>)

lemma circ_put_Nil: "circ_put base S k [] m m"
  by (simp add: circ_put_def)

lemma circ_put_Cons:
  assumes "circ_put base S (Suc k) bs (m(slot base S k 0 \<mapsto> b)) m'" "length bs < S"
  shows "circ_put base S k (b # bs) m m'"
proof -
  have suc: "slot base S (Suc k) i = slot base S k (Suc i)" for i
    by (simp add: slot_def)
  have ne: "slot base S k 0 \<noteq> slot base S k (Suc i)" if "i < length bs" for i
    using slot_inj [of base S k 0 "Suc i"] that assms(2) by auto
  have m'0: "m' (slot base S k 0) = Some b"
    using assms(1) ne by (auto simp: circ_put_def suc)
  moreover have "m' (slot base S k (Suc i)) = Some (bs ! i)" if "i < length bs" for i
    using assms(1) that by (auto simp: circ_put_def suc)
  moreover have "m' a = m a" if a: "\<forall>i<Suc (length bs). a \<noteq> slot base S k i" for a
  proof -
    have "a \<noteq> slot base S k 0" "\<forall>i<length bs. a \<noteq> slot base S k (Suc i)"
      using a by auto
    then show ?thesis using assms(1) by (auto simp: circ_put_def suc)
  qed
  ultimately show ?thesis
    by (auto simp: circ_put_def nth_Cons split: nat.splits)
qed

lemma circ_put_store: "0 < S \<Longrightarrow> circ_put base S k [b] m (m(slot base S k 0 \<mapsto> b))"
  by (intro circ_put_Cons circ_put_Nil) simp

lemma circ_put_one:
  assumes "memcpy (base + k) src n m = Some m'" "k + n \<le> S"
  shows "circ_put base S k (bytes_at m src n) m m'"
proof -
  have m': "m' = (\<lambda>a. if base + k \<le> a \<and> a < base + k + n then m (src + (a - (base + k))) else m a)"
    and v: "valid_range m src n"
    using assms(1) by (auto simp: memcpy_def split: if_splits)
  have sl: "slot base S k i = base + k + i" if "i < n" for i
    using that assms(2) by (simp add: slot_def)
  have "m' (slot base S k i) = Some (bytes_at m src n ! i)" if "i < n" for i
    using that v by (auto simp: m' sl valid_range_iff)
  moreover have "m' a = m a" if "\<forall>i<n. a \<noteq> slot base S k i" for a
  proof (cases "base + k \<le> a \<and> a < base + k + n")
    case True
    then have "a = slot base S k (a - (base + k))" "a - (base + k) < n"
      using sl [of "a - (base + k)"] by auto
    with that show ?thesis by blast
  qed (auto simp: m')
  ultimately show ?thesis by (simp add: circ_put_def)
qed

lemma circ_put_trans:
  assumes "circ_put base S k xs m m1" "circ_put base S (k + length xs) ys m1 m2"
    and "length xs + length ys \<le> S"
  shows "circ_put base S k (xs @ ys) m m2"
proof -
  have far: "slot base S k i \<noteq> slot base S (k + length xs) j"
    if "i < length xs" "j < length ys" for i j
    using slot_inj [of base S k i "length xs + j"] that assms(3) by (auto simp: slot_add)
  have "m2 (slot base S k i) = Some ((xs @ ys) ! i)" if "i < length xs + length ys" for i
  proof (cases "i < length xs")
    case True
    then have "m2 (slot base S k i) = m1 (slot base S k i)"
      using assms(2) far by (auto simp: circ_put_def)
    then show ?thesis using True assms(1) by (auto simp: circ_put_def nth_append)
  next
    case False
    then have "slot base S k i = slot base S (k + length xs) (i - length xs)"
      by (simp add: slot_add)
    then show ?thesis using False that assms(2) by (auto simp: circ_put_def nth_append)
  qed
  moreover have "m2 a = m a" if a: "\<forall>i<length xs + length ys. a \<noteq> slot base S k i" for a
  proof -
    have "\<forall>i<length xs. a \<noteq> slot base S k i" using a by auto
    moreover have "\<forall>j<length ys. a \<noteq> slot base S (k + length xs) j"
      using a by (auto simp: slot_add)
    ultimately show ?thesis using assms(1,2) by (auto simp: circ_put_def)
  qed
  ultimately show ?thesis by (simp add: circ_put_def)
qed

lemma circ_put_mod: "circ_put base S (k mod S) bs m m' = circ_put base S k bs m m'"
  by (simp add: circ_put_def slot_mod)

text \<open>Two copies, the first up to the end of the area and the second from its start.\<close>

lemma circ_put_two:
  assumes c1: "memcpy (base + k) src r m = Some m1" and r: "r = S - k" "k < S"
    and c2: "memcpy base (src + r) (n - r) m1 = Some m2" and n: "r \<le> n" "n \<le> S"
    and away: "disjoint_ranges base S src n"
  shows "circ_put base S k (bytes_at m src n) m m2"
proof -
  have p1: "circ_put base S k (bytes_at m src r) m m1"
    using c1 r by (intro circ_put_one) auto
  have "bytes_at m1 (src + r) (n - r) = bytes_at m (src + r) (n - r)"
    using c1 away r n by (intro bytes_at_memcpy_frame) (auto simp: disjoint_ranges_def)
  moreover have "circ_put base S 0 (bytes_at m1 (src + r) (n - r)) m1 m2"
    using c2 n by (intro circ_put_one) auto
  moreover have "(k + r) mod S = 0" using r by simp
  ultimately have p2: "circ_put base S (k + r) (bytes_at m (src + r) (n - r)) m1 m2"
    using circ_put_mod [of base S "k + r"] by metis
  have "bytes_at m src n = bytes_at m src r @ bytes_at m (src + r) (n - r)"
    using bytes_at_append [of m src r "n - r"] n by simp
  with circ_put_trans [OF p1] p2 n show ?thesis by simp
qed

section \<open>Reading from the first byte\<close>

lemma circ_get_one:
  assumes "memcpy des (base + k) n m = Some m'" "k + n \<le> S"
  shows "bytes_at m' des n = circ base S k n m"
  using bytes_at_memcpy_dst [OF assms(1)] circ_linear [OF assms(2)] by simp

lemma circ_get_two:
  assumes c1: "memcpy des (base + k) r m = Some m1" and r: "r = S - k" "k < S"
    and c2: "memcpy (des + r) base (n - r) m1 = Some m2" and n: "r \<le> n" "n \<le> S"
    and away: "disjoint_ranges base S des n"
  shows "bytes_at m2 des n = circ base S k n m"
proof -
  have "bytes_at m2 des r = bytes_at m1 des r"
    using c2 n by (intro bytes_at_memcpy_frame) (auto simp: disjoint_ranges_def)
  also have "\<dots> = bytes_at m (base + k) r" by (rule bytes_at_memcpy_dst [OF c1])
  finally have a: "bytes_at m2 des r = bytes_at m (base + k) r" .
  have "bytes_at m2 (des + r) (n - r) = bytes_at m1 base (n - r)"
    by (rule bytes_at_memcpy_dst [OF c2])
  also have "\<dots> = bytes_at m base (n - r)"
    using c1 away r n by (intro bytes_at_memcpy_frame) (auto simp: disjoint_ranges_def)
  finally have b: "bytes_at m2 (des + r) (n - r) = bytes_at m base (n - r)" .
  have "bytes_at m2 des n = bytes_at m2 des r @ bytes_at m2 (des + r) (n - r)"
    using bytes_at_append [of m2 des r "n - r"] n by simp
  also have "\<dots> = circ base S k n m"
    using a b r n by (simp add: circ_wrap add.commute)
  finally show ?thesis .
qed

lemma circ_away:
  assumes "memcpy des src n m = Some m'" "disjoint_ranges base S des n" "0 < S"
  shows "circ base S k j m' = circ base S k j m"
proof (rule circ_cong)
  fix i
  show "m' (slot base S k i) = m (slot base S k i)"
    using slot_range [OF assms(3), of base k i] assms(2)
    by (intro memcpy_frame [OF assms(1)]) (auto simp: disjoint_ranges_def)
qed

end
