(* ===== verification/Uart_Driver.thy ===== *)
theory Uart_Driver
  imports Peripherals Circular
begin

text \<open>
  The UART driver, \<^verbatim>\<open>app/driver/uart.c\<close> and \<^verbatim>\<open>app/include/driver/uart.h\<close>: configuration,
  blocking and non-blocking output, the interrupt handler, and the software transmit and
  receive buffers.

  The configuration macros of \<^verbatim>\<open>uart.h\<close> are the fields of \<open>uart_cfg\<close>, an argument of the
  functions that have code under \<^verbatim>\<open>#if\<close>; \<open>repo_cfg\<close> is the setting of the repository (all
  off). The pointers \<^verbatim>\<open>pTxBuffer\<close> and \<^verbatim>\<open>pRxBuffer\<close> are \<open>None\<close> or the struct they point to;
  the bytes of the buffers are in \<open>ram\<close>. Busy-wait loops on the status register are
  \<open>partial_function (option)\<close>: \<open>None\<close> when the hardware never lets them through.
\<close>

section \<open>Types\<close>

record uart_cfg =
  UART_BUFF_EN :: bool
  UART_SELFTEST :: bool
  UART_HW_RTS :: bool
  UART_HW_CTS :: bool

definition repo_cfg :: uart_cfg where
  "repo_cfg = \<lparr>UART_BUFF_EN = False, UART_SELFTEST = False, UART_HW_RTS = False, UART_HW_CTS = False\<rparr>"

datatype UartBitsNum4Char = FIVE_BITS | SIX_BITS | SEVEN_BITS | EIGHT_BITS
datatype UartStopBitsNum = ONE_STOP_BIT | ONE_HALF_STOP_BIT | TWO_STOP_BIT
datatype UartParityMode = NONE_BITS | ODD_BITS | EVEN_BITS
datatype UartExistParity = STICK_PARITY_DIS | STICK_PARITY_EN
datatype UART_LineLevelInverse =
  UART_None_Inverse | UART_Rxd_Inverse | UART_CTS_Inverse | UART_Txd_Inverse | UART_RTS_Inverse
datatype UART_HwFlowCtrl =
  USART_HardwareFlowControl_None | USART_HardwareFlowControl_RTS
| USART_HardwareFlowControl_CTS | USART_HardwareFlowControl_CTS_RTS
datatype TCPState = RUN | BLOCK

fun bits_val :: "UartBitsNum4Char \<Rightarrow> u32" where
  "bits_val FIVE_BITS = 0x0" | "bits_val SIX_BITS = 0x1"
| "bits_val SEVEN_BITS = 0x2" | "bits_val EIGHT_BITS = 0x3"

fun stop_val :: "UartStopBitsNum \<Rightarrow> u32" where
  "stop_val ONE_STOP_BIT = 0x1" | "stop_val ONE_HALF_STOP_BIT = 0x2" | "stop_val TWO_STOP_BIT = 0x3"

fun parity_val :: "UartParityMode \<Rightarrow> u32" where
  "parity_val NONE_BITS = 0x2" | "parity_val ODD_BITS = 1" | "parity_val EVEN_BITS = 0"

fun exist_parity_val :: "UartExistParity \<Rightarrow> u32" where
  "exist_parity_val STICK_PARITY_DIS = 0" | "exist_parity_val STICK_PARITY_EN = 1"

fun inverse_val :: "UART_LineLevelInverse \<Rightarrow> u32" where
  "inverse_val UART_None_Inverse = 0x0" | "inverse_val UART_Rxd_Inverse = BIT 19"
| "inverse_val UART_CTS_Inverse = BIT 20" | "inverse_val UART_Txd_Inverse = BIT 22"
| "inverse_val UART_RTS_Inverse = BIT 23"

fun flow_val :: "UART_HwFlowCtrl \<Rightarrow> u32" where
  "flow_val USART_HardwareFlowControl_None = 0x0" | "flow_val USART_HardwareFlowControl_RTS = 0x1"
| "flow_val USART_HardwareFlowControl_CTS = 0x2" | "flow_val USART_HardwareFlowControl_CTS_RTS = 0x3"

text \<open>The fields of the ROM's device structure that the driver uses.\<close>

record UartDevice =
  baut_rate :: u32
  data_bits :: UartBitsNum4Char
  exist_parity :: UartExistParity
  parity :: UartParityMode
  stop_bits :: UartStopBitsNum
  TrigLvl :: u8

record UartBuffer =
  UartBuffSize :: u32
  pUartBuff :: ptr
  pInPos :: ptr
  pOutPos :: ptr
  BuffState :: STATUS
  Space :: u16
  TcpControl :: TCPState
  nextBuff :: ptr

record uart_drv = soc +
  UartDev :: UartDevice
  pTxBuffer :: "UartBuffer option"
  pRxBuffer :: "UartBuffer option"

abbreviation (input) UART0 :: u8 where "UART0 \<equiv> 0"
abbreviation (input) UART1 :: u8 where "UART1 \<equiv> 1"

abbreviation (input) UART_CLK_FREQ :: u32 where "UART_CLK_FREQ \<equiv> 80000000"
abbreviation (input) UART_FIFO_LEN :: u8 where "UART_FIFO_LEN \<equiv> 128"
abbreviation (input) UART_TX_BUFFER_SIZE :: u32 where "UART_TX_BUFFER_SIZE \<equiv> 256"
abbreviation (input) UART_RX_BUFFER_SIZE :: u32 where "UART_RX_BUFFER_SIZE \<equiv> 256"

definition PERIPHS_IO_MUX_U0TXD_U :: u32 where "PERIPHS_IO_MUX_U0TXD_U = 0x60000800 + 0x18"
definition PERIPHS_IO_MUX_GPIO2_U :: u32 where "PERIPHS_IO_MUX_GPIO2_U = 0x60000800 + 0x38"
definition PERIPHS_IO_MUX_MTDO_U :: u32 where "PERIPHS_IO_MUX_MTDO_U = 0x60000800 + 0x10"
definition PERIPHS_IO_MUX_MTCK_U :: u32 where "PERIPHS_IO_MUX_MTCK_U = 0x60000800 + 0x08"

section \<open>Interrupt enables\<close>

definition uart_rx_intr_disable :: "u8 \<Rightarrow> 'a soc_scheme \<Rightarrow> 'a soc_scheme" where
  "uart_rx_intr_disable uart_no s =
     CLEAR_PERI_REG_MASK (UART_INT_ENA uart_no) (UART_RXFIFO_FULL_INT OR UART_RXFIFO_TOUT_INT) s"

definition uart_rx_intr_enable :: "u8 \<Rightarrow> 'a soc_scheme \<Rightarrow> 'a soc_scheme" where
  "uart_rx_intr_enable uart_no s =
     SET_PERI_REG_MASK (UART_INT_ENA uart_no) (UART_RXFIFO_FULL_INT OR UART_RXFIFO_TOUT_INT) s"

section \<open>Output\<close>

text \<open>The loop of \<^verbatim>\<open>uart_tx_one_char\<close> that waits for room in the hardware FIFO.\<close>

partial_function (option) uart_tx_wait :: "u8 \<Rightarrow> 'a soc_scheme \<Rightarrow> 'a soc_scheme option" where
  "uart_tx_wait uart s =
     (let (status, s) = READ_PERI_REG (UART_STATUS uart) s;
          fifo_cnt = status AND push_bit 16 0xFF
      in if (drop_bit 16 fifo_cnt AND 0xFF) < 126 then Some s else uart_tx_wait uart s)"

definition uart_tx_one_char :: "u8 \<Rightarrow> u8 \<Rightarrow> 'a soc_scheme \<Rightarrow> (STATUS \<times> 'a soc_scheme) option" where
  "uart_tx_one_char uart TxChar s =
     do { s \<leftarrow> uart_tx_wait uart s;
          Some (OK, WRITE_PERI_REG (UART_FIFO uart) (ucast TxChar) s) }"

definition uart_tx_one_char_no_wait :: "u8 \<Rightarrow> u8 \<Rightarrow> 'a soc_scheme \<Rightarrow> STATUS \<times> 'a soc_scheme" where
  "uart_tx_one_char_no_wait uart TxChar s =
     (let (status, s) = READ_PERI_REG (UART_STATUS uart) s;
          fifo_cnt = (ucast (drop_bit 16 status AND 0xFF) :: u8);
          s = (if fifo_cnt < 126 then WRITE_PERI_REG (UART_FIFO uart) (ucast TxChar) s else s)
      in (OK, s))"

definition uart0_tx_one_char_no_wait :: "u8 \<Rightarrow> 'a soc_scheme \<Rightarrow> STATUS \<times> 'a soc_scheme" where
  "uart0_tx_one_char_no_wait TxChar s =
     (let (status, s) = READ_PERI_REG (UART_STATUS UART0) s;
          fifo_cnt = (ucast (drop_bit 16 status AND 0xFF) :: u8);
          s = (if fifo_cnt < 126 then WRITE_PERI_REG (UART_FIFO UART0) (ucast TxChar) s else s)
      in (OK, s))"

text \<open>A string argument is the list of its bytes; the loops stop at the first 0 or at its end.\<close>

fun uart1_sendStr_no_wait :: "u8 list \<Rightarrow> 'a soc_scheme \<Rightarrow> 'a soc_scheme" where
  "uart1_sendStr_no_wait [] s = s"
| "uart1_sendStr_no_wait (c # str) s =
     (if c = 0 then s
      else uart1_sendStr_no_wait str (snd (uart_tx_one_char_no_wait UART1 c s)))"

fun uart0_sendStr :: "u8 list \<Rightarrow> 'a soc_scheme \<Rightarrow> 'a soc_scheme option" where
  "uart0_sendStr [] s = Some s"
| "uart0_sendStr (c # str) s =
     (if c = 0 then Some s
      else do { (_, s) \<leftarrow> uart_tx_one_char UART0 c s; uart0_sendStr str s })"

definition uart1_write_char :: "u8 \<Rightarrow> 'a soc_scheme \<Rightarrow> 'a soc_scheme option" where
  "uart1_write_char c s =
     (if c = 0x0A
      then do { (_, s) \<leftarrow> uart_tx_one_char UART1 0x0D s;
                (_, s) \<leftarrow> uart_tx_one_char UART1 0x0A s; Some s }
      else if c = 0x0D then Some s
      else do { (_, s) \<leftarrow> uart_tx_one_char UART1 c s; Some s })"

definition uart0_write_char :: "u8 \<Rightarrow> 'a soc_scheme \<Rightarrow> 'a soc_scheme option" where
  "uart0_write_char c s =
     (if c = 0x0A
      then do { (_, s) \<leftarrow> uart_tx_one_char UART0 0x0D s;
                (_, s) \<leftarrow> uart_tx_one_char UART0 0x0A s; Some s }
      else if c = 0x0D then Some s
      else do { (_, s) \<leftarrow> uart_tx_one_char UART0 c s; Some s })"

fun uart0_tx_buffer_loop :: "ptr \<Rightarrow> nat \<Rightarrow> 'a soc_scheme \<Rightarrow> 'a soc_scheme option" where
  "uart0_tx_buffer_loop buf 0 s = Some s"
| "uart0_tx_buffer_loop buf (Suc n) s =
     do { c \<leftarrow> load8 buf s;
          (_, s) \<leftarrow> uart_tx_one_char UART0 c s;
          uart0_tx_buffer_loop (buf + 1) n s }"

definition uart0_tx_buffer :: "ptr \<Rightarrow> u16 \<Rightarrow> 'a soc_scheme \<Rightarrow> 'a soc_scheme option" where
  "uart0_tx_buffer buf len s = uart0_tx_buffer_loop buf (unat len) s"

section \<open>The software buffers\<close>

definition sizeof_UartBuffer :: nat where
  "sizeof_UartBuffer = 28"

definition Uart_Buf_Init ::
  "u32 \<Rightarrow> 'a soc_scheme \<Rightarrow> (UartBuffer option \<times> 'a soc_scheme) option" where
  "Uart_Buf_Init buf_size s =
     (let (heap_size, s) = ask system_get_free_heap_size s
      in if heap_size \<le> buf_size
         then Some (None, uart1_sendStr_no_wait (bytes ''no buf for uart'' @ [0x0A, 0x0D]) s)
         else let (pBuff, s) = os_malloc sizeof_UartBuffer s
              in if pBuff = NULL then None
                 else let (p, s) = os_malloc (unat buf_size) s
                      in Some (Some \<lparr>UartBuffSize = buf_size, pUartBuff = p, pInPos = p,
                           pOutPos = p, BuffState = OK, Space = ucast buf_size,
                           TcpControl = RUN, nextBuff = NULL\<rparr>, s))"

text \<open>\<^verbatim>\<open>p = pUartBuff + (p - pUartBuff) % UartBuffSize\<close>\<close>

definition buf_wrap :: "UartBuffer \<Rightarrow> ptr \<Rightarrow> ptr" where
  "buf_wrap b p = pUartBuff b + (p - pUartBuff b) mod unat (UartBuffSize b)"

definition Uart_Buf_Cpy ::
  "UartBuffer \<Rightarrow> ptr \<Rightarrow> u16 \<Rightarrow> 'a soc_scheme \<Rightarrow> (UartBuffer \<times> 'a soc_scheme) option" where
  "Uart_Buf_Cpy pCur pdata data_len s =
     (if data_len = 0 then Some (pCur, s)
      else let tail_len = (of_nat (pUartBuff pCur + unat (UartBuffSize pCur) - pInPos pCur) :: u16)
           in if data_len \<le> tail_len
              then do { s \<leftarrow> os_memcpy (pInPos pCur) pdata (unat data_len) s;
                        Some (pCur\<lparr>pInPos := buf_wrap pCur (pInPos pCur + unat data_len),
                                   Space := Space pCur - data_len\<rparr>, s) }
              else do { s \<leftarrow> os_memcpy (pInPos pCur) pdata (unat tail_len) s;
                        let pCur = pCur\<lparr>pInPos := buf_wrap pCur (pInPos pCur + unat tail_len),
                                        Space := Space pCur - tail_len\<rparr>;
                        s \<leftarrow> os_memcpy (pInPos pCur) (pdata + unat tail_len)
                               (unat (data_len - tail_len)) s;
                        Some (pCur\<lparr>pInPos := buf_wrap pCur (pInPos pCur + unat (data_len - tail_len)),
                                   Space := Space pCur - (data_len - tail_len)\<rparr>, s) })"

text \<open>
  The structure itself is \<open>pBuff\<close>, its address \<open>p\<close>: both blocks are returned to the heap.
\<close>

definition uart_buf_free :: "ptr \<Rightarrow> UartBuffer \<Rightarrow> 'a soc_scheme \<Rightarrow> 'a soc_scheme option" where
  "uart_buf_free p pBuff s = do { s \<leftarrow> os_free (pUartBuff pBuff) s; os_free p s }"

definition rx_buff_deq ::
  "ptr \<Rightarrow> u16 \<Rightarrow> 'a uart_drv_scheme \<Rightarrow> (u16 \<times> 'a uart_drv_scheme) option" where
  "rx_buff_deq pdata data_len s =
     do { b \<leftarrow> pRxBuffer s;
          let buf_len = (ucast (UartBuffSize b) - Space b :: u16);
          let tail_len = (of_nat (pUartBuff b + unat (UartBuffSize b) - pOutPos b) :: u16);
          let len_tmp = (if buf_len < data_len then buf_len else data_len);
          (b, s) \<leftarrow>
            (if pOutPos b \<le> pInPos b
             then do { s \<leftarrow> os_memcpy pdata (pOutPos b) (unat len_tmp) s;
                       Some (b\<lparr>pOutPos := pOutPos b + unat len_tmp, Space := Space b + len_tmp\<rparr>, s) }
             else if tail_len < len_tmp
             then do { s \<leftarrow> os_memcpy pdata (pOutPos b) (unat tail_len) s;
                       let b = b\<lparr>pOutPos := buf_wrap b (pOutPos b + unat tail_len),
                                 Space := Space b + tail_len\<rparr>;
                       s \<leftarrow> os_memcpy (pdata + unat tail_len) (pOutPos b)
                              (unat (len_tmp - tail_len)) s;
                       Some (b\<lparr>pOutPos := buf_wrap b (pOutPos b + unat (len_tmp - tail_len)),
                               Space := Space b + (len_tmp - tail_len)\<rparr>, s) }
             else do { s \<leftarrow> os_memcpy pdata (pOutPos b) (unat len_tmp) s;
                       Some (b\<lparr>pOutPos := buf_wrap b (pOutPos b + unat len_tmp),
                               Space := Space b + len_tmp\<rparr>, s) });
          let s = s\<lparr>pRxBuffer := Some b\<rparr>;
          Some (len_tmp, if ucast UART_FIFO_LEN \<le> Space b then uart_rx_intr_enable UART0 s else s) }"

text \<open>The loop of \<^verbatim>\<open>Uart_rx_buff_enq\<close>: one byte from the hardware FIFO per round.\<close>

fun rx_fifo_take :: "nat \<Rightarrow> UartBuffer \<Rightarrow> 'a soc_scheme \<Rightarrow> (UartBuffer \<times> 'a soc_scheme) option" where
  "rx_fifo_take 0 b s = Some (b, s)"
| "rx_fifo_take (Suc n) b s =
     (let (v, s) = READ_PERI_REG (UART_FIFO UART0) s
      in do { s \<leftarrow> store8 (pInPos b) (ucast (v AND 0xFF)) s;
              let p = pInPos b + 1;
              rx_fifo_take n
                (b\<lparr>pInPos := (if p = pUartBuff b + unat (UartBuffSize b) then pUartBuff b else p)\<rparr>) s })"

definition Uart_rx_buff_enq :: "'a uart_drv_scheme \<Rightarrow> 'a uart_drv_scheme option" where
  "Uart_rx_buff_enq s =
     (let (status, s) = READ_PERI_REG (UART_STATUS UART0) s;
          fifo_len = (ucast (drop_bit 0 status AND 0xFF) :: u8)
      in do { b \<leftarrow> pRxBuffer s;
              if Space b \<le> ucast fifo_len then Some s
              else do { (b, s) \<leftarrow> rx_fifo_take (unat fifo_len) b s;
                        let b = b\<lparr>Space := Space b - ucast fifo_len\<rparr>;
                        let s = s\<lparr>pRxBuffer := Some b\<rparr>;
                        Some (if ucast UART_FIFO_LEN \<le> Space b then uart_rx_intr_enable UART0 s
                              else s) } })"

definition tx_buff_enq :: "ptr \<Rightarrow> u16 \<Rightarrow> 'a uart_drv_scheme \<Rightarrow> 'a uart_drv_scheme option" where
  "tx_buff_enq pdata data_len s =
     (let s = CLEAR_PERI_REG_MASK (UART_INT_ENA UART0) UART_TXFIFO_EMPTY_INT s
      in do { s \<leftarrow>
        (case pTxBuffer s of
           None \<Rightarrow>
             do { let s = uart1_sendStr_no_wait
                            ([0x0A, 0x0D] @ bytes ''null, create buffer struct'' @ [0x0A, 0x0D]) s;
                  (r, s) \<leftarrow> Uart_Buf_Init UART_TX_BUFFER_SIZE s;
                  case r of
                    None \<Rightarrow> Some (uart1_sendStr_no_wait
                              (bytes ''uart tx MALLOC no buf '' @ [0x0A, 0x0D]) (s\<lparr>pTxBuffer := None\<rparr>))
                  | Some b \<Rightarrow> do { (b, s) \<leftarrow> Uart_Buf_Cpy b pdata data_len s;
                                   Some (s\<lparr>pTxBuffer := Some b\<rparr>) } }
         | Some b \<Rightarrow>
             if data_len \<le> Space b
             then do { (b, s) \<leftarrow> Uart_Buf_Cpy b pdata data_len s; Some (s\<lparr>pTxBuffer := Some b\<rparr>) }
             else Some (uart1_sendStr_no_wait (bytes ''UART TX BUF FULL!!!!'' @ [0x0A, 0x0D]) s));
        let s = SET_PERI_REG_MASK (UART_CONF1 UART0) (push_bit 8 (0x10 AND 0x7F)) s;
        Some (SET_PERI_REG_MASK (UART_INT_ENA UART0) UART_TXFIFO_EMPTY_INT s) })"

text \<open>The loop of \<^verbatim>\<open>tx_fifo_insert\<close>.\<close>

fun tx_fifo_put :: "u8 \<Rightarrow> nat \<Rightarrow> UartBuffer \<Rightarrow> 'a soc_scheme \<Rightarrow> (UartBuffer \<times> 'a soc_scheme) option" where
  "tx_fifo_put uart_no 0 b s = Some (b, s)"
| "tx_fifo_put uart_no (Suc n) b s =
     do { c \<leftarrow> load8 (pOutPos b) s;
          let s = WRITE_PERI_REG (UART_FIFO uart_no) (ucast c) s;
          let p = pOutPos b + 1;
          tx_fifo_put uart_no n
            (b\<lparr>pOutPos := (if p = pUartBuff b + unat (UartBuffSize b) then pUartBuff b else p)\<rparr>) s }"

definition tx_fifo_insert ::
  "UartBuffer \<Rightarrow> u8 \<Rightarrow> u8 \<Rightarrow> 'a soc_scheme \<Rightarrow> (UartBuffer \<times> 'a soc_scheme) option" where
  "tx_fifo_insert pTxBuff data_len uart_no s =
     do { (b, s) \<leftarrow> tx_fifo_put uart_no (unat data_len) pTxBuff s;
          Some (b\<lparr>pOutPos := buf_wrap b (pOutPos b), Space := Space b + ucast data_len\<rparr>, s) }"

definition tx_start_uart_buffer :: "u8 \<Rightarrow> 'a uart_drv_scheme \<Rightarrow> 'a uart_drv_scheme option" where
  "tx_start_uart_buffer uart_no s =
     (let (status, s) = READ_PERI_REG (UART_STATUS uart_no) s;
          tx_fifo_len = (ucast (drop_bit 16 status AND 0xFF) :: u8);
          fifo_remain = UART_FIFO_LEN - tx_fifo_len
      in case pTxBuffer s of
           None \<Rightarrow> Some (uart1_sendStr_no_wait (bytes ''pTxBuff null '' @ [0x0A, 0x0D]) s)
         | Some b \<Rightarrow>
             let data_len = (ucast (UartBuffSize b) - Space b :: u16)
             in if ucast fifo_remain < data_len
                then do { (b, s) \<leftarrow> tx_fifo_insert b fifo_remain uart_no s;
                          Some (SET_PERI_REG_MASK (UART_INT_ENA UART0) UART_TXFIFO_EMPTY_INT
                                 (s\<lparr>pTxBuffer := Some b\<rparr>)) }
                else do { (b, s) \<leftarrow> tx_fifo_insert b (ucast data_len) uart_no s;
                          Some (s\<lparr>pTxBuffer := Some b\<rparr>) })"


text \<open>
  The character callbacks and the self test pass the address of a local variable; \<open>stk\<close> is
  where it lives.
\<close>

definition tx_buff_enq_local :: "ptr \<Rightarrow> u8 \<Rightarrow> 'a uart_drv_scheme \<Rightarrow> 'a uart_drv_scheme option" where
  "tx_buff_enq_local stk chr s = do { s \<leftarrow> store8 stk chr s; tx_buff_enq stk 1 s }"

definition uart0_write_char_no_wait ::
  "uart_cfg \<Rightarrow> ptr \<Rightarrow> u8 \<Rightarrow> 'a uart_drv_scheme \<Rightarrow> 'a uart_drv_scheme option" where
  "uart0_write_char_no_wait cfg stk c s =
     (if UART_BUFF_EN cfg
      then if c = 0x0A
           then do { s \<leftarrow> tx_buff_enq_local stk 0x0D s; tx_buff_enq_local stk 0x0A s }
           else if c = 0x0D then Some s
           else tx_buff_enq_local stk c s
      else if c = 0x0A
           then let s = snd (uart_tx_one_char_no_wait UART0 0x0D s)
                in Some (snd (uart_tx_one_char_no_wait UART0 0x0A s))
           else if c = 0x0D then Some s
           else Some (snd (uart_tx_one_char_no_wait UART0 c s)))"

definition uart_test_rx :: "ptr \<Rightarrow> 'a uart_drv_scheme \<Rightarrow> 'a uart_drv_scheme option" where
  "uart_test_rx uart_buf s =
     do { s \<leftarrow> os_memset uart_buf 0 128 s;
          (len, s) \<leftarrow> rx_buff_deq uart_buf 128 s;
          tx_buff_enq uart_buf len s }"

section \<open>Interrupt handler and receive task\<close>

definition uart0_rx_intr_handler :: "uart_cfg \<Rightarrow> 'a uart_drv_scheme \<Rightarrow> 'a uart_drv_scheme option" where
  "uart0_rx_intr_handler cfg s =
     (let (st, s) = READ_PERI_REG (UART_INT_ST UART0) s
      in if st AND UART_FRM_ERR_INT = UART_FRM_ERR_INT
         then Some (WRITE_PERI_REG (UART_INT_CLR UART0) UART_FRM_ERR_INT
                 (uart1_sendStr_no_wait (bytes ''FRM_ERR'' @ [0x0D, 0x0A]) s))
         else
     let (st, s) = READ_PERI_REG (UART_INT_ST UART0) s
      in if st AND UART_RXFIFO_FULL_INT = UART_RXFIFO_FULL_INT
         then Some (call (Os (System_os_post 0 0 0))
                (WRITE_PERI_REG (UART_INT_CLR UART0) UART_RXFIFO_FULL_INT
                  (uart_rx_intr_disable UART0 s)))
         else
     let (st, s) = READ_PERI_REG (UART_INT_ST UART0) s
      in if st AND UART_RXFIFO_TOUT_INT = UART_RXFIFO_TOUT_INT
         then Some (call (Os (System_os_post 0 0 0))
                (WRITE_PERI_REG (UART_INT_CLR UART0) UART_RXFIFO_TOUT_INT
                  (uart_rx_intr_disable UART0 s)))
         else
     let (st, s) = READ_PERI_REG (UART_INT_ST UART0) s
      in if st AND UART_TXFIFO_EMPTY_INT = UART_TXFIFO_EMPTY_INT
         then do { let s = CLEAR_PERI_REG_MASK (UART_INT_ENA UART0) UART_TXFIFO_EMPTY_INT s;
                   s \<leftarrow> (if UART_BUFF_EN cfg then tx_start_uart_buffer UART0 s else Some s);
                   Some (WRITE_PERI_REG (UART_INT_CLR UART0) UART_TXFIFO_EMPTY_INT s) }
         else
     let (st, s) = READ_PERI_REG (UART_INT_ST UART0) s
      in if st AND UART_RXFIFO_OVF_INT = UART_RXFIFO_OVF_INT
         then Some (uart1_sendStr_no_wait (bytes ''RX OVF!!'' @ [0x0D, 0x0A])
                (WRITE_PERI_REG (UART_INT_CLR UART0) UART_RXFIFO_OVF_INT s))
         else Some s)"

text \<open>The echo loop of the receive task.\<close>

fun uart_echo :: "nat \<Rightarrow> 'a soc_scheme \<Rightarrow> 'a soc_scheme option" where
  "uart_echo 0 s = Some s"
| "uart_echo (Suc n) s =
     (let (v, s) = READ_PERI_REG (UART_FIFO UART0) s
      in do { (_, s) \<leftarrow> uart_tx_one_char UART0 (ucast (v AND 0xFF)) s; uart_echo n s })"

definition uart_recvTask :: "uart_cfg \<Rightarrow> u32 \<Rightarrow> 'a uart_drv_scheme \<Rightarrow> 'a uart_drv_scheme option" where
  "uart_recvTask cfg sig s =
     (if sig = 0
      then if UART_BUFF_EN cfg then Uart_rx_buff_enq s
           else let (status, s) = READ_PERI_REG (UART_STATUS UART0) s;
                    fifo_len = (ucast (drop_bit 0 status AND 0xFF) :: u8)
                in do { s \<leftarrow> uart_echo (unat fifo_len) s;
                        let s = WRITE_PERI_REG (UART_INT_CLR UART0)
                                  (UART_RXFIFO_FULL_INT OR UART_RXFIFO_TOUT_INT) s;
                        Some (uart_rx_intr_enable UART0 s) }
      else Some s)"

section \<open>Configuration\<close>

definition conf0_word :: "UartDevice \<Rightarrow> u32" where
  "conf0_word d =
     push_bit 1 (exist_parity_val (exist_parity d) AND 1) OR
     push_bit 0 (parity_val (parity d) AND 1) OR
     push_bit 4 (stop_val (stop_bits d) AND 3) OR
     push_bit 2 (bits_val (data_bits d) AND 3)"

definition uart_config :: "uart_cfg \<Rightarrow> u8 \<Rightarrow> 'a uart_drv_scheme \<Rightarrow> 'a uart_drv_scheme option" where
  "uart_config cfg uart_no s =
     (let s = (if uart_no = UART1 then PIN_FUNC_SELECT PERIPHS_IO_MUX_GPIO2_U 2 s
               else let s = call (Os (Ets_isr_attach 5 uart0_rx_intr_handler_cb)) s;
                        s = PIN_PULLUP_DIS PERIPHS_IO_MUX_U0TXD_U s;
                        s = PIN_FUNC_SELECT PERIPHS_IO_MUX_U0TXD_U 0 s;
                        s = (if UART_HW_RTS cfg then PIN_FUNC_SELECT PERIPHS_IO_MUX_MTDO_U 4 s else s)
                    in if UART_HW_CTS cfg then PIN_FUNC_SELECT PERIPHS_IO_MUX_MTCK_U 4 s else s)
      in if baut_rate (UartDev s) = 0 then None else
      let s = call (Io (Uart_div_modify uart_no (UART_CLK_FREQ div baut_rate (UartDev s)))) s;
          s = WRITE_PERI_REG (UART_CONF0 uart_no) (conf0_word (UartDev s)) s;
          s = SET_PERI_REG_MASK (UART_CONF0 uart_no) (BIT 17 OR BIT 18) s;
          s = CLEAR_PERI_REG_MASK (UART_CONF0 uart_no) (BIT 17 OR BIT 18) s;
          s = (if uart_no = UART0
               then let s = WRITE_PERI_REG (UART_CONF1 uart_no)
                              (push_bit 0 (100 AND 0x7F) OR
                               (if UART_HW_RTS cfg then push_bit 16 (110 AND 0x7F) OR BIT 23 else 0) OR
                               push_bit 24 (0x02 AND 0x7F) OR BIT 31 OR
                               push_bit 8 (0x10 AND 0x7F)) s;
                        s = (if UART_HW_CTS cfg then SET_PERI_REG_MASK (UART_CONF0 uart_no) (BIT 15) s
                             else s)
                    in SET_PERI_REG_MASK (UART_INT_ENA uart_no) (UART_RXFIFO_TOUT_INT OR UART_FRM_ERR_INT) s
               else WRITE_PERI_REG (UART_CONF1 uart_no)
                      (push_bit 0 (ucast (TrigLvl (UartDev s)) AND 0x7F)) s);
          s = WRITE_PERI_REG (UART_INT_CLR uart_no) 0xFFFF s
      in Some (SET_PERI_REG_MASK (UART_INT_ENA uart_no) (UART_RXFIFO_FULL_INT OR UART_RXFIFO_OVF_INT) s))"

definition uart_init :: "uart_cfg \<Rightarrow> u32 \<Rightarrow> u32 \<Rightarrow> 'a uart_drv_scheme \<Rightarrow> 'a uart_drv_scheme option" where
  "uart_init cfg uart0_br uart1_br s =
     do { let s = call (Os (System_os_task uart_recvTask_cb 0 10)) s;
          s \<leftarrow> uart_config cfg UART0 (s\<lparr>UartDev := (UartDev s)\<lparr>baut_rate := uart0_br\<rparr>\<rparr>);
          s \<leftarrow> uart_config cfg UART1 (s\<lparr>UartDev := (UartDev s)\<lparr>baut_rate := uart1_br\<rparr>\<rparr>);
          let s = ETS_UART_INTR_ENABLE s;
          s \<leftarrow> (if UART_BUFF_EN cfg
               then do { (t, s) \<leftarrow> Uart_Buf_Init UART_TX_BUFFER_SIZE s;
                         let s = s\<lparr>pTxBuffer := t\<rparr>;
                         (r, s) \<leftarrow> Uart_Buf_Init UART_RX_BUFFER_SIZE s;
                         Some (s\<lparr>pRxBuffer := r\<rparr>) }
               else Some s);
          Some (if UART_SELFTEST cfg \<and> UART_BUFF_EN cfg
                then let s = call (Os (Os_timer_disarm buff_timer_t)) s;
                         s = call (Os (Os_timer_setfn buff_timer_t uart_test_rx_cb)) s
                     in call (Os (Os_timer_arm buff_timer_t 10 True)) s
                else s) }"

definition uart_reattach :: "uart_cfg \<Rightarrow> 'a uart_drv_scheme \<Rightarrow> 'a uart_drv_scheme option" where
  "uart_reattach cfg s = uart_init cfg 115200 115200 s"

definition uart_init_2 :: "uart_cfg \<Rightarrow> u32 \<Rightarrow> u32 \<Rightarrow> 'a uart_drv_scheme \<Rightarrow> 'a uart_drv_scheme option" where
  "uart_init_2 cfg uart0_br uart1_br s =
     do { s \<leftarrow> uart_config cfg UART0 (s\<lparr>UartDev := (UartDev s)\<lparr>baut_rate := uart0_br,
                  exist_parity := STICK_PARITY_EN, parity := EVEN_BITS,
                  stop_bits := ONE_STOP_BIT, data_bits := EIGHT_BITS\<rparr>\<rparr>);
          s \<leftarrow> uart_config cfg UART1 (s\<lparr>UartDev := (UartDev s)\<lparr>baut_rate := uart1_br\<rparr>\<rparr>);
          let s = ETS_UART_INTR_ENABLE s;
          Some (call (Os (Os_install_putc1 uart1_write_char_cb)) s) }"

definition UART_SetWordLength :: "u8 \<Rightarrow> UartBitsNum4Char \<Rightarrow> 'a soc_scheme \<Rightarrow> 'a soc_scheme" where
  "UART_SetWordLength uart_no len s = SET_PERI_REG_BITS (UART_CONF0 uart_no) 3 (bits_val len) 2 s"

definition UART_SetStopBits :: "u8 \<Rightarrow> UartStopBitsNum \<Rightarrow> 'a soc_scheme \<Rightarrow> 'a soc_scheme" where
  "UART_SetStopBits uart_no bit_num s = SET_PERI_REG_BITS (UART_CONF0 uart_no) 3 (stop_val bit_num) 4 s"

definition UART_SetLineInverse :: "u8 \<Rightarrow> UART_LineLevelInverse \<Rightarrow> 'a soc_scheme \<Rightarrow> 'a soc_scheme" where
  "UART_SetLineInverse uart_no inverse_mask s =
     (let s = CLEAR_PERI_REG_MASK (UART_CONF0 uart_no) (push_bit 19 0x3F) s
      in SET_PERI_REG_MASK (UART_CONF0 uart_no) (inverse_val inverse_mask) s)"

definition UART_SetParity :: "u8 \<Rightarrow> UartParityMode \<Rightarrow> 'a soc_scheme \<Rightarrow> 'a soc_scheme" where
  "UART_SetParity uart_no Parity_mode s =
     (let s = CLEAR_PERI_REG_MASK (UART_CONF0 uart_no) (BIT 0 OR BIT 1) s
      in if Parity_mode = NONE_BITS then s
         else SET_PERI_REG_MASK (UART_CONF0 uart_no) (parity_val Parity_mode OR BIT 1) s)"

definition UART_SetBaudrate :: "u8 \<Rightarrow> u32 \<Rightarrow> 'a soc_scheme \<Rightarrow> 'a soc_scheme option" where
  "UART_SetBaudrate uart_no baud_rate s =
     (if baud_rate = 0 then None
      else Some (call (Io (Uart_div_modify uart_no (UART_CLK_FREQ div baud_rate))) s))"

definition UART_SetFlowCtrl :: "u8 \<Rightarrow> UART_HwFlowCtrl \<Rightarrow> u8 \<Rightarrow> 'a soc_scheme \<Rightarrow> 'a soc_scheme" where
  "UART_SetFlowCtrl uart_no flow_ctrl rx_thresh s =
     (let s = (if flow_val flow_ctrl AND 0x1 \<noteq> 0
               then let s = PIN_FUNC_SELECT PERIPHS_IO_MUX_MTDO_U 4 s;
                        s = SET_PERI_REG_BITS (UART_CONF1 uart_no) 0x7F (ucast rx_thresh) 16 s
                    in SET_PERI_REG_MASK (UART_CONF1 uart_no) (BIT 23) s
               else CLEAR_PERI_REG_MASK (UART_CONF1 uart_no) (BIT 23) s)
      in if flow_val flow_ctrl AND 0x2 \<noteq> 0
         then let s = PIN_FUNC_SELECT PERIPHS_IO_MUX_MTCK_U 4 s
              in SET_PERI_REG_MASK (UART_CONF0 uart_no) (BIT 15) s
         else CLEAR_PERI_REG_MASK (UART_CONF0 uart_no) (BIT 15) s)"

definition UART_ResetFifo :: "u8 \<Rightarrow> 'a soc_scheme \<Rightarrow> 'a soc_scheme" where
  "UART_ResetFifo uart_no s =
     (let s = SET_PERI_REG_MASK (UART_CONF0 uart_no) (BIT 17 OR BIT 18) s
      in CLEAR_PERI_REG_MASK (UART_CONF0 uart_no) (BIT 17 OR BIT 18) s)"

definition UART_ClearIntrStatus :: "u8 \<Rightarrow> u32 \<Rightarrow> 'a soc_scheme \<Rightarrow> 'a soc_scheme" where
  "UART_ClearIntrStatus uart_no clr_mask s = WRITE_PERI_REG (UART_INT_CLR uart_no) clr_mask s"

definition UART_SetIntrEna :: "u8 \<Rightarrow> u32 \<Rightarrow> 'a soc_scheme \<Rightarrow> 'a soc_scheme" where
  "UART_SetIntrEna uart_no ena_mask s = SET_PERI_REG_MASK (UART_INT_ENA uart_no) ena_mask s"

definition UART_SetPrintPort :: "u8 \<Rightarrow> 'a soc_scheme \<Rightarrow> 'a soc_scheme" where
  "UART_SetPrintPort uart_no s =
     (if uart_no = 1 then call (Os (Os_install_putc1 uart1_write_char_cb)) s
      else let s = call (Os (Os_install_putc1 uart0_write_char_no_wait_cb)) s
           in call (Os (Os_install_putc1 uart0_write_char_cb)) s)"

section \<open>Waiting for the output to drain\<close>

partial_function (option) wait_tx_empty_loop ::
  "u8 \<Rightarrow> u32 \<Rightarrow> u32 \<Rightarrow> 'a soc_scheme \<Rightarrow> 'a soc_scheme option" where
  "wait_tx_empty_loop uart_no t_s time_out_us s =
     (let (status, s) = READ_PERI_REG (UART_STATUS uart_no) s
      in if status AND push_bit 16 0xFF = 0 then Some s
         else let (now, s) = ask system_get_time s
              in if time_out_us < now - t_s then Some s
                 else wait_tx_empty_loop uart_no t_s time_out_us (WRITE_PERI_REG 0x60000914 0x73 s))"

definition UART_WaitTxFifoEmpty :: "u8 \<Rightarrow> u32 \<Rightarrow> 'a soc_scheme \<Rightarrow> 'a soc_scheme option" where
  "UART_WaitTxFifoEmpty uart_no time_out_us s =
     (let (t_s, s) = ask system_get_time s in wait_tx_empty_loop uart_no t_s time_out_us s)"

definition tx_buff_used :: "UartBuffer option \<Rightarrow> u32" where
  "tx_buff_used pb = (case pb of None \<Rightarrow> 0 | Some b \<Rightarrow> UartBuffSize b - ucast (Space b))"

partial_function (option) check_output_loop ::
  "u8 \<Rightarrow> u32 \<Rightarrow> u32 \<Rightarrow> 'a uart_drv_scheme \<Rightarrow> (bool \<times> 'a uart_drv_scheme) option" where
  "check_output_loop uart_no t_start time_out_us s =
     (let (status, s) = READ_PERI_REG (UART_STATUS uart_no) s;
          tx_fifo_len = (ucast (drop_bit 16 status AND 0xFF) :: u8);
          tx_buff_len = tx_buff_used (pTxBuffer s)
      in if tx_fifo_len = 0 \<and> tx_buff_len = 0 then Some (True, s)
         else let (now, s) = ask system_get_time s
              in if time_out_us < now - t_start then Some (False, s)
                 else check_output_loop uart_no t_start time_out_us (WRITE_PERI_REG 0x60000914 0x73 s))"

definition UART_CheckOutputFinished ::
  "u8 \<Rightarrow> u32 \<Rightarrow> 'a uart_drv_scheme \<Rightarrow> (bool \<times> 'a uart_drv_scheme) option" where
  "UART_CheckOutputFinished uart_no time_out_us s =
     (let (t_start, s) = ask system_get_time s in check_output_loop uart_no t_start time_out_us s)"

end
