(* ===== verification/Uart_Proofs.thy ===== *)
theory Uart_Proofs
  imports Uart_Driver
begin

text \<open>
  Correctness of the UART driver: blocking output reaches the hardware FIFO byte by byte
  (\<open>sent\<close>), the software buffers are byte queues (\<open>buf_inv\<close>, \<open>buf_unread\<close>, the
  interpretation \<open>txq\<close> of \<open>byte_fifo\<close>), the receive path never writes outside its
  buffer, the line-parameter setters touch only their own fields, and the timed wait ends.
\<close>

section \<open>Output reaches the FIFO\<close>

text \<open>The hardware FIFO has room again and again.\<close>

definition drains :: "'a soc_scheme \<Rightarrow> u8 \<Rightarrow> u32 \<Rightarrow> bool" where
  "drains s uart lim \<longleftrightarrow> (\<forall>n. \<exists>k. \<forall>r. txfifo_cnt (dev s (n + k) r (UART_STATUS uart)) < lim)"

lemma drains_cong: "dev s = dev s' \<Longrightarrow> drains s u lim = drains s' u lim"
  by (simp add: drains_def)

lemma fifo_cnt_mask: "drop_bit 16 (x AND push_bit 16 0xFF) AND 0xFF = txfifo_cnt (x :: u32)"
  by (rule bit_eqI) (auto simp: txfifo_cnt_def bit_simps)

lemma read_split: "READ_PERI_REG a s = (dev s (clk s) (regs s) a, s\<lparr>regs := dev s (clk s) (regs s), clk := Suc (clk s)\<rparr>)"
  by (simp add: READ_PERI_REG_def Let_def)

lemma uart_tx_wait_unfold:
  "uart_tx_wait u s =
     (let s1 = s\<lparr>regs := dev s (clk s) (regs s), clk := Suc (clk s)\<rparr>
      in if txfifo_cnt (dev s (clk s) (regs s) (UART_STATUS u)) < 126 then Some s1
         else uart_tx_wait u s1)"
  by (subst uart_tx_wait.simps) (simp only: read_split Let_def prod.case fifo_cnt_mask)

lemma uart_tx_wait_returns:
  assumes "\<forall>r. txfifo_cnt (dev s (clk s + k) r (UART_STATUS u)) < 126"
  shows "\<exists>r c. uart_tx_wait u s = Some (s\<lparr>regs := r, clk := c\<rparr>)"
  using assms
proof (induction k arbitrary: s)
  case 0
  then show ?case
    by (subst uart_tx_wait_unfold) (auto simp: Let_def)
next
  case (Suc k)
  let ?s = "s\<lparr>regs := dev s (clk s) (regs s), clk := Suc (clk s)\<rparr>"
  have "\<exists>r c. uart_tx_wait u ?s = Some (?s\<lparr>regs := r, clk := c\<rparr>)"
    using Suc.prems by (intro Suc.IH) simp
  then show ?case
    by (subst uart_tx_wait_unfold) (auto simp: Let_def)
qed

text \<open>What one output leaves behind: the byte in the log, nothing else but the hardware.\<close>

definition sent :: "u8 \<Rightarrow> u8 list \<Rightarrow> 'a soc_scheme \<Rightarrow> 'a soc_scheme \<Rightarrow> bool" where
  "sent u bs s s' \<longleftrightarrow>
     (\<exists>r c. s' = s\<lparr>regs := r, clk := c,
                 log := log s @ map (\<lambda>b. Reg_write (UART_FIFO u) (ucast b)) bs\<rparr>)"

lemma sent_refl [simp]: "sent u [] s s"
  unfolding sent_def by (rule exI [of _ "regs s"], rule exI [of _ "clk s"]) simp

lemma sent_trans: "sent u xs s s1 \<Longrightarrow> sent u ys s1 s2 \<Longrightarrow> sent u (xs @ ys) s s2"
  by (fastforce simp: sent_def)

lemma sent_fields:
  assumes "sent u bs s s'"
  shows "dev s' = dev s" "ram s' = ram s" "blocks s' = blocks s" "sdk_ret s' = sdk_ret s"
    "log s' = log s @ map (\<lambda>b. Reg_write (UART_FIFO u) (ucast b)) bs"
  using assms by (auto simp: sent_def)

lemma drains_sent: "sent u bs s s' \<Longrightarrow> drains s' v lim = drains s v lim"
  by (rule drains_cong) (simp add: sent_fields)

lemma tx_one_char_sent:
  assumes "drains s u 126"
  shows "\<exists>s'. uart_tx_one_char u c s = Some (OK, s') \<and> sent u [c] s s'"
proof -
  obtain k where "\<forall>r. txfifo_cnt (dev s (clk s + k) r (UART_STATUS u)) < 126"
    using assms by (auto simp: drains_def)
  from uart_tx_wait_returns [OF this] obtain r t where
    "uart_tx_wait u s = Some (s\<lparr>regs := r, clk := t\<rparr>)" by blast
  then show ?thesis
    by (auto simp: uart_tx_one_char_def sent_def WRITE_PERI_REG_def)
qed

lemma tx_buffer_loop_sent:
  assumes "drains s UART0 126" "valid_range (ram s) buf n"
  shows "\<exists>s'. uart0_tx_buffer_loop buf n s = Some s' \<and> sent UART0 (bytes_at (ram s) buf n) s s'"
  using assms
proof (induction n arbitrary: buf s)
  case (Suc n)
  obtain c where c: "ram s buf = Some c"
    using Suc.prems(2) by (auto simp: valid_range_iff)
  obtain s1 where s1: "uart_tx_one_char UART0 c s = Some (OK, s1)" "sent UART0 [c] s s1"
    using tx_one_char_sent [OF Suc.prems(1)] by blast
  have "drains s1 UART0 126" "valid_range (ram s1) (buf + 1) n"
    using Suc.prems s1(2) valid_range_sub [of "ram s" buf "Suc n" 1 n]
    by (auto simp: drains_sent sent_fields)
  then obtain s2 where s2: "uart0_tx_buffer_loop (buf + 1) n s1 = Some s2"
      "sent UART0 (bytes_at (ram s1) (buf + 1) n) s1 s2"
    using Suc.IH by blast
  have "bytes_at (ram s) buf (Suc n) = [c] @ bytes_at (ram s) (buf + 1) n"
    using bytes_at_append [of "ram s" buf 1 n] c by (simp add: bytes_at_def)
  with sent_trans [OF s1(2) s2(2)] s1 s2 c show ?case
    by (simp add: load8_def sent_fields)
qed simp

lemma uart0_write_char_newline:
  assumes "drains s UART0 126"
  shows "\<exists>s'. uart0_write_char c s = Some s' \<and>
     sent UART0 (if c = 0x0A then [0x0D, 0x0A] else if c = 0x0D then [] else [c]) s s'"
proof (cases "c = 0x0A")
  case True
  obtain s1 where s1: "uart_tx_one_char UART0 0x0D s = Some (OK, s1)" "sent UART0 [0x0D] s s1"
    using tx_one_char_sent [OF assms] by blast
  obtain s2 where s2: "uart_tx_one_char UART0 0x0A s1 = Some (OK, s2)" "sent UART0 [0x0A] s1 s2"
    using tx_one_char_sent [of s1 UART0 "0x0A"] assms s1 by (auto simp: drains_sent)
  show ?thesis
    using True s1 s2 sent_trans [OF s1(2) s2(2)] by (simp add: uart0_write_char_def)
next
  case False
  then show ?thesis
    using tx_one_char_sent [OF assms, of c] by (auto simp: uart0_write_char_def)
qed

section \<open>The software buffers are byte queues\<close>

definition buf_size :: "UartBuffer \<Rightarrow> nat" where
  "buf_size b = unat (UartBuffSize b)"

definition buf_used :: "UartBuffer \<Rightarrow> nat" where
  "buf_used b = buf_size b - unat (Space b)"

definition buf_off :: "UartBuffer \<Rightarrow> nat" where
  "buf_off b = pOutPos b - pUartBuff b"

definition buf_inv :: "UartBuffer \<Rightarrow> mem \<Rightarrow> bool" where
  "buf_inv b m \<longleftrightarrow> 0 < buf_size b \<and> buf_size b < 2 ^ 16 \<and> unat (Space b) \<le> buf_size b \<and>
     valid_range m (pUartBuff b) (buf_size b) \<and>
     pUartBuff b \<le> pOutPos b \<and> pOutPos b < pUartBuff b + buf_size b \<and>
     pInPos b = pUartBuff b + (buf_off b + buf_used b) mod buf_size b"

definition buf_unread :: "UartBuffer \<Rightarrow> mem \<Rightarrow> u8 list" where
  "buf_unread b m = circ (pUartBuff b) (buf_size b) (buf_off b) (buf_used b) m"

lemmas buf_defs = buf_inv_def buf_size_def buf_used_def buf_off_def

lemma length_buf_unread [simp]: "length (buf_unread b m) = buf_used b"
  by (simp add: buf_unread_def)

lemma buf_inv_cong:
  "(\<And>a. (m' a = None) = (m a = None)) \<Longrightarrow> buf_inv b m' = buf_inv b m"
  by (simp add: buf_inv_def valid_range_iff)

lemma unat_u16_sub: "b \<le> a \<Longrightarrow> unat (a - b :: u16) = unat a - unat b"
  by (rule unat_sub)

text \<open>Where a position moves to when it advances by \<open>n\<close> and is wrapped.\<close>

lemma buf_wrap_mod:
  "buf_wrap b (pUartBuff b + (k mod buf_size b + n)) = pUartBuff b + (k + n) mod buf_size b"
  by (simp add: buf_wrap_def buf_size_def mod_add_left_eq)

definition in_tail :: "UartBuffer \<Rightarrow> u16" where
  "in_tail b = of_nat (pUartBuff b + unat (UartBuffSize b) - pInPos b)"

lemma Uart_Buf_Cpy_one:
  assumes "data_len \<noteq> 0" "data_len \<le> in_tail b"
    and "memcpy (pInPos b) pdata (unat data_len) (ram s) = Some m'"
  shows "Uart_Buf_Cpy b pdata data_len s =
     Some (b\<lparr>pInPos := buf_wrap b (pInPos b + unat data_len), Space := Space b - data_len\<rparr>, s\<lparr>ram := m'\<rparr>)"
  using assms by (simp add: Uart_Buf_Cpy_def in_tail_def [symmetric] os_memcpy_def)

lemma Uart_Buf_Cpy_two:
  assumes "data_len \<noteq> 0" "\<not> data_len \<le> in_tail b"
    and "memcpy (pInPos b) pdata (unat (in_tail b)) (ram s) = Some m1"
    and "memcpy (buf_wrap b (pInPos b + unat (in_tail b))) (pdata + unat (in_tail b))
           (unat (data_len - in_tail b)) m1 = Some m'"
  shows "Uart_Buf_Cpy b pdata data_len s =
     Some (b\<lparr>pInPos := buf_wrap b (buf_wrap b (pInPos b + unat (in_tail b)) + unat (data_len - in_tail b)),
             Space := Space b - data_len\<rparr>, s\<lparr>ram := m'\<rparr>)"
proof -
  have wrap: "buf_wrap (b\<lparr>pInPos := p, Space := x\<rparr>) q = buf_wrap b q" for p q x
    by (simp add: buf_wrap_def)
  show ?thesis
    using assms by (simp add: Uart_Buf_Cpy_def in_tail_def [symmetric] os_memcpy_def wrap Let_def)
qed

lemma Uart_Buf_Cpy_effect:
  assumes inv: "buf_inv b (ram s)" and fit: "data_len \<le> Space b"
    and src: "valid_range (ram s) pdata (unat data_len)"
    and away: "disjoint_ranges (pUartBuff b) (buf_size b) pdata (unat data_len)"
  shows "\<exists>m'. Uart_Buf_Cpy b pdata data_len s =
      Some (b\<lparr>pInPos := pUartBuff b + (buf_off b + buf_used b + unat data_len) mod buf_size b,
              Space := Space b - data_len\<rparr>, s\<lparr>ram := m'\<rparr>)
    \<and> circ_put (pUartBuff b) (buf_size b) (buf_off b + buf_used b)
        (bytes_at (ram s) pdata (unat data_len)) (ram s) m'"
proof (cases "data_len = 0")
  case True
  then have "Uart_Buf_Cpy b pdata data_len s = Some (b, s)"
    by (simp add: Uart_Buf_Cpy_def)
  moreover have "b = b\<lparr>pInPos := pUartBuff b + (buf_off b + buf_used b + unat data_len) mod buf_size b,
              Space := Space b - data_len\<rparr>"
    using inv True by (simp add: buf_inv_def)
  moreover have "circ_put (pUartBuff b) (buf_size b) (buf_off b + buf_used b)
        (bytes_at (ram s) pdata (unat data_len)) (ram s) (ram s)"
    using True by (simp add: circ_put_Nil)
  moreover have "s = s\<lparr>ram := ram s\<rparr>" by simp
  ultimately show ?thesis by metis
next
  case False
  define S where "S = buf_size b"
  define B where "B = pUartBuff b"
  define k where "k = (buf_off b + buf_used b) mod S"
  define n where "n = unat data_len"
  define tl where "tl = in_tail b"
  have S: "0 < S" "S < 2 ^ 16" "unat (Space b) \<le> S" and v: "valid_range (ram s) B S"
    and In: "pInPos b = B + k"
    using inv by (auto simp: buf_inv_def S_def B_def k_def)
  have k: "k < S" using S by (simp add: k_def)
  have tl: "unat tl = S - k"
    using S In by (simp add: tl_def in_tail_def S_def B_def buf_size_def [symmetric] unat_of_nat_u16)
  have n: "n \<le> S" using fit S(3) by (simp add: n_def word_le_nat_alt)
  have away': "disjoint_ranges B S pdata n" using away by (simp add: B_def S_def n_def)
  have src': "valid_range (ram s) pdata n" using src by (simp add: n_def)
  have wrap_k: "buf_wrap b (pUartBuff b + k + j) = pUartBuff b + (buf_off b + buf_used b + j) mod buf_size b" for j
    using buf_wrap_mod [of b "buf_off b + buf_used b" j] by (simp add: k_def S_def add.assoc)
  show ?thesis
  proof (cases "data_len \<le> tl")
    case True
    then have kn: "k + n \<le> S" using tl k by (simp add: word_le_nat_alt n_def)
    obtain m' where m': "memcpy (B + k) pdata n (ram s) = Some m'"
      using memcpy_Some [of "ram s" "B + k" n pdata] v kn src' away'
        valid_range_sub [OF v, of k n] by (auto simp: disjoint_ranges_def)
    have "Uart_Buf_Cpy b pdata data_len s =
      Some (b\<lparr>pInPos := pUartBuff b + (buf_off b + buf_used b + unat data_len) mod buf_size b,
              Space := Space b - data_len\<rparr>, s\<lparr>ram := m'\<rparr>)"
      using Uart_Buf_Cpy_one [of data_len b pdata s m'] False True m' wrap_k [of n] In
      by (simp add: n_def B_def tl_def)
    moreover have "circ_put B S k (bytes_at (ram s) pdata n) (ram s) m'"
      by (rule circ_put_one [OF m' kn])
    ultimately show ?thesis
      by (auto simp: B_def S_def n_def k_def circ_put_mod)
  next
    case gt: False
    let ?r = "S - k"
    have r: "?r < n" using gt tl by (simp add: word_le_nat_alt n_def)
    have rn: "unat (data_len - tl) = n - ?r"
      using gt tl by (simp add: n_def unat_u16_sub)
    have "valid_range (ram s) (B + k) ?r" "valid_range (ram s) pdata ?r"
      "disjoint_ranges (B + k) ?r pdata ?r"
      using k r n away' valid_range_sub [OF v, of k ?r] valid_range_sub [OF src', of 0 ?r]
      by (auto simp: disjoint_ranges_def)
    from memcpy_Some [OF this] obtain m1 where m1: "memcpy (B + k) pdata ?r (ram s) = Some m1"
      by blast
    have v1: "valid_range m1 B (n - ?r)" "valid_range m1 (pdata + ?r) (n - ?r)"
      using valid_range_sub [OF v, of 0 "n - ?r"] valid_range_sub [OF src', of ?r "n - ?r"] n r
      by (auto simp: valid_range_memcpy [OF m1])
    have "disjoint_ranges B (n - ?r) (pdata + ?r) (n - ?r)"
      using away' n r by (auto simp: disjoint_ranges_def)
    from memcpy_Some [OF v1 this] obtain m2
      where m2: "memcpy B (pdata + ?r) (n - ?r) m1 = Some m2" by blast
    have w1: "buf_wrap b (pInPos b + unat tl) = B"
      using In tl k S by (simp add: buf_wrap_def B_def S_def buf_size_def)
    have w2: "buf_wrap b (B + (n - ?r)) = pUartBuff b + (buf_off b + buf_used b + n) mod buf_size b"
    proof -
      have "buf_wrap b (B + (n - ?r)) = B + (n - ?r) mod S"
        by (simp add: buf_wrap_def B_def S_def buf_size_def)
      also have "(n - ?r) mod S = (k + n) mod S"
        using r k n by (metis (no_types, lifting) Nat.add_diff_assoc2 add.commute diff_diff_right
            le_mod_geq less_imp_le_nat nat_le_iff_add ordered_cancel_comm_monoid_diff_class.le_diff_conv2
            less_diff_conv2)
      finally show ?thesis by (simp add: k_def B_def S_def mod_add_left_eq)
    qed
    have "Uart_Buf_Cpy b pdata data_len s =
      Some (b\<lparr>pInPos := pUartBuff b + (buf_off b + buf_used b + unat data_len) mod buf_size b,
              Space := Space b - data_len\<rparr>, s\<lparr>ram := m2\<rparr>)"
      using Uart_Buf_Cpy_two [of data_len b pdata s m1 m2] False gt m1 m2 tl rn w1 w2 In
      by (simp add: n_def tl_def)
    moreover have "circ_put B S k (bytes_at (ram s) pdata n) (ram s) m2"
      using circ_put_two [OF m1 refl k m2] r n away' by simp
    ultimately show ?thesis
      by (auto simp: B_def S_def n_def k_def circ_put_mod)
  qed
qed

lemma buf_inv_enq:
  assumes inv: "buf_inv b m" and n: "n \<le> Space b"
    and put: "circ_put (pUartBuff b) (buf_size b) (buf_off b + buf_used b) bs m m'"
    and len: "length bs = unat n"
  defines "b' \<equiv> b\<lparr>pInPos := pUartBuff b + (buf_off b + buf_used b + unat n) mod buf_size b,
              Space := Space b - n\<rparr>"
  shows "buf_inv b' m'" "buf_unread b' m' = buf_unread b m @ bs"
proof -
  have S: "0 < buf_size b" "unat (Space b) \<le> buf_size b" "valid_range m (pUartBuff b) (buf_size b)"
    using inv by (auto simp: buf_inv_def)
  have f: "buf_size b' = buf_size b" "buf_off b' = buf_off b" "pUartBuff b' = pUartBuff b"
      "pOutPos b' = pOutPos b"
      "pInPos b' = pUartBuff b + (buf_off b + buf_used b + unat n) mod buf_size b"
    by (simp_all add: b'_def buf_size_def buf_off_def)
  have sp: "unat (Space b') = unat (Space b) - unat n"
    using n by (simp add: b'_def unat_u16_sub)
  have u: "buf_used b' = buf_used b + unat n"
    using n S(2) by (simp add: buf_used_def f sp word_le_nat_alt)
  have "buf_inv b' m"
    using inv le_trans [OF diff_le_self S(2), of "unat n"] by (simp add: buf_inv_def f sp u add.assoc)
  then show "buf_inv b' m'"
    using buf_inv_cong [of m' m b'] circ_put_defined [OF put S(1) S(3)] by blast
  show "buf_unread b' m' = buf_unread b m @ bs"
  proof -
    have "buf_used b + length bs \<le> buf_size b"
      using S n len by (simp add: buf_used_def word_le_nat_alt)
    from circ_append [OF put this] show ?thesis by (simp add: buf_unread_def f u len)
  qed
qed


text \<open>Taking \<open>n\<close> bytes out: the output position moves, the space grows.\<close>

lemma buf_inv_deq:
  assumes inv: "buf_inv b m" and n: "unat n \<le> buf_used b"
  defines "b' \<equiv> b\<lparr>pOutPos := pUartBuff b + (buf_off b + unat n) mod buf_size b, Space := Space b + n\<rparr>"
  shows "buf_inv b' m" "buf_unread b' m = drop (unat n) (buf_unread b m)"
    "buf_used b' = buf_used b - unat n"
proof -
  have S: "0 < buf_size b" "unat (Space b) \<le> buf_size b" "buf_size b < 2 ^ 16"
    using inv by (auto simp: buf_inv_def)
  have f: "buf_size b' = buf_size b" "pUartBuff b' = pUartBuff b" "pInPos b' = pInPos b"
      "pOutPos b' = pUartBuff b + (buf_off b + unat n) mod buf_size b"
      "buf_off b' = (buf_off b + unat n) mod buf_size b"
    by (simp_all add: b'_def buf_size_def buf_off_def)
  have le: "unat (Space b) + unat n \<le> buf_size b" using n S(2) by (simp add: buf_used_def)
  have sp: "unat (Space b') = unat (Space b) + unat n"
    using le S(3) by (simp add: b'_def unat_plus_if')
  show u: "buf_used b' = buf_used b - unat n" by (simp add: buf_used_def f sp)
  have m: "((buf_off b + unat n) mod buf_size b + (buf_used b - unat n)) mod buf_size b
      = (buf_off b + buf_used b) mod buf_size b"
    unfolding mod_add_left_eq using n by simp
  show "buf_inv b' m"
    using inv le S(1) m by (simp add: buf_inv_def f sp u)
  show "buf_unread b' m = drop (unat n) (buf_unread b m)"
    using circ_drop [OF n, of "pUartBuff b" "buf_size b" "buf_off b" m]
    by (simp add: buf_unread_def f u circ_mod)
qed

lemma step_pos:
  assumes "p = B + k mod S" "0 < S"
  shows "(if p + 1 = B + S then B else p + 1) = B + Suc k mod S"
  using assms mod_less_divisor [OF assms(2), of k] by (auto simp: mod_Suc)

text \<open>The loop of \<^verbatim>\<open>tx_fifo_insert\<close> writes the bytes from the output position on to the FIFO.\<close>

lemma tx_fifo_put_effect:
  assumes "valid_range (ram s) (pUartBuff b) (buf_size b)" "0 < buf_size b"
    and "pOutPos b = pUartBuff b + k mod buf_size b"
  shows "\<exists>s'. tx_fifo_put u n b s = Some (b\<lparr>pOutPos := pUartBuff b + (k + n) mod buf_size b\<rparr>, s')
     \<and> sent u (circ (pUartBuff b) (buf_size b) k n (ram s)) s s'"
  using assms
proof (induction n arbitrary: b s k)
  case 0
  then have "b\<lparr>pOutPos := pUartBuff b + (k + 0) mod buf_size b\<rparr> = b" by simp
  then show ?case by simp
next
  case (Suc n)
  let ?B = "pUartBuff b" and ?S = "buf_size b"
  obtain c where c: "ram s (pOutPos b) = Some c"
    using Suc.prems mod_less_divisor [OF Suc.prems(2), of k] by (auto simp: valid_range_iff)
  define b1 where "b1 = b\<lparr>pOutPos := ?B + Suc k mod ?S\<rparr>"
  define s1 where "s1 = WRITE_PERI_REG (UART_FIFO u) (ucast c) s"
  have b1: "pUartBuff b1 = ?B" "buf_size b1 = ?S" "pOutPos b1 = ?B + Suc k mod ?S"
    by (simp_all add: b1_def buf_size_def)
  have s1: "ram s1 = ram s" by (simp add: s1_def reg_simps)
  have "valid_range (ram s1) (pUartBuff b1) (buf_size b1)" "0 < buf_size b1"
    "pOutPos b1 = pUartBuff b1 + Suc k mod buf_size b1"
    using Suc.prems by (simp_all add: b1 s1)
  from Suc.IH [OF this] obtain s' where
    s': "tx_fifo_put u n b1 s1 = Some (b1\<lparr>pOutPos := pUartBuff b1 + (Suc k + n) mod buf_size b1\<rparr>, s')"
      "sent u (circ ?B ?S (Suc k) n (ram s)) s1 s'"
    by (auto simp: b1 s1)
  have "tx_fifo_put u (Suc n) b s = tx_fifo_put u n b1 s1"
    using c step_pos [OF Suc.prems(3,2)]
    by (simp add: load8_def s1_def b1_def buf_size_def [symmetric] split: if_splits)
  moreover have "b1\<lparr>pOutPos := pUartBuff b1 + (Suc k + n) mod buf_size b1\<rparr>
      = b\<lparr>pOutPos := ?B + (k + Suc n) mod ?S\<rparr>"
    by (simp add: b1) (simp add: b1_def)
  moreover have "sent u [c] s s1"
    by (auto simp: sent_def s1_def WRITE_PERI_REG_def)
  moreover have "circ ?B ?S k (Suc n) (ram s) = [c] @ circ ?B ?S (Suc k) n (ram s)"
    using circ_split [of 1 "Suc n" ?B ?S k "ram s"] c Suc.prems(3)
    by (simp add: circ_def slot_def)
  ultimately show ?case using s' sent_trans by metis
qed

lemma tx_fifo_insert_effect:
  assumes inv: "buf_inv b (ram s)" and n: "unat n \<le> buf_used b"
  shows "\<exists>b' s'. tx_fifo_insert b n u s = Some (b', s')
     \<and> buf_inv b' (ram s) \<and> buf_unread b' (ram s) = drop (unat n) (buf_unread b (ram s))
     \<and> pUartBuff b' = pUartBuff b \<and> UartBuffSize b' = UartBuffSize b
     \<and> sent u (take (unat n) (buf_unread b (ram s))) s s'"
proof -
  have pre: "valid_range (ram s) (pUartBuff b) (buf_size b)" "0 < buf_size b"
    "pOutPos b = pUartBuff b + buf_off b mod buf_size b"
    using inv by (auto simp: buf_inv_def buf_off_def)
  obtain s' where s': "tx_fifo_put u (unat n) b s =
        Some (b\<lparr>pOutPos := pUartBuff b + (buf_off b + unat n) mod buf_size b\<rparr>, s')"
      "sent u (circ (pUartBuff b) (buf_size b) (buf_off b) (unat n) (ram s)) s s'"
    using tx_fifo_put_effect [OF pre] by blast
  let ?b = "b\<lparr>pOutPos := pUartBuff b + (buf_off b + unat n) mod buf_size b, Space := Space b + ucast n\<rparr>"
  have w: "buf_wrap (b\<lparr>pOutPos := p\<rparr>) (pUartBuff b + k mod buf_size b) = pUartBuff b + k mod buf_size b" for p k
    by (simp add: buf_wrap_def buf_size_def)
  have "tx_fifo_insert b n u s = Some (?b, s')"
    using s'(1) w by (simp add: tx_fifo_insert_def)
  moreover have un: "unat (ucast n :: u16) = unat n"
    using unat_u8_less [of n] by (simp add: unsigned_ucast_eq take_bit_nat_eq_self)
  moreover have "circ (pUartBuff b) (buf_size b) (buf_off b) (unat n) (ram s)
      = take (unat n) (buf_unread b (ram s))"
    using circ_take [OF n] by (simp add: buf_unread_def)
  ultimately show ?thesis
    using s'(2) buf_inv_deq [OF inv, of "ucast n"] n by auto
qed

text \<open>The bytes written to a UART's FIFO, in order.\<close>

fun fifo_bytes :: "u8 \<Rightarrow> io_event list \<Rightarrow> u8 list" where
  "fifo_bytes u [] = []"
| "fifo_bytes u (Reg_write a v # l) =
     (if a = UART_FIFO u then ucast v # fifo_bytes u l else fifo_bytes u l)"
| "fifo_bytes u (Call c # l) = fifo_bytes u l"

lemma fifo_bytes_append [simp]: "fifo_bytes u (xs @ ys) = fifo_bytes u xs @ fifo_bytes u ys"
  by (induction u xs rule: fifo_bytes.induct) auto

lemma fifo_bytes_sent [simp]:
  "fifo_bytes u (map (\<lambda>b. Reg_write (UART_FIFO u) (ucast b)) bs) = bs"
  by (induction bs) auto

lemma rmw_log [reg_simps]:
  "a \<noteq> UART_FIFO u \<Longrightarrow> fifo_bytes u (log (SET_PERI_REG_MASK a m s)) = fifo_bytes u (log s)"
  "a \<noteq> UART_FIFO u \<Longrightarrow> fifo_bytes u (log (CLEAR_PERI_REG_MASK a m s)) = fifo_bytes u (log s)"
  by (simp_all add: SET_PERI_REG_MASK_def CLEAR_PERI_REG_MASK_def case_prod_beta reg_simps)

lemma unat_u16_u8 [simp]: "unat (ucast (n :: u8) :: u16) = unat n"
  using unat_u8_less [of n] by (simp add: unsigned_ucast_eq take_bit_nat_eq_self)

lemma buf_len_u16:
  assumes "buf_inv b m"
  shows "unat (ucast (UartBuffSize b) - Space b :: u16) = buf_used b"
proof -
  have "buf_size b < 2 ^ 16" "unat (Space b) \<le> buf_size b"
    using assms by (auto simp: buf_inv_def)
  moreover have "unat (ucast (UartBuffSize b) :: u16) = buf_size b"
    using \<open>buf_size b < 2 ^ 16\<close> by (simp add: buf_size_def unsigned_ucast_eq take_bit_nat_eq_self)
  ultimately show ?thesis
    by (simp add: buf_used_def unat_u16_sub word_le_nat_alt)
qed

section \<open>The transmit buffer\<close>

definition txq_src_ok :: "ptr \<times> u16 \<Rightarrow> UartBuffer \<times> 'a soc_scheme \<Rightarrow> bool" where
  "txq_src_ok = (\<lambda>(p, n) (b, s). valid_range (ram s) p (unat n) \<and>
     disjoint_ranges (pUartBuff b) (buf_size b) p (unat n))"

lemma tx_enq_effect:
  assumes inv: "buf_inv b (ram s)" and ok: "txq_src_ok (p, n) (b, s)"
    and fit: "buf_used b + unat n \<le> buf_size b"
  shows "\<exists>b' s'. Uart_Buf_Cpy b p n s = Some (b', s') \<and> buf_inv b' (ram s')
     \<and> buf_unread b' (ram s') = buf_unread b (ram s) @ bytes_at (ram s) p (unat n)
     \<and> pUartBuff b' = pUartBuff b \<and> UartBuffSize b' = UartBuffSize b
     \<and> buf_used b' = buf_used b + unat n \<and> (\<exists>m'. s' = s\<lparr>ram := m'\<rparr>)"
proof -
  have le: "n \<le> Space b"
    using fit inv by (simp add: buf_used_def buf_inv_def word_le_nat_alt)
  from ok have v: "valid_range (ram s) p (unat n)"
    and away: "disjoint_ranges (pUartBuff b) (buf_size b) p (unat n)"
    by (auto simp: txq_src_ok_def)
  let ?b = "b\<lparr>pInPos := pUartBuff b + (buf_off b + buf_used b + unat n) mod buf_size b,
              Space := Space b - n\<rparr>"
  obtain m' where m': "Uart_Buf_Cpy b p n s = Some (?b, s\<lparr>ram := m'\<rparr>)"
      "circ_put (pUartBuff b) (buf_size b) (buf_off b + buf_used b)
        (bytes_at (ram s) p (unat n)) (ram s) m'"
    using Uart_Buf_Cpy_effect [OF inv le v away] by blast
  note r = buf_inv_enq [OF inv le m'(2) length_bytes_at]
  have "buf_used ?b = buf_used b + unat n"
    using arg_cong [OF r(2), of length] by simp
  with m' r show ?thesis by (intro exI [of _ ?b] exI [of _ "s\<lparr>ram := m'\<rparr>"]) auto
qed

interpretation txq: byte_fifo
  "\<lambda>(b, s). buf_inv b (ram s)" "\<lambda>(b, s). buf_unread b (ram s)" "\<lambda>(b, s). buf_size b"
  "\<lambda>(p, n) (b, s). Uart_Buf_Cpy b p n s" txq_src_ok "\<lambda>(p, n) (b, s). bytes_at (ram s) p (unat n)"
  "\<lambda>n (b, s). tx_fifo_insert b n UART0 s" "\<lambda>n (b, s). unat n \<le> buf_used b" unat
  "\<lambda>n (b, s) (b', s'). fifo_bytes UART0 (drop (length (log s)) (log s'))"
proof (unfold_locales, goal_cases)
  case (1 q src)
  obtain b s p n where q: "q = (b, s)" "src = (p, n)" by (cases q, cases src) auto
  from 1 have "buf_used b + unat n \<le> buf_size b" "buf_inv b (ram s)" "txq_src_ok (p, n) (b, s)"
    by (simp_all add: q)
  from tx_enq_effect [OF this(2,3,1)] obtain b' s' where "Uart_Buf_Cpy b p n s = Some (b', s')"
    "buf_inv b' (ram s')" "buf_unread b' (ram s') = buf_unread b (ram s) @ bytes_at (ram s) p (unat n)"
    "UartBuffSize b' = UartBuffSize b" "buf_used b' = buf_used b + unat n" by blast
  then show ?case
    by (intro exI [of _ "(b', s')"]) (auto simp: q buf_size_def)
next
  case (2 q n)
  obtain b s where q: "q = (b, s)" by (cases q) auto
  from 2 have "unat n \<le> buf_used b" "buf_inv b (ram s)" by (simp_all add: q)
  from tx_fifo_insert_effect [OF this(2,1), of UART0] obtain b' s' where
    "tx_fifo_insert b n UART0 s = Some (b', s')" "buf_inv b' (ram s)"
    "buf_unread b' (ram s) = drop (unat n) (buf_unread b (ram s))"
    "UartBuffSize b' = UartBuffSize b"
    "sent UART0 (take (unat n) (buf_unread b (ram s))) s s'" by blast
  then show ?case
    by (intro exI [of _ "(b', s')"]) (auto simp: q buf_size_def sent_fields)
qed

lemma fifo_not_ena [simp]: "UART_INT_ENA UART0 \<noteq> UART_FIFO UART0" "UART_CONF1 UART0 \<noteq> UART_FIFO UART0"
  by (simp_all add: UART_INT_ENA_def UART_FIFO_def UART_CONF1_def REG_UART_BASE_def)

lemma txfifo_cnt_u8: "ucast (ucast (txfifo_cnt x) :: u8) = txfifo_cnt x"
  by (rule bit_eqI) (auto simp: txfifo_cnt_def bit_simps numeral_eq_Suc less_Suc_eq)

lemma pTxBuffer_rmw [reg_simps]:
  "pTxBuffer (SET_PERI_REG_MASK a m s) = pTxBuffer s" "pRxBuffer (SET_PERI_REG_MASK a m s) = pRxBuffer s"
  "pTxBuffer (CLEAR_PERI_REG_MASK a m s) = pTxBuffer s" "pRxBuffer (CLEAR_PERI_REG_MASK a m s) = pRxBuffer s"
  by (simp_all add: SET_PERI_REG_MASK_def CLEAR_PERI_REG_MASK_def READ_PERI_REG_def WRITE_PERI_REG_def Let_def)

lemma tx_start_drains:
  assumes b: "pTxBuffer s = Some b" and inv: "buf_inv b (ram s)"
    and cnt: "unat (txfifo_cnt (dev s (clk s) (regs s) (UART_STATUS UART0))) \<le> 128"
  defines "n \<equiv> min (buf_used b) (128 - unat (txfifo_cnt (dev s (clk s) (regs s) (UART_STATUS UART0))))"
  shows "\<exists>s' b'. tx_start_uart_buffer UART0 s = Some s' \<and> pTxBuffer s' = Some b'
    \<and> buf_inv b' (ram s') \<and> buf_unread b' (ram s') = drop n (buf_unread b (ram s))
    \<and> fifo_bytes UART0 (log s') = fifo_bytes UART0 (log s) @ take n (buf_unread b (ram s))"
proof -
  let ?st = "dev s (clk s) (regs s) (UART_STATUS UART0)"
  define s1 where "s1 = s\<lparr>regs := dev s (clk s) (regs s), clk := Suc (clk s)\<rparr>"
  define rem where "rem = (UART_FIFO_LEN - ucast (txfifo_cnt ?st) :: u8)"
  define dl where "dl = (ucast (UartBuffSize b) - Space b :: u16)"
  have c8: "unat (ucast (txfifo_cnt ?st) :: u8) = unat (txfifo_cnt ?st)"
    using txfifo_cnt_u8 [of ?st] by (metis unat_ucast_u8_u32)
  have rem: "unat rem = 128 - unat (txfifo_cnt ?st)"
  proof -
    have "(ucast (txfifo_cnt ?st) :: u8) \<le> 128" using c8 cnt by (simp add: word_le_nat_alt)
    then show ?thesis using c8 by (simp add: rem_def unat_sub)
  qed
  have dl: "unat dl = buf_used b" using buf_len_u16 [OF inv] by (simp add: dl_def)
  have s1: "ram s1 = ram s" "log s1 = log s" "pTxBuffer s1 = Some b"
    using b by (simp_all add: s1_def)
  have unf: "tx_start_uart_buffer UART0 s =
    (if ucast rem < dl
     then do { (b, s) \<leftarrow> tx_fifo_insert b rem UART0 s1;
               Some (SET_PERI_REG_MASK (UART_INT_ENA UART0) UART_TXFIFO_EMPTY_INT (s\<lparr>pTxBuffer := Some b\<rparr>)) }
     else do { (b, s) \<leftarrow> tx_fifo_insert b (ucast dl) UART0 s1; Some (s\<lparr>pTxBuffer := Some b\<rparr>) })"
    using b by (simp add: tx_start_uart_buffer_def READ_PERI_REG_def Let_def s1_def [symmetric]
        txfifo_cnt_def [symmetric] rem_def dl_def s1)
  show ?thesis
  proof (cases "ucast rem < dl")
    case True
    then have less: "unat rem < buf_used b" by (simp add: word_less_nat_alt dl)
    then have n: "n = unat rem" by (simp add: n_def rem)
    have inv1: "buf_inv b (ram s1)" using inv by (simp add: s1)
    obtain b' s' where "tx_fifo_insert b rem UART0 s1 = Some (b', s')"
      "buf_inv b' (ram s1)" "buf_unread b' (ram s1) = drop (unat rem) (buf_unread b (ram s1))"
      "sent UART0 (take (unat rem) (buf_unread b (ram s1))) s1 s'"
      using tx_fifo_insert_effect [OF inv1 less_imp_le [OF less]] by blast
    then show ?thesis using True by (simp add: unf n s1 sent_fields reg_simps)
  next
    case False
    then have ge: "buf_used b \<le> unat rem" by (simp add: word_less_nat_alt dl)
    then have n: "n = buf_used b" by (simp add: n_def rem)
    have d8: "unat (ucast dl :: u8) = buf_used b"
      using ge unat_u8_less [of rem] dl by (simp add: unsigned_ucast_eq take_bit_nat_eq_self)
    then have le: "unat (ucast dl :: u8) \<le> buf_used b" by simp
    have inv1: "buf_inv b (ram s1)" using inv by (simp add: s1)
    obtain b' s' where "tx_fifo_insert b (ucast dl) UART0 s1 = Some (b', s')"
      "buf_inv b' (ram s1)" "buf_unread b' (ram s1) = drop (unat (ucast dl :: u8)) (buf_unread b (ram s1))"
      "sent UART0 (take (unat (ucast dl :: u8)) (buf_unread b (ram s1))) s1 s'"
      using tx_fifo_insert_effect [OF inv1 le] by blast
    then show ?thesis using False by (simp add: unf n s1 sent_fields d8)
  qed
qed

section \<open>The receive buffer\<close>

text \<open>
  The receive buffer is never filled completely, so the positions tell an empty buffer
  from a full one.
\<close>

definition rx_inv :: "UartBuffer \<Rightarrow> mem \<Rightarrow> bool" where
  "rx_inv b m \<longleftrightarrow> buf_inv b m \<and> 0 < unat (Space b)"

text \<open>The bytes the next \<open>n\<close> reads of the FIFO register give.\<close>

fun fifo_reads :: "nat \<Rightarrow> 'a soc_scheme \<Rightarrow> u8 list" where
  "fifo_reads 0 s = []"
| "fifo_reads (Suc n) s =
     (let (v, s) = READ_PERI_REG (UART_FIFO UART0) s in ucast v # fifo_reads n s)"

lemma length_fifo_reads [simp]: "length (fifo_reads n s) = n"
  by (induction n arbitrary: s) (simp_all add: case_prod_beta)

lemma fifo_reads_ram: "fifo_reads n (s\<lparr>ram := m\<rparr>) = fifo_reads n s"
proof (induction n arbitrary: s)
  case (Suc n)
  have eq: "s\<lparr>ram := m, regs := dev s (clk s) (regs s), clk := Suc (clk s)\<rparr>
      = s\<lparr>regs := dev s (clk s) (regs s), clk := Suc (clk s), ram := m\<rparr>" by simp
  show ?case
    by (simp add: read_split, subst eq, rule Suc.IH)
qed simp

lemma ucast_and_ff [simp]: "ucast (v AND 0xFF :: u32) = (ucast v :: u8)"
  by (rule bit_eqI) (auto simp: bit_simps numeral_eq_Suc less_Suc_eq)

lemma rx_fifo_take_effect:
  assumes "valid_range (ram s) (pUartBuff b) (buf_size b)" "0 < buf_size b" "n \<le> buf_size b"
    and "pInPos b = pUartBuff b + k mod buf_size b"
  shows "\<exists>m' r c. rx_fifo_take n b s =
      Some (b\<lparr>pInPos := pUartBuff b + (k + n) mod buf_size b\<rparr>, s\<lparr>regs := r, clk := c, ram := m'\<rparr>)
     \<and> circ_put (pUartBuff b) (buf_size b) k (fifo_reads n s) (ram s) m'"
  using assms
proof (induction n arbitrary: b s k)
  case 0
  then have "b\<lparr>pInPos := pUartBuff b + (k + 0) mod buf_size b\<rparr> = b" by simp
  moreover have "s = s\<lparr>regs := regs s, clk := clk s, ram := ram s\<rparr>" by simp
  ultimately show ?case
    by (metis circ_put_Nil fifo_reads.simps(1) rx_fifo_take.simps(1))
next
  case (Suc n)
  let ?B = "pUartBuff b" and ?S = "buf_size b"
  let ?r = "dev s (clk s) (regs s)"
  define c where "c = (ucast (?r (UART_FIFO UART0)) :: u8)"
  define b1 where "b1 = b\<lparr>pInPos := ?B + Suc k mod ?S\<rparr>"
  define s1 where "s1 = s\<lparr>regs := ?r, clk := Suc (clk s), ram := (ram s)(pInPos b \<mapsto> c)\<rparr>"
  have b1: "pUartBuff b1 = ?B" "buf_size b1 = ?S" "pInPos b1 = ?B + Suc k mod ?S"
    by (simp_all add: b1_def buf_size_def)
  have dom: "ram s (pInPos b) \<noteq> None"
    using Suc.prems mod_less_divisor [OF Suc.prems(2), of k] by (auto simp: valid_range_iff)
  have "valid_range (ram s1) (pUartBuff b1) (buf_size b1)" "0 < buf_size b1" "n \<le> buf_size b1"
    "pInPos b1 = pUartBuff b1 + Suc k mod buf_size b1"
    using Suc.prems by (auto simp: b1 s1_def valid_range_iff)
  from Suc.IH [OF this] obtain m' r t where
    s': "rx_fifo_take n b1 s1 = Some (b1\<lparr>pInPos := pUartBuff b1 + (Suc k + n) mod buf_size b1\<rparr>,
          s1\<lparr>regs := r, clk := t, ram := m'\<rparr>)"
      "circ_put ?B ?S (Suc k) (fifo_reads n s1) (ram s1) m'"
    by (auto simp: b1)
  have "rx_fifo_take (Suc n) b s = rx_fifo_take n b1 s1"
    using dom step_pos [OF Suc.prems(4,2)]
    by (auto simp: read_split store8_def s1_def b1_def buf_size_def [symmetric] c_def split: if_splits)
  moreover have "b1\<lparr>pInPos := pUartBuff b1 + (Suc k + n) mod buf_size b1\<rparr>
      = b\<lparr>pInPos := ?B + (k + Suc n) mod ?S\<rparr>"
    by (simp add: b1) (simp add: b1_def)
  moreover have "circ_put ?B ?S k (fifo_reads (Suc n) s) (ram s) m'"
  proof -
    have "fifo_reads (Suc n) s = c # fifo_reads n s1"
      using fifo_reads_ram [where n = n and s = "s\<lparr>regs := ?r, clk := Suc (clk s)\<rparr>"]
      by (simp add: read_split c_def s1_def)
    moreover have "ram s1 = (ram s)(slot ?B ?S k 0 \<mapsto> c)"
      using Suc.prems(4) by (simp add: s1_def slot_def)
    ultimately show ?thesis
      using circ_put_Cons [of ?B ?S k "fifo_reads n s1" "ram s" c m'] s'(2) Suc.prems(3) by simp
  qed
  moreover have "s1\<lparr>regs := r, clk := t, ram := m'\<rparr> = s\<lparr>regs := r, clk := t, ram := m'\<rparr>"
    by (simp add: s1_def)
  ultimately show ?case using s'(1) by metis
qed

lemma rx_enq_safe:
  assumes b: "pRxBuffer s = Some b" and inv: "rx_inv b (ram s)"
  defines "n \<equiv> unat (rxfifo_cnt (dev s (clk s) (regs s) (UART_STATUS UART0)))"
  shows "\<exists>s' b'. Uart_rx_buff_enq s = Some s' \<and> pRxBuffer s' = Some b' \<and> rx_inv b' (ram s')
    \<and> buf_unread b' (ram s') = buf_unread b (ram s) @
        (if n < unat (Space b) then fifo_reads n (snd (READ_PERI_REG (UART_STATUS UART0) s)) else [])
    \<and> (\<forall>a. a < pUartBuff b \<or> pUartBuff b + buf_size b \<le> a \<longrightarrow> ram s' a = ram s a)"
proof -
  let ?st = "dev s (clk s) (regs s) (UART_STATUS UART0)"
  define s1 where "s1 = s\<lparr>regs := dev s (clk s) (regs s), clk := Suc (clk s)\<rparr>"
  define fl where "fl = (ucast (rxfifo_cnt ?st) :: u8)"
  have s1: "ram s1 = ram s" "pRxBuffer s1 = Some b" "snd (READ_PERI_REG (UART_STATUS UART0) s) = s1"
    using b by (simp_all add: s1_def read_split)
  have "ucast (ucast (rxfifo_cnt ?st) :: u8) = rxfifo_cnt ?st"
    by (rule bit_eqI) (auto simp: rxfifo_cnt_def bit_simps numeral_eq_Suc less_Suc_eq)
  then have fl: "unat fl = n" by (metis fl_def n_def unat_ucast_u8_u32)
  have unf: "Uart_rx_buff_enq s =
      (if Space b \<le> ucast fl then Some s1
       else do { (b, s) \<leftarrow> rx_fifo_take (unat fl) b s1;
                 let b = b\<lparr>Space := Space b - ucast fl\<rparr>;
                 let s = s\<lparr>pRxBuffer := Some b\<rparr>;
                 Some (if ucast UART_FIFO_LEN \<le> Space b then uart_rx_intr_enable UART0 s else s) })"
    using b by (simp add: Uart_rx_buff_enq_def READ_PERI_REG_def Let_def s1_def [symmetric]
        rxfifo_cnt_def [simplified, symmetric] fl_def s1)
  show ?thesis
  proof (cases "Space b \<le> ucast fl")
    case True
    then show ?thesis
      using b inv by (simp add: unf s1 word_le_nat_alt fl)
  next
    case False
    then have less: "n < unat (Space b)" by (simp add: word_le_nat_alt fl)
    have binv: "buf_inv b (ram s)" using inv by (simp add: rx_inv_def)
    have pre: "valid_range (ram s1) (pUartBuff b) (buf_size b)" "0 < buf_size b" "n \<le> buf_size b"
        "pInPos b = pUartBuff b + (buf_off b + buf_used b) mod buf_size b"
      using binv less by (auto simp: buf_inv_def s1)
    obtain m' r c where t: "rx_fifo_take n b s1 =
        Some (b\<lparr>pInPos := pUartBuff b + (buf_off b + buf_used b + n) mod buf_size b\<rparr>,
              s1\<lparr>regs := r, clk := c, ram := m'\<rparr>)"
      and put: "circ_put (pUartBuff b) (buf_size b) (buf_off b + buf_used b) (fifo_reads n s1) (ram s) m'"
      using rx_fifo_take_effect [OF pre] by (auto simp: s1)
    let ?b = "b\<lparr>pInPos := pUartBuff b + (buf_off b + buf_used b + unat (ucast fl :: u16)) mod buf_size b,
                Space := Space b - ucast fl\<rparr>"
    have le: "(ucast fl :: u16) \<le> Space b" using less by (simp add: word_le_nat_alt fl)
    have len: "length (fifo_reads n s1) = unat (ucast fl :: u16)" by (simp add: fl)
    note r = buf_inv_enq [OF binv le put len]
    have "rx_inv ?b m'"
      using r(1) less le by (simp add: rx_inv_def unat_u16_sub fl)
    moreover have "buf_unread ?b m' = buf_unread b (ram s) @ fifo_reads n s1" by (rule r(2))
    moreover have "\<forall>a. a < pUartBuff b \<or> pUartBuff b + buf_size b \<le> a \<longrightarrow> m' a = ram s a"
      using circ_put_frame [OF put pre(2)] by blast
    ultimately show ?thesis
      using False t less
      by (simp add: unf fl s1 uart_rx_intr_enable_def reg_simps Let_def)
  qed
qed

text \<open>The three branches of \<^verbatim>\<open>rx_buff_deq\<close>, over the memory the copies leave.\<close>

definition out_tail :: "UartBuffer \<Rightarrow> u16" where
  "out_tail b = of_nat (pUartBuff b + unat (UartBuffSize b) - pOutPos b)"

definition deq_len :: "UartBuffer \<Rightarrow> u16 \<Rightarrow> u16" where
  "deq_len b data_len =
     (let bl = ucast (UartBuffSize b) - Space b in if bl < data_len then bl else data_len)"

definition deq_done :: "UartBuffer \<Rightarrow> mem \<Rightarrow> 'a uart_drv_scheme \<Rightarrow> 'a uart_drv_scheme" where
  "deq_done b m s =
     (let s = s\<lparr>ram := m, pRxBuffer := Some b\<rparr>
      in if ucast UART_FIFO_LEN \<le> Space b then uart_rx_intr_enable UART0 s else s)"

lemma deq_done_fields: "pRxBuffer (deq_done b m s) = Some b" "ram (deq_done b m s) = m"
  by (simp_all add: deq_done_def Let_def uart_rx_intr_enable_def reg_simps)

lemma rx_buff_deq_one:
  assumes "pRxBuffer s = Some b"
    and "memcpy pdata (pOutPos b) (unat (deq_len b data_len)) (ram s) = Some m"
    and "\<not> pOutPos b \<le> pInPos b \<Longrightarrow> deq_len b data_len \<le> out_tail b"
  defines "p \<equiv> pOutPos b + unat (deq_len b data_len)"
  shows "rx_buff_deq pdata data_len s = Some (deq_len b data_len,
     deq_done (b\<lparr>pOutPos := (if pOutPos b \<le> pInPos b then p else buf_wrap b p),
                 Space := Space b + deq_len b data_len\<rparr>) m s)"
  using assms
  by (auto simp: rx_buff_deq_def deq_len_def out_tail_def Let_def os_memcpy_def deq_done_def p_def
      simp del: unat_of_nat)

lemma rx_buff_deq_two:
  assumes "pRxBuffer s = Some b" "\<not> pOutPos b \<le> pInPos b" "out_tail b < deq_len b data_len"
    and "memcpy pdata (pOutPos b) (unat (out_tail b)) (ram s) = Some m1"
    and "memcpy (pdata + unat (out_tail b)) (buf_wrap b (pOutPos b + unat (out_tail b)))
           (unat (deq_len b data_len - out_tail b)) m1 = Some m"
  shows "rx_buff_deq pdata data_len s = Some (deq_len b data_len,
     deq_done (b\<lparr>pOutPos := buf_wrap b (buf_wrap b (pOutPos b + unat (out_tail b))
                              + unat (deq_len b data_len - out_tail b)),
                 Space := Space b + deq_len b data_len\<rparr>) m s)"
proof -
  have wrap: "buf_wrap (b\<lparr>pOutPos := p, Space := x\<rparr>) q = buf_wrap b q" for p q x
    by (simp add: buf_wrap_def)
  show ?thesis
    using assms unfolding out_tail_def deq_len_def Let_def
    by (simp add: rx_buff_deq_def Let_def os_memcpy_def deq_done_def wrap del: unat_of_nat)
qed

lemma used_less_space: "buf_used b < buf_size b \<Longrightarrow> 0 < unat (Space b)"
  by (rule ccontr) (simp add: buf_used_def)

lemma rx_deq_takes:
  fixes data_len :: u16
  assumes b: "pRxBuffer s = Some b" and inv: "rx_inv b (ram s)"
  defines "n \<equiv> min (unat data_len) (buf_used b)"
  assumes v: "valid_range (ram s) pdata n"
    and away: "disjoint_ranges (pUartBuff b) (buf_size b) pdata n"
  shows "\<exists>l s' b'. rx_buff_deq pdata data_len s = Some (l, s') \<and> unat l = n
    \<and> pRxBuffer s' = Some b' \<and> rx_inv b' (ram s')
    \<and> bytes_at (ram s') pdata n = take n (buf_unread b (ram s))
    \<and> buf_unread b' (ram s') = drop n (buf_unread b (ram s))"
proof -
  define S where "S = buf_size b"
  define B where "B = pUartBuff b"
  define k where "k = buf_off b"
  have binv: "buf_inv b (ram s)" and sp: "0 < unat (Space b)" using inv by (auto simp: rx_inv_def)
  have S: "0 < S" "S < 2 ^ 16" "unat (Space b) \<le> S" and vB: "valid_range (ram s) B S"
    and Out: "pOutPos b = B + k" "k < S" and In: "pInPos b = B + (k + buf_used b) mod S"
    using binv by (auto simp: buf_inv_def S_def B_def k_def buf_off_def)
  define l where "l = deq_len b data_len"
  have l: "unat l = n"
    using buf_len_u16 [OF binv] by (auto simp: l_def deq_len_def n_def Let_def word_less_nat_alt)
  have tl: "unat (out_tail b) = S - k"
  proof -
    have "pUartBuff b + unat (UartBuffSize b) - pOutPos b = S - k"
      using Out by (simp add: S_def B_def buf_size_def)
    then show ?thesis using S by (simp only: out_tail_def) (simp only: unat_of_nat_u16)
  qed
  have used: "n \<le> buf_used b" "buf_used b < S"
    using sp S by (auto simp: n_def buf_used_def S_def)
  let ?b = "b\<lparr>pOutPos := pUartBuff b + (buf_off b + unat l) mod buf_size b, Space := Space b + l\<rparr>"
  have wk: "buf_wrap b (B + j) = B + j mod S" for j
    by (simp add: buf_wrap_def B_def S_def buf_size_def)
  have away': "disjoint_ranges B S pdata n" using away by (simp add: B_def S_def)
  have "\<exists>m2. rx_buff_deq pdata data_len s = Some (l, deq_done ?b m2 s)
      \<and> bytes_at m2 pdata n = circ B S k n (ram s)
      \<and> (\<forall>a. (m2 a = None) = (ram s a = None))
      \<and> (\<forall>a. a < pdata \<or> pdata + n \<le> a \<longrightarrow> m2 a = ram s a)"
  proof (cases "k + n \<le> S")
    case True
    have cp: "valid_range (ram s) pdata n" "valid_range (ram s) (B + k) n" "disjoint_ranges pdata n (B + k) n"
      using v valid_range_sub [OF vB True] away' True by (auto simp: disjoint_ranges_def)
    obtain m2 where m2: "memcpy pdata (B + k) n (ram s) = Some m2" using memcpy_Some [OF cp] by blast
    have pos: "(if pOutPos b \<le> pInPos b then pOutPos b + unat l else buf_wrap b (pOutPos b + unat l))
        = B + (k + unat l) mod S"
    proof (cases "pOutPos b \<le> pInPos b")
      case le: True
      have "k + n < S"
      proof (rule ccontr)
        assume "\<not> k + n < S"
        then have "S \<le> k + buf_used b" using used by simp
        then have "(k + buf_used b) mod S = k + buf_used b - S"
          using Out(2) used by (simp add: mod_if)
        then show False using le Out In used \<open>S \<le> k + buf_used b\<close> by simp
      qed
      then show ?thesis using le by (simp add: Out l)
    next
      case False
      then show ?thesis using wk [of "k + unat l"] by (simp add: Out add.assoc)
    qed
    have "l \<le> out_tail b" using True by (simp add: word_le_nat_alt l tl)
    then have "rx_buff_deq pdata data_len s = Some (l, deq_done ?b m2 s)"
    proof -
      have "memcpy pdata (pOutPos b) (unat (deq_len b data_len)) (ram s) = Some m2"
        using m2 Out l by (simp add: l_def [symmetric])
      from rx_buff_deq_one [OF b this] \<open>l \<le> out_tail b\<close> show ?thesis
        by (simp only: l_def [symmetric] pos) (simp only: B_def S_def k_def)
    qed
    then show ?thesis
      using circ_get_one [OF m2 True] memcpy_defined [OF m2] memcpy_frame [OF m2] by blast
  next
    case False
    let ?r = "S - k"
    have r: "?r < n" "n \<le> S" using False Out(2) used by auto
    have ow: "\<not> pOutPos b \<le> pInPos b"
    proof -
      have "(k + buf_used b) mod S = k + buf_used b - S"
        using Out(2) used False by (simp add: mod_if)
      then show ?thesis using Out In used False by simp
    qed
    have gt: "out_tail b < l" using r by (simp add: word_less_nat_alt l tl)
    have d: "unat (l - out_tail b) = n - ?r" using gt by (simp add: unat_u16_sub l tl)
    have cp: "valid_range (ram s) pdata ?r" "valid_range (ram s) (B + k) ?r"
        "disjoint_ranges pdata ?r (B + k) ?r"
      using valid_range_sub [OF v, of 0 ?r] valid_range_sub [OF vB, of k ?r] away' r Out(2)
      by (auto simp: disjoint_ranges_def)
    obtain m1 where m1: "memcpy pdata (B + k) ?r (ram s) = Some m1" using memcpy_Some [OF cp] by blast
    have cp2: "valid_range m1 (pdata + ?r) (n - ?r)" "valid_range m1 B (n - ?r)"
        "disjoint_ranges (pdata + ?r) (n - ?r) B (n - ?r)"
      using valid_range_sub [OF v, of ?r "n - ?r"] valid_range_sub [OF vB, of 0 "n - ?r"] away' r
      by (auto simp: disjoint_ranges_def valid_range_memcpy [OF m1])
    obtain m2 where m2: "memcpy (pdata + ?r) B (n - ?r) m1 = Some m2" using memcpy_Some [OF cp2] by blast
    have w1: "buf_wrap b (pOutPos b + (S - k)) = B" using wk [of S] Out by simp
    have w2: "buf_wrap b (B + (n - ?r)) = B + (k + n) mod S"
    proof -
      have "n - ?r = k + n - S" using r Out(2) by simp
      moreover have "(k + n) mod S = (k + n - S) mod S" using False le_mod_geq [of S "k + n"] by simp
      ultimately show ?thesis using wk by simp
    qed
    have "rx_buff_deq pdata data_len s = Some (l, deq_done ?b m2 s)"
      using rx_buff_deq_two [OF b ow, of data_len pdata m1 m2] gt m1 m2 w1 w2 d
      by (simp add: l_def [symmetric] tl Out) (simp add: l B_def S_def k_def)
    moreover have "bytes_at m2 pdata n = circ B S k n (ram s)"
      using circ_get_two [OF m1 refl Out(2) m2] r away' by simp
    moreover have "(m2 a = None) = (ram s a = None)" for a
      using memcpy_defined [OF m1] memcpy_defined [OF m2] by simp
    moreover have "m2 a = ram s a" if "a < pdata \<or> pdata + n \<le> a" for a
      using that memcpy_frame [OF m1, of a] memcpy_frame [OF m2, of a] r by auto
    ultimately show ?thesis by blast
  qed
  then obtain m2 where m2: "rx_buff_deq pdata data_len s = Some (l, deq_done ?b m2 s)"
      "bytes_at m2 pdata n = circ B S k n (ram s)" "\<And>a. (m2 a = None) = (ram s a = None)"
      "\<And>a. a < pdata \<or> pdata + n \<le> a \<Longrightarrow> m2 a = ram s a" by blast
  have ln: "unat l \<le> buf_used b" using l used by simp
  note r = buf_inv_deq [OF binv ln]
  have "buf_used ?b < buf_size ?b" using r(3) used by (simp add: S_def buf_size_def)
  then have "0 < unat (Space ?b)" by (rule used_less_space)
  moreover have "buf_inv ?b m2" using r(1) buf_inv_cong [of m2 "ram s" ?b, OF m2(3)] by blast
  ultimately have inv2: "rx_inv ?b m2" unfolding rx_inv_def by blast
  have same: "circ B S j i m2 = circ B S j i (ram s)" for j i
  proof (rule circ_frame [OF _ S(1)])
    fix a assume "B \<le> a" "a < B + S"
    then have "a < pdata \<or> pdata + n \<le> a" using away' by (auto simp: disjoint_ranges_def)
    then show "m2 a = ram s a" by (rule m2(4))
  qed
  have "buf_unread ?b m2 = buf_unread ?b (ram s)"
    using same by (simp add: buf_unread_def B_def S_def buf_size_def)
  then have "buf_unread ?b m2 = drop n (buf_unread b (ram s))" using r(2) l by simp
  moreover have "circ B S k n (ram s) = take n (buf_unread b (ram s))"
    using circ_take [OF used(1)] by (simp add: buf_unread_def B_def S_def k_def)
  ultimately show ?thesis
    using m2(1,2) inv2 l by (intro exI [of _ l] exI [of _ "deq_done ?b m2 s"] exI [of _ ?b])
      (simp add: deq_done_fields)
qed

section \<open>Filling the transmit buffer\<close>

lemma no_wait_fields:
  "ram (snd (uart_tx_one_char_no_wait u c s)) = ram s"
  "dev (snd (uart_tx_one_char_no_wait u c s)) = dev s"
  by (simp_all add: uart_tx_one_char_no_wait_def Let_def read_split reg_simps)

lemma no_wait_drv:
  "pTxBuffer (snd (uart_tx_one_char_no_wait u c s)) = pTxBuffer s"
  "pRxBuffer (snd (uart_tx_one_char_no_wait u c s)) = pRxBuffer s"
  by (simp_all add: uart_tx_one_char_no_wait_def Let_def read_split WRITE_PERI_REG_def)

lemma sendStr_fields:
  "ram (uart1_sendStr_no_wait str s) = ram s" "dev (uart1_sendStr_no_wait str s) = dev s"
  by (induction str s rule: uart1_sendStr_no_wait.induct) (auto simp: no_wait_fields)

lemma sendStr_drv:
  "pTxBuffer (uart1_sendStr_no_wait str s) = pTxBuffer s"
  "pRxBuffer (uart1_sendStr_no_wait str s) = pRxBuffer s"
  by (induction str s rule: uart1_sendStr_no_wait.induct) (auto simp: no_wait_drv)

lemma no_wait_regs:
  "keeps s a \<Longrightarrow> a \<noteq> UART_FIFO u \<Longrightarrow> regs (snd (uart_tx_one_char_no_wait u c s)) a = regs s a"
  by (simp add: uart_tx_one_char_no_wait_def Let_def read_split reg_simps)

lemma sendStr_regs:
  "keeps s a \<Longrightarrow> a \<noteq> UART_FIFO UART1 \<Longrightarrow> regs (uart1_sendStr_no_wait str s) a = regs s a"
proof (induction str s rule: uart1_sendStr_no_wait.induct)
  case (2 c str s)
  have "keeps (snd (uart_tx_one_char_no_wait UART1 c s)) a"
    using 2(2) by (simp add: keeps_def no_wait_fields)
  with 2 show ?case by (simp add: no_wait_regs)
qed simp

lemma tx_buff_enq_effect:
  assumes b: "pTxBuffer s = Some b" and inv: "buf_inv b (ram s)"
    and ok: "txq_src_ok (p, n) (b, s)" and ena: "keeps s (UART_INT_ENA UART0)"
  shows "\<exists>s' b'. tx_buff_enq p n s = Some s' \<and> pTxBuffer s' = Some b' \<and> buf_inv b' (ram s')
    \<and> buf_unread b' (ram s') = buf_unread b (ram s) @
         (if buf_used b + unat n \<le> buf_size b then bytes_at (ram s) p (unat n) else [])
    \<and> regs s' (UART_INT_ENA UART0) = regs s (UART_INT_ENA UART0) OR UART_TXFIFO_EMPTY_INT"
proof -
  define s1 where "s1 = CLEAR_PERI_REG_MASK (UART_INT_ENA UART0) UART_TXFIFO_EMPTY_INT s"
  define fin where "fin s2 = SET_PERI_REG_MASK (UART_INT_ENA UART0) UART_TXFIFO_EMPTY_INT
      (SET_PERI_REG_MASK (UART_CONF1 UART0) (push_bit 8 (0x10 AND 0x7F)) s2)" for s2 :: "'a uart_drv_scheme"
  have ne: "UART_CONF1 UART0 \<noteq> UART_INT_ENA UART0"
    by (simp add: UART_CONF1_def UART_INT_ENA_def REG_UART_BASE_def)
  have fin: "ram (fin s2) = ram s2" "pTxBuffer (fin s2) = pTxBuffer s2"
    "keeps s2 (UART_INT_ENA UART0) \<Longrightarrow>
      regs (fin s2) (UART_INT_ENA UART0) = regs s2 (UART_INT_ENA UART0) OR UART_TXFIFO_EMPTY_INT" for s2
    using ne by (simp_all add: fin_def reg_simps)
  have s1: "ram s1 = ram s" "pTxBuffer s1 = Some b" "dev s1 = dev s" "keeps s1 (UART_INT_ENA UART0)"
     "regs s1 (UART_INT_ENA UART0) = regs s (UART_INT_ENA UART0) AND NOT UART_TXFIFO_EMPTY_INT"
    using b ena by (simp_all add: s1_def reg_simps)
  have bits: "(x AND NOT y) OR y = x OR (y :: u32)" for x y
    by (rule bit_eqI) (auto simp: bit_simps)
  show ?thesis
  proof (cases "buf_used b + unat n \<le> buf_size b")
    case True
    have le: "n \<le> Space b" using True inv by (simp add: buf_used_def buf_inv_def word_le_nat_alt)
    have "buf_inv b (ram s1)" "txq_src_ok (p, n) (b, s1)" using inv ok by (simp_all add: s1 txq_src_ok_def)
    from tx_enq_effect [OF this True] obtain b' m' where cpy: "Uart_Buf_Cpy b p n s1 = Some (b', s1\<lparr>ram := m'\<rparr>)"
      "buf_inv b' m'" "buf_unread b' m' = buf_unread b (ram s) @ bytes_at (ram s) p (unat n)"
      by (auto simp: s1)
    let ?s = "fin (s1\<lparr>ram := m', pTxBuffer := Some b'\<rparr>)"
    have "tx_buff_enq p n s = Some ?s"
      using le cpy(1) s1(2) by (simp add: tx_buff_enq_def s1_def [symmetric] fin_def Let_def)
    moreover have "keeps (s1\<lparr>ram := m', pTxBuffer := Some b'\<rparr>) (UART_INT_ENA UART0)"
      using s1(4) by (simp add: keeps_def)
    ultimately show ?thesis using cpy(2,3) True by (simp add: fin s1 bits)
  next
    case False
    then have gt: "\<not> n \<le> Space b" using inv by (simp add: buf_used_def buf_inv_def word_le_nat_alt)
    let ?msg = "bytes ''UART TX BUF FULL!!!!'' @ [0x0A, 0x0D]"
    define s2 where "s2 = uart1_sendStr_no_wait ?msg s1"
    have "tx_buff_enq p n s = Some (fin s2)"
      using gt s1(2) by (simp add: tx_buff_enq_def s1_def [symmetric] fin_def Let_def s2_def)
    moreover have "keeps s2 (UART_INT_ENA UART0)"
      using s1(4) by (simp add: keeps_def s2_def sendStr_fields)
    moreover have "regs s2 (UART_INT_ENA UART0) = regs s1 (UART_INT_ENA UART0)"
      unfolding s2_def by (rule sendStr_regs [OF s1(4)])
        (simp add: UART_INT_ENA_def UART_FIFO_def REG_UART_BASE_def)
    ultimately show ?thesis
      using False inv by (simp add: fin s1 s2_def sendStr_fields sendStr_drv bits)
  qed
qed

section \<open>Line parameters\<close>

lemma line_parameters:
  fixes w :: UartBitsNum4Char and st :: UartStopBitsNum and p :: UartParityMode
  assumes k: "keeps s (UART_CONF0 u)"
  defines "c \<equiv> regs s (UART_CONF0 u)"
  defines "c' \<equiv> regs (UART_SetParity u p (UART_SetStopBits u st (UART_SetWordLength u w s))) (UART_CONF0 u)"
  shows "drop_bit 2 c' AND 3 = bits_val w" "drop_bit 4 c' AND 3 = stop_val st"
    "bit c' 1 \<longleftrightarrow> p \<noteq> NONE_BITS" "bit c' 0 \<longleftrightarrow> p = ODD_BITS"
    "c' AND NOT 0x3F = c AND NOT 0x3F"
proof -
  have c': "c' = ((((c AND NOT (push_bit 2 3)) OR push_bit 2 (bits_val w)) AND NOT (push_bit 4 3))
       OR push_bit 4 (stop_val st)) AND NOT (BIT 0 OR BIT 1) OR
      (if p = NONE_BITS then 0 else parity_val p OR BIT 1)"
    using k by (auto simp: c'_def c_def UART_SetParity_def UART_SetStopBits_def UART_SetWordLength_def
        Let_def reg_simps)
  have three: "bit (3 :: u32) n \<longleftrightarrow> n < 2" for n
    by (rule bit_low_ones) (simp_all add: mask_eq_exp_minus_1)
  have m6: "bit (0x3F :: u32) n \<longleftrightarrow> n < 6" for n
    by (rule bit_low_ones) (simp_all add: mask_eq_exp_minus_1)
  have two: "bit (2 :: u32) n \<longleftrightarrow> n = 1" for n
    using bit_exp_iff [where 'a = u32, of 1 n] by (simp only: power_one_right) auto
  have w: "bit (bits_val w) n \<longleftrightarrow> (n = 0 \<and> w \<in> {SIX_BITS, EIGHT_BITS} \<or> n = 1 \<and> w \<in> {SEVEN_BITS, EIGHT_BITS})" for n
    by (cases w) (auto simp: bit_1_iff two three simp del: bit_numeral_word_iff)
  have st: "bit (stop_val st) n \<longleftrightarrow> (n = 0 \<and> st \<in> {ONE_STOP_BIT, TWO_STOP_BIT} \<or> n = 1 \<and> st \<in> {ONE_HALF_STOP_BIT, TWO_STOP_BIT})" for n
    by (cases st) (auto simp: bit_1_iff two three simp del: bit_numeral_word_iff)
  have p: "bit (if p = NONE_BITS then 0 else parity_val p OR BIT 1) n \<longleftrightarrow>
       (n = 0 \<and> p = ODD_BITS \<or> n = 1 \<and> p \<noteq> NONE_BITS)" for n
    by (cases p) (auto simp: bit_simps BIT_def three two bit_1_iff simp del: bit_numeral_word_iff)
  define M0 where "M0 = (BIT 0 OR BIT 1 :: u32)"
  define M2 where "M2 = (push_bit 2 3 :: u32)"
  define M4 where "M4 = (push_bit 4 3 :: u32)"
  define P where "P = (if p = NONE_BITS then 0 else parity_val p OR BIT 1)"
  have M: "bit M0 n \<longleftrightarrow> n < 2" "bit M2 n \<longleftrightarrow> 2 \<le> n \<and> n < 4" "bit M4 n \<longleftrightarrow> 4 \<le> n \<and> n < 6" for n
  proof -
    show "bit M0 n \<longleftrightarrow> n < 2" unfolding M0_def
      by (rule bit_low_ones) (simp_all add: mask_eq_exp_minus_1 BIT_def)
    show "bit M2 n \<longleftrightarrow> 2 \<le> n \<and> n < 4"
      unfolding M2_def bit_push_bit_iff three by auto
    show "bit M4 n \<longleftrightarrow> 4 \<le> n \<and> n < 6"
      unfolding M4_def bit_push_bit_iff three by auto
  qed
  have high: "bit (bits_val w) n \<Longrightarrow> n < 2" "bit (stop_val st) n \<Longrightarrow> n < 2" "bit P n \<Longrightarrow> n < 2" for n
    using w [of n] st [of n] p [of n] by (auto simp: P_def)
  have cb: "bit c' n \<longleftrightarrow> (if n < 2 then bit P n else if n < 4 then bit (bits_val w) (n - 2)
      else if n < 6 then bit (stop_val st) (n - 4) else bit c n)" if "n < 32" for n
    unfolding c' M0_def [symmetric] M2_def [symmetric] M4_def [symmetric] P_def [symmetric]
    using that high(1) [of "n - 2"] high(2) [of "n - 4"] high(3) [of n]
    by (auto simp: bit_or_iff bit_and_iff bit_not_iff bit_push_bit_iff M)
  have eqI: "x = y" if "\<And>n. n < 32 \<Longrightarrow> bit x n = bit y n" for x y :: u32
    using that by (intro bit_word_eqI) simp
  show "drop_bit 2 c' AND 3 = bits_val w"
  proof (rule eqI)
    fix n :: nat assume "n < 32"
    then show "bit (drop_bit 2 c' AND 3) n = bit (bits_val w) n"
      using high(1) [of n] cb [of "2 + n"] unfolding bit_and_iff bit_drop_bit_eq comp_def three
      by (cases "n < 2") auto
  qed
  show "drop_bit 4 c' AND 3 = stop_val st"
  proof (rule eqI)
    fix n :: nat assume "n < 32"
    then show "bit (drop_bit 4 c' AND 3) n = bit (stop_val st) n"
      using high(2) [of n] cb [of "4 + n"] unfolding bit_and_iff bit_drop_bit_eq comp_def three
      by (cases "n < 2") auto
  qed
  show "bit c' 1 \<longleftrightarrow> p \<noteq> NONE_BITS" using cb [of 1] p [of 1] by (simp add: P_def)
  show "bit c' 0 \<longleftrightarrow> p = ODD_BITS" using cb [of 0] p [of 0] by (simp add: P_def)
  show "c' AND NOT 0x3F = c AND NOT 0x3F"
  proof (rule eqI)
    fix n :: nat assume "n < 32"
    then show "bit (c' AND NOT 0x3F) n = bit (c AND NOT 0x3F) n"
      using cb [of n] unfolding bit_and_iff bit_not_iff m6 by auto
  qed
qed

section \<open>Waiting with a time limit\<close>

text \<open>One round of the loop reads the status, asks for the time and feeds the watchdog.\<close>

lemma check_output_unfold:
  "check_output_loop u t lim s =
     (let s1 = s\<lparr>regs := dev s (clk s) (regs s), clk := Suc (clk s)\<rparr>;
          s2 = s1\<lparr>clk := Suc (Suc (clk s))\<rparr>
      in if txfifo_cnt (dev s (clk s) (regs s) (UART_STATUS u)) = 0 \<and> tx_buff_used (pTxBuffer s) = 0
         then Some (True, s1)
         else if lim < sdk_ret s (Suc (clk s)) system_get_time - t then Some (False, s2)
         else check_output_loop u t lim (WRITE_PERI_REG 0x60000914 0x73 s2))"
proof -
  have z: "(ucast (txfifo_cnt x) = (0 :: u8)) = (txfifo_cnt x = 0)" for x
    using txfifo_cnt_u8 [of x] by (metis unsigned_0)
  show ?thesis
    by (subst check_output_loop.simps)
      (simp add: read_split Let_def ask_def txfifo_cnt_def [symmetric] z)
qed

lemma check_output_returns:
  assumes "lim < sdk_ret s (clk s + 1 + 3 * i) system_get_time - t"
  shows "\<exists>v s'. check_output_loop u t lim s = Some (v, s') \<and>
     (v \<longrightarrow> tx_buff_used (pTxBuffer s) = 0 \<and>
        (\<exists>k r. txfifo_cnt (dev s k r (UART_STATUS u)) = 0))"
  using assms
proof (induction i arbitrary: s)
  case 0
  then show ?case
    by (subst check_output_unfold) (auto simp: Let_def)
next
  case (Suc i)
  let ?s = "WRITE_PERI_REG 0x60000914 0x73
     (s\<lparr>regs := dev s (clk s) (regs s), clk := Suc (Suc (clk s))\<rparr>)"
  have f: "dev ?s = dev s" "sdk_ret ?s = sdk_ret s" "clk ?s = clk s + 3" "pTxBuffer ?s = pTxBuffer s"
    by (simp_all add: WRITE_PERI_REG_def)
  have "lim < sdk_ret ?s (clk ?s + 1 + 3 * i) system_get_time - t"
    using Suc.prems by (simp add: f ac_simps)
  from Suc.IH [OF this] show ?case
    by (subst check_output_unfold) (auto simp: Let_def f)
qed

section \<open>Example states\<close>

definition demo_buf :: UartBuffer where
  "demo_buf = \<lparr>UartBuffSize = 4, pUartBuff = 100, pInPos = 101, pOutPos = 103, BuffState = OK,
     Space = 2, TcpControl = RUN, nextBuff = 0\<rparr>"

definition demo_drv :: uart_drv where
  "demo_drv = \<lparr>regs = (\<lambda>a. 0), dev = (\<lambda>n r. r(UART_STATUS 0 := 0)),
     sdk_ret = (\<lambda>n q. of_nat n), junk = (\<lambda>n a. 0),
     clk = 0, log = [],
     ram = (\<lambda>a. if 100 \<le> a \<and> a < 104 \<or> 200 \<le> a \<and> a < 204 then Some (of_nat a) else None),
     blocks = (\<lambda>a. None),
     UartDev = \<lparr>baut_rate = 9600, data_bits = EIGHT_BITS, exist_parity = STICK_PARITY_DIS,
       parity = NONE_BITS, stop_bits = ONE_STOP_BIT, TrigLvl = 1\<rparr>,
     pTxBuffer = Some demo_buf, pRxBuffer = Some demo_buf\<rparr>"

lemma demo_drv_facts:
  "pTxBuffer demo_drv = Some demo_buf" "pRxBuffer demo_drv = Some demo_buf"
  "buf_inv demo_buf (ram demo_drv)" "rx_inv demo_buf (ram demo_drv)" "buf_used demo_buf = 2"
  "buf_size demo_buf = 4" "unat (Space demo_buf) = 2" "pUartBuff demo_buf = 100"
  "n \<le> 4 \<Longrightarrow> valid_range (ram demo_drv) 200 n"
  "n \<le> 4 \<Longrightarrow> disjoint_ranges 100 4 200 n"
  "keeps demo_drv (UART_CONF0 0)" "keeps demo_drv (UART_INT_ENA 0)" "drains demo_drv UART0 126"
  "txfifo_cnt (dev demo_drv 0 (regs demo_drv) a) = 0"
  "rxfifo_cnt (dev demo_drv 0 (regs demo_drv) a) = 0" "clk demo_drv = 0" "log demo_drv = []"
  by (auto simp: UART_STATUS_def UART_CONF0_def UART_INT_ENA_def demo_drv_def demo_buf_def rx_inv_def buf_defs valid_range_iff disjoint_ranges_def
      keeps_def drains_def txfifo_cnt_def rxfifo_cnt_def)

section \<open>Properties\<close>

text \<open>Provided the hardware FIFO drains again and again, \<^verbatim>\<open>uart0_tx_buffer\<close> returns and has written
  exactly the bytes of the buffer, in order, to the FIFO register of UART0; memory is unchanged.\<close>

theorem uart0_tx_buffer_sends:
  assumes "drains s UART0 126" "valid_range (ram s) buf (unat len)"
  shows "\<exists>s'. uart0_tx_buffer buf len s = Some s' \<and> ram s' = ram s \<and>
     log s' = log s @ map (\<lambda>b. Reg_write (UART_FIFO UART0) (ucast b)) (bytes_at (ram s) buf (unat len))"
  using tx_buffer_loop_sent [OF assms] by (auto simp: uart0_tx_buffer_def dest: sent_fields)

theorem uart0_tx_buffer_sends_witness:
  "\<exists>s'. uart0_tx_buffer 200 3 demo_drv = Some s' \<and> ram s' = ram demo_drv \<and>
     log s' = log demo_drv @ map (\<lambda>b. Reg_write (UART_FIFO UART0) (ucast b)) (bytes_at (ram demo_drv) 200 3)"
  using uart0_tx_buffer_sends [of demo_drv 200 3] by (simp add: demo_drv_facts)

text \<open>A write to the software transmit buffer appends all its bytes when they fit and none when they
  do not, keeps the buffer well formed, and leaves the FIFO-empty interrupt enabled.\<close>

theorem tx_buff_enq_appends:
  assumes "pTxBuffer s = Some b" "buf_inv b (ram s)" "keeps s (UART_INT_ENA UART0)"
    and "valid_range (ram s) p (unat n)" "disjoint_ranges (pUartBuff b) (buf_size b) p (unat n)"
  shows "\<exists>s' b'. tx_buff_enq p n s = Some s' \<and> pTxBuffer s' = Some b' \<and> buf_inv b' (ram s')
    \<and> buf_unread b' (ram s') = buf_unread b (ram s) @
         (if buf_used b + unat n \<le> buf_size b then bytes_at (ram s) p (unat n) else [])
    \<and> regs s' (UART_INT_ENA UART0) = regs s (UART_INT_ENA UART0) OR UART_TXFIFO_EMPTY_INT"
  using assms by (intro tx_buff_enq_effect) (auto simp: txq_src_ok_def)

theorem tx_buff_enq_appends_witness:
  "\<exists>s' b'. tx_buff_enq 200 2 demo_drv = Some s' \<and> pTxBuffer s' = Some b' \<and> buf_inv b' (ram s')
    \<and> buf_unread b' (ram s') = buf_unread demo_buf (ram demo_drv) @ bytes_at (ram demo_drv) 200 2"
  using tx_buff_enq_appends [of demo_drv demo_buf 200 2] by (auto simp: demo_drv_facts)

text \<open>The FIFO-empty handler moves as many buffered bytes to the hardware FIFO as it has room for
  (128 less what it holds), oldest first, and removes exactly those from the buffer.\<close>

theorem tx_start_uart_buffer_drains:
  assumes "pTxBuffer s = Some b" "buf_inv b (ram s)"
    and "unat (txfifo_cnt (dev s (clk s) (regs s) (UART_STATUS UART0))) \<le> 128"
  shows "\<exists>s' b' n. n = min (buf_used b) (128 - unat (txfifo_cnt (dev s (clk s) (regs s) (UART_STATUS UART0))))
    \<and> tx_start_uart_buffer UART0 s = Some s' \<and> pTxBuffer s' = Some b' \<and> buf_inv b' (ram s')
    \<and> buf_unread b' (ram s') = drop n (buf_unread b (ram s))
    \<and> fifo_bytes UART0 (log s') = fifo_bytes UART0 (log s) @ take n (buf_unread b (ram s))"
  using tx_start_drains [OF assms] by blast

theorem tx_start_uart_buffer_drains_witness:
  "\<exists>s' b'. tx_start_uart_buffer UART0 demo_drv = Some s' \<and> pTxBuffer s' = Some b'
    \<and> buf_unread b' (ram s') = [] \<and> fifo_bytes UART0 (log s') = buf_unread demo_buf (ram demo_drv)"
  using tx_start_uart_buffer_drains [of demo_drv demo_buf] by (auto simp: demo_drv_facts)

text \<open>Whatever the hardware reports, moving the receive FIFO into the software buffer returns, keeps
  the buffer well formed and not full, appends all reported bytes when there is more space than
  that and none otherwise, and changes no memory outside the buffer.\<close>

theorem Uart_rx_buff_enq_safe:
  assumes "pRxBuffer s = Some b" "rx_inv b (ram s)"
  shows "\<exists>s' b' n. n = unat (rxfifo_cnt (dev s (clk s) (regs s) (UART_STATUS UART0)))
    \<and> Uart_rx_buff_enq s = Some s' \<and> pRxBuffer s' = Some b' \<and> rx_inv b' (ram s')
    \<and> buf_unread b' (ram s') = buf_unread b (ram s) @
        (if n < unat (Space b) then fifo_reads n (snd (READ_PERI_REG (UART_STATUS UART0) s)) else [])
    \<and> (\<forall>a. a < pUartBuff b \<or> pUartBuff b + buf_size b \<le> a \<longrightarrow> ram s' a = ram s a)"
  using rx_enq_safe [OF assms] by blast

theorem Uart_rx_buff_enq_safe_witness:
  "\<exists>s' b'. Uart_rx_buff_enq demo_drv = Some s' \<and> pRxBuffer s' = Some b' \<and> rx_inv b' (ram s')"
  using Uart_rx_buff_enq_safe [of demo_drv demo_buf] by (auto simp: demo_drv_facts)

text \<open>Reading the receive buffer delivers the oldest bytes, at most as many as asked for, returns
  their number and removes exactly those, whether or not they wrap around the end.\<close>

theorem rx_buff_deq_takes:
  assumes "pRxBuffer s = Some b" "rx_inv b (ram s)" "n = min (unat (data_len :: u16)) (buf_used b)"
    and "valid_range (ram s) pdata n" "disjoint_ranges (pUartBuff b) (buf_size b) pdata n"
  shows "\<exists>l s' b'. rx_buff_deq pdata data_len s = Some (l, s') \<and> unat l = n
    \<and> pRxBuffer s' = Some b' \<and> rx_inv b' (ram s')
    \<and> bytes_at (ram s') pdata n = take n (buf_unread b (ram s))
    \<and> buf_unread b' (ram s') = drop n (buf_unread b (ram s))"
  using assms rx_deq_takes [where data_len = data_len and s = s and b = b and pdata = pdata] by simp

theorem rx_buff_deq_takes_witness:
  "\<exists>l s' b'. rx_buff_deq 200 3 demo_drv = Some (l, s') \<and> unat l = 2
    \<and> pRxBuffer s' = Some b' \<and> rx_inv b' (ram s')
    \<and> bytes_at (ram s') 200 2 = take 2 (buf_unread demo_buf (ram demo_drv))
    \<and> buf_unread b' (ram s') = drop 2 (buf_unread demo_buf (ram demo_drv))"
  by (rule rx_buff_deq_takes) (simp_all add: demo_drv_facts)

text \<open>Setting word length, stop bits and parity one after the other leaves each of the three fields of
  the configuration register at its value, and every other bit as it was.\<close>

theorem UART_line_parameters:
  assumes "keeps s (UART_CONF0 u)"
    and "c' = regs (UART_SetParity u p (UART_SetStopBits u st (UART_SetWordLength u w s))) (UART_CONF0 u)"
  shows "drop_bit 2 c' AND 3 = bits_val w \<and> drop_bit 4 c' AND 3 = stop_val st
    \<and> (bit c' 1 \<longleftrightarrow> p \<noteq> NONE_BITS) \<and> (bit c' 0 \<longleftrightarrow> p = ODD_BITS)
    \<and> c' AND NOT 0x3F = regs s (UART_CONF0 u) AND NOT 0x3F"
  using line_parameters [OF assms(1), of p st w] assms(2) by blast

theorem UART_line_parameters_witness:
  "\<exists>c'. drop_bit 2 c' AND 3 = bits_val EIGHT_BITS \<and>
     c' = regs (UART_SetParity 0 ODD_BITS (UART_SetStopBits 0 TWO_STOP_BIT (UART_SetWordLength 0 EIGHT_BITS demo_drv)))
       (UART_CONF0 0)"
  using UART_line_parameters [of demo_drv 0 _ ODD_BITS TWO_STOP_BIT EIGHT_BITS, OF demo_drv_facts(11) refl]
  by blast

text \<open>The timed wait for the output to finish ends once the clock, read modulo \<open>2\<^sup>32\<close>, has passed the
  limit at one of its rounds, and answers TRUE only if the software buffer was empty and the
  hardware FIFO was seen empty.\<close>

theorem UART_CheckOutputFinished_returns:
  assumes "lim < sdk_ret s (clk s + 2 + 3 * i) system_get_time - sdk_ret s (clk s) system_get_time"
  shows "\<exists>v s'. UART_CheckOutputFinished u lim s = Some (v, s') \<and>
     (v \<longrightarrow> tx_buff_used (pTxBuffer s) = 0 \<and> (\<exists>k r. txfifo_cnt (dev s k r (UART_STATUS u)) = 0))"
  using check_output_returns [of lim "snd (ask system_get_time s)" i "sdk_ret s (clk s) system_get_time" u] assms
  by (simp add: UART_CheckOutputFinished_def ask_def)

theorem UART_CheckOutputFinished_returns_witness:
  "\<exists>v s'. UART_CheckOutputFinished 0 10 demo_drv = Some (v, s') \<and> (v \<longrightarrow> tx_buff_used (pTxBuffer demo_drv) = 0)"
  using UART_CheckOutputFinished_returns [of 10 demo_drv 5 0] by (auto simp: demo_drv_def)

end
