(* ===== verification/User_Uart.thy ===== *)
theory User_Uart
  imports Uart_Proofs
begin

text \<open>
  The application's UART layer, \<^verbatim>\<open>app/user/user_uart.c\<close>: initialisation of both ports,
  blocking and non-blocking output, the callbacks and the combined interrupt handler that
  fills the receive buffer it was attached with.

  A function pointer is a \<open>callback option\<close>; what calling it does is an argument of the
  handler (\<open>rx_cb\<close>, \<open>tx_cb\<close>), instantiated where the application is put together.
\<close>

record rx_buffer_t =
  rxb_buffer :: ptr
  rxb_len :: u8

record user_uart = soc +
  uart0_rx_cb :: "callback option"
  uart0_tx_empty_cb :: "callback option"
  uart1_tx_empty_cb :: "callback option"

section \<open>Initialisation\<close>

definition uart0_init :: "u32 \<Rightarrow> u32 \<Rightarrow> 'a soc_scheme \<Rightarrow> 'a soc_scheme option" where
  "uart0_init rate frame_interval s =
     (let s = call (Os (Ets_isr_attach 5 uart_intr_handler_cb)) s;
          s = PIN_PULLUP_DIS PERIPHS_IO_MUX_U0TXD_U s;
          s = PIN_FUNC_SELECT PERIPHS_IO_MUX_U0TXD_U 0 s
      in if rate = 0 then None else
      let s = call (Io (Uart_div_modify UART0 (UART_CLK_FREQ div rate))) s;
          s = WRITE_PERI_REG (UART_CONF0 UART0) (push_bit 0 0 OR push_bit 4 1 OR push_bit 2 3) s;
          s = SET_PERI_REG_MASK (UART_CONF0 UART0) (BIT 17 OR BIT 18) s;
          s = CLEAR_PERI_REG_MASK (UART_CONF0 UART0) (BIT 17 OR BIT 18) s;
          s = WRITE_PERI_REG (UART_CONF1 UART0)
                (push_bit 0 (0x7F AND 96) OR push_bit 24 (0x7F AND frame_interval) OR BIT 31 OR
                 push_bit 8 (0x7F AND 1)) s;
          s = WRITE_PERI_REG (UART_INT_CLR UART0) 0xFFFF s
      in Some (SET_PERI_REG_MASK (UART_INT_ENA UART0)
           (UART_RXFIFO_FULL_INT OR UART_RXFIFO_OVF_INT OR UART_RXFIFO_TOUT_INT OR
            UART_TXFIFO_EMPTY_INT OR UART_FRM_ERR_INT) s))"

definition uart1_init :: "u32 \<Rightarrow> 'a soc_scheme \<Rightarrow> 'a soc_scheme option" where
  "uart1_init rate s =
     (let s = PIN_FUNC_SELECT PERIPHS_IO_MUX_GPIO2_U 2 s
      in if rate = 0 then None else
      let s = call (Io (Uart_div_modify UART1 (UART_CLK_FREQ div rate))) s;
          s = WRITE_PERI_REG (UART_CONF0 UART1) (push_bit 0 0 OR push_bit 4 1 OR push_bit 2 3) s;
          s = SET_PERI_REG_MASK (UART_CONF0 UART1) (BIT 17 OR BIT 18) s;
          s = CLEAR_PERI_REG_MASK (UART_CONF0 UART1) (BIT 17 OR BIT 18) s;
          s = WRITE_PERI_REG (UART_CONF1 UART1) (push_bit 0 (0x7F AND 1) OR push_bit 8 (0x7F AND 1)) s;
          s = WRITE_PERI_REG (UART_INT_CLR UART1) 0xFFFF s
      in Some (SET_PERI_REG_MASK (UART_INT_ENA UART1) UART_TXFIFO_EMPTY_INT s))"

definition uart_enable_isr :: "'a soc_scheme \<Rightarrow> 'a soc_scheme" where
  "uart_enable_isr s = ETS_UART_INTR_ENABLE s"

definition uart_disable_isr :: "'a soc_scheme \<Rightarrow> 'a soc_scheme" where
  "uart_disable_isr s = ETS_UART_INTR_DISABLE s"

section \<open>Output\<close>

definition uart0_send_byte_nowait :: "u8 \<Rightarrow> 'a soc_scheme \<Rightarrow> STATUS \<times> 'a soc_scheme" where
  "uart0_send_byte_nowait byte s =
     (let (status, s) = READ_PERI_REG (UART_STATUS UART0) s;
          fifo_cnt = (ucast (drop_bit 16 status AND 0xFF) :: u8)
      in if fifo_cnt < 0x7F then (OK, WRITE_PERI_REG (UART_FIFO UART0) (ucast byte) s)
         else (BUSY, s))"

definition uart1_send_byte_nowait :: "u8 \<Rightarrow> 'a soc_scheme \<Rightarrow> STATUS \<times> 'a soc_scheme" where
  "uart1_send_byte_nowait byte s =
     (let (status, s) = READ_PERI_REG (UART_STATUS UART1) s;
          fifo_cnt = (ucast (drop_bit 16 status AND 0xFF) :: u8)
      in if fifo_cnt < 0x7F then (OK, WRITE_PERI_REG (UART_FIFO UART1) (ucast byte) s)
         else (BUSY, s))"

text \<open>The waiting loop of \<^verbatim>\<open>uart0_send_byte\<close> and \<^verbatim>\<open>uart1_send_byte\<close>.\<close>

partial_function (option) send_byte_wait :: "u8 \<Rightarrow> 'a soc_scheme \<Rightarrow> 'a soc_scheme option" where
  "send_byte_wait uart s =
     (let (status, s) = READ_PERI_REG (UART_STATUS uart) s
      in if 0x7F \<le> (drop_bit 16 status AND 0xFF) then send_byte_wait uart s else Some s)"

definition uart0_send_byte :: "u8 \<Rightarrow> 'a soc_scheme \<Rightarrow> (u8 \<times> 'a soc_scheme) option" where
  "uart0_send_byte byte s =
     do { s \<leftarrow> send_byte_wait UART0 s;
          Some (byte, WRITE_PERI_REG (UART_FIFO UART0) (ucast byte) s) }"

definition uart1_send_byte :: "u8 \<Rightarrow> 'a soc_scheme \<Rightarrow> (u8 \<times> 'a soc_scheme) option" where
  "uart1_send_byte byte s =
     do { s \<leftarrow> send_byte_wait UART1 s;
          Some (byte, WRITE_PERI_REG (UART_FIFO UART1) (ucast byte) s) }"

fun uart0_send_loop :: "ptr \<Rightarrow> nat \<Rightarrow> 'a soc_scheme \<Rightarrow> 'a soc_scheme option" where
  "uart0_send_loop buf 0 s = Some s"
| "uart0_send_loop buf (Suc n) s =
     do { c \<leftarrow> load8 buf s; (_, s) \<leftarrow> uart0_send_byte c s; uart0_send_loop (buf + 1) n s }"

fun uart1_send_loop :: "ptr \<Rightarrow> nat \<Rightarrow> 'a soc_scheme \<Rightarrow> 'a soc_scheme option" where
  "uart1_send_loop buf 0 s = Some s"
| "uart1_send_loop buf (Suc n) s =
     do { c \<leftarrow> load8 buf s; (_, s) \<leftarrow> uart1_send_byte c s; uart1_send_loop (buf + 1) n s }"

definition uart0_send_buffer :: "ptr \<Rightarrow> u32 \<Rightarrow> 'a soc_scheme \<Rightarrow> 'a soc_scheme option" where
  "uart0_send_buffer buf len s = uart0_send_loop buf (unat len) s"

definition uart1_send_buffer :: "ptr \<Rightarrow> u32 \<Rightarrow> 'a soc_scheme \<Rightarrow> 'a soc_scheme option" where
  "uart1_send_buffer buf len s = uart1_send_loop buf (unat len) s"

section \<open>Callbacks and the interrupt handler\<close>

definition uart0_set_rx_cb :: "callback option \<Rightarrow> 'a user_uart_scheme \<Rightarrow> 'a user_uart_scheme" where
  "uart0_set_rx_cb cb s = s\<lparr>uart0_rx_cb := cb\<rparr>"

definition uart0_set_tx_empty_cb :: "callback option \<Rightarrow> 'a user_uart_scheme \<Rightarrow> 'a user_uart_scheme" where
  "uart0_set_tx_empty_cb cb s = s\<lparr>uart0_tx_empty_cb := cb\<rparr>"

definition uart1_set_tx_empty_cb :: "callback option \<Rightarrow> 'a user_uart_scheme \<Rightarrow> 'a user_uart_scheme" where
  "uart1_set_tx_empty_cb cb s = s\<lparr>uart1_tx_empty_cb := cb\<rparr>"

text \<open>
  The copying loop: \<open>n\<close> is the number of bytes still to come, \<open>i\<close> is \<^verbatim>\<open>p_rx_buffer->len\<close>.
\<close>

fun rx_copy :: "ptr \<Rightarrow> nat \<Rightarrow> nat \<Rightarrow> 'a soc_scheme \<Rightarrow> 'a soc_scheme option" where
  "rx_copy buf i 0 s = Some s"
| "rx_copy buf i (Suc n) s =
     (let (v, s) = READ_PERI_REG (UART_FIFO UART0) s
      in do { s \<leftarrow> store8 (buf + i) (ucast (v AND 0xFF)) s; rx_copy buf (Suc i) n s })"

definition rx_pending :: "u32 \<Rightarrow> bool" where
  "rx_pending status0 \<longleftrightarrow>
     status0 AND UART_RXFIFO_TOUT_INT = UART_RXFIFO_TOUT_INT \<or>
     status0 AND UART_RXFIFO_OVF_INT = UART_RXFIFO_OVF_INT \<or>
     status0 AND UART_RXFIFO_FULL_INT = UART_RXFIFO_FULL_INT"

definition uart0_isr ::
  "(callback \<Rightarrow> rx_buffer_t \<Rightarrow> 'a user_uart_scheme \<Rightarrow> 'a user_uart_scheme option) \<Rightarrow>
   (callback \<Rightarrow> 'a user_uart_scheme \<Rightarrow> 'a user_uart_scheme option) \<Rightarrow>
   u32 \<Rightarrow> rx_buffer_t \<Rightarrow> 'a user_uart_scheme \<Rightarrow> (rx_buffer_t \<times> 'a user_uart_scheme) option" where
  "uart0_isr rx_cb tx_cb status0 para s =
     (if status0 AND UART_FRM_ERR_INT = UART_FRM_ERR_INT
      then Some (para, WRITE_PERI_REG (UART_INT_CLR UART0) UART_FRM_ERR_INT s)
      else if rx_pending status0
      then let (st, s) = READ_PERI_REG (UART_STATUS UART0) s;
               n = (ucast (drop_bit 0 st AND 0xFF) :: u8)
           in do { s \<leftarrow> rx_copy (rxb_buffer para) 0 (unat n) s;
                   let para = para\<lparr>rxb_len := n\<rparr>;
                   let s = WRITE_PERI_REG (UART_INT_CLR UART0) UART_RXFIFO_TOUT_INT s;
                   s \<leftarrow> (case uart0_rx_cb s of None \<Rightarrow> Some s | Some cb \<Rightarrow> rx_cb cb para s);
                   Some (para, s) }
      else if status0 AND UART_TXFIFO_EMPTY_INT = UART_TXFIFO_EMPTY_INT
      then let s = CLEAR_PERI_REG_MASK (UART_INT_ENA UART0) UART_TXFIFO_EMPTY_INT s;
               s = WRITE_PERI_REG (UART_INT_CLR UART0) UART_TXFIFO_EMPTY_INT s
           in do { s \<leftarrow> (case uart0_tx_empty_cb s of None \<Rightarrow> Some s | Some cb \<Rightarrow> tx_cb cb s);
                   Some (para, s) }
      else Some (para, s))"

definition uart1_isr ::
  "(callback \<Rightarrow> 'a user_uart_scheme \<Rightarrow> 'a user_uart_scheme option) \<Rightarrow>
   u32 \<Rightarrow> 'a user_uart_scheme \<Rightarrow> 'a user_uart_scheme option" where
  "uart1_isr tx_cb status1 s =
     (if status1 AND UART_FRM_ERR_INT = UART_FRM_ERR_INT
      then Some (WRITE_PERI_REG (UART_INT_CLR UART1) UART_FRM_ERR_INT s)
      else if status1 AND UART_TXFIFO_EMPTY_INT = UART_TXFIFO_EMPTY_INT
      then let s = CLEAR_PERI_REG_MASK (UART_INT_ENA UART1) UART_TXFIFO_EMPTY_INT s;
               s = WRITE_PERI_REG (UART_INT_CLR UART1) UART_TXFIFO_EMPTY_INT s
           in case uart1_tx_empty_cb s of None \<Rightarrow> Some s | Some cb \<Rightarrow> tx_cb cb s
      else Some s)"

definition uart_intr_handler ::
  "(callback \<Rightarrow> rx_buffer_t \<Rightarrow> 'a user_uart_scheme \<Rightarrow> 'a user_uart_scheme option) \<Rightarrow>
   (callback \<Rightarrow> 'a user_uart_scheme \<Rightarrow> 'a user_uart_scheme option) \<Rightarrow>
   rx_buffer_t \<Rightarrow> 'a user_uart_scheme \<Rightarrow> (rx_buffer_t \<times> 'a user_uart_scheme) option" where
  "uart_intr_handler rx_cb tx_cb para s =
     (let (status0, s) = READ_PERI_REG (UART_INT_ST UART0) s;
          (status1, s) = READ_PERI_REG (UART_INT_ST UART1) s
      in do { (para, s) \<leftarrow> uart0_isr rx_cb tx_cb status0 para s;
              s \<leftarrow> uart1_isr tx_cb status1 s;
              Some (para, s) })"

section \<open>Output reaches the FIFO\<close>

lemma send_byte_wait_unfold:
  "send_byte_wait u s =
     (let s1 = s\<lparr>regs := dev s (clk s) (regs s), clk := Suc (clk s)\<rparr>
      in if txfifo_cnt (dev s (clk s) (regs s) (UART_STATUS u)) < 0x7F then Some s1
         else send_byte_wait u s1)"
  by (subst send_byte_wait.simps)
    (simp add: read_split Let_def txfifo_cnt_def linorder_not_less [symmetric])

lemma send_byte_wait_returns:
  assumes "\<forall>r. txfifo_cnt (dev s (clk s + k) r (UART_STATUS u)) < 0x7F"
  shows "\<exists>r c. send_byte_wait u s = Some (s\<lparr>regs := r, clk := c\<rparr>)"
  using assms
proof (induction k arbitrary: s)
  case 0
  then show ?case by (subst send_byte_wait_unfold) (auto simp: Let_def)
next
  case (Suc k)
  let ?s = "s\<lparr>regs := dev s (clk s) (regs s), clk := Suc (clk s)\<rparr>"
  have "\<exists>r c. send_byte_wait u ?s = Some (?s\<lparr>regs := r, clk := c\<rparr>)"
    using Suc.prems by (intro Suc.IH) simp
  then show ?case by (subst send_byte_wait_unfold) (auto simp: Let_def)
qed

lemma send_byte_sent:
  assumes "drains s UART0 0x7F"
  shows "\<exists>s'. uart0_send_byte c s = Some (c, s') \<and> sent UART0 [c] s s'"
proof -
  obtain k where "\<forall>r. txfifo_cnt (dev s (clk s + k) r (UART_STATUS UART0)) < 0x7F"
    using assms by (auto simp: drains_def)
  from send_byte_wait_returns [OF this] obtain r t where
    "send_byte_wait UART0 s = Some (s\<lparr>regs := r, clk := t\<rparr>)" by blast
  then show ?thesis
    by (auto simp: uart0_send_byte_def sent_def WRITE_PERI_REG_def)
qed

lemma send_loop_sent:
  assumes "drains s UART0 0x7F" "valid_range (ram s) buf n"
  shows "\<exists>s'. uart0_send_loop buf n s = Some s' \<and> sent UART0 (bytes_at (ram s) buf n) s s'"
  using assms
proof (induction n arbitrary: buf s)
  case (Suc n)
  obtain c where c: "ram s buf = Some c"
    using Suc.prems(2) by (auto simp: valid_range_iff)
  obtain s1 where s1: "uart0_send_byte c s = Some (c, s1)" "sent UART0 [c] s s1"
    using send_byte_sent [OF Suc.prems(1)] by blast
  have "drains s1 UART0 0x7F" "valid_range (ram s1) (buf + 1) n"
    using Suc.prems s1(2) valid_range_sub [of "ram s" buf "Suc n" 1 n]
    by (auto simp: drains_sent sent_fields)
  then obtain s2 where s2: "uart0_send_loop (buf + 1) n s1 = Some s2"
      "sent UART0 (bytes_at (ram s1) (buf + 1) n) s1 s2"
    using Suc.IH by blast
  have "bytes_at (ram s) buf (Suc n) = [c] @ bytes_at (ram s) (buf + 1) n"
    using bytes_at_append [of "ram s" buf 1 n] c by (simp add: bytes_at_def)
  with sent_trans [OF s1(2) s2(2)] s1 s2 c show ?case
    by (simp add: load8_def sent_fields)
qed simp

section \<open>Receiving\<close>

lemma bind_Some_pair: "Option.bind x (\<lambda>s. Some (p, s)) = map_option (Pair p) x"
  by (cases x) simp_all

lemma rx_copy_effect:
  assumes "valid_range (ram s) (buf + i) n"
  shows "\<exists>m' r c. rx_copy buf i n s = Some (s\<lparr>regs := r, clk := c, ram := m'\<rparr>)
    \<and> bytes_at m' (buf + i) n = fifo_reads n s
    \<and> (\<forall>a. (m' a = None) = (ram s a = None))
    \<and> (\<forall>a. a < buf + i \<or> buf + i + n \<le> a \<longrightarrow> m' a = ram s a)"
  using assms
proof (induction n arbitrary: i s)
  case 0
  have "s = s\<lparr>regs := regs s, clk := clk s, ram := ram s\<rparr>" by simp
  then show ?case by (metis bytes_at_0 fifo_reads.simps(1) rx_copy.simps(1))
next
  case (Suc n)
  let ?r = "dev s (clk s) (regs s)"
  define c where "c = (ucast (?r (UART_FIFO UART0)) :: u8)"
  define s1 where "s1 = s\<lparr>regs := ?r, clk := Suc (clk s), ram := (ram s)(buf + i \<mapsto> c)\<rparr>"
  have dom: "ram s (buf + i) \<noteq> None" using Suc.prems by (auto simp: valid_range_iff)
  have "valid_range (ram s1) (buf + Suc i) n"
    using valid_range_sub [OF Suc.prems, of 1 n] by (auto simp: s1_def valid_range_iff)
  from Suc.IH [OF this] obtain m' r t where
    m': "rx_copy buf (Suc i) n s1 = Some (s1\<lparr>regs := r, clk := t, ram := m'\<rparr>)"
      "bytes_at m' (buf + Suc i) n = fifo_reads n s1"
      "\<forall>a. (m' a = None) = (ram s1 a = None)"
      "\<forall>a. a < buf + Suc i \<or> buf + Suc i + n \<le> a \<longrightarrow> m' a = ram s1 a" by blast
  have "rx_copy buf i (Suc n) s = rx_copy buf (Suc i) n s1"
    using dom by (auto simp: read_split store8_def s1_def c_def)
  also have "\<dots> = Some (s\<lparr>regs := r, clk := t, ram := m'\<rparr>)"
    unfolding m'(1) by (simp add: s1_def)
  finally have "rx_copy buf i (Suc n) s = Some (s\<lparr>regs := r, clk := t, ram := m'\<rparr>)" .
  moreover have "bytes_at m' (buf + i) (Suc n) = fifo_reads (Suc n) s"
  proof -
    have "fifo_reads (Suc n) s = c # fifo_reads n s1"
      using fifo_reads_ram [where n = n and s = "s\<lparr>regs := ?r, clk := Suc (clk s)\<rparr>"]
      by (simp add: read_split c_def s1_def)
    moreover have "m' (buf + i) = Some c" using m'(4) by (simp add: s1_def)
    moreover have "bytes_at m' (buf + i) (Suc n) = bytes_at m' (buf + i) 1 @ bytes_at m' (buf + Suc i) n"
      using bytes_at_append [of m' "buf + i" 1 n] by simp
    ultimately show ?thesis using m'(2) by (simp add: bytes_at_def)
  qed
  moreover have "\<forall>a. (m' a = None) = (ram s a = None)"
  proof
    fix a show "(m' a = None) = (ram s a = None)"
      using m'(3) [rule_format, of a] dom by (simp add: s1_def)
  qed
  moreover have "\<forall>a. a < buf + i \<or> buf + i + Suc n \<le> a \<longrightarrow> m' a = ram s a"
  proof (intro allI impI)
    fix a assume "a < buf + i \<or> buf + i + Suc n \<le> a"
    then have "a < buf + Suc i \<or> buf + Suc i + n \<le> a" "a \<noteq> buf + i" by auto
    then show "m' a = ram s a" using m'(4) [rule_format, of a] by (simp add: s1_def)
  qed
  ultimately show ?case by blast
qed

text \<open>
  A receive interrupt with the attached buffer of 256 bytes: the FIFO's bytes go to the start
  of the buffer and the length is their number, at most 255.
\<close>

lemma uart0_isr_receives:
  assumes st: "rx_pending status0" "status0 AND UART_FRM_ERR_INT \<noteq> UART_FRM_ERR_INT"
    and v: "valid_range (ram s) (rxb_buffer para) 256"
  defines "n \<equiv> unat (rxfifo_cnt (dev s (clk s) (regs s) (UART_STATUS UART0)))"
  shows "\<exists>r c m'. let para' = para\<lparr>rxb_len := of_nat n\<rparr>;
       s1 = WRITE_PERI_REG (UART_INT_CLR UART0) UART_RXFIFO_TOUT_INT (s\<lparr>regs := r, clk := c, ram := m'\<rparr>)
     in uart0_isr rx_cb tx_cb status0 para s =
          map_option (Pair para') (case uart0_rx_cb s of None \<Rightarrow> Some s1 | Some cb \<Rightarrow> rx_cb cb para' s1)
      \<and> n \<le> 255
      \<and> bytes_at m' (rxb_buffer para) n = fifo_reads n (snd (READ_PERI_REG (UART_STATUS UART0) s))
      \<and> (\<forall>a. (m' a = None) = (ram s a = None))
      \<and> (\<forall>a. a < rxb_buffer para \<or> rxb_buffer para + n \<le> a \<longrightarrow> m' a = ram s a)"
proof -
  let ?st = "dev s (clk s) (regs s) (UART_STATUS UART0)"
  define s1 where "s1 = s\<lparr>regs := dev s (clk s) (regs s), clk := Suc (clk s)\<rparr>"
  define fl where "fl = (ucast (rxfifo_cnt ?st) :: u8)"
  have "ucast (ucast (rxfifo_cnt ?st) :: u8) = rxfifo_cnt ?st"
    by (rule bit_eqI) (auto simp: rxfifo_cnt_def bit_simps numeral_eq_Suc less_Suc_eq)
  then have fl: "unat fl = n" by (metis fl_def n_def unat_ucast_u8_u32)
  have n: "n \<le> 255" using unat_u8_less [of fl] fl by simp
  have fln: "of_nat n = fl" using fl by (auto simp flip: fl)
  have "valid_range (ram s1) (rxb_buffer para + 0) n"
    using valid_range_sub [OF v, of 0 n] n by (simp add: s1_def)
  from rx_copy_effect [OF this] obtain m' r c where
    m': "rx_copy (rxb_buffer para) 0 n s1 = Some (s1\<lparr>regs := r, clk := c, ram := m'\<rparr>)"
      "bytes_at m' (rxb_buffer para) n = fifo_reads n s1" "\<forall>a. (m' a = None) = (ram s a = None)"
      "\<forall>a. a < rxb_buffer para \<or> rxb_buffer para + n \<le> a \<longrightarrow> m' a = ram s a"
    by (auto simp: s1_def)
  have e: "s1\<lparr>regs := r, clk := c, ram := m'\<rparr> = s\<lparr>regs := r, clk := c, ram := m'\<rparr>"
    by (simp add: s1_def)
  have rd: "READ_PERI_REG (UART_STATUS UART0) s = (?st, s1)" by (simp add: read_split s1_def)
  have fl': "(ucast (drop_bit 0 ?st AND 0xFF) :: u8) = fl" by (simp add: fl_def rxfifo_cnt_def)
  have cb: "uart0_rx_cb (WRITE_PERI_REG a v (s\<lparr>regs := r, clk := c, ram := m'\<rparr>)) = uart0_rx_cb s" for a v
    by (simp add: WRITE_PERI_REG_def)
  show ?thesis
    unfolding Let_def uart0_isr_def rd prod.case fl' fln
    using st m' n by (intro exI [of _ r] exI [of _ c] exI [of _ m'])
      (auto simp: fl e cb bind_Some_pair split: option.splits)
qed

end
