(* ===== verification/Modbus_Crc.thy ===== *)
theory Modbus_Crc
  imports Prelude
begin

text \<open>
  The checksum of \<^verbatim>\<open>app/user/modbus.c\<close>: the two 256-entry tables, the state
  \<^verbatim>\<open>crcH\<close>, \<^verbatim>\<open>crcL\<close>, \<^verbatim>\<open>idx\<close> of the file, the byte-at-a-time and the buffer routine. The
  reference is the bitwise CRC-16 of the Modbus serial line protocol (reflected polynomial
  0xA001, initial value 0xFFFF), to which the table code is proved equal.
\<close>

section \<open>Model\<close>

definition auchCRCHi :: "u8 list" where
  "auchCRCHi =
  [0x00, 0xC1, 0x81, 0x40, 0x01, 0xC0, 0x80, 0x41, 0x01, 0xC0, 0x80, 0x41,
   0x00, 0xC1, 0x81, 0x40, 0x01, 0xC0, 0x80, 0x41, 0x00, 0xC1, 0x81, 0x40,
   0x00, 0xC1, 0x81, 0x40, 0x01, 0xC0, 0x80, 0x41, 0x01, 0xC0, 0x80, 0x41,
   0x00, 0xC1, 0x81, 0x40, 0x00, 0xC1, 0x81, 0x40, 0x01, 0xC0, 0x80, 0x41,
   0x00, 0xC1, 0x81, 0x40, 0x01, 0xC0, 0x80, 0x41, 0x01, 0xC0, 0x80, 0x41,
   0x00, 0xC1, 0x81, 0x40, 0x01, 0xC0, 0x80, 0x41, 0x00, 0xC1, 0x81, 0x40,
   0x00, 0xC1, 0x81, 0x40, 0x01, 0xC0, 0x80, 0x41, 0x00, 0xC1, 0x81, 0x40,
   0x01, 0xC0, 0x80, 0x41, 0x01, 0xC0, 0x80, 0x41, 0x00, 0xC1, 0x81, 0x40,
   0x00, 0xC1, 0x81, 0x40, 0x01, 0xC0, 0x80, 0x41, 0x01, 0xC0, 0x80, 0x41,
   0x00, 0xC1, 0x81, 0x40, 0x01, 0xC0, 0x80, 0x41, 0x00, 0xC1, 0x81, 0x40,
   0x00, 0xC1, 0x81, 0x40, 0x01, 0xC0, 0x80, 0x41, 0x01, 0xC0, 0x80, 0x41,
   0x00, 0xC1, 0x81, 0x40, 0x00, 0xC1, 0x81, 0x40, 0x01, 0xC0, 0x80, 0x41,
   0x00, 0xC1, 0x81, 0x40, 0x01, 0xC0, 0x80, 0x41, 0x01, 0xC0, 0x80, 0x41,
   0x00, 0xC1, 0x81, 0x40, 0x00, 0xC1, 0x81, 0x40, 0x01, 0xC0, 0x80, 0x41,
   0x01, 0xC0, 0x80, 0x41, 0x00, 0xC1, 0x81, 0x40, 0x01, 0xC0, 0x80, 0x41,
   0x00, 0xC1, 0x81, 0x40, 0x00, 0xC1, 0x81, 0x40, 0x01, 0xC0, 0x80, 0x41,
   0x00, 0xC1, 0x81, 0x40, 0x01, 0xC0, 0x80, 0x41, 0x01, 0xC0, 0x80, 0x41,
   0x00, 0xC1, 0x81, 0x40, 0x01, 0xC0, 0x80, 0x41, 0x00, 0xC1, 0x81, 0x40,
   0x00, 0xC1, 0x81, 0x40, 0x01, 0xC0, 0x80, 0x41, 0x01, 0xC0, 0x80, 0x41,
   0x00, 0xC1, 0x81, 0x40, 0x00, 0xC1, 0x81, 0x40, 0x01, 0xC0, 0x80, 0x41,
   0x00, 0xC1, 0x81, 0x40, 0x01, 0xC0, 0x80, 0x41, 0x01, 0xC0, 0x80, 0x41,
   0x00, 0xC1, 0x81, 0x40]"

definition auchCRCLo :: "u8 list" where
  "auchCRCLo =
  [0x00, 0xC0, 0xC1, 0x01, 0xC3, 0x03, 0x02, 0xC2, 0xC6, 0x06, 0x07, 0xC7,
   0x05, 0xC5, 0xC4, 0x04, 0xCC, 0x0C, 0x0D, 0xCD, 0x0F, 0xCF, 0xCE, 0x0E,
   0x0A, 0xCA, 0xCB, 0x0B, 0xC9, 0x09, 0x08, 0xC8, 0xD8, 0x18, 0x19, 0xD9,
   0x1B, 0xDB, 0xDA, 0x1A, 0x1E, 0xDE, 0xDF, 0x1F, 0xDD, 0x1D, 0x1C, 0xDC,
   0x14, 0xD4, 0xD5, 0x15, 0xD7, 0x17, 0x16, 0xD6, 0xD2, 0x12, 0x13, 0xD3,
   0x11, 0xD1, 0xD0, 0x10, 0xF0, 0x30, 0x31, 0xF1, 0x33, 0xF3, 0xF2, 0x32,
   0x36, 0xF6, 0xF7, 0x37, 0xF5, 0x35, 0x34, 0xF4, 0x3C, 0xFC, 0xFD, 0x3D,
   0xFF, 0x3F, 0x3E, 0xFE, 0xFA, 0x3A, 0x3B, 0xFB, 0x39, 0xF9, 0xF8, 0x38,
   0x28, 0xE8, 0xE9, 0x29, 0xEB, 0x2B, 0x2A, 0xEA, 0xEE, 0x2E, 0x2F, 0xEF,
   0x2D, 0xED, 0xEC, 0x2C, 0xE4, 0x24, 0x25, 0xE5, 0x27, 0xE7, 0xE6, 0x26,
   0x22, 0xE2, 0xE3, 0x23, 0xE1, 0x21, 0x20, 0xE0, 0xA0, 0x60, 0x61, 0xA1,
   0x63, 0xA3, 0xA2, 0x62, 0x66, 0xA6, 0xA7, 0x67, 0xA5, 0x65, 0x64, 0xA4,
   0x6C, 0xAC, 0xAD, 0x6D, 0xAF, 0x6F, 0x6E, 0xAE, 0xAA, 0x6A, 0x6B, 0xAB,
   0x69, 0xA9, 0xA8, 0x68, 0x78, 0xB8, 0xB9, 0x79, 0xBB, 0x7B, 0x7A, 0xBA,
   0xBE, 0x7E, 0x7F, 0xBF, 0x7D, 0xBD, 0xBC, 0x7C, 0xB4, 0x74, 0x75, 0xB5,
   0x77, 0xB7, 0xB6, 0x76, 0x72, 0xB2, 0xB3, 0x73, 0xB1, 0x71, 0x70, 0xB0,
   0x50, 0x90, 0x91, 0x51, 0x93, 0x53, 0x52, 0x92, 0x96, 0x56, 0x57, 0x97,
   0x55, 0x95, 0x94, 0x54, 0x9C, 0x5C, 0x5D, 0x9D, 0x5F, 0x9F, 0x9E, 0x5E,
   0x5A, 0x9A, 0x9B, 0x5B, 0x99, 0x59, 0x58, 0x98, 0x88, 0x48, 0x49, 0x89,
   0x4B, 0x8B, 0x8A, 0x4A, 0x4E, 0x8E, 0x8F, 0x4F, 0x8D, 0x4D, 0x4C, 0x8C,
   0x44, 0x84, 0x85, 0x45, 0x87, 0x47, 0x46, 0x86, 0x82, 0x42, 0x43, 0x83,
   0x41, 0x81, 0x80, 0x40]"

record crc_state =
  crcH :: u8
  crcL :: u8
  idx :: u32

definition modbus_crc16_init :: "crc_state \<Rightarrow> crc_state" where
  "modbus_crc16_init s = s\<lparr>crcH := 0xFF, crcL := 0xFF, idx := 0\<rparr>"

text \<open>The index is \<^verbatim>\<open>crcL ^ byte\<close>, two bytes promoted to \<^verbatim>\<open>uint32_t\<close>, hence below 256.\<close>

definition crc_step :: "u8 \<Rightarrow> crc_state \<Rightarrow> crc_state" where
  "crc_step byte s =
     (let s = s\<lparr>idx := ucast (crcL s XOR byte)\<rparr>;
          s = s\<lparr>crcL := crcH s XOR auchCRCHi ! unat (idx s)\<rparr>
      in s\<lparr>crcH := auchCRCLo ! unat (idx s)\<rparr>)"

definition modbus_checksum :: "crc_state \<Rightarrow> u16" where
  "modbus_checksum s = push_bit 8 (ucast (crcH s)) OR ucast (crcL s)"

definition modbus_crc16_once :: "u8 \<Rightarrow> crc_state \<Rightarrow> u16 \<times> crc_state" where
  "modbus_crc16_once byte s = (let s = crc_step byte s in (modbus_checksum s, s))"

text \<open>
  \<^verbatim>\<open>modbus_crc16\<close> resets the state, walks the buffer with \<^verbatim>\<open>while (len--)\<close> and
  \<^verbatim>\<open>*buf++\<close>, and returns the checksum; the buffer is the list of its \<^verbatim>\<open>len\<close> bytes.
\<close>

fun modbus_crc16_loop :: "u8 list \<Rightarrow> crc_state \<Rightarrow> crc_state" where
  "modbus_crc16_loop [] s = s"
| "modbus_crc16_loop (b # bs) s = modbus_crc16_loop bs (crc_step b s)"

definition modbus_crc16 :: "u8 list \<Rightarrow> crc_state \<Rightarrow> u16 \<times> crc_state" where
  "modbus_crc16 buf s =
     (let s = modbus_crc16_loop buf (s\<lparr>crcH := 0xFF, crcL := 0xFF, idx := 0\<rparr>)
      in (modbus_checksum s, s))"

section \<open>Reference: the bitwise CRC\<close>

definition crc_bit :: "u16 \<Rightarrow> u16" where
  "crc_bit c = (if bit c 0 then drop_bit 1 c XOR 0xA001 else drop_bit 1 c)"

definition crc_byte :: "u8 \<Rightarrow> u16 \<Rightarrow> u16" where
  "crc_byte b c = (crc_bit ^^ 8) (c XOR ucast b)"

fun crc_ref :: "u8 list \<Rightarrow> u16 \<Rightarrow> u16" where
  "crc_ref [] c = c"
| "crc_ref (b # bs) c = crc_ref bs (crc_byte b c)"

section \<open>The tables\<close>

text \<open>
  Eight steps of \<open>crc_bit\<close> are linear over exclusive or, so they are fixed by their
  values on the eight powers of two, and a table entry is the combination of the values
  for the bits set in its index. The tables of the source are checked to be that span.
\<close>

lemma crc_bit_eval:
  "odd c \<Longrightarrow> crc_bit c = drop_bit 1 c XOR 0xA001" "even c \<Longrightarrow> crc_bit c = drop_bit 1 c"
  by (simp_all add: crc_bit_def bit_0)

lemma crc_byte_unroll:
  "(crc_bit ^^ 8) c =
     crc_bit (crc_bit (crc_bit (crc_bit (crc_bit (crc_bit (crc_bit (crc_bit c)))))))"
  by (simp add: eval_nat_numeral)

lemma crc_bit_xor: "crc_bit (a XOR b) = crc_bit a XOR crc_bit b"
  by (simp add: crc_bit_def bit_xor_iff drop_bit_xor ac_simps)

lemma crc_bits_xor: "(crc_bit ^^ n) (a XOR b) = (crc_bit ^^ n) a XOR (crc_bit ^^ n) b"
  by (induction n) (simp_all add: crc_bit_xor)

lemma crc_bits_0: "(crc_bit ^^ n) 0 = 0"
  by (induction n) (simp_all add: crc_bit_def)

fun span_table :: "u16 list \<Rightarrow> u16 list" where
  "span_table [] = [0]"
| "span_table (b # bs) = span_table bs @ map (\<lambda>x. x XOR b) (span_table bs)"

lemma length_span_table [simp]: "length (span_table bs) = 2 ^ length bs"
  by (induction bs) simp_all

lemma of_nat_split_top:
  assumes "i < 2 ^ k"
  shows "(of_nat (2 ^ k + i) :: u16) = of_nat i XOR 2 ^ k"
proof -
  have "\<not> bit i k"
    using assms by (simp add: bit_iff_odd)
  then have "(2 ^ k :: u16) AND of_nat i = 0"
    by (intro bit_eqI) (auto simp: bit_and_iff bit_exp_iff bit_of_nat_iff)
  then have "(2 ^ k :: u16) + of_nat i = 2 ^ k XOR of_nat i"
    by (rule disjunctive_add_eq_xor)
  then show ?thesis by (simp add: xor.commute)
qed

lemma nth_span_table:
  assumes "\<And>j. j < length bs \<Longrightarrow> bs ! j = (crc_bit ^^ n) (2 ^ (length bs - 1 - j))"
    and "i < 2 ^ length bs"
  shows "span_table bs ! i = (crc_bit ^^ n) (of_nat i)"
  using assms
proof (induction bs arbitrary: i)
  case Nil
  then show ?case by (simp add: crc_bits_0)
next
  case (Cons b bs)
  have b: "b = (crc_bit ^^ n) (2 ^ length bs)" using Cons.prems(1) [of 0] by simp
  have IH: "span_table bs ! j = (crc_bit ^^ n) (of_nat j)" if "j < 2 ^ length bs" for j
  proof (rule Cons.IH [OF _ that])
    fix k assume "k < length bs"
    then show "bs ! k = (crc_bit ^^ n) (2 ^ (length bs - 1 - k))"
      using Cons.prems(1) [of "Suc k"] by simp
  qed
  show ?case
  proof (cases "i < 2 ^ length bs")
    case True
    then show ?thesis by (simp add: nth_append IH)
  next
    case False
    then obtain j where j: "i = 2 ^ length bs + j" by (metis le_Suc_ex not_less)
    with Cons.prems(2) have "j < 2 ^ length bs" by simp
    with j show ?thesis
      by (simp add: nth_append IH b of_nat_split_top crc_bits_xor del: of_nat_add)
  qed
qed

definition crc_basis :: "u16 list" where
  "crc_basis = [0xA001, 0xF001, 0xD801, 0xCC01, 0xC601, 0xC301, 0xC181, 0xC0C1]"

lemma crc_basis_values: "map (\<lambda>k. (crc_bit ^^ 8) (2 ^ k)) [7, 6, 5, 4, 3, 2, 1, 0] = crc_basis"
  by (simp add: crc_basis_def crc_byte_unroll crc_bit_eval)

lemma tables_span:
  "map2 (\<lambda>l h. push_bit 8 (ucast l) OR ucast h) auchCRCLo auchCRCHi = span_table crc_basis"
  by (simp add: auchCRCLo_def auchCRCHi_def crc_basis_def)

lemma length_tables [simp]: "length auchCRCLo = 256" "length auchCRCHi = 256"
  by (simp_all add: auchCRCLo_def auchCRCHi_def)

lemma crc_basis_nth:
  "j < length crc_basis \<Longrightarrow> crc_basis ! j = (crc_bit ^^ 8) (2 ^ (length crc_basis - 1 - j))"
proof -
  assume j: "j < length crc_basis"
  then have "j \<in> {0, 1, 2, 3, 4, 5, 6, 7}" by (auto simp: crc_basis_def)
  then have "[7, 6, 5, 4, 3, 2, 1, 0] ! j = 7 - j" by auto
  moreover have "crc_basis ! j = (crc_bit ^^ 8) (2 ^ ([7, 6, 5, 4, 3, 2, 1, 0] ! j))"
    using j by (subst crc_basis_values [symmetric], subst nth_map) (simp_all add: crc_basis_def)
  moreover have "length crc_basis = 8" by (simp add: crc_basis_def)
  ultimately show ?thesis by simp
qed

lemma table_entry_crc:
  "push_bit 8 (ucast (auchCRCLo ! unat i)) OR ucast (auchCRCHi ! unat i)
     = (crc_bit ^^ 8) (ucast (i :: u8))"
proof -
  have i: "unat i < 256" using unsigned_less [of i] by simp
  have "push_bit 8 (ucast (auchCRCLo ! unat i)) OR ucast (auchCRCHi ! unat i)
      = span_table crc_basis ! unat i"
    by (subst tables_span [symmetric]) (simp add: i)
  also have "\<dots> = (crc_bit ^^ 8) (of_nat (unat i))"
    using i by (intro nth_span_table crc_basis_nth) (simp_all add: crc_basis_def)
  finally show ?thesis by simp
qed

section \<open>The table step is the bitwise step\<close>

lemma crc_bits_shift:
  "n \<le> 8 \<Longrightarrow> (crc_bit ^^ n) (push_bit n (ucast (h :: u8))) = ucast h"
proof (induction n)
  case 0
  then show ?case by simp
next
  case (Suc n)
  have "drop_bit 1 (push_bit (Suc n) (ucast h)) = (push_bit n (ucast h) :: u16)"
  proof (rule bit_eqI)
    fix m
    have "\<not> bit h (15 - n)" using Suc.prems by simp
    moreover assume "possible_bit TYPE(u16) m"
    ultimately show "bit (drop_bit 1 (push_bit (Suc n) (ucast h)) :: u16) m
        = bit (push_bit n (ucast h) :: u16) m"
      by (cases "m = 15") (auto simp: bit_simps simp del: push_bit_Suc)
  qed
  moreover have "even (push_bit (Suc n) (ucast h) :: u16)" by simp
  ultimately have "crc_bit (push_bit (Suc n) (ucast h)) = push_bit n (ucast h)"
    by (simp only: crc_bit_eval(2))
  with Suc show ?case by (simp add: funpow_swap1 del: push_bit_Suc)
qed

lemma xor_low_byte:
  "(push_bit 8 (ucast (h :: u8)) OR ucast l) XOR ucast b
     = push_bit 8 (ucast h) XOR (ucast (l XOR b :: u8) :: u16)"
  by (rule bit_eqI) (auto simp: bit_simps)

lemma xor_table_word:
  "ucast (h :: u8) XOR (push_bit 8 (ucast lo) OR ucast hi)
     = (push_bit 8 (ucast (lo :: u8)) OR ucast (h XOR hi) :: u16)"
  by (rule bit_eqI) (auto simp: bit_simps)

lemma crc_step_fields [simp]:
  "crcH (crc_step b s) = auchCRCLo ! unat (crcL s XOR b)"
  "crcL (crc_step b s) = crcH s XOR auchCRCHi ! unat (crcL s XOR b)"
  by (simp_all add: crc_step_def Let_def)

lemma checksum_crc_step:
  "modbus_checksum (crc_step b s) = crc_byte b (modbus_checksum s)"
proof -
  have "crc_byte b (modbus_checksum s)
      = (crc_bit ^^ 8) (push_bit 8 (ucast (crcH s))) XOR (crc_bit ^^ 8) (ucast (crcL s XOR b))"
    by (simp add: crc_byte_def modbus_checksum_def xor_low_byte crc_bits_xor)
  also have "\<dots> = modbus_checksum (crc_step b s)"
    by (simp add: crc_bits_shift table_entry_crc [symmetric] xor_table_word modbus_checksum_def)
  finally show ?thesis by simp
qed

lemma checksum_crc_loop:
  "modbus_checksum (modbus_crc16_loop bs s) = crc_ref bs (modbus_checksum s)"
  by (induction bs arbitrary: s) (simp_all add: checksum_crc_step)

lemma checksum_init: "modbus_checksum (s\<lparr>crcH := 0xFF, crcL := 0xFF, idx := 0\<rparr>) = 0xFFFF"
  by (simp add: modbus_checksum_def)

section \<open>Injectivity of a step\<close>

lemma tables_xor:
  "auchCRCLo ! unat (i XOR j :: u8) = auchCRCLo ! unat i XOR auchCRCLo ! unat j"
proof -
  let ?e = "\<lambda>i :: u8. push_bit 8 (ucast (auchCRCLo ! unat i)) OR ucast (auchCRCHi ! unat i) :: u16"
  have "?e (i XOR j) = ?e i XOR ?e j"
    by (simp only: table_entry_crc) (simp add: unsigned_xor_eq crc_bits_xor)
  also have "\<dots> = push_bit 8 (ucast (auchCRCLo ! unat i XOR auchCRCLo ! unat j))
      OR ucast (auchCRCHi ! unat i XOR auchCRCHi ! unat j)"
    by (rule bit_eqI) (auto simp: bit_simps)
  finally show ?thesis by (simp add: join_u16_eq)
qed

lemma auchCRCLo_zero:
  assumes "auchCRCLo ! unat (i :: u8) = 0"
  shows "i = 0"
proof (rule ccontr)
  assume "i \<noteq> 0"
  then have "unat i - 1 < length (tl auchCRCLo)" "unat i = Suc (unat i - 1)"
    using unat_u8_less [of i] by (auto simp: unat_gt_0)
  then have "auchCRCLo ! unat i \<in> set (tl auchCRCLo)"
    by (metis nth_mem nth_tl)
  moreover have "0 \<notin> set (tl auchCRCLo)" by (simp add: auchCRCLo_def)
  ultimately show False using assms by simp
qed

lemma auchCRCLo_inj:
  assumes "auchCRCLo ! unat (i :: u8) = auchCRCLo ! unat j"
  shows "i = j"
proof -
  have "auchCRCLo ! unat (i XOR j) = 0" using assms by (simp add: tables_xor)
  then have "i XOR j = 0" by (rule auchCRCLo_zero)
  then show ?thesis by (metis xor.assoc xor_self_eq xor.left_neutral)
qed

text \<open>Steps that agree afterwards, on the same byte or from the same state, agreed before.\<close>

lemma crc_step_index:
  assumes "modbus_checksum (crc_step a s) = modbus_checksum (crc_step b t)"
  shows "crcL s XOR a = crcL t XOR b"
    and "crcH s XOR auchCRCHi ! unat (crcL s XOR a) = crcH t XOR auchCRCHi ! unat (crcL t XOR b)"
proof -
  have "auchCRCLo ! unat (crcL s XOR a) = auchCRCLo ! unat (crcL t XOR b)"
    and "crcH s XOR auchCRCHi ! unat (crcL s XOR a) = crcH t XOR auchCRCHi ! unat (crcL t XOR b)"
    using assms by (simp_all add: modbus_checksum_def join_u16_eq)
  then show "crcL s XOR a = crcL t XOR b"
    and "crcH s XOR auchCRCHi ! unat (crcL s XOR a) = crcH t XOR auchCRCHi ! unat (crcL t XOR b)"
    by (simp_all add: auchCRCLo_inj)
qed

lemma crc_step_inj_state:
  assumes "modbus_checksum (crc_step b s) = modbus_checksum (crc_step b t)"
  shows "modbus_checksum s = modbus_checksum t"
proof -
  note ix = crc_step_index [OF assms]
  have l: "crcL s = crcL t" using ix(1) by (simp only: xor_right_cancel)
  have "crcH s = crcH t" using ix(2) by (simp only: l xor_right_cancel)
  with l show ?thesis by (simp add: modbus_checksum_def)
qed

lemma crc_step_inj_byte:
  "modbus_checksum (crc_step a s) = modbus_checksum (crc_step b s) \<Longrightarrow> a = b"
  using crc_step_index(1) [of a s b s] by (simp add: xor_left_cancel)

lemma crc_loop_inj:
  "modbus_checksum (modbus_crc16_loop bs s) = modbus_checksum (modbus_crc16_loop bs t) \<Longrightarrow>
   modbus_checksum s = modbus_checksum t"
proof (induction bs arbitrary: s t)
  case Nil
  then show ?case by simp
next
  case (Cons b bs)
  have "modbus_checksum (crc_step b s) = modbus_checksum (crc_step b t)"
    by (rule Cons.IH) (use Cons.prems in \<open>simp only: modbus_crc16_loop.simps\<close>)
  then show ?case by (rule crc_step_inj_state)
qed

lemma crc_loop_append:
  "modbus_crc16_loop (xs @ ys) s = modbus_crc16_loop ys (modbus_crc16_loop xs s)"
  by (induction xs arbitrary: s) simp_all

section \<open>Properties\<close>

text \<open>C11. The table-driven checksum of a buffer is the bitwise Modbus CRC-16 of its bytes,
  whatever the state the previous call left behind.\<close>

theorem modbus_crc16_is_crc: "fst (modbus_crc16 buf s) = crc_ref buf 0xFFFF"
  by (simp add: modbus_crc16_def Let_def checksum_crc_loop checksum_init)

text \<open>The checksum test of the receiver accepts a frame exactly when its last two bytes
  are the checksum of the bytes before them, low byte first.\<close>

theorem modbus_crc16_accepts_iff:
  "fst (modbus_crc16 (buf @ [lo, hi]) s) = 0 \<longleftrightarrow>
     fst (modbus_crc16 buf s) = push_bit 8 (ucast hi) OR ucast lo"
proof -
  define t where "t = modbus_crc16_loop buf (s\<lparr>crcH := 0xFF, crcL := 0xFF, idx := 0\<rparr>)"
  have z: "(push_bit 8 (ucast a) OR ucast b :: u16) = 0 \<longleftrightarrow> a = 0 \<and> b = 0" for a b :: u8
    using join_u16_eq [of a b 0 0] by simp
  have t0: "auchCRCLo ! 0 = 0" "auchCRCHi ! 0 = 0"
    by (simp_all add: auchCRCLo_def auchCRCHi_def)
  have "fst (modbus_crc16 (buf @ [lo, hi]) s) = 0 \<longleftrightarrow>
      modbus_checksum (crc_step hi (crc_step lo t)) = 0"
    by (simp add: modbus_crc16_def Let_def crc_loop_append t_def)
  also have "\<dots> \<longleftrightarrow> crcL t = lo \<and> crcH t = hi"
  proof
    assume "modbus_checksum (crc_step hi (crc_step lo t)) = 0"
    then have *: "auchCRCLo ! unat (crcL (crc_step lo t) XOR hi) = 0"
        "crcH (crc_step lo t) XOR auchCRCHi ! unat (crcL (crc_step lo t) XOR hi) = 0"
      by (simp_all only: modbus_checksum_def z crc_step_fields)
    from auchCRCLo_zero [OF *(1)] have i2: "crcL (crc_step lo t) = hi"
      by (metis xor_right_cancel xor_self_eq)
    then have "auchCRCLo ! unat (crcL t XOR lo) = 0" using *(2) by (simp add: t0)
    from auchCRCLo_zero [OF this] have i1: "crcL t = lo" by (metis xor_right_cancel xor_self_eq)
    with i2 show "crcL t = lo \<and> crcH t = hi" by (simp add: t0)
  next
    assume "crcL t = lo \<and> crcH t = hi"
    then show "modbus_checksum (crc_step hi (crc_step lo t)) = 0"
      by (simp add: modbus_checksum_def t0)
  qed
  also have "\<dots> \<longleftrightarrow> fst (modbus_crc16 buf s) = push_bit 8 (ucast hi) OR ucast lo"
    by (auto simp: modbus_crc16_def Let_def t_def [symmetric] modbus_checksum_def join_u16_eq)
  finally show ?thesis .
qed

text \<open>No frame that differs from another in exactly one byte has the same checksum, so
  a single corrupted byte of an accepted frame is always detected.\<close>

theorem modbus_crc16_detects_byte:
  assumes "a \<noteq> b"
  shows "fst (modbus_crc16 (xs @ a # ys) s) \<noteq> fst (modbus_crc16 (xs @ b # ys) t)"
proof
  define c where "c = modbus_crc16_loop xs (s\<lparr>crcH := 0xFF, crcL := 0xFF, idx := 0\<rparr>)"
  define d where "d = modbus_crc16_loop xs (t\<lparr>crcH := 0xFF, crcL := 0xFF, idx := 0\<rparr>)"
  have cd: "modbus_checksum c = modbus_checksum d"
    by (simp add: c_def d_def checksum_crc_loop checksum_init)
  assume "fst (modbus_crc16 (xs @ a # ys) s) = fst (modbus_crc16 (xs @ b # ys) t)"
  then have "modbus_checksum (modbus_crc16_loop ys (crc_step a c))
      = modbus_checksum (modbus_crc16_loop ys (crc_step b d))"
    by (simp add: modbus_crc16_def Let_def crc_loop_append c_def d_def)
  then have "modbus_checksum (crc_step a c) = modbus_checksum (crc_step b d)"
    by (rule crc_loop_inj)
  also have "\<dots> = modbus_checksum (crc_step b c)"
    by (simp add: checksum_crc_step cd)
  finally show False using assms crc_step_inj_byte by blast
qed

theorem modbus_crc16_detects_byte_witness:
  "fst (modbus_crc16 ([1] @ 2 # [3]) \<lparr>crcH = 0, crcL = 0, idx = 0\<rparr>)
     \<noteq> fst (modbus_crc16 ([1] @ 4 # [3]) \<lparr>crcH = 1, crcL = 2, idx = 3\<rparr>)"
  by (rule modbus_crc16_detects_byte) simp

text \<open>Feeding the bytes one at a time with \<^verbatim>\<open>modbus_crc16_once\<close> after
  \<^verbatim>\<open>modbus_crc16_init\<close> gives the buffer routine's checksum.\<close>

theorem modbus_crc16_incremental:
  "modbus_checksum (fold (\<lambda>b st. snd (modbus_crc16_once b st)) buf (modbus_crc16_init s))
     = fst (modbus_crc16 buf t)"
proof -
  have "fold (\<lambda>b st. snd (modbus_crc16_once b st)) buf u = modbus_crc16_loop buf u" for u
    by (induction buf arbitrary: u) (simp_all add: modbus_crc16_once_def Let_def)
  then show ?thesis
    by (simp add: modbus_crc16_init_def modbus_crc16_def Let_def checksum_crc_loop checksum_init)
qed

end
