(* ===== verification/Modbus.thy ===== *)
theory Modbus
  imports User_Uart Modbus_Crc
begin

text \<open>
  The Modbus layer of the gateway, \<^verbatim>\<open>app/user/modbus.c\<close>, on top of the UART: frames from the
  network are sent to the serial line only if their checksum is right, frames from the serial
  line are handed to the network only if theirs is. The checksum itself is in \<open>Modbus_Crc\<close>.
\<close>

record modbus = user_uart +
  crc :: crc_state
  modbus_rx_buffer :: rx_buffer_t
  modbus_recv_frame_cb :: "callback option"

abbreviation (input) MODBUS_BUFFER_SIZE :: nat where "MODBUS_BUFFER_SIZE \<equiv> 256"

definition modbus_init :: "'a modbus_scheme \<Rightarrow> 'a modbus_scheme option" where
  "modbus_init s =
     (let (p, s) = os_zalloc MODBUS_BUFFER_SIZE s;
          s = s\<lparr>modbus_rx_buffer := (modbus_rx_buffer s)\<lparr>rxb_buffer := p\<rparr>\<rparr>
      in do { s \<leftarrow> uart0_init 9600 64 s; Some (uart_enable_isr s) })"

text \<open>\<^verbatim>\<open>modbus_crc16\<close> on a buffer in memory.\<close>

definition modbus_crc16_at :: "ptr \<Rightarrow> nat \<Rightarrow> 'a modbus_scheme \<Rightarrow> (u16 \<times> 'a modbus_scheme) option" where
  "modbus_crc16_at buf n s =
     (if valid_range (ram s) buf n
      then let (v, c) = modbus_crc16 (bytes_at (ram s) buf n) (crc s) in Some (v, s\<lparr>crc := c\<rparr>)
      else None)"

definition modbus_send :: "ptr \<Rightarrow> u16 \<Rightarrow> 'a modbus_scheme \<Rightarrow> 'a modbus_scheme option" where
  "modbus_send pbuf len s =
     (if pbuf \<noteq> NULL
      then do { (v, s) \<leftarrow> modbus_crc16_at pbuf (unat len) s;
                if v = 0 then uart0_send_loop pbuf (unat len) s else Some s }
      else Some s)"

definition modbus_receive ::
  "(callback \<Rightarrow> ptr \<Rightarrow> u16 \<Rightarrow> 'a modbus_scheme \<Rightarrow> 'a modbus_scheme option) \<Rightarrow>
   rx_buffer_t option \<Rightarrow> 'a modbus_scheme \<Rightarrow> 'a modbus_scheme option" where
  "modbus_receive frame_cb pbuf s =
     (case pbuf of
        None \<Rightarrow> Some s
      | Some b \<Rightarrow>
          do { (v, s) \<leftarrow> modbus_crc16_at (rxb_buffer b) (unat (rxb_len b)) s;
               if v = 0
               then case modbus_recv_frame_cb s of
                      None \<Rightarrow> Some s
                    | Some cb \<Rightarrow> frame_cb cb (rxb_buffer b) (ucast (rxb_len b)) s
               else Some s })"

definition modbus_set_recv_frame_fn :: "callback option \<Rightarrow> 'a modbus_scheme \<Rightarrow> 'a modbus_scheme" where
  "modbus_set_recv_frame_fn cb s = s\<lparr>modbus_recv_frame_cb := cb\<rparr>"

section \<open>The checksum gates both directions\<close>

definition frame_ok :: "u8 list \<Rightarrow> bool" where
  "frame_ok bs \<longleftrightarrow> crc_ref bs 0xFFFF = 0"

lemma crc_at:
  assumes "valid_range (ram s) p n"
  shows "\<exists>c. modbus_crc16_at p n s = Some (crc_ref (bytes_at (ram s) p n) 0xFFFF, s\<lparr>crc := c\<rparr>)"
proof -
  obtain v c where vc: "modbus_crc16 (bytes_at (ram s) p n) (crc s) = (v, c)" by (cases "modbus_crc16 (bytes_at (ram s) p n) (crc s)")
  have "v = crc_ref (bytes_at (ram s) p n) 0xFFFF"
    using vc checksum_crc_loop by (auto simp: modbus_crc16_def Let_def checksum_init)
  with vc assms show ?thesis by (auto simp: modbus_crc16_at_def)
qed

lemma modbus_send_effect:
  assumes "drains s UART0 0x7F" "valid_range (ram s) p (unat n)" "p \<noteq> NULL"
  shows "\<exists>c s'. modbus_send p n s = Some s' \<and>
     sent UART0 (if frame_ok (bytes_at (ram s) p (unat n)) then bytes_at (ram s) p (unat n) else [])
       (s\<lparr>crc := c\<rparr>) s'"
proof -
  obtain c where c: "modbus_crc16_at p (unat n) s =
      Some (crc_ref (bytes_at (ram s) p (unat n)) 0xFFFF, s\<lparr>crc := c\<rparr>)"
    using crc_at [OF assms(2)] by blast
  have "drains (s\<lparr>crc := c\<rparr>) UART0 0x7F" using assms(1) by (simp add: drains_def)
  then obtain s' where "uart0_send_loop p (unat n) (s\<lparr>crc := c\<rparr>) = Some s'"
      "sent UART0 (bytes_at (ram s) p (unat n)) (s\<lparr>crc := c\<rparr>) s'"
    using send_loop_sent [of "s\<lparr>crc := c\<rparr>" p "unat n"] assms(2) by auto
  with c assms(3) show ?thesis
    by (intro exI [of _ c]) (auto simp: modbus_send_def frame_ok_def)
qed

lemma modbus_receive_effect:
  assumes "valid_range (ram s) (rxb_buffer b) (unat (rxb_len b))"
  shows "\<exists>c. modbus_receive f (Some b) s =
     (if frame_ok (bytes_at (ram s) (rxb_buffer b) (unat (rxb_len b)))
      then case modbus_recv_frame_cb s of None \<Rightarrow> Some (s\<lparr>crc := c\<rparr>)
           | Some cb \<Rightarrow> f cb (rxb_buffer b) (ucast (rxb_len b)) (s\<lparr>crc := c\<rparr>)
      else Some (s\<lparr>crc := c\<rparr>))"
  using crc_at [OF assms] by (auto simp: modbus_receive_def frame_ok_def)

section \<open>Example state\<close>

definition demo_modbus :: modbus where
  "demo_modbus = \<lparr>regs = (\<lambda>a. 0)(UART_INT_ST 0 := UART_RXFIFO_TOUT_INT), dev = (\<lambda>n r. r(UART_STATUS 0 := 3)),
     sdk_ret = (\<lambda>n q. of_nat n), junk = (\<lambda>n a. 0), clk = 0, log = [],
     ram = (\<lambda>a. if 1000 \<le> a \<and> a < 1256 then Some 0 else None), blocks = (\<lambda>a. None),
     uart0_rx_cb = Some modbus_receive_cb, uart0_tx_empty_cb = None, uart1_tx_empty_cb = None,
     crc = \<lparr>crcH = 0, crcL = 0, idx = 0\<rparr>,
     modbus_rx_buffer = \<lparr>rxb_buffer = 1000, rxb_len = 0\<rparr>, modbus_recv_frame_cb = None\<rparr>"

lemma demo_modbus_facts:
  "drains demo_modbus UART0 0x7F" "n \<le> 256 \<Longrightarrow> valid_range (ram demo_modbus) 1000 n"
  "rxb_buffer (modbus_rx_buffer demo_modbus) = 1000"
  "uart0_rx_cb demo_modbus = Some modbus_receive_cb"
  by (auto simp: demo_modbus_def drains_def valid_range_iff txfifo_cnt_def)

section \<open>Properties\<close>

text \<open>C3. A frame from the network is written to the serial line whole and in order if its CRC-16 is
  right, and nothing of it is written if not; apart from the checksum's working state and the
  hardware, nothing else changes, and the call returns if the FIFO drains.\<close>

theorem modbus_send_gate:
  assumes "drains s UART0 0x7F" "valid_range (ram s) p (unat n)" "p \<noteq> NULL"
  shows "\<exists>s'. modbus_send p n s = Some s' \<and> ram s' = ram s \<and>
     log s' = log s @
       (if crc_ref (bytes_at (ram s) p (unat n)) 0xFFFF = 0
        then map (\<lambda>b. Reg_write (UART_FIFO UART0) (ucast b)) (bytes_at (ram s) p (unat n)) else [])"
  using modbus_send_effect [OF assms]
  by (auto simp: frame_ok_def sent_fields)

theorem modbus_send_gate_witness:
  "\<exists>s'. modbus_send 1000 2 demo_modbus = Some s' \<and> ram s' = ram demo_modbus"
  using modbus_send_gate [of demo_modbus 1000 2] by (auto simp: demo_modbus_facts)

text \<open>C17. A receive interrupt copies the bytes the FIFO reports into the attached buffer, stays inside its
  256 bytes for every hardware answer, and hands the buffer to the receive callback with that
  length.\<close>

theorem uart_rx_interrupt_in_bounds:
  assumes "rx_pending status0" "status0 AND UART_FRM_ERR_INT \<noteq> UART_FRM_ERR_INT"
    and "valid_range (ram s) (rxb_buffer para) MODBUS_BUFFER_SIZE" "uart0_rx_cb s = Some cb"
    and "n = unat (rxfifo_cnt (dev s (clk s) (regs s) (UART_STATUS UART0)))"
  shows "\<exists>s1. uart0_isr rx_cb tx_cb status0 para s =
        map_option (Pair (para\<lparr>rxb_len := of_nat n\<rparr>)) (rx_cb cb (para\<lparr>rxb_len := of_nat n\<rparr>) s1)
     \<and> unat (of_nat n :: u8) = n
     \<and> bytes_at (ram s1) (rxb_buffer para) n = fifo_reads n (snd (READ_PERI_REG (UART_STATUS UART0) s))
     \<and> (\<forall>a. a < rxb_buffer para \<or> rxb_buffer para + 256 \<le> a \<longrightarrow> ram s1 a = ram s a)"
proof -
  have n: "n \<le> 255" and ex: "\<exists>r c m'. let para' = para\<lparr>rxb_len := of_nat n\<rparr>;
       s1 = WRITE_PERI_REG (UART_INT_CLR UART0) UART_RXFIFO_TOUT_INT (s\<lparr>regs := r, clk := c, ram := m'\<rparr>)
     in uart0_isr rx_cb tx_cb status0 para s = map_option (Pair para') (rx_cb cb para' s1)
      \<and> bytes_at m' (rxb_buffer para) n = fifo_reads n (snd (READ_PERI_REG (UART_STATUS UART0) s))
      \<and> (\<forall>a. a < rxb_buffer para \<or> rxb_buffer para + n \<le> a \<longrightarrow> m' a = ram s a)"
    using uart0_isr_receives [OF assms(1-3), of rx_cb tx_cb] assms(4,5) by (auto simp: Let_def)
  from ex obtain r c m' where "uart0_isr rx_cb tx_cb status0 para s =
        map_option (Pair (para\<lparr>rxb_len := of_nat n\<rparr>)) (rx_cb cb (para\<lparr>rxb_len := of_nat n\<rparr>)
          (WRITE_PERI_REG (UART_INT_CLR UART0) UART_RXFIFO_TOUT_INT (s\<lparr>regs := r, clk := c, ram := m'\<rparr>)))"
      "bytes_at m' (rxb_buffer para) n = fifo_reads n (snd (READ_PERI_REG (UART_STATUS UART0) s))"
      "\<forall>a. a < rxb_buffer para \<or> rxb_buffer para + n \<le> a \<longrightarrow> m' a = ram s a"
    unfolding Let_def by blast
  moreover have "unat (of_nat n :: u8) = n" using n by (simp add: unat_of_nat take_bit_nat_eq_self)
  ultimately show ?thesis
    using n by (intro exI [of _ "WRITE_PERI_REG (UART_INT_CLR UART0) UART_RXFIFO_TOUT_INT
        (s\<lparr>regs := r, clk := c, ram := m'\<rparr>)"]) (auto simp: reg_simps)
qed

theorem uart_rx_interrupt_in_bounds_witness:
  "\<exists>s1. uart0_isr (\<lambda>cb b. Some) (\<lambda>cb. Some) UART_RXFIFO_TOUT_INT (modbus_rx_buffer demo_modbus) demo_modbus
     = map_option (Pair ((modbus_rx_buffer demo_modbus)\<lparr>rxb_len := 3\<rparr>)) (Some s1)"
proof -
  have "rx_pending UART_RXFIFO_TOUT_INT" "UART_RXFIFO_TOUT_INT AND UART_FRM_ERR_INT \<noteq> UART_FRM_ERR_INT"
    by (simp_all add: rx_pending_def UART_RXFIFO_TOUT_INT_def UART_FRM_ERR_INT_def BIT_def)
  moreover have "unat (rxfifo_cnt (dev demo_modbus (clk demo_modbus) (regs demo_modbus) (UART_STATUS UART0))) = 3"
    by (simp add: demo_modbus_def rxfifo_cnt_def)
  ultimately show ?thesis
    using uart_rx_interrupt_in_bounds [of UART_RXFIFO_TOUT_INT demo_modbus "modbus_rx_buffer demo_modbus"
        modbus_receive_cb 3 "\<lambda>cb b. Some" "\<lambda>cb. Some"] demo_modbus_facts(2) [of 256]
    by (auto simp: demo_modbus_facts)
qed

end
