(* ===== verification/Smartconfig.thy ===== *)
theory Smartconfig
  imports Modbus
begin

text \<open>
  SmartConfig provisioning, \<^verbatim>\<open>app/user/user_smartconfig.c\<close>: start with a time limit, the SDK's
  status callback and the time-out. Debug output is not modelled.
\<close>

record smartconfig = modbus +
  smartconfig_status :: bool
  sc_timeout :: u32

datatype sc_status =
  SC_STATUS_WAIT | SC_STATUS_FIND_CHANNEL | SC_STATUS_GETTING_SSID_PSWD | SC_STATUS_LINK | SC_STATUS_LINK_OVER

definition STATION_MODE :: u8 where "STATION_MODE = 0x01"
definition SOFTAP_MODE :: u8 where "SOFTAP_MODE = 0x02"
definition SC_TYPE_ESPTOUCH :: u8 where "SC_TYPE_ESPTOUCH = 0"

text \<open>
  \<open>pdata\<close> is the callback's argument: the address of the configuration type, the station
  configuration or the phone's address, or \<open>NULL\<close>.
\<close>

definition user_smartconfig_done :: "sc_status \<Rightarrow> ptr \<Rightarrow> 'a smartconfig_scheme \<Rightarrow> 'a smartconfig_scheme option" where
  "user_smartconfig_done status pdata s =
     (case status of
        SC_STATUS_WAIT \<Rightarrow> Some s
      | SC_STATUS_FIND_CHANNEL \<Rightarrow> Some s
      | SC_STATUS_GETTING_SSID_PSWD \<Rightarrow> if valid_range (ram s) pdata 4 then Some s else None
      | SC_STATUS_LINK \<Rightarrow>
          Some (call (System Wifi_station_connect)
                 (call (System Wifi_station_disconnect) (call (System Wifi_station_set_config) s)))
      | SC_STATUS_LINK_OVER \<Rightarrow>
          if pdata \<noteq> NULL \<and> \<not> valid_range (ram s) pdata 4 then None
          else let s = os_timer_disarm sc_timer s;
                   s = call (System Smartconfig_stop) s
               in Some (s\<lparr>smartconfig_status := False\<rparr>))"

definition user_smartconfig_timeout_cb :: "'a smartconfig_scheme \<Rightarrow> 'a smartconfig_scheme" where
  "user_smartconfig_timeout_cb s =
     (let s = os_timer_disarm sc_timer s;
          s = call (System Smartconfig_stop) s
      in s\<lparr>smartconfig_status := False\<rparr>)"

definition user_smartconfig_start :: "'a smartconfig_scheme \<Rightarrow> 'a smartconfig_scheme" where
  "user_smartconfig_start s =
     (let s = s\<lparr>smartconfig_status := True\<rparr>;
          s = os_timer_disarm sc_timer s;
          s = call (System Smartconfig_stop) s;
          s = call (System (Wifi_set_opmode STATION_MODE)) s;
          s = call (System (Smartconfig_set_type SC_TYPE_ESPTOUCH)) s;
          s = os_timer_setfn sc_timer user_smartconfig_timeout_cb_fn s;
          s = os_timer_arm sc_timer (sc_timeout s) False s
      in call (System (Smartconfig_start user_smartconfig_done_cb)) s)"

definition user_smartconfig_set_timeout :: "u32 \<Rightarrow> 'a smartconfig_scheme \<Rightarrow> 'a smartconfig_scheme" where
  "user_smartconfig_set_timeout timeout s = s\<lparr>sc_timeout := timeout\<rparr>"

definition user_smartconfig_status :: "'a smartconfig_scheme \<Rightarrow> bool" where
  "user_smartconfig_status s = smartconfig_status s"

end
