(* ===== verification/Ring_Buffer.thy ===== *)
theory Ring_Buffer
  imports Prelude
begin

text \<open>
  \<^verbatim>\<open>app/user/user_ringbuffer.c\<close>: the byte ring that holds the bytes to send to the
  server. The record is \<^verbatim>\<open>ringbuf_t\<close> of \<^verbatim>\<open>app/include/user_ringbuffer.h\<close>, its
  storage is a range of the byte memory, and every operation is the C function on the
  32-bit fields. The invariant \<open>rb_inv\<close>, the list of unread bytes \<open>rb_unread\<close> and the
  interpretation of the queue interface follow.
\<close>

section \<open>Model\<close>

record ringbuf_t =
  rb_pbuf :: ptr
  rb_head :: u32
  rb_tail :: u32
  rb_size :: u32
  rb_lock :: bool

text \<open>\<^verbatim>\<open>user_rb_init\<close>: \<open>None\<close> for the ring is the null pointer, which returns at once.\<close>

definition user_rb_init ::
    "ringbuf_t option \<Rightarrow> ptr \<Rightarrow> u32 \<Rightarrow> mem \<Rightarrow> (ringbuf_t option \<times> mem) option" where
  "user_rb_init p_rb buf sz m =
     (case p_rb of
        None \<Rightarrow> Some (None, m)
      | Some rb \<Rightarrow>
          if buf = NULL \<or> sz = 0 then Some (Some rb, m)
          else do {
            let rb = rb\<lparr>rb_pbuf := buf, rb_size := sz, rb_head := 0, rb_tail := 0,
                        rb_lock := False\<rparr>;
            m \<leftarrow> memset (rb_pbuf rb) 0 (unat (rb_size rb)) m;
            Some (Some rb, m)
          })"

text \<open>
  \<^verbatim>\<open>user_rb_lock\<close>: the flag is polled, \<open>seen k\<close> is what the \<open>k\<close>-th poll reads
  (another context may clear it meanwhile); when the counter passes 50000 the lock is
  taken anyway. The counter \<^verbatim>\<open>i\<close> stays below \<open>2 ^ 32\<close> and is a natural number.
\<close>

function user_rb_lock_poll :: "(nat \<Rightarrow> bool) \<Rightarrow> nat \<Rightarrow> nat" where
  "user_rb_lock_poll seen i =
     (if seen i
      then let i' = Suc i in (if i' > 50000 then i' else user_rb_lock_poll seen i')
      else i)"
  by pat_completeness auto
termination
  by (relation "measure (\<lambda>(seen, i). 50001 - i)") auto

declare user_rb_lock_poll.simps [simp del]

definition user_rb_lock :: "(nat \<Rightarrow> bool) \<Rightarrow> ringbuf_t \<Rightarrow> nat \<times> ringbuf_t" where
  "user_rb_lock seen rb = (user_rb_lock_poll seen 0, rb\<lparr>rb_lock := True\<rparr>)"

definition user_rb_unlock :: "ringbuf_t \<Rightarrow> ringbuf_t" where
  "user_rb_unlock rb = rb\<lparr>rb_lock := False\<rparr>"

definition user_rb_unread_size :: "ringbuf_t \<Rightarrow> u32" where
  "user_rb_unread_size rb =
     (if rb_head rb \<ge> rb_tail rb then rb_head rb - rb_tail rb
      else rb_size rb + rb_head rb - rb_tail rb)"

definition user_rb_reset :: "ringbuf_t \<Rightarrow> mem \<Rightarrow> (ringbuf_t \<times> mem) option" where
  "user_rb_reset rb m = do {
     let rb = rb\<lparr>rb_head := 0, rb_tail := 0\<rparr>;
     m \<leftarrow> memset (rb_pbuf rb) 0 (unat (rb_size rb)) m;
     Some (rb, m)
   }"

definition user_rb_put ::
    "ringbuf_t \<Rightarrow> ptr \<Rightarrow> u32 \<Rightarrow> mem \<Rightarrow> (u32 \<times> ringbuf_t \<times> mem) option" where
  "user_rb_put rb src len m = do {
     (sz, m) \<leftarrow>
       (if rb_head rb \<ge> rb_tail rb then
          let sz = rb_size rb + rb_tail rb - rb_head rb;
              rz = rb_size rb - rb_head rb;
              sz = (if sz > len then len else sz)
          in if rz \<ge> sz then do {
               m \<leftarrow> memcpy (rb_pbuf rb + unat (rb_head rb)) src (unat sz) m;
               Some (sz, m)
             } else do {
               m \<leftarrow> memcpy (rb_pbuf rb + unat (rb_head rb)) src (unat rz) m;
               m \<leftarrow> memcpy (rb_pbuf rb) (src + unat rz) (unat (sz - rz)) m;
               Some (sz, m)
             }
        else
          let sz = rb_tail rb - rb_head rb;
              sz = (if sz > len then len else sz)
          in do {
               m \<leftarrow> memcpy (rb_pbuf rb + unat (rb_head rb)) src (unat sz) m;
               Some (sz, m)
             });
     let h = rb_head rb + sz;
     let h = (if h \<ge> rb_size rb then h - rb_size rb else h);
     Some (sz, rb\<lparr>rb_head := h\<rparr>, m)
   }"

definition user_rb_get ::
    "ringbuf_t \<Rightarrow> ptr \<Rightarrow> u32 \<Rightarrow> mem \<Rightarrow> (u32 \<times> ringbuf_t \<times> mem) option" where
  "user_rb_get rb des len m = do {
     (sz, m) \<leftarrow>
       (if rb_head rb \<ge> rb_tail rb then
          let sz = rb_head rb - rb_tail rb;
              sz = (if sz > len then len else sz)
          in do {
               m \<leftarrow> memcpy des (rb_pbuf rb + unat (rb_tail rb)) (unat sz) m;
               Some (sz, m)
             }
        else
          let sz = rb_size rb + rb_head rb - rb_tail rb;
              rz = rb_size rb - rb_tail rb;
              sz = (if sz > len then len else sz)
          in if rz \<ge> sz then do {
               m \<leftarrow> memcpy des (rb_pbuf rb + unat (rb_tail rb)) (unat sz) m;
               Some (sz, m)
             } else do {
               m \<leftarrow> memcpy des (rb_pbuf rb + unat (rb_tail rb)) (unat rz) m;
               m \<leftarrow> memcpy (des + unat rz) (rb_pbuf rb) (unat (sz - rz)) m;
               Some (sz, m)
             });
     let t = rb_tail rb + sz;
     let t = (if t \<ge> rb_size rb then t - rb_size rb else t);
     Some (sz, rb\<lparr>rb_tail := t\<rparr>, m)
   }"

section \<open>Invariant and abstraction\<close>

text \<open>
  The invariant: indices inside the storage, which is one object of the memory. The bound
  on the size is what keeps \<^verbatim>\<open>head += sz\<close> from wrapping at 32 bits.
\<close>

definition rb_inv :: "ringbuf_t \<Rightarrow> mem \<Rightarrow> bool" where
  "rb_inv rb m \<longleftrightarrow> 0 < rb_size rb \<and> rb_size rb \<le> 0x80000000 \<and>
     rb_head rb < rb_size rb \<and> rb_tail rb < rb_size rb \<and>
     valid_range m (rb_pbuf rb) (unat (rb_size rb))"

definition rb_used :: "ringbuf_t \<Rightarrow> nat" where
  "rb_used rb = (unat (rb_head rb) + (unat (rb_size rb) - unat (rb_tail rb))) mod unat (rb_size rb)"

text \<open>The address of the \<open>i\<close>-th byte after an index, and the unread bytes in order.\<close>

definition rb_slot :: "ringbuf_t \<Rightarrow> u32 \<Rightarrow> nat \<Rightarrow> ptr" where
  "rb_slot rb k i = rb_pbuf rb + (unat k + i) mod unat (rb_size rb)"

definition rb_unread :: "ringbuf_t \<Rightarrow> mem \<Rightarrow> u8 list" where
  "rb_unread rb m = map (\<lambda>i. the (m (rb_slot rb (rb_tail rb) i))) [0..<rb_used rb]"

lemma length_rb_unread [simp]: "length (rb_unread rb m) = rb_used rb"
  by (simp add: rb_unread_def)

lemma rb_inv_nat:
  assumes "rb_inv rb m"
  shows "unat (rb_head rb) < unat (rb_size rb)" "unat (rb_tail rb) < unat (rb_size rb)"
    "unat (rb_size rb) \<le> 2 ^ 31"
  using assms by (auto simp: rb_inv_def word_less_nat_alt word_le_nat_alt)

lemma mod_lt_twice: "(x::nat) < 2 * n \<Longrightarrow> x mod n = (if x < n then x else x - n)"
  by (auto simp: mod_if)

lemma rb_used_cases:
  assumes "rb_inv rb m"
  shows "rb_used rb = (if rb_tail rb \<le> rb_head rb then unat (rb_head rb) - unat (rb_tail rb)
           else unat (rb_size rb) + unat (rb_head rb) - unat (rb_tail rb))"
  using rb_inv_nat [OF assms]
  by (auto simp: rb_used_def mod_lt_twice word_le_nat_alt)

lemma rb_used_less: "rb_inv rb m \<Longrightarrow> rb_used rb < unat (rb_size rb)"
  using rb_inv_nat(2) [of rb m] by (simp add: rb_used_def)

lemma unat_unread_size:
  assumes "rb_inv rb m"
  shows "unat (user_rb_unread_size rb) = rb_used rb"
  using rb_inv_nat [OF assms]
  by (auto simp: rb_used_cases [OF assms] user_rb_unread_size_def word_le_nat_alt
      unat_sub_if' unat_plus_if')


section \<open>What the two copies of put and get do to the memory\<close>

text \<open>
  \<open>put_size\<close> and \<open>get_size\<close> are the C functions' byte counts. The copy is one
  \<^verbatim>\<open>memcpy\<close> or, across the end of the storage, two.
\<close>

definition rb_copy_in :: "ringbuf_t \<Rightarrow> u32 \<Rightarrow> ptr \<Rightarrow> nat \<Rightarrow> mem \<Rightarrow> mem \<Rightarrow> bool" where
  "rb_copy_in rb k src n m m' \<longleftrightarrow>
     (\<forall>i<n. m' (rb_slot rb k i) = m (src + i)) \<and>
     (\<forall>a. (\<forall>i<n. a \<noteq> rb_slot rb k i) \<longrightarrow> m' a = m a)"

lemma rb_slot_range:
  assumes "rb_inv rb m"
  shows "rb_pbuf rb \<le> rb_slot rb k i" "rb_slot rb k i < rb_pbuf rb + unat (rb_size rb)"
proof -
  have "(unat k + i) mod unat (rb_size rb) < unat (rb_size rb)"
    using rb_inv_nat(1) [OF assms] by (intro mod_less_divisor) linarith
  then show "rb_pbuf rb \<le> rb_slot rb k i" "rb_slot rb k i < rb_pbuf rb + unat (rb_size rb)"
    by (simp_all add: rb_slot_def)
qed

lemma rb_slot_low: "unat k + i < unat (rb_size rb) \<Longrightarrow> rb_slot rb k i = rb_pbuf rb + unat k + i"
  by (simp add: rb_slot_def)

lemma rb_slot_high:
  "unat (rb_size rb) \<le> unat k + i \<Longrightarrow> unat k < unat (rb_size rb) \<Longrightarrow> i \<le> unat (rb_size rb) \<Longrightarrow>
   rb_slot rb k i = rb_pbuf rb + (unat k + i - unat (rb_size rb))"
  by (simp add: rb_slot_def mod_lt_twice)

lemma rb_copy_in_one:
  assumes cp: "memcpy (rb_pbuf rb + unat k) src n m = Some m'"
    and fit: "unat k + n \<le> unat (rb_size rb)"
  shows "rb_copy_in rb k src n m m'"
proof -
  have slot: "\<And>i. i < n \<Longrightarrow> rb_slot rb k i = rb_pbuf rb + unat k + i"
    using fit by (intro rb_slot_low) simp
  have m': "m' = (\<lambda>a. if rb_pbuf rb + unat k \<le> a \<and> a < rb_pbuf rb + unat k + n
                 then m (src + (a - (rb_pbuf rb + unat k))) else m a)"
    using cp by (simp add: memcpy_def split: if_splits)
  have "m' a = m a" if "\<forall>i<n. a \<noteq> rb_slot rb k i" for a
  proof (rule ccontr)
    assume "m' a \<noteq> m a"
    then have "rb_pbuf rb + unat k \<le> a" "a < rb_pbuf rb + unat k + n"
      by (auto simp: m' split: if_splits)
    then have "a = rb_slot rb k (a - (rb_pbuf rb + unat k))" "a - (rb_pbuf rb + unat k) < n"
      using slot by auto
    with that show False by blast
  qed
  moreover have "\<forall>i<n. m' (rb_slot rb k i) = m (src + i)"
    by (simp add: slot m')
  ultimately show ?thesis by (simp add: rb_copy_in_def)
qed

lemma rb_copy_in_two:
  assumes c1: "rb_copy_in rb k src r m m1" and r: "r = unat (rb_size rb) - unat k"
    and c2: "memcpy (rb_pbuf rb) (src + r) (n - r) m1 = Some m'"
    and le: "r \<le> n" "n \<le> unat (rb_size rb)" and k: "unat k < unat (rb_size rb)"
    and away: "disjoint_ranges (rb_pbuf rb) (unat (rb_size rb)) src n"
  shows "rb_copy_in rb k src n m m'"
proof -
  let ?S = "unat (rb_size rb)" and ?P = "rb_pbuf rb"
  have hi: "\<And>i. r \<le> i \<Longrightarrow> i < n \<Longrightarrow> rb_slot rb k i = ?P + (i - r)"
    using r k le by (subst rb_slot_high) auto
  have lo: "\<And>i. i < r \<Longrightarrow> rb_slot rb k i = ?P + unat k + i"
    using r by (intro rb_slot_low) auto
  have m': "m' = (\<lambda>a. if ?P \<le> a \<and> a < ?P + (n - r) then m1 (src + r + (a - ?P)) else m1 a)"
    using c2 by (simp add: memcpy_def split: if_splits)
  have src: "m1 (src + i) = m (src + i)" if "i < n" for i
  proof -
    have "src + i \<noteq> rb_slot rb k j" if "j < r" for j
      using that r k le away \<open>i < n\<close> by (auto simp: lo disjoint_ranges_def)
    then show ?thesis using c1 by (simp add: rb_copy_in_def)
  qed
  have "m' (rb_slot rb k i) = m (src + i)" if "i < n" for i
  proof (cases "i < r")
    case True
    then have "\<not> rb_slot rb k i < ?P + (n - r)" using r k le by (simp add: lo)
    with True c1 show ?thesis by (simp add: m' rb_copy_in_def)
  next
    case False
    then obtain d where d: "i = r + d" by (metis add_diff_inverse_nat)
    with that have "rb_slot rb k i = ?P + d" "d < n - r" using hi [of i] by auto
    moreover have "m1 (src + (r + d)) = m (src + (r + d))"
      using src [of i] that d by simp
    ultimately show ?thesis by (auto simp: m' d add.assoc)
  qed
  moreover have "m' a = m a" if "\<forall>i<n. a \<noteq> rb_slot rb k i" for a
  proof -
    have "\<not> (?P \<le> a \<and> a < ?P + (n - r))"
    proof
      assume a: "?P \<le> a \<and> a < ?P + (n - r)"
      then obtain j where "a = ?P + j" "j < n - r" by (metis le_Suc_ex nat_add_left_cancel_less)
      then show False using hi [of "j + r"] that less_diff_conv [of j n r] by auto
    qed
    moreover have "m1 a = m a"
      using that le c1 by (auto simp: rb_copy_in_def)
    ultimately show ?thesis by (auto simp: m')
  qed
  ultimately show ?thesis by (simp add: rb_copy_in_def)
qed

lemma rb_advance:
  assumes "k < rb_size rb" "rb_size rb \<le> 0x80000000" "unat sz \<le> unat (rb_size rb)"
  shows "unat (if k + sz \<ge> rb_size rb then k + sz - rb_size rb else k + sz)
         = (unat k + unat sz) mod unat (rb_size rb)"
  using assms
  by (auto simp: word_le_nat_alt word_less_nat_alt unat_sub_if' unat_plus_if' mod_lt_twice)

definition put_size :: "ringbuf_t \<Rightarrow> u32 \<Rightarrow> u32" where
  "put_size rb len =
     (let free = (if rb_head rb \<ge> rb_tail rb then rb_size rb + rb_tail rb - rb_head rb
                  else rb_tail rb - rb_head rb)
      in if free > len then len else free)"

definition get_size :: "ringbuf_t \<Rightarrow> u32 \<Rightarrow> u32" where
  "get_size rb len =
     (let n = user_rb_unread_size rb in if n > len then len else n)"

definition advanced :: "ringbuf_t \<Rightarrow> u32 \<Rightarrow> u32 \<Rightarrow> u32" where
  "advanced rb k sz = (if k + sz \<ge> rb_size rb then k + sz - rb_size rb else k + sz)"

lemma user_rb_put_one:
  assumes "memcpy (rb_pbuf rb + unat (rb_head rb)) src (unat (put_size rb len)) m = Some m'"
    and "rb_tail rb \<le> rb_head rb \<Longrightarrow> put_size rb len \<le> rb_size rb - rb_head rb"
  shows "user_rb_put rb src len m =
     Some (put_size rb len, rb\<lparr>rb_head := advanced rb (rb_head rb) (put_size rb len)\<rparr>, m')"
  using assms by (cases "rb_tail rb \<le> rb_head rb")
    (simp_all add: user_rb_put_def put_size_def advanced_def Let_def)

lemma user_rb_put_two:
  assumes "rb_tail rb \<le> rb_head rb" "\<not> put_size rb len \<le> rb_size rb - rb_head rb"
    and "memcpy (rb_pbuf rb + unat (rb_head rb)) src (unat (rb_size rb - rb_head rb)) m = Some m1"
    and "memcpy (rb_pbuf rb) (src + unat (rb_size rb - rb_head rb))
           (unat (put_size rb len - (rb_size rb - rb_head rb))) m1 = Some m'"
  shows "user_rb_put rb src len m =
     Some (put_size rb len, rb\<lparr>rb_head := advanced rb (rb_head rb) (put_size rb len)\<rparr>, m')"
  using assms by (simp add: user_rb_put_def put_size_def advanced_def Let_def)

lemma user_rb_get_one:
  assumes "memcpy des (rb_pbuf rb + unat (rb_tail rb)) (unat (get_size rb len)) m = Some m'"
    and "\<not> rb_tail rb \<le> rb_head rb \<Longrightarrow> get_size rb len \<le> rb_size rb - rb_tail rb"
  shows "user_rb_get rb des len m =
     Some (get_size rb len, rb\<lparr>rb_tail := advanced rb (rb_tail rb) (get_size rb len)\<rparr>, m')"
  using assms by (cases "rb_tail rb \<le> rb_head rb")
    (simp_all add: user_rb_get_def get_size_def user_rb_unread_size_def advanced_def Let_def)

lemma user_rb_get_two:
  assumes "\<not> rb_tail rb \<le> rb_head rb" "\<not> get_size rb len \<le> rb_size rb - rb_tail rb"
    and "memcpy des (rb_pbuf rb + unat (rb_tail rb)) (unat (rb_size rb - rb_tail rb)) m = Some m1"
    and "memcpy (des + unat (rb_size rb - rb_tail rb)) (rb_pbuf rb)
           (unat (get_size rb len - (rb_size rb - rb_tail rb))) m1 = Some m'"
  shows "user_rb_get rb des len m =
     Some (get_size rb len, rb\<lparr>rb_tail := advanced rb (rb_tail rb) (get_size rb len)\<rparr>, m')"
  using assms
  by (simp add: user_rb_get_def get_size_def user_rb_unread_size_def advanced_def Let_def)

lemma unat_put_size:
  assumes inv: "rb_inv rb m"
  shows "unat (put_size rb len) = min (unat len) (unat (rb_size rb) - rb_used rb)"
  using rb_inv_nat [OF inv]
  by (auto simp: put_size_def rb_used_cases [OF inv] Let_def word_le_nat_alt word_less_nat_alt
      unat_sub_if' unat_plus_if')

lemma unat_get_size:
  assumes inv: "rb_inv rb m"
  shows "unat (get_size rb len) = min (unat len) (rb_used rb)"
  by (auto simp: get_size_def Let_def word_less_nat_alt unat_unread_size [OF inv])

lemma unat_advanced:
  assumes "rb_inv rb m" "k < rb_size rb" "unat sz \<le> unat (rb_size rb)"
  shows "unat (advanced rb k sz) = (unat k + unat sz) mod unat (rb_size rb)"
  using assms rb_advance [of k rb sz] by (simp add: advanced_def rb_inv_def)

lemma user_rb_put_effect:
  assumes inv: "rb_inv rb m" and v: "valid_range m src (unat len)"
    and away: "disjoint_ranges (rb_pbuf rb) (unat (rb_size rb)) src (unat len)"
  defines "sz \<equiv> put_size rb len"
  shows "\<exists>m'. user_rb_put rb src len m =
           Some (sz, rb\<lparr>rb_head := advanced rb (rb_head rb) sz\<rparr>, m')
     \<and> rb_copy_in rb (rb_head rb) src (unat sz) m m'
     \<and> (\<forall>a. (m' a = None) = (m a = None))"
proof -
  let ?S = "unat (rb_size rb)" and ?H = "unat (rb_head rb)" and ?P = "rb_pbuf rb"
  note lt = rb_inv_nat [OF inv]
  have vb: "valid_range m ?P ?S" using inv by (simp add: rb_inv_def)
  note usz = unat_put_size [OF inv, of len, folded sz_def]
  have szS: "unat sz \<le> ?S" "unat sz \<le> unat len" using usz by auto
  have one: "\<exists>m'. memcpy (?P + ?H) src n m = Some m'"
    if "n \<le> unat len" "?H + n \<le> ?S" for n
  proof (rule memcpy_Some)
    show "valid_range m (?P + ?H) n" using valid_range_sub [OF vb that(2)] .
    show "valid_range m src n" using valid_range_sub [OF v, of 0 n] that by simp
    show "disjoint_ranges (?P + ?H) n src n" using away that by (auto simp: disjoint_ranges_def)
  qed
  define rz where "rz = rb_size rb - rb_head rb"
  have rz: "unat rz = ?S - ?H" using lt by (simp add: rz_def unat_sub_if')
  show ?thesis
  proof (cases "sz \<le> rz")
    case True
    then have fit: "?H + unat sz \<le> ?S" using rz lt by (simp add: word_le_nat_alt)
    obtain m' where m': "memcpy (?P + ?H) src (unat sz) m = Some m'"
      using one szS fit by blast
    show ?thesis
      using user_rb_put_one [OF m' [unfolded sz_def]] True rb_copy_in_one [OF m' fit]
      by (simp add: memcpy_defined [OF m'] sz_def rz_def)
  next
    case False
    have ge: "rb_tail rb \<le> rb_head rb"
      using False usz lt by (auto simp: rb_used_cases [OF inv] word_le_nat_alt rz split: if_splits)
    have d: "unat (sz - rz) = unat sz - unat rz" "unat rz \<le> unat sz"
      using False by (auto simp: unat_sub_if' word_le_nat_alt)
    obtain m1 where m1: "memcpy (?P + ?H) src (unat rz) m = Some m1"
      using one [of "unat rz"] szS d lt rz by auto
    have "\<exists>m'. memcpy ?P (src + unat rz) (unat (sz - rz)) m1 = Some m'"
      using valid_range_sub [OF vb, of 0 "unat (sz - rz)"] d szS
        valid_range_sub [OF v, of "unat rz" "unat (sz - rz)"] away
      by (intro memcpy_Some) (auto simp: valid_range_memcpy [OF m1] disjoint_ranges_def)
    then obtain m' where m': "memcpy ?P (src + unat rz) (unat (sz - rz)) m1 = Some m'" by blast
    have "rb_copy_in rb (rb_head rb) src (unat sz) m m'"
    proof (rule rb_copy_in_two)
      show "rb_copy_in rb (rb_head rb) src (unat rz) m m1"
        by (rule rb_copy_in_one [OF m1]) (use lt rz in simp)
      show "memcpy ?P (src + unat rz) (unat sz - unat rz) m1 = Some m'" using m' d by simp
      show "disjoint_ranges ?P ?S src (unat sz)" using away szS by (auto simp: disjoint_ranges_def)
    qed (use rz d szS lt in auto)
    then show ?thesis
      using user_rb_put_two [OF ge] False m1 m'
      by (simp add: memcpy_defined [OF m'] memcpy_defined [OF m1] sz_def rz_def)
  qed
qed


definition rb_copy_out :: "ringbuf_t \<Rightarrow> u32 \<Rightarrow> ptr \<Rightarrow> nat \<Rightarrow> mem \<Rightarrow> mem \<Rightarrow> bool" where
  "rb_copy_out rb k des n m m' \<longleftrightarrow>
     (\<forall>i<n. m' (des + i) = m (rb_slot rb k i)) \<and>
     (\<forall>a. a < des \<or> des + n \<le> a \<longrightarrow> m' a = m a)"

lemma rb_copy_out_one:
  assumes cp: "memcpy des (rb_pbuf rb + unat k) n m = Some m'"
    and fit: "unat k + n \<le> unat (rb_size rb)"
  shows "rb_copy_out rb k des n m m'"
  using cp fit by (auto simp: rb_copy_out_def memcpy_def rb_slot_low split: if_splits)

lemma rb_copy_out_two:
  assumes c1: "rb_copy_out rb k des r m m1" and r: "r = unat (rb_size rb) - unat k"
    and c2: "memcpy (des + r) (rb_pbuf rb) (n - r) m1 = Some m'"
    and le: "r \<le> n" "n \<le> unat (rb_size rb)" and k: "unat k < unat (rb_size rb)"
    and away: "disjoint_ranges (rb_pbuf rb) (unat (rb_size rb)) des n"
  shows "rb_copy_out rb k des n m m'"
proof -
  let ?P = "rb_pbuf rb"
  have hi: "\<And>i. r \<le> i \<Longrightarrow> i < n \<Longrightarrow> rb_slot rb k i = ?P + (i - r)"
    using r k le by (subst rb_slot_high) auto
  have m': "m' = (\<lambda>a. if des + r \<le> a \<and> a < des + r + (n - r) then m1 (?P + (a - (des + r))) else m1 a)"
    using c2 by (simp add: memcpy_def split: if_splits)
  have ring: "m1 (?P + j) = m (?P + j)" if "j < n - r" for j
    using c1 away that r k le by (auto simp: rb_copy_out_def disjoint_ranges_def)
  have "m' (des + i) = m (rb_slot rb k i)" if "i < n" for i
  proof (cases "i < r")
    case True
    with c1 show ?thesis by (simp add: m' rb_copy_out_def)
  next
    case False
    then obtain j where j: "i = r + j" by (metis add_diff_inverse_nat)
    with that hi [of i] ring [of j] show ?thesis by (simp add: m')
  qed
  moreover have "m' a = m a" if "a < des \<or> des + n \<le> a" for a
    using that le c1 by (auto simp: m' rb_copy_out_def)
  ultimately show ?thesis by (simp add: rb_copy_out_def)
qed

lemma user_rb_get_effect:
  assumes inv: "rb_inv rb m"
    and v: "valid_range m des (min (unat len) (rb_used rb))"
    and away: "disjoint_ranges (rb_pbuf rb) (unat (rb_size rb)) des (min (unat len) (rb_used rb))"
  defines "sz \<equiv> get_size rb len"
  shows "\<exists>m'. user_rb_get rb des len m =
           Some (sz, rb\<lparr>rb_tail := advanced rb (rb_tail rb) sz\<rparr>, m')
     \<and> rb_copy_out rb (rb_tail rb) des (unat sz) m m'
     \<and> (\<forall>a. (m' a = None) = (m a = None))"
proof -
  let ?S = "unat (rb_size rb)" and ?T = "unat (rb_tail rb)" and ?P = "rb_pbuf rb"
  note lt = rb_inv_nat [OF inv]
  have vb: "valid_range m ?P ?S" using inv by (simp add: rb_inv_def)
  note usz = unat_get_size [OF inv, of len, folded sz_def]
  have szS: "unat sz \<le> ?S" using usz rb_used_less [OF inv] by auto
  note v = v [folded usz] and away = away [folded usz]
  have one: "\<exists>m'. memcpy des (?P + ?T) n m = Some m'"
    if "n \<le> unat sz" "?T + n \<le> ?S" for n
    using valid_range_sub [OF vb that(2)] valid_range_sub [OF v, of 0 n] that away
    by (intro memcpy_Some) (auto simp: disjoint_ranges_def)
  define rz where "rz = rb_size rb - rb_tail rb"
  have rz: "unat rz = ?S - ?T" using lt by (simp add: rz_def unat_sub_if')
  show ?thesis
  proof (cases "sz \<le> rz")
    case True
    then have fit: "?T + unat sz \<le> ?S" using rz lt by (simp add: word_le_nat_alt)
    obtain m' where m': "memcpy des (?P + ?T) (unat sz) m = Some m'"
      using one fit by blast
    show ?thesis
      using user_rb_get_one [OF m' [unfolded sz_def]] True rb_copy_out_one [OF m' fit]
      by (simp add: memcpy_defined [OF m'] sz_def rz_def)
  next
    case False
    have ge: "\<not> rb_tail rb \<le> rb_head rb"
      using False usz lt by (auto simp: rb_used_cases [OF inv] word_le_nat_alt rz split: if_splits)
    have d: "unat (sz - rz) = unat sz - unat rz" "unat rz \<le> unat sz"
      using False by (auto simp: unat_sub_if' word_le_nat_alt)
    obtain m1 where m1: "memcpy des (?P + ?T) (unat rz) m = Some m1"
      using one [of "unat rz"] d lt rz by auto
    have "\<exists>m'. memcpy (des + unat rz) ?P (unat (sz - rz)) m1 = Some m'"
      using valid_range_sub [OF vb, of 0 "unat (sz - rz)"] d szS
        valid_range_sub [OF v, of "unat rz" "unat (sz - rz)"] away
      by (intro memcpy_Some) (auto simp: valid_range_memcpy [OF m1] disjoint_ranges_def)
    then obtain m' where m': "memcpy (des + unat rz) ?P (unat (sz - rz)) m1 = Some m'" by blast
    have "rb_copy_out rb (rb_tail rb) des (unat sz) m m'"
    proof (rule rb_copy_out_two)
      show "rb_copy_out rb (rb_tail rb) des (unat rz) m m1"
        by (rule rb_copy_out_one [OF m1]) (use lt rz in simp)
      show "memcpy (des + unat rz) ?P (unat sz - unat rz) m1 = Some m'" using m' d by simp
    qed (use rz d szS lt away in auto)
    then show ?thesis
      using user_rb_get_two [OF ge] False m1 m'
      by (simp add: memcpy_defined [OF m'] memcpy_defined [OF m1] sz_def rz_def)
  qed
qed

section \<open>Ring arithmetic\<close>

lemma rb_slot_inj:
  assumes "rb_slot rb k i = rb_slot rb k j" "i < unat (rb_size rb)" "j < unat (rb_size rb)"
    and "unat k < unat (rb_size rb)"
  shows "i = j"
  using assms by (auto simp: rb_slot_def mod_lt_twice split: if_splits)

lemma rb_slot_head:
  assumes inv: "rb_inv rb m"
  shows "rb_slot rb (rb_head rb) j = rb_slot rb (rb_tail rb) (rb_used rb + j)"
proof -
  let ?S = "unat (rb_size rb)" and ?H = "unat (rb_head rb)" and ?T = "unat (rb_tail rb)"
  have "(?T + rb_used rb) mod ?S = (?T + (?H + (?S - ?T))) mod ?S"
    by (simp add: rb_used_def mod_add_right_eq)
  also have "\<dots> = ?H" using rb_inv_nat [OF inv] by simp
  finally have "(?T + rb_used rb + j) mod ?S = (?H + j) mod ?S"
    by (metis mod_add_left_eq)
  then show ?thesis by (simp add: rb_slot_def add.assoc)
qed

lemma rb_used_put:
  assumes "rb_inv rb m" "unat h = (unat (rb_head rb) + n) mod unat (rb_size rb)"
  shows "rb_used (rb\<lparr>rb_head := h\<rparr>) = (rb_used rb + n) mod unat (rb_size rb)"
  using assms(2) by (simp add: rb_used_def mod_add_left_eq) (simp add: ac_simps)

lemma rb_used_get:
  assumes inv: "rb_inv rb m" and t: "unat t = (unat (rb_tail rb) + n) mod unat (rb_size rb)"
    and n: "n \<le> rb_used rb"
  shows "rb_used (rb\<lparr>rb_tail := t\<rparr>) = rb_used rb - n"
  using rb_inv_nat [OF inv] n t rb_used_less [OF inv]
  by (auto simp: rb_used_def mod_lt_twice split: if_splits)

lemma rb_slot_get:
  assumes "unat t = (unat (rb_tail rb) + n) mod unat (rb_size rb)"
  shows "rb_slot rb t i = rb_slot rb (rb_tail rb) (n + i)"
  using assms by (simp add: rb_slot_def mod_add_left_eq add.assoc)


section \<open>Functional behaviour\<close>

lemma rb_inv_put:
  assumes "rb_inv rb m" "\<And>a. (m' a = None) = (m a = None)" "unat h < unat (rb_size rb)"
  shows "rb_inv (rb\<lparr>rb_head := h\<rparr>) m'"
  using assms by (auto simp: rb_inv_def word_less_nat_alt valid_range_iff)

lemma rb_inv_get:
  assumes "rb_inv rb m" "\<And>a. (m' a = None) = (m a = None)" "unat t < unat (rb_size rb)"
  shows "rb_inv (rb\<lparr>rb_tail := t\<rparr>) m'"
  using assms by (auto simp: rb_inv_def word_less_nat_alt valid_range_iff)

lemma rb_unread_put:
  assumes inv: "rb_inv rb m" and h: "unat h = (unat (rb_head rb) + n) mod unat (rb_size rb)"
    and cp: "rb_copy_in rb (rb_head rb) src n m m'" and fit: "rb_used rb + n < unat (rb_size rb)"
  shows "rb_unread (rb\<lparr>rb_head := h\<rparr>) m' = rb_unread rb m @ bytes_at m src n"
proof (rule nth_equalityI)
  have used: "rb_used (rb\<lparr>rb_head := h\<rparr>) = rb_used rb + n"
    using rb_used_put [OF inv h] fit by simp
  then show "length (rb_unread (rb\<lparr>rb_head := h\<rparr>) m') = length (rb_unread rb m @ bytes_at m src n)"
    by simp
  have slot: "rb_slot (rb\<lparr>rb_head := h\<rparr>) = rb_slot rb"
    by (simp add: rb_slot_def fun_eq_iff)
  fix i assume "i < length (rb_unread (rb\<lparr>rb_head := h\<rparr>) m')"
  then have i: "i < rb_used rb + n" by (simp add: used)
  show "rb_unread (rb\<lparr>rb_head := h\<rparr>) m' ! i = (rb_unread rb m @ bytes_at m src n) ! i"
  proof (cases "i < rb_used rb")
    case True
    have "rb_slot rb (rb_tail rb) i \<noteq> rb_slot rb (rb_head rb) j" if "j < n" for j
      using rb_slot_inj [of rb "rb_tail rb" i "rb_used rb + j"] that True fit rb_inv_nat [OF inv]
      by (auto simp: rb_slot_head [OF inv])
    then have "m' (rb_slot rb (rb_tail rb) i) = m (rb_slot rb (rb_tail rb) i)"
      using cp by (auto simp: rb_copy_in_def)
    with True i show ?thesis by (simp add: rb_unread_def used slot nth_append)
  next
    case False
    then obtain j where j: "i = rb_used rb + j" by (metis add_diff_inverse_nat)
    with i cp have "m' (rb_slot rb (rb_tail rb) i) = m (src + j)"
      by (auto simp: rb_copy_in_def rb_slot_head [OF inv, symmetric])
    with False i j show ?thesis by (simp add: rb_unread_def used slot nth_append)
  qed
qed

lemma rb_unread_get:
  assumes inv: "rb_inv rb m" and t: "unat t = (unat (rb_tail rb) + n) mod unat (rb_size rb)"
    and cp: "rb_copy_out rb (rb_tail rb) des n m m'" and n: "n \<le> rb_used rb"
    and away: "disjoint_ranges (rb_pbuf rb) (unat (rb_size rb)) des n"
  shows "rb_unread (rb\<lparr>rb_tail := t\<rparr>) m' = drop n (rb_unread rb m)"
    and "bytes_at m' des n = take n (rb_unread rb m)"
proof -
  let ?rb = "rb\<lparr>rb_tail := t\<rparr>"
  have used: "rb_used ?rb = rb_used rb - n" by (rule rb_used_get [OF inv t n])
  have slot: "rb_slot ?rb t i = rb_slot rb (rb_tail rb) (n + i)" for i
    using rb_slot_get [OF t, of i] by (simp add: rb_slot_def)
  have same: "m' (rb_slot rb k i) = m (rb_slot rb k i)" for k i
    using cp away rb_slot_range [OF inv, of k i] by (auto simp: rb_copy_out_def disjoint_ranges_def)
  show "rb_unread ?rb m' = drop n (rb_unread rb m)"
  proof (rule nth_equalityI)
    fix i assume "i < length (rb_unread ?rb m')"
    then have "i < rb_used rb - n" "n + i < rb_used rb" using used by auto
    then show "rb_unread ?rb m' ! i = drop n (rb_unread rb m) ! i"
      using n same by (simp add: rb_unread_def slot used nth_append)
  qed (simp add: used)
  show "bytes_at m' des n = take n (rb_unread rb m)"
    using cp n by (intro nth_equalityI) (auto simp: rb_copy_out_def rb_unread_def)
qed

lemma rb_copy_in_frame:
  assumes "rb_inv rb m" "rb_copy_in rb k src n m m'"
    and "a < rb_pbuf rb \<or> rb_pbuf rb + unat (rb_size rb) \<le> a"
  shows "m' a = m a"
proof -
  have "a \<noteq> rb_slot rb k i" for i
    using assms(3) rb_slot_range [OF assms(1), of k i] by auto
  then show ?thesis using assms(2) by (auto simp: rb_copy_in_def)
qed

lemma put_fits:
  assumes inv: "rb_inv rb m" and v: "valid_range m src (unat len)"
    and away: "disjoint_ranges (rb_pbuf rb) (unat (rb_size rb)) src (unat len)"
    and fit: "rb_used rb + unat len < unat (rb_size rb)"
  shows "\<exists>h m'. user_rb_put rb src len m = Some (len, rb\<lparr>rb_head := h\<rparr>, m')
     \<and> rb_inv (rb\<lparr>rb_head := h\<rparr>) m'
     \<and> rb_unread (rb\<lparr>rb_head := h\<rparr>) m' = rb_unread rb m @ bytes_at m src (unat len)
     \<and> (\<forall>a. a < rb_pbuf rb \<or> rb_pbuf rb + unat (rb_size rb) \<le> a \<longrightarrow> m' a = m a)"
proof -
  have sz: "put_size rb len = len"
    using unat_put_size [OF inv, of len] fit by (simp add: min_absorb1 word_unat_eq_iff)
  obtain m' where put: "user_rb_put rb src len m =
        Some (len, rb\<lparr>rb_head := advanced rb (rb_head rb) len\<rparr>, m')"
    and cp: "rb_copy_in rb (rb_head rb) src (unat len) m m'"
    and dom: "\<And>a. (m' a = None) = (m a = None)"
    using user_rb_put_effect [OF inv v away] by (auto simp: sz)
  have h: "unat (advanced rb (rb_head rb) len) = (unat (rb_head rb) + unat len) mod unat (rb_size rb)"
    using fit inv by (intro unat_advanced) (auto simp: rb_inv_def)
  with put dom show ?thesis
    using rb_inv_put [OF inv dom, of "advanced rb (rb_head rb) len"] h
      rb_unread_put [OF inv h cp fit] rb_inv_nat(1) [OF inv] rb_copy_in_frame [OF inv cp]
    by auto
qed


lemma get_takes:
  assumes inv: "rb_inv rb m"
    and v: "valid_range m des (min (unat len) (rb_used rb))"
    and away: "disjoint_ranges (rb_pbuf rb) (unat (rb_size rb)) des (min (unat len) (rb_used rb))"
  shows "\<exists>sz t m'. user_rb_get rb des len m = Some (sz, rb\<lparr>rb_tail := t\<rparr>, m')
     \<and> unat sz = min (unat len) (rb_used rb)
     \<and> rb_inv (rb\<lparr>rb_tail := t\<rparr>) m'
     \<and> bytes_at m' des (unat sz) = take (unat len) (rb_unread rb m)
     \<and> rb_unread (rb\<lparr>rb_tail := t\<rparr>) m' = drop (unat len) (rb_unread rb m)
     \<and> (\<forall>a. a < des \<or> des + unat sz \<le> a \<longrightarrow> m' a = m a)"
proof -
  define sz where "sz = get_size rb len"
  have usz: "unat sz = min (unat len) (rb_used rb)"
    using unat_get_size [OF inv] by (simp add: sz_def)
  obtain m' where get: "user_rb_get rb des len m =
        Some (sz, rb\<lparr>rb_tail := advanced rb (rb_tail rb) sz\<rparr>, m')"
    and cp: "rb_copy_out rb (rb_tail rb) des (unat sz) m m'"
    and dom: "\<And>a. (m' a = None) = (m a = None)"
    using user_rb_get_effect [OF inv v away] by (auto simp: sz_def)
  have t: "unat (advanced rb (rb_tail rb) sz) = (unat (rb_tail rb) + unat sz) mod unat (rb_size rb)"
    using usz inv rb_used_less [OF inv] by (intro unat_advanced) (auto simp: rb_inv_def)
  note un = rb_unread_get [OF inv t cp _ away [folded usz]]
  have tk: "take (unat sz) (rb_unread rb m) = take (unat len) (rb_unread rb m)"
    "drop (unat sz) (rb_unread rb m) = drop (unat len) (rb_unread rb m)"
    by (auto simp: usz min_def)
  from get dom show ?thesis
    using rb_inv_get [OF inv dom, of "advanced rb (rb_tail rb) sz"] t usz un tk
      rb_inv_nat(1) [OF inv] cp
    by (intro exI [of _ sz] exI [of _ "advanced rb (rb_tail rb) sz"] exI [of _ m'])
      (auto simp: rb_copy_out_def)
qed

lemma put_overrun:
  assumes inv: "rb_inv rb m" and v: "valid_range m src (unat len)"
    and away: "disjoint_ranges (rb_pbuf rb) (unat (rb_size rb)) src (unat len)"
    and over: "unat (rb_size rb) \<le> rb_used rb + unat len"
  shows "\<exists>sz h m'. user_rb_put rb src len m = Some (sz, rb\<lparr>rb_head := h\<rparr>, m')
     \<and> unat sz = unat (rb_size rb) - rb_used rb
     \<and> rb_inv (rb\<lparr>rb_head := h\<rparr>) m'
     \<and> rb_unread (rb\<lparr>rb_head := h\<rparr>) m' = []"
proof -
  define sz where "sz = put_size rb len"
  have usz: "unat sz = unat (rb_size rb) - rb_used rb"
    using unat_put_size [OF inv, of len] over rb_used_less [OF inv] by (auto simp: sz_def min_def)
  obtain m' where put: "user_rb_put rb src len m =
        Some (sz, rb\<lparr>rb_head := advanced rb (rb_head rb) sz\<rparr>, m')"
    and dom: "\<And>a. (m' a = None) = (m a = None)"
    using user_rb_put_effect [OF inv v away] by (auto simp: sz_def)
  have h: "unat (advanced rb (rb_head rb) sz) = (unat (rb_head rb) + unat sz) mod unat (rb_size rb)"
    using usz inv by (intro unat_advanced) (auto simp: rb_inv_def)
  have "rb_used (rb\<lparr>rb_head := advanced rb (rb_head rb) sz\<rparr>) = 0"
    using rb_used_put [OF inv h] usz rb_used_less [OF inv] by simp
  then have "rb_unread (rb\<lparr>rb_head := advanced rb (rb_head rb) sz\<rparr>) m' = []"
    by (simp add: rb_unread_def)
  with put usz show ?thesis
    using rb_inv_put [OF inv dom, of "advanced rb (rb_head rb) sz"] h rb_inv_nat(1) [OF inv] by auto
qed

section \<open>The ring is a byte queue\<close>

text \<open>
  The queue interface on the ring: a state is the ring with its memory, a source or a
  destination is a pointer with a length. The capacity is one byte less than the storage.
\<close>

definition rbq_enq :: "ptr \<times> u32 \<Rightarrow> ringbuf_t \<times> mem \<Rightarrow> (ringbuf_t \<times> mem) option" where
  "rbq_enq = (\<lambda>(src, len) (rb, m). map_option snd (user_rb_put rb src len m))"

definition rbq_deq :: "ptr \<times> u32 \<Rightarrow> ringbuf_t \<times> mem \<Rightarrow> (ringbuf_t \<times> mem) option" where
  "rbq_deq = (\<lambda>(des, len) (rb, m). map_option snd (user_rb_get rb des len m))"

definition rbq_area :: "ptr \<times> u32 \<Rightarrow> ringbuf_t \<times> mem \<Rightarrow> bool" where
  "rbq_area = (\<lambda>(a, len) (rb, m). valid_range m a (unat len) \<and>
     disjoint_ranges (rb_pbuf rb) (unat (rb_size rb)) a (unat len))"

lemma rbq_area_min:
  assumes "rbq_area (des, len) (rb, m)"
  shows "valid_range m des (min (unat len) n)"
    "disjoint_ranges (rb_pbuf rb) (unat (rb_size rb)) des (min (unat len) n)"
  using assms by (auto simp: rbq_area_def valid_range_iff disjoint_ranges_def)

interpretation rbq: byte_fifo
  "\<lambda>(rb, m). rb_inv rb m" "\<lambda>(rb, m). rb_unread rb m" "\<lambda>(rb, m). unat (rb_size rb) - 1"
  rbq_enq rbq_area "\<lambda>(src, len) (rb, m). bytes_at m src (unat len)"
  rbq_deq rbq_area "\<lambda>(des, len). unat len"
  "\<lambda>(des, len) (rb, m) (rb', m'). bytes_at m' des (min (unat len) (rb_used rb))"
proof (unfold_locales, goal_cases)
  case (1 q s)
  obtain rb m src len where qs: "q = (rb, m)" "s = (src, len)" by (cases q, cases s) auto
  have "rb_inv rb m" "valid_range m src (unat len)"
    "disjoint_ranges (rb_pbuf rb) (unat (rb_size rb)) src (unat len)"
    "rb_used rb + unat len < unat (rb_size rb)"
    using 1 rb_inv_nat(1) [of rb m] by (auto simp: qs rbq_area_def)
  from put_fits [OF this] obtain h m' where p:
    "user_rb_put rb src len m = Some (len, rb\<lparr>rb_head := h\<rparr>, m')"
    "rb_inv (rb\<lparr>rb_head := h\<rparr>) m'"
    "rb_unread (rb\<lparr>rb_head := h\<rparr>) m' = rb_unread rb m @ bytes_at m src (unat len)"
    by blast
  obtain m2 where "user_rb_put rb src len m = Some (put_size rb len,
        rb\<lparr>rb_head := advanced rb (rb_head rb) (put_size rb len)\<rparr>, m2)"
    "\<And>a. (m2 a = None) = (m a = None)"
    using user_rb_put_effect [OF \<open>rb_inv rb m\<close> \<open>valid_range m src (unat len)\<close>
      \<open>disjoint_ranges (rb_pbuf rb) (unat (rb_size rb)) src (unat len)\<close>] by blast
  with p have "\<And>a k. valid_range m' a k = valid_range m a k"
    by (auto simp: valid_range_iff)
  with p show ?case by (auto simp: qs rbq_enq_def rbq_area_def)
next
  case (2 q d)
  obtain rb m des len where qd: "q = (rb, m)" "d = (des, len)" by (cases q, cases d) auto
  have "rb_inv rb m" using 2 by (simp add: qd)
  from get_takes [OF this, of des len] rbq_area_min [of des len rb m] 2(2)
  show ?case by (auto simp: qd rbq_deq_def simp del: split_paired_Ex)
qed


section \<open>Properties\<close>

definition demo_ring :: ringbuf_t where
  "demo_ring = \<lparr>rb_pbuf = 100, rb_head = 3, rb_tail = 2, rb_size = 4, rb_lock = False\<rparr>"

definition demo_mem :: mem where
  "demo_mem a = (if 100 \<le> a \<and> a < 104 \<or> 200 \<le> a \<and> a < 204 then Some (of_nat a) else None)"

lemma demo_ring_facts:
  "rb_inv demo_ring demo_mem" "rb_used demo_ring = 1" "rb_pbuf demo_ring = 100"
  "rb_size demo_ring = 4" "n \<le> 4 \<Longrightarrow> valid_range demo_mem 200 n"
  "n \<le> 4 \<Longrightarrow> disjoint_ranges 100 4 200 n"
  by (auto simp: rb_inv_def demo_ring_def rb_used_def valid_range_iff demo_mem_def disjoint_ranges_def)

text \<open>C9. A write that leaves at least one byte free is appended whole to the unread bytes,
  the invariant is kept and no byte outside the ring's storage changes.\<close>

theorem user_rb_put_appends:
  assumes "rb_inv rb m" and "valid_range m src (unat len)"
    and "disjoint_ranges (rb_pbuf rb) (unat (rb_size rb)) src (unat len)"
    and "rb_used rb + unat len < unat (rb_size rb)"
  shows "\<exists>h m'. user_rb_put rb src len m = Some (len, rb\<lparr>rb_head := h\<rparr>, m')
     \<and> rb_inv (rb\<lparr>rb_head := h\<rparr>) m'
     \<and> rb_unread (rb\<lparr>rb_head := h\<rparr>) m' = rb_unread rb m @ bytes_at m src (unat len)
     \<and> (\<forall>a. a < rb_pbuf rb \<or> rb_pbuf rb + unat (rb_size rb) \<le> a \<longrightarrow> m' a = m a)"
  using assms by (rule put_fits)

theorem user_rb_put_appends_witness:
  "\<exists>h m'. user_rb_put demo_ring 200 2 demo_mem = Some (2, demo_ring\<lparr>rb_head := h\<rparr>, m')
     \<and> rb_inv (demo_ring\<lparr>rb_head := h\<rparr>) m'
     \<and> rb_unread (demo_ring\<lparr>rb_head := h\<rparr>) m' = rb_unread demo_ring demo_mem @ bytes_at demo_mem 200 2"
  using user_rb_put_appends [of demo_ring demo_mem 200 2] by (auto simp: demo_ring_facts)

text \<open>C10. A read delivers the oldest unread bytes in order, as many as asked for or as
  there are, removes exactly those, and writes nothing outside the destination.\<close>

theorem user_rb_get_takes:
  assumes "rb_inv rb m"
    and "valid_range m des (min (unat len) (rb_used rb))"
    and "disjoint_ranges (rb_pbuf rb) (unat (rb_size rb)) des (min (unat len) (rb_used rb))"
  shows "\<exists>sz t m'. user_rb_get rb des len m = Some (sz, rb\<lparr>rb_tail := t\<rparr>, m')
     \<and> unat sz = min (unat len) (rb_used rb)
     \<and> rb_inv (rb\<lparr>rb_tail := t\<rparr>) m'
     \<and> bytes_at m' des (unat sz) = take (unat len) (rb_unread rb m)
     \<and> rb_unread (rb\<lparr>rb_tail := t\<rparr>) m' = drop (unat len) (rb_unread rb m)
     \<and> (\<forall>a. a < des \<or> des + unat sz \<le> a \<longrightarrow> m' a = m a)"
  using assms by (rule get_takes)

theorem user_rb_get_takes_witness:
  "\<exists>sz t m'. user_rb_get demo_ring 200 3 demo_mem = Some (sz, demo_ring\<lparr>rb_tail := t\<rparr>, m')
     \<and> unat sz = 1 \<and> bytes_at m' 200 1 = take 3 (rb_unread demo_ring demo_mem)
     \<and> rb_unread (demo_ring\<lparr>rb_tail := t\<rparr>) m' = drop 3 (rb_unread demo_ring demo_mem)"
  using user_rb_get_takes [of demo_ring demo_mem 200 3] by (auto simp: demo_ring_facts)

text \<open>C18. A write that reaches the capacity of the storage stores as many bytes as are
  free and leaves the ring empty: the head meets the tail, which the code reads as
  \<^emph>\<open>no unread bytes\<close>, so the whole content is lost.\<close>

theorem user_rb_put_overrun_empties:
  assumes "rb_inv rb m" and "valid_range m src (unat len)"
    and "disjoint_ranges (rb_pbuf rb) (unat (rb_size rb)) src (unat len)"
    and "unat (rb_size rb) \<le> rb_used rb + unat len"
  shows "\<exists>sz h m'. user_rb_put rb src len m = Some (sz, rb\<lparr>rb_head := h\<rparr>, m')
     \<and> unat sz = unat (rb_size rb) - rb_used rb
     \<and> rb_unread (rb\<lparr>rb_head := h\<rparr>) m' = []
     \<and> user_rb_unread_size (rb\<lparr>rb_head := h\<rparr>) = 0"
proof -
  obtain sz h m' where p: "user_rb_put rb src len m = Some (sz, rb\<lparr>rb_head := h\<rparr>, m')"
      "unat sz = unat (rb_size rb) - rb_used rb" "rb_inv (rb\<lparr>rb_head := h\<rparr>) m'"
      "rb_unread (rb\<lparr>rb_head := h\<rparr>) m' = []"
    using put_overrun [OF assms] by blast
  have "rb_used (rb\<lparr>rb_head := h\<rparr>) = 0"
    using p(4) length_rb_unread [of "rb\<lparr>rb_head := h\<rparr>" m'] by simp
  with unat_unread_size [OF p(3)] have "user_rb_unread_size (rb\<lparr>rb_head := h\<rparr>) = 0"
    by (simp add: unat_eq_zero)
  with p show ?thesis by blast
qed

theorem user_rb_put_overrun_empties_witness:
  "\<exists>sz h m'. user_rb_put demo_ring 200 4 demo_mem = Some (sz, demo_ring\<lparr>rb_head := h\<rparr>, m')
     \<and> unat sz = 3 \<and> rb_unread (demo_ring\<lparr>rb_head := h\<rparr>) m' = []"
  using user_rb_put_overrun_empties [of demo_ring demo_mem 200 4] by (auto simp: demo_ring_facts)

text \<open>What is put into an empty ring of enough room comes back unchanged from the
  next read, whatever the positions of head and tail, and the ring is empty again.\<close>

theorem user_rb_roundtrip:
  assumes "rb_inv rb m" "rb_used rb = 0"
    and "valid_range m src (unat len)"
    and "disjoint_ranges (rb_pbuf rb) (unat (rb_size rb)) src (unat len)"
    and "valid_range m des (unat len)"
    and "disjoint_ranges (rb_pbuf rb) (unat (rb_size rb)) des (unat len)"
    and "unat len < unat (rb_size rb)"
  shows "\<exists>r1 m1 r2 m2 sz. user_rb_put rb src len m = Some (len, r1, m1)
     \<and> user_rb_get r1 des len m1 = Some (sz, r2, m2)
     \<and> bytes_at m2 des (unat len) = bytes_at m src (unat len)
     \<and> rb_unread r2 m2 = []"
proof -
  have e: "rb_unread rb m = []" using assms(2) by (simp add: rb_unread_def)
  obtain h m1 where p: "user_rb_put rb src len m = Some (len, rb\<lparr>rb_head := h\<rparr>, m1)"
    "rb_unread (rb\<lparr>rb_head := h\<rparr>) m1 = bytes_at m src (unat len)"
    using put_fits [OF assms(1,3,4)] assms(2,7) e by auto
  have used: "rb_used (rb\<lparr>rb_head := h\<rparr>) = unat len"
    using arg_cong [OF p(2), of length] by simp
  obtain q1 q2 where "rbq_enq (src, len) (rb, m) = Some q1" "rbq_deq (des, len) q1 = Some q2"
    "(case q1 of (r, _) \<Rightarrow> \<lambda>(r', m'). bytes_at m' des (min (unat len) (rb_used r))) q2
       = bytes_at m src (unat len)" "(case q2 of (r, m) \<Rightarrow> rb_unread r m) = []"
    using rbq.enq_deq_empty [of "(rb, m)" "(src, len)" "(des, len)"] assms e
    by (fastforce simp: rbq_area_def split: prod.splits)
  with p used show ?thesis
    by (auto simp: rbq_enq_def rbq_deq_def split: prod.splits)
qed

theorem user_rb_roundtrip_witness:
  "\<exists>r1 m1 r2 m2 sz. user_rb_put (demo_ring\<lparr>rb_tail := 3\<rparr>) 200 2 demo_mem = Some (2, r1, m1)
     \<and> user_rb_get r1 202 2 m1 = Some (sz, r2, m2)
     \<and> bytes_at m2 202 2 = bytes_at demo_mem 200 2"
  using user_rb_roundtrip [of "demo_ring\<lparr>rb_tail := 3\<rparr>" demo_mem 200 2 202]
  by (auto simp: demo_ring_def demo_mem_def rb_inv_def rb_used_def valid_range_iff
      disjoint_ranges_def)

lemma user_rb_lock_poll_range:
  "i \<le> 50000 \<Longrightarrow> i \<le> user_rb_lock_poll seen i \<and> user_rb_lock_poll seen i \<le> 50001
     \<and> (\<forall>k. i \<le> k \<and> k < user_rb_lock_poll seen i \<longrightarrow> seen k)
     \<and> (user_rb_lock_poll seen i \<le> 50000 \<longrightarrow> \<not> seen (user_rb_lock_poll seen i))"
proof (induction seen i rule: user_rb_lock_poll.induct)
  case (1 seen i)
  consider "\<not> seen i" | "seen i" "i = 50000" | "seen i" "i < 50000"
    using "1.prems" by linarith
  then show ?case
  proof cases
    case 1
    then show ?thesis using "1.prems" by (auto simp: user_rb_lock_poll.simps [of seen i])
  next
    case 2
    then have "user_rb_lock_poll seen i = 50001"
      by (subst user_rb_lock_poll.simps) simp
    moreover have "seen k" if "i \<le> k" "k < 50001" for k
    proof -
      have "k = i" using that 2 by simp
      with 2 show ?thesis by simp
    qed
    ultimately show ?thesis using 2 by auto
  next
    case 3
    note ih = "1.IH" [OF 3(1) refl]
    have eq: "user_rb_lock_poll seen i = user_rb_lock_poll seen (Suc i)"
      using 3 by (simp add: user_rb_lock_poll.simps [of seen i])
    have "seen k" if "i \<le> k" "k < user_rb_lock_poll seen (Suc i)" for k
      using that ih 3 by (cases "k = i") auto
    with ih 3 show ?thesis by (auto simp: eq)
  qed
qed

text \<open>C19. Taking the lock always ends, after at most 50001 polls of the flag, and the flag
  is set afterwards; the poll limit is reached exactly when the flag never clears, and
  then the lock is taken from its holder.\<close>

theorem user_rb_lock_terminates:
  "fst (user_rb_lock seen rb) \<le> 50001 \<and> rb_lock (snd (user_rb_lock seen rb))
   \<and> (fst (user_rb_lock seen rb) = 50001 \<longleftrightarrow> (\<forall>k \<le> 50000. seen k))"
proof -
  let ?r = "user_rb_lock_poll seen 0"
  have r: "?r \<le> 50001" "\<forall>k<?r. seen k" "?r \<le> 50000 \<longrightarrow> \<not> seen ?r"
    using user_rb_lock_poll_range [of 0 seen] by auto
  moreover have "?r = 50001 \<longleftrightarrow> (\<forall>k \<le> 50000. seen k)"
  proof
    assume "?r = 50001"
    with r(2) show "\<forall>k \<le> 50000. seen k" by (metis Suc_numeral le_imp_less_Suc semiring_norm(5))
  next
    assume "\<forall>k \<le> 50000. seen k"
    with r(1,3) show "?r = 50001" by (metis le_SucE Suc_numeral semiring_norm(5))
  qed
  ultimately show ?thesis by (simp add: user_rb_lock_def)
qed

theorem user_rb_lock_terminates_witness:
  "fst (user_rb_lock (\<lambda>_. True) demo_ring) = 50001 \<and> rb_lock (snd (user_rb_lock (\<lambda>_. True) demo_ring))"
  using user_rb_lock_terminates [of "\<lambda>_. True" demo_ring] by simp

end
