(* ===== verification/Tcp_Client.thy ===== *)
theory Tcp_Client
  imports Smartconfig Ring_Buffer
begin

text \<open>
  The TCP client of the gateway, \<^verbatim>\<open>app/user/user_tcp_client.c\<close>: DNS lookup, connection and
  reconnection, the periodic process, and the ring buffer in which frames for the server wait.

  The ring's storage \<^verbatim>\<open>tcp_send_buffer\<close> is also the buffer that \<^verbatim>\<open>user_tcp_send_loop\<close> reads the ring
  into, so both names are one address here. The Xlink library is not in the repository:
  calls into it are recorded, and what its periodic loop does through the callbacks the
  firmware gave it is the argument \<open>sdk_loop\<close> of \<open>user_tcp_func_process\<close>. Debug output is not
  modelled.
\<close>

section \<open>State\<close>

datatype XLINK_APP_STATUS =
  XLINK_WIFI_STA_PRO_TESTCOMPLETE | XLINK_WIFI_STA_CONNECT_SERVER | XLINK_WIFI_STA_DISCONNCT_SERVER
| XLINK_WIFI_STA_APP_CONNECT | XLINK_WIFI_STA_APP_DISCONNECT | XLINK_WIFI_STA_APP_TIMEOUT
| XLINK_WIFI_STA_LOGIN_SUCCESS

text \<open>
  The fields of \<^verbatim>\<open>XLINK_USER_CONFIG\<close> the firmware sets; of the pointers that the library sets
  only whether they are there.
\<close>

record XLINK_USER_CONFIG =
  maclen :: u16
  mac :: "u8 list"
  in_internet :: u8
  wifisoftVersion :: u16
  wifi_type :: u8
  pipetype :: u8
  devicetype :: u16
  callbacks_set :: bool
  setServerStatus :: bool
  process_udp_data :: bool
  process_tcp_data :: bool

type_synonym ip4 = "u8 \<times> u8 \<times> u8 \<times> u8"

text \<open>A 32-bit address as its four bytes in memory order, and back (little endian).\<close>

definition ip_bytes :: "u32 \<Rightarrow> ip4" where
  "ip_bytes a = (ucast a, ucast (drop_bit 8 a), ucast (drop_bit 16 a), ucast (drop_bit 24 a))"

definition ip_word :: "ip4 \<Rightarrow> u32" where
  "ip_word = (\<lambda>(a, b, c, d). ucast a OR push_bit 8 (ucast b) OR push_bit 16 (ucast c) OR push_bit 24 (ucast d))"

record esp_conn =
  remote_port :: int
  local_port :: int
  c_remote_ip :: ip4

datatype espconn_type = ESPCONN_INVALID | ESPCONN_TCP | ESPCONN_UDP
datatype espconn_state =
  ESPCONN_NONE | ESPCONN_WAIT | ESPCONN_LISTEN | ESPCONN_CONNECT | ESPCONN_WRITE | ESPCONN_READ | ESPCONN_CLOSE

record tcp = smartconfig +
  user_config :: XLINK_USER_CONFIG
  tcp_send_buffer :: ptr
  tcp_type :: espconn_type
  tcp_state :: espconn_state
  proto_tcp :: "esp_conn option"
  tcp_rb_send :: ringbuf_t
  reconn_cnt :: u8
  isConnectServer :: bool
  flag_dns_discovery :: bool
  isDnsFound :: bool
  remote_ip :: u32
  user_tcp_recv_pipe_cb :: "callback option"

abbreviation (input) TCP_SEND_BUFFER_SIZE :: u32 where "TCP_SEND_BUFFER_SIZE \<equiv> 1024"

definition XLINK_DOMAIN :: string where "XLINK_DOMAIN = ''cm2.xlink.cn''"

section \<open>Connection management\<close>

definition user_tcp_reconnect :: "'a tcp_scheme \<Rightarrow> 'a tcp_scheme" where
  "user_tcp_reconnect s =
     (if user_smartconfig_status s then s\<lparr>reconn_cnt := 0\<rparr>
      else let s = s\<lparr>reconn_cnt := reconn_cnt s + 1\<rparr>;
               s = call (Net (Espconn_disconnect user_tcp_client_conn)) s
           in if reconn_cnt s > 5
              then s\<lparr>reconn_cnt := 0, isDnsFound := False, isConnectServer := False,
                     flag_dns_discovery := False\<rparr>
              else call (Net (Espconn_connect user_tcp_client_conn)) s)"

definition user_tcp_status :: "XLINK_APP_STATUS \<Rightarrow> 'a tcp_scheme \<Rightarrow> 'a tcp_scheme" where
  "user_tcp_status status s =
     (case status of
        XLINK_WIFI_STA_APP_CONNECT \<Rightarrow> s
      | XLINK_WIFI_STA_APP_DISCONNECT \<Rightarrow> s
      | XLINK_WIFI_STA_APP_TIMEOUT \<Rightarrow> s
      | XLINK_WIFI_STA_CONNECT_SERVER \<Rightarrow> s
      | XLINK_WIFI_STA_DISCONNCT_SERVER \<Rightarrow> user_tcp_reconnect (s\<lparr>isConnectServer := False\<rparr>)
      | XLINK_WIFI_STA_LOGIN_SUCCESS \<Rightarrow> s\<lparr>isConnectServer := True\<rparr>
      | _ \<Rightarrow> s)"

text \<open>\<open>ip\<close> is \<open>None\<close> for a null pointer.\<close>

definition user_tcp_dns_found :: "u32 option \<Rightarrow> 'a tcp_scheme \<Rightarrow> 'a tcp_scheme option" where
  "user_tcp_dns_found ip s =
     (let s = s\<lparr>reconn_cnt := 0, isConnectServer := False, flag_dns_discovery := False\<rparr>
      in case ip of
           None \<Rightarrow> Some s
         | Some addr \<Rightarrow>
             if addr = 0 then Some s
             else let s = s\<lparr>remote_ip := addr\<rparr>;
                      s = os_timer_disarm dns_timer s;
                      s = s\<lparr>isDnsFound := True\<rparr>
                  in case proto_tcp s of
                       None \<Rightarrow> None
                     | Some t \<Rightarrow>
                         Some (call (Net (Espconn_connect user_tcp_client_conn))
                                (s\<lparr>proto_tcp := Some (t\<lparr>c_remote_ip := ip_bytes addr\<rparr>)\<rparr>)))"

definition user_tcp_dns_check_cb :: "'a tcp_scheme \<Rightarrow> 'a tcp_scheme" where
  "user_tcp_dns_check_cb s =
     call (Net (Espconn_gethostbyname user_tcp_client_conn XLINK_DOMAIN user_tcp_dns_found_cb)) s"

definition user_tcp_start_dns :: "'a tcp_scheme \<Rightarrow> 'a tcp_scheme" where
  "user_tcp_start_dns s =
     (let s = s\<lparr>remote_ip := 0\<rparr>;
          s = os_timer_disarm dns_timer s;
          s = os_timer_setfn dns_timer user_tcp_dns_check_cb_fn s
      in os_timer_arm dns_timer 1000 True s)"

definition user_tcp_connect_cb :: "'a tcp_scheme \<Rightarrow> 'a tcp_scheme" where
  "user_tcp_connect_cb s =
     (let s = (if setServerStatus (user_config s) then call (Xlink (SetServerStatus 1 0)) s else s)
      in s\<lparr>reconn_cnt := 0\<rparr>)"

definition user_tcp_disconnect_cb :: "'a tcp_scheme \<Rightarrow> 'a tcp_scheme" where
  "user_tcp_disconnect_cb s =
     (let s = (if setServerStatus (user_config s) then call (Xlink (SetServerStatus 0 0)) s else s);
          s = call (Xlink (Xsdk_closeTCP 1)) s
      in user_tcp_reconnect s)"

definition user_tcp_reconnect_cb :: "'a tcp_scheme \<Rightarrow> 'a tcp_scheme" where
  "user_tcp_reconnect_cb s = user_tcp_reconnect s"

definition user_tcp_disconnect :: "'a tcp_scheme \<Rightarrow> 'a tcp_scheme" where
  "user_tcp_disconnect s =
     call (Xlink (Xsdk_closeTCP 1)) (call (Net (Espconn_disconnect user_tcp_client_conn)) s)"

section \<open>Data\<close>

definition user_tcp_set_recv_pipe_fn :: "callback option \<Rightarrow> 'a tcp_scheme \<Rightarrow> 'a tcp_scheme" where
  "user_tcp_set_recv_pipe_fn cb s = s\<lparr>user_tcp_recv_pipe_cb := cb\<rparr>"

text \<open>The length parameter is truncated to the callback's \<^verbatim>\<open>uint16_t\<close>.\<close>

definition user_tcp_pipe1_cb ::
  "(callback \<Rightarrow> ptr \<Rightarrow> u16 \<Rightarrow> 'a tcp_scheme \<Rightarrow> 'a tcp_scheme option) \<Rightarrow>
   ptr \<Rightarrow> u32 \<Rightarrow> 'a tcp_scheme \<Rightarrow> 'a tcp_scheme option" where
  "user_tcp_pipe1_cb run buf n s =
     (case user_tcp_recv_pipe_cb s of None \<Rightarrow> Some s | Some cb \<Rightarrow> run cb buf (ucast n) s)"

definition user_tcp_pipe2_cb :: "ptr \<Rightarrow> u32 \<Rightarrow> 'a tcp_scheme \<Rightarrow> 'a tcp_scheme" where
  "user_tcp_pipe2_cb buf n s = s"

text \<open>\<^verbatim>\<open>process_tcp_data\<close> is called without a test: \<open>None\<close> when the library has not set it.\<close>

definition user_tcp_recv_cb :: "ptr \<Rightarrow> u16 \<Rightarrow> 'a tcp_scheme \<Rightarrow> 'a tcp_scheme option" where
  "user_tcp_recv_cb buf n s =
     (if buf = NULL \<or> n = 0 then Some s
      else if process_tcp_data (user_config s) \<and> valid_range (ram s) buf (unat n)
      then Some (call (Xlink (Process_tcp_data (bytes_at (ram s) buf (unat n)))) s)
      else None)"

definition user_tcp_sent_cb :: "'a tcp_scheme \<Rightarrow> 'a tcp_scheme" where
  "user_tcp_sent_cb s = s"

definition user_tcp_send :: "ptr \<Rightarrow> u32 \<Rightarrow> 'a tcp_scheme \<Rightarrow> (u32 \<times> 'a tcp_scheme) option" where
  "user_tcp_send data datalen s =
     (if valid_range (ram s) data (unat datalen)
      then Some (datalen, call (Net (Espconn_send user_tcp_client_conn (bytes_at (ram s) data (unat datalen)))) s)
      else None)"

definition user_tcp_send_pipe :: "ptr \<Rightarrow> u16 \<Rightarrow> 'a tcp_scheme \<Rightarrow> 'a tcp_scheme option" where
  "user_tcp_send_pipe pbuf n s =
     (if isConnectServer s
      then do { (_, rb, m) \<leftarrow> user_rb_put (tcp_rb_send s) pbuf (ucast n) (ram s);
                Some (s\<lparr>tcp_rb_send := rb, ram := m\<rparr>) }
      else Some s)"

definition user_tcp_send_loop :: "'a tcp_scheme \<Rightarrow> 'a tcp_scheme option" where
  "user_tcp_send_loop s =
     (if isConnectServer s
      then let n = user_rb_unread_size (tcp_rb_send s)
           in if n = 0 then Some s
              else let (v, s) = GPIO_INPUT_GET 12 s;
                       s = (if v \<noteq> 0 then GPIO_OUTPUT_SET 12 0 s else GPIO_OUTPUT_SET 12 1 s)
                   in do { (_, rb, m) \<leftarrow> user_rb_get (tcp_rb_send s) (tcp_send_buffer s) n (ram s);
                           let s = s\<lparr>tcp_rb_send := rb, ram := m\<rparr>;
                           if valid_range m (tcp_send_buffer s) (unat n)
                           then Some (call (Xlink (XlinkSendTcpPipe2 (bytes_at m (tcp_send_buffer s) (unat n)))) s)
                           else None }
      else Some s)"

definition user_tcp_func_process ::
  "('a tcp_scheme \<Rightarrow> 'a tcp_scheme option) \<Rightarrow> 'a tcp_scheme \<Rightarrow> 'a tcp_scheme option" where
  "user_tcp_func_process sdk_loop s =
     (let (now, s) = ask system_get_time s;
          ctime = now div 1000000;
          (m, s) = ask wifi_get_opmode s;
          mode = (ucast m :: u8)
      in if mode = STATION_MODE
         then let (st, s) = ask wifi_station_get_connect_status s;
                  status = (ucast st :: u8);
                  (ip, s) = ask wifi_get_ip_info_ip s
              in if status = 5 \<and> ip \<noteq> 0
                 then let s = (if flag_dns_discovery s = False \<and> isDnsFound s = False
                               then user_tcp_start_dns (s\<lparr>flag_dns_discovery := True, reconn_cnt := 0\<rparr>)
                               else s);
                          s = call (Xlink (XlinkSystemLoop ctime 0)) s
                      in do { s \<leftarrow> sdk_loop s; user_tcp_send_loop s }
                 else Some s
         else Some (s\<lparr>reconn_cnt := 0, isConnectServer := False, flag_dns_discovery := False,
                      isDnsFound := False\<rparr>))"

definition sizeof_esp_tcp :: nat where
  "sizeof_esp_tcp = 32"

definition user_tcp_client_init :: "'a tcp_scheme \<Rightarrow> 'a tcp_scheme option" where
  "user_tcp_client_init s =
     (let s = (case proto_tcp s of
                 None \<Rightarrow> let (p, s) = os_zalloc sizeof_esp_tcp s
                         in if p = NULL then s
                            else s\<lparr>proto_tcp := Some \<lparr>remote_port = 0, local_port = 0, c_remote_ip = (0, 0, 0, 0)\<rparr>\<rparr>
               | Some t \<Rightarrow> s);
          s = s\<lparr>tcp_type := ESPCONN_TCP, tcp_state := ESPCONN_NONE\<rparr>
      in do { t \<leftarrow> proto_tcp s;
              let s = s\<lparr>proto_tcp := Some (t\<lparr>local_port := 5001, remote_port := 23778\<rparr>)\<rparr>;
              let s = call (Net (Espconn_regist user_tcp_client_conn user_tcp_connect_cb_fn)) s;
              let s = call (Net (Espconn_regist user_tcp_client_conn user_tcp_disconnect_cb_fn)) s;
              let s = call (Net (Espconn_regist user_tcp_client_conn user_tcp_reconnect_cb_fn)) s;
              let s = call (Net (Espconn_regist user_tcp_client_conn user_tcp_recv_cb_fn)) s;
              let s = call (Net (Espconn_regist user_tcp_client_conn user_tcp_sent_cb_fn)) s;
              (rb, m) \<leftarrow> user_rb_init (Some (tcp_rb_send s)) (tcp_send_buffer s) TCP_SEND_BUFFER_SIZE (ram s);
              rb \<leftarrow> rb;
              Some (s\<lparr>tcp_rb_send := rb, ram := m\<rparr>) })"

end
