(* ===== verification/Udp_Server.thy ===== *)
theory Udp_Server
  imports Tcp_Client
begin

text \<open>
  The UDP side of the gateway, \<^verbatim>\<open>app/user/user_udp_server.c\<close>: the local port, the address of the
  last peer, and the pipe to it. The union \<^verbatim>\<open>ip_address_t\<close> is the pair \<open>ip_bytes\<close>, \<open>ip_word\<close>.
  What \<^verbatim>\<open>espconn_get_connection_info\<close> answers is an argument (\<open>None\<close>: not \<^verbatim>\<open>ESPCONN_OK\<close>).
\<close>

record udp = tcp +
  udp_type :: espconn_type
  udp_state :: espconn_state
  proto_udp :: "esp_conn option"
  user_udp_recv_pipe_cb :: "callback option"

record xlink_addr =
  s_addr :: u32
  sin_port :: u16

definition sizeof_esp_udp :: nat where
  "sizeof_esp_udp = 16"

definition user_udp_server_init :: "'a udp_scheme \<Rightarrow> 'a udp_scheme option" where
  "user_udp_server_init s =
     (let s = s\<lparr>udp_type := ESPCONN_UDP, udp_state := ESPCONN_NONE\<rparr>;
          (p, s) = os_zalloc sizeof_esp_udp s
      in if p = NULL then None
         else let s = s\<lparr>proto_udp := Some \<lparr>remote_port = 6000, local_port = 5987, c_remote_ip = (0, 0, 0, 0)\<rparr>\<rparr>;
                  s = call (Net (Espconn_regist user_udp_server_conn user_udp_recv_cb_fn)) s
              in Some (call (Net (Espconn_create user_udp_server_conn)) s))"

definition user_udp_pipe_cb ::
  "(callback \<Rightarrow> ptr \<Rightarrow> u16 \<Rightarrow> 'a udp_scheme \<Rightarrow> 'a udp_scheme option) \<Rightarrow>
   ptr \<Rightarrow> u32 \<Rightarrow> 'a udp_scheme \<Rightarrow> 'a udp_scheme option" where
  "user_udp_pipe_cb run buf n s =
     (case user_udp_recv_pipe_cb s of None \<Rightarrow> Some s | Some cb \<Rightarrow> run cb buf (ucast n) s)"

definition user_udp_set_recv_pipe_fn :: "callback option \<Rightarrow> 'a udp_scheme \<Rightarrow> 'a udp_scheme" where
  "user_udp_set_recv_pipe_fn cb s = s\<lparr>user_udp_recv_pipe_cb := cb\<rparr>"

definition user_udp_recv_cb ::
  "(ip4 \<times> int) option \<Rightarrow> ptr \<Rightarrow> u16 \<Rightarrow> 'a udp_scheme \<Rightarrow> 'a udp_scheme option" where
  "user_udp_recv_cb info pdata n s =
     (if pdata = NULL \<or> n = 0 then Some s
      else case info of
        None \<Rightarrow> Some s
      | Some (ip, port) \<Rightarrow>
          do { u \<leftarrow> proto_udp s;
               let u = u\<lparr>c_remote_ip := ip, remote_port := port\<rparr>;
               let s = s\<lparr>proto_udp := Some u\<rparr>;
               let addr = \<lparr>s_addr = ip_word (c_remote_ip u), sin_port = word_of_int (remote_port u)\<rparr>;
               if process_udp_data (user_config s)
               then if valid_range (ram s) pdata (unat n)
                    then Some (call (Xlink (Process_udp_data (bytes_at (ram s) pdata (unat n))
                                 (s_addr addr) (sin_port addr))) s)
                    else None
               else Some s })"

definition user_udp_send :: "xlink_addr \<Rightarrow> ptr \<Rightarrow> u32 \<Rightarrow> 'a udp_scheme \<Rightarrow> (u32 \<times> 'a udp_scheme) option" where
  "user_udp_send addr pdata n s =
     do { u \<leftarrow> proto_udp s;
          let u = u\<lparr>remote_port := uint (sin_port addr), c_remote_ip := ip_bytes (s_addr addr)\<rparr>;
          let s = s\<lparr>proto_udp := Some u\<rparr>;
          if valid_range (ram s) pdata (unat n)
          then Some (n, call (Net (Espconn_send user_udp_server_conn (bytes_at (ram s) pdata (unat n)))) s)
          else None }"

definition user_udp_send_pipe :: "ptr \<Rightarrow> u16 \<Rightarrow> 'a udp_scheme \<Rightarrow> 'a udp_scheme option" where
  "user_udp_send_pipe pbuf n s =
     do { u \<leftarrow> proto_udp s;
          let addr = \<lparr>s_addr = ip_word (c_remote_ip u), sin_port = word_of_int (remote_port u)\<rparr>;
          if valid_range (ram s) pbuf (unat n)
          then Some (call (Xlink (XlinkSendUdpPipe (bytes_at (ram s) pbuf (unat n)) (s_addr addr) (sin_port addr))) s)
          else None }"

section \<open>The address survives the union\<close>

declare unat_ucast_u16_u32 [simp]

lemma ip_word_bytes: "ip_word (ip_bytes a) = a"
proof (rule bit_word_eqI)
  fix n assume "n < LENGTH(32)"
  then have "n < 32" by simp
  then show "bit (ip_word (ip_bytes a)) n = bit a n"
    by (cases "n < 8"; cases "n < 16"; cases "n < 24")
      (auto simp: ip_word_def ip_bytes_def bit_simps dest: bit_u8_less)
qed

lemma ip_bytes_word: "ip_bytes (ip_word ip) = ip"
proof -
  obtain a b c d where ip: "ip = (a, b, c, d)" by (cases ip) auto
  have "ucast (ip_word ip) = a" "ucast (drop_bit 8 (ip_word ip)) = b"
    "ucast (drop_bit 16 (ip_word ip)) = c" "ucast (drop_bit 24 (ip_word ip)) = d"
    by (rule bit_word_eqI; auto simp: ip ip_word_def bit_simps dest: bit_u8_less)+
  then show ?thesis by (simp add: ip_bytes_def ip)
qed

definition demo_udp :: udp where
  "demo_udp = \<lparr>regs = (\<lambda>a. 0), dev = (\<lambda>n r. r), sdk_ret = (\<lambda>n q. of_nat n), junk = (\<lambda>n a. 0),
     clk = 0, log = [],
     ram = (\<lambda>a. if 5000 \<le> a \<and> a < 6024 \<or> 8000 \<le> a \<and> a < 8016 then Some (of_nat a) else None), blocks = (\<lambda>a. None),
     uart0_rx_cb = None, uart0_tx_empty_cb = None, uart1_tx_empty_cb = None,
     crc = \<lparr>crcH = 0, crcL = 0, idx = 0\<rparr>, modbus_rx_buffer = \<lparr>rxb_buffer = 8000, rxb_len = 0\<rparr>,
     modbus_recv_frame_cb = None, smartconfig_status = False, sc_timeout = 60000,
     user_config = \<lparr>maclen = 6, mac = [], in_internet = 1, wifisoftVersion = 1, wifi_type = 1, pipetype = 1,
       devicetype = 0, callbacks_set = True, setServerStatus = True, process_udp_data = True,
       process_tcp_data = True\<rparr>,
     tcp_send_buffer = 5000, tcp_type = ESPCONN_TCP, tcp_state = ESPCONN_NONE, proto_tcp = None,
     tcp_rb_send = \<lparr>rb_pbuf = 5000, rb_head = 3, rb_tail = 1, rb_size = 1024, rb_lock = False\<rparr>,
     reconn_cnt = 0, isConnectServer = True, flag_dns_discovery = False, isDnsFound = True,
     remote_ip = 1, user_tcp_recv_pipe_cb = None, udp_type = ESPCONN_UDP, udp_state = ESPCONN_NONE,
     proto_udp = Some \<lparr>remote_port = 6000, local_port = 5987, c_remote_ip = (0, 0, 0, 0)\<rparr>,
     user_udp_recv_pipe_cb = None\<rparr>"

section \<open>Property\<close>

text \<open>After a datagram, answers through the pipe go to the peer it came from: the address that the next
  \<^verbatim>\<open>user_udp_send_pipe\<close> passes on is the sender's, byte for byte, with its port; and a reply sent to
  that address leaves the stored peer unchanged.\<close>

theorem user_udp_replies_to_sender:
  assumes "user_udp_recv_cb (Some (ip, uint port)) pdata n s = Some s1" "pdata \<noteq> NULL" "n \<noteq> 0"
    and "valid_range (ram s1) p (unat k)"
  shows "user_udp_send_pipe p k s1 =
       Some (call (Xlink (XlinkSendUdpPipe (bytes_at (ram s1) p (unat k)) (ip_word ip) port)) s1)
    \<and> (\<exists>s2. user_udp_send \<lparr>s_addr = ip_word ip, sin_port = port\<rparr> p (ucast k) s1 = Some (ucast k, s2)
         \<and> proto_udp s2 = proto_udp s1)"
proof -
  obtain u where "proto_udp s = Some u"
    and s1: "proto_udp s1 = Some (u\<lparr>c_remote_ip := ip, remote_port := uint port\<rparr>)"
    using assms(1-3) by (auto simp: user_udp_recv_cb_def bind_eq_Some_conv call_def Let_def split: if_splits)
  with s1 assms(4) show ?thesis
    by (simp add: user_udp_send_pipe_def user_udp_send_def ip_bytes_word call_def Let_def)
qed

theorem user_udp_replies_to_sender_witness:
  "\<exists>s1. user_udp_recv_cb (Some ((192, 168, 1, 7), uint (6000 :: u16))) 8000 4 demo_udp = Some s1 \<and>
     user_udp_send_pipe 8000 2 s1 =
       Some (call (Xlink (XlinkSendUdpPipe (bytes_at (ram s1) 8000 (unat (2 :: u16))) (ip_word (192, 168, 1, 7)) 6000)) s1)"
proof -
  obtain s1 where s1: "user_udp_recv_cb (Some ((192, 168, 1, 7), uint (6000 :: u16))) 8000 4 demo_udp = Some s1"
    and ram: "ram s1 = ram demo_udp"
    by (simp add: user_udp_recv_cb_def demo_udp_def valid_range_iff call_def)
  have "valid_range (ram s1) 8000 (unat (2 :: u16))" by (simp add: ram demo_udp_def valid_range_iff)
  from user_udp_replies_to_sender [OF s1 _ _ this] s1 show ?thesis by auto
qed

end
