(* ===== verification/Tcp_Proofs.thy ===== *)
theory Tcp_Proofs
  imports Tcp_Client
begin

text \<open>
  Correctness of the TCP client: the invariant over everything that can happen to it
  (\<open>tcp_step\<close>), the reconnection limit, and what the send loop makes of the ring whose storage
  it also uses as its destination.
\<close>

section \<open>Ring operations keep the invariant whatever their other operand\<close>

lemma get_any:
  assumes "user_rb_get rb des n m = Some (sz, rb', m')"
  shows "sz = get_size rb n \<and> rb' = rb\<lparr>rb_tail := advanced rb (rb_tail rb) (get_size rb n)\<rparr>
    \<and> (\<forall>a. (m' a = None) = (m a = None))"
proof -
  have adv: "advanced rb (rb_tail rb) z = (let t = rb_tail rb + z in if rb_size rb \<le> t then t - rb_size rb else t)" for z
    by (simp add: advanced_def Let_def)
  show ?thesis
  proof (cases "rb_tail rb \<le> rb_head rb")
    case True
    then have g: "get_size rb n = (let sz = rb_head rb - rb_tail rb in if n < sz then n else sz)"
      by (simp add: get_size_def user_rb_unread_size_def)
    show ?thesis
      using assms True
      by (auto simp: user_rb_get_def g adv Let_def bind_eq_Some_conv memcpy_defined split: if_splits)
  next
    case False
    then have g: "get_size rb n = (let sz = rb_size rb + rb_head rb - rb_tail rb in if n < sz then n else sz)"
      by (simp add: get_size_def user_rb_unread_size_def)
    show ?thesis
      using assms False
      by (auto simp: user_rb_get_def g adv Let_def bind_eq_Some_conv memcpy_defined split: if_splits)
  qed
qed

lemma put_any:
  assumes "user_rb_put rb src n m = Some (sz, rb', m')"
  shows "sz = put_size rb n \<and> rb' = rb\<lparr>rb_head := advanced rb (rb_head rb) (put_size rb n)\<rparr>
    \<and> (\<forall>a. (m' a = None) = (m a = None))"
proof -
  have adv: "advanced rb (rb_head rb) z = (let t = rb_head rb + z in if rb_size rb \<le> t then t - rb_size rb else t)" for z
    by (simp add: advanced_def Let_def)
  show ?thesis
  proof (cases "rb_tail rb \<le> rb_head rb")
    case True
    then have g: "put_size rb n = (let sz = rb_size rb + rb_tail rb - rb_head rb in if n < sz then n else sz)"
      by (simp add: put_size_def)
    show ?thesis
      using assms True
      by (auto simp: user_rb_put_def g adv Let_def bind_eq_Some_conv memcpy_defined split: if_splits)
  next
    case False
    then have g: "put_size rb n = (let sz = rb_tail rb - rb_head rb in if n < sz then n else sz)"
      by (simp add: put_size_def)
    show ?thesis
      using assms False
      by (auto simp: user_rb_put_def g adv Let_def bind_eq_Some_conv memcpy_defined split: if_splits)
  qed
qed

lemma get_keeps_inv:
  assumes "rb_inv rb m" "user_rb_get rb des n m = Some (sz, rb', m')"
  shows "rb_inv rb' m' \<and> rb_pbuf rb' = rb_pbuf rb \<and> rb_size rb' = rb_size rb"
proof -
  note g = get_any [OF assms(2)]
  have le: "unat (get_size rb n) \<le> unat (rb_size rb)"
    using unat_get_size [OF assms(1)] rb_used_less [OF assms(1)] by simp
  have "unat (advanced rb (rb_tail rb) (get_size rb n)) < unat (rb_size rb)"
    using unat_advanced [OF assms(1) _ le, of "rb_tail rb"] rb_inv_nat(1) [OF assms(1)] assms(1)
    by (simp add: rb_inv_def)
  with g rb_inv_get [OF assms(1)] show ?thesis by simp
qed

lemma put_keeps_inv:
  assumes "rb_inv rb m" "user_rb_put rb src n m = Some (sz, rb', m')"
  shows "rb_inv rb' m' \<and> rb_pbuf rb' = rb_pbuf rb \<and> rb_size rb' = rb_size rb"
proof -
  note g = put_any [OF assms(2)]
  have le: "unat (put_size rb n) \<le> unat (rb_size rb)"
    using unat_put_size [OF assms(1)] by simp
  have "unat (advanced rb (rb_head rb) (put_size rb n)) < unat (rb_size rb)"
    using unat_advanced [OF assms(1) _ le, of "rb_head rb"] rb_inv_nat(1) [OF assms(1)] assms(1)
    by (simp add: rb_inv_def)
  with g rb_inv_put [OF assms(1)] show ?thesis by simp
qed

section \<open>The invariant of the client\<close>

definition tcp_inv :: "'a tcp_scheme \<Rightarrow> bool" where
  "tcp_inv s \<longleftrightarrow> reconn_cnt s \<le> 5 \<and> \<not> (flag_dns_discovery s \<and> isDnsFound s)
     \<and> rb_inv (tcp_rb_send s) (ram s) \<and> rb_pbuf (tcp_rb_send s) = tcp_send_buffer s
     \<and> rb_size (tcp_rb_send s) = TCP_SEND_BUFFER_SIZE"

named_theorems tcp_frame \<open>calls leave the client's state alone\<close>

lemma call_tcp [tcp_frame]:
  "reconn_cnt (call c s) = reconn_cnt s" "flag_dns_discovery (call c s) = flag_dns_discovery s"
  "isDnsFound (call c s) = isDnsFound s" "isConnectServer (call c s) = isConnectServer s"
  "tcp_rb_send (call c s) = tcp_rb_send s" "tcp_send_buffer (call c s) = tcp_send_buffer s"
  "smartconfig_status (call c s) = smartconfig_status s" "user_config (call c s) = user_config s"
  "proto_tcp (call c s) = proto_tcp s"
  by (simp_all add: call_def)

lemma ask_tcp [tcp_frame]:
  "reconn_cnt (snd (ask q s)) = reconn_cnt s" "flag_dns_discovery (snd (ask q s)) = flag_dns_discovery s"
  "isDnsFound (snd (ask q s)) = isDnsFound s" "isConnectServer (snd (ask q s)) = isConnectServer s"
  "tcp_rb_send (snd (ask q s)) = tcp_rb_send s" "tcp_send_buffer (snd (ask q s)) = tcp_send_buffer s"
  by (simp_all add: ask_def)

lemmas timer_defs = os_timer_disarm_def os_timer_setfn_def os_timer_arm_def

lemma tcp_inv_call [tcp_frame]: "tcp_inv (call c s) = tcp_inv s"
  by (simp add: tcp_inv_def tcp_frame reg_simps)

lemma tcp_inv_ask [tcp_frame]: "tcp_inv (snd (ask q s)) = tcp_inv s"
  by (simp add: tcp_inv_def tcp_frame reg_simps)

lemma reconnect_inv: "tcp_inv s \<Longrightarrow> tcp_inv (user_tcp_reconnect s)"
proof -
  assume inv: "tcp_inv s"
  have "reconn_cnt s + 1 \<le> 5" if "\<not> 5 < reconn_cnt s + 1" using that by simp
  with inv show ?thesis
    by (auto simp: user_tcp_reconnect_def Let_def tcp_inv_def tcp_frame reg_simps)
qed

lemma send_pipe_inv:
  assumes "tcp_inv s" "user_tcp_send_pipe p n s = Some s'"
  shows "tcp_inv s'"
  using assms put_keeps_inv [of "tcp_rb_send s" "ram s" p "ucast n"]
  by (auto simp: user_tcp_send_pipe_def tcp_inv_def bind_eq_Some_conv split: if_splits)

lemma gpio_tcp [tcp_frame]:
  "tcp_inv (GPIO_OUTPUT_SET g v s) = tcp_inv s"
  "tcp_inv (snd (GPIO_INPUT_GET g s)) = tcp_inv s"
  by (simp_all add: GPIO_OUTPUT_SET_def GPIO_INPUT_GET_def case_prod_beta tcp_frame)

definition led_toggled :: "'a tcp_scheme \<Rightarrow> 'a tcp_scheme" where
  "led_toggled s = (if fst (GPIO_INPUT_GET 12 s) \<noteq> 0 then GPIO_OUTPUT_SET 12 0 (snd (GPIO_INPUT_GET 12 s))
     else GPIO_OUTPUT_SET 12 1 (snd (GPIO_INPUT_GET 12 s)))"

definition send_ring :: "u32 \<Rightarrow> 'a tcp_scheme \<Rightarrow> 'a tcp_scheme option" where
  "send_ring n s =
     do { (_, rb, m) \<leftarrow> user_rb_get (tcp_rb_send s) (tcp_send_buffer s) n (ram s);
          if valid_range m (tcp_send_buffer s) (unat n)
          then Some (call (Xlink (XlinkSendTcpPipe2 (bytes_at m (tcp_send_buffer s) (unat n))))
                      (s\<lparr>tcp_rb_send := rb, ram := m\<rparr>))
          else None }"

lemma send_loop_unfold:
  "user_tcp_send_loop s =
     (if isConnectServer s \<and> user_rb_unread_size (tcp_rb_send s) \<noteq> 0
      then send_ring (user_rb_unread_size (tcp_rb_send s)) (led_toggled s) else Some s)"
proof -
  have t: "tcp_send_buffer (s\<lparr>tcp_rb_send := rb, ram := m\<rparr>) = tcp_send_buffer s" for s :: "'a tcp_scheme" and rb m
    by simp
  show ?thesis
    unfolding user_tcp_send_loop_def send_ring_def led_toggled_def Let_def case_prod_beta t by simp
qed

lemma led_fields:
  "tcp_rb_send (led_toggled s) = tcp_rb_send s" "tcp_send_buffer (led_toggled s) = tcp_send_buffer s"
  "ram (led_toggled s) = ram s" "tcp_inv (led_toggled s) = tcp_inv s"
  by (simp_all add: led_toggled_def GPIO_OUTPUT_SET_def GPIO_INPUT_GET_def case_prod_beta tcp_frame reg_simps)

lemma send_loop_inv:
  assumes "tcp_inv s" "user_tcp_send_loop s = Some s'"
  shows "tcp_inv s'"
proof (cases "isConnectServer s \<and> user_rb_unread_size (tcp_rb_send s) \<noteq> 0")
  case False
  then show ?thesis using assms by (auto simp: send_loop_unfold)
next
  case True
  let ?s = "led_toggled s"
  have "send_ring (user_rb_unread_size (tcp_rb_send s)) ?s = Some s'"
    using assms(2) True by (simp add: send_loop_unfold)
  then obtain sz rb m c where get: "user_rb_get (tcp_rb_send ?s) (tcp_send_buffer ?s)
        (user_rb_unread_size (tcp_rb_send s)) (ram ?s) = Some (sz, rb, m)"
    and s': "s' = call c (?s\<lparr>tcp_rb_send := rb, ram := m\<rparr>)"
    by (auto simp: send_ring_def bind_eq_Some_conv split: if_splits)
  have inv: "tcp_inv ?s" using assms(1) by (simp add: led_fields)
  then have "rb_inv (tcp_rb_send ?s) (ram ?s)" by (simp add: tcp_inv_def)
  from get_keeps_inv [OF this get] inv s' show ?thesis
    by (auto simp: tcp_inv_def tcp_frame reg_simps)
qed

lemma dns_found_inv: "tcp_inv s \<Longrightarrow> user_tcp_dns_found ip s = Some s' \<Longrightarrow> tcp_inv s'"
  by (auto simp: user_tcp_dns_found_def Let_def tcp_inv_def tcp_frame reg_simps timer_defs
      split: option.splits if_splits)

lemma tcp_inv_server [simp]: "tcp_inv (s\<lparr>isConnectServer := b\<rparr>) = tcp_inv s"
  by (simp add: tcp_inv_def)

lemma status_inv: "tcp_inv s \<Longrightarrow> tcp_inv (user_tcp_status st s)"
  by (cases st) (simp_all add: user_tcp_status_def reconnect_inv)

lemma connect_inv: "tcp_inv s \<Longrightarrow> tcp_inv (user_tcp_connect_cb s)"
  by (simp add: user_tcp_connect_cb_def Let_def tcp_inv_def tcp_frame reg_simps)

lemma disconnect_inv: "tcp_inv s \<Longrightarrow> tcp_inv (user_tcp_disconnect_cb s)"
  by (simp add: user_tcp_disconnect_cb_def Let_def reconnect_inv tcp_frame)

text \<open>
  The library's callbacks: status changes, received pipe data, data to send. What the pipe
  callback does with the data does not concern the client.
\<close>

definition same_tcp :: "'a tcp_scheme \<Rightarrow> 'a tcp_scheme \<Rightarrow> bool" where
  "same_tcp s s' \<longleftrightarrow> reconn_cnt s' = reconn_cnt s \<and> flag_dns_discovery s' = flag_dns_discovery s
     \<and> isDnsFound s' = isDnsFound s \<and> isConnectServer s' = isConnectServer s
     \<and> tcp_rb_send s' = tcp_rb_send s \<and> tcp_send_buffer s' = tcp_send_buffer s
     \<and> (\<forall>a. tcp_send_buffer s \<le> a \<and> a < tcp_send_buffer s + 1024 \<longrightarrow> ram s' a = ram s a)"

lemma same_tcp_inv:
  assumes "tcp_inv s" "same_tcp s s'"
  shows "tcp_inv s'"
  using assms by (auto simp: tcp_inv_def same_tcp_def rb_inv_def valid_range_iff)

inductive sdk_step :: "'a tcp_scheme \<Rightarrow> 'a tcp_scheme \<Rightarrow> bool" where
  status: "sdk_step s (user_tcp_status st s)"
| send: "user_tcp_send p n s = Some (k, s') \<Longrightarrow> sdk_step s s'"
| elsewhere: "same_tcp s s' \<Longrightarrow> sdk_step s s'"

inductive tcp_step :: "'a tcp_scheme \<Rightarrow> 'a tcp_scheme \<Rightarrow> bool" where
  sdk: "sdk_step s s' \<Longrightarrow> tcp_step s s'"
| dns_found: "user_tcp_dns_found ip s = Some s' \<Longrightarrow> tcp_step s s'"
| dns_check: "tcp_step s (user_tcp_dns_check_cb s)"
| connected: "tcp_step s (user_tcp_connect_cb s)"
| disconnected: "tcp_step s (user_tcp_disconnect_cb s)"
| reconnect: "tcp_step s (user_tcp_reconnect_cb s)"
| recv: "user_tcp_recv_cb p n s = Some s' \<Longrightarrow> tcp_step s s'"
| send_pipe: "user_tcp_send_pipe p n s = Some s' \<Longrightarrow> tcp_step s s'"
| disconnect: "tcp_step s (user_tcp_disconnect s)"
| process: "(\<And>t t'. sdk_loop t = Some t' \<Longrightarrow> sdk_step\<^sup>*\<^sup>* t t') \<Longrightarrow>
     user_tcp_func_process sdk_loop s = Some s' \<Longrightarrow> tcp_step s s'"

lemma sdk_step_inv: "sdk_step s s' \<Longrightarrow> tcp_inv s \<Longrightarrow> tcp_inv s'"
  by (induction rule: sdk_step.induct)
    (auto simp: status_inv user_tcp_send_def tcp_frame same_tcp_inv split: if_splits)

lemma sdk_steps_inv: "sdk_step\<^sup>*\<^sup>* s s' \<Longrightarrow> tcp_inv s \<Longrightarrow> tcp_inv s'"
  by (induction rule: rtranclp_induct) (auto intro: sdk_step_inv)

lemma start_dns_inv:
  "tcp_inv s \<Longrightarrow> \<not> isDnsFound s \<Longrightarrow> tcp_inv (user_tcp_start_dns (s\<lparr>flag_dns_discovery := True, reconn_cnt := 0\<rparr>))"
  by (simp add: user_tcp_start_dns_def Let_def timer_defs tcp_inv_def tcp_frame reg_simps)

lemma func_process_inv:
  assumes "tcp_inv s" "\<And>t t'. sdk_loop t = Some t' \<Longrightarrow> sdk_step\<^sup>*\<^sup>* t t'"
    and "user_tcp_func_process sdk_loop s = Some s'"
  shows "tcp_inv s'"
proof -
  define s2 where "s2 = snd (ask wifi_get_opmode (snd (ask system_get_time s)))"
  define s4 where "s4 = snd (ask wifi_get_ip_info_ip (snd (ask wifi_station_get_connect_status s2)))"
  have inv: "tcp_inv s2" "tcp_inv s4" using assms(1) by (simp_all add: s2_def s4_def tcp_frame)
  define s5 where "s5 = (if flag_dns_discovery s4 = False \<and> isDnsFound s4 = False
      then user_tcp_start_dns (s4\<lparr>flag_dns_discovery := True, reconn_cnt := 0\<rparr>) else s4)"
  have inv5: "tcp_inv s5" using inv(2) start_dns_inv by (auto simp: s5_def)
  have reset: "tcp_inv (s2\<lparr>reconn_cnt := 0, isConnectServer := False, flag_dns_discovery := False, isDnsFound := False\<rparr>)"
    using inv(1) by (simp add: tcp_inv_def)
  consider "s' = s2\<lparr>reconn_cnt := 0, isConnectServer := False, flag_dns_discovery := False, isDnsFound := False\<rparr>"
    | "s' = s4" | t c where "sdk_loop (call c s5) = Some t" "user_tcp_send_loop t = Some s'"
    using assms(3)
    by (auto simp: user_tcp_func_process_def Let_def case_prod_beta s2_def s4_def s5_def
        bind_eq_Some_conv split: if_splits)
  then show ?thesis
  proof cases
    case 3
    then have "tcp_inv t" using inv5 sdk_steps_inv [OF assms(2)] by (auto simp: tcp_frame)
    then show ?thesis using send_loop_inv 3 by blast
  qed (use reset inv in simp_all)
qed

lemma recv_inv: "tcp_inv s \<Longrightarrow> user_tcp_recv_cb p n s = Some s' \<Longrightarrow> tcp_inv s'"
  by (auto simp: user_tcp_recv_cb_def tcp_frame split: if_splits)

lemma tcp_step_inv:
  assumes "tcp_step s s'" "tcp_inv s"
  shows "tcp_inv s'"
  using assms
proof (cases rule: tcp_step.cases)
  case sdk
  then show ?thesis using sdk_step_inv assms(2) by blast
next
  case dns_found
  then show ?thesis using dns_found_inv assms(2) by blast
next
  case dns_check
  then show ?thesis using assms(2) by (simp add: user_tcp_dns_check_cb_def tcp_frame)
next
  case connected
  then show ?thesis using assms(2) by (simp add: connect_inv)
next
  case disconnected
  then show ?thesis using assms(2) by (simp add: disconnect_inv)
next
  case reconnect
  then show ?thesis using assms(2) by (simp add: user_tcp_reconnect_cb_def reconnect_inv)
next
  case recv
  then show ?thesis using recv_inv assms(2) by blast
next
  case send_pipe
  then show ?thesis using send_pipe_inv assms(2) by blast
next
  case disconnect
  then show ?thesis using assms(2) by (simp add: user_tcp_disconnect_def tcp_frame)
next
  case (process sdk_loop)
  then show ?thesis using func_process_inv assms(2) by blast
qed

lemma tcp_steps_inv: "tcp_step\<^sup>*\<^sup>* s s' \<Longrightarrow> tcp_inv s \<Longrightarrow> tcp_inv s'"
  by (induction rule: rtranclp_induct) (auto intro: tcp_step_inv)

section \<open>The ring shares its storage with the destination\<close>

text \<open>The unread data lies in one piece, and far enough from the start.\<close>

lemma send_linear:
  assumes inv: "tcp_inv s" and on: "isConnectServer s"
    and lin: "rb_tail (tcp_rb_send s) < rb_head (tcp_rb_send s)"
    and room: "rb_used (tcp_rb_send s) \<le> unat (rb_tail (tcp_rb_send s))"
  shows "\<exists>s'. user_tcp_send_loop s = Some (call (Xlink (XlinkSendTcpPipe2 (rb_unread (tcp_rb_send s) (ram s)))) s')
    \<and> rb_used (tcp_rb_send s') = 0"
proof -
  let ?rb = "tcp_rb_send s" and ?s = "led_toggled s"
  let ?B = "tcp_send_buffer s" and ?T = "unat (rb_tail ?rb)" and ?n = "user_rb_unread_size ?rb"
  have ri: "rb_inv ?rb (ram s)" and B: "rb_pbuf ?rb = ?B" using inv by (auto simp: tcp_inv_def)
  note nat = rb_inv_nat [OF ri]
  have un: "unat ?n = rb_used ?rb" by (rule unat_unread_size [OF ri])
  have used: "rb_used ?rb = unat (rb_head ?rb) - ?T" "0 < rb_used ?rb"
    using lin rb_used_cases [OF ri] by (auto simp: word_less_nat_alt word_le_nat_alt)
  have n0: "?n \<noteq> 0" using used(2) un by auto
  have gs: "get_size ?rb ?n = ?n" by (simp add: get_size_def)
  have vB: "valid_range (ram s) ?B (unat (rb_size ?rb))" using ri B by (simp add: rb_inv_def)
  have cp: "valid_range (ram s) ?B (rb_used ?rb)" "valid_range (ram s) (?B + ?T) (rb_used ?rb)"
      "disjoint_ranges ?B (rb_used ?rb) (?B + ?T) (rb_used ?rb)"
    using valid_range_sub [OF vB, of 0 "rb_used ?rb"] valid_range_sub [OF vB, of ?T "rb_used ?rb"] used nat room
    by (auto simp: disjoint_ranges_def)
  obtain m where m: "memcpy ?B (?B + ?T) (rb_used ?rb) (ram s) = Some m" using memcpy_Some [OF cp] by blast
  have get: "user_rb_get ?rb ?B ?n (ram s) =
      Some (?n, ?rb\<lparr>rb_tail := advanced ?rb (rb_tail ?rb) ?n\<rparr>, m)"
    using user_rb_get_one [of ?B ?rb ?n "ram s" m] m lin by (simp add: gs un B)
  have "bytes_at m ?B (rb_used ?rb) = rb_unread ?rb (ram s)"
  proof -
    have "bytes_at m ?B (rb_used ?rb) = bytes_at (ram s) (?B + ?T) (rb_used ?rb)"
      by (rule bytes_at_memcpy_dst [OF m])
    also have "\<dots> = rb_unread ?rb (ram s)"
      using used nat by (intro nth_equalityI) (auto simp: rb_unread_def rb_slot_def B add.assoc)
    finally show ?thesis .
  qed
  moreover have "valid_range m ?B (rb_used ?rb)" using cp(1) valid_range_memcpy [OF m] by simp
  ultimately have "user_tcp_send_loop s = Some (call (Xlink (XlinkSendTcpPipe2 (rb_unread ?rb (ram s))))
      (?s\<lparr>tcp_rb_send := ?rb\<lparr>rb_tail := advanced ?rb (rb_tail ?rb) ?n\<rparr>, ram := m\<rparr>))"
    using on n0 get by (simp add: send_loop_unfold send_ring_def led_fields un)
  moreover have "rb_used (?rb\<lparr>rb_tail := advanced ?rb (rb_tail ?rb) ?n\<rparr>) = 0"
  proof -
    have "unat (advanced ?rb (rb_tail ?rb) ?n) = (?T + rb_used ?rb) mod unat (rb_size ?rb)"
      using unat_advanced [OF ri, of "rb_tail ?rb" ?n] ri un rb_used_less [OF ri] by (simp add: rb_inv_def)
    from rb_used_get [OF ri this] show ?thesis by simp
  qed
  ultimately show ?thesis by (intro exI) (auto simp: tcp_frame)
qed

text \<open>The unread data wraps: the second copy reads what the first one has just written.\<close>

lemma send_wrapped:
  assumes inv: "tcp_inv s" and on: "isConnectServer s"
  defines "rb \<equiv> tcp_rb_send s"
  defines "B \<equiv> tcp_send_buffer s" and "H \<equiv> unat (rb_head rb)" and "T \<equiv> unat (rb_tail rb)"
  defines "r \<equiv> 1024 - T"
  assumes wrap: "0 < H" "H \<le> r" "r \<le> T" "H < T"
  shows "rb_unread rb (ram s) = bytes_at (ram s) (B + T) r @ bytes_at (ram s) B H
    \<and> (\<exists>s'. user_tcp_send_loop s =
        Some (call (Xlink (XlinkSendTcpPipe2 (bytes_at (ram s) (B + T) r @ bytes_at (ram s) (B + T) H))) s'))"
proof -
  let ?n = "user_rb_unread_size rb"
  have ri: "rb_inv rb (ram s)" and B: "rb_pbuf rb = B" and S: "rb_size rb = 1024"
    using inv by (auto simp: tcp_inv_def rb_def B_def)
  have nat: "H < 1024" "T < 1024" using rb_inv_nat [OF ri] S by (auto simp: H_def T_def)
  have lt: "rb_head rb < rb_tail rb" "\<not> rb_tail rb \<le> rb_head rb"
    using wrap(4) by (auto simp: word_less_nat_alt word_le_nat_alt H_def T_def)
  have used: "rb_used rb = r + H"
    using rb_used_cases [OF ri] lt S nat wrap by (simp add: H_def [symmetric] T_def [symmetric] r_def)
  have un: "unat ?n = r + H" using unat_unread_size [OF ri] used by simp
  have n0: "?n \<noteq> 0" using un wrap by auto
  have gs: "get_size rb ?n = ?n" by (simp add: get_size_def)
  have rz: "unat (rb_size rb - rb_tail rb) = r"
    using S nat lt ri by (simp add: r_def T_def unat_sub_u32 rb_inv_def word_le_nat_alt word_less_nat_alt)
  have gt: "\<not> ?n \<le> rb_size rb - rb_tail rb" using un rz wrap by (simp add: word_le_nat_alt)
  have d: "unat (?n - (rb_size rb - rb_tail rb)) = H" using gt un rz by (simp add: unat_sub_u32)
  have vB: "valid_range (ram s) B 1024" using ri B S by (simp add: rb_inv_def)
  have cp1: "valid_range (ram s) B r" "valid_range (ram s) (B + T) r" "disjoint_ranges B r (B + T) r"
    using valid_range_sub [OF vB, of 0 r] valid_range_sub [OF vB, of T r] nat wrap
    by (auto simp: disjoint_ranges_def r_def)
  obtain m1 where m1: "memcpy B (B + T) r (ram s) = Some m1" using memcpy_Some [OF cp1] by blast
  have cp2: "valid_range m1 (B + r) H" "valid_range m1 B H" "disjoint_ranges (B + r) H B H"
    using valid_range_sub [OF vB, of r H] valid_range_sub [OF vB, of 0 H] nat wrap
    by (auto simp: disjoint_ranges_def valid_range_memcpy [OF m1] r_def)
  obtain m2 where m2: "memcpy (B + r) B H m1 = Some m2" using memcpy_Some [OF cp2] by blast
  have get: "user_rb_get rb B ?n (ram s) = Some (?n, rb\<lparr>rb_tail := advanced rb (rb_tail rb) ?n\<rparr>, m2)"
    using user_rb_get_two [OF lt(2), of ?n B "ram s" m1 m2] m1 m2 gt
    by (simp add: gs B rz d T_def)
  have part1: "bytes_at m2 B r = bytes_at (ram s) (B + T) r"
    using bytes_at_memcpy_frame [OF m2, of B r] bytes_at_memcpy_dst [OF m1] by (simp add: disjoint_ranges_def)
  have part2: "bytes_at m2 (B + r) H = bytes_at (ram s) (B + T) H"
  proof -
    have "bytes_at m2 (B + r) H = bytes_at m1 B H" by (rule bytes_at_memcpy_dst [OF m2])
    also have "\<dots> = take H (bytes_at m1 B r)" using wrap by (simp add: take_bytes_at)
    also have "\<dots> = take H (bytes_at (ram s) (B + T) r)" by (simp add: bytes_at_memcpy_dst [OF m1])
    also have "\<dots> = bytes_at (ram s) (B + T) H" using wrap by (simp add: take_bytes_at)
    finally show ?thesis .
  qed
  have sent: "bytes_at m2 B (r + H) = bytes_at (ram s) (B + T) r @ bytes_at (ram s) (B + T) H"
    by (simp add: bytes_at_append part1 part2)
  have "valid_range m2 B (r + H)"
    using valid_range_sub [OF vB, of 0 "r + H"] nat wrap
    by (simp add: valid_range_memcpy [OF m2] valid_range_memcpy [OF m1] r_def)
  then have "user_tcp_send_loop s = Some (call (Xlink (XlinkSendTcpPipe2 (bytes_at m2 B (r + H))))
      ((led_toggled s)\<lparr>tcp_rb_send := rb\<lparr>rb_tail := advanced rb (rb_tail rb) ?n\<rparr>, ram := m2\<rparr>))"
    using on n0 get by (simp add: send_loop_unfold send_ring_def led_fields un flip: rb_def B_def)
  moreover have "rb_unread rb (ram s) = bytes_at (ram s) (B + T) r @ bytes_at (ram s) B H"
  proof (rule nth_equalityI)
    fix i assume "i < length (rb_unread rb (ram s))"
    then have i: "i < r + H" using used by simp
    have "rb_slot rb (rb_tail rb) i = (if i < r then B + T + i else B + (i - r))"
      using i nat wrap S by (auto simp: rb_slot_def B T_def [symmetric] r_def mod_if)
    then show "rb_unread rb (ram s) ! i = (bytes_at (ram s) (B + T) r @ bytes_at (ram s) B H) ! i"
      using i used by (auto simp: rb_unread_def nth_append)
  qed (simp add: used)
  ultimately show ?thesis using sent by auto
qed

section \<open>Reconnection\<close>

lemma reconnect_step:
  assumes "\<not> smartconfig_status s" "reconn_cnt s < 5"
  shows "user_tcp_reconnect s =
     call (Net (Espconn_connect user_tcp_client_conn))
       (call (Net (Espconn_disconnect user_tcp_client_conn)) (s\<lparr>reconn_cnt := reconn_cnt s + 1\<rparr>))"
proof -
  have "\<not> 5 < reconn_cnt s + 1"
    using assms(2) by (simp add: word_less_nat_alt unat_plus_if')
  with assms(1) show ?thesis
    by (simp add: user_tcp_reconnect_def user_smartconfig_status_def Let_def tcp_frame)
qed

lemma reconnect_iter:
  assumes "\<not> smartconfig_status s" "reconn_cnt s = 0" "k \<le> 5"
  shows "\<exists>c. (user_tcp_reconnect ^^ k) s = s\<lparr>reconn_cnt := of_nat k, clk := c,
      log := log s @ concat (replicate k [Call (Net (Espconn_disconnect user_tcp_client_conn)),
                                          Call (Net (Espconn_connect user_tcp_client_conn))])\<rparr>"
  using assms(3)
proof (induction k)
  case 0
  show ?case using assms(2) by (intro exI [of _ "clk s"]) simp
next
  case (Suc k)
  let ?L = "\<lambda>k. log s @ concat (replicate k [Call (Net (Espconn_disconnect user_tcp_client_conn)),
                                          Call (Net (Espconn_connect user_tcp_client_conn))])"
  obtain c where IH: "(user_tcp_reconnect ^^ k) s = s\<lparr>reconn_cnt := of_nat k, clk := c, log := ?L k\<rparr>"
    using Suc by auto
  let ?s = "s\<lparr>reconn_cnt := of_nat k, clk := c, log := ?L k\<rparr>"
  have "(of_nat k :: u8) < 5" using Suc.prems by (simp add: word_less_nat_alt unat_of_nat take_bit_nat_eq_self)
  then have "user_tcp_reconnect ?s =
     call (Net (Espconn_connect user_tcp_client_conn))
       (call (Net (Espconn_disconnect user_tcp_client_conn)) (?s\<lparr>reconn_cnt := reconn_cnt ?s + 1\<rparr>))"
    using assms(1) by (intro reconnect_step) simp_all
  also have "\<dots> = s\<lparr>reconn_cnt := of_nat (Suc k), clk := Suc (Suc c), log := ?L (Suc k)\<rparr>"
    by (simp add: call_def replicate_append_same [symmetric] ac_simps)
  finally show ?case using IH by auto
qed

section \<open>Example state\<close>

definition demo_tcp :: "u32 \<Rightarrow> u32 \<Rightarrow> tcp" where
  "demo_tcp h t = \<lparr>regs = (\<lambda>a. 0), dev = (\<lambda>n r. r), sdk_ret = (\<lambda>n q. of_nat n), junk = (\<lambda>n a. 0),
     clk = 0, log = [],
     ram = (\<lambda>a. if 5000 \<le> a \<and> a < 6024 \<or> 8000 \<le> a \<and> a < 8016 then Some (of_nat a) else None), blocks = (\<lambda>a. None),
     uart0_rx_cb = None, uart0_tx_empty_cb = None, uart1_tx_empty_cb = None,
     crc = \<lparr>crcH = 0, crcL = 0, idx = 0\<rparr>, modbus_rx_buffer = \<lparr>rxb_buffer = 8000, rxb_len = 0\<rparr>,
     modbus_recv_frame_cb = None, smartconfig_status = False, sc_timeout = 60000,
     user_config = \<lparr>maclen = 6, mac = [], in_internet = 1, wifisoftVersion = 1, wifi_type = 1, pipetype = 1,
       devicetype = 0, callbacks_set = True, setServerStatus = True, process_udp_data = True,
       process_tcp_data = True\<rparr>,
     tcp_send_buffer = 5000, tcp_type = ESPCONN_TCP, tcp_state = ESPCONN_NONE, proto_tcp = None,
     tcp_rb_send = \<lparr>rb_pbuf = 5000, rb_head = h, rb_tail = t, rb_size = 1024, rb_lock = False\<rparr>,
     reconn_cnt = 0, isConnectServer = True, flag_dns_discovery = False, isDnsFound = True,
     remote_ip = 1, user_tcp_recv_pipe_cb = None\<rparr>"

lemma demo_tcp_inv: "h < 1024 \<Longrightarrow> t < 1024 \<Longrightarrow> tcp_inv (demo_tcp h t)"
  by (auto simp: tcp_inv_def demo_tcp_def rb_inv_def valid_range_iff)

lemma demo_tcp_fields:
  "isConnectServer (demo_tcp h t)" "rb_head (tcp_rb_send (demo_tcp h t)) = h"
  "rb_tail (tcp_rb_send (demo_tcp h t)) = t" "tcp_send_buffer (demo_tcp h t) = 5000"
  "\<not> smartconfig_status (demo_tcp h t)" "reconn_cnt (demo_tcp h t) = 0"
  by (simp_all add: demo_tcp_def)

section \<open>Properties\<close>

text \<open>C4. Whatever happens to the client, in any order (status callbacks, DNS answers, connects,
  disconnects, errors, received data, frames to send, the periodic process with any activity
  of the library inside it), the reconnect counter stays at most 5, a lookup is never in
  progress while an address is already known, and the send ring stays well formed.\<close>

theorem tcp_client_invariant:
  assumes "tcp_step\<^sup>*\<^sup>* s s'" "tcp_inv s"
  shows "reconn_cnt s' \<le> 5 \<and> \<not> (flag_dns_discovery s' \<and> isDnsFound s')
    \<and> rb_inv (tcp_rb_send s') (ram s') \<and> rb_size (tcp_rb_send s') = 1024"
  using tcp_steps_inv [OF assms] by (simp add: tcp_inv_def)

theorem tcp_client_invariant_witness:
  "reconn_cnt (user_tcp_reconnect_cb (demo_tcp 3 2)) \<le> 5 \<and>
   rb_inv (tcp_rb_send (user_tcp_reconnect_cb (demo_tcp 3 2))) (ram (user_tcp_reconnect_cb (demo_tcp 3 2)))"
  using tcp_client_invariant [of "demo_tcp 3 2" "user_tcp_reconnect_cb (demo_tcp 3 2)"]
  by (simp add: r_into_rtranclp tcp_step.reconnect demo_tcp_inv)

text \<open>Frames that lie in the ring in one piece, not nearer to its start than their length, are sent to
  the server unchanged and in order, and the ring is empty afterwards.\<close>

theorem user_tcp_send_loop_linear:
  assumes "tcp_inv s" "isConnectServer s" "rb_tail (tcp_rb_send s) < rb_head (tcp_rb_send s)"
    and "rb_used (tcp_rb_send s) \<le> unat (rb_tail (tcp_rb_send s))"
  shows "\<exists>s'. user_tcp_send_loop s = Some (call (Xlink (XlinkSendTcpPipe2 (rb_unread (tcp_rb_send s) (ram s)))) s')
    \<and> rb_used (tcp_rb_send s') = 0"
  using send_linear [OF assms] by blast

theorem user_tcp_send_loop_linear_witness:
  "\<exists>s'. user_tcp_send_loop (demo_tcp 5 3) =
     Some (call (Xlink (XlinkSendTcpPipe2 (rb_unread (tcp_rb_send (demo_tcp 5 3)) (ram (demo_tcp 5 3))))) s')
    \<and> rb_used (tcp_rb_send s') = 0"
proof (rule user_tcp_send_loop_linear)
  show "rb_used (tcp_rb_send (demo_tcp 5 3)) \<le> unat (rb_tail (tcp_rb_send (demo_tcp 5 3)))"
    by (simp add: demo_tcp_def rb_used_def)
qed (simp_all add: demo_tcp_inv demo_tcp_fields)

text \<open>C20. Frames that wrap around the end of the ring are sent wrong: the part at the start of the storage is
  overwritten before it is read, so its place is taken by a repetition of the bytes from the
  end (for every wrapped state whose two parts fit as stated).\<close>

theorem user_tcp_send_loop_wrapped_repeats:
  assumes "tcp_inv s" "isConnectServer s"
    and "B = tcp_send_buffer s" "H = unat (rb_head (tcp_rb_send s))" "T = unat (rb_tail (tcp_rb_send s))"
    and "0 < H" "H \<le> 1024 - T" "1024 - T \<le> T" "H < T"
  shows "rb_unread (tcp_rb_send s) (ram s) = bytes_at (ram s) (B + T) (1024 - T) @ bytes_at (ram s) B H
    \<and> (\<exists>s'. user_tcp_send_loop s =
        Some (call (Xlink (XlinkSendTcpPipe2
          (bytes_at (ram s) (B + T) (1024 - T) @ bytes_at (ram s) (B + T) H))) s'))"
  using send_wrapped [OF assms(1,2)] assms(3-) by simp

theorem user_tcp_send_loop_wrapped_repeats_witness:
  "\<exists>s'. user_tcp_send_loop (demo_tcp 2 1020) = Some (call (Xlink (XlinkSendTcpPipe2
       (bytes_at (ram (demo_tcp 2 1020)) (5000 + 1020) (1024 - 1020) @ bytes_at (ram (demo_tcp 2 1020)) (5000 + 1020) 2))) s')"
proof -
  have "tcp_inv (demo_tcp 2 1020)" by (rule demo_tcp_inv) simp_all
  moreover have "2 = unat (rb_head (tcp_rb_send (demo_tcp 2 1020)))"
    "1020 = unat (rb_tail (tcp_rb_send (demo_tcp 2 1020)))" by (simp_all add: demo_tcp_fields)
  ultimately show ?thesis
    using user_tcp_send_loop_wrapped_repeats [of "demo_tcp 2 1020" 5000 2 1020,
        OF _ demo_tcp_fields(1) demo_tcp_fields(4) [symmetric], THEN conjunct2] by (auto simp only:)
qed

text \<open>C21. Five failures in a row lead to five attempts to reconnect to the same address; the sixth gives the
  address up and lets the next round of the periodic process start a new DNS lookup.\<close>

theorem user_tcp_reconnect_limit:
  assumes "\<not> smartconfig_status s" "reconn_cnt s = 0"
  shows "log ((user_tcp_reconnect ^^ 5) s) = log s @
       concat (replicate 5 [Call (Net (Espconn_disconnect user_tcp_client_conn)),
                            Call (Net (Espconn_connect user_tcp_client_conn))])
     \<and> isDnsFound ((user_tcp_reconnect ^^ 5) s) = isDnsFound s
     \<and> log ((user_tcp_reconnect ^^ 6) s) = log ((user_tcp_reconnect ^^ 5) s) @
         [Call (Net (Espconn_disconnect user_tcp_client_conn))]
     \<and> reconn_cnt ((user_tcp_reconnect ^^ 6) s) = 0 \<and> \<not> isDnsFound ((user_tcp_reconnect ^^ 6) s)
     \<and> \<not> flag_dns_discovery ((user_tcp_reconnect ^^ 6) s) \<and> \<not> isConnectServer ((user_tcp_reconnect ^^ 6) s)"
proof -
  obtain c where five: "(user_tcp_reconnect ^^ 5) s = s\<lparr>reconn_cnt := 5, clk := c,
      log := log s @ concat (replicate 5 [Call (Net (Espconn_disconnect user_tcp_client_conn)),
                                          Call (Net (Espconn_connect user_tcp_client_conn))])\<rparr>"
    using reconnect_iter [OF assms, of 5] by auto
  have "(user_tcp_reconnect ^^ 6) s = user_tcp_reconnect ((user_tcp_reconnect ^^ 5) s)"
    by (simp add: numeral_eq_Suc)
  with five assms(1) show ?thesis
    by (simp add: user_tcp_reconnect_def [of "s\<lparr>reconn_cnt := 5, clk := c, log := l\<rparr>" for l]
        user_smartconfig_status_def Let_def tcp_frame reg_simps)
qed

theorem user_tcp_reconnect_limit_witness:
  "\<not> isDnsFound ((user_tcp_reconnect ^^ 6) (demo_tcp 0 0)) \<and> isDnsFound ((user_tcp_reconnect ^^ 5) (demo_tcp 0 0))"
  using user_tcp_reconnect_limit [of "demo_tcp 0 0"] by (simp add: demo_tcp_fields demo_tcp_def)

end
