(* ===== verification/Key_Driver.thy ===== *)
theory Key_Driver
  imports Peripherals
begin

text \<open>
  The key driver, \<^verbatim>\<open>app/driver/key.c\<close>: set-up of the GPIO interrupts, the interrupt handler and
  the two timer callbacks that debounce a key and recognise a long press.

  A key is a record; the array \<^verbatim>\<open>keys->single_key\<close> of \<^verbatim>\<open>keys->key_num\<close> pointers is the list of
  the keys, and a key's timers are named by its index. What a press handler does is the
  argument \<open>press\<close>; the laws the driver needs of it are the locale \<open>key_handlers\<close>.
\<close>

record single_key_param =
  key_level :: u8
  gpio_id :: u8
  gpio_func :: u8
  gpio_name :: u32
  short_press :: "callback option"
  long_press :: "callback option"

type_synonym 'a press = "callback \<Rightarrow> 'a soc_scheme \<Rightarrow> 'a soc_scheme option"

definition gpio_pin_intr_state_set :: "u8 \<Rightarrow> GPIO_INT_TYPE \<Rightarrow> 'a soc_scheme \<Rightarrow> 'a soc_scheme" where
  "gpio_pin_intr_state_set g t s = call (Io (Gpio_pin_intr_state_set (ucast g) t)) s"

definition sizeof_single_key_param :: nat where
  "sizeof_single_key_param = 56"

definition key_init_single ::
  "u8 \<Rightarrow> u32 \<Rightarrow> u8 \<Rightarrow> callback option \<Rightarrow> callback option \<Rightarrow> 'a soc_scheme \<Rightarrow>
   (single_key_param \<times> 'a soc_scheme) option" where
  "key_init_single gid gname func long short s =
     (let (p, s) = os_zalloc sizeof_single_key_param s
      in if p = NULL then None
         else Some (\<lparr>key_level = 0, gpio_id = gid, gpio_func = func, gpio_name = gname,
                     short_press = short, long_press = long\<rparr>, s))"

text \<open>One round of the loop in \<^verbatim>\<open>key_init\<close>.\<close>

definition key_setup :: "single_key_param \<Rightarrow> 'a soc_scheme \<Rightarrow> single_key_param \<times> 'a soc_scheme" where
  "key_setup k s =
     (let k = k\<lparr>key_level := 1\<rparr>;
          s = PIN_FUNC_SELECT (gpio_name k) (ucast (gpio_func k)) s;
          s = call (Io (Gpio_output_set 0 0 0 (ucast (gpio_id k)))) s;
          s = call (Io (Gpio_register_set (GPIO_PIN_ADDR (ucast (gpio_id k)))
                (push_bit 7 0 AND 0x380 OR push_bit 2 (NOT 1) AND 0x4 OR push_bit 0 0 AND 1))) s;
          s = GPIO_REG_WRITE 0x24 (BIT (unat (gpio_id k))) s;
          s = gpio_pin_intr_state_set (gpio_id k) GPIO_PIN_INTR_NEGEDGE s
      in (k, s))"

fun key_setup_all :: "single_key_param list \<Rightarrow> 'a soc_scheme \<Rightarrow> single_key_param list \<times> 'a soc_scheme" where
  "key_setup_all [] s = ([], s)"
| "key_setup_all (k # ks) s =
     (let (k, s) = key_setup k s; (ks, s) = key_setup_all ks s in (k # ks, s))"

definition key_init :: "single_key_param list \<Rightarrow> 'a soc_scheme \<Rightarrow> single_key_param list \<times> 'a soc_scheme" where
  "key_init keys s =
     (let s = call (Os (Ets_isr_attach 4 key_intr_handler_cb)) s;
          s = ETS_GPIO_INTR_DISABLE s;
          (keys, s) = key_setup_all keys s
      in (keys, ETS_GPIO_INTR_ENABLE s))"

definition run_press :: "'a press \<Rightarrow> callback option \<Rightarrow> 'a soc_scheme \<Rightarrow> 'a soc_scheme option" where
  "run_press press cb s = (case cb of None \<Rightarrow> Some s | Some f \<Rightarrow> press f s)"

definition key_3s_cb :: "'a press \<Rightarrow> nat \<Rightarrow> single_key_param \<Rightarrow> 'a soc_scheme \<Rightarrow> 'a soc_scheme option" where
  "key_3s_cb press i k s =
     (let s = os_timer_disarm (key_3s i) s;
          (v, s) = GPIO_INPUT_GET (unat (gpio_id k)) s
      in if v = 0 then run_press press (long_press k) s else Some s)"

definition key_50ms_cb ::
  "'a press \<Rightarrow> nat \<Rightarrow> single_key_param \<Rightarrow> 'a soc_scheme \<Rightarrow> (single_key_param \<times> 'a soc_scheme) option" where
  "key_50ms_cb press i k s =
     (let s = os_timer_disarm (key_50ms i) s;
          (v, s) = GPIO_INPUT_GET (unat (gpio_id k)) s
      in if v = 1
         then let s = os_timer_disarm (key_3s i) s;
                  k = k\<lparr>key_level := 1\<rparr>;
                  s = gpio_pin_intr_state_set (gpio_id k) GPIO_PIN_INTR_NEGEDGE s
              in do { s \<leftarrow> run_press press (short_press k) s; Some (k, s) }
         else Some (k, gpio_pin_intr_state_set (gpio_id k) GPIO_PIN_INTR_POSEDGE s))"

text \<open>One round of the loop in \<^verbatim>\<open>key_intr_handler\<close>, for the key of index \<open>i\<close>.\<close>

definition key_intr_one ::
  "u32 \<Rightarrow> nat \<Rightarrow> single_key_param \<Rightarrow> 'a soc_scheme \<Rightarrow> single_key_param \<times> 'a soc_scheme" where
  "key_intr_one gpio_status i k s =
     (if gpio_status AND BIT (unat (gpio_id k)) \<noteq> 0
      then let s = gpio_pin_intr_state_set (gpio_id k) GPIO_PIN_INTR_DISABLE s;
               s = GPIO_REG_WRITE 0x24 (gpio_status AND BIT (unat (gpio_id k))) s
           in if key_level k = 1
              then let s = os_timer_disarm (key_3s i) s;
                       s = os_timer_setfn (key_3s i) key_3s_cb_fn s;
                       s = os_timer_arm (key_3s i) 3000 False s;
                       k = k\<lparr>key_level := 0\<rparr>
                   in (k, gpio_pin_intr_state_set (gpio_id k) GPIO_PIN_INTR_POSEDGE s)
              else let s = os_timer_disarm (key_50ms i) s;
                       s = os_timer_setfn (key_50ms i) key_50ms_cb_fn s
                   in (k, os_timer_arm (key_50ms i) 50 False s)
      else (k, s))"

fun key_intr_all ::
  "u32 \<Rightarrow> nat \<Rightarrow> single_key_param list \<Rightarrow> 'a soc_scheme \<Rightarrow> single_key_param list \<times> 'a soc_scheme" where
  "key_intr_all st i [] s = ([], s)"
| "key_intr_all st i (k # ks) s =
     (let (k, s) = key_intr_one st i k s; (ks, s) = key_intr_all st (Suc i) ks s in (k # ks, s))"

definition key_intr_handler ::
  "single_key_param list \<Rightarrow> 'a soc_scheme \<Rightarrow> single_key_param list \<times> 'a soc_scheme" where
  "key_intr_handler keys s =
     (let (gpio_status, s) = GPIO_REG_READ 0x1c s in key_intr_all gpio_status 0 keys s)"

section \<open>What the SDK was told last\<close>

fun pin_step :: "u8 \<Rightarrow> io_event \<Rightarrow> GPIO_INT_TYPE option \<Rightarrow> GPIO_INT_TYPE option" where
  "pin_step g (Call (Io (Gpio_pin_intr_state_set g' t))) m = (if g' = ucast g then Some t else m)"
| "pin_step g e m = m"

fun timer_step :: "timer \<Rightarrow> io_event \<Rightarrow> bool \<Rightarrow> bool" where
  "timer_step t (Call (Os (Os_timer_arm t' ms r))) b = (if t' = t then True else b)"
| "timer_step t (Call (Os (Os_timer_disarm t'))) b = (if t' = t then False else b)"
| "timer_step t e b = b"

definition pin_mode :: "u8 \<Rightarrow> io_event list \<Rightarrow> GPIO_INT_TYPE option" where
  "pin_mode g l = fold (pin_step g) l None"

definition timer_armed :: "timer \<Rightarrow> io_event list \<Rightarrow> bool" where
  "timer_armed t l = fold (timer_step t) l False"

named_theorems key_simps \<open>pin modes and timers after a call\<close>

lemma mode_append [key_simps]:
  "pin_mode g (l @ xs) = fold (pin_step g) xs (pin_mode g l)"
  "timer_armed t (l @ xs) = fold (timer_step t) xs (timer_armed t l)"
  by (simp_all add: pin_mode_def timer_armed_def)

lemma log_calls [key_simps]:
  "log (os_timer_disarm t s) = log s @ [Call (Os (Os_timer_disarm t))]"
  "log (os_timer_setfn t f s) = log s @ [Call (Os (Os_timer_setfn t f))]"
  "log (os_timer_arm t ms r s) = log s @ [Call (Os (Os_timer_arm t ms r))]"
  "log (gpio_pin_intr_state_set g m s) = log s @ [Call (Io (Gpio_pin_intr_state_set (ucast g) m))]"
  "log (GPIO_REG_WRITE a v s) = log s @ [Reg_write (0x60000300 + a) v]"
  "log (ETS_GPIO_INTR_ENABLE s) = log s @ [Call (Os (Ets_isr_unmask (BIT 4)))]"
  "log (ETS_GPIO_INTR_DISABLE s) = log s @ [Call (Os (Ets_isr_mask (BIT 4)))]"
  "log (snd (GPIO_INPUT_GET n s)) = log s" "log (snd (GPIO_REG_READ a s)) = log s"
  by (simp_all add: os_timer_disarm_def os_timer_setfn_def os_timer_arm_def reg_simps
      gpio_pin_intr_state_set_def GPIO_REG_WRITE_def ETS_GPIO_INTR_ENABLE_def
      ETS_GPIO_INTR_DISABLE_def GPIO_INPUT_GET_def GPIO_REG_READ_def case_prod_beta)

section \<open>No key is lost\<close>

text \<open>
  A released key waits for its falling edge with both timers stopped; a pressed key either
  waits for its rising edge or has its 50 ms timer running.
\<close>

definition key_inv :: "nat \<Rightarrow> single_key_param \<Rightarrow> io_event list \<Rightarrow> bool" where
  "key_inv i k l \<longleftrightarrow>
     key_level k = 1 \<and> pin_mode (gpio_id k) l = Some GPIO_PIN_INTR_NEGEDGE
       \<and> \<not> timer_armed (key_3s i) l \<and> \<not> timer_armed (key_50ms i) l
   \<or> key_level k = 0 \<and> (pin_mode (gpio_id k) l = Some GPIO_PIN_INTR_POSEDGE
       \<or> pin_mode (gpio_id k) l = Some GPIO_PIN_INTR_DISABLE \<and> timer_armed (key_50ms i) l)"

definition keys_inv :: "single_key_param list \<Rightarrow> io_event list \<Rightarrow> bool" where
  "keys_inv ks l \<longleftrightarrow> distinct (map gpio_id ks) \<and> (\<forall>i<length ks. key_inv i (ks ! i) l)"

text \<open>Nothing in the log concerns the key of index \<open>i\<close> on pin \<open>g\<close>.\<close>

definition same_key :: "nat \<Rightarrow> u8 \<Rightarrow> io_event list \<Rightarrow> io_event list \<Rightarrow> bool" where
  "same_key i g l l' \<longleftrightarrow> pin_mode g l' = pin_mode g l
     \<and> timer_armed (key_3s i) l' = timer_armed (key_3s i) l
     \<and> timer_armed (key_50ms i) l' = timer_armed (key_50ms i) l"

lemma key_inv_same: "same_key i (gpio_id k) l l' \<Longrightarrow> key_inv i k l' = key_inv i k l"
  by (simp add: same_key_def key_inv_def)

lemma same_key_refl [simp]: "same_key i g l l"
  by (simp add: same_key_def)

lemma same_key_trans: "same_key i g l l1 \<Longrightarrow> same_key i g l1 l2 \<Longrightarrow> same_key i g l l2"
  by (simp add: same_key_def)

lemma key_intr_one_keeps:
  assumes "key_inv i k (log s)" "key_intr_one st i k s = (k', s')"
  shows "key_inv i k' (log s') \<and> gpio_id k' = gpio_id k
    \<and> (\<forall>j g. j \<noteq> i \<and> g \<noteq> gpio_id k \<longrightarrow> same_key j g (log s) (log s'))"
  using assms
  by (auto simp: key_intr_one_def key_inv_def same_key_def key_simps Let_def split: if_splits)

lemma key_intr_all_keeps:
  assumes "distinct (map gpio_id ks)" "\<forall>j<length ks. key_inv (i + j) (ks ! j) (log s)"
    and "key_intr_all st i ks s = (ks', s')"
  shows "length ks' = length ks \<and> map gpio_id ks' = map gpio_id ks
    \<and> (\<forall>j<length ks. key_inv (i + j) (ks' ! j) (log s'))
    \<and> (\<forall>j g. j < i \<and> g \<notin> gpio_id ` set ks \<longrightarrow> same_key j g (log s) (log s'))"
  using assms
proof (induction ks arbitrary: i s ks' s')
  case (Cons k ks)
  obtain k1 s1 where one: "key_intr_one st i k s = (k1, s1)" by fastforce
  obtain ks2 where all: "key_intr_all st (Suc i) ks s1 = (ks2, s')" and ks': "ks' = k1 # ks2"
    using Cons.prems(3) one by (auto split: prod.splits)
  have k: "key_inv i k1 (log s1)" "gpio_id k1 = gpio_id k"
      "\<And>j g. j \<noteq> i \<Longrightarrow> g \<noteq> gpio_id k \<Longrightarrow> same_key j g (log s) (log s1)"
    using key_intr_one_keeps [OF _ one] Cons.prems(2) [rule_format, of 0] by auto
  have rest: "\<forall>j<length ks. key_inv (Suc i + j) (ks ! j) (log s1)"
  proof (intro allI impI)
    fix j assume j: "j < length ks"
    have "gpio_id (ks ! j) \<noteq> gpio_id k" using Cons.prems(1) nth_mem [OF j]
      by (metis distinct.simps(2) image_eqI list.simps(9) set_map)
    then have "same_key (Suc i + j) (gpio_id (ks ! j)) (log s) (log s1)" using k(3) by simp
    moreover have "key_inv (Suc i + j) (ks ! j) (log s)"
      using Cons.prems(2) [rule_format, of "Suc j"] j by simp
    ultimately show "key_inv (Suc i + j) (ks ! j) (log s1)" by (simp add: key_inv_same)
  qed
  have IH: "length ks2 = length ks" "map gpio_id ks2 = map gpio_id ks"
      "\<forall>j<length ks. key_inv (Suc i + j) (ks2 ! j) (log s')"
      "\<And>j g. j < Suc i \<Longrightarrow> g \<notin> gpio_id ` set ks \<Longrightarrow> same_key j g (log s1) (log s')"
    using Cons.IH [OF _ rest all] Cons.prems(1) by auto
  have "key_inv i k1 (log s')"
    using k(1) IH(4) [of i "gpio_id k"] Cons.prems(1) k(2) key_inv_same [of i k1] by auto
  then have "\<forall>j<length (k # ks). key_inv (i + j) (ks' ! j) (log s')"
    using IH(3) by (auto simp: ks' nth_Cons split: nat.splits)
  moreover have "\<forall>j g. j < i \<and> g \<notin> gpio_id ` set (k # ks) \<longrightarrow> same_key j g (log s) (log s')"
    using k(3) IH(4) same_key_trans by (metis image_insert insert_iff less_SucI list.simps(15) nat_neq_iff)
  ultimately show ?case using IH(1,2) k(2) by (simp add: ks')
qed simp

lemma key_intr_handler_keeps:
  assumes "keys_inv ks (log s)" "key_intr_handler ks s = (ks', s')"
  shows "keys_inv ks' (log s') \<and> map gpio_id ks' = map gpio_id ks"
proof -
  let ?s = "snd (GPIO_REG_READ 0x1c s)"
  have "key_intr_all (fst (GPIO_REG_READ 0x1c s)) 0 ks ?s = (ks', s')"
    using assms(2) by (simp add: key_intr_handler_def case_prod_beta)
  from key_intr_all_keeps [OF _ _ this] assms(1) show ?thesis
    by (auto simp: keys_inv_def key_simps)
qed

lemma key_setup_effect:
  assumes "key_setup k s = (k', s')"
  shows "key_level k' = 1" "gpio_id k' = gpio_id k"
    "pin_mode g (log s') = (if g = gpio_id k then Some GPIO_PIN_INTR_NEGEDGE else pin_mode g (log s))"
    "timer_armed t (log s') = timer_armed t (log s)"
  using assms
  by (auto simp: key_setup_def Let_def PIN_FUNC_SELECT_def case_prod_beta reg_simps key_simps)

lemma key_setup_all_effect:
  assumes "distinct (map gpio_id ks)" "key_setup_all ks s = (ks', s')"
  shows "map gpio_id ks' = map gpio_id ks \<and> (\<forall>k\<in>set ks'. key_level k = 1)
    \<and> (\<forall>g. pin_mode g (log s') = (if g \<in> gpio_id ` set ks then Some GPIO_PIN_INTR_NEGEDGE else pin_mode g (log s)))
    \<and> (\<forall>t. timer_armed t (log s') = timer_armed t (log s))"
  using assms
proof (induction ks arbitrary: s ks' s')
  case (Cons k ks)
  obtain k1 s1 where one: "key_setup k s = (k1, s1)" by fastforce
  obtain ks2 where all: "key_setup_all ks s1 = (ks2, s')" and ks': "ks' = k1 # ks2"
    using Cons.prems(2) one by (auto split: prod.splits)
  show ?case
    using Cons.IH [OF _ all] Cons.prems(1) key_setup_effect [OF one] by (auto simp: ks')
qed simp

lemma key_init_inv:
  assumes "distinct (map gpio_id ks)" "key_init ks s = (ks', s')"
    and "\<And>i. \<not> timer_armed (key_3s i) (log s) \<and> \<not> timer_armed (key_50ms i) (log s)"
  shows "keys_inv ks' (log s') \<and> map gpio_id ks' = map gpio_id ks"
proof -
  let ?s = "ETS_GPIO_INTR_DISABLE (call (Os (Ets_isr_attach 4 key_intr_handler_cb)) s)"
  obtain s1 where all: "key_setup_all ks ?s = (ks', s1)" and s': "s' = ETS_GPIO_INTR_ENABLE s1"
    using assms(2) by (auto simp: key_init_def Let_def split: prod.splits)
  note e = key_setup_all_effect [OF assms(1) all]
  have "key_inv i (ks' ! i) (log s')" if i: "i < length ks'" for i
  proof -
    have "ks' ! i \<in> set ks'" using i by simp
    then have "key_level (ks' ! i) = 1" "gpio_id (ks' ! i) \<in> gpio_id ` set ks"
      using e by auto (metis imageI list.set_map)
    then show ?thesis
      using e assms(3) [of i] by (simp add: key_inv_def s' key_simps reg_simps)
  qed
  moreover have "distinct (map gpio_id ks')" using e assms(1) by metis
  ultimately show ?thesis using e by (simp add: keys_inv_def)
qed

text \<open>
  The events of the driver: a GPIO interrupt, a key timer that has run out, and anything else
  the firmware does that leaves the keys' pins and timers alone.
\<close>

inductive key_step ::
  "'a press \<Rightarrow> single_key_param list \<times> 'a soc_scheme \<Rightarrow> single_key_param list \<times> 'a soc_scheme \<Rightarrow> bool"
  for press where
  intr: "key_intr_handler ks s = (ks', s') \<Longrightarrow> key_step press (ks, s) (ks', s')"
| fire_3s: "i < length ks \<Longrightarrow> timer_armed (key_3s i) (log s) \<Longrightarrow>
     key_3s_cb press i (ks ! i) s = Some s' \<Longrightarrow> key_step press (ks, s) (ks, s')"
| fire_50ms: "i < length ks \<Longrightarrow> timer_armed (key_50ms i) (log s) \<Longrightarrow>
     key_50ms_cb press i (ks ! i) s = Some (k', s') \<Longrightarrow> key_step press (ks, s) (ks[i := k'], s')"
| other: "(\<And>i g. same_key i g (log s) (log s')) \<Longrightarrow> key_step press (ks, s) (ks, s')"

inductive_cases key_stepE: "key_step press (ks, s) (ks', s')"

abbreviation key_run ::
  "'a press \<Rightarrow> single_key_param list \<times> 'a soc_scheme \<Rightarrow> single_key_param list \<times> 'a soc_scheme \<Rightarrow> bool" where
  "key_run press \<equiv> (key_step press)\<^sup>*\<^sup>*"

text \<open>The interface to the application's press handlers.\<close>

locale key_handlers =
  fixes press :: "'a press"
  assumes press_returns: "\<exists>s'. press cb s = Some s'"
    and press_quiet: "press cb s = Some s' \<Longrightarrow> same_key i g (log s) (log s')"
begin

lemma run_press_quiet:
  "\<exists>s'. run_press press cb s = Some s' \<and> (\<forall>i g. same_key i g (log s) (log s'))"
  using press_returns press_quiet by (cases cb) (fastforce simp: run_press_def)+

lemma key_3s_quiet:
  assumes "key_inv i k (log s)" "timer_armed (key_3s i) (log s)"
  shows "\<exists>s'. key_3s_cb press i k s = Some s' \<and> key_inv i k (log s')
    \<and> (\<forall>j g. j \<noteq> i \<longrightarrow> same_key j g (log s) (log s'))"
proof -
  let ?s = "snd (GPIO_INPUT_GET (unat (gpio_id k)) (os_timer_disarm (key_3s i) s))"
  have inv: "key_inv i k (log ?s)"
    using assms by (auto simp: key_inv_def key_simps)
  have oth: "same_key j g (log s) (log ?s)" if "j \<noteq> i" for j g
    using that by (simp add: same_key_def key_simps)
  obtain s' where s': "run_press press (long_press k) ?s = Some s'" "\<And>i g. same_key i g (log ?s) (log s')"
    using run_press_quiet [of "long_press k" ?s] by blast
  show ?thesis
  proof (cases "fst (GPIO_INPUT_GET (unat (gpio_id k)) (os_timer_disarm (key_3s i) s)) = 0")
    case True
    then show ?thesis
      using s' inv oth key_inv_same [OF s'(2)] same_key_trans
      by (auto simp: key_3s_cb_def Let_def case_prod_beta) blast
  next
    case False
    then show ?thesis using inv oth by (simp add: key_3s_cb_def Let_def case_prod_beta)
  qed
qed

lemma key_50ms_keeps:
  assumes "key_inv i k (log s)" "timer_armed (key_50ms i) (log s)"
  shows "\<exists>k' s'. key_50ms_cb press i k s = Some (k', s') \<and> key_inv i k' (log s')
    \<and> gpio_id k' = gpio_id k \<and> (\<forall>j g. j \<noteq> i \<and> g \<noteq> gpio_id k \<longrightarrow> same_key j g (log s) (log s'))"
proof -
  let ?p = "GPIO_INPUT_GET (unat (gpio_id k)) (os_timer_disarm (key_50ms i) s)"
  let ?k = "k\<lparr>key_level := 1\<rparr>"
  let ?u = "gpio_pin_intr_state_set (gpio_id k) GPIO_PIN_INTR_NEGEDGE (os_timer_disarm (key_3s i) (snd ?p))"
  let ?d = "gpio_pin_intr_state_set (gpio_id k) GPIO_PIN_INTR_POSEDGE (snd ?p)"
  have lev: "key_level k = 0" using assms by (auto simp: key_inv_def)
  obtain s' where s': "run_press press (short_press k) ?u = Some s'" "\<And>i g. same_key i g (log ?u) (log s')"
    using run_press_quiet [of "short_press k" ?u] by blast
  have up: "key_inv i ?k (log ?u)" by (simp add: key_inv_def key_simps)
  have up_oth: "same_key j g (log s) (log ?u)" if "j \<noteq> i" "g \<noteq> gpio_id k" for j g
    using that by (auto simp: same_key_def key_simps)
  have down: "key_inv i k (log ?d)" using lev by (simp add: key_inv_def key_simps)
  have down_oth: "same_key j g (log s) (log ?d)" if "j \<noteq> i" "g \<noteq> gpio_id k" for j g
    using that by (auto simp: same_key_def key_simps)
  show ?thesis
  proof (cases "fst ?p = 1")
    case True
    have "key_inv i ?k (log s')" using up key_inv_same [of i ?k, OF s'(2)] by blast
    moreover have "\<And>j g. j \<noteq> i \<and> g \<noteq> gpio_id k \<Longrightarrow> same_key j g (log s) (log s')"
      using up_oth s'(2) same_key_trans by blast
    ultimately show ?thesis
      using True s'(1) by (auto simp: key_50ms_cb_def Let_def case_prod_beta)
  next
    case False
    then show ?thesis using down down_oth by (simp add: key_50ms_cb_def Let_def case_prod_beta)
  qed
qed

lemma key_step_keeps:
  assumes "key_step press (ks, s) (ks', s')" "keys_inv ks (log s)"
  shows "keys_inv ks' (log s') \<and> map gpio_id ks' = map gpio_id ks"
  using assms(1)
proof (cases rule: key_step.cases)
  case intr
  then show ?thesis using key_intr_handler_keeps [OF assms(2)] by blast
next
  case (fire_3s i)
  have "key_inv i (ks ! i) (log s)" using assms(2) fire_3s by (simp add: keys_inv_def)
  from key_3s_quiet [OF this fire_3s(3)] fire_3s(4) have
    *: "key_inv i (ks ! i) (log s')" "\<And>j g. j \<noteq> i \<Longrightarrow> same_key j g (log s) (log s')" by auto
  have "key_inv j (ks ! j) (log s')" if "j < length ks" for j
  proof (cases "j = i")
    case False
    from key_inv_same [OF *(2) [OF False]] show ?thesis
      using that assms(2) by (simp add: keys_inv_def)
  qed (use * in simp)
  then show ?thesis using assms(2) fire_3s(1) by (simp add: keys_inv_def)
next
  case (fire_50ms i k')
  have "key_inv i (ks ! i) (log s)" using assms(2) fire_50ms by (simp add: keys_inv_def)
  from key_50ms_keeps [OF this fire_50ms(3)] fire_50ms(4) have
    *: "key_inv i k' (log s')" "gpio_id k' = gpio_id (ks ! i)"
      "\<And>j g. j \<noteq> i \<Longrightarrow> g \<noteq> gpio_id (ks ! i) \<Longrightarrow> same_key j g (log s) (log s')" by auto
  have ids: "map gpio_id ks' = map gpio_id ks"
    using *(2) fire_50ms(1,2) by (simp add: map_update list_update_same_conv)
  have dist: "distinct (map gpio_id ks)" using assms(2) by (simp add: keys_inv_def)
  have "key_inv j (ks' ! j) (log s')" if j: "j < length ks" for j
  proof (cases "j = i")
    case False
    then have "gpio_id (ks ! j) \<noteq> gpio_id (ks ! i)"
      using dist j fire_50ms(2) by (metis length_map nth_eq_iff_index_eq nth_map)
    then have "same_key j (gpio_id (ks ! j)) (log s) (log s')" using *(3) False by blast
    then show ?thesis
      using assms(2) j False fire_50ms(1) key_inv_same [of j "ks ! j"] by (auto simp: keys_inv_def)
  qed (use * fire_50ms in auto)
  then show ?thesis using dist ids fire_50ms(1) by (simp add: keys_inv_def)
next
  case other
  then show ?thesis using assms(2) key_inv_same [OF other(2)] by (auto simp: keys_inv_def)
qed

lemma key_run_keeps:
  assumes "key_run press (ks, s) (ks', s')" "keys_inv ks (log s)"
  shows "keys_inv ks' (log s') \<and> map gpio_id ks' = map gpio_id ks"
  using assms
proof (induction "(ks', s')" arbitrary: ks' s' rule: rtranclp_induct)
  case (step y)
  obtain k1 s1 where y: "y = (k1, s1)" by (cases y)
  show ?case using step key_step_keeps by (auto simp: y)
qed simp

end

end
