(* ===== verification/App.thy ===== *)
theory App
  imports Udp_Server Tcp_Proofs Key_Driver Uart_Proofs
begin

text \<open>
  The application put together: \<^verbatim>\<open>app/user/user_net.c\<close> (the Xlink configuration and the pipe to
  both transports), \<^verbatim>\<open>app/user/user_key.c\<close> (what the key does) and \<^verbatim>\<open>app/user/user_main.c\<close>
  (start-up). The dispatch of function pointers that the other components take as an argument
  is defined here from the callbacks \<^verbatim>\<open>app_init\<close> installs.

  What the Xlink library and the SDK put into \<^verbatim>\<open>user_config\<close> (the MAC address, the library's own
  entry points) are the arguments \<open>sdk_mac\<close> and \<open>xlink_init\<close>; the content of the flash sector is
  the argument \<open>flash\<close>.
\<close>

record app = udp +
  auth_pwd_name_buf :: ptr
  keys :: "single_key_param list"

section \<open>user_net.c\<close>

definition PRIV_PARAM_START_SECTOR :: u32 where "PRIV_PARAM_START_SECTOR = 0x7C"

definition user_write_config :: "ptr \<Rightarrow> u32 \<Rightarrow> 'a app_scheme \<Rightarrow> (u32 \<times> 'a app_scheme) option" where
  "user_write_config data datalen s =
     do { s \<leftarrow> os_memcpy (auth_pwd_name_buf s) data (unat datalen) s;
          let s = call (Io (Spi_flash_erase_sector (ucast PRIV_PARAM_START_SECTOR))) s;
          if valid_range (ram s) (auth_pwd_name_buf s) 128
          then Some (datalen, call (Io (Spi_flash_write (PRIV_PARAM_START_SECTOR * 4096)
                       (bytes_at (ram s) (auth_pwd_name_buf s) 128))) s)
          else None }"

definition user_read_config :: "(nat \<Rightarrow> u8) \<Rightarrow> ptr \<Rightarrow> u32 \<Rightarrow> 'a app_scheme \<Rightarrow> (u32 \<times> 'a app_scheme) option" where
  "user_read_config flash buf bufferlen s =
     (if valid_range (ram s) (auth_pwd_name_buf s) 128
      then let s = s\<lparr>ram := fill_block (auth_pwd_name_buf s) 128 (\<lambda>a. flash (a - auth_pwd_name_buf s)) (ram s)\<rparr>
           in do { s \<leftarrow> os_memcpy buf (auth_pwd_name_buf s) (unat bufferlen) s; Some (bufferlen, s) }
      else None)"

definition user_net_send_pipe :: "ptr \<Rightarrow> u16 \<Rightarrow> 'a app_scheme \<Rightarrow> 'a app_scheme option" where
  "user_net_send_pipe pbuf n s = do { s \<leftarrow> user_tcp_send_pipe pbuf n s; user_udp_send_pipe pbuf n s }"

definition PRODUCT_ID :: string where "PRODUCT_ID = ''160fa6b327fe03e9160fa6b327fe2201''"
definition PRODUCT_KEY :: string where "PRODUCT_KEY = ''67cb003e45caa03a6a973c1aa333b077''"

definition user_net_init ::
  "u8 list \<Rightarrow> (XLINK_USER_CONFIG \<Rightarrow> XLINK_USER_CONFIG) \<Rightarrow> 'a app_scheme \<Rightarrow> 'a app_scheme option" where
  "user_net_init sdk_mac xlink_init s =
     do { s \<leftarrow> user_udp_server_init s;
          s \<leftarrow> user_tcp_client_init s;
          let s = s\<lparr>user_config := (user_config s)\<lparr>maclen := 6, in_internet := 1, wifisoftVersion := 1,
                      wifi_type := STATION_MODE, pipetype := 1, devicetype := 0, callbacks_set := True,
                      mac := sdk_mac\<rparr>\<rparr>;
          let s = call (Xlink (XlinkSystemInit PRODUCT_ID PRODUCT_KEY))
                    (s\<lparr>user_config := xlink_init (user_config s)\<rparr>);
          let (ack, s) = ask xlink_get_ack s;
          let s = (if ack = 0 then call (Xlink (XlinkSetACK 88888888)) s else s);
          let s = call (Xlink (XlinkSystemSetDeviceName ''Test'')) s;
          let s = call (Xlink XlinkPorcess_UDP_Enable) s;
          let s = (if setServerStatus (user_config s) then call (Xlink (SetServerStatus 0 0)) s else s);
          let s = call (Xlink (XlinkSystemSetWifiStatus 1)) s;
          let s = os_timer_disarm xlink_loop_timer s;
          let s = os_timer_setfn xlink_loop_timer user_tcp_func_process_cb s;
          Some (os_timer_arm xlink_loop_timer 100 True s) }"

section \<open>user_key.c\<close>

definition user_restart :: "'a app_scheme \<Rightarrow> 'a app_scheme" where
  "user_restart s = call (System System_restart) s"

definition user_key_short_press :: "'a app_scheme \<Rightarrow> 'a app_scheme" where
  "user_key_short_press s = user_smartconfig_start (user_tcp_disconnect s)"

definition user_key_long_press :: "'a app_scheme \<Rightarrow> 'a app_scheme" where
  "user_key_long_press s =
     (let s = call (System Wifi_station_disconnect) s;
          s = call (Xlink XlinkReSetSDK) s;
          s = call (System System_restore) s;
          s = call (System (Wifi_set_opmode SOFTAP_MODE)) s;
          s = os_timer_disarm key_tmr s;
          s = os_timer_setfn key_tmr user_restart_cb s
      in os_timer_arm key_tmr 100 False s)"

definition PERIPHS_IO_MUX_GPIO0_U :: u32 where "PERIPHS_IO_MUX_GPIO0_U = 0x60000800 + 0x34"

definition user_key_init :: "'a app_scheme \<Rightarrow> 'a app_scheme option" where
  "user_key_init s =
     do { (k, s) \<leftarrow> key_init_single 0 PERIPHS_IO_MUX_GPIO0_U 0
                      (Some user_key_long_press_cb) (Some user_key_short_press_cb) s;
          let (ks, s) = key_init [k] s;
          Some (s\<lparr>keys := ks\<rparr>) }"

section \<open>user_main.c\<close>

datatype flash_size_map =
  FLASH_SIZE_4M_MAP_256_256 | FLASH_SIZE_2M | FLASH_SIZE_8M_MAP_512_512 | FLASH_SIZE_16M_MAP_512_512
| FLASH_SIZE_32M_MAP_512_512 | FLASH_SIZE_16M_MAP_1024_1024 | FLASH_SIZE_32M_MAP_1024_1024
| FLASH_SIZE_32M_MAP_2048_2048 | FLASH_SIZE_64M_MAP_1024_1024 | FLASH_SIZE_128M_MAP_1024_1024

fun user_rf_cal_sector_set :: "flash_size_map \<Rightarrow> u32" where
  "user_rf_cal_sector_set FLASH_SIZE_4M_MAP_256_256 = 128 - 5"
| "user_rf_cal_sector_set FLASH_SIZE_8M_MAP_512_512 = 256 - 5"
| "user_rf_cal_sector_set FLASH_SIZE_16M_MAP_512_512 = 512 - 5"
| "user_rf_cal_sector_set FLASH_SIZE_16M_MAP_1024_1024 = 512 - 5"
| "user_rf_cal_sector_set FLASH_SIZE_32M_MAP_512_512 = 1024 - 5"
| "user_rf_cal_sector_set FLASH_SIZE_32M_MAP_1024_1024 = 1024 - 5"
| "user_rf_cal_sector_set FLASH_SIZE_64M_MAP_1024_1024 = 2048 - 5"
| "user_rf_cal_sector_set FLASH_SIZE_128M_MAP_1024_1024 = 4096 - 5"
| "user_rf_cal_sector_set FLASH_SIZE_2M = 0"
| "user_rf_cal_sector_set FLASH_SIZE_32M_MAP_2048_2048 = 0"

definition user_rf_pre_init :: "'a app_scheme \<Rightarrow> 'a app_scheme" where
  "user_rf_pre_init s = s"

text \<open>The pins and the debug port, the first half of \<^verbatim>\<open>app_init\<close>.\<close>

definition app_init_pins :: "'a app_scheme \<Rightarrow> 'a app_scheme option" where
  "app_init_pins s =
     do { let s = call (Io Gpio_init) s;
          let s = call (System System_uart_swap) s;
          s \<leftarrow> uart1_init 115200 s;
          let s = UART_SetPrintPort 1 s;
          let s = GPIO_DIS_OUTPUT 0 s;
          let s = GPIO_DIS_OUTPUT 13 s;
          let s = PIN_FUNC_SELECT PERIPHS_IO_MUX_GPIO0_U 0 s;
          let s = PIN_FUNC_SELECT (0x60000800 + 0x3C) 0 s;
          let s = PIN_FUNC_SELECT (0x60000800 + 0x40) 0 s;
          let s = PIN_FUNC_SELECT (0x60000800 + 0x04) 3 s;
          let s = PIN_FUNC_SELECT (0x60000800 + 0x0C) 3 s;
          let s = GPIO_OUTPUT_SET 12 0 s;
          let s = GPIO_OUTPUT_SET 14 0 s;
          let s = GPIO_OUTPUT_SET 16 0 s;
          Some (GPIO_OUTPUT_SET 4 0 s) }"

definition app_init_wiring :: "'a app_scheme \<Rightarrow> 'a app_scheme" where
  "app_init_wiring s =
     (let s = uart0_set_rx_cb (Some modbus_receive_cb) s;
          s = uart0_set_tx_empty_cb None s;
          s = uart1_set_tx_empty_cb None s;
          s = modbus_set_recv_frame_fn (Some user_net_send_pipe_cb) s;
          s = user_tcp_set_recv_pipe_fn (Some modbus_send_cb) s
      in user_udp_set_recv_pipe_fn (Some modbus_send_cb) s)"

definition app_init ::
  "u8 list \<Rightarrow> (XLINK_USER_CONFIG \<Rightarrow> XLINK_USER_CONFIG) \<Rightarrow> 'a app_scheme \<Rightarrow> 'a app_scheme option" where
  "app_init sdk_mac xlink_init s =
     do { s \<leftarrow> app_init_pins s;
          s \<leftarrow> modbus_init s;
          s \<leftarrow> user_key_init s;
          let s = app_init_wiring s;
          user_net_init sdk_mac xlink_init s }"

definition user_init :: "'a app_scheme \<Rightarrow> 'a app_scheme" where
  "user_init s = call (System (System_init_done_cb app_init_cb)) s"

section \<open>Calls through function pointers\<close>

text \<open>
  A call through a pointer to a function of another type is undefined (\<open>None\<close>); the key driver
  only has pointers to the two press handlers, and is given a total dispatch.
\<close>

definition app_press :: "callback \<Rightarrow> 'a app_scheme \<Rightarrow> 'a app_scheme option" where
  "app_press cb s =
     (if cb = user_key_short_press_cb then Some (user_key_short_press s)
      else if cb = user_key_long_press_cb then Some (user_key_long_press s)
      else Some s)"

definition app_frame :: "callback \<Rightarrow> ptr \<Rightarrow> u16 \<Rightarrow> 'a app_scheme \<Rightarrow> 'a app_scheme option" where
  "app_frame cb p n s = (if cb = user_net_send_pipe_cb then user_net_send_pipe p n s else None)"

definition app_pipe :: "callback \<Rightarrow> ptr \<Rightarrow> u16 \<Rightarrow> 'a app_scheme \<Rightarrow> 'a app_scheme option" where
  "app_pipe cb p n s = (if cb = modbus_send_cb then modbus_send p n s else None)"

definition app_rx :: "callback \<Rightarrow> rx_buffer_t \<Rightarrow> 'a app_scheme \<Rightarrow> 'a app_scheme option" where
  "app_rx cb b s = (if cb = modbus_receive_cb then modbus_receive app_frame (Some b) s else None)"

definition app_uart_isr :: "'a app_scheme \<Rightarrow> 'a app_scheme option" where
  "app_uart_isr s =
     do { (para, s) \<leftarrow> uart_intr_handler app_rx (\<lambda>cb s. None) (modbus_rx_buffer s) s;
          Some (s\<lparr>modbus_rx_buffer := para\<rparr>) }"

section \<open>The key handlers meet the driver's contract\<close>

lemma log_app_calls [key_simps]:
  "log (call c s) = log s @ [Call c]"
  by (simp add: reg_simps)

lemma app_press_log:
  "app_press cb s = Some s' \<Longrightarrow> \<exists>l. log s' = log s @ l \<and>
     (\<forall>g m. fold (pin_step g) l m = m) \<and> (\<forall>i b. fold (timer_step (key_3s i)) l b = b) \<and>
     (\<forall>i b. fold (timer_step (key_50ms i)) l b = b)"
  by (auto simp: app_press_def user_key_short_press_def user_key_long_press_def user_smartconfig_start_def
      user_tcp_disconnect_def Let_def key_simps split: if_splits)

interpretation app_keys: key_handlers app_press
proof
  fix cb and s :: "'a app_scheme"
  show "\<exists>s'. app_press cb s = Some s'" by (auto simp: app_press_def)
next
  fix cb and s s' :: "'a app_scheme" and i g
  assume "app_press cb s = Some s'"
  from app_press_log [OF this] show "same_key i g (log s) (log s')"
    by (auto simp: same_key_def key_simps)
qed

end
