(* ===== verification/App_Proofs.thy ===== *)
theory App_Proofs
  imports App
begin

text \<open>
  Properties that span the gateway: serial to network (the interrupt handler, the checksum,
  the send ring and the UDP pipe), network to serial, the keys over all their events, and the
  configuration sector.
\<close>

section \<open>From the serial line to the network\<close>

text \<open>The bytes that the receive FIFO gives to an interrupt taken now.\<close>

definition rx_bytes :: "'a soc_scheme \<Rightarrow> u8 list" where
  "rx_bytes s =
     (let s = snd (READ_PERI_REG (UART_INT_ST UART0) s);
          s = snd (READ_PERI_REG (UART_INT_ST UART1) s);
          (st, s) = READ_PERI_REG (UART_STATUS UART0) s
      in fifo_reads (unat (rxfifo_cnt st)) s)"

definition rx_interrupt :: "'a soc_scheme \<Rightarrow> bool" where
  "rx_interrupt s \<longleftrightarrow>
     (let st = fst (READ_PERI_REG (UART_INT_ST UART0) s)
      in rx_pending st \<and> st AND UART_FRM_ERR_INT \<noteq> UART_FRM_ERR_INT)"

text \<open>The callbacks and objects as \<^verbatim>\<open>app_init\<close> leaves them.\<close>

definition wired :: "'a app_scheme \<Rightarrow> bool" where
  "wired s \<longleftrightarrow> uart0_rx_cb s = Some modbus_receive_cb \<and> uart1_tx_empty_cb s = None
     \<and> modbus_recv_frame_cb s = Some user_net_send_pipe_cb
     \<and> user_tcp_recv_pipe_cb s = Some modbus_send_cb \<and> user_udp_recv_pipe_cb s = Some modbus_send_cb
     \<and> proto_udp s \<noteq> None
     \<and> valid_range (ram s) (rxb_buffer (modbus_rx_buffer s)) 256
     \<and> disjoint_ranges (tcp_send_buffer s) 1024 (rxb_buffer (modbus_rx_buffer s)) 256"

text \<open>What has been handed to the Xlink library.\<close>

definition xlink_calls :: "io_event list \<Rightarrow> xlink_call list" where
  "xlink_calls l = concat (map (\<lambda>e. case e of Call (Xlink c) \<Rightarrow> [c] | _ \<Rightarrow> []) l)"

lemma xlink_calls_simps [simp]:
  "xlink_calls [] = []" "xlink_calls (l @ l') = xlink_calls l @ xlink_calls l'"
  "xlink_calls (Reg_write a v # l) = xlink_calls l" "xlink_calls (Call (Xlink c) # l) = c # xlink_calls l"
  by (simp_all add: xlink_calls_def)

lemma uart1_isr_quiet:
  assumes "uart1_tx_empty_cb s = None"
  shows "\<exists>r c l. uart1_isr tx st s = Some (s\<lparr>regs := r, clk := c, log := log s @ l\<rparr>) \<and> xlink_calls l = []"
proof -
  have w: "\<exists>r c l. WRITE_PERI_REG a v t = t\<lparr>regs := r, clk := c, log := log t @ l\<rparr> \<and> xlink_calls l = []" for a v and t :: "'a user_uart_scheme"
    by (intro exI [of _ "(regs t)(a := v)"] exI [of _ "Suc (clk t)"] exI [of _ "[Reg_write a v]"])
      (simp add: WRITE_PERI_REG_def)
  have n: "\<exists>r c l. t = t\<lparr>regs := r, clk := c, log := log t @ l\<rparr> \<and> xlink_calls l = []" for t :: "'a user_uart_scheme"
    by (intro exI [of _ "regs t"] exI [of _ "clk t"] exI [of _ "[]"]) simp
  have e: "\<exists>r c l. WRITE_PERI_REG a v (CLEAR_PERI_REG_MASK b m t) = t\<lparr>regs := r, clk := c, log := log t @ l\<rparr>
      \<and> xlink_calls l = []"
    for a v b m and t :: "'a user_uart_scheme"
  proof -
    let ?r = "dev t (clk t) (regs t)"
    show ?thesis
      by (intro exI [of _ "?r(b := ?r b AND NOT m, a := v)"] exI [of _ "Suc (Suc (Suc (clk t)))"]
          exI [of _ "[Reg_write b (?r b AND NOT m), Reg_write a v]"])
        (simp add: WRITE_PERI_REG_def CLEAR_PERI_REG_MASK_def READ_PERI_REG_def Let_def)
  qed
  have cb: "uart1_tx_empty_cb (WRITE_PERI_REG a v (CLEAR_PERI_REG_MASK b m s)) = None" for a v b m
    using assms by (simp add: WRITE_PERI_REG_def CLEAR_PERI_REG_MASK_def READ_PERI_REG_def Let_def)
  show ?thesis using w n e by (simp add: uart1_isr_def Let_def cb)
qed

lemma rb_unread_cong:
  assumes "rb_inv rb m" "\<And>a. rb_pbuf rb \<le> a \<Longrightarrow> a < rb_pbuf rb + unat (rb_size rb) \<Longrightarrow> m' a = m a"
  shows "rb_unread rb m' = rb_unread rb m"
  using rb_slot_range [OF assms(1)] assms(2) by (simp add: rb_unread_def)

lemma unat_ucast_u8_u16 [simp]: "unat (ucast (n :: u8) :: u16) = unat n"
  using unat_u8_less [of n] by (simp add: unsigned_ucast_eq take_bit_nat_eq_self)

text \<open>The frame callback on a frame that fits into the ring.\<close>

text \<open>A write to the ring, with and without room.\<close>

lemma user_rb_put_cases:
  assumes "rb_inv rb m" "valid_range m src (unat len)" "disjoint_ranges (rb_pbuf rb) (unat (rb_size rb)) src (unat len)"
  shows "\<exists>sz h m'. user_rb_put rb src len m = Some (sz, rb\<lparr>rb_head := h\<rparr>, m')
    \<and> rb_unread (rb\<lparr>rb_head := h\<rparr>) m' = (if rb_used rb + unat len < unat (rb_size rb) then rb_unread rb m @ bytes_at m src (unat len) else [])
    \<and> (\<forall>a. a < rb_pbuf rb \<or> rb_pbuf rb + unat (rb_size rb) \<le> a \<longrightarrow> m' a = m a)"
proof (cases "rb_used rb + unat len < unat (rb_size rb)")
  case True
  then show ?thesis using put_fits [OF assms] by auto
next
  case False
  then show ?thesis using put_overrun [OF assms] user_rb_put_effect [OF assms] rb_copy_in_frame [OF assms(1)] by fastforce
qed

text \<open>What waits in the TCP send ring once a frame has been given to it: without a server it is dropped, a ring with room takes
  it, and one without room is left empty.\<close>

definition ring_after :: "'a tcp_scheme \<Rightarrow> u8 list \<Rightarrow> u8 list" where
  "ring_after s bs =
     (if \<not> isConnectServer s then rb_unread (tcp_rb_send s) (ram s)
      else if rb_used (tcp_rb_send s) + length bs < 1024 then rb_unread (tcp_rb_send s) (ram s) @ bs
      else [])"

lemma net_send_pipe_effect:
  assumes inv: "tcp_inv s" and u: "proto_udp s = Some u"
    and v: "valid_range (ram s) p (unat n)"
    and away: "disjoint_ranges (tcp_send_buffer s) 1024 p (unat n)"
  shows "\<exists>rb m c. user_net_send_pipe p n s = Some (s\<lparr>tcp_rb_send := rb, ram := m, clk := c,
       log := log s @ [Call (Xlink (XlinkSendUdpPipe (bytes_at (ram s) p (unat n)) (ip_word (c_remote_ip u))
                         (word_of_int (remote_port u))))]\<rparr>)
     \<and> rb_unread rb m = ring_after s (bytes_at (ram s) p (unat n))"
proof -
  have ri: "rb_inv (tcp_rb_send s) (ram s)" and B: "rb_pbuf (tcp_rb_send s) = tcp_send_buffer s"
    and S: "unat (rb_size (tcp_rb_send s)) = 1024"
    using inv by (auto simp: tcp_inv_def)
  have un: "unat (ucast n :: u32) = unat n" by simp
  have sent: "\<exists>c. user_net_send_pipe p n s = Some (s\<lparr>tcp_rb_send := rb, ram := m, clk := c,
       log := log s @ [Call (Xlink (XlinkSendUdpPipe (bytes_at (ram s) p (unat n)) (ip_word (c_remote_ip u))
                         (word_of_int (remote_port u))))]\<rparr>)"
    if put: "user_tcp_send_pipe p n s = Some (s\<lparr>tcp_rb_send := rb, ram := m\<rparr>)"
      and fr: "\<And>a. a < tcp_send_buffer s \<or> tcp_send_buffer s + 1024 \<le> a \<Longrightarrow> m a = ram s a" for rb m
  proof -
    have at: "m (p + i) = ram s (p + i)" if "i < unat n" for i
      using fr [of "p + i"] away that by (auto simp: disjoint_ranges_def)
    have "valid_range m p (unat n)" "bytes_at m p (unat n) = bytes_at (ram s) p (unat n)"
      using v at by (auto simp: valid_range_iff intro!: bytes_at_cong)
    then show ?thesis
      using u put by (intro exI [of _ "Suc (clk s)"]) (simp add: user_net_send_pipe_def user_udp_send_pipe_def call_def Let_def)
  qed
  note put = user_rb_put_cases [OF ri, of p "ucast n", unfolded un B S, OF v away]
  show ?thesis
  proof (cases "isConnectServer s")
    case False
    then have "user_tcp_send_pipe p n s = Some (s\<lparr>tcp_rb_send := tcp_rb_send s, ram := ram s\<rparr>)" by (simp add: user_tcp_send_pipe_def)
    from sent [OF this] False show ?thesis by (fastforce simp: ring_after_def)
  next
    case True
    obtain sz h m where m: "user_rb_put (tcp_rb_send s) p (ucast n) (ram s) = Some (sz, (tcp_rb_send s)\<lparr>rb_head := h\<rparr>, m)"
        "rb_unread ((tcp_rb_send s)\<lparr>rb_head := h\<rparr>) m
          = (if rb_used (tcp_rb_send s) + unat n < 1024 then rb_unread (tcp_rb_send s) (ram s) @ bytes_at (ram s) p (unat n) else [])"
        "\<And>a. a < tcp_send_buffer s \<or> tcp_send_buffer s + 1024 \<le> a \<Longrightarrow> m a = ram s a"
      using put by blast
    have "user_tcp_send_pipe p n s = Some (s\<lparr>tcp_rb_send := (tcp_rb_send s)\<lparr>rb_head := h\<rparr>, ram := m\<rparr>)"
      using True m(1) by (simp add: user_tcp_send_pipe_def)
    from sent [OF this m(3)] m(2) True show ?thesis by (fastforce simp: ring_after_def)
  qed
qed

lemma uart_isr_unfold:
  assumes "wired s"
  defines "st \<equiv> fst (READ_PERI_REG (UART_INT_ST UART0) s)"
  defines "s2 \<equiv> snd (READ_PERI_REG (UART_INT_ST UART1) (snd (READ_PERI_REG (UART_INT_ST UART0) s)))"
  assumes isr: "uart0_isr app_rx (\<lambda>cb s. None) st (modbus_rx_buffer s) s2 = Some (para, s3)"
    and cb: "uart1_tx_empty_cb s3 = None"
  shows "\<exists>r c l. app_uart_isr s = Some (s3\<lparr>regs := r, clk := c, log := log s3 @ l, modbus_rx_buffer := para\<rparr>)
    \<and> xlink_calls l = []"
proof -
  let ?st1 = "fst (READ_PERI_REG (UART_INT_ST UART1) (snd (READ_PERI_REG (UART_INT_ST UART0) s)))"
  obtain r c l where "uart1_isr (\<lambda>cb s. None) ?st1 s3 = Some (s3\<lparr>regs := r, clk := c, log := log s3 @ l\<rparr>)"
      "xlink_calls l = []"
    using uart1_isr_quiet [OF cb, of "\<lambda>cb s. None" ?st1] by blast
  with isr show ?thesis
    unfolding app_uart_isr_def uart_intr_handler_def case_prod_beta Let_def st_def [symmetric] s2_def [symmetric]
    by (auto simp: s2_def read_split)
qed

text \<open>The receive callback, from a state whose attached buffer holds the frame.\<close>

lemma app_rx_effect:
  assumes w: "modbus_recv_frame_cb s = Some user_net_send_pipe_cb" "proto_udp s = Some u"
    and v: "valid_range (ram s) (rxb_buffer b) (unat (rxb_len b))"
    and away: "disjoint_ranges (tcp_send_buffer s) 1024 (rxb_buffer b) (unat (rxb_len b))"
    and inv: "tcp_inv s"
  defines "bs \<equiv> bytes_at (ram s) (rxb_buffer b) (unat (rxb_len b))"
  shows "\<exists>s'. app_rx modbus_receive_cb b s = Some s' \<and> uart1_tx_empty_cb s' = uart1_tx_empty_cb s
    \<and> rb_unread (tcp_rb_send s') (ram s') = (if frame_ok bs then ring_after s bs else rb_unread (tcp_rb_send s) (ram s))
    \<and> log s' = log s @ (if frame_ok bs
        then [Call (Xlink (XlinkSendUdpPipe bs (ip_word (c_remote_ip u)) (word_of_int (remote_port u))))] else [])"
proof -
  obtain c where c: "modbus_receive app_frame (Some b) s =
     (if frame_ok bs
      then case modbus_recv_frame_cb s of None \<Rightarrow> Some (s\<lparr>crc := c\<rparr>)
           | Some cb \<Rightarrow> app_frame cb (rxb_buffer b) (ucast (rxb_len b)) (s\<lparr>crc := c\<rparr>)
      else Some (s\<lparr>crc := c\<rparr>))"
    using modbus_receive_effect [OF v, of app_frame] unfolding bs_def by blast
  have "tcp_inv (s\<lparr>crc := c\<rparr>)" using inv by (simp add: tcp_inv_def)
  from net_send_pipe_effect [OF this, of u "rxb_buffer b" "ucast (rxb_len b)"]
  obtain rb m c' where "user_net_send_pipe (rxb_buffer b) (ucast (rxb_len b)) (s\<lparr>crc := c\<rparr>)
      = Some (s\<lparr>crc := c, tcp_rb_send := rb, ram := m, clk := c',
          log := log s @ [Call (Xlink (XlinkSendUdpPipe bs (ip_word (c_remote_ip u)) (word_of_int (remote_port u))))]\<rparr>)"
    "rb_unread rb m = ring_after s bs"
    using w v away inv by (auto simp: bs_def ring_after_def)
  with c w(1) show ?thesis by (auto simp: app_rx_def app_frame_def)
qed

lemma tcp_inv_cong:
  assumes "tcp_inv s" "reconn_cnt t = reconn_cnt s" "flag_dns_discovery t = flag_dns_discovery s"
    "isDnsFound t = isDnsFound s" "tcp_rb_send t = tcp_rb_send s" "tcp_send_buffer t = tcp_send_buffer s"
    "\<And>a. (ram t a = None) = (ram s a = None)"
  shows "tcp_inv t"
  using assms by (auto simp: tcp_inv_def rb_inv_def valid_range_iff)

text \<open>The whole interrupt, once the two status registers have been read.\<close>

lemma uart_isr_forwards:
  assumes w: "wired s" and inv: "tcp_inv s" and u: "proto_udp s = Some u"
    and st: "rx_pending st" "st AND UART_FRM_ERR_INT \<noteq> UART_FRM_ERR_INT"
    and n: "n = unat (rxfifo_cnt (dev s (clk s) (regs s) (UART_STATUS UART0)))"
    and bs: "bs = fifo_reads n (snd (READ_PERI_REG (UART_STATUS UART0) s))"
  shows "\<exists>para s'. uart0_isr app_rx tx_cb st (modbus_rx_buffer s) s = Some (para, s') \<and> uart1_tx_empty_cb s' = None
    \<and> rb_unread (tcp_rb_send s') (ram s') = (if frame_ok bs then ring_after s bs else rb_unread (tcp_rb_send s) (ram s))
    \<and> xlink_calls (log s') = xlink_calls (log s) @ (if frame_ok bs
        then [XlinkSendUdpPipe bs (ip_word (c_remote_ip u)) (word_of_int (remote_port u))] else [])"
proof -
  let ?B = "rxb_buffer (modbus_rx_buffer s)"
  have v: "valid_range (ram s) ?B 256" and away: "disjoint_ranges (tcp_send_buffer s) 1024 ?B 256"
    and cb: "uart0_rx_cb s = Some modbus_receive_cb" "modbus_recv_frame_cb s = Some user_net_send_pipe_cb"
      "uart1_tx_empty_cb s = None"
    using w by (auto simp: wired_def)
  define para where "para = (modbus_rx_buffer s)\<lparr>rxb_len := of_nat n\<rparr>"
  obtain r c m' where isr: "uart0_isr app_rx tx_cb st (modbus_rx_buffer s) s = map_option (Pair para)
      (app_rx modbus_receive_cb para
        (WRITE_PERI_REG (UART_INT_CLR UART0) UART_RXFIFO_TOUT_INT (s\<lparr>regs := r, clk := c, ram := m'\<rparr>)))"
    and n255: "n \<le> 255" and got: "bytes_at m' ?B n = bs" and dom: "\<And>a. (m' a = None) = (ram s a = None)"
    and fr: "\<And>a. a < ?B \<or> ?B + n \<le> a \<Longrightarrow> m' a = ram s a"
    using uart0_isr_receives [OF st v, of app_rx tx_cb] unfolding n [symmetric] Let_def cb(1) option.case
      para_def [symmetric] bs [symmetric] by blast
  define t where "t = WRITE_PERI_REG (UART_INT_CLR UART0) UART_RXFIFO_TOUT_INT (s\<lparr>regs := r, clk := c, ram := m'\<rparr>)"
  have t: "modbus_recv_frame_cb t = modbus_recv_frame_cb s" "proto_udp t = proto_udp s" "ram t = m'"
      "tcp_send_buffer t = tcp_send_buffer s" "isConnectServer t = isConnectServer s"
      "tcp_rb_send t = tcp_rb_send s" "uart1_tx_empty_cb t = uart1_tx_empty_cb s"
      "xlink_calls (log t) = xlink_calls (log s)" "reconn_cnt t = reconn_cnt s"
      "flag_dns_discovery t = flag_dns_discovery s" "isDnsFound t = isDnsFound s"
    by (simp_all add: t_def WRITE_PERI_REG_def)
  have len: "unat (rxb_len para) = n" using n255 by (simp add: para_def unat_of_nat take_bit_nat_eq_self)
  have buf: "rxb_buffer para = ?B" by (simp add: para_def)
  have "tcp_inv t" by (rule tcp_inv_cong [OF inv]) (simp_all add: dom t)
  moreover have "valid_range (ram t) ?B n" "disjoint_ranges (tcp_send_buffer t) 1024 ?B n"
    using v away n255 dom by (auto simp: t valid_range_iff disjoint_ranges_def)
  ultimately obtain s' where s': "app_rx modbus_receive_cb para t = Some s'" "uart1_tx_empty_cb s' = None"
     "rb_unread (tcp_rb_send s') (ram s') = (if frame_ok bs then ring_after t bs else rb_unread (tcp_rb_send s) m')"
     "xlink_calls (log s') = xlink_calls (log s) @ (if frame_ok bs
        then [XlinkSendUdpPipe bs (ip_word (c_remote_ip u)) (word_of_int (remote_port u))] else [])"
    using app_rx_effect [of t u para] cb u by (auto simp: t len buf got)
  have e: "rb_unread (tcp_rb_send s) m' = rb_unread (tcp_rb_send s) (ram s)"
    using inv away n255 fr by (intro rb_unread_cong) (auto simp: tcp_inv_def disjoint_ranges_def)
  then have "ring_after t bs = ring_after s bs" by (simp add: ring_after_def t)
  with s' isr e show ?thesis by (simp add: t_def)
qed

section \<open>The configuration sector\<close>

lemma write_config_effect:
  assumes v: "valid_range (ram s) data (unat n)" "valid_range (ram s) (auth_pwd_name_buf s) (max 128 (unat n))"
    and d: "disjoint_ranges (auth_pwd_name_buf s) (unat n) data (unat n)"
  shows "\<exists>m c page. user_write_config data n s = Some (n, s\<lparr>ram := m, clk := c,
        log := log s @ [Call (Io (Spi_flash_erase_sector 0x7C)), Call (Io (Spi_flash_write 0x7C000 page))]\<rparr>)
    \<and> page = bytes_at m (auth_pwd_name_buf s) 128
    \<and> bytes_at m (auth_pwd_name_buf s) (unat n) = bytes_at (ram s) data (unat n)"
proof -
  have vn: "valid_range (ram s) (auth_pwd_name_buf s) (unat n)" "valid_range (ram s) (auth_pwd_name_buf s) 128"
    using v(2) by (auto simp: valid_range_iff)
  obtain m where m: "memcpy (auth_pwd_name_buf s) data (unat n) (ram s) = Some m"
    using memcpy_Some vn(1) v(1) d by blast
  have "valid_range m (auth_pwd_name_buf s) 128" using vn by (simp add: valid_range_memcpy [OF m])
  then show ?thesis
    using m bytes_at_memcpy_dst [OF m]
    by (intro exI [of _ m] exI [of _ "Suc (Suc (clk s))"])
      (simp add: user_write_config_def os_memcpy_def call_def Let_def PRIV_PARAM_START_SECTOR_def)
qed

lemma read_config_effect:
  assumes v: "valid_range (ram s) (auth_pwd_name_buf s) 128" "valid_range (ram s) buf (unat n)"
    and d: "disjoint_ranges buf (unat n) (auth_pwd_name_buf s) (unat n)" and n: "unat n \<le> 128"
  shows "\<exists>s'. user_read_config flash buf n s = Some (n, s')
    \<and> bytes_at (ram s') buf (unat n) = map flash [0..<unat n]"
proof -
  define m1 where "m1 = fill_block (auth_pwd_name_buf s) 128 (\<lambda>a. flash (a - auth_pwd_name_buf s)) (ram s)"
  have "valid_range m1 buf (unat n)" "valid_range m1 (auth_pwd_name_buf s) (unat n)"
    using v n by (auto simp: m1_def fill_block_def valid_range_iff)
  then obtain m where m: "memcpy buf (auth_pwd_name_buf s) (unat n) m1 = Some m"
    using memcpy_Some d by blast
  have "bytes_at m1 (auth_pwd_name_buf s) (unat n) = map flash [0..<unat n]"
    using n by (auto simp: bytes_at_def m1_def fill_block_def)
  with m v(1) bytes_at_memcpy_dst [OF m] show ?thesis
    by (simp add: user_read_config_def os_memcpy_def m1_def Let_def)
qed

section \<open>Example state\<close>

text \<open>The gateway after start-up: the serial FIFO holds the two bytes of a CRC-16 without data, the ring two bytes.\<close>

definition demo_app :: app where
  "demo_app = \<lparr>regs = (\<lambda>a. 0), dev = (\<lambda>n r. r(UART_INT_ST 0 := UART_RXFIFO_TOUT_INT, UART_STATUS 0 := 2, UART_FIFO 0 := 0xFF)),
     sdk_ret = (\<lambda>n q. of_nat n), junk = (\<lambda>n a. 0), clk = 0, log = [],
     ram = (\<lambda>a. if 5000 \<le> a \<and> a < 6024 \<or> 8000 \<le> a \<and> a < 8256 \<or> 9000 \<le> a \<and> a < 9200 then Some (of_nat a) else None),
     blocks = (\<lambda>a. None),
     uart0_rx_cb = Some modbus_receive_cb, uart0_tx_empty_cb = None, uart1_tx_empty_cb = None,
     crc = \<lparr>crcH = 0, crcL = 0, idx = 0\<rparr>, modbus_rx_buffer = \<lparr>rxb_buffer = 8000, rxb_len = 0\<rparr>,
     modbus_recv_frame_cb = Some user_net_send_pipe_cb, smartconfig_status = False, sc_timeout = 60000,
     user_config = \<lparr>maclen = 6, mac = [], in_internet = 1, wifisoftVersion = 1, wifi_type = 1, pipetype = 1,
       devicetype = 0, callbacks_set = True, setServerStatus = True, process_udp_data = True,
       process_tcp_data = True\<rparr>,
     tcp_send_buffer = 5000, tcp_type = ESPCONN_TCP, tcp_state = ESPCONN_NONE, proto_tcp = None,
     tcp_rb_send = \<lparr>rb_pbuf = 5000, rb_head = 3, rb_tail = 1, rb_size = 1024, rb_lock = False\<rparr>,
     reconn_cnt = 0, isConnectServer = True, flag_dns_discovery = False, isDnsFound = True,
     remote_ip = 1, user_tcp_recv_pipe_cb = Some modbus_send_cb, udp_type = ESPCONN_UDP, udp_state = ESPCONN_NONE,
     proto_udp = Some \<lparr>remote_port = 6000, local_port = 5987, c_remote_ip = (192, 168, 1, 7)\<rparr>,
     user_udp_recv_pipe_cb = Some modbus_send_cb, auth_pwd_name_buf = 9000, keys = []\<rparr>"

definition demo_key :: single_key_param where
  "demo_key = \<lparr>key_level = 0, gpio_id = 0, gpio_func = 0, gpio_name = PERIPHS_IO_MUX_GPIO0_U,
     short_press = Some user_key_short_press_cb, long_press = Some user_key_long_press_cb\<rparr>"

lemma fifo_reads_two: "fifo_reads 2 s = fifo_reads (Suc (Suc 0)) s"
  by (simp only: numeral_2_eq_2)

lemma demo_app_facts:
  "wired demo_app" "tcp_inv demo_app" "isConnectServer demo_app" "rx_interrupt demo_app"
  "rb_used (tcp_rb_send demo_app) = 2" "rx_bytes demo_app = [0xFF, 0xFF]" "drains demo_app UART0 0x7F"
  "proto_udp demo_app = Some \<lparr>remote_port = 6000, local_port = 5987, c_remote_ip = (192, 168, 1, 7)\<rparr>"
  by (auto simp: demo_app_def wired_def valid_range_iff disjoint_ranges_def tcp_inv_def rb_inv_def
      rx_interrupt_def READ_PERI_REG_def rx_pending_def UART_RXFIFO_TOUT_INT_def
      UART_FRM_ERR_INT_def BIT_def rb_used_def rx_bytes_def rxfifo_cnt_def drains_def txfifo_cnt_def Let_def
      UART_FIFO_def UART_INT_ST_def UART_STATUS_def REG_UART_BASE_def fifo_reads_two)

section \<open>Properties\<close>

text \<open>C1. From the serial line to the network: a receive interrupt without a framing error returns, once the gateway runs
  (callbacks set as by \<^verbatim>\<open>app_init\<close>, UDP session open, TCP session within its invariant). A frame in the FIFO
  whose CRC-16 is wrong changes neither the content of the TCP send ring nor what the Xlink library has been given. A frame
  whose CRC-16 is right is passed to the UDP pipe for the stored peer; it is also appended to the bytes waiting in the ring
  when a server is connected and fewer than 1024 bytes are then waiting. Without a server the ring stays as it is, and with 1024 bytes or more
  the ring is left empty: the frame and what was waiting are lost.\<close>

theorem gateway_uplink:
  assumes "wired s" "rx_interrupt s" "tcp_inv s" "proto_udp s = Some u"
  shows "\<exists>s'. app_uart_isr s = Some s'
    \<and> rb_unread (tcp_rb_send s') (ram s') =
        (if crc_ref (rx_bytes s) 0xFFFF \<noteq> 0 \<or> \<not> isConnectServer s then rb_unread (tcp_rb_send s) (ram s)
         else if rb_used (tcp_rb_send s) + length (rx_bytes s) < 1024 then rb_unread (tcp_rb_send s) (ram s) @ rx_bytes s
         else [])
    \<and> xlink_calls (log s') = xlink_calls (log s) @
        (if crc_ref (rx_bytes s) 0xFFFF = 0
         then [XlinkSendUdpPipe (rx_bytes s) (ip_word (c_remote_ip u)) (word_of_int (remote_port u))] else [])"
proof -
  let ?st = "fst (READ_PERI_REG (UART_INT_ST UART0) s)"
  define s2 where "s2 = snd (READ_PERI_REG (UART_INT_ST UART1) (snd (READ_PERI_REG (UART_INT_ST UART0) s)))"
  obtain r c where s2: "s2 = s\<lparr>regs := r, clk := c\<rparr>" by (simp add: s2_def READ_PERI_REG_def Let_def)
  define n where "n = unat (rxfifo_cnt (dev s2 (clk s2) (regs s2) (UART_STATUS UART0)))"
  have bs: "rx_bytes s = fifo_reads n (snd (READ_PERI_REG (UART_STATUS UART0) s2))"
    by (simp add: rx_bytes_def s2_def n_def read_split Let_def)
  have w: "wired s2" "tcp_inv s2" "proto_udp s2 = Some u"
    using assms by (simp_all add: s2 wired_def tcp_inv_def)
  have st: "rx_pending ?st" "?st AND UART_FRM_ERR_INT \<noteq> UART_FRM_ERR_INT"
    using assms(2) by (simp_all add: rx_interrupt_def Let_def)
  obtain para s3 where s3: "uart0_isr app_rx (\<lambda>cb s. None) ?st (modbus_rx_buffer s2) s2 = Some (para, s3)"
      "uart1_tx_empty_cb s3 = None"
      "rb_unread (tcp_rb_send s3) (ram s3) = (if frame_ok (rx_bytes s) then ring_after s2 (rx_bytes s) else rb_unread (tcp_rb_send s2) (ram s2))"
      "xlink_calls (log s3) = xlink_calls (log s2) @ (if frame_ok (rx_bytes s)
         then [XlinkSendUdpPipe (rx_bytes s) (ip_word (c_remote_ip u)) (word_of_int (remote_port u))] else [])"
    using uart_isr_forwards [OF w st n_def bs] by blast
  have "modbus_rx_buffer s2 = modbus_rx_buffer s" by (simp add: s2)
  with s3(1) have "uart0_isr app_rx (\<lambda>cb s. None) ?st (modbus_rx_buffer s) s2 = Some (para, s3)" by simp
  from uart_isr_unfold [OF assms(1) this [unfolded s2_def] s3(2)] s3(3,4) show ?thesis
    by (auto simp: s2 frame_ok_def ring_after_def)
qed

theorem gateway_uplink_witness:
  "\<exists>s'. app_uart_isr demo_app = Some s' \<and>
     rb_unread (tcp_rb_send s') (ram s') = rb_unread (tcp_rb_send demo_app) (ram demo_app) @ [0xFF, 0xFF] \<and>
     xlink_calls (log s') = xlink_calls (log demo_app) @ [XlinkSendUdpPipe [0xFF, 0xFF] (ip_word (192, 168, 1, 7)) 6000]"
proof -
  have "crc_ref [0xFF, 0xFF] 0xFFFF = 0" by code_simp
  with gateway_uplink [OF demo_app_facts(1,4,2,8)] show ?thesis by (simp add: demo_app_facts)
qed

text \<open>C2. From the network to the serial line: a block the Xlink library delivers on the TCP pipe is
  written to the serial port byte for byte if its length is below 64 KiB and its CRC-16 is right,
  otherwise nothing is; the call returns and the memory is unchanged.\<close>

theorem gateway_downlink:
  assumes "wired s" "drains s UART0 0x7F" "valid_range (ram s) p (unat n)" "p \<noteq> NULL" "unat n < 65536"
  shows "\<exists>s'. user_tcp_pipe1_cb app_pipe p n s = Some s' \<and> ram s' = ram s \<and> log s' = log s @
     (if crc_ref (bytes_at (ram s) p (unat n)) 0xFFFF = 0
      then map (\<lambda>b. Reg_write (UART_FIFO UART0) (ucast b)) (bytes_at (ram s) p (unat n)) else [])"
proof -
  have n: "unat (ucast n :: u16) = unat n" using assms(5) by (simp add: unsigned_ucast_eq take_bit_nat_eq_self)
  obtain c s' where "modbus_send p (ucast n) s = Some s'"
     "sent UART0 (if frame_ok (bytes_at (ram s) p (unat n)) then bytes_at (ram s) p (unat n) else []) (s\<lparr>crc := c\<rparr>) s'"
    using modbus_send_effect [of s p "ucast n", unfolded n] assms(2-4) by blast
  with assms(1) show ?thesis
    by (auto simp: user_tcp_pipe1_cb_def wired_def app_pipe_def frame_ok_def sent_fields)
qed

theorem gateway_downlink_witness:
  "\<exists>s'. user_tcp_pipe1_cb app_pipe 8000 4 demo_app = Some s' \<and> ram s' = ram demo_app"
proof -
  have "valid_range (ram demo_app) 8000 (unat (4 :: u32))" by (simp add: demo_app_def valid_range_iff)
  from gateway_downlink [OF demo_app_facts(1,7) this] show ?thesis by auto
qed

text \<open>C16. No key event is lost: in every state the keys can reach from \<^verbatim>\<open>key_init\<close> by GPIO interrupts,
  expiring key timers and other activity of the gateway, a released key has its falling-edge
  interrupt enabled and both timers stopped, and a pressed key either has its rising-edge
  interrupt enabled or its 50 ms timer running.\<close>

theorem keys_never_stuck:
  assumes "distinct (map gpio_id ks)" "key_init ks s = (ks1, s1)"
    and "\<forall>i. \<not> timer_armed (key_3s i) (log s) \<and> \<not> timer_armed (key_50ms i) (log s)"
    and "key_run app_press (ks1, s1) (ks2, s2)" "i < length ks" "k = ks2 ! i"
  shows "gpio_id k = gpio_id (ks ! i) \<and>
    (key_level k = 1 \<and> pin_mode (gpio_id k) (log s2) = Some GPIO_PIN_INTR_NEGEDGE
       \<and> \<not> timer_armed (key_3s i) (log s2) \<and> \<not> timer_armed (key_50ms i) (log s2)
     \<or> key_level k = 0 \<and> (pin_mode (gpio_id k) (log s2) = Some GPIO_PIN_INTR_POSEDGE
       \<or> pin_mode (gpio_id k) (log s2) = Some GPIO_PIN_INTR_DISABLE \<and> timer_armed (key_50ms i) (log s2)))"
proof -
  have i: "keys_inv ks1 (log s1)" "map gpio_id ks1 = map gpio_id ks"
    using key_init_inv [OF assms(1,2)] assms(3) by auto
  from app_keys.key_run_keeps [OF assms(4) i(1)] i(2)
  have k: "keys_inv ks2 (log s2)" "map gpio_id ks2 = map gpio_id ks" by auto
  then have "length ks2 = length ks" using map_eq_imp_length_eq by blast
  with k(2) assms(5,6) have "gpio_id k = gpio_id (ks ! i)" by (metis nth_map)
  moreover have "key_inv i k (log s2)"
    using k(1) assms(5,6) \<open>length ks2 = length ks\<close> by (simp add: keys_inv_def)
  ultimately show ?thesis by (simp add: key_inv_def)
qed

theorem keys_never_stuck_witness:
  "\<exists>ks2 s2. key_run app_press (key_init [demo_key] demo_app) (ks2, s2) \<and> gpio_id (ks2 ! 0) = 0"
proof -
  obtain ks1 s1 where k: "key_init [demo_key] demo_app = (ks1, s1)" by fastforce
  obtain ks2 s2 where i: "key_intr_handler ks1 s1 = (ks2, s2)" by fastforce
  have run: "key_run app_press (ks1, s1) (ks2, s2)" using key_step.intr [OF i, of app_press] by blast
  have "gpio_id (ks2 ! 0) = gpio_id ([demo_key] ! 0)"
    by (rule keys_never_stuck [OF _ k _ run, THEN conjunct1]) (simp_all add: demo_app_def timer_armed_def)
  moreover have "gpio_id demo_key = 0" by (simp add: demo_key_def)
  ultimately show ?thesis using run by (auto simp: k)
qed

text \<open>Configuration round trip: a block of at most 128 bytes written by \<^verbatim>\<open>user_write_config\<close> is what
  \<^verbatim>\<open>user_read_config\<close> gives back from the page that was programmed, whatever the memory holds by
  then; and the sector is erased before it is programmed.\<close>

theorem user_config_roundtrip:
  assumes "unat n \<le> 128" "valid_range (ram s) data (unat n)" "valid_range (ram s) (auth_pwd_name_buf s) 128"
    and "disjoint_ranges (auth_pwd_name_buf s) (unat n) data (unat n)"
    and "valid_range (ram t) (auth_pwd_name_buf t) 128" "valid_range (ram t) buf (unat n)"
    and "disjoint_ranges buf (unat n) (auth_pwd_name_buf t) (unat n)"
  shows "\<exists>s' page t'. user_write_config data n s = Some (n, s')
    \<and> log s' = log s @ [Call (Io (Spi_flash_erase_sector 0x7C)), Call (Io (Spi_flash_write 0x7C000 page))]
    \<and> length page = 128
    \<and> user_read_config (\<lambda>i. page ! i) buf n t = Some (n, t')
    \<and> bytes_at (ram t') buf (unat n) = bytes_at (ram s) data (unat n)"
proof -
  have "max 128 (unat n) = 128" using assms(1) by simp
  then obtain m c where w: "user_write_config data n s = Some (n, s\<lparr>ram := m, clk := c,
        log := log s @ [Call (Io (Spi_flash_erase_sector 0x7C)),
          Call (Io (Spi_flash_write 0x7C000 (bytes_at m (auth_pwd_name_buf s) 128)))]\<rparr>)"
      "bytes_at m (auth_pwd_name_buf s) (unat n) = bytes_at (ram s) data (unat n)"
    using write_config_effect [of s data n] assms(2-4) by auto
  have "map ((!) (bytes_at m (auth_pwd_name_buf s) 128)) [0..<unat n] = bytes_at m (auth_pwd_name_buf s) (unat n)"
    using assms(1) by (auto simp: bytes_at_def)
  with w read_config_effect [OF assms(5-7,1), of "(!) (bytes_at m (auth_pwd_name_buf s) 128)"]
  show ?thesis by auto
qed

theorem user_config_roundtrip_witness:
  "\<exists>s' page t'. user_write_config 8000 100 demo_app = Some (100, s') \<and> length page = 128 \<and>
     user_read_config (\<lambda>i. page ! i) 8100 100 demo_app = Some (100, t') \<and>
     bytes_at (ram t') 8100 100 = bytes_at (ram demo_app) 8000 100"
  using user_config_roundtrip [of 100 demo_app 8000 demo_app 8100]
  by (auto simp: demo_app_def valid_range_iff disjoint_ranges_def)

text \<open>C22. \<^verbatim>\<open>user_write_config\<close> trusts the length it is given: with more than 128 bytes the copy runs past
  \<^verbatim>\<open>auth_pwd_name_buf\<close> and the bytes that follow the buffer in memory are overwritten with the
  caller's.\<close>

theorem user_write_config_overruns:
  assumes "unat n = 128 + k" "valid_range (ram s) data (unat n)"
    and "valid_range (ram s) (auth_pwd_name_buf s) (unat n)"
    and "disjoint_ranges (auth_pwd_name_buf s) (unat n) data (unat n)"
  shows "\<exists>s'. user_write_config data n s = Some (n, s')
    \<and> bytes_at (ram s') (auth_pwd_name_buf s + 128) k = bytes_at (ram s) (data + 128) k"
proof -
  have "max 128 (unat n) = unat n" using assms(1) by simp
  then obtain m c page where w: "user_write_config data n s = Some (n, s\<lparr>ram := m, clk := c,
        log := log s @ [Call (Io (Spi_flash_erase_sector 0x7C)), Call (Io (Spi_flash_write 0x7C000 page))]\<rparr>)"
      "bytes_at m (auth_pwd_name_buf s) (unat n) = bytes_at (ram s) data (unat n)"
    using write_config_effect [of s data n] assms(2-4) by auto
  then have "bytes_at m (auth_pwd_name_buf s + 128) k = bytes_at (ram s) (data + 128) k"
    by (simp add: assms(1) bytes_at_append)
  with w show ?thesis by auto
qed

theorem user_write_config_overruns_witness:
  "\<exists>s'. user_write_config 8000 130 demo_app = Some (130, s') \<and>
     bytes_at (ram s') 9128 2 = bytes_at (ram demo_app) 8128 2"
proof -
  have "valid_range (ram demo_app) 8000 130" "valid_range (ram demo_app) 9000 130" "auth_pwd_name_buf demo_app = 9000"
    "disjoint_ranges (9000 :: nat) 130 8000 130"
    by (auto simp: demo_app_def valid_range_iff disjoint_ranges_def)
  then show ?thesis using user_write_config_overruns [of 130 2 demo_app 8000] by auto
qed

end
