(* ===== verification/Hw_Timer.thy ===== *)
theory Hw_Timer
  imports Peripherals
begin

text \<open>
  The hardware timer, \<^verbatim>\<open>app/driver/hw_timer.c\<close>: conversion of microseconds to ticks of the
  FRC1 counter (80 MHz divided by 16), arming, the user callback and initialisation.
\<close>

definition APB_CLK_FREQ :: u32 where
  "APB_CLK_FREQ = 80 * 1000000"

definition US_TO_RTC_TIMER_TICKS :: "u32 \<Rightarrow> u32" where
  "US_TO_RTC_TIMER_TICKS t =
     (if t \<noteq> 0
      then if t > 0x35A
           then drop_bit 2 t * (drop_bit 4 APB_CLK_FREQ div 250000)
                + (t AND 0x3) * (drop_bit 4 APB_CLK_FREQ div 1000000)
           else t * drop_bit 4 APB_CLK_FREQ div 1000000
      else 0)"

datatype TIMER_PREDIVED_MODE = DIVDED_BY_1 | DIVDED_BY_16 | DIVDED_BY_256
datatype TIMER_INT_MODE = TM_LEVEL_INT | TM_EDGE_INT
datatype FRC1_TIMER_SOURCE_TYPE = FRC1_SOURCE | NMI_SOURCE

fun prediv_val :: "TIMER_PREDIVED_MODE \<Rightarrow> u32" where
  "prediv_val DIVDED_BY_1 = 0" | "prediv_val DIVDED_BY_16 = 4" | "prediv_val DIVDED_BY_256 = 8"

fun int_mode_val :: "TIMER_INT_MODE \<Rightarrow> u32" where
  "int_mode_val TM_LEVEL_INT = 1" | "int_mode_val TM_EDGE_INT = 0"

record hw_timer = soc +
  user_hw_timer_cb :: "callback option"

definition RTC_REG_WRITE :: "u32 \<Rightarrow> u32 \<Rightarrow> 'a soc_scheme \<Rightarrow> 'a soc_scheme" where
  "RTC_REG_WRITE addr val s = WRITE_PERI_REG (0x60000600 + addr) val s"

definition TM1_EDGE_INT_ENABLE :: "'a soc_scheme \<Rightarrow> 'a soc_scheme" where
  "TM1_EDGE_INT_ENABLE s = SET_PERI_REG_MASK (0x3ff00000 + 0x04) (BIT 1) s"

definition hw_timer_arm :: "u32 \<Rightarrow> 'a soc_scheme \<Rightarrow> 'a soc_scheme" where
  "hw_timer_arm val s = RTC_REG_WRITE 0x00 (US_TO_RTC_TIMER_TICKS val) s"

definition hw_timer_set_func :: "callback option \<Rightarrow> 'a hw_timer_scheme \<Rightarrow> 'a hw_timer_scheme" where
  "hw_timer_set_func cb s = s\<lparr>user_hw_timer_cb := cb\<rparr>"

definition hw_timer_isr_cb ::
  "(callback \<Rightarrow> 'a hw_timer_scheme \<Rightarrow> 'a hw_timer_scheme option) \<Rightarrow>
   'a hw_timer_scheme \<Rightarrow> 'a hw_timer_scheme option" where
  "hw_timer_isr_cb run s = (case user_hw_timer_cb s of None \<Rightarrow> Some s | Some cb \<Rightarrow> run cb s)"

definition hw_timer_init :: "FRC1_TIMER_SOURCE_TYPE \<Rightarrow> u8 \<Rightarrow> 'a soc_scheme \<Rightarrow> 'a soc_scheme" where
  "hw_timer_init source_type req s =
     (let s = (if req = 1
               then RTC_REG_WRITE 0x08
                      (BIT 6 OR prediv_val DIVDED_BY_16 OR BIT 7 OR int_mode_val TM_EDGE_INT) s
               else RTC_REG_WRITE 0x08 (prediv_val DIVDED_BY_16 OR BIT 7 OR int_mode_val TM_EDGE_INT) s);
          s = (if source_type = NMI_SOURCE then call (Os (Nmi_tim_set_func hw_timer_isr_cb_fn)) s
               else call (Os (Ets_isr_attach 9 hw_timer_isr_cb_fn)) s);
          s = TM1_EDGE_INT_ENABLE s
      in call (Os (Ets_isr_unmask (BIT 9))) s)"

section \<open>The conversion\<close>

text \<open>The counter runs at 5 ticks a microsecond; both branches of the macro give exactly that.\<close>

lemma ticks_consts:
  "drop_bit 4 APB_CLK_FREQ = 5000000" "drop_bit 4 APB_CLK_FREQ div 250000 = 20"
  "drop_bit 4 APB_CLK_FREQ div 1000000 = 5"
  by (simp_all add: APB_CLK_FREQ_def)

lemma split_low_two: "drop_bit 2 t * 4 + (t AND 3) = (t :: u32)"
proof -
  have "t AND 3 = take_bit 2 t" by (simp add: take_bit_eq_mask mask_eq_exp_minus_1)
  moreover have "drop_bit 2 t * 4 = push_bit 2 (drop_bit 2 t)" by (simp add: push_bit_eq_mult)
  ultimately show ?thesis using bits_ident [of 2 t] by simp
qed

lemma ticks_long: "drop_bit 2 t * 20 + (t AND 3) * 5 = 5 * (t :: u32)"
proof -
  have "drop_bit 2 t * 20 + (t AND 3) * 5 = 5 * (drop_bit 2 t * 4 + (t AND 3))"
    by (simp add: algebra_simps)
  then show ?thesis by (simp only: split_low_two)
qed

lemma ticks_short:
  assumes "t \<le> 0x35A"
  shows "t * 5000000 div 1000000 = 5 * (t :: u32)"
proof -
  have t: "unat t \<le> 858" using assms by (simp add: word_le_nat_alt)
  then have m: "unat (t * 5000000) = unat t * 5000000"
    by (simp add: unat_mult_lem [THEN iffD1])
  have "unat (t * 5000000 div 1000000) = unat (5 * t)"
    using t by (simp add: unat_div m unat_mult_lem [THEN iffD1])
  then show ?thesis by (rule word_unat_eq_iff [THEN iffD2])
qed

text \<open>The microsecond-to-tick conversion, with its case distinction against overflow, gives exactly 5
  ticks a microsecond for every 32-bit argument (modulo \<open>2\<^sup>32\<close>).\<close>

theorem US_TO_RTC_TIMER_TICKS_linear: "US_TO_RTC_TIMER_TICKS t = 5 * t"
  using ticks_long [of t] ticks_short [of t]
  by (auto simp: US_TO_RTC_TIMER_TICKS_def ticks_consts not_less)

end
