(* ===== verification/I2c_Master.thy ===== *)
theory I2c_Master
  imports Peripherals
begin

text \<open>
  The bit-banged I2C master, \<^verbatim>\<open>app/driver/i2c_master.c\<close>. The two lines are driven by
  \<^verbatim>\<open>gpio_output_set\<close> (the macros of \<^verbatim>\<open>i2c_master.h\<close>); SDA is GPIO 2 and SCL is GPIO 14.
  The specification is a bus monitor: it watches the levels in the log and reports the bits,
  start and stop conditions a listener sees.
\<close>

record i2c = soc +
  m_nLastSDA :: u8
  m_nLastSCL :: u8

definition SDA_BIT :: u32 where "SDA_BIT = push_bit 2 1"
definition SCL_BIT :: u32 where "SCL_BIT = push_bit 14 1"

definition i2c_gpio :: "u32 \<Rightarrow> u32 \<Rightarrow> 'a soc_scheme \<Rightarrow> 'a soc_scheme" where
  "i2c_gpio hi lo s = call (Io (Gpio_output_set hi lo (SDA_BIT OR SCL_BIT) 0)) s"

definition I2C_MASTER_SDA_HIGH_SCL_HIGH :: "'a soc_scheme \<Rightarrow> 'a soc_scheme" where
  "I2C_MASTER_SDA_HIGH_SCL_HIGH s = i2c_gpio (SDA_BIT OR SCL_BIT) 0 s"
definition I2C_MASTER_SDA_HIGH_SCL_LOW :: "'a soc_scheme \<Rightarrow> 'a soc_scheme" where
  "I2C_MASTER_SDA_HIGH_SCL_LOW s = i2c_gpio SDA_BIT SCL_BIT s"
definition I2C_MASTER_SDA_LOW_SCL_HIGH :: "'a soc_scheme \<Rightarrow> 'a soc_scheme" where
  "I2C_MASTER_SDA_LOW_SCL_HIGH s = i2c_gpio SCL_BIT SDA_BIT s"
definition I2C_MASTER_SDA_LOW_SCL_LOW :: "'a soc_scheme \<Rightarrow> 'a soc_scheme" where
  "I2C_MASTER_SDA_LOW_SCL_LOW s = i2c_gpio 0 (SDA_BIT OR SCL_BIT) s"

definition i2c_master_wait :: "u16 \<Rightarrow> 'a soc_scheme \<Rightarrow> 'a soc_scheme" where
  "i2c_master_wait us s = call (Os (Os_delay_us us)) s"

definition i2c_master_setDC :: "u8 \<Rightarrow> u8 \<Rightarrow> 'a i2c_scheme \<Rightarrow> 'a i2c_scheme" where
  "i2c_master_setDC SDA SCL s =
     (let SDA = SDA AND 0x01; SCL = SCL AND 0x01;
          s = s\<lparr>m_nLastSDA := SDA, m_nLastSCL := SCL\<rparr>
      in if 0 = SDA \<and> 0 = SCL then I2C_MASTER_SDA_LOW_SCL_LOW s
         else if 0 = SDA \<and> 1 = SCL then I2C_MASTER_SDA_LOW_SCL_HIGH s
         else if 1 = SDA \<and> 0 = SCL then I2C_MASTER_SDA_HIGH_SCL_LOW s
         else I2C_MASTER_SDA_HIGH_SCL_HIGH s)"

definition i2c_master_getDC :: "'a i2c_scheme \<Rightarrow> u8 \<times> 'a i2c_scheme" where
  "i2c_master_getDC s = (let (v, s) = GPIO_INPUT_GET 2 s in (ucast v, s))"

text \<open>Half a clock: set the lines, then wait.\<close>

abbreviation (input) setDC_wait :: "u8 \<Rightarrow> u8 \<Rightarrow> u16 \<Rightarrow> 'a i2c_scheme \<Rightarrow> 'a i2c_scheme" where
  "setDC_wait d c us s \<equiv> i2c_master_wait us (i2c_master_setDC d c s)"

definition i2c_master_stop :: "'a i2c_scheme \<Rightarrow> 'a i2c_scheme" where
  "i2c_master_stop s =
     (let s = i2c_master_wait 5 s;
          s = setDC_wait 0 (m_nLastSCL s) 5 s;
          s = setDC_wait 0 1 5 s
      in setDC_wait 1 1 5 s)"

definition i2c_master_start :: "'a i2c_scheme \<Rightarrow> 'a i2c_scheme" where
  "i2c_master_start s =
     (let s = setDC_wait 1 (m_nLastSCL s) 5 s;
          s = setDC_wait 1 1 5 s
      in setDC_wait 0 1 5 s)"

definition i2c_master_init :: "'a i2c_scheme \<Rightarrow> 'a i2c_scheme" where
  "i2c_master_init s =
     (let s = setDC_wait 1 0 5 s;
          s = setDC_wait 0 0 5 s;
          s = setDC_wait 1 0 5 s;
          s = ((\<lambda>s. setDC_wait 1 1 5 (setDC_wait 1 0 5 s)) ^^ 28) s
      in i2c_master_stop s)"

definition gpio_or :: "u32 \<Rightarrow> u32 \<Rightarrow> 'a soc_scheme \<Rightarrow> 'a soc_scheme" where
  "gpio_or reg m s = (let (v, s) = GPIO_REG_READ reg s in GPIO_REG_WRITE reg (v OR m) s)"

definition i2c_master_gpio_init :: "'a i2c_scheme \<Rightarrow> 'a i2c_scheme" where
  "i2c_master_gpio_init s =
     (let s = ETS_GPIO_INTR_DISABLE s;
          s = PIN_FUNC_SELECT (0x60000800 + 0x38) 0 s;
          s = PIN_FUNC_SELECT (0x60000800 + 0x0C) 3 s;
          s = gpio_or (GPIO_PIN_ADDR 2) (push_bit 2 1 AND 0x4) s;
          s = gpio_or 0x0c SDA_BIT s;
          s = gpio_or (GPIO_PIN_ADDR 14) (push_bit 2 1 AND 0x4) s;
          s = gpio_or 0x0c SCL_BIT s;
          s = I2C_MASTER_SDA_HIGH_SCL_HIGH s;
          s = ETS_GPIO_INTR_ENABLE s
      in i2c_master_init s)"

definition i2c_master_setAck :: "u8 \<Rightarrow> 'a i2c_scheme \<Rightarrow> 'a i2c_scheme" where
  "i2c_master_setAck level s =
     (let s = setDC_wait (m_nLastSDA s) 0 5 s;
          s = setDC_wait level 0 5 s;
          s = setDC_wait level 1 8 s;
          s = setDC_wait level 0 5 s
      in setDC_wait 1 0 5 s)"

definition i2c_master_getAck :: "'a i2c_scheme \<Rightarrow> u8 \<times> 'a i2c_scheme" where
  "i2c_master_getAck s =
     (let s = setDC_wait (m_nLastSDA s) 0 5 s;
          s = setDC_wait 1 0 5 s;
          s = setDC_wait 1 1 5 s;
          (retVal, s) = i2c_master_getDC s;
          s = i2c_master_wait 5 s
      in (retVal, setDC_wait 1 0 5 s))"

definition i2c_master_checkAck :: "'a i2c_scheme \<Rightarrow> bool \<times> 'a i2c_scheme" where
  "i2c_master_checkAck s = (let (v, s) = i2c_master_getAck s in (v = 0, s))"

definition i2c_master_send_ack :: "'a i2c_scheme \<Rightarrow> 'a i2c_scheme" where
  "i2c_master_send_ack s = i2c_master_setAck 0x0 s"

definition i2c_master_send_nack :: "'a i2c_scheme \<Rightarrow> 'a i2c_scheme" where
  "i2c_master_send_nack s = i2c_master_setAck 0x1 s"

text \<open>The loop of \<^verbatim>\<open>i2c_master_readByte\<close> from round \<open>i\<close> on; \<open>n\<close> rounds are left.\<close>

fun i2c_read_loop :: "nat \<Rightarrow> nat \<Rightarrow> u8 \<Rightarrow> 'a i2c_scheme \<Rightarrow> u8 \<times> 'a i2c_scheme" where
  "i2c_read_loop i 0 retVal s = (retVal, s)"
| "i2c_read_loop i (Suc n) retVal s =
     (let s = i2c_master_wait 5 s;
          s = setDC_wait 1 0 5 s;
          s = setDC_wait 1 1 5 s;
          (k, s) = i2c_master_getDC s;
          s = i2c_master_wait 5 s;
          s = (if i = 7 then i2c_master_wait 3 s else s);
          k = push_bit (7 - i) k
      in i2c_read_loop (Suc i) n (retVal OR k) s)"

definition i2c_master_readByte :: "'a i2c_scheme \<Rightarrow> u8 \<times> 'a i2c_scheme" where
  "i2c_master_readByte s =
     (let s = i2c_master_wait 5 s;
          s = setDC_wait (m_nLastSDA s) 0 5 s;
          (retVal, s) = i2c_read_loop 0 8 0 s
      in (retVal, setDC_wait 1 0 5 s))"

text \<open>The loop of \<^verbatim>\<open>i2c_master_writeByte\<close>: round \<open>i\<close> of \<open>n\<close> sends bit \<open>n - 1\<close>.\<close>

fun i2c_write_loop :: "u8 \<Rightarrow> nat \<Rightarrow> 'a i2c_scheme \<Rightarrow> 'a i2c_scheme" where
  "i2c_write_loop wrdata 0 s = s"
| "i2c_write_loop wrdata (Suc i) s =
     (let dat = drop_bit i wrdata;
          s = setDC_wait dat 0 5 s;
          s = setDC_wait dat 1 5 s;
          s = (if i = 0 then i2c_master_wait 3 s else s);
          s = setDC_wait dat 0 5 s
      in i2c_write_loop wrdata i s)"

definition i2c_master_writeByte :: "u8 \<Rightarrow> 'a i2c_scheme \<Rightarrow> 'a i2c_scheme" where
  "i2c_master_writeByte wrdata s =
     (let s = i2c_master_wait 5 s;
          s = setDC_wait (m_nLastSDA s) 0 5 s
      in i2c_write_loop wrdata 8 s)"

section \<open>The bus monitor\<close>

datatype bus_event = Start | Stop | Data bool

record bus =
  sda :: bool
  scl :: bool
  sample :: "bool option"
  seen :: "bus_event list"

text \<open>
  The data bit of a clock is what SDA had when SCL rose, provided SDA stayed put until SCL
  fell; an edge of SDA while SCL is high is a start or a stop condition.
\<close>

definition bus_levels :: "bool \<Rightarrow> bool \<Rightarrow> bus \<Rightarrow> bus" where
  "bus_levels d c b =
     (if scl b \<and> c \<and> sda b \<noteq> d
      then b\<lparr>sda := d, sample := None, seen := seen b @ [if d then Stop else Start]\<rparr>
      else if \<not> scl b \<and> c then b\<lparr>sda := d, scl := True, sample := Some d\<rparr>
      else if scl b \<and> \<not> c
      then b\<lparr>sda := d, scl := False, sample := None,
             seen := seen b @ (case sample b of None \<Rightarrow> [] | Some v \<Rightarrow> [Data v])\<rparr>
      else b\<lparr>sda := d\<rparr>)"

fun bus_step :: "io_event \<Rightarrow> bus \<Rightarrow> bus" where
  "bus_step (Call (Io (Gpio_output_set hi lo en dis))) b =
     bus_levels (if bit hi 2 then True else if bit lo 2 then False else sda b)
       (if bit hi 14 then True else if bit lo 14 then False else scl b) b"
| "bus_step e b = b"

definition monitor :: "io_event list \<Rightarrow> bus \<Rightarrow> bus" where
  "monitor l b = fold bus_step l b"

text \<open>The monitor agrees with the levels the driver remembers.\<close>

definition in_sync :: "bus \<Rightarrow> 'a i2c_scheme \<Rightarrow> bool" where
  "in_sync b s \<longleftrightarrow> m_nLastSDA s = (if sda b then 1 else 0) \<and> m_nLastSCL s = (if scl b then 1 else 0)"

definition watch :: "bus \<Rightarrow> 'a i2c_scheme \<Rightarrow> bus" where
  "watch b s = monitor (log s) b"

lemma watch_wait [simp]: "watch b (i2c_master_wait us s) = watch b s"
  by (simp add: watch_def monitor_def i2c_master_wait_def reg_simps)

lemma wait_fields [simp]:
  "m_nLastSDA (i2c_master_wait us s) = m_nLastSDA s" "m_nLastSCL (i2c_master_wait us s) = m_nLastSCL s"
  by (simp_all add: i2c_master_wait_def call_def)

lemma and_one_u8: "(x AND 1 :: u8) = (if odd x then 1 else 0)"
  by (simp add: and_one_eq odd_iff_mod_2_eq_one)

lemma sda_scl_bits:
  "bit SDA_BIT 2" "\<not> bit SDA_BIT 14" "bit SCL_BIT 14" "\<not> bit SCL_BIT 2"
  by (simp_all add: SDA_BIT_def SCL_BIT_def bit_simps)

lemma watch_setDC [simp]:
  "watch b (i2c_master_setDC d c s) = bus_levels (odd d) (odd c) (watch b s)"
  by (simp add: i2c_master_setDC_def Let_def and_one_u8 watch_def monitor_def reg_simps i2c_gpio_def
      I2C_MASTER_SDA_LOW_SCL_LOW_def I2C_MASTER_SDA_LOW_SCL_HIGH_def I2C_MASTER_SDA_HIGH_SCL_LOW_def
      I2C_MASTER_SDA_HIGH_SCL_HIGH_def bit_or_iff sda_scl_bits)

lemma setDC_fields [simp]:
  "m_nLastSDA (i2c_master_setDC d c s) = (if odd d then 1 else 0)"
  "m_nLastSCL (i2c_master_setDC d c s) = (if odd c then 1 else 0)"
  by (simp_all add: i2c_master_setDC_def Let_def and_one_u8 i2c_gpio_def call_def
      I2C_MASTER_SDA_LOW_SCL_LOW_def I2C_MASTER_SDA_LOW_SCL_HIGH_def I2C_MASTER_SDA_HIGH_SCL_LOW_def
      I2C_MASTER_SDA_HIGH_SCL_HIGH_def)

lemma getDC_fields [simp]:
  "watch b (snd (i2c_master_getDC s)) = watch b s"
  "m_nLastSDA (snd (i2c_master_getDC s)) = m_nLastSDA s"
  "m_nLastSCL (snd (i2c_master_getDC s)) = m_nLastSCL s"
  by (simp_all add: i2c_master_getDC_def GPIO_INPUT_GET_def ask_def case_prod_beta watch_def)

text \<open>The bus between two bytes: clock low, no pending sample.\<close>

definition idle_low :: "bus \<Rightarrow> bool" where
  "idle_low b \<longleftrightarrow> \<not> scl b \<and> sample b = None"

text \<open>A whole clock with data \<open>d\<close> from the idle state.\<close>

lemma clock_bit:
  assumes "idle_low b"
  shows "bus_levels d False (bus_levels d True (bus_levels d False b))
    = b\<lparr>sda := d, sample := None, seen := seen b @ [Data d]\<rparr>"
  using assms by (simp add: idle_low_def bus_levels_def)

lemma write_loop_bus:
  assumes "idle_low (watch b s)"
  shows "idle_low (watch b (i2c_write_loop w n s))
    \<and> seen (watch b (i2c_write_loop w n s)) = seen (watch b s) @ map (\<lambda>i. Data (bit w i)) (rev [0..<n])"
  using assms
proof (induction n arbitrary: s)
  case (Suc n)
  let ?s2 = "setDC_wait (drop_bit n w) 1 5 (setDC_wait (drop_bit n w) 0 5 s)"
  let ?s = "setDC_wait (drop_bit n w) 0 5 (if n = 0 then i2c_master_wait 3 ?s2 else ?s2)"
  have w: "watch b ?s = (watch b s)\<lparr>sda := bit w n, sample := None, seen := seen (watch b s) @ [Data (bit w n)]\<rparr>"
    using clock_bit [OF Suc.prems, of "bit w n"] by (cases "n = 0") (simp_all add: bit_iff_odd_drop_bit)
  then have "idle_low (watch b ?s)" using Suc.prems by (simp add: idle_low_def)
  from Suc.IH [OF this] have
    "idle_low (watch b (i2c_write_loop w n ?s)) \<and> seen (watch b (i2c_write_loop w n ?s))
      = seen (watch b s) @ map (\<lambda>i. Data (bit w i)) (rev [0..<Suc n])"
    unfolding w by simp
  then show ?case by (simp only: i2c_write_loop.simps Let_def)
qed simp

lemma writeByte_bus:
  assumes "in_sync (watch b s) s" "sample (watch b s) = None"
  shows "idle_low (watch b (i2c_master_writeByte w s))
    \<and> seen (watch b (i2c_master_writeByte w s)) =
       seen (watch b s) @ map (\<lambda>i. Data (bit w i)) [7, 6, 5, 4, 3, 2, 1, 0]"
proof -
  let ?s = "setDC_wait (m_nLastSDA s) 0 5 (i2c_master_wait 5 s)"
  have w: "watch b ?s = (watch b s)\<lparr>scl := False, sample := None\<rparr>"
    using assms by (auto simp: bus_levels_def in_sync_def)
  then have "idle_low (watch b ?s)" by (simp add: idle_low_def)
  moreover have "rev [0..<8] = [7, 6, 5, 4, 3, 2, 1, 0 :: nat]" by code_simp
  ultimately show ?thesis
    using write_loop_bus [of b ?s w 8] w
    by (simp add: i2c_master_writeByte_def Let_def idle_low_def)
qed

lemma in_sync_setDC [simp]:
  "in_sync (watch b s) s \<Longrightarrow> in_sync (watch b (i2c_master_setDC d c s)) (i2c_master_setDC d c s)"
  by (simp add: in_sync_def bus_levels_def)

lemma in_sync_wait [simp]: "in_sync b (i2c_master_wait us s) = in_sync b s"
  by (simp add: in_sync_def)

lemma in_sync_write_loop:
  "in_sync (watch b s) s \<Longrightarrow> in_sync (watch b (i2c_write_loop w n s)) (i2c_write_loop w n s)"
proof (induction n arbitrary: s)
  case (Suc n)
  let ?s2 = "setDC_wait (drop_bit n w) 1 5 (setDC_wait (drop_bit n w) 0 5 s)"
  let ?s = "setDC_wait (drop_bit n w) 0 5 (if n = 0 then i2c_master_wait 3 ?s2 else ?s2)"
  have "in_sync (watch b ?s2) ?s2"
    using Suc.prems by (simp only: in_sync_wait watch_wait in_sync_setDC)
  then have "in_sync (watch b ?s) ?s"
    by (cases "n = 0") (simp_all only: refl if_True if_False in_sync_wait watch_wait in_sync_setDC)
  from Suc.IH [OF this] show ?case by (simp only: i2c_write_loop.simps Let_def)
qed simp

lemma in_sync_writeByte:
  assumes "in_sync (watch b s) s"
  shows "in_sync (watch b (i2c_master_writeByte w s)) (i2c_master_writeByte w s)"
  using assms unfolding i2c_master_writeByte_def Let_def
  by (intro in_sync_write_loop) (simp only: in_sync_wait watch_wait in_sync_setDC)

lemma start_bus:
  assumes "in_sync (watch b s) s" "scl (watch b s)" "sda (watch b s)" "sample (watch b s) = None"
  shows "watch b (i2c_master_start s) = (watch b s)\<lparr>sda := False, seen := seen (watch b s) @ [Start]\<rparr>"
    "in_sync (watch b (i2c_master_start s)) (i2c_master_start s)"
  using assms by (simp_all add: i2c_master_start_def Let_def bus_levels_def in_sync_def)

lemma getAck_bus:
  assumes "in_sync (watch b s) s" "idle_low (watch b s)"
  shows "watch b (snd (i2c_master_getAck s)) = (watch b s)\<lparr>sda := True, seen := seen (watch b s) @ [Data True]\<rparr>"
    "in_sync (watch b (snd (i2c_master_getAck s))) (snd (i2c_master_getAck s))"
  using assms
  by (simp_all add: i2c_master_getAck_def Let_def case_prod_beta bus_levels_def in_sync_def idle_low_def)

lemma stop_bus:
  assumes "in_sync (watch b s) s" "idle_low (watch b s)"
  shows "watch b (i2c_master_stop s) = (watch b s)\<lparr>sda := True, scl := True, seen := seen (watch b s) @ [Stop]\<rparr>"
  using assms by (simp add: i2c_master_stop_def Let_def bus_levels_def in_sync_def idle_low_def)

section \<open>Reading\<close>

lemma step_clk [simp]:
  "clk (i2c_master_wait us s) = Suc (clk s)" "clk (i2c_master_setDC d c s) = Suc (clk s)"
  "sdk_ret (i2c_master_wait us s) = sdk_ret s" "sdk_ret (i2c_master_setDC d c s) = sdk_ret s"
  by (simp_all add: i2c_master_wait_def i2c_master_setDC_def Let_def reg_simps i2c_gpio_def
      I2C_MASTER_SDA_LOW_SCL_LOW_def I2C_MASTER_SDA_LOW_SCL_HIGH_def I2C_MASTER_SDA_HIGH_SCL_LOW_def
      I2C_MASTER_SDA_HIGH_SCL_HIGH_def)

lemma getDC_value [simp]:
  "bit (fst (i2c_master_getDC s)) n \<longleftrightarrow> n = 0 \<and> bit (sdk_ret s (clk s) gpio_input_get) 2"
  "clk (snd (i2c_master_getDC s)) = Suc (clk s)" "sdk_ret (snd (i2c_master_getDC s)) = sdk_ret s"
  by (auto simp: i2c_master_getDC_def GPIO_INPUT_GET_def ask_def bit_simps numeral_2_eq_2)

lemma read_loop_bits:
  assumes "i + n = 8"
  shows "bit (fst (i2c_read_loop i n r s)) m \<longleftrightarrow> bit r m \<or>
     (\<exists>j<n. m = 7 - (i + j) \<and> bit (sdk_ret s (clk s + 5 + 7 * j) gpio_input_get) 2)"
  using assms
proof (induction n arbitrary: i r s)
  case (Suc n)
  let ?p = "i2c_master_getDC (setDC_wait 1 1 5 (setDC_wait 1 0 5 (i2c_master_wait 5 s)))"
  let ?w = "i2c_master_wait 5 (snd ?p)"
  let ?s = "if i = 7 then i2c_master_wait 3 ?w else ?w"
  let ?r = "r OR push_bit (7 - i) (fst ?p)"
  have i: "i < 8" using Suc.prems by simp
  have step: "i2c_read_loop i (Suc n) r s = i2c_read_loop (Suc i) n ?r ?s"
    by (simp add: Let_def case_prod_beta del: One_nat_def)
  have r: "bit ?r m \<longleftrightarrow> bit r m \<or> m = 7 - i \<and> bit (sdk_ret s (clk s + 5) gpio_input_get) 2"
    using i by (auto simp: bit_or_iff bit_push_bit_iff numeral_eq_Suc)
  have sdk: "sdk_ret ?s = sdk_ret s" by simp
  have later: "n = 0 \<or> clk ?s = clk s + 7" using Suc.prems by (auto simp: numeral_eq_Suc)
  have shift: "(\<exists>j<n. m = 7 - (Suc i + j) \<and> bit (sdk_ret s (clk ?s + 5 + 7 * j) gpio_input_get) 2)
      \<longleftrightarrow> (\<exists>j<Suc n. 0 < j \<and> m = 7 - (i + j) \<and> bit (sdk_ret s (clk s + 5 + 7 * j) gpio_input_get) 2)"
    (is "?L \<longleftrightarrow> ?R")
  proof
    assume ?L
    then obtain j where "j < n" "m = 7 - (Suc i + j)" "bit (sdk_ret s (clk ?s + 5 + 7 * j) gpio_input_get) 2" by blast
    then show ?R using later by (intro exI [of _ "Suc j"]) (auto simp: algebra_simps)
  next
    assume ?R
    then obtain j where "j < Suc n" "0 < j" "m = 7 - (i + j)" "bit (sdk_ret s (clk s + 5 + 7 * j) gpio_input_get) 2" by blast
    then show ?L using later by (intro exI [of _ "j - 1"]) (cases j; auto simp: algebra_simps)
  qed
  have "Suc i + n = 8" using Suc.prems by simp
  from Suc.IH [OF this, of ?r ?s] show ?case
    unfolding step r sdk shift by (auto simp: less_Suc_eq_0_disj)
qed simp

section \<open>Properties\<close>

text \<open>On a free bus, start, one byte, the acknowledge clock and stop are seen by a listener as exactly a
  start condition, the eight bits of the byte most significant first, one clock with SDA
  released, and a stop condition; the bus is free again afterwards.\<close>

theorem i2c_transfer_frame:
  assumes "in_sync (watch b s) s" "scl (watch b s)" "sda (watch b s)" "sample (watch b s) = None"
    and "s' = i2c_master_stop (snd (i2c_master_getAck (i2c_master_writeByte w (i2c_master_start s))))"
  shows "seen (watch b s') = seen (watch b s) @
       [Start] @ map (\<lambda>i. Data (bit w i)) [7, 6, 5, 4, 3, 2, 1, 0] @ [Data True, Stop]
     \<and> scl (watch b s') \<and> sda (watch b s')"
proof -
  note st = start_bus [OF assms(1-4)]
  have "sample (watch b (i2c_master_start s)) = None" using st(1) assms(4) by simp
  note wr = writeByte_bus [OF st(2) this, of w]
  note sy = in_sync_writeByte [OF st(2), of w]
  note ack = getAck_bus [OF sy conjunct1 [OF wr]]
  have "idle_low (watch b (snd (i2c_master_getAck (i2c_master_writeByte w (i2c_master_start s)))))"
    using ack(1) wr by (simp add: idle_low_def)
  from stop_bus [OF ack(2) this] ack(1) wr st(1) assms(5) show ?thesis by simp
qed

definition demo_i2c :: i2c where
  "demo_i2c = \<lparr>regs = (\<lambda>a. 0), dev = (\<lambda>n r. r), sdk_ret = (\<lambda>n q. of_nat n), junk = (\<lambda>n a. 0), clk = 0,
     log = [], ram = (\<lambda>a. None), blocks = (\<lambda>a. None), m_nLastSDA = 1, m_nLastSCL = 1\<rparr>"

theorem i2c_transfer_frame_witness:
  "seen (watch \<lparr>sda = True, scl = True, sample = None, seen = []\<rparr>
      (i2c_master_stop (snd (i2c_master_getAck (i2c_master_writeByte 0xA5 (i2c_master_start demo_i2c))))))
   = [Start, Data True, Data False, Data True, Data False, Data False, Data True, Data False, Data True,
      Data True, Stop]"
  using i2c_transfer_frame [where b = "\<lparr>sda = True, scl = True, sample = None, seen = []\<rparr>"
      and s = demo_i2c and w = "0xA5", OF _ _ _ _ refl]
  by (simp add: demo_i2c_def watch_def monitor_def in_sync_def)

text \<open>The byte that \<^verbatim>\<open>i2c_master_readByte\<close> returns has as its bits, most significant first, the eight
  levels of SDA the driver sampled, each at its own clock.\<close>

theorem i2c_master_readByte_bits:
  "i < 8 \<Longrightarrow> bit (fst (i2c_master_readByte s)) (7 - i) \<longleftrightarrow>
     bit (sdk_ret s (clk s + 8 + 7 * i) gpio_input_get) 2"
proof -
  assume i: "i < 8"
  let ?s = "setDC_wait (m_nLastSDA s) 0 5 (i2c_master_wait 5 s)"
  have "fst (i2c_master_readByte s) = fst (i2c_read_loop 0 8 0 ?s)"
    by (simp add: i2c_master_readByte_def Let_def case_prod_beta)
  moreover have "(\<exists>j<8. 7 - i = 7 - (0 + j) \<and> bit (sdk_ret ?s (clk ?s + 5 + 7 * j) gpio_input_get) 2)
      \<longleftrightarrow> bit (sdk_ret s (clk s + 8 + 7 * i) gpio_input_get) 2" (is "?L \<longleftrightarrow> ?R")
  proof
    assume ?L
    then obtain j where "j < 8" "7 - i = 7 - (0 + j)" "bit (sdk_ret ?s (clk ?s + 5 + 7 * j) gpio_input_get) 2"
      by blast
    moreover have "j = i" using calculation i by arith
    ultimately show ?R by (simp add: numeral_eq_Suc)
  next
    assume ?R
    with i show ?L by (intro exI [of _ i]) (simp add: numeral_eq_Suc)
  qed
  ultimately show ?thesis using read_loop_bits [of 0 8 0 ?s "7 - i"] by simp
qed

theorem i2c_master_readByte_bits_witness:
  "bit (fst (i2c_master_readByte demo_i2c)) 6 \<longleftrightarrow> bit (sdk_ret demo_i2c 15 gpio_input_get) 2"
  using i2c_master_readByte_bits [of 1 demo_i2c] by (simp add: demo_i2c_def)

end
