(* ===== verification/Mqtt_Ringbuf.thy ===== *)
theory Mqtt_Ringbuf
  imports Circular
begin

text \<open>
  The ring buffer of the MQTT client, \<^verbatim>\<open>examples/esp_mqtt_proj/mqtt/ringbuf.c\<close>: three pointers into
  a byte array and a fill count. \<^verbatim>\<open>I32\<close> and the \<^verbatim>\<open>I16\<close> results are integers: the count is only
  increased below \<^verbatim>\<open>size\<close> and only decreased above 0, so it never leaves its 32 bits.
\<close>

record RINGBUF =
  p_o :: ptr
  p_r :: ptr
  p_w :: ptr
  fill_cnt :: int
  ring_size :: int

definition RINGBUF_Init :: "RINGBUF option \<Rightarrow> ptr \<Rightarrow> int \<Rightarrow> int \<times> RINGBUF option" where
  "RINGBUF_Init r buf sz =
     (case r of
        None \<Rightarrow> (-1, None)
      | Some r \<Rightarrow> if buf = NULL \<or> sz < 2 then (-1, Some r)
                   else (0, Some (r\<lparr>p_o := buf, p_r := buf, p_w := buf, fill_cnt := 0, ring_size := sz\<rparr>)))"

definition RINGBUF_Put :: "RINGBUF \<Rightarrow> u8 \<Rightarrow> mem \<Rightarrow> (int \<times> RINGBUF \<times> mem) option" where
  "RINGBUF_Put r c m =
     (if ring_size r \<le> fill_cnt r then Some (-1, r, m)
      else let r = r\<lparr>fill_cnt := fill_cnt r + 1\<rparr>
           in if m (p_w r) = None then None
              else let m = m(p_w r \<mapsto> c);
                       r = r\<lparr>p_w := p_w r + 1\<rparr>;
                       r = (if p_o r + nat (ring_size r) \<le> p_w r then r\<lparr>p_w := p_o r\<rparr> else r)
                   in Some (0, r, m))"

text \<open>\<^verbatim>\<open>*c\<close> is passed in and returned; it keeps its value when the buffer is empty.\<close>

definition RINGBUF_Get :: "RINGBUF \<Rightarrow> u8 \<Rightarrow> mem \<Rightarrow> (int \<times> u8 \<times> RINGBUF) option" where
  "RINGBUF_Get r c m =
     (if fill_cnt r \<le> 0 then Some (-1, c, r)
      else let r = r\<lparr>fill_cnt := fill_cnt r - 1\<rparr>
           in do { c \<leftarrow> m (p_r r);
                   let r = r\<lparr>p_r := p_r r + 1\<rparr>;
                   let r = (if p_o r + nat (ring_size r) \<le> p_r r then r\<lparr>p_r := p_o r\<rparr> else r);
                   Some (0, c, r) })"

section \<open>A queue of bytes\<close>

definition ringbuf_inv :: "RINGBUF \<Rightarrow> mem \<Rightarrow> bool" where
  "ringbuf_inv r m \<longleftrightarrow> 2 \<le> ring_size r \<and> 0 \<le> fill_cnt r \<and> fill_cnt r \<le> ring_size r
     \<and> p_o r \<le> p_r r \<and> p_r r < p_o r + nat (ring_size r)
     \<and> p_w r = slot (p_o r) (nat (ring_size r)) (p_r r - p_o r) (nat (fill_cnt r))
     \<and> valid_range m (p_o r) (nat (ring_size r))"

definition ringbuf_bytes :: "RINGBUF \<Rightarrow> mem \<Rightarrow> u8 list" where
  "ringbuf_bytes r m = circ (p_o r) (nat (ring_size r)) (p_r r - p_o r) (nat (fill_cnt r)) m"

text \<open>The storage, which no operation moves.\<close>

definition same_store :: "RINGBUF \<Rightarrow> RINGBUF \<Rightarrow> bool" where
  "same_store r r' \<longleftrightarrow> p_o r' = p_o r \<and> ring_size r' = ring_size r"

lemma length_ringbuf_bytes [simp]: "length (ringbuf_bytes r m) = nat (fill_cnt r)"
  by (simp add: ringbuf_bytes_def)

lemma same_store_refl [simp]: "same_store r r"
  by (simp add: same_store_def)

lemma same_store_trans: "same_store r r1 \<Longrightarrow> same_store r1 r2 \<Longrightarrow> same_store r r2"
  by (simp add: same_store_def)

lemma slot_next:
  assumes "0 < S"
  shows "(if base + S \<le> slot base S k i + 1 then base else slot base S k i + 1) = slot base S k (Suc i)"
proof (cases "Suc ((k + i) mod S) = S")
  case True
  then show ?thesis by (simp add: slot_def mod_Suc)
next
  case False
  with assms have "Suc ((k + i) mod S) < S" by (metis Suc_lessI mod_less_divisor)
  then show ?thesis by (simp add: slot_def mod_Suc)
qed

lemma RINGBUF_Init_empty:
  assumes "buf \<noteq> NULL" "2 \<le> n" "valid_range m buf (nat n)"
  shows "\<exists>r'. RINGBUF_Init (Some r) buf n = (0, Some r') \<and> ringbuf_inv r' m \<and> ringbuf_bytes r' m = []
    \<and> p_o r' = buf \<and> ring_size r' = n"
  using assms by (auto simp: RINGBUF_Init_def ringbuf_inv_def ringbuf_bytes_def slot_def)

lemma RINGBUF_Put_full:
  "length (ringbuf_bytes r m) = nat (ring_size r) \<Longrightarrow> ringbuf_inv r m \<Longrightarrow> RINGBUF_Put r c m = Some (-1, r, m)"
  by (auto simp: RINGBUF_Put_def ringbuf_inv_def)

lemma RINGBUF_Put_room:
  assumes inv: "ringbuf_inv r m" and room: "length (ringbuf_bytes r m) < nat (ring_size r)"
  shows "\<exists>r' m'. RINGBUF_Put r c m = Some (0, r', m') \<and> ringbuf_inv r' m' \<and> same_store r r'
    \<and> ringbuf_bytes r' m' = ringbuf_bytes r m @ [c]
    \<and> (\<forall>a. a < p_o r \<or> p_o r + nat (ring_size r) \<le> a \<longrightarrow> m' a = m a) \<and> (\<forall>a. (m' a = None) = (m a = None))"
proof -
  define S where "S = nat (ring_size r)"
  define k where "k = p_r r - p_o r"
  define n where "n = nat (fill_cnt r)"
  have S: "2 \<le> S" "n < S" and w: "p_w r = slot (p_o r) S k n" and v: "valid_range m (p_o r) S"
    and pos: "0 \<le> fill_cnt r" "fill_cnt r < ring_size r"
    using inv room by (auto simp: ringbuf_inv_def S_def k_def n_def)
  let ?m = "m(slot (p_o r) S k n \<mapsto> c)"
  have rg: "p_o r \<le> slot (p_o r) S k n" "slot (p_o r) S k n < p_o r + S"
    using slot_range [of S "p_o r" k n] S by auto
  have dom: "m (slot (p_o r) S k n) \<noteq> None"
    using v rg by (auto simp: valid_range_iff dest: spec [of _ "slot (p_o r) S k n - p_o r"])
  let ?r = "r\<lparr>fill_cnt := fill_cnt r + 1, p_w := slot (p_o r) S k (Suc n)\<rparr>"
  have n1: "nat (fill_cnt r + 1) = Suc n" using pos by (simp add: n_def nat_add_distrib)
  have put: "RINGBUF_Put r c m = Some (0, ?r, ?m)"
    using pos dom slot_next [of S "p_o r" k n] S
    by (auto simp: RINGBUF_Put_def w Let_def S_def [symmetric])
  have "circ_put (p_o r) S (k + n) [c] m ?m"
    using circ_put_store [of S "p_o r" "k + n" c m] S by (simp add: slot_add)
  from circ_append [OF this] have "circ (p_o r) S k (Suc n) ?m = circ (p_o r) S k n m @ [c]"
    using S by simp
  then have eq: "ringbuf_bytes ?r ?m = ringbuf_bytes r m @ [c]"
    by (simp add: ringbuf_bytes_def n1 S_def [symmetric] k_def [symmetric] n_def [symmetric])
  have "valid_range ?m (p_o r) S" using v by (auto simp: valid_range_iff)
  then have "ringbuf_inv ?r ?m"
    using inv pos by (simp add: ringbuf_inv_def n1 S_def [symmetric] k_def [symmetric])
  with put eq dom rg show ?thesis
    by (intro exI [of _ ?r] exI [of _ ?m]) (auto simp: same_store_def S_def)
qed

lemma RINGBUF_Get_empty: "ringbuf_bytes r m = [] \<Longrightarrow> ringbuf_inv r m \<Longrightarrow> RINGBUF_Get r c m = Some (-1, c, r)"
  by (auto simp: RINGBUF_Get_def ringbuf_inv_def dest: arg_cong [of _ _ length])

lemma RINGBUF_Get_next:
  assumes inv: "ringbuf_inv r m" and bs: "ringbuf_bytes r m = b # bs"
  shows "\<exists>r'. RINGBUF_Get r c m = Some (0, b, r') \<and> ringbuf_inv r' m \<and> same_store r r' \<and> ringbuf_bytes r' m = bs"
proof -
  define S where "S = nat (ring_size r)"
  define k where "k = p_r r - p_o r"
  have k: "k < S" "p_r r = slot (p_o r) S k 0" and S: "2 \<le> S" and v: "valid_range m (p_o r) S"
    using inv by (auto simp: ringbuf_inv_def S_def k_def slot_def)
  have "length (ringbuf_bytes r m) = Suc (length bs)" using bs by simp
  then have n: "nat (fill_cnt r) = Suc (length bs)" by simp
  then have n1: "nat (fill_cnt r - 1) = length bs" and pos: "0 < fill_cnt r" by auto
  have c: "circ (p_o r) S k (Suc (length bs)) m = b # bs"
    using bs n by (simp add: ringbuf_bytes_def S_def k_def)
  have "circ (p_o r) S k 1 m @ circ (p_o r) S (k + 1) (length bs) m = b # bs"
    using c circ_split [of 1 "Suc (length bs)" "p_o r" S k m] by simp
  then have b: "the (m (slot (p_o r) S k 0)) = b" and rest: "circ (p_o r) S (k + 1) (length bs) m = bs"
    by (simp_all add: circ_def)
  have rg: "p_o r \<le> slot (p_o r) S k i" "slot (p_o r) S k i < p_o r + S" for i
    using slot_range [of S "p_o r" k i] S by auto
  have "m (slot (p_o r) S k 0) \<noteq> None"
    using v rg [of 0] by (auto simp: valid_range_iff dest: spec [of _ "slot (p_o r) S k 0 - p_o r"])
  with b have m: "m (slot (p_o r) S k 0) = Some b" by auto
  let ?r = "r\<lparr>fill_cnt := fill_cnt r - 1, p_r := slot (p_o r) S k 1\<rparr>"
  have get: "RINGBUF_Get r c m = Some (0, b, ?r)"
    using pos m slot_next [of S "p_o r" k 0] S
    by (auto simp: RINGBUF_Get_def k(2) Let_def S_def [symmetric])
  have k1: "slot (p_o r) S k (Suc 0) - p_o r = Suc k mod S" by (simp add: slot_def)
  have eq: "ringbuf_bytes ?r m = bs"
    using rest by (simp add: ringbuf_bytes_def n1 S_def [symmetric] k1 circ_mod)
  have "slot (p_o r) S (Suc k mod S) (length bs) = slot (p_o r) S k (Suc (length bs))"
    using slot_add [of "p_o r" S k 1] by (simp add: slot_mod)
  then have "ringbuf_inv ?r m"
    using inv pos rg [of 1] n by (simp add: ringbuf_inv_def n1 S_def [symmetric] k1 k_def [symmetric])
  with get eq show ?thesis by (auto simp: same_store_def)
qed

lemma ringbuf_frame:
  assumes "ringbuf_inv r m" "\<And>a. p_o r \<le> a \<Longrightarrow> a < p_o r + nat (ring_size r) \<Longrightarrow> m' a = m a"
  shows "ringbuf_inv r m'" "ringbuf_bytes r m' = ringbuf_bytes r m"
proof -
  show "ringbuf_inv r m'" using assms by (auto simp: ringbuf_inv_def valid_range_iff)
  have "0 < nat (ring_size r)" using assms(1) by (auto simp: ringbuf_inv_def)
  then show "ringbuf_bytes r m' = ringbuf_bytes r m"
    unfolding ringbuf_bytes_def using assms(2) by (intro circ_frame) auto
qed

lemma ringbuf_bytes_le: "ringbuf_inv r m \<Longrightarrow> length (ringbuf_bytes r m) \<le> nat (ring_size r)"
  by (auto simp: ringbuf_inv_def)

end
