(* ===== verification/Mqtt_Proto.thy ===== *)
theory Mqtt_Proto
  imports Mqtt_Ringbuf Peripherals
begin

text \<open>
  The packet framing of the MQTT client's message queue, \<^verbatim>\<open>mqtt/proto.c\<close>, and the queue itself,
  \<^verbatim>\<open>mqtt/queue.c\<close>. A packet is stored between the bytes 7E and 7F, with 7D, 7E and 7F escaped.

  The results of type \<^verbatim>\<open>I8\<close>, \<^verbatim>\<open>I16\<close> are integers; a 16-bit counter that is returned is read as
  signed (\<open>sint\<close>). \<^verbatim>\<open>while (len--)\<close> on a \<^verbatim>\<open>short\<close> runs as often as its bits read as an unsigned number.
  The parser on the stack of \<^verbatim>\<open>PROTO_ParseRb\<close> is not initialised completely: its earlier content
  is the argument \<open>stk\<close>.
\<close>

record PROTO_PARSER =
  pp_buf :: ptr
  bufSize :: u16
  dataLen :: u16
  isEsc :: u8
  isBegin :: u8
  pp_callback :: "(mem \<Rightarrow> mem option) option"

definition PROTO_Init :: "PROTO_PARSER \<Rightarrow> (mem \<Rightarrow> mem option) option \<Rightarrow> ptr \<Rightarrow> u16 \<Rightarrow> int \<times> PROTO_PARSER" where
  "PROTO_Init parser completeCallback buf sz =
     (0, parser\<lparr>pp_buf := buf, bufSize := sz, dataLen := 0, pp_callback := completeCallback, isEsc := 0\<rparr>)"

definition PROTO_ParseByte :: "PROTO_PARSER \<Rightarrow> u8 \<Rightarrow> mem \<Rightarrow> (int \<times> PROTO_PARSER \<times> mem) option" where
  "PROTO_ParseByte parser value m =
     (if value = 0x7D then Some (-1, parser\<lparr>isEsc := 1\<rparr>, m)
      else if value = 0x7E then Some (-1, parser\<lparr>dataLen := 0, isEsc := 0, isBegin := 1\<rparr>, m)
      else if value = 0x7F
      then do { m \<leftarrow> (case pp_callback parser of None \<Rightarrow> Some m | Some cb \<Rightarrow> cb m);
                Some (0, parser\<lparr>isBegin := 0\<rparr>, m) }
      else if isBegin parser = 0 then Some (-1, parser, m)
      else let value = (if isEsc parser \<noteq> 0 then value XOR 0x20 else value);
               parser = (if isEsc parser \<noteq> 0 then parser\<lparr>isEsc := 0\<rparr> else parser)
           in if dataLen parser < bufSize parser
              then if m (pp_buf parser + unat (dataLen parser)) = None then None
                   else Some (-1, parser\<lparr>dataLen := dataLen parser + 1\<rparr>,
                              m(pp_buf parser + unat (dataLen parser) \<mapsto> value))
              else Some (-1, parser, m))"

fun proto_parse_loop :: "PROTO_PARSER \<Rightarrow> ptr \<Rightarrow> nat \<Rightarrow> mem \<Rightarrow> (PROTO_PARSER \<times> mem) option" where
  "proto_parse_loop parser buf 0 m = Some (parser, m)"
| "proto_parse_loop parser buf (Suc n) m =
     do { v \<leftarrow> m buf; (_, parser, m) \<leftarrow> PROTO_ParseByte parser v m; proto_parse_loop parser (buf + 1) n m }"

definition PROTO_Parse :: "PROTO_PARSER \<Rightarrow> ptr \<Rightarrow> u16 \<Rightarrow> mem \<Rightarrow> (int \<times> PROTO_PARSER \<times> mem) option" where
  "PROTO_Parse parser buf len m =
     do { (parser, m) \<leftarrow> proto_parse_loop parser buf (unat len) m; Some (0, parser, m) }"

partial_function (option) parse_rb_loop ::
  "PROTO_PARSER \<Rightarrow> u8 \<Rightarrow> RINGBUF \<Rightarrow> mem \<Rightarrow> (int \<times> PROTO_PARSER \<times> RINGBUF \<times> mem) option" where
  "parse_rb_loop proto c rb m =
     do { (g, c, rb) \<leftarrow> RINGBUF_Get rb c m;
          if g = 0
          then do { (r, proto, m) \<leftarrow> PROTO_ParseByte proto c m;
                    if r = 0 then Some (0, proto, rb, m) else parse_rb_loop proto c rb m }
          else Some (-1, proto, rb, m) }"

definition PROTO_ParseRb ::
  "PROTO_PARSER \<Rightarrow> u8 \<Rightarrow> RINGBUF \<Rightarrow> ptr \<Rightarrow> u16 \<Rightarrow> u16 \<Rightarrow> mem \<Rightarrow> (int \<times> u16 \<times> RINGBUF \<times> mem) option" where
  "PROTO_ParseRb stk c rb bufOut len maxBufLen m =
     (let proto = snd (PROTO_Init stk None bufOut maxBufLen)
      in do { (r, proto, rb, m) \<leftarrow> parse_rb_loop proto c rb m;
              if r = 0 then Some (0, dataLen proto, rb, m) else Some (-1, len, rb, m) })"

fun proto_add_loop :: "ptr \<Rightarrow> ptr \<Rightarrow> nat \<Rightarrow> int \<Rightarrow> u16 \<Rightarrow> mem \<Rightarrow> (int \<times> mem) option" where
  "proto_add_loop buf packet 0 bsz i m =
     (if bsz < 1 then Some (-1, m)
      else if m buf = None then None else Some (sint i, m(buf \<mapsto> 0x7F)))"
| "proto_add_loop buf packet (Suc n) bsz i m =
     do { v \<leftarrow> m packet;
          if v = 0x7D \<or> v = 0x7E \<or> v = 0x7F
          then if bsz < 2 then Some (-1, m)
               else if m buf = None \<or> m (buf + 1) = None then None
               else do { let m = m(buf \<mapsto> 0x7D);
                         v \<leftarrow> m packet;
                         proto_add_loop (buf + 2) (packet + 1) n (bsz - 2) (i + 2) (m(buf + 1 \<mapsto> v XOR 0x20)) }
          else if bsz < 1 then Some (-1, m)
               else if m buf = None then None
               else proto_add_loop (buf + 1) (packet + 1) n (bsz - 1) (i + 1) (m(buf \<mapsto> v)) }"

definition PROTO_Add :: "ptr \<Rightarrow> ptr \<Rightarrow> int \<Rightarrow> mem \<Rightarrow> (int \<times> mem) option" where
  "PROTO_Add buf packet bsz m =
     do { lo \<leftarrow> m packet; hi \<leftarrow> m (packet + 1);
          let len = (ucast lo OR push_bit 8 (ucast hi) :: u16);
          if bsz < 1 then Some (-1, m)
          else if m buf = None then None
          else proto_add_loop (buf + 1) packet (unat len) (bsz - 1) 2 (m(buf \<mapsto> 0x7E)) }"

text \<open>\<^verbatim>\<open>if(RINGBUF_Put(rb, x) == -1) return -1;\<close> followed by the rest of the function.\<close>

definition put_or_fail ::
  "RINGBUF \<Rightarrow> u8 \<Rightarrow> mem \<Rightarrow> (RINGBUF \<Rightarrow> mem \<Rightarrow> (int \<times> RINGBUF \<times> mem) option) \<Rightarrow> (int \<times> RINGBUF \<times> mem) option" where
  "put_or_fail rb x m rest =
     do { (r, rb, m) \<leftarrow> RINGBUF_Put rb x m; if r = -1 then Some (-1, rb, m) else rest rb m }"

fun add_rb_loop :: "ptr \<Rightarrow> nat \<Rightarrow> u16 \<Rightarrow> RINGBUF \<Rightarrow> mem \<Rightarrow> (int \<times> RINGBUF \<times> mem) option" where
  "add_rb_loop packet 0 i rb m = put_or_fail rb 0x7F m (\<lambda>rb m. Some (sint i, rb, m))"
| "add_rb_loop packet (Suc n) i rb m =
     do { v \<leftarrow> m packet;
          if v = 0x7D \<or> v = 0x7E \<or> v = 0x7F
          then put_or_fail rb 0x7D m (\<lambda>rb m.
                 do { v \<leftarrow> m packet;
                      put_or_fail rb (v XOR 0x20) m (\<lambda>rb m. add_rb_loop (packet + 1) n (i + 2) rb m) })
          else put_or_fail rb v m (\<lambda>rb m. add_rb_loop (packet + 1) n (i + 1) rb m) }"

definition PROTO_AddRb :: "RINGBUF \<Rightarrow> ptr \<Rightarrow> u16 \<Rightarrow> mem \<Rightarrow> (int \<times> RINGBUF \<times> mem) option" where
  "PROTO_AddRb rb packet len m =
     put_or_fail rb 0x7E m (\<lambda>rb m. add_rb_loop packet (unat len) 2 rb m)"

section \<open>queue.c\<close>

record QUEUE =
  q_buf :: ptr
  q_rb :: RINGBUF

definition QUEUE_Init :: "QUEUE \<Rightarrow> int \<Rightarrow> 'a soc_scheme \<Rightarrow> QUEUE \<times> 'a soc_scheme" where
  "QUEUE_Init queue bufferSize s =
     (let (p, s) = os_zalloc (nat bufferSize) s;
          queue = queue\<lparr>q_buf := p\<rparr>;
          (_, rb) = RINGBUF_Init (Some (q_rb queue)) (q_buf queue) bufferSize
      in (queue\<lparr>q_rb := the rb\<rparr>, s))"

definition QUEUE_Puts :: "QUEUE \<Rightarrow> ptr \<Rightarrow> u16 \<Rightarrow> mem \<Rightarrow> (int \<times> QUEUE \<times> mem) option" where
  "QUEUE_Puts queue buffer len m =
     do { (r, rb, m) \<leftarrow> PROTO_AddRb (q_rb queue) buffer len m; Some (r, queue\<lparr>q_rb := rb\<rparr>, m) }"

definition QUEUE_Gets ::
  "PROTO_PARSER \<Rightarrow> u8 \<Rightarrow> QUEUE \<Rightarrow> ptr \<Rightarrow> u16 \<Rightarrow> u16 \<Rightarrow> mem \<Rightarrow> (int \<times> u16 \<times> QUEUE \<times> mem) option" where
  "QUEUE_Gets stk c queue buffer len maxLen m =
     do { (r, len, rb, m) \<leftarrow> PROTO_ParseRb stk c (q_rb queue) buffer len maxLen m;
          Some (r, len, queue\<lparr>q_rb := rb\<rparr>, m) }"

definition QUEUE_IsEmpty :: "QUEUE \<Rightarrow> bool" where
  "QUEUE_IsEmpty queue \<longleftrightarrow> fill_cnt (q_rb queue) \<le> 0"

end
