(* ===== verification/Mqtt_Queue.thy ===== *)
theory Mqtt_Queue
  imports Mqtt_Proto
begin

text \<open>
  The message queue of the MQTT client refines a queue of packets. The bytes in the ring are
  frames with torn pieces between them, left by writes that ran out of room; the pieces are
  skipped when the next frame is read.
\<close>

section \<open>Frames\<close>

definition esc :: "u8 \<Rightarrow> u8 list" where
  "esc b = (if b = 0x7D \<or> b = 0x7E \<or> b = 0x7F then [0x7D, b XOR 0x20] else [b])"

definition frame :: "u8 list \<Rightarrow> u8 list" where
  "frame p = 0x7E # concat (map esc p) @ [0x7F]"

inductive frames :: "u8 list list \<Rightarrow> u8 list \<Rightarrow> bool" where
  torn: "0x7F \<notin> set t \<Longrightarrow> frames [] t"
| packet: "0x7F \<notin> set t \<Longrightarrow> frames ps bs \<Longrightarrow> frames (p # ps) (t @ frame p @ bs)"

inductive_cases frames_NilE: "frames [] bs"
inductive_cases frames_ConsE: "frames (p # ps) bs"

lemma esc_no_end: "0x7F \<notin> set (esc b)"
  by (auto simp: esc_def)

lemma frame_body_no_end: "0x7F \<notin> set (concat (map esc p))"
  using esc_no_end by auto

lemma frame_prefix_torn: "k < length (frame p) \<Longrightarrow> 0x7F \<notin> set (take k (frame p))"
  using frame_body_no_end [of p]
  by (cases k) (auto simp: frame_def dest: in_set_takeD)

lemma frames_append: "frames ps bs \<Longrightarrow> frames (ps @ [p]) (bs @ frame p)"
proof (induction rule: frames.induct)
  case (torn t)
  then show ?case using frames.packet [OF torn, of "[]" "[]" p] frames.torn [of "[]"] by simp
next
  case (packet t ps bs q)
  then show ?case using frames.packet [of t "ps @ [p]" "bs @ frame p" q] by simp
qed

lemma frames_torn: "frames ps bs \<Longrightarrow> 0x7F \<notin> set t \<Longrightarrow> frames ps (bs @ t)"
proof (induction rule: frames.induct)
  case (torn u)
  then show ?case by (auto intro: frames.torn)
next
  case (packet u ps bs q)
  then show ?case using frames.packet [of u ps "bs @ t" q] by simp
qed

section \<open>Writing\<close>

text \<open>\<open>grows rb m xs rb' m'\<close>: the bytes \<open>xs\<close> have been appended, nothing else has changed.\<close>

definition grows :: "RINGBUF \<Rightarrow> mem \<Rightarrow> u8 list \<Rightarrow> RINGBUF \<Rightarrow> mem \<Rightarrow> bool" where
  "grows rb m xs rb' m' \<longleftrightarrow> ringbuf_inv rb' m' \<and> same_store rb rb'
     \<and> ringbuf_bytes rb' m' = ringbuf_bytes rb m @ xs
     \<and> (\<forall>a. a < p_o rb \<or> p_o rb + nat (ring_size rb) \<le> a \<longrightarrow> m' a = m a) \<and> (\<forall>a. (m' a = None) = (m a = None))"

definition ring_free :: "RINGBUF \<Rightarrow> mem \<Rightarrow> nat" where
  "ring_free rb m = nat (ring_size rb) - length (ringbuf_bytes rb m)"

lemma grows_refl: "ringbuf_inv rb m \<Longrightarrow> grows rb m [] rb m"
  by (simp add: grows_def)

lemma grows_trans: "grows rb m xs rb1 m1 \<Longrightarrow> grows rb1 m1 ys rb2 m2 \<Longrightarrow> grows rb m (xs @ ys) rb2 m2"
  unfolding grows_def same_store_def by (intro conjI; simp)

lemma grows_inv: "grows rb m xs rb' m' \<Longrightarrow> ringbuf_inv rb' m'"
  by (simp add: grows_def)

lemma grows_outside:
  "grows rb m xs rb' m' \<Longrightarrow> a < p_o rb \<or> p_o rb + nat (ring_size rb) \<le> a \<Longrightarrow> m' a = m a"
  unfolding grows_def by blast

lemma grows_free: "grows rb m xs rb' m' \<Longrightarrow> ring_free rb' m' = ring_free rb m - length xs"
  unfolding grows_def ring_free_def same_store_def by (metis diff_diff_left length_append)

lemma put_or_fail_room:
  assumes "ringbuf_inv rb m" "0 < ring_free rb m"
  shows "\<exists>rb1 m1. put_or_fail rb x m rest = rest rb1 m1 \<and> grows rb m [x] rb1 m1"
proof -
  have "length (ringbuf_bytes rb m) < nat (ring_size rb)" using assms(2) by (simp add: ring_free_def)
  from RINGBUF_Put_room [OF assms(1) this, of x] obtain rb1 m1
    where "RINGBUF_Put rb x m = Some (0, rb1, m1)" "grows rb m [x] rb1 m1"
    unfolding grows_def by blast
  then show ?thesis by (auto simp: put_or_fail_def)
qed

lemma put_or_fail_full:
  assumes "ringbuf_inv rb m" "ring_free rb m = 0"
  shows "put_or_fail rb x m rest = Some (-1, rb, m)"
proof -
  have "length (ringbuf_bytes rb m) = nat (ring_size rb)"
    using assms(2) ringbuf_bytes_le [OF assms(1)] by (simp add: ring_free_def)
  from RINGBUF_Put_full [OF this assms(1)] show ?thesis by (simp add: put_or_fail_def)
qed

text \<open>A source outside the ring's storage is still there after a write.\<close>

lemma grows_source:
  assumes "grows rb m xs rb' m'" "disjoint_ranges (p_o rb) (nat (ring_size rb)) p n"
  shows "bytes_at m' p n = bytes_at m p n" "valid_range m' p n = valid_range m p n"
    "disjoint_ranges (p_o rb') (nat (ring_size rb')) p n"
proof -
  have "m' (p + i) = m (p + i)" if "i < n" for i
    using assms(2) that by (intro grows_outside [OF assms(1)]) (auto simp: disjoint_ranges_def)
  then show "bytes_at m' p n = bytes_at m p n" by (intro bytes_at_cong) auto
  show "valid_range m' p n = valid_range m p n" using assms(1) by (simp add: grows_def valid_range_iff)
  show "disjoint_ranges (p_o rb') (nat (ring_size rb')) p n"
    using assms by (simp add: grows_def same_store_def)
qed

text \<open>The result of appending \<open>fr\<close>, as far as there is room.\<close>

definition appended :: "RINGBUF \<Rightarrow> mem \<Rightarrow> u8 list \<Rightarrow> int \<Rightarrow> (int \<times> RINGBUF \<times> mem) option \<Rightarrow> bool" where
  "appended rb m fr i res \<longleftrightarrow> (\<exists>rb' m'. res = Some (if length fr \<le> ring_free rb m then i else -1, rb', m')
     \<and> grows rb m (take (ring_free rb m) fr) rb' m')"

lemma appended_put:
  assumes inv: "ringbuf_inv rb m"
    and rest: "\<And>rb1 m1. grows rb m [x] rb1 m1 \<Longrightarrow> appended rb1 m1 fr i (rest rb1 m1)"
  shows "appended rb m (x # fr) i (put_or_fail rb x m rest)"
proof (cases "ring_free rb m = 0")
  case True
  then show ?thesis using put_or_fail_full [OF inv True] grows_refl [OF inv] by (simp add: appended_def)
next
  case False
  then obtain rb1 m1 where 1: "put_or_fail rb x m rest = rest rb1 m1" "grows rb m [x] rb1 m1"
    using put_or_fail_room [OF inv] by blast
  have f: "ring_free rb1 m1 = ring_free rb m - 1" using grows_free [OF 1(2)] by simp
  obtain rb2 m2 where 2: "rest rb1 m1 = Some (if length fr \<le> ring_free rb m - 1 then i else -1, rb2, m2)"
      "grows rb1 m1 (take (ring_free rb m - 1) fr) rb2 m2"
    using rest [OF 1(2)] by (auto simp: appended_def f)
  have "take (ring_free rb m) (x # fr) = [x] @ take (ring_free rb m - 1) fr"
    using False by (simp add: take_Cons')
  moreover have "(length (x # fr) \<le> ring_free rb m) = (length fr \<le> ring_free rb m - 1)"
    using False by auto
  ultimately show ?thesis
    using 1 2 grows_trans [OF 1(2) 2(2)] by (auto simp: appended_def)
qed

lemma add_rb_loop_appends:
  assumes "ringbuf_inv rb m" "valid_range m p n" "disjoint_ranges (p_o rb) (nat (ring_size rb)) p n"
  shows "appended rb m (concat (map esc (bytes_at m p n)) @ [0x7F])
    (sint (i + of_nat (length (concat (map esc (bytes_at m p n)))))) (add_rb_loop p n i rb m)"
  using assms
proof (induction n arbitrary: p i rb m)
  case 0
  have "appended rb m [0x7F] (sint i) (put_or_fail rb 0x7F m (\<lambda>rb m. Some (sint i, rb, m)))"
    by (rule appended_put [OF 0(1)]) (simp add: appended_def grows_inv grows_refl)
  then show ?case by simp
next
  case (Suc n)
  obtain v where v: "m p = Some v" using Suc.prems(2) by (auto simp: valid_range_iff)
  define bs where "bs = concat (map esc (bytes_at m (p + 1) n))"
  have bs: "concat (map esc (bytes_at m p (Suc n))) = esc v @ bs"
    using bytes_at_append [of m p 1 n] v by (simp add: bytes_at_def bs_def)
  have more: "appended rb1 m1 (bs @ [0x7F]) (sint (j + of_nat (length bs))) (add_rb_loop (p + 1) n j rb1 m1)"
    if "grows rb m xs rb1 m1" for rb1 m1 j xs
  proof -
    note src = grows_source [OF that Suc.prems(3)]
    have "valid_range m1 (p + 1) n" "disjoint_ranges (p_o rb1) (nat (ring_size rb1)) (p + 1) n"
      using src(2,3) Suc.prems(2) by (auto simp: valid_range_iff disjoint_ranges_def)
    moreover have "bytes_at m1 (p + 1) n = bytes_at m (p + 1) n"
      using src(1) bytes_at_append [of m p 1 n] bytes_at_append [of m1 p 1 n] by simp
    ultimately show ?thesis
      using Suc.IH [OF grows_inv [OF that], of "p + 1" j] by (simp add: bs_def)
  qed
  have at: "m1 p = Some v" if "grows rb m xs rb1 m1" for rb1 m1 xs
    using grows_outside [OF that, of p] Suc.prems(3) v by (simp add: disjoint_ranges_def) linarith
  show ?case
  proof (cases "v = 0x7D \<or> v = 0x7E \<or> v = 0x7F")
    case True
    then have e: "esc v = [0x7D, v XOR 0x20]" by (simp add: esc_def)
    have "appended rb m (0x7D # (v XOR 0x20) # bs @ [0x7F]) (sint (i + 2 + of_nat (length bs)))
       (put_or_fail rb 0x7D m (\<lambda>rb m. do { v \<leftarrow> m p; put_or_fail rb (v XOR 0x20) m
          (\<lambda>rb m. add_rb_loop (p + 1) n (i + 2) rb m) }))"
    proof (rule appended_put [OF Suc.prems(1)])
      fix rb1 m1 assume g: "grows rb m [0x7D] rb1 m1"
      have "appended rb1 m1 ((v XOR 0x20) # bs @ [0x7F]) (sint (i + 2 + of_nat (length bs)))
          (put_or_fail rb1 (v XOR 0x20) m1 (\<lambda>rb m. add_rb_loop (p + 1) n (i + 2) rb m))"
        by (rule appended_put [OF grows_inv [OF g]]) (rule more, rule grows_trans [OF g])
      then show "appended rb1 m1 ((v XOR 0x20) # bs @ [0x7F]) (sint (i + 2 + of_nat (length bs)))
          (do { v \<leftarrow> m1 p; put_or_fail rb1 (v XOR 0x20) m1 (\<lambda>rb m. add_rb_loop (p + 1) n (i + 2) rb m) })"
        by (simp add: at [OF g])
    qed
    then show ?thesis using True v by (simp add: bs e algebra_simps)
  next
    case False
    then have e: "esc v = [v]" by (simp add: esc_def)
    have "appended rb m (v # bs @ [0x7F]) (sint (i + 1 + of_nat (length bs)))
       (put_or_fail rb v m (\<lambda>rb m. add_rb_loop (p + 1) n (i + 1) rb m))"
      by (rule appended_put [OF Suc.prems(1)]) (rule more)
    then show ?thesis using False v by (simp add: bs e algebra_simps)
  qed
qed

lemma PROTO_AddRb_appends:
  assumes "ringbuf_inv rb m" "valid_range m p (unat n)"
    and "disjoint_ranges (p_o rb) (nat (ring_size rb)) p (unat n)"
  shows "appended rb m (frame (bytes_at m p (unat n))) (sint (of_nat (length (frame (bytes_at m p (unat n)))) :: u16))
    (PROTO_AddRb rb p n m)"
proof -
  define bs where "bs = concat (map esc (bytes_at m p (unat n)))"
  have l: "of_nat (length (frame (bytes_at m p (unat n)))) = (2 + of_nat (length bs) :: u16)"
    by (simp add: frame_def bs_def)
  have "appended rb m (0x7E # bs @ [0x7F]) (sint (2 + of_nat (length bs) :: u16))
      (put_or_fail rb 0x7E m (\<lambda>rb m. add_rb_loop p (unat n) 2 rb m))"
  proof (rule appended_put [OF assms(1)])
    fix rb1 m1 assume g: "grows rb m [0x7E] rb1 m1"
    note src = grows_source [OF g assms(3)]
    have "valid_range m1 p (unat n)" using src(2) assms(2) by blast
    from add_rb_loop_appends [OF grows_inv [OF g] this src(3), of 2]
    show "appended rb1 m1 (bs @ [0x7F]) (sint (2 + of_nat (length bs) :: u16)) (add_rb_loop p (unat n) 2 rb1 m1)"
      unfolding src(1) bs_def .
  qed
  then show ?thesis unfolding PROTO_AddRb_def l by (simp add: frame_def bs_def)
qed

section \<open>Reading\<close>

text \<open>The parser on a list of bytes, up to the end of the first frame.\<close>

fun feed :: "PROTO_PARSER \<Rightarrow> u8 list \<Rightarrow> mem \<Rightarrow> (int \<times> PROTO_PARSER \<times> u8 list \<times> mem) option" where
  "feed p [] m = Some (-1, p, [], m)"
| "feed p (b # bs) m =
     do { (r, p, m) \<leftarrow> PROTO_ParseByte p b m; if r = 0 then Some (0, p, bs, m) else feed p bs m }"

text \<open>What the parser may touch.\<close>

definition parser_ok :: "ptr \<Rightarrow> u16 \<Rightarrow> PROTO_PARSER \<Rightarrow> mem \<Rightarrow> mem \<Rightarrow> bool" where
  "parser_ok buf sz p m0 m \<longleftrightarrow> pp_callback p = None \<and> pp_buf p = buf \<and> bufSize p = sz \<and> dataLen p \<le> sz
     \<and> valid_range m buf (unat sz) \<and> (\<forall>a. a < buf \<or> buf + unat sz \<le> a \<longrightarrow> m a = m0 a)
     \<and> (\<forall>a. (m a = None) = (m0 a = None))"

abbreviation parsed :: "PROTO_PARSER \<Rightarrow> mem \<Rightarrow> u8 list" where
  "parsed p m \<equiv> bytes_at m (pp_buf p) (unat (dataLen p))"

lemma unat_Suc_u16: "(x :: u16) < y \<Longrightarrow> unat (x + 1) = Suc (unat x)"
  using unsigned_less [of y, where 'a = nat] by (simp add: unat_word_ariths word_less_nat_alt)

lemma parser_store:
  assumes ok: "parser_ok buf sz p m0 m" and beg: "isBegin p \<noteq> 0" and v: "v \<noteq> 0x7D" "v \<noteq> 0x7E" "v \<noteq> 0x7F"
    and w: "w = (if isEsc p \<noteq> 0 then v XOR 0x20 else v)"
  shows "\<exists>p' m'. PROTO_ParseByte p v m = Some (-1, p', m') \<and> parser_ok buf sz p' m0 m' \<and> isEsc p' = 0
    \<and> isBegin p' \<noteq> 0 \<and> parsed p' m' = take (unat sz) (parsed p m @ [w])"
proof -
  let ?p = "if isEsc p \<noteq> 0 then p\<lparr>isEsc := 0\<rparr> else p"
  have p: "pp_buf p = buf" "bufSize p = sz" "dataLen p \<le> sz" "pp_callback p = None"
    using ok by (simp_all add: parser_ok_def)
  have le: "unat (dataLen p) \<le> unat sz" using p by (simp add: word_le_nat_alt)
  show ?thesis
  proof (cases "dataLen p < sz")
    case True
    then have lt: "unat (dataLen p) < unat sz" by (simp add: word_less_nat_alt)
    let ?a = "buf + unat (dataLen p)"
    let ?q = "?p\<lparr>dataLen := dataLen p + 1\<rparr>" and ?m = "m(?a \<mapsto> w)"
    have dom: "m ?a \<noteq> None" using ok lt unfolding parser_ok_def valid_range_iff by blast
    have "(m ?a = None) = (m0 ?a = None)" using ok by (simp add: parser_ok_def)
    then obtain y where dom0: "m0 ?a = Some y" using dom by auto
    have run: "PROTO_ParseByte p v m = Some (-1, ?q, ?m)"
      using v beg True dom by (auto simp: PROTO_ParseByte_def Let_def p w)
    have n1: "unat (dataLen p + 1) = Suc (unat (dataLen p))" by (rule unat_Suc_u16 [OF True])
    have "bytes_at ?m buf (Suc (unat (dataLen p))) = bytes_at m buf (unat (dataLen p)) @ [w]"
      by (rule nth_equalityI) (auto simp: nth_append less_Suc_eq)
    then have "parsed ?q ?m = take (unat sz) (parsed p m @ [w])"
      using lt by (simp add: p n1)
    moreover have "dataLen p + 1 \<le> sz" using lt by (simp add: word_le_nat_alt n1)
    then have "parser_ok buf sz ?q m0 ?m"
      using ok dom0 lt by (auto simp: parser_ok_def valid_range_iff p)
    ultimately show ?thesis using run beg by (intro exI [of _ ?q] exI [of _ ?m]) auto
  next
    case False
    then have eq: "unat (dataLen p) = unat sz" using le by (simp add: word_less_nat_alt)
    have "PROTO_ParseByte p v m = Some (-1, ?p, m)"
      using v beg False by (auto simp: PROTO_ParseByte_def Let_def p)
    moreover have "parsed ?p m = take (unat sz) (parsed p m @ [w])" by (simp add: p eq)
    ultimately show ?thesis using ok beg by (intro exI [of _ ?p] exI [of _ m]) (auto simp: parser_ok_def)
  qed
qed

lemma feed_append:
  "feed p xs m = Some (-1, p', [], m') \<Longrightarrow> feed p (xs @ ys) m = feed p' ys m'"
  by (induction xs arbitrary: p m) (auto simp: bind_eq_Some_conv split: if_splits)

lemma parser_byte:
  assumes ok: "parser_ok buf sz p m0 m" and v: "v \<noteq> 0x7F"
  shows "\<exists>p' m'. PROTO_ParseByte p v m = Some (-1, p', m') \<and> parser_ok buf sz p' m0 m'"
proof (cases "v = 0x7D \<or> v = 0x7E \<or> isBegin p = 0")
  case True
  then show ?thesis using ok v by (auto simp: PROTO_ParseByte_def parser_ok_def)
next
  case False
  then show ?thesis using parser_store [OF ok, of v] v by blast
qed

lemma feed_torn:
  assumes "parser_ok buf sz p m0 m" "0x7F \<notin> set t"
  shows "\<exists>p' m'. feed p t m = Some (-1, p', [], m') \<and> parser_ok buf sz p' m0 m'"
  using assms
proof (induction t arbitrary: p m)
  case (Cons b t)
  then obtain p1 m1 where "PROTO_ParseByte p b m = Some (-1, p1, m1)" "parser_ok buf sz p1 m0 m1"
    using parser_byte [of buf sz p m0 m b] by auto
  then show ?case using Cons.IH [of p1 m1] Cons.prems(2) by auto
qed auto

lemma feed_esc:
  assumes ok: "parser_ok buf sz p m0 m" and "isBegin p \<noteq> 0" "isEsc p = 0"
  shows "\<exists>p' m'. feed p (esc b) m = Some (-1, p', [], m') \<and> parser_ok buf sz p' m0 m' \<and> isEsc p' = 0
    \<and> isBegin p' \<noteq> 0 \<and> parsed p' m' = take (unat sz) (parsed p m @ [b])"
proof (cases "b = 0x7D \<or> b = 0x7E \<or> b = 0x7F")
  case True
  let ?p = "p\<lparr>isEsc := 1\<rparr>"
  have "parser_ok buf sz ?p m0 m" using ok by (simp add: parser_ok_def)
  moreover have "b XOR 0x20 \<noteq> 0x7D" "b XOR 0x20 \<noteq> 0x7E" "b XOR 0x20 \<noteq> 0x7F"
    using True by auto
  moreover have "b = (if isEsc ?p \<noteq> 0 then (b XOR 0x20) XOR 0x20 else b XOR 0x20)"
    using True by auto
  moreover have "isBegin ?p \<noteq> 0" using assms(2) by simp
  moreover have "parsed ?p m = parsed p m" by simp
  ultimately obtain p' m' where "PROTO_ParseByte ?p (b XOR 0x20) m = Some (-1, p', m')" "parser_ok buf sz p' m0 m'"
      "isEsc p' = 0" "isBegin p' \<noteq> 0" "parsed p' m' = take (unat sz) (parsed p m @ [b])"
    using parser_store [of buf sz ?p m0 m "b XOR 0x20" b] by metis
  moreover have "PROTO_ParseByte p 0x7D m = Some (-1, ?p, m)" by (simp add: PROTO_ParseByte_def)
  ultimately show ?thesis using True by (auto simp: esc_def)
next
  case False
  then show ?thesis using parser_store [OF ok, of b b] assms(2,3) by (auto simp: esc_def)
qed

lemma feed_body:
  assumes "parser_ok buf sz p m0 m" "isBegin p \<noteq> 0" "isEsc p = 0"
  shows "\<exists>p' m'. feed p (concat (map esc bs)) m = Some (-1, p', [], m') \<and> parser_ok buf sz p' m0 m'
    \<and> isEsc p' = 0 \<and> isBegin p' \<noteq> 0 \<and> parsed p' m' = take (unat sz) (parsed p m @ bs)"
  using assms
proof (induction bs arbitrary: p m)
  case Nil
  then have "unat (dataLen p) \<le> unat sz" by (simp add: parser_ok_def word_le_nat_alt)
  then show ?case using Nil by simp
next
  case (Cons b bs)
  obtain p1 m1 where 1: "feed p (esc b) m = Some (-1, p1, [], m1)" "parser_ok buf sz p1 m0 m1" "isEsc p1 = 0"
      "isBegin p1 \<noteq> 0" "parsed p1 m1 = take (unat sz) (parsed p m @ [b])"
    using feed_esc [OF Cons.prems, of b] by blast
  obtain p2 m2 where 2: "feed p1 (concat (map esc bs)) m1 = Some (-1, p2, [], m2)" "parser_ok buf sz p2 m0 m2"
      "isEsc p2 = 0" "isBegin p2 \<noteq> 0" "parsed p2 m2 = take (unat sz) (parsed p1 m1 @ bs)"
    using Cons.IH [OF 1(2,4,3)] by blast
  have "take (unat sz) (take (unat sz) (parsed p m @ [b]) @ bs) = take (unat sz) (parsed p m @ b # bs)"
    by (cases "unat (dataLen p) < unat sz") auto
  with 1 2 feed_append [OF 1(1), of "concat (map esc bs)"] show ?case by simp
qed

lemma feed_frame:
  assumes ok: "parser_ok buf sz p m0 m"
  shows "\<exists>p' m'. feed p (frame pkt @ bs) m = Some (0, p', bs, m') \<and> parser_ok buf sz p' m0 m'
    \<and> parsed p' m' = take (unat sz) pkt"
proof -
  let ?p = "p\<lparr>dataLen := 0, isEsc := 0, isBegin := 1\<rparr>"
  have "parser_ok buf sz ?p m0 m" using ok by (simp add: parser_ok_def)
  then obtain p1 m1 where 1: "feed ?p (concat (map esc pkt)) m = Some (-1, p1, [], m1)" "parser_ok buf sz p1 m0 m1"
      "parsed p1 m1 = take (unat sz) pkt"
    using feed_body [of buf sz ?p m0 m pkt] by auto
  have "PROTO_ParseByte p1 0x7F m1 = Some (0, p1\<lparr>isBegin := 0\<rparr>, m1)"
    using 1(2) by (simp add: PROTO_ParseByte_def parser_ok_def)
  then have "feed p1 (0x7F # bs) m1 = Some (0, p1\<lparr>isBegin := 0\<rparr>, bs, m1)" by simp
  moreover have "feed p (frame pkt @ bs) m = feed ?p (concat (map esc pkt) @ 0x7F # bs) m"
    by (simp add: frame_def PROTO_ParseByte_def)
  moreover have "parser_ok buf sz (p1\<lparr>isBegin := 0\<rparr>) m0 m1" using 1(2) by (simp add: parser_ok_def)
  ultimately show ?thesis using 1(3) feed_append [OF 1(1), of "0x7F # bs"] by auto
qed

lemma parser_step:
  assumes ok: "parser_ok buf sz p m0 m"
  shows "\<exists>r p' m'. PROTO_ParseByte p v m = Some (r, p', m') \<and> parser_ok buf sz p' m0 m'"
proof (cases "v = 0x7F")
  case True
  then show ?thesis using ok by (auto simp: PROTO_ParseByte_def parser_ok_def)
next
  case False
  then show ?thesis using parser_byte [OF ok] by blast
qed

lemma parser_ok_base: "parser_ok buf sz p m0 m \<Longrightarrow> parser_ok buf sz p m m"
  by (simp add: parser_ok_def)

lemma parser_keeps_ring:
  assumes "parser_ok buf sz p m m'" "ringbuf_inv rb m"
    and "disjoint_ranges (p_o rb) (nat (ring_size rb)) buf (unat sz)"
  shows "ringbuf_inv rb m'" "ringbuf_bytes rb m' = ringbuf_bytes rb m"
proof -
  have "m' a = m a" if "p_o rb \<le> a" "a < p_o rb + nat (ring_size rb)" for a
  proof -
    have "a < buf \<or> buf + unat sz \<le> a" using assms(3) that by (auto simp: disjoint_ranges_def)
    then show ?thesis using assms(1) unfolding parser_ok_def by blast
  qed
  then show "ringbuf_inv rb m'" "ringbuf_bytes rb m' = ringbuf_bytes rb m"
    using ringbuf_frame [OF assms(2)] by blast+
qed

lemma parse_rb_loop_feed:
  assumes "ringbuf_inv rb m" "parser_ok buf sz p m0 m" "feed p (ringbuf_bytes rb m) m = Some (r, p', rest, m')"
    and "disjoint_ranges (p_o rb) (nat (ring_size rb)) buf (unat sz)"
  shows "\<exists>rb'. parse_rb_loop p c rb m = Some (r, p', rb', m') \<and> ringbuf_inv rb' m' \<and> same_store rb rb'
    \<and> ringbuf_bytes rb' m' = rest"
  using assms
proof (induction "ringbuf_bytes rb m" arbitrary: rb p m m0 c)
  case Nil
  have empty: "ringbuf_bytes rb m = []" using Nil.hyps by simp
  from RINGBUF_Get_empty [OF empty Nil.prems(1)] show ?case
    using Nil.prems(1,3) empty by (subst parse_rb_loop.simps) auto
next
  case (Cons b bs)
  obtain rb1 where g: "RINGBUF_Get rb c m = Some (0, b, rb1)" "ringbuf_inv rb1 m" "same_store rb rb1"
      "ringbuf_bytes rb1 m = bs"
    using RINGBUF_Get_next [OF Cons.prems(1) Cons.hyps(2) [symmetric]] by blast
  obtain r1 p1 m1 where b: "PROTO_ParseByte p b m = Some (r1, p1, m1)" "parser_ok buf sz p1 m m1"
    using parser_step [OF parser_ok_base [OF Cons.prems(2)]] by blast
  have d: "disjoint_ranges (p_o rb1) (nat (ring_size rb1)) buf (unat sz)"
    using Cons.prems(4) g(3) by (simp add: same_store_def)
  note k = parser_keeps_ring [OF b(2) g(2) d]
  have f: "feed p (b # bs) m = Some (r, p', rest, m')"
    using Cons.prems(3) unfolding Cons.hyps(2) [symmetric] .
  show ?case
  proof (cases "r1 = 0")
    case True
    then have "p' = p1" "m' = m1" "rest = bs" "r = 0"
      using f b(1) by simp_all
    then show ?thesis using g b(1) k True by (subst parse_rb_loop.simps) auto
  next
    case False
    then have "feed p1 bs m1 = Some (r, p', rest, m')"
      using f b(1) by simp
    then have "feed p1 (ringbuf_bytes rb1 m1) m1 = Some (r, p', rest, m')" using k(2) g(4) by simp
    from Cons.hyps(1) [OF _ k(1) b(2) this d, of b] k(2) g(4)
    obtain rb' where "parse_rb_loop p1 b rb1 m1 = Some (r, p', rb', m')" "ringbuf_inv rb' m'" "same_store rb1 rb'"
        "ringbuf_bytes rb' m' = rest" by auto
    then show ?thesis using g b(1) False same_store_trans
      by (subst parse_rb_loop.simps) auto
  qed
qed

section \<open>The queue\<close>

definition queue_holds :: "QUEUE \<Rightarrow> mem \<Rightarrow> u8 list list \<Rightarrow> bool" where
  "queue_holds q m ps \<longleftrightarrow> ringbuf_inv (q_rb q) m \<and> frames ps (ringbuf_bytes (q_rb q) m)"

text \<open>A range of memory outside the queue's storage.\<close>

definition outside :: "QUEUE \<Rightarrow> mem \<Rightarrow> ptr \<Rightarrow> nat \<Rightarrow> bool" where
  "outside q m p n \<longleftrightarrow> valid_range m p n \<and> disjoint_ranges (p_o (q_rb q)) (nat (ring_size (q_rb q))) p n"

lemma queue_puts:
  assumes h: "queue_holds q m ps" and src: "outside q m p (unat n)"
  defines "pkt \<equiv> bytes_at m p (unat n)"
  shows "\<exists>q' m'. QUEUE_Puts q p n m =
        Some (if length (frame pkt) \<le> ring_free (q_rb q) m then sint (of_nat (length (frame pkt)) :: u16) else -1, q', m')
    \<and> queue_holds q' m' (if length (frame pkt) \<le> ring_free (q_rb q) m then ps @ [pkt] else ps)
    \<and> grows (q_rb q) m (take (ring_free (q_rb q) m) (frame pkt)) (q_rb q') m'"
proof -
  have inv: "ringbuf_inv (q_rb q) m" and fr: "frames ps (ringbuf_bytes (q_rb q) m)"
    using h by (auto simp: queue_holds_def)
  let ?ok = "length (frame pkt) \<le> ring_free (q_rb q) m"
  obtain rb' m' where add: "PROTO_AddRb (q_rb q) p n m =
        Some (if ?ok then sint (of_nat (length (frame pkt)) :: u16) else -1, rb', m')"
    and g: "grows (q_rb q) m (take (ring_free (q_rb q) m) (frame pkt)) rb' m'"
    using PROTO_AddRb_appends [OF inv, of p n] src by (auto simp: appended_def outside_def pkt_def)
  have "frames (if ?ok then ps @ [pkt] else ps) (ringbuf_bytes rb' m')"
  proof (cases ?ok)
    case True
    then show ?thesis using g frames_append [OF fr] by (simp add: grows_def)
  next
    case False
    then have "0x7F \<notin> set (take (ring_free (q_rb q) m) (frame pkt))" by (intro frame_prefix_torn) simp
    then show ?thesis using g False frames_torn [OF fr] by (simp add: grows_def)
  qed
  then show ?thesis
    using add g by (auto simp: QUEUE_Puts_def queue_holds_def grows_inv)
qed

lemma queue_gets:
  assumes h: "queue_holds q m ps" and dst: "outside q m buf (unat sz)"
  shows "\<exists>r l q' m'. QUEUE_Gets stk c q buf n sz m = Some (r, l, q', m') \<and> queue_holds q' m' (tl ps)
    \<and> same_store (q_rb q) (q_rb q') \<and> (\<forall>a. a < buf \<or> buf + unat sz \<le> a \<longrightarrow> m' a = m a)
    \<and> (\<forall>a. (m' a = None) = (m a = None))
    \<and> (case ps of [] \<Rightarrow> r = -1 \<and> l = n \<and> ringbuf_bytes (q_rb q') m' = []
        | p # _ \<Rightarrow> r = 0 \<and> unat l = min (length p) (unat sz) \<and> bytes_at m' buf (unat l) = take (unat sz) p)"
proof -
  let ?p = "snd (PROTO_Init stk None buf sz)"
  have inv: "ringbuf_inv (q_rb q) m" and fr: "frames ps (ringbuf_bytes (q_rb q) m)"
    using h by (auto simp: queue_holds_def)
  have ok: "parser_ok buf sz ?p m m" using dst by (simp add: parser_ok_def PROTO_Init_def outside_def)
  have d: "disjoint_ranges (p_o (q_rb q)) (nat (ring_size (q_rb q))) buf (unat sz)"
    using dst by (simp add: outside_def)
  note loop = parse_rb_loop_feed [OF inv ok _ d]
  show ?thesis
  proof (cases ps)
    case Nil
    then have "0x7F \<notin> set (ringbuf_bytes (q_rb q) m)" using fr by (auto elim: frames_NilE)
    from feed_torn [OF ok this] obtain p' m' where f: "feed ?p (ringbuf_bytes (q_rb q) m) m = Some (-1, p', [], m')"
      and ok': "parser_ok buf sz p' m m'" by blast
    from loop [OF f, of c] obtain rb' where "parse_rb_loop ?p c (q_rb q) m = Some (-1, p', rb', m')"
        "ringbuf_inv rb' m'" "same_store (q_rb q) rb'" "ringbuf_bytes rb' m' = []" by blast
    then show ?thesis using ok' Nil
      by (simp add: QUEUE_Gets_def PROTO_ParseRb_def queue_holds_def parser_ok_def frames.torn)
  next
    case (Cons pkt ps')
    then obtain t bs where t: "ringbuf_bytes (q_rb q) m = t @ frame pkt @ bs" "0x7F \<notin> set t" "frames ps' bs"
      using fr by (auto elim: frames_ConsE)
    from feed_torn [OF ok t(2)] obtain p1 m1 where f1: "feed ?p t m = Some (-1, p1, [], m1)"
      and ok1: "parser_ok buf sz p1 m m1" by blast
    from feed_frame [OF ok1, of pkt bs] obtain p' m' where f2: "feed p1 (frame pkt @ bs) m1 = Some (0, p', bs, m')"
      and ok': "parser_ok buf sz p' m m'" and got: "parsed p' m' = take (unat sz) pkt" by blast
    have "feed ?p (ringbuf_bytes (q_rb q) m) m = Some (0, p', bs, m')"
      using feed_append [OF f1] f2 by (simp add: t(1))
    from loop [OF this, of c] obtain rb' where rb': "parse_rb_loop ?p c (q_rb q) m = Some (0, p', rb', m')"
        "ringbuf_inv rb' m'" "same_store (q_rb q) rb'" "ringbuf_bytes rb' m' = bs" by blast
    have "length (parsed p' m') = length (take (unat sz) pkt)" using got by simp
    then have "unat (dataLen p') = min (length pkt) (unat sz)" by simp
    moreover have "pp_buf p' = buf" using ok' by (simp add: parser_ok_def)
    ultimately show ?thesis using rb' ok' got Cons t(3)
      by (simp add: QUEUE_Gets_def PROTO_ParseRb_def queue_holds_def parser_ok_def)
  qed
qed

section \<open>Clients of the queue\<close>

text \<open>
  The interface a client relies on: a queue of packets in which a write either appends the
  packet or leaves the packets alone, and a read takes the oldest packet or reports that there
  is none. \<open>a\<close> names the source of a write, \<open>d\<close> the destination of a read; \<open>kept\<close> is what neither changes.
\<close>

locale packet_queue =
  fixes holds :: "'s \<Rightarrow> 'p list \<Rightarrow> bool"
    and puts :: "'a \<Rightarrow> 's \<Rightarrow> (int \<times> 's) option"
    and src_ok :: "'a \<Rightarrow> 's \<Rightarrow> bool"
    and payload :: "'a \<Rightarrow> 's \<Rightarrow> 'p"
    and gets :: "'d \<Rightarrow> 's \<Rightarrow> (int \<times> 's) option"
    and dst_ok :: "'a \<Rightarrow> 'd \<Rightarrow> 's \<Rightarrow> bool"
    and kept :: "'d \<Rightarrow> 's \<Rightarrow> 's \<Rightarrow> bool"
  assumes kept_refl: "kept d s s"
    and kept_trans: "kept d s s1 \<Longrightarrow> kept d s1 s2 \<Longrightarrow> kept d s s2"
    and puts_law: "holds s ps \<Longrightarrow> src_ok a s \<Longrightarrow> dst_ok a d s \<Longrightarrow>
      \<exists>r s'. puts a s = Some (r, s') \<and> holds s' (if r = -1 then ps else ps @ [payload a s])
        \<and> src_ok a s' \<and> dst_ok a d s' \<and> payload a s' = payload a s \<and> kept d s s'"
    and gets_law: "holds s ps \<Longrightarrow> src_ok a s \<Longrightarrow> dst_ok a d s \<Longrightarrow>
      \<exists>r s'. gets d s = Some (r, s') \<and> holds s' (tl ps) \<and> (r = -1) = (ps = [])
        \<and> src_ok a s' \<and> dst_ok a d s' \<and> payload a s' = payload a s \<and> kept d s s'"

text \<open>
  \<^verbatim>\<open>while (QUEUE_Puts(...) == -1) { if (QUEUE_Gets(...) == -1) return FALSE; } return TRUE;\<close>,
  the loop of \<^verbatim>\<open>MQTT_Publish\<close>, \<^verbatim>\<open>MQTT_Subscribe\<close>, \<^verbatim>\<open>MQTT_UnSubscribe\<close> and \<^verbatim>\<open>MQTT_Ping\<close>.
\<close>

partial_function (option) queue_loop ::
  "('s \<Rightarrow> (int \<times> 's) option) \<Rightarrow> ('s \<Rightarrow> (int \<times> 's) option) \<Rightarrow> 's \<Rightarrow> (bool \<times> 's) option" where
  "queue_loop put get s =
     do { (r, s) \<leftarrow> put s;
          if r = -1
          then do { (g, s) \<leftarrow> get s; if g = -1 then Some (False, s) else queue_loop put get s }
          else Some (True, s) }"

context packet_queue
begin

text \<open>The loop returns; the packet is then the newest, after the packets that were not dropped, or
  the queue has been emptied without making room.\<close>

lemma queue_loop_result:
  assumes "holds s ps" "src_ok a s" "dst_ok a d s"
  shows "\<exists>ok s'. queue_loop (puts a) (gets d) s = Some (ok, s') \<and> kept d s s'
    \<and> (if ok then \<exists>k\<le>length ps. holds s' (drop k ps @ [payload a s]) else holds s' [])"
  using assms
proof (induction ps arbitrary: s)
  case Nil
  obtain r s1 where 1: "puts a s = Some (r, s1)" "holds s1 (if r = -1 then [] else [] @ [payload a s])"
      "src_ok a s1" "dst_ok a d s1" "kept d s s1"
    using puts_law [OF Nil] by blast
  show ?case
  proof (cases "r = -1")
    case True
    then obtain s2 where "gets d s1 = Some (-1, s2)" "holds s2 []" "kept d s1 s2"
      using gets_law [of s1 "[]" a d] 1 by auto
    with 1 True kept_trans show ?thesis by (subst queue_loop.simps) (auto intro: exI [of _ False])
  next
    case False
    with 1 show ?thesis by (subst queue_loop.simps) auto
  qed
next
  case (Cons q ps)
  obtain r s1 where 1: "puts a s = Some (r, s1)" "holds s1 (if r = -1 then q # ps else (q # ps) @ [payload a s])"
      "src_ok a s1" "dst_ok a d s1" "payload a s1 = payload a s" "kept d s s1"
    using puts_law [OF Cons.prems] by blast
  show ?case
  proof (cases "r = -1")
    case True
    then obtain g s2 where 2: "gets d s1 = Some (g, s2)" "holds s2 ps" "g \<noteq> -1" "src_ok a s2" "dst_ok a d s2"
        "payload a s2 = payload a s1" "kept d s1 s2"
      using gets_law [of s1 "q # ps" a d] 1 by auto
    obtain ok s' where 3: "queue_loop (puts a) (gets d) s2 = Some (ok, s')" "kept d s2 s'"
        "if ok then \<exists>k\<le>length ps. holds s' (drop k ps @ [payload a s2]) else holds s' []"
      using Cons.IH [OF 2(2,4,5)] by blast
    have "\<exists>k\<le>length (q # ps). holds s' (drop k (q # ps) @ [payload a s])" if "ok"
      using 3(3) that 1(5) 2(6) by (auto intro: exI [of _ "Suc _"])
    moreover have "kept d s s'" using kept_trans 1(6) 2(7) 3(2) by blast
    ultimately show ?thesis using 1(1) 2(1,3) 3(1,3) True by (subst queue_loop.simps) simp
  next
    case False
    have "queue_loop (puts a) (gets d) s = Some (True, s1)"
      using False by (subst queue_loop.simps) (simp add: 1(1))
    moreover have "\<exists>k\<le>length (q # ps). holds s1 (drop k (q # ps) @ [payload a s])"
      using 1(2) False by (intro exI [of _ 0]) simp
    ultimately show ?thesis using 1(6) by (intro exI [of _ True] exI [of _ s1]) simp
  qed
qed

end

definition pq_puts :: "ptr \<times> u16 \<Rightarrow> QUEUE \<times> mem \<Rightarrow> (int \<times> QUEUE \<times> mem) option" where
  "pq_puts = (\<lambda>(p, n) (q, m). QUEUE_Puts q p n m)"

definition pq_gets :: "PROTO_PARSER \<times> u8 \<times> ptr \<times> u16 \<times> u16 \<Rightarrow> QUEUE \<times> mem \<Rightarrow> (int \<times> QUEUE \<times> mem) option" where
  "pq_gets = (\<lambda>(stk, c, buf, len, sz) (q, m).
     do { (r, _, q, m) \<leftarrow> QUEUE_Gets stk c q buf len sz m; Some (r, q, m) })"

definition pq_holds :: "QUEUE \<times> mem \<Rightarrow> u8 list list \<Rightarrow> bool" where
  "pq_holds = (\<lambda>(q, m) ps. queue_holds q m ps \<and> ring_size (q_rb q) < 2 ^ 15)"

definition pq_src :: "ptr \<times> u16 \<Rightarrow> QUEUE \<times> mem \<Rightarrow> bool" where
  "pq_src = (\<lambda>(p, n) (q, m). outside q m p (unat n))"

definition pq_payload :: "ptr \<times> u16 \<Rightarrow> QUEUE \<times> mem \<Rightarrow> u8 list" where
  "pq_payload = (\<lambda>(p, n) (q, m). bytes_at m p (unat n))"

definition pq_dst :: "ptr \<times> u16 \<Rightarrow> PROTO_PARSER \<times> u8 \<times> ptr \<times> u16 \<times> u16 \<Rightarrow> QUEUE \<times> mem \<Rightarrow> bool" where
  "pq_dst = (\<lambda>(p, n) (stk, c, buf, len, sz) (q, m). outside q m buf (unat sz) \<and> disjoint_ranges buf (unat sz) p (unat n))"

definition pq_kept :: "PROTO_PARSER \<times> u8 \<times> ptr \<times> u16 \<times> u16 \<Rightarrow> QUEUE \<times> mem \<Rightarrow> QUEUE \<times> mem \<Rightarrow> bool" where
  "pq_kept = (\<lambda>(stk, c, buf, len, sz) (q, m) (q', m'). q_buf q' = q_buf q \<and> same_store (q_rb q) (q_rb q')
     \<and> (\<forall>a. (m' a = None) = (m a = None))
     \<and> (\<forall>a. (a < p_o (q_rb q) \<or> p_o (q_rb q) + nat (ring_size (q_rb q)) \<le> a) \<and> (a < buf \<or> buf + unat sz \<le> a) \<longrightarrow> m' a = m a))"

lemmas pq_defs = pq_puts_def pq_gets_def pq_holds_def pq_src_def pq_payload_def pq_dst_def pq_kept_def

lemma sint_of_nat_u16: "k < 2 ^ 15 \<Longrightarrow> sint (of_nat k :: u16) = int k"
  by (simp add: signed_of_nat signed_take_bit_int_eq_self)

lemma frame_length_pos: "2 \<le> length (frame p)"
  by (simp add: frame_def)

lemma outside_cong:
  assumes "outside q m p n" "same_store (q_rb q) (q_rb q')" "\<And>a. (m' a = None) = (m a = None)"
  shows "outside q' m' p n"
  using assms by (auto simp: outside_def same_store_def valid_range_iff)

lemma queue_keeps_buf:
  "QUEUE_Puts q p n m = Some (r, q', m') \<Longrightarrow> q_buf q' = q_buf q"
  "QUEUE_Gets stk c q buf l sz m = Some (r, l', q', m') \<Longrightarrow> q_buf q' = q_buf q"
  by (auto simp: QUEUE_Puts_def QUEUE_Gets_def split: Option.bind_splits prod.splits)

interpretation pq: packet_queue pq_holds pq_puts pq_src pq_payload pq_gets pq_dst pq_kept
proof
  fix d s s1 s2
  show "pq_kept d s s" by (cases d; cases s) (simp add: pq_kept_def)
  show "pq_kept d s s2" if "pq_kept d s s1" "pq_kept d s1 s2"
    using that unfolding pq_kept_def by (cases d; cases s; cases s1; cases s2) (simp add: same_store_def)
next
  fix s :: "QUEUE \<times> mem" and a :: "ptr \<times> u16" and d :: "PROTO_PARSER \<times> u8 \<times> ptr \<times> u16 \<times> u16" and ps
  assume as: "pq_holds s ps" "pq_src a s" "pq_dst a d s"
  obtain q m where s: "s = (q, m)" by (cases s)
  obtain p n where a: "a = (p, n)" by (cases a)
  obtain stk c buf len sz where d: "d = (stk, c, buf, len, sz)" by (cases d) auto
  have h: "queue_holds q m ps" "ring_size (q_rb q) < 2 ^ 15" and src: "outside q m p (unat n)"
    and dst: "outside q m buf (unat sz)" "disjoint_ranges buf (unat sz) p (unat n)"
    using as by (auto simp: pq_defs s a d)
  let ?pkt = "bytes_at m p (unat n)"
  show "\<exists>r s'. pq_puts a s = Some (r, s') \<and> pq_holds s' (if r = -1 then ps else ps @ [pq_payload a s])
      \<and> pq_src a s' \<and> pq_dst a d s' \<and> pq_payload a s' = pq_payload a s \<and> pq_kept d s s'"
  proof -
    let ?ok = "length (frame ?pkt) \<le> ring_free (q_rb q) m"
    obtain q' m' where put: "QUEUE_Puts q p n m = Some (if ?ok then sint (of_nat (length (frame ?pkt)) :: u16) else -1, q', m')"
      and hold: "queue_holds q' m' (if ?ok then ps @ [?pkt] else ps)"
      and g: "grows (q_rb q) m (take (ring_free (q_rb q) m) (frame ?pkt)) (q_rb q') m'"
      using queue_puts [OF h(1) src] by blast
    have "sint (of_nat (length (frame ?pkt)) :: u16) \<noteq> -1" if ?ok
    proof -
      have "length (frame ?pkt) < 2 ^ 15" using that h(2) by (simp add: ring_free_def)
      then show ?thesis by (simp add: sint_of_nat_u16)
    qed
    moreover have st: "same_store (q_rb q) (q_rb q')" "\<And>x. (m' x = None) = (m x = None)"
      using g by (simp_all add: grows_def)
    moreover have "bytes_at m' p (unat n) = ?pkt"
      using grows_source(1) [OF g] src by (simp add: outside_def)
    moreover have "ring_size (q_rb q') < 2 ^ 15" using h(2) st(1) by (simp add: same_store_def)
    moreover have "pq_kept d s (q', m')"
      using st grows_outside [OF g] queue_keeps_buf(1) [OF put] by (simp add: pq_kept_def s d)
    moreover note outside_cong [OF src st] outside_cong [OF dst(1) st]
    ultimately show ?thesis
      using put hold dst(2) by (cases ?ok) (auto simp: pq_defs s a d)
  qed
  show "\<exists>r s'. pq_gets d s = Some (r, s') \<and> pq_holds s' (tl ps) \<and> (r = -1) = (ps = [])
      \<and> pq_src a s' \<and> pq_dst a d s' \<and> pq_payload a s' = pq_payload a s \<and> pq_kept d s s'"
  proof -
    obtain r l q' m' where get: "QUEUE_Gets stk c q buf len sz m = Some (r, l, q', m')"
      and hold: "queue_holds q' m' (tl ps)" and st: "same_store (q_rb q) (q_rb q')" "\<And>x. (m' x = None) = (m x = None)"
      and fr: "\<And>x. x < buf \<or> buf + unat sz \<le> x \<Longrightarrow> m' x = m x"
      and res: "case ps of [] \<Rightarrow> r = -1 \<and> l = len \<and> ringbuf_bytes (q_rb q') m' = []
        | p # _ \<Rightarrow> r = 0 \<and> unat l = min (length p) (unat sz) \<and> bytes_at m' buf (unat l) = take (unat sz) p"
      using queue_gets [OF h(1) dst(1), of stk c len] by blast
    have "m' (p + i) = m (p + i)" if "i < unat n" for i
      using dst(2) that by (intro fr) (auto simp: disjoint_ranges_def)
    then have "bytes_at m' p (unat n) = ?pkt" by (intro bytes_at_cong) auto
    moreover have "ring_size (q_rb q') < 2 ^ 15" using h(2) st(1) by (simp add: same_store_def)
    moreover note outside_cong [OF src st] outside_cong [OF dst(1) st]
    moreover have "(r = -1) = (ps = [])" using res by (cases ps) auto
    moreover have "pq_kept d s (q', m')"
      using st fr queue_keeps_buf(2) [OF get] by (simp add: pq_kept_def s d)
    ultimately show ?thesis using get hold dst(2) by (auto simp: pq_defs s a d)
  qed
qed

section \<open>Example state\<close>

definition demo_qmem :: mem where
  "demo_qmem = (\<lambda>a. if 1000 \<le> a \<and> a < 1064 \<or> 2000 \<le> a \<and> a < 2100 \<or> 3000 \<le> a \<and> a < 3100 then Some (of_nat a) else None)"

definition demo_queue :: QUEUE where
  "demo_queue = \<lparr>q_buf = 1000, q_rb = \<lparr>p_o = 1000, p_r = 1060, p_w = 1060, fill_cnt = 0, ring_size = 64\<rparr>\<rparr>"

definition demo_parser :: PROTO_PARSER where
  "demo_parser = \<lparr>pp_buf = 7, bufSize = 8, dataLen = 9, isEsc = 1, isBegin = 1, pp_callback = None\<rparr>"

lemma demo_queue_facts:
  "queue_holds demo_queue demo_qmem []" "outside demo_queue demo_qmem 2000 (unat (20 :: u16))"
  "outside demo_queue demo_qmem 3000 (unat (50 :: u16))" "ring_free (q_rb demo_queue) demo_qmem = 64"
  "ring_size (q_rb demo_queue) = 64"
  by (auto simp: demo_queue_def demo_qmem_def queue_holds_def ringbuf_inv_def ringbuf_bytes_def slot_def
      valid_range_iff outside_def disjoint_ranges_def ring_free_def intro: frames.torn)

section \<open>Properties\<close>

text \<open>C13. Queueing a message refines appending it to a list of packets, and the failing case is harmless:
  with room for its frame the packet is appended and the length of the frame returned; without, the
  result is -1, the packets are those from before, and only torn bytes that every later read skips
  have been added. Memory outside the ring is untouched.\<close>

theorem QUEUE_Puts_refines:
  assumes "queue_holds q m ps" "outside q m p (unat n)" "ring_size (q_rb q) < 32768"
    and "pkt = bytes_at m p (unat n)" "ok = (length (frame pkt) \<le> ring_free (q_rb q) m)"
  shows "\<exists>q' m'. QUEUE_Puts q p n m = Some (if ok then int (length (frame pkt)) else -1, q', m')
    \<and> queue_holds q' m' (if ok then ps @ [pkt] else ps)
    \<and> (\<forall>a. a < p_o (q_rb q) \<or> p_o (q_rb q) + nat (ring_size (q_rb q)) \<le> a \<longrightarrow> m' a = m a)"
proof -
  obtain q' m' where 1: "QUEUE_Puts q p n m = Some (if ok then sint (of_nat (length (frame pkt)) :: u16) else -1, q', m')"
    "queue_holds q' m' (if ok then ps @ [pkt] else ps)"
    "grows (q_rb q) m (take (ring_free (q_rb q) m) (frame pkt)) (q_rb q') m'"
    using queue_puts [OF assms(1,2)] unfolding assms(4,5) by blast
  have "sint (of_nat (length (frame pkt)) :: u16) = int (length (frame pkt))" if ok
    using that assms(3,5) by (intro sint_of_nat_u16) (simp add: ring_free_def)
  with 1 show ?thesis by (intro exI [of _ q'] exI [of _ m']) (auto simp: grows_outside)
qed

theorem QUEUE_Puts_refines_witness:
  "\<exists>q' m' r. QUEUE_Puts demo_queue 2000 20 demo_qmem = Some (r, q', m') \<and> 0 < r \<and>
     queue_holds q' m' [bytes_at demo_qmem 2000 (unat (20 :: u16))]"
proof -
  have "length (concat (map esc bs)) \<le> 2 * length bs" for bs by (induction bs) (auto simp: esc_def)
  then have "length (frame (bytes_at demo_qmem 2000 20)) \<le> 64"
    using le_trans [of _ "2 * length (bytes_at demo_qmem 2000 20)"] by (fastforce simp: frame_def)
  then show ?thesis
    using QUEUE_Puts_refines [OF demo_queue_facts(1,2) _ refl refl] frame_length_pos [of "bytes_at demo_qmem 2000 20"]
    by (fastforce simp: demo_queue_facts)
qed

text \<open>C14. Taking a message refines taking the head of the list of packets: the oldest packet comes out
  unescaped, cut to the size of the buffer, whatever torn bytes lie before it and whatever the
  uninitialised parser holds; with no packet left the result is -1 and the ring is emptied. Only the
  buffer is written.\<close>

theorem QUEUE_Gets_refines:
  assumes "queue_holds q m ps" "outside q m buf (unat sz)"
  shows "\<exists>r l q' m'. QUEUE_Gets stk c q buf n sz m = Some (r, l, q', m') \<and> queue_holds q' m' (tl ps)
    \<and> (\<forall>a. a < buf \<or> buf + unat sz \<le> a \<longrightarrow> m' a = m a)
    \<and> (case ps of [] \<Rightarrow> r = -1 \<and> QUEUE_IsEmpty q'
        | p # _ \<Rightarrow> r = 0 \<and> bytes_at m' buf (unat l) = take (unat sz) p)"
proof -
  obtain r l q' m' where 1: "QUEUE_Gets stk c q buf n sz m = Some (r, l, q', m')" "queue_holds q' m' (tl ps)"
    "\<forall>a. a < buf \<or> buf + unat sz \<le> a \<longrightarrow> m' a = m a"
    and res: "case ps of [] \<Rightarrow> r = -1 \<and> l = n \<and> ringbuf_bytes (q_rb q') m' = []
        | p # _ \<Rightarrow> r = 0 \<and> unat l = min (length p) (unat sz) \<and> bytes_at m' buf (unat l) = take (unat sz) p"
    using queue_gets [OF assms, of stk c n] by blast
  have "QUEUE_IsEmpty q'" if "ringbuf_bytes (q_rb q') m' = []"
    using arg_cong [OF that, of length] by (simp add: QUEUE_IsEmpty_def)
  with 1 res show ?thesis
    by (intro exI [of _ r] exI [of _ l] exI [of _ q'] exI [of _ m']) (auto split: list.splits)
qed

theorem QUEUE_Gets_refines_witness:
  "\<exists>q1 m1 l q2 m2. QUEUE_Puts demo_queue 2000 20 demo_qmem = Some (22, q1, m1) \<and>
     QUEUE_Gets demo_parser 0 q1 3000 0 50 m1 = Some (0, l, q2, m2) \<and>
     bytes_at m2 3000 (unat l) = bytes_at demo_qmem 2000 (unat (20 :: u16))"
proof -
  let ?p = "bytes_at demo_qmem 2000 (unat (20 :: u16))"
  have "\<forall>b\<in>set ?p. esc b = [b]" by (simp add: bytes_at_def demo_qmem_def esc_def upt_rec)
  then have "concat (map esc ?p) = ?p" by (induction ?p) (simp_all add: map_idI concat_map_singleton flip: map_map cong: map_cong)
  then have len: "length (frame ?p) = 22" by (simp add: frame_def)
  obtain q1 m1 where 1: "QUEUE_Puts demo_queue 2000 20 demo_qmem = Some (sint (of_nat 22 :: u16), q1, m1)"
      "queue_holds q1 m1 [?p]" "grows (q_rb demo_queue) demo_qmem (take 64 (frame ?p)) (q_rb q1) m1"
    using queue_puts [OF demo_queue_facts(1,2), unfolded len demo_queue_facts(4)] by auto
  have "outside q1 m1 3000 (unat (50 :: u16))"
    using 1(3) by (intro outside_cong [OF demo_queue_facts(3)]) (simp_all add: grows_def)
  from QUEUE_Gets_refines [OF 1(2) this, of demo_parser 0 0] 1(1) show ?thesis by auto
qed

end
