(* ===== verification/Mqtt_Utils.thy ===== *)
theory Mqtt_Utils
  imports Prelude
begin

text \<open>
  The string helpers of the MQTT client, \<^verbatim>\<open>mqtt/utils.c\<close>, on strings in memory: the test for a
  dotted address, its conversion to four bytes, and hexadecimal numbers. A character is read as
  the signed \<^verbatim>\<open>int8_t\<close>; overflow of an \<^verbatim>\<open>int\<close> is undefined (\<open>None\<close>).
\<close>

partial_function (option) is_ipv4_loop :: "ptr \<Rightarrow> u8 \<Rightarrow> u8 \<Rightarrow> u8 \<Rightarrow> mem \<Rightarrow> u8 option" where
  "is_ipv4_loop str segs chcnt accum m =
     do { c \<leftarrow> m str;
          if c = 0 then Some (if segs \<noteq> 3 then 0 else if chcnt = 0 then 0 else 1)
          else if c = 0x2E
          then if chcnt = 0 then Some 0
               else let segs = segs + 1
                    in if segs = 4 then Some 0 else is_ipv4_loop (str + 1) segs 0 0 m
          else if sint c < 0x30 \<or> 0x39 < sint c then Some 0
          else let accum = accum * 10 + c - 0x30
               in if 255 < unat accum then Some 0 else is_ipv4_loop (str + 1) segs (chcnt + 1) accum m }"

definition UTILS_IsIPV4 :: "ptr \<Rightarrow> mem \<Rightarrow> u8 option" where
  "UTILS_IsIPV4 str m = (if str = NULL then Some 0 else is_ipv4_loop str 0 0 0 m)"

text \<open>One octet of \<^verbatim>\<open>UTILS_StrToIP\<close>: the inner loop for the byte \<open>i\<close>; the result \<open>None\<close> inside is
  \<^verbatim>\<open>return 0\<close>.\<close>

partial_function (option) parse_octet :: "nat \<Rightarrow> ptr \<Rightarrow> int \<Rightarrow> mem \<Rightarrow> (ptr \<times> int) option option" where
  "parse_octet i start n m =
     do { c \<leftarrow> m start;
          let start = start + 1;
          if 0x30 \<le> sint c \<and> sint c \<le> 0x39
          then if n * 10 + (sint c - 0x30) < 2 ^ 31 then parse_octet i start (n * 10 + (sint c - 0x30)) m else None
          else if i < 3 \<and> c = 0x2E \<or> i = 3 then Some (Some (start, n))
          else Some None }"

fun str_to_ip_loop :: "nat \<Rightarrow> nat \<Rightarrow> ptr \<Rightarrow> ptr \<Rightarrow> mem \<Rightarrow> (u8 \<times> mem) option" where
  "str_to_ip_loop i 0 start ip m = Some (1, m)"
| "str_to_ip_loop i (Suc k) start ip m =
     do { r \<leftarrow> parse_octet i start 0 m;
          case r of
            None \<Rightarrow> Some (0, m)
          | Some (start, n) \<Rightarrow>
              if 256 \<le> n then Some (0, m)
              else if m (ip + i) = None then None
              else str_to_ip_loop (Suc i) k start ip (m(ip + i \<mapsto> word_of_int n)) }"

definition UTILS_StrToIP :: "ptr \<Rightarrow> ptr \<Rightarrow> mem \<Rightarrow> (u8 \<times> mem) option" where
  "UTILS_StrToIP str ip m = str_to_ip_loop 0 4 str ip m"

definition hex_digit :: "u8 \<Rightarrow> u32 option" where
  "hex_digit c =
     (if 0x30 \<le> sint c \<and> sint c \<le> 0x39 then Some (word_of_int (sint c - 0x30))
      else if 0x41 \<le> sint c \<and> sint c \<le> 0x46 then Some (word_of_int (sint c - 0x41 + 10))
      else if 0x61 \<le> sint c \<and> sint c \<le> 0x66 then Some (word_of_int (sint c - 0x61 + 10))
      else None)"

partial_function (option) atoh_loop :: "ptr \<Rightarrow> u32 \<Rightarrow> mem \<Rightarrow> u32 option" where
  "atoh_loop s value m =
     do { c \<leftarrow> m s;
          if c = 0 then Some value
          else case hex_digit c of
                 None \<Rightarrow> Some value
               | Some digit \<Rightarrow> atoh_loop (s + 1) (push_bit 4 value OR digit) m }"

definition UTILS_Atoh :: "ptr \<Rightarrow> mem \<Rightarrow> u32 option" where
  "UTILS_Atoh s m = atoh_loop s 0 m"

section \<open>Dotted addresses\<close>

definition is_digit :: "u8 \<Rightarrow> bool" where
  "is_digit c \<longleftrightarrow> 0x30 \<le> sint c \<and> sint c \<le> 0x39"

definition decimal :: "int \<Rightarrow> u8 list \<Rightarrow> int" where
  "decimal n ds = fold (\<lambda>c n. n * 10 + (sint c - 0x30)) ds n"

lemma decimal_simps [simp]: "decimal n [] = n" "decimal n (c # ds) = decimal (n * 10 + (sint c - 0x30)) ds"
  by (simp_all add: decimal_def)

lemma decimal_mono: "list_all is_digit ds \<Longrightarrow> 0 \<le> n \<Longrightarrow> n \<le> decimal n ds"
proof (induction ds arbitrary: n)
  case (Cons c ds)
  have "n \<le> n * 10 + (sint c - 0x30)" using Cons.prems by (simp add: is_digit_def)
  also have "\<dots> \<le> decimal (n * 10 + (sint c - 0x30)) ds"
    using Cons by (intro Cons.IH) (auto simp: is_digit_def)
  finally show ?case by simp
qed simp

lemma parse_octet_stops:
  assumes "str_at m p (ds @ [t])" "list_all is_digit ds" "\<not> is_digit t" "0 \<le> n" "decimal n ds < 2 ^ 31"
  shows "parse_octet i p n m =
    (if i < 3 \<and> t = 0x2E \<or> i = 3 then Some (Some (p + length ds + 1, decimal n ds)) else Some None)"
  using assms
proof (induction ds arbitrary: p n)
  case Nil
  then show ?case by (subst parse_octet.simps) (auto simp: is_digit_def)
next
  case (Cons c ds)
  let ?n = "n * 10 + (sint c - 0x30)"
  have c: "0x30 \<le> sint c" "sint c \<le> 0x39" "m p = Some c" using Cons.prems by (auto simp: is_digit_def)
  have "?n \<le> decimal ?n ds" using Cons.prems c by (intro decimal_mono) auto
  then have lt: "?n < 2 ^ 31" using Cons.prems(5) by simp
  have "parse_octet i p n m = parse_octet i (p + 1) ?n m"
    using c lt by (subst parse_octet.simps) simp
  with Cons.IH [of "p + 1" ?n] Cons.prems c show ?case by simp
qed

text \<open>The four groups of a dotted address and the byte that ends it.\<close>

fun dotted :: "u8 list list \<Rightarrow> u8 \<Rightarrow> u8 list" where
  "dotted [] t = [t]"
| "dotted [ds] t = ds @ [t]"
| "dotted (ds # gs) t = ds @ 0x2E # dotted gs t"

lemma not_digit_dot [simp]: "\<not> is_digit 0x2E"
  by (simp add: is_digit_def)

lemma str_to_ip_loop_ok:
  assumes "i + length gs = 4" "gs \<noteq> []" "str_at m p (dotted gs t)" "\<not> is_digit t"
    and "\<forall>ds\<in>set gs. list_all is_digit ds \<and> decimal 0 ds < 256"
    and "valid_range m ip 4" "disjoint_ranges ip 4 p (length (dotted gs t))"
  shows "\<exists>m'. str_to_ip_loop i (length gs) p ip m = Some (1, m')
    \<and> bytes_at m' (ip + i) (length gs) = map (\<lambda>ds. word_of_int (decimal 0 ds)) gs
    \<and> (\<forall>a. a < ip + i \<or> ip + 4 \<le> a \<longrightarrow> m' a = m a)"
  using assms
proof (induction gs arbitrary: i p m)
  case (Cons ds gs)
  define u where "u = (if gs = [] then t else 0x2E)"
  have str: "str_at m p (ds @ [u])" and ud: "\<not> is_digit u" and stop: "i < 3 \<and> u = 0x2E \<or> i = 3"
    using Cons.prems(1,3,4) by (cases gs; auto simp: u_def)+
  have d: "list_all is_digit ds" "decimal 0 ds < 256" using Cons.prems(5) by auto
  have "parse_octet i p 0 m = Some (Some (p + length ds + 1, decimal 0 ds))"
    using parse_octet_stops [OF str d(1) ud, of 0 i] d(2) stop by simp
  moreover have "m (ip + i) \<noteq> None" using Cons.prems(1,6) by (auto simp: valid_range_iff)
  ultimately have step: "str_to_ip_loop i (length (ds # gs)) p ip m =
      str_to_ip_loop (Suc i) (length gs) (p + length ds + 1) ip (m(ip + i \<mapsto> word_of_int (decimal 0 ds)))"
    using d(2) by auto
  define m1 where "m1 = m(ip + i \<mapsto> word_of_int (decimal 0 ds) :: u8)"
  note step = step [folded m1_def]
  show ?case
  proof (cases "gs = []")
    case True
    with step Cons.prems(1) show ?thesis by (auto simp: bytes_at_def m1_def)
  next
    case False
    then have dot: "dotted (ds # gs) t = ds @ 0x2E # dotted gs t" by (cases gs) auto
    have away: "ip + i < p \<or> p + length (dotted (ds # gs) t) \<le> ip + i"
      using Cons.prems(1,7) by (auto simp: disjoint_ranges_def)
    have "str_at m1 (p + length ds + 1) (dotted gs t)"
      unfolding m1_def using Cons.prems(3) away by (intro str_at_upd) (auto simp: dot)
    moreover have "valid_range m1 ip 4" using Cons.prems(6) by (auto simp: valid_range_iff m1_def)
    moreover have "disjoint_ranges ip 4 (p + length ds + 1) (length (dotted gs t))"
      using Cons.prems(7) by (auto simp: disjoint_ranges_def dot)
    ultimately obtain m' where m': "str_to_ip_loop (Suc i) (length gs) (p + length ds + 1) ip m1 = Some (1, m')"
        "bytes_at m' (ip + Suc i) (length gs) = map (\<lambda>ds. word_of_int (decimal 0 ds)) gs"
        "\<forall>a. a < ip + Suc i \<or> ip + 4 \<le> a \<longrightarrow> m' a = m1 a"
      using Cons.IH [of "Suc i" m1 "p + length ds + 1"] Cons.prems(1,4,5) False by auto
    have "bytes_at m' (ip + i) (Suc (length gs)) = the (m' (ip + i)) # bytes_at m' (ip + Suc i) (length gs)"
      using bytes_at_append [of m' "ip + i" 1 "length gs"] by (simp add: bytes_at_def)
    moreover have "m' (ip + i) = Some (word_of_int (decimal 0 ds))" using m'(3) by (simp add: m1_def)
    moreover have "\<forall>a. a < ip + i \<or> ip + 4 \<le> a \<longrightarrow> m' a = m a" using m'(3) Cons.prems(1) by (auto simp: m1_def)
    ultimately show ?thesis using m'(1,2) unfolding step by auto
  qed
qed simp

lemma is_ipv4_digits:
  assumes "str_at m p ds" "list_all is_digit ds" "unat cc + length ds < 256"
  shows "\<exists>acc'. is_ipv4_loop p segs cc acc m = is_ipv4_loop (p + length ds) segs (cc + of_nat (length ds)) acc' m"
  using assms
proof (induction ds arbitrary: p cc acc)
  case (Cons c ds)
  have c: "m p = Some c" "0x30 \<le> sint c" "sint c \<le> 0x39" "c \<noteq> 0" "c \<noteq> 0x2E"
    using Cons.prems by (auto simp: is_digit_def)
  have "unat (cc + 1) = unat cc + 1" using Cons.prems(3) by (simp add: unat_word_ariths)
  then have "unat (cc + 1) + length ds < 256" using Cons.prems(3) by simp
  from Cons.IH [OF _ _ this, of "p + 1" "acc * 10 + c - 0x30"] Cons.prems obtain acc' where
    "is_ipv4_loop (p + 1) segs (cc + 1) (acc * 10 + c - 0x30) m
       = is_ipv4_loop (p + 1 + length ds) segs (cc + 1 + of_nat (length ds)) acc' m" by auto
  moreover have "is_ipv4_loop p segs cc acc m = is_ipv4_loop (p + 1) segs (cc + 1) (acc * 10 + c - 0x30) m"
    using c unat_u8_less [of "acc * 10 + c - 0x30"] by (subst is_ipv4_loop.simps) (simp add: Let_def)
  ultimately show ?case by (auto simp: algebra_simps)
qed auto

lemma is_ipv4_groups:
  assumes "gs \<noteq> []" "str_at m p (dotted gs 0)" "unat segs + length gs = 4"
    and "\<forall>ds\<in>set gs. list_all is_digit ds \<and> 0 < length ds \<and> length ds < 256"
  shows "is_ipv4_loop p segs 0 acc m = Some 1"
  using assms
proof (induction gs arbitrary: p segs acc)
  case (Cons ds gs)
  have ds: "list_all is_digit ds" "0 < length ds" "length ds < 256" using Cons.prems(4) by auto
  have str: "str_at m p ds" using Cons.prems(2) by (cases gs) auto
  obtain acc' where 1: "is_ipv4_loop p segs 0 acc m = is_ipv4_loop (p + length ds) segs (of_nat (length ds)) acc' m"
    using is_ipv4_digits [OF str ds(1), of 0] ds(3) by auto
  have nz: "(of_nat (length ds) :: u8) \<noteq> 0"
    using ds(2,3) unat_of_nat [where 'a = 8, of "length ds"] by (auto simp: take_bit_nat_eq_self)
  show ?case
  proof (cases gs)
    case Nil
    then have "unat segs = 3" "m (p + length ds) = Some 0" using Cons.prems by auto
    moreover from this(1) have "segs = 3" by (intro unsigned_word_eqI) simp
    ultimately show ?thesis using nz by (subst 1, subst is_ipv4_loop.simps) simp
  next
    case (Cons g gs')
    have "unat segs + 1 < 256" "unat segs < 3" using Cons.prems(3) Cons by auto
    then have s1: "unat (segs + 1) = unat segs + 1" by (simp add: unat_word_ariths)
    then have "segs + 1 \<noteq> 4" using \<open>unat segs < 3\<close> by auto
    moreover have "m (p + length ds) = Some 0x2E" "str_at m (p + length ds + 1) (dotted gs 0)"
      using Cons.prems(2) Cons by auto
    moreover have "is_ipv4_loop (p + length ds + 1) (segs + 1) 0 0 m = Some 1"
      using Cons.prems Cons s1 calculation(3) by (intro Cons.IH) auto
    ultimately show ?thesis using nz by (subst 1, subst is_ipv4_loop.simps) (simp add: Let_def)
  qed
qed simp

text \<open>The test for a dotted address does not look at the values: the 8-bit accumulator cannot exceed 255,
  so groups of digits such as 999 pass.\<close>

theorem UTILS_IsIPV4_any_value:
  assumes "p \<noteq> NULL" "length gs = 4" "str_at m p (dotted gs 0)"
    and "\<forall>ds\<in>set gs. list_all is_digit ds \<and> 0 < length ds \<and> length ds < 256"
  shows "UTILS_IsIPV4 p m = Some 1"
proof -
  have "gs \<noteq> []" "unat (0 :: u8) + length gs = 4" using assms(2) by auto
  from is_ipv4_groups [OF this(1) assms(3) this(2) assms(4)] assms(1) show ?thesis
    by (simp add: UTILS_IsIPV4_def)
qed

section \<open>Example\<close>

definition demo_addr :: mem where
  "demo_addr = (\<lambda>a. if 100 \<le> a \<and> a < 116 then Some (map (of_nat \<circ> of_char) ''192.168.10.7!!!!'' ! (a - 100))
     else if 200 \<le> a \<and> a < 204 then Some 0 else None)"

section \<open>Property\<close>

text \<open>\<^verbatim>\<open>UTILS_StrToIP\<close> reads a dotted address: four groups of decimal digits, each below 256, separated by
  dots and ended by any other character, give the four bytes in order and the result 1, and nothing
  but the four bytes is written.\<close>

theorem UTILS_StrToIP_dotted:
  assumes "length gs = 4" "str_at m p (dotted gs t)" "\<not> is_digit t"
    and "\<forall>ds\<in>set gs. list_all is_digit ds \<and> decimal 0 ds < 256"
    and "valid_range m ip 4" "disjoint_ranges ip 4 p (length (dotted gs t))"
  shows "\<exists>m'. UTILS_StrToIP p ip m = Some (1, m')
    \<and> bytes_at m' ip 4 = map (\<lambda>ds. word_of_int (decimal 0 ds)) gs
    \<and> (\<forall>a. a < ip \<or> ip + 4 \<le> a \<longrightarrow> m' a = m a)"
proof -
  have "0 + length gs = 4" "gs \<noteq> []" using assms(1) by auto
  from str_to_ip_loop_ok [OF this assms(2-6)] assms(1) show ?thesis by (simp add: UTILS_StrToIP_def)
qed

theorem UTILS_StrToIP_dotted_witness:
  "\<exists>m'. UTILS_StrToIP 100 200 demo_addr = Some (1, m') \<and> bytes_at m' 200 4 = [192, 168, 10, 7]"
proof -
  let ?gs = "[[0x31, 0x39, 0x32], [0x31, 0x36, 0x38], [0x31, 0x30], [0x37]]"
  have "str_at demo_addr 100 (dotted ?gs 0x21)" by (simp add: demo_addr_def)
  moreover have "valid_range demo_addr 200 4" "disjoint_ranges 200 4 100 (length (dotted ?gs 0x21))"
    by (auto simp: demo_addr_def valid_range_iff disjoint_ranges_def)
  ultimately show ?thesis
    using UTILS_StrToIP_dotted [of ?gs demo_addr 100 33 200] by (auto simp: is_digit_def)
qed

end
