(* ===== verification/Mqtt_Msg.thy ===== *)
theory Mqtt_Msg
  imports Prelude
begin

text \<open>
  The MQTT messages, \<^verbatim>\<open>mqtt/mqtt_msg.c\<close>: the builders, which write into the connection's buffer, and
  the functions that take a received packet apart. The buffer and the strings are in memory; the
  message is the pointer and the length in the connection. The header of a connect message is that
  of protocol version 3.1, which \<^verbatim>\<open>mqtt_config.h\<close> selects.

  Arithmetic on \<^verbatim>\<open>int\<close> is on integers. In the functions that decode a received length a shift by 32 or
  more and a result beyond 31 bits are undefined (\<open>None\<close>); elsewhere the operands are below $2^{17}$.
\<close>

record mqtt_connection =
  msg_data :: ptr
  msg_length :: u16
  message_id :: u16
  conn_buffer :: ptr
  buffer_length :: u16

record mqtt_connect_info =
  client_id :: ptr
  username :: ptr
  password :: ptr
  will_topic :: ptr
  will_message :: ptr
  keepalive :: int
  will_qos :: int
  will_retain :: int
  clean_session :: int

datatype (plugins del: quickcheck_random quickcheck_exhaustive quickcheck_narrowing
    quickcheck_bounded_forall quickcheck_full_exhaustive lifting transfer) mqtt_message_type =
    MQTT_MSG_TYPE_CONNECT | MQTT_MSG_TYPE_CONNACK | MQTT_MSG_TYPE_PUBLISH | MQTT_MSG_TYPE_PUBACK
  | MQTT_MSG_TYPE_PUBREC | MQTT_MSG_TYPE_PUBREL | MQTT_MSG_TYPE_PUBCOMP | MQTT_MSG_TYPE_SUBSCRIBE
  | MQTT_MSG_TYPE_SUBACK | MQTT_MSG_TYPE_UNSUBSCRIBE | MQTT_MSG_TYPE_UNSUBACK | MQTT_MSG_TYPE_PINGREQ
  | MQTT_MSG_TYPE_PINGRESP | MQTT_MSG_TYPE_DISCONNECT

fun type_val :: "mqtt_message_type \<Rightarrow> int" where
  "type_val MQTT_MSG_TYPE_CONNECT = 1" | "type_val MQTT_MSG_TYPE_CONNACK = 2"
| "type_val MQTT_MSG_TYPE_PUBLISH = 3" | "type_val MQTT_MSG_TYPE_PUBACK = 4"
| "type_val MQTT_MSG_TYPE_PUBREC = 5" | "type_val MQTT_MSG_TYPE_PUBREL = 6"
| "type_val MQTT_MSG_TYPE_PUBCOMP = 7" | "type_val MQTT_MSG_TYPE_SUBSCRIBE = 8"
| "type_val MQTT_MSG_TYPE_SUBACK = 9" | "type_val MQTT_MSG_TYPE_UNSUBSCRIBE = 10"
| "type_val MQTT_MSG_TYPE_UNSUBACK = 11" | "type_val MQTT_MSG_TYPE_PINGREQ = 12"
| "type_val MQTT_MSG_TYPE_PINGRESP = 13" | "type_val MQTT_MSG_TYPE_DISCONNECT = 14"

text \<open>\<^verbatim>\<open>connection->buffer[connection->message.length++] = v\<close>\<close>

definition append_byte :: "mqtt_connection \<Rightarrow> u8 \<Rightarrow> mem \<Rightarrow> (mqtt_connection \<times> mem) option" where
  "append_byte c v m =
     do { m \<leftarrow> poke (conn_buffer c + unat (msg_length c)) v m; Some (c\<lparr>msg_length := msg_length c + 1\<rparr>, m) }"

section \<open>Builders\<close>

definition append_string :: "mqtt_connection \<Rightarrow> ptr \<Rightarrow> int \<Rightarrow> mem \<Rightarrow> (int \<times> mqtt_connection \<times> mem) option" where
  "append_string c str n m =
     (if int (unat (buffer_length c)) < int (unat (msg_length c)) + n + 2 then Some (-1, c, m)
      else do { (c, m) \<leftarrow> append_byte c (word_of_int (drop_bit 8 n)) m;
                (c, m) \<leftarrow> append_byte c (word_of_int (n AND 0xff)) m;
                m \<leftarrow> memcpy (conn_buffer c + unat (msg_length c)) str (nat n) m;
                Some (n + 2, c\<lparr>msg_length := msg_length c + word_of_int n\<rparr>, m) })"

function fresh_id :: "u16 \<Rightarrow> u16 \<Rightarrow> u16 \<times> u16" where
  "fresh_id mid cid = (if mid = 0 then fresh_id (cid + 1) (cid + 1) else (mid, cid))"
  by auto
termination
  by (relation "measure (\<lambda>(mid, cid). if mid \<noteq> 0 then 0 else if cid + 1 = 0 then 2 else 1)") auto

declare fresh_id.simps [simp del]

definition append_message_id :: "mqtt_connection \<Rightarrow> u16 \<Rightarrow> mem \<Rightarrow> (u16 \<times> mqtt_connection \<times> mem) option" where
  "append_message_id c mid m =
     (let (mid, cid) = fresh_id mid (message_id c);
          c = c\<lparr>message_id := cid\<rparr>
      in if unat (buffer_length c) < unat (msg_length c) + 2 then Some (0, c, m)
         else do { (c, m) \<leftarrow> append_byte c (ucast (drop_bit 8 mid)) m;
                   (c, m) \<leftarrow> append_byte c (ucast (mid AND 0xff)) m;
                   Some (mid, c, m) })"

definition init_message :: "mqtt_connection \<Rightarrow> mqtt_connection" where
  "init_message c = c\<lparr>msg_length := 3\<rparr>"

definition fail_message :: "mqtt_connection \<Rightarrow> mqtt_connection" where
  "fail_message c = c\<lparr>msg_data := conn_buffer c, msg_length := 0\<rparr>"

definition fixed_header :: "int \<Rightarrow> int \<Rightarrow> int \<Rightarrow> int \<Rightarrow> u8" where
  "fixed_header ty dup qos retain =
     word_of_int (push_bit 4 (ty AND 0x0f) OR push_bit 3 (dup AND 1) OR push_bit 1 (qos AND 3) OR (retain AND 1))"

definition fini_message :: "mqtt_connection \<Rightarrow> int \<Rightarrow> int \<Rightarrow> int \<Rightarrow> int \<Rightarrow> mem \<Rightarrow> (mqtt_connection \<times> mem) option" where
  "fini_message c ty dup qos retain m =
     (let remaining_length = int (unat (msg_length c)) - 3
      in if 127 < remaining_length
         then do { m \<leftarrow> poke (conn_buffer c) (fixed_header ty dup qos retain) m;
                   m \<leftarrow> poke (conn_buffer c + 1) (word_of_int (0x80 OR remaining_length mod 128)) m;
                   m \<leftarrow> poke (conn_buffer c + 2) (word_of_int (remaining_length div 128)) m;
                   Some (c\<lparr>msg_length := word_of_int (remaining_length + 3), msg_data := conn_buffer c\<rparr>, m) }
         else do { m \<leftarrow> poke (conn_buffer c + 1) (fixed_header ty dup qos retain) m;
                   m \<leftarrow> poke (conn_buffer c + 2) (word_of_int remaining_length) m;
                   Some (c\<lparr>msg_length := word_of_int (remaining_length + 2), msg_data := conn_buffer c + 1\<rparr>, m) })"

definition mqtt_msg_init :: "ptr \<Rightarrow> u16 \<Rightarrow> mqtt_connection" where
  "mqtt_msg_init buffer n =
     \<lparr>msg_data = NULL, msg_length = 0, message_id = 0, conn_buffer = buffer, buffer_length = n\<rparr>"

text \<open>\<^verbatim>\<open>if(append_string(connection, s, strlen(s)) < 0) return fail_message(connection);\<close> and the rest.\<close>

definition string_or_fail ::
  "mqtt_connection \<Rightarrow> ptr \<Rightarrow> mem \<Rightarrow> (mqtt_connection \<Rightarrow> mem \<Rightarrow> (mqtt_connection \<times> mem) option) \<Rightarrow>
   (mqtt_connection \<times> mem) option" where
  "string_or_fail c s m rest =
     do { n \<leftarrow> strlen s m;
          (r, c, m) \<leftarrow> append_string c s (int n) m;
          if r < 0 then Some (fail_message c, m) else rest c m }"

text \<open>\<^verbatim>\<open>s != NULL && s[0] != 0\<close>\<close>

definition present :: "ptr \<Rightarrow> mem \<Rightarrow> bool option" where
  "present s m = (if s = NULL then Some False else do { c \<leftarrow> m s; Some (c \<noteq> 0) })"

text \<open>\<^verbatim>\<open>variable_header->flags |= v\<close>; the flags are the tenth byte of the header, which follows the
  three bytes kept for the fixed header.\<close>

definition or_flags :: "mqtt_connection \<Rightarrow> u8 \<Rightarrow> mem \<Rightarrow> mem option" where
  "or_flags c v m = do { f \<leftarrow> m (conn_buffer c + 12); poke (conn_buffer c + 12) (f OR v) m }"

text \<open>The assignments to the fields of the header: \<^verbatim>\<open>MQIsdp\<close>, version 3, the flags 0 and the keep-alive.\<close>

definition connect_header :: "int \<Rightarrow> u8 list" where
  "connect_header keep = [0, 6, 0x4D, 0x51, 0x49, 0x73, 0x64, 0x70, 3, 0, word_of_int (drop_bit 8 keep), word_of_int (keep AND 0xff)]"

fun poke_all :: "ptr \<Rightarrow> u8 list \<Rightarrow> mem \<Rightarrow> mem option" where
  "poke_all a [] m = Some m"
| "poke_all a (b # bs) m = do { m \<leftarrow> poke a b m; poke_all (a + 1) bs m }"

text \<open>The stages of \<^verbatim>\<open>mqtt_msg_connect\<close>, each with what follows it: the password, the user name, the
  will.\<close>

definition connect_password :: "mqtt_connection \<Rightarrow> mqtt_connect_info \<Rightarrow> mem \<Rightarrow> (mqtt_connection \<times> mem) option" where
  "connect_password c info m =
     do { pass \<leftarrow> present (password info) m;
          if pass
          then string_or_fail c (password info) m (\<lambda>c m.
                 do { m \<leftarrow> or_flags c 0x40 m; fini_message c (type_val MQTT_MSG_TYPE_CONNECT) 0 0 0 m })
          else fini_message c (type_val MQTT_MSG_TYPE_CONNECT) 0 0 0 m }"

definition connect_username :: "mqtt_connection \<Rightarrow> mqtt_connect_info \<Rightarrow> mem \<Rightarrow> (mqtt_connection \<times> mem) option" where
  "connect_username c info m =
     do { user \<leftarrow> present (username info) m;
          if user
          then string_or_fail c (username info) m (\<lambda>c m. do { m \<leftarrow> or_flags c 0x80 m; connect_password c info m })
          else connect_password c info m }"

definition connect_will :: "mqtt_connection \<Rightarrow> mqtt_connect_info \<Rightarrow> mem \<Rightarrow> (mqtt_connection \<times> mem) option" where
  "connect_will c info m =
     do { will \<leftarrow> present (will_topic info) m;
          if will
          then string_or_fail c (will_topic info) m (\<lambda>c m.
                 string_or_fail c (will_message info) m (\<lambda>c m.
                   do { m \<leftarrow> or_flags c 0x04 m;
                        m \<leftarrow> (if will_retain info \<noteq> 0 then or_flags c 0x20 m else Some m);
                        m \<leftarrow> or_flags c (word_of_int (push_bit 3 (will_qos info AND 3))) m;
                        connect_username c info m }))
          else connect_username c info m }"

definition mqtt_msg_connect :: "mqtt_connection \<Rightarrow> mqtt_connect_info \<Rightarrow> mem \<Rightarrow> (mqtt_connection \<times> mem) option" where
  "mqtt_msg_connect c info m =
     (let c = init_message c
      in if unat (buffer_length c) < unat (msg_length c) + 12 then Some (fail_message c, m)
         else do {
           let hdr = conn_buffer c + unat (msg_length c);
           let c = c\<lparr>msg_length := msg_length c + 12\<rparr>;
           m \<leftarrow> poke_all hdr (connect_header (keepalive info)) m;
           m \<leftarrow> (if clean_session info \<noteq> 0 then or_flags c 0x02 m else Some m);
           cid \<leftarrow> present (client_id info) m;
           if \<not> cid then Some (fail_message c, m)
           else string_or_fail c (client_id info) m (\<lambda>c m. connect_will c info m) })"

text \<open>The end of \<^verbatim>\<open>mqtt_msg_publish\<close>: the payload and the fixed header. A negative length would be a
  huge one for \<^verbatim>\<open>memcpy\<close>.\<close>

definition publish_payload ::
  "mqtt_connection \<Rightarrow> ptr \<Rightarrow> int \<Rightarrow> int \<Rightarrow> int \<Rightarrow> mem \<Rightarrow> (mqtt_connection \<times> mem) option" where
  "publish_payload c data data_length qos retain m =
     (if int (unat (buffer_length c)) < int (unat (msg_length c)) + data_length then Some (fail_message c, m)
      else if data_length < 0 then None
      else do { m \<leftarrow> memcpy (conn_buffer c + unat (msg_length c)) data (nat data_length) m;
                fini_message (c\<lparr>msg_length := msg_length c + word_of_int data_length\<rparr>)
                  (type_val MQTT_MSG_TYPE_PUBLISH) 0 qos retain m })"

definition mqtt_msg_publish ::
  "mqtt_connection \<Rightarrow> ptr \<Rightarrow> ptr \<Rightarrow> int \<Rightarrow> int \<Rightarrow> int \<Rightarrow> u16 \<Rightarrow> mem \<Rightarrow> (u16 \<times> mqtt_connection \<times> mem) option" where
  "mqtt_msg_publish c topic data data_length qos retain mid m =
     (let c = init_message c
      in do { t \<leftarrow> present topic m;
              if \<not> t then Some (mid, fail_message c, m)
              else do {
                n \<leftarrow> strlen topic m;
                (r, c, m) \<leftarrow> append_string c topic (int n) m;
                if r < 0 then Some (mid, fail_message c, m)
                else do {
                  (mid, c, m) \<leftarrow> (if 0 < qos then append_message_id c 0 m else Some (0, c, m));
                  if 0 < qos \<and> mid = 0 then Some (mid, fail_message c, m)
                  else do { (c, m) \<leftarrow> publish_payload c data data_length qos retain m; Some (mid, c, m) } } } })"

text \<open>The acknowledgements, which carry only a message id.\<close>

definition id_message :: "mqtt_message_type \<Rightarrow> int \<Rightarrow> mqtt_connection \<Rightarrow> u16 \<Rightarrow> mem \<Rightarrow> (mqtt_connection \<times> mem) option" where
  "id_message ty qos c mid m =
     (let c = init_message c
      in do { (r, c, m) \<leftarrow> append_message_id c mid m;
              if r = 0 then Some (fail_message c, m) else fini_message c (type_val ty) 0 qos 0 m })"

definition mqtt_msg_puback :: "mqtt_connection \<Rightarrow> u16 \<Rightarrow> mem \<Rightarrow> (mqtt_connection \<times> mem) option" where
  "mqtt_msg_puback = id_message MQTT_MSG_TYPE_PUBACK 0"

definition mqtt_msg_pubrec :: "mqtt_connection \<Rightarrow> u16 \<Rightarrow> mem \<Rightarrow> (mqtt_connection \<times> mem) option" where
  "mqtt_msg_pubrec = id_message MQTT_MSG_TYPE_PUBREC 0"

definition mqtt_msg_pubrel :: "mqtt_connection \<Rightarrow> u16 \<Rightarrow> mem \<Rightarrow> (mqtt_connection \<times> mem) option" where
  "mqtt_msg_pubrel = id_message MQTT_MSG_TYPE_PUBREL 1"

definition mqtt_msg_pubcomp :: "mqtt_connection \<Rightarrow> u16 \<Rightarrow> mem \<Rightarrow> (mqtt_connection \<times> mem) option" where
  "mqtt_msg_pubcomp = id_message MQTT_MSG_TYPE_PUBCOMP 0"

definition mqtt_msg_subscribe ::
  "mqtt_connection \<Rightarrow> ptr \<Rightarrow> int \<Rightarrow> u16 \<Rightarrow> mem \<Rightarrow> (u16 \<times> mqtt_connection \<times> mem) option" where
  "mqtt_msg_subscribe c topic qos mid m =
     (let c = init_message c
      in do { t \<leftarrow> present topic m;
              if \<not> t then Some (mid, fail_message c, m)
              else do {
                (mid, c, m) \<leftarrow> append_message_id c 0 m;
                if mid = 0 then Some (mid, fail_message c, m)
                else do {
                  (c, m) \<leftarrow> string_or_fail c topic m (\<lambda>c m.
                    if unat (buffer_length c) < unat (msg_length c) + 1 then Some (fail_message c, m)
                    else do { (c, m) \<leftarrow> append_byte c (word_of_int qos) m;
                              fini_message c (type_val MQTT_MSG_TYPE_SUBSCRIBE) 0 1 0 m });
                  Some (mid, c, m) } } })"

definition mqtt_msg_unsubscribe ::
  "mqtt_connection \<Rightarrow> ptr \<Rightarrow> u16 \<Rightarrow> mem \<Rightarrow> (u16 \<times> mqtt_connection \<times> mem) option" where
  "mqtt_msg_unsubscribe c topic mid m =
     (let c = init_message c
      in do { t \<leftarrow> present topic m;
              if \<not> t then Some (mid, fail_message c, m)
              else do {
                (mid, c, m) \<leftarrow> append_message_id c 0 m;
                if mid = 0 then Some (mid, fail_message c, m)
                else do {
                  (c, m) \<leftarrow> string_or_fail c topic m
                    (\<lambda>c m. fini_message c (type_val MQTT_MSG_TYPE_UNSUBSCRIBE) 0 1 0 m);
                  Some (mid, c, m) } } })"

definition mqtt_msg_pingreq :: "mqtt_connection \<Rightarrow> mem \<Rightarrow> (mqtt_connection \<times> mem) option" where
  "mqtt_msg_pingreq c m = fini_message (init_message c) (type_val MQTT_MSG_TYPE_PINGREQ) 0 0 0 m"

definition mqtt_msg_pingresp :: "mqtt_connection \<Rightarrow> mem \<Rightarrow> (mqtt_connection \<times> mem) option" where
  "mqtt_msg_pingresp c m = fini_message (init_message c) (type_val MQTT_MSG_TYPE_PINGRESP) 0 0 0 m"

definition mqtt_msg_disconnect :: "mqtt_connection \<Rightarrow> mem \<Rightarrow> (mqtt_connection \<times> mem) option" where
  "mqtt_msg_disconnect c m = fini_message (init_message c) (type_val MQTT_MSG_TYPE_DISCONNECT) 0 0 0 m"

section \<open>Received packets\<close>

definition mqtt_get_type :: "ptr \<Rightarrow> mem \<Rightarrow> int option" where
  "mqtt_get_type buffer m = do { b \<leftarrow> m buffer; Some (uint (drop_bit 4 (b AND 0xf0))) }"

definition mqtt_get_dup :: "ptr \<Rightarrow> mem \<Rightarrow> int option" where
  "mqtt_get_dup buffer m = do { b \<leftarrow> m buffer; Some (uint (drop_bit 3 (b AND 0x08))) }"

definition mqtt_get_qos :: "ptr \<Rightarrow> mem \<Rightarrow> int option" where
  "mqtt_get_qos buffer m = do { b \<leftarrow> m buffer; Some (uint (drop_bit 1 (b AND 0x06))) }"

definition mqtt_get_retain :: "ptr \<Rightarrow> mem \<Rightarrow> int option" where
  "mqtt_get_retain buffer m = do { b \<leftarrow> m buffer; Some (uint (b AND 0x01)) }"

text \<open>\<open>n\<close> is the number of bytes up to \<^verbatim>\<open>length\<close>.\<close>

fun length_loop :: "ptr \<Rightarrow> nat \<Rightarrow> nat \<Rightarrow> int \<Rightarrow> mem \<Rightarrow> (nat \<times> int) option" where
  "length_loop buffer i 0 totlen m = Some (i, totlen)"
| "length_loop buffer i (Suc n) totlen m =
     do { b \<leftarrow> m (buffer + i);
          let part = uint (b AND 0x7f) * 2 ^ (7 * (i - 1));
          if 32 \<le> 7 * (i - 1) \<or> 2 ^ 31 \<le> part \<or> 2 ^ 31 \<le> totlen + part then None
          else if b AND 0x80 = 0 then Some (i + 1, totlen + part)
          else length_loop buffer (i + 1) n (totlen + part) m }"

definition mqtt_get_total_length :: "ptr \<Rightarrow> u16 \<Rightarrow> mem \<Rightarrow> int option" where
  "mqtt_get_total_length buffer n m =
     do { (i, totlen) \<leftarrow> length_loop buffer 1 (unat n - 1) 0 m; Some (totlen + int i) }"

definition be16 :: "ptr \<Rightarrow> mem \<Rightarrow> nat option" where
  "be16 a m = do { h \<leftarrow> m a; l \<leftarrow> m (a + 1); Some (unat h * 256 + unat l) }"

definition mqtt_get_publish_topic :: "ptr \<Rightarrow> u16 \<Rightarrow> mem \<Rightarrow> (ptr \<times> u16) option" where
  "mqtt_get_publish_topic buffer n m =
     do { (i, _) \<leftarrow> length_loop buffer 1 (unat n - 1) 0 m;
          if unat n \<le> i + 2 then Some (NULL, n)
          else do { topiclen \<leftarrow> be16 (buffer + i) m;
                    let i = i + 2;
                    if unat n < i + topiclen then Some (NULL, n)
                    else Some (buffer + i, of_nat topiclen) } }"

definition mqtt_get_publish_data :: "ptr \<Rightarrow> u16 \<Rightarrow> mem \<Rightarrow> (ptr \<times> u16) option" where
  "mqtt_get_publish_data buffer n m =
     (let blength = unat n
      in do { (i, totlen) \<leftarrow> length_loop buffer 1 (blength - 1) 0 m;
              let totlen = totlen + int i;
              if blength \<le> i + 2 then Some (NULL, 0)
              else do { topiclen \<leftarrow> be16 (buffer + i) m;
                        let i = i + 2;
                        if blength \<le> i + topiclen then Some (NULL, 0)
                        else do { let i = i + topiclen;
                                  qos \<leftarrow> mqtt_get_qos buffer m;
                                  if 0 < qos \<and> blength \<le> i + 2 then Some (NULL, 0)
                                  else let i = (if 0 < qos then i + 2 else i)
                                       in if totlen < int i then Some (NULL, 0)
                                          else if totlen \<le> int blength then Some (buffer + i, word_of_int (totlen - int i))
                                          else Some (buffer + i, of_nat (blength - i)) } } })"

fun skip_length :: "ptr \<Rightarrow> nat \<Rightarrow> nat \<Rightarrow> mem \<Rightarrow> nat option" where
  "skip_length buffer i 0 m = Some i"
| "skip_length buffer i (Suc n) m =
     do { b \<leftarrow> m (buffer + i); if b AND 0x80 = 0 then Some (i + 1) else skip_length buffer (i + 1) n m }"

definition publish_id :: "ptr \<Rightarrow> u16 \<Rightarrow> mem \<Rightarrow> u16 option" where
  "publish_id buffer n m =
     do { i \<leftarrow> skip_length buffer 1 (unat n - 1) m;
          if unat n \<le> i + 2 then Some 0
          else do { topiclen \<leftarrow> be16 (buffer + i) m;
                    let i = i + 2;
                    if unat n \<le> i + topiclen then Some 0
                    else do { let i = i + topiclen;
                              qos \<leftarrow> mqtt_get_qos buffer m;
                              if 0 < qos
                              then if unat n \<le> i + 2 then Some 0
                                   else do { v \<leftarrow> be16 (buffer + i) m; Some (of_nat v) }
                              else Some 0 } } }"

definition mqtt_get_id :: "ptr \<Rightarrow> u16 \<Rightarrow> mem \<Rightarrow> u16 option" where
  "mqtt_get_id buffer n m =
     (if n < 1 then Some 0
      else do { ty \<leftarrow> mqtt_get_type buffer m;
                if ty = type_val MQTT_MSG_TYPE_PUBLISH then publish_id buffer n m
                else if ty \<in> type_val ` {MQTT_MSG_TYPE_PUBACK, MQTT_MSG_TYPE_PUBREC, MQTT_MSG_TYPE_PUBREL,
                       MQTT_MSG_TYPE_PUBCOMP, MQTT_MSG_TYPE_SUBACK, MQTT_MSG_TYPE_UNSUBACK, MQTT_MSG_TYPE_SUBSCRIBE}
                then if n < 4 then Some 0
                     else do { b \<leftarrow> m (buffer + 1);
                               if b AND 0x80 = 0 then do { v \<leftarrow> be16 (buffer + 2) m; Some (of_nat v) } else Some 0 }
                else Some 0 })"

end
