(* ===== verification/Mqtt_Msg_Proofs.thy ===== *)
theory Mqtt_Msg_Proofs
  imports Mqtt_Msg
begin

text \<open>
  The builders write the MQTT encoding of a message, stay inside the connection's buffer and
  report a message that does not fit by the length 0; the parser functions find in a publish
  message what was put into it.
\<close>

section \<open>The encoding\<close>

definition str16 :: "u8 list \<Rightarrow> u8 list" where
  "str16 s = word_of_int (drop_bit 8 (int (length s))) # word_of_int (int (length s) AND 0xff) # s"

definition id16 :: "u16 \<Rightarrow> u8 list" where
  "id16 i = [ucast (drop_bit 8 i), ucast (i AND 0xff)]"

definition remaining :: "nat \<Rightarrow> u8 list" where
  "remaining n = (if 127 < n then [word_of_int (0x80 OR int n mod 128), word_of_int (int n div 128)]
     else [word_of_int (int n)])"

definition packet :: "mqtt_message_type \<Rightarrow> int \<Rightarrow> int \<Rightarrow> u8 list \<Rightarrow> u8 list" where
  "packet ty qos retain body = fixed_header (type_val ty) 0 qos retain # remaining (length body) @ body"

section \<open>The buffer during construction\<close>

definition buf_ok :: "mqtt_connection \<Rightarrow> mem \<Rightarrow> bool" where
  "buf_ok c m \<longleftrightarrow> 3 \<le> unat (buffer_length c) \<and> valid_range m (conn_buffer c) (unat (buffer_length c))"

definition building :: "mqtt_connection \<Rightarrow> mem \<Rightarrow> u8 list \<Rightarrow> bool" where
  "building c m body \<longleftrightarrow> buf_ok c m \<and> unat (msg_length c) = 3 + length body
     \<and> 3 + length body \<le> unat (buffer_length c) \<and> bytes_at m (conn_buffer c + 3) (length body) = body"

definition only_buffer :: "mqtt_connection \<Rightarrow> mem \<Rightarrow> mqtt_connection \<Rightarrow> mem \<Rightarrow> bool" where
  "only_buffer c m c' m' \<longleftrightarrow> conn_buffer c' = conn_buffer c \<and> buffer_length c' = buffer_length c
     \<and> (\<forall>a. a < conn_buffer c \<or> conn_buffer c + unat (buffer_length c) \<le> a \<longrightarrow> m' a = m a)
     \<and> (\<forall>a. (m' a = None) = (m a = None))"

definition message :: "mqtt_connection \<Rightarrow> mem \<Rightarrow> u8 list" where
  "message c m = bytes_at m (msg_data c) (unat (msg_length c))"

definition msg_inside :: "mqtt_connection \<Rightarrow> bool" where
  "msg_inside c \<longleftrightarrow> conn_buffer c \<le> msg_data c
     \<and> msg_data c + unat (msg_length c) \<le> conn_buffer c + unat (buffer_length c)"

lemma only_buffer_refl [simp]: "only_buffer c m c m"
  by (simp add: only_buffer_def)

lemma only_buffer_trans: "only_buffer c m c1 m1 \<Longrightarrow> only_buffer c1 m1 c2 m2 \<Longrightarrow> only_buffer c m c2 m2"
  unfolding only_buffer_def by (intro conjI; simp)

lemma only_buffer_init [simp]: "only_buffer (init_message c) m c' m' = only_buffer c m c' m'"
  by (simp add: only_buffer_def init_message_def)

lemma only_buffer_outside:
  "only_buffer c m c' m' \<Longrightarrow> a < conn_buffer c \<or> conn_buffer c + unat (buffer_length c) \<le> a \<Longrightarrow> m' a = m a"
  unfolding only_buffer_def by blast

lemma building_init: "buf_ok c m \<Longrightarrow> building (init_message c) m []"
  by (simp add: building_def init_message_def buf_ok_def)

lemma poke_effect:
  assumes "valid_range m b n" "b \<le> a" "a < b + n"
  shows "poke a v m = Some (m(a \<mapsto> v))" "\<And>x. ((m(a \<mapsto> v)) x = None) = (m x = None)"
    "valid_range (m(a \<mapsto> v)) b n"
proof -
  have "a - b < n" "b + (a - b) = a" using assms by auto
  then have "m a \<noteq> None" using assms(1) by (metis valid_range_iff)
  then show "poke a v m = Some (m(a \<mapsto> v))" "\<And>x. ((m(a \<mapsto> v)) x = None) = (m x = None)"
    by (auto simp: poke_def)
  show "valid_range (m(a \<mapsto> v)) b n" using assms(1) by (auto simp: valid_range_iff)
qed

lemma unat_add_of_nat_u16: "unat (x :: u16) + n \<le> unat (y :: u16) \<Longrightarrow> unat (x + of_nat n) = unat x + n"
  using unsigned_less [of y, where 'a = nat]
  by (simp add: unat_word_ariths unat_of_nat take_bit_nat_eq_self take_bit_eq_mod [symmetric])

lemma append_byte_building:
  assumes b: "building c m body" and room: "3 + length body < unat (buffer_length c)"
  shows "\<exists>c' m'. append_byte c v m = Some (c', m') \<and> building c' m' (body @ [v]) \<and> only_buffer c m c' m'
    \<and> message_id c' = message_id c"
proof -
  let ?a = "conn_buffer c + unat (msg_length c)" and ?c = "c\<lparr>msg_length := msg_length c + 1\<rparr>"
  have v: "valid_range m (conn_buffer c) (unat (buffer_length c))" and l: "unat (msg_length c) = 3 + length body"
    and bs: "bytes_at m (conn_buffer c + 3) (length body) = body"
    using b by (auto simp: building_def buf_ok_def)
  note p = poke_effect [OF v, of ?a v]
  have a: "conn_buffer c \<le> ?a" "?a < conn_buffer c + unat (buffer_length c)" using l room by auto
  have l1: "unat (msg_length c + 1) = 3 + length body + 1"
    using unat_add_of_nat_u16 [of "msg_length c" 1 "buffer_length c"] l room by simp
  have "bytes_at (m(?a \<mapsto> v)) (conn_buffer c + 3) (length body) = bytes_at m (conn_buffer c + 3) (length body)"
    using l by (intro bytes_at_cong) auto
  moreover have "bytes_at (m(?a \<mapsto> v)) (conn_buffer c + 3 + length body) 1 = [v]" using l by (simp add: bytes_at_def)
  ultimately have "bytes_at (m(?a \<mapsto> v)) (conn_buffer c + 3) (length body + 1) = body @ [v]"
    unfolding bytes_at_append using bs by metis
  then have "building ?c (m(?a \<mapsto> v)) (body @ [v])"
    using b p(3) [OF a] l1 room by (simp add: building_def buf_ok_def)
  moreover have "only_buffer c m ?c (m(?a \<mapsto> v))"
    using p(2) [OF a] a by (auto simp: only_buffer_def)
  ultimately show ?thesis using p(1) [OF a] by (simp add: append_byte_def)
qed

text \<open>A source outside the buffer.\<close>

definition apart :: "mqtt_connection \<Rightarrow> ptr \<Rightarrow> nat \<Rightarrow> bool" where
  "apart c p n \<longleftrightarrow> disjoint_ranges (conn_buffer c) (unat (buffer_length c)) p n"

lemma apart_keeps:
  assumes "only_buffer c m c' m'" "apart c p n"
  shows "bytes_at m' p n = bytes_at m p n" "valid_range m' p n = valid_range m p n" "apart c' p n"
    "i < n \<Longrightarrow> m' (p + i) = m (p + i)"
proof -
  have eq: "m' (p + i) = m (p + i)" if "i < n" for i
    using assms(2) that by (intro only_buffer_outside [OF assms(1)]) (auto simp: apart_def disjoint_ranges_def)
  then show "i < n \<Longrightarrow> m' (p + i) = m (p + i)" by blast
  from eq show "bytes_at m' p n = bytes_at m p n" by (intro bytes_at_cong) auto
  show "valid_range m' p n = valid_range m p n" using assms(1) by (simp add: only_buffer_def valid_range_iff)
  show "apart c' p n" using assms by (simp add: only_buffer_def apart_def)
qed

lemma append_block_building:
  assumes b: "building c m body" and room: "3 + length body + n \<le> unat (buffer_length c)"
    and src: "valid_range m p n" "apart c p n"
  shows "\<exists>m'. memcpy (conn_buffer c + unat (msg_length c)) p n m = Some m'
    \<and> building (c\<lparr>msg_length := msg_length c + of_nat n\<rparr>) m' (body @ bytes_at m p n)
    \<and> only_buffer c m (c\<lparr>msg_length := msg_length c + of_nat n\<rparr>) m'"
proof -
  let ?a = "conn_buffer c + unat (msg_length c)" and ?c = "c\<lparr>msg_length := msg_length c + of_nat n\<rparr>"
  have v: "valid_range m (conn_buffer c) (unat (buffer_length c))" and l: "unat (msg_length c) = 3 + length body"
    and bs: "bytes_at m (conn_buffer c + 3) (length body) = body"
    using b by (auto simp: building_def buf_ok_def)
  have "valid_range m ?a n" using valid_range_sub [OF v] l room by simp
  moreover have "disjoint_ranges ?a n p n"
    using src(2) l room by (auto simp: apart_def disjoint_ranges_def)
  ultimately obtain m' where m': "memcpy ?a p n m = Some m'" using memcpy_Some src(1) by blast
  have "bytes_at m' (conn_buffer c + 3) (length body) = bytes_at m (conn_buffer c + 3) (length body)"
    using l by (intro bytes_at_memcpy_frame [OF m']) (auto simp: disjoint_ranges_def)
  moreover have "conn_buffer c + 3 + length body = ?a" using l by simp
  ultimately have "bytes_at m' (conn_buffer c + 3) (length body + n) = body @ bytes_at m p n"
    unfolding bytes_at_append using bs bytes_at_memcpy_dst [OF m'] by metis
  moreover have "unat (msg_length c + of_nat n) = 3 + length body + n"
    using unat_add_of_nat_u16 [of "msg_length c" n "buffer_length c"] l room by simp
  ultimately have "building ?c m' (body @ bytes_at m p n)"
    using b room valid_range_memcpy [OF m'] by (simp add: building_def buf_ok_def)
  moreover have "only_buffer c m ?c m'"
    using memcpy_frame [OF m'] memcpy_defined [OF m'] l room by (auto simp: only_buffer_def)
  ultimately show ?thesis using m' by blast
qed

text \<open>A string argument: in memory, outside the buffer.\<close>

definition arg :: "mqtt_connection \<Rightarrow> mem \<Rightarrow> ptr \<Rightarrow> u8 list \<Rightarrow> bool" where
  "arg c m p s \<longleftrightarrow> c_string m p s \<and> apart c p (length s + 1) \<and> p \<noteq> NULL"

lemma arg_keeps:
  assumes "only_buffer c m c' m'" "arg c m p s"
  shows "arg c' m' p s"
proof -
  have ap: "apart c p (length (s @ [0]))" using assms(2) by (simp add: arg_def)
  have "str_at m' p (s @ [0])"
    using assms(2) apart_keeps(4) [OF assms(1) ap] unfolding arg_def c_string_def str_at_def by metis
  with assms apart_keeps(3) [OF assms(1) ap] show ?thesis by (simp add: arg_def c_string_def)
qed

lemma arg_facts:
  assumes "arg c m p s"
  shows "strlen p m = Some (length s)" "bytes_at m p (length s) = s" "valid_range m p (length s)"
    "apart c p (length s)" "present p m = Some (s \<noteq> [])"
proof -
  have str: "str_at m p (s @ [0])" "0 \<notin> set s" using assms by (auto simp: arg_def c_string_def)
  show "strlen p m = Some (length s)" using assms strlen_c_string by (simp add: arg_def)
  show "bytes_at m p (length s) = s" "valid_range m p (length s)"
    using str str_at_bytes str_at_valid by auto
  show "apart c p (length s)" using assms by (auto simp: arg_def apart_def disjoint_ranges_def)
  show "present p m = Some (s \<noteq> [])"
    using assms str by (cases s) (auto simp: present_def arg_def)
qed

lemma length_str16 [simp]: "length (str16 s) = length s + 2"
  by (simp add: str16_def)

lemma length_id16 [simp]: "length (id16 i) = 2"
  by (simp add: id16_def)

lemma append_string_building:
  assumes b: "building c m body" and src: "arg c m p s"
    and room: "3 + length body + length (str16 s) \<le> unat (buffer_length c)"
  shows "\<exists>c' m'. append_string c p (int (length s)) m = Some (int (length s) + 2, c', m')
    \<and> building c' m' (body @ str16 s) \<and> only_buffer c m c' m' \<and> message_id c' = message_id c"
proof -
  have l: "unat (msg_length c) = 3 + length body" using b by (simp add: building_def)
  let ?h = "word_of_int (drop_bit 8 (int (length s))) :: u8" and ?l = "word_of_int (int (length s) AND 0xff) :: u8"
  obtain c1 m1 where 1: "append_byte c ?h m = Some (c1, m1)" "building c1 m1 (body @ [?h])" "only_buffer c m c1 m1"
      "message_id c1 = message_id c"
    using append_byte_building [OF b, of ?h] room by auto
  have L1: "buffer_length c1 = buffer_length c" using 1(3) by (simp add: only_buffer_def)
  obtain c2 m2 where 2: "append_byte c1 ?l m1 = Some (c2, m2)" "building c2 m2 ((body @ [?h]) @ [?l])"
      "only_buffer c1 m1 c2 m2" "message_id c2 = message_id c1"
    using append_byte_building [OF 1(2), of ?l] room L1 by auto
  have k: "only_buffer c m c2 m2" using only_buffer_trans 1(3) 2(3) by blast
  have L2: "buffer_length c2 = buffer_length c" using k by (simp add: only_buffer_def)
  note f = arg_facts [OF arg_keeps [OF k src]]
  let ?c = "c2\<lparr>msg_length := msg_length c2 + of_nat (length s)\<rparr>"
  obtain m3 where 3: "memcpy (conn_buffer c2 + unat (msg_length c2)) p (length s) m2 = Some m3"
      "building ?c m3 (((body @ [?h]) @ [?l]) @ s)" "only_buffer c2 m2 ?c m3"
    using append_block_building [OF 2(2), of "length s" p] f(2-4) room L2 by auto
  have "append_string c p (int (length s)) m = Some (int (length s) + 2, ?c, m3)"
  proof -
    have "\<not> int (unat (buffer_length c)) < int (unat (msg_length c)) + int (length s) + 2"
      using room l unfolding length_str16 by linarith
    then show ?thesis using 1(1) 2(1) 3(1) unfolding append_string_def by (simp only: if_False) simp
  qed
  moreover have "building ?c m3 (body @ str16 s)" using 3(2) by (simp add: str16_def)
  ultimately show ?thesis using only_buffer_trans [OF k 3(3)] 1(4) 2(4) by auto
qed

lemma append_string_full:
  assumes "building c m body" "unat (buffer_length c) < 3 + length body + length (str16 s)"
  shows "append_string c p (int (length s)) m = Some (-1, c, m)"
proof -
  have "int (unat (buffer_length c)) < int (unat (msg_length c)) + int (length s) + 2"
    using assms unfolding building_def length_str16 by linarith
  then show ?thesis unfolding append_string_def by (simp only: if_True)
qed

lemma fresh_id_nonzero: "fst (fresh_id mid cid) \<noteq> 0"
  by (induction mid cid rule: fresh_id.induct) (subst fresh_id.simps, auto)

lemma append_message_id_building:
  assumes b: "building c m body" and room: "3 + length body + 2 \<le> unat (buffer_length c)"
  shows "\<exists>c' m'. append_message_id c mid m = Some (fst (fresh_id mid (message_id c)), c', m')
    \<and> building c' m' (body @ id16 (fst (fresh_id mid (message_id c)))) \<and> only_buffer c m c' m'
    \<and> message_id c' = snd (fresh_id mid (message_id c))"
proof -
  obtain i cid where f: "fresh_id mid (message_id c) = (i, cid)" by fastforce
  let ?c = "c\<lparr>message_id := cid\<rparr>"
  have b0: "building ?c m body" and l: "unat (msg_length c) = 3 + length body"
    using b by (auto simp: building_def buf_ok_def)
  let ?h = "ucast (drop_bit 8 i) :: u8" and ?l = "ucast (i AND 0xff) :: u8"
  obtain c1 m1 where 1: "append_byte ?c ?h m = Some (c1, m1)" "building c1 m1 (body @ [?h])" "only_buffer ?c m c1 m1"
      "message_id c1 = message_id ?c"
    using append_byte_building [OF b0, of ?h] room by auto
  have L1: "buffer_length c1 = buffer_length c" using 1(3) by (simp add: only_buffer_def)
  obtain c2 m2 where 2: "append_byte c1 ?l m1 = Some (c2, m2)" "building c2 m2 ((body @ [?h]) @ [?l])"
      "only_buffer c1 m1 c2 m2" "message_id c2 = message_id c1"
    using append_byte_building [OF 1(2), of ?l] room L1 by auto
  have "only_buffer ?c m c2 m2" using only_buffer_trans 1(3) 2(3) by blast
  then have "only_buffer c m c2 m2" by (simp add: only_buffer_def)
  moreover have "append_message_id c mid m = Some (i, c2, m2)"
    using room l 1(1) 2(1) by (simp add: append_message_id_def f Let_def)
  ultimately show ?thesis using 1(4) 2(2,4) by (simp add: f id16_def)
qed

lemma append_message_id_full:
  assumes "building c m body" "unat (buffer_length c) < 3 + length body + 2"
  shows "append_message_id c mid m = Some (0, c\<lparr>message_id := snd (fresh_id mid (message_id c))\<rparr>, m)"
  using assms by (simp add: append_message_id_def building_def case_prod_beta Let_def)

section \<open>Whole messages\<close>

text \<open>\<open>built c m out r\<close>: a builder run from \<open>c\<close>, \<open>m\<close> returned, wrote only the buffer, and its message is
  \<open>out\<close>; a failed message is empty.\<close>

definition built :: "mqtt_connection \<Rightarrow> mem \<Rightarrow> u8 list \<Rightarrow> (mqtt_connection \<times> mem) option \<Rightarrow> bool" where
  "built c m out r \<longleftrightarrow> (\<exists>c' m'. r = Some (c', m') \<and> only_buffer c m c' m' \<and> message c' m' = out \<and> msg_inside c')"

definition fit :: "mqtt_connection \<Rightarrow> u8 list \<Rightarrow> bool" where
  "fit c body \<longleftrightarrow> 3 + length body \<le> unat (buffer_length c)"

lemma built_from: "only_buffer c m c1 m1 \<Longrightarrow> built c1 m1 out r \<Longrightarrow> built c m out r"
  unfolding built_def using only_buffer_trans by blast

lemma fit_cong: "only_buffer c m c1 m1 \<Longrightarrow> fit c1 body = fit c body"
  by (simp add: fit_def only_buffer_def)

lemma built_fail: "built c m [] (Some (fail_message c, m))"
  by (simp add: built_def fail_message_def only_buffer_def message_def msg_inside_def)

lemma fini_long:
  assumes b: "building c m body" and n: "127 < length body"
  shows "built c m (packet ty qos retain body) (fini_message c (type_val ty) 0 qos retain m)"
proof -
  let ?B = "conn_buffer c" and ?n = "int (length body)"
  have v: "valid_range m ?B (unat (buffer_length c))" and l: "unat (msg_length c) = 3 + length body"
    and L: "3 + length body \<le> unat (buffer_length c)" and bs: "bytes_at m (?B + 3) (length body) = body"
    using b by (auto simp: building_def buf_ok_def)
  have rem: "int (unat (msg_length c)) - 3 = ?n" using l by linarith
  let ?h = "fixed_header (type_val ty) 0 qos retain"
  let ?x = "word_of_int (0x80 OR ?n mod 128) :: u8" and ?y = "word_of_int (?n div 128) :: u8"
  define m1 where "m1 = m(?B \<mapsto> ?h)"
  define m2 where "m2 = m1(?B + 1 \<mapsto> ?x)"
  define m3 where "m3 = m2(?B + 2 \<mapsto> ?y)"
  note p1 = poke_effect [OF v, of ?B ?h, folded m1_def]
  note p2 = poke_effect [OF p1(3), of "?B + 1" ?x, folded m2_def]
  note p3 = poke_effect [OF p2(3), of "?B + 2" ?y, folded m3_def]
  let ?c = "c\<lparr>msg_length := word_of_int (?n + 3), msg_data := ?B\<rparr>"
  have "fini_message c (type_val ty) 0 qos retain m = Some (?c, m3)"
    using p1(1) p2(1) p3(1) n L unfolding fini_message_def Let_def rem by simp
  moreover have u: "unat (word_of_int (?n + 3) :: u16) = 3 + length body"
  proof -
    have "(word_of_int (?n + 3) :: u16) = of_nat (length body + 3)" by simp
    also have "unat \<dots> = length body + 3"
      using L unsigned_less [of "buffer_length c", where 'a = nat] by (intro unat_of_nat_u16) simp
    finally show ?thesis by simp
  qed
  moreover have "only_buffer c m ?c m3"
  proof -
    have "(m3 a = None) = (m a = None)" for a using p1(2) p2(2) p3(2) L by simp
    moreover have "m3 a = m a" if "a < ?B \<or> ?B + unat (buffer_length c) \<le> a" for a
      using that L by (auto simp: m1_def m2_def m3_def)
    ultimately show ?thesis by (simp add: only_buffer_def)
  qed
  moreover have "bytes_at m3 ?B (3 + length body) = [?h, ?x, ?y] @ body"
  proof -
    have "bytes_at m3 (?B + 3) (length body) = bytes_at m (?B + 3) (length body)"
      by (intro bytes_at_cong) (simp add: m1_def m2_def m3_def)
    moreover have "bytes_at m3 ?B 3 = [?h, ?x, ?y]"
      by (simp add: bytes_at_def numeral_3_eq_3 m1_def m2_def m3_def)
    ultimately show ?thesis unfolding bytes_at_append bs by simp
  qed
  ultimately show ?thesis
    using n L unfolding built_def
    by (intro exI [of _ ?c] exI [of _ m3]) (simp add: message_def msg_inside_def packet_def remaining_def)
qed

lemma fini_short:
  assumes b: "building c m body" and n: "length body \<le> 127"
  shows "built c m (packet ty qos retain body) (fini_message c (type_val ty) 0 qos retain m)"
proof -
  let ?B = "conn_buffer c" and ?n = "int (length body)"
  have v: "valid_range m ?B (unat (buffer_length c))" and l: "unat (msg_length c) = 3 + length body"
    and L: "3 + length body \<le> unat (buffer_length c)" and bs: "bytes_at m (?B + 3) (length body) = body"
    using b by (auto simp: building_def buf_ok_def)
  have rem: "int (unat (msg_length c)) - 3 = ?n" using l by linarith
  let ?h = "fixed_header (type_val ty) 0 qos retain" and ?x = "word_of_int ?n :: u8"
  define m1 where "m1 = m(?B + 1 \<mapsto> ?h)"
  define m2 where "m2 = m1(?B + 2 \<mapsto> ?x)"
  note p1 = poke_effect [OF v, of "?B + 1" ?h, folded m1_def]
  note p2 = poke_effect [OF p1(3), of "?B + 2" ?x, folded m2_def]
  let ?c = "c\<lparr>msg_length := word_of_int (?n + 2), msg_data := ?B + 1\<rparr>"
  have "fini_message c (type_val ty) 0 qos retain m = Some (?c, m2)"
    using p1(1) p2(1) n L unfolding fini_message_def Let_def rem by simp
  moreover have u: "unat (word_of_int (?n + 2) :: u16) = 2 + length body"
  proof -
    have "(word_of_int (?n + 2) :: u16) = of_nat (length body + 2)" by simp
    also have "unat \<dots> = length body + 2" using n by (intro unat_of_nat_u16) simp
    finally show ?thesis by simp
  qed
  moreover have "only_buffer c m ?c m2"
  proof -
    have "(m2 a = None) = (m a = None)" for a using p1(2) p2(2) L by simp
    moreover have "m2 a = m a" if "a < ?B \<or> ?B + unat (buffer_length c) \<le> a" for a
      using that L by (auto simp: m1_def m2_def)
    ultimately show ?thesis by (simp add: only_buffer_def)
  qed
  moreover have "bytes_at m2 (?B + 1) (2 + length body) = [?h, ?x] @ body"
  proof -
    have "bytes_at m2 (?B + 1 + 2) (length body) = bytes_at m (?B + 3) (length body)"
      by (intro bytes_at_cong) (simp add: m1_def m2_def numeral_3_eq_3)
    moreover have "bytes_at m2 (?B + 1) 2 = [?h, ?x]"
      by (simp add: bytes_at_def numeral_2_eq_2 m1_def m2_def)
    ultimately show ?thesis unfolding bytes_at_append bs by simp
  qed
  ultimately show ?thesis
    using n L unfolding built_def
    by (intro exI [of _ ?c] exI [of _ m2]) (simp add: message_def msg_inside_def packet_def remaining_def)
qed

lemma fini_built:
  "building c m body \<Longrightarrow> built c m (packet ty qos retain body) (fini_message c (type_val ty) 0 qos retain m)"
  using fini_long fini_short by (cases "127 < length body") auto

text \<open>One string, and what follows it.\<close>

lemma string_or_fail_built:
  assumes b: "building c m body" and a: "arg c m p s" and full: "length body + length (str16 s) \<le> length whole"
    and rest: "\<And>c1 m1. building c1 m1 (body @ str16 s) \<Longrightarrow> only_buffer c m c1 m1 \<Longrightarrow> message_id c1 = message_id c \<Longrightarrow>
      built c1 m1 (if fit c1 whole then out else []) (rest c1 m1)"
  shows "built c m (if fit c whole then out else []) (string_or_fail c p m rest)"
proof (cases "fit c (body @ str16 s)")
  case True
  then obtain c1 m1 where 1: "append_string c p (int (length s)) m = Some (int (length s) + 2, c1, m1)"
      "building c1 m1 (body @ str16 s)" "only_buffer c m c1 m1" "message_id c1 = message_id c"
    using append_string_building [OF b a] by (auto simp: fit_def)
  then have "string_or_fail c p m rest = rest c1 m1"
    using arg_facts(1) [OF a] by (simp add: string_or_fail_def)
  with built_from [OF 1(3) rest [OF 1(2-4)]] fit_cong [OF 1(3)] show ?thesis by simp
next
  case False
  then have "append_string c p (int (length s)) m = Some (-1, c, m)"
    by (intro append_string_full [OF b]) (simp add: fit_def)
  then have "string_or_fail c p m rest = Some (fail_message c, m)"
    using arg_facts(1) [OF a] by (simp add: string_or_fail_def)
  moreover have "\<not> fit c whole" using False full by (simp add: fit_def)
  ultimately show ?thesis using built_fail by simp
qed

lemma id_message_built:
  assumes "buf_ok c m"
  shows "built c m (let body = id16 (fst (fresh_id mid (message_id c))) in if fit c body then packet ty qos 0 body else [])
    (id_message ty qos c mid m)"
proof -
  have b: "building (init_message c) m []" using assms by (rule building_init)
  have c0: "message_id (init_message c) = message_id c" "buffer_length (init_message c) = buffer_length c"
    by (simp_all add: init_message_def)
  let ?i = "fst (fresh_id mid (message_id c))"
  show ?thesis
  proof (cases "fit c (id16 ?i)")
    case True
    then obtain c1 m1 where 1: "append_message_id (init_message c) mid m = Some (?i, c1, m1)"
        "building c1 m1 ([] @ id16 ?i)" "only_buffer (init_message c) m c1 m1"
      using append_message_id_building [OF b, of mid] by (auto simp: fit_def c0)
    have "built c1 m1 (packet ty qos 0 (id16 ?i)) (fini_message c1 (type_val ty) 0 qos 0 m1)"
      using fini_built 1(2) by simp
    then have "built c m (packet ty qos 0 (id16 ?i)) (fini_message c1 (type_val ty) 0 qos 0 m1)"
      using built_from 1(3) by simp
    then show ?thesis using 1(1) True fresh_id_nonzero by (simp add: id_message_def Let_def)
  next
    case False
    then have "append_message_id (init_message c) mid m =
        Some (0, (init_message c)\<lparr>message_id := snd (fresh_id mid (message_id c))\<rparr>, m)"
      using append_message_id_full [OF b] by (simp add: fit_def c0)
    then show ?thesis
      using False by (simp add: id_message_def Let_def built_def fail_message_def only_buffer_def message_def
          msg_inside_def init_message_def)
  qed
qed

text \<open>A publish message.\<close>

definition publish_body :: "u8 list \<Rightarrow> int \<Rightarrow> u16 \<Rightarrow> u8 list \<Rightarrow> u8 list" where
  "publish_body topic qos i data = str16 topic @ (if 0 < qos then id16 i else []) @ data"

lemma publish_tail:
  assumes b: "building c m body" and src: "valid_range m p n" "apart c p n"
  shows "built c m (if fit c (body @ bytes_at m p n) then packet MQTT_MSG_TYPE_PUBLISH qos retain (body @ bytes_at m p n) else [])
    (publish_payload c p (int n) qos retain m)"
proof -
  have l: "unat (msg_length c) = 3 + length body" using b by (simp add: building_def)
  have g: "(int (unat (buffer_length c)) < int (unat (msg_length c)) + int n) = (\<not> fit c (body @ bytes_at m p n))"
    unfolding fit_def length_append length_bytes_at l by linarith
  show ?thesis
  proof (cases "fit c (body @ bytes_at m p n)")
    case True
    let ?c = "c\<lparr>msg_length := msg_length c + of_nat n\<rparr>"
    obtain m1 where 1: "memcpy (conn_buffer c + unat (msg_length c)) p n m = Some m1"
        "building ?c m1 (body @ bytes_at m p n)" "only_buffer c m ?c m1"
      using append_block_building [OF b _ src] True by (auto simp: fit_def)
    from built_from [OF 1(3) fini_built [OF 1(2), of MQTT_MSG_TYPE_PUBLISH qos retain]] 1(1) True show ?thesis unfolding publish_payload_def g by simp
  next
    case False
    then show ?thesis unfolding publish_payload_def g using built_fail by simp
  qed
qed

lemma built_map: "built c m out (Some (c', m')) \<Longrightarrow> \<exists>r. Some (i, c', m') = map_option (Pair i) r \<and> built c m out r"
  by (intro exI [of _ "Some (c', m')"]) simp

lemma built_pair:
  assumes "built c m out r" "f = map_option (Pair i) r"
  shows "\<exists>c' m'. f = Some (i, c', m') \<and> only_buffer c m c' m' \<and> message c' m' = out \<and> msg_inside c'"
  using assms by (auto simp: built_def)

definition next_id :: "mqtt_connection \<Rightarrow> u16" where
  "next_id c = fst (fresh_id 0 (message_id c))"

text \<open>The optional message id of a publish message.\<close>

lemma publish_id_part:
  fixes qos :: int
  assumes b: "building c m body"
  defines "idp \<equiv> if 0 < qos then id16 (next_id c) else []"
  shows "(if fit c (body @ idp)
     then \<exists>c1 m1. (if 0 < qos then append_message_id c 0 m else Some (0, c, m)) =
            Some (if 0 < qos then next_id c else 0, c1, m1) \<and> building c1 m1 (body @ idp) \<and> only_buffer c m c1 m1
     else \<exists>c1. (if 0 < qos then append_message_id c 0 m else Some (0, c, m)) = Some (0, c1, m)
            \<and> 0 < qos \<and> built c m [] (Some (fail_message c1, m)))"
proof (cases "0 < qos")
  case True
  show ?thesis
  proof (cases "fit c (body @ id16 (next_id c))")
    case fits: True
    then show ?thesis
      using True append_message_id_building [OF b, of 0] by (auto simp: idp_def fit_def next_id_def)
  next
    case False
    then have "append_message_id c 0 m = Some (0, c\<lparr>message_id := snd (fresh_id 0 (message_id c))\<rparr>, m)"
      by (intro append_message_id_full [OF b]) (simp add: fit_def)
    then show ?thesis using True False
      by (simp add: idp_def built_def fail_message_def only_buffer_def message_def msg_inside_def)
  qed
next
  case False
  have "fit c body" using b by (simp add: building_def fit_def)
  with False b show ?thesis by (auto simp: idp_def)
qed

lemma publish_built:
  fixes qos :: int
  assumes b0: "buf_ok c m" and t: "arg c m tp t" "t \<noteq> []" and src: "valid_range m dp n" "apart c dp n"
  defines "body \<equiv> publish_body t qos (next_id c) (bytes_at m dp n)"
  shows "\<exists>i r. mqtt_msg_publish c tp dp (int n) qos retain mid m = map_option (Pair i) r
    \<and> built c m (if fit c body then packet MQTT_MSG_TYPE_PUBLISH qos retain body else []) r
    \<and> (fit c body \<longrightarrow> i = (if 0 < qos then next_id c else 0))"
proof -
  let ?c = "init_message c"
  define idp where "idp = (if 0 < qos then id16 (next_id c) else [])"
  have b: "building ?c m []" using b0 by (rule building_init)
  have c0: "next_id ?c = next_id c" "\<And>x. fit ?c x = fit c x" "\<And>out r. built ?c m out r = built c m out r"
    by (simp_all add: init_message_def next_id_def fit_def built_def only_buffer_def)
  have t0: "arg ?c m tp t" using t(1) by (simp add: arg_def apart_def init_message_def)
  note f = arg_facts [OF t0]
  have body: "body = str16 t @ idp @ bytes_at m dp n" by (simp add: body_def publish_body_def idp_def)
  show ?thesis
  proof (cases "fit c (str16 t)")
    case False
    then have "append_string ?c tp (int (length t)) m = Some (-1, ?c, m)"
      by (intro append_string_full [OF b]) (simp add: fit_def init_message_def)
    moreover have "\<not> fit c body" using False by (simp add: body fit_def)
    ultimately show ?thesis
      using built_fail [of ?c m] t(2) f(1,5) c0(3)
      by (intro exI [of _ mid] exI [of _ "Some (fail_message ?c, m)"]) (simp add: mqtt_msg_publish_def)
  next
    case True
    then obtain c1 m1 where 1: "append_string ?c tp (int (length t)) m = Some (int (length t) + 2, c1, m1)"
        "building c1 m1 (str16 t)" "only_buffer ?c m c1 m1" "message_id c1 = message_id c"
      using append_string_building [OF b t0] by (auto simp: fit_def init_message_def)
    have id1: "next_id c1 = next_id c" "\<And>x. fit c1 x = fit c x"
      using 1(4) fit_cong [OF 1(3)] by (simp_all add: next_id_def c0)
    show ?thesis
    proof (cases "fit c (str16 t @ idp)")
      case False
      then obtain c2 where 2: "append_message_id c1 0 m1 = Some (0, c2, m1)" "0 < qos"
          "built c1 m1 [] (Some (fail_message c2, m1))"
        using publish_id_part [OF 1(2), of qos] by (auto simp: id1 idp_def split: if_splits)
      have "\<not> fit c body" using False by (simp add: body fit_def)
      moreover have "built c m [] (Some (fail_message c2, m1))" using built_from [OF 1(3) 2(3)] c0(3) by simp
      ultimately show ?thesis
        using 1(1) 2(1,2) t(2) f(1,5)
        by (intro exI [of _ 0] exI [of _ "Some (fail_message c2, m1)"]) (simp add: mqtt_msg_publish_def)
    next
      case fits: True
      let ?i = "if 0 < qos then next_id c else 0"
      obtain c2 m2 where 2: "(if 0 < qos then append_message_id c1 0 m1 else Some (0, c1, m1)) = Some (?i, c2, m2)"
          "building c2 m2 (str16 t @ idp)" "only_buffer c1 m1 c2 m2"
        using publish_id_part [OF 1(2), of qos] fits by (auto simp: id1 idp_def split: if_splits)
      have k: "only_buffer ?c m c2 m2" using only_buffer_trans 1(3) 2(3) by blast
      have src': "valid_range m2 dp n" "apart c2 dp n" "bytes_at m2 dp n = bytes_at m dp n"
        using apart_keeps [OF k, of dp n] src by (simp_all add: apart_def init_message_def)
      have "built c2 m2 (if fit c body then packet MQTT_MSG_TYPE_PUBLISH qos retain body else [])
          (publish_payload c2 dp (int n) qos retain m2)"
        using publish_tail [OF 2(2) src'(1,2), of qos retain] unfolding src'(3) append_assoc body fit_cong [OF k] c0(2) .
      from built_from [OF k this] c0(3) have
        "built c m (if fit c body then packet MQTT_MSG_TYPE_PUBLISH qos retain body else [])
          (publish_payload c2 dp (int n) qos retain m2)" by simp
      moreover have "mqtt_msg_publish c tp dp (int n) qos retain mid m =
          map_option (Pair ?i) (publish_payload c2 dp (int n) qos retain m2)"
        using 1(1) 2(1) t(2) f(1,5) fresh_id_nonzero [of 0 "message_id c"]
        by (auto simp: mqtt_msg_publish_def next_id_def map_option_case split: option.splits if_splits)
      ultimately show ?thesis by blast
    qed
  qed
qed

text \<open>Subscriptions.\<close>

lemma subscribe_built:
  fixes qos :: int
  assumes b0: "buf_ok c m" and t: "arg c m tp t" "t \<noteq> []"
  defines "sub \<equiv> id16 (next_id c) @ str16 t @ [word_of_int qos]" and "unsub \<equiv> id16 (next_id c) @ str16 t"
  shows "\<exists>i r. mqtt_msg_subscribe c tp qos mid m = map_option (Pair i) r
      \<and> built c m (if fit c sub then packet MQTT_MSG_TYPE_SUBSCRIBE 1 0 sub else []) r \<and> (fit c sub \<longrightarrow> i = next_id c)"
    and "\<exists>i r. mqtt_msg_unsubscribe c tp mid m = map_option (Pair i) r
      \<and> built c m (if fit c unsub then packet MQTT_MSG_TYPE_UNSUBSCRIBE 1 0 unsub else []) r
      \<and> (fit c unsub \<longrightarrow> i = next_id c)"
proof -
  let ?c = "init_message c"
  have b: "building ?c m []" using b0 by (rule building_init)
  have c0: "next_id ?c = next_id c" "\<And>x. fit ?c x = fit c x" "\<And>out r. built ?c m out r = built c m out r"
    by (simp_all add: init_message_def next_id_def fit_def built_def only_buffer_def)
  have t0: "arg ?c m tp t" using t(1) by (simp add: arg_def apart_def init_message_def)
  note f = arg_facts [OF t0]
  note p = publish_id_part [OF b, of 1]
  have both: "(\<exists>i r. mqtt_msg_subscribe c tp qos mid m = map_option (Pair i) r
      \<and> built c m (if fit c sub then packet MQTT_MSG_TYPE_SUBSCRIBE 1 0 sub else []) r \<and> (fit c sub \<longrightarrow> i = next_id c))
    \<and> (\<exists>i r. mqtt_msg_unsubscribe c tp mid m = map_option (Pair i) r
      \<and> built c m (if fit c unsub then packet MQTT_MSG_TYPE_UNSUBSCRIBE 1 0 unsub else []) r
      \<and> (fit c unsub \<longrightarrow> i = next_id c))"
  proof (cases "fit c (id16 (next_id c))")
    case False
    then obtain c1 where 1: "append_message_id ?c 0 m = Some (0, c1, m)" "built ?c m [] (Some (fail_message c1, m))"
      using p by (auto simp: c0)
    have "\<not> fit c sub" "\<not> fit c unsub" using False by (auto simp: sub_def unsub_def fit_def)
    then show ?thesis using 1 t(2) f(5) c0(3)
      by (intro conjI exI [of _ 0] exI [of _ "Some (fail_message c1, m)"])
        (simp_all add: mqtt_msg_subscribe_def mqtt_msg_unsubscribe_def)
  next
    case True
    then obtain c1 m1 where 1: "append_message_id ?c 0 m = Some (next_id c, c1, m1)" "building c1 m1 (id16 (next_id c))"
        "only_buffer ?c m c1 m1"
      using p by (auto simp: c0)
    have nz: "next_id c \<noteq> 0" using fresh_id_nonzero by (simp add: next_id_def)
    have fc: "fit c1 x = fit c x" for x using fit_cong [OF 1(3)] c0(2) by simp
    note a1 = arg_keeps [OF 1(3) t0]
    let ?sub = "\<lambda>c m. if unat (buffer_length c) < unat (msg_length c) + 1 then Some (fail_message c, m)
        else do { (c, m) \<leftarrow> append_byte c (word_of_int qos) m; fini_message c (type_val MQTT_MSG_TYPE_SUBSCRIBE) 0 1 0 m }"
    let ?uns = "\<lambda>c m. fini_message c (type_val MQTT_MSG_TYPE_UNSUBSCRIBE) 0 1 0 m"
    have "built c1 m1 (if fit c1 sub then packet MQTT_MSG_TYPE_SUBSCRIBE 1 0 sub else []) (string_or_fail c1 tp m1 ?sub)"
    proof (rule string_or_fail_built [OF 1(2) a1])
      fix c2 m2 assume 2: "building c2 m2 (id16 (next_id c) @ str16 t)" "only_buffer c1 m1 c2 m2"
      show "built c2 m2 (if fit c2 sub then packet MQTT_MSG_TYPE_SUBSCRIBE 1 0 sub else []) (?sub c2 m2)"
      proof (cases "fit c2 sub")
        case True
        then obtain c3 m3 where 3: "append_byte c2 (word_of_int qos) m2 = Some (c3, m3)" "building c3 m3 sub" "only_buffer c2 m2 c3 m3"
          using append_byte_building [OF 2(1), of "word_of_int qos"] by (auto simp: fit_def sub_def)
        from built_from [OF 3(3) fini_built [OF 3(2), of MQTT_MSG_TYPE_SUBSCRIBE 1 0]] 3(1) True 2(1) show ?thesis
          by (simp add: fit_def sub_def building_def)
      next
        case False
        then show ?thesis using built_fail 2(1) by (simp add: fit_def sub_def building_def)
      qed
    qed (simp add: sub_def)
    moreover have "built c1 m1 (if fit c1 unsub then packet MQTT_MSG_TYPE_UNSUBSCRIBE 1 0 unsub else []) (string_or_fail c1 tp m1 ?uns)"
    proof (rule string_or_fail_built [OF 1(2) a1])
      fix c2 m2 assume 2: "building c2 m2 (id16 (next_id c) @ str16 t)" "only_buffer c1 m1 c2 m2"
      have "fit c2 unsub" using 2(1) by (simp add: building_def fit_def unsub_def)
      with fini_built [OF 2(1), of MQTT_MSG_TYPE_UNSUBSCRIBE 1 0]
      show "built c2 m2 (if fit c2 unsub then packet MQTT_MSG_TYPE_UNSUBSCRIBE 1 0 unsub else []) (?uns c2 m2)"
        by (simp add: unsub_def)
    qed (simp add: unsub_def)
    ultimately have s: "built c m (if fit c sub then packet MQTT_MSG_TYPE_SUBSCRIBE 1 0 sub else []) (string_or_fail c1 tp m1 ?sub)"
      and u: "built c m (if fit c unsub then packet MQTT_MSG_TYPE_UNSUBSCRIBE 1 0 unsub else []) (string_or_fail c1 tp m1 ?uns)"
      using built_from [OF 1(3)] c0(3) unfolding fc by blast+
    have "mqtt_msg_subscribe c tp qos mid m = map_option (Pair (next_id c)) (string_or_fail c1 tp m1 ?sub)"
      using 1(1) nz t(2) f(5) by (auto simp: mqtt_msg_subscribe_def map_option_case split: option.splits)
    moreover have "mqtt_msg_unsubscribe c tp mid m = map_option (Pair (next_id c)) (string_or_fail c1 tp m1 ?uns)"
      using 1(1) nz t(2) f(5) by (auto simp: mqtt_msg_unsubscribe_def map_option_case split: option.splits)
    ultimately show ?thesis using s u by blast
  qed
  from both show "\<exists>i r. mqtt_msg_subscribe c tp qos mid m = map_option (Pair i) r
      \<and> built c m (if fit c sub then packet MQTT_MSG_TYPE_SUBSCRIBE 1 0 sub else []) r \<and> (fit c sub \<longrightarrow> i = next_id c)"
    by blast
  from both show "\<exists>i r. mqtt_msg_unsubscribe c tp mid m = map_option (Pair i) r
      \<and> built c m (if fit c unsub then packet MQTT_MSG_TYPE_UNSUBSCRIBE 1 0 unsub else []) r
      \<and> (fit c unsub \<longrightarrow> i = next_id c)" by blast
qed

section \<open>The connect message\<close>

definition connect_head :: "u8 \<Rightarrow> int \<Rightarrow> u8 list" where
  "connect_head flags keep = (connect_header keep)[9 := flags]"

definition opt16 :: "u8 list \<Rightarrow> u8 list" where
  "opt16 s = (if s = [] then [] else str16 s)"

text \<open>An optional string argument: the null pointer or a string, possibly empty.\<close>

definition opt_arg :: "mqtt_connection \<Rightarrow> mem \<Rightarrow> ptr \<Rightarrow> u8 list \<Rightarrow> bool" where
  "opt_arg c m p s \<longleftrightarrow> p = NULL \<and> s = [] \<or> arg c m p s"

lemma opt_arg_keeps: "only_buffer c m c' m' \<Longrightarrow> opt_arg c m p s \<Longrightarrow> opt_arg c' m' p s"
  using arg_keeps by (auto simp: opt_arg_def)

lemma opt_arg_present: "opt_arg c m p s \<Longrightarrow> present p m = Some (s \<noteq> [])"
  unfolding opt_arg_def by (elim disjE) (simp_all add: present_def arg_facts(5) [unfolded present_def])

lemma opt_arg_arg: "opt_arg c m p s \<Longrightarrow> s \<noteq> [] \<Longrightarrow> arg c m p s"
  by (auto simp: opt_arg_def)

lemma length_connect_head [simp]: "length (connect_head f k) = 12" "length (connect_header k) = 12"
  by (simp_all add: connect_head_def connect_header_def)

lemma or_flags_building:
  assumes b: "building c m (connect_head f k @ body)"
  shows "\<exists>m'. or_flags c v m = Some m' \<and> building c m' (connect_head (f OR v) k @ body) \<and> only_buffer c m c m'"
proof -
  let ?a = "conn_buffer c + 12" and ?bs = "connect_head f k @ body"
  have v: "valid_range m (conn_buffer c) (unat (buffer_length c))"
    and L: "3 + length ?bs \<le> unat (buffer_length c)" and bs: "bytes_at m (conn_buffer c + 3) (length ?bs) = ?bs"
    using b by (auto simp: building_def buf_ok_def)
  have "bytes_at m (conn_buffer c + 3) (length ?bs) ! 9 = ?bs ! 9" using bs by simp
  then have "the (m (conn_buffer c + 3 + 9)) = f"
    by (simp add: connect_head_def connect_header_def nth_append)
  moreover have "m ?a \<noteq> None"
    using v L by (auto simp: valid_range_iff dest: spec [of _ 12])
  ultimately have at: "m ?a = Some f" by (auto simp: add.assoc)
  note p = poke_effect [OF v, of ?a "f OR v"]
  have a: "conn_buffer c \<le> ?a" "?a < conn_buffer c + unat (buffer_length c)" using L by auto
  have "bytes_at (m(?a \<mapsto> f OR v)) (conn_buffer c + 3) (length ?bs) = ?bs[9 := f OR v]"
  proof (rule nth_equalityI)
    fix i assume "i < length (bytes_at (m(?a \<mapsto> f OR v)) (conn_buffer c + 3) (length ?bs))"
    then have i: "i < length ?bs" by simp
    have "the (m (conn_buffer c + 3 + i)) = ?bs ! i" using arg_cong [OF bs, of "\<lambda>x. x ! i"] i by simp
    then show "bytes_at (m(?a \<mapsto> f OR v)) (conn_buffer c + 3) (length ?bs) ! i = ?bs[9 := f OR v] ! i"
      using i by (auto simp: nth_list_update)
  qed simp
  moreover have "?bs[9 := f OR v] = connect_head (f OR v) k @ body"
    by (simp add: connect_head_def connect_header_def)
  ultimately have "building c (m(?a \<mapsto> f OR v)) (connect_head (f OR v) k @ body)"
    using b p(3) [OF a] by (simp add: building_def buf_ok_def)
  moreover have "only_buffer c m c (m(?a \<mapsto> f OR v))" using p(2) [OF a] a by (auto simp: only_buffer_def)
  ultimately show ?thesis using at p(1) [OF a] by (simp add: or_flags_def)
qed

lemma connect_password_built:
  assumes b: "building c m (connect_head f k @ body)" and pa: "opt_arg c m (password info) pw"
  defines "w \<equiv> connect_head (f OR (if pw = [] then 0 else 0x40)) k @ body @ opt16 pw"
  shows "built c m (if fit c w then packet MQTT_MSG_TYPE_CONNECT 0 0 w else []) (connect_password c info m)"
proof (cases "pw = []")
  case True
  then have w: "w = connect_head f k @ body" by (simp add: w_def opt16_def)
  then have "fit c w" using b by (simp add: fit_def building_def)
  with fini_built [OF b, of MQTT_MSG_TYPE_CONNECT 0 0] opt_arg_present [OF pa] True w show ?thesis
    by (simp add: connect_password_def)
next
  case False
  let ?rest = "\<lambda>c m. do { m \<leftarrow> or_flags c 0x40 m; fini_message c (type_val MQTT_MSG_TYPE_CONNECT) 0 0 0 m }"
  have w: "w = connect_head (f OR 0x40) k @ body @ str16 pw" using False by (simp add: w_def opt16_def)
  have "built c m (if fit c w then packet MQTT_MSG_TYPE_CONNECT 0 0 w else []) (string_or_fail c (password info) m ?rest)"
  proof (rule string_or_fail_built [OF b opt_arg_arg [OF pa False]])
    fix c1 m1 assume 1: "building c1 m1 ((connect_head f k @ body) @ str16 pw)"
    then obtain m2 where 2: "or_flags c1 0x40 m1 = Some m2" "building c1 m2 w" "only_buffer c1 m1 c1 m2"
      using or_flags_building [of c1 m1 f k "body @ str16 pw" "0x40"] by (auto simp: w)
    have "fit c1 w" using 2(2) by (simp add: fit_def building_def)
    with 2(1) built_from [OF 2(3) fini_built [OF 2(2), of MQTT_MSG_TYPE_CONNECT 0 0]]
    show "built c1 m1 (if fit c1 w then packet MQTT_MSG_TYPE_CONNECT 0 0 w else []) (?rest c1 m1)" by simp
  qed (simp add: w)
  then show ?thesis using opt_arg_present [OF pa] False by (simp add: connect_password_def)
qed

lemma connect_username_built:
  assumes b: "building c m (connect_head f k @ body)"
    and ua: "opt_arg c m (username info) us" and pa: "opt_arg c m (password info) pw"
  defines "w \<equiv> connect_head (f OR (if us = [] then 0 else 0x80) OR (if pw = [] then 0 else 0x40)) k
      @ body @ opt16 us @ opt16 pw"
  shows "built c m (if fit c w then packet MQTT_MSG_TYPE_CONNECT 0 0 w else []) (connect_username c info m)"
proof (cases "us = []")
  case True
  then have w: "w = connect_head (f OR (if pw = [] then 0 else 0x40)) k @ body @ opt16 pw"
    by (simp add: w_def opt16_def)
  have e: "connect_username c info m = connect_password c info m"
    using opt_arg_present [OF ua] True by (simp add: connect_username_def)
  show ?thesis unfolding w e by (rule connect_password_built [OF b pa])
next
  case False
  let ?rest = "\<lambda>c m. do { m \<leftarrow> or_flags c 0x80 m; connect_password c info m }"
  have "built c m (if fit c w then packet MQTT_MSG_TYPE_CONNECT 0 0 w else []) (string_or_fail c (username info) m ?rest)"
  proof (rule string_or_fail_built [OF b opt_arg_arg [OF ua False]])
    fix c1 m1 assume 1: "building c1 m1 ((connect_head f k @ body) @ str16 us)" and k1: "only_buffer c m c1 m1"
    then obtain m2 where 2: "or_flags c1 0x80 m1 = Some m2"
        "building c1 m2 (connect_head (f OR 0x80) k @ body @ str16 us)" "only_buffer c1 m1 c1 m2"
      using or_flags_building [of c1 m1 f k "body @ str16 us" "0x80"] by auto
    have pa1: "opt_arg c1 m2 (password info) pw"
      using opt_arg_keeps [OF only_buffer_trans [OF k1 2(3)] pa] .
    have w: "w = connect_head ((f OR 0x80) OR (if pw = [] then 0 else 0x40)) k @ (body @ str16 us) @ opt16 pw"
      using False by (simp add: w_def opt16_def or.assoc)
    have "built c1 m2 (if fit c1 w then packet MQTT_MSG_TYPE_CONNECT 0 0 w else []) (connect_password c1 info m2)"
      unfolding w by (rule connect_password_built [OF 2(2) pa1])
    with built_from [OF 2(3)] 2(1)
    show "built c1 m1 (if fit c1 w then packet MQTT_MSG_TYPE_CONNECT 0 0 w else []) (?rest c1 m1)" by simp
  qed (use False in \<open>simp add: w_def opt16_def\<close>)
  then show ?thesis using opt_arg_present [OF ua] False by (simp add: connect_username_def)
qed

definition will_flags :: "mqtt_connect_info \<Rightarrow> u8" where
  "will_flags info = 0x04 OR (if will_retain info \<noteq> 0 then 0x20 else 0)
     OR word_of_int (push_bit 3 (will_qos info AND 3))"

lemma will_flags_building:
  assumes b: "building c m (connect_head f k @ body)"
  shows "\<exists>m'. do { m \<leftarrow> or_flags c 0x04 m;
       m \<leftarrow> (if will_retain info \<noteq> 0 then or_flags c 0x20 m else Some m);
       or_flags c (word_of_int (push_bit 3 (will_qos info AND 3))) m } = Some m'
    \<and> building c m' (connect_head (f OR will_flags info) k @ body) \<and> only_buffer c m c m'"
proof -
  let ?q = "word_of_int (push_bit 3 (will_qos info AND 3)) :: u8"
  obtain m1 where 1: "or_flags c 0x04 m = Some m1" "building c m1 (connect_head (f OR 0x04) k @ body)" "only_buffer c m c m1"
    using or_flags_building [OF b] by blast
  let ?r = "if will_retain info \<noteq> 0 then 0x20 else 0 :: u8"
  obtain m2 where 2: "(if will_retain info \<noteq> 0 then or_flags c 0x20 m1 else Some m1) = Some m2"
      "building c m2 (connect_head (f OR 0x04 OR ?r) k @ body)" "only_buffer c m1 c m2"
    using or_flags_building [OF 1(2), of "0x20"] 1(2) by (cases "will_retain info \<noteq> 0") (auto simp: or.assoc)
  obtain m3 where 3: "or_flags c ?q m2 = Some m3" "building c m3 (connect_head (f OR 0x04 OR ?r OR ?q) k @ body)"
      "only_buffer c m2 c m3"
    using or_flags_building [OF 2(2), of ?q] unfolding or.assoc by blast
  have "only_buffer c m c m3" using only_buffer_trans 1(3) 2(3) 3(3) by blast
  then show ?thesis using 1(1) 2(1) 3(1,2) by (simp add: will_flags_def or.assoc)
qed

lemma connect_will_built:
  assumes b: "building c m (connect_head f k @ body)"
    and wa: "opt_arg c m (will_topic info) wt" "wt \<noteq> [] \<Longrightarrow> arg c m (will_message info) wm"
    and ua: "opt_arg c m (username info) us" and pa: "opt_arg c m (password info) pw"
  defines "w \<equiv> connect_head (f OR (if wt = [] then 0 else will_flags info) OR (if us = [] then 0 else 0x80)
        OR (if pw = [] then 0 else 0x40)) k
      @ body @ (if wt = [] then [] else str16 wt @ str16 wm) @ opt16 us @ opt16 pw"
  shows "built c m (if fit c w then packet MQTT_MSG_TYPE_CONNECT 0 0 w else []) (connect_will c info m)"
proof (cases "wt = []")
  case True
  then have w: "w = connect_head (f OR (if us = [] then 0 else 0x80) OR (if pw = [] then 0 else 0x40)) k
      @ body @ opt16 us @ opt16 pw" by (simp add: w_def)
  have e: "connect_will c info m = connect_username c info m"
    using opt_arg_present [OF wa(1)] True by (simp add: connect_will_def)
  show ?thesis unfolding w e by (rule connect_username_built [OF b ua pa])
next
  case False
  let ?out = "\<lambda>c. if fit c w then packet MQTT_MSG_TYPE_CONNECT 0 0 w else []"
  let ?flags = "\<lambda>c m. do { m \<leftarrow> or_flags c 0x04 m;
       m \<leftarrow> (if will_retain info \<noteq> 0 then or_flags c 0x20 m else Some m);
       or_flags c (word_of_int (push_bit 3 (will_qos info AND 3))) m }"
  let ?rest = "\<lambda>c m. do { m \<leftarrow> or_flags c 0x04 m;
       m \<leftarrow> (if will_retain info \<noteq> 0 then or_flags c 0x20 m else Some m);
       m \<leftarrow> or_flags c (word_of_int (push_bit 3 (will_qos info AND 3))) m;
       connect_username c info m }"
  have split: "?rest c m = Option.bind (?flags c m) (connect_username c info)" for c m
    by (simp only: Option.bind_assoc)
  have "built c m (?out c) (string_or_fail c (will_topic info) m (\<lambda>c m. string_or_fail c (will_message info) m ?rest))"
  proof (rule string_or_fail_built [OF b opt_arg_arg [OF wa(1) False]])
    fix c1 m1 assume 1: "building c1 m1 ((connect_head f k @ body) @ str16 wt)" and k1: "only_buffer c m c1 m1"
    show "built c1 m1 (?out c1) (string_or_fail c1 (will_message info) m1 ?rest)"
    proof (rule string_or_fail_built [OF 1 arg_keeps [OF k1 wa(2) [OF False]]])
      fix c2 m2 assume 2: "building c2 m2 (((connect_head f k @ body) @ str16 wt) @ str16 wm)" and k2: "only_buffer c1 m1 c2 m2"
      then have "building c2 m2 (connect_head f k @ body @ str16 wt @ str16 wm)" by simp
      then obtain m3 where 3: "?flags c2 m2 = Some m3"
          "building c2 m3 (connect_head (f OR will_flags info) k @ body @ str16 wt @ str16 wm)" "only_buffer c2 m2 c2 m3"
        using will_flags_building by blast
      note k = only_buffer_trans [OF only_buffer_trans [OF k1 k2] 3(3)]
      have w: "w = connect_head ((f OR will_flags info) OR (if us = [] then 0 else 0x80) OR (if pw = [] then 0 else 0x40)) k
          @ (body @ str16 wt @ str16 wm) @ opt16 us @ opt16 pw"
        using False by (simp add: w_def or.assoc)
      have "built c2 m3 (?out c2) (connect_username c2 info m3)"
        unfolding w by (rule connect_username_built [OF 3(2) opt_arg_keeps [OF k ua] opt_arg_keeps [OF k pa]])
      then have "built c2 m2 (?out c2) (connect_username c2 info m3)" by (rule built_from [OF 3(3)])
      then show "built c2 m2 (?out c2) (?rest c2 m2)" unfolding split 3(1) by simp
    qed (use False in \<open>simp add: w_def\<close>)
  qed (use False in \<open>simp add: w_def\<close>)
  then show ?thesis using opt_arg_present [OF wa(1)] False by (simp add: connect_will_def)
qed

lemma poke_all_effect:
  assumes "valid_range m a (length bs)"
  shows "\<exists>m'. poke_all a bs m = Some m' \<and> bytes_at m' a (length bs) = bs
    \<and> (\<forall>x. x < a \<or> a + length bs \<le> x \<longrightarrow> m' x = m x) \<and> (\<forall>x. (m' x = None) = (m x = None))"
  using assms
proof (induction bs arbitrary: a m)
  case (Cons b bs)
  let ?m = "m(a \<mapsto> b)"
  note p = poke_effect [OF Cons.prems, of a b]
  have "valid_range ?m (a + 1) (length bs)" using valid_range_sub [of ?m a "Suc (length bs)" 1 "length bs"] p(3) by simp
  from Cons.IH [OF this] obtain m' where m': "poke_all (a + 1) bs ?m = Some m'" "bytes_at m' (a + 1) (length bs) = bs"
      "\<And>x. x < a + 1 \<or> a + 1 + length bs \<le> x \<Longrightarrow> m' x = ?m x" "\<And>x. (m' x = None) = (?m x = None)" by blast
  have "m' a = Some b" using m'(3) [of a] by simp
  then have "bytes_at m' a (length (b # bs)) = b # bs"
    using bytes_at_append [of m' a 1 "length bs"] m'(2) by (simp add: bytes_at_def)
  moreover have "poke_all a (b # bs) m = Some m'" using p(1) m'(1) by simp
  moreover have "\<forall>x. x < a \<or> a + length (b # bs) \<le> x \<longrightarrow> m' x = m x" using m'(3) by simp
  moreover have "\<forall>x. (m' x = None) = (m x = None)" using m'(4) p(2) by simp
  ultimately show ?case by blast
qed simp

definition connect_body :: "mqtt_connect_info \<Rightarrow> u8 list \<Rightarrow> u8 list \<Rightarrow> u8 list \<Rightarrow> u8 list \<Rightarrow> u8 list \<Rightarrow> u8 list" where
  "connect_body info cid wt wm us pw =
     connect_head ((if clean_session info \<noteq> 0 then 0x02 else 0) OR (if wt = [] then 0 else will_flags info)
        OR (if us = [] then 0 else 0x80) OR (if pw = [] then 0 else 0x40)) (keepalive info)
     @ str16 cid @ (if wt = [] then [] else str16 wt @ str16 wm) @ opt16 us @ opt16 pw"

lemma connect_start:
  assumes b0: "buf_ok c m" and room: "15 \<le> unat (buffer_length c)"
  defines "c1 \<equiv> (init_message c)\<lparr>msg_length := 15\<rparr>"
  shows "\<exists>m1. do { m \<leftarrow> poke_all (conn_buffer c + 3) (connect_header k) m;
        if cs \<noteq> (0 :: int) then or_flags c1 0x02 m else Some m } = Some m1
    \<and> building c1 m1 (connect_head (if cs \<noteq> 0 then 0x02 else 0) k @ []) \<and> only_buffer c m c1 m1"
proof -
  have v: "valid_range m (conn_buffer c) (unat (buffer_length c))" using b0 by (simp add: buf_ok_def)
  have "valid_range m (conn_buffer c + 3) (length (connect_header k))" using valid_range_sub [OF v, of 3 12] room by simp
  from poke_all_effect [OF this] obtain m1 where m1: "poke_all (conn_buffer c + 3) (connect_header k) m = Some m1"
      "bytes_at m1 (conn_buffer c + 3) 12 = connect_header k"
      "\<And>x. x < conn_buffer c + 3 \<or> conn_buffer c + 3 + 12 \<le> x \<Longrightarrow> m1 x = m x" "\<And>x. (m1 x = None) = (m x = None)"
    by auto
  have h: "connect_header k = connect_head 0 k" by (simp add: connect_head_def connect_header_def)
  have "valid_range m1 (conn_buffer c) (unat (buffer_length c))" using v m1(4) by (simp add: valid_range_iff)
  then have b1: "building c1 m1 (connect_head 0 k @ [])"
    using m1(2) room by (simp add: building_def buf_ok_def c1_def init_message_def h)
  have k1: "only_buffer c m c1 m1" using m1(3,4) room by (auto simp: only_buffer_def c1_def init_message_def)
  show ?thesis
  proof (cases "cs = 0")
    case True
    then show ?thesis using m1(1) b1 k1 by simp
  next
    case False
    obtain m2 where "or_flags c1 0x02 m1 = Some m2" "building c1 m2 (connect_head (0 OR 0x02) k @ [])" "only_buffer c1 m1 c1 m2"
      using or_flags_building [OF b1] by blast
    then show ?thesis using m1(1) only_buffer_trans [OF k1] False by auto
  qed
qed

lemma connect_built:
  assumes b0: "buf_ok c m" and ca: "arg c m (client_id info) cid" "cid \<noteq> []"
    and wa: "opt_arg c m (will_topic info) wt" "wt \<noteq> [] \<Longrightarrow> arg c m (will_message info) wm"
    and ua: "opt_arg c m (username info) us" and pa: "opt_arg c m (password info) pw"
  defines "w \<equiv> connect_body info cid wt wm us pw"
  shows "built c m (if fit c w then packet MQTT_MSG_TYPE_CONNECT 0 0 w else []) (mqtt_msg_connect c info m)"
proof (cases "15 \<le> unat (buffer_length c)")
  case False
  then have "mqtt_msg_connect c info m = Some (fail_message (init_message c), m)"
    by (simp add: mqtt_msg_connect_def init_message_def)
  moreover have "built c m [] (Some (fail_message (init_message c), m))"
    using built_fail [of "init_message c" m] by (simp add: built_def)
  moreover have "\<not> fit c w" using False by (simp add: fit_def w_def connect_body_def)
  ultimately show ?thesis by simp
next
  case True
  let ?c = "(init_message c)\<lparr>msg_length := 15\<rparr>" and ?f = "if clean_session info \<noteq> 0 then 0x02 else 0 :: u8"
  obtain m1 where m1: "do { m \<leftarrow> poke_all (conn_buffer c + 3) (connect_header (keepalive info)) m;
        if clean_session info \<noteq> 0 then or_flags ?c 0x02 m else Some m } = Some m1"
      "building ?c m1 (connect_head ?f (keepalive info) @ [])" "only_buffer c m ?c m1"
    using connect_start [OF b0 True] by blast
  let ?out = "\<lambda>c. if fit c w then packet MQTT_MSG_TYPE_CONNECT 0 0 w else []"
  note ca1 = arg_keeps [OF m1(3) ca(1)]
  have "built ?c m1 (?out ?c) (string_or_fail ?c (client_id info) m1 (\<lambda>c m. connect_will c info m))"
  proof (rule string_or_fail_built [OF m1(2) ca1])
    fix c2 m2 assume 2: "building c2 m2 ((connect_head ?f (keepalive info) @ []) @ str16 cid)" and k2: "only_buffer ?c m1 c2 m2"
    then have b2: "building c2 m2 (connect_head ?f (keepalive info) @ str16 cid)" by simp
    note k = only_buffer_trans [OF m1(3) k2]
    show "built c2 m2 (?out c2) (connect_will c2 info m2)"
      unfolding w_def connect_body_def
      by (rule connect_will_built [OF b2 opt_arg_keeps [OF k wa(1)] arg_keeps [OF k wa(2)]
            opt_arg_keeps [OF k ua] opt_arg_keeps [OF k pa]])
  qed (simp add: w_def connect_body_def)
  then have "built c m (?out c) (string_or_fail ?c (client_id info) m1 (\<lambda>c m. connect_will c info m))"
    using built_from [OF m1(3)] fit_cong [OF m1(3)] by simp
  moreover have "mqtt_msg_connect c info m = string_or_fail ?c (client_id info) m1 (\<lambda>c m. connect_will c info m)"
  proof -
    have "mqtt_msg_connect c info m = do { m \<leftarrow> do { m \<leftarrow> poke_all (conn_buffer c + 3) (connect_header (keepalive info)) m;
          if clean_session info \<noteq> 0 then or_flags ?c 0x02 m else Some m };
        cid \<leftarrow> present (client_id info) m;
        if \<not> cid then Some (fail_message ?c, m) else string_or_fail ?c (client_id info) m (\<lambda>c m. connect_will c info m) }"
    proof -
      have e: "?c = c\<lparr>msg_length := 15\<rparr>" by (simp add: init_message_def)
      show ?thesis unfolding e using True by (simp add: mqtt_msg_connect_def init_message_def Let_def)
    qed
    then show ?thesis unfolding m1(1) using arg_facts(5) [OF ca1] ca(2) by simp
  qed
  ultimately show ?thesis by simp
qed

end
