(* ===== verification/Mqtt_Parse.thy ===== *)
theory Mqtt_Parse
  imports Mqtt_Msg_Proofs
begin

text \<open>
  The functions of \<^verbatim>\<open>mqtt_msg.c\<close> that take a packet apart, on the packets the builders make, and the
  properties of the message layer.
\<close>

section \<open>Bytes of a packet\<close>

lemma low_bits_table:
  "list_all (\<lambda>j. (of_nat j :: u8) AND 0x7f = of_nat j \<and> (of_nat j :: u8) AND 0x80 = 0 \<and>
     (word_of_int (0x80 OR int j) :: u8) AND 0x7f = of_nat j \<and> (word_of_int (0x80 OR int j) :: u8) AND 0x80 \<noteq> 0) [0..<128]"
  by code_simp

lemma low_bits:
  assumes "j < 128"
  shows "(of_nat j :: u8) AND 0x7f = of_nat j" "(of_nat j :: u8) AND 0x80 = 0"
    "(word_of_int (0x80 OR int j) :: u8) AND 0x7f = of_nat j" "(word_of_int (0x80 OR int j) :: u8) AND 0x80 \<noteq> 0"
  using low_bits_table assms by (auto simp: list_all_iff)

lemma uint_of_nat_u8: "j < 256 \<Longrightarrow> uint (of_nat j :: u8) = int j"
  by (simp add: unsigned_of_nat take_bit_nat_eq_self)

lemma word_of_int_div: "(word_of_int (int k div numeral n) :: u8) = of_nat (k div numeral n)"
  using zdiv_int [of k "numeral n"] by (metis of_int_of_nat_eq of_nat_numeral)

lemma str_at_of_bytes: "bytes_at m a n = bs \<Longrightarrow> valid_range m a n \<Longrightarrow> str_at m a bs"
  by (auto simp: str_at_def valid_range_iff)

lemma length_loop_remaining:
  assumes "k < 16384" "str_at m (a + 1) (remaining k)" "length (remaining k) \<le> n"
  shows "length_loop a 1 n 0 m = Some (1 + length (remaining k), int k)"
    "skip_length a 1 n m = Some (1 + length (remaining k))"
proof -
  have "length_loop a 1 n 0 m = Some (1 + length (remaining k), int k)
      \<and> skip_length a 1 n m = Some (1 + length (remaining k))"
  proof (cases "127 < k")
    case False
    then have "m (Suc a) = Some (of_nat k)" "k < 128" using assms(2) by (auto simp: remaining_def)
    moreover obtain n' where "n = Suc n'" using assms(3) False by (cases n) (auto simp: remaining_def)
    ultimately show ?thesis using low_bits [of k] False by (simp add: remaining_def uint_of_nat_u8)
  next
    case True
    let ?x = "word_of_int (0x80 OR int k mod 128) :: u8"
    have m1: "m (Suc a) = Some ?x" and m2: "m (Suc (Suc a)) = Some (of_nat (k div 128))"
      using assms(2) True by (auto simp: remaining_def word_of_int_div)
    have x: "?x AND 0x7f = of_nat (k mod 128)" "?x AND 0x80 \<noteq> 0"
      using low_bits(3,4) [of "k mod 128"] by (simp_all add: zmod_int)
    have lt: "k div 128 < 128" using assms(1) by auto
    obtain n' where n: "n = Suc (Suc n')" using assms(3) True by (cases n; cases "n - 1") (auto simp: remaining_def)
    have ux: "uint (?x AND 0x7f) = int (k mod 128)" using x(1) by (simp add: uint_of_nat_u8)
    have uy: "uint ((of_nat (k div 128) :: u8) AND 0x7f) = int (k div 128)"
      using low_bits(1) [OF lt] lt by (simp add: uint_of_nat_u8)
    have sum: "int (k mod 128) + int (k div 128) * 128 = int k" by (metis mod_div_mult_eq of_nat_add of_nat_mult of_nat_numeral)
    have "length_loop a 1 n 0 m = length_loop a 2 (Suc n') (int (k mod 128)) m"
    proof -
      have "k mod 128 < 2147483648" by (rule less_trans [of _ 128]) simp_all
      then show ?thesis unfolding n using x(2) by (simp add: m1 ux Let_def numeral_2_eq_2)
    qed
    also have "\<dots> = Some (3, int k)"
      using low_bits(2) [OF lt] lt assms(1) sum by (simp add: m2 uy Let_def numeral_2_eq_2 numeral_3_eq_3)
    finally have "length_loop a 1 n 0 m = Some (3, int k)" .
    moreover have "skip_length a 1 n m = Some 3"
      unfolding n using x(2) low_bits(2) [OF lt] by (simp add: m1 m2)
    ultimately show ?thesis using True by (simp add: remaining_def)
  qed
  then show "length_loop a 1 n 0 m = Some (1 + length (remaining k), int k)"
    "skip_length a 1 n m = Some (1 + length (remaining k))" by auto
qed

lemma be16_str16:
  assumes "str_at m a (str16 s)" "length s < 65536"
  shows "be16 a m = Some (length s)"
proof -
  have "word_of_int (drop_bit 8 (int (length s))) = (of_nat (length s div 256) :: u8)"
    by (simp add: drop_bit_eq_div word_of_int_div)
  moreover have "word_of_int (int (length s) AND 0xff) = (of_nat (length s mod 256) :: u8)"
  proof -
    have "int (length s) AND 0xff = int (length s mod 256)"
      using take_bit_eq_mask [of 8 "int (length s)"] by (simp add: mask_eq_exp_minus_1 take_bit_eq_mod zmod_int)
    then show ?thesis by (simp only: of_int_of_nat_eq)
  qed
  ultimately have "m a = Some (of_nat (length s div 256))" "m (a + 1) = Some (of_nat (length s mod 256))"
    using assms(1) by (auto simp: str16_def)
  moreover have "length s div 256 < 256" using assms(2) by auto
  ultimately show ?thesis by (simp add: be16_def unat_of_nat take_bit_nat_eq_self)
qed

lemma ucast_high_u16: "unat (ucast (drop_bit 8 (i :: u16)) :: u8) = unat i div 256"
proof -
  have "unat i div 256 < 256" using unsigned_less [of i, where 'a = nat] by auto
  then show ?thesis by (simp add: unsigned_ucast_eq drop_bit_eq_div unat_div take_bit_nat_eq_self)
qed

lemma ucast_low_u16: "unat (ucast ((i :: u16) AND 0xff) :: u8) = unat i mod 256"
proof -
  have "i AND 0xff = take_bit 8 i" by (simp add: take_bit_eq_mask mask_eq_exp_minus_1)
  then show ?thesis by (simp add: unsigned_ucast_eq unsigned_take_bit_eq take_bit_eq_mod unat_mod)
qed

lemma be16_id16:
  assumes "str_at m a (id16 i)"
  shows "be16 a m = Some (unat i)"
proof -
  have "m a = Some (ucast (drop_bit 8 i))" "m (a + 1) = Some (ucast (i AND 0xff))"
    using assms by (auto simp: id16_def)
  then show ?thesis
    unfolding be16_def by (simp only: ucast_high_u16 ucast_low_u16 Option.bind.simps) simp
qed

section \<open>A publish packet\<close>

lemma publish_fixed_header:
  assumes "qos \<in> {0, 1, 2}" "retain \<in> {0, 1}" "m a = Some (fixed_header (type_val MQTT_MSG_TYPE_PUBLISH) 0 qos retain)"
  shows "mqtt_get_type a m = Some (type_val MQTT_MSG_TYPE_PUBLISH)" "mqtt_get_dup a m = Some 0"
    "mqtt_get_qos a m = Some qos" "mqtt_get_retain a m = Some retain"
  using assms by (auto simp: fixed_header_def mqtt_get_type_def mqtt_get_dup_def mqtt_get_qos_def mqtt_get_retain_def)

definition header_length :: "u8 list \<Rightarrow> nat" where
  "header_length body = 1 + length (remaining (length body))"

text \<open>The message id is found also when the length given is that of the buffer.\<close>

lemma publish_parse_id:
  fixes qos :: int
  assumes p: "str_at m a (packet MQTT_MSG_TYPE_PUBLISH qos retain body)"
    and body: "body = publish_body t qos i data" and n: "header_length body + length body \<le> unat n"
    and range: "qos \<in> {0, 1, 2}" "retain \<in> {0, 1}" "length body < 16384" "data \<noteq> []"
  shows "mqtt_get_id a n m = Some (if 0 < qos then i else 0)"
proof -
  let ?h = "header_length body" and ?k = "if 0 < qos then 2 else 0 :: nat"
  have m0: "m a = Some (fixed_header (type_val MQTT_MSG_TYPE_PUBLISH) 0 qos retain)"
    and rl: "str_at m (a + 1) (remaining (length body))" and bs: "str_at m (a + ?h) body"
    using p by (auto simp: packet_def header_length_def)
  have len: "skip_length a 1 (unat n - 1) m = Some ?h"
    using length_loop_remaining(2) [OF range(3) rl, of "unat n - 1"] n by (simp add: header_length_def)
  have lb: "length body = length t + 2 + ?k + length data" by (simp add: body publish_body_def)
  moreover have "0 < length data" using range(4) by simp
  ultimately have big: "?h + 2 + length t + ?k < unat n" using n by linarith
  have st: "str_at m (a + ?h) (str16 t)" using bs by (simp add: body publish_body_def)
  have be: "be16 (a + ?h) m = Some (length t)" using be16_str16 [OF st] lb range(3) by simp
  note q = publish_fixed_header [of qos retain m a, OF range(1,2) m0]
  have "be16 (a + ?h + 2 + length t) m = Some (unat i)" if "0 < qos"
    using bs that by (intro be16_id16) (simp add: body publish_body_def add.assoc)
  moreover have "n \<ge> 1" using big by (simp add: word_le_nat_alt)
  ultimately show ?thesis
    using len be big q(1,3) by (auto simp: mqtt_get_id_def publish_id_def Let_def add.assoc)
qed

text \<open>Where the parts of a publish packet are.\<close>

lemma publish_parse:
  fixes qos :: int
  assumes p: "str_at m a (packet MQTT_MSG_TYPE_PUBLISH qos retain body)"
    and body: "body = publish_body t qos i data" and n: "unat n = header_length body + length body"
    and range: "qos \<in> {0, 1, 2}" "retain \<in> {0, 1}" "length body < 16384" "data \<noteq> []"
  defines "h \<equiv> header_length body" and "k \<equiv> if 0 < qos then 2 else 0 :: nat"
  shows "mqtt_get_total_length a n m = Some (int (unat n))"
    and "mqtt_get_publish_topic a n m = Some (a + h + 2, of_nat (length t))"
    and "mqtt_get_publish_data a n m = Some (a + h + 2 + length t + k, of_nat (length data))"
    and "mqtt_get_id a n m = Some (if 0 < qos then i else 0)"
proof -
  have m0: "m a = Some (fixed_header (type_val MQTT_MSG_TYPE_PUBLISH) 0 qos retain)"
    and rl: "str_at m (a + 1) (remaining (length body))" and bs: "str_at m (a + h) body"
    using p by (auto simp: packet_def h_def header_length_def)
  have n': "unat n - 1 = length (remaining (length body)) + length body" using n by (simp add: header_length_def)
  note ll = length_loop_remaining [OF range(3) rl, of "unat n - 1"]
  have len: "length_loop a 1 (unat n - 1) 0 m = Some (h, int (length body))"
    using ll(1) n' by (simp add: h_def header_length_def)
  have lb: "length body = length t + 2 + k + length data" by (simp add: body publish_body_def k_def)
  then have big: "unat n = h + 2 + length t + k + length data" using n by (simp add: h_def)
  have d: "0 < length data" using range(4) by simp
  have st: "str_at m (a + h) (str16 t)" using bs by (simp add: body publish_body_def)
  have be: "be16 (a + h) m = Some (length t)" using be16_str16 [OF st] lb range(3) by simp
  note q = publish_fixed_header [of qos retain m a, OF range(1,2) m0]
  show "mqtt_get_total_length a n m = Some (int (unat n))"
    using len n by (simp add: mqtt_get_total_length_def h_def)
  show "mqtt_get_publish_topic a n m = Some (a + h + 2, of_nat (length t))"
    using len be big d by (simp add: mqtt_get_publish_topic_def Let_def)
  show "mqtt_get_publish_data a n m = Some (a + h + 2 + length t + k, of_nat (length data))"
    using len be big d q(3) lb by (simp add: mqtt_get_publish_data_def Let_def k_def)
  show "mqtt_get_id a n m = Some (if 0 < qos then i else 0)"
    by (rule publish_parse_id [OF p body _ range]) (simp add: n)
qed

section \<open>A concrete connection\<close>

text \<open>A buffer of 64 bytes at 100, the string \<^verbatim>\<open>ab\<close> at 10 and bytes at 20.\<close>

definition demo_mmem :: mem where
  "demo_mmem a = (if a < 200 then Some (if a = 10 then 0x61 else if a = 11 then 0x62 else if a = 20 then 7 else 0) else None)"

definition demo_conn :: mqtt_connection where
  "demo_conn = mqtt_msg_init 100 64"

definition demo_info :: mqtt_connect_info where
  "demo_info = \<lparr>client_id = 10, username = 10, password = NULL, will_topic = NULL, will_message = NULL,
     keepalive = 120, will_qos = 0, will_retain = 0, clean_session = 1\<rparr>"

lemma demo_conn_facts:
  "buf_ok demo_conn demo_mmem" "arg demo_conn demo_mmem 10 [0x61, 0x62]" "apart demo_conn 20 n \<longleftrightarrow> n \<le> 80"
  "n \<le> 180 \<Longrightarrow> valid_range demo_mmem 20 n" "fit demo_conn body \<longleftrightarrow> length body \<le> 61"
  "opt_arg demo_conn demo_mmem 10 [0x61, 0x62]" "opt_arg demo_conn demo_mmem NULL []"
  by (auto simp: demo_conn_def demo_mmem_def mqtt_msg_init_def buf_ok_def arg_def apart_def c_string_def
      disjoint_ranges_def valid_range_iff fit_def opt_arg_def)

section \<open>Properties\<close>

text \<open>C8. What is put into a publish message comes out of it: a message of at most 16383 bytes that fits the
  buffer, with a topic and a payload that are not empty, is built, and on it the functions that take
  a packet apart give back its type, quality of service, retain flag, whole length, the bytes of the
  topic, the bytes of the payload and the message id that the builder reports.\<close>

theorem mqtt_publish_roundtrip:
  fixes qos retain :: int
  assumes "buf_ok c m" "arg c m tp t" "t \<noteq> []" "valid_range m dp n" "apart c dp n" "0 < n"
    and "qos \<in> {0, 1, 2}" "retain \<in> {0, 1}"
    and body: "body = publish_body t qos (next_id c) (bytes_at m dp n)" "fit c body" "length body < 16384"
  shows "\<exists>i c' m' tp' dp'. mqtt_msg_publish c tp dp (int n) qos retain mid m = Some (i, c', m')
    \<and> mqtt_get_type (msg_data c') m' = Some (type_val MQTT_MSG_TYPE_PUBLISH)
    \<and> mqtt_get_qos (msg_data c') m' = Some qos \<and> mqtt_get_retain (msg_data c') m' = Some retain
    \<and> mqtt_get_total_length (msg_data c') (msg_length c') m' = Some (int (unat (msg_length c')))
    \<and> mqtt_get_publish_topic (msg_data c') (msg_length c') m' = Some (tp', of_nat (length t))
    \<and> bytes_at m' tp' (length t) = t
    \<and> mqtt_get_publish_data (msg_data c') (msg_length c') m' = Some (dp', of_nat n)
    \<and> bytes_at m' dp' n = bytes_at m dp n
    \<and> mqtt_get_id (msg_data c') (msg_length c') m' = Some i \<and> (i \<noteq> 0) = (0 < qos)"
proof -
  let ?P = "packet MQTT_MSG_TYPE_PUBLISH qos retain body" and ?i = "if 0 < qos then next_id c else 0"
  obtain c' m' where b: "mqtt_msg_publish c tp dp (int n) qos retain mid m = Some (?i, c', m')"
      "only_buffer c m c' m'" "message c' m' = ?P" "msg_inside c'"
    using publish_built [OF assms(1-5), of qos retain mid] body(2) unfolding body(1) [symmetric] built_def by auto
  let ?a = "msg_data c'" and ?h = "header_length body" and ?k = "if 0 < qos then 2 else 0 :: nat"
  have un: "unat (msg_length c') = ?h + length body"
    using arg_cong [OF b(3), of length] by (simp add: message_def packet_def header_length_def)
  have "valid_range m' (conn_buffer c') (unat (buffer_length c'))"
    using assms(1) b(2) by (simp add: buf_ok_def only_buffer_def valid_range_iff)
  then have "valid_range m' (conn_buffer c' + (?a - conn_buffer c')) (unat (msg_length c'))"
    using b(4) by (intro valid_range_sub) (auto simp: msg_inside_def)
  then have st: "str_at m' ?a ?P"
    using b(3,4) by (intro str_at_of_bytes) (auto simp: message_def msg_inside_def)
  then have h: "m' ?a = Some (fixed_header (type_val MQTT_MSG_TYPE_PUBLISH) 0 qos retain)"
    and s: "str_at m' (?a + ?h) body"
    by (auto simp: packet_def header_length_def)
  have d: "bytes_at m dp n \<noteq> []" using assms(6) by (metis length_bytes_at length_greater_0_conv)
  note q = publish_fixed_header [of qos retain m' ?a, OF assms(7,8) h]
    and p = publish_parse [OF st body(1) un assms(7,8) body(3) d]
  have "bytes_at m' (?a + ?h + 2) (length t) = t"
    using s by (intro str_at_bytes) (simp add: body(1) publish_body_def str16_def)
  moreover have "str_at m' (?a + ?h + 2 + length t + ?k) (bytes_at m dp n)"
    using s by (auto simp: body(1) publish_body_def add.assoc split: if_splits)
  then have "bytes_at m' (?a + ?h + 2 + length t + ?k) n = bytes_at m dp n"
    using str_at_bytes by fastforce
  moreover have "next_id c \<noteq> 0" using fresh_id_nonzero by (simp add: next_id_def)
  ultimately show ?thesis
    using b(1) q(1,3,4) p
    by (intro exI [of _ ?i] exI [of _ c'] exI [of _ m'] exI [of _ "?a + ?h + 2"] exI [of _ "?a + ?h + 2 + length t + ?k"]) simp
qed

theorem mqtt_publish_roundtrip_witness:
  "\<exists>i c m p. mqtt_msg_publish demo_conn 10 20 (int 3) 1 0 0 demo_mmem = Some (i, c, m) \<and>
     mqtt_get_publish_data (msg_data c) (msg_length c) m = Some (p, of_nat 3) \<and>
     bytes_at m p 3 = bytes_at demo_mmem 20 3"
proof -
  have f: "valid_range demo_mmem 20 3" "apart demo_conn 20 3"
      "fit demo_conn (publish_body [0x61, 0x62] 1 (next_id demo_conn) (bytes_at demo_mmem 20 3))"
      "length (publish_body [0x61, 0x62] 1 (next_id demo_conn) (bytes_at demo_mmem 20 3)) < 16384"
    by (simp_all add: demo_conn_facts publish_body_def)
  show ?thesis
    using mqtt_publish_roundtrip [OF demo_conn_facts(1,2) _ f(1,2) _ _ _ refl f(3,4), of 0 0] by auto
qed

text \<open>A publish message that does not fit the buffer is refused: the builder returns with an empty message,
  which \<^verbatim>\<open>MQTT_Publish\<close> and the sender test for, and has written nothing outside the buffer. A null or empty
  topic is refused too, before anything is written.\<close>

theorem mqtt_publish_refused:
  fixes qos :: int
  assumes "buf_ok c m" "opt_arg c m tp t" "valid_range m dp n" "apart c dp n"
    and "t = [] \<or> \<not> fit c (publish_body t qos (next_id c) (bytes_at m dp n))"
  shows "\<exists>i c' m'. mqtt_msg_publish c tp dp (int n) qos retain mid m = Some (i, c', m') \<and> msg_length c' = 0
    \<and> (\<forall>a. a < conn_buffer c \<or> conn_buffer c + unat (buffer_length c) \<le> a \<longrightarrow> m' a = m a)
    \<and> (t = [] \<longrightarrow> m' = m)"
proof (cases "t = []")
  case True
  then have "present tp m = Some False" using opt_arg_present [OF assms(2)] by simp
  then show ?thesis by (simp add: mqtt_msg_publish_def fail_message_def Let_def)
next
  case False
  then have "arg c m tp t" using opt_arg_arg [OF assms(2)] by simp
  from publish_built [OF assms(1) this False assms(3,4), of qos retain mid] assms(5) False
  obtain i c' m' where r: "mqtt_msg_publish c tp dp (int n) qos retain mid m = Some (i, c', m')"
      "only_buffer c m c' m'" "message c' m' = []"
    unfolding built_def by auto
  have "unat (msg_length c') = 0" using arg_cong [OF r(3), of length] by (simp add: message_def)
  then show ?thesis using r False by (simp add: only_buffer_def unat_eq_zero)
qed

theorem mqtt_publish_refused_witness:
  "\<exists>i c m. mqtt_msg_publish demo_conn 10 20 (int 60) 1 0 0 demo_mmem = Some (i, c, m) \<and> msg_length c = 0 \<and> m 10 = Some 0x61"
proof -
  have f: "valid_range demo_mmem 20 60" "apart demo_conn 20 60"
      "\<not> fit demo_conn (publish_body [0x61, 0x62] 1 (next_id demo_conn) (bytes_at demo_mmem 20 60))"
      "demo_mmem 10 = Some 0x61" "(10 :: nat) < conn_buffer demo_conn"
    by (simp_all add: demo_conn_facts publish_body_def demo_mmem_def) (simp add: demo_conn_def mqtt_msg_init_def)
  show ?thesis
    using mqtt_publish_refused [OF demo_conn_facts(1,6) f(1,2) disjI2 [OF f(3)], of 0 0] f(4,5) by force
qed

text \<open>A connect message is the packet of the MQTT 3.1 specification: the fixed header, the remaining length, the
  protocol name and version, the flags of the parts that follow, the keep-alive time, and the client
  id, will, user name and password, each with its length; when it does not fit, the message is
  empty. The builder writes only its buffer and the message lies inside it.\<close>

theorem mqtt_msg_connect_encodes:
  assumes "buf_ok c m" "arg c m (client_id info) cid" "cid \<noteq> []"
    and "opt_arg c m (will_topic info) wt" "opt_arg c m (username info) us" "opt_arg c m (password info) pw"
    and "wt = [] \<or> arg c m (will_message info) wm"
    and "body = connect_body info cid wt wm us pw"
  shows "\<exists>c' m'. mqtt_msg_connect c info m = Some (c', m')
    \<and> bytes_at m' (msg_data c') (unat (msg_length c')) =
        (if fit c body then fixed_header (type_val MQTT_MSG_TYPE_CONNECT) 0 0 0 # remaining (length body) @ body else [])
    \<and> conn_buffer c \<le> msg_data c'
    \<and> msg_data c' + unat (msg_length c') \<le> conn_buffer c + unat (buffer_length c)
    \<and> (\<forall>a. a < conn_buffer c \<or> conn_buffer c + unat (buffer_length c) \<le> a \<longrightarrow> m' a = m a)"
  using connect_built [OF assms(1-4) _ assms(5,6), of wm] assms(7)
  unfolding built_def message_def msg_inside_def only_buffer_def assms(8) packet_def by auto

theorem mqtt_msg_connect_encodes_witness:
  "\<exists>c m. mqtt_msg_connect demo_conn demo_info demo_mmem = Some (c, m) \<and>
     bytes_at m (msg_data c) (unat (msg_length c)) =
       [0x10, 20, 0, 6, 0x4D, 0x51, 0x49, 0x73, 0x64, 0x70, 3, 0x82, 0, 120, 0, 2, 0x61, 0x62, 0, 2, 0x61, 0x62]"
proof -
  let ?b = "connect_body demo_info [0x61, 0x62] [] [] [0x61, 0x62] []"
  have b: "?b = [0, 6, 0x4D, 0x51, 0x49, 0x73, 0x64, 0x70, 3, 0x82, 0, 120, 0, 2, 0x61, 0x62, 0, 2, 0x61, 0x62]"
    by (simp add: connect_body_def connect_head_def connect_header_def str16_def opt16_def demo_info_def)
  have i: "client_id demo_info = 10" "will_topic demo_info = NULL" "username demo_info = 10" "password demo_info = NULL"
    by (simp_all add: demo_info_def)
  have a: "arg demo_conn demo_mmem (client_id demo_info) [0x61, 0x62]"
      "opt_arg demo_conn demo_mmem (will_topic demo_info) []" "opt_arg demo_conn demo_mmem (username demo_info) [0x61, 0x62]"
      "opt_arg demo_conn demo_mmem (password demo_info) []"
    unfolding i by (rule demo_conn_facts)+
  have n: "length ?b = 20" unfolding b by simp
  from mqtt_msg_connect_encodes [OF demo_conn_facts(1) a(1) _ a(2-4) _ refl, of "[]", unfolded n, unfolded b]
  obtain c m where "mqtt_msg_connect demo_conn demo_info demo_mmem = Some (c, m)"
      "bytes_at m (msg_data c) (unat (msg_length c)) = fixed_header (type_val MQTT_MSG_TYPE_CONNECT) 0 0 0 #
         remaining 20 @ [0, 6, 0x4D, 0x51, 0x49, 0x73, 0x64, 0x70, 3, 0x82, 0, 120, 0, 2, 0x61, 0x62, 0, 2, 0x61, 0x62]"
    by (auto simp: demo_conn_facts)
  then show ?thesis by (simp add: fixed_header_def remaining_def)
qed

end
