(* ===== verification/Mqtt_Client.thy ===== *)
theory Mqtt_Client
  imports Mqtt_Queue Mqtt_Utils Mqtt_Parse
begin

text \<open>
  The MQTT client, \<^verbatim>\<open>mqtt/mqtt.c\<close>: the functions an application calls, the callbacks of the network
  layer, the timer and the task, over the connection state \<^verbatim>\<open>tConnState\<close>.

  There is one client; its structure is the field \<open>client\<close> of the state and \<open>client_addr\<close> its address.
  Strings and buffers are in \<open>ram\<close>. The connection blocks that \<^verbatim>\<open>MQTT_Connect\<close> allocates have their
  fields in \<open>cons\<close> and \<open>tcps\<close>; the remote address, which is written bytewise, is in \<open>ram\<close>. A local array
  and a local parser that are not initialised are the fields \<open>dataBuffer\<close>, \<open>stk\<close>, \<open>stk_c\<close> and \<open>stk_len\<close>.
  The last fields are the variables of the other modules of the program: the flash memory, the addresses of the
  configuration and of its flag (\<^verbatim>\<open>config.c\<close>) and of the string literals, and the state of \<^verbatim>\<open>wifi.c\<close>.
  The callbacks of the application are a parameter, \<open>mqtt_app\<close>. \<^verbatim>\<open>MQTT_SSL_ENABLE\<close> is defined, as in
  \<^verbatim>\<open>mqtt_config.h\<close>. Fields that no function reads and the messages of \<^verbatim>\<open>INFO\<close> are left out.
\<close>

section \<open>State\<close>

datatype (plugins del: quickcheck_random quickcheck_exhaustive quickcheck_narrowing
    quickcheck_bounded_forall quickcheck_full_exhaustive lifting transfer) tConnState =
    WIFI_INIT | WIFI_CONNECTING | WIFI_CONNECTING_ERROR | WIFI_CONNECTED | DNS_RESOLVE
  | TCP_DISCONNECTING | TCP_DISCONNECTED | TCP_RECONNECT_DISCONNECTING | TCP_RECONNECT_REQ | TCP_RECONNECT
  | TCP_CONNECTING | TCP_CONNECTING_ERROR | TCP_CONNECTED | MQTT_CONNECT_SEND | MQTT_CONNECT_SENDING
  | MQTT_SUBSCIBE_SEND | MQTT_SUBSCIBE_SENDING | MQTT_DATA | MQTT_KEEPALIVE_SEND | MQTT_PUBLISH_RECV
  | MQTT_PUBLISHING | MQTT_DELETING | MQTT_DELETED

record mqtt_state_t =
  has_connect_info :: bool
  in_buffer :: ptr
  out_buffer :: ptr
  in_buffer_length :: int
  out_buffer_length :: int
  message_length :: u16
  message_length_read :: u16
  outbound_message :: bool
  mqtt_conn :: mqtt_connection
  pending_msg_id :: u16
  pending_msg_type :: int

record MQTT_Client =
  pCon :: ptr
  security :: u8
  host :: ptr
  port :: u32
  ip :: u32
  mqtt_state :: mqtt_state_t
  connect_info :: mqtt_connect_info
  connectedCb :: "callback option"
  disconnectedCb :: "callback option"
  publishedCb :: "callback option"
  timeoutCb :: "callback option"
  dataCb :: "callback option"
  keepAliveTick :: u32
  reconnectTick :: u32
  sendTimeout :: u32
  connState :: tConnState
  msgQueue :: QUEUE
  user_data :: ptr

record esp_tcp =
  remote_port :: u32
  local_port :: u32

record mqtt_soc = soc +
  client :: MQTT_Client
  client_addr :: u32
  cons :: "ptr \<rightharpoonup> ptr"
  tcps :: "ptr \<rightharpoonup> esp_tcp"
  dataBuffer :: ptr
  stk :: PROTO_PARSER
  stk_c :: u8
  stk_len :: u16
  flash :: "nat \<Rightarrow> u8"
  sysCfg :: ptr
  saveFlag :: ptr
  lit :: "string \<Rightarrow> ptr"
  wifiCb :: "callback option"
  wifiStatus :: u8
  lastWifiStatus :: u8

record mqtt_app =
  on_event :: "callback \<Rightarrow> mqtt_soc \<Rightarrow> mqtt_soc option"
  on_data :: "callback \<Rightarrow> ptr \<Rightarrow> u16 \<Rightarrow> ptr \<Rightarrow> u16 \<Rightarrow> mqtt_soc \<Rightarrow> mqtt_soc option"

definition MQTT_BUF_SIZE :: nat where "MQTT_BUF_SIZE = 1024"
definition QUEUE_BUFFER_SIZE :: int where "QUEUE_BUFFER_SIZE = 2048"
definition MQTT_SEND_TIMOUT :: u32 where "MQTT_SEND_TIMOUT = 5"
definition MQTT_RECONNECT_TIMEOUT :: u32 where "MQTT_RECONNECT_TIMEOUT = 5"
definition MQTT_TASK_PRIO :: u8 where "MQTT_TASK_PRIO = 2"
definition MQTT_TASK_QUEUE_SIZE :: u8 where "MQTT_TASK_QUEUE_SIZE = 1"

text \<open>The sizes of \<^verbatim>\<open>struct espconn\<close> and \<^verbatim>\<open>esp_tcp\<close> and the offset of \<^verbatim>\<open>remote_ip\<close>.\<close>

definition sizeof_espconn :: nat where "sizeof_espconn = 28"
definition sizeof_esp_tcp :: nat where "sizeof_esp_tcp = 32"
definition remote_ip :: "ptr \<Rightarrow> ptr" where "remote_ip tcp = tcp + 12"

definition set_client :: "(MQTT_Client \<Rightarrow> MQTT_Client) \<Rightarrow> mqtt_soc \<Rightarrow> mqtt_soc" where
  "set_client f s = s\<lparr>client := f (client s)\<rparr>"

definition set_state :: "(mqtt_state_t \<Rightarrow> mqtt_state_t) \<Rightarrow> mqtt_soc \<Rightarrow> mqtt_soc" where
  "set_state f = set_client (\<lambda>c. c\<lparr>mqtt_state := f (mqtt_state c)\<rparr>)"

abbreviation mstate :: "mqtt_soc \<Rightarrow> mqtt_state_t" where
  "mstate s \<equiv> mqtt_state (client s)"

abbreviation mconn :: "mqtt_soc \<Rightarrow> mqtt_connection" where
  "mconn s \<equiv> mqtt_conn (mstate s)"

definition goto_state :: "tConnState \<Rightarrow> mqtt_soc \<Rightarrow> mqtt_soc" where
  "goto_state st = set_client (\<lambda>c. c\<lparr>connState := st\<rparr>)"

text \<open>\<^verbatim>\<open>system_os_post(MQTT_TASK_PRIO, 0, (os_param_t)client)\<close>\<close>

definition post_task :: "mqtt_soc \<Rightarrow> mqtt_soc" where
  "post_task s = call (Os (System_os_post MQTT_TASK_PRIO 0 (client_addr s))) s"

text \<open>\<^verbatim>\<open>if (client->cb) client->cb((uint32_t*)client);\<close>\<close>

definition run_cb :: "mqtt_app \<Rightarrow> callback option \<Rightarrow> mqtt_soc \<Rightarrow> mqtt_soc option" where
  "run_cb app cb s = (case cb of None \<Rightarrow> Some s | Some f \<Rightarrow> on_event app f s)"

section \<open>The network layer\<close>

definition net_connect :: "mqtt_soc \<Rightarrow> mqtt_soc" where
  "net_connect s =
     (let con = mqtt_espconn (pCon (client s))
      in if security (client s) \<noteq> 0 then call (Net (Espconn_secure_connect con)) s else call (Net (Espconn_connect con)) s)"

definition net_disconnect :: "mqtt_soc \<Rightarrow> mqtt_soc" where
  "net_disconnect s =
     (let con = mqtt_espconn (pCon (client s))
      in if security (client s) \<noteq> 0 then call (Net (Espconn_secure_disconnect con)) s
         else call (Net (Espconn_disconnect con)) s)"

text \<open>The result is an \<^verbatim>\<open>err_t\<close>, a signed byte.\<close>

definition net_send :: "ptr \<Rightarrow> u16 \<Rightarrow> mqtt_soc \<Rightarrow> (u8 \<times> mqtt_soc) option" where
  "net_send data n s =
     (if \<not> valid_range (ram s) data (unat n) then None
      else let con = mqtt_espconn (pCon (client s)); bs = bytes_at (ram s) data (unat n);
               (r, s) = (if security (client s) \<noteq> 0
                         then ask espconn_secure_send_result (call (Net (Espconn_secure_send con bs)) s)
                         else ask espconn_send_result (call (Net (Espconn_send con bs)) s))
           in Some (ucast r, s))"

definition le32 :: "u32 \<Rightarrow> u8 list" where
  "le32 v = [ucast v, ucast (drop_bit 8 v), ucast (drop_bit 16 v), ucast (drop_bit 24 v)]"

definition mqtt_dns_found :: "u32 option \<Rightarrow> mqtt_soc \<Rightarrow> mqtt_soc option" where
  "mqtt_dns_found ipaddr s =
     (case ipaddr of
        None \<Rightarrow> Some (goto_state TCP_RECONNECT_REQ s)
      | Some addr \<Rightarrow>
          do { s \<leftarrow> (if ip (client s) = 0 \<and> addr \<noteq> 0
                     then do { tcp \<leftarrow> cons s (pCon (client s));
                               m \<leftarrow> poke_all (remote_ip tcp) (le32 addr) (ram s);
                               Some (goto_state TCP_CONNECTING (net_connect (s\<lparr>ram := m\<rparr>))) }
                     else Some s);
               Some (post_task s) })"

section \<open>Building and queueing messages\<close>

text \<open>\<^verbatim>\<open>client->mqtt_state.outbound_message = mqtt_msg_...(&client->mqtt_state.mqtt_connection, ...)\<close>; the second
  form stores the message id in \<^verbatim>\<open>pending_msg_id\<close>.\<close>

definition build :: "(mqtt_connection \<Rightarrow> mem \<Rightarrow> (mqtt_connection \<times> mem) option) \<Rightarrow> mqtt_soc \<Rightarrow> mqtt_soc option" where
  "build f s =
     do { (c, m) \<leftarrow> f (mconn s) (ram s);
          Some (set_state (\<lambda>t. t\<lparr>mqtt_conn := c, outbound_message := True\<rparr>) (s\<lparr>ram := m\<rparr>)) }"

definition build_id ::
  "(mqtt_connection \<Rightarrow> u16 \<Rightarrow> mem \<Rightarrow> (u16 \<times> mqtt_connection \<times> mem) option) \<Rightarrow> mqtt_soc \<Rightarrow> mqtt_soc option" where
  "build_id f s =
     do { (i, c, m) \<leftarrow> f (mconn s) (pending_msg_id (mstate s)) (ram s);
          Some (set_state (\<lambda>t. t\<lparr>mqtt_conn := c, outbound_message := True, pending_msg_id := i\<rparr>) (s\<lparr>ram := m\<rparr>)) }"

text \<open>\<^verbatim>\<open>QUEUE_Puts(&client->msgQueue, outbound_message->data, outbound_message->length)\<close>\<close>

definition queue_put :: "mqtt_soc \<Rightarrow> (int \<times> mqtt_soc) option" where
  "queue_put s =
     do { (r, q, m) \<leftarrow> QUEUE_Puts (msgQueue (client s)) (msg_data (mconn s)) (msg_length (mconn s)) (ram s);
          Some (r, set_client (\<lambda>c. c\<lparr>msgQueue := q\<rparr>) (s\<lparr>ram := m\<rparr>)) }"

text \<open>\<^verbatim>\<open>QUEUE_Gets(&client->msgQueue, dataBuffer, &dataLen, MQTT_BUF_SIZE)\<close>\<close>

definition queue_get :: "mqtt_soc \<Rightarrow> (int \<times> u16 \<times> mqtt_soc) option" where
  "queue_get s =
     do { (r, n, q, m) \<leftarrow> QUEUE_Gets (stk s) (stk_c s) (msgQueue (client s)) (dataBuffer s) (stk_len s) (of_nat MQTT_BUF_SIZE) (ram s);
          Some (r, n, set_client (\<lambda>c. c\<lparr>msgQueue := q\<rparr>) (s\<lparr>ram := m\<rparr>)) }"

text \<open>The loop that makes room for the message and the end of the function it is in.\<close>

definition enqueue :: "mqtt_soc \<Rightarrow> (bool \<times> mqtt_soc) option" where
  "enqueue s =
     do { (ok, q, m) \<leftarrow> queue_loop (pq_puts (msg_data (mconn s), msg_length (mconn s)))
            (pq_gets (stk s, stk_c s, dataBuffer s, stk_len s, of_nat MQTT_BUF_SIZE)) (msgQueue (client s), ram s);
          let s = set_client (\<lambda>c. c\<lparr>msgQueue := q\<rparr>) (s\<lparr>ram := m\<rparr>);
          Some (if ok then (True, post_task s) else (False, s)) }"

definition MQTT_Publish :: "ptr \<Rightarrow> ptr \<Rightarrow> int \<Rightarrow> int \<Rightarrow> int \<Rightarrow> mqtt_soc \<Rightarrow> (bool \<times> mqtt_soc) option" where
  "MQTT_Publish topic data data_length qos retain s =
     do { s \<leftarrow> build_id (\<lambda>c i m. mqtt_msg_publish c topic data data_length qos retain i m) s;
          if msg_length (mconn s) = 0 then Some (False, s) else enqueue s }"

definition MQTT_Subscribe :: "ptr \<Rightarrow> u8 \<Rightarrow> mqtt_soc \<Rightarrow> (bool \<times> mqtt_soc) option" where
  "MQTT_Subscribe topic qos s =
     do { s \<leftarrow> build_id (\<lambda>c i m. mqtt_msg_subscribe c topic (uint qos) i m) s; enqueue s }"

definition MQTT_UnSubscribe :: "ptr \<Rightarrow> mqtt_soc \<Rightarrow> (bool \<times> mqtt_soc) option" where
  "MQTT_UnSubscribe topic s =
     do { s \<leftarrow> build_id (\<lambda>c i m. mqtt_msg_unsubscribe c topic i m) s; enqueue s }"

definition MQTT_Ping :: "mqtt_soc \<Rightarrow> (bool \<times> mqtt_soc) option" where
  "MQTT_Ping s =
     do { s \<leftarrow> build mqtt_msg_pingreq s;
          if msg_length (mconn s) = 0 then Some (False, s) else enqueue s }"

text \<open>\<^verbatim>\<open>pending_msg_type\<close> and \<^verbatim>\<open>pending_msg_id\<close> of the packet that is sent, and the send timeout.\<close>

definition note_pending :: "ptr \<Rightarrow> u16 \<Rightarrow> mqtt_soc \<Rightarrow> mqtt_soc option" where
  "note_pending data n s =
     do { ty \<leftarrow> mqtt_get_type data (ram s);
          i \<leftarrow> mqtt_get_id data n (ram s);
          Some (set_client (\<lambda>c. c\<lparr>sendTimeout := MQTT_SEND_TIMOUT\<rparr>)
            (set_state (\<lambda>t. t\<lparr>pending_msg_type := ty, pending_msg_id := i\<rparr>) s)) }"

definition mqtt_send_keepalive :: "mqtt_soc \<Rightarrow> mqtt_soc option" where
  "mqtt_send_keepalive s =
     do { s \<leftarrow> build mqtt_msg_pingreq s;
          s \<leftarrow> note_pending (msg_data (mconn s)) (msg_length (mconn s)) s;
          (r, s) \<leftarrow> net_send (msg_data (mconn s)) (msg_length (mconn s)) s;
          let s = set_state (\<lambda>t. t\<lparr>outbound_message := False\<rparr>) s;
          Some (if r = 0
                then post_task (goto_state MQTT_DATA (set_client (\<lambda>c. c\<lparr>keepAliveTick := 0\<rparr>) s))
                else post_task (goto_state TCP_RECONNECT_DISCONNECTING s)) }"

section \<open>Releasing memory\<close>

definition free_con :: "ptr \<Rightarrow> mqtt_soc \<Rightarrow> mqtt_soc option" where
  "free_con p s = do { s \<leftarrow> os_free p s; Some (s\<lparr>cons := (cons s)(p := None)\<rparr>) }"

definition free_tcp :: "ptr \<Rightarrow> mqtt_soc \<Rightarrow> mqtt_soc option" where
  "free_tcp p s = do { s \<leftarrow> os_free p s; Some (s\<lparr>tcps := (tcps s)(p := None)\<rparr>) }"

definition mqtt_tcpclient_delete :: "mqtt_soc \<Rightarrow> mqtt_soc option" where
  "mqtt_tcpclient_delete s =
     (let p = pCon (client s)
      in if p = NULL then Some s
         else do { let s = call (Net (Espconn_delete (mqtt_espconn p))) s;
                   tcp \<leftarrow> cons s p;
                   s \<leftarrow> (if tcp \<noteq> NULL then free_tcp tcp s else Some s);
                   s \<leftarrow> free_con p s;
                   Some (set_client (\<lambda>c. c\<lparr>pCon := NULL\<rparr>) s) })"

text \<open>\<^verbatim>\<open>if (x != NULL) { os_free(x); x = NULL; }\<close>\<close>

definition release :: "(MQTT_Client \<Rightarrow> ptr) \<Rightarrow> (MQTT_Client \<Rightarrow> MQTT_Client) \<Rightarrow> mqtt_soc \<Rightarrow> mqtt_soc option" where
  "release get clear s =
     (if get (client s) = NULL then Some s
      else do { s \<leftarrow> os_free (get (client s)) s; Some (set_client clear s) })"

definition mqtt_client_delete :: "mqtt_soc \<Rightarrow> mqtt_soc option" where
  "mqtt_client_delete s =
     do { s \<leftarrow> mqtt_tcpclient_delete s;
          s \<leftarrow> release host (\<lambda>c. c\<lparr>host := NULL\<rparr>) s;
          s \<leftarrow> release user_data (\<lambda>c. c\<lparr>user_data := NULL\<rparr>) s;
          s \<leftarrow> release (client_id \<circ> connect_info) (\<lambda>c. c\<lparr>connect_info := (connect_info c)\<lparr>client_id := NULL\<rparr>\<rparr>) s;
          s \<leftarrow> release (username \<circ> connect_info) (\<lambda>c. c\<lparr>connect_info := (connect_info c)\<lparr>username := NULL\<rparr>\<rparr>) s;
          s \<leftarrow> release (password \<circ> connect_info) (\<lambda>c. c\<lparr>connect_info := (connect_info c)\<lparr>password := NULL\<rparr>\<rparr>) s;
          s \<leftarrow> release (will_topic \<circ> connect_info) (\<lambda>c. c\<lparr>connect_info := (connect_info c)\<lparr>will_topic := NULL\<rparr>\<rparr>) s;
          s \<leftarrow> release (will_message \<circ> connect_info) (\<lambda>c. c\<lparr>connect_info := (connect_info c)\<lparr>will_message := NULL\<rparr>\<rparr>) s;
          s \<leftarrow> release (in_buffer \<circ> mqtt_state) (\<lambda>c. c\<lparr>mqtt_state := (mqtt_state c)\<lparr>in_buffer := NULL\<rparr>\<rparr>) s;
          release (out_buffer \<circ> mqtt_state) (\<lambda>c. c\<lparr>mqtt_state := (mqtt_state c)\<lparr>out_buffer := NULL\<rparr>\<rparr>) s }"

section \<open>Callbacks of the network layer\<close>

definition deliver_publish :: "mqtt_app \<Rightarrow> ptr \<Rightarrow> u16 \<Rightarrow> mqtt_soc \<Rightarrow> mqtt_soc option" where
  "deliver_publish app msg n s =
     do { (topic, topic_length) \<leftarrow> mqtt_get_publish_topic msg n (ram s);
          (data, data_length) \<leftarrow> mqtt_get_publish_data msg n (ram s);
          case dataCb (client s) of None \<Rightarrow> Some s
          | Some f \<Rightarrow> on_data app f topic topic_length data data_length s }"

text \<open>A response is built and queued; a full queue drops it.\<close>

definition respond :: "(mqtt_connection \<Rightarrow> mem \<Rightarrow> (mqtt_connection \<times> mem) option) \<Rightarrow> mqtt_soc \<Rightarrow> mqtt_soc option" where
  "respond f s = do { s \<leftarrow> build f s; (_, s) \<leftarrow> queue_put s; Some s }"

text \<open>The inner switch of \<^verbatim>\<open>mqtt_tcpclient_recv\<close>; the acknowledgements it leaves out only print.\<close>

definition recv_data :: "mqtt_app \<Rightarrow> int \<Rightarrow> int \<Rightarrow> u16 \<Rightarrow> mqtt_soc \<Rightarrow> mqtt_soc option" where
  "recv_data app msg_type msg_qos msg_id s =
     (if msg_type = type_val MQTT_MSG_TYPE_PUBLISH
      then do { s \<leftarrow> (if msg_qos = 1 then respond (\<lambda>c m. mqtt_msg_puback c msg_id m) s
                     else if msg_qos = 2 then respond (\<lambda>c m. mqtt_msg_pubrec c msg_id m) s
                     else Some s);
                deliver_publish app (in_buffer (mstate s)) (message_length_read (mstate s)) s }
      else if msg_type = type_val MQTT_MSG_TYPE_PUBREC then respond (\<lambda>c m. mqtt_msg_pubrel c msg_id m) s
      else if msg_type = type_val MQTT_MSG_TYPE_PUBREL then respond (\<lambda>c m. mqtt_msg_pubcomp c msg_id m) s
      else if msg_type = type_val MQTT_MSG_TYPE_PINGREQ then respond mqtt_msg_pingresp s
      else Some s)"

text \<open>From the label \<^verbatim>\<open>READPACKET\<close> to the \<^verbatim>\<open>goto\<close>; the result says where the next packet starts, if the \<^verbatim>\<open>goto\<close> is
  taken.\<close>

definition recv_packet :: "mqtt_app \<Rightarrow> ptr \<Rightarrow> u16 \<Rightarrow> mqtt_soc \<Rightarrow> ((ptr \<times> u16) option \<times> mqtt_soc) option" where
  "recv_packet app pdata n s =
     (if unat n < MQTT_BUF_SIZE \<and> 0 < n
      then do {
        s \<leftarrow> os_memcpy (in_buffer (mstate s)) pdata (unat n) s;
        let buf = in_buffer (mstate s);
        msg_type \<leftarrow> mqtt_get_type buf (ram s);
        msg_qos \<leftarrow> mqtt_get_qos buf (ram s);
        msg_id \<leftarrow> mqtt_get_id buf (word_of_int (in_buffer_length (mstate s))) (ram s);
        let st = connState (client s);
        if st = MQTT_CONNECT_SENDING
        then if msg_type = type_val MQTT_MSG_TYPE_CONNACK
             then if pending_msg_type (mstate s) \<noteq> type_val MQTT_MSG_TYPE_CONNECT
                  then Some (None, net_disconnect s)
                  else do { let s = goto_state MQTT_DATA s;
                            s \<leftarrow> run_cb app (connectedCb (client s)) s;
                            Some (None, s) }
             else Some (None, s)
        else if st = MQTT_DATA \<or> st = MQTT_KEEPALIVE_SEND
        then do {
          let s = set_state (\<lambda>t. t\<lparr>message_length_read := n\<rparr>) s;
          tot \<leftarrow> mqtt_get_total_length buf n (ram s);
          let s = set_state (\<lambda>t. t\<lparr>message_length := word_of_int tot\<rparr>) s;
          s \<leftarrow> recv_data app msg_type msg_qos msg_id s;
          Some (if msg_type = type_val MQTT_MSG_TYPE_PUBLISH
                  \<and> message_length (mstate s) < message_length_read (mstate s)
                then Some (pdata + unat (message_length (mstate s)), message_length_read (mstate s) - message_length (mstate s))
                else None, s) }
        else Some (None, s) }
      else Some (None, s))"

partial_function (option) recv_loop :: "mqtt_app \<Rightarrow> ptr \<Rightarrow> u16 \<Rightarrow> mqtt_soc \<Rightarrow> mqtt_soc option" where
  "recv_loop app pdata n s =
     do { (more, s) \<leftarrow> recv_packet app pdata n s;
          case more of None \<Rightarrow> Some s | Some (p, k) \<Rightarrow> recv_loop app p k s }"

definition mqtt_tcpclient_recv :: "mqtt_app \<Rightarrow> ptr \<Rightarrow> u16 \<Rightarrow> mqtt_soc \<Rightarrow> mqtt_soc option" where
  "mqtt_tcpclient_recv app pdata n s =
     do { s \<leftarrow> recv_loop app pdata n (set_client (\<lambda>c. c\<lparr>keepAliveTick := 0\<rparr>) s); Some (post_task s) }"

definition mqtt_tcpclient_sent_cb :: "mqtt_app \<Rightarrow> mqtt_soc \<Rightarrow> mqtt_soc option" where
  "mqtt_tcpclient_sent_cb app s =
     do { let s = set_client (\<lambda>c. c\<lparr>sendTimeout := 0, keepAliveTick := 0\<rparr>) s;
          s \<leftarrow> (if (connState (client s) = MQTT_DATA \<or> connState (client s) = MQTT_KEEPALIVE_SEND)
                  \<and> pending_msg_type (mstate s) = type_val MQTT_MSG_TYPE_PUBLISH
                then run_cb app (publishedCb (client s)) s else Some s);
          Some (post_task s) }"

text \<open>\<^verbatim>\<open>keepAliveTick\<close> is unsigned, so the keep-alive time is converted to unsigned for the comparison.\<close>

definition mqtt_timer :: "mqtt_app \<Rightarrow> mqtt_soc \<Rightarrow> mqtt_soc option" where
  "mqtt_timer app s =
     do { s \<leftarrow> (if connState (client s) = MQTT_DATA
                then do { let s = set_client (\<lambda>c. c\<lparr>keepAliveTick := keepAliveTick c + 1\<rparr>) s;
                          if \<not> has_connect_info (mstate s) then None
                          else if word_of_int (keepalive (connect_info (client s))) < keepAliveTick (client s)
                          then Some (post_task (goto_state MQTT_KEEPALIVE_SEND s))
                          else Some s }
                else if connState (client s) = TCP_RECONNECT_REQ
                then do { let s = set_client (\<lambda>c. c\<lparr>reconnectTick := reconnectTick c + 1\<rparr>) s;
                          if MQTT_RECONNECT_TIMEOUT < reconnectTick (client s)
                          then do { let s = post_task (goto_state TCP_RECONNECT (set_client (\<lambda>c. c\<lparr>reconnectTick := 0\<rparr>) s));
                                    run_cb app (timeoutCb (client s)) s }
                          else Some s }
                else Some s);
          Some (if 0 < sendTimeout (client s) then set_client (\<lambda>c. c\<lparr>sendTimeout := sendTimeout c - 1\<rparr>) s else s) }"

definition mqtt_tcpclient_discon_cb :: "mqtt_app \<Rightarrow> mqtt_soc \<Rightarrow> mqtt_soc option" where
  "mqtt_tcpclient_discon_cb app s =
     do { let s = goto_state (if connState (client s) = TCP_DISCONNECTING then TCP_DISCONNECTED
                              else if connState (client s) = MQTT_DELETING then MQTT_DELETED
                              else TCP_RECONNECT_REQ) s;
          s \<leftarrow> run_cb app (disconnectedCb (client s)) s;
          Some (post_task s) }"

definition mqtt_tcpclient_connect_cb :: "mqtt_soc \<Rightarrow> mqtt_soc option" where
  "mqtt_tcpclient_connect_cb s =
     do { let con = mqtt_espconn (pCon (client s));
          let s = call (Net (Espconn_regist con mqtt_tcpclient_discon_cb_fn)) s;
          let s = call (Net (Espconn_regist con mqtt_tcpclient_recv_cb)) s;
          let s = call (Net (Espconn_regist con mqtt_tcpclient_sent_cb_fn)) s;
          let s = set_state (\<lambda>t. t\<lparr>mqtt_conn := mqtt_msg_init (out_buffer t) (word_of_int (out_buffer_length t))\<rparr>) s;
          s \<leftarrow> (if has_connect_info (mstate s) then build (\<lambda>c m. mqtt_msg_connect c (connect_info (client s)) m) s else None);
          s \<leftarrow> note_pending (msg_data (mconn s)) (msg_length (mconn s)) s;
          (_, s) \<leftarrow> net_send (msg_data (mconn s)) (msg_length (mconn s)) s;
          Some (post_task (goto_state MQTT_CONNECT_SENDING (set_state (\<lambda>t. t\<lparr>outbound_message := False\<rparr>) s))) }"

definition mqtt_tcpclient_recon_cb :: "mqtt_soc \<Rightarrow> mqtt_soc" where
  "mqtt_tcpclient_recon_cb s = post_task (goto_state TCP_RECONNECT_REQ s)"

section \<open>Setting up\<close>

text \<open>\<^verbatim>\<open>temp = os_strlen(s); p = os_zalloc(temp + 1); os_strcpy(p, s); p[temp] = 0;\<close>\<close>

definition copy_string :: "ptr \<Rightarrow> mqtt_soc \<Rightarrow> (ptr \<times> mqtt_soc) option" where
  "copy_string str s =
     do { n \<leftarrow> strlen str (ram s);
          let (p, s) = os_zalloc (n + 1) s;
          s \<leftarrow> os_memcpy p str (n + 1) s;
          s \<leftarrow> store8 (p + n) 0 s;
          Some (p, s) }"

definition zero_info :: mqtt_connect_info where
  "zero_info = \<lparr>client_id = NULL, username = NULL, password = NULL, will_topic = NULL, will_message = NULL,
     keepalive = 0, will_qos = 0, will_retain = 0, clean_session = 0\<rparr>"

definition zero_client :: MQTT_Client where
  "zero_client = \<lparr>pCon = NULL, security = 0, host = NULL, port = 0, ip = 0,
     mqtt_state = \<lparr>has_connect_info = False, in_buffer = NULL, out_buffer = NULL, in_buffer_length = 0,
       out_buffer_length = 0, message_length = 0, message_length_read = 0, outbound_message = False,
       mqtt_conn = mqtt_msg_init NULL 0, pending_msg_id = 0, pending_msg_type = 0\<rparr>,
     connect_info = zero_info, connectedCb = None, disconnectedCb = None, publishedCb = None, timeoutCb = None,
     dataCb = None, keepAliveTick = 0, reconnectTick = 0, sendTimeout = 0, connState = WIFI_INIT,
     msgQueue = \<lparr>q_buf = NULL, q_rb = \<lparr>p_o = NULL, p_r = NULL, p_w = NULL, fill_cnt = 0, ring_size = 0\<rparr>\<rparr>, user_data = NULL\<rparr>"

definition MQTT_InitConnection :: "ptr \<Rightarrow> u32 \<Rightarrow> u8 \<Rightarrow> mqtt_soc \<Rightarrow> mqtt_soc option" where
  "MQTT_InitConnection h prt sec s =
     do { let s = set_client (\<lambda>c. zero_client) s;
          (p, s) \<leftarrow> copy_string h s;
          Some (set_client (\<lambda>c. c\<lparr>host := p, port := prt, security := sec\<rparr>) s) }"

definition MQTT_InitClient :: "ptr \<Rightarrow> ptr \<Rightarrow> ptr \<Rightarrow> u32 \<Rightarrow> u8 \<Rightarrow> mqtt_soc \<Rightarrow> mqtt_soc option" where
  "MQTT_InitClient cid client_user client_pass keepAliveTime cleanSession s =
     do { let s = set_client (\<lambda>c. c\<lparr>connect_info := zero_info\<rparr>) s;
          (p, s) \<leftarrow> copy_string cid s;
          let s = set_client (\<lambda>c. c\<lparr>connect_info := (connect_info c)\<lparr>client_id := p\<rparr>\<rparr>) s;
          s \<leftarrow> (if client_user \<noteq> NULL
                then do { (p, s) \<leftarrow> copy_string client_user s;
                          Some (set_client (\<lambda>c. c\<lparr>connect_info := (connect_info c)\<lparr>username := p\<rparr>\<rparr>) s) }
                else Some s);
          s \<leftarrow> (if client_pass \<noteq> NULL
                then do { (p, s) \<leftarrow> copy_string client_pass s;
                          Some (set_client (\<lambda>c. c\<lparr>connect_info := (connect_info c)\<lparr>password := p\<rparr>\<rparr>) s) }
                else Some s);
          let s = set_client (\<lambda>c. c\<lparr>connect_info := (connect_info c)\<lparr>keepalive := sint keepAliveTime,
                    clean_session := uint cleanSession\<rparr>\<rparr>) s;
          let (p, s) = os_zalloc MQTT_BUF_SIZE s;
          let s = set_state (\<lambda>t. t\<lparr>in_buffer := p, in_buffer_length := int MQTT_BUF_SIZE\<rparr>) s;
          let (p, s) = os_zalloc MQTT_BUF_SIZE s;
          let s = set_state (\<lambda>t. t\<lparr>out_buffer := p, out_buffer_length := int MQTT_BUF_SIZE, has_connect_info := True\<rparr>) s;
          let s = set_state (\<lambda>t. t\<lparr>mqtt_conn := mqtt_msg_init (out_buffer t) (word_of_int (out_buffer_length t))\<rparr>) s;
          let (q, s) = QUEUE_Init (msgQueue (client s)) QUEUE_BUFFER_SIZE s;
          let s = set_client (\<lambda>c. c\<lparr>msgQueue := q\<rparr>) s;
          Some (post_task (call (Os (System_os_task MQTT_Task_cb MQTT_TASK_PRIO MQTT_TASK_QUEUE_SIZE)) s)) }"

definition MQTT_InitLWT :: "ptr \<Rightarrow> ptr \<Rightarrow> u8 \<Rightarrow> u8 \<Rightarrow> mqtt_soc \<Rightarrow> mqtt_soc option" where
  "MQTT_InitLWT topic msg qos retain s =
     do { (p, s) \<leftarrow> copy_string topic s;
          let s = set_client (\<lambda>c. c\<lparr>connect_info := (connect_info c)\<lparr>will_topic := p\<rparr>\<rparr>) s;
          (p, s) \<leftarrow> copy_string msg s;
          Some (set_client (\<lambda>c. c\<lparr>connect_info := (connect_info c)\<lparr>will_message := p, will_qos := uint qos,
                  will_retain := uint retain\<rparr>\<rparr>) s) }"

text \<open>The allocation of the connection block at the start of \<^verbatim>\<open>MQTT_Connect\<close>; a failed allocation is written through.\<close>

definition alloc_con :: "mqtt_soc \<Rightarrow> mqtt_soc option" where
  "alloc_con s =
     do { let (p, s) = os_zalloc sizeof_espconn s;
          if p = NULL then None
          else do {
            let s = set_client (\<lambda>c. c\<lparr>pCon := p\<rparr>) s;
            let (tcp, s) = os_zalloc sizeof_esp_tcp s;
            let s = s\<lparr>cons := (cons s)(p \<mapsto> tcp)\<rparr>;
            if tcp = NULL then None
            else do {
              let (lp, s) = ask espconn_port s;
              Some (s\<lparr>tcps := (tcps s)(tcp \<mapsto> \<lparr>remote_port = port (client s), local_port = lp\<rparr>)\<rparr>) } } }"

definition MQTT_Connect :: "mqtt_soc \<Rightarrow> mqtt_soc option" where
  "MQTT_Connect s =
     do { s \<leftarrow> (if pCon (client s) \<noteq> NULL then mqtt_tcpclient_delete s else Some s);
          s \<leftarrow> alloc_con s;
          let con = mqtt_espconn (pCon (client s));
          let s = call (Net (Espconn_regist con mqtt_tcpclient_connect_cb_fn)) s;
          let s = call (Net (Espconn_regist con mqtt_tcpclient_recon_cb_fn)) s;
          let s = set_client (\<lambda>c. c\<lparr>keepAliveTick := 0, reconnectTick := 0\<rparr>) s;
          let s = os_timer_disarm mqttTimer_t s;
          let s = os_timer_setfn mqttTimer_t mqtt_timer_cb s;
          let s = os_timer_arm mqttTimer_t 1000 True s;
          tcp \<leftarrow> cons s (pCon (client s));
          (r, m) \<leftarrow> UTILS_StrToIP (host (client s)) (remote_ip tcp) (ram s);
          let s = s\<lparr>ram := m\<rparr>;
          let s = (if r \<noteq> 0 then net_connect s
                   else call (Net (Espconn_gethostbyname_ptr con (host (client s)) mqtt_dns_found_cb)) s);
          Some (goto_state TCP_CONNECTING s) }"

definition MQTT_Disconnect :: "mqtt_soc \<Rightarrow> mqtt_soc" where
  "MQTT_Disconnect s = os_timer_disarm mqttTimer_t (post_task (goto_state TCP_DISCONNECTING s))"

definition MQTT_DeleteClient :: "mqtt_soc \<Rightarrow> mqtt_soc" where
  "MQTT_DeleteClient s = os_timer_disarm mqttTimer_t (post_task (goto_state MQTT_DELETING s))"

definition MQTT_OnConnected :: "callback \<Rightarrow> mqtt_soc \<Rightarrow> mqtt_soc" where
  "MQTT_OnConnected cb = set_client (\<lambda>c. c\<lparr>connectedCb := Some cb\<rparr>)"

definition MQTT_OnDisconnected :: "callback \<Rightarrow> mqtt_soc \<Rightarrow> mqtt_soc" where
  "MQTT_OnDisconnected cb = set_client (\<lambda>c. c\<lparr>disconnectedCb := Some cb\<rparr>)"

definition MQTT_OnData :: "callback \<Rightarrow> mqtt_soc \<Rightarrow> mqtt_soc" where
  "MQTT_OnData cb = set_client (\<lambda>c. c\<lparr>dataCb := Some cb\<rparr>)"

definition MQTT_OnPublished :: "callback \<Rightarrow> mqtt_soc \<Rightarrow> mqtt_soc" where
  "MQTT_OnPublished cb = set_client (\<lambda>c. c\<lparr>publishedCb := Some cb\<rparr>)"

definition MQTT_OnTimeout :: "callback \<Rightarrow> mqtt_soc \<Rightarrow> mqtt_soc" where
  "MQTT_OnTimeout cb = set_client (\<lambda>c. c\<lparr>timeoutCb := Some cb\<rparr>)"

section \<open>The task\<close>

definition MQTT_Task :: "u32 \<Rightarrow> mqtt_soc \<Rightarrow> mqtt_soc option" where
  "MQTT_Task par s =
     (if par = 0 then Some s
      else case connState (client s) of
        TCP_RECONNECT \<Rightarrow>
          do { s \<leftarrow> mqtt_tcpclient_delete s; s \<leftarrow> MQTT_Connect s; Some (goto_state TCP_CONNECTING s) }
      | MQTT_DELETING \<Rightarrow> Some (net_disconnect s)
      | TCP_DISCONNECTING \<Rightarrow> Some (net_disconnect s)
      | TCP_RECONNECT_DISCONNECTING \<Rightarrow> Some (net_disconnect s)
      | TCP_DISCONNECTED \<Rightarrow> mqtt_tcpclient_delete s
      | MQTT_DELETED \<Rightarrow> mqtt_client_delete s
      | MQTT_KEEPALIVE_SEND \<Rightarrow> mqtt_send_keepalive s
      | MQTT_DATA \<Rightarrow>
          if QUEUE_IsEmpty (msgQueue (client s)) \<or> sendTimeout (client s) \<noteq> 0 then Some s
          else do {
            (r, n, s) \<leftarrow> queue_get s;
            if r = 0
            then do { s \<leftarrow> note_pending (dataBuffer s) n s;
                      (_, s) \<leftarrow> net_send (dataBuffer s) n s;
                      Some (set_state (\<lambda>t. t\<lparr>outbound_message := False\<rparr>) s) }
            else Some s }
      | _ \<Rightarrow> Some s)"

end
