(* ===== verification/Mqtt_Client_Proofs.thy ===== *)
theory Mqtt_Client_Proofs
  imports Mqtt_Client
begin

text \<open>
  The MQTT client: an invariant of its buffers and its queue, what queueing a message does, what a received
  publish packet does, the timer and the way to a new connection.
\<close>

named_theorems client_simps \<open>fields after the state updates of the client\<close>

lemma set_client_fields [client_simps]:
  "client (set_client f s) = f (client s)" "ram (set_client f s) = ram s" "log (set_client f s) = log s"
  "dataBuffer (set_client f s) = dataBuffer s" "client_addr (set_client f s) = client_addr s"
  "stk (set_client f s) = stk s" "stk_c (set_client f s) = stk_c s" "stk_len (set_client f s) = stk_len s"
  "cons (set_client f s) = cons s" "tcps (set_client f s) = tcps s" "blocks (set_client f s) = blocks s"
  "sdk_ret (set_client f s) = sdk_ret s" "clk (set_client f s) = clk s"
  by (simp_all add: set_client_def)

lemma set_state_fields [client_simps]:
  "client (set_state f s) = (client s)\<lparr>mqtt_state := f (mstate s)\<rparr>" "ram (set_state f s) = ram s" "log (set_state f s) = log s"
  "dataBuffer (set_state f s) = dataBuffer s" "client_addr (set_state f s) = client_addr s"
  "stk (set_state f s) = stk s" "stk_c (set_state f s) = stk_c s" "stk_len (set_state f s) = stk_len s"
  "cons (set_state f s) = cons s" "tcps (set_state f s) = tcps s" "blocks (set_state f s) = blocks s"
  "sdk_ret (set_state f s) = sdk_ret s" "clk (set_state f s) = clk s"
  by (simp_all add: set_state_def client_simps)

lemma goto_state_fields [client_simps]:
  "client (goto_state st s) = (client s)\<lparr>connState := st\<rparr>" "ram (goto_state st s) = ram s" "log (goto_state st s) = log s"
  "dataBuffer (goto_state st s) = dataBuffer s" "client_addr (goto_state st s) = client_addr s"
  "stk (goto_state st s) = stk s" "stk_c (goto_state st s) = stk_c s" "stk_len (goto_state st s) = stk_len s"
  "cons (goto_state st s) = cons s" "tcps (goto_state st s) = tcps s" "blocks (goto_state st s) = blocks s"
  "sdk_ret (goto_state st s) = sdk_ret s" "clk (goto_state st s) = clk s"
  by (simp_all add: goto_state_def client_simps)

lemma call_client_fields [client_simps]:
  "client (call c s) = client s" "dataBuffer (call c s) = dataBuffer s" "client_addr (call c s) = client_addr s"
  "stk (call c s) = stk s" "stk_c (call c s) = stk_c s" "stk_len (call c s) = stk_len s"
  "cons (call c s) = cons s" "tcps (call c s) = tcps s" "ram (call c s) = ram s" "blocks (call c s) = blocks s"
  "log (call c s) = log s @ [Call c]" "sdk_ret (call c s) = sdk_ret s" "clk (call c s) = Suc (clk s)"
  by (simp_all add: call_def)

definition posted :: "mqtt_soc \<Rightarrow> io_event" where
  "posted s = Call (Os (System_os_post MQTT_TASK_PRIO 0 (client_addr s)))"

lemma post_task_fields [client_simps]:
  "client (post_task s) = client s" "dataBuffer (post_task s) = dataBuffer s" "client_addr (post_task s) = client_addr s"
  "stk (post_task s) = stk s" "stk_c (post_task s) = stk_c s" "stk_len (post_task s) = stk_len s"
  "cons (post_task s) = cons s" "tcps (post_task s) = tcps s" "ram (post_task s) = ram s" "blocks (post_task s) = blocks s"
  "log (post_task s) = log s @ [posted s]" "sdk_ret (post_task s) = sdk_ret s" "clk (post_task s) = Suc (clk s)"
  by (simp_all add: post_task_def client_simps posted_def)

section \<open>The buffers\<close>

definition client_ok :: "mqtt_soc \<Rightarrow> u8 list list \<Rightarrow> bool" where
  "client_ok s ps \<longleftrightarrow> (let q = msgQueue (client s); c = mconn s; m = ram s; n = unat (buffer_length c)
     in queue_holds q m ps \<and> ring_size (q_rb q) < 2 ^ 15 \<and> buf_ok c m
        \<and> outside q m (conn_buffer c) n \<and> outside q m (dataBuffer s) MQTT_BUF_SIZE
        \<and> outside q m (in_buffer (mstate s)) MQTT_BUF_SIZE
        \<and> disjoint_ranges (dataBuffer s) MQTT_BUF_SIZE (conn_buffer c) n
        \<and> disjoint_ranges (in_buffer (mstate s)) MQTT_BUF_SIZE (conn_buffer c) n)"

lemma client_ok_cong:
  assumes "client_ok s ps" "msgQueue (client s') = msgQueue (client s)" "conn_buffer (mconn s') = conn_buffer (mconn s)"
    "buffer_length (mconn s') = buffer_length (mconn s)" "in_buffer (mstate s') = in_buffer (mstate s)" "ram s' = ram s"
    "dataBuffer s' = dataBuffer s"
  shows "client_ok s' ps"
  using assms by (simp add: client_ok_def Let_def buf_ok_def)

lemma queue_holds_frame:
  assumes "queue_holds q m ps" "\<And>a. p_o (q_rb q) \<le> a \<Longrightarrow> a < p_o (q_rb q) + nat (ring_size (q_rb q)) \<Longrightarrow> m' a = m a"
  shows "queue_holds q m' ps"
  using assms ringbuf_frame [of "q_rb q" m m'] by (auto simp: queue_holds_def)

lemma outside_same_dom: "outside q m p n \<Longrightarrow> (\<And>a. (m' a = None) = (m a = None)) \<Longrightarrow> outside q m' p n"
  by (rule outside_cong) (simp_all add: same_store_def)

lemma client_okD:
  assumes "client_ok s ps"
  shows "queue_holds (msgQueue (client s)) (ram s) ps" "ring_size (q_rb (msgQueue (client s))) < 2 ^ 15"
    "buf_ok (mconn s) (ram s)"
    "outside (msgQueue (client s)) (ram s) (conn_buffer (mconn s)) (unat (buffer_length (mconn s)))"
    "outside (msgQueue (client s)) (ram s) (dataBuffer s) MQTT_BUF_SIZE"
    "outside (msgQueue (client s)) (ram s) (in_buffer (mstate s)) MQTT_BUF_SIZE"
    "disjoint_ranges (dataBuffer s) MQTT_BUF_SIZE (conn_buffer (mconn s)) (unat (buffer_length (mconn s)))"
    "disjoint_ranges (in_buffer (mstate s)) MQTT_BUF_SIZE (conn_buffer (mconn s)) (unat (buffer_length (mconn s)))"
  using assms unfolding client_ok_def Let_def by blast+

text \<open>A builder keeps the queue.\<close>

lemma only_buffer_client_ok:
  assumes ok: "client_ok s ps" and k: "only_buffer (mconn s) (ram s) c m"
    and s': "msgQueue (client s') = msgQueue (client s)" "mconn s' = c" "ram s' = m"
      "in_buffer (mstate s') = in_buffer (mstate s)" "dataBuffer s' = dataBuffer s"
  shows "client_ok s' ps"
proof -
  let ?q = "msgQueue (client s)"
  have eq: "conn_buffer c = conn_buffer (mconn s)" "buffer_length c = buffer_length (mconn s)"
    "\<And>a. (m a = None) = (ram s a = None)"
    using k by (simp_all add: only_buffer_def)
  have d: "disjoint_ranges (p_o (q_rb ?q)) (nat (ring_size (q_rb ?q))) (conn_buffer (mconn s)) (unat (buffer_length (mconn s)))"
    and n: "0 < unat (buffer_length (mconn s))"
    using client_okD(3,4) [OF ok] by (simp_all add: outside_def buf_ok_def)
  have "m a = ram s a" if "p_o (q_rb ?q) \<le> a" "a < p_o (q_rb ?q) + nat (ring_size (q_rb ?q))" for a
    using that d n by (intro only_buffer_outside [OF k]) (auto simp: disjoint_ranges_def)
  then have q: "queue_holds ?q m ps" using queue_holds_frame [OF client_okD(1) [OF ok]] by blast
  have "buf_ok c m" using client_okD(3) [OF ok] eq by (simp add: buf_ok_def valid_range_iff)
  with q client_okD(2,7,8) [OF ok] client_okD(4-6) [OF ok, THEN outside_same_dom, OF eq(3)]
  show ?thesis unfolding client_ok_def Let_def s' eq(1,2) by blast
qed

lemma build_ok:
  assumes ok: "client_ok s ps" and b: "built (mconn s) (ram s) out (f (mconn s) (ram s))"
  shows "\<exists>c m. build f s = Some (set_state (\<lambda>t. t\<lparr>mqtt_conn := c, outbound_message := True\<rparr>) (s\<lparr>ram := m\<rparr>))
    \<and> client_ok (set_state (\<lambda>t. t\<lparr>mqtt_conn := c, outbound_message := True\<rparr>) (s\<lparr>ram := m\<rparr>)) ps
    \<and> message c m = out \<and> msg_inside c \<and> only_buffer (mconn s) (ram s) c m"
proof -
  obtain c m where r: "f (mconn s) (ram s) = Some (c, m)" "only_buffer (mconn s) (ram s) c m" "message c m = out" "msg_inside c"
    using b by (auto simp: built_def)
  have "client_ok (set_state (\<lambda>t. t\<lparr>mqtt_conn := c, outbound_message := True\<rparr>) (s\<lparr>ram := m\<rparr>)) ps"
    by (rule only_buffer_client_ok [OF ok r(2)]) (simp_all add: client_simps)
  with r show ?thesis by (intro exI [of _ c] exI [of _ m]) (simp add: build_def)
qed

lemma build_id_ok:
  assumes ok: "client_ok s ps"
    and b: "\<exists>i r. f (mconn s) (pending_msg_id (mstate s)) (ram s) = map_option (Pair i) r \<and> built (mconn s) (ram s) out r
      \<and> (fits \<longrightarrow> i = j)"
  shows "\<exists>s'. build_id f s = Some s' \<and> client_ok s' ps \<and> message (mconn s') (ram s') = out \<and> msg_inside (mconn s')
    \<and> log s' = log s \<and> client_addr s' = client_addr s \<and> msgQueue (client s') = msgQueue (client s)
    \<and> (fits \<longrightarrow> pending_msg_id (mstate s') = j)"
proof -
  obtain i c m where r: "f (mconn s) (pending_msg_id (mstate s)) (ram s) = Some (i, c, m)"
      "only_buffer (mconn s) (ram s) c m" "message c m = out" "msg_inside c" "fits \<longrightarrow> i = j"
    using b by (auto simp: built_def)
  let ?s = "set_state (\<lambda>t. t\<lparr>mqtt_conn := c, outbound_message := True, pending_msg_id := i\<rparr>) (s\<lparr>ram := m\<rparr>)"
  have "client_ok ?s ps" by (rule only_buffer_client_ok [OF ok r(2)]) (simp_all add: client_simps)
  with r show ?thesis by (intro exI [of _ ?s]) (simp add: build_id_def client_simps)
qed

section \<open>Queueing\<close>

text \<open>The message lies in the buffer, outside the queue and apart from the local buffer.\<close>

lemma message_outside:
  assumes "client_ok s ps" "msg_inside (mconn s)"
  shows "outside (msgQueue (client s)) (ram s) (msg_data (mconn s)) (unat (msg_length (mconn s)))"
    "disjoint_ranges (dataBuffer s) MQTT_BUF_SIZE (msg_data (mconn s)) (unat (msg_length (mconn s)))"
proof -
  let ?c = "mconn s" and ?n = "unat (msg_length (mconn s))"
  have o: "outside (msgQueue (client s)) (ram s) (conn_buffer ?c) (unat (buffer_length ?c))"
    and d: "disjoint_ranges (dataBuffer s) MQTT_BUF_SIZE (conn_buffer ?c) (unat (buffer_length ?c))"
    using assms(1) by (auto simp: client_ok_def Let_def)
  have i: "conn_buffer ?c \<le> msg_data ?c" "msg_data ?c + ?n \<le> conn_buffer ?c + unat (buffer_length ?c)"
    using assms(2) by (auto simp: msg_inside_def)
  then obtain j where j: "msg_data ?c = conn_buffer ?c + j" using le_Suc_ex by blast
  have "valid_range (ram s) (msg_data ?c) ?n"
    using valid_range_sub [of "ram s" "conn_buffer ?c" "unat (buffer_length ?c)" j ?n] o i j by (simp add: outside_def)
  then show "outside (msgQueue (client s)) (ram s) (msg_data ?c) ?n"
    using o i by (auto simp: outside_def disjoint_ranges_def)
  show "disjoint_ranges (dataBuffer s) MQTT_BUF_SIZE (msg_data ?c) ?n"
    using d i by (auto simp: disjoint_ranges_def)
qed

lemma unat_buf_size [simp]: "unat (of_nat MQTT_BUF_SIZE :: u16) = MQTT_BUF_SIZE"
  by (simp add: MQTT_BUF_SIZE_def)

lemma kept_client_ok:
  assumes ok: "client_ok s ps0" and h: "queue_holds q m ps" and st: "same_store (q_rb (msgQueue (client s))) (q_rb q)"
    and dom: "\<And>a. (m a = None) = (ram s a = None)"
    and s': "msgQueue (client s') = q" "mconn s' = mconn s" "ram s' = m"
      "in_buffer (mstate s') = in_buffer (mstate s)" "dataBuffer s' = dataBuffer s"
  shows "client_ok s' ps"
proof -
  have "outside q m p n" if "outside (msgQueue (client s)) (ram s) p n" for p n
    using that by (rule outside_cong) (use st dom in auto)
  moreover have "ring_size (q_rb q) = ring_size (q_rb (msgQueue (client s)))" using st by (simp add: same_store_def)
  moreover have "buf_ok (mconn s) m" using client_okD(3) [OF ok] dom by (simp add: buf_ok_def valid_range_iff)
  ultimately show ?thesis using h client_okD(2,4-8) [OF ok] unfolding client_ok_def Let_def s' by simp
qed

lemma enqueue_result:
  assumes ok: "client_ok s ps" and i: "msg_inside (mconn s)"
  shows "\<exists>b s'. enqueue s = Some (b, s') \<and> log s' = log s @ (if b then [posted s] else [])
    \<and> (if b then \<exists>k\<le>length ps. client_ok s' (drop k ps @ [message (mconn s) (ram s)]) else client_ok s' [])"
proof -
  let ?a = "(msg_data (mconn s), msg_length (mconn s))" and ?d = "(stk s, stk_c s, dataBuffer s, stk_len s, of_nat MQTT_BUF_SIZE :: u16)"
    and ?q = "(msgQueue (client s), ram s)"
  have pre: "pq_holds ?q ps" "pq_src ?a ?q" "pq_dst ?a ?d ?q"
    using client_okD(1,2,5) [OF ok] message_outside [OF ok i] by (simp_all add: pq_defs)
  obtain b q m where r: "queue_loop (pq_puts ?a) (pq_gets ?d) ?q = Some (b, (q, m))" "pq_kept ?d ?q (q, m)"
      "if b then \<exists>k\<le>length ps. pq_holds (q, m) (drop k ps @ [pq_payload ?a ?q]) else pq_holds (q, m) []"
    using pq.queue_loop_result [OF pre] by (metis surj_pair)
  let ?s = "set_client (\<lambda>c. c\<lparr>msgQueue := q\<rparr>) (s\<lparr>ram := m\<rparr>)"
  have keep: "client_ok s' xs" if "pq_holds (q, m) xs" "s' = ?s \<or> s' = post_task ?s" for s' xs
    using that r(2) by (intro kept_client_ok [OF ok, of q m xs]) (auto simp: pq_defs client_simps)
  have "enqueue s = Some (if b then (True, post_task ?s) else (False, ?s))"
    using r(1) by (simp add: enqueue_def Let_def)
  moreover have "pq_payload ?a ?q = message (mconn s) (ram s)" by (simp add: pq_payload_def message_def)
  ultimately show ?thesis
    using r(3) keep by (cases b) (auto simp: client_simps posted_def)
qed

text \<open>With room in the ring nothing is dropped.\<close>

lemma queue_put_result:
  assumes ok: "client_ok s ps" and i: "msg_inside (mconn s)"
  defines "pkt \<equiv> message (mconn s) (ram s)"
  shows "\<exists>r q m. QUEUE_Puts (msgQueue (client s)) (msg_data (mconn s)) (msg_length (mconn s)) (ram s) = Some (r, q, m)
    \<and> (r \<noteq> -1) = (length (frame pkt) \<le> ring_free (q_rb (msgQueue (client s))) (ram s))
    \<and> client_ok (set_client (\<lambda>c. c\<lparr>msgQueue := q\<rparr>) (s\<lparr>ram := m\<rparr>)) (if r = -1 then ps else ps @ [pkt])
    \<and> (\<forall>a. a < p_o (q_rb (msgQueue (client s))) \<or> p_o (q_rb (msgQueue (client s))) + nat (ring_size (q_rb (msgQueue (client s)))) \<le> a
        \<longrightarrow> m a = ram s a)"
proof -
  let ?q = "msgQueue (client s)" and ?c = "mconn s"
  let ?fits = "length (frame pkt) \<le> ring_free (q_rb ?q) (ram s)"
  have pkt: "pkt = bytes_at (ram s) (msg_data ?c) (unat (msg_length ?c))" by (simp add: pkt_def message_def)
  obtain q m where p: "QUEUE_Puts ?q (msg_data ?c) (msg_length ?c) (ram s) =
        Some (if ?fits then sint (of_nat (length (frame pkt)) :: u16) else -1, q, m)"
      "queue_holds q m (if ?fits then ps @ [pkt] else ps)" "grows (q_rb ?q) (ram s) (take (ring_free (q_rb ?q) (ram s)) (frame pkt)) (q_rb q) m"
    using queue_puts [OF client_okD(1) [OF ok] message_outside(1) [OF ok i]] unfolding pkt by blast
  have "sint (of_nat (length (frame pkt)) :: u16) = int (length (frame pkt))" if ?fits
    using that client_okD(2) [OF ok] by (intro sint_of_nat_u16) (simp add: ring_free_def)
  then have r: "((if ?fits then sint (of_nat (length (frame pkt)) :: u16) else -1) \<noteq> -1) = ?fits" by simp
  have "client_ok (set_client (\<lambda>c. c\<lparr>msgQueue := q\<rparr>) (s\<lparr>ram := m\<rparr>)) (if ?fits then ps @ [pkt] else ps)"
    using p(2,3) by (intro kept_client_ok [OF ok]) (auto simp: client_simps grows_def)
  then show ?thesis
    using p(1) r grows_outside [OF p(3)]
    by (intro exI [of _ "if ?fits then sint (of_nat (length (frame pkt)) :: u16) else -1"] exI [of _ q] exI [of _ m]) auto
qed

lemma enqueue_room:
  assumes ok: "client_ok s ps" and i: "msg_inside (mconn s)"
    and room: "length (frame (message (mconn s) (ram s))) \<le> ring_free (q_rb (msgQueue (client s))) (ram s)"
  shows "\<exists>s'. enqueue s = Some (True, s') \<and> client_ok s' (ps @ [message (mconn s) (ram s)])"
proof -
  obtain r q m where p: "QUEUE_Puts (msgQueue (client s)) (msg_data (mconn s)) (msg_length (mconn s)) (ram s) = Some (r, q, m)"
      "r \<noteq> -1" "client_ok (set_client (\<lambda>c. c\<lparr>msgQueue := q\<rparr>) (s\<lparr>ram := m\<rparr>)) (ps @ [message (mconn s) (ram s)])"
    using queue_put_result [OF ok i] room by auto
  let ?s = "post_task (set_client (\<lambda>c. c\<lparr>msgQueue := q\<rparr>) (s\<lparr>ram := m\<rparr>))"
  have "queue_loop (pq_puts (msg_data (mconn s), msg_length (mconn s))) g (msgQueue (client s), ram s) = Some (True, (q, m))" for g
    using p(1,2) by (subst queue_loop.simps) (simp add: pq_puts_def)
  then have "enqueue s = Some (True, ?s)" by (simp add: enqueue_def Let_def)
  moreover have "client_ok ?s (ps @ [message (mconn s) (ram s)])" by (rule client_ok_cong [OF p(3)]) (simp_all add: client_simps)
  ultimately show ?thesis by blast
qed

section \<open>A concrete client\<close>

text \<open>The message buffer at 100, the ring at 1000, the receive buffer at 2000 and the local buffer at 4000; the
  string \<^verbatim>\<open>ab\<close> at 10.\<close>

definition demo_ram :: mem where
  "demo_ram a = (if 0 < a \<and> a < 6000 then Some (if a = 10 then 0x61 else if a = 11 then 0x62 else if a = 20 then 7 else 0) else None)"

definition demo_client :: mqtt_soc where
  "demo_client = \<lparr>regs = (\<lambda>a. 0), dev = (\<lambda>n r. r), sdk_ret = (\<lambda>n q. 0), junk = (\<lambda>n a. 0), clk = 0, log = [],
     ram = demo_ram, blocks = (\<lambda>a. None),
     client = zero_client\<lparr>mqtt_state := (mqtt_state zero_client)\<lparr>mqtt_conn := mqtt_msg_init 100 64, in_buffer := 2000,
         in_buffer_length := 1024, has_connect_info := True\<rparr>,
       connState := MQTT_DATA,
       msgQueue := \<lparr>q_buf = 1000, q_rb = \<lparr>p_o = 1000, p_r = 1000, p_w = 1000, fill_cnt = 0, ring_size = 256\<rparr>\<rparr>\<rparr>,
     client_addr = 1, cons = (\<lambda>a. None), tcps = (\<lambda>a. None), dataBuffer = 4000,
     stk = demo_parser, stk_c = 0, stk_len = 0, flash = (\<lambda>a. 0xFF), sysCfg = 5000, saveFlag = 5400, lit = (\<lambda>str. 5500),
     wifiCb = None, wifiStatus = 0, lastWifiStatus = 0\<rparr>"

lemma demo_client_sel [simp]:
  "mconn demo_client = mqtt_msg_init 100 64" "ram demo_client = demo_ram" "in_buffer (mstate demo_client) = 2000"
  "msgQueue (client demo_client) = \<lparr>q_buf = 1000, q_rb = \<lparr>p_o = 1000, p_r = 1000, p_w = 1000, fill_cnt = 0, ring_size = 256\<rparr>\<rparr>"
  "dataBuffer demo_client = 4000" "log demo_client = []" "connState (client demo_client) = MQTT_DATA"
  "in_buffer_length (mstate demo_client) = 1024" "dataCb (client demo_client) = None"
  by (simp_all add: demo_client_def zero_client_def)

lemma demo_client_ok: "client_ok demo_client []"
  by (simp add: client_ok_def Let_def queue_holds_def ringbuf_inv_def ringbuf_bytes_def slot_def frames.torn demo_ram_def
      buf_ok_def outside_def valid_range_iff disjoint_ranges_def MQTT_BUF_SIZE_def mqtt_msg_init_def)

lemma demo_client_args:
  "arg (mconn demo_client) (ram demo_client) 10 [0x61, 0x62]" "apart (mconn demo_client) 20 n \<longleftrightarrow> n \<le> 80"
  "n \<le> 80 \<Longrightarrow> valid_range (ram demo_client) 20 n"
  by (auto simp: arg_def apart_def c_string_def disjoint_ranges_def valid_range_iff demo_ram_def mqtt_msg_init_def)

section \<open>Properties\<close>

text \<open>C5. Publishing always returns. Either the result is TRUE: the packet of the message is the newest in the queue,
  behind the packets that were there less the oldest ones dropped to make room, none when its frame fits the free
  space, and the task is posted. Or the result is FALSE and nothing is posted: the message does not fit the
  message buffer and the queue is unchanged, or the queue has been emptied without making room.\<close>

theorem MQTT_Publish_queues:
  fixes qos retain :: int
  assumes ok: "client_ok s ps" and t: "arg (mconn s) (ram s) tp t" "t \<noteq> []"
    and d: "valid_range (ram s) dp n" "apart (mconn s) dp n"
    and pkt: "body = publish_body t qos (next_id (mconn s)) (bytes_at (ram s) dp n)"
      "pkt = packet MQTT_MSG_TYPE_PUBLISH qos retain body"
  shows "\<exists>b s'. MQTT_Publish tp dp (int n) qos retain s = Some (b, s')
    \<and> (if b then fit (mconn s) body \<and> log s' = log s @ [posted s] \<and> (\<exists>k\<le>length ps. client_ok s' (drop k ps @ [pkt]))
       else log s' = log s \<and> client_ok s' (if fit (mconn s) body then [] else ps))
    \<and> (fit (mconn s) body \<and> length (frame pkt) \<le> ring_free (q_rb (msgQueue (client s))) (ram s)
        \<longrightarrow> b \<and> client_ok s' (ps @ [pkt]))"
proof -
  let ?f = "\<lambda>c i m. mqtt_msg_publish c tp dp (int n) qos retain i m" and ?fits = "fit (mconn s) body"
  obtain s1 where s1: "build_id ?f s = Some s1" "client_ok s1 ps" "message (mconn s1) (ram s1) = (if ?fits then pkt else [])"
      "msg_inside (mconn s1)" "log s1 = log s" "client_addr s1 = client_addr s" "msgQueue (client s1) = msgQueue (client s)"
    using build_id_ok [of s ps ?f, OF ok publish_built [OF client_okD(3) [OF ok] t d, of qos retain]] unfolding pkt by blast
  have len: "(msg_length (mconn s1) = 0) = (\<not> ?fits)"
    using arg_cong [OF s1(3), of length] unfolding pkt(2)
    by (simp add: message_def packet_def unat_eq_zero split: if_splits) (metis unat_0 nat.distinct(1))+
  show ?thesis
  proof (cases ?fits)
    case False
    then show ?thesis using s1(1,2,5) len by (intro exI [of _ False] exI [of _ s1]) (simp add: MQTT_Publish_def)
  next
    case True
    have e: "MQTT_Publish tp dp (int n) qos retain s = enqueue s1" using s1(1) len True by (simp add: MQTT_Publish_def)
    have m1: "message (mconn s1) (ram s1) = pkt" using s1(3) True by simp
    have q1: "ring_free (q_rb (msgQueue (client s1))) (ram s1) = ring_free (q_rb (msgQueue (client s))) (ram s)"
      using s1(7) by (simp add: ring_free_def)
    obtain b s' where r: "enqueue s1 = Some (b, s')" "log s' = log s @ (if b then [posted s] else [])"
        "if b then \<exists>k\<le>length ps. client_ok s' (drop k ps @ [pkt]) else client_ok s' []"
      using enqueue_result [OF s1(2,4)] unfolding m1 s1(5) posted_def s1(6) by blast
    have "b \<and> client_ok s' (ps @ [pkt])" if "length (frame pkt) \<le> ring_free (q_rb (msgQueue (client s))) (ram s)"
      using enqueue_room [OF s1(2,4)] that r(1) unfolding m1 q1 by auto
    then show ?thesis using e r True by (intro exI [of _ b] exI [of _ s']) (cases b; auto)
  qed
qed

theorem MQTT_Publish_queues_witness:
  "\<exists>s. MQTT_Publish 10 20 (int 3) 1 0 demo_client = Some (True, s) \<and>
     client_ok s [packet MQTT_MSG_TYPE_PUBLISH 1 0 [0, 2, 0x61, 0x62, 0, 1, 7, 0, 0]]"
proof -
  let ?b = "[0, 2, 0x61, 0x62, 0, 1, 7, 0, 0] :: u8 list"
  have "next_id (mconn demo_client) = 1"
    by (simp add: next_id_def mqtt_msg_init_def fresh_id.simps [of 0] fresh_id.simps [of 1])
  then have b: "?b = publish_body [0x61, 0x62] 1 (next_id (mconn demo_client)) (bytes_at (ram demo_client) 20 3)"
    by (simp add: publish_body_def str16_def id16_def bytes_at_def upt_rec demo_ram_def)
  have "fit (mconn demo_client) ?b" by (simp add: fit_def mqtt_msg_init_def)
  moreover have "length (frame (packet MQTT_MSG_TYPE_PUBLISH 1 0 ?b)) \<le> ring_free (q_rb (msgQueue (client demo_client))) (ram demo_client)"
    by (simp add: ring_free_def frame_def packet_def remaining_def fixed_header_def esc_def)
  ultimately show ?thesis
    using MQTT_Publish_queues [OF demo_client_ok demo_client_args(1) _ _ _ b refl, of 0] demo_client_args(2,3) by auto
qed

end
