(* ===== verification/Mqtt_Recv.thy ===== *)
theory Mqtt_Recv
  imports Mqtt_Client_Proofs
begin

text \<open>
  What the MQTT client does with received data: a publish packet is acknowledged and delivered; the loop over a packet whose
  length is a multiple of 65536 has no end when no data callback stops it.
\<close>

section \<open>Into the receive buffer\<close>

lemma load_packet:
  assumes ok: "client_ok s ps" and P: "str_at (ram s) pdata P" and n: "length P = unat n" "unat n < MQTT_BUF_SIZE"
    and d: "disjoint_ranges (in_buffer (mstate s)) MQTT_BUF_SIZE pdata (unat n)"
  shows "\<exists>m. os_memcpy (in_buffer (mstate s)) pdata (unat n) s = Some (s\<lparr>ram := m\<rparr>) \<and> client_ok (s\<lparr>ram := m\<rparr>) ps
    \<and> str_at m (in_buffer (mstate s)) P
    \<and> (\<forall>a. a < in_buffer (mstate s) \<or> in_buffer (mstate s) + unat n \<le> a \<longrightarrow> m a = ram s a)
    \<and> (\<forall>a. (m a = None) = (ram s a = None))"
proof -
  let ?b = "in_buffer (mstate s)" and ?q = "msgQueue (client s)"
  have o: "outside ?q (ram s) ?b MQTT_BUF_SIZE" using client_okD(6) [OF ok] .
  have vb: "valid_range (ram s) ?b (unat n)"
    using o n(2) valid_range_sub [of "ram s" ?b MQTT_BUF_SIZE 0 "unat n"] by (simp add: outside_def)
  have vp: "valid_range (ram s) pdata (unat n)" using str_at_valid [OF P] n(1) by simp
  have "disjoint_ranges ?b (unat n) pdata (unat n)" using d n(2) by (auto simp: disjoint_ranges_def)
  then obtain m where m: "memcpy ?b pdata (unat n) (ram s) = Some m" using memcpy_Some vb vp by blast
  have "m a = ram s a" if "p_o (q_rb ?q) \<le> a" "a < p_o (q_rb ?q) + nat (ring_size (q_rb ?q))" for a
    using that o n(2) by (intro memcpy_frame [OF m]) (auto simp: outside_def disjoint_ranges_def MQTT_BUF_SIZE_def)
  then have "queue_holds ?q m ps" using queue_holds_frame [OF client_okD(1) [OF ok]] by blast
  then have "client_ok (s\<lparr>ram := m\<rparr>) ps"
    by (rule kept_client_ok [OF ok]) (simp_all add: memcpy_defined [OF m])
  moreover have "bytes_at m ?b (unat n) = P"
    using bytes_at_memcpy_dst [OF m] str_at_bytes [OF P] n(1) by simp
  then have "str_at m ?b P" using vb n(1) by (intro str_at_of_bytes) (simp_all add: valid_range_memcpy [OF m])
  ultimately show ?thesis using m memcpy_frame [OF m] memcpy_defined [OF m] by (auto simp: os_memcpy_def)
qed

section \<open>Responses\<close>

lemma fresh_id_given: "i \<noteq> 0 \<Longrightarrow> fresh_id i c = (i, c)"
  by (simp add: fresh_id.simps)

text \<open>What is in the receive buffer stays while a response is built and queued.\<close>

lemma respond_ok:
  assumes ok: "client_ok s ps" and b: "built (mconn s) (ram s) out (f (mconn s) (ram s))"
  shows "\<exists>s'. respond f s = Some s'
    \<and> client_ok s' (if length (frame out) \<le> ring_free (q_rb (msgQueue (client s))) (ram s) then ps @ [out] else ps)
    \<and> (\<forall>P. str_at (ram s) (in_buffer (mstate s)) P \<and> length P \<le> MQTT_BUF_SIZE \<longrightarrow> str_at (ram s') (in_buffer (mstate s')) P)
    \<and> log s' = log s \<and> client_addr s' = client_addr s \<and> sdk_ret s' = sdk_ret s \<and> clk s' = clk s
    \<and> (\<exists>c q. client s' = (client s)\<lparr>mqtt_state := (mstate s)\<lparr>mqtt_conn := c, outbound_message := True\<rparr>, msgQueue := q\<rparr>)"
proof -
  let ?q = "msgQueue (client s)"
  obtain c m where 1: "build f s = Some (set_state (\<lambda>t. t\<lparr>mqtt_conn := c, outbound_message := True\<rparr>) (s\<lparr>ram := m\<rparr>))"
      "client_ok (set_state (\<lambda>t. t\<lparr>mqtt_conn := c, outbound_message := True\<rparr>) (s\<lparr>ram := m\<rparr>)) ps"
      "message c m = out" "msg_inside c" "only_buffer (mconn s) (ram s) c m"
    using build_ok [of s ps out f, OF ok b] by blast
  let ?s1 = "set_state (\<lambda>t. t\<lparr>mqtt_conn := c, outbound_message := True\<rparr>) (s\<lparr>ram := m\<rparr>)"
  have s1: "mconn ?s1 = c" "ram ?s1 = m" "msgQueue (client ?s1) = ?q" by (simp_all add: client_simps)
  obtain r q m' where 2: "QUEUE_Puts ?q (msg_data c) (msg_length c) m = Some (r, q, m')"
      "(r \<noteq> -1) = (length (frame out) \<le> ring_free (q_rb ?q) m)"
      "client_ok (set_client (\<lambda>c. c\<lparr>msgQueue := q\<rparr>) (?s1\<lparr>ram := m'\<rparr>)) (if r = -1 then ps else ps @ [out])"
      "\<And>a. a < p_o (q_rb ?q) \<or> p_o (q_rb ?q) + nat (ring_size (q_rb ?q)) \<le> a \<Longrightarrow> m' a = m a"
    using queue_put_result [OF 1(2), unfolded s1, OF 1(4), unfolded 1(3)] by blast
  let ?s2 = "set_client (\<lambda>c. c\<lparr>msgQueue := q\<rparr>) (?s1\<lparr>ram := m'\<rparr>)"
  have "respond f s = Some ?s2" using 1(1) 2(1) by (simp add: respond_def queue_put_def s1)
  moreover have "ring_free (q_rb ?q) m = ring_free (q_rb ?q) (ram s)" by (simp add: ring_free_def)
  moreover have "str_at m' (in_buffer (mstate s)) P" if "str_at (ram s) (in_buffer (mstate s)) P" "length P \<le> MQTT_BUF_SIZE" for P
  proof -
    have "m' (in_buffer (mstate s) + j) = ram s (in_buffer (mstate s) + j)" if "j < MQTT_BUF_SIZE" for j
    proof -
      have dq: "disjoint_ranges (p_o (q_rb ?q)) (nat (ring_size (q_rb ?q))) (in_buffer (mstate s)) MQTT_BUF_SIZE"
        using client_okD(6) [OF ok] by (simp add: outside_def)
      have "m' (in_buffer (mstate s) + j) = m (in_buffer (mstate s) + j)"
        using dq that by (intro 2(4)) (auto simp: disjoint_ranges_def)
      also have "\<dots> = ram s (in_buffer (mstate s) + j)"
        using client_okD(8) [OF ok] that by (intro only_buffer_outside [OF 1(5)]) (auto simp: disjoint_ranges_def)
      finally show ?thesis .
    qed
    with that show ?thesis unfolding str_at_def by (metis less_le_trans)
  qed
  moreover have "client_ok ?s2 (if length (frame out) \<le> ring_free (q_rb ?q) m then ps @ [out] else ps)"
    using 2(2,3) by (cases "r = -1") simp_all
  moreover have "client ?s2 = (client s)\<lparr>mqtt_state := (mstate s)\<lparr>mqtt_conn := c, outbound_message := True\<rparr>, msgQueue := q\<rparr>"
    "log ?s2 = log s" "client_addr ?s2 = client_addr s" "sdk_ret ?s2 = sdk_ret s" "clk ?s2 = clk s" "ram ?s2 = m'" "in_buffer (mstate ?s2) = in_buffer (mstate s)"
    by (simp_all add: client_simps)
  ultimately show ?thesis by (intro exI [of _ ?s2] conjI) metis+
qed

definition publish_ack :: "int \<Rightarrow> u16 \<Rightarrow> u8 list list" where
  "publish_ack qos i = (if qos = 1 then [packet MQTT_MSG_TYPE_PUBACK 0 0 (id16 i)]
     else if qos = 2 then [packet MQTT_MSG_TYPE_PUBREC 0 0 (id16 i)] else [])"

text \<open>The response to a publish packet.\<close>

lemma ack_ok:
  fixes qos :: int
  assumes ok: "client_ok s ps" and i: "0 < qos \<Longrightarrow> i \<noteq> 0" and room: "5 \<le> unat (buffer_length (mconn s))"
  defines "acks \<equiv> filter (\<lambda>r. length (frame r) \<le> ring_free (q_rb (msgQueue (client s))) (ram s)) (publish_ack qos i)"
  shows "\<exists>s'. (if qos = 1 then respond (\<lambda>c m. mqtt_msg_puback c i m) s
               else if qos = 2 then respond (\<lambda>c m. mqtt_msg_pubrec c i m) s else Some s) = Some s'
    \<and> client_ok s' (ps @ acks)
    \<and> (\<forall>P. str_at (ram s) (in_buffer (mstate s)) P \<and> length P \<le> MQTT_BUF_SIZE \<longrightarrow> str_at (ram s') (in_buffer (mstate s')) P)
    \<and> log s' = log s \<and> client_addr s' = client_addr s \<and> sdk_ret s' = sdk_ret s \<and> clk s' = clk s \<and> dataCb (client s') = dataCb (client s)
    \<and> in_buffer (mstate s') = in_buffer (mstate s)
    \<and> message_length (mstate s') = message_length (mstate s) \<and> message_length_read (mstate s') = message_length_read (mstate s)"
proof -
  have b: "built (mconn s) (ram s) (packet ty 0 0 (id16 i)) (id_message ty 0 (mconn s) i (ram s))" if "0 < qos" for ty
    using id_message_built [OF client_okD(3) [OF ok], of i ty 0] i [OF that] room by (simp add: fresh_id_given fit_def Let_def)
  consider "qos = 1" | "qos = 2" | "qos \<noteq> 1" "qos \<noteq> 2" by blast
  then show ?thesis
  proof cases
    case 1
    from respond_ok [of s ps _ "\<lambda>c m. mqtt_msg_puback c i m", OF ok] b [of MQTT_MSG_TYPE_PUBACK] 1 show ?thesis
      by (fastforce simp: acks_def publish_ack_def mqtt_msg_puback_def)
  next
    case 2
    from respond_ok [of s ps _ "\<lambda>c m. mqtt_msg_pubrec c i m", OF ok] b [of MQTT_MSG_TYPE_PUBREC] 2 show ?thesis
      by (fastforce simp: acks_def publish_ack_def mqtt_msg_pubrec_def)
  next
    case 3
    then show ?thesis using ok by (simp add: acks_def publish_ack_def)
  qed
qed

lemma packet_length: "length (packet ty qos retain body) = header_length body + length body"
  by (simp add: packet_def header_length_def)

lemma recv_publish_packet:
  fixes qos retain :: int
  assumes ok: "client_ok s ps" and st: "connState (client s) \<in> {MQTT_DATA, MQTT_KEEPALIVE_SEND}"
    and bl: "in_buffer_length (mstate s) = int MQTT_BUF_SIZE" "5 \<le> unat (buffer_length (mconn s))"
    and P: "str_at (ram s) pdata (packet MQTT_MSG_TYPE_PUBLISH qos retain body)"
    and body: "body = publish_body t qos i data" "data \<noteq> []" "qos \<in> {0, 1, 2}" "retain \<in> {0, 1}" "0 < qos \<Longrightarrow> i \<noteq> 0"
    and n: "unat n = header_length body + length body" "unat n < MQTT_BUF_SIZE"
    and d: "disjoint_ranges (in_buffer (mstate s)) MQTT_BUF_SIZE pdata (unat n)"
  defines "tp \<equiv> in_buffer (mstate s) + header_length body + 2"
    and "dp \<equiv> in_buffer (mstate s) + header_length body + 2 + length t + (if 0 < qos then 2 else 0)"
  shows "\<exists>s1. client_ok s1 (ps @ filter (\<lambda>r. length (frame r) \<le> ring_free (q_rb (msgQueue (client s))) (ram s)) (publish_ack qos i))
    \<and> str_at (ram s1) tp t \<and> str_at (ram s1) dp data
    \<and> message_length (mstate s1) = n \<and> message_length_read (mstate s1) = n
    \<and> log s1 = log s \<and> client_addr s1 = client_addr s \<and> sdk_ret s1 = sdk_ret s \<and> clk s1 = clk s
    \<and> recv_packet app pdata n s =
        do { s2 \<leftarrow> (case dataCb (client s) of None \<Rightarrow> Some s1
                   | Some f \<Rightarrow> on_data app f tp (of_nat (length t)) dp (of_nat (length data)) s1);
             Some (if message_length (mstate s2) < message_length_read (mstate s2)
                   then Some (pdata + unat (message_length (mstate s2)), message_length_read (mstate s2) - message_length (mstate s2))
                   else None, s2) }"
proof -
  let ?P = "packet MQTT_MSG_TYPE_PUBLISH qos retain body" and ?b = "in_buffer (mstate s)"
  have lP: "length ?P = unat n" using n(1) by (simp add: packet_length)
  have lb: "length body < 16384" using n by (simp add: MQTT_BUF_SIZE_def)
  have nz: "0 < n" using n(1) by (simp add: word_less_nat_alt header_length_def)
  obtain m where m: "os_memcpy ?b pdata (unat n) s = Some (s\<lparr>ram := m\<rparr>)" "client_ok (s\<lparr>ram := m\<rparr>) ps" "str_at m ?b ?P"
    using load_packet [OF ok P lP n(2) d] by blast
  note p = publish_parse [OF m(3) body(1) n(1) body(3,4) lb body(2)]
  have "unat (word_of_int (int MQTT_BUF_SIZE) :: u16) = MQTT_BUF_SIZE" by (simp add: MQTT_BUF_SIZE_def)
  then have mid: "mqtt_get_id ?b (word_of_int (in_buffer_length (mstate s))) m = Some (if 0 < qos then i else 0)"
    using n by (intro publish_parse_id [OF m(3) body(1) _ body(3,4) lb body(2)]) (simp add: bl)
  have h: "m ?b = Some (fixed_header (type_val MQTT_MSG_TYPE_PUBLISH) 0 qos retain)" using m(3) by (simp add: packet_def)
  note f = publish_fixed_header [of qos retain m ?b, OF body(3,4) h]
  let ?s1 = "set_state (\<lambda>t. t\<lparr>message_length := n\<rparr>) (set_state (\<lambda>t. t\<lparr>message_length_read := n\<rparr>) (s\<lparr>ram := m\<rparr>))"
  let ?i = "if 0 < qos then i else 0"
  have ok1: "client_ok ?s1 ps" by (rule client_ok_cong [OF m(2)]) (simp_all add: client_simps)
  have "publish_ack qos ?i = publish_ack qos i" by (simp add: publish_ack_def)
  moreover have "ring_free (q_rb (msgQueue (client ?s1))) (ram ?s1) = ring_free (q_rb (msgQueue (client s))) (ram s)"
    by (simp add: client_simps ring_free_def)
  moreover have "5 \<le> unat (buffer_length (mconn ?s1))" using bl(2) by (simp add: client_simps)
  ultimately obtain s2 where s2: "(if qos = 1 then respond (\<lambda>c m. mqtt_msg_puback c ?i m) ?s1
               else if qos = 2 then respond (\<lambda>c m. mqtt_msg_pubrec c ?i m) ?s1 else Some ?s1) = Some s2"
      "client_ok s2 (ps @ filter (\<lambda>r. length (frame r) \<le> ring_free (q_rb (msgQueue (client s))) (ram s)) (publish_ack qos i))"
      "str_at (ram s2) ?b ?P" "log s2 = log s" "client_addr s2 = client_addr s" "sdk_ret s2 = sdk_ret s" "clk s2 = clk s" "dataCb (client s2) = dataCb (client s)"
      "in_buffer (mstate s2) = ?b" "message_length (mstate s2) = n" "message_length_read (mstate s2) = n"
    using ack_ok [OF ok1, of qos ?i] body(5) m(3) lP n(2) by (auto simp: client_simps)
  note p2 = publish_parse [OF s2(3) body(1) n(1) body(3,4) lb body(2)]
  let ?tp = "?b + header_length body + 2" and ?dp = "?b + header_length body + 2 + length t + (if 0 < qos then 2 else 0)"
  have ptrs: "tp = ?tp" "dp = ?dp" by (simp_all add: tp_def dp_def)
  have sb: "str_at (ram s2) (?b + header_length body) body" using s2(3) by (simp add: packet_def header_length_def)
  have "str_at (ram s2) ?tp t"
    using sb by (simp add: body(1) publish_body_def str16_def)
  moreover have "str_at (ram s2) ?dp data"
    using sb by (auto simp: body(1) publish_body_def add.assoc split: if_splits)
  moreover have "deliver_publish app ?b n s2 = (case dataCb (client s) of None \<Rightarrow> Some s2
        | Some g \<Rightarrow> on_data app g ?tp (of_nat (length t)) ?dp (of_nat (length data)) s2)"
    using p2(2,3) s2(8) by (simp add: deliver_publish_def split: option.split)
  then have "recv_data app (type_val MQTT_MSG_TYPE_PUBLISH) qos ?i ?s1 = (case dataCb (client s) of None \<Rightarrow> Some s2
        | Some g \<Rightarrow> on_data app g ?tp (of_nat (length t)) ?dp (of_nat (length data)) s2)"
    unfolding recv_data_def using s2(1,9,11) by simp
  then have "recv_packet app pdata n s =
        do { s2 \<leftarrow> (case dataCb (client s) of None \<Rightarrow> Some s2
                   | Some f \<Rightarrow> on_data app f ?tp (of_nat (length t)) ?dp (of_nat (length data)) s2);
             Some (if message_length (mstate s2) < message_length_read (mstate s2)
                   then Some (pdata + unat (message_length (mstate s2)), message_length_read (mstate s2) - message_length (mstate s2))
                   else None, s2) }"
  proof -
    have c: "connState (client s) \<noteq> MQTT_CONNECT_SENDING" "connState (client s) = MQTT_DATA \<or> connState (client s) = MQTT_KEEPALIVE_SEND"
      using st by auto
    assume r: "recv_data app (type_val MQTT_MSG_TYPE_PUBLISH) qos ?i ?s1 = (case dataCb (client s) of None \<Rightarrow> Some s2
        | Some g \<Rightarrow> on_data app g ?tp (of_nat (length t)) ?dp (of_nat (length data)) s2)"
    have tot: "(word_of_int (int (unat n)) :: u16) = n" by simp
    show ?thesis
      unfolding recv_packet_def r [symmetric]
      using n(2) nz m(1) c f(1,3) mid p(1) by (simp only: Let_def Option.bind.simps) (simp add: client_simps del: type_val.simps)
  qed
  ultimately show ?thesis unfolding ptrs using s2(2,4-7,10,11) by blast
qed

section \<open>A packet that never ends\<close>

text \<open>The header of a publish packet with the remaining length 65532: with its four bytes the packet has 65536, and
  \<^verbatim>\<open>message_length\<close>, which has 16 bits, is 0.\<close>

definition zero_length_header :: "u8 list" where
  "zero_length_header = [0x30, 0xFC, 0xFF, 0x03]"

text \<open>The packet at \<open>pdata\<close>, for a connected client with the data callback \<open>cb\<close>. Nothing can be read at the null address.\<close>

definition stuck :: "callback option \<Rightarrow> ptr \<Rightarrow> mqtt_soc \<Rightarrow> bool" where
  "stuck cb pdata s \<longleftrightarrow> (\<exists>ps. client_ok s ps) \<and> connState (client s) = MQTT_DATA \<and> dataCb (client s) = cb
     \<and> in_buffer_length (mstate s) = int MQTT_BUF_SIZE \<and> str_at (ram s) pdata zero_length_header
     \<and> disjoint_ranges (in_buffer (mstate s)) MQTT_BUF_SIZE pdata 4 \<and> ram s NULL = None"

lemma zero_length_parse:
  assumes P: "str_at m b zero_length_header" and v: "valid_range m b MQTT_BUF_SIZE"
  shows "mqtt_get_type b m = Some 3" "mqtt_get_qos b m = Some 0" "mqtt_get_total_length b 4 m = Some 65536"
    "mqtt_get_publish_topic b 4 m = Some (NULL, 4)" "mqtt_get_publish_data b 4 m = Some (NULL, 0)"
    "\<exists>i. mqtt_get_id b 1024 m = Some i"
proof -
  have b: "m b = Some 0x30" "m (Suc b) = Some 0xFC" "m (Suc (Suc b)) = Some 0xFF" "m (Suc (Suc (Suc b))) = Some 0x03"
    using P by (simp_all add: zero_length_header_def)
  show ty: "mqtt_get_type b m = Some 3" and qos: "mqtt_get_qos b m = Some 0"
    using b by (simp_all add: mqtt_get_type_def mqtt_get_qos_def)
  have l: "length_loop b 1 3 0 m = Some (4, 65532)"
  proof -
    have "length_loop b (Suc 0) (Suc (Suc (Suc 0))) 0 m = Some (Suc (Suc (Suc (Suc 0))), 65532)"
      using b by (simp add: Let_def)
    then show ?thesis by (simp add: eval_nat_numeral)
  qed
  then show "mqtt_get_total_length b 4 m = Some 65536" "mqtt_get_publish_topic b 4 m = Some (NULL, 4)"
      "mqtt_get_publish_data b 4 m = Some (NULL, 0)"
    by (simp_all add: mqtt_get_total_length_def mqtt_get_publish_topic_def mqtt_get_publish_data_def Let_def)
  have "skip_length b 1 (Suc (Suc (Suc n))) m = Some 4" for n using b by simp
  moreover have "(1023 :: nat) = Suc (Suc (Suc 1020))" by simp
  ultimately have sk: "skip_length b 1 1023 m = Some 4" by metis
  have "m (b + 4) \<noteq> None" "m (b + 5) \<noteq> None" using v unfolding valid_range_iff MQTT_BUF_SIZE_def by simp_all
  then obtain k where "be16 (b + 4) m = Some k" by (auto simp: be16_def add.commute)
  then show "\<exists>i. mqtt_get_id b 1024 m = Some i"
    using sk ty qos by (auto simp: mqtt_get_id_def publish_id_def Let_def)
qed

text \<open>A round with the packet: the callback is given a null pointer as a topic of four bytes, and the two lengths are 0 and 4.\<close>

definition after_callback :: "ptr \<Rightarrow> mqtt_soc \<Rightarrow> (ptr \<times> u16) option \<times> mqtt_soc" where
  "after_callback pdata s =
     (if message_length (mstate s) < message_length_read (mstate s)
      then Some (pdata + unat (message_length (mstate s)), message_length_read (mstate s) - message_length (mstate s))
      else None, s)"

definition at_zero :: "mqtt_soc \<Rightarrow> bool" where
  "at_zero s \<longleftrightarrow> message_length (mstate s) = 0 \<and> message_length_read (mstate s) = 4"

lemma stuck_round:
  assumes "stuck cb pdata s"
  shows "\<exists>s1. stuck cb pdata s1 \<and> at_zero s1 \<and> recv_packet app pdata 4 s = map_option (after_callback pdata)
    (case cb of None \<Rightarrow> Some s1 | Some f \<Rightarrow> on_data app f NULL 4 NULL 0 s1)"
proof -
  obtain ps where ok: "client_ok s ps" and c: "connState (client s) = MQTT_DATA" "dataCb (client s) = cb"
      "in_buffer_length (mstate s) = int MQTT_BUF_SIZE" and P: "str_at (ram s) pdata zero_length_header"
      and d: "disjoint_ranges (in_buffer (mstate s)) MQTT_BUF_SIZE pdata (unat (4 :: u16))" and z0: "ram s NULL = None"
    using assms by (auto simp: stuck_def)
  let ?b = "in_buffer (mstate s)"
  have len: "length zero_length_header = unat (4 :: u16)" "unat (4 :: u16) < MQTT_BUF_SIZE"
    by (simp_all add: zero_length_header_def MQTT_BUF_SIZE_def)
  obtain m where m: "os_memcpy ?b pdata (unat (4 :: u16)) s = Some (s\<lparr>ram := m\<rparr>)" "client_ok (s\<lparr>ram := m\<rparr>) ps"
      "str_at m ?b zero_length_header" "\<And>a. a < ?b \<or> ?b + unat (4 :: u16) \<le> a \<Longrightarrow> m a = ram s a" "m NULL = None"
    using load_packet [OF ok P len d] z0 by blast
  have v: "valid_range m ?b MQTT_BUF_SIZE" using client_okD(6) [OF m(2)] by (simp add: outside_def)
  note z = zero_length_parse [OF m(3) v]
  obtain i where i: "mqtt_get_id ?b 1024 m = Some i" using z(6) by blast
  let ?s = "set_state (\<lambda>t. t\<lparr>message_length := 0\<rparr>) (set_state (\<lambda>t. t\<lparr>message_length_read := 4\<rparr>) (s\<lparr>ram := m\<rparr>))"
  have "(word_of_int (in_buffer_length (mstate s)) :: u16) = 1024" by (simp add: c MQTT_BUF_SIZE_def)
  moreover have e: "(65536 :: u16) = 0" by code_simp
  ultimately have "recv_packet app pdata 4 s = map_option (after_callback pdata)
      (case cb of None \<Rightarrow> Some ?s | Some f \<Rightarrow> on_data app f NULL 4 NULL 0 ?s)"
    using m(1) z(1-5) i c len(2)
    by (cases cb) (simp_all add: recv_packet_def Let_def client_simps recv_data_def deliver_publish_def e after_callback_def [abs_def] map_conv_bind_option comp_def)
  moreover have "m (pdata + j) = ram s (pdata + j)" if "j < 4" for j
    using d that by (intro m(4)) (auto simp: disjoint_ranges_def MQTT_BUF_SIZE_def)
  then have "str_at m pdata zero_length_header"
    using P len(1) unfolding str_at_def by simp
  moreover have "client_ok ?s ps" by (rule client_ok_cong [OF m(2)]) (simp_all add: client_simps)
  ultimately show ?thesis using c d m(5) by (intro exI [of _ ?s]) (auto simp: stuck_def at_zero_def client_simps)
qed

text \<open>The \<^verbatim>\<open>goto\<close> taken \<open>k\<close> times.\<close>

primrec recv_rounds :: "nat \<Rightarrow> mqtt_app \<Rightarrow> ptr \<Rightarrow> u16 \<Rightarrow> mqtt_soc \<Rightarrow> (ptr \<times> u16 \<times> mqtt_soc) option" where
  "recv_rounds 0 app pdata n s = Some (pdata, n, s)"
| "recv_rounds (Suc k) app pdata n s =
     do { (more, s) \<leftarrow> recv_packet app pdata n s; (p, l) \<leftarrow> more; recv_rounds k app p l s }"

text \<open>A callback that, when it returns, has left the client and the packet as they are.\<close>

definition leaves_client :: "mqtt_app \<Rightarrow> callback option \<Rightarrow> ptr \<Rightarrow> bool" where
  "leaves_client app cb pdata \<longleftrightarrow> (\<forall>f s s'. cb = Some f \<longrightarrow> stuck cb pdata s \<and> at_zero s \<longrightarrow> on_data app f NULL 4 NULL 0 s = Some s'
     \<longrightarrow> stuck cb pdata s' \<and> at_zero s')"

lemma stuck_again:
  assumes "stuck cb pdata s" "leaves_client app cb pdata" "recv_packet app pdata 4 s = Some (nxt, s')"
  shows "nxt = Some (pdata, 4) \<and> stuck cb pdata s'"
proof -
  obtain s1 where s1: "stuck cb pdata s1" "at_zero s1"
      "recv_packet app pdata 4 s = map_option (after_callback pdata) (case cb of None \<Rightarrow> Some s1 | Some f \<Rightarrow> on_data app f NULL 4 NULL 0 s1)"
    using stuck_round [OF assms(1)] by blast
  obtain s2 where s2: "stuck cb pdata s2" "at_zero s2" "(nxt, s') = after_callback pdata s2"
  proof (cases cb)
    case None
    then show ?thesis using that s1 assms(3) by simp
  next
    case (Some f)
    then obtain s2 where "on_data app f NULL 4 NULL 0 s1 = Some s2" "(nxt, s') = after_callback pdata s2" using s1(3) assms(3)
      by (cases "on_data app f NULL 4 NULL 0 s1") simp_all
    then show ?thesis using that s1(1,2) assms(2) Some unfolding leaves_client_def by metis
  qed
  then show ?thesis by (simp add: at_zero_def after_callback_def)
qed

lemma recv_loop_stuck:
  assumes "recv_loop app p n s = Some r"
  shows "n = 4 \<longrightarrow> leaves_client app cb p \<longrightarrow> \<not> stuck cb p s"
  using _ assms
proof (rule recv_loop.raw_induct)
  fix loop app p n s r
  assume IH: "\<And>app p n s r. loop app p n s = Some r \<Longrightarrow> n = 4 \<longrightarrow> leaves_client app cb p \<longrightarrow> \<not> stuck cb p s"
    and run: "do { (nxt, s) \<leftarrow> recv_packet app p n s; case nxt of None \<Rightarrow> Some s | Some (p, k) \<Rightarrow> loop app p k s } = Some r"
  show "n = 4 \<longrightarrow> leaves_client app cb p \<longrightarrow> \<not> stuck cb p s"
  proof (intro impI notI)
    assume n: "n = 4" and l: "leaves_client app cb p" and st: "stuck cb p s"
    obtain nxt s' where m: "recv_packet app p 4 s = Some (nxt, s')" using run n by (cases "recv_packet app p 4 s") auto
    note a = stuck_again [OF st l m]
    then have "loop app p 4 s' = Some r" using run n m by simp
    with IH l a show False by blast
  qed
qed

lemma mqtt_tcpclient_recv_stuck:
  assumes "stuck cb pdata s" "leaves_client app cb pdata"
  shows "mqtt_tcpclient_recv app pdata 4 s = None"
proof -
  let ?s = "set_client (\<lambda>c. c\<lparr>keepAliveTick := 0\<rparr>) s"
  have "client_ok ?s ps" if "client_ok s ps" for ps by (rule client_ok_cong [OF that]) (simp_all add: client_simps)
  then have "stuck cb pdata ?s" using assms unfolding stuck_def by (simp add: client_simps) blast
  then have "recv_loop app pdata 4 ?s = None" using recv_loop_stuck [of app pdata 4 ?s] assms(2) by (cases "recv_loop app pdata 4 ?s") auto
  then show ?thesis by (simp add: mqtt_tcpclient_recv_def)
qed

lemma recv_rounds_stuck:
  assumes "stuck cb pdata s" "leaves_client app cb pdata" "\<And>f s. cb = Some f \<Longrightarrow> stuck cb pdata s \<Longrightarrow> on_data app f NULL 4 NULL 0 s \<noteq> None"
  shows "\<exists>s'. recv_rounds k app pdata 4 s = Some (pdata, 4, s')"
  using assms(1)
proof (induction k arbitrary: s)
  case (Suc k)
  obtain s1 where s1: "stuck cb pdata s1"
      "recv_packet app pdata 4 s = map_option (after_callback pdata) (case cb of None \<Rightarrow> Some s1 | Some f \<Rightarrow> on_data app f NULL 4 NULL 0 s1)"
    using stuck_round [OF Suc.prems] by blast
  obtain nxt s' where m: "recv_packet app pdata 4 s = Some (nxt, s')"
    using s1 assms(3) [OF _ s1(1)] by (cases cb) (auto simp: after_callback_def)
  with stuck_again [OF Suc.prems assms(2) m] Suc.IH show ?case by auto
qed simp

section \<open>Properties\<close>

text \<open>A publish packet at 3500.\<close>

definition demo_publish :: "u8 list" where
  "demo_publish = packet MQTT_MSG_TYPE_PUBLISH 1 0 (publish_body [0x61, 0x62] 1 5 [7, 8])"

definition demo_receiver :: "u8 list \<Rightarrow> mqtt_soc" where
  "demo_receiver bs = demo_client\<lparr>ram := (\<lambda>a. if 3500 \<le> a \<and> a < 3500 + length bs then Some (bs ! (a - 3500)) else demo_ram a)\<rparr>"

lemma demo_receiver_sel [simp]: "client (demo_receiver bs) = client demo_client" "dataBuffer (demo_receiver bs) = 4000"
  by (simp_all add: demo_receiver_def)

lemma demo_receiver_ok:
  assumes "length bs \<le> 100"
  shows "client_ok (demo_receiver bs) []" "str_at (ram (demo_receiver bs)) 3500 bs"
proof -
  let ?m = "ram (demo_receiver bs)"
  have m: "?m = (\<lambda>a. if 3500 \<le> a \<and> a < 3500 + length bs then Some (bs ! (a - 3500)) else demo_ram a)"
    by (simp add: demo_receiver_def)
  show "str_at ?m 3500 bs" by (simp add: str_at_def m)
  have dom: "(?m a = None) = (ram demo_client a = None)" for a using assms by (simp add: m demo_ram_def)
  have "queue_holds (msgQueue (client demo_client)) ?m []"
    by (rule queue_holds_frame [OF client_okD(1) [OF demo_client_ok]]) (simp add: m)
  then show "client_ok (demo_receiver bs) []"
    by (rule kept_client_ok [OF demo_client_ok _ _ dom]) simp_all
qed

definition quiet_app :: mqtt_app where
  "quiet_app = \<lparr>on_event = (\<lambda>f s. Some s), on_data = (\<lambda>f tp tn dp dn s. Some s)\<rparr>"

text \<open>C6. A publish packet that arrives in one piece is acknowledged and delivered: a PUBACK (quality of service 1) or a
  PUBREC (2) with its message id is appended to the queue when there is room for it, then the data callback, when there is
  one, is called with pointers into the receive buffer, at which the bytes of the topic and of the payload stand, and their lengths. Nothing is assumed of the
  callback: when it returns, the task is posted and the receive callback returns, unless the callback has itself made the
  length of the packet smaller than what was read; then the loop goes on behind it.\<close>

theorem mqtt_tcpclient_recv_publish:
  fixes qos retain :: int
  assumes ok: "client_ok s ps" and st: "connState (client s) \<in> {MQTT_DATA, MQTT_KEEPALIVE_SEND}"
    and bl: "in_buffer_length (mstate s) = int MQTT_BUF_SIZE" "5 \<le> unat (buffer_length (mconn s))"
    and P: "str_at (ram s) pdata (packet MQTT_MSG_TYPE_PUBLISH qos retain body)"
    and body: "body = publish_body t qos i data" "data \<noteq> []" "qos \<in> {0, 1, 2}" "retain \<in> {0, 1}" "0 < qos \<longrightarrow> i \<noteq> 0"
    and n: "unat n = length (packet MQTT_MSG_TYPE_PUBLISH qos retain body)" "unat n < MQTT_BUF_SIZE"
    and d: "disjoint_ranges (in_buffer (mstate s)) MQTT_BUF_SIZE pdata (unat n)"
  defines "tp \<equiv> in_buffer (mstate s) + header_length body + 2"
    and "dp \<equiv> in_buffer (mstate s) + header_length body + 2 + length t + (if 0 < qos then 2 else 0)"
  shows "\<exists>s1. mqtt_tcpclient_recv app pdata n s =
        do { s2 \<leftarrow> (case dataCb (client s) of None \<Rightarrow> Some s1
                   | Some f \<Rightarrow> on_data app f tp (of_nat (length t)) dp (of_nat (length data)) s1);
             s3 \<leftarrow> (if message_length (mstate s2) < message_length_read (mstate s2)
                   then recv_loop app (pdata + unat (message_length (mstate s2)))
                          (message_length_read (mstate s2) - message_length (mstate s2)) s2
                   else Some s2);
             Some (post_task s3) }
    \<and> client_ok s1 (ps @ filter (\<lambda>r. length (frame r) \<le> ring_free (q_rb (msgQueue (client s))) (ram s)) (publish_ack qos i))
    \<and> str_at (ram s1) tp t \<and> str_at (ram s1) dp data
    \<and> message_length (mstate s1) = n \<and> message_length_read (mstate s1) = n
    \<and> log s1 = log s \<and> sdk_ret s1 = sdk_ret s \<and> clk s1 = clk s"
proof -
  let ?s = "set_client (\<lambda>c. c\<lparr>keepAliveTick := 0\<rparr>) s"
  have ok': "client_ok ?s ps" by (rule client_ok_cong [OF ok]) (simp_all add: client_simps)
  have e: "connState (client ?s) = connState (client s)" "mstate ?s = mstate s" "ram ?s = ram s"
      "msgQueue (client ?s) = msgQueue (client s)" "dataCb (client ?s) = dataCb (client s)" "log ?s = log s" "sdk_ret ?s = sdk_ret s" "clk ?s = clk s"
    by (simp_all add: client_simps)
  have i: "0 < qos \<Longrightarrow> i \<noteq> 0" using body(5) by blast
  obtain s1 where s1: "client_ok s1 (ps @ filter (\<lambda>r. length (frame r) \<le> ring_free (q_rb (msgQueue (client s))) (ram s)) (publish_ack qos i))"
      "str_at (ram s1) tp t" "str_at (ram s1) dp data" "message_length (mstate s1) = n" "message_length_read (mstate s1) = n"
      "log s1 = log s" "sdk_ret s1 = sdk_ret s" "clk s1 = clk s"
    and run: "recv_packet app pdata n ?s =
        do { s2 \<leftarrow> (case dataCb (client s) of None \<Rightarrow> Some s1
                   | Some f \<Rightarrow> on_data app f tp (of_nat (length t)) dp (of_nat (length data)) s1);
             Some (if message_length (mstate s2) < message_length_read (mstate s2)
                   then Some (pdata + unat (message_length (mstate s2)), message_length_read (mstate s2) - message_length (mstate s2))
                   else None, s2) }"
    using recv_publish_packet [OF ok', unfolded e, OF st bl P body(1-4) i n(1)[unfolded packet_length] n(2) d, of app]
    unfolding tp_def dp_def by blast
  have "mqtt_tcpclient_recv app pdata n s =
        do { s2 \<leftarrow> (case dataCb (client s) of None \<Rightarrow> Some s1
                   | Some f \<Rightarrow> on_data app f tp (of_nat (length t)) dp (of_nat (length data)) s1);
             s3 \<leftarrow> (if message_length (mstate s2) < message_length_read (mstate s2)
                   then recv_loop app (pdata + unat (message_length (mstate s2)))
                          (message_length_read (mstate s2) - message_length (mstate s2)) s2
                   else Some s2);
             Some (post_task s3) }"
    unfolding mqtt_tcpclient_recv_def by (subst recv_loop.simps) (auto simp: run intro!: Option.bind_cong)
  then show ?thesis using s1 by blast
qed

end
