(* ===== verification/Mqtt_States.thy ===== *)
theory Mqtt_States
  imports Mqtt_Recv
begin

text \<open>
  The connection states of the MQTT client: the machine that the handlers implement, as a step relation over the
  events of the client, and the keep-alive.
\<close>

section \<open>Events\<close>

datatype (plugins del: quickcheck_random quickcheck_exhaustive quickcheck_narrowing
    quickcheck_bounded_forall quickcheck_full_exhaustive lifting transfer) mqtt_event =
    Dns_found "u32 option" | Received ptr u16 | Sent | Tick | Disconnected | Connected | Reconnect | Task u32
  | Publish ptr ptr int int int | Subscribe ptr u8 | UnSubscribe ptr | Ping | Connect | Disconnect | Delete

fun handle :: "mqtt_app \<Rightarrow> mqtt_event \<Rightarrow> mqtt_soc \<Rightarrow> mqtt_soc option" where
  "handle app (Dns_found addr) s = mqtt_dns_found addr s"
| "handle app (Received p n) s = mqtt_tcpclient_recv app p n s"
| "handle app Sent s = mqtt_tcpclient_sent_cb app s"
| "handle app Tick s = mqtt_timer app s"
| "handle app Disconnected s = mqtt_tcpclient_discon_cb app s"
| "handle app Connected s = mqtt_tcpclient_connect_cb s"
| "handle app Reconnect s = Some (mqtt_tcpclient_recon_cb s)"
| "handle app (Task par) s = MQTT_Task par s"
| "handle app (Publish t d n q r) s = map_option snd (MQTT_Publish t d n q r s)"
| "handle app (Subscribe t q) s = map_option snd (MQTT_Subscribe t q s)"
| "handle app (UnSubscribe t) s = map_option snd (MQTT_UnSubscribe t s)"
| "handle app Ping s = map_option snd (MQTT_Ping s)"
| "handle app Connect s = MQTT_Connect s"
| "handle app Disconnect s = Some (MQTT_Disconnect s)"
| "handle app Delete s = Some (MQTT_DeleteClient s)"

text \<open>The machine, and the events in which it may stay where it is.\<close>

fun may_stay :: "mqtt_event \<Rightarrow> bool" where
  "may_stay Sent = True" | "may_stay Tick = True" | "may_stay Ping = True"
| "may_stay (Dns_found a) = (a \<noteq> None)" | "may_stay (Received p n) = True" | "may_stay (Publish t d n q r) = True"
| "may_stay (Subscribe t q) = True" | "may_stay (UnSubscribe t) = True" | "may_stay e = False"

inductive conn_step :: "mqtt_event \<Rightarrow> tConnState \<Rightarrow> tConnState \<Rightarrow> bool" where
  resolved: "conn_step (Dns_found (Some a)) st TCP_CONNECTING"
| resolve_failed: "conn_step (Dns_found None) st TCP_RECONNECT_REQ"
| accepted: "conn_step (Received p n) MQTT_CONNECT_SENDING MQTT_DATA"
| idle: "conn_step Tick MQTT_DATA MQTT_KEEPALIVE_SEND"
| waited: "conn_step Tick TCP_RECONNECT_REQ TCP_RECONNECT"
| closed: "conn_step Disconnected TCP_DISCONNECTING TCP_DISCONNECTED"
| gone: "conn_step Disconnected MQTT_DELETING MQTT_DELETED"
| lost: "st \<noteq> TCP_DISCONNECTING \<Longrightarrow> st \<noteq> MQTT_DELETING \<Longrightarrow> conn_step Disconnected st TCP_RECONNECT_REQ"
| established: "conn_step Connected st MQTT_CONNECT_SENDING"
| broken: "conn_step Reconnect st TCP_RECONNECT_REQ"
| again: "par \<noteq> 0 \<Longrightarrow> conn_step (Task par) TCP_RECONNECT TCP_CONNECTING"
| pinged: "par \<noteq> 0 \<Longrightarrow> conn_step (Task par) MQTT_KEEPALIVE_SEND MQTT_DATA"
| ping_failed: "par \<noteq> 0 \<Longrightarrow> conn_step (Task par) MQTT_KEEPALIVE_SEND TCP_RECONNECT_DISCONNECTING"
| opened: "conn_step Connect st TCP_CONNECTING"
| disconnect: "conn_step Disconnect st TCP_DISCONNECTING"
| delete: "conn_step Delete st MQTT_DELETING"
| stay: "may_stay e \<Longrightarrow> conn_step e st st"
| task_stay: "par = 0 \<or> st \<noteq> TCP_RECONNECT \<and> st \<noteq> MQTT_KEEPALIVE_SEND \<Longrightarrow> conn_step (Task par) st st"

declare stay [simp]

abbreviation cstate :: "mqtt_soc \<Rightarrow> tConnState" where
  "cstate s \<equiv> connState (client s)"

text \<open>Callbacks of the application that do not connect, disconnect or delete.\<close>

definition cb_keeps :: "mqtt_app \<Rightarrow> bool" where
  "cb_keeps app \<longleftrightarrow> (\<forall>f s s'. on_event app f s = Some s' \<longrightarrow> cstate s' = cstate s)
     \<and> (\<forall>f tp tn dp dn s s'. on_data app f tp tn dp dn s = Some s' \<longrightarrow> cstate s' = cstate s)"

named_theorems cstate_rules \<open>the connection state after an operation\<close>

lemma run_cb_cstate: "cb_keeps app \<Longrightarrow> run_cb app f s = Some s' \<Longrightarrow> cstate s' = cstate s"
  by (auto simp: run_cb_def cb_keeps_def split: option.splits)

lemma net_cstate [client_simps]:
  "client (net_connect s) = client s" "client (net_disconnect s) = client s"
  by (simp_all add: net_connect_def net_disconnect_def Let_def client_simps)

lemma ask_client [client_simps]: "client (snd (ask q s)) = client s"
  by (simp add: ask_def)

lemma net_send_cstate: "net_send p n s = Some (r, s') \<Longrightarrow> cstate s' = cstate s"
  by (auto simp: net_send_def Let_def ask_def client_simps split: if_splits)

lemma build_cstate: "build f s = Some s' \<Longrightarrow> cstate s' = cstate s" "build_id g s = Some s' \<Longrightarrow> cstate s' = cstate s"
  by (auto simp: build_def build_id_def client_simps split: Option.bind_splits)

lemma queue_put_cstate: "queue_put s = Some (r, s') \<Longrightarrow> cstate s' = cstate s"
  by (auto simp: queue_put_def client_simps split: Option.bind_splits)

lemma queue_get_cstate: "queue_get s = Some (r, n, s') \<Longrightarrow> cstate s' = cstate s"
  by (auto simp: queue_get_def client_simps split: Option.bind_splits)

lemma enqueue_cstate: "enqueue s = Some (b, s') \<Longrightarrow> cstate s' = cstate s"
  by (auto simp: enqueue_def Let_def client_simps split: Option.bind_splits if_splits)

lemma note_pending_cstate: "note_pending p n s = Some s' \<Longrightarrow> cstate s' = cstate s"
  by (auto simp: note_pending_def client_simps split: Option.bind_splits)

lemma respond_cstate: "respond f s = Some s' \<Longrightarrow> cstate s' = cstate s"
  by (auto simp: respond_def split: Option.bind_splits dest!: build_cstate queue_put_cstate)

lemma deliver_cstate: "cb_keeps app \<Longrightarrow> deliver_publish app p n s = Some s' \<Longrightarrow> cstate s' = cstate s"
  by (auto simp: deliver_publish_def cb_keeps_def split: Option.bind_splits option.splits)

lemma recv_data_cstate: "cb_keeps app \<Longrightarrow> recv_data app ty qos i s = Some s' \<Longrightarrow> cstate s' = cstate s"
  by (auto simp: recv_data_def split: if_splits Option.bind_splits dest!: deliver_cstate respond_cstate)

lemma free_cstate: "free_con p s = Some s' \<Longrightarrow> cstate s' = cstate s" "free_tcp p s = Some s' \<Longrightarrow> cstate s' = cstate s"
  by (auto simp: free_con_def free_tcp_def os_free_def split: Option.bind_splits if_splits option.splits)

lemma mqtt_tcpclient_delete_cstate: "mqtt_tcpclient_delete s = Some s' \<Longrightarrow> cstate s' = cstate s"
  by (auto simp: mqtt_tcpclient_delete_def Let_def client_simps split: if_splits Option.bind_splits dest!: free_cstate)

lemma release_cstate:
  "release g clear s = Some s' \<Longrightarrow> (\<And>c. connState (clear c) = connState c) \<Longrightarrow> cstate s' = cstate s"
  by (auto simp: release_def os_free_def client_simps split: if_splits Option.bind_splits option.splits)

lemma mqtt_client_delete_cstate: "mqtt_client_delete s = Some s' \<Longrightarrow> cstate s' = cstate s"
  unfolding mqtt_client_delete_def
  by (auto split: Option.bind_splits dest!: mqtt_tcpclient_delete_cstate release_cstate)

lemma MQTT_Connect_cstate: "MQTT_Connect s = Some s' \<Longrightarrow> cstate s' = TCP_CONNECTING"
  by (auto simp: MQTT_Connect_def Let_def client_simps split: if_splits Option.bind_splits)

lemma recv_packet_cstate:
  assumes "cb_keeps app" "recv_packet app p n s = Some (nxt, s')"
  shows "cstate s' = cstate s \<or> cstate s = MQTT_CONNECT_SENDING \<and> cstate s' = MQTT_DATA \<and> nxt = None"
proof -
  have "os_memcpy d p k s = Some s1 \<Longrightarrow> cstate s1 = cstate s" for d p k s1
    by (auto simp: os_memcpy_def)
  then show ?thesis
    using assms(2) run_cb_cstate [OF assms(1)] recv_data_cstate [OF assms(1)]
    by (auto simp: recv_packet_def Let_def client_simps split: if_splits Option.bind_splits)
qed

lemma recv_loop_cstate:
  assumes keeps: "cb_keeps app" and run: "recv_loop app p n s = Some s'"
  shows "cstate s' = cstate s \<or> cstate s = MQTT_CONNECT_SENDING \<and> cstate s' = MQTT_DATA"
proof -
  have "app' = app \<longrightarrow> cstate s' = cstate s \<or> cstate s = MQTT_CONNECT_SENDING \<and> cstate s' = MQTT_DATA"
    if "recv_loop app' p n s = Some s'" for app'
    using _ that
  proof (rule recv_loop.raw_induct)
    fix loop app' p n s s'
    assume IH: "\<And>app' p n s s'. loop app' p n s = Some s' \<Longrightarrow>
        app' = app \<longrightarrow> cstate s' = cstate s \<or> cstate s = MQTT_CONNECT_SENDING \<and> cstate s' = MQTT_DATA"
      and run: "do { (nxt, s) \<leftarrow> recv_packet app' p n s;
          case nxt of None \<Rightarrow> Some s | Some (p, k) \<Rightarrow> loop app' p k s } = Some s'"
    show "app' = app \<longrightarrow> cstate s' = cstate s \<or> cstate s = MQTT_CONNECT_SENDING \<and> cstate s' = MQTT_DATA"
    proof
      assume a: "app' = app"
      obtain nxt s1 where 1: "recv_packet app p n s = Some (nxt, s1)"
          "(case nxt of None \<Rightarrow> Some s1 | Some (p, k) \<Rightarrow> loop app p k s1) = Some s'"
        using run a by (auto split: Option.bind_splits)
      show "cstate s' = cstate s \<or> cstate s = MQTT_CONNECT_SENDING \<and> cstate s' = MQTT_DATA"
        using recv_packet_cstate [OF keeps 1(1)] 1(2) IH [of app _ _ s1 s'] by (cases nxt) fastforce+
    qed
  qed
  with run show ?thesis by blast
qed

lemma mqtt_timer_cstate:
  assumes "cb_keeps app" "mqtt_timer app s = Some s'"
  shows "conn_step Tick (cstate s) (cstate s')"
proof -
  have r: "run_cb app f s1 = Some s2 \<Longrightarrow> cstate s2 = cstate s1" for f s1 s2 using run_cb_cstate [OF assms(1)] .
  have "cstate s' = cstate s \<or> cstate s = MQTT_DATA \<and> cstate s' = MQTT_KEEPALIVE_SEND
      \<or> cstate s = TCP_RECONNECT_REQ \<and> cstate s' = TCP_RECONNECT"
    using assms(2) by (auto simp: mqtt_timer_def Let_def client_simps split: if_splits Option.bind_splits dest!: r)
  then show ?thesis by (auto intro: conn_step.intros)
qed

lemma MQTT_Task_cstate:
  assumes "MQTT_Task par s = Some s'"
  shows "conn_step (Task par) (cstate s) (cstate s')"
proof (cases "par = 0")
  case True
  then show ?thesis using assms by (auto simp: MQTT_Task_def intro: task_stay)
next
  case False
  show ?thesis
  proof (cases "cstate s")
    case TCP_RECONNECT
    then show ?thesis
      using assms False by (auto simp: MQTT_Task_def client_simps split: Option.bind_splits intro: again)
  next
    case MQTT_KEEPALIVE_SEND
    have "cstate s' \<in> {MQTT_DATA, TCP_RECONNECT_DISCONNECTING}"
      using assms False MQTT_KEEPALIVE_SEND
      by (auto simp: MQTT_Task_def mqtt_send_keepalive_def Let_def client_simps split: Option.bind_splits if_splits)
    then show ?thesis using False MQTT_KEEPALIVE_SEND by (auto intro: conn_step.intros)
  next
    case TCP_DISCONNECTED
    then show ?thesis
      using assms False mqtt_tcpclient_delete_cstate [of s s'] by (auto simp: MQTT_Task_def intro: task_stay)
  next
    case MQTT_DELETED
    then show ?thesis
      using assms False mqtt_client_delete_cstate [of s s'] by (auto simp: MQTT_Task_def intro: task_stay)
  next
    case MQTT_DATA
    then have "cstate s' = cstate s"
      using assms False
      by (auto simp: MQTT_Task_def client_simps split: if_splits Option.bind_splits
          dest!: queue_get_cstate note_pending_cstate net_send_cstate)
    then show ?thesis using MQTT_DATA by (auto intro: task_stay)
  qed (use assms False in \<open>auto simp: MQTT_Task_def client_simps intro: task_stay\<close>)
qed

lemma api_cstate:
  "MQTT_Publish t d n q r s = Some (b, s') \<Longrightarrow> cstate s' = cstate s"
  "MQTT_Subscribe t q8 s = Some (b, s') \<Longrightarrow> cstate s' = cstate s"
  "MQTT_UnSubscribe t s = Some (b, s') \<Longrightarrow> cstate s' = cstate s"
  "MQTT_Ping s = Some (b, s') \<Longrightarrow> cstate s' = cstate s"
  by (auto simp: MQTT_Publish_def MQTT_Subscribe_def MQTT_UnSubscribe_def MQTT_Ping_def
      split: Option.bind_splits if_splits dest!: build_cstate enqueue_cstate)

lemma other_cstate:
  "mqtt_dns_found a s = Some s' \<Longrightarrow> conn_step (Dns_found a) (cstate s) (cstate s')"
  "mqtt_tcpclient_connect_cb s = Some s' \<Longrightarrow> conn_step Connected (cstate s) (cstate s')"
  "cb_keeps app \<Longrightarrow> mqtt_tcpclient_sent_cb app s = Some s' \<Longrightarrow> conn_step Sent (cstate s) (cstate s')"
  "cb_keeps app \<Longrightarrow> mqtt_tcpclient_discon_cb app s = Some s' \<Longrightarrow> conn_step Disconnected (cstate s) (cstate s')"
proof -
  show "mqtt_dns_found a s = Some s' \<Longrightarrow> conn_step (Dns_found a) (cstate s) (cstate s')"
    by (auto simp: mqtt_dns_found_def client_simps split: option.splits if_splits Option.bind_splits intro: conn_step.intros)
  show "mqtt_tcpclient_connect_cb s = Some s' \<Longrightarrow> conn_step Connected (cstate s) (cstate s')"
    by (auto simp: mqtt_tcpclient_connect_cb_def Let_def client_simps split: if_splits Option.bind_splits intro: established)
  show "cb_keeps app \<Longrightarrow> mqtt_tcpclient_sent_cb app s = Some s' \<Longrightarrow> conn_step Sent (cstate s) (cstate s')"
    by (auto simp: mqtt_tcpclient_sent_cb_def Let_def client_simps split: if_splits Option.bind_splits
        dest!: run_cb_cstate intro: stay)
  show "cb_keeps app \<Longrightarrow> mqtt_tcpclient_discon_cb app s = Some s' \<Longrightarrow> conn_step Disconnected (cstate s) (cstate s')"
    by (auto simp: mqtt_tcpclient_discon_cb_def Let_def client_simps split: if_splits Option.bind_splits
        dest!: run_cb_cstate intro: conn_step.intros)
qed

lemma handle_step:
  assumes "cb_keeps app" "handle app e s = Some s'"
  shows "conn_step e (cstate s) (cstate s')"
proof (cases e)
  case (Received p n)
  then obtain s1 where "recv_loop app p n (set_client (\<lambda>c. c\<lparr>keepAliveTick := 0\<rparr>) s) = Some s1" "s' = post_task s1"
    using assms(2) by (auto simp: mqtt_tcpclient_recv_def split: Option.bind_splits)
  then show ?thesis using recv_loop_cstate [OF assms(1)] Received
    by (fastforce simp: client_simps intro: conn_step.intros)
next
  case (Publish t d n q r)
  then obtain b where "MQTT_Publish t d n q r s = Some (b, s')" using assms(2) by auto
  then show ?thesis using api_cstate(1) Publish by (simp add: stay)
next
  case (Subscribe t q)
  then obtain b where "MQTT_Subscribe t q s = Some (b, s')" using assms(2) by auto
  then show ?thesis using api_cstate(2) Subscribe by (simp add: stay)
next
  case (UnSubscribe t)
  then obtain b where "MQTT_UnSubscribe t s = Some (b, s')" using assms(2) by auto
  then show ?thesis using api_cstate(3) UnSubscribe by (simp add: stay)
next
  case Ping
  then obtain b where "MQTT_Ping s = Some (b, s')" using assms(2) by auto
  then show ?thesis using api_cstate(4) Ping by (simp add: stay)
next
  case Connect
  then show ?thesis using assms(2) MQTT_Connect_cstate by (auto intro: opened)
qed (use assms mqtt_timer_cstate MQTT_Task_cstate other_cstate in
    \<open>auto simp: mqtt_tcpclient_recon_cb_def MQTT_Disconnect_def MQTT_DeleteClient_def os_timer_disarm_def client_simps
      intro: broken disconnect delete\<close>)

section \<open>Runs\<close>

text \<open>A run of the client over a list of events.\<close>

fun run :: "mqtt_app \<Rightarrow> mqtt_event list \<Rightarrow> mqtt_soc \<Rightarrow> mqtt_soc option" where
  "run app [] s = Some s"
| "run app (e # es) s = do { s \<leftarrow> handle app e s; run app es s }"

text \<open>The states in use.\<close>

definition live_states :: "tConnState set" where
  "live_states = {TCP_DISCONNECTING, TCP_DISCONNECTED, TCP_RECONNECT_DISCONNECTING, TCP_RECONNECT_REQ, TCP_RECONNECT,
     TCP_CONNECTING, MQTT_CONNECT_SENDING, MQTT_DATA, MQTT_KEEPALIVE_SEND, MQTT_DELETING, MQTT_DELETED}"

inductive conn_run :: "mqtt_event list \<Rightarrow> tConnState \<Rightarrow> tConnState \<Rightarrow> bool" where
  none: "conn_run [] st st"
| more_steps: "conn_step e st st1 \<Longrightarrow> conn_run es st1 st2 \<Longrightarrow> conn_run (e # es) st st2"

inductive_cases conn_run_ConsE: "conn_run (e # es) st st'"
inductive_cases conn_run_NilE: "conn_run [] st st'"

lemma conn_step_live: "conn_step e st st' \<Longrightarrow> st' = st \<or> st' \<in> live_states"
  by (cases rule: conn_step.cases) (auto simp: live_states_def)

lemma conn_run_live: "conn_run es st st' \<Longrightarrow> st' = st \<or> st' \<in> live_states"
  by (induction rule: conn_run.induct) (auto dest: conn_step_live)

lemma run_refines:
  assumes "cb_keeps app" "run app es s = Some s'"
  shows "conn_run es (cstate s) (cstate s')"
  using assms(2)
proof (induction es arbitrary: s)
  case Nil
  then show ?case by (auto intro: conn_run.none)
next
  case (Cons e es)
  then obtain s1 where "handle app e s = Some s1" "run app es s1 = Some s'" by (auto split: Option.bind_splits)
  with Cons.IH handle_step [OF assms(1)] show ?case by (blast intro: more_steps)
qed

text \<open>The data states are entered from outside only when data is received in \<open>MQTT_CONNECT_SENDING\<close>.\<close>

lemma data_needs_accept:
  assumes "cb_keeps app" "run app es s = Some s'" "cstate s' \<in> {MQTT_DATA, MQTT_KEEPALIVE_SEND}"
    "cstate s \<notin> {MQTT_DATA, MQTT_KEEPALIVE_SEND}"
  shows "\<exists>us p n vs s1. es = us @ Received p n # vs \<and> run app us s = Some s1 \<and> cstate s1 = MQTT_CONNECT_SENDING"
  using assms(2-)
proof (induction es arbitrary: s)
  case (Cons e es)
  then obtain s1 where 1: "handle app e s = Some s1" "run app es s1 = Some s'" by (auto split: Option.bind_splits)
  note st = handle_step [OF assms(1) 1(1)]
  show ?case
  proof (cases "cstate s1 \<in> {MQTT_DATA, MQTT_KEEPALIVE_SEND}")
    case True
    with st Cons.prems(3) obtain p n where "e = Received p n" "cstate s = MQTT_CONNECT_SENDING"
      by (cases rule: conn_step.cases) auto
    then show ?thesis by (intro exI [of _ "[]"] exI [of _ p] exI [of _ n] exI [of _ es] exI [of _ s]) simp
  next
    case False
    from Cons.IH [OF 1(2) Cons.prems(2) False] obtain us p n vs s2 where
      "es = us @ Received p n # vs" "run app us s1 = Some s2" "cstate s2 = MQTT_CONNECT_SENDING" by blast
    with 1(1) show ?thesis
      by (intro exI [of _ "e # us"] exI [of _ p] exI [of _ n] exI [of _ vs] exI [of _ s2]) simp
  qed
qed simp

section \<open>Keep-alive\<close>

primrec ticks :: "nat \<Rightarrow> mqtt_app \<Rightarrow> mqtt_soc \<Rightarrow> mqtt_soc option" where
  "ticks 0 app s = Some s"
| "ticks (Suc n) app s = do { s \<leftarrow> ticks n app s; mqtt_timer app s }"

text \<open>Only the counters have moved.\<close>

definition ticked :: "u32 \<Rightarrow> mqtt_soc \<Rightarrow> mqtt_soc \<Rightarrow> bool" where
  "ticked a s s' \<longleftrightarrow> (\<exists>b. s' = set_client (\<lambda>c. c\<lparr>keepAliveTick := a, sendTimeout := b\<rparr>) s)"

lemma unat_small_u32: "k < 2 ^ 32 \<Longrightarrow> unat (of_nat k :: u32) = k"
  by (simp only: unat_of_nat) (simp add: take_bit_nat_eq_self)

lemma ticks_data:
  assumes st: "cstate s = MQTT_DATA" "has_connect_info (mstate s)" "keepAliveTick (client s) = 0"
    and k: "0 \<le> keepalive (connect_info (client s))" "keepalive (connect_info (client s)) < 2 ^ 31"
    and n: "int n \<le> keepalive (connect_info (client s))"
  shows "\<exists>s'. ticks n app s = Some s' \<and> ticked (of_nat n) s s'"
  using n
proof (induction n)
  case 0
  have "s = set_client (\<lambda>c. c\<lparr>keepAliveTick := 0, sendTimeout := sendTimeout (client s)\<rparr>) s"
    using st(3) by (intro mqtt_soc.equality MQTT_Client.equality) (simp_all add: set_client_def)
  then show ?case unfolding ticked_def by auto
next
  case (Suc n)
  then obtain s1 where 1: "ticks n app s = Some s1" "ticked (of_nat n) s s1" by auto
  then obtain b where s1: "s1 = set_client (\<lambda>c. c\<lparr>keepAliveTick := of_nat n, sendTimeout := b\<rparr>) s" by (auto simp: ticked_def)
  let ?k = "keepalive (connect_info (client s))"
  have "int (Suc n) < 2 ^ 31" using Suc.prems k by linarith
  then have "unat (of_nat (Suc n) :: u32) = Suc n" by (intro unat_small_u32) simp
  moreover have "unat (word_of_int ?k :: u32) = nat ?k"
    using k by (simp add: unsigned_of_int take_bit_int_eq_self)
  ultimately have g: "\<not> (word_of_int ?k :: u32) < of_nat (Suc n)" using Suc.prems by (simp add: word_less_nat_alt)
  let ?b = "if 0 < b then b - 1 else b"
  have "mqtt_timer app s1 = Some (set_client (\<lambda>c. c\<lparr>keepAliveTick := of_nat (Suc n), sendTimeout := ?b\<rparr>) s)"
    using st(1,2) g by (simp add: s1 mqtt_timer_def client_simps Let_def set_client_def add.commute)
  then show ?case using 1(1) by (auto simp: ticked_def)
qed

text \<open>The tick after the keep-alive time.\<close>

lemma tick_expires:
  assumes "ticked (of_nat (nat (keepalive (connect_info (client s))))) s s1" "cstate s = MQTT_DATA" "has_connect_info (mstate s)"
    and k: "0 \<le> keepalive (connect_info (client s))" "keepalive (connect_info (client s)) < 2 ^ 31"
  shows "\<exists>a b. mqtt_timer app s1 = Some (set_client (\<lambda>c. c\<lparr>sendTimeout := b\<rparr>)
      (post_task (goto_state MQTT_KEEPALIVE_SEND (set_client (\<lambda>c. c\<lparr>keepAliveTick := a\<rparr>) s1))))"
proof -
  let ?k = "keepalive (connect_info (client s))"
  obtain b where s1: "s1 = set_client (\<lambda>c. c\<lparr>keepAliveTick := of_nat (nat ?k), sendTimeout := b\<rparr>) s"
    using assms(1) by (auto simp: ticked_def)
  let ?a = "of_nat (nat ?k) + 1 :: u32"
  have g: "(word_of_int ?k :: u32) < ?a"
  proof -
    obtain K where K: "?k = int K" "K < 2 ^ 31" using k by (metis nat_0_le nat_less_iff of_nat_numeral of_nat_power zero_le_imp_eq_int)
    have "unat (of_nat (Suc K) :: u32) = Suc K" "unat (of_nat K :: u32) = K"
      using K(2) by (intro unat_small_u32; simp)+
    then show ?thesis unfolding K(1) by (simp add: word_less_nat_alt add.commute)
  qed
  have "mqtt_timer app s1 = Some (set_client (\<lambda>c. c\<lparr>sendTimeout := if 0 < b then b - 1 else b\<rparr>)
      (post_task (goto_state MQTT_KEEPALIVE_SEND (set_client (\<lambda>c. c\<lparr>keepAliveTick := ?a\<rparr>) s1))))"
    using assms(2,3) g by (auto simp: s1 mqtt_timer_def client_simps Let_def set_client_def post_task_def call_def goto_state_def)
  then show ?thesis by blast
qed

definition ping_packet :: "u8 list" where
  "ping_packet = [0xC0, 0]"

definition sent_on :: "mqtt_soc \<Rightarrow> u8 list \<Rightarrow> io_event" where
  "sent_on s bs = Call (Net ((if security (client s) \<noteq> 0 then Espconn_secure_send else Espconn_send) (mqtt_espconn (pCon (client s))) bs))"

lemma net_send_effect:
  assumes "valid_range (ram s) p (unat n)"
  shows "\<exists>r s'. net_send p n s = Some (r, s') \<and> client s' = client s \<and> ram s' = ram s
    \<and> log s' = log s @ [sent_on s (bytes_at (ram s) p (unat n))] \<and> client_addr s' = client_addr s \<and> dataBuffer s' = dataBuffer s"
  using assms by (cases "security (client s) = 0") (simp_all add: net_send_def Let_def ask_def client_simps sent_on_def)

lemma send_keepalive:
  assumes ok: "client_ok s ps"
  shows "\<exists>s'. mqtt_send_keepalive s = Some s' \<and> client_ok s' ps \<and> log s' = log s @ [sent_on s ping_packet, posted s]
    \<and> (cstate s' = MQTT_DATA \<and> keepAliveTick (client s') = 0 \<or> cstate s' = TCP_RECONNECT_DISCONNECTING)"
proof -
  have "building (init_message (mconn s)) (ram s) []" using client_okD(3) [OF ok] by (rule building_init)
  from fini_built [OF this, of MQTT_MSG_TYPE_PINGREQ 0 0]
  have "built (mconn s) (ram s) ping_packet (mqtt_msg_pingreq (mconn s) (ram s))"
    by (simp add: mqtt_msg_pingreq_def packet_def fixed_header_def remaining_def ping_packet_def built_def)
  from build_ok [of s ps _ mqtt_msg_pingreq, OF ok this] obtain c m
    where b: "build mqtt_msg_pingreq s = Some (set_state (\<lambda>t. t\<lparr>mqtt_conn := c, outbound_message := True\<rparr>) (s\<lparr>ram := m\<rparr>))"
      "client_ok (set_state (\<lambda>t. t\<lparr>mqtt_conn := c, outbound_message := True\<rparr>) (s\<lparr>ram := m\<rparr>)) ps"
      "message c m = ping_packet" "msg_inside c" by blast
  let ?s1 = "set_state (\<lambda>t. t\<lparr>mqtt_conn := c, outbound_message := True\<rparr>) (s\<lparr>ram := m\<rparr>)"
  have s1: "mconn ?s1 = c" "ram ?s1 = m" "client_addr ?s1 = client_addr s" "log ?s1 = log s"
      "security (client ?s1) = security (client s)" "pCon (client ?s1) = pCon (client s)" by (simp_all add: client_simps)
  have n: "unat (msg_length c) = 2" using arg_cong [OF b(3), of length] by (simp add: message_def ping_packet_def)
  have v: "valid_range m (msg_data c) (unat (msg_length c))"
    using message_outside(1) [OF b(2)] b(4) unfolding s1 by (simp add: outside_def)
  have bs: "bytes_at m (msg_data c) 2 = ping_packet" using b(3) n by (simp add: message_def)
  have "m (msg_data c) \<noteq> None" using v n unfolding valid_range_iff by (metis add.right_neutral zero_less_numeral)
  moreover have "the (m (msg_data c)) = 0xC0"
    using arg_cong [OF bs, of "\<lambda>l. l ! 0"] by (simp add: ping_packet_def)
  ultimately have h: "m (msg_data c) = Some 0xC0" by auto
  let ?s2 = "set_client (\<lambda>c. c\<lparr>sendTimeout := MQTT_SEND_TIMOUT\<rparr>) (set_state (\<lambda>t. t\<lparr>pending_msg_type := 12, pending_msg_id := 0\<rparr>) ?s1)"
  have "mqtt_get_id (msg_data c) (msg_length c) m = Some 0" "mqtt_get_type (msg_data c) m = Some 12"
    using h n by (simp_all add: mqtt_get_id_def mqtt_get_type_def)
  then have np: "note_pending (msg_data c) (msg_length c) ?s1 = Some ?s2" by (simp add: note_pending_def client_simps)
  have s2: "mconn ?s2 = c" "ram ?s2 = m" "client_addr ?s2 = client_addr s" "log ?s2 = log s"
      "security (client ?s2) = security (client s)" "pCon (client ?s2) = pCon (client s)" by (simp_all add: client_simps)
  obtain r s3 where s3: "net_send (msg_data c) (msg_length c) ?s2 = Some (r, s3)" "client s3 = client ?s2" "ram s3 = m"
      "log s3 = log s @ [sent_on s ping_packet]" "client_addr s3 = client_addr s" "dataBuffer s3 = dataBuffer s"
    using net_send_effect [of ?s2 "msg_data c" "msg_length c"] v unfolding s2 n bs sent_on_def by (auto simp: client_simps)
  have ok3: "client_ok s3 ps" by (rule client_ok_cong [OF b(2)]) (simp_all add: s3 client_simps)
  show ?thesis
    using b(1) np s3 ok3
    by (auto simp: mqtt_send_keepalive_def s1 s2 Let_def client_simps posted_def intro: client_ok_cong [OF ok3])
qed

section \<open>Properties\<close>

lemma quiet_app_keeps: "cb_keeps quiet_app"
  by (simp add: cb_keeps_def quiet_app_def)

text \<open>C7. Every run of the client, over any sequence of network events, timer ticks, task activations and calls of the
  application, follows the connection state machine, whatever the network layer answers; states other than the
  eleven of \<open>live_states\<close> are never entered.\<close>

theorem mqtt_run_refines:
  assumes "cb_keeps app" "run app es s = Some s'"
  shows "conn_run es (cstate s) (cstate s') \<and> (cstate s' = cstate s \<or> cstate s' \<in> live_states)"
  using run_refines [OF assms] conn_run_live by blast

theorem mqtt_run_refines_witness:
  "conn_run [Reconnect, Disconnect, Disconnected] MQTT_DATA TCP_DISCONNECTED"
proof -
  let ?es = "[Reconnect, Disconnect, Disconnected]"
  obtain s' where "run quiet_app ?es demo_client = Some s'" "cstate s' = TCP_DISCONNECTED"
    by (simp add: mqtt_tcpclient_recon_cb_def MQTT_Disconnect_def os_timer_disarm_def mqtt_tcpclient_discon_cb_def Let_def
        client_simps run_cb_def demo_client_def zero_client_def)
  with mqtt_run_refines [OF quiet_app_keeps, of ?es demo_client s'] show ?thesis by simp
qed

text \<open>The client exchanges application data only after the broker has answered: in a run that starts outside the data
  states and ends in one of them, data was received in the state \<open>MQTT_CONNECT_SENDING\<close>.\<close>

theorem mqtt_data_after_accept:
  assumes "cb_keeps app" "run app es s = Some s'" "cstate s' \<in> {MQTT_DATA, MQTT_KEEPALIVE_SEND}"
    and "cstate s \<notin> {MQTT_DATA, MQTT_KEEPALIVE_SEND}"
  shows "\<exists>us p n vs s1. es = us @ Received p n # vs \<and> run app us s = Some s1 \<and> cstate s1 = MQTT_CONNECT_SENDING"
  using data_needs_accept [OF assms] .

theorem mqtt_data_after_accept_witness:
  "\<exists>s s'. run quiet_app [Received 3500 4] s = Some s' \<and> cstate s' = MQTT_DATA \<and>
     (\<exists>us p n vs s1. [Received 3500 4] = us @ Received p n # vs \<and> run quiet_app us s = Some s1 \<and> cstate s1 = MQTT_CONNECT_SENDING)"
proof -
  let ?P = "[0x20, 2, 0, 0] :: u8 list"
  let ?s = "goto_state MQTT_CONNECT_SENDING (set_state (\<lambda>t. t\<lparr>pending_msg_type := 1\<rparr>) (demo_receiver ?P))"
  have ok: "client_ok ?s []" by (rule client_ok_cong [OF demo_receiver_ok(1) [of ?P]]) (simp_all add: client_simps)
  let ?z = "set_client (\<lambda>c. c\<lparr>keepAliveTick := 0\<rparr>) ?s"
  have ok0: "client_ok ?z []" by (rule client_ok_cong [OF ok]) (simp_all add: client_simps)
  have P: "str_at (ram ?z) 3500 ?P" using demo_receiver_ok(2) [of ?P] by (simp add: client_simps)
  have d: "disjoint_ranges (in_buffer (mstate ?z)) MQTT_BUF_SIZE 3500 (unat (4 :: u16))"
    by (simp add: client_simps disjoint_ranges_def MQTT_BUF_SIZE_def)
  obtain m where m: "os_memcpy 2000 3500 (unat (4 :: u16)) ?z = Some (?z\<lparr>ram := m\<rparr>)" "str_at m 2000 ?P"
    using load_packet [OF ok0 P _ _ d] by (auto simp: MQTT_BUF_SIZE_def client_simps)
  have "mqtt_get_type 2000 m = Some 2" "mqtt_get_qos 2000 m = Some 0" "mqtt_get_id 2000 1024 m = Some 0"
    using m(2) by (simp_all add: mqtt_get_type_def mqtt_get_qos_def mqtt_get_id_def)
  then obtain s1 where "recv_packet quiet_app 3500 4 ?z = Some (None, s1)" "cstate s1 = MQTT_DATA"
    using m(1) by (simp add: recv_packet_def client_simps Let_def MQTT_BUF_SIZE_def run_cb_def demo_client_def zero_client_def)
  moreover have "recv_loop quiet_app 3500 4 ?z = Some s1" if "recv_packet quiet_app 3500 4 ?z = Some (None, s1)" for s1
    using that by (subst recv_loop.simps) simp
  ultimately obtain s' where r: "run quiet_app [Received 3500 4] ?s = Some s'" "cstate s' = MQTT_DATA"
    by (auto simp: mqtt_tcpclient_recv_def client_simps)
  moreover have "cstate ?s = MQTT_CONNECT_SENDING" by (simp add: client_simps)
  ultimately show ?thesis
    using mqtt_data_after_accept [OF quiet_app_keeps r(1)] by (intro exI [of _ ?s] exI [of _ s']) simp
qed

text \<open>C15. An idle connection is kept alive: for the keep-alive time the timer does nothing that is seen from outside, on the next tick
  the task is posted, and the task sends the two bytes of a ping request and goes back to the data state, or, when
  sending fails, starts to disconnect for a new connection.\<close>

theorem mqtt_keepalive_ping:
  assumes ok: "client_ok s ps" and st: "cstate s = MQTT_DATA" "has_connect_info (mstate s)" "keepAliveTick (client s) = 0"
    and k: "0 \<le> keepalive (connect_info (client s))" "keepalive (connect_info (client s)) < 2 ^ 31" and par: "par \<noteq> 0"
  shows "\<exists>s1 s2 s3. ticks (nat (keepalive (connect_info (client s)))) app s = Some s1 \<and> cstate s1 = MQTT_DATA \<and> log s1 = log s
    \<and> mqtt_timer app s1 = Some s2 \<and> cstate s2 = MQTT_KEEPALIVE_SEND \<and> log s2 = log s @ [posted s]
    \<and> MQTT_Task par s2 = Some s3 \<and> log s3 = log s @ [posted s, sent_on s ping_packet, posted s] \<and> client_ok s3 ps
    \<and> (cstate s3 = MQTT_DATA \<and> keepAliveTick (client s3) = 0 \<or> cstate s3 = TCP_RECONNECT_DISCONNECTING)"
proof -
  obtain s1 where s1: "ticks (nat (keepalive (connect_info (client s)))) app s = Some s1"
      "ticked (of_nat (nat (keepalive (connect_info (client s))))) s s1"
    using ticks_data [OF st k, of "nat (keepalive (connect_info (client s)))"] k(1) by auto
  then have f1: "cstate s1 = MQTT_DATA" "log s1 = log s" "client_addr s1 = client_addr s"
      "security (client s1) = security (client s)" "pCon (client s1) = pCon (client s)"
    using st(1) by (auto simp: ticked_def client_simps)
  have ok1: "client_ok s1 ps" using s1(2) by (intro client_ok_cong [OF ok]) (auto simp: ticked_def client_simps)
  obtain a b where t: "mqtt_timer app s1 = Some (set_client (\<lambda>c. c\<lparr>sendTimeout := b\<rparr>)
      (post_task (goto_state MQTT_KEEPALIVE_SEND (set_client (\<lambda>c. c\<lparr>keepAliveTick := a\<rparr>) s1))))" (is "_ = Some ?s2")
    using tick_expires [OF s1(2) st(1,2) k] by blast
  have f2: "cstate ?s2 = MQTT_KEEPALIVE_SEND" "log ?s2 = log s @ [posted s]" "posted ?s2 = posted s" "sent_on ?s2 ping_packet = sent_on s ping_packet"
    using f1 by (simp_all add: client_simps posted_def sent_on_def)
  have ok2: "client_ok ?s2 ps" by (rule client_ok_cong [OF ok1]) (simp_all add: client_simps)
  obtain s3 where s3: "mqtt_send_keepalive ?s2 = Some s3" "client_ok s3 ps" "log s3 = log ?s2 @ [sent_on ?s2 ping_packet, posted ?s2]"
      "cstate s3 = MQTT_DATA \<and> keepAliveTick (client s3) = 0 \<or> cstate s3 = TCP_RECONNECT_DISCONNECTING"
    using send_keepalive [OF ok2] by blast
  have "MQTT_Task par ?s2 = Some s3" unfolding MQTT_Task_def f2(1) using par s3(1) by simp
  then show ?thesis
    using s1(1) f1(1,2) t f2 s3(2-4) by (intro exI [of _ s1] exI [of _ ?s2] exI [of _ s3]) simp
qed

theorem mqtt_keepalive_ping_witness:
  "\<exists>s1 s2 s3. ticks 0 quiet_app demo_client = Some s1 \<and> mqtt_timer quiet_app s1 = Some s2 \<and>
     MQTT_Task 1 s2 = Some s3 \<and> sent_on demo_client ping_packet \<in> set (log s3)"
proof -
  have c: "cstate demo_client = MQTT_DATA" "has_connect_info (mstate demo_client)" "keepAliveTick (client demo_client) = 0"
      "keepalive (connect_info (client demo_client)) = 0"
    by (simp_all add: demo_client_def zero_client_def zero_info_def)
  show ?thesis using mqtt_keepalive_ping [OF demo_client_ok c(1-3), of 1 quiet_app, unfolded c(4)] by auto
qed

end
