(* ===== verification/Mqtt_Config.thy ===== *)
theory Mqtt_Config
  imports Mqtt_Client_Proofs
begin

text \<open>
  The configuration of the MQTT program, \<^verbatim>\<open>modules/config.c\<close>: two copies in flash and a flag that says which one
  is current. The configuration and the flag are in \<open>ram\<close> at \<open>sysCfg\<close> and \<open>saveFlag\<close>, with the layout of the
  structures of \<^verbatim>\<open>config.h\<close>.

  The flash driver is not part of the sources: its functions are the parameter \<open>flash_ops\<close>, and \<open>flash_ok\<close> says what is
  documented of them, that reading gives what has been written to an erased sector and that erasing sets all bits.
  Each call is also recorded in \<open>log\<close>, so that a failure of the power between two of them can be stated.
\<close>

section \<open>Flash\<close>

record flash_ops =
  fl_read :: "nat \<Rightarrow> nat \<Rightarrow> (nat \<Rightarrow> u8) \<Rightarrow> u8 list"
  fl_erase :: "nat \<Rightarrow> (nat \<Rightarrow> u8) \<Rightarrow> nat \<Rightarrow> u8"
  fl_write :: "nat \<Rightarrow> u8 list \<Rightarrow> (nat \<Rightarrow> u8) \<Rightarrow> nat \<Rightarrow> u8"

definition SPI_FLASH_SEC_SIZE :: nat where "SPI_FLASH_SEC_SIZE = 4096"
definition CFG_LOCATION :: nat where "CFG_LOCATION = 0x79"
definition CFG_HOLDER :: u32 where "CFG_HOLDER = 0x00FF55A4"

definition store_bytes :: "ptr \<Rightarrow> u8 list \<Rightarrow> mqtt_soc \<Rightarrow> mqtt_soc option" where
  "store_bytes a bs s = do { m \<leftarrow> poke_all a bs (ram s); Some (s\<lparr>ram := m\<rparr>) }"

definition spi_flash_read :: "flash_ops \<Rightarrow> nat \<Rightarrow> ptr \<Rightarrow> nat \<Rightarrow> mqtt_soc \<Rightarrow> mqtt_soc option" where
  "spi_flash_read fl addr dst n s = store_bytes dst (fl_read fl addr n (flash s)) s"

definition spi_flash_erase_sector :: "flash_ops \<Rightarrow> nat \<Rightarrow> mqtt_soc \<Rightarrow> mqtt_soc" where
  "spi_flash_erase_sector fl sec s =
     call (Io (Spi_flash_erase_sector (of_nat sec))) (s\<lparr>flash := fl_erase fl sec (flash s)\<rparr>)"

definition spi_flash_write :: "flash_ops \<Rightarrow> nat \<Rightarrow> ptr \<Rightarrow> nat \<Rightarrow> mqtt_soc \<Rightarrow> mqtt_soc option" where
  "spi_flash_write fl addr src n s =
     (if \<not> valid_range (ram s) src n then None
      else let bs = bytes_at (ram s) src n
           in Some (call (Io (Spi_flash_write (of_nat addr) bs)) (s\<lparr>flash := fl_write fl addr bs (flash s)\<rparr>)))"

section \<open>The structures\<close>

definition sizeof_SYSCFG :: nat where "sizeof_SYSCFG = 308"
definition sizeof_SAVE_FLAG :: nat where "sizeof_SAVE_FLAG = 4"

definition cfg_holder :: "mqtt_soc \<Rightarrow> ptr" where "cfg_holder s = sysCfg s"
definition device_id :: "mqtt_soc \<Rightarrow> ptr" where "device_id s = sysCfg s + 4"
definition sta_ssid :: "mqtt_soc \<Rightarrow> ptr" where "sta_ssid s = sysCfg s + 36"
definition sta_pwd :: "mqtt_soc \<Rightarrow> ptr" where "sta_pwd s = sysCfg s + 100"
definition sta_type :: "mqtt_soc \<Rightarrow> ptr" where "sta_type s = sysCfg s + 164"
definition mqtt_host :: "mqtt_soc \<Rightarrow> ptr" where "mqtt_host s = sysCfg s + 168"
definition mqtt_port :: "mqtt_soc \<Rightarrow> ptr" where "mqtt_port s = sysCfg s + 232"
definition mqtt_user :: "mqtt_soc \<Rightarrow> ptr" where "mqtt_user s = sysCfg s + 236"
definition mqtt_pass :: "mqtt_soc \<Rightarrow> ptr" where "mqtt_pass s = sysCfg s + 268"
definition mqtt_keepalive :: "mqtt_soc \<Rightarrow> ptr" where "mqtt_keepalive s = sysCfg s + 300"
definition cfg_security :: "mqtt_soc \<Rightarrow> ptr" where "cfg_security s = sysCfg s + 304"

definition load32 :: "ptr \<Rightarrow> mqtt_soc \<Rightarrow> u32 option" where
  "load32 a s =
     do { b0 \<leftarrow> ram s a; b1 \<leftarrow> ram s (a + 1); b2 \<leftarrow> ram s (a + 2); b3 \<leftarrow> ram s (a + 3);
          Some (ucast b0 OR push_bit 8 (ucast b1) OR push_bit 16 (ucast b2) OR push_bit 24 (ucast b3)) }"

text \<open>\<^verbatim>\<open>os_strncpy\<close> of a literal pads with zeros; \<^verbatim>\<open>os_sprintf\<close> with the format \<^verbatim>\<open>DVES_%08X\<close>.\<close>

definition os_strncpy :: "ptr \<Rightarrow> string \<Rightarrow> nat \<Rightarrow> mqtt_soc \<Rightarrow> mqtt_soc option" where
  "os_strncpy dst str n s = store_bytes dst (take n (bytes str @ replicate n 0)) s"

definition hex_char :: "u32 \<Rightarrow> u8" where
  "hex_char d = (if d < 10 then 0x30 + ucast d else 0x37 + ucast d)"

definition hex8 :: "u32 \<Rightarrow> u8 list" where
  "hex8 v = map (\<lambda>i. hex_char (drop_bit (28 - 4 * i) v AND 0xf)) [0..<8]"

section \<open>Saving and loading\<close>

definition cfg_write :: "flash_ops \<Rightarrow> nat \<Rightarrow> mqtt_soc \<Rightarrow> mqtt_soc option" where
  "cfg_write fl k s =
     spi_flash_write fl ((CFG_LOCATION + k) * SPI_FLASH_SEC_SIZE) (sysCfg s) sizeof_SYSCFG
       (spi_flash_erase_sector fl (CFG_LOCATION + k) s)"

definition flag_write :: "flash_ops \<Rightarrow> u8 \<Rightarrow> mqtt_soc \<Rightarrow> mqtt_soc option" where
  "flag_write fl v s =
     do { s \<leftarrow> store8 (saveFlag s) v s;
          spi_flash_write fl ((CFG_LOCATION + 3) * SPI_FLASH_SEC_SIZE) (saveFlag s) sizeof_SAVE_FLAG
            (spi_flash_erase_sector fl (CFG_LOCATION + 3) s) }"

definition read_flag :: "flash_ops \<Rightarrow> mqtt_soc \<Rightarrow> (u8 \<times> mqtt_soc) option" where
  "read_flag fl s =
     do { s \<leftarrow> spi_flash_read fl ((CFG_LOCATION + 3) * SPI_FLASH_SEC_SIZE) (saveFlag s) sizeof_SAVE_FLAG s;
          v \<leftarrow> ram s (saveFlag s);
          Some (v, s) }"

definition CFG_Save :: "flash_ops \<Rightarrow> mqtt_soc \<Rightarrow> mqtt_soc option" where
  "CFG_Save fl s =
     do { (v, s) \<leftarrow> read_flag fl s;
          if v = 0 then do { s \<leftarrow> cfg_write fl 1 s; flag_write fl 1 s }
          else do { s \<leftarrow> cfg_write fl 0 s; flag_write fl 0 s } }"

definition cfg_default :: "mqtt_soc \<Rightarrow> mqtt_soc option" where
  "cfg_default s =
     do { s \<leftarrow> os_memset (sysCfg s) 0 sizeof_SYSCFG s;
          s \<leftarrow> store_bytes (cfg_holder s) (le32 CFG_HOLDER) s;
          let (chip, s) = ask system_get_chip_id s;
          s \<leftarrow> store_bytes (device_id s) (bytes ''DVES_'' @ hex8 chip @ [0]) s;
          s \<leftarrow> store8 (device_id s + 31) 0 s;
          s \<leftarrow> os_strncpy (sta_ssid s) ''DVES_HOME'' 63 s;
          s \<leftarrow> os_strncpy (sta_pwd s) ''yourpassword'' 63 s;
          s \<leftarrow> store_bytes (sta_type s) (le32 3) s;
          s \<leftarrow> os_strncpy (mqtt_host s) ''192.168.1.100'' 63 s;
          s \<leftarrow> store_bytes (mqtt_port s) (le32 1883) s;
          s \<leftarrow> os_strncpy (mqtt_user s) ''DVES_USER'' 31 s;
          s \<leftarrow> os_strncpy (mqtt_pass s) ''DVES_PASS'' 31 s;
          s \<leftarrow> store8 (cfg_security s) 0 s;
          store_bytes (mqtt_keepalive s) (le32 120) s }"

definition CFG_Load :: "flash_ops \<Rightarrow> mqtt_soc \<Rightarrow> mqtt_soc option" where
  "CFG_Load fl s =
     do { (v, s) \<leftarrow> read_flag fl s;
          s \<leftarrow> spi_flash_read fl ((CFG_LOCATION + (if v = 0 then 0 else 1)) * SPI_FLASH_SEC_SIZE) (sysCfg s) sizeof_SYSCFG s;
          h \<leftarrow> load32 (cfg_holder s) s;
          if h \<noteq> CFG_HOLDER then do { s \<leftarrow> cfg_default s; CFG_Save fl s } else Some s }"

section \<open>What the code relies on\<close>

definition flash_ok :: "flash_ops \<Rightarrow> bool" where
  "flash_ok fl \<longleftrightarrow> (\<forall>a n f. length (fl_read fl a n f) = n)
     \<and> (\<forall>sec n f. n \<le> SPI_FLASH_SEC_SIZE \<longrightarrow> fl_read fl (sec * SPI_FLASH_SEC_SIZE) n (fl_erase fl sec f) = replicate n 0xFF)
     \<and> (\<forall>sec bs f. length bs \<le> SPI_FLASH_SEC_SIZE \<longrightarrow>
          fl_read fl (sec * SPI_FLASH_SEC_SIZE) (length bs) (fl_write fl (sec * SPI_FLASH_SEC_SIZE) bs (fl_erase fl sec f)) = bs)
     \<and> (\<forall>sec sec' n f. sec' \<noteq> sec \<and> n \<le> SPI_FLASH_SEC_SIZE \<longrightarrow>
          fl_read fl (sec' * SPI_FLASH_SEC_SIZE) n (fl_erase fl sec f) = fl_read fl (sec' * SPI_FLASH_SEC_SIZE) n f)
     \<and> (\<forall>sec sec' bs n f. sec' \<noteq> sec \<and> n \<le> SPI_FLASH_SEC_SIZE \<and> length bs \<le> SPI_FLASH_SEC_SIZE \<longrightarrow>
          fl_read fl (sec' * SPI_FLASH_SEC_SIZE) n (fl_write fl (sec * SPI_FLASH_SEC_SIZE) bs f) = fl_read fl (sec' * SPI_FLASH_SEC_SIZE) n f)"

text \<open>A NOR flash: erasing sets all bits of a sector, writing clears bits.\<close>

definition nor_flash :: flash_ops where
  "nor_flash = \<lparr>fl_read = (\<lambda>a n f. map f [a..<a + n]),
     fl_erase = (\<lambda>sec f a. if a div SPI_FLASH_SEC_SIZE = sec then 0xFF else f a),
     fl_write = (\<lambda>addr bs f a. if addr \<le> a \<and> a < addr + length bs then f a AND bs ! (a - addr) else f a)\<rparr>"

lemma sector_of: "i < SPI_FLASH_SEC_SIZE \<Longrightarrow> (sec * SPI_FLASH_SEC_SIZE + i) div SPI_FLASH_SEC_SIZE = sec"
  by (simp add: SPI_FLASH_SEC_SIZE_def)

lemma nor_flash_ok: "flash_ok nor_flash"
proof -
  have ff: "(0xFF :: u8) AND b = b" for b
  proof -
    have "(0xFF :: u8) = mask 8" by (simp add: mask_eq_exp_minus_1)
    then show ?thesis by (simp add: bit_eq_iff bit_simps)
  qed
  have rd: "fl_read nor_flash a n f = map f [a..<a + n]" for a n f by (simp add: nor_flash_def)
  have w: "map (fl_write nor_flash (sec * SPI_FLASH_SEC_SIZE) bs (fl_erase nor_flash sec f))
      [sec * SPI_FLASH_SEC_SIZE..<sec * SPI_FLASH_SEC_SIZE + length bs] = bs" if "length bs \<le> SPI_FLASH_SEC_SIZE" for sec bs f
    using that sector_of [of _ sec] ff by (intro nth_equalityI) (auto simp: nor_flash_def)
  have e: "map (fl_erase nor_flash sec f) [sec * SPI_FLASH_SEC_SIZE..<sec * SPI_FLASH_SEC_SIZE + n] = replicate n 0xFF"
    if "n \<le> SPI_FLASH_SEC_SIZE" for sec n f
    using that sector_of [of _ sec] by (intro nth_equalityI) (auto simp: nor_flash_def)
  have k: "fl_erase nor_flash sec f (sec' * SPI_FLASH_SEC_SIZE + i) = f (sec' * SPI_FLASH_SEC_SIZE + i)"
    if "sec' \<noteq> sec" "i < SPI_FLASH_SEC_SIZE" for sec sec' i f
    using that sector_of by (simp add: nor_flash_def)
  have l: "fl_write nor_flash (sec * SPI_FLASH_SEC_SIZE) bs f (sec' * SPI_FLASH_SEC_SIZE + i) = f (sec' * SPI_FLASH_SEC_SIZE + i)"
    if "sec' \<noteq> sec" "i < SPI_FLASH_SEC_SIZE" "length bs \<le> SPI_FLASH_SEC_SIZE" for sec sec' i bs f
  proof -
    have "sec' * SPI_FLASH_SEC_SIZE + i < sec * SPI_FLASH_SEC_SIZE \<or> sec * SPI_FLASH_SEC_SIZE + SPI_FLASH_SEC_SIZE \<le> sec' * SPI_FLASH_SEC_SIZE + i"
      using that(1,2) unfolding SPI_FLASH_SEC_SIZE_def by arith
    with that(3) show ?thesis by (auto simp: nor_flash_def)
  qed
  show ?thesis
    unfolding flash_ok_def rd
  proof (intro conjI allI impI)
    fix sec sec' n and f :: "nat \<Rightarrow> u8" and bs :: "u8 list"
    show "map (fl_erase nor_flash sec f) [sec' * SPI_FLASH_SEC_SIZE..<sec' * SPI_FLASH_SEC_SIZE + n]
        = map f [sec' * SPI_FLASH_SEC_SIZE..<sec' * SPI_FLASH_SEC_SIZE + n]" if "sec' \<noteq> sec \<and> n \<le> SPI_FLASH_SEC_SIZE"
      using that by (intro nth_equalityI) (simp_all add: k)
    show "map (fl_write nor_flash (sec * SPI_FLASH_SEC_SIZE) bs f) [sec' * SPI_FLASH_SEC_SIZE..<sec' * SPI_FLASH_SEC_SIZE + n]
        = map f [sec' * SPI_FLASH_SEC_SIZE..<sec' * SPI_FLASH_SEC_SIZE + n]"
      if "sec' \<noteq> sec \<and> n \<le> SPI_FLASH_SEC_SIZE \<and> length bs \<le> SPI_FLASH_SEC_SIZE"
      using that by (intro nth_equalityI) (simp_all add: l)
  qed (simp_all add: w e)
qed

section \<open>What is stored\<close>

definition stored :: "flash_ops \<Rightarrow> (nat \<Rightarrow> u8) \<Rightarrow> u8 list" where
  "stored fl f =
     (let copy = (if hd (fl_read fl ((CFG_LOCATION + 3) * SPI_FLASH_SEC_SIZE) sizeof_SAVE_FLAG f) = 0 then 0 else 1)
      in fl_read fl ((CFG_LOCATION + copy) * SPI_FLASH_SEC_SIZE) sizeof_SYSCFG f)"

fun apply_call :: "flash_ops \<Rightarrow> io_event \<Rightarrow> (nat \<Rightarrow> u8) \<Rightarrow> nat \<Rightarrow> u8" where
  "apply_call fl (Call (Io (Spi_flash_erase_sector sec))) f = fl_erase fl (unat sec) f"
| "apply_call fl (Call (Io (Spi_flash_write addr bs))) f = fl_write fl (unat addr) bs f"
| "apply_call fl e f = f"

text \<open>The flash after some of the calls of a log.\<close>

definition replay :: "flash_ops \<Rightarrow> io_event list \<Rightarrow> (nat \<Rightarrow> u8) \<Rightarrow> nat \<Rightarrow> u8" where
  "replay fl es f = fold (apply_call fl) es f"

definition save_calls :: "u8 \<Rightarrow> u8 list \<Rightarrow> u8 list \<Rightarrow> io_event list" where
  "save_calls v cfg pads =
     (let k = (if v = 0 then 1 else 0)
      in [Call (Io (Spi_flash_erase_sector (of_nat (CFG_LOCATION + k)))),
          Call (Io (Spi_flash_write (of_nat ((CFG_LOCATION + k) * SPI_FLASH_SEC_SIZE)) cfg)),
          Call (Io (Spi_flash_erase_sector (of_nat (CFG_LOCATION + 3)))),
          Call (Io (Spi_flash_write (of_nat ((CFG_LOCATION + 3) * SPI_FLASH_SEC_SIZE)) (of_nat k # pads)))])"

text \<open>The variables of the module.\<close>

definition cfg_ok :: "mqtt_soc \<Rightarrow> bool" where
  "cfg_ok s \<longleftrightarrow> valid_range (ram s) (sysCfg s) sizeof_SYSCFG \<and> valid_range (ram s) (saveFlag s) sizeof_SAVE_FLAG
     \<and> disjoint_ranges (saveFlag s) sizeof_SAVE_FLAG (sysCfg s) sizeof_SYSCFG"

lemma store_bytes_effect:
  assumes "valid_range (ram s) a (length bs)"
  shows "\<exists>m. store_bytes a bs s = Some (s\<lparr>ram := m\<rparr>) \<and> bytes_at m a (length bs) = bs
    \<and> (\<forall>x. x < a \<or> a + length bs \<le> x \<longrightarrow> m x = ram s x) \<and> (\<forall>x. (m x = None) = (ram s x = None))"
  using poke_all_effect [OF assms] by (auto simp: store_bytes_def)

lemma read_flag_effect:
  assumes fl: "flash_ok fl" and ok: "cfg_ok s"
  shows "\<exists>m. read_flag fl s = Some (hd (fl_read fl ((CFG_LOCATION + 3) * SPI_FLASH_SEC_SIZE) sizeof_SAVE_FLAG (flash s)), s\<lparr>ram := m\<rparr>)
    \<and> cfg_ok (s\<lparr>ram := m\<rparr>) \<and> bytes_at m (sysCfg s) sizeof_SYSCFG = bytes_at (ram s) (sysCfg s) sizeof_SYSCFG
    \<and> (\<forall>x. (m x = None) = (ram s x = None))"
proof -
  let ?bs = "fl_read fl ((CFG_LOCATION + 3) * SPI_FLASH_SEC_SIZE) sizeof_SAVE_FLAG (flash s)"
  have l: "length ?bs = sizeof_SAVE_FLAG" using fl by (simp add: flash_ok_def)
  then obtain m where m: "store_bytes (saveFlag s) ?bs s = Some (s\<lparr>ram := m\<rparr>)" "bytes_at m (saveFlag s) sizeof_SAVE_FLAG = ?bs"
      "\<And>x. x < saveFlag s \<or> saveFlag s + sizeof_SAVE_FLAG \<le> x \<Longrightarrow> m x = ram s x" "\<And>x. (m x = None) = (ram s x = None)"
    using store_bytes_effect [of s "saveFlag s" ?bs] ok by (auto simp: cfg_ok_def)
  have ok': "cfg_ok (s\<lparr>ram := m\<rparr>)" using ok m(4) by (simp add: cfg_ok_def valid_range_iff)
  have "valid_range m (saveFlag s) sizeof_SAVE_FLAG" using ok' by (simp add: cfg_ok_def)
  then have "m (saveFlag s) \<noteq> None"
    unfolding valid_range_iff sizeof_SAVE_FLAG_def by (metis add.right_neutral zero_less_numeral)
  moreover have "the (m (saveFlag s)) = hd ?bs"
    using arg_cong [OF m(2), of hd] by (simp add: bytes_at_def sizeof_SAVE_FLAG_def upt_rec)
  ultimately have "m (saveFlag s) = Some (hd ?bs)" by auto
  moreover have "bytes_at m (sysCfg s) sizeof_SYSCFG = bytes_at (ram s) (sysCfg s) sizeof_SYSCFG"
    using ok by (intro bytes_at_cong m(3)) (auto simp: cfg_ok_def disjoint_ranges_def sizeof_SYSCFG_def sizeof_SAVE_FLAG_def)
  ultimately show ?thesis using m(1,4) ok' by (auto simp: read_flag_def spi_flash_read_def)
qed

lemma flag_write_effect:
  assumes ok: "cfg_ok s"
  shows "\<exists>s' pads. flag_write fl v s = Some s' \<and> length pads = 3
    \<and> log s' = log s @ [Call (Io (Spi_flash_erase_sector (of_nat (CFG_LOCATION + 3)))),
        Call (Io (Spi_flash_write (of_nat ((CFG_LOCATION + 3) * SPI_FLASH_SEC_SIZE)) (v # pads)))]
    \<and> flash s' = fl_write fl ((CFG_LOCATION + 3) * SPI_FLASH_SEC_SIZE) (v # pads) (fl_erase fl (CFG_LOCATION + 3) (flash s))"
proof -
  let ?a = "saveFlag s" and ?pads = "bytes_at (ram s) (saveFlag s + 1) 3"
  have val: "valid_range (ram s) ?a 4" using ok by (simp add: cfg_ok_def sizeof_SAVE_FLAG_def)
  then obtain w where "ram s ?a = Some w" unfolding valid_range_iff by (metis add.right_neutral not_None_eq zero_less_numeral)
  moreover have "valid_range ((ram s)(?a \<mapsto> v)) ?a 4" using val by (auto simp: valid_range_iff)
  moreover have "bytes_at ((ram s)(?a \<mapsto> v)) ?a 4 = v # ?pads"
    by (rule nth_equalityI) (auto simp: bytes_at_def nth_Cons' upt_rec)
  ultimately show ?thesis
    by (subst ex_comm, intro exI [of _ ?pads])
      (simp add: flag_write_def store8_def spi_flash_write_def spi_flash_erase_sector_def sizeof_SAVE_FLAG_def Let_def client_simps call_def)
qed

lemma sector_words:
  "k \<le> 3 \<Longrightarrow> unat (of_nat (CFG_LOCATION + k) :: u16) = CFG_LOCATION + k"
  "k \<le> 3 \<Longrightarrow> unat (of_nat ((CFG_LOCATION + k) * SPI_FLASH_SEC_SIZE) :: u32) = (CFG_LOCATION + k) * SPI_FLASH_SEC_SIZE"
  by (simp_all only: unat_of_nat) (simp_all add: CFG_LOCATION_def SPI_FLASH_SEC_SIZE_def take_bit_nat_eq_self)

lemma CFG_Save_effect:
  assumes fl: "flash_ok fl" and ok: "cfg_ok s"
  defines "v \<equiv> hd (fl_read fl ((CFG_LOCATION + 3) * SPI_FLASH_SEC_SIZE) sizeof_SAVE_FLAG (flash s))"
    and "cfg \<equiv> bytes_at (ram s) (sysCfg s) sizeof_SYSCFG"
  shows "\<exists>s' pads. CFG_Save fl s = Some s' \<and> length pads = 3 \<and> log s' = log s @ save_calls v cfg pads
    \<and> flash s' = replay fl (save_calls v cfg pads) (flash s)"
proof -
  obtain m where m: "read_flag fl s = Some (v, s\<lparr>ram := m\<rparr>)" "cfg_ok (s\<lparr>ram := m\<rparr>)" "bytes_at m (sysCfg s) sizeof_SYSCFG = cfg"
    using read_flag_effect [OF fl ok] unfolding v_def cfg_def by blast
  define k where "k = (if v = 0 then 1 else 0 :: nat)"
  have k: "k \<le> 3" by (simp add: k_def)
  let ?e = "Call (Io (Spi_flash_erase_sector (of_nat (CFG_LOCATION + k))))"
    and ?w = "Call (Io (Spi_flash_write (of_nat ((CFG_LOCATION + k) * SPI_FLASH_SEC_SIZE)) cfg))"
  have "valid_range m (sysCfg s) sizeof_SYSCFG" using m(2) by (simp add: cfg_ok_def)
  then obtain s1 where s1: "cfg_write fl k (s\<lparr>ram := m\<rparr>) = Some s1" "log s1 = log s @ [?e, ?w]" "ram s1 = m"
      "flash s1 = fl_write fl ((CFG_LOCATION + k) * SPI_FLASH_SEC_SIZE) cfg (fl_erase fl (CFG_LOCATION + k) (flash s))"
      "sysCfg s1 = sysCfg s" "saveFlag s1 = saveFlag s"
    using m(3) by (simp add: cfg_write_def spi_flash_write_def spi_flash_erase_sector_def Let_def call_def)
  have "cfg_ok s1" using m(2) s1(3,5,6) by (simp add: cfg_ok_def)
  from flag_write_effect [OF this, of fl "of_nat k"] obtain s' pads where s': "flag_write fl (of_nat k) s1 = Some s'" "length pads = 3"
      "log s' = log s1 @ [Call (Io (Spi_flash_erase_sector (of_nat (CFG_LOCATION + 3)))),
        Call (Io (Spi_flash_write (of_nat ((CFG_LOCATION + 3) * SPI_FLASH_SEC_SIZE)) (of_nat k # pads)))]"
      "flash s' = fl_write fl ((CFG_LOCATION + 3) * SPI_FLASH_SEC_SIZE) (of_nat k # pads) (fl_erase fl (CFG_LOCATION + 3) (flash s1))"
    by blast
  have "CFG_Save fl s = Some s'"
    using m(1) s1(1) s'(1) by (cases "v = 0") (simp_all add: CFG_Save_def k_def)
  moreover have "save_calls v cfg pads = [?e, ?w, Call (Io (Spi_flash_erase_sector (of_nat (CFG_LOCATION + 3)))),
        Call (Io (Spi_flash_write (of_nat ((CFG_LOCATION + 3) * SPI_FLASH_SEC_SIZE)) (of_nat k # pads)))]"
    unfolding save_calls_def k_def Let_def by simp
  moreover have "replay fl (save_calls v cfg pads) (flash s) = flash s'"
    unfolding calculation(2) replay_def s'(4) s1(4)
    by (simp only: fold_simps apply_call.simps sector_words(1) [OF k] sector_words(2) [OF k]
        sector_words(1) [OF order_refl] sector_words(2) [OF order_refl] comp_apply id_apply)
  ultimately show ?thesis using s'(2,3) s1(2) by (intro exI [of _ s'] exI [of _ pads]) simp
qed

text \<open>The sectors of the configuration.\<close>

definition rd :: "flash_ops \<Rightarrow> nat \<Rightarrow> nat \<Rightarrow> (nat \<Rightarrow> u8) \<Rightarrow> u8 list" where
  "rd fl j n f = fl_read fl ((CFG_LOCATION + j) * SPI_FLASH_SEC_SIZE) n f"

definition wr :: "flash_ops \<Rightarrow> nat \<Rightarrow> u8 list \<Rightarrow> (nat \<Rightarrow> u8) \<Rightarrow> nat \<Rightarrow> u8" where
  "wr fl j bs f = fl_write fl ((CFG_LOCATION + j) * SPI_FLASH_SEC_SIZE) bs f"

definition er :: "flash_ops \<Rightarrow> nat \<Rightarrow> (nat \<Rightarrow> u8) \<Rightarrow> nat \<Rightarrow> u8" where
  "er fl j f = fl_erase fl (CFG_LOCATION + j) f"

lemma sector_laws:
  assumes fl: "flash_ok fl" and n: "n \<le> SPI_FLASH_SEC_SIZE"
  shows "i \<noteq> j \<Longrightarrow> rd fl i n (er fl j f) = rd fl i n f"
    "i \<noteq> j \<Longrightarrow> length bs \<le> SPI_FLASH_SEC_SIZE \<Longrightarrow> rd fl i n (wr fl j bs f) = rd fl i n f"
    "rd fl j n (er fl j f) = replicate n 0xFF"
    "length bs = n \<Longrightarrow> rd fl j n (wr fl j bs (er fl j f)) = bs"
proof -
  show "rd fl i n (er fl j f) = rd fl i n f" if "i \<noteq> j"
    using fl n that unfolding flash_ok_def rd_def er_def by (metis add_left_cancel)
  show "rd fl i n (wr fl j bs f) = rd fl i n f" if "i \<noteq> j" "length bs \<le> SPI_FLASH_SEC_SIZE"
    using fl n that unfolding flash_ok_def rd_def wr_def by (metis add_left_cancel)
  show "rd fl j n (er fl j f) = replicate n 0xFF"
    using fl n unfolding flash_ok_def rd_def er_def by metis
  show "rd fl j n (wr fl j bs (er fl j f)) = bs" if "length bs = n"
    using fl n that unfolding flash_ok_def rd_def wr_def er_def by metis
qed

text \<open>The copy that is not current is written first; until the flag is erased or written, the other one is read.\<close>

lemma stored_steps:
  fixes v :: u8
  assumes fl: "flash_ok fl" and cfg: "length cfg = sizeof_SYSCFG" "length pads = 3"
    and v: "v = hd (rd fl 3 sizeof_SAVE_FLAG f)"
  defines "k \<equiv> if v = 0 then 1 else 0 :: nat"
  shows "stored fl (er fl k f) = stored fl f"
    "stored fl (wr fl k cfg (er fl k f)) = stored fl f"
    "stored fl (er fl 3 (wr fl k cfg (er fl k f))) \<in> {stored fl f, cfg}"
    "stored fl (wr fl 3 (of_nat k # pads) (er fl 3 (wr fl k cfg (er fl k f)))) = cfg"
proof -
  have n: "sizeof_SYSCFG \<le> SPI_FLASH_SEC_SIZE" "sizeof_SAVE_FLAG \<le> SPI_FLASH_SEC_SIZE" "length cfg \<le> SPI_FLASH_SEC_SIZE"
      "length (of_nat k # pads) \<le> SPI_FLASH_SEC_SIZE" "length (of_nat k # pads) = sizeof_SAVE_FLAG"
    using cfg by (simp_all add: sizeof_SYSCFG_def sizeof_SAVE_FLAG_def SPI_FLASH_SEC_SIZE_def)
  have ff: "hd (replicate sizeof_SAVE_FLAG (0xFF :: u8)) = 0xFF" by (simp add: sizeof_SAVE_FLAG_def)
  have st: "stored fl g = (if hd (rd fl 3 sizeof_SAVE_FLAG g) = 0 then rd fl 0 sizeof_SYSCFG g else rd fl 1 sizeof_SYSCFG g)" for g
    by (simp add: stored_def rd_def)
  note a = sector_laws [OF fl n(1)] and b = sector_laws [OF fl n(2)]
  have kk: "k \<noteq> 3" "3 \<noteq> k" "1 - k \<noteq> k" "1 - k \<noteq> 3" by (auto simp: k_def)
  let ?f1 = "er fl k f" and ?f2 = "wr fl k cfg (er fl k f)"
  let ?f3 = "er fl 3 ?f2" and ?f4 = "wr fl 3 (of_nat k # pads) (er fl 3 ?f2)"
  have flag: "rd fl 3 sizeof_SAVE_FLAG ?f1 = rd fl 3 sizeof_SAVE_FLAG f" "rd fl 3 sizeof_SAVE_FLAG ?f2 = rd fl 3 sizeof_SAVE_FLAG f"
      "rd fl 3 sizeof_SAVE_FLAG ?f3 = replicate sizeof_SAVE_FLAG 0xFF" "rd fl 3 sizeof_SAVE_FLAG ?f4 = of_nat k # pads"
    by (simp_all only: b(1) [OF kk(2)] b(2) [OF kk(2) n(3)] b(3) b(4) [OF n(5)])
  have other: "rd fl (1 - k) sizeof_SYSCFG ?f1 = rd fl (1 - k) sizeof_SYSCFG f" "rd fl (1 - k) sizeof_SYSCFG ?f2 = rd fl (1 - k) sizeof_SYSCFG f"
      "rd fl (1 - k) sizeof_SYSCFG ?f3 = rd fl (1 - k) sizeof_SYSCFG f"
    by (simp_all only: a(1) [OF kk(3)] a(1) [OF kk(4)] a(2) [OF kk(3) n(3)])
  have own: "rd fl k sizeof_SYSCFG ?f3 = cfg" "rd fl k sizeof_SYSCFG ?f4 = cfg"
    by (simp_all only: a(1) [OF kk(1)] a(2) [OF kk(1) n(4)] a(4) [OF cfg(1)])
  have "stored fl (er fl k f) = stored fl f \<and> stored fl (wr fl k cfg (er fl k f)) = stored fl f
    \<and> stored fl (er fl 3 (wr fl k cfg (er fl k f))) \<in> {stored fl f, cfg}
    \<and> stored fl (wr fl 3 (of_nat k # pads) (er fl 3 (wr fl k cfg (er fl k f)))) = cfg"
  proof (cases "v = 0")
    case True
    then have "k = 1" "hd (rd fl 3 sizeof_SAVE_FLAG f) = 0" by (simp_all add: k_def v)
    with flag other own ff show ?thesis unfolding st by simp
  next
    case False
    then have "k = 0" "hd (rd fl 3 sizeof_SAVE_FLAG f) \<noteq> 0" by (simp_all add: k_def v)
    with flag other own ff show ?thesis unfolding st by simp
  qed
  then show "stored fl (er fl k f) = stored fl f"
    "stored fl (wr fl k cfg (er fl k f)) = stored fl f"
    "stored fl (er fl 3 (wr fl k cfg (er fl k f))) \<in> {stored fl f, cfg}"
    "stored fl (wr fl 3 (of_nat k # pads) (er fl 3 (wr fl k cfg (er fl k f)))) = cfg" by blast+
qed

lemma replay_save_calls:
  assumes "k = (if v = 0 then 1 else 0 :: nat)"
  shows "replay fl (take j (save_calls v cfg pads)) f \<in>
    {f, er fl k f, wr fl k cfg (er fl k f), er fl 3 (wr fl k cfg (er fl k f)), wr fl 3 (of_nat k # pads) (er fl 3 (wr fl k cfg (er fl k f)))}"
    and "replay fl (save_calls v cfg pads) f = wr fl 3 (of_nat k # pads) (er fl 3 (wr fl k cfg (er fl k f)))"
proof -
  define e where "e = Call (Io (Spi_flash_erase_sector (of_nat (CFG_LOCATION + k))))"
  define w where "w = Call (Io (Spi_flash_write (of_nat ((CFG_LOCATION + k) * SPI_FLASH_SEC_SIZE)) cfg))"
  define e3 where "e3 = Call (Io (Spi_flash_erase_sector (of_nat (CFG_LOCATION + 3))))"
  define w3 where "w3 = Call (Io (Spi_flash_write (of_nat ((CFG_LOCATION + 3) * SPI_FLASH_SEC_SIZE)) (of_nat k # pads)))"
  have c: "save_calls v cfg pads = [e, w, e3, w3]"
    unfolding save_calls_def Let_def e_def w_def e3_def w3_def assms by simp
  have k: "k \<le> 3" using assms by simp
  have a: "apply_call fl e g = er fl k g" "apply_call fl w g = wr fl k cfg g" "apply_call fl e3 g = er fl 3 g"
      "apply_call fl w3 g = wr fl 3 (of_nat k # pads) g" for g
    unfolding e_def w_def e3_def w3_def er_def wr_def apply_call.simps sector_words(1) [OF k] sector_words(2) [OF k]
      sector_words(1) [OF order_refl] sector_words(2) [OF order_refl] by (rule refl)+
  show "replay fl (save_calls v cfg pads) f = wr fl 3 (of_nat k # pads) (er fl 3 (wr fl k cfg (er fl k f)))"
    unfolding c replay_def by (simp add: a)
  have "j = 0 \<or> j = 1 \<or> j = 2 \<or> j = 3 \<or> 4 \<le> j" by arith
  then show "replay fl (take j (save_calls v cfg pads)) f \<in>
    {f, er fl k f, wr fl k cfg (er fl k f), er fl 3 (wr fl k cfg (er fl k f)), wr fl 3 (of_nat k # pads) (er fl 3 (wr fl k cfg (er fl k f)))}"
    unfolding c replay_def by (elim disjE) (simp_all add: a)
qed

lemma CFG_Save_atomic:
  assumes fl: "flash_ok fl" and ok: "cfg_ok s" and new: "new = bytes_at (ram s) (sysCfg s) sizeof_SYSCFG"
  shows "\<exists>s' calls. CFG_Save fl s = Some s' \<and> log s' = log s @ calls \<and> flash s' = replay fl calls (flash s)
    \<and> stored fl (flash s') = new \<and> (\<forall>j. stored fl (replay fl (take j calls) (flash s)) \<in> {stored fl (flash s), new})"
proof -
  let ?v = "hd (rd fl 3 sizeof_SAVE_FLAG (flash s))"
  define k where "k = (if ?v = 0 then 1 else 0 :: nat)"
  obtain s' pads where s': "CFG_Save fl s = Some s'" "length pads = 3" "log s' = log s @ save_calls ?v new pads"
      "flash s' = replay fl (save_calls ?v new pads) (flash s)"
    using CFG_Save_effect [OF fl ok] unfolding new rd_def by blast
  have len: "length new = sizeof_SYSCFG" by (simp add: new)
  note st = stored_steps [of fl new pads ?v "flash s", OF fl len s'(2) refl, folded k_def]
    and r = replay_save_calls(1) [OF k_def, of fl _ new pads "flash s"] replay_save_calls(2) [OF k_def, of fl new pads "flash s"]
  have "stored fl (replay fl (take j (save_calls ?v new pads)) (flash s)) \<in> {stored fl (flash s), new}" for j
    using r(1) [of j] st by auto
  then show ?thesis
    using s' r(2) st(4) by (intro exI [of _ s'] exI [of _ "save_calls ?v new pads"]) simp
qed

lemma load_holder:
  assumes "bytes_at m a 4 = le32 CFG_HOLDER" "valid_range m a 4" "ram s = m"
  shows "load32 a s = Some CFG_HOLDER"
proof -
  have "m (a + i) = Some (le32 CFG_HOLDER ! i)" if "i < 4" for i
    using assms(2) that arg_cong [OF assms(1), of "\<lambda>l. l ! i"] by (auto simp: valid_range_iff)
  from this [of 0] this [of 1] this [of 2] this [of 3]
  show ?thesis using assms(3) by (simp add: load32_def le32_def CFG_HOLDER_def)
qed

lemma CFG_Load_effect:
  assumes fl: "flash_ok fl" and ok: "cfg_ok s" and h: "take 4 (stored fl (flash s)) = le32 CFG_HOLDER"
  shows "\<exists>s'. CFG_Load fl s = Some s' \<and> bytes_at (ram s') (sysCfg s') sizeof_SYSCFG = stored fl (flash s) \<and> flash s' = flash s"
proof -
  let ?v = "hd (fl_read fl ((CFG_LOCATION + 3) * SPI_FLASH_SEC_SIZE) sizeof_SAVE_FLAG (flash s))"
  obtain m where m: "read_flag fl s = Some (?v, s\<lparr>ram := m\<rparr>)" "cfg_ok (s\<lparr>ram := m\<rparr>)"
    using read_flag_effect [OF fl ok] by blast
  let ?bs = "stored fl (flash s)"
  have bs: "?bs = fl_read fl ((CFG_LOCATION + (if ?v = 0 then 0 else 1)) * SPI_FLASH_SEC_SIZE) sizeof_SYSCFG (flash s)"
    by (simp add: stored_def)
  then have len: "length ?bs = sizeof_SYSCFG" using fl by (simp add: flash_ok_def)
  obtain m' where m': "store_bytes (sysCfg s) ?bs (s\<lparr>ram := m\<rparr>) = Some (s\<lparr>ram := m'\<rparr>)" "bytes_at m' (sysCfg s) sizeof_SYSCFG = ?bs"
      "\<And>x. (m' x = None) = (m x = None)"
    using store_bytes_effect [of "s\<lparr>ram := m\<rparr>" "sysCfg s" ?bs] m(2) len by (auto simp: cfg_ok_def)
  have "valid_range m' (sysCfg s) sizeof_SYSCFG" using m(2) m'(3) by (simp add: cfg_ok_def valid_range_iff)
  moreover have "bytes_at m' (sysCfg s) 4 = le32 CFG_HOLDER"
    using h m'(2) take_bytes_at [of 4 sizeof_SYSCFG m' "sysCfg s"] by (simp add: sizeof_SYSCFG_def)
  ultimately have "load32 (cfg_holder (s\<lparr>ram := m'\<rparr>)) (s\<lparr>ram := m'\<rparr>) = Some CFG_HOLDER"
    by (intro load_holder) (auto simp: cfg_holder_def valid_range_iff sizeof_SYSCFG_def)
  then have "CFG_Load fl s = Some (s\<lparr>ram := m'\<rparr>)"
    using m(1) m'(1) bs by (simp add: CFG_Load_def spi_flash_read_def)
  then show ?thesis using m'(2) by simp
qed

section \<open>Properties\<close>

text \<open>C12. Saving the configuration survives a failure of the power: if it stops after any of the flash operations, the
  configuration that is read afterwards is the one from before or the new one; at the end it is the new one.\<close>

theorem CFG_Save_power_fail:
  assumes fl: "flash_ok fl" and ok: "cfg_ok s" and new: "new = bytes_at (ram s) (sysCfg s) sizeof_SYSCFG"
  shows "\<exists>s' calls. CFG_Save fl s = Some s' \<and> log s' = log s @ calls \<and> flash s' = replay fl calls (flash s)
    \<and> stored fl (flash s') = new \<and> (\<forall>j. stored fl (replay fl (take j calls) (flash s)) \<in> {stored fl (flash s), new})"
  using CFG_Save_atomic [OF assms] .

text \<open>A board with a configuration in memory.\<close>

definition demo_board :: mqtt_soc where
  "demo_board = demo_client\<lparr>ram := (\<lambda>a. if 5000 \<le> a \<and> a < 5004 then Some (le32 CFG_HOLDER ! (a - 5000)) else demo_ram a)\<rparr>"

lemma demo_board_ok:
  "cfg_ok demo_board" "take 4 (bytes_at (ram demo_board) (sysCfg demo_board) sizeof_SYSCFG) = le32 CFG_HOLDER"
proof -
  have c: "sysCfg demo_board = 5000" "saveFlag demo_board = 5400" by (simp_all add: demo_board_def demo_client_def)
  show "cfg_ok demo_board"
    unfolding cfg_ok_def c
    by (auto simp: demo_board_def valid_range_iff demo_ram_def sizeof_SYSCFG_def sizeof_SAVE_FLAG_def disjoint_ranges_def)
  have "take 4 (bytes_at (ram demo_board) 5000 sizeof_SYSCFG) = bytes_at (ram demo_board) 5000 4"
    by (simp add: take_bytes_at sizeof_SYSCFG_def)
  also have "\<dots> = le32 CFG_HOLDER"
    by (rule nth_equalityI) (auto simp: demo_board_def le32_def)
  finally show "take 4 (bytes_at (ram demo_board) (sysCfg demo_board) sizeof_SYSCFG) = le32 CFG_HOLDER" by (simp add: c)
qed

theorem CFG_Save_power_fail_witness:
  "\<exists>s. CFG_Save nor_flash demo_board = Some s \<and>
     stored nor_flash (flash s) = bytes_at (ram demo_board) (sysCfg demo_board) sizeof_SYSCFG"
  using CFG_Save_power_fail [OF nor_flash_ok demo_board_ok(1) refl] by blast

text \<open>What is saved is loaded: after a restart with the flash that \<^verbatim>\<open>CFG_Save\<close> left, \<^verbatim>\<open>CFG_Load\<close> puts exactly the bytes of
  the saved configuration back into memory, when they carry the holder mark, and does not touch the flash.\<close>

theorem CFG_roundtrip:
  assumes fl: "flash_ok fl" and ok: "cfg_ok s" "cfg_ok s2" and f: "CFG_Save fl s = Some s1" "flash s2 = flash s1"
    and cfg: "cfg = bytes_at (ram s) (sysCfg s) sizeof_SYSCFG" "take 4 cfg = le32 CFG_HOLDER"
  shows "\<exists>s3. CFG_Load fl s2 = Some s3 \<and> bytes_at (ram s3) (sysCfg s3) sizeof_SYSCFG = cfg \<and> flash s3 = flash s2"
proof -
  have "stored fl (flash s2) = cfg" using CFG_Save_atomic [OF fl ok(1) cfg(1)] f by auto
  with CFG_Load_effect [OF fl ok(2)] cfg(2) show ?thesis by simp
qed

theorem CFG_roundtrip_witness:
  "\<exists>s1 s3. CFG_Save nor_flash demo_board = Some s1 \<and> CFG_Load nor_flash (demo_board\<lparr>flash := flash s1\<rparr>) = Some s3 \<and>
     bytes_at (ram s3) (sysCfg s3) sizeof_SYSCFG = bytes_at (ram demo_board) (sysCfg demo_board) sizeof_SYSCFG"
proof -
  obtain s1 where s1: "CFG_Save nor_flash demo_board = Some s1"
    using CFG_Save_atomic [OF nor_flash_ok demo_board_ok(1) refl] by blast
  have ok2: "cfg_ok (demo_board\<lparr>flash := flash s1\<rparr>)" using demo_board_ok(1) by (simp add: cfg_ok_def)
  from CFG_roundtrip [OF nor_flash_ok demo_board_ok(1) ok2 s1 _ refl demo_board_ok(2)] s1 show ?thesis by auto
qed

end
