(* ===== verification/Mqtt_Main.thy ===== *)
theory Mqtt_Main
  imports Mqtt_States Mqtt_Config
begin

text \<open>
  The rest of the MQTT program: the station connection, \<^verbatim>\<open>modules/wifi.c\<close>, and the application,
  \<^verbatim>\<open>user/user_main.c\<close>, whose callbacks instantiate the parameter of the client; the runs of the whole program follow the state machine, and the data
  callback is followed on a delivered packet and on the packet whose length is taken for 0. \<^verbatim>\<open>uart_init\<close> belongs to a driver that is
  not in the project: it is an argument.
\<close>

section \<open>wifi.c\<close>

definition STATION_IDLE :: u8 where "STATION_IDLE = 0"
definition STATION_WRONG_PASSWORD :: u8 where "STATION_WRONG_PASSWORD = 2"
definition STATION_NO_AP_FOUND :: u8 where "STATION_NO_AP_FOUND = 3"
definition STATION_CONNECT_FAIL :: u8 where "STATION_CONNECT_FAIL = 4"
definition STATION_GOT_IP :: u8 where "STATION_GOT_IP = 5"

definition connect_status :: "mqtt_soc \<Rightarrow> u8 \<times> mqtt_soc" where
  "connect_status s = (let (v, s) = ask wifi_station_get_connect_status s in (ucast v, s))"

definition arm_linker :: "u32 \<Rightarrow> mqtt_soc \<Rightarrow> mqtt_soc" where
  "arm_linker ms s = os_timer_arm WiFiLinker ms False (os_timer_setfn WiFiLinker wifi_check_ip_cb s)"

text \<open>The status is asked for again in each test of the chain.\<close>

definition retry_connect :: "mqtt_soc \<Rightarrow> mqtt_soc" where
  "retry_connect s =
     (let (v, s) = connect_status s
      in if v = STATION_WRONG_PASSWORD then call (System Wifi_station_connect) s
         else let (v, s) = connect_status s
              in if v = STATION_NO_AP_FOUND then call (System Wifi_station_connect) s
                 else let (v, s) = connect_status s
                      in if v = STATION_CONNECT_FAIL then call (System Wifi_station_connect) s else s)"

definition wifi_check_ip :: "(callback \<Rightarrow> u8 \<Rightarrow> mqtt_soc \<Rightarrow> mqtt_soc option) \<Rightarrow> mqtt_soc \<Rightarrow> mqtt_soc option" where
  "wifi_check_ip cb s =
     (let s = os_timer_disarm WiFiLinker s;
          (addr, s) = ask wifi_get_ip_info_ip s;
          (v, s) = connect_status s;
          s = s\<lparr>wifiStatus := v\<rparr>;
          s = (if v = STATION_GOT_IP \<and> addr \<noteq> 0 then arm_linker 2000 s else arm_linker 500 (retry_connect s))
      in if wifiStatus s \<noteq> lastWifiStatus s
         then let s = s\<lparr>lastWifiStatus := wifiStatus s\<rparr>
              in case wifiCb s of None \<Rightarrow> Some s | Some f \<Rightarrow> cb f (wifiStatus s) s
         else Some s)"

text \<open>\<^verbatim>\<open>os_sprintf(dst, "%s", str)\<close> into a field of \<open>n\<close> bytes of the zeroed \<^verbatim>\<open>struct station_config\<close>; a string that
  does not fit with its zero byte overruns the field.\<close>

definition sprintf_field :: "nat \<Rightarrow> ptr \<Rightarrow> mqtt_soc \<Rightarrow> u8 list option" where
  "sprintf_field n str s =
     do { k \<leftarrow> strlen str (ram s);
          if k < n then Some (bytes_at (ram s) str k @ replicate (n - k) 0) else None }"

definition WIFI_Connect :: "ptr \<Rightarrow> ptr \<Rightarrow> callback \<Rightarrow> mqtt_soc \<Rightarrow> mqtt_soc option" where
  "WIFI_Connect ssid pass cb s =
     do { let s = call (System (Wifi_set_opmode_current 1)) s;
          let s = s\<lparr>wifiCb := Some cb\<rparr>;
          f_ssid \<leftarrow> sprintf_field 32 ssid s;
          f_pass \<leftarrow> sprintf_field 64 pass s;
          let s = call (System (Wifi_station_set_config_current (f_ssid @ f_pass @ replicate 7 0))) s;
          let s = arm_linker 1000 (os_timer_disarm WiFiLinker s);
          Some (call (System Wifi_station_connect) s) }"

section \<open>user_main.c\<close>

definition wifiConnectCb :: "u8 \<Rightarrow> mqtt_soc \<Rightarrow> mqtt_soc option" where
  "wifiConnectCb status s = (if status = STATION_GOT_IP then MQTT_Connect s else Some (MQTT_Disconnect s))"

definition mqttConnectedCb :: "mqtt_soc \<Rightarrow> mqtt_soc option" where
  "mqttConnectedCb s =
     do { (_, s) \<leftarrow> MQTT_Subscribe (lit s ''/mqtt/topic/0'') 0 s;
          (_, s) \<leftarrow> MQTT_Subscribe (lit s ''/mqtt/topic/1'') 1 s;
          (_, s) \<leftarrow> MQTT_Subscribe (lit s ''/mqtt/topic/2'') 2 s;
          (_, s) \<leftarrow> MQTT_Publish (lit s ''/mqtt/topic/0'') (lit s ''hello0'') 6 0 0 s;
          (_, s) \<leftarrow> MQTT_Publish (lit s ''/mqtt/topic/1'') (lit s ''hello1'') 6 1 0 s;
          (_, s) \<leftarrow> MQTT_Publish (lit s ''/mqtt/topic/2'') (lit s ''hello2'') 6 2 0 s;
          Some s }"

definition mqttDisconnectedCb :: "mqtt_soc \<Rightarrow> mqtt_soc option" where
  "mqttDisconnectedCb s = Some s"

definition mqttPublishedCb :: "mqtt_soc \<Rightarrow> mqtt_soc option" where
  "mqttPublishedCb s = Some s"

text \<open>The strings are printed by \<^verbatim>\<open>INFO\<close>.\<close>

definition mqttDataCb :: "ptr \<Rightarrow> u16 \<Rightarrow> ptr \<Rightarrow> u16 \<Rightarrow> mqtt_soc \<Rightarrow> mqtt_soc option" where
  "mqttDataCb topic topic_len data data_len s =
     do { let (topicBuf, s) = os_zalloc (unat topic_len + 1) s;
          let (dataBuf, s) = os_zalloc (unat data_len + 1) s;
          s \<leftarrow> os_memcpy topicBuf topic (unat topic_len) s;
          s \<leftarrow> store8 (topicBuf + unat topic_len) 0 s;
          s \<leftarrow> os_memcpy dataBuf data (unat data_len) s;
          s \<leftarrow> store8 (dataBuf + unat data_len) 0 s;
          s \<leftarrow> os_free topicBuf s;
          os_free dataBuf s }"

text \<open>The function pointers of the program.\<close>

definition mqtt_callbacks :: mqtt_app where
  "mqtt_callbacks =
     \<lparr>on_event = (\<lambda>f s. if f = mqttConnectedCb_fn then mqttConnectedCb s
                    else if f = mqttDisconnectedCb_fn then mqttDisconnectedCb s
                    else if f = mqttPublishedCb_fn then mqttPublishedCb s else None),
      on_data = (\<lambda>f tp tn dp dn s. if f = mqttDataCb_fn then mqttDataCb tp tn dp dn s else None)\<rparr>"

definition wifi_callbacks :: "callback \<Rightarrow> u8 \<Rightarrow> mqtt_soc \<Rightarrow> mqtt_soc option" where
  "wifi_callbacks f status s = (if f = wifiConnectCb_fn then wifiConnectCb status s else None)"

definition user_init_mqtt :: "flash_ops \<Rightarrow> (u32 \<Rightarrow> u32 \<Rightarrow> mqtt_soc \<Rightarrow> mqtt_soc option) \<Rightarrow> mqtt_soc \<Rightarrow> mqtt_soc option" where
  "user_init_mqtt fl uart_init s =
     do { s \<leftarrow> uart_init 115200 115200 s;
          let s = call (Os (Os_delay_us 60000)) s;
          s \<leftarrow> CFG_Load fl s;
          prt \<leftarrow> load32 (mqtt_port s) s;
          sec \<leftarrow> load8 (cfg_security s) s;
          s \<leftarrow> MQTT_InitConnection (mqtt_host s) prt sec s;
          keep \<leftarrow> load32 (mqtt_keepalive s) s;
          s \<leftarrow> MQTT_InitClient (device_id s) (mqtt_user s) (mqtt_pass s) keep 1 s;
          s \<leftarrow> MQTT_InitLWT (lit s ''/lwt'') (lit s ''offline'') 0 0 s;
          let s = MQTT_OnConnected mqttConnectedCb_fn s;
          let s = MQTT_OnDisconnected mqttDisconnectedCb_fn s;
          let s = MQTT_OnPublished mqttPublishedCb_fn s;
          let s = MQTT_OnData mqttDataCb_fn s;
          WIFI_Connect (sta_ssid s) (sta_pwd s) wifiConnectCb_fn s }"

section \<open>The program follows the state machine\<close>

lemma heap_cstate:
  "cstate (snd (os_zalloc n s)) = cstate s" "os_memcpy d p n s = Some s' \<Longrightarrow> cstate s' = cstate s"
  "store8 a v s = Some s' \<Longrightarrow> cstate s' = cstate s" "os_free p s = Some s' \<Longrightarrow> cstate s' = cstate s"
  by (auto simp: os_zalloc_def os_alloc_def ask_def Let_def os_memcpy_def store8_def os_free_def split: if_splits option.splits)

lemma mqttDataCb_cstate: "mqttDataCb tp tn dp dn s = Some s' \<Longrightarrow> cstate s' = cstate s"
  by (auto simp: mqttDataCb_def Let_def case_prod_beta split: Option.bind_splits dest!: heap_cstate(2-4))
    (metis heap_cstate(1))+

lemma mqttConnectedCb_cstate: "mqttConnectedCb s = Some s' \<Longrightarrow> cstate s' = cstate s"
  by (auto simp: mqttConnectedCb_def split: Option.bind_splits dest!: api_cstate(1,2))

lemma mqtt_callbacks_keep: "cb_keeps mqtt_callbacks"
  by (auto simp: cb_keeps_def mqtt_callbacks_def mqttDisconnectedCb_def mqttPublishedCb_def
      split: if_splits dest: mqttDataCb_cstate mqttConnectedCb_cstate)

corollary mqtt_program_refines:
  assumes "run mqtt_callbacks es s = Some s'"
  shows "conn_run es (cstate s) (cstate s')"
  using run_refines [OF mqtt_callbacks_keep assms] .

section \<open>The data callback\<close>

text \<open>The callback copies the topic and the data into two blocks of the heap. From the null address nothing can be copied.\<close>

lemma mqttDataCb_NULL:
  assumes "ram s NULL = None" "0 < unat tn"
  shows "mqttDataCb NULL tn dp dn s = None"
proof -
  have z: "ram (snd (os_zalloc n t)) NULL = ram t NULL" for n and t :: mqtt_soc
    by (simp add: os_zalloc_def os_alloc_def ask_def Let_def fill_block_def)
  have "os_memcpy d NULL (unat tn) t = None" if "ram t NULL = None" for d and t :: mqtt_soc
    using that assms(2) by (auto simp: os_memcpy_def memcpy_def valid_range_iff)
  then show ?thesis using assms(1) by (simp add: mqttDataCb_def Let_def case_prod_beta z)
qed

lemma copy_string:
  assumes "blocks s p = Some (n + 1)" "valid_range (ram s) p (n + 1)" "valid_range (ram s) a n" "disjoint_ranges p (n + 1) a n"
  shows "\<exists>m. do { s \<leftarrow> os_memcpy p a n s; store8 (p + n) 0 s } = Some (s\<lparr>ram := m\<rparr>) \<and> (\<forall>x. (m x = None) = (ram s x = None))"
proof -
  have v: "valid_range (ram s) p n" "ram s (p + n) \<noteq> None" using assms(2) by (simp_all add: valid_range_iff)
  have "disjoint_ranges p n a n" using assms(4) by (auto simp: disjoint_ranges_def)
  then obtain m where m: "memcpy p a n (ram s) = Some m" using memcpy_Some [OF v(1) assms(3)] by blast
  then obtain w where "m (p + n) = Some w" using v(2) memcpy_defined [OF m, of "p + n"] by auto
  then show ?thesis using memcpy_defined [OF m] v(2)
    by (intro exI [of _ "m(p + n \<mapsto> 0)"]) (auto simp: os_memcpy_def m store8_def)
qed

lemma zalloc_block:
  assumes "unat (sdk_ret s (clk s) (os_malloc_addr n)) = p" "p \<noteq> NULL"
  shows "os_zalloc n s = (p, s\<lparr>clk := Suc (clk s), ram := fill_block p n (\<lambda>a. 0) (ram s), blocks := (blocks s)(p \<mapsto> n)\<rparr>)"
  using assms by (simp add: os_zalloc_def os_alloc_def ask_def Let_def)

lemma valid_fill_block: "valid_range m a k \<Longrightarrow> valid_range (fill_block p n f m) a k" "valid_range (fill_block p n f m) p n"
  by (auto simp: valid_range_iff fill_block_def)

lemma mqttDataCb_returns:
  assumes p: "unat (sdk_ret s (clk s) (os_malloc_addr (unat tn + 1))) = p" "p \<noteq> NULL"
    and q: "unat (sdk_ret s (Suc (clk s)) (os_malloc_addr (unat dn + 1))) = q" "q \<noteq> NULL"
    and v: "valid_range (ram s) tp (unat tn)" "valid_range (ram s) dp (unat dn)"
    and d: "disjoint_ranges p (unat tn + 1) q (unat dn + 1)" "disjoint_ranges p (unat tn + 1) tp (unat tn)"
      "disjoint_ranges q (unat dn + 1) dp (unat dn)"
  shows "\<exists>s'. mqttDataCb tp tn dp dn s = Some s' \<and> client s' = client s"
proof -
  let ?r = "fill_block q (unat dn + 1) (\<lambda>a. 0) (fill_block p (unat tn + 1) (\<lambda>a. 0) (ram s))"
  let ?b = "(blocks s)(p \<mapsto> unat tn + 1, q \<mapsto> unat dn + 1)"
  let ?s = "s\<lparr>clk := Suc (Suc (clk s)), ram := ?r, blocks := ?b\<rparr>"
  have ne: "p \<noteq> q" using d(1) by (auto simp: disjoint_ranges_def)
  obtain m where m: "do { s \<leftarrow> os_memcpy p tp (unat tn) ?s; store8 (p + unat tn) 0 s } = Some (?s\<lparr>ram := m\<rparr>)"
      "\<And>x. (m x = None) = (?r x = None)"
    using copy_string [of ?s p "unat tn" tp] ne v(1) d(2) by (auto simp: valid_fill_block)
  have vm: "valid_range m a k" if "valid_range ?r a k" for a k using that m(2) by (simp add: valid_range_iff)
  obtain m' where m': "do { s \<leftarrow> os_memcpy q dp (unat dn) (?s\<lparr>ram := m\<rparr>); store8 (q + unat dn) 0 s } = Some (?s\<lparr>ram := m'\<rparr>)"
    using copy_string [of "?s\<lparr>ram := m\<rparr>" q "unat dn" dp] v(2) d(3) by (auto simp: valid_fill_block vm)
  have "mqttDataCb tp tn dp dn s = do { s \<leftarrow> do { s \<leftarrow> os_memcpy p tp (unat tn) ?s; store8 (p + unat tn) 0 s };
      s \<leftarrow> do { s \<leftarrow> os_memcpy q dp (unat dn) s; store8 (q + unat dn) 0 s }; s \<leftarrow> os_free p s; os_free q s }"
    using zalloc_block [OF p] q zalloc_block [of "s\<lparr>clk := Suc (clk s), ram := fill_block p (unat tn + 1) (\<lambda>a. 0) (ram s),
        blocks := (blocks s)(p \<mapsto> unat tn + 1)\<rparr>" "unat dn + 1" q]
    by (simp add: mqttDataCb_def)
  also have "\<dots> = do { s \<leftarrow> os_free p (?s\<lparr>ram := m'\<rparr>); os_free q s }" unfolding m(1) Option.bind.simps(2) m' by simp
  finally show ?thesis using p(2) q(2) ne by (simp add: os_free_def)
qed

section \<open>Properties\<close>

text \<open>The receiver of \<^verbatim>\<open>Mqtt_Recv\<close> with the data callback that \<^verbatim>\<open>user_init\<close> registers, and a heap whose blocks are at 7000,
  7200, and so on.\<close>

definition demo_program :: "u8 list \<Rightarrow> mqtt_soc" where
  "demo_program bs = MQTT_OnData mqttDataCb_fn ((demo_receiver bs)\<lparr>sdk_ret := (\<lambda>n q. 7000 + 200 * of_nat n)\<rparr>)"

lemma demo_program_sel [simp]:
  "connState (client (demo_program bs)) = MQTT_DATA" "mstate (demo_program bs) = mstate demo_client"
  "msgQueue (client (demo_program bs)) = msgQueue (client demo_client)" "dataCb (client (demo_program bs)) = Some mqttDataCb_fn"
  "ram (demo_program bs) = ram (demo_receiver bs)" "clk (demo_program bs) = 0" "log (demo_program bs) = []"
  "sdk_ret (demo_program bs) = (\<lambda>n q. 7000 + 200 * of_nat n)"
  by (simp_all add: demo_program_def MQTT_OnData_def client_simps demo_receiver_def demo_client_def)

lemma demo_program_ok: "length bs \<le> 100 \<Longrightarrow> client_ok (demo_program bs) []"
  by (rule client_ok_cong [OF demo_receiver_ok(1)])
    (simp_all add: demo_program_def MQTT_OnData_def client_simps)

lemma demo_program_stuck: "stuck (Some mqttDataCb_fn) 3500 (demo_program zero_length_header)"
proof -
  have l: "length zero_length_header \<le> 100" by (simp add: zero_length_header_def)
  have z: "ram (demo_receiver bs) NULL = None" for bs by (simp add: demo_receiver_def demo_ram_def)
  show ?thesis
    unfolding stuck_def using demo_program_ok [OF l] demo_receiver_ok(2) [OF l] z
    by (auto simp: MQTT_BUF_SIZE_def disjoint_ranges_def)
qed

theorem mqtt_tcpclient_recv_publish_witness:
  "\<exists>s'. mqtt_tcpclient_recv mqtt_callbacks 3500 10 (demo_program demo_publish) = Some s' \<and>
     (\<exists>s1. client_ok s1 [packet MQTT_MSG_TYPE_PUBACK 0 0 (id16 5)] \<and> str_at (ram s1) 2004 [0x61, 0x62] \<and> str_at (ram s1) 2008 [7, 8]
       \<and> Some s' = map_option post_task (mqttDataCb 2004 2 2008 2 s1))"
proof -
  have l: "unat (10 :: u16) = length demo_publish"
    by (simp add: demo_publish_def packet_def remaining_def publish_body_def)
  then have l': "length demo_publish \<le> 100" by simp
  let ?b = "publish_body [0x61, 0x62] 1 5 [7, 8]" and ?s = "demo_program demo_publish"
  have P: "str_at (ram ?s) 3500 (packet MQTT_MSG_TYPE_PUBLISH 1 0 ?b)" "unat (10 :: u16) = length (packet MQTT_MSG_TYPE_PUBLISH 1 0 ?b)"
    using demo_receiver_ok(2) [OF l'] l by (simp_all only: demo_publish_def demo_program_sel)
  have c: "connState (client ?s) \<in> {MQTT_DATA, MQTT_KEEPALIVE_SEND}" "in_buffer_length (mstate ?s) = int MQTT_BUF_SIZE"
      "5 \<le> unat (buffer_length (mconn ?s))" "unat (10 :: u16) < MQTT_BUF_SIZE"
      "disjoint_ranges (in_buffer (mstate ?s)) MQTT_BUF_SIZE 3500 (unat (10 :: u16))"
    by (simp_all add: MQTT_BUF_SIZE_def disjoint_ranges_def mqtt_msg_init_def)
  have "length (frame (packet MQTT_MSG_TYPE_PUBACK 0 0 (id16 5))) \<le> 256"
    by (simp add: frame_def packet_def remaining_def fixed_header_def esc_def id16_def)
  then have a: "filter (\<lambda>r. length (frame r) \<le> ring_free (q_rb (msgQueue (client ?s))) (ram ?s)) (publish_ack 1 5)
      = [packet MQTT_MSG_TYPE_PUBACK 0 0 (id16 5)]"
    by (simp add: publish_ack_def ring_free_def)
  have h: "in_buffer (mstate ?s) + header_length ?b + 2 = 2004"
    by (simp add: header_length_def publish_body_def remaining_def)
  obtain s1 where run: "mqtt_tcpclient_recv mqtt_callbacks 3500 10 ?s = do { s2 \<leftarrow> mqttDataCb 2004 2 2008 2 s1;
         s3 \<leftarrow> (if message_length (mstate s2) < message_length_read (mstate s2)
               then recv_loop mqtt_callbacks (3500 + unat (message_length (mstate s2)))
                      (message_length_read (mstate s2) - message_length (mstate s2)) s2
               else Some s2);
         Some (post_task s3) }"
    and ok: "client_ok s1 [packet MQTT_MSG_TYPE_PUBACK 0 0 (id16 5)]"
    and at: "str_at (ram s1) 2004 [0x61, 0x62]" "str_at (ram s1) 2008 [7, 8]"
    and n: "message_length (mstate s1) = 10" "message_length_read (mstate s1) = 10"
    and k: "sdk_ret s1 = sdk_ret ?s" "clk s1 = clk ?s"
    using mqtt_tcpclient_recv_publish [OF demo_program_ok [OF l'] c(1-3) P(1) refl _ _ _ _ P(2) c(4,5), of mqtt_callbacks]
    unfolding a h by (auto simp: mqtt_callbacks_def)
  have "valid_range (ram s1) 2004 2" "valid_range (ram s1) 2008 2" using at[THEN str_at_valid] by simp_all
  then obtain s2 where s2: "mqttDataCb 2004 2 2008 2 s1 = Some s2" "client s2 = client s1"
    using mqttDataCb_returns [of s1 2 7000 2 7200 2004 2008] k by (auto simp: disjoint_ranges_def)
  then show ?thesis using run ok at n by (intro exI [of _ "post_task s2"]) auto
qed

text \<open>C23. A publish header whose packet length is 65536 locks the receive callback: the four bytes 30 FC FF 03, received while the
  client is connected, make \<^verbatim>\<open>message_length\<close> 0. When there is no data callback, or one that leaves the client, the
  packet and the two lengths as they are, the receive callback never returns; and when that callback always returns, every round of
  the \<^verbatim>\<open>goto\<close> loop succeeds and leads to the next on the same data. The callback of the program does not get so far:
  it is called with the null pointer as a topic of four bytes and copies from it, so already the first round does not return.\<close>

theorem mqtt_zero_length_publish:
  assumes "stuck cb pdata s"
  shows "(leaves_client app cb pdata \<longrightarrow> mqtt_tcpclient_recv app pdata 4 s = None)
    \<and> (leaves_client app cb pdata \<and> (\<forall>f s. cb = Some f \<and> stuck cb pdata s \<longrightarrow> on_data app f NULL 4 NULL 0 s \<noteq> None)
        \<longrightarrow> (\<forall>k. \<exists>s'. recv_rounds k app pdata 4 s = Some (pdata, 4, s')))
    \<and> (cb = Some mqttDataCb_fn \<longrightarrow> mqtt_tcpclient_recv mqtt_callbacks pdata 4 s = None
        \<and> recv_packet mqtt_callbacks pdata 4 s = None
        \<and> (\<exists>s1. stuck cb pdata s1 \<and> recv_packet mqtt_callbacks pdata 4 s = map_option (after_callback pdata) (mqttDataCb NULL 4 NULL 0 s1)))"
proof (intro conjI impI)
  assume "leaves_client app cb pdata"
  then show "mqtt_tcpclient_recv app pdata 4 s = None" using mqtt_tcpclient_recv_stuck assms by blast
next
  assume "leaves_client app cb pdata \<and> (\<forall>f s. cb = Some f \<and> stuck cb pdata s \<longrightarrow> on_data app f NULL 4 NULL 0 s \<noteq> None)"
  then show "\<forall>k. \<exists>s'. recv_rounds k app pdata 4 s = Some (pdata, 4, s')" using recv_rounds_stuck [OF assms] by blast
next
  assume cb: "cb = Some mqttDataCb_fn"
  have null: "mqttDataCb NULL 4 NULL 0 s1 = None" if "stuck cb pdata s1" for s1
    using that by (intro mqttDataCb_NULL) (simp_all add: stuck_def)
  have "leaves_client mqtt_callbacks cb pdata" using null by (simp add: leaves_client_def mqtt_callbacks_def cb)
  then show "mqtt_tcpclient_recv mqtt_callbacks pdata 4 s = None" using mqtt_tcpclient_recv_stuck assms by blast
  show r: "\<exists>s1. stuck cb pdata s1 \<and> recv_packet mqtt_callbacks pdata 4 s = map_option (after_callback pdata) (mqttDataCb NULL 4 NULL 0 s1)"
    using stuck_round [OF assms, of mqtt_callbacks] cb by (auto simp: mqtt_callbacks_def)
  then show "recv_packet mqtt_callbacks pdata 4 s = None" using null by auto
qed

theorem mqtt_zero_length_publish_witness:
  "mqtt_tcpclient_recv quiet_app 3500 4 (demo_program zero_length_header) = None
   \<and> (\<exists>s'. recv_rounds 3 quiet_app 3500 4 (demo_program zero_length_header) = Some (3500, 4, s'))
   \<and> mqtt_tcpclient_recv mqtt_callbacks 3500 4 (demo_program zero_length_header) = None"
proof -
  have "leaves_client quiet_app (Some mqttDataCb_fn) 3500" by (auto simp: leaves_client_def quiet_app_def)
  then show ?thesis using mqtt_zero_length_publish [OF demo_program_stuck, of quiet_app] by (simp add: quiet_app_def)
qed

end
