(* ===== verification/Lwip_Base.thy ===== *)
theory Lwip_Base
  imports Prelude
begin

text \<open>
  What the modelled parts of lwIP share: the byte order macros of \<^verbatim>\<open>arch/cc.h\<close> and the functions of
  \<^verbatim>\<open>core/def.c\<close> they replace, 16 and 32 bit loads, the one's complement arithmetic of
  \<^verbatim>\<open>lwip/inet_chksum.h\<close>, and packet buffers as a store of \<^verbatim>\<open>struct pbuf\<close>.
\<close>

section \<open>Byte order\<close>

definition LWIP_PLATFORM_HTONS :: "u32 \<Rightarrow> u16" where
  "LWIP_PLATFORM_HTONS n = ucast (push_bit 8 (n AND 0xff) OR drop_bit 8 n AND 0xff)"

definition LWIP_PLATFORM_HTONL :: "u32 \<Rightarrow> u32" where
  "LWIP_PLATFORM_HTONL n =
     push_bit 24 (n AND 0xff) OR push_bit 8 (n AND 0xff00) OR drop_bit 8 n AND 0xff00 OR drop_bit 24 n AND 0xff"

definition lwip_htons :: "u16 \<Rightarrow> u16" where
  "lwip_htons n = push_bit 8 (n AND 0xff) OR drop_bit 8 (n AND 0xff00)"

definition lwip_ntohs :: "u16 \<Rightarrow> u16" where
  "lwip_ntohs n = lwip_htons n"

definition lwip_htonl :: "u32 \<Rightarrow> u32" where
  "lwip_htonl n =
     push_bit 24 (n AND 0xff) OR push_bit 8 (n AND 0xff00) OR drop_bit 8 (n AND 0xff0000)
       OR drop_bit 24 (n AND 0xff000000)"

definition lwip_ntohl :: "u32 \<Rightarrow> u32" where
  "lwip_ntohl n = lwip_htonl n"

text \<open>\<^verbatim>\<open>htons\<close> of the configured build is the macro, on an argument that is promoted.\<close>

definition htons :: "u16 \<Rightarrow> u16" where
  "htons n = LWIP_PLATFORM_HTONS (ucast n)"

definition htonl :: "u32 \<Rightarrow> u32" where
  "htonl n = LWIP_PLATFORM_HTONL n"

section \<open>Loads\<close>

text \<open>
  The processor is little endian; a load of 16 or 32 bits traps on an address that is not a multiple of the
  size.
\<close>

definition ldu16 :: "mem \<Rightarrow> ptr \<Rightarrow> u16 option" where
  "ldu16 m a = (if a mod 2 = 0
     then do { l \<leftarrow> m a; h \<leftarrow> m (a + 1); Some (push_bit 8 (ucast h) OR ucast l) } else None)"

definition ldu32 :: "mem \<Rightarrow> ptr \<Rightarrow> u32 option" where
  "ldu32 m a = (if a mod 4 = 0
     then do { l \<leftarrow> ldu16 m a; h \<leftarrow> ldu16 m (a + 2); Some (push_bit 16 (ucast h) OR ucast l) } else None)"

text \<open>The bytes of a 32-bit object in memory.\<close>

definition addr_bytes :: "u32 \<Rightarrow> u8 list" where
  "addr_bytes a = [ucast a, ucast (drop_bit 8 a), ucast (drop_bit 16 a), ucast (drop_bit 24 a)]"

section \<open>Packet buffers\<close>

record pbuf =
  pb_next :: ptr
  payload :: ptr
  tot_len :: u16
  pb_len :: u16
  pb_type :: u8
  pb_flags :: u8
  pb_ref :: u16
  pb_eb :: ptr

type_synonym pbufs = "ptr \<rightharpoonup> pbuf"

text \<open>The buffers of a chain, from \<open>p\<close> to the one whose \<^verbatim>\<open>next\<close> is null, and the bytes they hold.\<close>

fun chain :: "pbufs \<Rightarrow> ptr \<Rightarrow> pbuf list \<Rightarrow> bool" where
  "chain st p [] = (p = NULL)"
| "chain st p (b # bs) = (p \<noteq> NULL \<and> st p = Some b \<and> chain st (pb_next b) bs)"

definition pbuf_bytes :: "mem \<Rightarrow> pbuf \<Rightarrow> u8 list" where
  "pbuf_bytes m b = bytes_at m (payload b) (unat (pb_len b))"

definition pbuf_valid :: "mem \<Rightarrow> pbuf \<Rightarrow> bool" where
  "pbuf_valid m b = valid_range m (payload b) (unat (pb_len b))"

definition chain_bytes :: "mem \<Rightarrow> pbuf list \<Rightarrow> u8 list" where
  "chain_bytes m bs = concat (map (pbuf_bytes m) bs)"

lemma chain_bytes_simps [simp]:
  "chain_bytes m [] = []" "chain_bytes m (b # bs) = pbuf_bytes m b @ chain_bytes m bs"
  by (simp_all add: chain_bytes_def)

lemma length_pbuf_bytes [simp]: "length (pbuf_bytes m b) = unat (pb_len b)"
  by (simp add: pbuf_bytes_def)

section \<open>One's complement sums\<close>

definition FOLD_U32T :: "u32 \<Rightarrow> u32" where
  "FOLD_U32T u = drop_bit 16 u + (u AND 0xffff)"

definition SWAP_BYTES_IN_WORD :: "u32 \<Rightarrow> u32" where
  "SWAP_BYTES_IN_WORD w = ucast (LWIP_PLATFORM_HTONS w)"

text \<open>
  The sum of RFC 1071: a number stands for its class modulo 65535, with 0 apart from the other multiples.
\<close>

definition same16 :: "nat \<Rightarrow> nat \<Rightarrow> bool" where
  "same16 x n \<longleftrightarrow> x mod 65535 = n mod 65535 \<and> (x = 0 \<longleftrightarrow> n = 0)"

definition ones16 :: "nat \<Rightarrow> u16" where
  "ones16 n = of_nat (if n = 0 then 0 else Suc ((n - 1) mod 65535))"

fun le_sum :: "u8 list \<Rightarrow> nat" where
  "le_sum [] = 0"
| "le_sum [b] = unat b"
| "le_sum (a # b # bs) = unat a + 256 * unat b + le_sum bs"

definition inet_sum :: "u8 list \<Rightarrow> u16" where
  "inet_sum bs = ones16 (le_sum bs)"

named_theorems same16_intros \<open>one's complement congruences\<close>

lemma same16_refl [same16_intros]: "same16 x x" by (simp add: same16_def)
lemma same16_sym: "same16 x y \<Longrightarrow> same16 y x" by (auto simp: same16_def)
lemma same16_trans: "same16 x y \<Longrightarrow> same16 y z \<Longrightarrow> same16 x z" by (auto simp: same16_def)

lemma same16_add [same16_intros]: "same16 x n \<Longrightarrow> same16 y k \<Longrightarrow> same16 (x + y) (n + k)"
  by (auto simp: same16_def intro: mod_add_cong)

lemma same16_mult [same16_intros]: "same16 x n \<Longrightarrow> same16 (c * x) (c * n)"
  by (auto simp: same16_def intro: mod_mult_cong)

lemma same16_65536: "same16 (65536 * x) x"
proof -
  have "65536 * x mod 65535 = (x + x * 65535) mod 65535" by simp
  also have "\<dots> = x mod 65535" by (rule mod_mult_self1)
  finally show ?thesis by (simp add: same16_def)
qed

lemma same16_unique:
  assumes "same16 x y" "x \<le> 65535" "y \<le> 65535"
  shows "x = y"
proof -
  have small: "k mod 65535 = (if k = 65535 then 0 else k)" if "k \<le> 65535" for k :: nat
    using that by (cases "k = 65535") auto
  show ?thesis using assms small [of x] small [of y] by (auto simp: same16_def split: if_splits)
qed

lemma unat_ones16: "unat (ones16 n) = (if n = 0 then 0 else Suc ((n - 1) mod 65535))"
proof (cases "n = 0")
  case False
  have "(n - 1) mod 65535 < 65535" by simp
  with False show ?thesis unfolding ones16_def by (subst unat_of_nat_u16) simp_all
qed (simp add: ones16_def)

lemma same16_ones16: "same16 (unat (ones16 n)) n"
proof (cases "n = 0")
  case False
  then show ?thesis by (simp add: same16_def unat_ones16 mod_Suc_eq)
qed (simp add: same16_def unat_ones16)

lemma ones16I: "same16 (unat (w :: u16)) n \<Longrightarrow> w = ones16 n"
  using same16_unique [of "unat w" "unat (ones16 n)"] same16_trans [OF _ same16_sym [OF same16_ones16]]
    unsigned_less [of w, where 'a = nat] unsigned_less [of "ones16 n", where 'a = nat]
  by (simp add: word_unat_eq_iff)

lemma ones16_eq_iff: "ones16 a = ones16 b \<longleftrightarrow> same16 a b"
  by (metis ones16I same16_ones16 same16_sym same16_trans)

text \<open>A byte in front moves every other byte to the other half of its word.\<close>

lemma le_sum_Cons: "same16 (le_sum (b # bs)) (unat b + 256 * le_sum bs)"
proof (induction bs arbitrary: b rule: le_sum.induct)
  case (2 x)
  then show ?case by (simp add: same16_refl)
next
  case (3 x y bs)
  let ?c = "unat b + 256 * unat x"
  have a: "same16 (?c + le_sum (y # bs)) (?c + (unat y + 256 * le_sum bs))"
    by (rule same16_add [OF same16_refl 3])
  have b: "same16 (?c + (65536 * unat y + 256 * le_sum bs)) (?c + (unat y + 256 * le_sum bs))"
    by (rule same16_add [OF same16_refl same16_add [OF same16_65536 same16_refl]])
  have e: "unat b + 256 * le_sum (x # y # bs) = ?c + (65536 * unat y + 256 * le_sum bs)" by simp
  show ?case unfolding e using same16_trans [OF a same16_sym [OF b]] by (simp only: le_sum.simps)
qed (simp_all add: same16_refl)

lemma le_sum_append:
  "same16 (le_sum (xs @ ys)) (le_sum xs + (if even (length xs) then 1 else 256) * le_sum ys)"
proof (induction xs rule: le_sum.induct)
  case (2 b)
  then show ?case using le_sum_Cons [of b ys] by simp
next
  case (3 a b xs)
  then show ?case by (auto simp: add.assoc intro!: same16_intros)
qed (simp add: same16_refl)

end
