(* ===== verification/Lwip_Chksum.thy ===== *)
theory Lwip_Chksum
  imports Lwip_Base
begin

text \<open>
  The Internet checksum of lwIP, \<^verbatim>\<open>core/ipv4/inet_chksum.c\<close>: the three implementations of
  \<^verbatim>\<open>lwip_standard_chksum\<close> (the second is the one that is compiled), and the checksums over memory, over a
  chain of buffers and over a chain with the pseudo header of TCP and UDP.
\<close>

section \<open>The three summations\<close>

function chksum1_loop :: "ptr \<Rightarrow> u16 \<Rightarrow> u32 \<Rightarrow> mem \<Rightarrow> (ptr \<times> u16 \<times> u32) option" where
  "chksum1_loop octetptr len acc m =
     (if 1 < len
      then do { h \<leftarrow> m octetptr; l \<leftarrow> m (octetptr + 1);
                let src = (push_bit 8 (ucast h) OR ucast l :: u16);
                chksum1_loop (octetptr + 2) (len - 2) (acc + ucast src) m }
      else Some (octetptr, len, acc))"
  by pat_completeness auto

termination
  by (relation "measure (\<lambda>(_, n, _, _). unat n)") (auto simp: unat_sub word_less_nat_alt word_le_nat_alt)

definition lwip_standard_chksum1 :: "ptr \<Rightarrow> u16 \<Rightarrow> mem \<Rightarrow> u16 option" where
  "lwip_standard_chksum1 dataptr len m =
     do { (octetptr, len, acc) \<leftarrow> chksum1_loop dataptr len 0 m;
          acc \<leftarrow> (if 0 < len then do { h \<leftarrow> m octetptr; Some (acc + ucast (push_bit 8 (ucast h) :: u16)) }
                  else Some acc);
          let acc = drop_bit 16 acc + (acc AND 0xffff);
          let acc = (if acc AND 0xffff0000 \<noteq> 0 then drop_bit 16 acc + (acc AND 0xffff) else acc);
          Some (htons (ucast acc)) }"

text \<open>\<^verbatim>\<open>((u8_t *)&t)[1] = b\<close> and \<^verbatim>\<open>((u8_t *)&t)[0] = b\<close>\<close>

definition set_high :: "u8 \<Rightarrow> u16 \<Rightarrow> u16" where
  "set_high b t = push_bit 8 (ucast b) OR t AND 0xff"

definition set_low :: "u8 \<Rightarrow> u16 \<Rightarrow> u16" where
  "set_low b t = t AND 0xff00 OR ucast b"

function sum_u16 :: "ptr \<Rightarrow> int \<Rightarrow> u32 \<Rightarrow> mem \<Rightarrow> (ptr \<times> int \<times> u32) option" where
  "sum_u16 ps len wsum m =
     (if 1 < len then do { v \<leftarrow> ldu16 m ps; sum_u16 (ps + 2) (len - 2) (wsum + ucast v) m }
      else Some (ps, len, wsum))"
  by pat_completeness auto

termination
  by (relation "measure (\<lambda>(_, n, _, _). nat n)") auto

text \<open>The start of versions 2 and 3, to a multiple of two.\<close>

definition align_u16 :: "ptr \<Rightarrow> int \<Rightarrow> mem \<Rightarrow> (ptr \<times> int \<times> u16) option" where
  "align_u16 pb len m =
     (if pb mod 2 = 1 \<and> 0 < len then do { b \<leftarrow> m pb; Some (pb + 1, len - 1, set_high b 0) }
      else Some (pb, len, 0))"

text \<open>Their end: the left-over byte, the folding and the swap.\<close>

definition chksum_end :: "bool \<Rightarrow> ptr \<Rightarrow> int \<Rightarrow> u16 \<Rightarrow> u32 \<Rightarrow> mem \<Rightarrow> u16 option" where
  "chksum_end is_odd ps len t wsum m =
     do { t \<leftarrow> (if 0 < len then do { b \<leftarrow> m ps; Some (set_low b t) } else Some t);
          let wsum = wsum + ucast t;
          let wsum = FOLD_U32T wsum;
          let wsum = FOLD_U32T wsum;
          let wsum = (if is_odd then SWAP_BYTES_IN_WORD wsum else wsum);
          Some (ucast wsum) }"

definition lwip_standard_chksum :: "ptr \<Rightarrow> int \<Rightarrow> mem \<Rightarrow> u16 option" where
  "lwip_standard_chksum dataptr len m =
     do { (pb, len, t) \<leftarrow> align_u16 dataptr len m;
          (ps, len, wsum) \<leftarrow> sum_u16 pb len 0 m;
          chksum_end (dataptr mod 2 = 1) ps len t wsum m }"

text \<open>An addition whose carry is added back.\<close>

definition add_carry :: "u32 \<Rightarrow> u32 \<Rightarrow> u32" where
  "add_carry wsum v = (let tmp = wsum + v in if tmp < wsum then tmp + 1 else tmp)"

function sum_u32 :: "ptr \<Rightarrow> int \<Rightarrow> u32 \<Rightarrow> mem \<Rightarrow> (ptr \<times> int \<times> u32) option" where
  "sum_u32 pl len wsum m =
     (if 7 < len
      then do { v \<leftarrow> ldu32 m pl; let tmp = add_carry wsum v;
                v \<leftarrow> ldu32 m (pl + 4); let wsum = add_carry tmp v;
                sum_u32 (pl + 8) (len - 8) wsum m }
      else Some (pl, len, wsum))"
  by pat_completeness auto

termination
  by (relation "measure (\<lambda>(_, n, _, _). nat n)") auto

definition lwip_standard_chksum3 :: "ptr \<Rightarrow> int \<Rightarrow> mem \<Rightarrow> u16 option" where
  "lwip_standard_chksum3 dataptr len m =
     do { (ps, len, t) \<leftarrow> align_u16 dataptr len m;
          (ps, len, wsum) \<leftarrow>
             (if ps mod 4 \<noteq> 0 \<and> 1 < len then do { v \<leftarrow> ldu16 m ps; Some (ps + 2, len - 2, ucast v) }
              else Some (ps, len, 0));
          (pl, len, wsum) \<leftarrow> sum_u32 ps len wsum m;
          let wsum = FOLD_U32T wsum;
          (ps, len, wsum) \<leftarrow> sum_u16 pl len wsum m;
          chksum_end (dataptr mod 2 = 1) ps len t wsum m }"

section \<open>Checksums of memory and of buffers\<close>

definition inet_chksum :: "ptr \<Rightarrow> u16 \<Rightarrow> mem \<Rightarrow> u16 option" where
  "inet_chksum dataptr len m = map_option (\<lambda>v. NOT v) (lwip_standard_chksum dataptr (int (unat len)) m)"

text \<open>What the loops over a chain do with one buffer, of which \<open>n\<close> bytes are summed.\<close>

definition chksum_add :: "pbuf \<Rightarrow> u16 \<Rightarrow> u32 \<Rightarrow> bool \<Rightarrow> mem \<Rightarrow> (u32 \<times> bool) option" where
  "chksum_add q n acc swapped m =
     do { v \<leftarrow> lwip_standard_chksum (payload q) (int (unat n)) m;
          let acc = FOLD_U32T (acc + ucast v);
          Some (if odd (unat (pb_len q)) then (SWAP_BYTES_IN_WORD acc, \<not> swapped) else (acc, swapped)) }"

partial_function (option) chksum_chain :: "pbufs \<Rightarrow> ptr \<Rightarrow> u32 \<Rightarrow> bool \<Rightarrow> mem \<Rightarrow> (u32 \<times> bool) option" where
  "chksum_chain st q acc swapped m =
     (if q = NULL then Some (acc, swapped)
      else do { b \<leftarrow> st q;
                (acc, swapped) \<leftarrow> chksum_add b (pb_len b) acc swapped m;
                chksum_chain st (pb_next b) acc swapped m })"

partial_function (option) chksum_chain_partial ::
  "pbufs \<Rightarrow> ptr \<Rightarrow> u16 \<Rightarrow> u32 \<Rightarrow> bool \<Rightarrow> mem \<Rightarrow> (u32 \<times> bool) option" where
  "chksum_chain_partial st q chksum_len acc swapped m =
     (if q \<noteq> NULL \<and> 0 < chksum_len
      then do { b \<leftarrow> st q;
                let chklen = (if chksum_len < pb_len b then chksum_len else pb_len b);
                (acc, swapped) \<leftarrow> chksum_add b chklen acc swapped m;
                chksum_chain_partial st (pb_next b) (chksum_len - chklen) acc swapped m }
      else Some (acc, swapped))"

definition unswap :: "u32 \<times> bool \<Rightarrow> u32" where
  "unswap = (\<lambda>(acc, swapped). if swapped then SWAP_BYTES_IN_WORD acc else acc)"

definition pseudo_header :: "u32 \<Rightarrow> u32 \<Rightarrow> u8 \<Rightarrow> u16 \<Rightarrow> u32 \<Rightarrow> u16" where
  "pseudo_header src dest proto proto_len acc =
     (let acc = acc + (src AND 0xffff);
          acc = acc + (drop_bit 16 src AND 0xffff);
          acc = acc + (dest AND 0xffff);
          acc = acc + (drop_bit 16 dest AND 0xffff);
          acc = acc + ucast (htons (ucast proto));
          acc = acc + ucast (htons proto_len);
          acc = FOLD_U32T acc;
          acc = FOLD_U32T acc
      in ucast (NOT (acc AND 0xffff)))"

definition inet_chksum_pseudo ::
  "pbufs \<Rightarrow> ptr \<Rightarrow> u32 \<Rightarrow> u32 \<Rightarrow> u8 \<Rightarrow> u16 \<Rightarrow> mem \<Rightarrow> u16 option" where
  "inet_chksum_pseudo st p src dest proto proto_len m =
     map_option (\<lambda>r. pseudo_header src dest proto proto_len (unswap r)) (chksum_chain st p 0 False m)"

definition inet_chksum_pseudo_partial ::
  "pbufs \<Rightarrow> ptr \<Rightarrow> u32 \<Rightarrow> u32 \<Rightarrow> u8 \<Rightarrow> u16 \<Rightarrow> u16 \<Rightarrow> mem \<Rightarrow> u16 option" where
  "inet_chksum_pseudo_partial st p src dest proto proto_len chksum_len m =
     map_option (\<lambda>r. pseudo_header src dest proto proto_len (unswap r))
       (chksum_chain_partial st p chksum_len 0 False m)"

definition inet_chksum_pbuf :: "pbufs \<Rightarrow> ptr \<Rightarrow> mem \<Rightarrow> u16 option" where
  "inet_chksum_pbuf st p m =
     map_option (\<lambda>r. ucast (NOT (unswap r AND 0xffff))) (chksum_chain st p 0 False m)"

definition lwip_chksum_copy :: "ptr \<Rightarrow> ptr \<Rightarrow> u16 \<Rightarrow> mem \<Rightarrow> (u16 \<times> mem) option" where
  "lwip_chksum_copy dst src len m =
     do { m \<leftarrow> memcpy dst src (unat len) m;
          v \<leftarrow> lwip_standard_chksum dst (int (unat len)) m;
          Some (v, m) }"

declare chksum1_loop.simps [simp del] sum_u16.simps [simp del] sum_u32.simps [simp del]

section \<open>Words\<close>

lemma unat_join16: "unat (push_bit 8 (ucast (h :: u8)) OR ucast (l :: u8) :: u16) = 256 * unat h + unat l"
proof -
  have "push_bit 8 (ucast h) OR ucast l = (push_bit 8 (ucast h) + ucast l :: u16)"
    by (rule disjunctive_add [symmetric]) (auto simp: bit_simps)
  also have "\<dots> = of_nat (256 * unat h + unat l)"
    by (simp add: push_bit_eq_mult unsigned_of_nat mult.commute)
  also have "unat \<dots> = 256 * unat h + unat l"
    using unat_u8_less [of h] unat_u8_less [of l] by (intro unat_of_nat_u16) simp
  finally show ?thesis .
qed

lemma and_low_bits:
  "(x :: 'a::len word) AND 0xff = take_bit 8 x" "x AND 0xffff = take_bit 16 x"
  by (simp_all add: take_bit_eq_mask mask_eq_exp_minus_1)

lemma unat_fold: "unat (FOLD_U32T u) = unat u div 65536 + unat u mod 65536"
proof -
  have a: "unat (drop_bit 16 u) = unat u div 65536" unfolding unat_drop_bit_eq by (simp add: drop_bit_eq_div)
  have b: "unat (u AND 0xffff) = unat u mod 65536"
    unfolding and_low_bits unsigned_take_bit_eq by (simp add: take_bit_eq_mod)
  have "unat u div 65536 < 65536" using unsigned_less [of u, where 'a = nat] by (simp add: less_mult_imp_div_less)
  then have "unat (drop_bit 16 u) + unat (u AND 0xffff) < 2 ^ 32" using a b by simp
  then show ?thesis unfolding FOLD_U32T_def using a b by (subst unat_add_u32) simp
qed

lemma same16_fold: "same16 (unat (FOLD_U32T u)) (unat u)"
proof -
  let ?h = "unat u div 65536" and ?l = "unat u mod 65536"
  have u: "unat u = 65536 * ?h + ?l" by simp
  have "same16 (?h + ?l) (65536 * ?h + ?l)" by (intro same16_add same16_refl same16_sym [OF same16_65536])
  then show ?thesis unfolding unat_fold using u by simp
qed

lemma fold_twice_le: "unat (FOLD_U32T (FOLD_U32T u)) \<le> 65535"
proof -
  have "unat u div 65536 < 65536" using unsigned_less [of u, where 'a = nat] by (simp add: less_mult_imp_div_less)
  then have "unat (FOLD_U32T u) \<le> 131070" unfolding unat_fold by simp
  then show ?thesis unfolding unat_fold [of "FOLD_U32T u"] by (cases "unat (FOLD_U32T u) < 65536") (auto simp: div_if mod_if)
qed

lemma fold_le: "unat u \<le> 131070 \<Longrightarrow> unat (FOLD_U32T u) \<le> 65535"
  unfolding unat_fold by (cases "unat u < 65536") (auto simp: div_if mod_if)

lemma unat_swap: "unat (SWAP_BYTES_IN_WORD w) = 256 * (unat w mod 256) + unat w div 256 mod 256"
proof -
  have "LWIP_PLATFORM_HTONS w = push_bit 8 (ucast (ucast w :: u8)) OR ucast (ucast (drop_bit 8 w) :: u8)"
    unfolding LWIP_PLATFORM_HTONS_def and_low_bits by (rule bit_eqI) (auto simp: bit_simps)
  then have "unat (LWIP_PLATFORM_HTONS w) = 256 * unat (ucast w :: u8) + unat (ucast (drop_bit 8 w) :: u8)"
    by (simp only: unat_join16)
  moreover have "unat (ucast w :: u8) = unat w mod 256" by (simp add: unsigned_ucast_eq take_bit_eq_mod)
  moreover have "unat (ucast (drop_bit 8 w) :: u8) = unat w div 256 mod 256"
    unfolding unsigned_ucast_eq unat_drop_bit_eq by (simp add: take_bit_eq_mod drop_bit_eq_div)
  moreover have "unat (ucast (LWIP_PLATFORM_HTONS w) :: u32) = unat (LWIP_PLATFORM_HTONS w)"
    using unsigned_less [of "LWIP_PLATFORM_HTONS w", where 'a = nat] by (simp add: unsigned_ucast_eq take_bit_nat_eq_self)
  ultimately show ?thesis by (simp add: SWAP_BYTES_IN_WORD_def)
qed

lemma swap_le: "unat (SWAP_BYTES_IN_WORD w) \<le> 65535"
proof -
  have "unat w mod 256 \<le> 255" "unat w div 256 mod 256 \<le> 255" by (simp_all add: less_Suc_eq_le [symmetric])
  then show ?thesis unfolding unat_swap by linarith
qed

lemma same16_swap:
  assumes "unat w \<le> 65535"
  shows "same16 (unat (SWAP_BYTES_IN_WORD w)) (256 * unat w)"
proof -
  let ?h = "unat w div 256" and ?l = "unat w mod 256"
  have h: "?h mod 256 = ?h" using assms by (simp add: less_mult_imp_div_less)
  have w: "256 * unat w = 256 * ?l + 65536 * ?h" using mult_div_mod_eq [of 256 "unat w"] by linarith
  show ?thesis unfolding unat_swap h w by (intro same16_add same16_refl same16_sym [OF same16_65536])
qed

lemma same16_htons: "same16 (unat (htons x)) (256 * unat x)"
proof -
  have x: "unat (ucast x :: u32) = unat x"
    using unsigned_less [of x, where 'a = nat] by (simp add: unsigned_ucast_eq take_bit_nat_eq_self)
  have "unat (SWAP_BYTES_IN_WORD (ucast x)) = unat (htons x)"
    using unsigned_less [of "htons x", where 'a = nat]
    by (simp add: SWAP_BYTES_IN_WORD_def htons_def unsigned_ucast_eq take_bit_nat_eq_self)
  then show ?thesis using same16_swap [of "ucast x"] unsigned_less [of x, where 'a = nat] x by simp
qed

declare unat_ucast_u16_u32 [simp]

lemma ucast_of_nat_unat: "(ucast (x :: u16) :: u32) = of_nat (unat x)"
  by (simp add: unsigned_of_nat)

section \<open>The sums\<close>

lemma bytes_at_two: "bytes_at m a (2 * Suc k) = the (m a) # the (m (a + 1)) # bytes_at m (a + 2) (2 * k)"
  using bytes_at_append [of m a 2 "2 * k"] by (simp add: bytes_at_def numeral_2_eq_2)

lemma valid_two:
  assumes "valid_range m a (2 * Suc k)"
  obtains l h where "m a = Some l" "m (a + 1) = Some h" "valid_range m (a + 2) (2 * k)"
proof -
  have "m (a + 0) \<noteq> None" "m (a + 1) \<noteq> None" using assms unfolding valid_range_iff by (auto simp del: add_0_right)
  moreover have "valid_range m (a + 2) (2 * k)" by (rule valid_range_sub [OF assms]) simp
  ultimately show ?thesis using that by (cases "m a"; cases "m (a + 1)") auto
qed

lemma sum_u16_ok:
  assumes "ps mod 2 = 0" "valid_range m ps (2 * k)" "r < 2"
  shows "sum_u16 ps (int (2 * k + r)) acc m = Some (ps + 2 * k, int r, acc + of_nat (le_sum (bytes_at m ps (2 * k))))"
  using assms
proof (induction k arbitrary: ps acc)
  case 0
  then show ?case by (simp add: sum_u16.simps)
next
  case (Suc k)
  obtain l h where m: "m ps = Some l" "m (ps + 1) = Some h" "valid_range m (ps + 2) (2 * k)"
    using Suc.prems(2) by (rule valid_two)
  have v: "ldu16 m ps = Some (push_bit 8 (ucast h) OR ucast l)" using m Suc.prems(1) by (simp add: ldu16_def)
  have "sum_u16 ps (int (2 * Suc k + r)) acc m
      = sum_u16 (ps + 2) (int (2 * k + r)) (acc + ucast (push_bit 8 (ucast h) OR ucast l :: u16)) m"
    by (subst sum_u16.simps) (simp add: v)
  also have "\<dots> = Some (ps + 2 + 2 * k, int r,
      acc + ucast (push_bit 8 (ucast h) OR ucast l :: u16) + of_nat (le_sum (bytes_at m (ps + 2) (2 * k))))"
    using m(3) Suc.prems by (intro Suc.IH) auto
  finally show ?case unfolding bytes_at_two ucast_of_nat_unat unat_join16 using m by (simp add: algebra_simps)
qed

lemma le_sum_even: "even (length xs) \<Longrightarrow> le_sum (xs @ ys) = le_sum xs + le_sum ys"
  by (induction xs rule: le_sum.induct) auto

lemma le_sum_le: "le_sum bs \<le> 65535 * ((length bs + 1) div 2)"
proof (induction bs rule: le_sum.induct)
  case (3 a b bs)
  then show ?case using unat_u8_less [of a] unat_u8_less [of b] by simp
next
  case (2 b)
  then show ?case using unat_u8_less [of b] by simp
qed simp

lemma set_high_0: "set_high b 0 = push_bit 8 (ucast b)"
  by (simp add: set_high_def)

lemma set_low_high: "set_low b (push_bit 8 (ucast (x :: u8))) = push_bit 8 (ucast x) OR ucast b"
proof -
  have e: "(0xff00 :: u16) = push_bit 8 (mask 8)" by (simp add: mask_eq_exp_minus_1)
  show ?thesis unfolding set_low_def e by (auto intro!: bit_eqI simp: bit_simps)
qed

lemma unat_push8: "unat (push_bit 8 (ucast (x :: u8)) :: u16) = 256 * unat x"
  using unat_join16 [of x 0] by simp

lemma chksum_end_ok:
  assumes r: "r < 2" "valid_range m ps r" and s: "unat s + 65535 < 2 ^ 32"
  shows "\<exists>w. chksum_end is_odd ps (int r) (push_bit 8 (ucast (x :: u8))) s m = Some w
    \<and> same16 (unat w) ((if is_odd then 256 else 1) * (unat s + 256 * unat x + le_sum (bytes_at m ps r)))"
proof -
  define t where "t = (if r = 0 then push_bit 8 (ucast x) else push_bit 8 (ucast x) OR ucast (the (m ps)) :: u16)"
  have t: "unat t = 256 * unat x + le_sum (bytes_at m ps r)"
    using r(1) by (cases "r = 0") (auto simp: t_def unat_push8 unat_join16 bytes_at_def less_2_cases_iff)
  define f where "f = FOLD_U32T (FOLD_U32T (s + ucast t))"
  have st: "unat (s + ucast t) = unat s + unat t"
    using s unsigned_less [of t, where 'a = nat] by (simp add: unat_add_u32)
  have f: "same16 (unat f) (unat s + unat t)" "unat f \<le> 65535"
    unfolding f_def using same16_trans [OF same16_fold same16_fold [of "s + ucast t"]] st fold_twice_le by auto
  define g where "g = (if is_odd then SWAP_BYTES_IN_WORD f else f)"
  have g: "same16 (unat g) ((if is_odd then 256 else 1) * (unat s + unat t))" "unat g \<le> 65535"
    using f same16_trans [OF same16_swap [OF f(2)] same16_mult [OF f(1)]] swap_le [of f] by (auto simp: g_def)
  have "unat (ucast g :: u16) = unat g" using g(2) by (simp add: unsigned_ucast_eq take_bit_nat_eq_self)
  moreover have "chksum_end is_odd ps (int r) (push_bit 8 (ucast x)) s m = Some (ucast g)"
    using r by (cases "r = 0")
      (auto simp: chksum_end_def valid_range_iff g_def f_def t_def set_low_high less_2_cases_iff Let_def)
  ultimately show ?thesis using g(1) t by (auto simp: add.assoc)
qed

text \<open>Rounds of two bytes and the rest.\<close>

lemma two_rest: "n = 2 * (n div 2) + n mod 2" "n mod 2 < 2" for n :: nat
  by simp_all

text \<open>Reading on from an even address, after the byte \<open>x\<close> that has been set aside.\<close>

lemma sum_and_end:
  assumes "ps mod 2 = 0" "valid_range m ps n" "unat s + 65535 * (n div 2 + 1) < 2 ^ 32"
  shows "\<exists>w. do { (ps, len, s) \<leftarrow> sum_u16 ps (int n) s m; chksum_end is_odd ps len (push_bit 8 (ucast (x :: u8))) s m } = Some w
    \<and> same16 (unat w) ((if is_odd then 256 else 1) * (unat s + 256 * unat x + le_sum (bytes_at m ps n)))"
proof -
  let ?k = "n div 2" and ?r = "n mod 2"
  have v: "valid_range m ps (2 * ?k)" "valid_range m (ps + 2 * ?k) ?r"
    using assms(2) valid_range_sub [of m ps n 0 "2 * ?k"] valid_range_sub [of m ps n "2 * ?k" ?r] by simp_all
  let ?s = "s + of_nat (le_sum (bytes_at m ps (2 * ?k)))"
  have sum_eq: "sum_u16 ps (int n) s m = Some (ps + 2 * ?k, int ?r, ?s)"
    using sum_u16_ok [OF assms(1) v(1), of ?r s] two_rest [of n] by (simp del: of_nat_add of_nat_mult)
  have b: "le_sum (bytes_at m ps (2 * ?k)) \<le> 65535 * ?k" using le_sum_le [of "bytes_at m ps (2 * ?k)"] by simp
  then have "unat s + le_sum (bytes_at m ps (2 * ?k)) < 2 ^ 32" using assms(3) by simp
  then have s: "unat ?s = unat s + le_sum (bytes_at m ps (2 * ?k))"
    using b by (simp add: unat_add_u32 unat_of_nat take_bit_nat_eq_self)
  obtain w where "chksum_end is_odd (ps + 2 * ?k) (int ?r) (push_bit 8 (ucast x)) ?s m = Some w"
    "same16 (unat w) ((if is_odd then 256 else 1) * (unat ?s + 256 * unat x + le_sum (bytes_at m (ps + 2 * ?k) ?r)))"
    using chksum_end_ok [of ?r m "ps + 2 * ?k" ?s is_odd x] v(2) s b assms(3) by auto
  moreover have "le_sum (bytes_at m ps n) = le_sum (bytes_at m ps (2 * ?k)) + le_sum (bytes_at m (ps + 2 * ?k) ?r)"
    using bytes_at_append [of m ps "2 * ?k" ?r] le_sum_even [of "bytes_at m ps (2 * ?k)"] by simp
  ultimately show ?thesis using sum_eq s by (auto simp: add_ac)
qed

lemma half: "n < 65536 \<Longrightarrow> 65535 * (n div 2) < 2 ^ 32 - 65535" for n :: nat
  by (simp add: less_mult_imp_div_less div_le_mono)

lemma odd_start:
  assumes "same16 w (256 * (s + 256 * unat x + le_sum bs))" "same16 s 0"
  shows "same16 w (le_sum (x # bs))"
proof -
  have "s = 0" using assms(2) by (simp add: same16_def)
  then have e: "256 * (s + 256 * unat x + le_sum bs) = 65536 * unat x + 256 * le_sum bs" by simp
  have "same16 w (unat x + 256 * le_sum bs)"
    using same16_trans [OF assms(1) [unfolded e] same16_add [OF same16_65536 same16_refl]] .
  then show ?thesis by (rule same16_trans [OF _ same16_sym [OF le_sum_Cons]])
qed

lemma chksum_rfc1071:
  assumes "valid_range m a n" "n < 65536"
  shows "lwip_standard_chksum a (int n) m = Some (inet_sum (bytes_at m a n))"
proof (cases "a mod 2 = 1 \<and> 0 < n")
  case False
  then have ev: "a mod 2 = 0 \<or> n = 0" by auto
  show ?thesis
  proof (cases "n = 0")
    case True
    then show ?thesis by (simp add: lwip_standard_chksum_def align_u16_def sum_u16.simps chksum_end_def FOLD_U32T_def
          SWAP_BYTES_IN_WORD_def LWIP_PLATFORM_HTONS_def inet_sum_def ones16_def)
  next
    case n: False
    with ev have a: "a mod 2 = 0" by simp
    obtain w where "do { (ps, len, s) \<leftarrow> sum_u16 a (int n) 0 m; chksum_end False ps len (push_bit 8 (ucast (0 :: u8))) s m } = Some w"
      "same16 (unat w) (le_sum (bytes_at m a n))"
      using sum_and_end [OF a assms(1), of 0 False 0] half [OF assms(2)] by auto
    then show ?thesis using a ones16I by (simp add: lwip_standard_chksum_def align_u16_def inet_sum_def)
  qed
next
  case True
  then obtain b where b: "m a = Some b" using assms(1) unfolding valid_range_iff by (metis add_0_right option.exhaust)
  let ?n = "n - 1"
  have v: "valid_range m (a + 1) ?n" using valid_range_sub [OF assms(1), of 1 ?n] True by simp
  have a: "(a + 1) mod 2 = 0" using True by presburger
  obtain w where w: "do { (ps, len, s) \<leftarrow> sum_u16 (a + 1) (int ?n) 0 m; chksum_end True ps len (push_bit 8 (ucast b)) s m } = Some w"
    "same16 (unat w) (256 * (unat (0 :: u32) + 256 * unat b + le_sum (bytes_at m (a + 1) ?n)))"
    using sum_and_end [OF a v, of 0 True b] half [of ?n] assms(2) by auto
  have "bytes_at m a n = b # bytes_at m (a + 1) ?n"
    using bytes_at_append [of m a 1 ?n] True b by (simp add: bytes_at_def)
  then have "same16 (unat w) (le_sum (bytes_at m a n))" using odd_start [OF w(2)] by (simp add: same16_refl)
  moreover have "int n - 1 = int ?n" using True by simp
  ultimately show ?thesis using True b w(1) ones16I
    by (simp add: lwip_standard_chksum_def align_u16_def inet_sum_def set_high_0)
qed

subsection \<open>The first version\<close>

fun be_sum :: "u8 list \<Rightarrow> nat" where
  "be_sum [] = 0"
| "be_sum [b] = 256 * unat b"
| "be_sum (a # b # bs) = 256 * unat a + unat b + be_sum bs"

lemma be_sum_even: "even (length xs) \<Longrightarrow> be_sum (xs @ ys) = be_sum xs + be_sum ys"
  by (induction xs rule: be_sum.induct) auto

lemma be_sum_le: "be_sum bs \<le> 65535 * ((length bs + 1) div 2)"
proof (induction bs rule: be_sum.induct)
  case (3 a b bs)
  then show ?case using unat_u8_less [of a] unat_u8_less [of b] by simp
next
  case (2 b)
  then show ?case using unat_u8_less [of b] by simp
qed simp

lemma same16_be_sum: "same16 (256 * be_sum bs) (le_sum bs)"
proof (induction bs rule: be_sum.induct)
  case (2 b)
  then show ?case using same16_65536 [of "unat b"] by simp
next
  case (3 a b bs)
  have e: "256 * be_sum (a # b # bs) = 65536 * unat a + 256 * unat b + 256 * be_sum bs" by simp
  show ?case unfolding e le_sum.simps by (intro same16_add same16_65536 same16_refl 3)
qed (simp add: same16_refl)

lemma chksum1_loop_ok:
  assumes "valid_range m a (2 * k)" "r < 2" "2 * k + r < 65536"
  shows "chksum1_loop a (of_nat (2 * k + r)) acc m = Some (a + 2 * k, of_nat r, acc + of_nat (be_sum (bytes_at m a (2 * k))))"
  using assms
proof (induction k arbitrary: a acc)
  case 0
  then have "(of_nat r :: u16) \<le> 1" by (cases r) (auto simp: less_2_cases_iff)
  then have "\<not> 1 < (of_nat r :: u16)" by simp
  then show ?case by (subst chksum1_loop.simps) simp
next
  case (Suc k)
  obtain h l where m: "m a = Some h" "m (a + 1) = Some l" "valid_range m (a + 2) (2 * k)"
    using Suc.prems(1) by (rule valid_two)
  have "unat (of_nat (2 * Suc k + r) :: u16) = 2 * Suc k + r" using Suc.prems by (intro unat_of_nat_u16) simp
  then have g: "1 < (of_nat (2 * Suc k + r) :: u16)" by (simp add: word_less_nat_alt)
  have d: "of_nat (2 * Suc k + r) - 2 = (of_nat (2 * k + r) :: u16)" by simp
  have "chksum1_loop a (of_nat (2 * Suc k + r)) acc m
      = chksum1_loop (a + 2) (of_nat (2 * k + r)) (acc + ucast (push_bit 8 (ucast h) OR ucast l :: u16)) m"
    by (subst chksum1_loop.simps) (simp only: if_P [OF g] m d bind.simps Let_def)
  also have "\<dots> = Some (a + 2 + 2 * k, of_nat r,
      acc + ucast (push_bit 8 (ucast h) OR ucast l :: u16) + of_nat (be_sum (bytes_at m (a + 2) (2 * k))))"
    using m(3) Suc.prems by (intro Suc.IH) auto
  finally show ?case unfolding bytes_at_two ucast_of_nat_unat unat_join16 using m by (simp add: algebra_simps)
qed

lemma fold_small: "u AND 0xffff0000 = 0 \<Longrightarrow> unat (u :: u32) \<le> 65535"
proof -
  assume u: "u AND 0xffff0000 = 0"
  have e: "(0xffff0000 :: u32) = push_bit 16 (mask 16)" by (simp add: mask_eq_exp_minus_1)
  have "\<not> bit u n" if "16 \<le> n" for n
  proof
    assume b: "bit u n"
    then have "n < 32" using bit_imp_le_length [of u n] by simp
    with b that have "bit (u AND 0xffff0000) n" unfolding e by (auto simp: bit_simps)
    with u show False by simp
  qed
  then have "u = take_bit 16 u" by (intro bit_eqI) (auto simp: bit_simps not_le [symmetric])
  then have "unat u = take_bit 16 (unat u)" by (metis unsigned_take_bit_eq)
  then have "unat u < 65536" by (metis take_bit_nat_less_exp numeral_power_eq_of_nat_cancel_iff power_numeral Num.pow.simps Num.sqr.simps)
  then show ?thesis by simp
qed

lemma chksum1_rfc1071:
  assumes "valid_range m a n" "n < 65536"
  shows "lwip_standard_chksum1 a (of_nat n) m = Some (inet_sum (bytes_at m a n))"
proof -
  let ?k = "n div 2" and ?r = "n mod 2"
  have v: "valid_range m a (2 * ?k)" "valid_range m (a + 2 * ?k) ?r"
    using assms(1) valid_range_sub [of m a n 0 "2 * ?k"] valid_range_sub [of m a n "2 * ?k" ?r] by simp_all
  define acc where "acc = (of_nat (be_sum (bytes_at m a n)) :: u32)"
  have split: "be_sum (bytes_at m a n) = be_sum (bytes_at m a (2 * ?k)) + be_sum (bytes_at m (a + 2 * ?k) ?r)"
    using bytes_at_append [of m a "2 * ?k" ?r] be_sum_even [of "bytes_at m a (2 * ?k)"] by simp
  have b: "be_sum (bytes_at m a n) < 2 ^ 32"
    using be_sum_le [of "bytes_at m a n"] half [OF assms(2)] by simp
  then have acc: "unat acc = be_sum (bytes_at m a n)" by (simp add: acc_def unat_of_nat take_bit_nat_eq_self)
  have l: "chksum1_loop a (of_nat n) 0 m = Some (a + 2 * ?k, of_nat ?r, of_nat (be_sum (bytes_at m a (2 * ?k))))"
    using chksum1_loop_ok [OF v(1), of ?r 0] assms(2) two_rest [of n] by (simp del: of_nat_add of_nat_mult)
  have t: "(if 0 < (of_nat ?r :: u16) then do { h \<leftarrow> m (a + 2 * ?k);
        Some (of_nat (be_sum (bytes_at m a (2 * ?k))) + ucast (push_bit 8 (ucast h) :: u16)) }
      else Some (of_nat (be_sum (bytes_at m a (2 * ?k))))) = Some acc"
  proof (cases "?r = 0")
    case True
    then show ?thesis by (simp add: acc_def split)
  next
    case False
    then have r: "?r = 1" by simp
    then obtain h where h: "m (a + 2 * ?k) = Some h" using v(2) by (auto simp: valid_range_iff)
    then show ?thesis unfolding acc_def split r by (simp add: bytes_at_def ucast_of_nat_unat unat_push8)
  qed
  define f where "f = FOLD_U32T acc"
  define g where "g = (if f AND 0xffff0000 \<noteq> 0 then FOLD_U32T f else f)"
  have g: "same16 (unat g) (unat acc)" "unat g \<le> 65535"
    using same16_fold [of acc] same16_trans [OF same16_fold [of f] same16_fold [of acc, folded f_def]] fold_twice_le [of acc] fold_small [of f]
    by (auto simp: g_def f_def)
  have u: "unat (ucast g :: u16) = unat g" using g(2) by (simp add: unsigned_ucast_eq take_bit_nat_eq_self)
  have "same16 (unat (htons (ucast g))) (le_sum (bytes_at m a n))"
    using same16_trans [OF same16_htons [of "ucast g", unfolded u] same16_trans [OF same16_mult [OF g(1), of 256] same16_be_sum [of "bytes_at m a n", folded acc]]] .
  moreover have "lwip_standard_chksum1 a (of_nat n) m = Some (htons (ucast g))"
    unfolding lwip_standard_chksum1_def l bind.simps prod.case t by (simp add: g_def f_def FOLD_U32T_def Let_def)
  ultimately show ?thesis using ones16I by (simp add: inet_sum_def)
qed

subsection \<open>The third version\<close>

lemma same16_add_carry: "same16 (unat (add_carry s v)) (unat s + unat v)"
proof (cases "unat s + unat v < 2 ^ 32")
  case True
  then have "\<not> s + v < s" by (simp add: word_less_nat_alt unat_add_u32)
  then show ?thesis using True by (simp add: add_carry_def unat_add_u32 same16_refl Let_def)
next
  case False
  let ?d = "unat s + unat v - 2 ^ 32"
  have d: "unat (s + v) = ?d" using False by (simp add: unat_add_u32)
  have "?d < unat s" using unsigned_less [of v, where 'a = nat] False by simp
  then have l: "s + v < s" by (simp add: word_less_nat_alt d)
  have "unat (s + v + 1) = ?d + 1"
    using d \<open>?d < unat s\<close> unsigned_less [of s, where 'a = nat] unat_add_u32 [of "s + v" 1] by simp
  then have c: "unat (add_carry s v) = ?d + 1" using l by (simp add: add_carry_def)
  have "unat s + unat v = ?d + 65536 * 65536" using False by simp
  moreover have "same16 (?d + 1) (?d + 65536 * 65536)"
    using same16_add [OF same16_refl [of ?d] same16_trans [OF same16_65536 [of 65536] same16_65536 [of 1, simplified]]] same16_sym by simp
  ultimately show ?thesis using c by simp
qed

lemma ldu32_ok:
  assumes "a mod 4 = 0" "valid_range m a 4"
  obtains v where "ldu32 m a = Some v" "same16 (unat v) (le_sum (bytes_at m a 4))"
proof -
  obtain b0 b1 where b: "m a = Some b0" "m (a + 1) = Some b1" "valid_range m (a + 2) 2"
    using valid_two [of m a 1] assms(2) by auto
  obtain b2 b3 where c: "m (a + 2) = Some b2" "m (a + 2 + 1) = Some b3"
    using valid_two [of m "a + 2" 0] b(3) by auto
  let ?l = "push_bit 8 (ucast b1) OR ucast b0 :: u16" and ?h = "push_bit 8 (ucast b3) OR ucast b2 :: u16"
  have p: "a mod 2 = 0" "(a + 2) mod 2 = 0" using assms(1) by presburger+
  let ?v = "push_bit 16 (ucast ?h) OR ucast ?l :: u32"
  have v: "ldu32 m a = Some ?v" using assms(1) p b c by (simp add: ldu32_def ldu16_def add.assoc)
  have "?v = push_bit 16 (ucast ?h) + ucast ?l"
    by (rule disjunctive_add [symmetric]) (auto simp: bit_simps)
  also have "\<dots> = of_nat (65536 * unat ?h + unat ?l)"
    unfolding ucast_of_nat_unat by (simp add: push_bit_eq_mult mult.commute)
  finally have e: "?v = of_nat (65536 * unat ?h + unat ?l)" .
  have "unat ?v = 65536 * unat ?h + unat ?l"
    unfolding e using unsigned_less [of ?h, where 'a = nat] unsigned_less [of ?l, where 'a = nat]
    by (intro unat_of_nat_u32) simp
  moreover have "bytes_at m a 4 = [b0, b1, b2, b3]"
    using b c by (simp add: bytes_at_def upt_rec numeral_eq_Suc)
  ultimately have "same16 (unat ?v) (le_sum (bytes_at m a 4))"
    using same16_add [OF same16_65536 [of "unat ?h"] same16_refl [of "unat ?l"]]
    by (simp add: unat_join16 algebra_simps)
  with v show ?thesis by (rule that)
qed

lemma sum_u32_ok:
  assumes "pl mod 4 = 0" "valid_range m pl (8 * k)" "r < 8"
  shows "\<exists>s'. sum_u32 pl (int (8 * k + r)) s m = Some (pl + 8 * k, int r, s')
    \<and> same16 (unat s') (unat s + le_sum (bytes_at m pl (8 * k)))"
  using assms
proof (induction k arbitrary: pl s)
  case 0
  then show ?case by (subst sum_u32.simps) (simp add: same16_refl)
next
  case (Suc k)
  have v: "valid_range m pl 4" "valid_range m (pl + 4) 4" "valid_range m (pl + 8) (8 * k)"
    using valid_range_sub [OF Suc.prems(2), of 0 4] valid_range_sub [OF Suc.prems(2), of 4 4]
      valid_range_sub [OF Suc.prems(2), of 8 "8 * k"] by simp_all
  have p: "(pl + 4) mod 4 = 0" "(pl + 8) mod 4 = 0" using Suc.prems(1) by presburger+
  obtain v w where w: "ldu32 m pl = Some v" "same16 (unat v) (le_sum (bytes_at m pl 4))"
      "ldu32 m (pl + 4) = Some w" "same16 (unat w) (le_sum (bytes_at m (pl + 4) 4))"
    using ldu32_ok [OF Suc.prems(1) v(1)] ldu32_ok [OF p(1) v(2)] by metis
  let ?s = "add_carry (add_carry s v) w"
  obtain s' where s': "sum_u32 (pl + 8) (int (8 * k + r)) ?s m = Some (pl + 8 + 8 * k, int r, s')"
      "same16 (unat s') (unat ?s + le_sum (bytes_at m (pl + 8) (8 * k)))"
    using Suc.IH [OF p(2) v(3) Suc.prems(3)] by blast
  have "sum_u32 pl (int (8 * Suc k + r)) s m = sum_u32 (pl + 8) (int (8 * k + r)) ?s m"
    by (subst sum_u32.simps) (simp add: w Let_def)
  moreover have "same16 (unat ?s) (unat s + le_sum (bytes_at m pl 4) + le_sum (bytes_at m (pl + 4) 4))"
    using same16_trans [OF same16_add_carry
        same16_add [OF same16_trans [OF same16_add_carry same16_add [OF same16_refl w(2)]] w(4)]] .
  then have "same16 (unat s') (unat s + le_sum (bytes_at m pl 4) + le_sum (bytes_at m (pl + 4) 4) + le_sum (bytes_at m (pl + 8) (8 * k)))"
    using same16_trans [OF s'(2) same16_add [OF _ same16_refl]] by blast
  moreover have "le_sum (bytes_at m pl (8 * Suc k))
      = le_sum (bytes_at m pl 4) + le_sum (bytes_at m (pl + 4) 4) + le_sum (bytes_at m (pl + 8) (8 * k))"
    using bytes_at_append [of m pl 4 "4 + 8 * k"] bytes_at_append [of m "pl + 4" 4 "8 * k"]
    by (simp add: le_sum_even add.assoc)
  ultimately show ?case using s'(1) by (simp add: add_ac)
qed

lemma sum3_tail:
  assumes "pl mod 4 = 0 \<or> n < 8" "pl mod 2 = 0" "valid_range m pl n"
  shows "\<exists>w. do { (pl, len, s) \<leftarrow> sum_u32 pl (int n) s m; (ps, len, s) \<leftarrow> sum_u16 pl len (FOLD_U32T s) m;
                  chksum_end is_odd ps len (push_bit 8 (ucast (x :: u8))) s m } = Some w
    \<and> same16 (unat w) ((if is_odd then 256 else 1) * (unat s + 256 * unat x + le_sum (bytes_at m pl n)))"
proof -
  let ?k = "n div 8" and ?r = "n mod 8"
  have v: "valid_range m pl (8 * ?k)" "valid_range m (pl + 8 * ?k) ?r"
    using assms(3) valid_range_sub [of m pl n 0 "8 * ?k"] valid_range_sub [of m pl n "8 * ?k" ?r] by simp_all
  have nr: "int n = int (8 * ?k + ?r)" by simp
  obtain s' where s': "sum_u32 pl (int n) s m = Some (pl + 8 * ?k, int ?r, s')"
      "same16 (unat s') (unat s + le_sum (bytes_at m pl (8 * ?k)))"
  proof (cases "n < 8")
    case True
    then show ?thesis by (intro that [of s]) (subst sum_u32.simps, simp_all add: same16_refl)
  next
    case False
    then show ?thesis using sum_u32_ok [of pl m ?k ?r s] assms(1) v(1) that unfolding nr by auto
  qed
  let ?f = "FOLD_U32T s'"
  have "unat s' div 65536 < 65536" using unsigned_less [of s', where 'a = nat] by (simp add: less_mult_imp_div_less)
  then have "unat ?f \<le> 131070" unfolding unat_fold by simp
  then have b: "unat ?f + 65535 * (?r div 2 + 1) < 2 ^ 32" using div_le_mono [of ?r 7 2] by simp
  have p: "(pl + 8 * ?k) mod 2 = 0" using assms(2) by presburger
  let ?c = "if is_odd then 256 else 1 :: nat"
  obtain w where w: "do { (ps, len, s) \<leftarrow> sum_u16 (pl + 8 * ?k) (int ?r) ?f m; chksum_end is_odd ps len (push_bit 8 (ucast x)) s m } = Some w"
    "same16 (unat w) (?c * (unat ?f + 256 * unat x + le_sum (bytes_at m (pl + 8 * ?k) ?r)))"
    using sum_and_end [OF p v(2) b, of is_odd x] by blast
  have "le_sum (bytes_at m pl n) = le_sum (bytes_at m pl (8 * ?k)) + le_sum (bytes_at m (pl + 8 * ?k) ?r)"
    using bytes_at_append [of m pl "8 * ?k" ?r] le_sum_even [of "bytes_at m pl (8 * ?k)"] by simp
  then have e: "unat s + 256 * unat x + le_sum (bytes_at m pl n)
      = unat s + le_sum (bytes_at m pl (8 * ?k)) + 256 * unat x + le_sum (bytes_at m (pl + 8 * ?k) ?r)" by simp
  have "same16 (unat w) (?c * (unat s + 256 * unat x + le_sum (bytes_at m pl n)))"
    unfolding e using same16_trans [OF w(2) same16_mult [OF same16_add [OF same16_add
        [OF same16_trans [OF same16_fold s'(2)] same16_refl] same16_refl]]] .
  with s'(1) w(1) show ?thesis by auto
qed

lemma chksum3_rfc1071:
  assumes "valid_range m a n"
  shows "lwip_standard_chksum3 a (int n) m = Some (inet_sum (bytes_at m a n))"
proof -
  let ?rest = "\<lambda>is_odd x ps n. do {
      (ps, len, s) \<leftarrow> (if ps mod 4 \<noteq> 0 \<and> 1 < n then do { v \<leftarrow> ldu16 m ps; Some (ps + 2, n - 2, ucast v) } else Some (ps, n, 0));
      (pl, len, s) \<leftarrow> sum_u32 ps len s m; (ps, len, s) \<leftarrow> sum_u16 pl len (FOLD_U32T s) m;
      chksum_end is_odd ps len (push_bit 8 (ucast (x :: u8))) s m }"
  have rest: "\<exists>w. ?rest is_odd x ps (int n) = Some w
      \<and> same16 (unat w) ((if is_odd then 256 else 1) * (0 + 256 * unat x + le_sum (bytes_at m ps n)))"
    if ps: "ps mod 2 = 0" "valid_range m ps n" for is_odd x ps n
  proof (cases "ps mod 4 \<noteq> 0 \<and> 1 < n")
    case True
    then obtain k where k: "n = 2 + k" using le_Suc_ex [of 2 n] by auto
    have v: "valid_range m ps (2 * Suc 0)" "valid_range m (ps + 2) k"
      using ps(2) valid_range_sub [of m ps n 0 2] valid_range_sub [of m ps n 2 k] k by simp_all
    obtain l h where m: "m ps = Some l" "m (ps + 1) = Some h" using v(1) by (rule valid_two)
    have p: "(ps + 2) mod 4 = 0" "(ps + 2) mod 2 = 0" using True ps(1) by presburger+
    let ?v = "push_bit 8 (ucast h) OR ucast l :: u16"
    have e: "unat (ucast ?v :: u32) + 256 * unat x + le_sum (bytes_at m (ps + 2) k) = 0 + 256 * unat x + le_sum (bytes_at m ps n)"
      using bytes_at_append [of m ps 2 k] m k by (simp add: unat_join16 bytes_at_def numeral_2_eq_2)
    show ?thesis using sum3_tail [of "ps + 2" k m "ucast ?v" is_odd x] p v(2) True m ps(1) unfolding e
      by (simp add: k ldu16_def)
  next
    case False
    then have "ps mod 4 = 0 \<or> n < 8" by auto
    then show ?thesis using sum3_tail [of ps n m 0 is_odd x] ps False by auto
  qed
  show ?thesis
  proof (cases "a mod 2 = 1 \<and> 0 < n")
    case True
    then obtain b where b: "m a = Some b" using assms unfolding valid_range_iff by (metis add_0_right option.exhaust)
    let ?n = "n - 1"
    have v: "valid_range m (a + 1) ?n" using valid_range_sub [OF assms, of 1 ?n] True by simp
    have a: "(a + 1) mod 2 = 0" using True by presburger
    obtain w where w: "?rest True b (a + 1) (int ?n) = Some w"
      "same16 (unat w) (256 * (0 + 256 * unat b + le_sum (bytes_at m (a + 1) ?n)))"
      using rest [OF a v, of True b] by auto
    have "bytes_at m a n = b # bytes_at m (a + 1) ?n"
      using bytes_at_append [of m a 1 ?n] True b by (simp add: bytes_at_def)
    then have "same16 (unat w) (le_sum (bytes_at m a n))" using odd_start [OF w(2)] by (simp add: same16_refl)
    moreover have al: "align_u16 a (int n) m = Some (a + 1, int ?n, push_bit 8 (ucast b))" and o: "(a mod 2 = 1) = True"
      using True b by (simp_all add: align_u16_def set_high_0)
    have "lwip_standard_chksum3 a (int n) m = ?rest True b (a + 1) (int ?n)"
      unfolding lwip_standard_chksum3_def al o bind.simps prod.case Let_def ..
    ultimately show ?thesis using w(1) ones16I by (simp only: inet_sum_def)
  next
    case False
    show ?thesis
    proof (cases "n = 0")
      case True
      then show ?thesis by (simp add: lwip_standard_chksum3_def align_u16_def sum_u16.simps sum_u32.simps chksum_end_def FOLD_U32T_def
            SWAP_BYTES_IN_WORD_def LWIP_PLATFORM_HTONS_def inet_sum_def ones16_def)
    next
      case n: False
      with False have a: "a mod 2 = 0" by auto
      obtain w where "?rest False 0 a (int n) = Some w" "same16 (unat w) (le_sum (bytes_at m a n))"
        using rest [OF a assms, of False 0] by auto
      then show ?thesis using a ones16I by (simp add: lwip_standard_chksum3_def align_u16_def inet_sum_def Let_def)
    qed
  qed
qed

section \<open>Chains\<close>

definition halves :: "bool \<Rightarrow> nat" where
  "halves swapped = (if swapped then 256 else 1)"

lemma halves_flip: "same16 (halves (sw \<noteq> b) * (halves b * x)) (halves sw * x)"
  using same16_65536 [of x] by (auto simp: halves_def same16_refl mult.assoc [symmetric])

lemma chksum_add_ok:
  assumes "valid_range m (payload q) (unat n)" "unat acc \<le> 65535"
    and inv: "same16 (halves sw * unat acc) (le_sum xs)" "sw = odd (length xs)"
  shows "\<exists>acc'. chksum_add q n acc sw m = Some (acc', sw \<noteq> odd (unat (pb_len q))) \<and> unat acc' \<le> 65535
    \<and> same16 (halves (sw \<noteq> odd (unat (pb_len q))) * unat acc') (le_sum (xs @ bytes_at m (payload q) (unat n)))"
proof -
  let ?bs = "bytes_at m (payload q) (unat n)" and ?b = "odd (unat (pb_len q))"
  have v: "lwip_standard_chksum (payload q) (int (unat n)) m = Some (inet_sum ?bs)"
    using chksum_rfc1071 [OF assms(1)] unsigned_less [of n, where 'a = nat] by simp
  let ?a = "acc + ucast (inet_sum ?bs)"
  have "unat (inet_sum ?bs) \<le> 65535" using unsigned_less [of "inet_sum ?bs", where 'a = nat] by simp
  then have a: "unat ?a = unat acc + unat (inet_sum ?bs)" "unat ?a \<le> 131070"
    using assms(2) by (simp_all add: unat_add_u32)
  let ?f = "FOLD_U32T ?a"
  have f: "same16 (unat ?f) (unat acc + le_sum ?bs)" "unat ?f \<le> 65535"
    using same16_trans [OF same16_fold [of ?a, unfolded a(1)] same16_add [OF same16_refl same16_ones16 [of "le_sum ?bs", folded inet_sum_def]]]
      fold_le [OF a(2)] by auto
  define g where "g = (if ?b then SWAP_BYTES_IN_WORD ?f else ?f)"
  have g: "same16 (unat g) (halves ?b * (unat acc + le_sum ?bs))" "unat g \<le> 65535"
    using f swap_le same16_trans [OF same16_swap [OF f(2)] same16_mult [OF f(1)]] by (auto simp: g_def halves_def)
  have "same16 (halves (sw \<noteq> ?b) * unat g) (halves sw * (unat acc + le_sum ?bs))"
    using same16_trans [OF same16_mult [OF g(1)] halves_flip] .
  also have "halves sw * (unat acc + le_sum ?bs) = halves sw * unat acc + halves sw * le_sum ?bs"
    by (rule distrib_left)
  finally have "same16 (halves (sw \<noteq> ?b) * unat g) (le_sum xs + halves sw * le_sum ?bs)"
    using same16_trans [OF _ same16_add [OF inv(1) same16_refl]] by blast
  then have "same16 (halves (sw \<noteq> ?b) * unat g) (le_sum (xs @ ?bs))"
    using same16_trans [OF _ same16_sym [OF le_sum_append [of xs ?bs]]] inv(2) by (auto simp: halves_def)
  with g(2) v show ?thesis by (auto simp: chksum_add_def g_def Let_def)
qed

lemma chksum_chain_ok:
  assumes "chain st q bs" "list_all (pbuf_valid m) bs" "unat acc \<le> 65535"
    and "same16 (halves sw * unat acc) (le_sum xs)" "sw = odd (length xs)"
  shows "\<exists>acc' sw'. chksum_chain st q acc sw m = Some (acc', sw') \<and> unat acc' \<le> 65535
    \<and> same16 (halves sw' * unat acc') (le_sum (xs @ chain_bytes m bs))"
  using assms
proof (induction bs arbitrary: q acc sw xs)
  case Nil
  then show ?case by (subst chksum_chain.simps) auto
next
  case (Cons b bs)
  let ?n = "pb_len b"
  obtain acc' where a: "chksum_add b ?n acc sw m = Some (acc', sw \<noteq> odd (unat ?n))" "unat acc' \<le> 65535"
      "same16 (halves (sw \<noteq> odd (unat ?n)) * unat acc') (le_sum (xs @ pbuf_bytes m b))"
    using chksum_add_ok [of m b ?n acc sw xs] Cons.prems by (auto simp: pbuf_valid_def pbuf_bytes_def)
  have q: "q \<noteq> NULL" "st q = Some b" "chain st (pb_next b) bs" using Cons.prems(1) by auto
  have "(sw \<noteq> odd (unat ?n)) = odd (length (xs @ pbuf_bytes m b))" using Cons.prems(5) by auto
  from Cons.IH [OF q(3) _ a(2,3) this] Cons.prems(2)
  show ?case using q(1,2) a(1) by (subst chksum_chain.simps) simp
qed

lemma chksum_chain_partial_ok:
  assumes "chain st q bs" "list_all (pbuf_valid m) bs" "unat acc \<le> 65535"
    and "same16 (halves sw * unat acc) (le_sum xs)" "sw = odd (length xs)"
  shows "\<exists>acc' sw'. chksum_chain_partial st q n acc sw m = Some (acc', sw') \<and> unat acc' \<le> 65535
    \<and> same16 (halves sw' * unat acc') (le_sum (xs @ take (unat n) (chain_bytes m bs)))"
  using assms
proof (induction bs arbitrary: q acc sw xs n)
  case Nil
  then show ?case by (subst chksum_chain_partial.simps) auto
next
  case (Cons b bs)
  have q: "q \<noteq> NULL" "st q = Some b" "chain st (pb_next b) bs" and v: "valid_range m (payload b) (unat (pb_len b))"
    using Cons.prems(1,2) by (auto simp: pbuf_valid_def)
  let ?sw = "sw \<noteq> odd (unat (pb_len b))"
  show ?case
  proof (cases "n < pb_len b")
    case True
    then have le: "unat n \<le> unat (pb_len b)" by (simp add: word_less_nat_alt)
    show ?thesis
    proof (cases "n = 0")
      case n: False
      have "valid_range m (payload b) (unat n)" using valid_range_sub [OF v, of 0 "unat n"] le by simp
      then obtain acc' where a: "chksum_add b n acc sw m = Some (acc', ?sw)" "unat acc' \<le> 65535"
          "same16 (halves ?sw * unat acc') (le_sum (xs @ bytes_at m (payload b) (unat n)))"
        using chksum_add_ok [of m b n acc sw xs] Cons.prems by auto
      have "take (unat n) (chain_bytes m (b # bs)) = bytes_at m (payload b) (unat n)"
        using le by (simp add: pbuf_bytes_def take_bytes_at)
      moreover have "chksum_chain_partial st (pb_next b) 0 acc' ?sw m = Some (acc', ?sw)"
        by (subst chksum_chain_partial.simps) simp
      ultimately show ?thesis using a q(1,2) True n
        by (subst chksum_chain_partial.simps) (simp add: word_greater_zero_iff Let_def)
    qed (use Cons.prems in \<open>subst chksum_chain_partial.simps, simp\<close>)
  next
    case False
    then have le: "unat (pb_len b) \<le> unat n" by (simp add: word_less_nat_alt)
    obtain acc' where a: "chksum_add b (pb_len b) acc sw m = Some (acc', ?sw)" "unat acc' \<le> 65535"
        "same16 (halves ?sw * unat acc') (le_sum (xs @ pbuf_bytes m b))"
      using chksum_add_ok [of m b "pb_len b" acc sw xs] Cons.prems v by (auto simp: pbuf_bytes_def)
    have "?sw = odd (length (xs @ pbuf_bytes m b))" using Cons.prems(5) by auto
    from Cons.IH [OF q(3) _ a(2,3) this, of "n - pb_len b"] Cons.prems(2) le
    obtain acc1 sw1 where r: "chksum_chain_partial st (pb_next b) (n - pb_len b) acc' ?sw m = Some (acc1, sw1)" "unat acc1 \<le> 65535"
        "same16 (halves sw1 * unat acc1) (le_sum (xs @ take (unat n) (chain_bytes m (b # bs))))"
      by (auto simp: unat_sub word_le_nat_alt)
    show ?thesis
    proof (cases "n = 0")
      case True
      have "chksum_chain_partial st q n acc sw m = Some (acc, sw)"
        by (subst chksum_chain_partial.simps) (simp add: True)
      then show ?thesis using Cons.prems True by simp
    next
      case n: False
      have "chksum_chain_partial st q n acc sw m = Some (acc1, sw1)"
        using q(1,2) a(1) False r(1) n by (subst chksum_chain_partial.simps) (simp add: word_greater_zero_iff Let_def)
      then show ?thesis using r(2,3) by blast
    qed
  qed
qed

lemma unswap_ok:
  assumes "unat acc \<le> 65535" "same16 (halves sw * unat acc) n"
  shows "unswap (acc, sw) = ucast (ones16 n)"
proof -
  let ?u = "unswap (acc, sw)"
  have u: "unat ?u \<le> 65535" "same16 (unat ?u) n"
    using assms swap_le [of acc] same16_trans [OF same16_swap [OF assms(1)]] by (auto simp: unswap_def halves_def)
  have c: "unat (ucast ?u :: u16) = unat ?u" using u(1) by (simp add: unsigned_ucast_eq take_bit_nat_eq_self)
  then have "ucast ?u = ones16 n" using ones16I [of "ucast ?u"] u(2) by simp
  moreover have "?u = ucast (ucast ?u :: u16)" using c by (simp add: word_unat_eq_iff)
  ultimately show ?thesis by simp
qed

lemma not_low: "(ucast (NOT (ucast w AND 0xffff :: u32)) :: u16) = NOT (w :: u16)"
  unfolding and_low_bits by (rule bit_eqI) (auto simp: bit_simps)

text \<open>The pseudo header: the addresses as they lie in memory, a zero byte, the protocol, the length.\<close>

definition pseudo_bytes :: "u32 \<Rightarrow> u32 \<Rightarrow> u8 \<Rightarrow> u16 \<Rightarrow> u8 list" where
  "pseudo_bytes src dest proto n = addr_bytes src @ addr_bytes dest @ [0, proto, ucast (drop_bit 8 n), ucast n]"

lemma unat_bytes_of:
  "unat (ucast (x :: 'a::len word) :: u8) = unat x mod 256"
  "unat (ucast (drop_bit k x) :: u8) = unat x div 2 ^ k mod 256"
  unfolding unsigned_ucast_eq unat_drop_bit_eq by (simp_all add: take_bit_eq_mod drop_bit_eq_div)

lemma le_sum_addr:
  "unat (a AND 0xffff) + unat (drop_bit 16 a AND 0xffff) = le_sum (addr_bytes a)" for a :: u32
proof -
  let ?n = "unat a"
  have n: "?n div 16777216 mod 256 = ?n div 16777216"
    using unsigned_less [of a, where 'a = nat] by (simp add: less_mult_imp_div_less)
  have "unat (a AND 0xffff) = ?n mod 65536" "unat (drop_bit 16 a AND 0xffff) = ?n div 65536 mod 65536"
    unfolding and_low_bits unsigned_take_bit_eq unat_drop_bit_eq by (simp_all add: take_bit_eq_mod drop_bit_eq_div)
  moreover have "?n mod 65536 = ?n mod 256 + 256 * (?n div 256 mod 256)" for n :: nat
    using mod_mult2_eq [of ?n 256 256] by simp
  moreover have "?n div 65536 mod 65536 = ?n div 65536 mod 256 + 256 * (?n div 16777216 mod 256)"
    using mod_mult2_eq [of "?n div 65536" 256 256] by (simp add: div_mult2_eq [symmetric])
  ultimately show ?thesis unfolding addr_bytes_def le_sum.simps unat_bytes_of(2) unfolding unat_bytes_of(1) by simp
qed

lemma htons_bytes: "unat (htons n) = unat n div 256 mod 256 + 256 * (unat n mod 256)"
proof -
  have "unat (SWAP_BYTES_IN_WORD (ucast n)) = unat (htons n)" by (simp add: SWAP_BYTES_IN_WORD_def htons_def)
  then show ?thesis using unat_swap [of "ucast n"] by simp
qed

lemma pseudo_header_ok:
  assumes "unat acc \<le> 65535" "same16 (unat acc) (le_sum xs)"
  shows "pseudo_header src dest proto n acc = NOT (inet_sum (pseudo_bytes src dest proto n @ xs))"
proof -
  let ?t = "acc + (src AND 0xffff) + (drop_bit 16 src AND 0xffff) + (dest AND 0xffff) + (drop_bit 16 dest AND 0xffff)
      + ucast (htons (ucast proto)) + ucast (htons n)"
  have s: "unat (x AND 0xffff) \<le> 65535" for x :: u32
    unfolding and_low_bits unsigned_take_bit_eq using take_bit_nat_less_exp [of 16 "unat x"] by simp
  have h: "unat (htons x) \<le> 65535" for x using unsigned_less [of "htons x", where 'a = nat] by simp
  have t: "unat ?t = unat acc + (unat (src AND 0xffff) + unat (drop_bit 16 src AND 0xffff))
      + (unat (dest AND 0xffff) + unat (drop_bit 16 dest AND 0xffff)) + unat (htons (ucast proto)) + unat (htons n)"
    using assms(1) s [of src] s [of "drop_bit 16 src"] s [of dest] s [of "drop_bit 16 dest"] h [of "ucast proto"] h [of n]
    by (simp add: unat_add_u32)
  have p: "unat (htons (ucast proto)) = 256 * unat proto"
  proof -
    have e: "unat (ucast proto :: u16) = unat proto"
      unfolding unsigned_ucast_eq by (rule take_bit_nat_eq_self) (use unat_u8_less [of proto] in simp)
    show ?thesis unfolding htons_bytes e using unat_u8_less [of proto] by simp
  qed
  have "unat ?t = unat acc + le_sum (pseudo_bytes src dest proto n)"
    unfolding t le_sum_addr p unfolding htons_bytes
    by (simp add: pseudo_bytes_def addr_bytes_def unat_bytes_of(2)) (simp add: unat_bytes_of(1))
  moreover have "le_sum (pseudo_bytes src dest proto n @ xs) = le_sum (pseudo_bytes src dest proto n) + le_sum xs"
    by (rule le_sum_even) (simp add: pseudo_bytes_def addr_bytes_def)
  ultimately have e: "same16 (unat ?t) (le_sum (pseudo_bytes src dest proto n @ xs))"
    using same16_add [OF same16_refl [of "le_sum (pseudo_bytes src dest proto n)"] assms(2)]
    by (simp only: add.commute [of "unat acc"])
  let ?f = "FOLD_U32T (FOLD_U32T ?t)"
  have f: "same16 (halves False * unat ?f) (le_sum (pseudo_bytes src dest proto n @ xs))" "unat ?f \<le> 65535"
    using same16_trans [OF same16_fold same16_trans [OF same16_fold e]] fold_twice_le by (auto simp: halves_def)
  have "?f = ucast (inet_sum (pseudo_bytes src dest proto n @ xs))"
    using unswap_ok [OF f(2,1)] by (simp add: unswap_def inet_sum_def)
  then show ?thesis unfolding pseudo_header_def Let_def by (simp only: not_low)
qed

lemma le_sum_replace:
  "le_sum (xs @ b # ys) + unat b' * halves (odd (length xs)) = le_sum (xs @ b' # ys) + unat b * halves (odd (length xs))"
proof (induction xs rule: le_sum.induct)
  case 1
  then show ?case by (cases ys) (auto simp: halves_def)
qed (auto simp: halves_def)

lemma small_change:
  assumes "x < 256" "y < (256 :: nat)"
  shows "\<bar>(int x - int y) * int (halves h)\<bar> < 65535"
proof -
  have "\<bar>int x - int y\<bar> \<le> 255" using assms by linarith
  then have "\<bar>int x - int y\<bar> * int (halves h) \<le> 255 * 256" by (intro mult_mono) (auto simp: halves_def)
  then show ?thesis by (simp add: abs_mult)
qed

lemma inet_sum_detects:
  assumes "b \<noteq> b'"
  shows "inet_sum (xs @ b # ys) \<noteq> inet_sum (xs @ b' # ys)"
proof
  let ?c = "halves (odd (length xs))"
  assume "inet_sum (xs @ b # ys) = inet_sum (xs @ b' # ys)"
  then have "same16 (le_sum (xs @ b # ys)) (le_sum (xs @ b' # ys))" by (simp add: inet_sum_def ones16_eq_iff)
  then have "int (le_sum (xs @ b # ys) mod 65535) = int (le_sum (xs @ b' # ys) mod 65535)" by (simp add: same16_def)
  then have "int (le_sum (xs @ b # ys)) mod 65535 = int (le_sum (xs @ b' # ys)) mod 65535" by (simp add: zmod_int)
  then have "(int (le_sum (xs @ b # ys)) - int (le_sum (xs @ b' # ys))) mod 65535 = 0"
    by (simp add: mod_diff_eq [symmetric])
  moreover have "int (le_sum (xs @ b # ys)) - int (le_sum (xs @ b' # ys)) = (int (unat b) - int (unat b')) * int ?c"
    using arg_cong [OF le_sum_replace [of xs b ys b'], of int] by (simp add: algebra_simps)
  ultimately have "65535 dvd (int (unat b) - int (unat b')) * int ?c" by (simp add: dvd_eq_mod_eq_0)
  moreover have "\<bar>(int (unat b) - int (unat b')) * int ?c\<bar> < 65535"
    by (rule small_change [OF unat_u8_less unat_u8_less])
  moreover have "(int (unat b) - int (unat b')) * int ?c \<noteq> 0"
    using assms by (auto simp: halves_def word_uint_eq_iff)
  ultimately show False using dvd_imp_le_int [of "(int (unat b) - int (unat b')) * int ?c" 65535] by simp
qed

lemma chain_pseudo:
  assumes "chain st p bs" "list_all (pbuf_valid m) bs"
  shows "inet_chksum_pseudo st p src dest proto n m = Some (NOT (inet_sum (pseudo_bytes src dest proto n @ chain_bytes m bs)))"
    "inet_chksum_pseudo_partial st p src dest proto n k m
       = Some (NOT (inet_sum (pseudo_bytes src dest proto n @ take (unat k) (chain_bytes m bs))))"
    "inet_chksum_pbuf st p m = Some (NOT (inet_sum (chain_bytes m bs)))"
proof -
  have i: "same16 (halves False * unat (0 :: u32)) (le_sum [])" by (simp add: same16_refl)
  have u: "unat (ucast (w :: u16) :: u32) \<le> 65535" "same16 (unat (ucast (ones16 k) :: u32)) k" for w k
    using unsigned_less [of w, where 'a = nat] same16_ones16 [of k] by simp_all
  obtain acc sw where "chksum_chain st p 0 False m = Some (acc, sw)" "unat acc \<le> 65535"
      "same16 (halves sw * unat acc) (le_sum (chain_bytes m bs))"
    using chksum_chain_ok [OF assms _ i] by auto
  note c = this(1) and uc = unswap_ok [OF this(2,3)]
  show "inet_chksum_pseudo st p src dest proto n m = Some (NOT (inet_sum (pseudo_bytes src dest proto n @ chain_bytes m bs)))"
    unfolding inet_chksum_pseudo_def c option.map uc using pseudo_header_ok [OF u] by simp
  show "inet_chksum_pbuf st p m = Some (NOT (inet_sum (chain_bytes m bs)))"
    unfolding inet_chksum_pbuf_def c option.map uc by (simp only: not_low inet_sum_def)
  obtain acc' sw' where "chksum_chain_partial st p k 0 False m = Some (acc', sw')" "unat acc' \<le> 65535"
      "same16 (halves sw' * unat acc') (le_sum (take (unat k) (chain_bytes m bs)))"
    using chksum_chain_partial_ok [OF assms _ i, of k] by auto
  note c' = this(1) and uc' = unswap_ok [OF this(2,3)]
  show "inet_chksum_pseudo_partial st p src dest proto n k m
       = Some (NOT (inet_sum (pseudo_bytes src dest proto n @ take (unat k) (chain_bytes m bs))))"
    unfolding inet_chksum_pseudo_partial_def c' option.map uc' using pseudo_header_ok [OF u] by simp
qed

lemma not_zero_iff: "NOT w = 0 \<longleftrightarrow> w = (0xFFFF :: u16)"
proof
  assume "NOT w = 0"
  then have "NOT (NOT w) = NOT 0" by (rule arg_cong)
  then show "w = 0xFFFF" by simp
qed simp

lemma unat_not_u16: "unat (NOT w) = 65535 - unat (w :: u16)"
proof -
  have "w \<le> - 1" by (rule word_order.extremum)
  then have "unat (- 1 - w) = unat (- 1 :: u16) - unat w" by (rule unat_sub)
  moreover have "NOT w = - 1 - w" by (simp add: not_eq_complement)
  ultimately show ?thesis by (simp add: unsigned_minus_1_eq_mask mask_eq_exp_minus_1)
qed

text \<open>A sum with its own complement added is all ones.\<close>

lemma inet_sum_sealed:
  assumes "even (length xs)" "c = NOT (inet_sum (xs @ [0, 0] @ ys))"
  shows "inet_sum (xs @ [ucast c, ucast (drop_bit 8 c)] @ ys) = 0xFFFF"
proof -
  let ?s = "le_sum (xs @ [0, 0] @ ys)"
  have c: "unat c = 65535 - unat (ones16 ?s)"
    using assms(2) by (simp only: inet_sum_def unat_not_u16)
  have "unat (ucast c :: u8) + 256 * unat (ucast (drop_bit 8 c) :: u8) = unat c"
  proof -
    have "unat c div 256 mod 256 = unat c div 256"
      using unsigned_less [of c, where 'a = nat] by (simp add: less_mult_imp_div_less)
    then show ?thesis unfolding unat_bytes_of(2) unfolding unat_bytes_of(1) by simp
  qed
  then have e: "le_sum (xs @ [ucast c, ucast (drop_bit 8 c)] @ ys) = ?s + unat c"
    using assms(1) by (simp add: le_sum_even)
  have "same16 (?s + unat c) (unat (ones16 ?s) + unat c)" by (intro same16_add same16_refl same16_sym [OF same16_ones16])
  then have "same16 (?s + unat c) 65535" using c unsigned_less [of "ones16 ?s", where 'a = nat] by simp
  then have "inet_sum (xs @ [ucast c, ucast (drop_bit 8 c)] @ ys) = ones16 65535"
    unfolding inet_sum_def e by (simp add: ones16_eq_iff)
  then show ?thesis by (simp add: ones16_def)
qed

section \<open>Properties\<close>

text \<open>C24. Each of the three implementations of the checksum computes the Internet sum of RFC 1071, for data of any
  length up to 65535 at an even or odd address, and reads no byte outside the data and no unaligned word.\<close>

theorem lwip_standard_chksum_rfc1071:
  assumes "valid_range m a n" "n < 65536"
  shows "lwip_standard_chksum1 a (of_nat n) m = Some (inet_sum (bytes_at m a n))
    \<and> lwip_standard_chksum a (int n) m = Some (inet_sum (bytes_at m a n))
    \<and> lwip_standard_chksum3 a (int n) m = Some (inet_sum (bytes_at m a n))"
  using chksum1_rfc1071 [OF assms] chksum_rfc1071 [OF assms] chksum3_rfc1071 [OF assms(1)] by simp

definition demo_data :: mem where
  "demo_data = (\<lambda>a. if 1001 \<le> a \<and> a < 1012 then Some (of_nat (a - 1000) * 37) else None)"

theorem lwip_standard_chksum_rfc1071_witness:
  "lwip_standard_chksum 1001 11 demo_data = Some (inet_sum (bytes_at demo_data 1001 11))"
  using lwip_standard_chksum_rfc1071 [of demo_data 1001 11] by (simp add: valid_range_iff demo_data_def)

text \<open>The checksum of TCP and UDP is the complement of the Internet sum over the pseudo header followed by the bytes
  of the whole chain, however the bytes are divided among its buffers and wherever these lie; the partial checksum is
  that of the first bytes only; without the pseudo header it is the sum over the chain.\<close>

theorem inet_chksum_over_chain:
  assumes "chain st p bs" "list_all (pbuf_valid m) bs"
  shows "inet_chksum_pseudo st p src dest proto n m = Some (NOT (inet_sum (pseudo_bytes src dest proto n @ chain_bytes m bs)))
    \<and> inet_chksum_pseudo_partial st p src dest proto n k m
       = Some (NOT (inet_sum (pseudo_bytes src dest proto n @ take (unat k) (chain_bytes m bs))))
    \<and> inet_chksum_pbuf st p m = Some (NOT (inet_sum (chain_bytes m bs)))"
  using chain_pseudo [OF assms] by simp

text \<open>A chain of two buffers, the first of odd length.\<close>

definition demo_pbuf :: "ptr \<Rightarrow> ptr \<Rightarrow> u16 \<Rightarrow> u16 \<Rightarrow> pbuf" where
  "demo_pbuf nxt pl tot n = \<lparr>pb_next = nxt, payload = pl, tot_len = tot, pb_len = n, pb_type = 0, pb_flags = 0, pb_ref = 1, pb_eb = 0\<rparr>"

definition demo_store :: pbufs where
  "demo_store = [100 \<mapsto> demo_pbuf 200 1001 8 5, 200 \<mapsto> demo_pbuf 0 1008 3 3]"

lemma demo_chain:
  "chain demo_store 100 [demo_pbuf 200 1001 8 5, demo_pbuf 0 1008 3 3]"
  "list_all (pbuf_valid demo_data) [demo_pbuf 200 1001 8 5, demo_pbuf 0 1008 3 3]"
  by (simp_all add: demo_store_def demo_pbuf_def pbuf_valid_def valid_range_iff demo_data_def)

theorem inet_chksum_over_chain_witness:
  "inet_chksum_pbuf demo_store 100 demo_data = Some (NOT (inet_sum (bytes_at demo_data 1001 5 @ bytes_at demo_data 1008 3)))"
  using inet_chksum_over_chain [OF demo_chain] by (simp add: pbuf_bytes_def demo_pbuf_def)

text \<open>The checksum protects a segment: when the sum over the segment with a zero field is stored in the field, at an
  even offset, the receiver's sum over the same bytes, in buffers of its own, is 0; over bytes of which one has been
  changed it is not.\<close>

theorem inet_chksum_pseudo_protects:
  assumes "chain st p bs" "list_all (pbuf_valid m) bs" "chain_bytes m bs = xs @ [0, 0] @ ys" "even (length xs)"
    and "inet_chksum_pseudo st p src dest proto n m = Some c"
    and "chain st' p' bs'" "list_all (pbuf_valid m') bs'"
    and sealed: "sealed = xs @ [ucast c, ucast (drop_bit 8 c)] @ ys"
  shows "(chain_bytes m' bs' = sealed \<longrightarrow> inet_chksum_pseudo st' p' src dest proto n m' = Some 0)
    \<and> (\<forall>us b b' vs. sealed = us @ b # vs \<and> chain_bytes m' bs' = us @ b' # vs \<and> b \<noteq> b'
         \<longrightarrow> inet_chksum_pseudo st' p' src dest proto n m' \<noteq> Some 0)"
proof -
  let ?h = "pseudo_bytes src dest proto n"
  have l: "even (length (?h @ xs))" using assms(4) by (simp add: pseudo_bytes_def addr_bytes_def)
  have "c = NOT (inet_sum ((?h @ xs) @ [0, 0] @ ys))" using chain_pseudo(1) [OF assms(1,2)] assms(3,5) by simp
  from inet_sum_sealed [OF l this] have s: "inet_sum (?h @ sealed) = 0xFFFF" by (simp add: sealed)
  have r: "inet_chksum_pseudo st' p' src dest proto n m' = Some (NOT (inet_sum (?h @ chain_bytes m' bs')))"
    by (rule chain_pseudo(1) [OF assms(6,7)])
  show ?thesis
  proof (intro conjI impI allI)
    assume "chain_bytes m' bs' = sealed"
    then show "inet_chksum_pseudo st' p' src dest proto n m' = Some 0" using r s by (simp add: not_zero_iff)
  next
    fix us b b' vs
    assume d: "sealed = us @ b # vs \<and> chain_bytes m' bs' = us @ b' # vs \<and> b \<noteq> b'"
    then have "inet_sum (?h @ chain_bytes m' bs') \<noteq> 0xFFFF" using s inet_sum_detects [of b b' "?h @ us" vs] by auto
    then show "inet_chksum_pseudo st' p' src dest proto n m' \<noteq> Some 0" using r by (simp add: not_zero_iff)
  qed
qed

definition sealed_data :: mem where
  "sealed_data = (\<lambda>a. if 1000 \<le> a \<and> a < 1006 then Some ([7, 9, 0, 0, 5, 1] ! (a - 1000))
     else if 2001 \<le> a \<and> a < 2007 then Some ([7, 9, 0xF0, 0xE9, 5, 1] ! (a - 2001)) else None)"

theorem inet_chksum_pseudo_protects_witness:
  "inet_chksum_pseudo [100 \<mapsto> demo_pbuf 0 2001 6 6] 100 1 2 6 6 sealed_data = Some 0"
proof -
  let ?st = "\<lambda>a. [100 \<mapsto> demo_pbuf 0 a 6 6]" and ?b = "\<lambda>a. [demo_pbuf 0 a 6 6]"
  have b: "bytes_at sealed_data 1000 6 = [7, 9] @ [0, 0] @ [5, 1]" "bytes_at sealed_data 2001 6 = [7, 9, 0xF0, 0xE9, 5, 1]"
    by (simp_all add: bytes_at_def sealed_data_def upt_rec)
  have v: "valid_range sealed_data 1000 6" "valid_range sealed_data 2001 6"
    by (simp_all add: valid_range_iff sealed_data_def)
  have c: "chain (?st a) 100 (?b a)" for a by (simp add: demo_pbuf_def)
  have w: "list_all (pbuf_valid sealed_data) (?b 1000)" "list_all (pbuf_valid sealed_data) (?b 2001)"
    using v by (simp_all add: pbuf_valid_def demo_pbuf_def)
  have d: "chain_bytes sealed_data (?b 1000) = [7, 9] @ [0, 0] @ [5, 1]"
      "chain_bytes sealed_data (?b 2001) = [7, 9, 0xF0, 0xE9, 5, 1]"
    using b by (simp_all add: pbuf_bytes_def demo_pbuf_def)
  have s: "inet_chksum_pseudo (?st 1000) 100 1 2 6 6 sealed_data = Some 0xE9F0"
    using chain_pseudo(1) [OF c w(1), of 1 2 6 6] d(1)
    by (simp add: pseudo_bytes_def addr_bytes_def inet_sum_def ones16_def)
  show ?thesis
    using inet_chksum_pseudo_protects [OF c w(1) d(1) _ s c [of 2001] w(2) refl] d(2) by simp
qed

end
