(* ===== verification/Lwip_Addr.thy ===== *)
theory Lwip_Addr
  imports Lwip_Base
begin

text \<open>
  IPv4 addresses, \<^verbatim>\<open>core/ipv4/ip_addr.c\<close>: the tests for broadcast addresses and network masks, and the conversion
  between addresses and text. An address is the \<^verbatim>\<open>u32_t\<close> of \<^verbatim>\<open>ip_addr_t\<close>, in network byte order.
\<close>

definition IPADDR_NONE :: u32 where "IPADDR_NONE = 0xffffffff"
definition IPADDR_ANY :: u32 where "IPADDR_ANY = 0"
definition IPADDR_BROADCAST :: u32 where "IPADDR_BROADCAST = 0xffffffff"

section \<open>Tests\<close>

text \<open>The fields of \<^verbatim>\<open>struct netif\<close> that are used here.\<close>

record netif =
  netif_ip_addr :: u32
  netif_netmask :: u32
  netif_gw :: u32
  netif_flags :: u8
  netif_mtu :: u16
  netif_hwaddr :: "u8 list"

definition NETIF_FLAG_BROADCAST :: u8 where "NETIF_FLAG_BROADCAST = 0x02"

definition ip_addr_netcmp :: "u32 \<Rightarrow> u32 \<Rightarrow> u32 \<Rightarrow> bool" where
  "ip_addr_netcmp addr1 addr2 netmask \<longleftrightarrow> addr1 AND netmask = addr2 AND netmask"

definition ip4_addr_isbroadcast :: "u32 \<Rightarrow> netif \<Rightarrow> u8" where
  "ip4_addr_isbroadcast addr netif =
     (if NOT addr = IPADDR_ANY \<or> addr = IPADDR_ANY then 1
      else if netif_flags netif AND NETIF_FLAG_BROADCAST = 0 then 0
      else if addr = netif_ip_addr netif then 0
      else if ip_addr_netcmp addr (netif_ip_addr netif) (netif_netmask netif)
              \<and> addr AND NOT (netif_netmask netif) = IPADDR_BROADCAST AND NOT (netif_netmask netif) then 1
      else 0)"

lemma half_less: "w \<noteq> 0 \<Longrightarrow> unat (drop_bit 1 w) < unat (w :: u32)"
  unfolding unat_drop_bit_eq by (simp add: drop_bit_eq_div unat_gt_0)

function skip_ones :: "u32 \<Rightarrow> u32 \<Rightarrow> u32" where
  "skip_ones nm w = (if w = 0 then w else if nm AND w = 0 then w else skip_ones nm (drop_bit 1 w))"
  by pat_completeness auto

termination
  by (relation "measure (\<lambda>(_, w). unat w)") (auto dest: half_less)

function no_one :: "u32 \<Rightarrow> u32 \<Rightarrow> u8" where
  "no_one nm w = (if w = 0 then 1 else if nm AND w \<noteq> 0 then 0 else no_one nm (drop_bit 1 w))"
  by pat_completeness auto

termination
  by (relation "measure (\<lambda>(_, w). unat w)") (auto dest: half_less)

definition ip4_addr_netmask_valid :: "u32 \<Rightarrow> u8" where
  "ip4_addr_netmask_valid netmask =
     (let nm_hostorder = LWIP_PLATFORM_HTONL netmask
      in no_one nm_hostorder (skip_ones nm_hostorder (push_bit 31 1)))"

declare skip_ones.simps [simp del] no_one.simps [simp del]

section \<open>From text\<close>

definition isdigit :: "u8 \<Rightarrow> bool" where
  "isdigit c \<longleftrightarrow> 0x30 \<le> c \<and> c \<le> 0x39"

definition islower :: "u8 \<Rightarrow> bool" where
  "islower c \<longleftrightarrow> 0x61 \<le> c \<and> c \<le> 0x7A"

definition isxdigit :: "u8 \<Rightarrow> bool" where
  "isxdigit c \<longleftrightarrow> isdigit c \<or> 0x61 \<le> c \<and> c \<le> 0x66 \<or> 0x41 \<le> c \<and> c \<le> 0x46"

definition isspace :: "u8 \<Rightarrow> bool" where
  "isspace c \<longleftrightarrow> c = 0x20 \<or> c = 0x0C \<or> c = 0x0A \<or> c = 0x0D \<or> c = 0x09 \<or> c = 0x0B"

text \<open>
  The inner loop. The result \<open>Some None\<close> stands for \<^verbatim>\<open>return (0)\<close>; \<open>None\<close> as a whole is a read outside the string or
  a loop that does not end.
\<close>

definition too_big :: "u32 \<Rightarrow> u32 \<Rightarrow> u8 \<Rightarrow> bool" where
  "too_big base val ch \<longleftrightarrow> 0xffffffff div base < val \<or> val = 0xffffffff div base \<and> 0xffffffff mod base < ucast ch"

partial_function (option) collect_number :: "u32 \<Rightarrow> u32 \<Rightarrow> ptr \<Rightarrow> mem \<Rightarrow> (u32 \<times> ptr) option option" where
  "collect_number base val cp m =
     do { c \<leftarrow> m cp;
          if isdigit c
          then let ch = c - 0x30
               in if too_big base val ch then Some None
                  else collect_number base (val * base + ucast (c - 0x30)) (cp + 1) m
          else if base = 16 \<and> isxdigit c
          then let ch = c + 10 - (if islower c then 0x61 else 0x41)
               in if too_big base val ch then Some None
                  else collect_number base (push_bit 4 val OR ucast (c + 10 - (if islower c then 0x61 else 0x41))) (cp + 1) m
          else Some (Some (val, cp)) }"

text \<open>One round of the outer loop up to the end of the number.\<close>

definition part_number :: "ptr \<Rightarrow> mem \<Rightarrow> (u32 \<times> ptr) option option" where
  "part_number cp m =
     do { c \<leftarrow> m cp;
          if \<not> isdigit c then Some None
          else if c = 0x30
          then do { c \<leftarrow> m (cp + 1);
                    if c = 0x78 \<or> c = 0x58 then collect_number 16 0 (cp + 2) m else collect_number 8 0 (cp + 1) m }
          else collect_number 10 0 cp m }"

partial_function (option) aton_parts :: "u32 list \<Rightarrow> ptr \<Rightarrow> mem \<Rightarrow> (u32 list \<times> u32 \<times> ptr) option option" where
  "aton_parts parts cp m =
     do { r \<leftarrow> part_number cp m;
          case r of None \<Rightarrow> Some None
          | Some (val, cp) \<Rightarrow>
              do { c \<leftarrow> m cp;
                   if c = 0x2E
                   then if 3 \<le> length parts then Some None else aton_parts (parts @ [val]) (cp + 1) m
                   else Some (Some (parts, val, cp)) } }"

text \<open>The \<^verbatim>\<open>switch\<close> on the number of parts.\<close>

definition concoct :: "u32 list \<Rightarrow> u32 \<Rightarrow> u32 option" where
  "concoct parts val =
     (case parts of
        [] \<Rightarrow> Some val
      | [a] \<Rightarrow> if 0xffffff < val \<or> 0xff < a then None else Some (val OR push_bit 24 a)
      | [a, b] \<Rightarrow> if 0xffff < val \<or> 0xff < a \<or> 0xff < b then None else Some (val OR (push_bit 24 a OR push_bit 16 b))
      | [a, b, c] \<Rightarrow> if 0xff < val \<or> 0xff < a \<or> 0xff < b \<or> 0xff < c then None
                     else Some (val OR (push_bit 24 a OR push_bit 16 b OR push_bit 8 c))
      | _ \<Rightarrow> Some val)"

text \<open>\<open>Some None\<close> is the result 0; \<open>Some (Some v)\<close> is the result 1 with \<open>v\<close> stored through \<^verbatim>\<open>addr\<close> if it is given.\<close>

definition ipaddr_aton :: "ptr \<Rightarrow> mem \<Rightarrow> u32 option option" where
  "ipaddr_aton cp m =
     do { r \<leftarrow> aton_parts [] cp m;
          case r of None \<Rightarrow> Some None
          | Some (parts, val, cp) \<Rightarrow>
              do { c \<leftarrow> m cp;
                   if c \<noteq> 0 \<and> \<not> isspace c then Some None
                   else Some (map_option htonl (concoct parts val)) } }"

definition ipaddr_addr :: "ptr \<Rightarrow> mem \<Rightarrow> u32 option" where
  "ipaddr_addr cp m =
     do { r \<leftarrow> ipaddr_aton cp m; Some (case r of Some val \<Rightarrow> val | None \<Rightarrow> IPADDR_NONE) }"

section \<open>To text\<close>

text \<open>The digits of \<^verbatim>\<open>*ap\<close> in \<^verbatim>\<open>inv\<close>, the last one first.\<close>

function inv_digits :: "u8 \<Rightarrow> u8 list" where
  "inv_digits ap =
     (let c = 0x30 + ap mod 10; ap = ap div 10 in if ap \<noteq> 0 then c # inv_digits ap else [c])"
  by pat_completeness auto

termination
proof (relation "measure unat")
  fix ap c x :: u8
  assume "x = ap div 10" "x \<noteq> 0"
  then have "unat x = unat ap div 10" "unat ap div 10 \<noteq> 0" by (auto simp: unat_div word_unat_eq_iff)
  then show "(x, ap) \<in> measure unat" by (simp add: div_less_dividend)
qed simp

declare inv_digits.simps [simp del]

text \<open>Characters appended to \<^verbatim>\<open>buf\<close> while there is room; \<open>None\<close> inside is \<^verbatim>\<open>return NULL\<close>.\<close>

fun put_chars :: "u8 list \<Rightarrow> ptr \<Rightarrow> int \<Rightarrow> int \<Rightarrow> mem \<Rightarrow> ((ptr \<times> int) option \<times> mem) option" where
  "put_chars [] rp len buflen m = Some (Some (rp, len), m)"
| "put_chars (c # cs) rp len buflen m =
     (if buflen \<le> len then Some (None, m)
      else do { m \<leftarrow> poke rp c m; put_chars cs (rp + 1) (len + 1) buflen m })"

fun ntoa_loop :: "u8 list \<Rightarrow> ptr \<Rightarrow> int \<Rightarrow> int \<Rightarrow> mem \<Rightarrow> (ptr option \<times> mem) option" where
  "ntoa_loop [] rp len buflen m = Some (Some rp, m)"
| "ntoa_loop (ap # aps) rp len buflen m =
     (if 3 < length (inv_digits ap) then None
      else do { (r, m) \<leftarrow> put_chars (rev (inv_digits ap)) rp len buflen m;
                case r of None \<Rightarrow> Some (None, m)
                | Some (rp, len) \<Rightarrow>
                    do { (r, m) \<leftarrow> put_chars [0x2E] rp len buflen m;
                         case r of None \<Rightarrow> Some (None, m)
                         | Some (rp, len) \<Rightarrow> ntoa_loop aps rp len buflen m } })"

definition ipaddr_ntoa_r :: "u32 \<Rightarrow> ptr \<Rightarrow> int \<Rightarrow> mem \<Rightarrow> (ptr \<times> mem) option" where
  "ipaddr_ntoa_r addr buf buflen m =
     do { (r, m) \<leftarrow> ntoa_loop (addr_bytes addr) buf 0 buflen m;
          case r of None \<Rightarrow> Some (NULL, m)
          | Some rp \<Rightarrow> do { m \<leftarrow> poke (rp - 1) 0 m; Some (buf, m) } }"

text \<open>\<open>str\<close> is the static buffer.\<close>

definition ipaddr_ntoa :: "ptr \<Rightarrow> u32 \<Rightarrow> mem \<Rightarrow> (ptr \<times> mem) option" where
  "ipaddr_ntoa str addr m = ipaddr_ntoa_r addr str 16 m"

section \<open>Decimal numbers\<close>

fun ndigits :: "nat \<Rightarrow> nat list" where
  "ndigits n = (if n < 10 then [n] else ndigits (n div 10) @ [n mod 10])"

declare ndigits.simps [simp del]

definition dchar :: "nat \<Rightarrow> u8" where
  "dchar d = of_nat (48 + d)"

definition dec :: "nat \<Rightarrow> u8 list" where
  "dec n = map dchar (ndigits n)"

lemma ndigits_less: "d \<in> set (ndigits n) \<Longrightarrow> d < 10"
  by (induction n rule: ndigits.induct) (subst (asm) (2) ndigits.simps, auto split: if_splits)

lemma length_ndigits: "n < 10 ^ k \<Longrightarrow> 0 < k \<Longrightarrow> length (ndigits n) \<le> k"
proof (induction n arbitrary: k rule: ndigits.induct)
  case (1 n)
  show ?case
  proof (cases "n < 10")
    case False
    with 1 obtain j where j: "k = Suc j" "0 < j" by (cases k; cases "k - 1") auto
    then have "n div 10 < 10 ^ j" using 1(2) by (simp add: less_mult_imp_div_less mult.commute)
    from 1(1) [OF False this j(2)] show ?thesis using False j(1) by (subst ndigits.simps) simp
  qed (use 1 in \<open>subst ndigits.simps, simp\<close>)
qed

lemma ndigits_first: "0 < n \<Longrightarrow> ndigits n \<noteq> [] \<and> 0 < hd (ndigits n)"
proof (induction n rule: ndigits.induct)
  case (1 n)
  show ?case
  proof (cases "n < 10")
    case False
    then have "ndigits (n div 10) \<noteq> [] \<and> 0 < hd (ndigits (n div 10))" using 1(1) by (simp add: div_greater_zero_iff)
    then show ?thesis using False by (subst (1 2) ndigits.simps) auto
  qed (use 1 in \<open>subst (1 2) ndigits.simps, simp\<close>)
qed

lemma ndigits_not_Nil [simp]: "ndigits n \<noteq> []"
  by (subst ndigits.simps) simp

lemma unat_dchar: "d < 10 \<Longrightarrow> unat (dchar d) = 48 + d"
  unfolding dchar_def unat_of_nat by simp

lemma dchar_facts:
  assumes "d < 10"
  shows "isdigit (dchar d)" "dchar d - 0x30 = of_nat d" "dchar d = 0x30 \<longleftrightarrow> d = 0"
proof -
  show "isdigit (dchar d)" using assms by (simp add: isdigit_def word_le_nat_alt unat_dchar)
  show "dchar d - 0x30 = of_nat d" by (simp add: dchar_def)
  show "dchar d = 0x30 \<longleftrightarrow> d = 0" using assms by (simp add: word_unat_eq_iff unat_dchar)
qed

lemma inv_digits_dec: "rev (inv_digits b) = dec (unat b)"
proof (induction b rule: inv_digits.induct)
  case (1 b)
  have m: "0x30 + b mod 10 = dchar (unat b mod 10)"
    by (simp add: dchar_def unat_mod [of b 10, simplified, symmetric])
  have d: "unat (b div 10) = unat b div 10" by (simp add: unat_div)
  show ?case
  proof (cases "unat b < 10")
    case True
    then have "b div 10 = 0" using d by (simp add: word_unat_eq_iff)
    then show ?thesis using True m by (subst inv_digits.simps) (simp add: dec_def ndigits.simps [of "unat b"] Let_def)
  next
    case False
    then have z: "b div 10 \<noteq> 0" using d by (auto simp: word_unat_eq_iff)
    from 1 [OF refl refl this] show ?thesis using False m z d
      by (subst inv_digits.simps) (simp add: dec_def ndigits.simps [of "unat b"] Let_def)
  qed
qed

lemma length_inv_digits: "length (inv_digits b) \<le> 3"
proof -
  have "length (ndigits (unat b)) \<le> 3" using unat_u8_less [of b] by (intro length_ndigits) simp_all
  then show ?thesis using arg_cong [OF inv_digits_dec [of b], of length] by (simp add: dec_def)
qed

section \<open>Writing\<close>

lemma put_chars_append:
  "put_chars (xs @ ys) rp n lim m =
     do { (r, m) \<leftarrow> put_chars xs rp n lim m;
          case r of None \<Rightarrow> Some (None, m) | Some (rp, n) \<Rightarrow> put_chars ys rp n lim m }"
  by (induction xs arbitrary: rp n m) (auto simp: Option.bind_assoc split: Option.bind_splits)

definition addr_text :: "u8 list \<Rightarrow> u8 list" where
  "addr_text aps = concat (map (\<lambda>b. dec (unat b) @ [0x2E]) aps)"

lemma ntoa_loop_text:
  "ntoa_loop aps rp n lim m = do { (r, m) \<leftarrow> put_chars (addr_text aps) rp n lim m; Some (map_option fst r, m) }"
proof (induction aps arbitrary: rp n m)
  case (Cons b aps)
  have "put_chars (addr_text (b # aps)) rp n lim m =
     do { (r, m) \<leftarrow> put_chars (dec (unat b)) rp n lim m;
          case r of None \<Rightarrow> Some (None, m)
          | Some (rp, n) \<Rightarrow> do { (r, m) \<leftarrow> put_chars [0x2E] rp n lim m;
              case r of None \<Rightarrow> Some (None, m) | Some (rp, n) \<Rightarrow> put_chars (addr_text aps) rp n lim m } }"
    by (simp only: addr_text_def list.map concat.simps append_assoc put_chars_append)
  then show ?case using length_inv_digits [of b]
    by (auto simp: inv_digits_dec Cons.IH Option.bind_assoc split: Option.bind_splits option.splits)
qed (simp add: addr_text_def)

lemma put_chars_fits:
  assumes "n + int (length cs) \<le> lim" "valid_range m rp (length cs)"
  shows "\<exists>m'. put_chars cs rp n lim m = Some (Some (rp + length cs, n + int (length cs)), m') \<and> str_at m' rp cs
    \<and> (\<forall>a. (m' a = None) = (m a = None)) \<and> (\<forall>a. a < rp \<or> rp + length cs \<le> a \<longrightarrow> m' a = m a)"
  using assms
proof (induction cs arbitrary: rp n m)
  case (Cons c cs)
  have "m (rp + 0) \<noteq> None" using Cons.prems(2) unfolding valid_range_iff by (metis length_Cons zero_less_Suc)
  define m1 where "m1 = m(rp \<mapsto> c)"
  have k: "poke rp c m = Some m1" using \<open>m (rp + 0) \<noteq> None\<close> by (simp add: poke_def m1_def)
  have v: "valid_range m1 (rp + 1) (length cs)"
    using valid_range_sub [OF Cons.prems(2), of 1 "length cs"] by (auto simp: valid_range_iff m1_def)
  have n: "n + 1 + int (length cs) \<le> lim" using Cons.prems(1) by simp
  obtain m' where m': "put_chars cs (rp + 1) (n + 1) lim m1 = Some (Some (rp + 1 + length cs, n + 1 + int (length cs)), m')"
      "str_at m' (rp + 1) cs" "\<And>a. (m' a = None) = (m1 a = None)"
      "\<And>a. a < rp + 1 \<or> rp + 1 + length cs \<le> a \<Longrightarrow> m' a = m1 a"
    using Cons.IH [OF n v] by blast
  have "m' rp = Some c" using m'(4) by (simp add: m1_def)
  moreover have "(m' a = None) = (m a = None)" for a
    using m'(3) [of a] \<open>m (rp + 0) \<noteq> None\<close> by (auto simp: m1_def)
  moreover have "a < rp \<or> rp + length (c # cs) \<le> a \<Longrightarrow> m' a = m a" for a using m'(4) [of a] by (auto simp: m1_def)
  ultimately show ?case using m'(1,2) k Cons.prems(1) by (intro exI [of _ m']) auto
qed simp

lemma put_chars_short:
  assumes "lim < n + int (length cs)" "n \<le> lim" "valid_range m rp (nat (lim - n))"
  shows "\<exists>m'. put_chars cs rp n lim m = Some (None, m') \<and> (\<forall>a. a < rp \<or> rp + nat (lim - n) \<le> a \<longrightarrow> m' a = m a)"
proof -
  let ?k = "nat (lim - n)"
  have k: "?k < length cs" using assms(1,2) by auto
  then have cs: "cs = take ?k cs @ drop ?k cs" "drop ?k cs \<noteq> []" "length (take ?k cs) = ?k" by auto
  obtain m' where m': "put_chars (take ?k cs) rp n lim m = Some (Some (rp + ?k, n + int ?k), m')"
      "\<forall>a. a < rp \<or> rp + ?k \<le> a \<longrightarrow> m' a = m a"
    using put_chars_fits [of n "take ?k cs" lim m rp] assms(2,3) cs(3) by auto
  obtain d ds where d: "drop ?k cs = d # ds" using cs(2) by (cases "drop ?k cs") auto
  have "put_chars cs rp n lim m = put_chars (d # ds) (rp + ?k) (n + int ?k) lim m'"
    using put_chars_append [of "take ?k cs" "drop ?k cs" rp n lim m] m'(1) cs(1) d by simp
  also have "\<dots> = Some (None, m')" using assms(2) by simp
  finally show ?thesis using m'(2) by blast
qed

lemma ntoa_r_effect:
  assumes "cs = addr_text (addr_bytes addr)"
  shows "int (length cs) \<le> lim \<Longrightarrow> valid_range m buf (length cs) \<Longrightarrow>
      \<exists>m'. ipaddr_ntoa_r addr buf lim m = Some (buf, m') \<and> str_at m' buf (butlast cs @ [0])
        \<and> (\<forall>a. a < buf \<or> buf + length cs \<le> a \<longrightarrow> m' a = m a)"
    and "lim < int (length cs) \<Longrightarrow> 0 \<le> lim \<Longrightarrow> valid_range m buf (nat lim) \<Longrightarrow>
      \<exists>m'. ipaddr_ntoa_r addr buf lim m = Some (NULL, m') \<and> (\<forall>a. a < buf \<or> buf + nat lim \<le> a \<longrightarrow> m' a = m a)"
proof -
  have t: "cs \<noteq> []" "0 < length cs" using assms by (auto simp: addr_text_def addr_bytes_def)
  {
    assume f: "int (length cs) \<le> lim" "valid_range m buf (length cs)"
    obtain m1 where m1: "put_chars cs buf 0 lim m = Some (Some (buf + length cs, int (length cs)), m1)"
        "str_at m1 buf cs" "\<And>a. (m1 a = None) = (m a = None)"
        "\<And>a. a < buf \<or> buf + length cs \<le> a \<Longrightarrow> m1 a = m a"
      using put_chars_fits [of 0 cs lim m buf] f by auto
    let ?e = "buf + length cs - 1"
    have e: "?e = buf + (length cs - 1)" using t(2) by linarith
    have "m1 ?e \<noteq> None" using m1(3) f(2) t(2) unfolding e valid_range_iff by simp
    then have pk: "poke ?e 0 m1 = Some (m1(?e \<mapsto> 0))" by (simp add: poke_def)
    have "str_at m1 buf (butlast cs)" using m1(2) append_butlast_last_id [OF t(1)] str_at_append [of m1 buf "butlast cs"] by metis
    then have "str_at (m1(?e \<mapsto> 0)) buf (butlast cs)" using e by (intro str_at_upd) simp_all
    then have "str_at (m1(?e \<mapsto> 0)) buf (butlast cs @ [0])" unfolding str_at_append e by simp
    moreover have "ipaddr_ntoa_r addr buf lim m = Some (buf, m1(?e \<mapsto> 0))"
      using m1(1) pk by (simp add: ipaddr_ntoa_r_def ntoa_loop_text assms [symmetric])
    moreover have "\<forall>a. a < buf \<or> buf + length cs \<le> a \<longrightarrow> (m1(?e \<mapsto> 0)) a = m a"
      unfolding e using m1(4) t(1) by (cases cs) auto
    ultimately show "\<exists>m'. ipaddr_ntoa_r addr buf lim m = Some (buf, m') \<and> str_at m' buf (butlast cs @ [0])
        \<and> (\<forall>a. a < buf \<or> buf + length cs \<le> a \<longrightarrow> m' a = m a)" by blast
  next
    assume f: "lim < int (length cs)" "0 \<le> lim" "valid_range m buf (nat lim)"
    then show "\<exists>m'. ipaddr_ntoa_r addr buf lim m = Some (NULL, m') \<and> (\<forall>a. a < buf \<or> buf + nat lim \<le> a \<longrightarrow> m' a = m a)"
      using put_chars_short [of lim 0 cs m buf] by (auto simp: ipaddr_ntoa_r_def ntoa_loop_text assms [symmetric])
  }
qed

section \<open>Reading\<close>

lemma collect_digit:
  assumes "m cp = Some (dchar d)" "d < 10" "v * 10 + d < 2 ^ 32"
  shows "collect_number 10 (of_nat v) cp m = collect_number 10 (of_nat (v * 10 + d)) (cp + 1) m"
proof -
  have v: "unat (of_nat v :: u32) = v" using assms(3) by (simp add: unat_of_nat take_bit_nat_eq_self)
  have d: "unat (of_nat d :: u8) = d" using assms(2) by (simp add: unat_of_nat take_bit_nat_eq_self)
  then have c: "(ucast (of_nat d :: u8) :: u32) = of_nat d" by (simp add: word_unat_eq_iff unat_of_nat take_bit_nat_eq_self)
  have "\<not> too_big 10 (of_nat v) (of_nat d)"
    using assms(2,3) v d by (auto simp: too_big_def word_less_nat_alt word_unat_eq_iff)
  then show ?thesis using assms(1) dchar_facts [OF assms(2)] c
    by (subst collect_number.simps) (simp add: Let_def add.commute)
qed

lemma collect_dec:
  "str_at m cp (dec n) \<Longrightarrow> n < 2 ^ 32 \<Longrightarrow>
     collect_number 10 0 cp m = collect_number 10 (of_nat n) (cp + length (dec n)) m"
proof (induction n rule: ndigits.induct)
  case (1 n)
  show ?case
  proof (cases "n < 10")
    case True
    then have e: "dec n = [dchar n]" by (simp add: dec_def ndigits.simps [of n])
    show ?thesis using collect_digit [of m cp n 0] 1(2,3) True by (simp add: e)
  next
    case False
    then have e: "dec n = dec (n div 10) @ [dchar (n mod 10)]" by (simp add: dec_def ndigits.simps [of n])
    have s: "str_at m cp (dec (n div 10))" "m (cp + length (dec (n div 10))) = Some (dchar (n mod 10))"
      using 1(2) unfolding e str_at_append by simp_all
    have "collect_number 10 0 cp m = collect_number 10 (of_nat (n div 10)) (cp + length (dec (n div 10))) m"
      using 1(1) [OF False s(1)] 1(3) by simp
    also have "\<dots> = collect_number 10 (of_nat (n div 10 * 10 + n mod 10)) (cp + length (dec (n div 10)) + 1) m"
      using 1(3) by (intro collect_digit [of m "cp + length (dec (n div 10))", OF s(2)]) simp_all
    finally show ?thesis using e by simp
  qed
qed

lemma collect_stop: "m cp = Some c \<Longrightarrow> \<not> isxdigit c \<Longrightarrow> collect_number base v cp m = Some (Some (v, cp))"
  by (subst collect_number.simps) (auto simp: isxdigit_def)

lemma part_dec:
  assumes "str_at m cp (dec n @ [c])" "c = 0x2E \<or> c = 0" "n < 2 ^ 32"
  shows "part_number cp m = Some (Some (of_nat n, cp + length (dec n)))"
proof -
  have s: "str_at m cp (dec n)" "m (cp + length (dec n)) = Some c" using assms(1) by (simp_all add: str_at_append)
  have c: "\<not> isxdigit c" "c \<noteq> 0x78" "c \<noteq> 0x58" using assms(2) by (auto simp: isxdigit_def isdigit_def)
  show ?thesis
  proof (cases "n = 0")
    case True
    then have e: "dec n = [0x30]" by (simp add: dec_def ndigits.simps dchar_def)
    then show ?thesis using s c True collect_stop [of m "cp + 1" c 8 0]
      by (simp add: part_number_def isdigit_def)
  next
    case False
    obtain d ds where d: "ndigits n = d # ds" "0 < d" "d < 10"
      using ndigits_first [of n] ndigits_less [of _ n] False by (cases "ndigits n") auto
    then have "m cp = Some (dchar d)" using s(1) by (simp add: dec_def)
    then have "part_number cp m = collect_number 10 0 cp m" using dchar_facts [OF d(3)] d(2) by (simp add: part_number_def)
    then show ?thesis using collect_dec [OF s(1) assms(3)] collect_stop [of m "cp + length (dec n)", OF s(2) c(1)] by simp
  qed
qed

lemma aton_dotted:
  assumes "str_at m cp (dec (unat a) @ 0x2E # dec (unat b) @ 0x2E # dec (unat c) @ 0x2E # dec (unat d) @ [0])"
  shows "ipaddr_aton cp m = Some (map_option htonl (concoct [ucast (a :: u8), ucast (b :: u8), ucast (c :: u8)] (ucast (d :: u8))))"
proof -
  have step: "aton_parts ps cp m = aton_parts (ps @ [ucast x]) (cp + length (dec (unat x)) + 1) m"
    if "str_at m cp (dec (unat x) @ [0x2E])" "length ps < 3" for ps cp and x :: u8
  proof -
    have x: "unat x < 2 ^ 32" using unat_u8_less [of x] by simp
    have "part_number cp m = Some (Some (of_nat (unat x), cp + length (dec (unat x))))"
      using part_dec [OF that(1) _ x] by simp
    moreover have "m (cp + length (dec (unat x))) = Some 0x2E" using that(1) by (simp add: str_at_append)
    ultimately show ?thesis using that(2) by (subst aton_parts.simps) (simp add: unsigned_of_nat)
  qed
  let ?p1 = "cp + length (dec (unat a)) + 1"
  let ?p2 = "?p1 + length (dec (unat b)) + 1"
  let ?p3 = "?p2 + length (dec (unat c)) + 1"
  have s: "str_at m cp (dec (unat a) @ [0x2E])" "str_at m ?p1 (dec (unat b) @ [0x2E])"
      "str_at m ?p2 (dec (unat c) @ [0x2E])" "str_at m ?p3 (dec (unat d) @ [0])"
    using assms by (simp_all add: str_at_append add.assoc)
  have "aton_parts [] cp m = aton_parts [ucast a, ucast b, ucast c] ?p3 m"
    using step [OF s(1), of "[]"] step [OF s(2), of "[ucast a]"] step [OF s(3), of "[ucast a, ucast b]"] by simp
  moreover have "part_number ?p3 m = Some (Some (of_nat (unat d), ?p3 + length (dec (unat d))))"
    using part_dec [OF s(4)] unat_u8_less [of d] by simp
  moreover have z: "m (?p3 + length (dec (unat d))) = Some 0" using s(4) by (simp add: str_at_append)
  ultimately have "aton_parts [] cp m = Some (Some ([ucast a, ucast b, ucast c], ucast d, ?p3 + length (dec (unat d))))"
    by (subst (asm) aton_parts.simps) (simp add: unsigned_of_nat)
  then show ?thesis using z by (simp add: ipaddr_aton_def)
qed

lemma byte_of_bit:
  assumes "n < (32 :: nat)"
  obtains k where "k < 8" "n = k \<or> n = 8 + k \<or> n = 16 + k \<or> n = 24 + k"
proof -
  have "n mod 8 < 8" "n = n mod 8 \<or> n = 8 + n mod 8 \<or> n = 16 + n mod 8 \<or> n = 24 + n mod 8" using assms by presburger+
  then show ?thesis by (rule that)
qed

lemma htonl_bytes:
  "htonl (ucast (d :: u8) OR (push_bit 24 (ucast (a :: u8)) OR push_bit 16 (ucast (b :: u8)) OR push_bit 8 (ucast (c :: u8))))
     = ucast a OR push_bit 8 (ucast b) OR push_bit 16 (ucast c) OR push_bit 24 (ucast d)"
proof (rule bit_word_eqI)
  fix n assume n: "n < LENGTH(32)"
  have m: "(0xff :: u32) = mask 8" "(0xff00 :: u32) = push_bit 8 (mask 8)" by (simp_all add: mask_eq_exp_minus_1)
  obtain k where k: "k < 8" "n = k \<or> n = 8 + k \<or> n = 16 + k \<or> n = 24 + k" using n by (auto elim: byte_of_bit)
  from k(2) show "bit (htonl (ucast d OR (push_bit 24 (ucast a) OR push_bit 16 (ucast b) OR push_bit 8 (ucast c)))) n
      = bit (ucast a OR push_bit 8 (ucast b) OR push_bit 16 (ucast c) OR push_bit 24 (ucast d) :: u32) n"
    unfolding htonl_def LWIP_PLATFORM_HTONL_def m by (elim disjE) (use k(1) in \<open>simp_all add: bit_simps\<close>)
qed

text \<open>The functions of \<^verbatim>\<open>def.c\<close> agree with the macros that replace them, and undo themselves.\<close>

lemma byte_order_functions:
  "lwip_htons h = htons h" "lwip_ntohs (lwip_htons h) = h" "lwip_htonl n = htonl n" "lwip_ntohl (lwip_htonl n) = n"
proof -
  have m: "(0xff :: u32) = mask 8" "(0xff00 :: u32) = push_bit 8 (mask 8)" "(0xff0000 :: u32) = push_bit 16 (mask 8)"
      "(0xff000000 :: u32) = push_bit 24 (mask 8)" "(0xff :: u16) = mask 8" "(0xff00 :: u16) = push_bit 8 (mask 8)"
    by (simp_all add: mask_eq_exp_minus_1)
  have two: "\<exists>k<8. i = k \<or> i = 8 + k" if "i < 16" for i :: nat using that by presburger
  have s: "bit (lwip_htons x) i = (i < 16 \<and> bit x (if i < 8 then i + 8 else i - 8))" for x i
    unfolding lwip_htons_def m by (auto simp: bit_simps add.commute dest: bit_imp_le_length)
  show "lwip_ntohs (lwip_htons h) = h"
    by (rule bit_word_eqI) (auto simp: lwip_ntohs_def s dest: two)
  have l: "bit (lwip_htonl x) k = bit x (24 + k)" "bit (lwip_htonl x) (8 + k) = bit x (16 + k)"
      "bit (lwip_htonl x) (16 + k) = bit x (8 + k)" "bit (lwip_htonl x) (24 + k) = bit x k" if "k < 8" for x k
    using that unfolding lwip_htonl_def m by (simp_all add: bit_simps)
  show "lwip_ntohl (lwip_htonl n) = n"
  proof (rule bit_word_eqI)
    fix i assume "i < LENGTH(32)"
    then obtain k where k: "k < 8" "i = k \<or> i = 8 + k \<or> i = 16 + k \<or> i = 24 + k" by (auto elim: byte_of_bit)
    from k(2) show "bit (lwip_ntohl (lwip_htonl n)) i = bit n i"
      unfolding lwip_ntohl_def by (elim disjE) (use k(1) in \<open>simp_all add: l\<close>)
  qed
  show "lwip_htonl n = htonl n"
  proof (rule bit_word_eqI)
    fix i assume "i < LENGTH(32)"
    then obtain k where k: "k < 8" "i = k \<or> i = 8 + k \<or> i = 16 + k \<or> i = 24 + k" by (auto elim: byte_of_bit)
    from k(2) show "bit (lwip_htonl n) i = bit (htonl n) i"
      unfolding lwip_htonl_def htonl_def LWIP_PLATFORM_HTONL_def m by (elim disjE) (use k(1) in \<open>simp_all add: bit_simps\<close>)
  qed
  show "lwip_htons h = htons h"
    by (rule bit_word_eqI) (auto simp: s htons_def LWIP_PLATFORM_HTONS_def m bit_simps add.commute)
qed

lemma join_addr_bytes:
  "ucast (ucast a :: u8) OR push_bit 8 (ucast (ucast (drop_bit 8 a) :: u8)) OR push_bit 16 (ucast (ucast (drop_bit 16 a) :: u8))
     OR push_bit 24 (ucast (ucast (drop_bit 24 a) :: u8)) = (a :: u32)"
proof (rule bit_word_eqI)
  fix n assume n: "n < LENGTH(32)"
  obtain k where k: "k < 8" "n = k \<or> n = 8 + k \<or> n = 16 + k \<or> n = 24 + k" using n by (auto elim: byte_of_bit)
  from k(2) show "bit (ucast (ucast a :: u8) OR push_bit 8 (ucast (ucast (drop_bit 8 a) :: u8))
      OR push_bit 16 (ucast (ucast (drop_bit 16 a) :: u8)) OR push_bit 24 (ucast (ucast (drop_bit 24 a) :: u8)) :: u32) n = bit a n"
    by (elim disjE) (use k(1) in \<open>simp_all add: bit_simps\<close>)
qed

lemma concoct_htonl:
  "map_option htonl (concoct [ucast (ucast a :: u8), ucast (ucast (drop_bit 8 a) :: u8),
     ucast (ucast (drop_bit 16 a) :: u8)] (ucast (ucast (drop_bit 24 a) :: u8))) = Some (a :: u32)"
proof -
  have s: "\<not> 0xff < (ucast (x :: u8) :: u32)" for x using unat_u8_less [of x] by (simp add: word_less_nat_alt)
  show ?thesis by (simp add: concoct_def s htonl_bytes join_addr_bytes)
qed

section \<open>Properties\<close>

text \<open>C25. An address that is printed reads back as itself: with a buffer of at least as many bytes as the text with its
  final zero, \<^verbatim>\<open>ipaddr_ntoa_r\<close> writes the dotted text and nothing behind it, and \<^verbatim>\<open>ipaddr_aton\<close> gives the
  address; with a smaller buffer the result is the null pointer and nothing is written outside the buffer. Sixteen
  bytes, as in \<^verbatim>\<open>ipaddr_ntoa\<close>, are always enough.\<close>

theorem ipaddr_roundtrip:
  assumes "0 \<le> lim" "valid_range m buf (nat lim)"
  shows "\<exists>r m'. ipaddr_ntoa_r addr buf lim m = Some (r, m')
    \<and> (\<forall>a. a < buf \<or> buf + nat lim \<le> a \<longrightarrow> m' a = m a)
    \<and> (if int (length (addr_text (addr_bytes addr))) \<le> lim then r = buf \<and> ipaddr_aton buf m' = Some (Some addr) else r = NULL)
    \<and> length (addr_text (addr_bytes addr)) \<le> 16"
proof -
  let ?cs = "addr_text (addr_bytes addr)"
  have l: "length (dec (unat b)) \<le> 3" for b :: u8
    using length_inv_digits [of b] inv_digits_dec [of b] by (metis length_rev)
  have len: "length ?cs \<le> 16"
    using l [of "ucast addr"] l [of "ucast (drop_bit 8 addr)"] l [of "ucast (drop_bit 16 addr)"] l [of "ucast (drop_bit 24 addr)"]
    by (simp add: addr_text_def addr_bytes_def)
  show ?thesis
  proof (cases "int (length ?cs) \<le> lim")
    case True
    have v: "valid_range m buf (length ?cs)" using valid_range_sub [OF assms(2), of 0 "length ?cs"] True by simp
    obtain m' where m': "ipaddr_ntoa_r addr buf lim m = Some (buf, m')" "str_at m' buf (butlast ?cs @ [0])"
        "\<forall>a. a < buf \<or> buf + length ?cs \<le> a \<longrightarrow> m' a = m a"
      using ntoa_r_effect(1) [OF refl True v] by blast
    have "butlast ?cs @ [0] = dec (unat (ucast addr :: u8)) @ 0x2E # dec (unat (ucast (drop_bit 8 addr) :: u8)) @
        0x2E # dec (unat (ucast (drop_bit 16 addr) :: u8)) @ 0x2E # dec (unat (ucast (drop_bit 24 addr) :: u8)) @ [0]"
      by (simp add: addr_text_def addr_bytes_def butlast_append)
    then have "ipaddr_aton buf m' = Some (Some addr)"
      using aton_dotted [of m' buf] concoct_htonl [of addr] m'(2) by simp
    moreover have "a < buf \<or> buf + nat lim \<le> a \<Longrightarrow> m' a = m a" for a using m'(3) True by auto
    ultimately show ?thesis using m'(1) True len by auto
  next
    case False
    then show ?thesis using ntoa_r_effect(2) [OF refl, of lim addr m buf] assms len by auto
  qed
qed

theorem ipaddr_roundtrip_witness:
  "\<exists>m'. ipaddr_ntoa 500 16820416 (\<lambda>a. if a < 600 then Some 0 else None) = Some (500, m')
    \<and> ipaddr_aton 500 m' = Some (Some 16820416)"
proof -
  let ?m = "\<lambda>a. if a < 600 then Some 0 else None"
  have "valid_range ?m 500 (nat 16)" by (simp add: valid_range_iff)
  from ipaddr_roundtrip [OF _ this, of 16820416] show ?thesis
    by (auto simp: ipaddr_ntoa_def)
qed

lemma and_single: "n < 32 \<Longrightarrow> (nm AND push_bit n 1 = 0) = (\<not> bit (nm :: u32) n)"
  by (simp add: bit_iff_and_push_bit_not_eq_0)

lemma half_single: "n < 32 \<Longrightarrow> drop_bit 1 (push_bit n 1 :: u32) = (if n = 0 then 0 else push_bit (n - 1) 1)"
  by (rule bit_word_eqI) (auto simp: bit_simps)

lemma single_nonzero: "n < 32 \<Longrightarrow> (push_bit n 1 :: u32) \<noteq> 0"
  by (auto simp: bit_eq_iff bit_simps)

lemma no_one_eq: "n < 32 \<Longrightarrow> no_one nm (push_bit n 1) = (if \<forall>i\<le>n. \<not> bit nm i then 1 else 0)"
proof (induction n)
  case 0
  then show ?case using and_single [of 0 nm] half_single [of 0] single_nonzero [of 0]
    by (subst no_one.simps) (simp add: no_one.simps [of nm 0])
next
  case (Suc n)
  then show ?case using and_single [of "Suc n" nm] half_single [of "Suc n"] single_nonzero [of "Suc n"]
    by (subst no_one.simps) (auto simp: le_Suc_eq)
qed

lemma skip_ones_eq:
  "n < 32 \<Longrightarrow> (\<forall>i\<le>n. bit nm i) \<and> skip_ones nm (push_bit n 1) = 0
     \<or> (\<exists>k\<le>n. \<not> bit nm k \<and> (\<forall>i. k < i \<and> i \<le> n \<longrightarrow> bit nm i) \<and> skip_ones nm (push_bit n 1) = push_bit k 1)"
proof (induction n)
  case 0
  then show ?case using and_single [of 0 nm] half_single [of 0] single_nonzero [of 0]
    by (subst (1 2) skip_ones.simps) (auto simp: skip_ones.simps [of nm 0])
next
  case (Suc n)
  show ?case
  proof (cases "bit nm (Suc n)")
    case True
    then have "skip_ones nm (push_bit (Suc n) 1) = skip_ones nm (push_bit n 1)"
      using Suc.prems and_single [of "Suc n" nm] half_single [of "Suc n"] single_nonzero [of "Suc n"]
      by (subst skip_ones.simps) simp
    then show ?thesis using Suc.IH Suc.prems True by (auto simp: le_Suc_eq)
  next
    case False
    then have "skip_ones nm (push_bit (Suc n) 1) = push_bit (Suc n) 1"
      using Suc.prems and_single [of "Suc n" nm] by (subst skip_ones.simps) simp
    then show ?thesis using False by (intro disjI2 exI [of _ "Suc n"]) auto
  qed
qed

text \<open>\<^verbatim>\<open>ip4_addr_netmask_valid\<close> accepts exactly the network masks of the 33 prefix lengths: in host order, ones
  followed by zeros.\<close>

theorem ip4_addr_netmask_valid_iff:
  "ip4_addr_netmask_valid netmask = (if \<exists>k\<le>32. htonl netmask = NOT (mask k) then 1 else 0)"
proof -
  let ?nm = "LWIP_PLATFORM_HTONL netmask"
  have eq: "?nm = NOT (mask k) \<longleftrightarrow> (\<forall>i<32. bit ?nm i = (k \<le> i))" for k
    by (auto simp: bit_eq_iff bit_simps)
  from skip_ones_eq [of 31 ?nm] consider (ones) "\<forall>i\<le>31. bit ?nm i" "skip_ones ?nm (push_bit 31 1) = 0"
    | (zero) k where "k \<le> 31" "\<not> bit ?nm k" "\<forall>i. k < i \<and> i \<le> 31 \<longrightarrow> bit ?nm i" "skip_ones ?nm (push_bit 31 1) = push_bit k 1"
    by auto
  then show ?thesis
  proof cases
    case ones
    then have "?nm = NOT (mask 0)" unfolding eq by auto
    then have "\<exists>k\<le>32. ?nm = NOT (mask k)" by blast
    then show ?thesis using ones(2) by (simp add: ip4_addr_netmask_valid_def htonl_def no_one.simps)
  next
    case zero
    have "(\<exists>j\<le>32. ?nm = NOT (mask j)) \<longleftrightarrow> (\<forall>i\<le>k. \<not> bit ?nm i)"
    proof
      assume "\<exists>j\<le>32. ?nm = NOT (mask j)"
      then obtain j where j: "\<And>i. i < 32 \<Longrightarrow> bit ?nm i = (j \<le> i)" unfolding eq by blast
      have "k < j" using j [of k] zero(1,2) by simp
      then show "\<forall>i\<le>k. \<not> bit ?nm i" using j zero(1) by simp
    next
      assume z: "\<forall>i\<le>k. \<not> bit ?nm i"
      have "?nm = NOT (mask (Suc k))" unfolding eq using z zero(3) by (auto simp: Suc_le_eq not_less)
      then show "\<exists>j\<le>32. ?nm = NOT (mask j)" using zero(1) by (intro exI [of _ "Suc k"]) simp
    qed
    then show ?thesis using zero no_one_eq [of k ?nm] by (simp add: ip4_addr_netmask_valid_def htonl_def)
  qed
qed

end
