(* ===== verification/Espconn_Buf.thy ===== *)
theory Espconn_Buf
  imports Circular
begin

text \<open>
  The ring buffer of the network connections, \<^verbatim>\<open>lwip/app/espconn_buf.c\<close>. The buffer has one byte more than its
  capacity; a write that does not fit overwrites the oldest bytes. The macro \<^verbatim>\<open>lwIP_ASSERT\<close> returns without a value
  when its condition fails: the result is then \<open>None\<close>. The allocator of the SDK is a parameter.
\<close>

record ring =
  eb_buf :: ptr
  eb_head :: ptr
  eb_tail :: ptr
  eb_size :: u32

section \<open>The operations\<close>

record allocator =
  os_zalloc :: "nat \<Rightarrow> mem \<Rightarrow> ptr \<times> mem"
  os_free :: "ptr \<Rightarrow> mem \<Rightarrow> mem"

definition sizeof_ringbuf_t :: nat where "sizeof_ringbuf_t = 16"

definition ringbuf_reset :: "ring \<Rightarrow> ring" where
  "ringbuf_reset rb = rb\<lparr>eb_tail := eb_buf rb, eb_head := eb_buf rb\<rparr>"

text \<open>A \<^verbatim>\<open>ringbuf_t\<close> is a pointer to the structure, here the pair of the address and the structure.\<close>

definition ringbuf_new :: "allocator \<Rightarrow> u32 \<Rightarrow> mem \<Rightarrow> (ptr \<times> ring) option \<times> mem" where
  "ringbuf_new al capacity m =
     (let (p, m) = os_zalloc al sizeof_ringbuf_t m
      in if p \<noteq> NULL
         then let rb = \<lparr>eb_buf = NULL, eb_head = NULL, eb_tail = NULL, eb_size = capacity + 1\<rparr>;
                  (b, m) = os_zalloc al (unat (eb_size rb)) m;
                  rb = rb\<lparr>eb_buf := b\<rparr>
              in if b \<noteq> NULL then (Some (p, ringbuf_reset rb), m) else (None, os_free al p m)
         else (None, m))"

definition ringbuf_buffer_size :: "ring \<Rightarrow> u32" where
  "ringbuf_buffer_size rb = eb_size rb"

definition ringbuf_free :: "allocator \<Rightarrow> (ptr \<times> ring) option \<Rightarrow> mem \<Rightarrow> (ptr \<times> ring) option \<times> mem" where
  "ringbuf_free al rb m =
     (case rb of None \<Rightarrow> (None, m)
      | Some (p, r) \<Rightarrow> (None, os_free al p (os_free al (eb_buf r) m)))"

definition ringbuf_capacity :: "ring \<Rightarrow> u32" where
  "ringbuf_capacity rb = ringbuf_buffer_size rb - 1"

definition ringbuf_end :: "ring \<Rightarrow> ptr" where
  "ringbuf_end rb = eb_buf rb + unat (ringbuf_buffer_size rb)"

definition ringbuf_bytes_free :: "ring \<Rightarrow> u32" where
  "ringbuf_bytes_free rb =
     (if eb_tail rb \<le> eb_head rb then ringbuf_capacity rb - of_nat (eb_head rb - eb_tail rb)
      else of_nat (eb_tail rb - eb_head rb) - 1)"

definition ringbuf_bytes_used :: "ring \<Rightarrow> u32" where
  "ringbuf_bytes_used rb = ringbuf_capacity rb - ringbuf_bytes_free rb"

definition ringbuf_is_full :: "ring \<Rightarrow> bool" where
  "ringbuf_is_full rb \<longleftrightarrow> ringbuf_bytes_free rb = 0"

definition ringbuf_is_empty :: "ring \<Rightarrow> bool" where
  "ringbuf_is_empty rb \<longleftrightarrow> ringbuf_bytes_free rb = ringbuf_capacity rb"

definition ringbuf_tail :: "ring \<Rightarrow> ptr" where "ringbuf_tail rb = eb_tail rb"
definition ringbuf_head :: "ring \<Rightarrow> ptr" where "ringbuf_head rb = eb_head rb"

definition ringbuf_nextp :: "ring \<Rightarrow> ptr \<Rightarrow> ptr option" where
  "ringbuf_nextp rb p =
     (if eb_buf rb \<le> p \<and> p < ringbuf_end rb
      then Some (eb_buf rb + (p + 1 - eb_buf rb) mod unat (ringbuf_buffer_size rb)) else None)"

text \<open>\<^verbatim>\<open>memchr\<close>: the position of the first byte \<open>c\<close> among \<open>n\<close>.\<close>

fun memchr :: "ptr \<Rightarrow> u8 \<Rightarrow> nat \<Rightarrow> mem \<Rightarrow> ptr option option" where
  "memchr p c 0 m = Some None"
| "memchr p c (Suc n) m = do { v \<leftarrow> m p; if v = c then Some (Some p) else memchr (p + 1) c n m }"

partial_function (option) ringbuf_findchr :: "ring \<Rightarrow> u8 \<Rightarrow> u32 \<Rightarrow> mem \<Rightarrow> u32 option" where
  "ringbuf_findchr rb c offset m =
     (let bufend = ringbuf_end rb; bytes_used = ringbuf_bytes_used rb
      in if bytes_used \<le> offset then Some bytes_used
         else let start = eb_buf rb + (eb_tail rb - eb_buf rb + unat offset) mod unat (ringbuf_buffer_size rb)
              in if \<not> start < bufend then None
                 else let n = min (of_nat (bufend - start)) (bytes_used - offset)
                      in do { found \<leftarrow> memchr start c (unat n) m;
                              case found of Some p \<Rightarrow> Some (offset + of_nat (p - start))
                              | None \<Rightarrow> ringbuf_findchr rb c (offset + n) m })"

text \<open>The head (or the tail) after it has advanced by \<open>n\<close>.\<close>

definition advance :: "ring \<Rightarrow> ptr \<Rightarrow> nat \<Rightarrow> ptr" where
  "advance rb p n = (if p + n = ringbuf_end rb then eb_buf rb else p + n)"

text \<open>
  The end of the two writing functions: when bytes have been lost the tail follows the head. The two assertions
  are in \<^verbatim>\<open>ringbuf_nextp\<close> and after it.
\<close>

definition finish_write :: "bool \<Rightarrow> ring \<Rightarrow> ring option" where
  "finish_write overflow dst =
     (if overflow
      then do { t \<leftarrow> ringbuf_nextp dst (eb_head dst);
                let dst = dst\<lparr>eb_tail := t\<rparr>;
                if ringbuf_is_full dst then Some dst else None }
      else Some dst)"

partial_function (option) memset_loop :: "ring \<Rightarrow> u8 \<Rightarrow> nat \<Rightarrow> nat \<Rightarrow> mem \<Rightarrow> (ring \<times> mem) option" where
  "memset_loop dst c nwritten count m =
     (if nwritten \<noteq> count
      then if \<not> eb_head dst < ringbuf_end dst then None
           else let n = min (ringbuf_end dst - eb_head dst) (count - nwritten)
                in do { m \<leftarrow> memset (eb_head dst) c n m;
                        memset_loop (dst\<lparr>eb_head := advance dst (eb_head dst) n\<rparr>) c (nwritten + n) count m }
      else Some (dst, m))"

definition ringbuf_memset :: "ring \<Rightarrow> u8 \<Rightarrow> u32 \<Rightarrow> mem \<Rightarrow> (u32 \<times> ring \<times> mem) option" where
  "ringbuf_memset dst c len m =
     (let count = min len (ringbuf_buffer_size dst); overflow = (ringbuf_bytes_free dst < count)
      in do { (dst, m) \<leftarrow> memset_loop dst c 0 (unat count) m;
              dst \<leftarrow> finish_write overflow dst;
              Some (count, dst, m) })"

partial_function (option) into_loop :: "ring \<Rightarrow> ptr \<Rightarrow> nat \<Rightarrow> nat \<Rightarrow> mem \<Rightarrow> (ring \<times> mem) option" where
  "into_loop dst u8src nread count m =
     (if nread \<noteq> count
      then if \<not> eb_head dst < ringbuf_end dst then None
           else let n = min (ringbuf_end dst - eb_head dst) (count - nread)
                in do { m \<leftarrow> memcpy (eb_head dst) (u8src + nread) n m;
                        into_loop (dst\<lparr>eb_head := advance dst (eb_head dst) n\<rparr>) u8src (nread + n) count m }
      else Some (dst, m))"

definition ringbuf_memcpy_into :: "ring \<Rightarrow> ptr \<Rightarrow> u32 \<Rightarrow> mem \<Rightarrow> (ptr \<times> ring \<times> mem) option" where
  "ringbuf_memcpy_into dst src count m =
     (let overflow = (ringbuf_bytes_free dst < count)
      in do { (dst, m) \<leftarrow> into_loop dst src 0 (unat count) m;
              dst \<leftarrow> finish_write overflow dst;
              Some (eb_head dst, dst, m) })"

partial_function (option) from_loop :: "ptr \<Rightarrow> ring \<Rightarrow> nat \<Rightarrow> nat \<Rightarrow> mem \<Rightarrow> (ring \<times> mem) option" where
  "from_loop u8dst src nwritten count m =
     (if nwritten \<noteq> count
      then if \<not> eb_tail src < ringbuf_end src then None
           else let n = min (ringbuf_end src - eb_tail src) (count - nwritten)
                in do { m \<leftarrow> memcpy (u8dst + nwritten) (eb_tail src) n m;
                        from_loop u8dst (src\<lparr>eb_tail := advance src (eb_tail src) n\<rparr>) (nwritten + n) count m }
      else Some (src, m))"

definition ringbuf_memcpy_from :: "ptr \<Rightarrow> ring \<Rightarrow> u32 \<Rightarrow> mem \<Rightarrow> (ptr \<times> ring \<times> mem) option" where
  "ringbuf_memcpy_from dst src count m =
     (let bytes_used = ringbuf_bytes_used src
      in if bytes_used < count then Some (NULL, src, m)
         else do { (src, m) \<leftarrow> from_loop dst src 0 (unat count) m;
                   if count + ringbuf_bytes_used src = bytes_used then Some (eb_tail src, src, m) else None })"

section \<open>The content\<close>

definition ring_S :: "ring \<Rightarrow> nat" where
  "ring_S rb = unat (eb_size rb)"

definition ring_used :: "ring \<Rightarrow> nat" where
  "ring_used rb = (if eb_tail rb \<le> eb_head rb then eb_head rb - eb_tail rb else ring_S rb + eb_head rb - eb_tail rb)"

definition ring_content :: "ring \<Rightarrow> mem \<Rightarrow> u8 list" where
  "ring_content rb m = circ (eb_buf rb) (ring_S rb) (eb_tail rb - eb_buf rb) (ring_used rb) m"

definition ring_ok :: "ring \<Rightarrow> mem \<Rightarrow> bool" where
  "ring_ok rb m \<longleftrightarrow> 0 < ring_S rb \<and> valid_range m (eb_buf rb) (ring_S rb)
     \<and> eb_buf rb \<le> eb_head rb \<and> eb_head rb < eb_buf rb + ring_S rb
     \<and> eb_buf rb \<le> eb_tail rb \<and> eb_tail rb < eb_buf rb + ring_S rb"

lemma length_ring_content [simp]: "length (ring_content rb m) = ring_used rb"
  by (simp add: ring_content_def)

lemma ring_used_less: "ring_ok rb m \<Longrightarrow> ring_used rb < ring_S rb"
  by (auto simp: ring_ok_def ring_used_def)

lemma ring_S_less: "ring_S rb < 2 ^ 32"
  using unsigned_less [of "eb_size rb", where 'a = nat] by (simp add: ring_S_def)

lemma unat_capacity: "ring_ok rb m \<Longrightarrow> unat (ringbuf_capacity rb) = ring_S rb - 1"
proof -
  assume "ring_ok rb m"
  then have "1 \<le> eb_size rb" by (auto simp: ring_ok_def ring_S_def word_le_nat_alt)
  then show ?thesis by (simp add: ringbuf_capacity_def ringbuf_buffer_size_def ring_S_def unat_sub)
qed

lemma unat_free:
  assumes ok: "ring_ok rb m"
  shows "unat (ringbuf_bytes_free rb) = ring_S rb - 1 - ring_used rb"
proof (cases "eb_tail rb \<le> eb_head rb")
  case True
  let ?d = "eb_head rb - eb_tail rb"
  have d: "?d < ring_S rb" using ok True by (auto simp: ring_ok_def)
  then have u: "unat (of_nat ?d :: u32) = ?d" using ring_S_less [of rb] by (intro unat_of_nat_u32) simp
  then have "of_nat ?d \<le> ringbuf_capacity rb" using d unat_capacity [OF ok] by (simp add: word_le_nat_alt)
  then show ?thesis using True u unat_capacity [OF ok] by (simp add: ringbuf_bytes_free_def ring_used_def unat_sub)
next
  case False
  let ?d = "eb_tail rb - eb_head rb"
  have d: "?d < ring_S rb" "1 \<le> ?d" using ok False by (auto simp: ring_ok_def)
  then have u: "unat (of_nat ?d :: u32) = ?d" using ring_S_less [of rb] by (intro unat_of_nat_u32) simp
  then have "1 \<le> (of_nat ?d :: u32)" using d by (simp add: word_le_nat_alt)
  then have "unat (of_nat ?d - 1 :: u32) = ?d - 1" using u by (simp add: unat_sub)
  then show ?thesis using False d by (simp add: ringbuf_bytes_free_def ring_used_def)
qed

lemma unat_used:
  assumes "ring_ok rb m"
  shows "unat (ringbuf_bytes_used rb) = ring_used rb"
proof -
  have "ringbuf_bytes_free rb \<le> ringbuf_capacity rb"
    using unat_free [OF assms] unat_capacity [OF assms] by (simp add: word_le_nat_alt)
  then show ?thesis
    using unat_free [OF assms] unat_capacity [OF assms] ring_used_less [OF assms] by (simp add: ringbuf_bytes_used_def unat_sub)
qed

lemma head_slot: "ring_ok rb m \<Longrightarrow> eb_head rb = slot (eb_buf rb) (ring_S rb) (eb_tail rb - eb_buf rb) (ring_used rb)"
proof -
  assume ok: "ring_ok rb m"
  show ?thesis
  proof (cases "eb_tail rb \<le> eb_head rb")
    case True
    moreover have "eb_head rb - eb_buf rb < ring_S rb" using ok by (auto simp: ring_ok_def)
    ultimately show ?thesis using ok by (simp add: ring_ok_def ring_used_def slot_def)
  next
    case False
    then have e: "eb_tail rb - eb_buf rb + ring_used rb = eb_head rb - eb_buf rb + ring_S rb"
      using ok by (simp add: ring_ok_def ring_used_def)
    have "eb_head rb - eb_buf rb < ring_S rb" using ok by (auto simp: ring_ok_def)
    then have h: "(eb_head rb - eb_buf rb + ring_S rb) mod ring_S rb = eb_head rb - eb_buf rb" by simp
    show ?thesis unfolding slot_def e h using ok by (simp add: ring_ok_def)
  qed
qed

section \<open>Writing round and round\<close>

text \<open>
  After writing \<open>bs\<close> from position \<open>k\<close> on, possibly more than once around, the last \<open>S\<close> bytes are in place.
\<close>

definition circ_over :: "ptr \<Rightarrow> nat \<Rightarrow> nat \<Rightarrow> u8 list \<Rightarrow> mem \<Rightarrow> mem \<Rightarrow> bool" where
  "circ_over base S k bs m m' \<longleftrightarrow>
     (\<forall>i<length bs. length bs \<le> i + S \<longrightarrow> m' (slot base S k i) = Some (bs ! i)) \<and>
     (\<forall>a. (\<forall>i<length bs. a \<noteq> slot base S k i) \<longrightarrow> m' a = m a)"

lemma circ_over_put: "circ_put base S k bs m m' \<Longrightarrow> circ_over base S k bs m m'"
  by (simp add: circ_over_def circ_put_def)

lemma slot_apart: "i < j \<Longrightarrow> j < i + S \<Longrightarrow> slot base S k i \<noteq> slot base S k j"
proof
  assume ij: "i < j" "j < i + S" and eq: "slot base S k i = slot base S k j"
  have "slot base S (k + i) 0 = slot base S (k + i) (j - i)" using eq ij by (simp add: slot_add)
  moreover have "j - i < S" "0 < S" using ij by linarith+
  ultimately show False using slot_inj [of base S "k + i" 0 "j - i"] ij by auto
qed

lemma circ_over_trans:
  assumes "circ_over base S k xs m m1" "circ_over base S (k + length xs) ys m1 m2"
  shows "circ_over base S k (xs @ ys) m m2"
proof -
  have "m2 (slot base S k i) = Some ((xs @ ys) ! i)"
    if i: "i < length xs + length ys" "length xs + length ys \<le> i + S" for i
  proof (cases "i < length xs")
    case True
    have "slot base S k i \<noteq> slot base S (k + length xs) j" if "j < length ys" for j
      using slot_apart [of i "length xs + j" S base k] True that i by (simp add: slot_add)
    then have "m2 (slot base S k i) = m1 (slot base S k i)" using assms(2) by (simp add: circ_over_def)
    then show ?thesis using assms(1) True i by (simp add: circ_over_def nth_append)
  next
    case False
    then have "slot base S k i = slot base S (k + length xs) (i - length xs)" by (simp add: slot_add)
    then show ?thesis using assms(2) False i by (simp add: circ_over_def nth_append)
  qed
  moreover have "m2 a = m a" if "\<forall>i<length xs + length ys. a \<noteq> slot base S k i" for a
  proof -
    have "\<forall>j<length ys. a \<noteq> slot base S (k + length xs) j" using that by (auto simp: slot_add)
    then show ?thesis using assms that by (simp add: circ_over_def)
  qed
  ultimately show ?thesis by (simp add: circ_over_def)
qed

lemma circ_over_frame:
  assumes "circ_over base S k bs m m'" "0 < S"
  shows "a < base \<or> base + S \<le> a \<Longrightarrow> m' a = m a"
proof -
  assume a: "a < base \<or> base + S \<le> a"
  have "a \<noteq> slot base S k i" for i using slot_range [OF assms(2), of base k i] a by auto
  then show ?thesis using assms(1) by (simp add: circ_over_def)
qed

text \<open>The bytes in the ring and the bytes written, as one sequence of slots.\<close>

lemma circ_over_content:
  assumes over: "circ_over base S (k + u) bs m m'" and V: "V = circ base S k u m @ bs" and n: "n \<le> length V" "n \<le> S"
  shows "circ base S (k + (length V - n)) n m' = drop (length V - n) V"
proof (rule nth_equalityI)
  fix j assume "j < length (circ base S (k + (length V - n)) n m')"
  then have j: "j < n" by simp
  let ?i = "length V - n + j"
  have i: "?i < length V" "length V \<le> ?i + S" using j n by auto
  have "the (m' (slot base S k ?i)) = V ! ?i"
  proof (cases "?i < u")
    case True
    have "slot base S k ?i \<noteq> slot base S (k + u) q" if "q < length bs" for q
      using slot_apart [of ?i "u + q" S base k] True that i V by (simp add: slot_add)
    then have "m' (slot base S k ?i) = m (slot base S k ?i)" using over by (simp add: circ_over_def)
    then show ?thesis using True by (simp add: V nth_append)
  next
    case False
    have "slot base S (k + u) (?i - u) = slot base S k ?i" using False by (simp add: slot_add)
    moreover have "?i - u < length bs" "length bs \<le> ?i - u + S" using False i V by auto
    ultimately have "m' (slot base S k ?i) = Some (bs ! (?i - u))" using over by (auto simp: circ_over_def)
    then show ?thesis using False by (simp add: V nth_append)
  qed
  then show "circ base S (k + (length V - n)) n m' ! j = drop (length V - n) V ! j" using j by (simp add: slot_add)
qed (use n in simp)

section \<open>The loops\<close>

lemma ring_ok_move:
  assumes "ring_ok rb m" "\<And>a. (m' a = None) = (m a = None)"
  shows "ring_ok (rb\<lparr>eb_head := slot (eb_buf rb) (ring_S rb) k i\<rparr>) m'"
    "ring_ok (rb\<lparr>eb_tail := slot (eb_buf rb) (ring_S rb) k i\<rparr>) m'" "ring_ok rb m'"
  using assms slot_range [of "ring_S rb" "eb_buf rb" k i] by (auto simp: ring_ok_def ring_S_def valid_range_iff)

lemma chunk:
  assumes "eb_buf rb \<le> p" "p < eb_buf rb + ring_S rb" "n = min (ringbuf_end rb - p) (Suc r)"
  shows "p < ringbuf_end rb" "0 < n" "n \<le> Suc r" "p - eb_buf rb + n \<le> ring_S rb" "p = eb_buf rb + (p - eb_buf rb)"
    "advance rb p n = slot (eb_buf rb) (ring_S rb) (p - eb_buf rb) n"
proof -
  have e: "ringbuf_end rb = eb_buf rb + ring_S rb" by (simp add: ringbuf_end_def ringbuf_buffer_size_def ring_S_def)
  show p: "p < ringbuf_end rb" "0 < n" "n \<le> Suc r" "p - eb_buf rb + n \<le> ring_S rb" "p = eb_buf rb + (p - eb_buf rb)"
    using assms e by auto
  show "advance rb p n = slot (eb_buf rb) (ring_S rb) (p - eb_buf rb) n"
  proof (cases "p + n = ringbuf_end rb")
    case True
    then have "p - eb_buf rb + n = ring_S rb" using assms(1) e by simp
    then show ?thesis using True by (simp add: advance_def slot_def)
  next
    case False
    then have "p - eb_buf rb + n < ring_S rb" using p(4) assms(1) e by simp
    then show ?thesis using False assms(1) by (simp add: advance_def slot_def)
  qed
qed

lemma slot_then: "slot base S (slot base S k n - base) i = slot base S k (n + i)"
  by (simp add: slot_def mod_add_left_eq add.assoc)

lemma circ_over_then:
  assumes "circ_put base S k xs m m1" "circ_over base S (slot base S k (length xs) - base) ys m1 m2"
  shows "circ_over base S k (xs @ ys) m m2"
proof -
  have "circ_over base S (k + length xs) ys m1 m2"
    using assms(2) by (simp add: circ_over_def slot_then slot_add)
  then show ?thesis by (rule circ_over_trans [OF circ_over_put [OF assms(1)]])
qed

lemma into_loop_ok:
  assumes "ring_ok rb m" "valid_range m src cnt" "disjoint_ranges (eb_buf rb) (ring_S rb) src cnt" "i \<le> cnt"
  shows "\<exists>m'. into_loop rb src i cnt m =
      Some (rb\<lparr>eb_head := slot (eb_buf rb) (ring_S rb) (eb_head rb - eb_buf rb) (cnt - i)\<rparr>, m')
    \<and> circ_over (eb_buf rb) (ring_S rb) (eb_head rb - eb_buf rb) (bytes_at m (src + i) (cnt - i)) m m'
    \<and> (\<forall>a. (m' a = None) = (m a = None))"
  using assms
proof (induction "cnt - i" arbitrary: rb i m rule: less_induct)
  case less
  let ?b = "eb_buf rb" and ?S = "ring_S rb" and ?h = "eb_head rb - eb_buf rb"
  have hd: "?b \<le> eb_head rb" "eb_head rb < ?b + ?S" "0 < ?S" "valid_range m ?b ?S" using less.prems(1) by (auto simp: ring_ok_def)
  then have h0: "slot ?b ?S ?h 0 = eb_head rb" by (auto simp: slot_def)
  show ?case
  proof (cases "cnt - i")
    case 0
    then have "i = cnt" using less.prems(4) by simp
    then show ?thesis using h0 by (subst into_loop.simps) (simp add: circ_over_def)
  next
    case (Suc r)
    define n where "n = min (ringbuf_end rb - eb_head rb) (Suc r)"
    note c = chunk [OF hd(1,2) n_def]
    define rb1 where "rb1 = rb\<lparr>eb_head := advance rb (eb_head rb) n\<rparr>"
    have src: "valid_range m (src + i) n" using valid_range_sub [OF less.prems(2), of i n] c(3) Suc by simp
    have dis: "disjoint_ranges (eb_head rb) n (src + i) n"
      using less.prems(3) c(3,4) Suc hd(1) by (auto simp: disjoint_ranges_def)
    have "valid_range m (eb_head rb) n" using valid_range_sub [OF hd(4) c(4)] c(5) by simp
    then obtain m1 where m1: "memcpy (eb_head rb) (src + i) n m = Some m1" using memcpy_Some src dis by blast
    have dom: "(m1 a = None) = (m a = None)" for a by (rule memcpy_defined [OF m1])
    have put: "circ_put ?b ?S ?h (bytes_at m (src + i) n) m m1"
      using circ_put_one [of ?b ?h "src + i" n m m1 ?S] m1 c(4,5) by simp
    have same: "eb_buf rb1 = ?b" "ring_S rb1 = ?S" "eb_head rb1 = slot ?b ?S ?h n"
      by (simp_all add: rb1_def ring_S_def c(6))
    have ok: "ring_ok rb1 m1" unfolding rb1_def c(6) by (rule ring_ok_move(1) [OF less.prems(1) dom])
    have v: "valid_range m1 src cnt" using less.prems(2) dom by (simp add: valid_range_iff)
    have le: "cnt - (i + n) < cnt - i" "i + n \<le> cnt" using c(2,3) Suc by auto
    obtain m' where m': "into_loop rb1 src (i + n) cnt m1 = Some (rb1\<lparr>eb_head := slot ?b ?S (slot ?b ?S ?h n - ?b) (cnt - (i + n))\<rparr>, m')"
        "circ_over ?b ?S (slot ?b ?S ?h n - ?b) (bytes_at m1 (src + (i + n)) (cnt - (i + n))) m1 m'" "\<And>a. (m' a = None) = (m1 a = None)"
      using less.hyps [OF le(1) ok v _ le(2)] less.prems(3) unfolding same by blast
    have "bytes_at m1 (src + (i + n)) (cnt - (i + n)) = bytes_at m (src + (i + n)) (cnt - (i + n))"
      using less.prems(3) c(3,4,5) Suc le hd by (intro bytes_at_memcpy_frame [OF m1]) (auto simp: disjoint_ranges_def)
    moreover have "bytes_at m (src + i) (cnt - i) = bytes_at m (src + i) n @ bytes_at m (src + (i + n)) (cnt - (i + n))"
      using bytes_at_append [of m "src + i" n "cnt - (i + n)"] le by (simp add: add.assoc)
    ultimately have over: "circ_over ?b ?S ?h (bytes_at m (src + i) (cnt - i)) m m'"
      using circ_over_then [OF put] m'(2) by simp
    have "n + (cnt - (i + n)) = cnt - i" using le by simp
    then have "into_loop rb1 src (i + n) cnt m1 = Some (rb\<lparr>eb_head := slot ?b ?S ?h (cnt - i)\<rparr>, m')"
      using m'(1) by (simp add: slot_then rb1_def)
    moreover have "into_loop rb src i cnt m = into_loop rb1 src (i + n) cnt m1"
      using Suc c(1) m1 by (subst into_loop.simps) (auto simp: n_def rb1_def Let_def)
    ultimately show ?thesis using over m'(3) dom by auto
  qed
qed

lemma circ_put_memset:
  assumes "memset (base + k) v n m = Some m'" "k + n \<le> S"
  shows "circ_put base S k (replicate n v) m m'"
proof -
  have m': "m' = (\<lambda>a. if base + k \<le> a \<and> a < base + k + n then Some v else m a)"
    using assms(1) by (auto simp: memset_def split: if_splits)
  have sl: "slot base S k i = base + k + i" if "i < n" for i using that assms(2) by (simp add: slot_def)
  have "m' a = m a" if "\<forall>i<n. a \<noteq> slot base S k i" for a
  proof (cases "base + k \<le> a \<and> a < base + k + n")
    case True
    then have "a = slot base S k (a - (base + k))" "a - (base + k) < n" using sl [of "a - (base + k)"] by auto
    with that show ?thesis by blast
  qed (auto simp: m')
  then show ?thesis by (auto simp: circ_put_def m' sl)
qed

lemma memset_loop_ok:
  assumes "ring_ok rb m" "i \<le> cnt"
  shows "\<exists>m'. memset_loop rb c i cnt m =
      Some (rb\<lparr>eb_head := slot (eb_buf rb) (ring_S rb) (eb_head rb - eb_buf rb) (cnt - i)\<rparr>, m')
    \<and> circ_over (eb_buf rb) (ring_S rb) (eb_head rb - eb_buf rb) (replicate (cnt - i) c) m m'
    \<and> (\<forall>a. (m' a = None) = (m a = None))"
  using assms
proof (induction "cnt - i" arbitrary: rb i m rule: less_induct)
  case less
  let ?b = "eb_buf rb" and ?S = "ring_S rb" and ?h = "eb_head rb - eb_buf rb"
  have hd: "?b \<le> eb_head rb" "eb_head rb < ?b + ?S" "0 < ?S" "valid_range m ?b ?S" using less.prems(1) by (auto simp: ring_ok_def)
  then have h0: "slot ?b ?S ?h 0 = eb_head rb" by (auto simp: slot_def)
  show ?case
  proof (cases "cnt - i")
    case 0
    then have "i = cnt" using less.prems(2) by simp
    then show ?thesis using h0 by (subst memset_loop.simps) (simp add: circ_over_def)
  next
    case (Suc r)
    define n where "n = min (ringbuf_end rb - eb_head rb) (Suc r)"
    note c = chunk [OF hd(1,2) n_def]
    define rb1 where "rb1 = rb\<lparr>eb_head := advance rb (eb_head rb) n\<rparr>"
    have v: "valid_range m (eb_head rb) n" using valid_range_sub [OF hd(4) c(4)] c(5) by simp
    then obtain m1 where m1: "memset (eb_head rb) c n m = Some m1" using memset_Some by blast
    have dom: "(m1 a = None) = (m a = None)" for a
    proof (cases "eb_head rb \<le> a \<and> a < eb_head rb + n")
      case True
      then have "m a \<noteq> None" using v by (auto simp: valid_range_iff dest: spec [of _ "a - eb_head rb"])
      then show ?thesis using m1 True by (auto simp: memset_def split: if_splits)
    qed (use m1 in \<open>auto simp: memset_def split: if_splits\<close>)
    have put: "circ_put ?b ?S ?h (replicate n c) m m1"
      using circ_put_memset [of ?b ?h c n m m1 ?S] m1 c(4,5) by simp
    have same: "eb_buf rb1 = ?b" "ring_S rb1 = ?S" "eb_head rb1 = slot ?b ?S ?h n"
      by (simp_all add: rb1_def ring_S_def c(6))
    have ok: "ring_ok rb1 m1" unfolding rb1_def c(6) by (rule ring_ok_move(1) [OF less.prems(1) dom])
    have le: "cnt - (i + n) < cnt - i" "i + n \<le> cnt" using c(2,3) Suc by auto
    obtain m' where m': "memset_loop rb1 c (i + n) cnt m1 = Some (rb1\<lparr>eb_head := slot ?b ?S (slot ?b ?S ?h n - ?b) (cnt - (i + n))\<rparr>, m')"
        "circ_over ?b ?S (slot ?b ?S ?h n - ?b) (replicate (cnt - (i + n)) c) m1 m'" "\<And>a. (m' a = None) = (m1 a = None)"
      using less.hyps [OF le(1) ok le(2)] unfolding same by blast
    have nn: "n + (cnt - (i + n)) = cnt - i" using le by simp
    then have "replicate (cnt - i) c = replicate n c @ replicate (cnt - (i + n)) c" by (metis replicate_add)
    then have over: "circ_over ?b ?S ?h (replicate (cnt - i) c) m m'" using circ_over_then [OF put] m'(2) by simp
    have "memset_loop rb1 c (i + n) cnt m1 = Some (rb\<lparr>eb_head := slot ?b ?S ?h (cnt - i)\<rparr>, m')"
      using m'(1) nn by (simp add: slot_then rb1_def)
    moreover have "memset_loop rb c i cnt m = memset_loop rb1 c (i + n) cnt m1"
      using Suc c(1) m1 by (subst memset_loop.simps) (auto simp: n_def rb1_def Let_def)
    ultimately show ?thesis using over m'(3) dom by auto
  qed
qed

lemma from_loop_ok:
  assumes "ring_ok rb m" "valid_range m dst cnt" "disjoint_ranges (eb_buf rb) (ring_S rb) dst cnt" "i \<le> cnt"
  shows "\<exists>m'. from_loop dst rb i cnt m =
      Some (rb\<lparr>eb_tail := slot (eb_buf rb) (ring_S rb) (eb_tail rb - eb_buf rb) (cnt - i)\<rparr>, m')
    \<and> bytes_at m' (dst + i) (cnt - i) = circ (eb_buf rb) (ring_S rb) (eb_tail rb - eb_buf rb) (cnt - i) m
    \<and> (\<forall>a. (m' a = None) = (m a = None)) \<and> (\<forall>a. a < dst + i \<or> dst + cnt \<le> a \<longrightarrow> m' a = m a)"
  using assms
proof (induction "cnt - i" arbitrary: rb i m rule: less_induct)
  case less
  let ?b = "eb_buf rb" and ?S = "ring_S rb" and ?t = "eb_tail rb - eb_buf rb"
  have tl: "?b \<le> eb_tail rb" "eb_tail rb < ?b + ?S" "0 < ?S" "valid_range m ?b ?S" using less.prems(1) by (auto simp: ring_ok_def)
  then have t0: "slot ?b ?S ?t 0 = eb_tail rb" by (auto simp: slot_def)
  show ?case
  proof (cases "cnt - i")
    case 0
    then have "i = cnt" using less.prems(4) by simp
    then show ?thesis using t0 by (subst from_loop.simps) simp
  next
    case (Suc r)
    define n where "n = min (ringbuf_end rb - eb_tail rb) (Suc r)"
    note c = chunk [OF tl(1,2) n_def]
    define rb1 where "rb1 = rb\<lparr>eb_tail := advance rb (eb_tail rb) n\<rparr>"
    have d: "valid_range m (dst + i) n" using valid_range_sub [OF less.prems(2), of i n] c(3) Suc by simp
    have dis: "disjoint_ranges (dst + i) n (eb_tail rb) n"
      using less.prems(3) c(3,4) Suc tl(1) by (auto simp: disjoint_ranges_def)
    have "valid_range m (eb_tail rb) n" using valid_range_sub [OF tl(4) c(4)] c(5) by simp
    then obtain m1 where m1: "memcpy (dst + i) (eb_tail rb) n m = Some m1" using memcpy_Some d dis by blast
    have dom: "(m1 a = None) = (m a = None)" for a by (rule memcpy_defined [OF m1])
    have same: "eb_buf rb1 = ?b" "ring_S rb1 = ?S" "eb_tail rb1 = slot ?b ?S ?t n"
      by (simp_all add: rb1_def ring_S_def c(6))
    have ok: "ring_ok rb1 m1" unfolding rb1_def c(6) by (rule ring_ok_move(2) [OF less.prems(1) dom])
    have v: "valid_range m1 dst cnt" using less.prems(2) dom by (simp add: valid_range_iff)
    have le: "cnt - (i + n) < cnt - i" "i + n \<le> cnt" using c(2,3) Suc by auto
    obtain m' where m': "from_loop dst rb1 (i + n) cnt m1 = Some (rb1\<lparr>eb_tail := slot ?b ?S (slot ?b ?S ?t n - ?b) (cnt - (i + n))\<rparr>, m')"
        "bytes_at m' (dst + (i + n)) (cnt - (i + n)) = circ ?b ?S (slot ?b ?S ?t n - ?b) (cnt - (i + n)) m1"
        "\<And>a. (m' a = None) = (m1 a = None)" "\<And>a. a < dst + (i + n) \<or> dst + cnt \<le> a \<Longrightarrow> m' a = m1 a"
      using less.hyps [OF le(1) ok v _ le(2)] less.prems(3) unfolding same by blast
    have nn: "n + (cnt - (i + n)) = cnt - i" using le by simp
    have "bytes_at m' (dst + i) n = bytes_at m1 (dst + i) n" using m'(4) by (intro bytes_at_cong) simp
    also have "\<dots> = circ ?b ?S ?t n m" using circ_get_one [of "dst + i" ?b ?t n m m1 ?S] m1 c(4,5) by simp
    finally have b1: "bytes_at m' (dst + i) n = circ ?b ?S ?t n m" .
    have "circ ?b ?S (slot ?b ?S ?t n - ?b) (cnt - (i + n)) m1 = circ ?b ?S (?t + n) (cnt - (i + n)) m1"
      by (simp add: circ_def slot_then slot_add)
    also have "\<dots> = circ ?b ?S (?t + n) (cnt - (i + n)) m"
      using less.prems(3) le tl(3) c(2) by (intro circ_away [OF m1]) (auto simp: disjoint_ranges_def)
    finally have "bytes_at m' (dst + i + n) (cnt - (i + n)) = circ ?b ?S (?t + n) (cnt - (i + n)) m"
      using m'(2) by (simp add: add.assoc)
    then have bs: "bytes_at m' (dst + i) (cnt - i) = circ ?b ?S ?t (cnt - i) m"
      using b1 bytes_at_append [of m' "dst + i" n "cnt - (i + n)"] circ_split [of n "cnt - i" ?b ?S ?t m] nn by auto
    have fr: "m' a = m a" if "a < dst + i \<or> dst + cnt \<le> a" for a
      using that m'(4) [of a] memcpy_frame [OF m1, of a] le by auto
    have "from_loop dst rb1 (i + n) cnt m1 = Some (rb\<lparr>eb_tail := slot ?b ?S ?t (cnt - i)\<rparr>, m')"
      using m'(1) nn by (simp add: slot_then rb1_def)
    moreover have "from_loop dst rb i cnt m = from_loop dst rb1 (i + n) cnt m1"
      using Suc c(1) m1 by (subst from_loop.simps) (auto simp: n_def rb1_def Let_def)
    ultimately show ?thesis using bs fr m'(3) dom by auto
  qed
qed

section \<open>What a write leaves\<close>

lemma ring_used_slot:
  assumes ok: "ring_ok rb m" and h: "eb_head rb = slot (eb_buf rb) (ring_S rb) (eb_tail rb - eb_buf rb) u" "u < ring_S rb"
  shows "ring_used rb = u"
  using slot_inj [of "eb_buf rb" "ring_S rb" "eb_tail rb - eb_buf rb" "ring_used rb" u] head_slot [OF ok]
    ring_used_less [OF ok] h by simp

lemma finish_write_ok:
  assumes ok: "ring_ok rb m" and over: "circ_over (eb_buf rb) (ring_S rb) (eb_head rb - eb_buf rb) bs m m'"
    and dom: "\<And>a. (m' a = None) = (m a = None)"
    and rb1: "rb1 = rb\<lparr>eb_head := slot (eb_buf rb) (ring_S rb) (eb_head rb - eb_buf rb) (length bs)\<rparr>"
    and V: "V = ring_content rb m @ bs" and ov: "ov \<longleftrightarrow> ring_S rb - 1 < length V"
  shows "\<exists>rb2. finish_write ov rb1 = Some rb2 \<and> ring_ok rb2 m' \<and> eb_buf rb2 = eb_buf rb \<and> eb_size rb2 = eb_size rb
    \<and> eb_head rb2 = eb_head rb1 \<and> ring_content rb2 m' = drop (length V - (ring_S rb - 1)) V"
proof -
  let ?b = "eb_buf rb" and ?S = "ring_S rb" and ?t = "eb_tail rb - eb_buf rb" and ?u = "ring_used rb"
  have S: "0 < ?S" using ok by (simp add: ring_ok_def)
  have hs: "slot ?b ?S (eb_head rb - ?b) i = slot ?b ?S ?t (?u + i)" for i
    using head_slot [OF ok] slot_then [of ?b ?S ?t ?u i] by simp
  have over': "circ_over ?b ?S (?t + ?u) bs m m'" using over by (simp add: circ_over_def hs slot_add)
  have lV: "length V = ?u + length bs" by (simp add: V)
  have h1: "eb_head rb1 = slot ?b ?S ?t (length V)" by (simp add: rb1 hs lV)
  have ok1: "ring_ok rb1 m'" unfolding rb1 by (rule ring_ok_move(1) [OF ok dom])
  have c: "circ ?b ?S (?t + (length V - n)) n m' = drop (length V - n) V" if "n \<le> length V" "n \<le> ?S" for n
    using circ_over_content [OF over' _ that] V by (simp add: ring_content_def)
  show ?thesis
  proof (cases ov)
    case False
    then have l: "length V < ?S" using ov S by simp
    have "ring_used rb1 = length V" using ring_used_slot [OF ok1, of "length V"] h1 l by (simp add: rb1 ring_S_def)
    then have "ring_content rb1 m' = V" using c [of "length V"] l by (simp add: ring_content_def rb1 ring_S_def)
    then show ?thesis using False ok1 l by (auto simp: finish_write_def rb1)
  next
    case True
    then have l: "?S - 1 < length V" using ov by simp
    define rb2 where "rb2 = rb1\<lparr>eb_tail := slot ?b ?S ?t (length V + 1)\<rparr>"
    have f: "eb_buf rb1 = ?b" "ring_S rb1 = ?S" "ringbuf_buffer_size rb1 = eb_size rb" "unat (eb_size rb) = ?S"
      by (simp_all add: rb1 ring_S_def ringbuf_buffer_size_def)
    have "eb_head rb1 + 1 - ?b = (?t + length V) mod ?S + 1" using h1 by (simp add: slot_def)
    then have "?b + (eb_head rb1 + 1 - ?b) mod ?S = slot ?b ?S ?t (length V + 1)" by (simp add: slot_def mod_Suc_eq)
    moreover have "?b \<le> eb_head rb1" "eb_head rb1 < ringbuf_end rb1"
      using h1 slot_range [OF S, of ?b ?t "length V"] f by (simp_all add: ringbuf_end_def)
    ultimately have nx: "ringbuf_nextp rb1 (eb_head rb1) = Some (slot ?b ?S ?t (length V + 1))"
      using f by (simp add: ringbuf_nextp_def)
    have ok2: "ring_ok rb2 m'" unfolding rb2_def using ring_ok_move(2) [OF ok1 refl, of ?t "length V + 1"] f by simp
    have g: "eb_buf rb2 = ?b" "ring_S rb2 = ?S" "eb_tail rb2 = slot ?b ?S ?t (length V + 1)" "eb_head rb2 = eb_head rb1"
      by (simp_all add: rb2_def f(1) f(2) ring_S_def [of "_\<lparr>eb_tail := _\<rparr>"] f(4) rb1)
    have "slot ?b ?S ?t (length V + 1 + (?S - 1)) = slot ?b ?S ?t (length V)" using S by (simp add: slot_def mod_add_self2 add.assoc [symmetric])
    then have "eb_head rb2 = slot ?b ?S (eb_tail rb2 - ?b) (?S - 1)" using g h1 by (simp only: slot_then)
    then have u2: "ring_used rb2 = ?S - 1" using ring_used_slot [OF ok2, of "?S - 1"] g S by simp
    have "unat (ringbuf_bytes_free rb2) = 0" using unat_free [OF ok2] u2 g by simp
    then have full: "ringbuf_is_full rb2" by (simp add: ringbuf_is_full_def word_unat_eq_iff)
    have "slot ?b ?S (eb_tail rb2 - ?b) i = slot ?b ?S (?t + (length V - (?S - 1))) i" for i
    proof -
      have e: "?t + (length V + 1 + i) = ?t + (length V - (?S - 1)) + i + ?S" using l S by linarith
      show ?thesis unfolding g(3) slot_then unfolding slot_def e by (simp only: mod_add_self2)
    qed
    then have "ring_content rb2 m' = circ ?b ?S (?t + (length V - (?S - 1))) (?S - 1) m'"
      unfolding ring_content_def u2 g(1,2) by (simp add: circ_def)
    then have "ring_content rb2 m' = drop (length V - (?S - 1)) V" using c [of "?S - 1"] l by simp
    then show ?thesis using True nx full ok2 by (auto simp: finish_write_def rb2_def rb1)
  qed
qed

lemma memcpy_into_effect:
  assumes ok: "ring_ok rb m" and src: "valid_range m src (unat n)" "disjoint_ranges (eb_buf rb) (ring_S rb) src (unat n)"
    and V: "V = ring_content rb m @ bytes_at m src (unat n)"
  shows "\<exists>rb' m'. ringbuf_memcpy_into rb src n m = Some (eb_head rb', rb', m') \<and> ring_ok rb' m'
    \<and> eb_buf rb' = eb_buf rb \<and> eb_size rb' = eb_size rb \<and> ring_content rb' m' = drop (length V - (ring_S rb - 1)) V
    \<and> (\<forall>a. a < eb_buf rb \<or> eb_buf rb + ring_S rb \<le> a \<longrightarrow> m' a = m a) \<and> (\<forall>a. (m' a = None) = (m a = None))"
proof -
  let ?rb1 = "rb\<lparr>eb_head := slot (eb_buf rb) (ring_S rb) (eb_head rb - eb_buf rb) (unat n)\<rparr>"
  obtain m' where m': "into_loop rb src 0 (unat n) m = Some (?rb1, m')"
      "circ_over (eb_buf rb) (ring_S rb) (eb_head rb - eb_buf rb) (bytes_at m src (unat n)) m m'"
      "\<And>a. (m' a = None) = (m a = None)"
    using into_loop_ok [OF ok src, of 0] by auto
  have ov: "(ringbuf_bytes_free rb < n) \<longleftrightarrow> ring_S rb - 1 < length V"
    using unat_free [OF ok] ring_used_less [OF ok] by (auto simp: word_less_nat_alt V)
  obtain rb2 where "finish_write (ringbuf_bytes_free rb < n) ?rb1 = Some rb2" "ring_ok rb2 m'" "eb_buf rb2 = eb_buf rb"
      "eb_size rb2 = eb_size rb" "ring_content rb2 m' = drop (length V - (ring_S rb - 1)) V"
    using finish_write_ok [OF ok m'(2,3) _ V ov, of ?rb1] by auto
  moreover have "a < eb_buf rb \<or> eb_buf rb + ring_S rb \<le> a \<Longrightarrow> m' a = m a" for a
    using circ_over_frame [OF m'(2)] ok by (simp add: ring_ok_def)
  ultimately show ?thesis using m'(1,3) by (intro exI [of _ rb2] exI [of _ m']) (auto simp: ringbuf_memcpy_into_def Let_def)
qed

lemma memset_effect:
  assumes ok: "ring_ok rb m" and k: "k = min (unat n) (ring_S rb)" and V: "V = ring_content rb m @ replicate k c"
  shows "\<exists>rb' m'. ringbuf_memset rb c n m = Some (of_nat k, rb', m') \<and> ring_ok rb' m'
    \<and> ring_content rb' m' = drop (length V - (ring_S rb - 1)) V
    \<and> (\<forall>a. a < eb_buf rb \<or> eb_buf rb + ring_S rb \<le> a \<longrightarrow> m' a = m a)"
proof -
  let ?c = "min n (ringbuf_buffer_size rb)"
  have uc: "unat ?c = k" by (simp add: k min_def ringbuf_buffer_size_def ring_S_def word_le_nat_alt)
  let ?rb1 = "rb\<lparr>eb_head := slot (eb_buf rb) (ring_S rb) (eb_head rb - eb_buf rb) k\<rparr>"
  obtain m' where m': "memset_loop rb c 0 k m = Some (?rb1, m')"
      "circ_over (eb_buf rb) (ring_S rb) (eb_head rb - eb_buf rb) (replicate k c) m m'" "\<And>a. (m' a = None) = (m a = None)"
    using memset_loop_ok [OF ok, of 0 k c] by auto
  have ov: "(ringbuf_bytes_free rb < ?c) \<longleftrightarrow> ring_S rb - 1 < length V"
    using unat_free [OF ok] ring_used_less [OF ok] uc by (auto simp: word_less_nat_alt V)
  obtain rb2 where "finish_write (ringbuf_bytes_free rb < ?c) ?rb1 = Some rb2" "ring_ok rb2 m'"
      "ring_content rb2 m' = drop (length V - (ring_S rb - 1)) V"
    using finish_write_ok [OF ok m'(2,3) _ V ov, of ?rb1] by auto
  moreover have "a < eb_buf rb \<or> eb_buf rb + ring_S rb \<le> a \<Longrightarrow> m' a = m a" for a
    using circ_over_frame [OF m'(2)] ok by (simp add: ring_ok_def)
  moreover have "?c = of_nat k" by (simp add: uc [symmetric])
  ultimately show ?thesis using m'(1) uc by (intro exI [of _ rb2] exI [of _ m']) (auto simp: ringbuf_memset_def Let_def)
qed

lemma memcpy_from_effect:
  assumes ok: "ring_ok rb m" and dst: "valid_range m dst (unat n)" "disjoint_ranges (eb_buf rb) (ring_S rb) dst (unat n)"
    and n: "unat n \<le> ring_used rb"
  shows "\<exists>rb' m'. ringbuf_memcpy_from dst rb n m = Some (eb_tail rb', rb', m') \<and> ring_ok rb' m'
    \<and> eb_buf rb' = eb_buf rb \<and> eb_size rb' = eb_size rb \<and> ring_content rb' m' = drop (unat n) (ring_content rb m)
    \<and> bytes_at m' dst (unat n) = take (unat n) (ring_content rb m)
    \<and> (\<forall>a. a < dst \<or> dst + unat n \<le> a \<longrightarrow> m' a = m a) \<and> (\<forall>a. (m' a = None) = (m a = None))"
proof -
  let ?b = "eb_buf rb" and ?S = "ring_S rb" and ?t = "eb_tail rb - eb_buf rb" and ?u = "ring_used rb"
  let ?rb = "rb\<lparr>eb_tail := slot ?b ?S ?t (unat n)\<rparr>"
  obtain m' where m': "from_loop dst rb 0 (unat n) m = Some (?rb, m')" "bytes_at m' dst (unat n) = circ ?b ?S ?t (unat n) m"
      "\<And>a. (m' a = None) = (m a = None)" "\<And>a. a < dst \<or> dst + unat n \<le> a \<Longrightarrow> m' a = m a"
    using from_loop_ok [OF ok dst, of 0] by auto
  have ok': "ring_ok ?rb m'" by (rule ring_ok_move(2) [OF ok m'(3)])
  have f: "eb_buf ?rb = ?b" "ring_S ?rb = ?S" "eb_tail ?rb = slot ?b ?S ?t (unat n)" by (simp_all add: ring_S_def)
  have "eb_head ?rb = slot ?b ?S (eb_tail ?rb - ?b) (?u - unat n)" unfolding f(3) slot_then using head_slot [OF ok] n by simp
  then have u: "ring_used ?rb = ?u - unat n"
    using ring_used_slot [OF ok', of "?u - unat n"] ring_used_less [OF ok] f by simp
  have S: "0 < ?S" using ok by (simp add: ring_ok_def)
  have "circ ?b ?S (?t + unat n) (?u - unat n) m' = circ ?b ?S (?t + unat n) (?u - unat n) m"
  proof (rule circ_frame [OF _ S])
    fix a assume "?b \<le> a" "a < ?b + ?S"
    then have "a < dst \<or> dst + unat n \<le> a" using dst(2) by (auto simp: disjoint_ranges_def)
    then show "m' a = m a" by (rule m'(4))
  qed
  moreover have "ring_content ?rb m' = circ ?b ?S (?t + unat n) (?u - unat n) m'"
    unfolding ring_content_def u f(1,2,3) by (simp add: circ_def slot_then slot_add)
  ultimately have c: "ring_content ?rb m' = drop (unat n) (ring_content rb m)"
    using n by (simp add: ring_content_def circ_drop)
  have le: "n \<le> ringbuf_bytes_used rb" using unat_used [OF ok] n by (simp add: word_le_nat_alt)
  have "unat (n + ringbuf_bytes_used ?rb) = ?u"
    using unat_used [OF ok'] u n ring_used_less [OF ok] ring_S_less [of rb] by (simp add: unat_add_u32)
  then have "n + ringbuf_bytes_used ?rb = ringbuf_bytes_used rb" using unat_used [OF ok] by (simp add: word_unat_eq_iff)
  then have "ringbuf_memcpy_from dst rb n m = Some (eb_tail ?rb, ?rb, m')"
    using m'(1) leD [OF le] by (simp add: ringbuf_memcpy_from_def Let_def)
  then show ?thesis using ok' c m' n by (intro exI [of _ ?rb] exI [of _ m']) (auto simp: ring_content_def circ_take)
qed

section \<open>A byte queue\<close>

definition ebq_enq :: "ptr \<times> u32 \<Rightarrow> ring \<times> mem \<Rightarrow> (ring \<times> mem) option" where
  "ebq_enq = (\<lambda>(src, n) (rb, m). map_option snd (ringbuf_memcpy_into rb src n m))"

definition ebq_deq :: "ptr \<times> u32 \<Rightarrow> ring \<times> mem \<Rightarrow> (ring \<times> mem) option" where
  "ebq_deq = (\<lambda>(dst, n) (rb, m). map_option snd (ringbuf_memcpy_from dst rb n m))"

definition ebq_area :: "ptr \<times> u32 \<Rightarrow> ring \<times> mem \<Rightarrow> bool" where
  "ebq_area = (\<lambda>(p, n) (rb, m). valid_range m p (unat n) \<and> disjoint_ranges (eb_buf rb) (ring_S rb) p (unat n))"

definition ebq_dst :: "ptr \<times> u32 \<Rightarrow> ring \<times> mem \<Rightarrow> bool" where
  "ebq_dst = (\<lambda>(p, n) (rb, m). ebq_area (p, n) (rb, m) \<and> unat n \<le> ring_used rb)"

interpretation ebq: byte_fifo
  "\<lambda>(rb, m). ring_ok rb m" "\<lambda>(rb, m). ring_content rb m" "\<lambda>(rb, m). ring_S rb - 1"
  ebq_enq ebq_area "\<lambda>(src, n) (rb, m). bytes_at m src (unat n)"
  ebq_deq ebq_dst "\<lambda>(dst, n). unat n" "\<lambda>(dst, n) (rb, m) (rb', m'). bytes_at m' dst (unat n)"
proof (unfold_locales, goal_cases)
  case (1 q s)
  obtain rb m src n where qs: "q = (rb, m)" "s = (src, n)" by (cases q, cases s) auto
  have as: "ring_ok rb m" "valid_range m src (unat n)" "disjoint_ranges (eb_buf rb) (ring_S rb) src (unat n)"
    and fits: "ring_used rb + unat n \<le> ring_S rb - 1" using 1 by (simp_all add: qs ebq_area_def)
  obtain rb' m' where r: "ringbuf_memcpy_into rb src n m = Some (eb_head rb', rb', m')" "ring_ok rb' m'"
      "eb_buf rb' = eb_buf rb" "eb_size rb' = eb_size rb"
      "ring_content rb' m' = ring_content rb m @ bytes_at m src (unat n)" "\<forall>a. (m' a = None) = (m a = None)"
    using memcpy_into_effect [OF as refl] fits by auto
  have "ring_used rb' = ring_used rb + unat n" using arg_cong [OF r(5), of length] by simp
  moreover have "ring_S rb' = ring_S rb" using r(4) by (simp add: ring_S_def)
  moreover have "valid_range m' p k = valid_range m p k" for p k using r(6) by (simp add: valid_range_iff)
  ultimately show ?case using r by (auto simp: qs ebq_enq_def ebq_dst_def ebq_area_def)
next
  case (2 q d)
  obtain rb m dst n where qd: "q = (rb, m)" "d = (dst, n)" by (cases q, cases d) auto
  have as: "ring_ok rb m" "valid_range m dst (unat n)" "disjoint_ranges (eb_buf rb) (ring_S rb) dst (unat n)"
      "unat n \<le> ring_used rb" using 2 by (simp_all add: qd ebq_area_def ebq_dst_def)
  from memcpy_from_effect [OF as] show ?case by (auto simp: qd ebq_deq_def ring_S_def)
qed

section \<open>Searching\<close>

lemma memchr_finds:
  assumes "valid_range m p n"
  shows "memchr p c n m = Some (if c \<in> set (bytes_at m p n) then Some (p + length (takeWhile (\<lambda>b. b \<noteq> c) (bytes_at m p n))) else None)"
  using assms
proof (induction n arbitrary: p)
  case (Suc n)
  obtain v where v: "m p = Some v" using Suc.prems by (auto simp: valid_range_iff dest: spec [of _ 0])
  have "valid_range m (p + 1) n" using valid_range_sub [OF Suc.prems, of 1 n] by simp
  moreover have "bytes_at m p (Suc n) = v # bytes_at m (p + 1) n"
    using bytes_at_append [of m p 1 n] v by (simp add: bytes_at_def)
  ultimately show ?case using Suc.IH [of "p + 1"] v by auto
qed simp

lemma findchr_finds:
  assumes ok: "ring_ok rb m" and i: "i \<le> ring_used rb" "xs = drop i (ring_content rb m)"
  shows "ringbuf_findchr rb c (of_nat i) m = Some (of_nat (i + length (takeWhile (\<lambda>b. b \<noteq> c) xs)))"
  using i
proof (induction "ring_used rb - i" arbitrary: i xs rule: less_induct)
  case less
  let ?b = "eb_buf rb" and ?S = "ring_S rb" and ?t = "eb_tail rb - eb_buf rb" and ?u = "ring_used rb"
  have S: "0 < ?S" "?u < ?S" "?S < 2 ^ 32" and v: "valid_range m ?b ?S"
    using ok ring_used_less [OF ok] ring_S_less [of rb] by (auto simp: ring_ok_def)
  have u: "ringbuf_bytes_used rb = of_nat ?u" using unat_used [OF ok] by (simp flip: unat_used [OF ok])
  have ui: "unat (of_nat i :: u32) = i" "unat (of_nat ?u :: u32) = ?u" using less.prems S by (simp_all add: unat_of_nat_u32)
  show ?case
  proof (cases "i = ?u")
    case True
    then show ?thesis using less.prems u by (subst ringbuf_findchr.simps) simp
  next
    case False
    then have lt: "i < ?u" using less.prems by simp
    define st where "st = slot ?b ?S ?t i"
    define n where "n = min (?b + ?S - st) (?u - i)"
    have r: "?b \<le> st" "st < ?b + ?S" using slot_range [OF S(1), of ?b ?t i] by (simp_all add: st_def)
    have n: "0 < n" "n \<le> ?u - i" "st - ?b + n \<le> ?S" using r lt by (auto simp: n_def)
    have start: "?b + (eb_tail rb - ?b + i) mod unat (ringbuf_buffer_size rb) = st"
      by (simp add: st_def slot_def ring_S_def ringbuf_buffer_size_def)
    have e: "ringbuf_end rb = ?b + ?S" by (simp add: ringbuf_end_def ringbuf_buffer_size_def ring_S_def)
    have d: "of_nat ?u - of_nat i = (of_nat (?u - i) :: u32)" using lt by simp
    have nw: "min (of_nat (?b + ?S - st)) (of_nat ?u - of_nat i) = (of_nat n :: u32)"
    proof -
      have "unat (of_nat (?b + ?S - st) :: u32) = ?b + ?S - st" "unat (of_nat (?u - i) :: u32) = ?u - i"
        using r S lt by (simp_all add: unat_of_nat_u32 del: of_nat_diff of_nat_add)
      then show ?thesis unfolding d by (simp add: min_def n_def word_le_nat_alt del: of_nat_diff of_nat_add)
    qed
    have un: "unat (of_nat n :: u32) = n" using n S by (intro unat_of_nat_u32) linarith
    have bs: "bytes_at m st n = take n xs"
    proof -
      have "circ ?b ?S (?t + i) n m = take n (circ ?b ?S (?t + i) (?u - i) m)" using n by (intro circ_take)
      also have "circ ?b ?S (?t + i) (?u - i) m = xs" using less.prems lt by (simp add: circ_drop ring_content_def)
      finally have "circ ?b ?S (?t + i) n m = take n xs" .
      moreover have "circ ?b ?S (?t + i) n m = circ ?b ?S (st - ?b) n m"
        by (simp add: circ_def st_def slot_then slot_add)
      moreover have "circ ?b ?S (st - ?b) n m = bytes_at m st n" using circ_linear [OF n(3)] r by simp
      ultimately show ?thesis by simp
    qed
    have vs: "valid_range m st n" using valid_range_sub [OF v n(3)] r by simp
    have nle: "(?u \<le> i) = False" using lt by simp
    have step: "ringbuf_findchr rb c (of_nat i) m = (case (if c \<in> set (take n xs) then Some (st + length (takeWhile (\<lambda>b. b \<noteq> c) (take n xs))) else None)
        of Some p \<Rightarrow> Some (of_nat i + of_nat (p - st)) | None \<Rightarrow> ringbuf_findchr rb c (of_nat i + of_nat n) m)"
      by (subst ringbuf_findchr.simps)
        (simp only: Let_def u word_le_nat_alt ui nle if_False start e r(2) not_True_eq_False nw un memchr_finds [OF vs] bs bind.simps)
    show ?thesis
    proof (cases "c \<in> set (take n xs)")
      case True
      have "takeWhile (\<lambda>b. b \<noteq> c) xs = takeWhile (\<lambda>b. b \<noteq> c) (take n xs @ drop n xs)" by simp
      also have "\<dots> = takeWhile (\<lambda>b. b \<noteq> c) (take n xs)" using True by (intro takeWhile_append1 [of c]) simp_all
      finally show ?thesis using step True by simp
    next
      case False
      then have "takeWhile (\<lambda>b. b \<noteq> c) (take n xs @ drop n xs) = take n xs @ takeWhile (\<lambda>b. b \<noteq> c) (drop n xs)"
        by (intro takeWhile_append2) auto
      then have "takeWhile (\<lambda>b. b \<noteq> c) xs = take n xs @ takeWhile (\<lambda>b. b \<noteq> c) (drop n xs)"
        by (simp only: append_take_drop_id)
      moreover have "length (take n xs) = n" using n less.prems by simp
      ultimately have t: "length (takeWhile (\<lambda>b. b \<noteq> c) xs) = n + length (takeWhile (\<lambda>b. b \<noteq> c) (drop n xs))"
        by (simp only: length_append)
      have "ringbuf_findchr rb c (of_nat (i + n)) m = Some (of_nat (i + n + length (takeWhile (\<lambda>b. b \<noteq> c) (drop n xs))))"
        using n lt less.prems by (intro less.hyps) (auto simp: add.commute)
      then show ?thesis using step False t by (simp add: add.assoc)
    qed
  qed
qed

section \<open>Properties\<close>

text \<open>Writing never fails and keeps the newest bytes: after \<^verbatim>\<open>ringbuf_memcpy_into\<close> of any number of bytes, more
  than the capacity included, the ring holds the last bytes of what it held followed by what was written, as many as its
  capacity; no assertion fails, and memory outside the ring is unchanged.\<close>

theorem ringbuf_memcpy_into_newest:
  assumes "ring_ok rb m" "valid_range m src (unat n)" "disjoint_ranges (eb_buf rb) (ring_S rb) src (unat n)"
    and "V = ring_content rb m @ bytes_at m src (unat n)"
  shows "\<exists>rb' m'. ringbuf_memcpy_into rb src n m = Some (ringbuf_head rb', rb', m') \<and> ring_ok rb' m'
    \<and> ring_content rb' m' = drop (length V - unat (ringbuf_capacity rb)) V
    \<and> (\<forall>a. a < eb_buf rb \<or> ringbuf_end rb \<le> a \<longrightarrow> m' a = m a)"
  using memcpy_into_effect [OF assms] unat_capacity [OF assms(1)]
  by (auto simp: ringbuf_head_def ringbuf_end_def ringbuf_buffer_size_def ring_S_def)

definition demo_ring :: ring where
  "demo_ring = \<lparr>eb_buf = 100, eb_head = 102, eb_tail = 104, eb_size = 6\<rparr>"

definition demo_bytes :: mem where
  "demo_bytes = (\<lambda>a. if 100 \<le> a \<and> a < 140 then Some (of_nat a) else None)"

lemma demo_ring_ok:
  "ring_ok demo_ring demo_bytes" "ring_S demo_ring = 6" "ring_content demo_ring demo_bytes = [104, 105, 100, 101]"
  by (simp_all add: ring_ok_def ring_S_def demo_ring_def demo_bytes_def valid_range_iff ring_content_def ring_used_def
      circ_def slot_def upt_rec)

theorem ringbuf_memcpy_into_newest_witness:
  "\<exists>rb' m'. ringbuf_memcpy_into demo_ring 120 9 demo_bytes = Some (ringbuf_head rb', rb', m') \<and> ring_ok rb' m'
    \<and> ring_content rb' m' = [124, 125, 126, 127, 128]"
proof -
  have v: "valid_range demo_bytes 120 (unat (9 :: u32))" by (simp add: valid_range_iff demo_bytes_def)
  have d: "disjoint_ranges (eb_buf demo_ring) (ring_S demo_ring) 120 (unat (9 :: u32))"
    by (simp add: demo_ring_ok(2) disjoint_ranges_def) (simp add: demo_ring_def)
  have "bytes_at demo_bytes 120 9 = [120, 121, 122, 123, 124, 125, 126, 127, 128]"
    by (simp add: bytes_at_def demo_bytes_def upt_rec)
  moreover have "unat (ringbuf_capacity demo_ring) = 5" by (simp add: unat_capacity [OF demo_ring_ok(1)] demo_ring_ok)
  ultimately show ?thesis
    using ringbuf_memcpy_into_newest [OF demo_ring_ok(1) v d refl] by (auto simp: demo_ring_ok)
qed

text \<open>Reading takes the oldest bytes in order: \<^verbatim>\<open>ringbuf_memcpy_from\<close> delivers the first \<open>n\<close> bytes of the ring and
  leaves the others; when the ring holds fewer, the result is the null pointer and nothing changes.
  \<^verbatim>\<open>ringbuf_findchr\<close> from offset 0 gives the position of the first such byte, or the number of bytes in the
  ring.\<close>

theorem ringbuf_memcpy_from_oldest:
  assumes "ring_ok rb m" "valid_range m dst (unat n)" "disjoint_ranges (eb_buf rb) (ring_S rb) dst (unat n)"
  shows "\<exists>p rb' m'. ringbuf_memcpy_from dst rb n m = Some (p, rb', m') \<and> ring_ok rb' m'
    \<and> (if unat n \<le> length (ring_content rb m)
       then p = ringbuf_tail rb' \<and> bytes_at m' dst (unat n) = take (unat n) (ring_content rb m)
         \<and> ring_content rb' m' = drop (unat n) (ring_content rb m)
       else p = NULL \<and> rb' = rb \<and> m' = m)
    \<and> ringbuf_findchr rb c 0 m = Some (of_nat (length (takeWhile (\<lambda>b. b \<noteq> c) (ring_content rb m))))"
proof -
  have f: "ringbuf_findchr rb c 0 m = Some (of_nat (length (takeWhile (\<lambda>b. b \<noteq> c) (ring_content rb m))))"
    using findchr_finds [OF assms(1), of 0 _ c] by simp
  show ?thesis
  proof (cases "unat n \<le> ring_used rb")
    case True
    then show ?thesis using memcpy_from_effect [OF assms True] f by (auto simp: ringbuf_tail_def)
  next
    case False
    then have "ringbuf_bytes_used rb < n" using unat_used [OF assms(1)] by (simp add: word_less_nat_alt)
    then have "ringbuf_memcpy_from dst rb n m = Some (NULL, rb, m)" by (simp add: ringbuf_memcpy_from_def)
    then show ?thesis using False assms(1) f by auto
  qed
qed

theorem ringbuf_memcpy_from_oldest_witness:
  "(\<exists>rb' m'. ringbuf_memcpy_from 130 demo_ring 3 demo_bytes = Some (ringbuf_tail rb', rb', m')
     \<and> bytes_at m' 130 3 = [104, 105, 100] \<and> ring_content rb' m' = [101])
   \<and> ringbuf_findchr demo_ring 100 0 demo_bytes = Some 2"
proof -
  have v: "valid_range demo_bytes 130 (unat (3 :: u32))" by (simp add: valid_range_iff demo_bytes_def)
  have d: "disjoint_ranges (eb_buf demo_ring) (ring_S demo_ring) 130 (unat (3 :: u32))"
    by (simp add: demo_ring_ok(2) disjoint_ranges_def) (simp add: demo_ring_def)
  from ringbuf_memcpy_from_oldest [OF demo_ring_ok(1) v d, of 100] show ?thesis by (auto simp: demo_ring_ok)
qed

end
