(* ===== verification/Lwip_Timers.thy ===== *)
theory Lwip_Timers
  imports Lwip_Base
begin

text \<open>
  The timeouts of the stack, \<^verbatim>\<open>core/timers.c\<close>, in the configuration of \<^verbatim>\<open>lwipopts.h\<close> (no operating system, ARP, DHCP, IGMP,
  DNS and TCP; no reassembly). The list of timeouts belongs to this file alone, so it is a list here; each entry holds the
  time after the one before it. The timer functions of the other modules, the heap and handlers from outside are
  parameters; the calls are recorded in the order they are made.
\<close>

datatype sys_timeout_handler =
    Null_handler | Tcpip_tcp_timer | Tcp_timer_coarse | Arp_timer | Dhcp_timer_coarse | Dhcp_timer_fine | Igmp_timer | Dns_timer
  | User_handler nat

datatype tmr_call =
    Tcp_tmr | Etharp_tmr | Dhcp_coarse_tmr | Dhcps_coarse_tmr | Dhcp_fine_tmr | Igmp_tmr | Dns_tmr | User_call nat ptr

record sys_timeo =
  to_time :: u32
  to_h :: sys_timeout_handler
  to_arg :: ptr

text \<open>\<open>tcp_pcbs\<close> is \<^verbatim>\<open>tcp_active_pcbs || tcp_tw_pcbs\<close>.\<close>

record timers =
  next_timeout :: "sys_timeo list"
  timeouts_last_time :: u32
  tcpip_tcp_timer_active :: bool
  tcp_pcbs :: bool
  timer2_ms_flag :: u8
  DHCP_MAXRTX :: u8
  tmr_log :: "tmr_call list"

record timer_env =
  memp_malloc_ok :: "timers \<Rightarrow> bool"
  tmr :: "tmr_call \<Rightarrow> timers \<Rightarrow> timers"

definition TCP_TMR_INTERVAL :: u32 where "TCP_TMR_INTERVAL = 125"
definition ARP_TMR_INTERVAL :: u32 where "ARP_TMR_INTERVAL = 5000"
definition DHCP_COARSE_TIMER_MSECS :: u32 where "DHCP_COARSE_TIMER_MSECS = 60 * 1000"
definition DHCP_FINE_TIMER_MSECS :: u32 where "DHCP_FINE_TIMER_MSECS = 500"
definition IGMP_TMR_INTERVAL :: u32 where "IGMP_TMR_INTERVAL = 100"
definition DNS_TMR_INTERVAL :: u32 where "DNS_TMR_INTERVAL = 1000"
definition APB_CLK_FREQ :: u32 where "APB_CLK_FREQ = 80 * 1000000"

definition LWIP_U32_DIFF :: "u32 \<Rightarrow> u32 \<Rightarrow> u32" where
  "LWIP_U32_DIFF a b = (if b \<le> a then a - b else a + (b XOR 0xFFFFFFFF) + 1)"

section \<open>The list\<close>

text \<open>The loop of \<^verbatim>\<open>sys_timeout\<close> at one entry of the list.\<close>

fun timeout_loop :: "sys_timeo \<Rightarrow> sys_timeo list \<Rightarrow> sys_timeo list" where
  "timeout_loop timeout [] = []"
| "timeout_loop timeout (t # ts) =
     (let timeout = timeout\<lparr>to_time := to_time timeout - to_time t\<rparr>
      in case ts of [] \<Rightarrow> [t, timeout]
         | u # us \<Rightarrow> if to_time timeout < to_time u
                    then t # timeout # u\<lparr>to_time := to_time u - to_time timeout\<rparr> # us
                    else t # timeout_loop timeout ts)"

definition sys_timeout :: "timer_env \<Rightarrow> u32 \<Rightarrow> sys_timeout_handler \<Rightarrow> ptr \<Rightarrow> timers \<Rightarrow> timers" where
  "sys_timeout e msecs handler arg s =
     (if \<not> memp_malloc_ok e s then s
      else let timeout = \<lparr>to_time = msecs, to_h = handler, to_arg = arg\<rparr>
           in case next_timeout s of
                [] \<Rightarrow> s\<lparr>next_timeout := [timeout]\<rparr>
              | t # ts \<Rightarrow> if msecs < to_time t
                         then s\<lparr>next_timeout := timeout # t\<lparr>to_time := to_time t - msecs\<rparr> # ts\<rparr>
                         else s\<lparr>next_timeout := timeout_loop timeout (t # ts)\<rparr>)"

fun untimeout_loop :: "sys_timeout_handler \<Rightarrow> ptr \<Rightarrow> sys_timeo list \<Rightarrow> sys_timeo list" where
  "untimeout_loop handler arg [] = []"
| "untimeout_loop handler arg (t # ts) =
     (if to_h t = handler \<and> to_arg t = arg
      then case ts of [] \<Rightarrow> [] | u # us \<Rightarrow> u\<lparr>to_time := to_time u + to_time t\<rparr> # us
      else t # untimeout_loop handler arg ts)"

definition sys_untimeout :: "sys_timeout_handler \<Rightarrow> ptr \<Rightarrow> timers \<Rightarrow> timers" where
  "sys_untimeout handler arg s = s\<lparr>next_timeout := untimeout_loop handler arg (next_timeout s)\<rparr>"

section \<open>The handlers\<close>

definition call_tmr :: "timer_env \<Rightarrow> tmr_call \<Rightarrow> timers \<Rightarrow> timers" where
  "call_tmr e c s = tmr e c (s\<lparr>tmr_log := tmr_log s @ [c]\<rparr>)"

definition tcpip_tcp_timer :: "timer_env \<Rightarrow> timers \<Rightarrow> timers" where
  "tcpip_tcp_timer e s =
     (let s = call_tmr e Tcp_tmr s
      in if tcp_pcbs s then sys_timeout e TCP_TMR_INTERVAL Tcpip_tcp_timer NULL s else s\<lparr>tcpip_tcp_timer_active := False\<rparr>)"

definition tcp_timer_needed :: "timer_env \<Rightarrow> timers \<Rightarrow> timers" where
  "tcp_timer_needed e s =
     (if \<not> tcpip_tcp_timer_active s \<and> tcp_pcbs s
      then sys_timeout e TCP_TMR_INTERVAL Tcpip_tcp_timer NULL (s\<lparr>tcpip_tcp_timer_active := True\<rparr>) else s)"

definition tcp_timer_coarse :: "timer_env \<Rightarrow> timers \<Rightarrow> timers" where
  "tcp_timer_coarse e s = sys_timeout e TCP_TMR_INTERVAL Tcp_timer_coarse NULL (call_tmr e Tcp_tmr s)"

definition arp_timer :: "timer_env \<Rightarrow> timers \<Rightarrow> timers" where
  "arp_timer e s = sys_timeout e ARP_TMR_INTERVAL Arp_timer NULL (call_tmr e Etharp_tmr s)"

definition dhcp_timer_coarse :: "timer_env \<Rightarrow> timers \<Rightarrow> timers" where
  "dhcp_timer_coarse e s =
     sys_timeout e DHCP_COARSE_TIMER_MSECS Dhcp_timer_coarse NULL (call_tmr e Dhcps_coarse_tmr (call_tmr e Dhcp_coarse_tmr s))"

definition dhcp_timer_fine :: "timer_env \<Rightarrow> timers \<Rightarrow> timers" where
  "dhcp_timer_fine e s = sys_timeout e DHCP_FINE_TIMER_MSECS Dhcp_timer_fine NULL (call_tmr e Dhcp_fine_tmr s)"

definition igmp_timer :: "timer_env \<Rightarrow> timers \<Rightarrow> timers" where
  "igmp_timer e s = sys_timeout e IGMP_TMR_INTERVAL Igmp_timer NULL (call_tmr e Igmp_tmr s)"

definition dns_timer :: "timer_env \<Rightarrow> timers \<Rightarrow> timers" where
  "dns_timer e s = sys_timeout e DNS_TMR_INTERVAL Dns_timer NULL (call_tmr e Dns_tmr s)"

text \<open>The call through the handler pointer.\<close>

definition run_handler :: "timer_env \<Rightarrow> sys_timeout_handler \<Rightarrow> ptr \<Rightarrow> timers \<Rightarrow> timers" where
  "run_handler e h arg s =
     (case h of Null_handler \<Rightarrow> s
      | Tcpip_tcp_timer \<Rightarrow> tcpip_tcp_timer e s | Tcp_timer_coarse \<Rightarrow> tcp_timer_coarse e s
      | Arp_timer \<Rightarrow> arp_timer e s | Dhcp_timer_coarse \<Rightarrow> dhcp_timer_coarse e s | Dhcp_timer_fine \<Rightarrow> dhcp_timer_fine e s
      | Igmp_timer \<Rightarrow> igmp_timer e s | Dns_timer \<Rightarrow> dns_timer e s
      | User_handler n \<Rightarrow> call_tmr e (User_call n arg) s)"

section \<open>Time\<close>

definition sys_timeouts_init :: "timer_env \<Rightarrow> u32 \<Rightarrow> timers \<Rightarrow> timers" where
  "sys_timeouts_init e now s =
     (let s = sys_timeout e ARP_TMR_INTERVAL Arp_timer NULL s;
          s = s\<lparr>DHCP_MAXRTX := 0\<rparr>;
          s = sys_timeout e DHCP_COARSE_TIMER_MSECS Dhcp_timer_coarse NULL s;
          s = sys_timeout e DHCP_FINE_TIMER_MSECS Dhcp_timer_fine NULL s;
          s = sys_timeout e IGMP_TMR_INTERVAL Igmp_timer NULL s;
          s = sys_timeout e DNS_TMR_INTERVAL Dns_timer NULL s;
          s = sys_timeout e TCP_TMR_INTERVAL Tcpip_tcp_timer NULL s
      in s\<lparr>timeouts_last_time := now\<rparr>)"

text \<open>
  The loop of \<^verbatim>\<open>sys_check_timeouts\<close>. It reads the first entry without a test, so an empty list is a null pointer
  access.
\<close>

partial_function (option) check_loop :: "timer_env \<Rightarrow> u32 \<Rightarrow> u32 \<Rightarrow> timers \<Rightarrow> timers option" where
  "check_loop e now diff s =
     (case next_timeout s of [] \<Rightarrow> None
      | t # ts \<Rightarrow> if to_time t \<le> diff
                 then check_loop e now (diff - to_time t)
                        (run_handler e (to_h t) (to_arg t) (s\<lparr>timeouts_last_time := now, next_timeout := ts\<rparr>))
                 else Some s)"

definition elapsed :: "u32 \<Rightarrow> timers \<Rightarrow> u32" where
  "elapsed now s =
     (if timer2_ms_flag s = 0 then LWIP_U32_DIFF now (timeouts_last_time s) div (drop_bit 4 APB_CLK_FREQ div 1000)
      else LWIP_U32_DIFF now (timeouts_last_time s) div (drop_bit 8 APB_CLK_FREQ div 1000))"

definition sys_check_timeouts :: "timer_env \<Rightarrow> u32 \<Rightarrow> timers \<Rightarrow> timers option" where
  "sys_check_timeouts e now s =
     (if next_timeout s \<noteq> [] then check_loop e now (elapsed now s) s else Some s)"

definition sys_restart_timeouts :: "u32 \<Rightarrow> timers \<Rightarrow> timers" where
  "sys_restart_timeouts now s = s\<lparr>timeouts_last_time := now\<rparr>"

section \<open>Deadlines\<close>

text \<open>What the list stands for: each handler with the time at which it is due, counted from the same moment.\<close>

type_synonym deadline = "nat \<times> sys_timeout_handler \<times> ptr"

fun due :: "nat \<Rightarrow> sys_timeo list \<Rightarrow> deadline list" where
  "due b [] = []"
| "due b (t # ts) = (b + unat (to_time t), to_h t, to_arg t) # due (b + unat (to_time t)) ts"

abbreviation deadlines :: "sys_timeo list \<Rightarrow> deadline list" where
  "deadlines \<equiv> due 0"

definition insert_due :: "deadline \<Rightarrow> deadline list \<Rightarrow> deadline list" where
  "insert_due x ds = takeWhile (\<lambda>d. fst d \<le> fst x) ds @ x # dropWhile (\<lambda>d. fst d \<le> fst x) ds"

lemma due_ge: "d \<in> set (due b ts) \<Longrightarrow> b \<le> fst d"
  by (induction ts arbitrary: b) fastforce+

lemma due_head: "due b (t\<lparr>to_time := x\<rparr> # ts) = (b + unat x, to_h t, to_arg t) # due (b + unat x) ts"
  by simp

lemma insert_due_low: "(\<And>d. d \<in> set ds \<Longrightarrow> fst x < fst d) \<Longrightarrow> insert_due x ds = x # ds"
proof (cases ds)
  case (Cons d ds')
  assume "\<And>d. d \<in> set ds \<Longrightarrow> fst x < fst d"
  then have "fst x < fst d" using Cons by simp
  then show ?thesis using Cons by (simp add: insert_due_def)
qed (simp add: insert_due_def)

lemma insert_due_Cons: "fst d \<le> fst x \<Longrightarrow> insert_due x (d # ds) = d # insert_due x ds"
  by (simp add: insert_due_def)

lemma timeout_loop_due:
  assumes "ts \<noteq> []" "to_time (hd ts) \<le> to_time n"
  shows "due b (timeout_loop n ts) = insert_due (b + unat (to_time n), to_h n, to_arg n) (due b ts)"
  using assms
proof (induction ts arbitrary: b n)
  case (Cons t ts)
  let ?n = "n\<lparr>to_time := to_time n - to_time t\<rparr>"
  have le: "unat (to_time t) \<le> unat (to_time n)" using Cons.prems(2) by (simp add: word_le_nat_alt)
  have un: "unat (to_time n - to_time t) = unat (to_time n) - unat (to_time t)" using Cons.prems(2) by (simp add: unat_sub)
  have first: "insert_due (b + unat (to_time n), to_h n, to_arg n) (due b (t # ts))
      = (b + unat (to_time t), to_h t, to_arg t)
        # insert_due (b + unat (to_time n), to_h n, to_arg n) (due (b + unat (to_time t)) ts)"
    using le by (simp add: insert_due_Cons)
  show ?case
  proof (cases ts)
    case Nil
    then show ?thesis using le un unfolding first by (simp add: insert_due_def)
  next
    case (Cons u us)
    show ?thesis
    proof (cases "to_time ?n < to_time u")
      case True
      then have "unat (to_time u - to_time ?n) = unat (to_time u) - unat (to_time ?n)" "unat (to_time ?n) < unat (to_time u)"
        by (simp_all add: unat_sub less_imp_le word_less_nat_alt)
      moreover from this have "insert_due (b + unat (to_time n), to_h n, to_arg n) (due (b + unat (to_time t)) ts)
          = (b + unat (to_time n), to_h n, to_arg n) # due (b + unat (to_time t)) ts"
        using Cons un le by (intro insert_due_low) (auto dest!: due_ge)
      ultimately show ?thesis using True Cons un le unfolding first by (simp add: ac_simps)
    next
      case False
      then have "due (b + unat (to_time t)) (timeout_loop ?n ts)
          = insert_due (b + unat (to_time t) + unat (to_time ?n), to_h ?n, to_arg ?n) (due (b + unat (to_time t)) ts)"
        using Cons by (intro Cons.IH) auto
      then show ?thesis using False Cons un le unfolding first by simp
    qed
  qed
qed simp

lemma sys_timeout_due:
  assumes "memp_malloc_ok e s"
  shows "deadlines (next_timeout (sys_timeout e msecs h arg s)) = insert_due (unat msecs, h, arg) (deadlines (next_timeout s))"
proof (cases "next_timeout s")
  case Nil
  then show ?thesis using assms by (simp add: sys_timeout_def insert_due_def)
next
  case (Cons t ts)
  show ?thesis
  proof (cases "msecs < to_time t")
    case True
    then have un: "unat (to_time t - msecs) = unat (to_time t) - unat msecs" "unat msecs < unat (to_time t)"
      by (simp_all add: unat_sub less_imp_le word_less_nat_alt)
    then have "insert_due (unat msecs, h, arg) (deadlines (next_timeout s)) = (unat msecs, h, arg) # deadlines (next_timeout s)"
      using Cons by (intro insert_due_low) (auto dest!: due_ge)
    then show ?thesis using True Cons assms un by (simp add: sys_timeout_def)
  next
    case False
    then show ?thesis using Cons assms timeout_loop_due [of "next_timeout s" "\<lparr>to_time = msecs, to_h = h, to_arg = arg\<rparr>" 0]
      by (simp add: sys_timeout_def Let_def del: timeout_loop.simps)
  qed
qed

text \<open>Removing an entry.\<close>

fun remove_first :: "('a \<Rightarrow> bool) \<Rightarrow> 'a list \<Rightarrow> 'a list" where
  "remove_first P [] = []"
| "remove_first P (x # xs) = (if P x then xs else x # remove_first P xs)"

lemma untimeout_loop_due:
  assumes "sum_list (map (unat \<circ> to_time) ts) < 2 ^ 32"
  shows "due b (untimeout_loop h arg ts) = remove_first (\<lambda>d. snd d = (h, arg)) (due b ts)"
  using assms
proof (induction ts arbitrary: b)
  case (Cons t ts)
  show ?case
  proof (cases "to_h t = h \<and> to_arg t = arg")
    case True
    show ?thesis
    proof (cases ts)
      case (Cons u us)
      then have "unat (to_time u + to_time t) = unat (to_time u) + unat (to_time t)"
        using Cons.prems by (simp add: unat_add_u32)
      then show ?thesis using True Cons by (simp add: ac_simps)
    qed (use True in simp)
  next
    case False
    then show ?thesis using Cons by auto
  qed
qed simp

text \<open>The list of timeouts stands for a list of deadlines: setting a timeout inserts its deadline behind all that are
  not later and moves no other; cancelling one removes the first that matches and moves no other.\<close>
theorem sys_timeout_refines:
  assumes "memp_malloc_ok e s" "sum_list (map (unat \<circ> to_time) (next_timeout s)) < 2 ^ 32"
  shows "deadlines (next_timeout (sys_timeout e msecs h arg s)) = insert_due (unat msecs, h, arg) (deadlines (next_timeout s))
    \<and> deadlines (next_timeout (sys_untimeout h arg s)) = remove_first (\<lambda>d. snd d = (h, arg)) (deadlines (next_timeout s))"
  using sys_timeout_due [OF assms(1)] untimeout_loop_due [OF assms(2)] by (simp add: sys_untimeout_def)

section \<open>Running\<close>

text \<open>How often a handler that sets itself again every \<open>p\<close> is due within \<open>n\<close>, first at \<open>d\<close>.\<close>

definition firings :: "nat \<Rightarrow> nat \<Rightarrow> nat \<Rightarrow> nat" where
  "firings n p d = (if d \<le> n then (n - d) div p + 1 else 0)"

lemma firings_again: "d \<le> n \<Longrightarrow> 0 < p \<Longrightarrow> firings n p d = Suc (firings (n - d) p p)"
  using le_div_geq [of p "n - d"] by (auto simp: firings_def)

lemma firings_shift: "d \<le> n \<Longrightarrow> firings n p (d + d') = firings (n - d) p d'"
  by (auto simp: firings_def)

definition interval :: "sys_timeout_handler \<Rightarrow> nat" where
  "interval h = unat (case h of Arp_timer \<Rightarrow> ARP_TMR_INTERVAL | Dhcp_timer_coarse \<Rightarrow> DHCP_COARSE_TIMER_MSECS
     | Dhcp_timer_fine \<Rightarrow> DHCP_FINE_TIMER_MSECS | Igmp_timer \<Rightarrow> IGMP_TMR_INTERVAL | Dns_timer \<Rightarrow> DNS_TMR_INTERVAL
     | _ \<Rightarrow> TCP_TMR_INTERVAL)"

definition periodic :: "sys_timeout_handler set" where
  "periodic = {Arp_timer, Dhcp_timer_coarse, Dhcp_timer_fine, Igmp_timer, Dns_timer}"

definition calls_of :: "sys_timeout_handler \<Rightarrow> tmr_call list" where
  "calls_of h = (case h of Arp_timer \<Rightarrow> [Etharp_tmr] | Dhcp_timer_coarse \<Rightarrow> [Dhcp_coarse_tmr, Dhcps_coarse_tmr]
     | Dhcp_timer_fine \<Rightarrow> [Dhcp_fine_tmr] | Igmp_timer \<Rightarrow> [Igmp_tmr] | Dns_timer \<Rightarrow> [Dns_tmr] | _ \<Rightarrow> [Tcp_tmr])"

text \<open>An environment whose timer functions leave the list of timeouts alone, with memory for the timeouts.\<close>

definition quiet :: "timer_env \<Rightarrow> bool" where
  "quiet e \<longleftrightarrow> (\<forall>s. memp_malloc_ok e s)
     \<and> (\<forall>c s. next_timeout (tmr e c s) = next_timeout s \<and> tmr_log (tmr e c s) = tmr_log s)"

lemma call_tmr_quiet:
  "quiet e \<Longrightarrow> next_timeout (call_tmr e c s) = next_timeout s" "quiet e \<Longrightarrow> tmr_log (call_tmr e c s) = tmr_log s @ [c]"
  by (simp_all add: quiet_def call_tmr_def)

lemma sys_timeout_frame [simp]:
  "tmr_log (sys_timeout e n h arg s) = tmr_log s" "timer2_ms_flag (sys_timeout e n h arg s) = timer2_ms_flag s"
  by (simp_all add: sys_timeout_def Let_def split: list.splits)

lemmas handler_defs = run_handler_def arp_timer_def dhcp_timer_coarse_def dhcp_timer_fine_def igmp_timer_def dns_timer_def
  tcpip_tcp_timer_def

lemma interval_pos [simp]: "0 < interval h"
  by (simp add: interval_def ARP_TMR_INTERVAL_def DHCP_COARSE_TIMER_MSECS_def DHCP_FINE_TIMER_MSECS_def IGMP_TMR_INTERVAL_def
      DNS_TMR_INTERVAL_def TCP_TMR_INTERVAL_def split: sys_timeout_handler.splits)

lemma run_periodic:
  assumes "quiet e" "h \<in> periodic"
  shows "deadlines (next_timeout (run_handler e h arg s)) = insert_due (interval h, h, NULL) (deadlines (next_timeout s))"
    "tmr_log (run_handler e h arg s) = tmr_log s @ calls_of h"
  using assms by (auto simp: periodic_def handler_defs calls_of_def interval_def call_tmr_quiet sys_timeout_due [unfolded atomize_imp]
      quiet_def)

lemma run_tcp:
  assumes "quiet e"
  shows "deadlines (next_timeout (run_handler e Tcpip_tcp_timer arg s)) \<in>
      {insert_due (interval Tcpip_tcp_timer, Tcpip_tcp_timer, NULL) (deadlines (next_timeout s)), deadlines (next_timeout s)}"
    "tmr_log (run_handler e Tcpip_tcp_timer arg s) = tmr_log s @ [Tcp_tmr]"
  using assms by (auto simp: handler_defs Let_def interval_def call_tmr_quiet sys_timeout_due quiet_def)

lemma due_shift: "due (b + c) ts = map (\<lambda>d. (b + fst d, snd d)) (due c ts)"
  by (induction ts arbitrary: c) (simp_all add: add.assoc)

lemma set_insert_due [simp]: "set (insert_due x ds) = insert x (set ds)"
proof -
  have "set (takeWhile P ds) \<union> set (dropWhile P ds) = set ds" for P by (metis set_append takeWhile_dropWhile_id)
  then show ?thesis by (auto simp: insert_due_def)
qed

lemma sum_insert_due [simp]: "sum_list (map f (insert_due x ds)) = (f x + sum_list (map f ds) :: nat)"
proof -
  have "sum_list (map f (takeWhile P ds)) + sum_list (map f (dropWhile P ds)) = sum_list (map f ds)" for P
    by (metis map_append sum_list_append takeWhile_dropWhile_id)
  then show ?thesis by (simp add: insert_due_def)
qed

definition work :: "(sys_timeout_handler \<Rightarrow> bool) \<Rightarrow> nat \<Rightarrow> deadline list \<Rightarrow> nat" where
  "work P n ds = sum_list (map (\<lambda>d. if P (fst (snd d)) then firings n (interval (fst (snd d))) (fst d) else 0) ds)"

lemma work_insert_due: "work P n (insert_due x ds) = (if P (fst (snd x)) then firings n (interval (fst (snd x))) (fst x) else 0) + work P n ds"
  by (simp add: work_def)

lemma work_shift: "b \<le> n \<Longrightarrow> work P n (due b ts) = work P (n - b) (deadlines ts)"
  using due_shift [of b 0 ts] by (simp add: work_def o_def firings_shift cong: if_cong)

lemma work_step:
  assumes "unat (to_time t) \<le> n"
  shows "work P n (deadlines (t # ts))
     = (if P (to_h t) then Suc (firings (n - unat (to_time t)) (interval (to_h t)) (interval (to_h t))) else 0)
       + work P (n - unat (to_time t)) (deadlines ts)"
  using work_shift [OF assms, of P ts] assms by (auto simp: work_def firings_again)

definition standing :: "sys_timeo list \<Rightarrow> bool" where
  "standing ts \<longleftrightarrow> to_h ` set ts \<subseteq> insert Tcpip_tcp_timer periodic \<and> to_h ` set ts \<inter> periodic \<noteq> {}"

lemma due_handlers: "(fst \<circ> snd) ` set (due b ts) = to_h ` set ts"
  by (induction ts arbitrary: b) auto

lemma handlers_insert: "deadlines us = insert_due (n, h, arg) (deadlines ts) \<Longrightarrow> to_h ` set us = insert h (to_h ` set ts)"
  using due_handlers [of 0 us] due_handlers [of 0 ts] by simp

lemma calls_of_count:
  assumes "h \<in> periodic" "c \<in> set (calls_of h)" "h' \<in> insert Tcpip_tcp_timer periodic"
  shows "count_list (calls_of h') c = (if h' = h then 1 else 0)"
  using assms by (auto simp: periodic_def calls_of_def)

text \<open>What one turn of the loop does.\<close>

lemma check_turn:
  assumes "quiet e" "standing (t # ts)" "next_timeout s = ts" "unat (to_time t) \<le> n"
  defines "s' \<equiv> run_handler e (to_h t) (to_arg t) s" and "k \<equiv> n - unat (to_time t)"
  shows "standing (next_timeout s')" "tmr_log s' = tmr_log s @ calls_of (to_h t)"
    "work (\<lambda>_. True) k (deadlines (next_timeout s')) < work (\<lambda>_. True) n (deadlines (t # ts))"
    "h \<in> periodic \<Longrightarrow> (if to_h t = h then 1 else 0) + work ((=) h) k (deadlines (next_timeout s')) = work ((=) h) n (deadlines (t # ts))"
proof -
  let ?i = "insert_due (interval (to_h t), to_h t, NULL) (deadlines ts)"
  have h: "to_h t = Tcpip_tcp_timer \<or> to_h t \<in> periodic" using assms(2) by (auto simp: standing_def)
  have nt: "Tcpip_tcp_timer \<notin> periodic" by (simp add: periodic_def)
  have ds: "deadlines (next_timeout s') = ?i \<or> to_h t = Tcpip_tcp_timer \<and> deadlines (next_timeout s') = deadlines ts"
    using h run_periodic(1) [OF assms(1), of "to_h t" "to_arg t" s] run_tcp(1) [OF assms(1), of "to_arg t" s] assms(3)
    by (auto simp: s'_def)
  show "tmr_log s' = tmr_log s @ calls_of (to_h t)"
    using h run_periodic(2) [OF assms(1), of "to_h t" "to_arg t" s] run_tcp(2) [OF assms(1), of "to_arg t" s]
    by (auto simp: s'_def calls_of_def)
  have hs: "to_h ` set (next_timeout s') = insert (to_h t) (to_h ` set ts) \<or>
      to_h t = Tcpip_tcp_timer \<and> to_h ` set (next_timeout s') = to_h ` set ts"
    using ds
  proof
    assume "deadlines (next_timeout s') = ?i"
    then show ?thesis by (intro disjI1 handlers_insert)
  next
    assume "to_h t = Tcpip_tcp_timer \<and> deadlines (next_timeout s') = deadlines ts"
    then show ?thesis using due_handlers [of 0 "next_timeout s'"] due_handlers [of 0 ts] by simp
  qed
  have st: "insert (to_h t) (to_h ` set ts) \<subseteq> insert Tcpip_tcp_timer periodic" "insert (to_h t) (to_h ` set ts) \<inter> periodic \<noteq> {}"
    using assms(2) unfolding standing_def list.set image_insert by simp_all
  show "standing (next_timeout s')" using hs
  proof
    assume "to_h ` set (next_timeout s') = insert (to_h t) (to_h ` set ts)"
    then show ?thesis using st unfolding standing_def by (simp only: simp_thms)
  next
    assume "to_h t = Tcpip_tcp_timer \<and> to_h ` set (next_timeout s') = to_h ` set ts"
    then show ?thesis using st nt unfolding standing_def by (metis insert_subset Int_insert_left)
  qed
  show "work (\<lambda>_. True) k (deadlines (next_timeout s')) < work (\<lambda>_. True) n (deadlines (t # ts))"
    using ds unfolding work_step [OF assms(4)] k_def by (auto simp: work_insert_due)
  show "(if to_h t = h then 1 else 0) + work ((=) h) k (deadlines (next_timeout s')) = work ((=) h) n (deadlines (t # ts))"
    if "h \<in> periodic"
    using ds that nt unfolding work_step [OF assms(4)] k_def by (auto simp: work_insert_due)
qed

lemma check_loop_runs:
  assumes "quiet e" "standing (next_timeout s)"
  shows "\<exists>s'. check_loop e now diff s = Some s' \<and> standing (next_timeout s')
     \<and> (\<forall>h\<in>periodic. \<forall>c\<in>set (calls_of h).
          count_list (tmr_log s') c = count_list (tmr_log s) c + work ((=) h) (unat diff) (deadlines (next_timeout s)))"
  using assms(2)
proof (induction "work (\<lambda>_. True) (unat diff) (deadlines (next_timeout s))" arbitrary: diff s rule: less_induct)
  case less
  obtain t ts where l: "next_timeout s = t # ts" using less.prems by (cases "next_timeout s") (auto simp: standing_def)
  show ?case
  proof (cases "to_time t \<le> diff")
    case True
    let ?s = "s\<lparr>timeouts_last_time := now, next_timeout := ts\<rparr>"
    let ?r = "run_handler e (to_h t) (to_arg t) ?s"
    have le: "unat (to_time t) \<le> unat diff" using True by (simp add: word_le_nat_alt)
    have un: "unat (diff - to_time t) = unat diff - unat (to_time t)" using True by (simp add: unat_sub)
    have st: "standing (t # ts)" using less.prems l by simp
    note turn = check_turn [OF assms(1) st _ le, of ?s, folded un]
    obtain s' where s': "check_loop e now (diff - to_time t) ?r = Some s'" "standing (next_timeout s')"
        "\<And>h c. h \<in> periodic \<Longrightarrow> c \<in> set (calls_of h) \<Longrightarrow> count_list (tmr_log s') c
           = count_list (tmr_log ?r) c + work ((=) h) (unat (diff - to_time t)) (deadlines (next_timeout ?r))"
      using less.hyps [of "diff - to_time t" ?r] turn(1,3) l by auto
    have "count_list (tmr_log s') c = count_list (tmr_log s) c + work ((=) h) (unat diff) (deadlines (next_timeout s))"
      if "h \<in> periodic" "c \<in> set (calls_of h)" for h c
      using s'(3) [OF that] turn(2) turn(4) [OF _ that(1)] calls_of_count [OF that, of "to_h t"] st l
      by (auto simp: standing_def)
    moreover have "check_loop e now diff s = Some s'" using True l s'(1) by (subst check_loop.simps) simp
    ultimately show ?thesis using s'(2) by blast
  next
    case False
    then have "unat diff < unat (to_time t)" by (simp add: word_le_nat_alt)
    then have "firings (unat diff) p d = 0" if "(d, x) \<in> set (deadlines (next_timeout s))" for d x p
      using that l by (auto simp: firings_def dest!: due_ge)
    then have "work P (unat diff) (deadlines (next_timeout s)) = 0" for P by (auto simp: work_def)
    moreover have "check_loop e now diff s = Some s" using False l by (subst check_loop.simps) simp
    ultimately show ?thesis using less.prems by simp
  qed
qed

text \<open>C28. While the timers of the stack are standing, checking the timeouts always returns, keeps them standing, and runs
  each timer as often as it is due in the elapsed time, missed runs included: once for its deadline and once more for every
  further interval.\<close>
theorem sys_check_timeouts_periodic:
  assumes "quiet e" "standing (next_timeout s)"
  shows "\<exists>s'. sys_check_timeouts e now s = Some s' \<and> standing (next_timeout s')
     \<and> (\<forall>h\<in>periodic. \<forall>c\<in>set (calls_of h).
          count_list (tmr_log s') c = count_list (tmr_log s) c
            + sum_list [firings (unat (elapsed now s)) (interval h) d. (d, h', arg) \<leftarrow> deadlines (next_timeout s), h' = h])"
proof -
  have "next_timeout s \<noteq> []" using assms(2) by (auto simp: standing_def)
  moreover have "work ((=) h) n ds = sum_list [firings n (interval h) d. (d, h', arg) \<leftarrow> ds, h' = h]" for h n ds
    by (induction ds) (auto simp: work_def)
  ultimately show ?thesis using check_loop_runs [OF assms, of now "elapsed now s"] by (simp add: sys_check_timeouts_def)
qed

text \<open>After the start of the stack the timers are standing.\<close>

lemma sys_timeouts_init_standing:
  assumes "quiet e" "next_timeout s = []"
  shows "standing (next_timeout (sys_timeouts_init e now s))"
    "deadlines (next_timeout (sys_timeouts_init e now s)) =
      [(100, Igmp_timer, NULL), (125, Tcpip_tcp_timer, NULL), (500, Dhcp_timer_fine, NULL), (1000, Dns_timer, NULL),
       (5000, Arp_timer, NULL), (60000, Dhcp_timer_coarse, NULL)]"
proof -
  have ok: "memp_malloc_ok e x" for x using assms(1) by (simp add: quiet_def)
  show d: "deadlines (next_timeout (sys_timeouts_init e now s)) =
      [(100, Igmp_timer, NULL), (125, Tcpip_tcp_timer, NULL), (500, Dhcp_timer_fine, NULL), (1000, Dns_timer, NULL),
       (5000, Arp_timer, NULL), (60000, Dhcp_timer_coarse, NULL)]"
    using assms(2)
    by (simp add: sys_timeouts_init_def Let_def sys_timeout_due ok insert_due_def ARP_TMR_INTERVAL_def DHCP_COARSE_TIMER_MSECS_def
        DHCP_FINE_TIMER_MSECS_def IGMP_TMR_INTERVAL_def DNS_TMR_INTERVAL_def TCP_TMR_INTERVAL_def)
  show "standing (next_timeout (sys_timeouts_init e now s))"
    using due_handlers [of 0 "next_timeout (sys_timeouts_init e now s)", symmetric] unfolding d by (simp add: standing_def periodic_def)
qed

text \<open>Without a timer that stays, the loop runs past the end of the list: the last timeout that fires and is not set again
  leaves a null pointer, which is read.\<close>

lemma sys_check_timeouts_last:
  assumes "quiet e" "next_timeout s = [t]" "to_h t = User_handler n" "to_time t \<le> elapsed now s"
  shows "sys_check_timeouts e now s = None"
  using assms by (simp add: sys_check_timeouts_def check_loop.simps run_handler_def call_tmr_quiet)

section \<open>Examples\<close>

definition demo_env :: timer_env where
  "demo_env = \<lparr>memp_malloc_ok = (\<lambda>s. True), tmr = (\<lambda>c s. s)\<rparr>"

definition demo_timers :: timers where
  "demo_timers = \<lparr>next_timeout = [], timeouts_last_time = 0, tcpip_tcp_timer_active = False, tcp_pcbs = False,
     timer2_ms_flag = 0, DHCP_MAXRTX = 0, tmr_log = []\<rparr>"

lemma demo_quiet: "quiet demo_env"
  by (simp add: quiet_def demo_env_def)

theorem sys_timeout_refines_witness:
  "deadlines (next_timeout (sys_timeout demo_env 20 (User_handler 1) 7
     (demo_timers\<lparr>next_timeout := [\<lparr>to_time = 10, to_h = Arp_timer, to_arg = 0\<rparr>, \<lparr>to_time = 15, to_h = Dns_timer, to_arg = 0\<rparr>]\<rparr>)))
   = [(10, Arp_timer, 0), (20, User_handler 1, 7), (25, Dns_timer, 0)]"
  using sys_timeout_refines [of demo_env "demo_timers\<lparr>next_timeout := [\<lparr>to_time = 10, to_h = Arp_timer, to_arg = 0\<rparr>,
      \<lparr>to_time = 15, to_h = Dns_timer, to_arg = 0\<rparr>]\<rparr>" 20 "User_handler 1" 7]
  by (simp add: demo_env_def insert_due_def)

theorem sys_check_timeouts_periodic_witness:
  "\<exists>s'. sys_check_timeouts demo_env 2500000 (sys_timeouts_init demo_env 0 demo_timers) = Some s'
     \<and> count_list (tmr_log s') Igmp_tmr = 5 \<and> count_list (tmr_log s') Dhcp_fine_tmr = 1 \<and> count_list (tmr_log s') Dns_tmr = 0"
proof -
  let ?s = "sys_timeouts_init demo_env 0 demo_timers"
  have "timer2_ms_flag ?s = 0" "timeouts_last_time ?s = 0" "tmr_log ?s = []"
    by (simp_all add: sys_timeouts_init_def Let_def demo_timers_def)
  then have e: "unat (elapsed 2500000 ?s) = 500" "tmr_log ?s = []"
    by (simp_all add: elapsed_def LWIP_U32_DIFF_def APB_CLK_FREQ_def drop_bit_eq_div unat_div)
  note i = sys_timeouts_init_standing [OF demo_quiet, of demo_timers 0]
  have d: "next_timeout demo_timers = []" by (simp add: demo_timers_def)
  obtain s' where s': "sys_check_timeouts demo_env 2500000 ?s = Some s'"
      "\<And>h c. h \<in> periodic \<Longrightarrow> c \<in> set (calls_of h) \<Longrightarrow> count_list (tmr_log s') c = count_list (tmr_log ?s) c
         + sum_list [firings (unat (elapsed 2500000 ?s)) (interval h) d. (d, h', arg) \<leftarrow> deadlines (next_timeout ?s), h' = h]"
    using sys_check_timeouts_periodic [OF demo_quiet i(1) [OF d], of 2500000] by blast
  show ?thesis
    using s'(1) s'(2) [of Igmp_timer Igmp_tmr] s'(2) [of Dhcp_timer_fine Dhcp_fine_tmr] s'(2) [of Dns_timer Dns_tmr]
    unfolding i(2) [OF d] e
    by (auto simp: periodic_def calls_of_def interval_def firings_def IGMP_TMR_INTERVAL_def DHCP_FINE_TIMER_MSECS_def DNS_TMR_INTERVAL_def)
qed

end
