(* ===== verification/Lwip_Pbuf.thy ===== *)
theory Lwip_Pbuf
  imports Lwip_Base
begin

text \<open>
  Packet buffers, \<^verbatim>\<open>core/pbuf.c\<close>, in the configuration of the project's Makefile and \<^verbatim>\<open>lwipopts.h\<close>
  (\<^verbatim>\<open>EBUF_LWIP\<close>, \<^verbatim>\<open>PBUF_RSV_FOR_WLAN\<close>, no operating system, no custom buffers, assertions off, allocation by the
  SDK's heap). The state holds the structures by address and the bytes of the payloads. The heap of the SDK is a
  parameter; what has been freed is no longer in the store, so that a later access has the result \<open>None\<close>.
\<close>

datatype lwip_call = Mem_free ptr | System_pp_recycle_rx_pkt ptr

record lwip =
  pb :: pbufs
  pram :: mem
  calls :: "lwip_call list"

definition get_pb :: "lwip \<Rightarrow> ptr \<Rightarrow> pbuf option" where
  "get_pb s p = (if p = NULL then None else pb s p)"

definition put_pb :: "ptr \<Rightarrow> pbuf \<Rightarrow> lwip \<Rightarrow> lwip" where
  "put_pb p b s = s\<lparr>pb := (pb s)(p \<mapsto> b)\<rparr>"

definition mem_free :: "ptr \<Rightarrow> lwip \<Rightarrow> lwip" where
  "mem_free p s = s\<lparr>pb := (pb s)(p := None), calls := calls s @ [Mem_free p]\<rparr>"

section \<open>Constants\<close>

datatype pbuf_layer = PBUF_TRANSPORT | PBUF_IP | PBUF_LINK | PBUF_RAW

definition PBUF_RAM :: u8 where "PBUF_RAM = 0"
definition PBUF_ROM :: u8 where "PBUF_ROM = 1"
definition PBUF_REF :: u8 where "PBUF_REF = 2"
definition PBUF_POOL :: u8 where "PBUF_POOL = 3"
definition PBUF_ESF_RX :: u8 where "PBUF_ESF_RX = 4"

definition ERR_OK :: int where "ERR_OK = 0"
definition ERR_VAL :: int where "ERR_VAL = -6"
definition ERR_ARG :: int where "ERR_ARG = -12"

definition LWIP_MEM_ALIGN_SIZE :: "nat \<Rightarrow> nat" where
  "LWIP_MEM_ALIGN_SIZE n = (n + 3) div 4 * 4"

definition LWIP_MEM_ALIGN :: "ptr \<Rightarrow> ptr" where
  "LWIP_MEM_ALIGN a = (a + 3) div 4 * 4"

definition SIZEOF_STRUCT_PBUF :: nat where "SIZEOF_STRUCT_PBUF = 20"
definition EP_OFFSET :: nat where "EP_OFFSET = 36"
definition PBUF_POOL_BUFSIZE_ALIGNED :: nat where
  "PBUF_POOL_BUFSIZE_ALIGNED = LWIP_MEM_ALIGN_SIZE (LWIP_MEM_ALIGN_SIZE (1460 + 40 + (14 + 0)))"

definition MEMP_PBUF :: nat where "MEMP_PBUF = SIZEOF_STRUCT_PBUF"
definition MEMP_PBUF_POOL :: nat where "MEMP_PBUF_POOL = SIZEOF_STRUCT_PBUF + PBUF_POOL_BUFSIZE_ALIGNED"

section \<open>Releasing\<close>

definition dealloc :: "ptr \<Rightarrow> pbuf \<Rightarrow> lwip \<Rightarrow> lwip" where
  "dealloc p b s =
     (if pb_type b = PBUF_POOL then mem_free p s
      else if pb_type b = PBUF_ROM \<or> pb_type b = PBUF_REF \<or> pb_type b = PBUF_ESF_RX
      then mem_free p (s\<lparr>calls := calls s @ [System_pp_recycle_rx_pkt (pb_eb b)]\<rparr>)
      else mem_free p s)"

partial_function (option) free_loop :: "u8 \<Rightarrow> ptr \<Rightarrow> lwip \<Rightarrow> (u8 \<times> lwip) option" where
  "free_loop cnt p s =
     (if p = NULL then Some (cnt, s)
      else do { b \<leftarrow> get_pb s p;
                let b = b\<lparr>pb_ref := pb_ref b - 1\<rparr>;
                let s = put_pb p b s;
                if pb_ref b = 0 then free_loop (cnt + 1) (pb_next b) (dealloc p b s)
                else Some (cnt, s) })"

definition pbuf_free :: "ptr \<Rightarrow> lwip \<Rightarrow> (u8 \<times> lwip) option" where
  "pbuf_free p s = (if p = NULL then Some (0, s) else free_loop 0 p s)"

partial_function (option) clen_loop :: "u8 \<Rightarrow> ptr \<Rightarrow> lwip \<Rightarrow> u8 option" where
  "clen_loop n p s = (if p = NULL then Some n else do { b \<leftarrow> get_pb s p; clen_loop (n + 1) (pb_next b) s })"

definition pbuf_clen :: "ptr \<Rightarrow> lwip \<Rightarrow> u8 option" where
  "pbuf_clen p s = clen_loop 0 p s"

definition pbuf_ref :: "ptr \<Rightarrow> lwip \<Rightarrow> lwip option" where
  "pbuf_ref p s =
     (if p \<noteq> NULL then do { b \<leftarrow> get_pb s p; Some (put_pb p (b\<lparr>pb_ref := pb_ref b + 1\<rparr>) s) } else Some s)"

section \<open>Chains\<close>

partial_function (option) cat_loop :: "ptr \<Rightarrow> ptr \<Rightarrow> lwip \<Rightarrow> lwip option" where
  "cat_loop p t s =
     do { b \<leftarrow> get_pb s p;
          if pb_next b \<noteq> NULL
          then do { c \<leftarrow> get_pb s t;
                    cat_loop (pb_next b) t (put_pb p (b\<lparr>tot_len := tot_len b + tot_len c\<rparr>) s) }
          else do { c \<leftarrow> get_pb s t;
                    Some (put_pb p (b\<lparr>tot_len := tot_len b + tot_len c, pb_next := t\<rparr>) s) } }"

definition pbuf_cat :: "ptr \<Rightarrow> ptr \<Rightarrow> lwip \<Rightarrow> lwip option" where
  "pbuf_cat h t s = (if \<not> (h \<noteq> NULL \<and> t \<noteq> NULL) then Some s else cat_loop h t s)"

definition pbuf_chain :: "ptr \<Rightarrow> ptr \<Rightarrow> lwip \<Rightarrow> lwip option" where
  "pbuf_chain h t s = do { s \<leftarrow> pbuf_cat h t s; pbuf_ref t s }"

definition pbuf_dechain :: "ptr \<Rightarrow> lwip \<Rightarrow> (ptr \<times> lwip) option" where
  "pbuf_dechain p s =
     do { b \<leftarrow> get_pb s p;
          let q = pb_next b;
          if q \<noteq> NULL
          then do { c \<leftarrow> get_pb s q;
                    let s = put_pb q (c\<lparr>tot_len := tot_len b - pb_len b\<rparr>) s;
                    b \<leftarrow> get_pb s p;
                    let s = put_pb p (b\<lparr>pb_next := NULL, tot_len := pb_len b\<rparr>) s;
                    (tail_gone, s) \<leftarrow> pbuf_free q s;
                    Some (if 0 < tail_gone then NULL else q, s) }
          else Some (NULL, s) }"

text \<open>The loop of \<^verbatim>\<open>pbuf_realloc\<close> up to the new last buffer, with its remaining length.\<close>

partial_function (option) realloc_loop :: "ptr \<Rightarrow> u16 \<Rightarrow> int \<Rightarrow> lwip \<Rightarrow> (ptr \<times> u16 \<times> lwip) option" where
  "realloc_loop q rem_len grow s =
     do { b \<leftarrow> get_pb s q;
          if pb_len b < rem_len
          then realloc_loop (pb_next b) (rem_len - pb_len b) grow
                 (put_pb q (b\<lparr>tot_len := tot_len b + word_of_int grow\<rparr>) s)
          else Some (q, rem_len, s) }"

definition pbuf_realloc :: "ptr \<Rightarrow> u16 \<Rightarrow> lwip \<Rightarrow> lwip option" where
  "pbuf_realloc p new_len s =
     do { b \<leftarrow> get_pb s p;
          if tot_len b \<le> new_len then Some s
          else do {
            let grow = uint new_len - uint (tot_len b);
            (q, rem_len, s) \<leftarrow> realloc_loop p new_len grow s;
            b \<leftarrow> get_pb s q;
            let s = put_pb q (b\<lparr>pb_len := rem_len, tot_len := rem_len\<rparr>) s;
            s \<leftarrow> (if pb_next b \<noteq> NULL then map_option snd (pbuf_free (pb_next b) s) else Some s);
            b \<leftarrow> get_pb s q;
            Some (put_pb q (b\<lparr>pb_next := NULL\<rparr>) s) } }"

section \<open>Headers\<close>

text \<open>The payload pointer moved by \<open>d\<close>; \<open>None\<close> when it would leave the address space.\<close>

definition move_ptr :: "ptr \<Rightarrow> int \<Rightarrow> ptr option" where
  "move_ptr a d = (if 0 \<le> int a + d then Some (nat (int a + d)) else None)"

definition header_lengths :: "ptr \<Rightarrow> pbuf \<Rightarrow> int \<Rightarrow> lwip \<Rightarrow> lwip" where
  "header_lengths p b inc s =
     put_pb p (b\<lparr>pb_len := pb_len b + word_of_int inc, tot_len := tot_len b + word_of_int inc\<rparr>) s"

definition pbuf_header :: "ptr \<Rightarrow> int \<Rightarrow> lwip \<Rightarrow> (u8 \<times> lwip) option" where
  "pbuf_header p inc s =
     (if inc = 0 \<or> p = NULL then Some (0, s)
      else do {
        b \<leftarrow> get_pb s p;
        let increment_magnitude = (word_of_int \<bar>inc\<bar> :: u16);
        if inc < 0 \<and> \<not> increment_magnitude \<le> pb_len b then Some (1, s)
        else if pb_type b = PBUF_RAM \<or> pb_type b = PBUF_POOL
        then if int (payload b) - inc < int (p + SIZEOF_STRUCT_PBUF + EP_OFFSET) then Some (1, s)
             else do { a \<leftarrow> move_ptr (payload b) (- inc); Some (0, header_lengths p (b\<lparr>payload := a\<rparr>) inc s) }
        else if pb_type b = PBUF_REF \<or> pb_type b = PBUF_ROM
        then if inc < 0 \<and> increment_magnitude \<le> pb_len b \<or> pb_type b = PBUF_REF
             then do { a \<leftarrow> move_ptr (payload b) (- inc); Some (0, header_lengths p (b\<lparr>payload := a\<rparr>) inc s) }
             else Some (1, s)
        else Some (1, s) })"

section \<open>Allocation\<close>

definition layer_offset :: "pbuf_layer \<Rightarrow> nat" where
  "layer_offset layer =
     (case layer of PBUF_TRANSPORT \<Rightarrow> 20 + 20 + 14 + EP_OFFSET | PBUF_IP \<Rightarrow> 20 + 14 + EP_OFFSET
      | PBUF_LINK \<Rightarrow> 14 + EP_OFFSET | PBUF_RAW \<Rightarrow> EP_OFFSET)"

type_synonym malloc = "nat \<Rightarrow> lwip \<Rightarrow> ptr \<times> lwip"

text \<open>The tail of a chain from the pool: \<open>r\<close> is the last buffer so far. The result \<open>False\<close> is the failed allocation.\<close>

partial_function (option) pool_loop :: "malloc \<Rightarrow> ptr \<Rightarrow> int \<Rightarrow> u8 \<Rightarrow> lwip \<Rightarrow> (bool \<times> lwip) option" where
  "pool_loop mem_malloc r rem_len ty s =
     (if 0 < rem_len
      then let (q, s) = mem_malloc MEMP_PBUF_POOL s
           in if q = NULL then Some (False, s)
              else do {
                b \<leftarrow> get_pb s q;
                let s = put_pb q (b\<lparr>pb_type := ty, pb_flags := 0, pb_next := NULL\<rparr>) s;
                c \<leftarrow> get_pb s r;
                let s = put_pb r (c\<lparr>pb_next := q\<rparr>) s;
                b \<leftarrow> get_pb s q;
                let n = min (word_of_int rem_len) (of_nat PBUF_POOL_BUFSIZE_ALIGNED);
                let s = put_pb q (b\<lparr>tot_len := word_of_int rem_len, pb_len := n, payload := q + SIZEOF_STRUCT_PBUF, pb_ref := 1\<rparr>) s;
                pool_loop mem_malloc q (rem_len - uint n) ty s }
      else Some (True, s))"

definition pbuf_alloc_pool :: "malloc \<Rightarrow> nat \<Rightarrow> u16 \<Rightarrow> u8 \<Rightarrow> lwip \<Rightarrow> (ptr \<times> lwip) option" where
  "pbuf_alloc_pool mem_malloc offset n ty s =
     (let (p, s) = mem_malloc MEMP_PBUF_POOL s
      in if p = NULL then Some (NULL, s)
         else do {
           b \<leftarrow> get_pb s p;
           let k = min (int (unat n)) (int (PBUF_POOL_BUFSIZE_ALIGNED - LWIP_MEM_ALIGN_SIZE offset));
           let s = put_pb p (b\<lparr>pb_type := ty, pb_next := NULL, payload := LWIP_MEM_ALIGN (p + (SIZEOF_STRUCT_PBUF + offset)),
                     tot_len := n, pb_len := word_of_int k, pb_ref := 1\<rparr>) s;
           (ok, s) \<leftarrow> pool_loop mem_malloc p (uint n - k) ty s;
           if ok then Some (p, s) else do { (_, s) \<leftarrow> pbuf_free p s; Some (NULL, s) } })"

definition pbuf_alloc_ram :: "malloc \<Rightarrow> nat \<Rightarrow> u16 \<Rightarrow> u8 \<Rightarrow> lwip \<Rightarrow> (ptr \<times> lwip) option" where
  "pbuf_alloc_ram mem_malloc offset n ty s =
     (let (p, s) = mem_malloc (LWIP_MEM_ALIGN_SIZE (SIZEOF_STRUCT_PBUF + offset) + LWIP_MEM_ALIGN_SIZE (unat n)) s
      in if p = NULL then Some (NULL, s)
         else do { b \<leftarrow> get_pb s p;
                   Some (p, put_pb p (b\<lparr>payload := LWIP_MEM_ALIGN (p + SIZEOF_STRUCT_PBUF + offset), tot_len := n, pb_len := n,
                              pb_next := NULL, pb_type := ty, pb_eb := NULL\<rparr>) s) })"

definition pbuf_alloc_ref :: "malloc \<Rightarrow> u16 \<Rightarrow> u8 \<Rightarrow> lwip \<Rightarrow> (ptr \<times> lwip) option" where
  "pbuf_alloc_ref mem_malloc n ty s =
     (let (p, s) = mem_malloc MEMP_PBUF s
      in if p = NULL then Some (NULL, s)
         else do { b \<leftarrow> get_pb s p;
                   Some (p, put_pb p (b\<lparr>payload := NULL, tot_len := n, pb_len := n, pb_next := NULL, pb_type := ty\<rparr>) s) })"

definition pbuf_alloc :: "malloc \<Rightarrow> pbuf_layer \<Rightarrow> u16 \<Rightarrow> u8 \<Rightarrow> lwip \<Rightarrow> (ptr \<times> lwip) option" where
  "pbuf_alloc mem_malloc layer n ty s =
     do { (p, s) \<leftarrow>
            (if ty = PBUF_POOL then pbuf_alloc_pool mem_malloc (layer_offset layer) n ty s
             else if ty = PBUF_RAM then pbuf_alloc_ram mem_malloc (layer_offset layer) n ty s
             else if ty = PBUF_ESF_RX \<or> ty = PBUF_ROM \<or> ty = PBUF_REF then pbuf_alloc_ref mem_malloc n ty s
             else Some (NULL, s));
          if p = NULL then Some (NULL, s)
          else do { b \<leftarrow> get_pb s p; Some (p, put_pb p (b\<lparr>pb_ref := 1, pb_flags := 0\<rparr>) s) } }"

section \<open>Copying\<close>

definition MEMCPY :: "ptr \<Rightarrow> ptr \<Rightarrow> u16 \<Rightarrow> lwip \<Rightarrow> lwip option" where
  "MEMCPY d a n s = map_option (\<lambda>m. s\<lparr>pram := m\<rparr>) (memcpy d a (unat n) (pram s))"

text \<open>What \<^verbatim>\<open>pbuf_copy\<close> tests after each part: a buffer that ends its packet has no successor.\<close>

definition queue_follows :: "ptr \<Rightarrow> lwip \<Rightarrow> bool option" where
  "queue_follows p s =
     (if p = NULL then Some False
      else do { b \<leftarrow> get_pb s p; Some (pb_len b = tot_len b \<and> pb_next b \<noteq> NULL) })"

partial_function (option) copy_loop :: "ptr \<Rightarrow> u16 \<Rightarrow> ptr \<Rightarrow> u16 \<Rightarrow> lwip \<Rightarrow> (int \<times> lwip) option" where
  "copy_loop p_to offset_to p_from offset_from s =
     do { t \<leftarrow> get_pb s p_to;
          f \<leftarrow> get_pb s p_from;
          let n = (if uint (pb_len f) - uint offset_from \<le> uint (pb_len t) - uint offset_to
                   then pb_len f - offset_from else pb_len t - offset_to);
          s \<leftarrow> MEMCPY (payload t + unat offset_to) (payload f + unat offset_from) n s;
          let offset_to = offset_to + n;
          let offset_from = offset_from + n;
          let (offset_to, p_to) = (if offset_to = pb_len t then (0, pb_next t) else (offset_to, p_to));
          let (offset_from, p_from) = (if pb_len f \<le> offset_from then (0, pb_next f) else (offset_from, p_from));
          qf \<leftarrow> queue_follows p_from s;
          if qf then Some (ERR_VAL, s)
          else do {
            qt \<leftarrow> queue_follows p_to s;
            if qt then Some (ERR_VAL, s)
            else if p_from \<noteq> NULL then copy_loop p_to offset_to p_from offset_from s
            else Some (ERR_OK, s) } }"

definition pbuf_copy :: "ptr \<Rightarrow> ptr \<Rightarrow> lwip \<Rightarrow> (int \<times> lwip) option" where
  "pbuf_copy p_to p_from s =
     (if p_to = NULL \<or> p_from = NULL then Some (ERR_ARG, s)
      else do { t \<leftarrow> get_pb s p_to; f \<leftarrow> get_pb s p_from;
                if \<not> tot_len f \<le> tot_len t then Some (ERR_ARG, s) else copy_loop p_to 0 p_from 0 s })"

partial_function (option) partial_loop ::
  "ptr \<Rightarrow> ptr \<Rightarrow> u16 \<Rightarrow> u16 \<Rightarrow> u16 \<Rightarrow> u16 \<Rightarrow> lwip \<Rightarrow> (u16 \<times> lwip) option" where
  "partial_loop p dataptr left n offset copied_total s =
     (if n \<noteq> 0 \<and> p \<noteq> NULL
      then do { b \<leftarrow> get_pb s p;
                if offset \<noteq> 0 \<and> pb_len b \<le> offset
                then partial_loop (pb_next b) dataptr left n (offset - pb_len b) copied_total s
                else do {
                  let buf_copy_len = pb_len b - offset;
                  let buf_copy_len = (if n < buf_copy_len then n else buf_copy_len);
                  s \<leftarrow> MEMCPY (dataptr + unat left) (payload b + unat offset) buf_copy_len s;
                  partial_loop (pb_next b) dataptr (left + buf_copy_len) (n - buf_copy_len) 0 (copied_total + buf_copy_len) s } }
      else Some (copied_total, s))"

definition pbuf_copy_partial :: "ptr \<Rightarrow> ptr \<Rightarrow> u16 \<Rightarrow> u16 \<Rightarrow> lwip \<Rightarrow> (u16 \<times> lwip) option" where
  "pbuf_copy_partial buf dataptr n offset s =
     (if buf = NULL \<or> dataptr = NULL then Some (0, s) else partial_loop buf dataptr 0 n offset 0 s)"

partial_function (option) take_loop :: "ptr \<Rightarrow> ptr \<Rightarrow> u16 \<Rightarrow> u16 \<Rightarrow> lwip \<Rightarrow> lwip option" where
  "take_loop p dataptr total_copy_len copied_total s =
     (if total_copy_len \<noteq> 0
      then do { b \<leftarrow> get_pb s p;
                let buf_copy_len = (if pb_len b < total_copy_len then pb_len b else total_copy_len);
                s \<leftarrow> MEMCPY (payload b) (dataptr + unat copied_total) buf_copy_len s;
                take_loop (pb_next b) dataptr (total_copy_len - buf_copy_len) (copied_total + buf_copy_len) s }
      else Some s)"

definition pbuf_take :: "ptr \<Rightarrow> ptr \<Rightarrow> u16 \<Rightarrow> lwip \<Rightarrow> (int \<times> lwip) option" where
  "pbuf_take buf dataptr n s =
     (if buf = NULL then Some (0, s)
      else if dataptr = NULL then Some (0, s)
      else do { b \<leftarrow> get_pb s buf;
                if tot_len b < n then Some (ERR_ARG, s)
                else do { s \<leftarrow> take_loop buf dataptr n 0 s; Some (ERR_OK, s) } })"

definition pbuf_coalesce :: "malloc \<Rightarrow> ptr \<Rightarrow> pbuf_layer \<Rightarrow> lwip \<Rightarrow> (ptr \<times> lwip) option" where
  "pbuf_coalesce mem_malloc p layer s =
     do { b \<leftarrow> get_pb s p;
          if pb_next b = NULL then Some (p, s)
          else do { (q, s) \<leftarrow> pbuf_alloc mem_malloc layer (tot_len b) PBUF_RAM s;
                    if q = NULL then Some (p, s)
                    else do { (err, s) \<leftarrow> pbuf_copy q p s; (_, s) \<leftarrow> pbuf_free p s; Some (q, s) } } }"

section \<open>Looking into a chain\<close>

text \<open>The buffer that holds the position, with the position in it.\<close>

partial_function (option) locate :: "ptr \<Rightarrow> u16 \<Rightarrow> lwip \<Rightarrow> (ptr \<times> u16) option" where
  "locate q copy_from s =
     (if q = NULL then Some (q, copy_from)
      else do { b \<leftarrow> get_pb s q;
                if pb_len b \<le> copy_from then locate (pb_next b) (copy_from - pb_len b) s
                else Some (q, copy_from) })"

definition pbuf_get_at :: "ptr \<Rightarrow> u16 \<Rightarrow> lwip \<Rightarrow> u8 option" where
  "pbuf_get_at p offset s =
     do { (q, copy_from) \<leftarrow> locate p offset s;
          if q = NULL then Some 0
          else do { b \<leftarrow> get_pb s q;
                    if copy_from < pb_len b then pram s (payload b + unat copy_from) else Some 0 } }"

text \<open>The loop of \<^verbatim>\<open>pbuf_memcmp\<close>; \<open>n - i\<close> rounds are left.\<close>

fun memcmp_loop :: "ptr \<Rightarrow> u16 \<Rightarrow> ptr \<Rightarrow> nat \<Rightarrow> u16 \<Rightarrow> lwip \<Rightarrow> u16 option" where
  "memcmp_loop q start s2 0 i s = Some 0"
| "memcmp_loop q start s2 (Suc k) i s =
     do { a \<leftarrow> pbuf_get_at q (start + i) s;
          b \<leftarrow> pram s (s2 + unat i);
          if a \<noteq> b then Some (i + 1) else memcmp_loop q start s2 k (i + 1) s }"

definition pbuf_memcmp :: "ptr \<Rightarrow> u16 \<Rightarrow> ptr \<Rightarrow> u16 \<Rightarrow> lwip \<Rightarrow> u16 option" where
  "pbuf_memcmp p offset s2 n s =
     do { (q, start) \<leftarrow> locate p offset s;
          if q = NULL then Some 0xffff
          else do { b \<leftarrow> get_pb s q;
                    if start < pb_len b then memcmp_loop q start s2 (unat n) 0 s else Some 0xffff } }"

partial_function (option) memfind_loop :: "ptr \<Rightarrow> ptr \<Rightarrow> u16 \<Rightarrow> u16 \<Rightarrow> u16 \<Rightarrow> lwip \<Rightarrow> u16 option" where
  "memfind_loop p sub mem_len mx i s =
     (if i \<le> mx
      then do { plus \<leftarrow> pbuf_memcmp p i sub mem_len s;
                if plus = 0 then Some i else memfind_loop p sub mem_len mx (i + plus) s }
      else Some 0xFFFF)"

definition pbuf_memfind :: "ptr \<Rightarrow> ptr \<Rightarrow> u16 \<Rightarrow> u16 \<Rightarrow> lwip \<Rightarrow> u16 option" where
  "pbuf_memfind p sub mem_len start_offset s =
     do { b \<leftarrow> get_pb s p;
          let mx = tot_len b - mem_len;
          if unat mem_len + unat start_offset \<le> unat (tot_len b) then memfind_loop p sub mem_len mx start_offset s
          else Some 0xFFFF }"

definition pbuf_strstr :: "ptr \<Rightarrow> ptr \<Rightarrow> lwip \<Rightarrow> u16 option" where
  "pbuf_strstr p substr s =
     (if substr = NULL then Some 0xFFFF
      else do { c \<leftarrow> pram s substr;
                if c = 0 then Some 0xFFFF
                else do { b \<leftarrow> get_pb s p;
                          if tot_len b = 0xFFFF then Some 0xFFFF
                          else do { substr_len \<leftarrow> strlen substr (pram s);
                                    if 0xFFFF \<le> substr_len then Some 0xFFFF
                                    else pbuf_memfind p substr (of_nat substr_len) 0 s } } })"

end
