(* ===== verification/Lwip_Udp.thy ===== *)
theory Lwip_Udp
  imports Lwip_Chksum Lwip_Addr Lwip_Pbuf
begin

text \<open>
  UDP, \<^verbatim>\<open>core/udp.c\<close>, in the configuration of \<^verbatim>\<open>lwipopts.h\<close> (DHCP, IGMP, ICMP and checksums; no UDP-Lite, no address reuse).
  The control blocks are kept by address, the list \<^verbatim>\<open>udp_pcbs\<close> as the list of the addresses that \<^verbatim>\<open>next\<close> links.
  The receive callbacks, ICMP, the route and the output of IP and the heap are parameters. The headers are packed
  structures, so their fields are read and written byte by byte.
\<close>

section \<open>State\<close>

record udp_pcb =
  u_local_ip :: u32
  u_remote_ip :: u32
  u_so_options :: u8
  u_tos :: u8
  u_ttl :: u8
  u_flags :: u8
  u_local_port :: u16
  u_remote_port :: u16
  u_multicast_ip :: u32
  u_recv :: ptr
  u_recv_arg :: ptr

text \<open>The interface: \<open>if_dhcp_pcb\<close> is \<^verbatim>\<open>inp->dhcp->pcb\<close>, null when there is no DHCP client.\<close>

record inif =
  if_net :: netif
  if_dhcp_pcb :: ptr
  if_dhcps_pcb :: ptr

text \<open>The entries of the ARP table. The nodes of a queue belong to one entry, so a queue is the list of the packets they hold.\<close>

datatype etharp_state = ETHARP_STATE_EMPTY | ETHARP_STATE_PENDING | ETHARP_STATE_STABLE | ETHARP_STATE_STABLE_REREQUESTING

record etharp_entry =
  arp_q :: "ptr list"
  arp_ipaddr :: u32
  arp_ethaddr :: "u8 list"
  arp_netif :: ptr
  arp_state :: etharp_state
  arp_ctime :: u8

text \<open>The globals of the stack: the buffers, the control blocks of UDP, the interfaces, what IP keeps of the packet it
  works on, and the ARP table.\<close>

record stack =
  lw :: lwip
  udp_pcbs :: "ptr list"
  upcb :: "ptr \<rightharpoonup> udp_pcb"
  current_iphdr_src :: u32
  current_iphdr_dest :: u32
  current_netif :: ptr
  current_header :: ptr
  ip_id :: u16
  nifs :: "ptr \<rightharpoonup> netif"
  netif_list :: "ptr list"
  netif_default :: ptr
  arp_table :: "etharp_entry list"
  etharp_cached_entry :: u8

datatype udp_up =
    Recv_cb ptr ptr ptr ptr u32 u16
  | Icmp_dest_unreach ptr

record udp_env =
  e_malloc :: malloc
  e_up :: "udp_up \<Rightarrow> stack \<Rightarrow> stack option"
  e_route :: "u32 \<Rightarrow> stack \<Rightarrow> netif option"
  e_out :: "ptr \<Rightarrow> u32 \<Rightarrow> u32 \<Rightarrow> u8 \<Rightarrow> u8 \<Rightarrow> u8 \<Rightarrow> netif \<Rightarrow> stack \<Rightarrow> (int \<times> stack) option"
  e_memp :: "stack \<Rightarrow> ptr \<times> stack"

definition UDP_HLEN :: nat where "UDP_HLEN = 8"
definition UDP_FLAGS_NOCHKSUM :: u8 where "UDP_FLAGS_NOCHKSUM = 0x01"
definition UDP_FLAGS_CONNECTED :: u8 where "UDP_FLAGS_CONNECTED = 0x04"
definition UDP_FLAGS_MULTICAST_LOOP :: u8 where "UDP_FLAGS_MULTICAST_LOOP = 0x08"
definition PBUF_FLAG_MCASTLOOP :: u8 where "PBUF_FLAG_MCASTLOOP = 0x04"
definition IP_PROTO_UDP :: u8 where "IP_PROTO_UDP = 17"
definition DHCP_CLIENT_PORT :: u16 where "DHCP_CLIENT_PORT = 68"
definition DHCP_SERVER_PORT :: u16 where "DHCP_SERVER_PORT = 67"
definition UDP_TTL :: u8 where "UDP_TTL = 128"
definition UDP_LOCAL_PORT_RANGE_START :: u16 where "UDP_LOCAL_PORT_RANGE_START = 4096"
definition UDP_LOCAL_PORT_RANGE_END :: u16 where "UDP_LOCAL_PORT_RANGE_END = 0x7fff"
definition ERR_MEM :: int where "ERR_MEM = -1"
definition ERR_RTE :: int where "ERR_RTE = -4"
definition ERR_USE :: int where "ERR_USE = -13"

definition ip_addr_isany :: "u32 \<Rightarrow> bool" where
  "ip_addr_isany a \<longleftrightarrow> a = IPADDR_ANY"

definition ip_addr_ismulticast :: "u32 \<Rightarrow> bool" where
  "ip_addr_ismulticast a \<longleftrightarrow> a AND LWIP_PLATFORM_HTONL 0xf0000000 = LWIP_PLATFORM_HTONL 0xe0000000"

text \<open>A 16-bit field of a packed structure.\<close>

definition ld16 :: "mem \<Rightarrow> ptr \<Rightarrow> u16 option" where
  "ld16 m a = do { l \<leftarrow> m a; h \<leftarrow> m (a + 1); Some (push_bit 8 (ucast h) OR ucast l) }"

definition st16 :: "ptr \<Rightarrow> u16 \<Rightarrow> mem \<Rightarrow> mem option" where
  "st16 a v m = do { m \<leftarrow> poke a (ucast v) m; poke (a + 1) (ucast (drop_bit 8 v)) m }"

definition IPH_HL :: "u16 \<Rightarrow> nat" where
  "IPH_HL v_hl_tos = unat (drop_bit 8 (htons v_hl_tos) AND 0x0f)"

definition put_field :: "ptr \<Rightarrow> u16 \<Rightarrow> lwip \<Rightarrow> lwip option" where
  "put_field a v l = map_option (\<lambda>m. l\<lparr>pram := m\<rparr>) (st16 a v (pram l))"

definition drop_pbuf :: "ptr \<Rightarrow> stack \<Rightarrow> stack option" where
  "drop_pbuf p s = map_option (\<lambda>(_, l). s\<lparr>lw := l\<rparr>) (pbuf_free p (lw s))"

section \<open>Receiving\<close>

definition local_match :: "u16 \<Rightarrow> bool \<Rightarrow> u32 \<Rightarrow> udp_pcb \<Rightarrow> bool" where
  "local_match dest broadcast iphdr_dest c \<longleftrightarrow>
     u_local_port c = dest \<and>
     (\<not> broadcast \<and> ip_addr_isany (u_local_ip c) \<or> u_local_ip c = iphdr_dest \<or> ip_addr_ismulticast iphdr_dest \<or> broadcast)"

definition remote_match :: "u16 \<Rightarrow> u32 \<Rightarrow> udp_pcb \<Rightarrow> bool" where
  "remote_match src iphdr_src c \<longleftrightarrow>
     u_remote_port c = src \<and> (ip_addr_isany (u_remote_ip c) \<or> u_remote_ip c = iphdr_src)"

text \<open>The loop over the control blocks: the first full match and the first unconnected local match.\<close>

fun find_pcb :: "(ptr \<rightharpoonup> udp_pcb) \<Rightarrow> (udp_pcb \<Rightarrow> bool) \<Rightarrow> (udp_pcb \<Rightarrow> bool) \<Rightarrow> ptr list \<Rightarrow> ptr \<Rightarrow> (ptr \<times> ptr) option" where
  "find_pcb st lm rm [] uncon_pcb = Some (NULL, uncon_pcb)"
| "find_pcb st lm rm (pcb # pcbs) uncon_pcb =
     do { c \<leftarrow> st pcb;
          let uncon_pcb = (if lm c \<and> uncon_pcb = NULL \<and> u_flags c AND UDP_FLAGS_CONNECTED = 0 then pcb else uncon_pcb);
          if lm c \<and> rm c then Some (pcb, uncon_pcb) else find_pcb st lm rm pcbs uncon_pcb }"

definition demux :: "u16 \<Rightarrow> u16 \<Rightarrow> bool \<Rightarrow> inif \<Rightarrow> stack \<Rightarrow> (ptr \<times> stack) option" where
  "demux src dest broadcast inp s =
     (if dest = DHCP_CLIENT_PORT
      then if src = DHCP_SERVER_PORT \<and> if_dhcp_pcb inp \<noteq> NULL
           then do { c \<leftarrow> upcb s (if_dhcp_pcb inp);
                     Some (if ip_addr_isany (u_remote_ip c) \<or> u_remote_ip c = current_iphdr_src s then if_dhcp_pcb inp else NULL, s) }
           else Some (NULL, s)
      else if dest = DHCP_SERVER_PORT
      then if src = DHCP_CLIENT_PORT \<and> if_dhcps_pcb inp \<noteq> NULL
           then do { c \<leftarrow> upcb s (if_dhcps_pcb inp);
                     Some (if ip_addr_isany (u_local_ip c) \<or> u_local_ip c = current_iphdr_dest s then if_dhcps_pcb inp else NULL, s) }
           else Some (NULL, s)
      else do {
        (pcb, uncon_pcb) \<leftarrow> find_pcb (upcb s) (local_match dest broadcast (current_iphdr_dest s))
                              (remote_match src (current_iphdr_src s)) (udp_pcbs s) NULL;
        Some (if pcb = NULL then (uncon_pcb, s)
              else (pcb, if hd (udp_pcbs s) = pcb then s else s\<lparr>udp_pcbs := pcb # remove1 pcb (udp_pcbs s)\<rparr>)) })"

text \<open>The checksum of a datagram that has one.\<close>

definition udp_check :: "ptr \<Rightarrow> pbuf \<Rightarrow> stack \<Rightarrow> bool option" where
  "udp_check p b s =
     do { chksum \<leftarrow> ld16 (pram (lw s)) (payload b + 6);
          if chksum \<noteq> 0
          then do { c \<leftarrow> inet_chksum_pseudo (pb (lw s)) p (current_iphdr_src s) (current_iphdr_dest s) IP_PROTO_UDP (tot_len b)
                           (pram (lw s));
                    Some (c = 0) }
          else Some True }"

text \<open>The part behind the checksum: the payload is passed to the control block, or refused.\<close>

definition udp_deliver :: "udp_env \<Rightarrow> ptr \<Rightarrow> ptr \<Rightarrow> nat \<Rightarrow> u16 \<Rightarrow> bool \<Rightarrow> stack \<Rightarrow> stack option" where
  "udp_deliver e pcb p hl src broadcast s =
     do { (r, l) \<leftarrow> pbuf_header p (- int UDP_HLEN) (lw s);
          let s = s\<lparr>lw := l\<rparr>;
          if r \<noteq> 0 then drop_pbuf p s
          else if pcb \<noteq> NULL
          then do { c \<leftarrow> upcb s pcb;
                    if u_recv c \<noteq> NULL
                    then e_up e (Recv_cb (u_recv c) (u_recv_arg c) pcb p (current_iphdr_src s) src) s
                    else drop_pbuf p s }
          else do {
            s \<leftarrow> (if \<not> broadcast \<and> \<not> ip_addr_ismulticast (current_iphdr_dest s)
                  then do { (_, l) \<leftarrow> pbuf_header p (int (hl * 4 + UDP_HLEN)) (lw s);
                            e_up e (Icmp_dest_unreach p) (s\<lparr>lw := l\<rparr>) }
                  else Some s);
            drop_pbuf p s } }"

definition udp_input :: "udp_env \<Rightarrow> ptr \<Rightarrow> inif \<Rightarrow> stack \<Rightarrow> stack option" where
  "udp_input e p inp s =
     do { b \<leftarrow> get_pb (lw s) p;
          w \<leftarrow> ld16 (pram (lw s)) (payload b);
          let hl = IPH_HL w;
          if unat (tot_len b) < hl * 4 + UDP_HLEN then drop_pbuf p s
          else do {
            (r, l) \<leftarrow> pbuf_header p (- int (hl * 4)) (lw s);
            let s = s\<lparr>lw := l\<rparr>;
            if r \<noteq> 0 then drop_pbuf p s
            else do {
              b \<leftarrow> get_pb (lw s) p;
              let broadcast = (ip4_addr_isbroadcast (current_iphdr_dest s) (if_net inp) \<noteq> 0);
              src \<leftarrow> ld16 (pram (lw s)) (payload b);
              dest \<leftarrow> ld16 (pram (lw s)) (payload b + 2);
              let src = htons src;
              (pcb, s) \<leftarrow> demux src (htons dest) broadcast inp s;
              if pcb \<noteq> NULL \<or> netif_ip_addr (if_net inp) = current_iphdr_dest s
              then do { ok \<leftarrow> udp_check p b s;
                        if ok then udp_deliver e pcb p hl src broadcast s else drop_pbuf p s }
              else drop_pbuf p s } } }"

section \<open>Binding\<close>

text \<open>The search for another control block with the port; the result is whether the block itself is in the list.\<close>

fun bind_loop :: "(ptr \<rightharpoonup> udp_pcb) \<Rightarrow> ptr \<Rightarrow> u32 \<Rightarrow> u16 \<Rightarrow> ptr list \<Rightarrow> bool \<Rightarrow> (int \<times> bool) option" where
  "bind_loop st pcb ipaddr port [] rebind = Some (ERR_OK, rebind)"
| "bind_loop st pcb ipaddr port (ipcb # ipcbs) rebind =
     (if pcb = ipcb then bind_loop st pcb ipaddr port ipcbs True
      else do { c \<leftarrow> st ipcb;
                if u_local_port c = port \<and> (ip_addr_isany (u_local_ip c) \<or> ip_addr_isany ipaddr \<or> u_local_ip c = ipaddr)
                then Some (ERR_USE, rebind)
                else bind_loop st pcb ipaddr port ipcbs rebind })"

lemma distance_step: "x \<noteq> y \<Longrightarrow> unat (y - (x + 1)) < unat (y - x)" for x y :: u16
proof -
  assume "x \<noteq> y"
  then have "y - x \<noteq> 0" by simp
  then have "unat (y - x - 1) = unat (y - x) - 1" "0 < unat (y - x)"
    by (simp_all add: unat_minus_one unat_gt_0)
  then show ?thesis by (simp add: diff_diff_add)
qed

text \<open>The search for a free port: \<open>ipcbs\<close> are the blocks still to be compared with the port.\<close>

function port_loop :: "(ptr \<rightharpoonup> udp_pcb) \<Rightarrow> ptr list \<Rightarrow> ptr list \<Rightarrow> u16 \<Rightarrow> (ptr list \<times> u16) option" where
  "port_loop st all ipcbs port =
     (case ipcbs of [] \<Rightarrow> Some ([], port)
      | ipcb # rest \<Rightarrow>
          if port \<noteq> UDP_LOCAL_PORT_RANGE_END
          then case st ipcb of None \<Rightarrow> None
               | Some c \<Rightarrow> if u_local_port c = port then port_loop st all all (port + 1) else port_loop st all rest port
          else Some (ipcbs, port))"
  by pat_completeness auto

termination
  by (relation "measures [\<lambda>(_, _, _, port). unat (UDP_LOCAL_PORT_RANGE_END - port), \<lambda>(_, _, ipcbs, _). length ipcbs]")
    (auto dest: distance_step)

declare port_loop.simps [simp del]

definition put_upcb :: "ptr \<Rightarrow> udp_pcb \<Rightarrow> stack \<Rightarrow> stack" where
  "put_upcb p c s = s\<lparr>upcb := (upcb s)(p \<mapsto> c)\<rparr>"

definition udp_bind :: "ptr \<Rightarrow> u32 \<Rightarrow> u16 \<Rightarrow> stack \<Rightarrow> (int \<times> stack) option" where
  "udp_bind pcb ipaddr port s =
     do { (err, rebind) \<leftarrow> bind_loop (upcb s) pcb ipaddr port (udp_pcbs s) False;
          if err \<noteq> ERR_OK then Some (err, s)
          else do {
            c \<leftarrow> upcb s pcb;
            let c = c\<lparr>u_local_ip := ipaddr\<rparr>;
            let s = put_upcb pcb c s;
            (left, port) \<leftarrow> (if port = 0 then port_loop (upcb s) (udp_pcbs s) (udp_pcbs s) UDP_LOCAL_PORT_RANGE_START else Some ([], port));
            if left \<noteq> [] then Some (ERR_USE, s)
            else let s = put_upcb pcb (c\<lparr>u_local_port := port\<rparr>) s
                 in Some (ERR_OK, if rebind then s else s\<lparr>udp_pcbs := pcb # udp_pcbs s\<rparr>) } }"

definition udp_connect :: "ptr \<Rightarrow> u32 \<Rightarrow> u16 \<Rightarrow> stack \<Rightarrow> (int \<times> stack) option" where
  "udp_connect pcb ipaddr port s =
     do { c \<leftarrow> upcb s pcb;
          (err, s) \<leftarrow> (if u_local_port c = 0 then udp_bind pcb (u_local_ip c) (u_local_port c) s else Some (ERR_OK, s));
          if err \<noteq> ERR_OK then Some (err, s)
          else do {
            c \<leftarrow> upcb s pcb;
            let s = put_upcb pcb (c\<lparr>u_remote_ip := ipaddr, u_remote_port := port, u_flags := u_flags c OR UDP_FLAGS_CONNECTED\<rparr>) s;
            Some (ERR_OK, if pcb \<in> set (udp_pcbs s) then s else s\<lparr>udp_pcbs := pcb # udp_pcbs s\<rparr>) } }"

definition udp_disconnect :: "ptr \<Rightarrow> stack \<Rightarrow> stack option" where
  "udp_disconnect pcb s =
     do { c \<leftarrow> upcb s pcb;
          Some (put_upcb pcb (c\<lparr>u_remote_ip := IPADDR_ANY, u_remote_port := 0, u_flags := u_flags c AND NOT UDP_FLAGS_CONNECTED\<rparr>) s) }"

definition udp_recv :: "ptr \<Rightarrow> ptr \<Rightarrow> ptr \<Rightarrow> stack \<Rightarrow> stack option" where
  "udp_recv pcb recv recv_arg s =
     do { c \<leftarrow> upcb s pcb; Some (put_upcb pcb (c\<lparr>u_recv := recv, u_recv_arg := recv_arg\<rparr>) s) }"

text \<open>The loop of \<^verbatim>\<open>udp_remove\<close> behind the first element.\<close>

fun unlink :: "ptr \<Rightarrow> ptr list \<Rightarrow> ptr list" where
  "unlink pcb (a # b # as) = (if b = pcb then a # unlink pcb as else a # unlink pcb (b # as))"
| "unlink pcb as = as"

definition udp_remove :: "ptr \<Rightarrow> stack \<Rightarrow> stack" where
  "udp_remove pcb s =
     (let s = s\<lparr>udp_pcbs := if udp_pcbs s \<noteq> [] \<and> hd (udp_pcbs s) = pcb then tl (udp_pcbs s) else unlink pcb (udp_pcbs s)\<rparr>
      in s\<lparr>upcb := (upcb s)(pcb := None)\<rparr>)"

definition new_pcb :: udp_pcb where
  "new_pcb = \<lparr>u_local_ip = 0, u_remote_ip = 0, u_so_options = 0, u_tos = 0, u_ttl = UDP_TTL, u_flags = 0, u_local_port = 0,
     u_remote_port = 0, u_multicast_ip = 0, u_recv = NULL, u_recv_arg = NULL\<rparr>"

definition udp_new :: "udp_env \<Rightarrow> stack \<Rightarrow> ptr \<times> stack" where
  "udp_new e s =
     (let (pcb, s) = e_memp e s in if pcb \<noteq> NULL then (pcb, put_upcb pcb new_pcb s) else (pcb, s))"

section \<open>Sending\<close>

text \<open>Room for the header: in front of the data, or in a buffer of its own that is chained before it;
  \<open>None\<close> stands for a failed allocation.\<close>

definition udp_header_pbuf :: "udp_env \<Rightarrow> ptr \<Rightarrow> lwip \<Rightarrow> (ptr option \<times> lwip) option" where
  "udp_header_pbuf e p l =
     do { (r, l) \<leftarrow> pbuf_header p (int UDP_HLEN) l;
          if r \<noteq> 0
          then do { (q, l) \<leftarrow> pbuf_alloc (e_malloc e) PBUF_IP (of_nat UDP_HLEN) PBUF_RAM l;
                    if q = NULL then Some (None, l)
                    else do { b \<leftarrow> get_pb l p;
                              l \<leftarrow> (if tot_len b \<noteq> 0 then pbuf_chain q p l else Some l);
                              Some (Some q, l) } }
          else Some (Some p, l) }"

text \<open>The ports and a zero checksum, the flag for loops of multicasts, then the length and the checksum.\<close>

definition udp_fill :: "ptr \<Rightarrow> udp_pcb \<Rightarrow> u32 \<Rightarrow> u16 \<Rightarrow> lwip \<Rightarrow> lwip option" where
  "udp_fill q c dst_ip dst_port l =
     do { b \<leftarrow> get_pb l q;
          l \<leftarrow> put_field (payload b) (htons (u_local_port c)) l;
          l \<leftarrow> put_field (payload b + 2) (htons dst_port) l;
          l \<leftarrow> put_field (payload b + 6) 0 l;
          Some (if ip_addr_ismulticast dst_ip \<and> u_flags c AND UDP_FLAGS_MULTICAST_LOOP \<noteq> 0
                then put_pb q (b\<lparr>pb_flags := pb_flags b OR PBUF_FLAG_MCASTLOOP\<rparr>) l else l) }"

definition udp_seal :: "ptr \<Rightarrow> udp_pcb \<Rightarrow> u32 \<Rightarrow> u32 \<Rightarrow> lwip \<Rightarrow> lwip option" where
  "udp_seal q c src_ip dst_ip l =
     do { b \<leftarrow> get_pb l q;
          l \<leftarrow> put_field (payload b + 4) (htons (tot_len b)) l;
          if u_flags c AND UDP_FLAGS_NOCHKSUM = 0
          then do { udpchksum \<leftarrow> inet_chksum_pseudo (pb l) q src_ip dst_ip IP_PROTO_UDP (tot_len b) (pram l);
                    put_field (payload b + 6) (if udpchksum = 0 then 0xffff else udpchksum) l }
          else Some l }"

definition udp_sendto_if :: "udp_env \<Rightarrow> ptr \<Rightarrow> ptr \<Rightarrow> u32 \<Rightarrow> u16 \<Rightarrow> netif \<Rightarrow> stack \<Rightarrow> (int \<times> stack) option" where
  "udp_sendto_if e pcb p dst_ip dst_port netif s =
     do { c \<leftarrow> upcb s pcb;
          (err, s) \<leftarrow> (if u_local_port c = 0 then udp_bind pcb (u_local_ip c) (u_local_port c) s else Some (ERR_OK, s));
          if err \<noteq> ERR_OK then Some (err, s)
          else do {
            c \<leftarrow> upcb s pcb;
            (hdr, l) \<leftarrow> udp_header_pbuf e p (lw s);
            case hdr of None \<Rightarrow> Some (ERR_MEM, s\<lparr>lw := l\<rparr>)
            | Some q \<Rightarrow> do {
              l \<leftarrow> udp_fill q c dst_ip dst_port l;
              if \<not> ip_addr_isany (u_local_ip c) \<and> u_local_ip c \<noteq> netif_ip_addr netif
              then do { s \<leftarrow> (if q \<noteq> p then drop_pbuf q (s\<lparr>lw := l\<rparr>) else Some (s\<lparr>lw := l\<rparr>)); Some (ERR_VAL, s) }
              else do {
                let src_ip = (if ip_addr_isany (u_local_ip c) then netif_ip_addr netif else u_local_ip c);
                l \<leftarrow> udp_seal q c src_ip dst_ip l;
                (err, s) \<leftarrow> e_out e q src_ip dst_ip (u_ttl c) (u_tos c) IP_PROTO_UDP netif (s\<lparr>lw := l\<rparr>);
                s \<leftarrow> (if q \<noteq> p then drop_pbuf q s else Some s);
                Some (err, s) } } } }"

definition udp_sendto :: "udp_env \<Rightarrow> ptr \<Rightarrow> ptr \<Rightarrow> u32 \<Rightarrow> u16 \<Rightarrow> stack \<Rightarrow> (int \<times> stack) option" where
  "udp_sendto e pcb p dst_ip dst_port s =
     do { c \<leftarrow> upcb s pcb;
          case e_route e (if ip_addr_ismulticast dst_ip then u_multicast_ip c else dst_ip) s of
            None \<Rightarrow> Some (ERR_RTE, s)
          | Some netif \<Rightarrow> udp_sendto_if e pcb p dst_ip dst_port netif s }"

definition udp_send :: "udp_env \<Rightarrow> ptr \<Rightarrow> ptr \<Rightarrow> stack \<Rightarrow> (int \<times> stack) option" where
  "udp_send e pcb p s = do { c \<leftarrow> upcb s pcb; udp_sendto e pcb p (u_remote_ip c) (u_remote_port c) s }"

end
