(* ===== verification/Lwip_Ip.thy ===== *)
theory Lwip_Ip
  imports Lwip_Udp
begin

text \<open>
  IP, \<^verbatim>\<open>core/ipv4/ip.c\<close>, in the configuration of \<^verbatim>\<open>lwipopts.h\<close>: options are sent and accepted, IGMP, ICMP, raw and DHCP are
  on; no forwarding, reassembly, fragmentation or loopback. The header is a packed structure, written field by field while
  its checksum is summed up. The protocols above, the groups of IGMP and the output of an interface are parameters.
\<close>

section \<open>Interfaces\<close>

datatype ip_up = Udp_input | Tcp_input | Icmp_input | Igmp_input | Icmp_dur_proto

record ip_env =
  i_raw :: "ptr \<Rightarrow> ptr \<Rightarrow> stack \<Rightarrow> (bool \<times> stack) option"
  i_up :: "ip_up \<Rightarrow> ptr \<Rightarrow> ptr \<Rightarrow> stack \<Rightarrow> stack option"
  i_group :: "ptr \<Rightarrow> u32 \<Rightarrow> stack \<Rightarrow> bool"
  i_output :: "ptr \<Rightarrow> ptr \<Rightarrow> u32 \<Rightarrow> stack \<Rightarrow> (int \<times> stack) option"
  i_getif0 :: ptr

definition IP_HLEN :: nat where "IP_HLEN = 20"
definition IP_PROTO_ICMP :: u8 where "IP_PROTO_ICMP = 1"
definition IP_PROTO_IGMP :: u8 where "IP_PROTO_IGMP = 2"
definition IP_PROTO_TCP :: u8 where "IP_PROTO_TCP = 6"
definition IP_DF :: u16 where "IP_DF = 0x4000"
definition IP_MF :: u16 where "IP_MF = 0x2000"
definition IP_OFFMASK :: u16 where "IP_OFFMASK = 0x1fff"
definition NETIF_FLAG_UP :: u8 where "NETIF_FLAG_UP = 0x01"
definition NETIF_FLAG_IGMP :: u8 where "NETIF_FLAG_IGMP = 0x80"
definition ERR_BUF :: int where "ERR_BUF = -2"

definition netif_is_up :: "netif \<Rightarrow> bool" where
  "netif_is_up n \<longleftrightarrow> netif_flags n AND NETIF_FLAG_UP \<noteq> 0"

definition IPH_V :: "u16 \<Rightarrow> u16" where
  "IPH_V v_hl_tos = drop_bit 12 (htons v_hl_tos)"

definition LWIP_MAKE_U16 :: "u8 \<Rightarrow> u8 \<Rightarrow> u32" where
  "LWIP_MAKE_U16 a b = push_bit 8 (ucast a) OR ucast b"

section \<open>Routes\<close>

text \<open>The loops over the interfaces: the first that satisfies a condition.\<close>

fun first_netif :: "(ptr \<rightharpoonup> netif) \<Rightarrow> (ptr \<Rightarrow> netif \<Rightarrow> bool) \<Rightarrow> ptr list \<Rightarrow> ptr option" where
  "first_netif st P [] = Some NULL"
| "first_netif st P (netif # ns) =
     do { n \<leftarrow> st netif; if P netif n then Some netif else first_netif st P ns }"

definition default_route :: "stack \<Rightarrow> ptr option" where
  "default_route s =
     (if netif_default s = NULL then Some NULL
      else do { n \<leftarrow> nifs s (netif_default s); Some (if netif_is_up n then netif_default s else NULL) })"

definition on_net :: "u32 \<Rightarrow> netif \<Rightarrow> bool" where
  "on_net dest n \<longleftrightarrow> ip_addr_netcmp dest (netif_ip_addr n) (netif_netmask n)"

definition ip_route :: "ip_env \<Rightarrow> u32 \<Rightarrow> stack \<Rightarrow> ptr option" where
  "ip_route e dest s =
     do { netif \<leftarrow> first_netif (nifs s) (\<lambda>_ n. netif_is_up n \<and> on_net dest n) (netif_list s);
          if netif \<noteq> NULL then Some netif
          else do {
            netif \<leftarrow> first_netif (nifs s) (\<lambda>netif n. netif_is_up n \<and> ip4_addr_isbroadcast dest n = 0 \<and> netif = i_getif0 e) (netif_list s);
            if netif \<noteq> NULL then Some netif else default_route s } }"

definition ip_router :: "u32 \<Rightarrow> u32 \<Rightarrow> stack \<Rightarrow> ptr option" where
  "ip_router dest source s =
     do { netif \<leftarrow> first_netif (nifs s) (\<lambda>_ n. netif_is_up n \<and> on_net dest n \<or> netif_is_up n \<and> on_net source n) (netif_list s);
          if netif \<noteq> NULL then Some netif else default_route s }"

section \<open>Sending\<close>

definition put8 :: "ptr \<Rightarrow> u8 \<Rightarrow> lwip \<Rightarrow> lwip option" where
  "put8 a v l = map_option (\<lambda>m. l\<lparr>pram := m\<rparr>) (poke a v (pram l))"

definition put32 :: "ptr \<Rightarrow> u32 \<Rightarrow> lwip \<Rightarrow> lwip option" where
  "put32 a v l = do { l \<leftarrow> put_field a (ucast v) l; put_field (a + 2) (ucast (drop_bit 16 v)) l }"

definition ld32 :: "mem \<Rightarrow> ptr \<Rightarrow> u32 option" where
  "ld32 m a = do { l \<leftarrow> ld16 m a; h \<leftarrow> ld16 m (a + 2); Some (push_bit 16 (ucast h) OR ucast l) }"

definition add_addr :: "u32 \<Rightarrow> u32 \<Rightarrow> u32" where
  "add_addr a chk_sum = (let chk_sum = chk_sum + (a AND 0xFFFF) in chk_sum + drop_bit 16 a)"

fun opt_sum :: "nat \<Rightarrow> ptr \<Rightarrow> u32 \<Rightarrow> mem \<Rightarrow> u32 option" where
  "opt_sum 0 a chk_sum m = Some chk_sum"
| "opt_sum (Suc n) a chk_sum m = do { v \<leftarrow> ldu16 m a; opt_sum n (a + 2) (chk_sum + ucast v) m }"

text \<open>The options: their aligned length, what is left when there is no room for them, and their sum.\<close>

definition ip_options_in :: "ptr \<Rightarrow> ptr \<Rightarrow> u16 \<Rightarrow> lwip \<Rightarrow> (bool \<times> u16 \<times> u32 \<times> lwip) option" where
  "ip_options_in p ip_options optlen l =
     (if optlen = 0 then Some (True, 0, 0, l)
      else do {
        let optlen_aligned = (optlen + 3) AND NOT 3;
        (r, l) \<leftarrow> pbuf_header p (sint optlen_aligned) l;
        if r \<noteq> 0 then Some (False, optlen_aligned, 0, l)
        else do {
          b \<leftarrow> get_pb l p;
          m \<leftarrow> memcpy (payload b) ip_options (unat optlen) (pram l);
          m \<leftarrow> (if optlen < optlen_aligned
                then memset (payload b + unat optlen) 0 (unat (optlen_aligned - optlen)) m else Some m);
          chk_sum \<leftarrow> opt_sum (unat optlen_aligned div 2) (payload b) 0 m;
          Some (True, optlen_aligned, chk_sum, l\<lparr>pram := m\<rparr>) } })"

definition ip_fold :: "u32 \<Rightarrow> u16" where
  "ip_fold chk_sum =
     (let chk_sum = drop_bit 16 chk_sum + (chk_sum AND 0xFFFF);
          chk_sum = drop_bit 16 chk_sum + chk_sum
      in ucast (NOT chk_sum))"

text \<open>The header at \<open>h\<close> of a packet of \<open>tot_len\<close> bytes.\<close>

definition ip_header ::
  "ptr \<Rightarrow> u16 \<Rightarrow> u16 \<Rightarrow> u16 \<Rightarrow> u32 \<Rightarrow> u32 \<Rightarrow> u8 \<Rightarrow> u8 \<Rightarrow> u8 \<Rightarrow> u32 \<Rightarrow> lwip \<Rightarrow> lwip option" where
  "ip_header h tot ip_hlen ident src dest ttl tos proto chk_sum l =
     do { l \<leftarrow> put8 (h + 8) ttl l;
          l \<leftarrow> put8 (h + 9) proto l;
          let chk_sum = chk_sum + LWIP_MAKE_U16 proto ttl;
          l \<leftarrow> put32 (h + 16) dest l;
          let chk_sum = add_addr dest chk_sum;
          let v_hl_tos = htons (push_bit 12 4 OR push_bit 8 (ip_hlen div 4) OR ucast tos);
          l \<leftarrow> put_field h v_hl_tos l;
          let chk_sum = chk_sum + ucast v_hl_tos;
          l \<leftarrow> put_field (h + 2) (htons tot) l;
          let chk_sum = chk_sum + ucast (htons tot);
          l \<leftarrow> put_field (h + 6) 0 l;
          l \<leftarrow> put_field (h + 4) (htons ident) l;
          let chk_sum = chk_sum + ucast (htons ident);
          (l, chk_sum) \<leftarrow> (if proto = IP_PROTO_TCP
                          then do { l \<leftarrow> put_field (h + 6) (htons IP_DF) l; Some (l, chk_sum + ucast (htons IP_DF)) }
                          else Some (l, chk_sum));
          l \<leftarrow> put32 (h + 12) src l;
          put_field (h + 10) (ip_fold (add_addr src chk_sum)) l }"

text \<open>A null pointer for the source stands for any address, one for the destination (\<^verbatim>\<open>IP_HDRINCL\<close>) for a header that is
  already there.\<close>

definition ip_output_if_opt ::
  "ip_env \<Rightarrow> ptr \<Rightarrow> u32 option \<Rightarrow> u32 option \<Rightarrow> u8 \<Rightarrow> u8 \<Rightarrow> u8 \<Rightarrow> ptr \<Rightarrow> ptr \<Rightarrow> u16 \<Rightarrow> stack \<Rightarrow> (int \<times> stack) option" where
  "ip_output_if_opt e p src dest ttl tos proto netif ip_options optlen s =
     (case dest of
        None \<Rightarrow> do { b \<leftarrow> get_pb (lw s) p; dest \<leftarrow> ld32 (pram (lw s)) (payload b + 16); i_output e netif p dest s }
      | Some dest \<Rightarrow> do {
          (ok, optlen_aligned, chk_sum, l) \<leftarrow> ip_options_in p ip_options optlen (lw s);
          let s = s\<lparr>lw := l\<rparr>;
          if \<not> ok then Some (ERR_BUF, s)
          else do {
            (r, l) \<leftarrow> pbuf_header p (int IP_HLEN) (lw s);
            let s = s\<lparr>lw := l\<rparr>;
            if r \<noteq> 0 then Some (ERR_BUF, s)
            else do {
              b \<leftarrow> get_pb (lw s) p;
              n \<leftarrow> nifs s netif;
              let src = (case src of None \<Rightarrow> netif_ip_addr n | Some a \<Rightarrow> if ip_addr_isany a then netif_ip_addr n else a);
              l \<leftarrow> ip_header (payload b) (tot_len b) (of_nat IP_HLEN + optlen_aligned) (ip_id s) src dest ttl tos proto chk_sum (lw s);
              i_output e netif p dest (s\<lparr>lw := l, ip_id := ip_id s + 1\<rparr>) } } })"

definition ip_output_if ::
  "ip_env \<Rightarrow> ptr \<Rightarrow> u32 option \<Rightarrow> u32 option \<Rightarrow> u8 \<Rightarrow> u8 \<Rightarrow> u8 \<Rightarrow> ptr \<Rightarrow> stack \<Rightarrow> (int \<times> stack) option" where
  "ip_output_if e p src dest ttl tos proto netif s = ip_output_if_opt e p src dest ttl tos proto netif NULL 0 s"

definition ip_output :: "ip_env \<Rightarrow> ptr \<Rightarrow> u32 option \<Rightarrow> u32 \<Rightarrow> u8 \<Rightarrow> u8 \<Rightarrow> u8 \<Rightarrow> stack \<Rightarrow> (int \<times> stack) option" where
  "ip_output e p src dest ttl tos proto s =
     do { netif \<leftarrow> ip_route e dest s;
          if netif = NULL then Some (ERR_RTE, s) else ip_output_if e p src (Some dest) ttl tos proto netif s }"

section \<open>Receiving\<close>

definition ip_drop :: "ptr \<Rightarrow> stack \<Rightarrow> (int \<times> stack) option" where
  "ip_drop p s = map_option (Pair ERR_OK) (drop_pbuf p s)"

text \<open>The interfaces a packet may be for: the one it came in on first, then the others of the list.\<close>

definition accepts :: "u32 \<Rightarrow> netif \<Rightarrow> bool" where
  "accepts dest n \<longleftrightarrow> netif_is_up n \<and> \<not> ip_addr_isany (netif_ip_addr n)
     \<and> (dest = netif_ip_addr n \<or> ip4_addr_isbroadcast dest n \<noteq> 0)"

fun accept_loop :: "(ptr \<rightharpoonup> netif) \<Rightarrow> ptr \<Rightarrow> u32 \<Rightarrow> ptr \<Rightarrow> ptr list \<Rightarrow> ptr option" where
  "accept_loop st inp dest netif rest =
     do { n \<leftarrow> st netif;
          if accepts dest n then Some netif
          else (case rest of [] \<Rightarrow> Some NULL
                | netif # rest' \<Rightarrow>
                    if netif = inp then (case rest' of [] \<Rightarrow> Some NULL | netif # rest'' \<Rightarrow> accept_loop st inp dest netif rest'')
                    else accept_loop st inp dest netif rest') }"

definition ip_match :: "ip_env \<Rightarrow> ptr \<Rightarrow> stack \<Rightarrow> ptr option" where
  "ip_match e inp s =
     (let dest = current_iphdr_dest s
      in if ip_addr_ismulticast dest
         then do { n \<leftarrow> nifs s inp; Some (if netif_flags n AND NETIF_FLAG_IGMP \<noteq> 0 \<and> i_group e inp dest s then inp else NULL) }
         else accept_loop (nifs s) inp dest inp (netif_list s))"

text \<open>DHCP is accepted whatever the address; the result says whether the source is to be checked.\<close>

definition ip_dhcp :: "ptr \<Rightarrow> nat \<Rightarrow> ptr \<Rightarrow> ptr \<Rightarrow> stack \<Rightarrow> (ptr \<times> bool) option" where
  "ip_dhcp iphdr iphdr_hlen inp netif s =
     (if netif = NULL
      then do { proto \<leftarrow> pram (lw s) (iphdr + 9);
                if proto = IP_PROTO_UDP
                then do { dport \<leftarrow> ld16 (pram (lw s)) (iphdr + iphdr_hlen + 2);
                          Some (if dport = htons DHCP_CLIENT_PORT then (inp, False) else (netif, True)) }
                else Some (netif, True) }
      else Some (netif, True))"

definition bad_source :: "bool \<Rightarrow> netif \<Rightarrow> u32 \<Rightarrow> bool" where
  "bad_source check_ip_src n src \<longleftrightarrow>
     check_ip_src \<and> \<not> ip_addr_isany src \<and> (ip4_addr_isbroadcast src n \<noteq> 0 \<or> ip_addr_ismulticast src)"

definition ip_upper :: "ip_env \<Rightarrow> ptr \<Rightarrow> ptr \<Rightarrow> ptr \<Rightarrow> stack \<Rightarrow> stack option" where
  "ip_upper e p iphdr inp s =
     do { proto \<leftarrow> pram (lw s) (iphdr + 9);
          if proto = IP_PROTO_UDP then i_up e Udp_input p inp s
          else if proto = IP_PROTO_TCP then i_up e Tcp_input p inp s
          else if proto = IP_PROTO_ICMP then i_up e Icmp_input p inp s
          else if proto = IP_PROTO_IGMP then i_up e Igmp_input p inp s
          else do {
            n \<leftarrow> nifs s inp;
            s \<leftarrow> (if ip4_addr_isbroadcast (current_iphdr_dest s) n = 0 \<and> \<not> ip_addr_ismulticast (current_iphdr_dest s)
                  then do { b \<leftarrow> get_pb (lw s) p;
                            i_up e Icmp_dur_proto p inp (s\<lparr>lw := put_pb p (b\<lparr>payload := iphdr\<rparr>) (lw s)\<rparr>) }
                  else Some s);
            drop_pbuf p s } }"

definition ip_deliver :: "ip_env \<Rightarrow> ptr \<Rightarrow> ptr \<Rightarrow> ptr \<Rightarrow> stack \<Rightarrow> (int \<times> stack) option" where
  "ip_deliver e p iphdr inp s =
     do { let s = s\<lparr>current_netif := inp, current_header := iphdr\<rparr>;
          (eaten, s) \<leftarrow> i_raw e p inp s;
          s \<leftarrow> (if eaten then Some s else ip_upper e p iphdr inp s);
          Some (ERR_OK, s\<lparr>current_iphdr_src := IPADDR_ANY, current_iphdr_dest := IPADDR_ANY, current_netif := NULL, current_header := NULL\<rparr>) }"

text \<open>The part behind the checks of the header.\<close>

definition ip_for_us :: "ip_env \<Rightarrow> ptr \<Rightarrow> ptr \<Rightarrow> nat \<Rightarrow> ptr \<Rightarrow> stack \<Rightarrow> (int \<times> stack) option" where
  "ip_for_us e p iphdr iphdr_hlen inp s =
     do { netif \<leftarrow> ip_match e inp s;
          (netif, check_ip_src) \<leftarrow> ip_dhcp iphdr iphdr_hlen inp netif s;
          n \<leftarrow> nifs s inp;
          if bad_source check_ip_src n (current_iphdr_src s) then ip_drop p s
          else if netif = NULL then ip_drop p s
          else do {
            off \<leftarrow> ld16 (pram (lw s)) (iphdr + 6);
            if off AND htons (IP_OFFMASK OR IP_MF) \<noteq> 0 then ip_drop p s
            else ip_deliver e p iphdr inp s } }"

definition ip_input :: "ip_env \<Rightarrow> ptr \<Rightarrow> ptr \<Rightarrow> stack \<Rightarrow> (int \<times> stack) option" where
  "ip_input e p inp s =
     do { b \<leftarrow> get_pb (lw s) p;
          let iphdr = payload b;
          v_hl_tos \<leftarrow> ld16 (pram (lw s)) iphdr;
          if IPH_V v_hl_tos \<noteq> 4 then ip_drop p s
          else do {
            let iphdr_hlen = IPH_HL v_hl_tos * 4;
            l \<leftarrow> ld16 (pram (lw s)) (iphdr + 2);
            let iphdr_len = htons l;
            if unat (pb_len b) < iphdr_hlen \<or> tot_len b < iphdr_len then ip_drop p s
            else do {
              c \<leftarrow> inet_chksum iphdr (of_nat iphdr_hlen) (pram (lw s));
              if c \<noteq> 0 then ip_drop p s
              else do {
                l \<leftarrow> pbuf_realloc p iphdr_len (lw s);
                dest \<leftarrow> ld32 (pram l) (iphdr + 16);
                src \<leftarrow> ld32 (pram l) (iphdr + 12);
                ip_for_us e p iphdr iphdr_hlen inp (s\<lparr>lw := l, current_iphdr_src := src, current_iphdr_dest := dest\<rparr>) } } } }"

end
