(* ===== verification/Lwip_Etharp.thy ===== *)
theory Lwip_Etharp
  imports Lwip_Ip
begin

text \<open>
  ARP and Ethernet, \<^verbatim>\<open>netif/etharp.c\<close>, in the configuration of \<^verbatim>\<open>lwipopts.h\<close> and the makefile: packets wait in queues, IP packets
  refresh the table, answers to requests are copies (\<^verbatim>\<open>EBUF_LWIP\<close>); no static entries, VLAN, AutoIP or hints. The heap,
  the pool of queue nodes, the driver (\<^verbatim>\<open>netif->linkoutput\<close>) and the address check of DHCP are parameters. A hardware address
  is the list of its six bytes.
\<close>

section \<open>Constants\<close>

definition ARP_MAXAGE :: u8 where "ARP_MAXAGE = 240"
definition ARP_AGE_REREQUEST_USED :: u8 where "ARP_AGE_REREQUEST_USED = ARP_MAXAGE - 12"
definition ARP_MAXPENDING :: u8 where "ARP_MAXPENDING = 2"
definition HWTYPE_ETHERNET :: u16 where "HWTYPE_ETHERNET = 1"
definition ARP_TABLE_SIZE :: nat where "ARP_TABLE_SIZE = 10"
definition ETHARP_FLAG_TRY_HARD :: u8 where "ETHARP_FLAG_TRY_HARD = 1"
definition ETHARP_FLAG_FIND_ONLY :: u8 where "ETHARP_FLAG_FIND_ONLY = 2"
definition ETHARP_HWADDR_LEN :: nat where "ETHARP_HWADDR_LEN = 6"
definition SIZEOF_ETH_HDR :: nat where "SIZEOF_ETH_HDR = 14"
definition SIZEOF_ETHARP_HDR :: nat where "SIZEOF_ETHARP_HDR = 28"
definition SIZEOF_ETHARP_PACKET :: nat where "SIZEOF_ETHARP_PACKET = SIZEOF_ETH_HDR + SIZEOF_ETHARP_HDR"
definition ETHTYPE_ARP :: u16 where "ETHTYPE_ARP = 0x0806"
definition ETHTYPE_IP :: u16 where "ETHTYPE_IP = 0x0800"
definition ARP_REQUEST :: u16 where "ARP_REQUEST = 1"
definition ARP_REPLY :: u16 where "ARP_REPLY = 2"
definition NETIF_FLAG_ETHARP :: u8 where "NETIF_FLAG_ETHARP = 0x20"

definition ethbroadcast :: "u8 list" where "ethbroadcast = [0xff, 0xff, 0xff, 0xff, 0xff, 0xff]"
definition ethzero :: "u8 list" where "ethzero = [0, 0, 0, 0, 0, 0]"

definition ip_addr_islinklocal :: "u32 \<Rightarrow> bool" where
  "ip_addr_islinklocal a \<longleftrightarrow> a AND LWIP_PLATFORM_HTONL 0xffff0000 = LWIP_PLATFORM_HTONL 0xa9fe0000"

record arp_env =
  a_malloc :: malloc
  a_memp :: "stack \<Rightarrow> bool \<times> stack"
  a_link :: "ptr \<Rightarrow> ptr \<Rightarrow> stack \<Rightarrow> (int \<times> stack) option"
  a_dhcp :: "ptr \<Rightarrow> u32 \<Rightarrow> stack \<Rightarrow> stack option"

section \<open>The table\<close>

definition arp_get :: "nat \<Rightarrow> stack \<Rightarrow> etharp_entry option" where
  "arp_get i s = (if i < length (arp_table s) then Some (arp_table s ! i) else None)"

definition arp_put :: "nat \<Rightarrow> etharp_entry \<Rightarrow> stack \<Rightarrow> stack" where
  "arp_put i x s = s\<lparr>arp_table := (arp_table s)[i := x]\<rparr>"

text \<open>The test \<^verbatim>\<open>state >= ETHARP_STATE_STABLE\<close>.\<close>

fun arp_stable :: "etharp_state \<Rightarrow> bool" where
  "arp_stable ETHARP_STATE_EMPTY = False"
| "arp_stable ETHARP_STATE_PENDING = False"
| "arp_stable ETHARP_STATE_STABLE = True"
| "arp_stable ETHARP_STATE_STABLE_REREQUESTING = True"

fun free_etharp_q :: "ptr list \<Rightarrow> stack \<Rightarrow> stack option" where
  "free_etharp_q [] s = Some s"
| "free_etharp_q (p # q) s = do { s \<leftarrow> drop_pbuf p s; free_etharp_q q s }"

definition free_entry :: "nat \<Rightarrow> stack \<Rightarrow> stack option" where
  "free_entry i s =
     do { x \<leftarrow> arp_get i s;
          s \<leftarrow> (if arp_q x \<noteq> [] then free_etharp_q (arp_q x) s else Some s);
          Some (arp_put i (x\<lparr>arp_q := [], arp_state := ETHARP_STATE_EMPTY\<rparr>) s) }"

text \<open>The loops over all entries.\<close>

fun for_entries :: "(nat \<Rightarrow> stack \<Rightarrow> stack option) \<Rightarrow> nat list \<Rightarrow> stack \<Rightarrow> stack option" where
  "for_entries f [] s = Some s"
| "for_entries f (i # is) s = do { s \<leftarrow> f i s; for_entries f is s }"

definition etharp_tmr_entry :: "nat \<Rightarrow> stack \<Rightarrow> stack option" where
  "etharp_tmr_entry i s =
     do { x \<leftarrow> arp_get i s;
          if arp_state x = ETHARP_STATE_EMPTY then Some s
          else do {
            let x = x\<lparr>arp_ctime := arp_ctime x + 1\<rparr>;
            let s = arp_put i x s;
            if ARP_MAXAGE \<le> arp_ctime x \<or> arp_state x = ETHARP_STATE_PENDING \<and> ARP_MAXPENDING \<le> arp_ctime x then free_entry i s
            else if arp_state x = ETHARP_STATE_STABLE_REREQUESTING then Some (arp_put i (x\<lparr>arp_state := ETHARP_STATE_STABLE\<rparr>) s)
            else Some s } }"

definition etharp_tmr :: "stack \<Rightarrow> stack option" where
  "etharp_tmr s = for_entries etharp_tmr_entry [0..<ARP_TABLE_SIZE] s"

definition etharp_cleanup_netif :: "ptr \<Rightarrow> stack \<Rightarrow> stack option" where
  "etharp_cleanup_netif netif s =
     for_entries (\<lambda>i s. do { x \<leftarrow> arp_get i s;
         if arp_state x \<noteq> ETHARP_STATE_EMPTY \<and> arp_netif x = netif then free_entry i s else Some s }) [0..<ARP_TABLE_SIZE] s"

section \<open>Looking for an entry\<close>

text \<open>What the sweep over the table remembers: positions, where the size of the table stands for none, and ages.\<close>

record sweep =
  sw_empty :: nat
  old_stable :: nat
  old_pending :: nat
  old_queue :: nat
  age_stable :: u8
  age_pending :: u8
  age_queue :: u8

definition sweep_start :: sweep where
  "sweep_start = \<lparr>sw_empty = ARP_TABLE_SIZE, old_stable = ARP_TABLE_SIZE, old_pending = ARP_TABLE_SIZE, old_queue = ARP_TABLE_SIZE,
     age_stable = 0, age_pending = 0, age_queue = 0\<rparr>"

definition sweep_entry :: "nat \<Rightarrow> etharp_entry \<Rightarrow> sweep \<Rightarrow> sweep" where
  "sweep_entry i x w =
     (if sw_empty w = ARP_TABLE_SIZE \<and> arp_state x = ETHARP_STATE_EMPTY then w\<lparr>sw_empty := i\<rparr>
      else if arp_state x = ETHARP_STATE_EMPTY then w
      else if arp_state x = ETHARP_STATE_PENDING
      then if arp_q x \<noteq> [] then (if age_queue w \<le> arp_ctime x then w\<lparr>old_queue := i, age_queue := arp_ctime x\<rparr> else w)
           else (if age_pending w \<le> arp_ctime x then w\<lparr>old_pending := i, age_pending := arp_ctime x\<rparr> else w)
      else if age_stable w \<le> arp_ctime x then w\<lparr>old_stable := i, age_stable := arp_ctime x\<rparr> else w)"

text \<open>The sweep ends early at an entry with the address; its position is the first part of the result.\<close>

fun sweep_loop :: "u32 option \<Rightarrow> nat \<Rightarrow> etharp_entry list \<Rightarrow> sweep \<Rightarrow> nat option \<times> sweep" where
  "sweep_loop ipaddr i [] w = (None, w)"
| "sweep_loop ipaddr i (x # xs) w =
     (if arp_state x \<noteq> ETHARP_STATE_EMPTY \<and> ipaddr = Some (arp_ipaddr x) then (Some i, w)
      else sweep_loop ipaddr (i + 1) xs (sweep_entry i x w))"

definition fresh_entry :: "u32 option \<Rightarrow> nat \<Rightarrow> stack \<Rightarrow> (int \<times> stack) option" where
  "fresh_entry ipaddr i s =
     do { x \<leftarrow> arp_get i s;
          let x = (case ipaddr of None \<Rightarrow> x | Some a \<Rightarrow> x\<lparr>arp_ipaddr := a\<rparr>);
          Some (int i, arp_put i (x\<lparr>arp_ctime := 0\<rparr>) s) }"

definition find_entry :: "u32 option \<Rightarrow> u8 \<Rightarrow> stack \<Rightarrow> (int \<times> stack) option" where
  "find_entry ipaddr flags s =
     (case sweep_loop ipaddr 0 (arp_table s) sweep_start of
        (Some i, _) \<Rightarrow> Some (int i, s)
      | (None, w) \<Rightarrow>
          if flags AND ETHARP_FLAG_FIND_ONLY \<noteq> 0 \<or> sw_empty w = ARP_TABLE_SIZE \<and> flags AND ETHARP_FLAG_TRY_HARD = 0 then Some (ERR_MEM, s)
          else if sw_empty w < ARP_TABLE_SIZE then fresh_entry ipaddr (sw_empty w) s
          else if old_stable w < ARP_TABLE_SIZE then do { s \<leftarrow> free_entry (old_stable w) s; fresh_entry ipaddr (old_stable w) s }
          else if old_pending w < ARP_TABLE_SIZE then do { s \<leftarrow> free_entry (old_pending w) s; fresh_entry ipaddr (old_pending w) s }
          else if old_queue w < ARP_TABLE_SIZE then do { s \<leftarrow> free_entry (old_queue w) s; fresh_entry ipaddr (old_queue w) s }
          else Some (ERR_MEM, s))"

definition etharp_find_addr :: "u32 \<Rightarrow> stack \<Rightarrow> (int \<times> (u8 list \<times> u32) option \<times> stack) option" where
  "etharp_find_addr ipaddr s =
     do { (i, s) \<leftarrow> find_entry (Some ipaddr) ETHARP_FLAG_FIND_ONLY s;
          if i < 0 then Some (-1, None, s)
          else do {
            x \<leftarrow> arp_get (nat i) s;
            Some (if arp_stable (arp_state x) then (i, Some (arp_ethaddr x, arp_ipaddr x), s) else (-1, None, s)) } }"

section \<open>Frames\<close>

definition put_bytes :: "ptr \<Rightarrow> u8 list \<Rightarrow> lwip \<Rightarrow> lwip option" where
  "put_bytes a bs l =
     (if valid_range (pram l) a (length bs)
      then Some (l\<lparr>pram := \<lambda>x. if a \<le> x \<and> x < a + length bs then Some (bs ! (x - a)) else pram l x\<rparr>) else None)"

definition get_bytes :: "lwip \<Rightarrow> ptr \<Rightarrow> nat \<Rightarrow> u8 list option" where
  "get_bytes l a n = (if valid_range (pram l) a n then Some (bytes_at (pram l) a n) else None)"

definition etharp_send_ip :: "arp_env \<Rightarrow> ptr \<Rightarrow> ptr \<Rightarrow> u8 list \<Rightarrow> u8 list \<Rightarrow> stack \<Rightarrow> (int \<times> stack) option" where
  "etharp_send_ip e netif p src dst s =
     do { b \<leftarrow> get_pb (lw s) p;
          let ethhdr = payload b;
          l \<leftarrow> put_bytes ethhdr dst (lw s);
          l \<leftarrow> put_bytes (ethhdr + 6) src l;
          l \<leftarrow> put_field (ethhdr + 12) (htons ETHTYPE_IP) l;
          a_link e netif p (s\<lparr>lw := l\<rparr>) }"

text \<open>The message of RFC 826 behind the Ethernet header at \<open>h\<close>.\<close>

definition etharp_raw ::
  "arp_env \<Rightarrow> ptr \<Rightarrow> u8 list \<Rightarrow> u8 list \<Rightarrow> u8 list \<Rightarrow> u32 \<Rightarrow> u8 list \<Rightarrow> u32 \<Rightarrow> u16 \<Rightarrow> stack \<Rightarrow> (int \<times> stack) option" where
  "etharp_raw e netif ethsrc_addr ethdst_addr hwsrc_addr ipsrc_addr hwdst_addr ipdst_addr opcode s =
     do { (p, l) \<leftarrow> pbuf_alloc (a_malloc e) PBUF_RAW (of_nat SIZEOF_ETHARP_PACKET) PBUF_RAM (lw s);
          if p = NULL then Some (ERR_MEM, s\<lparr>lw := l\<rparr>)
          else do {
            b \<leftarrow> get_pb l p;
            let h = payload b;
            l \<leftarrow> put_field (h + 20) (htons opcode) l;
            l \<leftarrow> put_bytes (h + 22) hwsrc_addr l;
            l \<leftarrow> put_bytes (h + 32) hwdst_addr l;
            l \<leftarrow> put_bytes h ethdst_addr l;
            l \<leftarrow> put_bytes (h + 6) ethsrc_addr l;
            l \<leftarrow> put32 (h + 28) ipsrc_addr l;
            l \<leftarrow> put32 (h + 38) ipdst_addr l;
            l \<leftarrow> put_field (h + 14) (htons HWTYPE_ETHERNET) l;
            l \<leftarrow> put_field (h + 16) (htons ETHTYPE_IP) l;
            l \<leftarrow> put8 (h + 18) (of_nat ETHARP_HWADDR_LEN) l;
            l \<leftarrow> put8 (h + 19) 4 l;
            l \<leftarrow> put_field (h + 12) (htons ETHTYPE_ARP) l;
            (result, s) \<leftarrow> a_link e netif p (s\<lparr>lw := l\<rparr>);
            s \<leftarrow> drop_pbuf p s;
            Some (result, s) } }"

definition etharp_request :: "arp_env \<Rightarrow> ptr \<Rightarrow> u32 \<Rightarrow> stack \<Rightarrow> (int \<times> stack) option" where
  "etharp_request e netif ipaddr s =
     do { n \<leftarrow> nifs s netif;
          etharp_raw e netif (netif_hwaddr n) ethbroadcast (netif_hwaddr n) (netif_ip_addr n) ethzero ipaddr ARP_REQUEST s }"

section \<open>Learning an address\<close>

definition not_unicast :: "u32 \<Rightarrow> netif \<Rightarrow> bool" where
  "not_unicast a n \<longleftrightarrow> ip_addr_isany a \<or> ip4_addr_isbroadcast a n \<noteq> 0 \<or> ip_addr_ismulticast a"

partial_function (option) send_queue :: "arp_env \<Rightarrow> ptr \<Rightarrow> nat \<Rightarrow> u8 list \<Rightarrow> stack \<Rightarrow> stack option" where
  "send_queue e netif i ethaddr s =
     do { x \<leftarrow> arp_get i s;
          if arp_q x = [] then Some s
          else do {
            let p = hd (arp_q x);
            let s = arp_put i (x\<lparr>arp_q := tl (arp_q x)\<rparr>) s;
            n \<leftarrow> nifs s netif;
            (_, s) \<leftarrow> etharp_send_ip e netif p (netif_hwaddr n) ethaddr s;
            s \<leftarrow> drop_pbuf p s;
            send_queue e netif i ethaddr s } }"

definition update_arp_entry :: "arp_env \<Rightarrow> ptr \<Rightarrow> u32 \<Rightarrow> u8 list \<Rightarrow> u8 \<Rightarrow> stack \<Rightarrow> (int \<times> stack) option" where
  "update_arp_entry e netif ipaddr ethaddr flags s =
     do { n \<leftarrow> nifs s netif;
          if not_unicast ipaddr n then Some (ERR_ARG, s)
          else do {
            (i, s) \<leftarrow> find_entry (Some ipaddr) flags s;
            if i < 0 then Some (i, s)
            else do {
              x \<leftarrow> arp_get (nat i) s;
              let s = arp_put (nat i) (x\<lparr>arp_state := ETHARP_STATE_STABLE, arp_ethaddr := ethaddr, arp_ctime := 0\<rparr>) s;
              s \<leftarrow> send_queue e netif (nat i) ethaddr s;
              Some (ERR_OK, s) } } }"

definition etharp_ip_input :: "arp_env \<Rightarrow> ptr \<Rightarrow> ptr \<Rightarrow> stack \<Rightarrow> stack option" where
  "etharp_ip_input e netif p s =
     (if netif = NULL then Some s
      else do {
        b \<leftarrow> get_pb (lw s) p;
        iphdr_src \<leftarrow> ld32 (pram (lw s)) (payload b + SIZEOF_ETH_HDR + 12);
        n \<leftarrow> nifs s netif;
        if \<not> ip_addr_netcmp iphdr_src (netif_ip_addr n) (netif_netmask n) then Some s
        else do {
          ethaddr \<leftarrow> get_bytes (lw s) (payload b + 6) ETHARP_HWADDR_LEN;
          (_, s) \<leftarrow> update_arp_entry e netif iphdr_src ethaddr ETHARP_FLAG_FIND_ONLY s;
          Some s } })"

text \<open>The answer is written over the request at \<open>h\<close>, and a copy of it is sent.\<close>

definition arp_answer :: "ptr \<Rightarrow> u32 \<Rightarrow> u8 list \<Rightarrow> lwip \<Rightarrow> lwip option" where
  "arp_answer h ipaddr ethaddr l =
     do { l \<leftarrow> put_field (h + 20) (htons ARP_REPLY) l;
          l \<leftarrow> MEMCPY (h + 38) (h + 28) 4 l;
          l \<leftarrow> put32 (h + 28) ipaddr l;
          l \<leftarrow> MEMCPY (h + 32) (h + 22) (of_nat ETHARP_HWADDR_LEN) l;
          l \<leftarrow> MEMCPY h (h + 22) (of_nat ETHARP_HWADDR_LEN) l;
          l \<leftarrow> put_bytes (h + 22) ethaddr l;
          put_bytes (h + 6) ethaddr l }"

definition arp_send_copy :: "arp_env \<Rightarrow> ptr \<Rightarrow> ptr \<Rightarrow> stack \<Rightarrow> stack option" where
  "arp_send_copy e netif p s =
     do { b \<leftarrow> get_pb (lw s) p;
          (q, l) \<leftarrow> pbuf_alloc (a_malloc e) PBUF_RAW (tot_len b) PBUF_RAM (lw s);
          l \<leftarrow> (if q \<noteq> NULL then map_option snd (pbuf_copy q p l) else Some l);
          (_, s) \<leftarrow> a_link e netif q (s\<lparr>lw := l\<rparr>);
          drop_pbuf q s }"

text \<open>The fields that RFC 826 tells to check, and what an opcode asks for.\<close>

definition arp_valid :: "ptr \<Rightarrow> lwip \<Rightarrow> bool option" where
  "arp_valid h l =
     do { hwtype \<leftarrow> ld16 (pram l) (h + 14);
          hwlen \<leftarrow> pram l (h + 18);
          protolen \<leftarrow> pram l (h + 19);
          proto \<leftarrow> ld16 (pram l) (h + 16);
          ty \<leftarrow> ld16 (pram l) (h + 12);
          Some (\<not> (hwtype \<noteq> htons HWTYPE_ETHERNET \<or> unat hwlen \<noteq> ETHARP_HWADDR_LEN \<or> protolen \<noteq> 4
                   \<or> proto \<noteq> htons ETHTYPE_IP \<or> ty \<noteq> htons ETHTYPE_ARP)) }"

definition arp_act :: "arp_env \<Rightarrow> ptr \<Rightarrow> u8 list \<Rightarrow> ptr \<Rightarrow> ptr \<Rightarrow> bool \<Rightarrow> u32 \<Rightarrow> stack \<Rightarrow> stack option" where
  "arp_act e netif ethaddr p h for_us sipaddr s =
     do { opcode \<leftarrow> ld16 (pram (lw s)) (h + 20);
          if opcode = htons ARP_REQUEST
          then if for_us then do { n \<leftarrow> nifs s netif;
                                   l \<leftarrow> arp_answer h (netif_ip_addr n) ethaddr (lw s);
                                   arp_send_copy e netif p (s\<lparr>lw := l\<rparr>) }
               else Some s
          else if opcode = htons ARP_REPLY then a_dhcp e netif sipaddr s
          else Some s }"

definition etharp_arp_input :: "arp_env \<Rightarrow> ptr \<Rightarrow> u8 list \<Rightarrow> ptr \<Rightarrow> stack \<Rightarrow> stack option" where
  "etharp_arp_input e netif ethaddr p s =
     (if netif = NULL then Some s
      else do {
        b \<leftarrow> get_pb (lw s) p;
        if unat (pb_len b) < SIZEOF_ETHARP_PACKET then drop_pbuf p s
        else do {
          let h = payload b;
          ok \<leftarrow> arp_valid h (lw s);
          if \<not> ok then drop_pbuf p s
          else do {
            sipaddr \<leftarrow> ld32 (pram (lw s)) (h + 28);
            dipaddr \<leftarrow> ld32 (pram (lw s)) (h + 38);
            n \<leftarrow> nifs s netif;
            let for_us = (if ip_addr_isany (netif_ip_addr n) then False else dipaddr = netif_ip_addr n);
            shwaddr \<leftarrow> get_bytes (lw s) (h + 22) ETHARP_HWADDR_LEN;
            (_, s) \<leftarrow> update_arp_entry e netif sipaddr shwaddr (if for_us then ETHARP_FLAG_TRY_HARD else ETHARP_FLAG_FIND_ONLY) s;
            s \<leftarrow> arp_act e netif ethaddr p h for_us sipaddr s;
            drop_pbuf p s } } })"

section \<open>Sending\<close>

definition etharp_output_to_arp_index :: "arp_env \<Rightarrow> ptr \<Rightarrow> ptr \<Rightarrow> nat \<Rightarrow> stack \<Rightarrow> (int \<times> stack) option" where
  "etharp_output_to_arp_index e netif q arp_idx s =
     do { x \<leftarrow> arp_get arp_idx s;
          s \<leftarrow> (if arp_state x = ETHARP_STATE_STABLE \<and> ARP_AGE_REREQUEST_USED \<le> arp_ctime x
                then do { (r, s) \<leftarrow> etharp_request e netif (arp_ipaddr x) s;
                          x \<leftarrow> arp_get arp_idx s;
                          Some (if r = ERR_OK then arp_put arp_idx (x\<lparr>arp_state := ETHARP_STATE_STABLE_REREQUESTING\<rparr>) s else s) }
                else Some s);
          x \<leftarrow> arp_get arp_idx s;
          n \<leftarrow> nifs s netif;
          etharp_send_ip e netif q (netif_hwaddr n) (arp_ethaddr x) s }"

text \<open>The loop that looks for a buffer that is not read-only.\<close>

partial_function (option) copy_needed :: "ptr \<Rightarrow> lwip \<Rightarrow> ptr option" where
  "copy_needed p l =
     (if p = NULL then Some NULL
      else do { b \<leftarrow> get_pb l p; if pb_type b \<noteq> PBUF_ROM then Some p else copy_needed (pb_next b) l })"

definition take_over :: "arp_env \<Rightarrow> ptr \<Rightarrow> lwip \<Rightarrow> (ptr \<times> lwip) option" where
  "take_over e q l =
     do { p \<leftarrow> copy_needed q l;
          if p \<noteq> NULL
          then do {
            b \<leftarrow> get_pb l p;
            (p, l) \<leftarrow> pbuf_alloc (a_malloc e) PBUF_RAW (tot_len b) PBUF_RAM l;
            if p \<noteq> NULL
            then do { (r, l) \<leftarrow> pbuf_copy p q l;
                      if r \<noteq> ERR_OK then do { (_, l) \<leftarrow> pbuf_free p l; Some (NULL, l) } else Some (p, l) }
            else Some (p, l) }
          else do { l \<leftarrow> pbuf_ref q l; Some (q, l) } }"

text \<open>A packet at the end of the queue; a fourth packet displaces the first.\<close>

definition queue_packet :: "arp_env \<Rightarrow> nat \<Rightarrow> ptr \<Rightarrow> stack \<Rightarrow> (int \<times> stack) option" where
  "queue_packet e i p s =
     (let (new_entry, s) = a_memp e s
      in if new_entry
         then do {
           x \<leftarrow> arp_get i s;
           let qlen = length (arp_q x);
           let q = arp_q x @ [p];
           if 3 \<le> qlen
           then do { let s = arp_put i (x\<lparr>arp_q := tl q\<rparr>) s; s \<leftarrow> drop_pbuf (hd q) s; Some (ERR_OK, s) }
           else Some (ERR_OK, arp_put i (x\<lparr>arp_q := q\<rparr>) s) }
         else do { s \<leftarrow> drop_pbuf p s; Some (ERR_MEM, s) })"

text \<open>The packet of a query: sent when the address is known, queued when it is asked for.\<close>

definition query_packet :: "arp_env \<Rightarrow> ptr \<Rightarrow> nat \<Rightarrow> ptr \<Rightarrow> int \<Rightarrow> stack \<Rightarrow> (int \<times> stack) option" where
  "query_packet e netif i q result s =
     do { x \<leftarrow> arp_get i s;
          if arp_stable (arp_state x)
          then do { n \<leftarrow> nifs s netif;
                    etharp_send_ip e netif q (netif_hwaddr n) (arp_ethaddr x) (s\<lparr>etharp_cached_entry := of_nat i\<rparr>) }
          else if arp_state x = ETHARP_STATE_PENDING
          then do { (p, l) \<leftarrow> take_over e q (lw s);
                    let s = s\<lparr>lw := l\<rparr>;
                    if p \<noteq> NULL then queue_packet e i p s else Some (ERR_MEM, s) }
          else Some (result, s) }"

definition etharp_query :: "arp_env \<Rightarrow> ptr \<Rightarrow> u32 \<Rightarrow> ptr \<Rightarrow> stack \<Rightarrow> (int \<times> stack) option" where
  "etharp_query e netif ipaddr q s =
     do { n \<leftarrow> nifs s netif;
          if not_unicast ipaddr n then Some (ERR_ARG, s)
          else do {
            (i, s) \<leftarrow> find_entry (Some ipaddr) ETHARP_FLAG_TRY_HARD s;
            if i < 0 then Some (i, s)
            else do {
              x \<leftarrow> arp_get (nat i) s;
              let s = (if arp_state x = ETHARP_STATE_EMPTY then arp_put (nat i) (x\<lparr>arp_state := ETHARP_STATE_PENDING\<rparr>) s else s);
              x \<leftarrow> arp_get (nat i) s;
              (result, s) \<leftarrow> (if arp_state x = ETHARP_STATE_PENDING \<or> q = NULL then etharp_request e netif ipaddr s else Some (ERR_MEM, s));
              if q = NULL then Some (result, s) else query_packet e netif (nat i) q result s } } }"

fun stable_loop :: "u32 \<Rightarrow> nat \<Rightarrow> etharp_entry list \<Rightarrow> nat option" where
  "stable_loop ipaddr i [] = None"
| "stable_loop ipaddr i (x # xs) =
     (if arp_stable (arp_state x) \<and> ipaddr = arp_ipaddr x then Some i else stable_loop ipaddr (i + 1) xs)"

definition mcastaddr :: "u32 \<Rightarrow> u8 list" where
  "mcastaddr ipaddr = [0x01, 0x00, 0x5e, addr_bytes ipaddr ! 1 AND 0x7f, addr_bytes ipaddr ! 2, addr_bytes ipaddr ! 3]"

text \<open>The address to ask for: the destination itself, or the gateway for one outside the network, if there is a gateway.\<close>

definition next_hop :: "netif \<Rightarrow> u32 \<Rightarrow> u32 option" where
  "next_hop n ipaddr =
     (if \<not> ip_addr_netcmp ipaddr (netif_ip_addr n) (netif_netmask n) \<and> \<not> ip_addr_islinklocal ipaddr
      then if \<not> ip_addr_isany (netif_gw n) then Some (netif_gw n) else None
      else Some ipaddr)"

definition output_unicast :: "arp_env \<Rightarrow> ptr \<Rightarrow> ptr \<Rightarrow> u32 \<Rightarrow> stack \<Rightarrow> (int \<times> stack) option" where
  "output_unicast e netif q ipaddr s =
     do { x \<leftarrow> arp_get (unat (etharp_cached_entry s)) s;
          if arp_stable (arp_state x) \<and> ipaddr = arp_ipaddr x
          then etharp_output_to_arp_index e netif q (unat (etharp_cached_entry s)) s
          else (case stable_loop ipaddr 0 (arp_table s) of
              Some i \<Rightarrow> etharp_output_to_arp_index e netif q i (s\<lparr>etharp_cached_entry := of_nat i\<rparr>)
            | None \<Rightarrow> etharp_query e netif ipaddr q s) }"

definition etharp_output :: "arp_env \<Rightarrow> ptr \<Rightarrow> ptr \<Rightarrow> u32 \<Rightarrow> stack \<Rightarrow> (int \<times> stack) option" where
  "etharp_output e netif q ipaddr s =
     do { (r, l) \<leftarrow> pbuf_header q (int SIZEOF_ETH_HDR) (lw s);
          let s = s\<lparr>lw := l\<rparr>;
          if r \<noteq> 0 then Some (ERR_BUF, s)
          else do {
            n \<leftarrow> nifs s netif;
            if ip4_addr_isbroadcast ipaddr n \<noteq> 0 then etharp_send_ip e netif q (netif_hwaddr n) ethbroadcast s
            else if ip_addr_ismulticast ipaddr then etharp_send_ip e netif q (netif_hwaddr n) (mcastaddr ipaddr) s
            else (case next_hop n ipaddr of
                None \<Rightarrow> Some (ERR_RTE, s)
              | Some ipaddr \<Rightarrow> output_unicast e netif q ipaddr s) } }"

section \<open>Receiving\<close>

definition ethernet_input :: "arp_env \<Rightarrow> ip_env \<Rightarrow> ptr \<Rightarrow> ptr \<Rightarrow> stack \<Rightarrow> (int \<times> stack) option" where
  "ethernet_input e ie p netif s =
     do { b \<leftarrow> get_pb (lw s) p;
          if unat (pb_len b) \<le> SIZEOF_ETH_HDR then ip_drop p s
          else do {
            ty \<leftarrow> ld16 (pram (lw s)) (payload b + 12);
            if ty = htons ETHTYPE_IP
            then do {
              n \<leftarrow> nifs s netif;
              if netif_flags n AND NETIF_FLAG_ETHARP = 0 then ip_drop p s
              else do {
                s \<leftarrow> etharp_ip_input e netif p s;
                (r, l) \<leftarrow> pbuf_header p (- int SIZEOF_ETH_HDR) (lw s);
                let s = s\<lparr>lw := l\<rparr>;
                if r \<noteq> 0 then ip_drop p s else do { (_, s) \<leftarrow> ip_input ie p netif s; Some (ERR_OK, s) } } }
            else if ty = htons ETHTYPE_ARP
            then do {
              n \<leftarrow> nifs s netif;
              if netif_flags n AND NETIF_FLAG_ETHARP = 0 then ip_drop p s
              else do { s \<leftarrow> etharp_arp_input e netif (netif_hwaddr n) p s; Some (ERR_OK, s) } }
            else ip_drop p s } }"

end
