(* ===== verification/Lwip_Pbuf_Proofs.thy ===== *)
theory Lwip_Pbuf_Proofs
  imports Lwip_Pbuf
begin

text \<open>
  Chains of packet buffers: what releasing, joining, copying and searching do to the chain as a list of addresses and
  as a sequence of bytes.
\<close>

section \<open>Paths\<close>

fun path :: "pbufs \<Rightarrow> ptr \<Rightarrow> ptr list \<Rightarrow> bool" where
  "path st p [] \<longleftrightarrow> p = NULL"
| "path st p (a # as) \<longleftrightarrow> p = a \<and> a \<noteq> NULL \<and> (\<exists>b. st a = Some b \<and> path st (pb_next b) as)"

lemma path_NULL [simp]: "path st NULL as \<longleftrightarrow> as = []"
  by (cases as) auto

lemma path_unique: "path st p as \<Longrightarrow> path st p bs \<Longrightarrow> as = bs"
proof (induction as arbitrary: p bs)
  case (Cons a as)
  then show ?case by (cases bs) auto
qed simp

lemma path_suffix: "path st p (xs @ a # ys) \<Longrightarrow> path st a (a # ys)"
  by (induction xs arbitrary: p) auto

lemma path_distinct: "path st p as \<Longrightarrow> distinct as"
proof (induction as arbitrary: p)
  case (Cons a as)
  show ?case
  proof (cases "a \<in> set as")
    case True
    then obtain xs ys where "as = xs @ a # ys" by (auto simp: in_set_conv_decomp)
    then have "path st a (a # ys)" using Cons.prems path_suffix [of st p "a # xs" a ys] by simp
    moreover have "path st a (a # as)" using Cons.prems by auto
    ultimately have "a # as = a # ys" using path_unique by blast
    then show ?thesis using \<open>as = xs @ a # ys\<close> by simp
  qed (use Cons in auto)
qed simp

lemma path_not_NULL: "path st p as \<Longrightarrow> a \<in> set as \<Longrightarrow> a \<noteq> NULL \<and> (\<exists>b. st a = Some b)"
  by (induction as arbitrary: p) auto

lemma path_cong: "(\<And>a. a \<in> set as \<Longrightarrow> map_option pb_next (st' a) = map_option pb_next (st a)) \<Longrightarrow> path st' p as = path st p as"
proof (induction as arbitrary: p)
  case (Cons a as)
  have "map_option pb_next (st' a) = map_option pb_next (st a)" by (rule Cons.prems) simp
  then show ?case using Cons by (cases "st a"; cases "st' a") auto
qed simp

lemma path_upd_other: "a \<notin> set as \<Longrightarrow> path (st(a := x)) p as = path st p as"
  by (rule path_cong) auto

lemma get_pb_path: "path (pb s) p (a # as) \<Longrightarrow> \<exists>b. get_pb s p = Some b \<and> pb s p = Some b \<and> path (pb s) (pb_next b) as"
  by (auto simp: get_pb_def)

section \<open>Releasing\<close>

definition freed_calls :: "pbufs \<Rightarrow> ptr \<Rightarrow> lwip_call list" where
  "freed_calls st a =
     (let b = the (st a)
      in (if pb_type b = PBUF_ROM \<or> pb_type b = PBUF_REF \<or> pb_type b = PBUF_ESF_RX
          then [System_pp_recycle_rx_pkt (pb_eb b)] else []) @ [Mem_free a])"

text \<open>The store after the first \<open>k\<close> buffers of \<open>as\<close> are gone and the next one has lost a reference.\<close>

definition released :: "nat \<Rightarrow> ptr list \<Rightarrow> pbufs \<Rightarrow> pbufs" where
  "released k as st = (\<lambda>a. if a \<in> set (take k as) then None
     else if k < length as \<and> a = as ! k then map_option (\<lambda>b. b\<lparr>pb_ref := pb_ref b - 1\<rparr>) (st a) else st a)"

definition sole :: "pbufs \<Rightarrow> ptr \<Rightarrow> bool" where
  "sole st a \<longleftrightarrow> pb_ref (the (st a)) = 1"

lemma dealloc_put:
  assumes "pb s p = Some b"
  shows "dealloc p (b\<lparr>pb_ref := r\<rparr>) (put_pb p c s) = s\<lparr>pb := (pb s)(p := None), calls := calls s @ freed_calls (pb s) p\<rparr>"
  using assms by (auto simp: dealloc_def mem_free_def put_pb_def freed_calls_def Let_def PBUF_POOL_def PBUF_ROM_def
      PBUF_REF_def PBUF_ESF_RX_def)

lemma free_loop_effect:
  assumes "path (pb s) p as"
  defines "k \<equiv> length (takeWhile (sole (pb s)) as)"
  shows "free_loop n p s = Some (n + of_nat k, s\<lparr>pb := released k as (pb s),
           calls := calls s @ concat (map (freed_calls (pb s)) (take k as))\<rparr>)"
  using assms(1) unfolding k_def
proof (induction as arbitrary: p s n)
  case Nil
  then show ?case by (subst free_loop.simps) (simp add: released_def)
next
  case (Cons a as)
  obtain b where b: "get_pb s p = Some b" "pb s a = Some b" "path (pb s) (pb_next b) as" "p = a" "a \<noteq> NULL"
    using get_pb_path [OF Cons.prems] Cons.prems by auto
  have na: "a \<notin> set as" using path_distinct [OF Cons.prems] by simp
  show ?case
  proof (cases "pb_ref b = 1")
    case False
    then have "free_loop n p s = Some (n, put_pb p (b\<lparr>pb_ref := pb_ref b - 1\<rparr>) s)"
      using b by (subst free_loop.simps) (simp add: Let_def)
    moreover have "takeWhile (sole (pb s)) (a # as) = []" using False b by (simp add: sole_def)
    moreover have "(pb s)(a \<mapsto> b\<lparr>pb_ref := pb_ref b - 1\<rparr>) = released 0 (a # as) (pb s)"
      using b by (auto simp: released_def)
    ultimately show ?thesis using b by (simp add: put_pb_def)
  next
    case True
    let ?s = "s\<lparr>pb := (pb s)(a := None), calls := calls s @ freed_calls (pb s) a\<rparr>"
    have step: "free_loop n p s = free_loop (n + 1) (pb_next b) ?s"
      using b True dealloc_put [of s a b 0] by (subst free_loop.simps) (simp add: Let_def)
    have pth: "path (pb ?s) (pb_next b) as" using b(3) na by (simp add: path_upd_other)
    have tw: "takeWhile (sole (pb ?s)) as = takeWhile (sole (pb s)) as"
      using na by (intro takeWhile_cong) (auto simp: sole_def)
    let ?k = "length (takeWhile (sole (pb s)) as)"
    have fc: "map (freed_calls (pb ?s)) (take ?k as) = map (freed_calls (pb s)) (take ?k as)"
      using na by (intro map_cong) (auto simp: freed_calls_def dest: in_set_takeD)
    have rel: "released ?k as (pb ?s) = released (Suc ?k) (a # as) (pb s)"
      using na by (auto simp: released_def dest: in_set_takeD)
    have "sole (pb s) a" using True b by (simp add: sole_def)
    then show ?thesis unfolding step Cons.IH [OF pth] tw fc rel by (simp add: add.commute add.left_commute)
  qed
qed

text \<open>A whole chain with one reference to each buffer.\<close>

lemma pbuf_free_all:
  assumes "path (pb s) p as" "\<forall>a\<in>set as. sole (pb s) a"
  shows "pbuf_free p s = Some (of_nat (length as), s\<lparr>pb := (\<lambda>a. if a \<in> set as then None else pb s a),
           calls := calls s @ concat (map (freed_calls (pb s)) as)\<rparr>)"
proof -
  have "takeWhile (sole (pb s)) as = as" using assms(2) by simp
  moreover have "released (length as) as (pb s) = (\<lambda>a. if a \<in> set as then None else pb s a)"
    by (auto simp: released_def)
  ultimately show ?thesis using free_loop_effect [OF assms(1), of 0] assms(1)
    by (cases as) (auto simp: pbuf_free_def)
qed

section \<open>Total lengths\<close>

text \<open>The invariant of \<^verbatim>\<open>pbuf.h\<close>: \<^verbatim>\<open>tot_len\<close> is the length of the buffer and all that follow.\<close>

definition plen :: "pbufs \<Rightarrow> ptr \<Rightarrow> nat" where
  "plen st a = unat (pb_len (the (st a)))"

definition total_len :: "pbufs \<Rightarrow> ptr list \<Rightarrow> nat" where
  "total_len st as = sum_list (map (plen st) as)"

fun totals :: "pbufs \<Rightarrow> ptr list \<Rightarrow> bool" where
  "totals st [] = True"
| "totals st (a # as) = (unat (tot_len (the (st a))) = total_len st (a # as) \<and> totals st as)"

definition path_bytes :: "mem \<Rightarrow> pbufs \<Rightarrow> ptr list \<Rightarrow> u8 list" where
  "path_bytes m st as = concat (map (\<lambda>a. pbuf_bytes m (the (st a))) as)"

lemma total_len_simps [simp]: "total_len st [] = 0" "total_len st (a # as) = plen st a + total_len st as"
  by (simp_all add: total_len_def)

lemma total_len_append [simp]: "total_len st (as @ bs) = total_len st as + total_len st bs"
  by (simp add: total_len_def)

lemma path_bytes_simps [simp]:
  "path_bytes m st [] = []" "path_bytes m st (a # as) = pbuf_bytes m (the (st a)) @ path_bytes m st as"
  by (simp_all add: path_bytes_def)

lemma path_bytes_append [simp]: "path_bytes m st (as @ bs) = path_bytes m st as @ path_bytes m st bs"
  by (simp add: path_bytes_def)

lemma length_path_bytes [simp]: "length (path_bytes m st as) = total_len st as"
  by (induction as) (auto simp: plen_def)

lemma total_len_cong: "(\<And>a. a \<in> set as \<Longrightarrow> pb_len (the (st' a)) = pb_len (the (st a))) \<Longrightarrow> total_len st' as = total_len st as"
  unfolding total_len_def by (intro arg_cong [of _ _ sum_list] map_cong) (auto simp: plen_def)

lemma totals_cong:
  "(\<And>a. a \<in> set as \<Longrightarrow> pb_len (the (st' a)) = pb_len (the (st a)) \<and> tot_len (the (st' a)) = tot_len (the (st a))) \<Longrightarrow>
     totals st' as = totals st as"
proof (induction as)
  case (Cons a as)
  have "total_len st' (a # as) = total_len st (a # as)" using Cons.prems by (intro total_len_cong) auto
  then show ?case using Cons by simp
qed simp

lemma path_bytes_cong:
  "(\<And>a. a \<in> set as \<Longrightarrow> pb_len (the (st' a)) = pb_len (the (st a)) \<and> payload (the (st' a)) = payload (the (st a))) \<Longrightarrow>
     path_bytes m st' as = path_bytes m st as"
  unfolding path_bytes_def by (intro arg_cong [of _ _ concat] map_cong) (auto simp: pbuf_bytes_def)

section \<open>Joining\<close>

definition joined :: "ptr list \<Rightarrow> ptr \<Rightarrow> u16 \<Rightarrow> pbufs \<Rightarrow> pbufs" where
  "joined hs t n st = (\<lambda>a. if a \<in> set hs
     then map_option (\<lambda>b. b\<lparr>tot_len := tot_len b + n, pb_next := if a = last hs then t else pb_next b\<rparr>) (st a) else st a)"

lemma cat_loop_effect:
  assumes "path (pb s) h hs" "hs \<noteq> []" "pb s t = Some c" "t \<noteq> NULL" "t \<notin> set hs"
  shows "cat_loop h t s = Some (s\<lparr>pb := joined hs t (tot_len c) (pb s)\<rparr>)"
  using assms
proof (induction hs arbitrary: h s)
  case (Cons a hs)
  obtain b where b: "get_pb s h = Some b" "pb s a = Some b" "path (pb s) (pb_next b) hs" "h = a" "a \<noteq> NULL"
    using get_pb_path [OF Cons.prems(1)] Cons.prems(1) by auto
  have c: "get_pb s t = Some c" using Cons.prems by (simp add: get_pb_def)
  have na: "a \<notin> set hs" using path_distinct [OF Cons.prems(1)] by simp
  show ?case
  proof (cases hs)
    case Nil
    then have "pb_next b = NULL" using b(3) by simp
    moreover have "(pb s)(a \<mapsto> b\<lparr>tot_len := tot_len b + tot_len c, pb_next := t\<rparr>) = joined [a] t (tot_len c) (pb s)"
      using b by (auto simp: joined_def)
    ultimately show ?thesis using b c Nil by (subst cat_loop.simps) (simp add: put_pb_def)
  next
    case (Cons a' hs')
    let ?s = "put_pb a (b\<lparr>tot_len := tot_len b + tot_len c\<rparr>) s"
    have p: "path (pb ?s) (pb_next b) hs" using b(3) na by (simp add: put_pb_def path_upd_other)
    have nx: "pb_next b \<noteq> NULL" using b(3) Cons by auto
    have "cat_loop h t s = cat_loop (pb_next b) t ?s" using b c nx by (subst cat_loop.simps) simp
    also have "\<dots> = Some (?s\<lparr>pb := joined hs t (tot_len c) (pb ?s)\<rparr>)"
      using Cons.prems(3-5) Cons by (intro Cons.IH p) (auto simp: put_pb_def)
    also have "joined hs t (tot_len c) (pb ?s) = joined (a # hs) t (tot_len c) (pb s)"
    proof
      fix x
      have "last hs \<noteq> a" using na Cons last_in_set [of hs] by auto
      then show "joined hs t (tot_len c) (pb ?s) x = joined (a # hs) t (tot_len c) (pb s) x"
        using na b(2) Cons by (auto simp: joined_def put_pb_def)
    qed
    finally show ?thesis by (simp add: put_pb_def)
  qed
qed simp

lemma joined_path:
  assumes "path st h hs" "hs \<noteq> []" "path st t ts" "set hs \<inter> set ts = {}"
  shows "path (joined hs t n st) h (hs @ ts)"
  using assms
proof (induction hs arbitrary: h)
  case (Cons a hs)
  obtain b where b: "st a = Some b" "path st (pb_next b) hs" "h = a" "a \<noteq> NULL" using Cons.prems by auto
  have na: "a \<notin> set hs" using path_distinct [OF Cons.prems(1)] by simp
  show ?case
  proof (cases "hs = []")
    case True
    have "path (joined [a] t n st) t ts = path st t ts"
      using Cons.prems(4) True by (intro path_cong) (auto simp: joined_def)
    then show ?thesis using True b Cons.prems(3) by (simp add: joined_def)
  next
    case False
    have "path (joined hs t n st) (pb_next b) (hs @ ts)" using Cons.prems False b by (intro Cons.IH) auto
    moreover have "path (joined (a # hs) t n st) (pb_next b) (hs @ ts) = path (joined hs t n st) (pb_next b) (hs @ ts)"
      using na Cons.prems(4) False by (intro path_cong) (auto simp: joined_def)
    moreover have "joined (a # hs) t n st a = Some (b\<lparr>tot_len := tot_len b + n\<rparr>)"
      using b(1) False last_in_set [OF False] na by (auto simp: joined_def)
    ultimately show ?thesis using b(3,4) by simp
  qed
qed simp

lemma joined_same:
  assumes "st a \<noteq> None"
  shows "pb_len (the (joined hs t n st a)) = pb_len (the (st a))" "payload (the (joined hs t n st a)) = payload (the (st a))"
    "pb_ref (the (joined hs t n st a)) = pb_ref (the (st a))" "pb_type (the (joined hs t n st a)) = pb_type (the (st a))"
    "tot_len (the (joined hs t n st a)) = (if a \<in> set hs then tot_len (the (st a)) + n else tot_len (the (st a)))"
  using assms by (auto simp: joined_def)

lemma joined_totals:
  assumes p: "path st h hs" "totals st hs" "path st t ts" "totals st ts" and d: "set hs \<inter> set ts = {}"
    and n: "unat n = total_len st ts" and fit: "total_len st hs + total_len st ts < 2 ^ 16"
  shows "totals (joined hs t n st) (hs @ ts)"
proof -
  let ?st = "joined hs t n st"
  have dom: "st a \<noteq> None" if "a \<in> set hs \<union> set ts" for a using that path_not_NULL [OF p(1)] path_not_NULL [OF p(3)] by auto
  have len: "total_len ?st as = total_len st as" if "set as \<subseteq> set hs \<union> set ts" for as
    using that dom by (intro total_len_cong) (auto simp: joined_same subset_iff)
  have ts: "totals ?st ts" using p(4) d dom by (subst totals_cong [of ts ?st st]) (auto simp: joined_same)
  have "totals ?st (xs @ ts)" if "set xs \<subseteq> set hs" "totals st xs" "total_len st xs \<le> total_len st hs" for xs
    using that
  proof (induction xs)
    case (Cons a xs)
    have "tot_len (the (?st a)) = tot_len (the (st a)) + n" using dom Cons.prems by (simp add: joined_same)
    moreover have "unat (tot_len (the (st a)) + n) = total_len st (a # xs) + total_len st ts"
      using Cons.prems n fit by (simp add: unat_word_ariths)
    moreover have "total_len ?st ((a # xs) @ ts) = total_len st ((a # xs) @ ts)" using Cons.prems by (intro len) auto
    ultimately show ?case using Cons by simp
  qed (use ts in simp)
  then show ?thesis using p(2) by simp
qed

section \<open>Packets\<close>

text \<open>A packet is a chain whose totals are right; its contents are the bytes of its buffers.\<close>

definition packet :: "lwip \<Rightarrow> ptr \<Rightarrow> ptr list \<Rightarrow> bool" where
  "packet s p as \<longleftrightarrow> path (pb s) p as \<and> totals (pb s) as"

definition packet_bytes :: "lwip \<Rightarrow> ptr list \<Rightarrow> u8 list" where
  "packet_bytes s as = path_bytes (pram s) (pb s) as"

lemma path_head: "path st p as \<Longrightarrow> as \<noteq> [] \<Longrightarrow> p = hd as \<and> p \<noteq> NULL \<and> (\<exists>b. st p = Some b)"
  by (cases as) auto

lemma pbuf_cat_joined:
  assumes "path (pb s) h hs" "hs \<noteq> []" "path (pb s) t ts" "ts \<noteq> []" "set hs \<inter> set ts = {}"
  shows "pbuf_cat h t s = Some (s\<lparr>pb := joined hs t (tot_len (the (pb s t))) (pb s)\<rparr>)"
proof -
  have h: "h \<noteq> NULL" using path_head [OF assms(1,2)] by blast
  obtain c where c: "t = hd ts" "t \<noteq> NULL" "pb s t = Some c" using path_head [OF assms(3,4)] by auto
  have "t \<notin> set hs" using assms(4,5) c(1) by (cases ts) auto
  then show ?thesis using cat_loop_effect [OF assms(1,2) c(3,2)] h c by (simp add: pbuf_cat_def)
qed

lemma joined_packet:
  assumes h: "packet s h hs" and t: "packet s t ts" and ne: "hs \<noteq> []" "ts \<noteq> []" and d: "set hs \<inter> set ts = {}"
    and fit: "total_len (pb s) hs + total_len (pb s) ts < 2 ^ 16"
  defines "s' \<equiv> s\<lparr>pb := joined hs t (tot_len (the (pb s t))) (pb s)\<rparr>"
  shows "packet s' h (hs @ ts)" "packet s' t ts" "packet_bytes s' (hs @ ts) = packet_bytes s hs @ packet_bytes s ts"
proof -
  let ?st = "joined hs t (tot_len (the (pb s t))) (pb s)"
  have p: "path (pb s) h hs" "totals (pb s) hs" "path (pb s) t ts" "totals (pb s) ts"
    using h t by (simp_all add: packet_def)
  have dom: "pb s a \<noteq> None" if "a \<in> set (hs @ ts)" for a
    using that path_not_NULL [OF p(1)] path_not_NULL [OF p(3)] by auto
  have n: "unat (tot_len (the (pb s t))) = total_len (pb s) ts" using p(3,4) ne(2) by (cases ts) auto
  have "totals ?st ts = totals (pb s) ts" using d dom by (intro totals_cong) (auto simp: joined_same)
  moreover have "path ?st t ts = path (pb s) t ts" using d by (intro path_cong) (auto simp: joined_def)
  ultimately show "packet s' t ts" using p by (simp add: packet_def s'_def)
  show "packet s' h (hs @ ts)"
    using joined_path [OF p(1) ne(1) p(3) d] joined_totals [OF p d n fit] by (simp add: packet_def s'_def)
  have "path_bytes (pram s) ?st (hs @ ts) = path_bytes (pram s) (pb s) (hs @ ts)"
    using dom by (intro path_bytes_cong) (auto simp: joined_same)
  then show "packet_bytes s' (hs @ ts) = packet_bytes s hs @ packet_bytes s ts"
    by (simp add: packet_bytes_def s'_def)
qed

lemma pbuf_ref_effect:
  assumes "pb s p = Some b" "p \<noteq> NULL"
  shows "pbuf_ref p s = Some (s\<lparr>pb := (pb s)(p \<mapsto> b\<lparr>pb_ref := pb_ref b + 1\<rparr>)\<rparr>)"
  using assms by (simp add: pbuf_ref_def get_pb_def put_pb_def)

text \<open>A change of reference counts keeps packets.\<close>

lemma packet_ref:
  fixes r :: u16
  assumes "pb s p = Some b"
  defines "s' \<equiv> s\<lparr>pb := (pb s)(p \<mapsto> b\<lparr>pb_ref := r\<rparr>)\<rparr>"
  shows "packet s' q as = packet s q as" "packet_bytes s' as = packet_bytes s as"
proof -
  have "path (pb s') q as = path (pb s) q as" using assms by (intro path_cong) auto
  moreover have "totals (pb s') as = totals (pb s) as" using assms by (intro totals_cong) auto
  ultimately show "packet s' q as = packet s q as" by (simp add: packet_def)
  have "path_bytes (pram s) (pb s') as = path_bytes (pram s) (pb s) as" using assms by (intro path_bytes_cong) auto
  then show "packet_bytes s' as = packet_bytes s as" by (simp add: packet_bytes_def s'_def)
qed

lemma pbuf_chain_effect:
  assumes "path (pb s) h hs" "path (pb s) t ts" "hs \<noteq> []" "ts \<noteq> []" "set hs \<inter> set ts = {}" "pb s t = Some c"
  defines "s' \<equiv> s\<lparr>pb := joined hs t (tot_len c) (pb s)\<rparr>"
  shows "pbuf_chain h t s = Some (s'\<lparr>pb := (pb s')(t \<mapsto> c\<lparr>pb_ref := pb_ref c + 1\<rparr>)\<rparr>)" "pb s' t = Some c" "t \<notin> set hs"
proof -
  have t: "t \<noteq> NULL" "t = hd ts" using path_head [OF assms(2,4)] by auto
  show tn: "t \<notin> set hs" using t(2) assms(4,5) by (cases ts) auto
  then show st: "pb s' t = Some c" using assms(6) by (simp add: joined_def s'_def)
  show "pbuf_chain h t s = Some (s'\<lparr>pb := (pb s')(t \<mapsto> c\<lparr>pb_ref := pb_ref c + 1\<rparr>)\<rparr>)"
    using pbuf_cat_joined [OF assms(1,3,2,4,5)] pbuf_ref_effect [OF st t(1)] assms(6) by (simp add: pbuf_chain_def s'_def)
qed

text \<open>C26. Chaining two packets whose total length fits 16 bits gives one packet with the bytes of both, in which every
  total length is right; the second packet keeps its own view and gains one reference, no other count changes.\<close>
theorem pbuf_chain_packet:
  assumes "packet s h hs" "packet s t ts" "hs \<noteq> []" "ts \<noteq> []" "set hs \<inter> set ts = {}"
    and "length (packet_bytes s hs) + length (packet_bytes s ts) < 2 ^ 16"
  shows "\<exists>s'. pbuf_chain h t s = Some s' \<and> packet s' h (hs @ ts) \<and> packet s' t ts
           \<and> packet_bytes s' (hs @ ts) = packet_bytes s hs @ packet_bytes s ts
           \<and> (\<forall>a. map_option pb_ref (pb s' a) = map_option (\<lambda>b. if a = t then pb_ref b + 1 else pb_ref b) (pb s a))
           \<and> pram s' = pram s \<and> calls s' = calls s"
proof -
  have p: "path (pb s) h hs" "path (pb s) t ts" using assms(1,2) by (simp_all add: packet_def)
  have fit: "total_len (pb s) hs + total_len (pb s) ts < 2 ^ 16" using assms(6) by (simp add: packet_bytes_def)
  obtain c where c: "pb s t = Some c" using path_head [OF p(2) assms(4)] by auto
  let ?s = "s\<lparr>pb := joined hs t (tot_len c) (pb s)\<rparr>"
  let ?s' = "?s\<lparr>pb := (pb ?s)(t \<mapsto> c\<lparr>pb_ref := pb_ref c + 1\<rparr>)\<rparr>"
  note e = pbuf_chain_effect [OF p assms(3-5) c]
  have "packet ?s' h (hs @ ts)" "packet ?s' t ts"
      "packet_bytes ?s' (hs @ ts) = packet_bytes s hs @ packet_bytes s ts"
    using joined_packet [OF assms(1-5) fit] c packet_ref [where p = t and b = c and s = ?s and r = "pb_ref c + 1", OF e(2)]
    by simp_all
  moreover have "map_option pb_ref (pb ?s' a) = map_option (\<lambda>b. if a = t then pb_ref b + 1 else pb_ref b) (pb s a)" for a
    using c by (cases "pb s a") (auto simp: joined_def)
  ultimately show ?thesis using e(1) by (intro exI [of _ ?s']) simp
qed

text \<open>Releasing a chain gives back exactly the buffers at its head that have no other reference, in order, and takes
  one reference from the next one; the count of freed buffers is returned in 8 bits.\<close>
theorem pbuf_free_releases:
  assumes "path (pb s) p as" "p \<noteq> NULL"
  shows "\<exists>s'. pbuf_free p s = Some (of_nat (length (takeWhile (sole (pb s)) as)), s')
           \<and> (\<forall>a\<in>set (takeWhile (sole (pb s)) as). pb s' a = None)
           \<and> (case dropWhile (sole (pb s)) as of [] \<Rightarrow> True
              | a # _ \<Rightarrow> pb s' a = map_option (\<lambda>b. b\<lparr>pb_ref := pb_ref b - 1\<rparr>) (pb s a))
           \<and> (\<forall>a. a \<notin> set (takeWhile (sole (pb s)) as) \<and> (\<forall>b bs. dropWhile (sole (pb s)) as = b # bs \<longrightarrow> a \<noteq> b)
                \<longrightarrow> pb s' a = pb s a)
           \<and> calls s' = calls s @ concat (map (freed_calls (pb s)) (takeWhile (sole (pb s)) as))"
proof -
  let ?k = "length (takeWhile (sole (pb s)) as)"
  have tk: "take ?k as = takeWhile (sole (pb s)) as" by (rule takeWhile_eq_take [symmetric])
  have dk: "dropWhile (sole (pb s)) as = drop ?k as" by (rule dropWhile_eq_drop)
  have nth: "?k < length as \<Longrightarrow> drop ?k as = as ! ?k # drop (Suc ?k) as" by (simp add: Cons_nth_drop_Suc)
  have nx: "?k < length as \<Longrightarrow> as ! ?k \<notin> set (takeWhile (sole (pb s)) as)"
    using nth_length_takeWhile [of "sole (pb s)" as] by (auto dest: set_takeWhileD)
  let ?s' = "s\<lparr>pb := released ?k as (pb s), calls := calls s @ concat (map (freed_calls (pb s)) (take ?k as))\<rparr>"
  have "pbuf_free p s = Some (of_nat ?k, ?s')" using free_loop_effect [OF assms(1), of 0] assms(2) by (simp add: pbuf_free_def)
  moreover have "\<forall>a\<in>set (takeWhile (sole (pb s)) as). pb ?s' a = None" by (simp add: released_def tk)
  moreover have "case dropWhile (sole (pb s)) as of [] \<Rightarrow> True
      | a # _ \<Rightarrow> pb ?s' a = map_option (\<lambda>b. b\<lparr>pb_ref := pb_ref b - 1\<rparr>) (pb s a)"
    using nth nx by (cases "?k < length as") (auto simp: released_def tk dk)
  moreover have "pb ?s' a = pb s a"
    if "a \<notin> set (takeWhile (sole (pb s)) as)" "\<forall>b bs. dropWhile (sole (pb s)) as = b # bs \<longrightarrow> a \<noteq> b" for a
    using that nth by (auto simp: released_def tk dk)
  ultimately show ?thesis by (intro exI [of _ ?s']) (simp add: tk)
qed

text \<open>The owner of a packet may chain it behind another and let that one go: releasing the first packet frees its
  buffers and leaves everything else, the second packet and its count included, as it was.\<close>
theorem pbuf_chain_then_free:
  assumes "path (pb s) h hs" "path (pb s) t ts" "hs \<noteq> []" "ts \<noteq> []" "set hs \<inter> set ts = {}"
    and "\<forall>a\<in>set hs. sole (pb s) a" "pb_ref (the (pb s t)) \<noteq> 0"
  shows "\<exists>s1 s2. pbuf_chain h t s = Some s1 \<and> pbuf_free h s1 = Some (of_nat (length hs), s2)
           \<and> pb s2 = (\<lambda>a. if a \<in> set hs then None else pb s a) \<and> pram s2 = pram s"
proof -
  obtain c where c: "pb s t = Some c" using path_head [OF assms(2,4)] by auto
  let ?s = "s\<lparr>pb := joined hs t (tot_len c) (pb s)\<rparr>"
  let ?s' = "?s\<lparr>pb := (pb ?s)(t \<mapsto> c\<lparr>pb_ref := pb_ref c + 1\<rparr>)\<rparr>"
  note e = pbuf_chain_effect [OF assms(1-5) c]
  have "path (pb ?s') h (hs @ ts) = path (pb ?s) h (hs @ ts)" using e(2) by (intro path_cong) auto
  then have p: "path (pb ?s') h (hs @ ts)" using joined_path [OF assms(1,3,2,5)] by simp
  have "sole (pb ?s') a" if "a \<in> set hs" for a
    using that assms(6) e(3) path_not_NULL [OF assms(1) that] by (auto simp: sole_def joined_same)
  moreover have "\<not> sole (pb ?s') t" using assms(7) c by (simp add: sole_def)
  moreover obtain ts' where ts: "ts = t # ts'" using path_head [OF assms(2,4)] assms(4) by (cases ts) auto
  ultimately have tw: "takeWhile (sole (pb ?s')) (hs @ ts) = hs" by simp
  have "released (length hs) (hs @ ts) (pb ?s') x = (if x \<in> set hs then None else pb s x)" for x
    using c e(3) ts by (auto simp: released_def joined_def)
  then have rel: "released (length hs) (hs @ ts) (pb ?s') = (\<lambda>x. if x \<in> set hs then None else pb s x)" ..
  have "h \<noteq> NULL" using path_head [OF assms(1,3)] by simp
  then show ?thesis using e(1) free_loop_effect [OF p, of 0] rel unfolding tw by (simp add: pbuf_free_def)
qed

text \<open>A store for the examples: a chain of three buffers with 1, 2 and 3 references (the first example in the comment of
  \<^verbatim>\<open>pbuf_free\<close>) and a packet of one buffer.\<close>

definition demo_buf :: "ptr \<Rightarrow> ptr \<Rightarrow> u16 \<Rightarrow> u16 \<Rightarrow> u16 \<Rightarrow> pbuf" where
  "demo_buf nx a tot n r =
     \<lparr>pb_next = nx, payload = a, tot_len = tot, pb_len = n, pb_type = 0, pb_flags = 0, pb_ref = r, pb_eb = NULL\<rparr>"

definition demo_lwip :: lwip where
  "demo_lwip = \<lparr>pb = [100 \<mapsto> demo_buf 200 1000 6 2 1, 200 \<mapsto> demo_buf 300 1010 4 3 2, 300 \<mapsto> demo_buf 0 1020 1 1 3,
                     500 \<mapsto> demo_buf 0 1030 2 2 1, 600 \<mapsto> demo_buf 700 1040 5 3 1, 700 \<mapsto> demo_buf 0 1050 2 2 1],
     pram = (\<lambda>a. if 1000 \<le> a \<and> a < 1100 then Some (of_nat a) else None), calls = []\<rparr>"

lemmas demo_simps = demo_lwip_def demo_buf_def packet_def packet_bytes_def total_len_def plen_def sole_def

theorem pbuf_free_releases_witness:
  "\<exists>s'. pbuf_free 100 demo_lwip = Some (1, s') \<and> pb s' 100 = None \<and> map_option pb_ref (pb s' 200) = Some 1
      \<and> pb s' 300 = pb demo_lwip 300 \<and> calls s' = [Mem_free 100]"
  using pbuf_free_releases [of demo_lwip 100 "[100, 200, 300]"]
  by (auto simp: demo_simps freed_calls_def PBUF_ROM_def PBUF_REF_def PBUF_ESF_RX_def Let_def)

theorem pbuf_chain_packet_witness:
  "\<exists>s'. pbuf_chain 500 600 demo_lwip = Some s' \<and> packet s' 500 [500, 600, 700]
      \<and> length (packet_bytes s' [500, 600, 700]) = 7 \<and> map_option pb_ref (pb s' 600) = Some 2"
proof -
  have "packet demo_lwip 500 [500]" "packet demo_lwip 600 [600, 700]"
      "length (packet_bytes demo_lwip [500]) + length (packet_bytes demo_lwip [600, 700]) < 2 ^ 16"
      "length (packet_bytes demo_lwip [500] @ packet_bytes demo_lwip [600, 700]) = 7"
    by (simp_all add: demo_simps)
  then obtain s' where "pbuf_chain 500 600 demo_lwip = Some s'" "packet s' 500 [500, 600, 700]"
      "length (packet_bytes s' [500, 600, 700]) = 7"
      "map_option pb_ref (pb s' 600) = map_option (\<lambda>b. pb_ref b + 1) (pb demo_lwip 600)"
    using pbuf_chain_packet [of demo_lwip 500 "[500]" 600 "[600, 700]"] by fastforce
  then show ?thesis by (simp add: demo_lwip_def demo_buf_def)
qed

theorem pbuf_chain_then_free_witness:
  "\<exists>s1 s2. pbuf_chain 500 600 demo_lwip = Some s1 \<and> pbuf_free 500 s1 = Some (1, s2) \<and> pb s2 500 = None
      \<and> pb s2 600 = pb demo_lwip 600"
  using pbuf_chain_then_free [of demo_lwip 500 "[500]" 600 "[600, 700]"] by (auto simp: demo_simps)

section \<open>Trimming\<close>

definition grown :: "ptr list \<Rightarrow> u16 \<Rightarrow> pbufs \<Rightarrow> pbufs" where
  "grown xs g st = (\<lambda>a. if a \<in> set xs then map_option (\<lambda>b. b\<lparr>tot_len := tot_len b + g\<rparr>) (st a) else st a)"

lemma realloc_loop_effect:
  assumes "path (pb s) q as" "as \<noteq> []" "unat n \<le> total_len (pb s) as"
  shows "\<exists>xs a ys. as = xs @ a # ys \<and> total_len (pb s) xs \<le> unat n \<and> unat n \<le> total_len (pb s) xs + plen (pb s) a
           \<and> realloc_loop q n g s
             = Some (a, n - of_nat (total_len (pb s) xs), s\<lparr>pb := grown xs (word_of_int g) (pb s)\<rparr>)"
  using assms
proof (induction as arbitrary: q n s)
  case (Cons a as)
  obtain b where b: "get_pb s q = Some b" "pb s a = Some b" "path (pb s) (pb_next b) as" "q = a"
    using get_pb_path [OF Cons.prems(1)] Cons.prems(1) by auto
  have na: "a \<notin> set as" using path_distinct [OF Cons.prems(1)] by simp
  show ?case
  proof (cases "pb_len b < n")
    case False
    then have "realloc_loop q n g s = Some (a, n, s)" using b by (subst realloc_loop.simps) simp
    moreover have "unat n \<le> plen (pb s) a" using False b by (simp add: plen_def word_le_nat_alt not_less)
    ultimately show ?thesis by (intro exI [of _ "[]"] exI [of _ a] exI [of _ as]) (simp add: grown_def)
  next
    case True
    let ?s = "put_pb a (b\<lparr>tot_len := tot_len b + word_of_int g\<rparr>) s"
    have lb: "unat (pb_len b) < unat n" using True by (simp add: word_less_nat_alt)
    have len: "total_len (pb ?s) zs = total_len (pb s) zs" for zs
      using b(2) by (intro total_len_cong) (auto simp: put_pb_def)
    have pl: "plen (pb ?s) z = plen (pb s) z" for z using b(2) by (simp add: plen_def put_pb_def)
    have un: "unat (n - pb_len b) = unat n - unat (pb_len b)" using True by (simp add: unat_sub)
    have rest: "unat (n - pb_len b) \<le> total_len (pb s) as" using Cons.prems(3) b(2) un by (simp add: plen_def)
    then have "as \<noteq> []" using lb un by auto
    moreover have "path (pb ?s) (pb_next b) as" using b(3) na by (simp add: put_pb_def path_upd_other)
    ultimately obtain xs c ys where i: "as = xs @ c # ys" "total_len (pb s) xs \<le> unat (n - pb_len b)"
        "unat (n - pb_len b) \<le> total_len (pb s) xs + plen (pb s) c"
        "realloc_loop (pb_next b) (n - pb_len b) g ?s
           = Some (c, n - pb_len b - of_nat (total_len (pb s) xs), ?s\<lparr>pb := grown xs (word_of_int g) (pb ?s)\<rparr>)"
      using Cons.IH [of ?s "pb_next b" "n - pb_len b"] rest unfolding len pl by blast
    have "realloc_loop q n g s = realloc_loop (pb_next b) (n - pb_len b) g ?s"
      using b True by (subst realloc_loop.simps) simp
    moreover have "grown xs (word_of_int g) (pb ?s) = grown (a # xs) (word_of_int g) (pb s)"
      using na i(1) b(2) by (auto simp: grown_def put_pb_def)
    moreover have "n - pb_len b - of_nat (total_len (pb s) xs) = n - of_nat (total_len (pb s) (a # xs))"
      using b(2) by (simp add: plen_def)
    ultimately have "realloc_loop q n g s = Some (c, n - of_nat (total_len (pb s) (a # xs)),
        s\<lparr>pb := grown (a # xs) (word_of_int g) (pb s)\<rparr>)" using i(4) by (simp add: put_pb_def)
    moreover have "a # as = (a # xs) @ c # ys" "total_len (pb s) (a # xs) \<le> unat n"
        "unat n \<le> total_len (pb s) (a # xs) + plen (pb s) c"
      using i(1-3) un lb b(2) by (simp_all add: plen_def)
    ultimately show ?thesis by blast
  qed
qed simp

lemma path_cut:
  assumes "path st p (xs @ a # ys)" "\<And>x. x \<in> set xs \<Longrightarrow> map_option pb_next (st' x) = map_option pb_next (st x)"
    "st' a = Some b" "pb_next b = NULL"
  shows "path st' p (xs @ [a])"
  using assms
proof (induction xs arbitrary: p)
  case (Cons x xs)
  obtain c where c: "st x = Some c" "path st (pb_next c) (xs @ a # ys)" "p = x" "x \<noteq> NULL" using Cons.prems(1) by auto
  have "map_option pb_next (st' x) = map_option pb_next (st x)" by (rule Cons.prems) simp
  moreover have "path st' (pb_next c) (xs @ [a])" using c(2) Cons.prems by (intro Cons.IH) auto
  ultimately show ?case using c by (auto simp: map_option_case split: option.splits)
qed auto

lemma trimmed_totals:
  fixes n :: nat
  assumes "totals st (xs @ a # ys)" and n: "total_len st xs \<le> n" "n < 2 ^ 16"
    and xs: "\<And>x. x \<in> set xs \<Longrightarrow> pb_len (the (st' x)) = pb_len (the (st x))
      \<and> tot_len (the (st' x)) = tot_len (the (st x)) + word_of_int (int n - int (total_len st (xs @ a # ys)))"
    and a: "pb_len (the (st' a)) = of_nat (n - total_len st xs)" "tot_len (the (st' a)) = of_nat (n - total_len st xs)"
  shows "totals st' (xs @ [a])"
proof -
  have un: "unat (of_nat (n - total_len st xs) :: u16) = n - total_len st xs" using n by (intro unat_of_nat_u16) simp
  have "totals st' (zs @ [a])"
    if "set zs \<subseteq> set xs" "totals st (zs @ a # ys)" "total_len st zs \<le> total_len st xs" for zs
    using that
  proof (induction zs)
    case (Cons z zs)
    have "total_len st' (z # zs) = total_len st (z # zs)" using Cons.prems xs by (intro total_len_cong) auto
    then have tl: "total_len st' ((z # zs) @ [a]) = total_len st (z # zs) + (n - total_len st xs)"
      using a(1) un by (simp add: plen_def)
    have "tot_len (the (st z)) = of_nat (total_len st ((z # zs) @ a # ys))"
    proof -
      have "unat (tot_len (the (st z))) = total_len st ((z # zs) @ a # ys)" using Cons.prems(2) by simp
      from arg_cong [OF this, of "word_of_nat :: nat \<Rightarrow> u16"] show ?thesis by simp
    qed
    then have "tot_len (the (st' z)) = of_nat (total_len st (z # zs) + (n - total_len st xs))"
      using xs [of z] Cons.prems(1) n by (simp add: of_nat_diff)
    moreover have "total_len st (z # zs) + (n - total_len st xs) < 2 ^ 16" using Cons.prems(3) n by simp
    ultimately have "unat (tot_len (the (st' z))) = total_len st' ((z # zs) @ [a])" unfolding tl by (simp only: unat_of_nat_u16)
    then show ?case using Cons by simp
  qed (use a un in \<open>simp add: plen_def\<close>)
  then show ?thesis using assms(1) by simp
qed

lemma take_path_bytes:
  assumes "total_len st xs \<le> n" "n \<le> total_len st xs + plen st a"
  shows "take n (path_bytes m st (xs @ a # ys)) = path_bytes m st xs @ bytes_at m (payload (the (st a))) (n - total_len st xs)"
  using assms by (simp add: pbuf_bytes_def plen_def take_bytes_at)

definition trimmed :: "ptr list \<Rightarrow> ptr \<Rightarrow> ptr list \<Rightarrow> u16 \<Rightarrow> u16 \<Rightarrow> pbufs \<Rightarrow> pbufs" where
  "trimmed xs a ys r g st = (\<lambda>x. if x \<in> set ys then None
     else if x = a then map_option (\<lambda>b. b\<lparr>pb_len := r, tot_len := r, pb_next := NULL\<rparr>) (st a) else grown xs g st x)"

lemma pbuf_realloc_effect:
  assumes p: "path (pb s) p (xs @ a # ys)" and sole: "\<forall>y\<in>set ys. sole (pb s) y"
    and b: "pb s p = Some b" and n: "\<not> tot_len b \<le> n"
    and loop: "realloc_loop p n (uint n - uint (tot_len b)) s = Some (a, r, s\<lparr>pb := grown xs g (pb s)\<rparr>)"
  shows "\<exists>cs. pbuf_realloc p n s = Some (s\<lparr>calls := cs, pb := trimmed xs a ys r g (pb s)\<rparr>)"
proof -
  have p0: "p \<noteq> NULL" using path_head [OF p] by simp
  have dist: "distinct (xs @ a # ys)" using path_distinct [OF p] .
  obtain c where c: "pb s a = Some c" "a \<noteq> NULL" "path (pb s) (pb_next c) ys" using path_suffix [OF p] by auto
  let ?s1 = "s\<lparr>pb := (grown xs g (pb s))(a \<mapsto> c\<lparr>pb_len := r, tot_len := r\<rparr>)\<rparr>"
  let ?s2 = "?s1\<lparr>pb := (\<lambda>x. if x \<in> set ys then None else pb ?s1 x), calls := calls s @ concat (map (freed_calls (pb ?s1)) ys)\<rparr>"
  have same: "pb ?s1 y = pb s y" if "y \<in> set ys" for y using that dist by (auto simp: grown_def)
  then have py: "path (pb ?s1) (pb_next c) ys" using c(3) by (subst path_cong [of ys _ "pb s"]) auto
  have "\<forall>y\<in>set ys. sole (pb ?s1) y" using sole same by (simp add: sole_def)
  then have fr: "pbuf_free (pb_next c) ?s1 = Some (of_nat (length ys), ?s2)" using pbuf_free_all [OF py] by simp
  have ga: "grown xs g (pb s) a = Some c" using c(1) dist by (simp add: grown_def)
  have "(pb ?s2)(a \<mapsto> c\<lparr>pb_len := r, tot_len := r, pb_next := NULL\<rparr>) = trimmed xs a ys r g (pb s)"
    using c(1) dist by (auto simp: trimmed_def)
  moreover have "pbuf_realloc p n s = Some (?s2\<lparr>pb := (pb ?s2)(a \<mapsto> c\<lparr>pb_len := r, tot_len := r, pb_next := NULL\<rparr>)\<rparr>)"
  proof (cases "pb_next c = NULL")
    case True
    then have "ys = []" using c(3) by simp
    then show ?thesis using True b p0 n loop c(1,2) ga
      by (simp add: pbuf_realloc_def get_pb_def put_pb_def Let_def fun_upd_def cong: if_cong)
  next
    case False
    then show ?thesis using b p0 n loop c(1,2) dist fr ga by (simp add: pbuf_realloc_def get_pb_def put_pb_def Let_def)
  qed
  ultimately show ?thesis by auto
qed

lemma trimmed_packet:
  fixes n :: u16
  assumes p: "path st p (xs @ a # ys)" "totals st (xs @ a # ys)"
    and n: "total_len st xs \<le> unat n" "unat n \<le> total_len st xs + plen st a"
    and g: "g = word_of_int (uint n - int (total_len st (xs @ a # ys)))" and r: "r = n - of_nat (total_len st xs)"
  defines "st' \<equiv> trimmed xs a ys r g st"
  shows "path st' p (xs @ [a])" "totals st' (xs @ [a])" "path_bytes m st' (xs @ [a]) = take (unat n) (path_bytes m st (xs @ a # ys))"
proof -
  have dist: "distinct (xs @ a # ys)" using path_distinct [OF p(1)] .
  have r': "r = of_nat (unat n - total_len st xs)" unfolding r using n(1) by (simp add: of_nat_diff)
  have ur: "unat r = unat n - total_len st xs"
    unfolding r' using unsigned_less [of n, where 'a = nat] by (intro unat_of_nat_u16) simp
  obtain c where c: "st a = Some c" using path_suffix [OF p(1)] by auto
  have a: "st' a = Some (c\<lparr>pb_len := r, tot_len := r, pb_next := NULL\<rparr>)" using c dist by (simp add: st'_def trimmed_def)
  have x: "st' x = map_option (\<lambda>b. b\<lparr>tot_len := tot_len b + g\<rparr>) (st x)" "st x \<noteq> None" if "x \<in> set xs" for x
    using that dist path_not_NULL [OF p(1), of x] by (auto simp: st'_def trimmed_def grown_def)
  show "path st' p (xs @ [a])" using x a by (intro path_cut [of st p xs a ys st', OF p(1)]) (auto simp: option.map_comp o_def)
  show "totals st' (xs @ [a])"
    using x a r' g unsigned_less [of n, where 'a = nat]
    by (intro trimmed_totals [OF p(2) n(1)]) (auto simp: option.map_sel)
  have "path_bytes m st' xs = path_bytes m st xs" using x by (intro path_bytes_cong) (auto simp: option.map_sel)
  then show "path_bytes m st' (xs @ [a]) = take (unat n) (path_bytes m st (xs @ a # ys))"
    unfolding take_path_bytes [OF n] using a c ur by (simp add: pbuf_bytes_def)
qed

text \<open>Trimming a packet keeps exactly its first bytes: the result is a packet again, made of the first buffers, the
  buffers behind them are released, and a length that is not smaller changes nothing.\<close>
theorem pbuf_realloc_takes:
  assumes "packet s p as" "as \<noteq> []" "\<forall>a\<in>set as. sole (pb s) a"
  shows "\<exists>s' bs cs. pbuf_realloc p n s = Some s' \<and> as = bs @ cs \<and> packet s' p bs
           \<and> packet_bytes s' bs = take (unat n) (packet_bytes s as)
           \<and> (\<forall>a\<in>set cs. pb s' a = None) \<and> (\<forall>a. a \<notin> set as \<longrightarrow> pb s' a = pb s a) \<and> pram s' = pram s"
proof -
  have p: "path (pb s) p as" "totals (pb s) as" using assms(1) by (simp_all add: packet_def)
  obtain b where b: "pb s p = Some b" "p \<noteq> NULL" using path_head [OF p(1) assms(2)] by auto
  have tot: "unat (tot_len b) = total_len (pb s) as" using p b assms(2) by (cases as) auto
  show ?thesis
  proof (cases "tot_len b \<le> n")
    case True
    then have "pbuf_realloc p n s = Some s" using b by (simp add: pbuf_realloc_def get_pb_def)
    moreover have "take (unat n) (packet_bytes s as) = packet_bytes s as"
      using True tot by (simp add: packet_bytes_def word_le_nat_alt)
    ultimately show ?thesis using assms(1) by (intro exI [of _ s] exI [of _ as] exI [of _ "[]"]) simp
  next
    case False
    let ?g = "uint n - uint (tot_len b)"
    have lt: "unat n < total_len (pb s) as" using False tot by (simp add: word_le_nat_alt)
    obtain xs a ys where e: "as = xs @ a # ys" "total_len (pb s) xs \<le> unat n" "unat n \<le> total_len (pb s) xs + plen (pb s) a"
        "realloc_loop p n ?g s = Some (a, n - of_nat (total_len (pb s) xs), s\<lparr>pb := grown xs (word_of_int ?g) (pb s)\<rparr>)"
      using realloc_loop_effect [OF p(1) assms(2), of n ?g] lt by auto
    have p': "path (pb s) p (xs @ a # ys)" "totals (pb s) (xs @ a # ys)" using p e(1) by simp_all
    let ?st = "trimmed xs a ys (n - of_nat (total_len (pb s) xs)) (word_of_int ?g) (pb s)"
    obtain cs where run: "pbuf_realloc p n s = Some (s\<lparr>calls := cs, pb := ?st\<rparr>)"
      using pbuf_realloc_effect [OF p'(1) _ b(1) False e(4)] assms(3) e(1) by auto
    have "uint (tot_len b) = int (total_len (pb s) (xs @ a # ys))" using tot e(1) by (metis uint_nat)
    then have "packet (s\<lparr>calls := cs, pb := ?st\<rparr>) p (xs @ [a])"
        "packet_bytes (s\<lparr>calls := cs, pb := ?st\<rparr>) (xs @ [a]) = take (unat n) (packet_bytes s as)"
      using trimmed_packet [OF p' e(2,3) _ refl, of "word_of_int ?g"] e(1) by (simp_all add: packet_def packet_bytes_def)
    moreover have "as = (xs @ [a]) @ ys" "\<forall>y\<in>set ys. ?st y = None" "\<forall>x. x \<notin> set as \<longrightarrow> ?st x = pb s x"
      using e(1) by (auto simp: trimmed_def grown_def)
    ultimately show ?thesis using run
      by - (rule exI [of _ "s\<lparr>calls := cs, pb := ?st\<rparr>"], rule exI [of _ "xs @ [a]"], rule exI [of _ ys], simp)
  qed
qed

theorem pbuf_realloc_takes_witness:
  "\<exists>s' bs cs. pbuf_realloc 600 4 demo_lwip = Some s' \<and> [600, 700] = bs @ cs \<and> packet s' 600 bs
      \<and> packet_bytes s' bs = [16, 17, 18, 26]"
proof -
  have "packet demo_lwip 600 [600, 700]" "\<forall>a\<in>set [600, 700]. sole (pb demo_lwip) a"
    by (simp_all add: demo_simps)
  moreover have "take (unat (4 :: u16)) (packet_bytes demo_lwip [600, 700]) = [16, 17, 18, 26]"
    by (simp add: demo_simps pbuf_bytes_def bytes_at_def upt_rec)
  ultimately show ?thesis using pbuf_realloc_takes [of demo_lwip 600 "[600, 700]" 4] by auto
qed

end
