(* ===== verification/Lwip_Pbuf_Data.thy ===== *)
theory Lwip_Pbuf_Data
  imports Lwip_Pbuf_Proofs
begin

text \<open>
  The bytes of a packet: hiding and revealing headers, copying out of and into a chain, and searching in it.
\<close>

section \<open>Storing bytes\<close>

definition stored :: "ptr \<Rightarrow> u8 list \<Rightarrow> mem \<Rightarrow> mem" where
  "stored d bs m = (\<lambda>a. if d \<le> a \<and> a < d + length bs then Some (bs ! (a - d)) else m a)"

lemma stored_Nil [simp]: "stored d [] m = m"
  by (rule ext) (auto simp: stored_def)

lemma stored_append: "stored (d + length xs) ys (stored d xs m) = stored d (xs @ ys) m"
  by (rule ext) (auto simp: stored_def nth_append)

lemma memcpy_stored:
  assumes "valid_range m d n" "valid_range m a n" "disjoint_ranges d n a n"
  shows "memcpy d a n m = Some (stored d (bytes_at m a n) m)"
proof -
  have "m (a + i) = Some (bytes_at m a n ! i)" if "i < n" for i
    using that assms(2) by (auto simp: valid_range_iff)
  then have "(if d \<le> x \<and> x < d + n then m (a + (x - d)) else m x) = stored d (bytes_at m a n) m x" for x
    by (cases "d \<le> x") (auto simp: stored_def dest!: le_Suc_ex)
  then show ?thesis using assms by (auto simp: memcpy_def)
qed

lemma valid_range_stored: "valid_range m a n \<Longrightarrow> valid_range (stored d bs m) a n"
  by (auto simp: valid_range_iff stored_def)

lemma bytes_at_stored_same: "bytes_at (stored d bs m) d (length bs) = bs"
  by (rule nth_equalityI) (auto simp: stored_def)

lemma bytes_at_stored_apart: "disjoint_ranges d (length bs) a n \<Longrightarrow> bytes_at (stored d bs m) a n = bytes_at m a n"
  by (rule nth_equalityI) (auto simp: stored_def disjoint_ranges_def)

lemma MEMCPY_stored:
  assumes "valid_range (pram s) d (unat n)" "valid_range (pram s) a (unat n)" "disjoint_ranges d (unat n) a (unat n)"
  shows "MEMCPY d a n s = Some (s\<lparr>pram := stored d (bytes_at (pram s) a (unat n)) (pram s)\<rparr>)"
  using memcpy_stored [OF assms] by (simp add: MEMCPY_def)

section \<open>Copying out of a chain\<close>

definition readable :: "mem \<Rightarrow> pbufs \<Rightarrow> ptr list \<Rightarrow> bool" where
  "readable m st as \<longleftrightarrow> (\<forall>a\<in>set as. pbuf_valid m (the (st a)))"

text \<open>A range of memory that no buffer of the chain uses.\<close>

definition outside :: "pbufs \<Rightarrow> ptr list \<Rightarrow> ptr \<Rightarrow> nat \<Rightarrow> bool" where
  "outside st as d n \<longleftrightarrow> (\<forall>a\<in>set as. disjoint_ranges d n (payload (the (st a))) (plen st a))"

lemma outside_sub: "outside st as d n \<Longrightarrow> j + k \<le> n \<Longrightarrow> outside st as (d + j) k"
  by (fastforce simp: outside_def disjoint_ranges_def)

lemma disjoint_ranges_sub:
  "disjoint_ranges d n a k \<Longrightarrow> j + n' \<le> n \<Longrightarrow> i + k' \<le> k \<Longrightarrow> disjoint_ranges (d + j) n' (a + i) k'"
  by (auto simp: disjoint_ranges_def)

lemma path_bytes_stored: "outside st as d (length bs) \<Longrightarrow> path_bytes (stored d bs m) st as = path_bytes m st as"
  unfolding path_bytes_def outside_def
  by (intro arg_cong [of _ _ concat] map_cong) (auto simp: pbuf_bytes_def plen_def bytes_at_stored_apart)

lemma readable_stored: "readable m st as \<Longrightarrow> readable (stored d bs m) st as"
  by (auto simp: readable_def pbuf_valid_def valid_range_stored)

text \<open>The part of a request that one buffer answers, and the rest.\<close>

lemma copy_part:
  fixes n off :: u16
  assumes "unat off \<le> unat (pb_len b)"
  defines "k \<equiv> (if n < pb_len b - off then n else pb_len b - off)"
  shows "unat k = min (unat n) (unat (pb_len b) - unat off)" "unat (n - k) = unat n - unat k"
    "take (unat n) (drop (unat off) (pbuf_bytes m b @ P)) = bytes_at m (payload b + unat off) (unat k) @ take (unat (n - k)) P"
proof -
  show uk: "unat k = min (unat n) (unat (pb_len b) - unat off)"
    using assms(1) by (auto simp: k_def word_less_nat_alt unat_sub word_le_nat_alt)
  show unk: "unat (n - k) = unat n - unat k" using uk by (simp add: unat_sub word_le_nat_alt)
  have "drop (unat off) (pbuf_bytes m b @ P) = bytes_at m (payload b + unat off) (unat (pb_len b) - unat off) @ P"
    using assms(1) by (simp add: pbuf_bytes_def drop_bytes_at)
  then show "take (unat n) (drop (unat off) (pbuf_bytes m b @ P)) = bytes_at m (payload b + unat off) (unat k) @ take (unat (n - k)) P"
    using uk unk by (auto simp: min_def take_bytes_at)
qed

lemma partial_loop_effect:
  fixes off :: u16
  assumes "path (pb s) p as" "readable (pram s) (pb s) as" "unat j + unat n < 2 ^ 16"
  defines "bs \<equiv> take (unat n) (drop (unat off) (path_bytes (pram s) (pb s) as))"
  assumes "valid_range (pram s) (d + unat j) (length bs)" "outside (pb s) as (d + unat j) (length bs)"
  shows "partial_loop p d j n off c s = Some (c + of_nat (length bs), s\<lparr>pram := stored (d + unat j) bs (pram s)\<rparr>)"
  using assms(1-3,5,6) unfolding bs_def
proof (induction as arbitrary: p s j n off c)
  case Nil
  then show ?case by (subst partial_loop.simps) simp
next
  case (Cons a as)
  obtain b where b: "get_pb s p = Some b" "pb s a = Some b" "path (pb s) (pb_next b) as" "p = a" "p \<noteq> NULL"
    using get_pb_path [OF Cons.prems(1)] Cons.prems(1) by auto
  let ?P = "path_bytes (pram s) (pb s) as" and ?B = "pbuf_bytes (pram s) b"
  have rd: "readable (pram s) (pb s) as" "valid_range (pram s) (payload b) (unat (pb_len b))"
    using Cons.prems(2) b(2) by (auto simp: readable_def pbuf_valid_def)
  have P: "path_bytes (pram s) (pb s) (a # as) = ?B @ ?P" using b(2) by simp
  have out: "outside (pb s) as (d + unat j) k"
    if "k = length (take (unat n) (drop (unat off) (?B @ ?P)))" for k
    using Cons.prems(5) [unfolded P] that by (simp add: outside_def)
  show ?case
  proof (cases "n = 0")
    case True
    then show ?thesis by (subst partial_loop.simps) simp
  next
    case n: False
    show ?thesis
    proof (cases "off \<noteq> 0 \<and> pb_len b \<le> off")
      case True
      then have un: "unat (off - pb_len b) = unat off - unat (pb_len b)" by (simp add: unat_sub)
      have "unat (pb_len b) \<le> unat off" using True by (simp add: word_le_nat_alt)
      then have dr: "drop (unat off) (?B @ ?P) = drop (unat (off - pb_len b)) ?P" by (simp add: un)
      have "partial_loop p d j n off c s = partial_loop (pb_next b) d j n (off - pb_len b) c s"
        using n True b by (subst partial_loop.simps) simp
      also have "\<dots> = Some (c + of_nat (length (take (unat n) (drop (unat (off - pb_len b)) ?P))),
          s\<lparr>pram := stored (d + unat j) (take (unat n) (drop (unat (off - pb_len b)) ?P)) (pram s)\<rparr>)"
        using Cons.prems(3,4) out unfolding P dr by (intro Cons.IH b(3) rd(1)) simp_all
      finally show ?thesis unfolding P dr .
    next
      case False
      then have le: "unat off \<le> unat (pb_len b)" by (auto simp: word_le_nat_alt)
      define k where "k = (if n < pb_len b - off then n else pb_len b - off)"
      let ?C = "bytes_at (pram s) (payload b + unat off) (unat k)"
      let ?R = "take (unat (n - k)) ?P"
      note uk = copy_part(1) [OF le, of n, folded k_def] and unk = copy_part(2) [OF le, of n, folded k_def]
        and spl = copy_part(3) [OF le, of n "pram s" ?P, folded k_def]
      have len: "length (?C @ ?R) = unat k + length ?R" by simp
      let ?s = "s\<lparr>pram := stored (d + unat j) ?C (pram s)\<rparr>"
      have uj: "unat (j + k) = unat j + unat k" using Cons.prems(3) uk by (simp add: unat_word_ariths)
      have "valid_range (pram s) (d + unat j) (unat k)"
        using Cons.prems(4) valid_range_sub [of "pram s" "d + unat j" _ 0 "unat k"] unfolding P spl by simp
      moreover have "valid_range (pram s) (payload b + unat off) (unat k)"
        using rd(2) le uk by (intro valid_range_sub) auto
      moreover have "disjoint_ranges (d + unat j) (unat k + length ?R) (payload b) (unat (pb_len b))"
        using Cons.prems(5) b(2) unfolding P spl by (simp add: outside_def plen_def)
      then have "disjoint_ranges (d + unat j) (unat k) (payload b + unat off) (unat k)"
        using disjoint_ranges_sub [of "d + unat j" "unat k + length ?R" "payload b" "unat (pb_len b)" 0 "unat k" "unat off" "unat k"]
          le uk by simp
      ultimately have "MEMCPY (d + unat j) (payload b + unat off) k s = Some ?s" by (rule MEMCPY_stored)
      then have "partial_loop p d j n off c s = partial_loop (pb_next b) d (j + k) (n - k) 0 (c + k) ?s"
        using n False b by (subst partial_loop.simps) (auto simp: k_def Let_def)
      moreover have o: "outside (pb s) as (d + unat j) (unat k)"
        using outside_sub [OF out [OF refl], of 0 "unat k"] unfolding spl by simp
      then have PB: "path_bytes (pram ?s) (pb ?s) as = ?P" using path_bytes_stored [of "pb s" as _ ?C] by simp
      have "partial_loop (pb_next b) d (j + k) (n - k) 0 (c + k) ?s
          = Some (c + k + of_nat (length ?R), ?s\<lparr>pram := stored (d + unat (j + k)) ?R (pram ?s)\<rparr>)"
        using Cons.IH [of ?s "pb_next b" "j + k" "n - k" 0 "c + k"] b(3) readable_stored [OF rd(1)] Cons.prems(3) uj unk uk
          valid_range_stored [OF valid_range_sub [OF Cons.prems(4) [unfolded P spl len], of "unat k" "length ?R"]]
          outside_sub [OF out [OF refl, unfolded spl len], of "unat k" "length ?R"]
        unfolding PB by (simp add: add.assoc)
      moreover have "stored (d + unat (j + k)) ?R (pram ?s) = stored (d + unat j) (?C @ ?R) (pram s)"
        using stored_append [of "d + unat j" ?C ?R "pram s"] uj by (simp add: add.assoc)
      moreover have "c + k + of_nat (length ?R) = c + of_nat (length (?C @ ?R))" unfolding len by simp
      ultimately show ?thesis unfolding P spl by simp
    qed
  qed
qed

lemma pbuf_copy_partial_reads:
  fixes n off :: u16
  assumes "packet s p as" "readable (pram s) (pb s) as" "d \<noteq> NULL"
  defines "bs \<equiv> take (unat n) (drop (unat off) (packet_bytes s as))"
  assumes "valid_range (pram s) d (length bs)" "outside (pb s) as d (length bs)"
  shows "pbuf_copy_partial p d n off s = Some (of_nat (length bs), s\<lparr>pram := stored d bs (pram s)\<rparr>)"
proof (cases "p = NULL")
  case True
  then have "as = []" using assms(1) by (simp add: packet_def)
  then show ?thesis using True by (simp add: pbuf_copy_partial_def bs_def packet_bytes_def)
next
  case False
  have "unat (0 :: u16) + unat n < 2 ^ 16" using unsigned_less [of n, where 'a = nat] by simp
  then show ?thesis
    using partial_loop_effect [where j = 0 and c = 0 and s = s and p = p and as = as and n = n and off = off and d = d] assms False
    by (simp add: pbuf_copy_partial_def packet_def packet_bytes_def del: length_take length_drop length_path_bytes)
qed

section \<open>Copying into a chain\<close>

fun apart :: "pbufs \<Rightarrow> ptr list \<Rightarrow> bool" where
  "apart st [] = True"
| "apart st (a # as) = (outside st as (payload (the (st a))) (plen st a) \<and> apart st as)"

definition in_payload :: "pbufs \<Rightarrow> ptr list \<Rightarrow> ptr \<Rightarrow> bool" where
  "in_payload st as x \<longleftrightarrow> (\<exists>a\<in>set as. payload (the (st a)) \<le> x \<and> x < payload (the (st a)) + plen st a)"

lemma pbuf_bytes_stored:
  assumes "length bs \<le> unat (pb_len b)"
    and "\<And>x. payload b \<le> x \<Longrightarrow> x < payload b + unat (pb_len b) \<Longrightarrow> m x = stored (payload b) bs m0 x"
  shows "pbuf_bytes m b = bs @ drop (length bs) (pbuf_bytes m0 b)"
proof (rule nth_equalityI)
  fix i assume "i < length (pbuf_bytes m b)"
  then show "pbuf_bytes m b ! i = (bs @ drop (length bs) (pbuf_bytes m0 b)) ! i"
    using assms by (auto simp: pbuf_bytes_def stored_def nth_append)
qed (use assms(1) in simp)

lemma take_loop_effect:
  assumes "path (pb s) p as" "readable (pram s) (pb s) as" "apart (pb s) as" "unat c + unat n < 2 ^ 16"
    and "unat n \<le> total_len (pb s) as" "valid_range (pram s) (d + unat c) (unat n)" "outside (pb s) as (d + unat c) (unat n)"
  shows "\<exists>m. take_loop p d n c s = Some (s\<lparr>pram := m\<rparr>)
           \<and> path_bytes m (pb s) as = bytes_at (pram s) (d + unat c) (unat n) @ drop (unat n) (path_bytes (pram s) (pb s) as)
           \<and> readable m (pb s) as \<and> (\<forall>x. \<not> in_payload (pb s) as x \<longrightarrow> m x = pram s x)"
  using assms
proof (induction as arbitrary: p s c n)
  case Nil
  then show ?case by (intro exI [of _ "pram s"]) (subst take_loop.simps, simp add: unat_eq_0)
next
  case (Cons a as)
  obtain b where b: "get_pb s p = Some b" "pb s a = Some b" "path (pb s) (pb_next b) as" "p = a"
    using get_pb_path [OF Cons.prems(1)] Cons.prems(1) by auto
  have rd: "readable (pram s) (pb s) as" "valid_range (pram s) (payload b) (unat (pb_len b))"
    using Cons.prems(2) b(2) by (auto simp: readable_def pbuf_valid_def)
  define k where "k = (if pb_len b < n then pb_len b else n)"
  have uk: "unat k = min (unat (pb_len b)) (unat n)" by (auto simp: k_def word_less_nat_alt)
  have unk: "unat (n - k) = unat n - unat k" using uk by (simp add: unat_sub word_le_nat_alt)
  have uc: "unat (c + k) = unat c + unat k" using Cons.prems(4) uk by (simp add: unat_word_ariths)
  let ?D = "bytes_at (pram s) (d + unat c) (unat k)"
  let ?s = "s\<lparr>pram := stored (payload b) ?D (pram s)\<rparr>"
  have od: "disjoint_ranges (d + unat c) (unat n) (payload b) (unat (pb_len b))" "outside (pb s) as (d + unat c) (unat n)"
    using Cons.prems(7) b(2) by (simp_all add: outside_def plen_def)
  have op: "outside (pb s) as (payload b) (unat (pb_len b))" using Cons.prems(3) b(2) by (simp add: plen_def)
  have "disjoint_ranges (payload b) (unat k) (d + unat c) (unat k)" using od(1) uk by (auto simp: disjoint_ranges_def)
  moreover have "valid_range (pram s) (d + unat c) (unat k)" "valid_range (pram s) (payload b) (unat k)"
    using valid_range_sub [OF Cons.prems(6), of 0 "unat k"] valid_range_sub [OF rd(2), of 0 "unat k"] uk by simp_all
  ultimately have cp: "MEMCPY (payload b) (d + unat c) k s = Some ?s" by (intro MEMCPY_stored)
  show ?case
  proof (cases "n = 0")
    case True
    then show ?thesis using Cons.prems(2) by (intro exI [of _ "pram s"]) (subst take_loop.simps, simp)
  next
    case False
    have step: "take_loop p d n c s = take_loop (pb_next b) d (n - k) (c + k) ?s"
      using False b cp by (subst take_loop.simps) (simp add: k_def Let_def)
    have opk: "outside (pb s) as (payload b) (length ?D)" using outside_sub [OF op, of 0 "unat k"] uk by simp
    have PB: "path_bytes (pram ?s) (pb ?s) as = path_bytes (pram s) (pb s) as" using path_bytes_stored [OF opk] by simp
    have DB: "bytes_at (pram ?s) (d + unat (c + k)) (unat (n - k)) = bytes_at (pram s) (d + unat c + unat k) (unat n - unat k)"
      using od(1) uk uc unk by (auto simp: bytes_at_stored_apart disjoint_ranges_def add.assoc)
    have "\<exists>m. take_loop (pb_next b) d (n - k) (c + k) ?s = Some (?s\<lparr>pram := m\<rparr>)
        \<and> path_bytes m (pb ?s) as = bytes_at (pram ?s) (d + unat (c + k)) (unat (n - k)) @ drop (unat (n - k)) (path_bytes (pram ?s) (pb ?s) as)
        \<and> readable m (pb ?s) as \<and> (\<forall>x. \<not> in_payload (pb ?s) as x \<longrightarrow> m x = pram ?s x)"
    proof (rule Cons.IH)
      show "unat (c + k) + unat (n - k) < 2 ^ 16" using Cons.prems(4) uk unk uc by simp
      show "unat (n - k) \<le> total_len (pb ?s) as" using Cons.prems(5) b(2) uk unk by (simp add: plen_def)
      show "valid_range (pram ?s) (d + unat (c + k)) (unat (n - k))"
        using valid_range_stored [OF valid_range_sub [OF Cons.prems(6), of "unat k" "unat (n - k)"]] uk unk uc by (simp add: add.assoc)
      show "outside (pb ?s) as (d + unat (c + k)) (unat (n - k))"
        using outside_sub [OF od(2), of "unat k" "unat (n - k)"] uk unk uc by (simp add: add.assoc)
    qed (use b(3) readable_stored [OF rd(1)] Cons.prems(3) in simp_all)
    then obtain m where m: "take_loop (pb_next b) d (n - k) (c + k) ?s = Some (?s\<lparr>pram := m\<rparr>)"
        "path_bytes m (pb s) as = bytes_at (pram ?s) (d + unat (c + k)) (unat (n - k)) @ drop (unat (n - k)) (path_bytes (pram s) (pb s) as)"
        "readable m (pb s) as" "\<forall>x. \<not> in_payload (pb s) as x \<longrightarrow> m x = pram ?s x"
      unfolding PB by auto
    have out: "\<not> in_payload (pb s) as x" if "payload b \<le> x" "x < payload b + unat (pb_len b)" for x
      using op that by (fastforce simp: in_payload_def outside_def disjoint_ranges_def)
    then have B: "pbuf_bytes m b = ?D @ drop (unat k) (pbuf_bytes (pram s) b)"
      using pbuf_bytes_stored [of ?D b m "pram s"] m(4) uk by simp
    have "?D @ bytes_at (pram s) (d + unat c + unat k) (unat n - unat k) = bytes_at (pram s) (d + unat c) (unat n)"
      using bytes_at_append [of "pram s" "d + unat c" "unat k" "unat n - unat k"] uk by simp
    moreover have "drop (unat k) (pbuf_bytes (pram s) b) = [] \<or> unat n - unat k = 0" using uk by auto
    ultimately have "path_bytes m (pb s) (a # as)
        = bytes_at (pram s) (d + unat c) (unat n) @ drop (unat n) (path_bytes (pram s) (pb s) (a # as))"
      using B m(2) b(2) uk unk unfolding DB by (auto simp: min_def)
    moreover have "pbuf_valid m b"
      using out m(4) valid_range_stored [OF rd(2)] by (simp add: pbuf_valid_def valid_range_iff)
    then have "readable m (pb s) (a # as)" using m(3) b(2) by (simp add: readable_def)
    moreover have "m x = pram s x" if "\<not> in_payload (pb s) (a # as) x" for x
      using that m(4) b(2) uk by (auto simp: in_payload_def stored_def plen_def)
    ultimately show ?thesis using step m(1) by (intro exI [of _ m]) simp
  qed
qed

lemma pbuf_take_fills:
  assumes "packet s p as" "readable (pram s) (pb s) as" "apart (pb s) as" "d \<noteq> NULL" "unat n \<le> length (packet_bytes s as)"
    and "valid_range (pram s) d (unat n)" "outside (pb s) as d (unat n)"
  shows "\<exists>m. pbuf_take p d n s = Some (ERR_OK, s\<lparr>pram := m\<rparr>)
           \<and> path_bytes m (pb s) as = bytes_at (pram s) d (unat n) @ drop (unat n) (packet_bytes s as)
           \<and> readable m (pb s) as \<and> (\<forall>x. \<not> in_payload (pb s) as x \<longrightarrow> m x = pram s x)"
proof (cases "as = []")
  case True
  then have "p = NULL" "unat n = 0" using assms by (simp_all add: packet_def packet_bytes_def)
  then show ?thesis using True by (intro exI [of _ "pram s"]) (simp add: pbuf_take_def packet_bytes_def readable_def ERR_OK_def)
next
  case False
  then obtain b where b: "get_pb s p = Some b" "p \<noteq> NULL" "unat (tot_len b) = total_len (pb s) as"
    using assms(1) by (cases as) (auto simp: packet_def get_pb_def)
  have n: "unat n \<le> total_len (pb s) as" using assms(5) by (simp add: packet_bytes_def)
  then have "\<not> tot_len b < n" using b(3) by (simp add: word_less_nat_alt)
  moreover have "unat (0 :: u16) + unat n < 2 ^ 16" using unsigned_less [of n, where 'a = nat] by simp
  ultimately show ?thesis
    using take_loop_effect [of s p as 0 n d] assms n b by (auto simp: pbuf_take_def packet_def packet_bytes_def)
qed

lemma pbuf_take_refuses:
  assumes "packet s p as" "as \<noteq> []" "d \<noteq> NULL" "length (packet_bytes s as) < unat n"
  shows "pbuf_take p d n s = Some (ERR_ARG, s)"
  using assms by (cases as) (auto simp: pbuf_take_def packet_def packet_bytes_def get_pb_def word_less_nat_alt plen_def)

text \<open>C27. Data taken into a packet is read from it again: a copy of any length from any offset delivers exactly those
  bytes of the data, followed by what the packet held behind it, and returns their number, however the packet is cut into
  buffers; memory outside the buffers and the destination is as before.\<close>
theorem pbuf_take_copy_roundtrip:
  fixes n k off :: u16
  assumes "packet s p as" "readable (pram s) (pb s) as" "apart (pb s) as" "unat n \<le> length (packet_bytes s as)"
    and "d \<noteq> NULL" "valid_range (pram s) d (unat n)" "outside (pb s) as d (unat n)"
    and "e \<noteq> NULL" "valid_range (pram s) e (unat k)" "outside (pb s) as e (unat k)"
  defines "bs \<equiv> take (unat k) (drop (unat off) (bytes_at (pram s) d (unat n) @ drop (unat n) (packet_bytes s as)))"
  shows "\<exists>s1 s2. pbuf_take p d n s = Some (ERR_OK, s1) \<and> packet s1 p as
           \<and> pbuf_copy_partial p e k off s1 = Some (of_nat (length bs), s2)
           \<and> bytes_at (pram s2) e (length bs) = bs
           \<and> (\<forall>x. \<not> in_payload (pb s) as x \<and> \<not> (e \<le> x \<and> x < e + length bs) \<longrightarrow> pram s2 x = pram s x)"
proof -
  obtain m where m: "pbuf_take p d n s = Some (ERR_OK, s\<lparr>pram := m\<rparr>)"
      "path_bytes m (pb s) as = bytes_at (pram s) d (unat n) @ drop (unat n) (packet_bytes s as)"
      "readable m (pb s) as" "\<forall>x. \<not> in_payload (pb s) as x \<longrightarrow> m x = pram s x"
    using pbuf_take_fills [OF assms(1-3,5,4,6,7)] by blast
  let ?s = "s\<lparr>pram := m\<rparr>"
  have tk: "take (unat k) (drop (unat off) (packet_bytes ?s as)) = bs" using m(2) by (simp add: packet_bytes_def bs_def)
  have len: "length bs \<le> unat k" by (simp add: bs_def)
  have nin: "\<not> in_payload (pb s) as x" if "e \<le> x" "x < e + unat k" for x
    using assms(10) that by (fastforce simp: in_payload_def outside_def disjoint_ranges_def)
  then have "valid_range m e (unat k)" using m(4) assms(9) by (simp add: valid_range_iff)
  then have v: "valid_range m e (length bs)" using valid_range_sub [of m e "unat k" 0] len by simp
  have "pbuf_copy_partial p e k off ?s = Some (of_nat (length bs), ?s\<lparr>pram := stored e bs m\<rparr>)"
    using pbuf_copy_partial_reads [of ?s p as e k off] assms(1,8) outside_sub [OF assms(10), of 0 "length bs"] m(3) v len
    unfolding tk by (simp add: packet_def)
  moreover have "\<forall>x. \<not> in_payload (pb s) as x \<and> \<not> (e \<le> x \<and> x < e + length bs) \<longrightarrow> stored e bs m x = pram s x"
    using m(4) by (auto simp: stored_def)
  ultimately show ?thesis using m(1) assms(1)
    by (intro exI [of _ ?s] exI [of _ "?s\<lparr>pram := stored e bs m\<rparr>"]) (simp add: packet_def bytes_at_stored_same)
qed

section \<open>Looking into a chain\<close>

lemma locate_found:
  assumes "path (pb s) p as" "unat i < total_len (pb s) as"
  shows "\<exists>xs a ys. as = xs @ a # ys \<and> total_len (pb s) xs \<le> unat i \<and> unat i < total_len (pb s) xs + plen (pb s) a
       \<and> path (pb s) a (a # ys) \<and> locate p i s = Some (a, i - of_nat (total_len (pb s) xs))"
  using assms
proof (induction as arbitrary: p i)
  case (Cons a as)
  obtain b where b: "get_pb s p = Some b" "pb s a = Some b" "path (pb s) (pb_next b) as" "p = a" "a \<noteq> NULL"
    using get_pb_path [OF Cons.prems(1)] Cons.prems(1) by auto
  show ?case
  proof (cases "pb_len b \<le> i")
    case False
    then have "locate p i s = Some (a, i)" using b by (subst locate.simps) simp
    then show ?thesis using False b Cons.prems(1)
      by (intro exI [of _ "[]"] exI [of _ a] exI [of _ as]) (simp add: plen_def word_le_nat_alt)
  next
    case True
    then have un: "unat (i - pb_len b) = unat i - unat (pb_len b)" "unat (pb_len b) \<le> unat i"
      by (simp_all add: unat_sub word_le_nat_alt)
    then have "unat (i - pb_len b) < total_len (pb s) as" using Cons.prems(2) b(2) by (simp add: plen_def)
    from Cons.IH [OF b(3) this] obtain xs c ys where e: "as = xs @ c # ys" "total_len (pb s) xs \<le> unat (i - pb_len b)"
        "unat (i - pb_len b) < total_len (pb s) xs + plen (pb s) c" "path (pb s) c (c # ys)"
        "locate (pb_next b) (i - pb_len b) s = Some (c, i - pb_len b - of_nat (total_len (pb s) xs))" by blast
    have "locate p i s = locate (pb_next b) (i - pb_len b) s" using b True by (subst locate.simps) simp
    moreover have "i - pb_len b - of_nat (total_len (pb s) xs) = i - of_nat (total_len (pb s) (a # xs))"
      using b(2) by (simp add: plen_def)
    moreover have "a # as = (a # xs) @ c # ys" using e(1) by simp
    moreover have "total_len (pb s) (a # xs) \<le> unat i" "unat i < total_len (pb s) (a # xs) + plen (pb s) c"
      using e(2,3) un b(2) by (simp_all add: plen_def)
    ultimately show ?thesis using e(4,5) by metis
  qed
qed simp

lemma locate_beyond:
  assumes "path (pb s) p as" "total_len (pb s) as \<le> unat i"
  shows "\<exists>j. locate p i s = Some (NULL, j)"
  using assms
proof (induction as arbitrary: p i)
  case Nil
  then show ?case by (subst locate.simps) simp
next
  case (Cons a as)
  obtain b where b: "get_pb s p = Some b" "pb s a = Some b" "path (pb s) (pb_next b) as" "p = a" "a \<noteq> NULL"
    using get_pb_path [OF Cons.prems(1)] Cons.prems(1) by auto
  have "unat (pb_len b) \<le> unat i" using Cons.prems(2) b(2) by (simp add: plen_def)
  then have un: "pb_len b \<le> i" "unat (i - pb_len b) = unat i - unat (pb_len b)"
    by (simp_all add: unat_sub word_le_nat_alt)
  then have "\<exists>j. locate (pb_next b) (i - pb_len b) s = Some (NULL, j)"
    using Cons.IH [OF b(3), of "i - pb_len b"] Cons.prems(2) b(2) by (simp add: plen_def)
  then show ?case using b un by (subst locate.simps) simp
qed

text \<open>A byte read by position is the byte of the packet, 0 beyond its end.\<close>

lemma nth_path_bytes:
  assumes "total_len st xs \<le> i" "i < total_len st xs + plen st a"
  shows "path_bytes m st (xs @ a # ys) ! i = the (m (payload (the (st a)) + (i - total_len st xs)))"
  using assms by (auto simp: nth_append pbuf_bytes_def plen_def)

lemma pbuf_get_at_nth:
  assumes "path (pb s) p as" "readable (pram s) (pb s) as"
  shows "pbuf_get_at p i s = Some (if unat i < total_len (pb s) as then path_bytes (pram s) (pb s) as ! unat i else 0)"
proof (cases "unat i < total_len (pb s) as")
  case True
  then obtain xs a ys where e: "as = xs @ a # ys" "total_len (pb s) xs \<le> unat i"
      "unat i < total_len (pb s) xs + plen (pb s) a" "path (pb s) a (a # ys)"
      "locate p i s = Some (a, i - of_nat (total_len (pb s) xs))"
    using locate_found [OF assms(1)] by blast
  obtain b where b: "pb s a = Some b" "a \<noteq> NULL" using e(4) by auto
  have "i - of_nat (total_len (pb s) xs) = of_nat (unat i - total_len (pb s) xs)" using e(2) by (simp add: of_nat_diff)
  then have u: "unat (i - of_nat (total_len (pb s) xs)) = unat i - total_len (pb s) xs"
    using unsigned_less [of i, where 'a = nat] by (simp add: unat_of_nat_u16)
  have lt: "unat i - total_len (pb s) xs < unat (pb_len b)" using e(2,3) b(1) by (simp add: plen_def)
  then have "pram s (payload b + (unat i - total_len (pb s) xs)) \<noteq> None"
    using assms(2) e(1) b(1) by (auto simp: readable_def pbuf_valid_def valid_range_iff)
  moreover have "pbuf_get_at p i s = pram s (payload b + (unat i - total_len (pb s) xs))"
    using e(5) b lt u by (simp add: pbuf_get_at_def get_pb_def word_less_nat_alt)
  ultimately show ?thesis using nth_path_bytes [OF e(2,3), of "pram s" ys] True b(1) unfolding e(1) by auto
next
  case False
  then show ?thesis using locate_beyond [OF assms(1), of i] by (auto simp: pbuf_get_at_def)
qed

text \<open>What \<^verbatim>\<open>pbuf_memcmp\<close> computes: 0 for equal bytes, otherwise one more than the first position where they differ.\<close>

fun diff_pos :: "u8 list \<Rightarrow> u8 list \<Rightarrow> nat" where
  "diff_pos (x # xs) (y # ys) = (if x \<noteq> y then 1 else if diff_pos xs ys = 0 then 0 else Suc (diff_pos xs ys))"
| "diff_pos _ _ = 0"

lemma diff_pos_0: "length xs = length ys \<Longrightarrow> diff_pos xs ys = 0 \<longleftrightarrow> xs = ys"
  by (induction xs ys rule: diff_pos.induct) auto

lemma diff_pos_le: "diff_pos xs ys \<le> length xs"
  by (induction xs ys rule: diff_pos.induct) auto

lemma memcmp_loop_spec:
  assumes "path (pb s) q qs" "readable (pram s) (pb s) qs" "valid_range (pram s) t (i + k)"
    and "unat start + i + k \<le> total_len (pb s) qs" "unat start + i + k < 2 ^ 16"
  defines "D \<equiv> diff_pos (take k (drop (unat start + i) (path_bytes (pram s) (pb s) qs))) (bytes_at (pram s) (t + i) k)"
  shows "memcmp_loop q start t k (of_nat i) s = Some (if D = 0 then 0 else of_nat (i + D))"
  using assms(3-5) unfolding D_def
proof (induction k arbitrary: i)
  case (Suc k)
  let ?Q = "path_bytes (pram s) (pb s) qs"
  have "start + of_nat i = of_nat (unat start + i)" by simp
  then have u: "unat (start + of_nat i) = unat start + i" using Suc.prems(3) by (simp only: unat_of_nat_u16)
  have g: "pbuf_get_at q (start + of_nat i) s = Some (?Q ! (unat start + i))"
    using pbuf_get_at_nth [OF assms(1,2)] u Suc.prems(2) by simp
  have ui: "unat (of_nat i :: u16) = i" using Suc.prems(3) by (simp add: unat_of_nat_u16)
  have v: "pram s (t + i) \<noteq> None" using Suc.prems(1) by (simp add: valid_range_iff)
  have tk: "take (Suc k) (drop (unat start + i) ?Q) = ?Q ! (unat start + i) # take k (drop (unat start + Suc i) ?Q)"
    using Suc.prems(2) by (subst Cons_nth_drop_Suc [symmetric]) simp_all
  have bt: "bytes_at (pram s) (t + i) (Suc k) = the (pram s (t + i)) # bytes_at (pram s) (t + Suc i) k"
    using bytes_at_append [of "pram s" "t + i" 1 k] by (simp add: bytes_at_def)
  have ih: "memcmp_loop q start t k (of_nat (Suc i)) s = Some (if diff_pos (take k (drop (unat start + Suc i) ?Q))
      (bytes_at (pram s) (t + Suc i) k) = 0 then 0 else of_nat (Suc i + diff_pos (take k (drop (unat start + Suc i) ?Q))
      (bytes_at (pram s) (t + Suc i) k)))"
    using Suc.prems by (intro Suc.IH) simp_all
  show ?case using g v ui ih unfolding tk bt by (auto simp: add.commute)
qed simp

lemma pbuf_memcmp_spec:
  assumes "path (pb s) p as" "readable (pram s) (pb s) as" "valid_range (pram s) t (unat n)"
    and "unat off + unat n \<le> total_len (pb s) as" "unat off + unat n < 2 ^ 16" "n \<noteq> 0"
  shows "pbuf_memcmp p off t n s
           = Some (of_nat (diff_pos (take (unat n) (drop (unat off) (path_bytes (pram s) (pb s) as))) (bytes_at (pram s) t (unat n))))"
proof -
  have n: "0 < unat n" using assms(6) by (simp add: unat_gt_0)
  then obtain xs a ys where e: "as = xs @ a # ys" "total_len (pb s) xs \<le> unat off"
      "unat off < total_len (pb s) xs + plen (pb s) a" "path (pb s) a (a # ys)"
      "locate p off s = Some (a, off - of_nat (total_len (pb s) xs))"
    using locate_found [OF assms(1), of off] assms(4) by auto
  let ?st = "off - of_nat (total_len (pb s) xs)" and ?Q = "path_bytes (pram s) (pb s) (a # ys)"
  obtain b where b: "pb s a = Some b" "a \<noteq> NULL" using e(4) by auto
  have "?st = of_nat (unat off - total_len (pb s) xs)" using e(2) by (simp add: of_nat_diff)
  then have u: "unat ?st = unat off - total_len (pb s) xs"
    using unsigned_less [of off, where 'a = nat] by (simp add: unat_of_nat_u16)
  have "?st < pb_len b" using u e(2,3) b(1) by (simp add: word_less_nat_alt plen_def)
  then have "pbuf_memcmp p off t n s = memcmp_loop a ?st t (unat n) 0 s"
    using e(5) b by (simp add: pbuf_memcmp_def get_pb_def)
  moreover have "memcmp_loop a ?st t (unat n) (of_nat 0) s
      = Some (if diff_pos (take (unat n) (drop (unat ?st + 0) ?Q)) (bytes_at (pram s) (t + 0) (unat n)) = 0 then 0
              else of_nat (0 + diff_pos (take (unat n) (drop (unat ?st + 0) ?Q)) (bytes_at (pram s) (t + 0) (unat n))))"
    using assms(2-5) e(1,2,4) u by (intro memcmp_loop_spec) (auto simp: readable_def)
  moreover have "drop (unat off) (path_bytes (pram s) (pb s) as) = drop (unat ?st) ?Q"
    unfolding e(1) using e(2) u by (simp add: drop_append)
  ultimately show ?thesis by simp
qed

lemma memfind_loop_sound:
  fixes n mx i :: u16
  assumes "path (pb s) p as" "readable (pram s) (pb s) as" "valid_range (pram s) t (unat n)" "n \<noteq> 0"
    and "unat mx + unat n = total_len (pb s) as" "total_len (pb s) as < 2 ^ 16"
  shows "\<exists>r. memfind_loop p t n mx i s = Some r
           \<and> (r = 0xFFFF \<or> i \<le> r \<and> r \<le> mx \<and> take (unat n) (drop (unat r) (path_bytes (pram s) (pb s) as)) = bytes_at (pram s) t (unat n))"
proof (induction "unat mx + 1 - unat i" arbitrary: i rule: less_induct)
  case less
  let ?T = "\<lambda>j. take (unat n) (drop j (path_bytes (pram s) (pb s) as))" and ?B = "bytes_at (pram s) t (unat n)"
  show ?case
  proof (cases "i \<le> mx")
    case False
    then show ?thesis by (subst memfind_loop.simps) simp
  next
    case True
    then have im: "unat i \<le> unat mx" by (simp add: word_le_nat_alt)
    let ?d = "diff_pos (?T (unat i)) ?B"
    have len: "length (?T (unat i)) = unat n" using im assms(5) by simp
    have cmp: "pbuf_memcmp p i t n s = Some (of_nat ?d)" using assms im by (intro pbuf_memcmp_spec) auto
    have d: "?d \<le> unat n" using diff_pos_le [of "?T (unat i)" ?B] len by simp
    then have ud: "unat (of_nat ?d :: u16) = ?d" using unsigned_less [of n, where 'a = nat] by (intro unat_of_nat_u16) simp
    show ?thesis
    proof (cases "?d = 0")
      case z: True
      then have "?T (unat i) = ?B" using len by (simp add: diff_pos_0)
      moreover have "memfind_loop p t n mx i s = Some i" using True cmp z by (subst memfind_loop.simps) simp
      ultimately show ?thesis using True by auto
    next
      case nz: False
      have ui: "unat (i + of_nat ?d) = unat i + ?d" using im d assms(5,6) ud by (simp add: unat_word_ariths)
      have "(of_nat ?d :: u16) \<noteq> 0" using nz ud by auto
      then have "memfind_loop p t n mx i s = memfind_loop p t n mx (i + of_nat ?d) s"
        using True cmp by (subst memfind_loop.simps) simp
      moreover have "unat mx + 1 - unat (i + of_nat ?d) < unat mx + 1 - unat i" using ui nz im by simp
      from less [OF this] obtain r where "memfind_loop p t n mx (i + of_nat ?d) s = Some r"
          "r = 0xFFFF \<or> i + of_nat ?d \<le> r \<and> r \<le> mx \<and> ?T (unat r) = ?B" by blast
      moreover have "i \<le> i + of_nat ?d" using ui by (simp add: word_le_nat_alt)
      ultimately show ?thesis by (auto intro: order_trans)
    qed
  qed
qed

text \<open>The search for a byte sequence in a packet always returns, and a position it returns is not before the start
  and holds the sequence, in one buffer or across several.\<close>
theorem pbuf_memfind_sound:
  assumes "packet s p as" "as \<noteq> []" "readable (pram s) (pb s) as" "valid_range (pram s) t (unat n)" "n \<noteq> 0"
  shows "\<exists>r. pbuf_memfind p t n start s = Some r
           \<and> (r = 0xFFFF \<or> start \<le> r \<and> take (unat n) (drop (unat r) (packet_bytes s as)) = bytes_at (pram s) t (unat n))"
proof -
  obtain b where b: "get_pb s p = Some b" "unat (tot_len b) = total_len (pb s) as"
    using assms(1,2) by (cases as) (auto simp: packet_def get_pb_def)
  show ?thesis
  proof (cases "unat n + unat start \<le> unat (tot_len b)")
    case False
    then show ?thesis using b by (simp add: pbuf_memfind_def)
  next
    case True
    then have "unat (tot_len b - n) = unat (tot_len b) - unat n" by (simp add: unat_sub word_le_nat_alt)
    then have "unat (tot_len b - n) + unat n = total_len (pb s) as" using True b(2) by simp
    moreover have "total_len (pb s) as < 2 ^ 16" using b(2) unsigned_less [of "tot_len b", where 'a = nat] by simp
    ultimately show ?thesis
      using memfind_loop_sound [of s p as t n "tot_len b - n" start] assms b True
      by (auto simp: pbuf_memfind_def packet_def packet_bytes_def)
  qed
qed

section \<open>Headers\<close>

lemmas pbuf_types = PBUF_RAM_def PBUF_ROM_def PBUF_REF_def PBUF_POOL_def PBUF_ESF_RX_def

lemma word_of_neg: "(word_of_int (- int k) :: u16) = - of_nat k"
  by simp

lemma header_down:
  assumes "packet s p (p # as)" "pb s p = Some b" "0 < k" "k \<le> unat (pb_len b)"
  defines "s' \<equiv> header_lengths p (b\<lparr>payload := payload b + k\<rparr>) (- int k) s"
  shows "packet s' p (p # as)" "packet_bytes s' (p # as) = drop k (packet_bytes s (p # as))"
proof -
  have p: "path (pb s) (pb_next b) as" "totals (pb s) as" "unat (tot_len b) = unat (pb_len b) + total_len (pb s) as"
      "p \<noteq> NULL" "p \<notin> set as"
    using assms(1,2) path_distinct [of "pb s" p "p # as"] by (auto simp: packet_def plen_def)
  have uk: "unat (of_nat k :: u16) = k" using assms(4) unsigned_less [of "pb_len b", where 'a = nat] by (intro unat_of_nat_u16) simp
  have l: "unat (pb_len b - of_nat k) = unat (pb_len b) - k" using assms(4) uk by (simp add: unat_sub word_le_nat_alt)
  have t: "unat (tot_len b - of_nat k) = unat (tot_len b) - k" using assms(4) uk p(3) by (simp add: unat_sub word_le_nat_alt)
  have st: "pb s' = (pb s)(p \<mapsto> b\<lparr>payload := payload b + k, pb_len := pb_len b - of_nat k, tot_len := tot_len b - of_nat k\<rparr>)"
    by (simp add: s'_def header_lengths_def put_pb_def word_of_neg)
  have as: "path (pb s') (pb_next b) as" "totals (pb s') as = totals (pb s) as" "total_len (pb s') as = total_len (pb s) as"
      "path_bytes (pram s) (pb s') as = path_bytes (pram s) (pb s) as"
    unfolding st using p(1,5) path_upd_other
    by (simp, intro totals_cong, force, intro total_len_cong, force, intro path_bytes_cong, force)
  show "packet s' p (p # as)" using as p l t assms(4) by (simp add: packet_def st plen_def)
  have "pram s' = pram s" by (simp add: s'_def header_lengths_def put_pb_def)
  then show "packet_bytes s' (p # as) = drop k (packet_bytes s (p # as))"
    using as(4) assms(2,4) l by (simp add: packet_bytes_def st pbuf_bytes_def drop_bytes_at)
qed

text \<open>A header that is hidden can be revealed again: hiding removes its bytes from the front of the packet and keeps
  every total right, and revealing as many bytes gives back exactly the state from before.\<close>
theorem pbuf_header_roundtrip:
  assumes "packet s p (p # as)" "pb s p = Some b" "0 < k" "k \<le> unat (pb_len b)" "k < 2 ^ 15"
    and "pb_type b \<in> {PBUF_RAM, PBUF_POOL} \<and> p + SIZEOF_STRUCT_PBUF + EP_OFFSET \<le> payload b \<or> pb_type b = PBUF_REF"
  shows "\<exists>s1. pbuf_header p (- int k) s = Some (0, s1) \<and> packet s1 p (p # as)
           \<and> packet_bytes s1 (p # as) = drop k (packet_bytes s (p # as)) \<and> pbuf_header p (int k) s1 = Some (0, s)"
proof -
  let ?b = "b\<lparr>payload := payload b + k, pb_len := pb_len b - of_nat k, tot_len := tot_len b - of_nat k\<rparr>"
  let ?s = "header_lengths p (b\<lparr>payload := payload b + k\<rparr>) (- int k) s"
  have p0: "p \<noteq> NULL" using assms(1) by (simp add: packet_def)
  have s: "?s = s\<lparr>pb := (pb s)(p \<mapsto> ?b)\<rparr>" by (simp add: header_lengths_def put_pb_def)
  have mag: "(of_nat k :: u16) \<le> pb_len b"
    using assms(4,5) by (simp add: word_le_nat_alt unat_of_nat_u16)
  have up: "header_lengths p (?b\<lparr>payload := payload b\<rparr>) (int k) ?s = s"
    unfolding s using assms(2) by (simp add: header_lengths_def put_pb_def fun_upd_idem)
  have "pbuf_header p (- int k) s = Some (0, ?s)"
    using assms(2-6) p0 mag by (auto simp: pbuf_header_def get_pb_def move_ptr_def nat_int_add Let_def pbuf_types)
  moreover have "pbuf_header p (int k) ?s = Some (0, s)"
    using assms(2,3,6) p0 up unfolding s by (auto simp: pbuf_header_def get_pb_def move_ptr_def Let_def pbuf_types)
  ultimately show ?thesis using header_down [OF assms(1-4)] by blast
qed

text \<open>Examples on the store of \<^term>\<open>demo_lwip\<close>.\<close>

lemmas demo_range = demo_simps readable_def pbuf_valid_def valid_range_def outside_def disjoint_ranges_def upt_rec

theorem pbuf_header_roundtrip_witness:
  "\<exists>s1. pbuf_header 600 (- 2) demo_lwip = Some (0, s1) \<and> packet s1 600 [600, 700]
      \<and> packet_bytes s1 [600, 700] = drop 2 (packet_bytes demo_lwip [600, 700]) \<and> pbuf_header 600 2 s1 = Some (0, demo_lwip)"
proof -
  have "packet demo_lwip 600 [600, 700]" by (simp add: demo_simps)
  then show ?thesis
    using pbuf_header_roundtrip [of demo_lwip 600 "[700]" "demo_buf 700 1040 5 3 1" 2]
    by (simp add: demo_lwip_def demo_buf_def PBUF_RAM_def SIZEOF_STRUCT_PBUF_def EP_OFFSET_def)
qed

theorem pbuf_memfind_sound_witness:
  "\<exists>r. pbuf_memfind 600 1042 2 0 demo_lwip = Some r
      \<and> (r = 0xFFFF \<or> take 2 (drop (unat r) (packet_bytes demo_lwip [600, 700])) = bytes_at (pram demo_lwip) 1042 2)"
proof -
  have "packet demo_lwip 600 [600, 700]" "readable (pram demo_lwip) (pb demo_lwip) [600, 700]"
      "valid_range (pram demo_lwip) 1042 (unat (2 :: u16))"
    by (simp_all add: demo_range)
  then show ?thesis using pbuf_memfind_sound [of demo_lwip 600 "[600, 700]" 1042 2 0] by auto
qed

theorem pbuf_take_copy_roundtrip_witness:
  "\<exists>s1 s2. pbuf_take 600 1060 4 demo_lwip = Some (ERR_OK, s1) \<and> pbuf_copy_partial 600 1070 3 1 s1 = Some (3, s2)
      \<and> bytes_at (pram s2) 1070 3 = bytes_at (pram demo_lwip) 1061 3"
proof -
  have d: "packet demo_lwip 600 [600, 700]" "readable (pram demo_lwip) (pb demo_lwip) [600, 700]"
      "apart (pb demo_lwip) [600, 700]" "unat (4 :: u16) \<le> length (packet_bytes demo_lwip [600, 700])"
      "valid_range (pram demo_lwip) 1060 (unat (4 :: u16))" "outside (pb demo_lwip) [600, 700] 1060 (unat (4 :: u16))"
      "valid_range (pram demo_lwip) 1070 (unat (3 :: u16))" "outside (pb demo_lwip) [600, 700] 1070 (unat (3 :: u16))"
    by (simp_all add: demo_range)
  have "take (unat (3 :: u16)) (drop (unat (1 :: u16)) (bytes_at (pram demo_lwip) 1060 (unat (4 :: u16))
      @ drop (unat (4 :: u16)) (packet_bytes demo_lwip [600, 700]))) = bytes_at (pram demo_lwip) 1061 3"
    by (simp add: bytes_at_def upt_rec)
  with pbuf_take_copy_roundtrip [OF d(1-4) _ d(5,6) _ d(7,8), of 1] show ?thesis by auto
qed

text \<open>The search advances by the number of bytes it has compared, so it can pass over an occurrence: the bytes 1, 2 are in
  the packet 1, 1, 2 and are not found.\<close>

definition miss_lwip :: lwip where
  "miss_lwip = \<lparr>pb = [100 \<mapsto> demo_buf 0 1000 3 3 1], pram = [1000 \<mapsto> 1, 1001 \<mapsto> 1, 1002 \<mapsto> 2], calls = []\<rparr>"

lemma pbuf_memfind_misses:
  "packet_bytes miss_lwip [100] = [1, 1, 2]" "bytes_at (pram miss_lwip) 1001 2 = [1, 2]"
  "pbuf_memfind 100 1001 2 0 miss_lwip = Some 0xFFFF"
proof -
  have b: "packet miss_lwip 100 [100]" "readable (pram miss_lwip) (pb miss_lwip) [100]" "valid_range (pram miss_lwip) 1001 2"
    by (simp_all add: miss_lwip_def demo_buf_def packet_def plen_def total_len_def readable_def pbuf_valid_def valid_range_def upt_rec)
  show p: "packet_bytes miss_lwip [100] = [1, 1, 2]" "bytes_at (pram miss_lwip) 1001 2 = [1, 2]"
    by (simp_all add: miss_lwip_def demo_buf_def packet_bytes_def pbuf_bytes_def bytes_at_def upt_rec)
  have "pbuf_memcmp 100 0 1001 2 miss_lwip = Some 2"
    using pbuf_memcmp_spec [of miss_lwip 100 "[100]" 1001 2 0] b p
    by (simp add: packet_def packet_bytes_def) (simp add: plen_def miss_lwip_def demo_buf_def)
  then show "pbuf_memfind 100 1001 2 0 miss_lwip = Some 0xFFFF"
    by (simp add: pbuf_memfind_def memfind_loop.simps get_pb_def miss_lwip_def demo_buf_def word_le_nat_alt)
qed

end
