(* ===== verification/Lwip_Udp_Proofs.thy ===== *)
theory Lwip_Udp_Proofs
  imports Lwip_Udp Lwip_Pbuf_Data
begin

text \<open>
  UDP: a datagram that is sent is one that the receiver accepts and delivers, a damaged one is dropped, and no two control
  blocks share a port.
\<close>

section \<open>Chains and paths\<close>

lemma path_chain: "path st p as \<Longrightarrow> chain st p (map (the \<circ> st) as)"
  by (induction as arbitrary: p) auto

lemma chain_bytes_path: "chain_bytes m (map (the \<circ> st) as) = path_bytes m st as"
  by (simp add: chain_bytes_def path_bytes_def o_def)

lemma readable_list_all: "readable m st as \<longleftrightarrow> list_all (pbuf_valid m) (map (the \<circ> st) as)"
  by (simp add: readable_def list_all_iff)

lemma packet_pseudo:
  assumes "packet l p as" "readable (pram l) (pb l) as"
  shows "inet_chksum_pseudo (pb l) p src dst proto n (pram l) = Some (NOT (inet_sum (pseudo_bytes src dst proto n @ packet_bytes l as)))"
  using chain_pseudo(1) [OF path_chain, of "pb l" p as "pram l"] assms
  by (simp add: packet_def packet_bytes_def chain_bytes_path readable_list_all)

lemma packet_first_byte:
  assumes "packet l p (p # as)" "readable (pram l) (pb l) (p # as)" "pb l p = Some b" "i < unat (pb_len b)"
  shows "pram l (payload b + i) = Some (packet_bytes l (p # as) ! i)"
  using assms by (auto simp: packet_bytes_def readable_def pbuf_valid_def valid_range_iff nth_append pbuf_bytes_def)

section \<open>Network byte order\<close>

definition be16b :: "u16 \<Rightarrow> u8 list" where
  "be16b v = [ucast (drop_bit 8 v), ucast v]"

lemma htons_high: "ucast (htons v) = (ucast (drop_bit 8 v) :: u8)"
proof -
  have "unat (ucast (htons v) :: u8) = unat (ucast (drop_bit 8 v) :: u8)"
    unfolding unat_bytes_of(2) unfolding unat_bytes_of(1) htons_bytes by simp
  then show ?thesis by (simp only: word_unat_eq_iff)
qed

lemma htons_low: "ucast (drop_bit 8 (htons v)) = (ucast v :: u8)"
proof -
  have "unat (ucast (drop_bit 8 (htons v)) :: u8) = unat (ucast v :: u8)"
    unfolding unat_bytes_of(2) unfolding unat_bytes_of(1) htons_bytes by simp
  then show ?thesis by (simp only: word_unat_eq_iff)
qed

lemma join_bytes: "(push_bit 8 (ucast (ucast (drop_bit 8 v) :: u8)) OR ucast (ucast v :: u8)) = (v :: u16)"
  by (rule bit_word_eqI) (auto simp: bit_simps)

lemma htons_join: "htons (push_bit 8 (ucast (ucast v :: u8)) OR ucast (ucast (drop_bit 8 v) :: u8)) = v"
proof -
  let ?w = "push_bit 8 (ucast (ucast v :: u8)) OR ucast (ucast (drop_bit 8 v) :: u8) :: u16"
  have "?w = htons v" using join_bytes [of "htons v"] htons_high [of v] htons_low [of v] by simp
  then have "ucast (htons ?w) = (ucast v :: u8)" "ucast (drop_bit 8 (htons ?w)) = (ucast (drop_bit 8 v) :: u8)"
    using htons_high [of ?w] htons_low [of ?w] htons_high [of v] htons_low [of v] by simp_all
  then show ?thesis using join_bytes [of "htons ?w"] join_bytes [of v] by simp
qed

lemma ld16_be: "m a = Some (ucast (drop_bit 8 v)) \<Longrightarrow> m (a + 1) = Some (ucast v) \<Longrightarrow> map_option htons (ld16 m a) = Some v"
  using htons_join [of v] by (simp add: ld16_def)

lemma IPH_HL_join: "IPH_HL (push_bit 8 (ucast (y :: u8)) OR ucast (x :: u8)) = unat (x AND 0x0f)"
proof -
  let ?w = "push_bit 8 (ucast y) OR ucast x :: u16"
  have x: "ucast (drop_bit 8 (htons ?w)) = x" unfolding htons_low by (rule bit_word_eqI) (auto simp: bit_simps)
  have m: "(0x0f :: u16) = mask 4" "(0x0f :: u8) = mask 4" by (simp_all add: mask_eq_exp_minus_1)
  have "drop_bit 8 (htons ?w) AND 0x0f = ucast (ucast (drop_bit 8 (htons ?w)) AND 0x0f :: u8)"
    unfolding m by (rule bit_word_eqI) (auto simp: bit_simps)
  then show ?thesis unfolding IPH_HL_def x by (simp add: unsigned_ucast_eq take_bit_nat_eq_self unat_u8_less [THEN less_trans])
qed

section \<open>Hiding a header\<close>

definition hides :: "ptr \<Rightarrow> pbuf \<Rightarrow> bool" where
  "hides p b \<longleftrightarrow> pb_type b \<in> {PBUF_REF, PBUF_ROM} \<or>
     pb_type b \<in> {PBUF_RAM, PBUF_POOL} \<and> p + SIZEOF_STRUCT_PBUF + EP_OFFSET \<le> payload b"

definition shorter :: "nat \<Rightarrow> pbuf \<Rightarrow> pbuf" where
  "shorter k b = b\<lparr>payload := payload b + k, pb_len := pb_len b - of_nat k, tot_len := tot_len b - of_nat k\<rparr>"

lemma hide_header:
  assumes "packet l p (p # as)" "readable (pram l) (pb l) (p # as)" "pb l p = Some b" "hides p b"
    and "0 < k" "k \<le> unat (pb_len b)" "k < 2 ^ 15"
  defines "l' \<equiv> l\<lparr>pb := (pb l)(p \<mapsto> shorter k b)\<rparr>"
  shows "pbuf_header p (- int k) l = Some (0, l')" "packet l' p (p # as)"
    "packet_bytes l' (p # as) = drop k (packet_bytes l (p # as))" "readable (pram l') (pb l') (p # as)"
    "hides p (shorter k b)" "unat (pb_len (shorter k b)) = unat (pb_len b) - k" "unat (tot_len (shorter k b)) = unat (tot_len b) - k"
proof -
  have p0: "p \<noteq> NULL" and nin: "p \<notin> set as"
    using assms(1) path_distinct [of "pb l" p "p # as"] by (auto simp: packet_def)
  have l': "l' = header_lengths p (b\<lparr>payload := payload b + k\<rparr>) (- int k) l"
    by (simp add: l'_def header_lengths_def put_pb_def shorter_def)
  have uk: "unat (of_nat k :: u16) = k" using assms(7) by (intro unat_of_nat_u16) simp
  then have mag: "(of_nat k :: u16) \<le> pb_len b" using assms(6) by (simp add: word_le_nat_alt)
  show "pbuf_header p (- int k) l = Some (0, l')"
    unfolding l' using assms(3-5) p0 mag
    by (auto simp: pbuf_header_def get_pb_def move_ptr_def nat_int_add Let_def hides_def pbuf_types)
  show "packet l' p (p # as)" "packet_bytes l' (p # as) = drop k (packet_bytes l (p # as))"
    unfolding l' using header_down [OF assms(1,3,5,6)] by simp_all
  show len: "unat (pb_len (shorter k b)) = unat (pb_len b) - k" using mag uk by (simp add: shorter_def unat_sub)
  have "unat (pb_len b) \<le> unat (tot_len b)" using assms(1,3) by (simp add: packet_def plen_def)
  then have "(of_nat k :: u16) \<le> tot_len b" using uk assms(6) by (simp add: word_le_nat_alt)
  then show "unat (tot_len (shorter k b)) = unat (tot_len b) - k" using uk by (simp add: shorter_def unat_sub)
  show "hides p (shorter k b)" using assms(4) by (auto simp: hides_def shorter_def)
  have "valid_range (pram l) (payload b + k) (unat (pb_len b) - k)"
    using assms(2,3,6) valid_range_sub [of "pram l" "payload b" "unat (pb_len b)" k "unat (pb_len b) - k"]
    by (simp add: readable_def pbuf_valid_def)
  then show "readable (pram l') (pb l') (p # as)"
    using assms(2) nin len by (auto simp: readable_def l'_def pbuf_valid_def shorter_def)
qed

section \<open>Receiving\<close>

lemma demux_frame:
  "demux src dest bc inp (s\<lparr>lw := l\<rparr>) = map_option (\<lambda>(p, t). (p, t\<lparr>lw := l\<rparr>)) (demux src dest bc inp s)"
proof -
  have "s\<lparr>lw := l, udp_pcbs := x\<rparr> = s\<lparr>udp_pcbs := x, lw := l\<rparr>" for x by simp
  then show ?thesis
    unfolding demux_def
    by (cases "upcb s (if_dhcp_pcb inp)"; cases "upcb s (if_dhcps_pcb inp)";
      cases "find_pcb (upcb s) (local_match dest bc (current_iphdr_dest s)) (remote_match src (current_iphdr_src s)) (udp_pcbs s) NULL")
      auto
qed

lemma demux_keeps:
  assumes "demux src dest bc inp s = Some (pcb, t)"
  shows "lw t = lw s" "upcb t = upcb s" "current_iphdr_src t = current_iphdr_src s" "current_iphdr_dest t = current_iphdr_dest s"
  using assms by (auto simp: demux_def bind_eq_Some_conv split: if_splits prod.splits)

text \<open>A datagram: the ports and the length in network byte order, the checksum as the processor stores it, the data.\<close>

definition udp_bytes :: "u16 \<Rightarrow> u16 \<Rightarrow> u16 \<Rightarrow> u16 \<Rightarrow> u8 list \<Rightarrow> u8 list" where
  "udp_bytes sport dport n c data = be16b sport @ be16b dport @ be16b n @ [ucast c, ucast (drop_bit 8 c)] @ data"

text \<open>What the receiver accepts: no checksum, or a right one over the datagram and its pseudo header.\<close>

definition udp_intact :: "u32 \<Rightarrow> u32 \<Rightarrow> u16 \<Rightarrow> u16 \<Rightarrow> u16 \<Rightarrow> u16 \<Rightarrow> u8 list \<Rightarrow> bool" where
  "udp_intact src dst sport dport n c data \<longleftrightarrow>
     c = 0 \<or> inet_sum (pseudo_bytes src dst IP_PROTO_UDP (of_nat (8 + length data)) @ udp_bytes sport dport n c data) = 0xFFFF"

lemma length_udp_bytes [simp]: "length (udp_bytes sport dport n c data) = 8 + length data"
  by (simp add: udp_bytes_def be16b_def)

lemma udp_bytes_nth:
  "udp_bytes sport dport n c data ! 0 = ucast (drop_bit 8 sport)" "udp_bytes sport dport n c data ! Suc 0 = ucast sport"
  "udp_bytes sport dport n c data ! 2 = ucast (drop_bit 8 dport)" "udp_bytes sport dport n c data ! Suc (Suc (Suc 0)) = ucast dport"
  "udp_bytes sport dport n c data ! 6 = ucast c" "udp_bytes sport dport n c data ! 7 = ucast (drop_bit 8 c)"
  by (simp_all add: udp_bytes_def be16b_def nth_append)

lemma udp_fields:
  assumes "packet l p (p # as)" "readable (pram l) (pb l) (p # as)" "pb l p = Some b" "8 \<le> unat (pb_len b)"
    and "packet_bytes l (p # as) = udp_bytes sport dport n c data"
  shows "map_option htons (ld16 (pram l) (payload b)) = Some sport" "map_option htons (ld16 (pram l) (payload b + 2)) = Some dport"
    "ld16 (pram l) (payload b + 6) = Some c"
proof -
  have m: "pram l (payload b + i) = Some (udp_bytes sport dport n c data ! i)" if "i < 8" for i
    using packet_first_byte [OF assms(1-3), of i] that assms(4,5) by simp
  show "map_option htons (ld16 (pram l) (payload b)) = Some sport"
    by (rule ld16_be) (use m [of 0] m [of 1] in \<open>simp_all add: udp_bytes_nth\<close>)
  show "map_option htons (ld16 (pram l) (payload b + 2)) = Some dport"
    by (rule ld16_be) (use m [of 2] m [of 3] in \<open>simp_all add: udp_bytes_nth numeral_3_eq_3\<close>)
  show "ld16 (pram l) (payload b + 6) = Some c"
    using m [of 6] m [of 7] join_bytes [of c] by (simp add: ld16_def udp_bytes_nth add.commute)
qed

lemma packet_bytes_length: "packet l p as \<Longrightarrow> length (packet_bytes l as) = total_len (pb l) as"
  by (simp add: packet_bytes_def)


text \<open>\<^term>\<open>udp_input\<close> on a datagram behind an IP header, up to the decision of the checksum.\<close>

lemma udp_input_step:
  assumes "packet (lw s) p (p # as)" "readable (pram (lw s)) (pb (lw s)) (p # as)" "pb (lw s) p = Some b" "hides p b"
    and bytes: "packet_bytes (lw s) (p # as) = iph @ udp_bytes sport dport n c data"
    and iph: "length iph = 4 * unat (hd iph AND 0x0f)" "2 \<le> length iph" "length iph + 8 \<le> unat (pb_len b)"
    and pcb: "demux sport dport (ip4_addr_isbroadcast (current_iphdr_dest s) (if_net inp) \<noteq> 0) inp s = Some (pcb, t)"
  defines "t' \<equiv> t\<lparr>lw := (lw s)\<lparr>pb := (pb (lw s))(p \<mapsto> shorter (length iph) b)\<rparr>\<rparr>"
  shows "udp_input e p inp s =
      (if (pcb \<noteq> NULL \<or> netif_ip_addr (if_net inp) = current_iphdr_dest s)
          \<and> udp_intact (current_iphdr_src s) (current_iphdr_dest s) sport dport n c data
       then udp_deliver e pcb p (unat (hd iph AND 0x0f)) sport
              (ip4_addr_isbroadcast (current_iphdr_dest s) (if_net inp) \<noteq> 0) t'
       else drop_pbuf p t')"
proof -
  let ?hl = "unat (hd iph AND 0x0f)" and ?b = "shorter (length iph) b" and ?l = "lw t'"
  have l: "?l = (lw s)\<lparr>pb := (pb (lw s))(p \<mapsto> ?b)\<rparr>" by (simp add: t'_def)
  have p0: "p \<noteq> NULL" using assms(1) by (simp add: packet_def)
  have first: "pram (lw s) (payload b + i) = Some (iph ! i)" if "i < 2" for i
    using packet_first_byte [OF assms(1-3), of i] that iph bytes by (simp add: nth_append)
  have hd0: "hd iph = iph ! 0" by (rule hd_conv_nth) (use iph(2) in auto)
  then obtain w where w: "ld16 (pram (lw s)) (payload b) = Some w" "IPH_HL w = ?hl"
    using first [of 0] first [of 1] IPH_HL_join by (simp add: ld16_def)
  have tot: "unat (tot_len b) = length iph + 8 + length data"
    using packet_bytes_length [OF assms(1)] bytes assms(1,3) by (simp add: packet_def)
  have "unat (hd iph AND 0x0f) \<le> unat (0x0f :: u8)" unfolding word_le_nat_alt [symmetric] by (rule word_and_le1)
  then have k: "0 < length iph" "length iph \<le> unat (pb_len b)" "length iph < 2 ^ 15" using iph by simp_all
  note h = hide_header [OF assms(1-4) k, folded l]
  have bytes': "packet_bytes ?l (p # as) = udp_bytes sport dport n c data" using h(3) bytes by simp
  have b': "pb ?l p = Some ?b" "8 \<le> unat (pb_len ?b)" using h(6) iph(3) by (simp_all add: l)
  obtain v1 v2 where f: "ld16 (pram ?l) (payload ?b) = Some v1" "htons v1 = sport" "ld16 (pram ?l) (payload ?b + 2) = Some v2"
      "htons v2 = dport" "ld16 (pram ?l) (payload ?b + 6) = Some c"
    using udp_fields [OF h(2,4) b' bytes'] by auto
  have tl: "tot_len ?b = of_nat (8 + length data)"
  proof -
    have n: "unat (tot_len ?b) = 8 + length data" using h(7) tot by simp
    show ?thesis using arg_cong [OF n, of "of_nat :: nat \<Rightarrow> u16"] by simp
  qed
  note keep = demux_keeps [OF pcb]
  have ck: "udp_check p ?b t' = Some (udp_intact (current_iphdr_src s) (current_iphdr_dest s) sport dport n c data)"
    using packet_pseudo [OF h(2,4)] f(5) bytes' keep
    by (simp add: udp_check_def udp_intact_def tl not_zero_iff t'_def)
  have d: "demux sport dport (ip4_addr_isbroadcast (current_iphdr_dest s) (if_net inp) \<noteq> 0) inp (s\<lparr>lw := ?l\<rparr>) = Some (pcb, t')"
    unfolding demux_frame pcb by (simp add: t'_def)
  have long: "\<not> unat (tot_len b) < ?hl * 4 + UDP_HLEN" using tot iph(1) by (simp add: UDP_HLEN_def)
  have "- (uint (hd iph AND 0x0f) * 4) = - int (length iph)" using iph(1) by simp
  then have h1: "pbuf_header p (- (uint (hd iph AND 0x0f) * 4)) (lw s) = Some (0, ?l)" using h(1) by (simp only:)
  have "current_iphdr_dest t' = current_iphdr_dest s" using keep by (simp add: t'_def)
  then show ?thesis
    using p0 assms(3)
    by (simp add: udp_input_def get_pb_def w long h1 b'(1) f d [simplified] ck Let_def del: add_2_eq_Suc add_2_eq_Suc')
qed

lemma udp_deliver_calls:
  assumes "packet (lw s) p (p # as)" "readable (pram (lw s)) (pb (lw s)) (p # as)" "pb (lw s) p = Some b" "hides p b"
    and "8 \<le> unat (pb_len b)" "pcb \<noteq> NULL" "upcb s pcb = Some cb" "u_recv cb \<noteq> NULL"
  shows "\<exists>t. udp_deliver e pcb p hl src bc s = e_up e (Recv_cb (u_recv cb) (u_recv_arg cb) pcb p (current_iphdr_src s) src) t
    \<and> packet (lw t) p (p # as) \<and> packet_bytes (lw t) (p # as) = drop 8 (packet_bytes (lw s) (p # as))"
proof -
  note h = hide_header [OF assms(1-4), of 8]
  show ?thesis
    using h(1-3) assms(5-8)
    by (intro exI [of _ "s\<lparr>lw := (lw s)\<lparr>pb := (pb (lw s))(p \<mapsto> shorter 8 b)\<rparr>\<rparr>"]) (simp add: udp_deliver_def UDP_HLEN_def Let_def)
qed

lemma udp_intact_damaged:
  assumes "udp_intact src dst sport dport n c data" "c \<noteq> 0" "c' \<noteq> 0" "b \<noteq> b'"
    and "udp_bytes sport dport n c data = xs @ b # ys" "udp_bytes sport' dport' n' c' data' = xs @ b' # ys"
  shows "\<not> udp_intact src dst sport' dport' n' c' data'"
proof -
  have "length (udp_bytes sport dport n c data) = length (udp_bytes sport' dport' n' c' data')" using assms(5,6) by simp
  then have n: "length data' = length data" by simp
  show ?thesis
    using assms(1-3) inet_sum_detects [OF assms(4), of "pseudo_bytes src dst IP_PROTO_UDP (of_nat (8 + length data)) @ xs" ys] n
    by (simp add: udp_intact_def assms(5,6))
qed

section \<open>Sending\<close>

lemma st16_stored:
  assumes "valid_range m a 2"
  shows "st16 a v m = Some (stored a [ucast v, ucast (drop_bit 8 v)] m)"
proof -
  have v: "m (a + i) \<noteq> None" if "i < 2" for i using assms that by (simp add: valid_range_iff)
  show ?thesis using v [of 0] v [of 1] by (auto simp: st16_def poke_def stored_def less_Suc_eq nth_Cons' fun_upd_def cong: if_cong intro!: ext)
qed

definition longer :: "nat \<Rightarrow> pbuf \<Rightarrow> pbuf" where
  "longer k b = b\<lparr>payload := payload b - k, pb_len := pb_len b + of_nat k, tot_len := tot_len b + of_nat k\<rparr>"

text \<open>Room for \<open>k\<close> more bytes in front of the data.\<close>

definition headroom :: "mem \<Rightarrow> ptr \<Rightarrow> pbuf \<Rightarrow> nat \<Rightarrow> bool" where
  "headroom m p b k \<longleftrightarrow> pb_type b \<in> {PBUF_RAM, PBUF_POOL} \<and> p + SIZEOF_STRUCT_PBUF + EP_OFFSET + k \<le> payload b
     \<and> valid_range m (payload b - k) k \<and> unat (tot_len b) + k < 2 ^ 16"

lemma unat_add_u16: "unat x + unat y < 2 ^ 16 \<Longrightarrow> unat (x + y) = unat x + unat y" for x y :: u16
  by (simp add: unat_add_lem [THEN iffD1])

lemma valid_range_append: "valid_range m a (j + k) \<longleftrightarrow> valid_range m a j \<and> valid_range m (a + j) k"
proof -
  have "(\<forall>i<j + k. P i) \<longleftrightarrow> (\<forall>i<j. P i) \<and> (\<forall>i<k. P (j + i))" for P
    by (metis add_diff_inverse_nat nat_add_left_cancel_less trans_less_add1)
  then show ?thesis by (simp add: valid_range_iff add.assoc)
qed

text \<open>The buffers behind the first one when that is replaced.\<close>

lemma head_replaced:
  assumes "packet l p (p # as)" "pb l p = Some b"
  shows "path ((pb l)(p \<mapsto> b')) (pb_next b) as" "totals ((pb l)(p \<mapsto> b')) as" "unat (tot_len b) = unat (pb_len b) + total_len (pb l) as"
    "total_len ((pb l)(p \<mapsto> b')) as = total_len (pb l) as" "path_bytes m ((pb l)(p \<mapsto> b')) as = path_bytes m (pb l) as"
    "p \<noteq> NULL" "p \<notin> set as"
proof -
  have p: "path (pb l) (pb_next b) as" "totals (pb l) as"
    using assms by (auto simp: packet_def)
  show "unat (tot_len b) = unat (pb_len b) + total_len (pb l) as" "p \<noteq> NULL" and nin: "p \<notin> set as"
    using assms path_distinct [of "pb l" p "p # as"] by (auto simp: packet_def plen_def)
  show "path ((pb l)(p \<mapsto> b')) (pb_next b) as" using p(1) nin path_upd_other by simp
  have "totals ((pb l)(p \<mapsto> b')) as = totals (pb l) as" using nin by (intro totals_cong) force
  then show "totals ((pb l)(p \<mapsto> b')) as" using p(2) by simp
  show "total_len ((pb l)(p \<mapsto> b')) as = total_len (pb l) as" using nin by (intro total_len_cong) force
  show "path_bytes m ((pb l)(p \<mapsto> b')) as = path_bytes m (pb l) as" using nin by (intro path_bytes_cong) force
qed

lemma reveal_header:
  assumes "packet l p (p # as)" "readable (pram l) (pb l) (p # as)" "pb l p = Some b" "headroom (pram l) p b k" "0 < k"
  defines "l' \<equiv> l\<lparr>pb := (pb l)(p \<mapsto> longer k b)\<rparr>"
  shows "pbuf_header p (int k) l = Some (0, l')" "packet l' p (p # as)"
    "packet_bytes l' (p # as) = bytes_at (pram l) (payload b - k) k @ packet_bytes l (p # as)" "readable (pram l') (pb l') (p # as)"
    "unat (tot_len (longer k b)) = unat (tot_len b) + k" "unat (pb_len (longer k b)) = unat (pb_len b) + k"
proof -
  note p = head_replaced [OF assms(1,3)]
  have room: "k \<le> payload b" "p + SIZEOF_STRUCT_PBUF + EP_OFFSET + k \<le> payload b" "unat (tot_len b) + k < 2 ^ 16"
    using assms(4) by (simp_all add: headroom_def)
  have uk: "unat (of_nat k :: u16) = k" using room(3) by (intro unat_of_nat_u16) simp
  show t: "unat (tot_len (longer k b)) = unat (tot_len b) + k" using room(3) uk by (simp add: longer_def unat_add_u16)
  show n: "unat (pb_len (longer k b)) = unat (pb_len b) + k" using room(3) uk p(3) by (simp add: longer_def unat_add_u16)
  have l': "l' = header_lengths p (b\<lparr>payload := payload b - k\<rparr>) (int k) l"
    by (simp add: l'_def header_lengths_def put_pb_def longer_def)
  show "pbuf_header p (int k) l = Some (0, l')"
    unfolding l' using assms(3-5) p(6) room
    by (auto simp: pbuf_header_def get_pb_def move_ptr_def Let_def headroom_def nat_minus_as_int pbuf_types)
  have nx: "pb_next (longer k b) = pb_next b" by (simp add: longer_def)
  show "packet l' p (p # as)" using p t n nx by (simp add: packet_def l'_def plen_def)
  have pl: "payload (longer k b) = payload b - k" by (simp add: longer_def)
  have split: "unat (pb_len (longer k b)) = k + unat (pb_len b)" "payload b - k + k = payload b" using n room(1) by simp_all
  show "packet_bytes l' (p # as) = bytes_at (pram l) (payload b - k) k @ packet_bytes l (p # as)"
    using p(5) assms(3) bytes_at_append [of "pram l" "payload b - k" k "unat (pb_len b)"] split
    by (simp add: packet_bytes_def l'_def pbuf_bytes_def pl)
  have "valid_range (pram l) (payload b - k) (k + unat (pb_len b))"
    using assms(2-4) split(2) by (auto simp: readable_def pbuf_valid_def headroom_def valid_range_append)
  then show "readable (pram l') (pb l') (p # as)"
    using assms(2) p(7) split(1) by (auto simp: readable_def l'_def pbuf_valid_def pl)
qed


lemma dom_stored: "dom m \<subseteq> dom (stored d bs m)"
  by (auto simp: stored_def)

text \<open>Bytes of the first buffer are overwritten.\<close>

lemma packet_stored:
  assumes "packet l p (p # as)" "readable (pram l) (pb l) (p # as)" "pb l p = Some b" "i + length bs \<le> unat (pb_len b)"
    and "outside (pb l) as (payload b + i) (length bs)"
  defines "l' \<equiv> l\<lparr>pram := stored (payload b + i) bs (pram l)\<rparr>"
  shows "packet l' p (p # as)" "readable (pram l') (pb l') (p # as)"
    "packet_bytes l' (p # as) = take i (packet_bytes l (p # as)) @ bs @ drop (i + length bs) (packet_bytes l (p # as))"
proof -
  show "packet l' p (p # as)" using assms(1) by (simp add: packet_def l'_def)
  show "readable (pram l') (pb l') (p # as)" using readable_stored [OF assms(2)] by (simp add: l'_def)
  have rest: "path_bytes (pram l') (pb l) as = path_bytes (pram l) (pb l) as"
    using path_bytes_stored [OF assms(5)] by (simp add: l'_def)
  have "pbuf_bytes (pram l') b = take i (pbuf_bytes (pram l) b) @ bs @ drop (i + length bs) (pbuf_bytes (pram l) b)"
    using assms(4) by (auto simp: pbuf_bytes_def bytes_at_def l'_def stored_def nth_append intro!: nth_equalityI)
  then show "packet_bytes l' (p # as) = take i (packet_bytes l (p # as)) @ bs @ drop (i + length bs) (packet_bytes l (p # as))"
    using rest assms(3,4) by (simp add: packet_bytes_def l'_def)
qed

lemma put_field_stored:
  assumes "packet l p (p # as)" "readable (pram l) (pb l) (p # as)" "pb l p = Some b" "i + 2 \<le> unat (pb_len b)"
    and "outside (pb l) as (payload b + i) 2"
  shows "\<exists>l'. put_field (payload b + i) v l = Some l' \<and> pb l' = pb l \<and> dom (pram l) \<subseteq> dom (pram l') \<and> packet l' p (p # as)
    \<and> readable (pram l') (pb l') (p # as)
    \<and> packet_bytes l' (p # as)
        = take i (packet_bytes l (p # as)) @ [ucast v, ucast (drop_bit 8 v)] @ drop (i + 2) (packet_bytes l (p # as))"
proof -
  have "valid_range (pram l) (payload b + i) 2"
    using assms(2-4) valid_range_sub [of "pram l" "payload b" "unat (pb_len b)" i 2] by (simp add: readable_def pbuf_valid_def)
  then show ?thesis
    using packet_stored [OF assms(1-3), of i "[ucast v, ucast (drop_bit 8 v)]"] assms(4,5) st16_stored dom_stored
    by (simp add: put_field_def numeral_2_eq_2)
qed

lemma htons_bytes_list: "[ucast (htons v), ucast (drop_bit 8 (htons v))] = be16b v"
  by (simp add: be16b_def htons_high htons_low)

lemma inet_sum_ones:
  assumes "even (length xs)" "inet_sum (xs @ [0, 0] @ ys) = 0xFFFF"
  shows "inet_sum (xs @ [0xFF, 0xFF] @ ys) = 0xFFFF"
proof -
  let ?s = "le_sum (xs @ [0, 0] @ ys)"
  have s: "?s \<noteq> 0"
  proof
    assume z: "?s = 0"
    show False using assms(2) unfolding inet_sum_def z by (simp add: ones16_def)
  qed
  have "le_sum (xs @ [0xFF, 0xFF] @ ys) = ?s + 65535" using assms(1) by (simp add: le_sum_even)
  moreover have "same16 (?s + 65535) ?s" using s by (simp add: same16_def)
  ultimately show ?thesis using assms(2) by (simp add: inet_sum_def ones16_eq_iff [THEN iffD2])
qed

lemma packet_flags:
  fixes f :: u8
  assumes "packet l p (p # as)" "readable (pram l) (pb l) (p # as)" "pb l p = Some b"
  defines "l' \<equiv> put_pb p (b\<lparr>pb_flags := f\<rparr>) l"
  shows "packet l' p (p # as)" "readable (pram l') (pb l') (p # as)" "packet_bytes l' (p # as) = packet_bytes l (p # as)"
proof -
  note p = head_replaced [OF assms(1,3)]
  show "packet l' p (p # as)" "packet_bytes l' (p # as) = packet_bytes l (p # as)"
    using p assms(3) by (simp_all add: packet_def packet_bytes_def l'_def plen_def put_pb_def pbuf_bytes_def)
  show "readable (pram l') (pb l') (p # as)" using assms(2,3) p(7) by (auto simp: readable_def l'_def put_pb_def pbuf_valid_def)
qed


lemma head8: "length h = 8 \<Longrightarrow> \<exists>a0 a1 a2 a3 a4 a5 a6 a7. h = [a0, a1, a2, a3, a4, a5, a6, a7]"
  by (auto simp: length_Suc_conv eval_nat_numeral)

lemma udp_fill_writes:
  assumes "packet l q (q # as)" "readable (pram l) (pb l) (q # as)" "pb l q = Some b" "8 \<le> unat (pb_len b)"
    and apart: "outside (pb l) as (payload b) 8"
    and bytes: "packet_bytes l (q # as) = h @ data" "length h = 8"
  shows "\<exists>l' f x. udp_fill q c dst dport l = Some l' \<and> pb l' = (pb l)(q \<mapsto> b\<lparr>pb_flags := f\<rparr>) \<and> dom (pram l) \<subseteq> dom (pram l') \<and> packet l' q (q # as)
    \<and> readable (pram l') (pb l') (q # as) \<and> packet_bytes l' (q # as) = be16b (u_local_port c) @ be16b dport @ x @ [0, 0] @ data
    \<and> length x = 2"
proof -
  obtain a0 a1 a2 a3 a4 a5 a6 a7 where h: "h = [a0, a1, a2, a3, a4, a5, a6, a7]" using head8 [OF bytes(2)] by blast
  have q0: "q \<noteq> NULL" using assms(1) by (simp add: packet_def)
  have out: "outside (pb l) as (payload b + i) 2" if "i + 2 \<le> 8" for i using outside_sub [OF apart that] .
  obtain l1 where l1: "put_field (payload b) (htons (u_local_port c)) l = Some l1" "pb l1 = pb l" "packet l1 q (q # as)"
      "readable (pram l1) (pb l1) (q # as)" "packet_bytes l1 (q # as) = be16b (u_local_port c) @ [a2, a3, a4, a5, a6, a7] @ data"
      "dom (pram l) \<subseteq> dom (pram l1)"
    using put_field_stored [OF assms(1-3), of 0 "htons (u_local_port c)"] assms(4) out [of 0] bytes(1) h
    by (auto simp: be16b_def htons_high htons_low)
  obtain l2 where l2: "put_field (payload b + 2) (htons dport) l1 = Some l2" "pb l2 = pb l" "packet l2 q (q # as)"
      "readable (pram l2) (pb l2) (q # as)" "packet_bytes l2 (q # as) = be16b (u_local_port c) @ be16b dport @ [a4, a5, a6, a7] @ data"
      "dom (pram l1) \<subseteq> dom (pram l2)"
    using put_field_stored [OF l1(3,4), of b 2 "htons dport"] assms(3,4) out [of 2] l1(2,5)
    by (auto simp: be16b_def htons_high htons_low)
  obtain l3 where l3: "put_field (payload b + 6) 0 l2 = Some l3" "pb l3 = pb l" "packet l3 q (q # as)"
      "readable (pram l3) (pb l3) (q # as)" "packet_bytes l3 (q # as) = be16b (u_local_port c) @ be16b dport @ [a4, a5] @ [0, 0] @ data"
      "dom (pram l2) \<subseteq> dom (pram l3)"
    using put_field_stored [OF l2(3,4), of b 6 0] assms(3,4) out [of 6] l2(2,5)
    by (auto simp: be16b_def)
  have dm: "dom (pram l) \<subseteq> dom (pram l3)" using l1(6) l2(6) l3(6) by blast
  have b3: "pb l3 q = Some b" using l3(2) assms(3) by simp
  have e: "udp_fill q c dst dport l = Some (if ip_addr_ismulticast dst \<and> u_flags c AND UDP_FLAGS_MULTICAST_LOOP \<noteq> 0
      then put_pb q (b\<lparr>pb_flags := pb_flags b OR PBUF_FLAG_MCASTLOOP\<rparr>) l3 else l3)"
    using assms(3) q0 l1(1) l2(1) l3(1) by (simp add: udp_fill_def get_pb_def)
  note fl = packet_flags [OF l3(3,4) b3, of "pb_flags b OR PBUF_FLAG_MCASTLOOP"]
  show ?thesis
  proof (cases "ip_addr_ismulticast dst \<and> u_flags c AND UDP_FLAGS_MULTICAST_LOOP \<noteq> 0")
    case True
    then show ?thesis using e fl l3(2,5) dm
      by (intro exI [of _ "put_pb q (b\<lparr>pb_flags := pb_flags b OR PBUF_FLAG_MCASTLOOP\<rparr>) l3"]
        exI [of _ "pb_flags b OR PBUF_FLAG_MCASTLOOP"] exI [of _ "[a4, a5]"]) (simp add: put_pb_def)
  next
    case False
    then show ?thesis using e l3 assms(3) dm
      by (intro exI [of _ l3] exI [of _ "pb_flags b"] exI [of _ "[a4, a5]"]) (auto simp: fun_upd_idem)
  qed
qed

lemma sealed_intact:
  assumes "ck = NOT (inet_sum (pseudo_bytes src dst IP_PROTO_UDP (of_nat (8 + length data)) @ udp_bytes sport dport n 0 data))"
  shows "udp_intact src dst sport dport n (if ck = 0 then 0xffff else ck) data"
proof -
  let ?h = "pseudo_bytes src dst IP_PROTO_UDP (of_nat (8 + length data)) @ be16b sport @ be16b dport @ be16b n"
  have ev: "even (length ?h)" by (simp add: pseudo_bytes_def addr_bytes_def be16b_def)
  have ck: "ck = NOT (inet_sum (?h @ [0, 0] @ data))" using assms by (simp add: udp_bytes_def)
  show ?thesis
  proof (cases "ck = 0")
    case True
    then have "inet_sum (?h @ [0, 0] @ data) = 0xFFFF" using ck not_zero_iff by simp
    from inet_sum_ones [OF ev this] have o: "inet_sum (?h @ [0xFF, 0xFF] @ data) = 0xFFFF" .
    have ff: "(ucast (0xffff :: u16) :: u8) = 0xFF" "(ucast (drop_bit 8 (0xffff :: u16)) :: u8) = 0xFF" by code_simp+
    have "udp_bytes sport dport n 0xffff data = be16b sport @ be16b dport @ be16b n @ [0xFF, 0xFF] @ data"
      unfolding udp_bytes_def ff ..
    then show ?thesis using o True by (simp add: udp_intact_def)
  next
    case False
    then show ?thesis using inet_sum_sealed [OF ev ck] by (simp add: udp_intact_def udp_bytes_def)
  qed
qed

lemma udp_seal_writes:
  assumes "packet l q (q # as)" "readable (pram l) (pb l) (q # as)" "pb l q = Some b" "8 \<le> unat (pb_len b)"
    and apart: "outside (pb l) as (payload b) 8"
    and bytes: "packet_bytes l (q # as) = be16b sport @ be16b dport @ x @ [0, 0] @ data" "length x = 2"
  shows "\<exists>l' ck. udp_seal q c src dst l = Some l' \<and> pb l' = pb l \<and> dom (pram l) \<subseteq> dom (pram l') \<and> packet l' q (q # as) \<and> readable (pram l') (pb l') (q # as)
    \<and> packet_bytes l' (q # as) = udp_bytes sport dport (of_nat (8 + length data)) ck data
    \<and> udp_intact src dst sport dport (of_nat (8 + length data)) ck data
    \<and> (ck = 0 \<longleftrightarrow> u_flags c AND UDP_FLAGS_NOCHKSUM \<noteq> 0)"
proof -
  have q0: "q \<noteq> NULL" using assms(1) by (simp add: packet_def)
  have out: "outside (pb l) as (payload b + i) 2" if "i + 2 \<le> 8" for i using outside_sub [OF apart that] .
  have "unat (tot_len b) = 8 + length data"
    using packet_bytes_length [OF assms(1)] bytes assms(1,3) by (simp add: packet_def be16b_def)
  from arg_cong [OF this, of "of_nat :: nat \<Rightarrow> u16"] have tl: "tot_len b = of_nat (8 + length data)" by simp
  let ?n = "of_nat (8 + length data) :: u16"
  obtain l1 where l1: "put_field (payload b + 4) (htons (tot_len b)) l = Some l1" "pb l1 = pb l" "packet l1 q (q # as)"
      "readable (pram l1) (pb l1) (q # as)" "packet_bytes l1 (q # as) = udp_bytes sport dport ?n 0 data"
      "dom (pram l) \<subseteq> dom (pram l1)"
    using put_field_stored [OF assms(1-3), of 4 "htons (tot_len b)"] assms(4) out [of 4] bytes
    by (auto simp: udp_bytes_def be16b_def htons_high htons_low tl simp del: of_nat_add)
  show ?thesis
  proof (cases "u_flags c AND UDP_FLAGS_NOCHKSUM = 0")
    case False
    then show ?thesis using l1 assms(3) q0
      by (intro exI [of _ l1] exI [of _ 0]) (simp add: udp_seal_def get_pb_def udp_intact_def)
  next
    case True
    define ck where "ck = NOT (inet_sum (pseudo_bytes src dst IP_PROTO_UDP ?n @ udp_bytes sport dport ?n 0 data))"
    let ?c = "if ck = 0 then 0xffff else ck"
    have p: "inet_chksum_pseudo (pb l1) q src dst IP_PROTO_UDP (tot_len b) (pram l1) = Some ck"
      using packet_pseudo [OF l1(3,4)] l1(5) by (simp add: ck_def tl)
    obtain l2 where l2: "put_field (payload b + 6) ?c l1 = Some l2" "pb l2 = pb l" "packet l2 q (q # as)"
        "readable (pram l2) (pb l2) (q # as)" "packet_bytes l2 (q # as) = udp_bytes sport dport ?n ?c data"
        "dom (pram l1) \<subseteq> dom (pram l2)"
      using put_field_stored [OF l1(3,4), of b 6 ?c] assms(3,4) out [of 6] l1(2,5)
      by (auto simp: udp_bytes_def be16b_def)
    have "?c \<noteq> 0" by simp
    then show ?thesis using l1(1,6) l2 p True assms(3) q0 sealed_intact [OF ck_def]
      by (intro exI [of _ l2] exI [of _ ?c]) (simp add: udp_seal_def get_pb_def)
  qed
qed


text \<open>A packet that can be sent: there is room for headers in front of its first buffer, and no other buffer uses it.\<close>

definition sendable :: "nat \<Rightarrow> lwip \<Rightarrow> ptr \<Rightarrow> ptr list \<Rightarrow> bool" where
  "sendable k l p as \<longleftrightarrow> packet l p (p # as) \<and> readable (pram l) (pb l) (p # as) \<and> headroom (pram l) p (the (pb l p)) k
     \<and> outside (pb l) as (payload (the (pb l p)) - k) k"

lemma udp_sendto_if_outputs:
  assumes "upcb s pcb = Some c" "u_local_port c \<noteq> 0" "u_local_ip c \<in> {IPADDR_ANY, netif_ip_addr nif}" "sendable 8 (lw s) p as"
  defines "data \<equiv> packet_bytes (lw s) (p # as)"
  shows "\<exists>l f ck. udp_sendto_if e pcb p dst dport nif s
      = e_out e p (netif_ip_addr nif) dst (u_ttl c) (u_tos c) IP_PROTO_UDP nif (s\<lparr>lw := l\<rparr>)
    \<and> packet l p (p # as) \<and> readable (pram l) (pb l) (p # as)
    \<and> pb l = (pb (lw s))(p \<mapsto> (longer 8 (the (pb (lw s) p)))\<lparr>pb_flags := f\<rparr>) \<and> dom (pram (lw s)) \<subseteq> dom (pram l)
    \<and> packet_bytes l (p # as) = udp_bytes (u_local_port c) dport (of_nat (8 + length data)) ck data
    \<and> udp_intact (netif_ip_addr nif) dst (u_local_port c) dport (of_nat (8 + length data)) ck data
    \<and> (ck = 0 \<longleftrightarrow> u_flags c AND UDP_FLAGS_NOCHKSUM \<noteq> 0)"
proof -
  have pk: "packet (lw s) p (p # as)" "readable (pram (lw s)) (pb (lw s)) (p # as)"
    using assms(4) by (simp_all add: sendable_def)
  then obtain b where b: "pb (lw s) p = Some b" by (auto simp: packet_def)
  have room: "headroom (pram (lw s)) p b 8" and apart: "outside (pb (lw s)) as (payload b - 8) 8"
    using assms(4) b by (simp_all add: sendable_def)
  define l1 where "l1 = (lw s)\<lparr>pb := (pb (lw s))(p \<mapsto> longer 8 b)\<rparr>"
  note h = reveal_header [OF pk b room, folded l1_def]
  have nin: "p \<notin> set as" using head_replaced [OF pk(1) b] by simp
  have same: "outside ((pb (lw s))(p \<mapsto> x)) as = outside (pb (lw s)) as" for x
    using nin by (auto simp: outside_def plen_def fun_eq_iff)
  have b1: "pb l1 p = Some (longer 8 b)" "8 \<le> unat (pb_len (longer 8 b))" "outside (pb l1) as (payload (longer 8 b)) 8"
    using h(6) apart by (simp_all add: l1_def same longer_def)
  obtain l2 f x where l2: "udp_fill p c dst dport l1 = Some l2" "pb l2 = (pb l1)(p \<mapsto> (longer 8 b)\<lparr>pb_flags := f\<rparr>)" "packet l2 p (p # as)"
      "readable (pram l2) (pb l2) (p # as)" "packet_bytes l2 (p # as) = be16b (u_local_port c) @ be16b dport @ x @ [0, 0] @ data" "length x = 2"
      "dom (pram l1) \<subseteq> dom (pram l2)"
    using udp_fill_writes [OF h(2,4) b1, of "bytes_at (pram (lw s)) (payload b - 8) 8" data c dst dport] h(3)
    by (auto simp: data_def)
  have b2: "pb l2 p = Some ((longer 8 b)\<lparr>pb_flags := f\<rparr>)" "8 \<le> unat (pb_len ((longer 8 b)\<lparr>pb_flags := f\<rparr>))"
      "outside (pb l2) as (payload ((longer 8 b)\<lparr>pb_flags := f\<rparr>)) 8"
    using b1 by (simp_all add: l2(2) l1_def same)
  obtain l3 ck where l3: "udp_seal p c (netif_ip_addr nif) dst l2 = Some l3" "packet l3 p (p # as)"
      "packet_bytes l3 (p # as) = udp_bytes (u_local_port c) dport (of_nat (8 + length data)) ck data"
      "udp_intact (netif_ip_addr nif) dst (u_local_port c) dport (of_nat (8 + length data)) ck data"
      "ck = 0 \<longleftrightarrow> u_flags c AND UDP_FLAGS_NOCHKSUM \<noteq> 0" "readable (pram l3) (pb l3) (p # as)" "pb l3 = pb l2"
      "dom (pram l2) \<subseteq> dom (pram l3)"
    using udp_seal_writes [OF l2(3,4) b2 l2(5,6), of c "netif_ip_addr nif" dst] by blast
  have "udp_header_pbuf e p (lw s) = Some (Some p, l1)"
    using h(1) by (simp add: udp_header_pbuf_def UDP_HLEN_def)
  moreover have "(if ip_addr_isany (u_local_ip c) then netif_ip_addr nif else u_local_ip c) = netif_ip_addr nif"
      "\<not> (\<not> ip_addr_isany (u_local_ip c) \<and> u_local_ip c \<noteq> netif_ip_addr nif)"
    using assms(3) by (auto simp: ip_addr_isany_def)
  ultimately have "udp_sendto_if e pcb p dst dport nif s
      = e_out e p (netif_ip_addr nif) dst (u_ttl c) (u_tos c) IP_PROTO_UDP nif (s\<lparr>lw := l3\<rparr>)"
    using assms(1,2) l2(1) l3(1) by (auto simp: udp_sendto_if_def)
  moreover have "pb l3 = (pb (lw s))(p \<mapsto> (longer 8 (the (pb (lw s) p)))\<lparr>pb_flags := f\<rparr>)"
    using l2(2) l3(7) b by (simp add: l1_def)
  moreover have "dom (pram (lw s)) \<subseteq> dom (pram l3)" using l2(7) l3(8) by (auto simp: l1_def)
  ultimately show ?thesis using l3 by (intro exI [of _ l3] exI [of _ f] exI [of _ ck]) simp
qed

section \<open>Binding\<close>

text \<open>Two control blocks collide when they have the same port and their addresses overlap.\<close>

definition collide :: "udp_pcb \<Rightarrow> udp_pcb \<Rightarrow> bool" where
  "collide a b \<longleftrightarrow> u_local_port a = u_local_port b
     \<and> (ip_addr_isany (u_local_ip a) \<or> ip_addr_isany (u_local_ip b) \<or> u_local_ip a = u_local_ip b)"

definition udp_wf :: "stack \<Rightarrow> bool" where
  "udp_wf s \<longleftrightarrow> distinct (udp_pcbs s) \<and> NULL \<notin> set (udp_pcbs s)
     \<and> (\<forall>p\<in>set (udp_pcbs s). \<exists>c. upcb s p = Some c \<and> u_local_port c \<noteq> 0)
     \<and> (\<forall>p\<in>set (udp_pcbs s). \<forall>q\<in>set (udp_pcbs s). p \<noteq> q \<longrightarrow> \<not> collide (the (upcb s p)) (the (upcb s q)))"

lemma bind_loop_spec:
  assumes "\<forall>q\<in>set qs. st q \<noteq> None" "distinct qs"
  shows "\<exists>err r. bind_loop st pcb ip port qs r0 = Some (err, r) \<and> (err = ERR_OK \<or> err = ERR_USE)
    \<and> (err = ERR_OK \<longleftrightarrow> (\<forall>q\<in>set qs. q \<noteq> pcb \<longrightarrow> \<not> (u_local_port (the (st q)) = port
          \<and> (ip_addr_isany (u_local_ip (the (st q))) \<or> ip_addr_isany ip \<or> u_local_ip (the (st q)) = ip))))
    \<and> (err = ERR_OK \<longrightarrow> r = (r0 \<or> pcb \<in> set qs))"
  using assms
proof (induction qs arbitrary: r0)
  case (Cons q qs)
  obtain c where c: "st q = Some c" using Cons.prems(1) by auto
  show ?case
  proof (cases "q = pcb")
    case True
    then show ?thesis using Cons.IH [of True] Cons.prems by auto
  next
    case False
    then show ?thesis using Cons.IH [of r0] Cons.prems c by (auto simp: ERR_OK_def ERR_USE_def)
  qed
qed simp

lemma port_loop_free:
  assumes "port_loop st qs rest port = Some ([], port')" "\<exists>pre. qs = pre @ rest \<and> (\<forall>q\<in>set pre. u_local_port (the (st q)) \<noteq> port)"
  shows "\<forall>q\<in>set qs. u_local_port (the (st q)) \<noteq> port'"
  using assms
proof (induction st qs rest port rule: port_loop.induct)
  case (1 st qs rest port)
  show ?case
  proof (cases rest)
    case Nil
    then show ?thesis using 1(3,4) by (subst (asm) port_loop.simps) auto
  next
    case (Cons q rest')
    then have e: "port \<noteq> UDP_LOCAL_PORT_RANGE_END" using 1(3) by (subst (asm) port_loop.simps) (auto split: if_splits)
    then obtain c where c: "st q = Some c" using 1(3) Cons by (subst (asm) port_loop.simps) (auto split: option.splits)
    show ?thesis
    proof (cases "u_local_port c = port")
      case True
      then have "port_loop st qs qs (port + 1) = Some ([], port')" using 1(3) Cons e c by (subst (asm) port_loop.simps) simp
      then show ?thesis using 1(1) [OF Cons e c True] by simp
    next
      case False
      then have "port_loop st qs rest' port = Some ([], port')" using 1(3) Cons e c by (subst (asm) port_loop.simps) simp
      moreover obtain pre where "qs = pre @ rest" "\<forall>q\<in>set pre. u_local_port (the (st q)) \<noteq> port" using 1(4) by blast
      then have "\<exists>pre. qs = pre @ rest' \<and> (\<forall>q\<in>set pre. u_local_port (the (st q)) \<noteq> port)"
        using Cons False c by (intro exI [of _ "pre @ [q]"]) auto
      ultimately show ?thesis using 1(2) [OF Cons e c False] by blast
    qed
  qed
qed

lemma port_loop_range:
  "port_loop st qs rest port = Some (left, port') \<Longrightarrow> UDP_LOCAL_PORT_RANGE_START \<le> port \<Longrightarrow> port \<le> UDP_LOCAL_PORT_RANGE_END
    \<Longrightarrow> UDP_LOCAL_PORT_RANGE_START \<le> port' \<and> port' \<le> UDP_LOCAL_PORT_RANGE_END"
proof (induction st qs rest port rule: port_loop.induct)
  case (1 st qs rest port)
  have step: "UDP_LOCAL_PORT_RANGE_START \<le> port + 1 \<and> port + 1 \<le> UDP_LOCAL_PORT_RANGE_END" if "port \<noteq> UDP_LOCAL_PORT_RANGE_END"
  proof -
    have "port < UDP_LOCAL_PORT_RANGE_END" using 1(5) that by simp
    then show ?thesis using 1(4)
      by (simp add: UDP_LOCAL_PORT_RANGE_START_def UDP_LOCAL_PORT_RANGE_END_def word_le_nat_alt word_less_nat_alt unat_plus_if')
  qed
  show ?case
    using 1(3) [unfolded port_loop.simps [of st qs rest port]] 1(1,2,4,5) step
    by (auto split: list.splits if_splits option.splits)
qed

lemma port_loop_total: "\<forall>q\<in>set qs. st q \<noteq> None \<Longrightarrow> set rest \<subseteq> set qs \<Longrightarrow> \<exists>r. port_loop st qs rest port = Some r"
proof (induction st qs rest port rule: port_loop.induct)
  case (1 st qs rest port)
  show ?case
  proof (cases rest)
    case (Cons q rest')
    then obtain c where c: "st q = Some c" using 1(3,4) by fastforce
    then show ?thesis
      using 1 Cons by (subst port_loop.simps) auto
  qed (subst port_loop.simps, simp)
qed

text \<open>The search gives up only when each port but the last of the range belongs to a block of the list.\<close>

definition LOCAL_PORTS :: nat where
  "LOCAL_PORTS = unat UDP_LOCAL_PORT_RANGE_END - unat UDP_LOCAL_PORT_RANGE_START"

lemma port_loop_taken:
  assumes "port_loop st qs rest port = Some (left, port')" "left \<noteq> []" "set rest \<subseteq> set qs"
    and "\<forall>i. unat UDP_LOCAL_PORT_RANGE_START \<le> i \<longrightarrow> i < unat port \<longrightarrow> i \<in> (\<lambda>q. unat (u_local_port (the (st q)))) ` set qs"
  shows "{unat UDP_LOCAL_PORT_RANGE_START..<unat UDP_LOCAL_PORT_RANGE_END} \<subseteq> (\<lambda>q. unat (u_local_port (the (st q)))) ` set qs"
  using assms
proof (induction st qs rest port rule: port_loop.induct)
  case (1 st qs rest port)
  show ?case
  proof (cases rest)
    case Nil
    then show ?thesis using 1(3,4) by (subst (asm) port_loop.simps) auto
  next
    case (Cons q rest')
    show ?thesis
    proof (cases "port = UDP_LOCAL_PORT_RANGE_END")
      case True
      then show ?thesis using 1(6) by auto
    next
      case e: False
      then obtain c where c: "st q = Some c" using 1(3) Cons by (subst (asm) port_loop.simps) (auto split: option.splits)
      show ?thesis
      proof (cases "u_local_port c = port")
        case True
        have l: "port_loop st qs qs (port + 1) = Some (left, port')" using 1(3) Cons e c True by (subst (asm) port_loop.simps) simp
        have q: "unat port \<in> (\<lambda>q. unat (u_local_port (the (st q)))) ` set qs"
          using True c Cons 1(5) by (force intro: rev_image_eqI [of q])
        have "i < unat (port + 1) \<Longrightarrow> i < unat port \<or> i = unat port" for i by (simp add: unat_word_ariths) linarith
        then have "\<forall>i. unat UDP_LOCAL_PORT_RANGE_START \<le> i \<longrightarrow> i < unat (port + 1) \<longrightarrow> i \<in> (\<lambda>q. unat (u_local_port (the (st q)))) ` set qs"
          using 1(6) q by metis
        from 1(1) [OF Cons e c True l 1(4) subset_refl this] show ?thesis .
      next
        case False
        then have l: "port_loop st qs rest' port = Some (left, port')" using 1(3) Cons e c by (subst (asm) port_loop.simps) simp
        show ?thesis using 1(2) [OF Cons e c False l 1(4) _ 1(6)] 1(5) Cons by simp
      qed
    qed
  qed
qed

lemma port_loop_full:
  assumes "port_loop st qs qs UDP_LOCAL_PORT_RANGE_START = Some (left, port)" "left \<noteq> []"
  shows "LOCAL_PORTS \<le> length qs"
proof -
  let ?f = "\<lambda>q. unat (u_local_port (the (st q)))"
  have "{unat UDP_LOCAL_PORT_RANGE_START..<unat UDP_LOCAL_PORT_RANGE_END} \<subseteq> ?f ` set qs"
    using port_loop_taken [OF assms] by auto
  then have "card {unat UDP_LOCAL_PORT_RANGE_START..<unat UDP_LOCAL_PORT_RANGE_END} \<le> card (?f ` set qs)" by (intro card_mono) simp_all
  then have "LOCAL_PORTS \<le> card (?f ` set qs)" by (simp add: LOCAL_PORTS_def)
  also have "\<dots> \<le> length qs" using card_image_le [of "set qs" ?f] card_length [of qs] by simp
  finally show ?thesis .
qed

lemma udp_wf_put:
  assumes "udp_wf s" "pcb \<noteq> NULL" "u_local_port c \<noteq> 0"
    and "\<forall>q\<in>set (udp_pcbs s). q \<noteq> pcb \<longrightarrow> \<not> collide (the (upcb s q)) c"
  shows "udp_wf (put_upcb pcb c s)" "pcb \<notin> set (udp_pcbs s) \<Longrightarrow> udp_wf ((put_upcb pcb c s)\<lparr>udp_pcbs := pcb # udp_pcbs s\<rparr>)"
proof -
  have sym: "collide a b \<longleftrightarrow> collide b a" for a b by (auto simp: collide_def)
  show "udp_wf (put_upcb pcb c s)" "pcb \<notin> set (udp_pcbs s) \<Longrightarrow> udp_wf ((put_upcb pcb c s)\<lparr>udp_pcbs := pcb # udp_pcbs s\<rparr>)"
    using assms sym by (auto simp: udp_wf_def put_upcb_def)
qed

lemma udp_bind_cases:
  fixes ip :: u32 and port :: u16
  assumes "udp_wf s" "upcb s pcb = Some c" "pcb \<noteq> NULL"
  defines "free \<equiv> \<forall>q\<in>set (udp_pcbs s). q \<noteq> pcb \<longrightarrow> \<not> collide (the (upcb s q)) (c\<lparr>u_local_ip := ip, u_local_port := port\<rparr>)"
  shows "(\<exists>port'. udp_bind pcb ip port s = Some (ERR_OK, (put_upcb pcb (c\<lparr>u_local_ip := ip, u_local_port := port'\<rparr>) s)
              \<lparr>udp_pcbs := if pcb \<in> set (udp_pcbs s) then udp_pcbs s else pcb # udp_pcbs s\<rparr>)
        \<and> (if port = 0 then port' \<in> {UDP_LOCAL_PORT_RANGE_START..UDP_LOCAL_PORT_RANGE_END}
              \<and> (\<forall>q\<in>set (udp_pcbs s). u_local_port (the (upcb s q)) \<noteq> port') else port' = port \<and> free))
    \<or> port \<noteq> 0 \<and> \<not> free \<and> udp_bind pcb ip port s = Some (ERR_USE, s)
    \<or> port = 0 \<and> udp_bind pcb ip port s = Some (ERR_USE, put_upcb pcb (c\<lparr>u_local_ip := ip\<rparr>) s) \<and> LOCAL_PORTS \<le> length (udp_pcbs s)"
proof -
  have wf: "\<forall>q\<in>set (udp_pcbs s). upcb s q \<noteq> None" "distinct (udp_pcbs s)" "\<forall>q\<in>set (udp_pcbs s). u_local_port (the (upcb s q)) \<noteq> 0"
    using assms(1) by (auto simp: udp_wf_def)
  obtain err r where l: "bind_loop (upcb s) pcb ip port (udp_pcbs s) False = Some (err, r)" "err = ERR_OK \<or> err = ERR_USE"
      "err = ERR_OK \<longleftrightarrow> free" "err = ERR_OK \<longrightarrow> r = (pcb \<in> set (udp_pcbs s))"
    using bind_loop_spec [OF wf(1,2), of pcb ip port False] by (auto simp: free_def collide_def)
  have ne: "ERR_USE \<noteq> ERR_OK" by (simp add: ERR_OK_def ERR_USE_def)
  let ?s = "put_upcb pcb (c\<lparr>u_local_ip := ip\<rparr>) s"
  have again: "put_upcb pcb x ?s = put_upcb pcb x s" "udp_pcbs (put_upcb pcb x s) = udp_pcbs s" for x
    by (simp_all add: put_upcb_def)
  show ?thesis
  proof (cases "port = 0")
    case False
    then show ?thesis using l ne assms(2) again by (cases free) (auto simp: udp_bind_def Let_def)
  next
    case True
    have ports: "u_local_port (the (upcb ?s q)) = u_local_port (the (upcb s q))" for q
      using assms(2) by (simp add: put_upcb_def)
    have "err = ERR_OK" using l(3) wf(3) True by (auto simp: free_def collide_def)
    moreover have "\<forall>q\<in>set (udp_pcbs s). upcb ?s q \<noteq> None" using wf(1) by (simp add: put_upcb_def)
    then obtain lt port' where p: "port_loop (upcb ?s) (udp_pcbs s) (udp_pcbs s) UDP_LOCAL_PORT_RANGE_START = Some (lt, port')"
      using port_loop_total [of "udp_pcbs s" "upcb ?s" "udp_pcbs s" UDP_LOCAL_PORT_RANGE_START] by auto
    ultimately have e: "udp_bind pcb ip port s = (if lt \<noteq> [] then Some (ERR_USE, ?s)
        else Some (ERR_OK, (put_upcb pcb (c\<lparr>u_local_ip := ip, u_local_port := port'\<rparr>) s)
              \<lparr>udp_pcbs := if pcb \<in> set (udp_pcbs s) then udp_pcbs s else pcb # udp_pcbs s\<rparr>))"
      using l True assms(2) again by (simp add: udp_bind_def Let_def)
    have "UDP_LOCAL_PORT_RANGE_START \<le> port' \<and> port' \<le> UDP_LOCAL_PORT_RANGE_END"
      using port_loop_range [OF p] by (simp add: UDP_LOCAL_PORT_RANGE_START_def UDP_LOCAL_PORT_RANGE_END_def)
    moreover have "lt = [] \<Longrightarrow> \<forall>q\<in>set (udp_pcbs s). u_local_port (the (upcb s q)) \<noteq> port'"
      using port_loop_free [of "upcb ?s" "udp_pcbs s" "udp_pcbs s"] p ports by auto
    ultimately show ?thesis using e True port_loop_full [OF p] by (cases "lt = []") auto
  qed
qed


lemma udp_bind_wf:
  assumes "udp_wf s" "upcb s pcb = Some c" "pcb \<noteq> NULL" "udp_bind pcb ip port s = Some (ERR_OK, t)"
  shows "udp_wf t" "pcb \<in> set (udp_pcbs t)" "upcb t pcb \<noteq> None"
proof -
  have ne: "ERR_OK \<noteq> ERR_USE" by (simp add: ERR_OK_def ERR_USE_def)
  obtain port' where t: "t = (put_upcb pcb (c\<lparr>u_local_ip := ip, u_local_port := port'\<rparr>) s)
        \<lparr>udp_pcbs := if pcb \<in> set (udp_pcbs s) then udp_pcbs s else pcb # udp_pcbs s\<rparr>"
      and p: "if port = 0 then port' \<in> {UDP_LOCAL_PORT_RANGE_START..UDP_LOCAL_PORT_RANGE_END}
              \<and> (\<forall>q\<in>set (udp_pcbs s). u_local_port (the (upcb s q)) \<noteq> port')
          else port' = port \<and> (\<forall>q\<in>set (udp_pcbs s). q \<noteq> pcb \<longrightarrow> \<not> collide (the (upcb s q)) (c\<lparr>u_local_ip := ip, u_local_port := port\<rparr>))"
    using udp_bind_cases [OF assms(1-3), of ip port] assms(4) ne by auto
  have nz: "port' \<noteq> 0" using p by (auto simp: UDP_LOCAL_PORT_RANGE_START_def split: if_splits)
  moreover have "\<forall>q\<in>set (udp_pcbs s). q \<noteq> pcb \<longrightarrow> \<not> collide (the (upcb s q)) (c\<lparr>u_local_ip := ip, u_local_port := port'\<rparr>)"
    using p by (auto simp: collide_def split: if_splits)
  ultimately have w: "udp_wf (put_upcb pcb (c\<lparr>u_local_ip := ip, u_local_port := port'\<rparr>) s)"
      "pcb \<notin> set (udp_pcbs s) \<Longrightarrow> udp_wf ((put_upcb pcb (c\<lparr>u_local_ip := ip, u_local_port := port'\<rparr>) s)\<lparr>udp_pcbs := pcb # udp_pcbs s\<rparr>)"
    using udp_wf_put [OF assms(1,3), of "c\<lparr>u_local_ip := ip, u_local_port := port'\<rparr>"] by auto
  have same: "x\<lparr>udp_pcbs := udp_pcbs x\<rparr> = x" for x :: stack by simp
  show "udp_wf t" unfolding t using w same [of "put_upcb pcb (c\<lparr>u_local_ip := ip, u_local_port := port'\<rparr>) s"] by (auto simp: put_upcb_def)
  show "pcb \<in> set (udp_pcbs t)" "upcb t pcb \<noteq> None" unfolding t by (simp_all add: put_upcb_def)
qed

text \<open>A block of the list is changed in what does not concern its place.\<close>

lemma udp_wf_fields:
  assumes "udp_wf s" "upcb s pcb = Some c" "u_local_port c' = u_local_port c" "u_local_ip c' = u_local_ip c"
  shows "udp_wf (put_upcb pcb c' s)"
proof -
  have "collide (the (upcb (put_upcb pcb c' s) p)) (the (upcb (put_upcb pcb c' s) q)) = collide (the (upcb s p)) (the (upcb s q))" for p q
    using assms(2-4) by (simp add: collide_def put_upcb_def)
  moreover have "\<forall>p\<in>set (udp_pcbs s). \<exists>d. upcb (put_upcb pcb c' s) p = Some d \<and> u_local_port d \<noteq> 0"
    using assms by (auto simp: udp_wf_def put_upcb_def)
  moreover have "udp_pcbs (put_upcb pcb c' s) = udp_pcbs s" by (simp add: put_upcb_def)
  ultimately show ?thesis using assms(1) by (simp add: udp_wf_def)
qed

lemma udp_bind_again:
  assumes "udp_wf s" "upcb s pcb = Some c" "pcb \<noteq> NULL" "udp_bind pcb (u_local_ip c) port s = Some (err, t)" "err \<noteq> ERR_OK"
  shows "t = s"
proof -
  have "put_upcb pcb (c\<lparr>u_local_ip := u_local_ip c\<rparr>) s = s" using assms(2) by (simp add: put_upcb_def fun_upd_idem)
  then show ?thesis using udp_bind_cases [OF assms(1-3), of "u_local_ip c" port] assms(4,5) by auto
qed

lemma udp_connect_wf:
  assumes "udp_wf s" "upcb s pcb = Some c" "pcb \<noteq> NULL" "u_local_port c \<noteq> 0 \<Longrightarrow> pcb \<in> set (udp_pcbs s)"
    and "udp_connect pcb ip port s = Some (err, t)"
  shows "udp_wf t"
proof -
  have put: "udp_wf t" if "udp_wf r" "upcb r pcb = Some d" "pcb \<in> set (udp_pcbs r)"
      "t = (let r = put_upcb pcb (d\<lparr>u_remote_ip := ip, u_remote_port := port, u_flags := u_flags d OR UDP_FLAGS_CONNECTED\<rparr>) r
            in if pcb \<in> set (udp_pcbs r) then r else r\<lparr>udp_pcbs := pcb # udp_pcbs r\<rparr>)" for r d
    using udp_wf_fields [OF that(1,2), of "d\<lparr>u_remote_ip := ip, u_remote_port := port, u_flags := u_flags d OR UDP_FLAGS_CONNECTED\<rparr>"]
      that(3,4) by (auto simp: put_upcb_def)
  show ?thesis
  proof (cases "u_local_port c = 0")
    case False
    then show ?thesis using put [OF assms(1,2)] assms(2,4,5) by (auto simp: udp_connect_def Let_def)
  next
    case True
    then obtain err1 r where r: "udp_bind pcb (u_local_ip c) 0 s = Some (err1, r)"
      using assms(2,5) by (cases "udp_bind pcb (u_local_ip c) 0 s") (auto simp: udp_connect_def)
    show ?thesis
    proof (cases "err1 = ERR_OK")
      case ok: True
      note w = udp_bind_wf [OF assms(1-3) r [unfolded ok]]
      obtain d where "upcb r pcb = Some d" using w(3) by auto
      then show ?thesis using put [OF w(1) _ w(2)] r ok True assms(2,5) by (auto simp: udp_connect_def Let_def)
    next
      case False
      then have "t = r" using r True assms(2,5) by (auto simp: udp_connect_def)
      then show ?thesis using udp_bind_again [OF assms(1-3) r False] assms(1) by simp
    qed
  qed
qed

lemma unlink_removes: "distinct qs \<Longrightarrow> qs = [] \<or> hd qs \<noteq> pcb \<Longrightarrow> unlink pcb qs = remove1 pcb qs"
proof (induction pcb qs rule: unlink.induct)
  case (1 pcb a b qs)
  have "unlink pcb qs = qs" if "pcb \<notin> set qs" for qs using that by (induction pcb qs rule: unlink.induct) auto
  then show ?case using 1 by (cases "b = pcb") auto
qed auto

lemma udp_remove_wf: "udp_wf s \<Longrightarrow> udp_wf (udp_remove pcb s)"
proof -
  assume w: "udp_wf s"
  have "(if udp_pcbs s \<noteq> [] \<and> hd (udp_pcbs s) = pcb then tl (udp_pcbs s) else unlink pcb (udp_pcbs s)) = remove1 pcb (udp_pcbs s)"
    using w unlink_removes [of "udp_pcbs s" pcb] by (cases "udp_pcbs s") (auto simp: udp_wf_def)
  then show ?thesis using w by (auto simp: udp_wf_def udp_remove_def Let_def)
qed

lemma demux_wf:
  assumes "udp_wf s" "demux src dest bc inp s = Some (pcb, t)"
  shows "udp_wf t"
proof -
  have "udp_wf (s\<lparr>udp_pcbs := pcb # remove1 pcb (udp_pcbs s)\<rparr>)" if "pcb \<in> set (udp_pcbs s)"
  proof -
    have "pcb \<noteq> NULL" using assms(1) that by (metis udp_wf_def)
    then show ?thesis using assms(1) that by (auto simp: udp_wf_def)
  qed
  moreover have "p \<in> set qs \<or> p = NULL" if "find_pcb st lm rm qs u = Some (p, u')" for st lm rm qs u p u'
    using that by (induction qs arbitrary: u) (auto simp: Let_def bind_eq_Some_conv split: if_splits)
  ultimately show ?thesis using assms
    by (fastforce simp: demux_def bind_eq_Some_conv split: if_splits)
qed

text \<open>Every state the operations reach from one without control blocks, in any order and with any outcome.\<close>

inductive udp_reach :: "udp_env \<Rightarrow> stack \<Rightarrow> bool" for e where
  start: "udp_reach e s" if "udp_pcbs s = []" "upcb s = Map.empty"
| created: "udp_reach e (snd (udp_new e s))"
    if "udp_reach e s" "e_memp e s = (pcb, s')" "udp_pcbs s' = udp_pcbs s" "upcb s' = upcb s" "upcb s pcb = None"
| bound: "udp_reach e t"
    if "udp_reach e s" "pcb \<noteq> NULL" "udp_bind pcb ip port s = Some (err, t)"
| connected: "udp_reach e t" if "udp_reach e s" "pcb \<noteq> NULL" "udp_connect pcb ip port s = Some (err, t)"
| disconnected: "udp_reach e t" if "udp_reach e s" "udp_disconnect pcb s = Some t"
| callback: "udp_reach e t" if "udp_reach e s" "udp_recv pcb fn arg s = Some t"
| removed: "udp_reach e (udp_remove pcb s)" if "udp_reach e s"
| received: "udp_reach e t" if "udp_reach e s" "demux src dest bc inp s = Some (pcb, t)"
| elsewhere: "udp_reach e t" if "udp_reach e s" "udp_pcbs t = udp_pcbs s" "upcb t = upcb s"

definition bound_listed :: "stack \<Rightarrow> bool" where
  "bound_listed s \<longleftrightarrow> (\<forall>p c. upcb s p = Some c \<and> u_local_port c \<noteq> 0 \<longrightarrow> p \<in> set (udp_pcbs s))"

lemma bound_listed_put:
  "bound_listed s \<Longrightarrow> upcb s pcb = Some c \<Longrightarrow> u_local_port c' = u_local_port c \<Longrightarrow> bound_listed (put_upcb pcb c' s)"
  by (auto simp: bound_listed_def put_upcb_def)

lemma udp_bind_listed:
  assumes "udp_wf s" "bound_listed s" "upcb s pcb = Some c" "pcb \<noteq> NULL" "udp_bind pcb ip port s = Some (err, t)"
  shows "bound_listed t"
  using udp_bind_cases [OF assms(1,3,4), of ip port] assms(2,3,5) bound_listed_put [OF assms(2,3), of "c\<lparr>u_local_ip := ip\<rparr>"]
  by (auto simp: bound_listed_def put_upcb_def split: if_splits)

lemma udp_connect_listed:
  assumes "udp_wf s" "bound_listed s" "upcb s pcb = Some c" "pcb \<noteq> NULL" "udp_connect pcb ip port s = Some (err, t)"
  shows "bound_listed t"
proof (cases "u_local_port c = 0")
  case False
  then show ?thesis using assms(2,3,5) by (auto simp: udp_connect_def bound_listed_def put_upcb_def Let_def split: if_splits)
next
  case True
  then obtain err1 r where r: "udp_bind pcb (u_local_ip c) 0 s = Some (err1, r)"
    using assms(3,5) by (cases "udp_bind pcb (u_local_ip c) 0 s") (auto simp: udp_connect_def)
  then have "bound_listed r" using udp_bind_listed [OF assms(1-4)] by blast
  then show ?thesis
    using r True assms(3,5)
    by (auto simp: udp_connect_def bound_listed_def put_upcb_def Let_def bind_eq_Some_conv split: if_splits)
qed

lemma demux_set: "demux src dest bc inp s = Some (pcb, t) \<Longrightarrow> set (udp_pcbs s) \<subseteq> set (udp_pcbs t)"
proof -
  have r: "x \<in> set qs \<Longrightarrow> x \<notin> set (remove1 p qs) \<Longrightarrow> x = p" for x p :: ptr and qs by (induction qs) (auto split: if_splits)
  show "demux src dest bc inp s = Some (pcb, t) \<Longrightarrow> set (udp_pcbs s) \<subseteq> set (udp_pcbs t)"
    by (auto simp: demux_def bind_eq_Some_conv split: if_splits dest: r)
qed

lemma udp_wf_unlisted: "udp_wf s \<Longrightarrow> pcb \<notin> set (udp_pcbs s) \<Longrightarrow> udp_wf (put_upcb pcb x s)"
proof -
  assume w: "udp_wf s" "pcb \<notin> set (udp_pcbs s)"
  have "upcb (put_upcb pcb x s) p = upcb s p" if "p \<in> set (udp_pcbs s)" for p using w(2) that by (auto simp: put_upcb_def)
  moreover have "udp_pcbs (put_upcb pcb x s) = udp_pcbs s" by (simp add: put_upcb_def)
  ultimately show ?thesis using w(1) by (simp add: udp_wf_def)
qed

lemma udp_bind_defined: "udp_bind pcb ip port s = Some (err, t) \<Longrightarrow> t = s \<or> upcb s pcb \<noteq> None"
  by (auto simp: udp_bind_def bind_eq_Some_conv split: if_splits)

lemma udp_bind_refused:
  assumes "udp_wf s" "upcb s pcb = Some c" "pcb \<noteq> NULL" "udp_bind pcb ip port s = Some (err, t)" "err \<noteq> ERR_OK"
    and "length (udp_pcbs s) < LOCAL_PORTS"
  shows "t = s"
  using udp_bind_cases [OF assms(1-3), of ip port] assms(4-6) by auto

text \<open>The blocks come from a set of addresses with fewer elements than there are ports.\<close>

definition small_pool :: "udp_env \<Rightarrow> ptr set \<Rightarrow> bool" where
  "small_pool e P \<longleftrightarrow> finite P \<and> card P < LOCAL_PORTS \<and> (\<forall>s. fst (e_memp e s) = NULL \<or> fst (e_memp e s) \<in> P)"

lemma udp_bind_dom:
  assumes "udp_bind pcb ip port s = Some (err, t)"
  shows "upcb t y = None \<longleftrightarrow> upcb s y = None"
proof (cases "upcb s pcb")
  case None
  then show ?thesis using udp_bind_defined [OF assms] by simp
next
  case (Some c)
  have put: "upcb (put_upcb pcb x s) y = None \<longleftrightarrow> upcb s y = None" for x using Some by (simp add: put_upcb_def)
  have again: "put_upcb pcb x (put_upcb pcb y s) = put_upcb pcb x s" for x y by (simp add: put_upcb_def)
  obtain err0 r where l: "bind_loop (upcb s) pcb ip port (udp_pcbs s) False = Some (err0, r)"
    using assms by (cases "bind_loop (upcb s) pcb ip port (udp_pcbs s) False") (auto simp: udp_bind_def)
  show ?thesis
  proof (cases "err0 = ERR_OK")
    case False
    then show ?thesis using assms l by (simp add: udp_bind_def)
  next
    case True
    let ?s = "put_upcb pcb (c\<lparr>u_local_ip := ip\<rparr>) s"
    obtain lt port' where p: "(if port = 0 then port_loop (upcb ?s) (udp_pcbs ?s) (udp_pcbs ?s) UDP_LOCAL_PORT_RANGE_START else Some ([], port)) = Some (lt, port')"
        "(if lt \<noteq> [] then Some (ERR_USE, ?s)
          else let s = put_upcb pcb (c\<lparr>u_local_ip := ip, u_local_port := port'\<rparr>) ?s
               in Some (ERR_OK, if r then s else s\<lparr>udp_pcbs := pcb # udp_pcbs s\<rparr>)) = Some (err, t)"
      using assms l True Some unfolding udp_bind_def by (force simp: Let_def Option.bind_eq_Some_conv)
    show ?thesis using p(2) by (cases "lt = []"; cases r) (auto simp: Let_def put again)
  qed
qed

lemma udp_connect_dom:
  assumes "udp_connect pcb ip port s = Some (err, t)"
  shows "upcb t y = None \<longleftrightarrow> upcb s y = None"
proof -
  obtain c where c: "upcb s pcb = Some c" using assms by (auto simp: udp_connect_def Option.bind_eq_Some_conv)
  obtain err1 u where u: "(if u_local_port c = 0 then udp_bind pcb (u_local_ip c) (u_local_port c) s else Some (ERR_OK, s)) = Some (err1, u)"
      "(if err1 \<noteq> ERR_OK then Some (err1, u)
        else do { c \<leftarrow> upcb u pcb;
            let u = put_upcb pcb (c\<lparr>u_remote_ip := ip, u_remote_port := port, u_flags := u_flags c OR UDP_FLAGS_CONNECTED\<rparr>) u;
            Some (ERR_OK, if pcb \<in> set (udp_pcbs u) then u else u\<lparr>udp_pcbs := pcb # udp_pcbs u\<rparr>) }) = Some (err, t)"
    using assms c unfolding udp_connect_def by (force simp: Option.bind_eq_Some_conv)
  have d: "upcb u y = None \<longleftrightarrow> upcb s y = None" for y
    using u(1) udp_bind_dom [of pcb "u_local_ip c" "u_local_port c" s err1 u y] by (cases "u_local_port c = 0") simp_all
  obtain c1 where c1: "upcb u pcb = Some c1" using c d [of pcb] by auto
  have put: "upcb (put_upcb pcb x u) y = None \<longleftrightarrow> upcb u y = None" for x using c1 by (simp add: put_upcb_def)
  show ?thesis
  proof (cases "err1 = ERR_OK")
    case False
    then show ?thesis using u(2) d by simp
  next
    case True
    let ?u = "put_upcb pcb (c1\<lparr>u_remote_ip := ip, u_remote_port := port, u_flags := u_flags c1 OR UDP_FLAGS_CONNECTED\<rparr>) u"
    have "t = (if pcb \<in> set (udp_pcbs ?u) then ?u else ?u\<lparr>udp_pcbs := pcb # udp_pcbs ?u\<rparr>)" using u(2) c1 True by (simp add: Let_def)
    then have "upcb t = upcb ?u" by simp
    then show ?thesis using d put by simp
  qed
qed

lemma few_listed:
  assumes "udp_wf s" "dom (upcb s) \<subseteq> P" "small_pool e P"
  shows "length (udp_pcbs s) < LOCAL_PORTS"
proof -
  have "set (udp_pcbs s) \<subseteq> P" using assms(1,2) by (fastforce simp: udp_wf_def)
  then have "card (set (udp_pcbs s)) \<le> card P" using assms(3) by (intro card_mono) (simp_all add: small_pool_def)
  then show ?thesis using assms(1,3) by (simp add: udp_wf_def small_pool_def distinct_card)
qed

lemma udp_reach_pool: "udp_reach e s \<Longrightarrow> small_pool e P \<Longrightarrow> dom (upcb s) \<subseteq> P"
proof (induction rule: udp_reach.induct)
  case (created s pcb s')
  then have "pcb = NULL \<or> pcb \<in> P" unfolding small_pool_def by (metis fst_conv)
  moreover have "upcb (snd (udp_new e s)) = (if pcb = NULL then upcb s else (upcb s)(pcb \<mapsto> new_pcb))"
    using created(2,4) by (simp add: udp_new_def put_upcb_def)
  moreover have "dom (upcb s) \<subseteq> P" using created by blast
  ultimately show ?case by auto
next
  case (bound s pcb ip port err t)
  then show ?case using udp_bind_dom [OF bound(3)] by (auto simp: dom_def)
next
  case (connected s pcb ip port err t)
  then show ?case using udp_connect_dom [OF connected(3)] by (auto simp: dom_def)
next
  case (removed s pcb)
  have "dom (upcb (udp_remove pcb s)) \<subseteq> dom (upcb s)" by (auto simp: udp_remove_def Let_def split: if_splits)
  then show ?case using removed by blast
next
  case (received s src dest bc inp pcb t)
  then show ?case using demux_keeps(2) by fastforce
qed (auto simp: udp_disconnect_def udp_recv_def bind_eq_Some_conv put_upcb_def dom_def split: if_splits)

lemma udp_reach_inv: "udp_reach e s \<Longrightarrow> small_pool e P \<Longrightarrow> udp_wf s \<and> bound_listed s"
proof (induction rule: udp_reach.induct)
  case (start s)
  then show ?case by (simp add: udp_wf_def bound_listed_def)
next
  case (created s pcb s')
  have w: "udp_wf s'" "bound_listed s'" "upcb s' pcb = None" using created by (simp_all add: udp_wf_def bound_listed_def)
  have "pcb \<notin> set (udp_pcbs s')" using w(1,3) by (auto simp: udp_wf_def)
  then show ?case using w created(2) udp_wf_unlisted [OF w(1)]
    by (auto simp: udp_new_def bound_listed_def put_upcb_def new_pcb_def)
next
  case (bound s pcb ip port err t)
  show ?case
  proof (cases "upcb s pcb")
    case None
    then show ?thesis using udp_bind_defined [OF bound(3)] bound by auto
  next
    case (Some c)
    have "udp_wf s" "bound_listed s" using bound by blast+
    then show ?thesis
      using udp_bind_listed [OF _ _ Some bound(2,3)] udp_bind_wf(1) [OF _ Some bound(2)] udp_bind_refused [OF _ Some bound(2,3)]
        few_listed [OF _ udp_reach_pool [OF bound(1,5)] bound(5)] bound(3)
      by (cases "err = ERR_OK") auto
  qed
next
  case (connected s pcb ip port err t)
  then obtain c where c: "upcb s pcb = Some c" by (auto simp: udp_connect_def bind_eq_Some_conv)
  then have "u_local_port c \<noteq> 0 \<Longrightarrow> pcb \<in> set (udp_pcbs s)" using connected by (auto simp: bound_listed_def)
  then show ?case using udp_connect_wf [OF _ c connected(2)] udp_connect_listed [OF _ _ c connected(2)] connected by blast
next
  case (disconnected s pcb t)
  then show ?case using udp_wf_fields bound_listed_put by (auto simp: udp_disconnect_def bind_eq_Some_conv)
next
  case (callback s pcb fn arg t)
  then show ?case using udp_wf_fields bound_listed_put by (auto simp: udp_recv_def bind_eq_Some_conv)
next
  case (removed s pcb)
  have "set (udp_pcbs s) - {pcb} \<subseteq> set (udp_pcbs (udp_remove pcb s))"
    using removed unlink_removes [of "udp_pcbs s" pcb]
    by (cases "udp_pcbs s") (auto simp: udp_remove_def udp_wf_def Let_def)
  then have "bound_listed (udp_remove pcb s)"
    using removed by (auto simp: bound_listed_def udp_remove_def Let_def split: if_splits)
  then show ?case using removed udp_remove_wf by blast
next
  case (received s src dest bc inp pcb t)
  then show ?case using demux_wf demux_set demux_keeps(2) by (fastforce simp: bound_listed_def)
next
  case (elsewhere s t)
  then show ?case by (simp add: udp_wf_def bound_listed_def)
qed

section \<open>Properties\<close>

text \<open>A packet of the network: an IP header of the length it states, then a datagram, with both headers in the first buffer.\<close>

definition arrived :: "lwip \<Rightarrow> ptr \<Rightarrow> ptr list \<Rightarrow> u8 list \<Rightarrow> u8 list \<Rightarrow> bool" where
  "arrived l p as iph bs \<longleftrightarrow> packet l p (p # as) \<and> readable (pram l) (pb l) (p # as) \<and> packet_bytes l (p # as) = iph @ bs
     \<and> length iph = 4 * unat (hd iph AND 0x0f) \<and> 2 \<le> length iph \<and> length iph + 8 \<le> unat (pb_len (the (pb l p)))
     \<and> hides p (the (pb l p))"

lemma arrived_step:
  assumes "arrived (lw s) p as iph (udp_bytes sport dport n c data)"
    and "demux sport dport (ip4_addr_isbroadcast (current_iphdr_dest s) (if_net inp) \<noteq> 0) inp s = Some (pcb, t)"
  obtains t' where "\<And>e. udp_input e p inp s =
      (if (pcb \<noteq> NULL \<or> netif_ip_addr (if_net inp) = current_iphdr_dest s)
          \<and> udp_intact (current_iphdr_src s) (current_iphdr_dest s) sport dport n c data
       then udp_deliver e pcb p (unat (hd iph AND 0x0f)) sport
              (ip4_addr_isbroadcast (current_iphdr_dest s) (if_net inp) \<noteq> 0) t'
       else drop_pbuf p t')"
    "upcb t' = upcb s" "current_iphdr_src t' = current_iphdr_src s" "packet (lw t') p (p # as)"
    "readable (pram (lw t')) (pb (lw t')) (p # as)" "packet_bytes (lw t') (p # as) = udp_bytes sport dport n c data"
    "hides p (the (pb (lw t') p))" "8 \<le> unat (pb_len (the (pb (lw t') p)))"
proof -
  note a = assms(1) [unfolded arrived_def]
  obtain b where b: "pb (lw s) p = Some b" using a by (auto simp: packet_def)
  have h: "hides p b" "length iph + 8 \<le> unat (pb_len b)" using a b by simp_all
  have "unat (hd iph AND 0x0f) \<le> unat (0x0f :: u8)" unfolding word_le_nat_alt [symmetric] by (rule word_and_le1)
  then have k: "0 < length iph" "length iph \<le> unat (pb_len b)" "length iph < 2 ^ 15" using a h(2) by auto
  note hh = hide_header [of "lw s" p as b "length iph", OF _ _ b h(1) k]
  note st = udp_input_step [of s p as b iph sport dport n c data inp pcb t, OF _ _ b h(1) _ _ _ h(2) assms(2)]
  show thesis
    by (rule that [of "t\<lparr>lw := (lw s)\<lparr>pb := (pb (lw s))(p \<mapsto> shorter (length iph) b)\<rparr>\<rparr>"])
      (use a st hh h(2) demux_keeps [OF assms(2)] in simp_all)
qed

text \<open>A datagram that arrives intact is delivered: the callback of the control block it is for is called with a packet
  of exactly the data, and with the address and the port of its sender; whatever the buffers it came in.\<close>

lemma udp_input_delivers:
  assumes "arrived (lw s) p as iph (udp_bytes sport dport n c data)"
    and "demux sport dport (ip4_addr_isbroadcast (current_iphdr_dest s) (if_net inp) \<noteq> 0) inp s = Some (pcb, t)"
    and "pcb \<noteq> NULL" "upcb s pcb = Some cb" "u_recv cb \<noteq> NULL"
    and "udp_intact (current_iphdr_src s) (current_iphdr_dest s) sport dport n c data"
  shows "\<exists>t'. udp_input e p inp s = e_up e (Recv_cb (u_recv cb) (u_recv_arg cb) pcb p (current_iphdr_src s) sport) t'
    \<and> packet (lw t') p (p # as) \<and> packet_bytes (lw t') (p # as) = data"
proof -
  obtain t' where t': "udp_input e p inp s = udp_deliver e pcb p (unat (hd iph AND 0x0f)) sport
              (ip4_addr_isbroadcast (current_iphdr_dest s) (if_net inp) \<noteq> 0) t'"
      "upcb t' = upcb s" "current_iphdr_src t' = current_iphdr_src s" "packet (lw t') p (p # as)"
      "readable (pram (lw t')) (pb (lw t')) (p # as)" "packet_bytes (lw t') (p # as) = udp_bytes sport dport n c data"
      "hides p (the (pb (lw t') p))" "8 \<le> unat (pb_len (the (pb (lw t') p)))"
    using arrived_step [OF assms(1,2)] assms(3,6) by metis
  obtain b where b: "pb (lw t') p = Some b" using t'(4) by (auto simp: packet_def)
  have "drop 8 (udp_bytes sport dport n c data) = data" by (simp add: udp_bytes_def be16b_def)
  then show ?thesis
    using udp_deliver_calls [OF t'(4,5) b _ _ assms(3) _ assms(5), of e] t' b assms(4) by simp
qed

text \<open>C29. A damaged datagram never reaches a callback: if one byte of an intact datagram with a checksum is changed, and the
  checksum field does not become 0, the packet is freed and nothing is called, whatever control blocks there are.\<close>

theorem udp_input_drops_damaged:
  assumes "udp_intact (current_iphdr_src s) (current_iphdr_dest s) sport dport n c data" "c \<noteq> 0"
    and "udp_bytes sport dport n c data = xs @ x # ys" "udp_bytes sport' dport' n' c' data' = xs @ x' # ys" "x \<noteq> x'" "c' \<noteq> 0"
    and "arrived (lw s) p as iph (udp_bytes sport' dport' n' c' data')"
    and "demux sport' dport' (ip4_addr_isbroadcast (current_iphdr_dest s) (if_net inp) \<noteq> 0) inp s = Some (pcb, t)"
  shows "\<exists>t'. udp_input e p inp s = drop_pbuf p t' \<and> packet (lw t') p (p # as)"
  using arrived_step [OF assms(7,8)] udp_intact_damaged [OF assms(1,2,6,5,3,4)] by metis

text \<open>C30. In every reachable state, after any sequence of calls with any outcome, the control blocks of the list are distinct, bound and have
  no address and port in common, so at most one of them is addressed by a datagram that is neither broadcast nor multicast.
  It is relied on that the blocks come from fewer addresses than the 28671 ports \<^verbatim>\<open>udp_bind\<close> tries, so that its search for a free port does
  not fail after it has stored the new address (the 96 KB of data RAM of the chip have 24576 aligned addresses).\<close>

theorem udp_reach_exclusive:
  assumes "udp_reach e s" "small_pool e P"
  shows "udp_wf s \<and> (\<not> ip_addr_ismulticast dst \<longrightarrow> p \<in> set (udp_pcbs s) \<longrightarrow> q \<in> set (udp_pcbs s)
    \<longrightarrow> local_match port False dst (the (upcb s p)) \<longrightarrow> local_match port False dst (the (upcb s q)) \<longrightarrow> p = q)"
  using udp_reach_inv [OF assms] by (auto simp: udp_wf_def collide_def local_match_def)

section \<open>Examples\<close>

definition demo_upcb :: udp_pcb where
  "demo_upcb = new_pcb\<lparr>u_local_port := 5000, u_recv := 77, u_recv_arg := 78\<rparr>"

definition demo_nif :: netif where
  "demo_nif = \<lparr>netif_ip_addr = 0x0100A8C0, netif_netmask = 0x00FFFFFF, netif_gw = 0,
     netif_flags = 0x23, netif_mtu = 1500, netif_hwaddr = [2, 0, 0, 0, 0, 1]\<rparr>"

definition no_entry :: etharp_entry where
  "no_entry = \<lparr>arp_q = [], arp_ipaddr = 0, arp_ethaddr = [0, 0, 0, 0, 0, 0], arp_netif = NULL, arp_state = ETHARP_STATE_EMPTY, arp_ctime = 0\<rparr>"

definition demo_env :: udp_env where
  "demo_env = \<lparr>e_malloc = (\<lambda>_ l. (NULL, l)), e_up = (\<lambda>_ s. Some s), e_route = (\<lambda>_ _. Some demo_nif),
     e_out = (\<lambda>_ _ _ _ _ _ _ s. Some (ERR_OK, s)), e_memp = (\<lambda>s. (60, s))\<rparr>"

text \<open>A stack with one control block, and one packet at 200 with the given bytes.\<close>

definition demo_stack :: "u8 list \<Rightarrow> stack" where
  "demo_stack bs = \<lparr>lw = \<lparr>pb = [100 \<mapsto> demo_buf 0 200 (of_nat (length bs)) (of_nat (length bs)) 1],
       pram = stored 160 (replicate 40 0 @ bs) Map.empty, calls = []\<rparr>,
     udp_pcbs = [50], upcb = [50 \<mapsto> demo_upcb], current_iphdr_src = 0x0200A8C0, current_iphdr_dest = 0x0100A8C0,
     current_netif = NULL, current_header = NULL, ip_id = 0, nifs = [40 \<mapsto> demo_nif], netif_list = [40], netif_default = 40,
     arp_table = replicate 10 no_entry, etharp_cached_entry = 0\<rparr>"

definition demo_inif :: inif where
  "demo_inif = \<lparr>if_net = demo_nif, if_dhcp_pcb = NULL, if_dhcps_pcb = NULL\<rparr>"

lemmas demo_udp = demo_stack_def demo_upcb_def new_pcb_def demo_nif_def demo_inif_def

lemma demo_stack_packet:
  assumes "length bs < 2 ^ 16"
  shows "packet (lw (demo_stack bs)) 100 [100]" "packet_bytes (lw (demo_stack bs)) [100] = bs"
    "readable (pram (lw (demo_stack bs))) (pb (lw (demo_stack bs))) [100]" "headroom (pram (lw (demo_stack bs))) 100 (the (pb (lw (demo_stack bs)) 100)) 28
       \<longleftrightarrow> length bs + 28 < 2 ^ 16"
proof -
  have n: "unat (of_nat (length bs) :: u16) = length bs" using assms by (intro unat_of_nat_u16) simp
  have m: "stored 160 (replicate 40 0 @ bs) Map.empty (200 + i) = Some (bs ! i)" if "i < length bs" for i
    using that by (simp add: stored_def nth_append)
  show "packet (lw (demo_stack bs)) 100 [100]" using n by (simp add: demo_stack_def demo_buf_def packet_def plen_def)
  show "packet_bytes (lw (demo_stack bs)) [100] = bs"
    using n m by (auto simp: demo_stack_def demo_buf_def packet_bytes_def pbuf_bytes_def path_bytes_def bytes_at_def intro!: nth_equalityI)
  show "readable (pram (lw (demo_stack bs))) (pb (lw (demo_stack bs))) [100]"
    using n m by (simp add: demo_stack_def demo_buf_def readable_def pbuf_valid_def valid_range_iff)
  show "headroom (pram (lw (demo_stack bs))) 100 (the (pb (lw (demo_stack bs)) 100)) 28 \<longleftrightarrow> length bs + 28 < 2 ^ 16"
    using n by (auto simp: demo_stack_def demo_buf_def headroom_def SIZEOF_STRUCT_PBUF_def EP_OFFSET_def pbuf_types valid_range_iff stored_def)
qed

definition demo_iph :: "u8 list" where
  "demo_iph = [0x45, 0, 0, 31, 0, 1, 0, 0, 64, 17, 0, 0, 192, 168, 0, 2, 192, 168, 0, 1]"

lemma demo_arrived:
  assumes "length data < 1000"
  shows "arrived (lw (demo_stack (demo_iph @ udp_bytes sp dp n c data))) 100 [] demo_iph (udp_bytes sp dp n c data)"
proof -
  have iph: "length demo_iph = 20" "hd demo_iph = 0x45" by (simp_all add: demo_iph_def)
  let ?bs = "demo_iph @ udp_bytes sp dp n c data"
  have l: "length ?bs = 28 + length data" "length ?bs < 2 ^ 16" using assms iph by simp_all
  have n: "unat (of_nat (length ?bs) :: u16) = 28 + length data" unfolding l(1) using assms by (intro unat_of_nat_u16) simp
  have h: "hides 100 (the (pb (lw (demo_stack ?bs)) 100))" "unat (pb_len (the (pb (lw (demo_stack ?bs)) 100))) = 28 + length data"
    using n by (simp_all add: demo_stack_def demo_buf_def hides_def pbuf_types SIZEOF_STRUCT_PBUF_def EP_OFFSET_def)
  have "unat ((0x45 :: u8) AND 0x0f) = 5" by code_simp
  then show ?thesis using demo_stack_packet [OF l(2)] h iph by (simp add: arrived_def)
qed

lemma demo_demux:
  "demux 53 5000 bc demo_inif (demo_stack bs) = Some (50, demo_stack bs)"
  by (cases bc) (auto simp: demux_def demo_udp local_match_def remote_match_def ip_addr_isany_def IPADDR_ANY_def DHCP_CLIENT_PORT_def
      DHCP_SERVER_PORT_def UDP_FLAGS_CONNECTED_def Let_def)

lemma demo_intact: "udp_intact 0x0200A8C0 0x0100A8C0 53 5000 11 50534 [1, 2, 3]"
  by (simp add: udp_intact_def inet_sum_def ones16_def pseudo_bytes_def addr_bytes_def udp_bytes_def be16b_def IP_PROTO_UDP_def)

lemma demo_addresses: "current_iphdr_src (demo_stack bs) = 0x0200A8C0" "current_iphdr_dest (demo_stack bs) = 0x0100A8C0"
  "upcb (demo_stack bs) 50 = Some demo_upcb"
  by (simp_all add: demo_stack_def)

theorem udp_input_drops_damaged_witness:
  "\<exists>t. udp_input demo_env 100 demo_inif (demo_stack (demo_iph @ udp_bytes 53 5000 11 50534 [1, 2, 7])) = drop_pbuf 100 t
    \<and> packet (lw t) 100 [100]"
proof -
  have "udp_bytes 53 5000 11 50534 [1, 2, x] = (be16b 53 @ be16b 5000 @ be16b 11 @ [ucast (50534 :: u16), ucast (drop_bit 8 (50534 :: u16))] @ [1, 2]) @ x # []" for x
    by (simp add: udp_bytes_def)
  from udp_input_drops_damaged [of "demo_stack (demo_iph @ udp_bytes 53 5000 11 50534 [1, 2, 7])", OF _ _ this this _ _ demo_arrived demo_demux]
  show ?thesis using demo_intact by (simp add: demo_addresses)
qed

definition no_stack :: stack where
  "no_stack = \<lparr>lw = \<lparr>pb = Map.empty, pram = Map.empty, calls = []\<rparr>, udp_pcbs = [], upcb = Map.empty,
     current_iphdr_src = 0, current_iphdr_dest = 0, current_netif = NULL, current_header = NULL, ip_id = 0, nifs = Map.empty,
     netif_list = [], netif_default = NULL, arp_table = replicate 10 no_entry, etharp_cached_entry = 0\<rparr>"

theorem udp_reach_exclusive_witness:
  "\<exists>s. udp_bind 60 0 5000 (snd (udp_new demo_env no_stack)) = Some (ERR_OK, s) \<and> udp_pcbs s = [60] \<and> udp_wf s"
proof -
  have "udp_reach demo_env (snd (udp_new demo_env no_stack))"
    by (rule udp_reach.created [of _ no_stack 60 no_stack]) (auto intro: udp_reach.start simp: no_stack_def demo_env_def)
  moreover obtain s where s: "udp_bind 60 0 5000 (snd (udp_new demo_env no_stack)) = Some (ERR_OK, s)" "udp_pcbs s = [60]"
    by (simp add: udp_new_def demo_env_def no_stack_def udp_bind_def put_upcb_def)
  ultimately have "udp_reach demo_env s" by (intro udp_reach.bound [OF _ _ s(1)]) simp_all
  moreover have "small_pool demo_env {60}"
    by (simp add: small_pool_def demo_env_def LOCAL_PORTS_def UDP_LOCAL_PORT_RANGE_START_def UDP_LOCAL_PORT_RANGE_END_def)
  ultimately show ?thesis using udp_reach_exclusive s by blast
qed

end
