(* ===== verification/Lwip_Arp_Table.thy ===== *)
theory Lwip_Arp_Table
  imports Lwip_Etharp Lwip_Udp_Proofs
begin

text \<open>
  The ARP table: no address has two entries, queues hold at most three packets, entries expire. A full table loses its
  oldest entry, a resolved one first. Removing the entries of an interface removes none, since no entry records one.
\<close>

section \<open>The invariant of the table\<close>

definition used :: "etharp_entry \<Rightarrow> bool" where
  "used x \<longleftrightarrow> arp_state x \<noteq> ETHARP_STATE_EMPTY"

definition entry_ok :: "etharp_entry \<Rightarrow> bool" where
  "entry_ok x \<longleftrightarrow> arp_netif x = NULL \<and>
     (case arp_state x of
        ETHARP_STATE_EMPTY \<Rightarrow> arp_q x = []
      | ETHARP_STATE_PENDING \<Rightarrow> length (arp_q x) \<le> 3 \<and> arp_ctime x < ARP_MAXPENDING
      | _ \<Rightarrow> arp_q x = [] \<and> arp_ctime x < ARP_MAXAGE)"

definition unique :: "etharp_entry list \<Rightarrow> bool" where
  "unique t \<longleftrightarrow> (\<forall>i<length t. \<forall>j<length t. used (t ! i) \<and> used (t ! j) \<and> arp_ipaddr (t ! i) = arp_ipaddr (t ! j) \<longrightarrow> i = j)"

definition arp_ok :: "stack \<Rightarrow> bool" where
  "arp_ok s \<longleftrightarrow> length (arp_table s) = ARP_TABLE_SIZE \<and> unat (etharp_cached_entry s) < ARP_TABLE_SIZE
     \<and> (\<forall>x\<in>set (arp_table s). entry_ok x) \<and> unique (arp_table s)"

definition arp_part :: "stack \<Rightarrow> etharp_entry list \<times> u8" where
  "arp_part s = (arp_table s, etharp_cached_entry s)"

lemma arp_ok_part: "arp_part t = arp_part s \<Longrightarrow> arp_ok t = arp_ok s"
  by (simp add: arp_part_def arp_ok_def)

lemma arp_part_lw [simp]: "arp_part (s\<lparr>lw := l\<rparr>) = arp_part s"
  by (simp add: arp_part_def)

lemma arp_get_Some: "arp_get i s = Some x \<longleftrightarrow> i < length (arp_table s) \<and> x = arp_table s ! i"
  by (auto simp: arp_get_def)

lemma arp_get_lw [simp]: "arp_get i (s\<lparr>lw := l\<rparr>) = arp_get i s"
  by (simp add: arp_get_def)

lemma arp_part_put: "arp_part (arp_put i x s) = ((arp_table s)[i := x], etharp_cached_entry s)"
  by (simp add: arp_part_def arp_put_def)

lemma arp_ok_put:
  assumes "arp_ok s" "entry_ok x" "i < ARP_TABLE_SIZE"
    and "\<And>j. j < ARP_TABLE_SIZE \<Longrightarrow> j \<noteq> i \<Longrightarrow> used (arp_table s ! j) \<Longrightarrow> used x \<Longrightarrow> arp_ipaddr (arp_table s ! j) \<noteq> arp_ipaddr x"
  shows "arp_ok (arp_put i x s)"
proof -
  have "unique ((arp_table s)[i := x])" unfolding unique_def
  proof (intro allI impI, goal_cases)
    case (1 k j)
    then show ?case using assms(1,3) assms(4) [of k] assms(4) [of j]
      by (auto simp: arp_ok_def unique_def nth_list_update split: if_splits)
  qed
  moreover have "\<forall>y\<in>set ((arp_table s)[i := x]). entry_ok y" using assms(1,2) set_update_subset_insert [of "arp_table s" i x] by (auto simp: arp_ok_def)
  ultimately show ?thesis using assms(1) by (simp add: arp_ok_def arp_put_def)
qed

lemma arp_ok_entry: "arp_ok s \<Longrightarrow> i < ARP_TABLE_SIZE \<Longrightarrow> entry_ok (arp_table s ! i)"
  by (simp add: arp_ok_def)

text \<open>A changed entry that keeps its address, or becomes empty.\<close>

lemma arp_ok_change:
  assumes "arp_ok s" "entry_ok x" "i < ARP_TABLE_SIZE" "used x \<longrightarrow> used (arp_table s ! i) \<and> arp_ipaddr x = arp_ipaddr (arp_table s ! i)"
  shows "arp_ok (arp_put i x s)"
proof (rule arp_ok_put [OF assms(1-3)])
  fix j assume "j < ARP_TABLE_SIZE" "j \<noteq> i" "used (arp_table s ! j)" "used x"
  then show "arp_ipaddr (arp_table s ! j) \<noteq> arp_ipaddr x" using assms(1,3,4) by (auto simp: arp_ok_def unique_def)
qed

section \<open>Freeing\<close>

fun frees :: "ptr list \<Rightarrow> lwip \<Rightarrow> lwip option" where
  "frees [] l = Some l"
| "frees (p # ps) l = do { (_, l) \<leftarrow> pbuf_free p l; frees ps l }"

lemma free_etharp_q_frees: "free_etharp_q ps s = map_option (\<lambda>l. s\<lparr>lw := l\<rparr>) (frees ps (lw s))"
proof (induction ps arbitrary: s)
  case (Cons p ps)
  then show ?case by (cases "pbuf_free p (lw s)") (auto simp: drop_pbuf_def option.map_comp o_def)
qed simp

definition emptied :: "etharp_entry \<Rightarrow> etharp_entry" where
  "emptied x = x\<lparr>arp_q := [], arp_state := ETHARP_STATE_EMPTY\<rparr>"

lemma free_entry_frees:
  assumes "i < length (arp_table s)"
  shows "free_entry i s = map_option (\<lambda>l. arp_put i (emptied (arp_table s ! i)) (s\<lparr>lw := l\<rparr>)) (frees (arp_q (arp_table s ! i)) (lw s))"
proof (cases "arp_q (arp_table s ! i)")
  case Nil
  then show ?thesis using assms by (simp add: free_entry_def arp_get_def emptied_def)
next
  case (Cons p ps)
  then show ?thesis using assms unfolding free_entry_def free_etharp_q_frees
    by (cases "frees (p # ps) (lw s)") (simp_all add: arp_get_def emptied_def del: frees.simps)
qed

lemma emptied_ok: "entry_ok x \<Longrightarrow> entry_ok (emptied x)" "\<not> used (emptied x)"
  by (simp_all add: entry_ok_def emptied_def used_def)

lemma free_entry_ok:
  assumes "arp_ok s" "free_entry i s = Some t" "i < ARP_TABLE_SIZE"
  shows "arp_ok t" "arp_table t = (arp_table s)[i := emptied (arp_table s ! i)]"
proof -
  have i: "i < length (arp_table s)" using assms(1,3) by (simp add: arp_ok_def)
  obtain l where t: "t = arp_put i (emptied (arp_table s ! i)) (s\<lparr>lw := l\<rparr>)" using assms(2) unfolding free_entry_frees [OF i] by auto
  then show "arp_table t = (arp_table s)[i := emptied (arp_table s ! i)]" by (simp add: arp_put_def)
  have "arp_ok (s\<lparr>lw := l\<rparr>)" using assms(1) by (simp add: arp_ok_def)
  then show "arp_ok t" unfolding t using arp_ok_change [of "s\<lparr>lw := l\<rparr>" "emptied (arp_table s ! i)" i] emptied_ok arp_ok_entry [OF assms(1,3)] assms(3)
    by blast
qed

section \<open>Looking for an entry\<close>

text \<open>The position \<open>i\<close> and the age \<open>a\<close> of an oldest entry with \<open>P\<close> among the first \<open>k\<close>.\<close>

definition oldest :: "(etharp_entry \<Rightarrow> bool) \<Rightarrow> etharp_entry list \<Rightarrow> nat \<Rightarrow> nat \<Rightarrow> u8 \<Rightarrow> bool" where
  "oldest P t k i a \<longleftrightarrow>
     i = ARP_TABLE_SIZE \<and> a = 0 \<and> (\<forall>j<k. \<not> P (t ! j))
     \<or> i < k \<and> P (t ! i) \<and> a = arp_ctime (t ! i) \<and> (\<forall>j<k. P (t ! j) \<longrightarrow> arp_ctime (t ! j) \<le> a)"

lemma oldest_next:
  assumes "oldest P t k i a"
  shows "oldest P t (Suc k) (if P (t ! k) \<and> a \<le> arp_ctime (t ! k) then k else i) (if P (t ! k) \<and> a \<le> arp_ctime (t ! k) then arp_ctime (t ! k) else a)"
proof (cases "P (t ! k) \<and> a \<le> arp_ctime (t ! k)")
  case True
  have "arp_ctime (t ! j) \<le> arp_ctime (t ! k)" if "j < Suc k" "P (t ! j)" for j
    using assms True that by (cases "j = k") (auto simp: oldest_def less_Suc_eq intro: order_trans)
  then show ?thesis using True by (auto simp: oldest_def)
next
  case False
  then show ?thesis using assms by (cases "P (t ! k)") (auto simp: oldest_def less_Suc_eq)
qed

definition resolved :: "etharp_entry \<Rightarrow> bool" where "resolved x \<longleftrightarrow> arp_stable (arp_state x)"
definition waiting :: "etharp_entry \<Rightarrow> bool" where "waiting x \<longleftrightarrow> arp_state x = ETHARP_STATE_PENDING \<and> arp_q x \<noteq> []"
definition asked :: "etharp_entry \<Rightarrow> bool" where "asked x \<longleftrightarrow> arp_state x = ETHARP_STATE_PENDING \<and> arp_q x = []"

definition swept :: "etharp_entry list \<Rightarrow> nat \<Rightarrow> sweep \<Rightarrow> bool" where
  "swept t k w \<longleftrightarrow> (sw_empty w = ARP_TABLE_SIZE \<and> (\<forall>j<k. used (t ! j)) \<or> sw_empty w < k \<and> \<not> used (t ! sw_empty w))
     \<and> oldest resolved t k (old_stable w) (age_stable w) \<and> oldest asked t k (old_pending w) (age_pending w)
     \<and> oldest waiting t k (old_queue w) (age_queue w)"

lemma kinds: "used x \<longleftrightarrow> resolved x \<or> asked x \<or> waiting x" "resolved x \<Longrightarrow> \<not> asked x \<and> \<not> waiting x" "asked x \<Longrightarrow> \<not> waiting x"
  by (cases "arp_state x"; auto simp: used_def resolved_def asked_def waiting_def)+

lemma sweep_entry_kinds:
  "sweep_entry i x w =
     (if \<not> used x then (if sw_empty w = ARP_TABLE_SIZE then w\<lparr>sw_empty := i\<rparr> else w)
      else if resolved x then (if age_stable w \<le> arp_ctime x then w\<lparr>old_stable := i, age_stable := arp_ctime x\<rparr> else w)
      else if asked x then (if age_pending w \<le> arp_ctime x then w\<lparr>old_pending := i, age_pending := arp_ctime x\<rparr> else w)
      else (if age_queue w \<le> arp_ctime x then w\<lparr>old_queue := i, age_queue := arp_ctime x\<rparr> else w))"
  by (cases "arp_state x") (auto simp: sweep_entry_def used_def resolved_def asked_def)

lemma sweep_entry_fields:
  "sw_empty (sweep_entry i x w) = (if \<not> used x \<and> sw_empty w = ARP_TABLE_SIZE then i else sw_empty w)"
  "old_stable (sweep_entry i x w) = (if resolved x \<and> age_stable w \<le> arp_ctime x then i else old_stable w)"
  "age_stable (sweep_entry i x w) = (if resolved x \<and> age_stable w \<le> arp_ctime x then arp_ctime x else age_stable w)"
  "old_pending (sweep_entry i x w) = (if asked x \<and> age_pending w \<le> arp_ctime x then i else old_pending w)"
  "age_pending (sweep_entry i x w) = (if asked x \<and> age_pending w \<le> arp_ctime x then arp_ctime x else age_pending w)"
  "old_queue (sweep_entry i x w) = (if waiting x \<and> age_queue w \<le> arp_ctime x then i else old_queue w)"
  "age_queue (sweep_entry i x w) = (if waiting x \<and> age_queue w \<le> arp_ctime x then arp_ctime x else age_queue w)"
  using kinds [of x] unfolding sweep_entry_kinds by simp_all

lemma swept_next: "swept t k w \<Longrightarrow> k < ARP_TABLE_SIZE \<Longrightarrow> swept t (Suc k) (sweep_entry k (t ! k) w)"
  unfolding swept_def sweep_entry_fields
  by (intro conjI oldest_next) (auto simp: less_Suc_eq)

lemma sweep_loop_swept:
  assumes "swept t k w" "k + length xs \<le> ARP_TABLE_SIZE" "\<forall>j<length xs. xs ! j = t ! (k + j)" "sweep_loop ip k xs w = (r, w')"
  shows "case r of Some i \<Rightarrow> k \<le> i \<and> i < k + length xs \<and> used (t ! i) \<and> ip = Some (arp_ipaddr (t ! i))
    | None \<Rightarrow> swept t (k + length xs) w' \<and> (\<forall>j<length xs. used (xs ! j) \<longrightarrow> ip \<noteq> Some (arp_ipaddr (xs ! j)))"
  using assms
proof (induction xs arbitrary: k w)
  case (Cons x xs)
  have x: "x = t ! k" "\<forall>j<length xs. xs ! j = t ! (Suc k + j)" using Cons.prems(3) by auto
  show ?case
  proof (cases "used x \<and> ip = Some (arp_ipaddr x)")
    case True
    then show ?thesis using Cons.prems(4) x(1) by (auto simp: used_def)
  next
    case False
    then have l: "sweep_loop ip (Suc k) xs (sweep_entry k x w) = (r, w')" using Cons.prems(4) by (auto simp: used_def split: if_splits)
    have "swept t (Suc k) (sweep_entry k x w)" using swept_next Cons.prems(1,2) x(1) by simp
    from Cons.IH [OF this _ x(2) l] show ?thesis using Cons.prems(2) False by (auto simp: less_Suc_eq_0_disj split: option.splits)
  qed
qed simp

text \<open>The entry that a full table gives up: a resolved one if there is any, then one without packets, then one with; in each
  case an oldest.\<close>

definition oldest_of :: "(etharp_entry \<Rightarrow> bool) \<Rightarrow> etharp_entry list \<Rightarrow> nat \<Rightarrow> bool" where
  "oldest_of P t i \<longleftrightarrow> P (t ! i) \<and> (\<forall>x\<in>set t. P x \<longrightarrow> arp_ctime x \<le> arp_ctime (t ! i))"

definition given_up :: "etharp_entry list \<Rightarrow> nat \<Rightarrow> bool" where
  "given_up t i \<longleftrightarrow> i < length t \<and>
     (if \<not> list_all used t then \<not> used (t ! i)
      else if list_ex resolved t then oldest_of resolved t i
      else if list_ex asked t then oldest_of asked t i
      else oldest_of waiting t i)"

lemma oldest_none: "oldest P t (length t) i a \<Longrightarrow> length t = ARP_TABLE_SIZE \<Longrightarrow> i < ARP_TABLE_SIZE \<longleftrightarrow> list_ex P t"
  by (auto simp: oldest_def list_ex_length)

lemma oldest_some: "oldest P t (length t) i a \<Longrightarrow> length t = ARP_TABLE_SIZE \<Longrightarrow> i < ARP_TABLE_SIZE \<Longrightarrow> oldest_of P t i"
  by (auto simp: oldest_def oldest_of_def in_set_conv_nth)

lemma arp_put_put [simp]: "arp_put i y (arp_put i x s) = arp_put i y s"
  by (simp add: arp_put_def)

lemma arp_get_put: "i < length (arp_table s) \<Longrightarrow> arp_get i (arp_put i x s) = Some x"
  by (simp add: arp_get_def arp_put_def)

lemma frees_fresh:
  assumes "i < length (arp_table s)"
  shows "do { s \<leftarrow> free_entry i s; fresh_entry (Some a) i s }
    = map_option (\<lambda>l. (int i, arp_put i ((emptied (arp_table s ! i))\<lparr>arp_ipaddr := a, arp_ctime := 0\<rparr>) (s\<lparr>lw := l\<rparr>)))
        (frees (arp_q (arp_table s ! i)) (lw s))"
  unfolding free_entry_frees [OF assms] using assms
  by (cases "frees (arp_q (arp_table s ! i)) (lw s)") (simp_all add: fresh_entry_def arp_get_put)

definition listed :: "u32 \<Rightarrow> stack \<Rightarrow> bool" where
  "listed a s \<longleftrightarrow> list_ex (\<lambda>x. used x \<and> arp_ipaddr x = a) (arp_table s)"

lemma sweep_start_swept: "swept t 0 sweep_start"
  by (simp add: swept_def sweep_start_def oldest_def)

lemma sweep_table:
  assumes "length (arp_table s) = ARP_TABLE_SIZE" "sweep_loop (Some a) 0 (arp_table s) sweep_start = (r, w)"
  shows "case r of Some i \<Rightarrow> i < ARP_TABLE_SIZE \<and> used (arp_table s ! i) \<and> arp_ipaddr (arp_table s ! i) = a
    | None \<Rightarrow> swept (arp_table s) (length (arp_table s)) w \<and> \<not> listed a s"
  using sweep_loop_swept [of "arp_table s", OF sweep_start_swept _ _ assms(2)] assms(1)
  by (auto simp: listed_def list_ex_iff in_set_conv_nth split: option.splits)

lemma find_entry_listed:
  assumes "arp_ok s" "i < ARP_TABLE_SIZE" "used (arp_table s ! i)"
  shows "find_entry (Some (arp_ipaddr (arp_table s ! i))) flags s = Some (int i, s)"
proof -
  obtain r w where rw: "sweep_loop (Some (arp_ipaddr (arp_table s ! i))) 0 (arp_table s) sweep_start = (r, w)" by fastforce
  have "listed (arp_ipaddr (arp_table s ! i)) s"
    unfolding listed_def list_ex_iff using assms by (intro bexI [of _ "arp_table s ! i"]) (auto simp: arp_ok_def)
  then show ?thesis using sweep_table [OF _ rw] assms rw by (auto simp: find_entry_def arp_ok_def unique_def split: option.splits)
qed

lemma find_entry_only: "arp_ok s \<Longrightarrow> \<not> listed a s \<Longrightarrow> find_entry (Some a) ETHARP_FLAG_FIND_ONLY s = Some (ERR_MEM, s)"
proof -
  assume a: "arp_ok s" "\<not> listed a s"
  obtain r w where rw: "sweep_loop (Some a) 0 (arp_table s) sweep_start = (r, w)" by fastforce
  then have "r = None" using sweep_table [OF _ rw] a by (auto simp: arp_ok_def listed_def list_ex_iff split: option.splits)
  then show ?thesis using rw by (simp add: find_entry_def ETHARP_FLAG_FIND_ONLY_def)
qed

lemma find_entry_hard:
  assumes "arp_ok s" "\<not> listed a s"
  shows "\<exists>i. given_up (arp_table s) i \<and> find_entry (Some a) ETHARP_FLAG_TRY_HARD s
    = map_option (\<lambda>l. (int i, arp_put i ((emptied (arp_table s ! i))\<lparr>arp_ipaddr := a, arp_ctime := 0\<rparr>) (s\<lparr>lw := l\<rparr>)))
        (frees (arp_q (arp_table s ! i)) (lw s))"
proof -
  obtain r w where rw: "sweep_loop (Some a) 0 (arp_table s) sweep_start = (r, w)" by fastforce
  have n: "length (arp_table s) = ARP_TABLE_SIZE" using assms(1) by (simp add: arp_ok_def)
  have r: "r = None" "swept (arp_table s) (length (arp_table s)) w"
    using sweep_table [OF n rw] assms(2) n by (auto simp: listed_def list_ex_iff split: option.splits)
  let ?t = "arp_table s"
  have f: "find_entry (Some a) ETHARP_FLAG_TRY_HARD s =
      (if sw_empty w < ARP_TABLE_SIZE then fresh_entry (Some a) (sw_empty w) s
       else if old_stable w < ARP_TABLE_SIZE then do { s \<leftarrow> free_entry (old_stable w) s; fresh_entry (Some a) (old_stable w) s }
       else if old_pending w < ARP_TABLE_SIZE then do { s \<leftarrow> free_entry (old_pending w) s; fresh_entry (Some a) (old_pending w) s }
       else if old_queue w < ARP_TABLE_SIZE then do { s \<leftarrow> free_entry (old_queue w) s; fresh_entry (Some a) (old_queue w) s }
       else Some (ERR_MEM, s))"
    using rw r(1) by (simp add: find_entry_def ETHARP_FLAG_FIND_ONLY_def ETHARP_FLAG_TRY_HARD_def)
  note o = r(2) [unfolded swept_def]
  have ex: "list_all used ?t \<longleftrightarrow> \<not> sw_empty w < ARP_TABLE_SIZE" using o n by (auto simp: list_all_length)
  have res: "old_stable w < ARP_TABLE_SIZE \<longleftrightarrow> list_ex resolved ?t" "old_pending w < ARP_TABLE_SIZE \<longleftrightarrow> list_ex asked ?t"
      "old_queue w < ARP_TABLE_SIZE \<longleftrightarrow> list_ex waiting ?t"
    using o oldest_none [OF _ n] by blast+
  have some: "list_all used ?t \<Longrightarrow> list_ex resolved ?t \<or> list_ex asked ?t \<or> list_ex waiting ?t"
    using n kinds(1) by (cases ?t) (auto simp: ARP_TABLE_SIZE_def)
  show ?thesis
  proof (cases "sw_empty w < ARP_TABLE_SIZE")
    case True
    then have i: "sw_empty w < length ?t" "\<not> used (?t ! sw_empty w)" using o n by auto
    then have q: "arp_q (?t ! sw_empty w) = []" "emptied (?t ! sw_empty w) = ?t ! sw_empty w"
      using arp_ok_entry [OF assms(1) True] by (auto simp: entry_ok_def used_def emptied_def)
    have "given_up ?t (sw_empty w)" using i ex True by (simp add: given_up_def)
    then show ?thesis using f True i q by (intro exI [of _ "sw_empty w"]) (simp add: fresh_entry_def arp_get_def)
  next
    case False
    define i where "i = (if list_ex resolved ?t then old_stable w else if list_ex asked ?t then old_pending w else old_queue w)"
    have i: "i < length ?t" using False some ex res n by (auto simp: i_def)
    have "given_up ?t i" using False ex i o oldest_some [OF _ n] res some by (auto simp: given_up_def i_def)
    moreover have "find_entry (Some a) ETHARP_FLAG_TRY_HARD s = do { s \<leftarrow> free_entry i s; fresh_entry (Some a) i s }"
      using f False res some ex by (auto simp: i_def)
    ultimately show ?thesis using frees_fresh [OF i] by metis
  qed
qed

section \<open>Every operation keeps the invariant\<close>

text \<open>The code below and beside ARP leaves the table alone.\<close>

definition quiet :: "arp_env \<Rightarrow> bool" where
  "quiet e \<longleftrightarrow> (\<forall>n p s r t. a_link e n p s = Some (r, t) \<longrightarrow> arp_part t = arp_part s)
     \<and> (\<forall>s. arp_part (snd (a_memp e s)) = arp_part s) \<and> (\<forall>n a s t. a_dhcp e n a s = Some t \<longrightarrow> arp_part t = arp_part s)"

lemma drop_pbuf_part: "drop_pbuf p s = Some t \<Longrightarrow> arp_part t = arp_part s"
  by (auto simp: drop_pbuf_def)

lemma link_part: "a_link e n p s = Some (r, t) \<Longrightarrow> quiet e \<Longrightarrow> arp_part t = arp_part s"
  by (simp add: quiet_def)

lemma etharp_send_ip_part: "quiet e \<Longrightarrow> etharp_send_ip e netif p src dst s = Some (r, t) \<Longrightarrow> arp_part t = arp_part s"
  by (auto simp: etharp_send_ip_def Let_def Option.bind_eq_Some_conv dest!: link_part)

lemma etharp_raw_part:
  "quiet e \<Longrightarrow> etharp_raw e netif es ed hs ips hw ipd opcode s = Some (r, t) \<Longrightarrow> arp_part t = arp_part s"
  by (auto simp: etharp_raw_def Let_def Option.bind_eq_Some_conv dest!: link_part drop_pbuf_part split: if_splits)

lemma etharp_request_part: "quiet e \<Longrightarrow> etharp_request e netif a s = Some (r, t) \<Longrightarrow> arp_part t = arp_part s"
  by (auto simp: etharp_request_def Option.bind_eq_Some_conv dest: etharp_raw_part)

lemma find_entry_ok:
  assumes "arp_ok s" "flags = ETHARP_FLAG_TRY_HARD \<or> flags = ETHARP_FLAG_FIND_ONLY" "find_entry (Some a) flags s = Some (i, t)"
  shows "arp_ok t \<and> (i < 0 \<or> 0 \<le> i \<and> nat i < ARP_TABLE_SIZE \<and> arp_ipaddr (arp_table t ! nat i) = a
    \<and> (used (arp_table t ! nat i) \<or> arp_ctime (arp_table t ! nat i) = 0)
    \<and> (\<forall>j<ARP_TABLE_SIZE. j \<noteq> nat i \<longrightarrow> used (arp_table t ! j) \<longrightarrow> arp_ipaddr (arp_table t ! j) \<noteq> a))"
proof (cases "listed a s")
  case True
  then obtain j where j: "j < ARP_TABLE_SIZE" "used (arp_table s ! j)" "a = arp_ipaddr (arp_table s ! j)"
    using assms(1) by (auto simp: listed_def list_ex_length arp_ok_def)
  then have "i = int j" "t = s" using find_entry_listed [OF assms(1) j(1,2)] assms(3) by auto
  then show ?thesis using assms(1) j by (auto simp: arp_ok_def unique_def)
next
  case False
  show ?thesis
  proof (cases "flags = ETHARP_FLAG_FIND_ONLY")
    case True
    then show ?thesis using find_entry_only [OF assms(1) False] assms(1,3) by (auto simp: ERR_MEM_def)
  next
    case hard: False
    have fl: "flags = ETHARP_FLAG_TRY_HARD" using hard assms(2) by simp
    obtain k where g: "given_up (arp_table s) k" "map_option (\<lambda>l. (int k, arp_put k ((emptied (arp_table s ! k))\<lparr>arp_ipaddr := a, arp_ctime := 0\<rparr>) (s\<lparr>lw := l\<rparr>)))
        (frees (arp_q (arp_table s ! k)) (lw s)) = Some (i, t)"
      using find_entry_hard [OF assms(1) False] assms(3) unfolding fl by metis
    then obtain l where k: "given_up (arp_table s) k" "i = int k" "t = arp_put k ((emptied (arp_table s ! k))\<lparr>arp_ipaddr := a, arp_ctime := 0\<rparr>) (s\<lparr>lw := l\<rparr>)"
      by auto
    have n: "length (arp_table s) = ARP_TABLE_SIZE" using assms(1) by (simp add: arp_ok_def)
    have kl: "k < ARP_TABLE_SIZE" using k(1) n by (simp add: given_up_def)
    have e: "entry_ok ((emptied (arp_table s ! k))\<lparr>arp_ipaddr := a, arp_ctime := 0\<rparr>)" "\<not> used ((emptied (arp_table s ! k))\<lparr>arp_ipaddr := a, arp_ctime := 0\<rparr>)"
      using arp_ok_entry [OF assms(1) kl] by (simp_all add: entry_ok_def emptied_def used_def)
    have "arp_ok (s\<lparr>lw := l\<rparr>)" using assms(1) arp_ok_part [of "s\<lparr>lw := l\<rparr>" s] by simp
    then have "arp_ok t" unfolding k(3) using arp_ok_change [OF _ e(1) kl] e(2) by blast
    then show ?thesis using False k(2,3) kl n by (auto simp: arp_put_def listed_def list_ex_length nth_list_update)
  qed
qed

lemma send_queue_part:
  assumes "quiet e" "send_queue e netif i ethaddr s = Some t" "i < length (arp_table s)"
  shows "arp_part t = ((arp_table s)[i := (arp_table s ! i)\<lparr>arp_q := []\<rparr>], etharp_cached_entry s)"
  using assms(2,3)
proof (induction "arp_q (arp_table s ! i)" arbitrary: s)
  case Nil
  then have "t = s" by (subst (asm) send_queue.simps) (simp add: arp_get_def)
  moreover have "(arp_table s ! i)\<lparr>arp_q := []\<rparr> = arp_table s ! i" using Nil(1) by simp
  ultimately show ?case by (simp add: arp_part_def)
next
  case (Cons p q)
  let ?u = "arp_put i ((arp_table s ! i)\<lparr>arp_q := q\<rparr>) s"
  have q: "arp_q (arp_table s ! i) = p # q" using Cons(2) by simp
  obtain n :: netif and r v w where v: "etharp_send_ip e netif p (netif_hwaddr n) ethaddr ?u = Some (r, v)" "drop_pbuf p v = Some w"
      "send_queue e netif i ethaddr w = Some t"
    using Cons.prems q by (subst (asm) send_queue.simps) (auto simp: arp_get_def Let_def split: bind_splits)
  have "arp_part w = arp_part ?u" using etharp_send_ip_part [OF assms(1) v(1)] drop_pbuf_part [OF v(2)] by simp
  then have w: "arp_table w = (arp_table s)[i := (arp_table s ! i)\<lparr>arp_q := q\<rparr>]" "etharp_cached_entry w = etharp_cached_entry s"
    by (simp_all add: arp_part_def arp_put_def)
  then show ?case using Cons.hyps(1) [OF _ v(3)] Cons.prems(2) by simp
qed

lemma update_arp_entry_ok:
  assumes "quiet e" "arp_ok s" "flags = ETHARP_FLAG_TRY_HARD \<or> flags = ETHARP_FLAG_FIND_ONLY"
    and "update_arp_entry e netif a ethaddr flags s = Some (r, t)"
  shows "arp_ok t"
proof -
  obtain n where n: "nifs s netif = Some n" using assms(4) by (auto simp: update_arp_entry_def split: bind_splits)
  show ?thesis
  proof (cases "not_unicast a n")
    case True
    then show ?thesis using assms(2,4) n by (auto simp: update_arp_entry_def)
  next
    case False
    then obtain i u where u: "find_entry (Some a) flags s = Some (i, u)" using assms(4) n by (auto simp: update_arp_entry_def split: bind_splits)
    note f = find_entry_ok [OF assms(2,3) u]
    show ?thesis
    proof (cases "i < 0")
      case True
      then show ?thesis using f assms(4) n False u by (auto simp: update_arp_entry_def)
    next
      case pos: False
      then have i: "nat i < ARP_TABLE_SIZE" "length (arp_table u) = ARP_TABLE_SIZE" using f by (auto simp: arp_ok_def)
      define x where "x = (arp_table u ! nat i)\<lparr>arp_state := ETHARP_STATE_STABLE, arp_ethaddr := ethaddr, arp_ctime := 0\<rparr>"
      have q: "send_queue e netif (nat i) ethaddr (arp_put (nat i) x u) = Some t"
        using assms(4) n False u pos i by (auto simp: update_arp_entry_def arp_get_def x_def split: bind_splits)
      have "arp_part t = arp_part (arp_put (nat i) (x\<lparr>arp_q := []\<rparr>) u)"
        using send_queue_part [OF assms(1) q] i by (simp add: arp_put_def arp_part_def)
      moreover have "arp_ok (arp_put (nat i) (x\<lparr>arp_q := []\<rparr>) u)"
      proof (rule arp_ok_put)
        show "entry_ok (x\<lparr>arp_q := []\<rparr>)" using f pos arp_ok_entry [OF _ i(1), of u] by (simp add: entry_ok_def x_def ARP_MAXAGE_def)
      qed (use f pos i in \<open>auto simp: x_def\<close>)
      ultimately show ?thesis using arp_ok_part by blast
    qed
  qed
qed

lemma arp_part_eq: "arp_part t = arp_part s \<longleftrightarrow> arp_table t = arp_table s \<and> etharp_cached_entry t = etharp_cached_entry s"
  by (simp add: arp_part_def)

lemma arp_send_copy_part: "quiet e \<Longrightarrow> arp_send_copy e netif p s = Some t \<Longrightarrow> arp_part t = arp_part s"
  by (auto simp: arp_send_copy_def Option.bind_eq_Some_conv dest!: link_part drop_pbuf_part split: if_splits)

lemma etharp_ip_input_ok: "quiet e \<Longrightarrow> arp_ok s \<Longrightarrow> etharp_ip_input e netif p s = Some t \<Longrightarrow> arp_ok t"
  by (auto simp: etharp_ip_input_def Option.bind_eq_Some_conv split: if_splits dest: update_arp_entry_ok [rotated 3])

lemma arp_act_part: "quiet e \<Longrightarrow> arp_act e netif ethaddr p h for_us a s = Some t \<Longrightarrow> arp_part t = arp_part s"
  by (auto simp: arp_act_def quiet_def Option.bind_eq_Some_conv split: if_splits dest!: arp_send_copy_part [rotated])

lemma etharp_arp_input_ok:
  assumes "quiet e" "arp_ok s" "etharp_arp_input e netif ethaddr p s = Some t"
  shows "arp_ok t"
proof -
  have u: "arp_ok v" if "update_arp_entry e netif a h fl s = Some (r, u)" "arp_act e netif ethaddr p k f c u = Some w" "drop_pbuf p w = Some v"
      "fl = ETHARP_FLAG_TRY_HARD \<or> fl = ETHARP_FLAG_FIND_ONLY" for a h fl r u k f c w v
  proof -
    have "arp_ok u" using update_arp_entry_ok [OF assms(1,2) that(4,1)] .
    then show ?thesis using arp_act_part [OF assms(1) that(2)] drop_pbuf_part [OF that(3)] arp_ok_part by metis
  qed
  have d: "arp_ok v" if "drop_pbuf p s = Some v" for v using drop_pbuf_part [OF that] assms(2) arp_ok_part by metis
  show ?thesis using assms(2,3) unfolding etharp_arp_input_def Let_def
    by (auto simp: Option.bind_eq_Some_conv split: if_split_asm elim: d u)
qed

lemma etharp_output_to_arp_index_ok:
  assumes "quiet e" "arp_ok s" "etharp_output_to_arp_index e netif q i s = Some (r, t)"
  shows "arp_ok t"
proof -
  obtain x where x: "i < length (arp_table s)" "x = arp_table s ! i" using assms(3)
    by (auto simp: etharp_output_to_arp_index_def Option.bind_eq_Some_conv arp_get_Some)
  show ?thesis
  proof (cases "arp_state x = ETHARP_STATE_STABLE \<and> ARP_AGE_REREQUEST_USED \<le> arp_ctime x")
    case False
    then have "\<exists>n h. etharp_send_ip e netif q n h s = Some (r, t)"
      using assms(3) x by (auto simp: etharp_output_to_arp_index_def Option.bind_eq_Some_conv arp_get_Some; blast)
    then show ?thesis using etharp_send_ip_part [OF assms(1)] arp_ok_part assms(2) by metis
  next
    case True
    then obtain r' u where u: "etharp_request e netif (arp_ipaddr x) s = Some (r', u)"
      using assms(3) x by (auto simp: etharp_output_to_arp_index_def Option.bind_eq_Some_conv arp_get_Some)
    have p: "arp_table u = arp_table s" "arp_ok u"
      using etharp_request_part [OF assms(1) u] assms(2) arp_ok_part [of u s] by (simp_all add: arp_part_eq)
    let ?v = "if r' = ERR_OK then arp_put i (x\<lparr>arp_state := ETHARP_STATE_STABLE_REREQUESTING\<rparr>) u else u"
    have i: "i < ARP_TABLE_SIZE" using assms(2) x(1) by (simp add: arp_ok_def)
    have "entry_ok (x\<lparr>arp_state := ETHARP_STATE_STABLE_REREQUESTING\<rparr>)"
      using arp_ok_entry [OF assms(2) i] x(2) True by (simp add: entry_ok_def)
    then have "arp_ok ?v" using p arp_ok_change [OF p(2) _ i] x(2) True by (auto simp: used_def)
    moreover have "\<exists>n h. etharp_send_ip e netif q n h ?v = Some (r, t)"
      using assms(3) x u True p(1) by (auto simp: etharp_output_to_arp_index_def Option.bind_eq_Some_conv arp_get_Some; blast)
    ultimately show ?thesis using etharp_send_ip_part [OF assms(1)] arp_ok_part by metis
  qed
qed

lemma arp_ok_cached: "arp_ok s \<Longrightarrow> i < ARP_TABLE_SIZE \<Longrightarrow> arp_ok (s\<lparr>etharp_cached_entry := of_nat i\<rparr>)"
proof -
  assume a: "arp_ok s" "i < ARP_TABLE_SIZE"
  then have "unat (of_nat i :: u8) = i" by (simp add: unat_of_nat ARP_TABLE_SIZE_def)
  then show ?thesis using a by (simp add: arp_ok_def)
qed

lemma queue_packet_ok:
  assumes "quiet e" "arp_ok s" "i < ARP_TABLE_SIZE" "arp_state (arp_table s ! i) = ETHARP_STATE_PENDING" "queue_packet e i p s = Some (r, t)"
  shows "arp_ok t"
proof -
  obtain b u where u: "a_memp e s = (b, u)" by fastforce
  have pu: "arp_part u = arp_part s" using assms(1) u unfolding quiet_def by (metis snd_conv)
  then have ou: "arp_ok u" using assms(2) arp_ok_part by metis
  have tu: "arp_table u = arp_table s" "length (arp_table u) = ARP_TABLE_SIZE" using pu ou by (simp_all add: arp_part_eq arp_ok_def)
  define x where "x = arp_table u ! i"
  have x: "arp_get i u = Some x" "entry_ok x" "arp_state x = ETHARP_STATE_PENDING"
    using tu assms(3,4) arp_ok_entry [OF ou assms(3)] by (simp_all add: x_def arp_get_def)
  have put: "arp_ok (arp_put i (x\<lparr>arp_q := q\<rparr>) u)" if "length q \<le> 3" for q
    using that x arp_ok_change [OF ou _ assms(3)] by (auto simp: entry_ok_def used_def x_def)
  have d: "arp_ok v \<Longrightarrow> drop_pbuf q v = Some t \<Longrightarrow> arp_ok t" for v q using drop_pbuf_part arp_ok_part by metis
  have len: "length (arp_q x) \<le> 3" using x by (simp add: entry_ok_def)
  show ?thesis
  proof (cases b)
    case False
    then show ?thesis using assms(5) u ou d by (auto simp: queue_packet_def Option.bind_eq_Some_conv)
  next
    case True
    show ?thesis
    proof (cases "3 \<le> length (arp_q x)")
      case len3: True
      then have "drop_pbuf (hd (arp_q x @ [p])) (arp_put i (x\<lparr>arp_q := tl (arp_q x @ [p])\<rparr>) u) = Some t"
        using assms(5) u True x(1) by (auto simp: queue_packet_def Option.bind_eq_Some_conv Let_def)
      then show ?thesis using d put [of "tl (arp_q x @ [p])"] len by simp
    next
      case False
      then have "t = arp_put i (x\<lparr>arp_q := arp_q x @ [p]\<rparr>) u" using assms(5) u True x(1) by (auto simp: queue_packet_def Let_def)
      then show ?thesis using put [of "arp_q x @ [p]"] False by simp
    qed
  qed
qed

lemma query_packet_ok:
  assumes "quiet e" "arp_ok s" "i < ARP_TABLE_SIZE" "query_packet e netif i q res s = Some (r, t)"
  shows "arp_ok t"
proof -
  define x where "x = arp_table s ! i"
  have x: "arp_get i s = Some x" using assms(2,3) by (simp add: arp_get_def x_def arp_ok_def)
  show ?thesis
  proof (cases "arp_stable (arp_state x)")
    case True
    then obtain n h where "etharp_send_ip e netif q n h (s\<lparr>etharp_cached_entry := of_nat i\<rparr>) = Some (r, t)"
      using assms(4) x by (auto simp: query_packet_def Option.bind_eq_Some_conv; blast)
    then show ?thesis using etharp_send_ip_part [OF assms(1)] arp_ok_cached [OF assms(2,3)] arp_ok_part by metis
  next
    case False
    have l: "arp_ok (s\<lparr>lw := l\<rparr>)" for l using assms(2) arp_ok_part [of "s\<lparr>lw := l\<rparr>" s] by simp
    show ?thesis
    proof (cases "arp_state x = ETHARP_STATE_PENDING")
      case True
      then obtain p l where "p \<noteq> NULL \<and> queue_packet e i p (s\<lparr>lw := l\<rparr>) = Some (r, t) \<or> t = s\<lparr>lw := l\<rparr>"
        using assms(4) x False by (auto simp: query_packet_def Option.bind_eq_Some_conv Let_def split: if_splits)
      then show ?thesis using l queue_packet_ok [OF assms(1) l assms(3)] True x_def by auto
    qed (use assms(2,4) x False in \<open>auto simp: query_packet_def\<close>)
  qed
qed

lemma etharp_query_ok:
  assumes "quiet e" "arp_ok s" "etharp_query e netif a q s = Some (r, t)"
  shows "arp_ok t"
proof -
  obtain n where n: "nifs s netif = Some n" using assms(3) by (auto simp: etharp_query_def Option.bind_eq_Some_conv)
  show ?thesis
  proof (cases "not_unicast a n")
    case True
    then show ?thesis using assms(2,3) n by (auto simp: etharp_query_def)
  next
    case False
    then obtain i u where u: "find_entry (Some a) ETHARP_FLAG_TRY_HARD s = Some (i, u)"
      using assms(3) n by (auto simp: etharp_query_def Option.bind_eq_Some_conv)
    note f = find_entry_ok [OF assms(2) _ u]
    show ?thesis
    proof (cases "i < 0")
      case True
      then show ?thesis using f assms(3) n False u by (auto simp: etharp_query_def)
    next
      case pos: False
      define x where "x = arp_table u ! nat i"
      have i: "nat i < ARP_TABLE_SIZE" "arp_get (nat i) u = Some x" using f pos by (auto simp: arp_ok_def arp_get_def x_def)
      define v where "v = (if arp_state x = ETHARP_STATE_EMPTY then arp_put (nat i) (x\<lparr>arp_state := ETHARP_STATE_PENDING\<rparr>) u else u)"
      have "arp_ok (arp_put (nat i) (x\<lparr>arp_state := ETHARP_STATE_PENDING\<rparr>) u)" if "arp_state x = ETHARP_STATE_EMPTY"
        using f pos i that arp_ok_entry [of u "nat i"]
        by (intro arp_ok_put) (auto simp: entry_ok_def x_def used_def ARP_MAXPENDING_def)
      then have ok: "arp_ok v" using f by (auto simp: v_def)
      obtain y :: etharp_entry and rs w where w: "(if arp_state y = ETHARP_STATE_PENDING \<or> q = NULL then etharp_request e netif a v else Some (ERR_MEM, v)) = Some (rs, w)"
          "(if q = NULL then Some (rs, w) else query_packet e netif (nat i) q rs w) = Some (r, t)"
        using assms(3) n False u pos i by (auto simp: etharp_query_def Option.bind_eq_Some_conv Let_def v_def [symmetric] simp del: if_split cong: if_cong)
      have "arp_part w = arp_part v" using w(1) etharp_request_part [OF assms(1)] by (auto split: if_splits)
      then have "arp_ok w" using ok arp_ok_part by metis
      then show ?thesis using w(2) query_packet_ok [OF assms(1) _ i(1)] by (auto split: if_splits)
    qed
  qed
qed

lemma stable_loop_bound: "stable_loop a k xs = Some i \<Longrightarrow> i < k + length xs"
  by (induction a k xs rule: stable_loop.induct) (auto split: if_splits)

lemma output_unicast_ok:
  assumes "quiet e" "arp_ok s" "output_unicast e netif q a s = Some (r, t)"
  shows "arp_ok t"
proof -
  obtain x where x: "arp_get (unat (etharp_cached_entry s)) s = Some x" using assms(3) by (auto simp: output_unicast_def Option.bind_eq_Some_conv)
  show ?thesis
  proof (cases "arp_stable (arp_state x) \<and> a = arp_ipaddr x")
    case True
    then show ?thesis using assms(3) x etharp_output_to_arp_index_ok [OF assms(1,2)] by (simp add: output_unicast_def)
  next
    case False
    show ?thesis
    proof (cases "stable_loop a 0 (arp_table s)")
      case None
      then show ?thesis using assms(3) x False etharp_query_ok [OF assms(1,2)] by (auto simp: output_unicast_def)
    next
      case (Some i)
      have "i < ARP_TABLE_SIZE" using stable_loop_bound [OF Some] assms(2) by (simp add: arp_ok_def)
      then show ?thesis using assms(3) x False Some etharp_output_to_arp_index_ok [OF assms(1) arp_ok_cached [OF assms(2)]]
        by (auto simp: output_unicast_def)
    qed
  qed
qed

lemma etharp_output_ok:
  assumes "quiet e" "arp_ok s" "etharp_output e netif q a s = Some (r, t)"
  shows "arp_ok t"
proof -
  have u: "arp_ok (s\<lparr>lw := l\<rparr>)" for l using assms(2) arp_ok_part [of "s\<lparr>lw := l\<rparr>" s] by simp
  have send: "arp_ok t" if "etharp_send_ip e netif q n k (s\<lparr>lw := l\<rparr>) = Some (r, t)" for n k l
    using etharp_send_ip_part [OF assms(1) that] u arp_ok_part by metis
  show ?thesis using assms(3) u output_unicast_ok [OF assms(1) u] send unfolding etharp_output_def Let_def
    by (auto simp: Option.bind_eq_Some_conv split: if_split_asm option.split_asm)
qed

section \<open>Time\<close>

definition expired :: "etharp_entry \<Rightarrow> bool" where
  "expired x \<longleftrightarrow> ARP_MAXAGE \<le> arp_ctime x \<or> arp_state x = ETHARP_STATE_PENDING \<and> ARP_MAXPENDING \<le> arp_ctime x"

definition aged :: "etharp_entry \<Rightarrow> etharp_entry" where
  "aged x = x\<lparr>arp_ctime := arp_ctime x + 1\<rparr>"

definition tick :: "etharp_entry \<Rightarrow> etharp_entry" where
  "tick x = (if \<not> used x then x else if expired (aged x) then emptied (aged x)
     else if arp_state x = ETHARP_STATE_STABLE_REREQUESTING then (aged x)\<lparr>arp_state := ETHARP_STATE_STABLE\<rparr> else aged x)"

definition lost :: "etharp_entry \<Rightarrow> ptr list" where
  "lost x = (if used x \<and> expired (aged x) then arp_q x else [])"

lemma frees_append: "frees (xs @ ys) l = Option.bind (frees xs l) (frees ys)"
  by (induction xs arbitrary: l) (auto split: bind_splits)

lemma etharp_tmr_entry_tick:
  assumes "i < length (arp_table s)"
  shows "etharp_tmr_entry i s = map_option (\<lambda>l. arp_put i (tick (arp_table s ! i)) (s\<lparr>lw := l\<rparr>)) (frees (lost (arp_table s ! i)) (lw s))"
proof (cases "used (arp_table s ! i) \<and> expired (aged (arp_table s ! i))")
  case True
  let ?s = "arp_put i (aged (arp_table s ! i)) s"
  have i: "i < length (arp_table ?s)" using assms by (simp add: arp_put_def)
  have "etharp_tmr_entry i s = free_entry i ?s"
    using True assms by (auto simp: etharp_tmr_entry_def arp_get_def Let_def used_def expired_def aged_def)
  then show ?thesis using True assms unfolding free_entry_frees [OF i]
    by (simp add: tick_def lost_def arp_put_def aged_def)
next
  case False
  then have f: "frees (lost (arp_table s ! i)) (lw s) = Some (lw s)" by (auto simp: lost_def)
  show ?thesis
  proof (cases "used (arp_table s ! i)")
    case True
    then have "\<not> expired (aged (arp_table s ! i))" using False by simp
    then show ?thesis using assms True unfolding f
      by (simp add: etharp_tmr_entry_def arp_get_def Let_def used_def tick_def aged_def expired_def) blast
  next
    case False
    then show ?thesis using assms unfolding f by (simp add: etharp_tmr_entry_def arp_get_def used_def tick_def arp_put_def)
  qed
qed

lemma etharp_tmr_loop:
  assumes "length (arp_table s) = k + n"
  shows "for_entries etharp_tmr_entry [k..<k + n] s = map_option (\<lambda>l. s\<lparr>lw := l, arp_table := take k (arp_table s) @ map tick (drop k (arp_table s))\<rparr>)
    (frees (concat (map lost (drop k (arp_table s)))) (lw s))"
  using assms
proof (induction n arbitrary: k s)
  case (Suc n)
  let ?t = "arp_table s"
  have k: "k < length ?t" using Suc.prems by simp
  then have d: "drop k ?t = ?t ! k # drop (Suc k) ?t" by (simp add: Cons_nth_drop_Suc)
  have up: "[k..<k + Suc n] = k # [Suc k..<Suc k + n]" by (simp add: upt_rec)
  have tk: "take (Suc k) (?t[k := y]) @ zs = take k ?t @ y # zs" for y zs using k by (simp add: take_Suc_conv_app_nth)
  show ?case
  proof (cases "frees (lost (?t ! k)) (lw s)")
    case None
    then show ?thesis unfolding up d by (simp add: etharp_tmr_entry_tick [OF k] frees_append)
  next
    case (Some l)
    let ?u = "arp_put k (tick (?t ! k)) (s\<lparr>lw := l\<rparr>)"
    have "length (arp_table ?u) = Suc k + n" using Suc.prems by (simp add: arp_put_def)
    from Suc.IH [OF this] show ?thesis unfolding up d using Some tk
      by (simp add: etharp_tmr_entry_tick [OF k] frees_append) (simp add: arp_put_def)
  qed
qed simp

lemma etharp_tmr_ticks:
  "arp_ok s \<Longrightarrow> etharp_tmr s = map_option (\<lambda>l. s\<lparr>lw := l, arp_table := map tick (arp_table s)\<rparr>) (frees (concat (map lost (arp_table s))) (lw s))"
  using etharp_tmr_loop [of s 0 ARP_TABLE_SIZE] by (simp add: etharp_tmr_def arp_ok_def)

lemma u8_inc: "unat x < 255 \<Longrightarrow> unat (x + 1) = unat x + 1" for x :: u8
  by (simp add: unat_plus_if')

definition lifetime :: "etharp_entry \<Rightarrow> nat" where
  "lifetime x = (if arp_state x = ETHARP_STATE_PENDING then 2 else 240)"

lemma tick_used:
  assumes "entry_ok x"
  shows "used (tick x) \<longleftrightarrow> used x \<and> unat (arp_ctime x) + 1 < lifetime x"
    "used (tick x) \<Longrightarrow> unat (arp_ctime (tick x)) = unat (arp_ctime x) + 1 \<and> lifetime (tick x) = lifetime x"
    "entry_ok (tick x)" "arp_ipaddr (tick x) = arp_ipaddr x"
proof -
  have c: "used x \<Longrightarrow> unat (arp_ctime x + 1) = unat (arp_ctime x) + 1" using assms
    by (intro u8_inc) (cases "arp_state x"; simp add: entry_ok_def used_def ARP_MAXAGE_def ARP_MAXPENDING_def word_less_nat_alt)
  show "used (tick x) \<longleftrightarrow> used x \<and> unat (arp_ctime x) + 1 < lifetime x"
      "used (tick x) \<Longrightarrow> unat (arp_ctime (tick x)) = unat (arp_ctime x) + 1 \<and> lifetime (tick x) = lifetime x"
    using c assms by (cases "arp_state x"; auto simp: tick_def expired_def aged_def emptied_def used_def lifetime_def ARP_MAXAGE_def ARP_MAXPENDING_def
        word_le_nat_alt word_less_nat_alt entry_ok_def)+
  show "entry_ok (tick x)" "arp_ipaddr (tick x) = arp_ipaddr x"
    using c assms by (cases "arp_state x"; auto simp: tick_def expired_def aged_def emptied_def used_def lifetime_def ARP_MAXAGE_def ARP_MAXPENDING_def
        word_le_nat_alt word_less_nat_alt entry_ok_def)+
qed

lemma arp_ok_tick: "arp_ok s \<Longrightarrow> arp_ok (s\<lparr>lw := l, arp_table := map tick (arp_table s)\<rparr>)"
  unfolding arp_ok_def unique_def using tick_used by simp

lemma etharp_tmr_ok: "arp_ok s \<Longrightarrow> etharp_tmr s = Some t \<Longrightarrow> arp_ok t"
  using etharp_tmr_ticks arp_ok_tick by auto

section \<open>All reachable tables\<close>

text \<open>The calls in any order; between them the rest of the program may change everything but the table.\<close>

inductive arp_reach :: "arp_env \<Rightarrow> stack \<Rightarrow> bool" for e where
  start: "arp_table s = replicate ARP_TABLE_SIZE no_entry \<Longrightarrow> etharp_cached_entry s = 0 \<Longrightarrow> arp_reach e s"
| other: "arp_reach e s \<Longrightarrow> arp_part t = arp_part s \<Longrightarrow> arp_reach e t"
| timer: "arp_reach e s \<Longrightarrow> etharp_tmr s = Some t \<Longrightarrow> arp_reach e t"
| cleanup: "arp_reach e s \<Longrightarrow> etharp_cleanup_netif netif s = Some t \<Longrightarrow> arp_reach e t"
| query: "arp_reach e s \<Longrightarrow> etharp_query e netif a q s = Some (r, t) \<Longrightarrow> arp_reach e t"
| send: "arp_reach e s \<Longrightarrow> etharp_output e netif q a s = Some (r, t) \<Longrightarrow> arp_reach e t"
| arp: "arp_reach e s \<Longrightarrow> etharp_arp_input e netif ethaddr p s = Some t \<Longrightarrow> arp_reach e t"
| ip: "arp_reach e s \<Longrightarrow> etharp_ip_input e netif p s = Some t \<Longrightarrow> arp_reach e t"

lemma for_entries_ok:
  assumes "\<And>i s t. arp_ok s \<Longrightarrow> i < ARP_TABLE_SIZE \<Longrightarrow> f i s = Some t \<Longrightarrow> arp_ok t"
  shows "arp_ok s \<Longrightarrow> \<forall>i\<in>set is. i < ARP_TABLE_SIZE \<Longrightarrow> for_entries f is s = Some t \<Longrightarrow> arp_ok t"
  using assms by (induction "is" arbitrary: s) (auto simp: Option.bind_eq_Some_conv)

lemma etharp_cleanup_netif_ok: "arp_ok s \<Longrightarrow> etharp_cleanup_netif netif s = Some t \<Longrightarrow> arp_ok t"
  unfolding etharp_cleanup_netif_def
  by (rule for_entries_ok [rotated 3]) (auto simp: Option.bind_eq_Some_conv split: if_splits dest: free_entry_ok(1))

lemma arp_reach_ok: "arp_reach e s \<Longrightarrow> quiet e \<Longrightarrow> arp_ok s"
proof (induction rule: arp_reach.induct)
  case (start s)
  then show ?case by (auto simp: arp_ok_def unique_def entry_ok_def used_def no_entry_def ARP_TABLE_SIZE_def)
next
  case (other s t)
  then show ?case using arp_ok_part by blast
qed (auto intro: etharp_tmr_ok etharp_cleanup_netif_ok etharp_query_ok etharp_output_ok etharp_arp_input_ok etharp_ip_input_ok)

section \<open>Properties\<close>

text \<open>C35. The ARP table is sound: after any sequence of calls of the timer, of output, of queries and of received frames it has ten
  entries, no two of which are for the same address; only an entry whose address is asked for has packets, at most
  three; and such an entry is younger than two ticks of the timer, a resolved one younger than 240.\<close>

theorem arp_table_sound:
  assumes "quiet e" "arp_reach e s"
  shows "length (arp_table s) = 10 \<and> unique (arp_table s)
    \<and> (\<forall>x\<in>set (arp_table s). length (arp_q x) \<le> 3 \<and> (arp_q x \<noteq> [] \<longrightarrow> arp_state x = ETHARP_STATE_PENDING)
        \<and> (used x \<longrightarrow> unat (arp_ctime x) < lifetime x))"
proof -
  have ok: "arp_ok s" using arp_reach_ok assms by blast
  have "length (arp_q x) \<le> 3 \<and> (arp_q x \<noteq> [] \<longrightarrow> arp_state x = ETHARP_STATE_PENDING) \<and> (used x \<longrightarrow> unat (arp_ctime x) < lifetime x)"
    if "entry_ok x" for x
    using that by (cases "arp_state x") (simp_all add: entry_ok_def used_def lifetime_def ARP_MAXAGE_def ARP_MAXPENDING_def word_less_nat_alt)
  then show ?thesis using ok by (auto simp: arp_ok_def ARP_TABLE_SIZE_def)
qed

text \<open>C36. Removing the entries of an interface removes none: whatever the table holds, the call for an interface that goes down
  changes nothing, because the field it compares is never written.\<close>

theorem etharp_cleanup_netif_idle:
  assumes "quiet e" "arp_reach e s" "netif \<noteq> NULL"
  shows "etharp_cleanup_netif netif s = Some s"
proof -
  have ok: "arp_ok s" using arp_reach_ok assms by blast
  have "for_entries (\<lambda>i s. do { x \<leftarrow> arp_get i s; if arp_state x \<noteq> ETHARP_STATE_EMPTY \<and> arp_netif x = netif then free_entry i s else Some s }) is s = Some s"
    if "\<forall>i\<in>set is. i < ARP_TABLE_SIZE" for "is"
    using that by (induction "is") (use ok assms(3) arp_ok_entry [OF ok] in \<open>auto simp: arp_get_def arp_ok_def entry_ok_def\<close>)
  then show ?thesis by (simp add: etharp_cleanup_netif_def)
qed

text \<open>C37. Entries expire: when no packets wait, the timer can be called any number of times; an entry is still there after
  \<open>n\<close> calls if and only if its age and \<open>n\<close> together are below 2 for an address that is asked for, and below 240 for a
  resolved one.\<close>

theorem etharp_tmr_expires:
  assumes "quiet e" "arp_reach e s" "list_all (\<lambda>x. arp_q x = []) (arp_table s)"
  shows "\<exists>t. ((\<lambda>r. Option.bind r etharp_tmr) ^^ n) (Some s) = Some t
    \<and> (\<forall>i<10. used (arp_table t ! i) \<longleftrightarrow> used (arp_table s ! i) \<and> unat (arp_ctime (arp_table s ! i)) + n < lifetime (arp_table s ! i))"
proof -
  have ok: "arp_ok s" using arp_reach_ok assms by blast
  have "\<exists>t. ((\<lambda>r. Option.bind r etharp_tmr) ^^ n) (Some s) = Some t \<and> arp_ok t \<and> list_all (\<lambda>x. arp_q x = []) (arp_table t)
    \<and> (\<forall>i<10. (used (arp_table t ! i) \<longleftrightarrow> used (arp_table s ! i) \<and> unat (arp_ctime (arp_table s ! i)) + n < lifetime (arp_table s ! i))
        \<and> (used (arp_table t ! i) \<longrightarrow> unat (arp_ctime (arp_table t ! i)) = unat (arp_ctime (arp_table s ! i)) + n
             \<and> lifetime (arp_table t ! i) = lifetime (arp_table s ! i)))"
  proof (induction n)
    case 0
    have "used x \<longrightarrow> unat (arp_ctime x) < lifetime x" if "entry_ok x" for x
      using that by (cases "arp_state x") (simp_all add: entry_ok_def used_def lifetime_def ARP_MAXAGE_def ARP_MAXPENDING_def word_less_nat_alt)
    then show ?case using ok assms(3) by (auto simp: arp_ok_def ARP_TABLE_SIZE_def)
  next
    case (Suc n)
    then obtain t where t: "((\<lambda>r. Option.bind r etharp_tmr) ^^ n) (Some s) = Some t" "arp_ok t" "list_all (\<lambda>x. arp_q x = []) (arp_table t)"
        "\<And>i. i < 10 \<Longrightarrow> (used (arp_table t ! i) \<longleftrightarrow> used (arp_table s ! i) \<and> unat (arp_ctime (arp_table s ! i)) + n < lifetime (arp_table s ! i))
          \<and> (used (arp_table t ! i) \<longrightarrow> unat (arp_ctime (arp_table t ! i)) = unat (arp_ctime (arp_table s ! i)) + n
             \<and> lifetime (arp_table t ! i) = lifetime (arp_table s ! i))" by blast
    let ?u = "t\<lparr>arp_table := map tick (arp_table t)\<rparr>"
    have c: "concat (map lost (arp_table t)) = []" using t(3) by (auto simp: lost_def list_all_iff)
    have u: "etharp_tmr t = Some ?u" unfolding etharp_tmr_ticks [OF t(2)] c by simp
    have "arp_q (tick x) = []" if "arp_q x = []" for x using that by (simp add: tick_def aged_def emptied_def)
    then have q: "list_all (\<lambda>x. arp_q x = []) (arp_table ?u)" using t(3) by (simp add: list_all_iff)
    have len: "length (arp_table t) = 10" using t(2) by (simp add: arp_ok_def ARP_TABLE_SIZE_def)
    have "(used (arp_table ?u ! i) \<longleftrightarrow> used (arp_table s ! i) \<and> unat (arp_ctime (arp_table s ! i)) + Suc n < lifetime (arp_table s ! i))
        \<and> (used (arp_table ?u ! i) \<longrightarrow> unat (arp_ctime (arp_table ?u ! i)) = unat (arp_ctime (arp_table s ! i)) + Suc n
             \<and> lifetime (arp_table ?u ! i) = lifetime (arp_table s ! i))" if "i < 10" for i
      using t(4) [OF that] tick_used(1,2) [OF arp_ok_entry [OF t(2), of i]] that len by (auto simp: ARP_TABLE_SIZE_def)
    then show ?case using t(1) u q etharp_tmr_ok [OF t(2) u] by auto
  qed
  then show ?thesis by blast
qed

text \<open>A new address always finds a place: an empty entry, or else the one the table gives up, whose packets are freed: the
  oldest of the resolved ones, or, when there is none, the oldest that has no packets, or the oldest.\<close>

theorem find_entry_recycles:
  assumes "quiet e" "arp_reach e s" "\<not> listed a s"
  shows "\<exists>i. given_up (arp_table s) i \<and> find_entry (Some a) ETHARP_FLAG_TRY_HARD s
    = map_option (\<lambda>l. (int i, arp_put i ((emptied (arp_table s ! i))\<lparr>arp_ipaddr := a, arp_ctime := 0\<rparr>) (s\<lparr>lw := l\<rparr>)))
        (frees (arp_q (arp_table s ! i)) (lw s))"
  using find_entry_hard [OF arp_reach_ok [OF assms(2,1)] assms(3)] .

section \<open>Examples\<close>

definition demo_arp :: arp_env where
  "demo_arp = \<lparr>a_malloc = (\<lambda>_ l. (NULL, l)), a_memp = (\<lambda>s. (True, s)), a_link = (\<lambda>_ _ s. Some (ERR_OK, s)), a_dhcp = (\<lambda>_ _ s. Some s)\<rparr>"

text \<open>The table after a query for 192.168.0.2.\<close>

definition demo_asked :: stack where
  "demo_asked = (demo_stack [])\<lparr>arp_table := no_entry\<lparr>arp_ipaddr := 0x0200A8C0, arp_state := ETHARP_STATE_PENDING\<rparr> # replicate 9 no_entry\<rparr>"

lemma demo_arp_quiet: "quiet demo_arp"
  by (simp add: quiet_def demo_arp_def)

lemma demo_query: "etharp_query demo_arp 40 0x0200A8C0 NULL (demo_stack []) = Some (ERR_MEM, demo_asked)"
proof -
  have u: "\<not> not_unicast 0x0200A8C0 demo_nif" by code_simp
  have sw: "sweep_loop (Some 0x0200A8C0) 0 (arp_table (demo_stack [])) sweep_start = (None, sweep_start\<lparr>sw_empty := 0\<rparr>)"
    by (simp add: demo_stack_def no_entry_def sweep_start_def sweep_entry_def ARP_TABLE_SIZE_def eval_nat_numeral)
  have f: "find_entry (Some 0x0200A8C0) ETHARP_FLAG_TRY_HARD (demo_stack []) = Some (0, arp_put 0 (no_entry\<lparr>arp_ipaddr := 0x0200A8C0\<rparr>) (demo_stack []))"
    unfolding find_entry_def sw
    by (simp add: ETHARP_FLAG_FIND_ONLY_def ETHARP_FLAG_TRY_HARD_def ARP_TABLE_SIZE_def sweep_start_def fresh_entry_def arp_get_def demo_stack_def no_entry_def)
  have r: "etharp_request demo_arp 40 a (s :: stack) = Some (ERR_MEM, s)" if "nifs s 40 = Some demo_nif" for a s
    using that by (simp add: etharp_request_def etharp_raw_def demo_arp_def pbuf_alloc_def pbuf_alloc_ram_def pbuf_types)
  have n: "nifs (demo_stack []) 40 = Some demo_nif" "nifs (arp_put i x (demo_stack [])) 40 = Some demo_nif" for i x
    by (simp_all add: demo_stack_def arp_put_def)
  have p: "arp_put 0 (x :: etharp_entry) (demo_stack []) = (demo_stack [])\<lparr>arp_table := x # replicate 9 no_entry\<rparr>" for x
    by (simp add: arp_put_def demo_stack_def eval_nat_numeral)
  have t: "arp_get 0 ((demo_stack [])\<lparr>arp_table := x # xs\<rparr>) = Some x" for x xs by (simp add: arp_get_def)
  have q: "arp_put 0 y ((demo_stack [])\<lparr>arp_table := x # xs\<rparr>) = (demo_stack [])\<lparr>arp_table := y # xs\<rparr>" for x y xs by (simp add: arp_put_def)
  have n': "nifs ((demo_stack [])\<lparr>arp_table := xs\<rparr>) 40 = Some demo_nif" for xs by (simp add: demo_stack_def)
  show ?thesis using u f r n' unfolding p
    by (simp add: etharp_query_def n t q demo_asked_def no_entry_def)
qed

lemma demo_asked_reach: "arp_reach demo_arp demo_asked"
  by (rule arp_reach.query [OF arp_reach.start demo_query]) (simp_all add: demo_stack_def ARP_TABLE_SIZE_def)

theorem arp_table_sound_witness:
  "arp_state (arp_table demo_asked ! 0) = ETHARP_STATE_PENDING \<and> length (arp_table demo_asked) = 10 \<and> unique (arp_table demo_asked)"
  using arp_table_sound [OF demo_arp_quiet demo_asked_reach] by (simp add: demo_asked_def)

theorem etharp_cleanup_netif_idle_witness: "etharp_cleanup_netif 40 demo_asked = Some demo_asked \<and> used (arp_table demo_asked ! 0)"
  using etharp_cleanup_netif_idle [OF demo_arp_quiet demo_asked_reach, of 40] by (simp add: demo_asked_def used_def)

theorem etharp_tmr_expires_witness:
  "\<exists>t. ((\<lambda>r. Option.bind r etharp_tmr) ^^ 2) (Some demo_asked) = Some t \<and> \<not> used (arp_table t ! 0)"
proof -
  have "list_all (\<lambda>x. arp_q x = []) (arp_table demo_asked)" by (simp add: demo_asked_def no_entry_def list_all_iff)
  from etharp_tmr_expires [OF demo_arp_quiet demo_asked_reach this, of 2]
  show ?thesis by (auto simp: demo_asked_def lifetime_def dest: spec [of _ 0])
qed

theorem find_entry_recycles_witness:
  "\<exists>i. given_up (arp_table demo_asked) i \<and> find_entry (Some 0x0300A8C0) ETHARP_FLAG_TRY_HARD demo_asked
    = map_option (\<lambda>l. (int i, arp_put i ((emptied (arp_table demo_asked ! i))\<lparr>arp_ipaddr := 0x0300A8C0, arp_ctime := 0\<rparr>) (demo_asked\<lparr>lw := l\<rparr>)))
        (frees (arp_q (arp_table demo_asked ! i)) (lw demo_asked))"
proof -
  have "\<not> listed 0x0300A8C0 demo_asked" by (simp add: listed_def demo_asked_def no_entry_def used_def list_ex_iff)
  from find_entry_recycles [OF demo_arp_quiet demo_asked_reach this] show ?thesis .
qed

end
