(* ===== verification/Lwip_Icmp.thy ===== *)
theory Lwip_Icmp
  imports Lwip_Ip
begin

text \<open>
  ICMP, \<^verbatim>\<open>core/ipv4/icmp.c\<close>: answers to echo requests, the change of the MTU by unreachable messages that the vendor added, and
  the messages this host sends about packets it cannot deliver. The heap and IP are parameters.
\<close>

section \<open>Constants\<close>

definition ICMP_ER :: u8 where "ICMP_ER = 0"
definition ICMP_DUR :: u8 where "ICMP_DUR = 3"
definition ICMP_ECHO :: u8 where "ICMP_ECHO = 8"
definition ICMP_DUR_PROTO :: u8 where "ICMP_DUR_PROTO = 2"
definition ICMP_DUR_PORT :: u8 where "ICMP_DUR_PORT = 3"
definition ICMP_TTL :: u8 where "ICMP_TTL = 128"
definition PBUF_IP_HLEN :: nat where "PBUF_IP_HLEN = 20"
definition PBUF_LINK_HLEN :: nat where "PBUF_LINK_HLEN = 14"
definition SIZEOF_ICMP_ECHO_HDR :: nat where "SIZEOF_ICMP_ECHO_HDR = 8"
definition ICMP_DEST_UNREACH_DATASIZE :: nat where "ICMP_DEST_UNREACH_DATASIZE = 8"

section \<open>Receiving\<close>

text \<open>The MTU of an unreachable message.\<close>

definition icmp_mtu :: "pbuf \<Rightarrow> ptr \<Rightarrow> stack \<Rightarrow> stack option" where
  "icmp_mtu b inp s =
     do { h \<leftarrow> pram (lw s) (payload b + 6);
          l \<leftarrow> pram (lw s) (payload b + 7);
          let next_mtu = push_bit 8 (ucast h) OR ucast l;
          n \<leftarrow> nifs s inp;
          Some (if next_mtu \<noteq> 0 \<and> next_mtu \<noteq> netif_mtu n then s\<lparr>nifs := (nifs s)(inp \<mapsto> n\<lparr>netif_mtu := next_mtu\<rparr>)\<rparr> else s) }"

text \<open>Room for the headers below: the packet itself, or a copy of it. The result is the packet with the address of its
  IP header, or \<open>None\<close> when memory is short.\<close>

definition icmp_room :: "malloc \<Rightarrow> ptr \<Rightarrow> ptr \<Rightarrow> nat \<Rightarrow> lwip \<Rightarrow> ((ptr \<times> ptr) option \<times> lwip) option" where
  "icmp_room mem_malloc p iphdr hlen l =
     do { (r, l) \<leftarrow> pbuf_header p (int (PBUF_IP_HLEN + PBUF_LINK_HLEN)) l;
          if r \<noteq> 0
          then do {
            (r, l) \<leftarrow> pbuf_header p (int hlen) l;
            if r \<noteq> 0 then Some (None, l)
            else do {
              b \<leftarrow> get_pb l p;
              (q, l) \<leftarrow> pbuf_alloc mem_malloc PBUF_LINK (tot_len b) PBUF_RAM l;
              if q = NULL then Some (None, l)
              else do {
                (err, l) \<leftarrow> pbuf_copy q p l;
                if err \<noteq> ERR_OK then Some (None, l)
                else do {
                  c \<leftarrow> get_pb l q;
                  (r, l) \<leftarrow> pbuf_header q (- int hlen) l;
                  if r \<noteq> 0 then Some (None, l)
                  else do { (_, l) \<leftarrow> pbuf_free p l; Some (Some (q, payload c), l) } } } } }
          else do {
            (r, l) \<leftarrow> pbuf_header p (- int (PBUF_IP_HLEN + PBUF_LINK_HLEN)) l;
            Some (if r \<noteq> 0 then None else Some (p, iphdr), l) } }"

text \<open>The checksum of the answer from the one of the request, of which only the type changes.\<close>

definition icmp_adjust :: "u16 \<Rightarrow> u16" where
  "icmp_adjust c =
     (if htons (0xffff - push_bit 8 (ucast ICMP_ECHO)) \<le> c then c + (htons (push_bit 8 (ucast ICMP_ECHO)) + 1)
      else c + htons (push_bit 8 (ucast ICMP_ECHO)))"

definition icmp_reply :: "ptr \<Rightarrow> ptr \<Rightarrow> u32 \<Rightarrow> u32 \<Rightarrow> lwip \<Rightarrow> lwip option" where
  "icmp_reply iecho iphdr src dest l =
     do { l \<leftarrow> put32 (iphdr + 12) dest l;
          l \<leftarrow> put32 (iphdr + 16) src l;
          l \<leftarrow> put8 iecho ICMP_ER l;
          c \<leftarrow> ld16 (pram l) (iecho + 2);
          l \<leftarrow> put_field (iecho + 2) (icmp_adjust c) l;
          l \<leftarrow> put8 (iphdr + 8) ICMP_TTL l;
          l \<leftarrow> put_field (iphdr + 10) 0 l;
          c \<leftarrow> inet_chksum iphdr (of_nat IP_HLEN) (pram l);
          put_field (iphdr + 10) c l }"

definition icmp_echo :: "malloc \<Rightarrow> ip_env \<Rightarrow> ptr \<Rightarrow> ptr \<Rightarrow> nat \<Rightarrow> ptr \<Rightarrow> stack \<Rightarrow> stack option" where
  "icmp_echo mem_malloc e p iphdr hlen inp s =
     do { n \<leftarrow> nifs s inp;
          if ip_addr_ismulticast (current_iphdr_dest s) \<or> ip4_addr_isbroadcast (current_iphdr_dest s) n \<noteq> 0 then drop_pbuf p s
          else do {
            b \<leftarrow> get_pb (lw s) p;
            if unat (tot_len b) < SIZEOF_ICMP_ECHO_HDR then drop_pbuf p s
            else do {
              c \<leftarrow> inet_chksum_pbuf (pb (lw s)) p (pram (lw s));
              if c \<noteq> 0 then drop_pbuf p s
              else do {
                (room, l) \<leftarrow> icmp_room mem_malloc p iphdr hlen (lw s);
                case room of
                  None \<Rightarrow> drop_pbuf p (s\<lparr>lw := l\<rparr>)
                | Some (p, iphdr) \<Rightarrow> do {
                    b \<leftarrow> get_pb l p;
                    l \<leftarrow> icmp_reply (payload b) iphdr (current_iphdr_src s) (current_iphdr_dest s) l;
                    (r, l) \<leftarrow> pbuf_header p (int hlen) l;
                    let s = s\<lparr>lw := l\<rparr>;
                    s \<leftarrow> (if r \<noteq> 0 then Some s
                          else map_option snd (ip_output_if e p (Some (current_iphdr_dest s)) None ICMP_TTL 0 IP_PROTO_ICMP inp s));
                    drop_pbuf p s } } } } }"

definition icmp_input :: "malloc \<Rightarrow> ip_env \<Rightarrow> ptr \<Rightarrow> ptr \<Rightarrow> stack \<Rightarrow> stack option" where
  "icmp_input mem_malloc e p inp s =
     do { b \<leftarrow> get_pb (lw s) p;
          let iphdr = payload b;
          w \<leftarrow> ld16 (pram (lw s)) iphdr;
          let hlen = IPH_HL w * 4;
          (r, l) \<leftarrow> pbuf_header p (- int hlen) (lw s);
          let s = s\<lparr>lw := l\<rparr>;
          b \<leftarrow> get_pb (lw s) p;
          if r \<noteq> 0 \<or> unat (tot_len b) < 4 then drop_pbuf p s
          else do {
            ty \<leftarrow> pram (lw s) (payload b);
            if ty = ICMP_ER then drop_pbuf p s
            else if ty = ICMP_DUR then do { s \<leftarrow> icmp_mtu b inp s; drop_pbuf p s }
            else if ty = ICMP_ECHO then icmp_echo mem_malloc e p iphdr hlen inp s
            else drop_pbuf p s } }"

section \<open>Sending\<close>

definition icmp_send_response :: "malloc \<Rightarrow> ip_env \<Rightarrow> ptr \<Rightarrow> u8 \<Rightarrow> u8 \<Rightarrow> stack \<Rightarrow> stack option" where
  "icmp_send_response mem_malloc e p ty code s =
     do { (q, l) \<leftarrow> pbuf_alloc mem_malloc PBUF_IP (of_nat (SIZEOF_ICMP_ECHO_HDR + IP_HLEN + ICMP_DEST_UNREACH_DATASIZE)) PBUF_RAM (lw s);
          if q = NULL then Some (s\<lparr>lw := l\<rparr>)
          else do {
            b \<leftarrow> get_pb l p;
            c \<leftarrow> get_pb l q;
            let icmphdr = payload c;
            l \<leftarrow> put8 icmphdr ty l;
            l \<leftarrow> put8 (icmphdr + 1) code l;
            l \<leftarrow> put_field (icmphdr + 4) 0 l;
            l \<leftarrow> put_field (icmphdr + 6) 0 l;
            m \<leftarrow> memcpy (icmphdr + SIZEOF_ICMP_ECHO_HDR) (payload b) (IP_HLEN + ICMP_DEST_UNREACH_DATASIZE) (pram l);
            l \<leftarrow> put_field (icmphdr + 2) 0 (l\<lparr>pram := m\<rparr>);
            ck \<leftarrow> inet_chksum icmphdr (pb_len c) (pram l);
            l \<leftarrow> put_field (icmphdr + 2) ck l;
            src \<leftarrow> ld32 (pram l) (payload b + 12);
            (_, s) \<leftarrow> ip_output e q None src ICMP_TTL 0 IP_PROTO_ICMP (s\<lparr>lw := l\<rparr>);
            drop_pbuf q s } }"

definition icmp_dest_unreach :: "malloc \<Rightarrow> ip_env \<Rightarrow> ptr \<Rightarrow> u8 \<Rightarrow> stack \<Rightarrow> stack option" where
  "icmp_dest_unreach mem_malloc e p t s = icmp_send_response mem_malloc e p ICMP_DUR t s"

end
