(* ===== verification/Lwip_Ip_Proofs.thy ===== *)
theory Lwip_Ip_Proofs
  imports Lwip_Ip Lwip_Udp_Proofs
begin

text \<open>
  IP: the header that is sent is the one of RFC 791 with a right checksum; a packet that is not for this host, damaged or a
  fragment is freed; and a datagram sent by UDP through IP reaches the callback on the other side.
\<close>

section \<open>The fields of the header\<close>

text \<open>A packet whose first buffer is \<open>b\<close> and whose bytes are \<open>B\<close>.\<close>

definition holds :: "lwip \<Rightarrow> ptr \<Rightarrow> ptr list \<Rightarrow> pbuf \<Rightarrow> u8 list \<Rightarrow> bool" where
  "holds l p as b B \<longleftrightarrow> packet l p (p # as) \<and> readable (pram l) (pb l) (p # as) \<and> pb l p = Some b \<and> packet_bytes l (p # as) = B"

lemma holds_stored:
  assumes "holds l p as b B" "i + length bs \<le> unat (pb_len b)" "outside (pb l) as (payload b + i) (length bs)"
  shows "holds (l\<lparr>pram := stored (payload b + i) bs (pram l)\<rparr>) p as b (take i B @ bs @ drop (i + length bs) B)"
  using assms packet_stored [of l p as b i bs] by (simp add: holds_def)

lemma holds_valid: "holds l p as b B \<Longrightarrow> i + n \<le> unat (pb_len b) \<Longrightarrow> valid_range (pram l) (payload b + i) n"
  using valid_range_sub [of "pram l" "payload b" "unat (pb_len b)" i n] by (auto simp: holds_def readable_def pbuf_valid_def)

lemma put8_holds:
  assumes "holds l p as b B" "outside (pb l) as (payload b) k" "k \<le> unat (pb_len b)" "i + 1 \<le> k"
  shows "\<exists>l'. put8 (payload b + i) v l = Some l' \<and> pb l' = pb l \<and> holds l' p as b (take i B @ [v] @ drop (i + 1) B)"
proof -
  have "pram l (payload b + i + 0) \<noteq> None" using holds_valid [OF assms(1), of i 1] assms(3,4) unfolding valid_range_iff by simp
  then have "put8 (payload b + i) v l = Some (l\<lparr>pram := stored (payload b + i) [v] (pram l)\<rparr>)"
    by (auto simp: put8_def poke_def stored_def fun_upd_def cong: if_cong intro!: arg_cong [of _ _ "\<lambda>m. l\<lparr>pram := m\<rparr>"] ext)
  then show ?thesis
    using holds_stored [OF assms(1), of i "[v]"] outside_sub [OF assms(2), of i 1] assms(3,4) by simp
qed

lemma put16_holds:
  assumes "holds l p as b B" "outside (pb l) as (payload b) k" "k \<le> unat (pb_len b)" "i + 2 \<le> k"
  shows "\<exists>l'. put_field (payload b + i) v l = Some l' \<and> pb l' = pb l
    \<and> holds l' p as b (take i B @ [ucast v, ucast (drop_bit 8 v)] @ drop (i + 2) B)"
  using put_field_stored [of l p as b i v] outside_sub [OF assms(2), of i 2] assms by (auto simp: holds_def)

lemma addr_halves:
  "addr_bytes v = [ucast (ucast v :: u16), ucast (drop_bit 8 (ucast v :: u16)),
     ucast (ucast (drop_bit 16 v) :: u16), ucast (drop_bit 8 (ucast (drop_bit 16 v) :: u16))]"
  unfolding addr_bytes_def by (intro list.inject [THEN iffD2] conjI refl bit_word_eqI) (auto simp: bit_simps)

lemma put32_holds:
  assumes "holds l p as b B" "outside (pb l) as (payload b) k" "k \<le> unat (pb_len b)" "i + 4 \<le> k" "k \<le> length B"
  shows "\<exists>l'. put32 (payload b + i) v l = Some l' \<and> pb l' = pb l \<and> holds l' p as b (take i B @ addr_bytes v @ drop (i + 4) B)"
proof -
  obtain l1 where l1: "put_field (payload b + i) (ucast v) l = Some l1" "pb l1 = pb l"
      "holds l1 p as b (take i B @ [ucast (ucast v :: u16), ucast (drop_bit 8 (ucast v :: u16))] @ drop (i + 2) B)"
    using put16_holds [OF assms(1-3), of i "ucast v"] assms(4) by auto
  have i: "min (length B) i = i" using assms(4,5) by simp
  have "take (i + 2) (take i B @ [x, y] @ drop (i + 2) B) = take i B @ [x, y]"
      "drop (i + 2 + 2) (take i B @ [x, y] @ drop (i + 2) B) = drop (i + 4) B" for x y
    using i by (simp_all add: take_append drop_append eval_nat_numeral)
  note td = this
  obtain l2 where l2: "put_field (payload b + (i + 2)) (ucast (drop_bit 16 v)) l1 = Some l2" "pb l2 = pb l"
      "holds l2 p as b (take i B @ addr_bytes v @ drop (i + 4) B)"
    using put16_holds [OF l1(3), of k "i + 2" "ucast (drop_bit 16 v)"] l1(2) assms(2-4) i
    unfolding td addr_halves by auto
  then show ?thesis using l1 by (auto simp: put32_def add.assoc)
qed

lemma ld32_addr:
  assumes "\<And>i. i < 4 \<Longrightarrow> m (a + i) = Some (addr_bytes v ! i)"
  shows "ld32 m a = Some v"
proof -
  have "ld16 m a = Some (ucast v)" "ld16 m (a + 2) = Some (ucast (drop_bit 16 v))"
    using assms [of 0] assms [of 1] assms [of 2] assms [of 3] join_bytes [of "ucast v"] join_bytes [of "ucast (drop_bit 16 v)"]
    unfolding addr_halves by (simp_all add: ld16_def numeral_3_eq_3)
  moreover have "push_bit 16 (ucast (ucast (drop_bit 16 v) :: u16)) OR ucast (ucast v :: u16) = v"
    by (rule bit_word_eqI) (auto simp: bit_simps)
  ultimately show ?thesis by (simp add: ld32_def)
qed

section \<open>The header checksum\<close>

text \<open>The header of RFC 791, without options; the checksum as the processor stores it.\<close>

definition ip_hdr_bytes :: "u8 \<Rightarrow> u16 \<Rightarrow> u16 \<Rightarrow> u16 \<Rightarrow> u8 \<Rightarrow> u8 \<Rightarrow> u16 \<Rightarrow> u32 \<Rightarrow> u32 \<Rightarrow> u8 list" where
  "ip_hdr_bytes tos tot ident off ttl proto ck src dest =
     [0x45, tos] @ be16b tot @ be16b ident @ be16b off @ [ttl, proto] @ [ucast ck, ucast (drop_bit 8 ck)] @ addr_bytes src @ addr_bytes dest"

lemma length_ip_hdr_bytes [simp]: "length (ip_hdr_bytes tos tot ident off ttl proto ck src dest) = 20"
  by (simp add: ip_hdr_bytes_def be16b_def addr_bytes_def)

lemma le_sum_be16b: "le_sum (be16b w) = unat (htons w)"
  unfolding htons_bytes be16b_def by (simp add: unat_bytes_of(2)) (simp add: unat_bytes_of(1))

lemma unat_add_addr:
  assumes "unat c + 131070 < 2 ^ 32"
  shows "unat (add_addr a c) = unat c + le_sum (addr_bytes a)"
proof -
  have h: "drop_bit 16 a AND 0xffff = drop_bit 16 a"
    unfolding and_low_bits by (rule bit_word_eqI) (auto simp: bit_simps dest: bit_imp_le_length)
  have s: "unat (x AND 0xffff) \<le> 65535" for x :: u32
    unfolding and_low_bits unsigned_take_bit_eq using take_bit_nat_less_exp [of 16 "unat x"] by simp
  show ?thesis
    using le_sum_addr [of a] s [of a] s [of "drop_bit 16 a"] assms by (simp add: add_addr_def h Let_def unat_add_u32)
qed

lemma le_sum_addr_le: "le_sum (addr_bytes a) \<le> 131070"
  using le_sum_le [of "addr_bytes a"] by (simp add: addr_bytes_def)

lemma unat_make_u16: "unat (LWIP_MAKE_U16 proto ttl) = le_sum [ttl, proto]"
proof -
  have "LWIP_MAKE_U16 proto ttl = ucast (push_bit 8 (ucast proto) OR ucast ttl :: u16)"
    unfolding LWIP_MAKE_U16_def by (rule bit_word_eqI) (auto simp: bit_simps dest: bit_imp_le_length)
  then show ?thesis using unat_join16 [of proto ttl] by simp
qed

lemma ip_fold_ok: "ip_fold c = NOT (ones16 (unat c))"
proof -
  let ?c1 = "FOLD_U32T c"
  have "unat c div 65536 < 65536" using unsigned_less [of c, where 'a = nat] by (simp add: less_mult_imp_div_less)
  then have small: "unat ?c1 \<le> 131070" unfolding unat_fold by simp
  have f: "unat (FOLD_U32T ?c1) \<le> 65535" "same16 (halves False * unat (FOLD_U32T ?c1)) (unat c)"
    using fold_le [OF small] same16_trans [OF same16_fold same16_fold] by (auto simp: halves_def)
  have "FOLD_U32T ?c1 = ucast (ones16 (unat c))" using unswap_ok [OF f] by (simp add: unswap_def)
  moreover have "(ucast (drop_bit 16 x + x) :: u16) = ucast (FOLD_U32T x)" for x :: u32
  proof -
    have low: "unat (ucast y :: u16) = unat y mod 65536" for y :: u32 by (simp add: unsigned_ucast_eq take_bit_eq_mod)
    have "unat (x AND 0xffff) = unat x mod 65536" unfolding and_low_bits unsigned_take_bit_eq by (simp add: take_bit_eq_mod)
    moreover have "k mod 4294967296 mod 65536 = k mod 65536" for k :: nat by (rule mod_mod_cancel) simp
    ultimately have "unat (ucast (drop_bit 16 x + x) :: u16) = unat (ucast (FOLD_U32T x) :: u16)"
      unfolding low FOLD_U32T_def by (simp add: unat_word_ariths(1) mod_add_right_eq)
    then show ?thesis by (simp only: word_unat_eq_iff)
  qed
  moreover have "(ucast (NOT x) :: u16) = NOT (ucast x)" for x :: u32 by (rule bit_word_eqI) (auto simp: bit_simps)
  moreover have "ucast (ucast w :: u32) = w" for w :: u16 by (rule bit_word_eqI) (auto simp: bit_simps)
  ultimately show ?thesis by (simp add: ip_fold_def Let_def FOLD_U32T_def)
qed


lemma ip_sum_ok:
  fixes tos ttl proto :: u8 and tot ident off :: u16 and src dest :: u32
  defines "v \<equiv> htons (push_bit 12 4 OR push_bit 8 5 OR ucast tos)"
  defines "c \<equiv> add_addr src (add_addr dest (LWIP_MAKE_U16 proto ttl) + ucast v + ucast (htons tot) + ucast (htons ident) + ucast (htons off))"
  shows "inet_sum (ip_hdr_bytes tos tot ident off ttl proto (ip_fold c) src dest) = 0xFFFF"
    "[ucast v, ucast (drop_bit 8 v)] = [0x45, tos]"
proof -
  have b: "ucast (push_bit 8 (ucast x) OR ucast tos :: u16) = tos" "ucast (drop_bit 8 (push_bit 8 (ucast x) OR ucast tos :: u16)) = x" for x :: u8
    by (rule bit_word_eqI, auto simp: bit_simps dest: bit_imp_le_length)+
  have "push_bit 12 4 OR push_bit 8 5 OR ucast tos = (push_bit 8 (ucast (0x45 :: u8)) OR ucast tos :: u16)"
    unfolding or.assoc [symmetric] by simp
  then show v: "[ucast v, ucast (drop_bit 8 v)] = [0x45, tos]"
    unfolding v_def htons_bytes_list be16b_def by (simp only: b)
  have "le_sum [ucast v, ucast (drop_bit 8 v)] = unat v"
    unfolding v_def htons_bytes_list by (simp add: le_sum_be16b)
  then have v1: "unat v = le_sum [0x45, tos]" by (simp only: v)
  have s: "unat (x :: u16) \<le> 65535" for x using unsigned_less [of x, where 'a = nat] by simp
  have m: "unat (LWIP_MAKE_U16 proto ttl) \<le> 65535" unfolding unat_make_u16 using le_sum_le [of "[ttl, proto]"] by simp
  let ?d = "add_addr dest (LWIP_MAKE_U16 proto ttl)"
  have d: "unat ?d = le_sum [ttl, proto] + le_sum (addr_bytes dest)" using unat_add_addr [of "LWIP_MAKE_U16 proto ttl" dest] m unat_make_u16 by simp
  then have d1: "unat ?d \<le> 196605" using m unat_make_u16 [of proto ttl] le_sum_addr_le [of dest] by simp
  have t: "unat (?d + ucast v + ucast (htons tot) + ucast (htons ident) + ucast (htons off))
      = unat ?d + unat v + unat (htons tot) + unat (htons ident) + unat (htons off)"
    using d1 s [of v] s [of "htons tot"] s [of "htons ident"] s [of "htons off"] by (simp add: unat_add_u32)
  have "unat c = le_sum (ip_hdr_bytes tos tot ident off ttl proto 0 src dest)"
  proof -
    have "unat c = unat ?d + unat v + unat (htons tot) + unat (htons ident) + unat (htons off) + le_sum (addr_bytes src)"
      unfolding c_def using unat_add_addr [of "?d + ucast v + ucast (htons tot) + ucast (htons ident) + ucast (htons off)" src] t d1
        s [of v] s [of "htons tot"] s [of "htons ident"] s [of "htons off"] by simp
    moreover have "even (length (be16b x))" "even (length (addr_bytes a))" for x a by (simp_all add: be16b_def addr_bytes_def)
    ultimately show ?thesis
      unfolding d v1 le_sum_be16b [symmetric] ip_hdr_bytes_def by (simp add: le_sum_even)
  qed
  then have ck: "ip_fold c = NOT (inet_sum (ip_hdr_bytes tos tot ident off ttl proto 0 src dest))"
    by (simp add: ip_fold_ok inet_sum_def)
  let ?xs = "[0x45, tos] @ be16b tot @ be16b ident @ be16b off @ [ttl, proto]" and ?ys = "addr_bytes src @ addr_bytes dest"
  have "even (length ?xs)" by (simp add: be16b_def)
  from inet_sum_sealed [OF this, of "ip_fold c" ?ys]
  show "inet_sum (ip_hdr_bytes tos tot ident off ttl proto (ip_fold c) src dest) = 0xFFFF"
    using ck by (simp add: ip_hdr_bytes_def)
qed


lemma head20:
  assumes "length h = 20"
  obtains a0 a1 a2 a3 a4 a5 a6 a7 b0 b1 b2 b3 b4 b5 b6 b7 c0 c1 c2 c3 where
    "h = [a0, a1, a2, a3, a4, a5, a6, a7, b0, b1, b2, b3, b4, b5, b6, b7, c0, c1, c2, c3]"
  using assms that by (auto simp: length_Suc_conv eval_nat_numeral)

text \<open>TCP segments are not to be fragmented.\<close>

definition ip_offset :: "u8 \<Rightarrow> u16" where
  "ip_offset proto = (if proto = IP_PROTO_TCP then IP_DF else 0)"

lemma ip_header_writes:
  assumes h: "holds l p as b (h @ data)" "length h = 20" and o: "outside (pb l) as (payload b) 20" "20 \<le> unat (pb_len b)"
  shows "\<exists>l' ck. ip_header (payload b) tot 20 ident src dest ttl tos proto 0 l = Some l' \<and> pb l' = pb l
    \<and> holds l' p as b (ip_hdr_bytes tos tot ident (ip_offset proto) ttl proto ck src dest @ data)
    \<and> inet_sum (ip_hdr_bytes tos tot ident (ip_offset proto) ttl proto ck src dest) = 0xFFFF"
proof -
  obtain a0 a1 a2 a3 a4 a5 a6 a7 b0 b1 b2 b3 b4 b5 b6 b7 c0 c1 c2 c3 where
    hh: "h = [a0, a1, a2, a3, a4, a5, a6, a7, b0, b1, b2, b3, b4, b5, b6, b7, c0, c1, c2, c3]"
    using head20 [OF h(2)] .
  let ?v = "htons (push_bit 12 4 OR push_bit 8 5 OR ucast tos)"
  note v = ip_sum_ok(2) [of tos]
  have ab: "addr_bytes x = [ucast x, ucast (drop_bit 8 x), ucast (drop_bit 16 x), ucast (drop_bit 24 x)]" for x by (rule addr_bytes_def)
  obtain l1 where l1: "put8 (payload b + 8) ttl l = Some l1" "pb l1 = pb l"
      "holds l1 p as b ([a0, a1, a2, a3, a4, a5, a6, a7, ttl, b1, b2, b3, b4, b5, b6, b7, c0, c1, c2, c3] @ data)"
    using put8_holds [OF h(1) o, of 8 ttl] by (auto simp: hh)
  obtain l2 where l2: "put8 (payload b + 9) proto l1 = Some l2" "pb l2 = pb l"
      "holds l2 p as b ([a0, a1, a2, a3, a4, a5, a6, a7, ttl, proto, b2, b3, b4, b5, b6, b7, c0, c1, c2, c3] @ data)"
    using put8_holds [OF l1(3), of 20 9 proto] o l1(2) by auto
  obtain l3 where l3: "put32 (payload b + 16) dest l2 = Some l3" "pb l3 = pb l"
      "holds l3 p as b ([a0, a1, a2, a3, a4, a5, a6, a7, ttl, proto, b2, b3, b4, b5, b6, b7] @ addr_bytes dest @ data)"
    using put32_holds [OF l2(3), of 20 16 dest] o l2(2) by (auto simp: ab)
  obtain l4 where l4: "put_field (payload b) ?v l3 = Some l4" "pb l4 = pb l"
      "holds l4 p as b ([0x45, tos, a2, a3, a4, a5, a6, a7, ttl, proto, b2, b3, b4, b5, b6, b7] @ addr_bytes dest @ data)"
    using put16_holds [OF l3(3), of 20 0 ?v] o l3(2) v by auto
  obtain l5 where l5: "put_field (payload b + 2) (htons tot) l4 = Some l5" "pb l5 = pb l"
      "holds l5 p as b ([0x45, tos] @ be16b tot @ [a4, a5, a6, a7, ttl, proto, b2, b3, b4, b5, b6, b7] @ addr_bytes dest @ data)"
    using put16_holds [OF l4(3), of 20 2 "htons tot"] o l4(2) by (auto simp: htons_bytes_list)
  obtain l6 where l6: "put_field (payload b + 6) 0 l5 = Some l6" "pb l6 = pb l"
      "holds l6 p as b ([0x45, tos] @ be16b tot @ [a4, a5] @ be16b 0 @ [ttl, proto, b2, b3, b4, b5, b6, b7] @ addr_bytes dest @ data)"
    using put16_holds [OF l5(3), of 20 6 0] o l5(2) by (auto simp: be16b_def)
  obtain l7 where l7: "put_field (payload b + 4) (htons ident) l6 = Some l7" "pb l7 = pb l"
      "holds l7 p as b ([0x45, tos] @ be16b tot @ be16b ident @ be16b 0 @ [ttl, proto, b2, b3, b4, b5, b6, b7] @ addr_bytes dest @ data)"
    using put16_holds [OF l6(3), of 20 4 "htons ident"] o l6(2) by (auto simp: be16b_def htons_high htons_low)
  let ?c7 = "add_addr dest (LWIP_MAKE_U16 proto ttl) + ucast ?v + ucast (htons tot) + ucast (htons ident)"
  let ?o = "if proto = IP_PROTO_TCP then do { l \<leftarrow> put_field (payload b + 6) (htons IP_DF) l7; Some (l, ?c7 + ucast (htons IP_DF)) }
      else Some (l7, ?c7)"
  have "htons 0 = 0" by code_simp
  then obtain l8 where l8: "?o = Some (l8, ?c7 + ucast (htons (ip_offset proto)))" "pb l8 = pb l"
      "holds l8 p as b ([0x45, tos] @ be16b tot @ be16b ident @ be16b (ip_offset proto) @ [ttl, proto, b2, b3, b4, b5, b6, b7] @ addr_bytes dest @ data)"
    using put16_holds [OF l7(3), of 20 6 "htons IP_DF"] o l7(2,3)
    by (cases "proto = IP_PROTO_TCP") (auto simp: ip_offset_def be16b_def htons_high htons_low)
  obtain l9 where l9: "put32 (payload b + 12) src l8 = Some l9" "pb l9 = pb l"
      "holds l9 p as b ([0x45, tos] @ be16b tot @ be16b ident @ be16b (ip_offset proto) @ [ttl, proto, b2, b3] @ addr_bytes src @ addr_bytes dest @ data)"
    using put32_holds [OF l8(3), of 20 12 src] o l8(2) by (auto simp: ab be16b_def)
  let ?ck = "ip_fold (add_addr src (?c7 + ucast (htons (ip_offset proto))))"
  obtain l10 where l10: "put_field (payload b + 10) ?ck l9 = Some l10" "pb l10 = pb l"
      "holds l10 p as b (ip_hdr_bytes tos tot ident (ip_offset proto) ttl proto ?ck src dest @ data)"
    using put16_holds [OF l9(3), of 20 10 ?ck] o l9(2) by (auto simp: ab be16b_def ip_hdr_bytes_def)
  have "ip_header (payload b) tot 20 ident src dest ttl tos proto 0 l = Some l10"
    unfolding ip_header_def Let_def using l1(1) l2(1) l3(1) l4(1) l5(1) l6(1) l7(1) l8(1) l9(1) l10(1)
    by (cases "proto = IP_PROTO_TCP"; cases "put_field (payload b + 6) (htons IP_DF) l7") simp_all
  then show ?thesis using l10(2,3) ip_sum_ok(1) [of tos tot ident "ip_offset proto" ttl proto src dest] by blast
qed


section \<open>Sending\<close>

lemma sendable_length:
  assumes "sendable k l p as"
  shows "k + length (packet_bytes l (p # as)) < 2 ^ 16"
proof -
  have "packet l p (p # as)" using assms by (simp add: sendable_def)
  then show ?thesis using packet_bytes_length [of l p "p # as"] assms by (auto simp: sendable_def headroom_def packet_def)
qed

text \<open>UDP leaves the room that is not its own to IP.\<close>

lemma udp_sendto_if_room:
  assumes "upcb s pcb = Some c" "u_local_port c \<noteq> 0" "u_local_ip c \<in> {IPADDR_ANY, netif_ip_addr nif}" "sendable 28 (lw s) p as"
  defines "data \<equiv> packet_bytes (lw s) (p # as)"
  shows "\<exists>l ck. udp_sendto_if e pcb p dst dport nif s
      = e_out e p (netif_ip_addr nif) dst (u_ttl c) (u_tos c) IP_PROTO_UDP nif (s\<lparr>lw := l\<rparr>)
    \<and> sendable 20 l p as \<and> packet_bytes l (p # as) = udp_bytes (u_local_port c) dport (of_nat (8 + length data)) ck data
    \<and> udp_intact (netif_ip_addr nif) dst (u_local_port c) dport (of_nat (8 + length data)) ck data"
proof -
  obtain b where b: "pb (lw s) p = Some b" using assms(4) by (auto simp: sendable_def packet_def)
  have pk: "packet (lw s) p (p # as)" using assms(4) by (simp add: sendable_def)
  have room: "headroom (pram (lw s)) p b 28" and apart: "outside (pb (lw s)) as (payload b - 28) 28"
    using assms(4) b by (simp_all add: sendable_def)
  have pl: "28 \<le> payload b" using room by (simp add: headroom_def)
  then have sub: "payload b - 28 + 20 = payload b - 8" by simp
  have "valid_range (pram (lw s)) (payload b - 28) (20 + 8)" using room by (simp add: headroom_def)
  then have v: "valid_range (pram (lw s)) (payload b - 28) 20" "valid_range (pram (lw s)) (payload b - 8) 8"
    unfolding valid_range_append sub by simp_all
  have s8: "sendable 8 (lw s) p as"
    using assms(4) b room v(2) outside_sub [OF apart, of 20 8] sub by (simp add: sendable_def headroom_def)
  obtain l f ck where l: "udp_sendto_if e pcb p dst dport nif s
        = e_out e p (netif_ip_addr nif) dst (u_ttl c) (u_tos c) IP_PROTO_UDP nif (s\<lparr>lw := l\<rparr>)"
      "packet l p (p # as)" "readable (pram l) (pb l) (p # as)"
      "pb l = (pb (lw s))(p \<mapsto> (longer 8 b)\<lparr>pb_flags := f\<rparr>)" "dom (pram (lw s)) \<subseteq> dom (pram l)"
      "packet_bytes l (p # as) = udp_bytes (u_local_port c) dport (of_nat (8 + length data)) ck data"
      "udp_intact (netif_ip_addr nif) dst (u_local_port c) dport (of_nat (8 + length data)) ck data"
    using udp_sendto_if_outputs [OF assms(1-3) s8, of e dst dport] unfolding data_def b option.sel by blast
  have "p \<notin> set as" using head_replaced [OF pk b] by simp
  then have o: "outside ((pb (lw s))(p \<mapsto> x)) as = outside (pb (lw s)) as" for x
    by (auto simp: outside_def plen_def fun_eq_iff)
  have "valid_range (pram l) (payload b - 28) 20" using v(1) l(5) unfolding valid_range_iff by blast
  moreover have "unat (tot_len (longer 8 b)) = unat (tot_len b) + 8"
    using room unat_add_u16 [of "tot_len b" 8] by (simp add: longer_def headroom_def)
  ultimately have "sendable 20 l p as"
    using l(2,3,4) room outside_sub [OF apart, of 0 20] pl unfolding sendable_def
    by (auto simp: headroom_def o longer_def)
  then show ?thesis using l(1,6,7) by blast
qed

definition source :: "netif \<Rightarrow> u32 option \<Rightarrow> u32" where
  "source n src = (case src of None \<Rightarrow> netif_ip_addr n | Some a \<Rightarrow> if ip_addr_isany a then netif_ip_addr n else a)"

lemma ip_output_if_outputs:
  assumes "sendable 20 (lw s) p as" "nifs s netif = Some n"
  defines "data \<equiv> packet_bytes (lw s) (p # as)"
  shows "\<exists>t ck. ip_output_if e p src (Some dest) ttl tos proto netif s = i_output e netif p dest t
    \<and> packet (lw t) p (p # as) \<and> packet_bytes (lw t) (p # as)
        = ip_hdr_bytes tos (of_nat (20 + length data)) (ip_id s) (ip_offset proto) ttl proto ck (source n src) dest @ data
    \<and> inet_sum (ip_hdr_bytes tos (of_nat (20 + length data)) (ip_id s) (ip_offset proto) ttl proto ck (source n src) dest) = 0xFFFF
    \<and> ip_id t = ip_id s + 1"
proof -
  have pk: "packet (lw s) p (p # as)" "readable (pram (lw s)) (pb (lw s)) (p # as)"
    using assms(1) by (simp_all add: sendable_def)
  then obtain b where b: "pb (lw s) p = Some b" by (auto simp: packet_def)
  have p0: "p \<noteq> NULL" using pk(1) by (simp add: packet_def)
  have room: "headroom (pram (lw s)) p b 20" and apart: "outside (pb (lw s)) as (payload b - 20) 20"
    using assms(1) b by (simp_all add: sendable_def)
  define l1 where "l1 = (lw s)\<lparr>pb := (pb (lw s))(p \<mapsto> longer 20 b)\<rparr>"
  note h = reveal_header [OF pk b room, folded l1_def]
  have "p \<notin> set as" using head_replaced [OF pk(1) b] by simp
  then have "outside ((pb (lw s))(p \<mapsto> x)) as = outside (pb (lw s)) as" for x
    by (auto simp: outside_def plen_def fun_eq_iff)
  then have b1: "pb l1 p = Some (longer 20 b)" "20 \<le> unat (pb_len (longer 20 b))" "outside (pb l1) as (payload (longer 20 b)) 20"
    using h(6) apart by (simp_all add: l1_def longer_def)
  have hold: "holds l1 p as (longer 20 b) (bytes_at (pram (lw s)) (payload b - 20) 20 @ data)"
    using h(2-4) b1(1) by (simp add: holds_def data_def)
  have n: "unat (tot_len (longer 20 b)) = 20 + length data"
    using h(5) packet_bytes_length [OF pk(1)] pk(1) b by (simp add: data_def packet_def)
  have tot: "tot_len (longer 20 b) = of_nat (20 + length data)" using arg_cong [OF n, of "of_nat :: nat \<Rightarrow> u16"] by simp
  obtain l2 ck where l2: "ip_header (payload (longer 20 b)) (of_nat (20 + length data)) 20 (ip_id s) (source n src) dest ttl tos proto 0 l1 = Some l2"
      "holds l2 p as (longer 20 b) (ip_hdr_bytes tos (of_nat (20 + length data)) (ip_id s) (ip_offset proto) ttl proto ck (source n src) dest @ data)"
      "inet_sum (ip_hdr_bytes tos (of_nat (20 + length data)) (ip_id s) (ip_offset proto) ttl proto ck (source n src) dest) = 0xFFFF"
    using ip_header_writes [OF hold _ b1(3,2), of "of_nat (20 + length data)" "ip_id s" "source n src" dest ttl tos proto]
    by (auto simp del: of_nat_add)
  have "ip_output_if e p src (Some dest) ttl tos proto netif s = i_output e netif p dest (s\<lparr>lw := l2, ip_id := ip_id s + 1\<rparr>)"
    using h(1) b1(1) p0 assms(2) l2(1) tot
    by (simp add: ip_output_if_def ip_output_if_opt_def ip_options_in_def IP_HLEN_def get_pb_def Let_def source_def)
  then show ?thesis using l2(2,3) by (intro exI [of _ "s\<lparr>lw := l2, ip_id := ip_id s + 1\<rparr>"] exI [of _ ck]) (simp add: holds_def)
qed

section \<open>Receiving\<close>

lemma holds_nth: "holds l p as b B \<Longrightarrow> i < unat (pb_len b) \<Longrightarrow> pram l (payload b + i) = Some (B ! i)"
  using packet_first_byte [of l p as b i] by (auto simp: holds_def)

lemma IPH_V_join: "IPH_V (push_bit 8 (ucast (y :: u8)) OR ucast (x :: u8)) = ucast (drop_bit 4 x)"
proof -
  let ?w = "push_bit 8 (ucast y) OR ucast x :: u16"
  have x: "ucast (drop_bit 8 (htons ?w)) = x" unfolding htons_low by (rule bit_word_eqI) (auto simp: bit_simps)
  have "drop_bit 12 (htons ?w) = ucast (drop_bit 4 (ucast (drop_bit 8 (htons ?w)) :: u8))"
    by (rule bit_word_eqI) (auto simp: bit_simps dest: bit_imp_le_length)
  then show ?thesis unfolding IPH_V_def x .
qed

lemma holds_chksum:
  assumes "holds l p as b B" "20 \<le> unat (pb_len b)"
  shows "inet_chksum (payload b) 20 (pram l) = Some (NOT (inet_sum (take 20 B)))"
proof -
  have "take 20 B = bytes_at (pram l) (payload b) 20"
    using assms by (auto simp: holds_def packet_bytes_def pbuf_bytes_def take_bytes_at)
  then show ?thesis
    using chksum_rfc1071 [OF holds_valid [OF assms(1), of 0 20]] assms(2) by (simp add: inet_chksum_def)
qed

lemma ip_input_version:
  assumes "holds (lw s) p as b B" "20 \<le> unat (pb_len b)" "B ! 0 = 0x45"
  obtains w where "ld16 (pram (lw s)) (payload b) = Some w" "IPH_V w = 4" "IPH_HL w = 5"
proof -
  have m: "pram (lw s) (payload b) = Some 0x45" "pram (lw s) (payload b + 1) = Some (B ! 1)"
    using holds_nth [OF assms(1), of 0] holds_nth [OF assms(1), of 1] assms(2,3) by simp_all
  have v: "(ucast (drop_bit 4 (0x45 :: u8)) :: u16) = 4" "unat ((0x45 :: u8) AND 0x0f) = 5" by code_simp+
  show thesis
    using m IPH_V_join [of "B ! 1" "0x45"] IPH_HL_join [of "B ! 1" "0x45"] v
    by (intro that [of "push_bit 8 (ucast (B ! 1)) OR ucast (0x45 :: u8)"]) (simp_all add: ld16_def)
qed

lemma ip_input_bad_sum:
  assumes "holds (lw s) p as b B" "20 \<le> unat (pb_len b)" "B ! 0 = 0x45" "inet_sum (take 20 B) \<noteq> 0xFFFF"
  shows "ip_input e p inp s = ip_drop p s"
proof -
  obtain w where w: "ld16 (pram (lw s)) (payload b) = Some w" "IPH_V w = 4" "IPH_HL w = 5"
    using ip_input_version [OF assms(1-3)] .
  have m: "pram (lw s) (payload b + 2) = Some (B ! 2)" "pram (lw s) (payload b + 3) = Some (B ! 3)"
    using holds_nth [OF assms(1), of 2] holds_nth [OF assms(1), of 3] assms(2) by simp_all
  then obtain x where x: "ld16 (pram (lw s)) (payload b + 2) = Some x" by (simp add: ld16_def numeral_3_eq_3)
  have g: "get_pb (lw s) p = Some b" using assms(1) by (auto simp: holds_def packet_def get_pb_def)
  show ?thesis
    using w x g holds_chksum [OF assms(1,2)] assms(4) by (simp add: ip_input_def Let_def not_zero_iff)
qed

lemma ip_hdr_nth:
  "ip_hdr_bytes tos tot ident off ttl proto ck src dest ! 0 = 0x45"
  "ip_hdr_bytes tos tot ident off ttl proto ck src dest ! 2 = ucast (drop_bit 8 tot)"
  "ip_hdr_bytes tos tot ident off ttl proto ck src dest ! 3 = ucast tot"
  "ip_hdr_bytes tos tot ident off ttl proto ck src dest ! 6 = ucast (drop_bit 8 off)"
  "ip_hdr_bytes tos tot ident off ttl proto ck src dest ! 7 = ucast off"
  "ip_hdr_bytes tos tot ident off ttl proto ck src dest ! 9 = proto"
  "i < 4 \<Longrightarrow> ip_hdr_bytes tos tot ident off ttl proto ck src dest ! (12 + i) = addr_bytes src ! i"
  "i < 4 \<Longrightarrow> ip_hdr_bytes tos tot ident off ttl proto ck src dest ! (16 + i) = addr_bytes dest ! i"
proof -
  have l: "length (addr_bytes x) = 4" for x by (simp add: addr_bytes_def)
  let ?h = "[0x45, tos] @ be16b tot @ be16b ident @ be16b off @ [ttl, proto] @ [ucast ck, ucast (drop_bit 8 ck)]"
  have h: "length ?h = 12" by (simp add: be16b_def)
  have e: "ip_hdr_bytes tos tot ident off ttl proto ck src dest = ?h @ addr_bytes src @ addr_bytes dest" by (simp add: ip_hdr_bytes_def)
  show "i < 4 \<Longrightarrow> ip_hdr_bytes tos tot ident off ttl proto ck src dest ! (12 + i) = addr_bytes src ! i"
    "i < 4 \<Longrightarrow> ip_hdr_bytes tos tot ident off ttl proto ck src dest ! (16 + i) = addr_bytes dest ! i"
    unfolding e nth_append h l by simp_all
qed (simp_all add: ip_hdr_bytes_def be16b_def nth_append)

lemma ip_input_good_sum:
  assumes h: "holds (lw s) p as b (ip_hdr_bytes tos tot ident off ttl proto ck src dest @ data)" "20 \<le> unat (pb_len b)"
    and "unat tot = 20 + length data" "inet_sum (ip_hdr_bytes tos tot ident off ttl proto ck src dest) = 0xFFFF"
  shows "ip_input e p inp s = ip_for_us e p (payload b) 20 inp (s\<lparr>current_iphdr_src := src, current_iphdr_dest := dest\<rparr>)"
proof -
  let ?H = "ip_hdr_bytes tos tot ident off ttl proto ck src dest"
  have nth: "pram (lw s) (payload b + i) = Some (?H ! i)" if "i < 20" for i
    using holds_nth [OF h(1), of i] h(2) that by (simp add: nth_append)
  obtain w where w: "ld16 (pram (lw s)) (payload b) = Some w" "IPH_V w = 4" "IPH_HL w = 5"
    using ip_input_version [OF h] by (auto simp: nth_append ip_hdr_nth)
  have n3: "pram (lw s) (payload b + 2) = Some (ucast (drop_bit 8 tot))" "pram (lw s) (payload b + 3) = Some (ucast tot)"
    using nth [of 2] nth [of 3] by (simp_all add: ip_hdr_nth)
  have "map_option htons (ld16 (pram (lw s)) (payload b + 2)) = Some tot"
    by (rule ld16_be) (use n3 in \<open>simp_all add: numeral_3_eq_3\<close>)
  then obtain x where x: "ld16 (pram (lw s)) (payload b + 2) = Some x" "htons x = tot" by auto
  have g: "get_pb (lw s) p = Some b" "p \<noteq> NULL" "pb (lw s) p = Some b" using h(1) by (auto simp: holds_def packet_def get_pb_def)
  have "unat (tot_len b) = 20 + length data"
    using packet_bytes_length [of "lw s" p "p # as"] h(1) g(3) by (simp add: holds_def packet_def)
  then have t: "tot_len b = tot" using assms(3) by (simp add: word_unat_eq_iff)
  then have r: "pbuf_realloc p tot (lw s) = Some (lw s)" using g by (simp add: pbuf_realloc_def)
  have a: "ld32 (pram (lw s)) (payload b + 12) = Some src" "ld32 (pram (lw s)) (payload b + 16) = Some dest"
    by (rule ld32_addr, use nth [of "12 + i" for i] nth [of "16 + i" for i] ip_hdr_nth(7,8) in \<open>simp add: add.assoc\<close>)+
  show ?thesis
    using w x g t r a holds_chksum [OF h] h(2) assms(4) by (simp add: ip_input_def Let_def)
qed


text \<open>A packet for the address of the interface it came in on, from a proper source, and not a fragment.\<close>

definition for_interface :: "netif \<Rightarrow> u32 \<Rightarrow> u32 \<Rightarrow> bool" where
  "for_interface n src dest \<longleftrightarrow> netif_is_up n \<and> netif_ip_addr n = dest \<and> \<not> ip_addr_isany dest \<and> \<not> ip_addr_ismulticast dest
     \<and> \<not> bad_source True n src"

lemma ip_for_us_delivers:
  assumes "nifs s inp = Some n" "inp \<noteq> NULL" "for_interface n (current_iphdr_src s) (current_iphdr_dest s)"
    and "map_option htons (ld16 (pram (lw s)) (iphdr + 6)) = Some off" "off AND (IP_OFFMASK OR IP_MF) = 0"
  shows "ip_for_us e p iphdr hl inp s = ip_deliver e p iphdr inp s"
proof -
  have m: "ip_match e inp s = Some inp"
    using assms(1,3) by (simp add: ip_match_def for_interface_def accepts_def Let_def)
  obtain x where x: "ld16 (pram (lw s)) (iphdr + 6) = Some x" "htons x = off" using assms(4) by auto
  have e: "htons a = push_bit 8 (ucast (ucast a :: u8)) OR ucast (ucast (drop_bit 8 a) :: u8)" for a
    using join_bytes [of "htons a"] htons_high [of a] htons_low [of a] by simp
  have h: "htons (a AND b) = htons a AND htons b" for a b unfolding e by (rule bit_word_eqI) (auto simp: bit_simps)
  have inv: "htons (htons a) = a" for a
    using htons_join [of a] join_bytes [of "htons a"] htons_high [of a] htons_low [of a] by simp
  have "htons (x AND htons (IP_OFFMASK OR IP_MF)) = 0" using assms(5) x(2) by (simp only: h inv)
  then have "htons (htons (x AND htons (IP_OFFMASK OR IP_MF))) = htons 0" by (rule arg_cong)
  moreover have "htons 0 = 0" by code_simp
  ultimately have z: "x AND htons (IP_OFFMASK OR IP_MF) = 0" by (simp only: inv)
  show ?thesis
    using m x(1) z assms(1-3) by (simp add: ip_for_us_def ip_dhcp_def for_interface_def)
qed

section \<open>UDP over IP\<close>

text \<open>A UDP datagram as it lies on the wire.\<close>

definition udp_on_wire :: "u32 \<Rightarrow> u32 \<Rightarrow> u16 \<Rightarrow> u16 \<Rightarrow> u8 list \<Rightarrow> u8 list \<Rightarrow> bool" where
  "udp_on_wire src dst sport dport data bs \<longleftrightarrow> 28 + length data < 2 ^ 16 \<and>
     (\<exists>tos ident ttl ck uck.
        bs = ip_hdr_bytes tos (of_nat (28 + length data)) ident 0 ttl IP_PROTO_UDP ck src dst
             @ udp_bytes sport dport (of_nat (8 + length data)) uck data
      \<and> inet_sum (ip_hdr_bytes tos (of_nat (28 + length data)) ident 0 ttl IP_PROTO_UDP ck src dst) = 0xFFFF
      \<and> udp_intact src dst sport dport (of_nat (8 + length data)) uck data)"

text \<open>What UDP relies on: whatever it passes down leaves through the interface behind the header of IP.\<close>

locale ip_service =
  fixes out :: "ptr \<Rightarrow> u32 \<Rightarrow> u32 \<Rightarrow> u8 \<Rightarrow> u8 \<Rightarrow> u8 \<Rightarrow> netif \<Rightarrow> stack \<Rightarrow> (int \<times> stack) option"
    and link :: "ptr \<Rightarrow> u32 \<Rightarrow> stack \<Rightarrow> (int \<times> stack) option"
    and ready :: "netif \<Rightarrow> stack \<Rightarrow> bool"
  assumes sends: "sendable 20 (lw s) p as \<Longrightarrow> ready nif s \<Longrightarrow> data = packet_bytes (lw s) (p # as) \<Longrightarrow>
      \<exists>t ident ck. out p src dst ttl tos proto nif s = link p dst t \<and> packet (lw t) p (p # as)
        \<and> packet_bytes (lw t) (p # as)
            = ip_hdr_bytes tos (of_nat (20 + length data)) ident (ip_offset proto) ttl proto ck (source nif (Some src)) dst @ data
        \<and> inet_sum (ip_hdr_bytes tos (of_nat (20 + length data)) ident (ip_offset proto) ttl proto ck (source nif (Some src)) dst) = 0xFFFF"
    and ready_lw: "ready nif (s\<lparr>lw := l\<rparr>) = ready nif s"
begin

lemma udp_goes_out:
  assumes "upcb s pcb = Some c" "u_local_port c \<noteq> 0" "u_local_ip c \<in> {IPADDR_ANY, netif_ip_addr nif}" "sendable 28 (lw s) p as"
    and "ready nif s" "e_out e = out"
  shows "\<exists>t. udp_sendto_if e pcb p dst dport nif s = link p dst t \<and> packet (lw t) p (p # as)
    \<and> udp_on_wire (netif_ip_addr nif) dst (u_local_port c) dport (packet_bytes (lw s) (p # as)) (packet_bytes (lw t) (p # as))"
proof -
  let ?data = "packet_bytes (lw s) (p # as)"
  obtain l uck where l: "udp_sendto_if e pcb p dst dport nif s
        = out p (netif_ip_addr nif) dst (u_ttl c) (u_tos c) IP_PROTO_UDP nif (s\<lparr>lw := l\<rparr>)"
      "sendable 20 l p as" "packet_bytes l (p # as) = udp_bytes (u_local_port c) dport (of_nat (8 + length ?data)) uck ?data"
      "udp_intact (netif_ip_addr nif) dst (u_local_port c) dport (of_nat (8 + length ?data)) uck ?data"
    using udp_sendto_if_room [OF assms(1-4), of e dst dport] unfolding assms(6) by blast
  have src: "source nif (Some (netif_ip_addr nif)) = netif_ip_addr nif" by (simp add: source_def)
  have n: "28 + length ?data < 2 ^ 16" by (rule sendable_length [OF assms(4)])
  have off: "ip_offset IP_PROTO_UDP = 0" by (simp add: ip_offset_def IP_PROTO_UDP_def IP_PROTO_TCP_def)
  have len: "20 + length (udp_bytes (u_local_port c) dport (of_nat (8 + length ?data)) uck ?data) = 28 + length ?data" by simp
  have sd: "sendable 20 (lw (s\<lparr>lw := l\<rparr>)) p as" "ready nif (s\<lparr>lw := l\<rparr>)" using l(2) assms(5) by (simp_all add: ready_lw)
  have "packet_bytes (lw (s\<lparr>lw := l\<rparr>)) (p # as) = udp_bytes (u_local_port c) dport (of_nat (8 + length ?data)) uck ?data"
    using l(3) by simp
  from sends [OF sd this [symmetric], of "netif_ip_addr nif" dst "u_ttl c" "u_tos c" IP_PROTO_UDP, unfolded len src off]
  obtain t ident ck where t: "udp_sendto_if e pcb p dst dport nif s = link p dst t" "packet (lw t) p (p # as)"
      "packet_bytes (lw t) (p # as) = ip_hdr_bytes (u_tos c) (of_nat (28 + length ?data)) ident 0 (u_ttl c) IP_PROTO_UDP ck (netif_ip_addr nif) dst
         @ udp_bytes (u_local_port c) dport (of_nat (8 + length ?data)) uck ?data"
      "inet_sum (ip_hdr_bytes (u_tos c) (of_nat (28 + length ?data)) ident 0 (u_ttl c) IP_PROTO_UDP ck (netif_ip_addr nif) dst) = 0xFFFF"
    unfolding l(1) by blast
  then show ?thesis using l(4) n unfolding udp_on_wire_def by blast
qed

end

interpretation ip_out: ip_service
  "\<lambda>p src dst ttl tos proto _. ip_output_if ie p (Some src) (Some dst) ttl tos proto netif" "i_output ie netif" "\<lambda>nif s. nifs s netif = Some nif"
  for ie netif
proof (unfold_locales, goal_cases)
  case (1 s p as nif data src dst ttl tos proto)
  then show ?case using ip_output_if_outputs [OF 1(1,2), of ie "Some src" dst ttl tos proto] by blast
qed simp

text \<open>The state while a packet with header at \<open>h\<close> that came in on \<open>inp\<close> is processed.\<close>

definition processing :: "ptr \<Rightarrow> ptr \<Rightarrow> u32 \<Rightarrow> u32 \<Rightarrow> stack \<Rightarrow> stack" where
  "processing inp h src dst s = s\<lparr>current_iphdr_src := src, current_iphdr_dest := dst, current_netif := inp, current_header := h\<rparr>"

definition idle :: "stack \<Rightarrow> stack" where
  "idle s = s\<lparr>current_iphdr_src := IPADDR_ANY, current_iphdr_dest := IPADDR_ANY, current_netif := NULL, current_header := NULL\<rparr>"

lemma ip_input_upper:
  assumes h: "holds (lw s) p as b (ip_hdr_bytes tos tot ident off ttl proto ck src dst @ data)" "20 \<le> unat (pb_len b)"
    and sum: "unat tot = 20 + length data" "inet_sum (ip_hdr_bytes tos tot ident off ttl proto ck src dst) = 0xFFFF"
    and "nifs s inp = Some n" "inp \<noteq> NULL" "for_interface n src dst" "off AND (IP_OFFMASK OR IP_MF) = 0" "i_raw ie = (\<lambda>_ _ t. Some (False, t))"
  shows "ip_input ie p inp s
      = map_option (\<lambda>t. (ERR_OK, idle t)) (ip_upper ie p (payload b) inp (processing inp (payload b) src dst s))"
    "pram (lw s) (payload b + 9) = Some proto"
proof -
  let ?s = "s\<lparr>current_iphdr_src := src, current_iphdr_dest := dst\<rparr>"
  have m: "pram (lw s) (payload b + i) = Some (ip_hdr_bytes tos tot ident off ttl proto ck src dst ! i)" if "i < 20" for i
    using holds_nth [OF h(1), of i] h(2) that by (simp add: nth_append)
  have n: "pram (lw s) (payload b + 6) = Some (ucast (drop_bit 8 off))" "pram (lw s) (payload b + 6 + 1) = Some (ucast off)"
    using m [of 6] m [of 7] by (simp_all add: ip_hdr_nth add.commute [of 7])
  show "pram (lw s) (payload b + 9) = Some proto" using m [of 9] by (simp add: ip_hdr_nth)
  have "map_option htons (ld16 (pram (lw ?s)) (payload b + 6)) = Some off" using ld16_be [OF n] by simp
  then have "ip_for_us ie p (payload b) 20 inp ?s = ip_deliver ie p (payload b) inp ?s"
    using assms(5-8) by (intro ip_for_us_delivers [where off = off]) simp_all
  then show "ip_input ie p inp s
      = map_option (\<lambda>t. (ERR_OK, idle t)) (ip_upper ie p (payload b) inp (processing inp (payload b) src dst s))"
    using ip_input_good_sum [OF h sum] assms(9)
    by (cases "ip_upper ie p (payload b) inp (processing inp (payload b) src dst s)")
      (simp_all add: ip_deliver_def processing_def idle_def Let_def)
qed

section \<open>Properties\<close>

text \<open>C31. UDP over IP, on the way out: for a bound control block and a packet with room for both headers, \<^verbatim>\<open>udp_sendto_if\<close>
  through \<^verbatim>\<open>ip_output_if\<close> hands the interface a packet that is the header of IP, with a right checksum, the header of UDP,
  with a checksum the receiver accepts, and the unchanged data.\<close>

theorem udp_ip_sends:
  assumes "upcb s pcb = Some c" "u_local_port c \<noteq> 0" "u_local_ip c \<in> {IPADDR_ANY, netif_ip_addr nif}" "sendable 28 (lw s) p as"
    and "nifs s netif = Some nif"
    and "e_out e = (\<lambda>p src dst ttl tos proto _. ip_output_if ie p (Some src) (Some dst) ttl tos proto netif)"
  shows "\<exists>t. udp_sendto_if e pcb p dst dport nif s = i_output ie netif p dst t \<and> packet (lw t) p (p # as)
    \<and> udp_on_wire (netif_ip_addr nif) dst (u_local_port c) dport (packet_bytes (lw s) (p # as)) (packet_bytes (lw t) (p # as))"
  by (rule ip_out.udp_goes_out [OF assms])

text \<open>C32. UDP over IP, on the way in: a packet in that format, for the address of the interface, goes through
  \<^verbatim>\<open>ip_input\<close> and \<^verbatim>\<open>udp_input\<close> to the callback of its control block, with exactly the data and with the address and the
  port of the sender; then the globals of IP are reset.\<close>

theorem udp_ip_receives:
  assumes h: "holds (lw s) p as b bs" "28 \<le> unat (pb_len b)" "hides p b" and wire: "udp_on_wire src dst sport dport data bs"
    and inp: "nifs s inp = Some (if_net ifc)" "inp \<noteq> NULL" "for_interface (if_net ifc) src dst"
    and up: "i_raw ie = (\<lambda>_ _ t. Some (False, t))" "i_up ie Udp_input = (\<lambda>p _. udp_input e p ifc)"
    and pcb: "demux sport dport (ip4_addr_isbroadcast dst (if_net ifc) \<noteq> 0) ifc (processing inp (payload b) src dst s) = Some (pcb, t)"
      "pcb \<noteq> NULL" "upcb s pcb = Some cb" "u_recv cb \<noteq> NULL"
  shows "\<exists>r. ip_input ie p inp s = map_option (\<lambda>t. (ERR_OK, idle t)) (e_up e (Recv_cb (u_recv cb) (u_recv_arg cb) pcb p src sport) r)
    \<and> packet (lw r) p (p # as) \<and> packet_bytes (lw r) (p # as) = data"
proof -
  obtain tos ident ttl ck uck where w: "28 + length data < 2 ^ 16"
      "bs = ip_hdr_bytes tos (of_nat (28 + length data)) ident 0 ttl IP_PROTO_UDP ck src dst
        @ udp_bytes sport dport (of_nat (8 + length data)) uck data" (is "_ = ?H @ ?D")
      "inet_sum (ip_hdr_bytes tos (of_nat (28 + length data)) ident 0 ttl IP_PROTO_UDP ck src dst) = 0xFFFF"
      "udp_intact src dst sport dport (of_nat (8 + length data)) uck data"
    using wire unfolding udp_on_wire_def by blast
  let ?t = "processing inp (payload b) src dst s"
  have "unat (of_nat (28 + length data) :: u16) = 28 + length data" using w(1) by (intro unat_of_nat_u16) simp
  then have tot: "unat (of_nat (28 + length data) :: u16) = 20 + length ?D" by simp
  have in_eq: "ip_input ie p inp s = map_option (\<lambda>t. (ERR_OK, idle t)) (udp_input e p ifc ?t)"
    using ip_input_upper [of s p as b tos "of_nat (28 + length data)" ident 0 ttl IP_PROTO_UDP ck src dst ?D, OF _ _ tot w(3) inp _ up(1)]
      h(1,2) w(2) up(2) by (simp add: ip_upper_def processing_def)
  have hd: "hd ?H = 0x45" by (simp add: ip_hdr_bytes_def)
  have "unat ((0x45 :: u8) AND 0x0f) = 5" by code_simp
  then have a: "arrived (lw ?t) p as ?H ?D"
    using h w(2) hd by (simp add: arrived_def holds_def processing_def)
  have c: "current_iphdr_src ?t = src" "current_iphdr_dest ?t = dst" "upcb ?t = upcb s" by (simp_all add: processing_def)
  show ?thesis
    using udp_input_delivers [OF a, of ifc pcb t cb e] pcb w(4) unfolding c in_eq by metis
qed

text \<open>C33. A packet with a damaged header is freed and nothing is called: one byte of a right header, behind the first, has
  been changed.\<close>

theorem ip_input_drops_damaged:
  assumes "ip_hdr_bytes tos tot ident off ttl proto ck src dest = xs @ x # ys" "x \<noteq> x'" "xs \<noteq> []"
    and "inet_sum (ip_hdr_bytes tos tot ident off ttl proto ck src dest) = 0xFFFF"
    and "holds (lw s) p as b ((xs @ x' # ys) @ data)" "20 \<le> unat (pb_len b)"
  shows "ip_input e p inp s = ip_drop p s"
proof (rule ip_input_bad_sum [OF assms(5,6)])
  have l: "length (xs @ x' # ys) = 20" using arg_cong [OF assms(1), of length] by simp
  have "(xs @ x # ys) ! 0 = 0x45" using ip_hdr_nth(1) unfolding assms(1) [symmetric] .
  then show "((xs @ x' # ys) @ data) ! 0 = 0x45" using assms(3) by (simp add: nth_append)
  have "take 20 (zs @ data) = zs" if "length zs = 20" for zs :: "u8 list" using that by simp
  then show "inet_sum (take 20 ((xs @ x' # ys) @ data)) \<noteq> 0xFFFF"
    using inet_sum_detects [OF assms(2), of xs ys] assms(4) l unfolding assms(1) by (simp only:)
qed

section \<open>Examples\<close>

definition demo_ip :: ip_env where
  "demo_ip = \<lparr>i_raw = (\<lambda>_ _ t. Some (False, t)), i_up = (\<lambda>_ p _. udp_input demo_env p demo_inif), i_group = (\<lambda>_ _ _. False),
     i_output = (\<lambda>_ _ _ t. Some (ERR_OK, t)), i_getif0 = 40\<rparr>"

theorem udp_ip_sends_witness:
  "\<exists>t. udp_sendto_if (demo_env\<lparr>e_out := \<lambda>p src dst ttl tos proto _. ip_output_if demo_ip p (Some src) (Some dst) ttl tos proto 40\<rparr>)
        50 100 0x0200A8C0 53 demo_nif (demo_stack [1, 2, 3]) = Some (ERR_OK, t)
    \<and> udp_on_wire 0x0100A8C0 0x0200A8C0 5000 53 [1, 2, 3] (packet_bytes (lw t) [100])"
proof -
  have "sendable 28 (lw (demo_stack [1, 2, 3])) 100 []"
    using demo_stack_packet [of "[1, 2, 3]"] by (simp add: sendable_def outside_def)
  moreover have "upcb (demo_stack [1, 2, 3]) 50 = Some demo_upcb" "nifs (demo_stack [1, 2, 3]) 40 = Some demo_nif"
      "u_local_port demo_upcb = 5000" "u_local_ip demo_upcb = IPADDR_ANY" "netif_ip_addr demo_nif = 0x0100A8C0"
    by (simp_all add: demo_udp IPADDR_ANY_def)
  ultimately show ?thesis
    using udp_ip_sends [of "demo_stack [1, 2, 3]" 50 demo_upcb demo_nif 100 "[]" 40
        "demo_env\<lparr>e_out := \<lambda>p src dst ttl tos proto _. ip_output_if demo_ip p (Some src) (Some dst) ttl tos proto 40\<rparr>"
        demo_ip "0x0200A8C0" 53]
      demo_stack_packet(2) [of "[1, 2, 3]"]
    by (auto simp: demo_ip_def)
qed

definition demo_wire :: "u8 list" where
  "demo_wire = ip_hdr_bytes 0 31 1 0 64 17 31225 0x0200A8C0 0x0100A8C0 @ udp_bytes 53 5000 11 50534 [1, 2, 3]"

lemma demo_header_sum: "inet_sum (ip_hdr_bytes 0 31 1 0 64 17 31225 0x0200A8C0 0x0100A8C0) = 0xFFFF"
  by (simp add: inet_sum_def ones16_def ip_hdr_bytes_def addr_bytes_def be16b_def)

lemma demo_on_wire: "udp_on_wire 0x0200A8C0 0x0100A8C0 53 5000 [1, 2, 3] demo_wire"
  unfolding udp_on_wire_def demo_wire_def using demo_header_sum demo_intact
  by - (rule conjI, simp, rule exI [of _ 0], rule exI [of _ 1], rule exI [of _ 64], rule exI [of _ 31225], rule exI [of _ 50534],
    simp add: IP_PROTO_UDP_def)

lemma demo_holds:
  assumes "length bs < 1000"
  shows "holds (lw (demo_stack bs)) 100 [] (demo_buf 0 200 (of_nat (length bs)) (of_nat (length bs)) 1) bs"
  using demo_stack_packet [of bs] assms by (simp add: holds_def) (simp add: demo_stack_def)

lemma demo_buf_room: "hides 100 (demo_buf 0 200 31 31 1)" "unat (pb_len (demo_buf 0 200 31 31 1)) = 31" "payload (demo_buf 0 200 31 31 1) = 200"
  by (simp_all add: demo_buf_def hides_def pbuf_types SIZEOF_STRUCT_PBUF_def EP_OFFSET_def)

lemma demo_wire_holds: "holds (lw (demo_stack demo_wire)) 100 [] (demo_buf 0 200 31 31 1) demo_wire"
  using demo_holds [of demo_wire] by (simp add: demo_wire_def)

theorem udp_ip_receives_witness:
  "\<exists>t. ip_input demo_ip 100 40 (demo_stack demo_wire) = Some (ERR_OK, t) \<and> packet_bytes (lw t) [100] = [1, 2, 3]"
proof -
  have f: "for_interface (if_net demo_inif) 0x0200A8C0 0x0100A8C0" by code_simp
  have d: "demux 53 5000 bc demo_inif (processing 40 h 0x0200A8C0 0x0100A8C0 (demo_stack demo_wire))
      = Some (50, processing 40 h 0x0200A8C0 0x0100A8C0 (demo_stack demo_wire))" for bc h
    by (cases bc) (auto simp: processing_def demux_def demo_udp local_match_def remote_match_def ip_addr_isany_def IPADDR_ANY_def
        DHCP_CLIENT_PORT_def DHCP_SERVER_PORT_def UDP_FLAGS_CONNECTED_def Let_def)
  from udp_ip_receives [OF demo_wire_holds _ demo_buf_room(1) demo_on_wire, of 40 demo_inif demo_ip demo_env, OF _ _ _ f _ _ d]
  show ?thesis using demo_buf_room(2)
    by (auto simp: demo_ip_def demo_env_def demo_addresses demo_upcb_def demo_inif_def demo_stack_def idle_def)
qed

theorem ip_input_drops_damaged_witness:
  "ip_input demo_ip 100 40 (demo_stack (ip_hdr_bytes 0 31 1 0 65 17 31225 0x0200A8C0 0x0100A8C0 @ udp_bytes 53 5000 11 50534 [1, 2, 3]))
     = ip_drop 100 (demo_stack (ip_hdr_bytes 0 31 1 0 65 17 31225 0x0200A8C0 0x0100A8C0 @ udp_bytes 53 5000 11 50534 [1, 2, 3]))"
proof -
  let ?xs = "[0x45, 0] @ be16b 31 @ be16b 1 @ be16b 0"
    and ?ys = "17 # [ucast (31225 :: u16), ucast (drop_bit 8 (31225 :: u16))] @ addr_bytes 0x0200A8C0 @ addr_bytes 0x0100A8C0"
    and ?d = "udp_bytes 53 5000 11 50534 [1, 2, 3]"
  have e: "ip_hdr_bytes 0 31 1 0 x 17 31225 0x0200A8C0 0x0100A8C0 = ?xs @ x # ?ys" for x by (simp add: ip_hdr_bytes_def)
  have "holds (lw (demo_stack ((?xs @ 65 # ?ys) @ ?d))) 100 [] (demo_buf 0 200 31 31 1) ((?xs @ 65 # ?ys) @ ?d)"
    using demo_holds [of "(?xs @ 65 # ?ys) @ ?d"] by (simp add: be16b_def addr_bytes_def)
  from ip_input_drops_damaged [OF e _ _ demo_header_sum this] show ?thesis
    using demo_buf_room(2) unfolding e by simp
qed

end
