(* ===== verification/Lwip_Icmp_Proofs.thy ===== *)
theory Lwip_Icmp_Proofs
  imports Lwip_Icmp Lwip_Ip_Proofs
begin

text \<open>
  ICMP: the answer to an echo request goes back with the data of the request and right checksums, except for a request of
  zeros; an unreachable message sets the MTU, whatever it is about.
\<close>

section \<open>The checksum of the answer\<close>

definition icmp_bytes :: "u8 \<Rightarrow> u8 \<Rightarrow> u16 \<Rightarrow> u8 list \<Rightarrow> u8 list" where
  "icmp_bytes ty code c rest = [ty, code, ucast c, ucast (drop_bit 8 c)] @ rest"

lemma le_sum_icmp: "le_sum (icmp_bytes ty code c rest) = unat ty + 256 * unat code + unat c + le_sum rest"
proof -
  have "unat (ucast c :: u8) + 256 * unat (ucast (drop_bit 8 c) :: u8) = unat c"
  proof -
    have "unat c div 256 mod 256 = unat c div 256"
      using unsigned_less [of c, where 'a = nat] by (simp add: less_mult_imp_div_less)
    then show ?thesis unfolding unat_bytes_of(2) unfolding unat_bytes_of(1) by simp
  qed
  then show ?thesis by (simp add: icmp_bytes_def)
qed

lemma unat_icmp_adjust: "unat (icmp_adjust c) = (if unat c < 65527 then unat c + 8 else unat c - 65527)"
proof -
  have k: "htons (0xffff - push_bit 8 (ucast ICMP_ECHO)) = 0xfff7" "htons (push_bit 8 (ucast ICMP_ECHO)) = 8" by code_simp+
  show ?thesis using unsigned_less [of c, where 'a = nat]
    unfolding icmp_adjust_def k by (auto simp: word_le_nat_alt unat_plus_if')
qed

lemma inet_sum_FFFF: "inet_sum bs = 0xFFFF \<longleftrightarrow> le_sum bs \<noteq> 0 \<and> le_sum bs mod 65535 = 0"
proof -
  have "ones16 65535 = 0xFFFF" by (simp add: ones16_def)
  then show ?thesis unfolding inet_sum_def using ones16_eq_iff [of "le_sum bs" 65535] by (auto simp: same16_def)
qed

lemma inet_sum_zero: "le_sum bs = 0 \<Longrightarrow> inet_sum bs = 0"
  by (simp add: inet_sum_def ones16_def)

lemma le_sum_zero: "le_sum bs = 0 \<longleftrightarrow> set bs \<subseteq> {0}"
  by (induction bs rule: le_sum.induct) (auto simp: unat_eq_0)

lemma icmp_adjust_ok:
  assumes "inet_sum (icmp_bytes 8 code c rest) = 0xFFFF"
  shows "inet_sum (icmp_bytes 0 code (icmp_adjust c) rest) = (if code = 0 \<and> set rest \<subseteq> {0} then 0 else 0xFFFF)"
proof -
  let ?n = "le_sum (icmp_bytes 8 code c rest)" and ?m = "le_sum (icmp_bytes 0 code (icmp_adjust c) rest)"
  have n: "?n = 8 + 256 * unat code + unat c + le_sum rest" "?m = 256 * unat code + unat (icmp_adjust c) + le_sum rest"
    unfolding le_sum_icmp by simp_all
  have d: "?n mod 65535 = 0" using assms by (simp add: inet_sum_FFFF)
  show ?thesis
  proof (cases "unat c < 65527")
    case True
    then have e: "?m = ?n" using n unat_icmp_adjust [of c] by simp
    have "\<not> (code = 0 \<and> set rest \<subseteq> {0})"
    proof
      assume "code = 0 \<and> set rest \<subseteq> {0}"
      then have "?n = 8 + unat c" using n(1) le_sum_zero [of rest] by simp
      then show False using d True by simp
    qed
    moreover have "inet_sum (icmp_bytes 0 code (icmp_adjust c) rest) = 0xFFFF" using d n(1) e by (simp add: inet_sum_FFFF)
    ultimately show ?thesis by simp
  next
    case False
    then have e: "?n = ?m + 65535" using n unat_icmp_adjust [of c] by simp
    then have d': "?m mod 65535 = 0" using d by simp
    show ?thesis
    proof (cases "?m = 0")
      case True
      then have "code = 0 \<and> set rest \<subseteq> {0}" using n(2) le_sum_zero [of rest] by (simp add: unat_eq_0)
      then show ?thesis using inet_sum_zero [OF True] by simp
    next
      case nz: False
      have "\<not> (code = 0 \<and> set rest \<subseteq> {0})"
      proof
        assume z: "code = 0 \<and> set rest \<subseteq> {0}"
        then have "?n = 8 + unat c" using n(1) le_sum_zero [of rest] by simp
        moreover have "unat c < 65536" using unsigned_less [of c, where 'a = nat] by simp
        ultimately have "?n = 65535" using d False by (auto simp: mod_if split: if_splits)
        then show False using e nz by simp
      qed
      then show ?thesis using d' nz by (auto simp: inet_sum_FFFF)
    qed
  qed
qed

section \<open>Writing below a hidden header\<close>

lemma put_frames:
  "put8 a v (l\<lparr>pb := st\<rparr>) = map_option (\<lambda>l. l\<lparr>pb := st\<rparr>) (put8 a v l)"
  "put_field a w (l\<lparr>pb := st\<rparr>) = map_option (\<lambda>l. l\<lparr>pb := st\<rparr>) (put_field a w l)"
  "put32 a x (l\<lparr>pb := st\<rparr>) = map_option (\<lambda>l. l\<lparr>pb := st\<rparr>) (put32 a x l)"
proof -
  show f: "put_field a w (l\<lparr>pb := st\<rparr>) = map_option (\<lambda>l. l\<lparr>pb := st\<rparr>) (put_field a w l)" for a w l
    by (cases "st16 a w (pram l)") (simp_all add: put_field_def)
  show "put8 a v (l\<lparr>pb := st\<rparr>) = map_option (\<lambda>l. l\<lparr>pb := st\<rparr>) (put8 a v l)"
    by (cases "poke a v (pram l)") (simp_all add: put8_def)
  show "put32 a x (l\<lparr>pb := st\<rparr>) = map_option (\<lambda>l. l\<lparr>pb := st\<rparr>) (put32 a x l)"
    by (cases "put_field a (ucast x) l") (simp_all add: put32_def f)
qed

lemma icmp_reply_frame: "icmp_reply h i src dst (l\<lparr>pb := st\<rparr>) = map_option (\<lambda>l. l\<lparr>pb := st\<rparr>) (icmp_reply h i src dst l)"
  unfolding icmp_reply_def by (simp add: put_frames Option.bind_map_option map_option_bind o_def cong: Option.bind_cong)

lemma put_dom:
  "put8 a v l = Some l' \<Longrightarrow> dom (pram l') = dom (pram l)"
  "put_field a w l = Some l' \<Longrightarrow> dom (pram l') = dom (pram l)"
  "put32 a x l = Some l' \<Longrightarrow> dom (pram l') = dom (pram l)"
proof -
  show f: "put_field a w l = Some l' \<Longrightarrow> dom (pram l') = dom (pram l)" for a w l l'
    by (auto simp: put_field_def st16_def poke_def Option.bind_eq_Some_conv split: if_splits)
  show "put8 a v l = Some l' \<Longrightarrow> dom (pram l') = dom (pram l)" by (auto simp: put8_def poke_def split: if_splits)
  show "put32 a x l = Some l' \<Longrightarrow> dom (pram l') = dom (pram l)"
    by (clarsimp simp: put32_def Option.bind_eq_Some_conv) ((drule f)+, simp)
qed

lemma icmp_reply_dom: "icmp_reply h i src dst l = Some l' \<Longrightarrow> dom (pram l') = dom (pram l)"
  unfolding icmp_reply_def by (clarsimp simp: Option.bind_eq_Some_conv) ((drule put_dom)+, simp)

lemma icmp_reply_writes:
  assumes h: "holds l p as b (ip_hdr_bytes tos tot ident off ttl proto ck src dst @ icmp_bytes 8 code c rest)"
    and o: "outside (pb l) as (payload b) 24" "24 \<le> unat (pb_len b)"
  shows "\<exists>l' ck'. icmp_reply (payload b + 20) (payload b) src dst l = Some l' \<and> pb l' = pb l
    \<and> holds l' p as b (ip_hdr_bytes tos tot ident off ICMP_TTL proto ck' dst src @ icmp_bytes 0 code (icmp_adjust c) rest)
    \<and> inet_sum (ip_hdr_bytes tos tot ident off ICMP_TTL proto ck' dst src) = 0xFFFF"
proof -
  note eqs = ip_hdr_bytes_def be16b_def icmp_bytes_def addr_bytes_def
  let ?x = "[0x45, tos] @ be16b tot @ be16b ident @ be16b off"
  let ?i = "icmp_bytes 8 code c rest" and ?j = "icmp_bytes 0 code (icmp_adjust c) rest"
  let ?d = "\<lambda>v. [ucast v, ucast (drop_bit 8 v)]"
  obtain l1 where l1: "put32 (payload b + 12) dst l = Some l1" "pb l1 = pb l"
      "holds l1 p as b (?x @ [ttl, proto] @ ?d ck @ addr_bytes dst @ addr_bytes dst @ ?i)"
    using put32_holds [OF h o, of 12 dst] by (auto simp: eqs)
  obtain l2 where l2: "put32 (payload b + 16) src l1 = Some l2" "pb l2 = pb l"
      "holds l2 p as b (?x @ [ttl, proto] @ ?d ck @ addr_bytes dst @ addr_bytes src @ ?i)"
    using put32_holds [OF l1(3), of 24 16 src] o l1(2) by (auto simp: eqs)
  obtain l3 where l3: "put8 (payload b + 20) ICMP_ER l2 = Some l3" "pb l3 = pb l"
      "holds l3 p as b (?x @ [ttl, proto] @ ?d ck @ addr_bytes dst @ addr_bytes src @ icmp_bytes 0 code c rest)"
    using put8_holds [OF l2(3), of 24 20 ICMP_ER] o l2(2) by (auto simp: eqs ICMP_ER_def)
  have c: "ld16 (pram l3) (payload b + 22) = Some c"
  proof -
    have "pram l3 (payload b + 22) = Some (ucast c)" "pram l3 (payload b + 23) = Some (ucast (drop_bit 8 c))"
      using holds_nth [OF l3(3), of 22] holds_nth [OF l3(3), of 23] o(2) by (simp_all add: eqs)
    then show ?thesis using join_bytes [of c] by (simp add: ld16_def add.commute)
  qed
  obtain l4 where l4: "put_field (payload b + 22) (icmp_adjust c) l3 = Some l4" "pb l4 = pb l"
      "holds l4 p as b (?x @ [ttl, proto] @ ?d ck @ addr_bytes dst @ addr_bytes src @ ?j)"
    using put16_holds [OF l3(3), of 24 22 "icmp_adjust c"] o l3(2) by (auto simp: eqs add.assoc)
  obtain l5 where l5: "put8 (payload b + 8) ICMP_TTL l4 = Some l5" "pb l5 = pb l"
      "holds l5 p as b (?x @ [ICMP_TTL, proto] @ ?d ck @ addr_bytes dst @ addr_bytes src @ ?j)"
    using put8_holds [OF l4(3), of 24 8 ICMP_TTL] o l4(2) by (auto simp: eqs)
  obtain l6 where l6: "put_field (payload b + 10) 0 l5 = Some l6" "pb l6 = pb l"
      "holds l6 p as b (?x @ [ICMP_TTL, proto] @ [0, 0] @ addr_bytes dst @ addr_bytes src @ ?j)"
    using put16_holds [OF l5(3), of 24 10 0] o l5(2) by (auto simp: eqs)
  define ck' where "ck' = NOT (inet_sum ((?x @ [ICMP_TTL, proto]) @ [0, 0] @ (addr_bytes dst @ addr_bytes src)))"
  have t: "take 20 (?x @ [ICMP_TTL, proto] @ [0, 0] @ addr_bytes dst @ addr_bytes src @ ?j)
      = (?x @ [ICMP_TTL, proto]) @ [0, 0] @ (addr_bytes dst @ addr_bytes src)" by (simp add: eqs)
  have ck: "inet_chksum (payload b) 20 (pram l6) = Some ck'"
    using holds_chksum [OF l6(3)] o(2) unfolding t ck'_def by simp
  obtain l7 where l7: "put_field (payload b + 10) ck' l6 = Some l7" "pb l7 = pb l"
      "holds l7 p as b (ip_hdr_bytes tos tot ident off ICMP_TTL proto ck' dst src @ ?j)"
    using put16_holds [OF l6(3), of 24 10 ck'] o l6(2) by (auto simp: eqs)
  have "even (length (?x @ [ICMP_TTL, proto]))" by (simp add: be16b_def)
  from inet_sum_sealed [OF this ck'_def]
  have s: "inet_sum (ip_hdr_bytes tos tot ident off ICMP_TTL proto ck' dst src) = 0xFFFF" by (simp add: ip_hdr_bytes_def)
  have e: "payload b + 20 + 2 = payload b + 22" by simp
  have "icmp_reply (payload b + 20) (payload b) src dst l = Some l7"
    unfolding icmp_reply_def e using l1(1) l2(1) l3(1) c l4(1) l5(1) l6(1) ck l7(1) by (simp add: IP_HLEN_def)
  then show ?thesis using l7(2,3) s by blast
qed

lemma shorter_longer: "k \<le> payload b \<Longrightarrow> shorter k (longer k b) = b"
  by (simp add: shorter_def longer_def)

lemma longer_shorter: "longer k (shorter k b) = b"
  by (simp add: shorter_def longer_def)

section \<open>Echo\<close>

lemma packet_chksum:
  assumes "packet l p as" "readable (pram l) (pb l) as"
  shows "inet_chksum_pbuf (pb l) p (pram l) = Some (NOT (inet_sum (packet_bytes l as)))"
  using chain_pseudo(3) [OF path_chain, of "pb l" p as "pram l"] assms
  by (simp add: packet_def packet_bytes_def chain_bytes_path readable_list_all)

lemma icmp_room_enough:
  assumes "packet l p (p # as)" "readable (pram l) (pb l) (p # as)" "pb l p = Some b" "headroom (pram l) p b 34"
  shows "icmp_room m p iphdr hlen l = Some (Some (p, iphdr), l)"
proof -
  define l' where "l' = l\<lparr>pb := (pb l)(p \<mapsto> longer 34 b)\<rparr>"
  note r = reveal_header [OF assms, folded l'_def]
  have hd: "hides p (longer 34 b)" "34 \<le> payload b" using assms(4) by (auto simp: hides_def headroom_def longer_def)
  have "pb l' p = Some (longer 34 b)" by (simp add: l'_def)
  from hide_header(1) [OF r(2,4) this hd(1), of 34] r(6)
  have "pbuf_header p (- 34) l' = Some (0, l'\<lparr>pb := (pb l')(p \<mapsto> b)\<rparr>)" using hd(2) by (simp add: shorter_longer)
  moreover have "l'\<lparr>pb := (pb l')(p \<mapsto> b)\<rparr> = l" using assms(3) by (simp add: l'_def fun_upd_idem)
  ultimately show ?thesis using r(1) by (simp add: icmp_room_def PBUF_IP_HLEN_def PBUF_LINK_HLEN_def)
qed

text \<open>The header is hidden, the answer written, the header revealed again.\<close>

lemma reply_behind_header:
  assumes "holds l p as b B" "holds l' p as b B'" "pb l' = pb l" "icmp_reply h i src dst l = Some l'" "hides p b" "20 \<le> unat (pb_len b)"
    and "headroom (pram l') p (shorter 20 b) 20"
  defines "st \<equiv> (pb l)(p \<mapsto> shorter 20 b)"
  shows "icmp_reply h i src dst (l\<lparr>pb := st\<rparr>) = Some (l'\<lparr>pb := st\<rparr>)" "pbuf_header p 20 (l'\<lparr>pb := st\<rparr>) = Some (0, l')"
proof -
  show "icmp_reply h i src dst (l\<lparr>pb := st\<rparr>) = Some (l'\<lparr>pb := st\<rparr>)" using assms(4) by (simp add: icmp_reply_frame)
  have h: "packet l' p (p # as)" "readable (pram l') (pb l') (p # as)" "pb l' p = Some b" using assms(2) by (simp_all add: holds_def)
  note hh = hide_header [OF h assms(5) _ assms(6), folded st_def, unfolded assms(3), folded st_def]
  have st: "pb (l'\<lparr>pb := st\<rparr>) p = Some (shorter 20 b)" by (simp add: st_def)
  have "pbuf_header p (int 20) (l'\<lparr>pb := st\<rparr>) = Some (0, (l'\<lparr>pb := st\<rparr>)\<lparr>pb := (pb (l'\<lparr>pb := st\<rparr>))(p \<mapsto> longer 20 (shorter 20 b))\<rparr>)"
    using reveal_header(1) [OF _ _ st, of as 20] hh(2,4) assms(7) by simp
  moreover have "l'\<lparr>pb := st(p \<mapsto> b)\<rparr> = l'" using h(3) assms(3) by (simp add: st_def fun_upd_idem)
  ultimately show "pbuf_header p 20 (l'\<lparr>pb := st\<rparr>) = Some (0, l')" by (simp add: longer_shorter)
qed


lemma headroom_shorter:
  assumes "headroom m p b 14" "valid_range m (payload b) 20" "20 \<le> unat (pb_len b)" "unat (pb_len b) \<le> unat (tot_len b)"
  shows "headroom m p (shorter 20 b) 34" "headroom m p (shorter 20 b) 20" "hides p b"
proof -
  have e: "payload b + 20 - 34 = payload b - 14" "payload b - 14 + 14 = payload b" using assms(1) by (simp_all add: headroom_def)
  have v: "valid_range m (payload b - 14) (14 + 20)" unfolding valid_range_append e(2) using assms(1,2) by (simp add: headroom_def)
  have "(20 :: u16) \<le> tot_len b" using assms(3,4) by (simp add: word_le_nat_alt)
  then have t: "unat (tot_len b - 20) = unat (tot_len b) - 20" by (simp add: unat_sub)
  show "headroom m p (shorter 20 b) 34" "headroom m p (shorter 20 b) 20" "hides p b"
    using assms v e t by (auto simp: headroom_def shorter_def hides_def)
qed

lemma icmp_input_echo:
  assumes h: "holds (lw s) p as b (ip_hdr_bytes tos tot ident off ttl proto ck src dst @ icmp_bytes 8 code c rest)" "28 \<le> unat (pb_len b)"
    and room: "headroom (pram (lw s)) p b 14" "outside (pb (lw s)) as (payload b) 24"
    and sum: "inet_sum (icmp_bytes 8 code c rest) = 0xFFFF"
    and dst: "nifs s inp = Some n" "\<not> ip_addr_ismulticast dst" "ip4_addr_isbroadcast dst n = 0"
      "current_iphdr_src s = src" "current_iphdr_dest s = dst"
  shows "\<exists>l' ck'. icmp_input m e p inp s = do { (_, r) \<leftarrow> i_output e inp p src (s\<lparr>lw := l'\<rparr>); drop_pbuf p r }
    \<and> pb l' = pb (lw s) \<and> dom (pram l') = dom (pram (lw s))
    \<and> holds l' p as b (ip_hdr_bytes tos tot ident off ICMP_TTL proto ck' dst src @ icmp_bytes 0 code (icmp_adjust c) rest)
    \<and> inet_sum (ip_hdr_bytes tos tot ident off ICMP_TTL proto ck' dst src) = 0xFFFF"
proof -
  have pk: "packet (lw s) p (p # as)" "readable (pram (lw s)) (pb (lw s)) (p # as)" "pb (lw s) p = Some b" "p \<noteq> NULL"
    using h(1) by (auto simp: holds_def packet_def)
  have tl: "unat (pb_len b) \<le> unat (tot_len b)" using head_replaced(3) [OF pk(1,3)] by simp
  note hr = headroom_shorter [OF room(1) holds_valid [OF h(1), of 0 20, simplified] _ tl]
  have b20: "20 \<le> unat (pb_len b)" "24 \<le> unat (pb_len b)" using h(2) by simp_all
  obtain l' ck' where l': "icmp_reply (payload b + 20) (payload b) src dst (lw s) = Some l'" "pb l' = pb (lw s)"
      "holds l' p as b (ip_hdr_bytes tos tot ident off ICMP_TTL proto ck' dst src @ icmp_bytes 0 code (icmp_adjust c) rest)"
      "inet_sum (ip_hdr_bytes tos tot ident off ICMP_TTL proto ck' dst src) = 0xFFFF"
    using icmp_reply_writes [OF h(1) room(2) b20(2)] by blast
  define st where "st = (pb (lw s))(p \<mapsto> shorter 20 b)"
  let ?l = "(lw s)\<lparr>pb := st\<rparr>"
  note hh = hide_header [OF pk(1-3) hr(3) _ b20(1), folded st_def]
  have len: "packet_bytes ?l (p # as) = icmp_bytes 8 code c rest" using hh(3) h(1,2) b20(1) by (simp add: holds_def hr(3))
  have sh: "pb ?l p = Some (shorter 20 b)" "payload (shorter 20 b) = payload b + 20" by (simp_all add: st_def shorter_def)
  have ty: "pram (lw s) (payload b + 20) = Some 8"
    using holds_nth [OF h(1), of 20] h(2) by (simp add: nth_append icmp_bytes_def)
  obtain w where w: "ld16 (pram (lw s)) (payload b) = Some w" "IPH_HL w = 5"
    using ip_input_version [OF h(1) b20(1)] by (auto simp: nth_append ip_hdr_nth)
  have tot: "28 \<le> unat (tot_len b)" "\<not> unat (tot_len b) - 20 < 4" using tl h(2) by simp_all
  have c0: "inet_chksum_pbuf st p (pram (lw s)) = Some 0"
    using packet_chksum [OF hh(2,4)] len sum b20(1) hr(3) by simp
  have rm: "icmp_room m p (payload b) 20 ?l = Some (Some (p, payload b), ?l)"
    using icmp_room_enough [OF hh(2,4) sh(1)] hr(1) b20(1) by simp
  have "headroom (pram l') p (shorter 20 b) 20"
    using hr(2) holds_valid [OF l'(3), of 0 20] b20(1) by (simp add: headroom_def shorter_def)
  note rp = reply_behind_header [OF h(1) l'(3,2,1) hr(3) b20(1) this, folded st_def]
  have pl: "pb l' p = Some b" using l'(2) pk(3) by simp
  have "pram l' (payload b + 16 + i) = Some (addr_bytes src ! i)" if "i < 4" for i
    using holds_nth [OF l'(3), of "16 + i"] that b20(1) ip_hdr_nth(8) [OF that] by (simp add: nth_append add.assoc)
  then have d: "ld32 (pram l') (payload b + 16) = Some src" by (rule ld32_addr)
  have out: "ip_output_if e p (Some dst) None ICMP_TTL 0 IP_PROTO_ICMP inp (s\<lparr>lw := l'\<rparr>) = i_output e inp p src (s\<lparr>lw := l'\<rparr>)"
    using pl pk(4) d by (simp add: ip_output_if_def ip_output_if_opt_def get_pb_def)
  have "icmp_echo m e p (payload b) 20 inp (s\<lparr>lw := ?l\<rparr>)
      = do { (_, r) \<leftarrow> i_output e inp p src (s\<lparr>lw := l'\<rparr>); drop_pbuf p r }"
    using dst pk(4) sh hh(7) b20(1) tot c0 rm rp out hr(3)
    by (cases "i_output e inp p src (s\<lparr>lw := l'\<rparr>)") (auto simp: icmp_echo_def get_pb_def SIZEOF_ICMP_ECHO_HDR_def Let_def)
  then have "icmp_input m e p inp s = do { (_, r) \<leftarrow> i_output e inp p src (s\<lparr>lw := l'\<rparr>); drop_pbuf p r }"
    using pk(3,4) w hh(1,7) sh tot ty b20(1) hr(3)
    by (simp add: icmp_input_def get_pb_def ICMP_ER_def ICMP_DUR_def ICMP_ECHO_def Let_def)
  then show ?thesis using l'(2-4) icmp_reply_dom [OF l'(1)] by blast
qed

text \<open>Through IP: an intact request for the address of the interface goes back to its sender with the addresses exchanged, a full
  time to live and right checksums, except for a request of nothing but zeros.\<close>

lemma ping_goes_back:
  assumes h: "holds (lw s) p as b (ip_hdr_bytes tos tot ident off ttl IP_PROTO_ICMP ck src dst @ icmp_bytes 8 code c rest)" "28 \<le> unat (pb_len b)"
    and room: "headroom (pram (lw s)) p b 14" "outside (pb (lw s)) as (payload b) 24"
    and sums: "unat tot = 24 + length rest" "inet_sum (ip_hdr_bytes tos tot ident off ttl IP_PROTO_ICMP ck src dst) = 0xFFFF"
      "inet_sum (icmp_bytes 8 code c rest) = 0xFFFF" "off AND (IP_OFFMASK OR IP_MF) = 0"
    and inp: "nifs s inp = Some n" "inp \<noteq> NULL" "for_interface n src dst" "ip4_addr_isbroadcast dst n = 0"
    and up: "i_raw ie = (\<lambda>_ _ t. Some (False, t))" "i_up ie Icmp_input = icmp_input m oe"
  shows "\<exists>l' ck'. ip_input ie p inp s = map_option (\<lambda>t. (ERR_OK, idle t))
        (do { (_, r) \<leftarrow> i_output oe inp p src ((processing inp (payload b) src dst s)\<lparr>lw := l'\<rparr>); drop_pbuf p r })
    \<and> pb l' = pb (lw s) \<and> dom (pram l') = dom (pram (lw s))
    \<and> holds l' p as b (ip_hdr_bytes tos tot ident off ICMP_TTL IP_PROTO_ICMP ck' dst src @ icmp_bytes 0 code (icmp_adjust c) rest)
    \<and> inet_sum (ip_hdr_bytes tos tot ident off ICMP_TTL IP_PROTO_ICMP ck' dst src) = 0xFFFF
    \<and> inet_sum (icmp_bytes 0 code (icmp_adjust c) rest) = (if code = 0 \<and> set rest \<subseteq> {0} then 0 else 0xFFFF)"
proof -
  let ?t = "processing inp (payload b) src dst s"
  have tot: "unat tot = 20 + length (icmp_bytes 8 code c rest)" using sums(1) by (simp add: icmp_bytes_def)
  note i = ip_input_upper [OF h(1) _ tot sums(2) inp(1-3) sums(4) up(1)]
  have "ip_input ie p inp s = map_option (\<lambda>t. (ERR_OK, idle t)) (icmp_input m oe p inp ?t)"
    using i h(2) up(2) by (simp add: ip_upper_def processing_def IP_PROTO_ICMP_def IP_PROTO_UDP_def IP_PROTO_TCP_def)
  moreover have nm: "\<not> ip_addr_ismulticast dst" using inp(3) by (simp add: for_interface_def)
  have t: "lw ?t = lw s" "nifs ?t = nifs s" "current_iphdr_src ?t = src" "current_iphdr_dest ?t = dst" by (simp_all add: processing_def)
  note icmp_input_echo [of ?t p as b tos tot ident off ttl IP_PROTO_ICMP ck src dst code c rest inp n m oe, unfolded t,
      OF h room sums(3) inp(1) nm inp(4) refl refl]
  ultimately show ?thesis using icmp_adjust_ok [OF sums(3)] by metis
qed

section \<open>Properties\<close>

text \<open>C34. An unreachable message sets the MTU: a packet of type 3, whatever its code and its checksum and whatever host it
  comes from, sets the MTU of the interface to the number in its seventh and eighth byte unless that is 0.\<close>

theorem icmp_unreachable_sets_mtu:
  assumes "holds (lw s) p as b (ip_hdr_bytes tos tot ident off ttl proto ck src dst @ [3, code] @ xs @ be16b mtu @ rest)" "length xs = 4"
    and "28 \<le> unat (pb_len b)" "hides p b" "nifs s inp = Some n" "mtu \<noteq> 0"
  shows "\<exists>t. icmp_input m e p inp s = drop_pbuf p t \<and> nifs t inp = Some (n\<lparr>netif_mtu := mtu\<rparr>) \<and> packet (lw t) p (p # as)"
proof -
  have pk: "packet (lw s) p (p # as)" "readable (pram (lw s)) (pb (lw s)) (p # as)" "pb (lw s) p = Some b" "p \<noteq> NULL"
    using assms(1) by (auto simp: holds_def packet_def)
  have tl: "unat (pb_len b) \<le> unat (tot_len b)" using head_replaced(3) [OF pk(1,3)] by simp
  then have tot: "\<not> unat (tot_len b) - 20 < 4" "20 \<le> unat (pb_len b)" using assms(3) by simp_all
  define st where "st = (pb (lw s))(p \<mapsto> shorter 20 b)"
  note hh = hide_header [OF pk(1-3) assms(4) _ tot(2), folded st_def]
  have sh: "st p = Some (shorter 20 b)" "payload (shorter 20 b) = payload b + 20" by (simp_all add: st_def shorter_def)
  obtain w where w: "ld16 (pram (lw s)) (payload b) = Some w" "IPH_HL w = 5"
    using ip_input_version [OF assms(1) tot(2)] by (auto simp: nth_append ip_hdr_nth)
  have nth: "pram (lw s) (payload b + 20) = Some 3" "pram (lw s) (payload b + 26) = Some (ucast (drop_bit 8 mtu))"
      "pram (lw s) (payload b + 27) = Some (ucast mtu)"
    using holds_nth [OF assms(1), of 20] holds_nth [OF assms(1), of 26] holds_nth [OF assms(1), of 27] assms(2,3)
    by (simp_all add: nth_append be16b_def)
  let ?t = "s\<lparr>lw := (lw s)\<lparr>pb := st\<rparr>, nifs := (nifs s)(inp \<mapsto> n\<lparr>netif_mtu := mtu\<rparr>)\<rparr>"
  have "icmp_mtu (shorter 20 b) inp (s\<lparr>lw := (lw s)\<lparr>pb := st\<rparr>\<rparr>) = Some ?t"
    using nth(2,3) assms(5,6) join_bytes [of mtu] sh(2) fun_upd_idem [of "nifs s" inp "Some n"]
    by (cases "mtu = netif_mtu n") (auto simp: icmp_mtu_def Let_def add.commute)
  then have "icmp_input m e p inp s = drop_pbuf p ?t"
    using pk(3,4) w hh(1,7) sh tot nth(1) assms(4)
    by (simp add: icmp_input_def get_pb_def ICMP_ER_def ICMP_DUR_def Let_def)
  moreover have "packet (lw ?t) p (p # as)" using hh(2) by simp
  ultimately show ?thesis by (intro exI [of _ ?t]) simp
qed

section \<open>Examples\<close>

lemma headroom_less: "headroom m p b k \<Longrightarrow> j \<le> k \<Longrightarrow> headroom m p b j"
  using valid_range_sub [of m "payload b - k" k "k - j" j] by (auto simp: headroom_def)

definition demo_ping :: ip_env where
  "demo_ping = demo_ip\<lparr>i_up := \<lambda>_. icmp_input (\<lambda>_ l. (NULL, l)) demo_ip\<rparr>"

definition demo_request :: "u8 list" where
  "demo_request = ip_hdr_bytes 0 28 1 0 64 IP_PROTO_ICMP 36089 0x0200A8C0 0x0100A8C0 @ icmp_bytes 8 0 65015 [0, 1, 0, 1]"

lemma demo_request_sums:
  "inet_sum (ip_hdr_bytes 0 28 1 0 64 IP_PROTO_ICMP 36089 0x0200A8C0 0x0100A8C0) = 0xFFFF" "inet_sum (icmp_bytes 8 0 65015 [0, 1, 0, 1]) = 0xFFFF"
  by (simp_all add: inet_sum_def ones16_def ip_hdr_bytes_def addr_bytes_def be16b_def icmp_bytes_def IP_PROTO_ICMP_def)

lemma demo_request_holds:
  "holds (lw (demo_stack demo_request)) 100 [] (demo_buf 0 200 28 28 1) demo_request" "unat (pb_len (demo_buf 0 200 28 28 1)) = 28"
  "payload (demo_buf 0 200 28 28 1) = 200" "headroom (pram (lw (demo_stack demo_request))) 100 (demo_buf 0 200 28 28 1) 14"
  "hides 100 (demo_buf 0 200 28 28 1)"
proof -
  have n: "length demo_request = 28" by (simp add: demo_request_def icmp_bytes_def)
  then show h: "holds (lw (demo_stack demo_request)) 100 [] (demo_buf 0 200 28 28 1) demo_request" using demo_holds [of demo_request] by simp
  show "unat (pb_len (demo_buf 0 200 28 28 1)) = 28" "payload (demo_buf 0 200 28 28 1) = 200" "hides 100 (demo_buf 0 200 28 28 1)"
    by (simp_all add: demo_buf_def hides_def pbuf_types SIZEOF_STRUCT_PBUF_def EP_OFFSET_def)
  show "headroom (pram (lw (demo_stack demo_request))) 100 (demo_buf 0 200 28 28 1) 14"
    using demo_stack_packet(4) [of demo_request] n h headroom_less [of _ _ _ 28 14] by (simp add: holds_def)
qed

definition demo_unreach :: "u8 list" where
  "demo_unreach = ip_hdr_bytes 0 28 1 0 64 IP_PROTO_ICMP 36089 0x0200A8C0 0x0100A8C0 @ [3, 1] @ [0, 0, 0, 0] @ be16b 68 @ []"

theorem icmp_unreachable_sets_mtu_witness:
  "\<exists>t. icmp_input (\<lambda>_ l. (NULL, l)) demo_ip 100 40 (demo_stack demo_unreach) = drop_pbuf 100 t
    \<and> nifs t 40 = Some (demo_nif\<lparr>netif_mtu := 68\<rparr>)"
proof -
  have n: "nifs (demo_stack demo_unreach) 40 = Some demo_nif" by (simp add: demo_stack_def)
  have len: "length demo_unreach = 28" by (simp add: demo_unreach_def be16b_def)
  have d: "holds (lw (demo_stack demo_unreach)) 100 [] (demo_buf 0 200 28 28 1) demo_unreach" using demo_holds [of demo_unreach] len by simp
  have h: "holds (lw (demo_stack demo_unreach)) 100 [] (demo_buf 0 200 28 28 1)
      (ip_hdr_bytes 0 28 1 0 64 IP_PROTO_ICMP 36089 0x0200A8C0 0x0100A8C0 @ [3, 1] @ [0, 0, 0, 0] @ be16b 68 @ [])"
    using d by (simp only: demo_unreach_def [symmetric])
  have l: "28 \<le> unat (pb_len (demo_buf 0 200 28 28 1))" using demo_request_holds(2) by simp
  note u = icmp_unreachable_sets_mtu [OF h _ l demo_request_holds(5) n]
  show ?thesis using u by fastforce
qed

end
