(* ===== verification/Lwip_Etharp_Proofs.thy ===== *)
theory Lwip_Etharp_Proofs
  imports Lwip_Arp_Table Lwip_Icmp_Proofs
begin

text \<open>
  Frames: a packet for a known address leaves with the right Ethernet header; for an unknown one a request goes out and the
  answer releases the packet; a ping is answered from frame to frame.
\<close>

section \<open>Sending a frame\<close>

lemma dom_stored_valid:
  assumes "valid_range m a (length bs)"
  shows "dom (stored a bs m) = dom m"
proof -
  have "m x \<noteq> None" if "a \<le> x" "x < a + length bs" for x
    using assms that unfolding valid_range_iff by (metis add_diff_inverse_nat less_diff_conv2 add.commute not_le)
  then show ?thesis by (auto simp: stored_def dom_def)
qed

lemma put_bytes_holds:
  assumes "holds l p as b B" "outside (pb l) as (payload b) k" "k \<le> unat (pb_len b)" "i + length bs \<le> k"
  shows "\<exists>l'. put_bytes (payload b + i) bs l = Some l' \<and> pb l' = pb l \<and> dom (pram l') = dom (pram l)
    \<and> holds l' p as b (take i B @ bs @ drop (i + length bs) B)"
proof -
  have v: "valid_range (pram l) (payload b + i) (length bs)" using holds_valid [OF assms(1)] assms(3,4) by simp
  let ?l = "l\<lparr>pram := stored (payload b + i) bs (pram l)\<rparr>"
  have "put_bytes (payload b + i) bs l = Some ?l" using v by (simp add: put_bytes_def stored_def)
  moreover have "dom (stored (payload b + i) bs (pram l)) = dom (pram l)" using dom_stored_valid [OF v] .
  ultimately show ?thesis using holds_stored [OF assms(1), of i bs] outside_sub [OF assms(2), of i "length bs"] assms(3,4) by simp
qed

lemma etharp_send_ip_frame:
  assumes "holds (lw s) p as b (h @ B)" "length h = 14" "14 \<le> unat (pb_len b)" "outside (pb (lw s)) as (payload b) 14"
    and "length src = 6" "length dst = 6"
  shows "\<exists>l'. etharp_send_ip e netif p src dst s = a_link e netif p (s\<lparr>lw := l'\<rparr>) \<and> pb l' = pb (lw s)
    \<and> dom (pram l') = dom (pram (lw s)) \<and> holds l' p as b (dst @ src @ be16b ETHTYPE_IP @ B)"
proof -
  have p: "pb (lw s) p = Some b" "p \<noteq> NULL" using assms(1) by (auto simp: holds_def packet_def)
  obtain l1 where l1: "put_bytes (payload b) dst (lw s) = Some l1" "pb l1 = pb (lw s)" "dom (pram l1) = dom (pram (lw s))"
      "holds l1 p as b (dst @ drop 6 h @ B)"
    using put_bytes_holds [OF assms(1,4,3), of 0 dst] assms(2,6) by auto
  obtain l2 where l2: "put_bytes (payload b + 6) src l1 = Some l2" "pb l2 = pb (lw s)" "dom (pram l2) = dom (pram (lw s))"
      "holds l2 p as b (dst @ src @ drop 12 h @ B)"
    using put_bytes_holds [OF l1(4), of 14 6 src] assms(2-6) l1(2,3) by auto
  obtain l3 where l3: "put_field (payload b + 12) (htons ETHTYPE_IP) l2 = Some l3" "pb l3 = pb (lw s)"
      "holds l3 p as b (dst @ src @ be16b ETHTYPE_IP @ B)"
    using put16_holds [OF l2(4), of 14 12 "htons ETHTYPE_IP"] assms(2-6) l2(2) unfolding htons_bytes_list by auto
  have "dom (pram l3) = dom (pram (lw s))" using put_dom(2) [OF l3(1)] l2(3) by simp
  then show ?thesis using p l1(1) l2(1) l3 by (auto simp: etharp_send_ip_def get_pb_def)
qed

text \<open>A packet without link header: room is made for the header, then it is sent.\<close>

lemma reveal_eth:
  assumes "holds l p as b B" "headroom (pram l) p b 14"
  shows "\<exists>h. length h = 14 \<and> pbuf_header p 14 l = Some (0, l\<lparr>pb := (pb l)(p \<mapsto> longer 14 b)\<rparr>)
    \<and> holds (l\<lparr>pb := (pb l)(p \<mapsto> longer 14 b)\<rparr>) p as (longer 14 b) (h @ B) \<and> 14 \<le> unat (pb_len (longer 14 b))"
  using reveal_header [of l p as b 14] assms by (auto simp: holds_def)

lemma outside_head:
  assumes "outside (pb l) as d n" "p \<notin> set as"
  shows "outside ((pb l)(p \<mapsto> b)) as d n"
  using assms by (auto simp: outside_def plen_def)

lemma to_arp_index_fresh:
  assumes "arp_get i s = Some x" "arp_state x = ETHARP_STATE_STABLE_REREQUESTING \<or> arp_ctime x < ARP_AGE_REREQUEST_USED" "nifs s netif = Some n"
  shows "etharp_output_to_arp_index e netif q i s = etharp_send_ip e netif q (netif_hwaddr n) (arp_ethaddr x) s"
  using assms by (auto simp: etharp_output_to_arp_index_def)

text \<open>An entry that is used without asking again.\<close>

definition known :: "stack \<Rightarrow> u32 \<Rightarrow> u8 list \<Rightarrow> bool" where
  "known s a mac \<longleftrightarrow> length mac = 6 \<and> list_ex (\<lambda>x. resolved x \<and> arp_ipaddr x = a \<and> arp_ethaddr x = mac
     \<and> (arp_state x = ETHARP_STATE_STABLE_REREQUESTING \<or> arp_ctime x < ARP_AGE_REREQUEST_USED)) (arp_table s)"

lemma stable_loop_finds:
  assumes "j < length xs" "resolved (xs ! j)" "arp_ipaddr (xs ! j) = a" "\<And>k. k < length xs \<Longrightarrow> resolved (xs ! k) \<Longrightarrow> arp_ipaddr (xs ! k) = a \<Longrightarrow> k = j"
  shows "stable_loop a i xs = Some (i + j)"
  using assms
proof (induction xs arbitrary: i j)
  case (Cons x xs)
  show ?case
  proof (cases j)
    case 0
    then show ?thesis using Cons.prems by (simp add: resolved_def)
  next
    case (Suc k)
    then have "\<not> (resolved x \<and> arp_ipaddr x = a)" using Cons.prems(4) [of 0] by auto
    moreover have "stable_loop a (i + 1) xs = Some (i + 1 + k)"
    proof (rule Cons.IH)
      fix m assume "m < length xs" "resolved (xs ! m)" "arp_ipaddr (xs ! m) = a"
      then show "m = k" using Cons.prems(4) [of "Suc m"] Suc by simp
    qed (use Cons.prems Suc in auto)
    ultimately show ?thesis using Suc by (auto simp: resolved_def)
  qed
qed simp

lemma output_unicast_known:
  assumes "arp_ok s" "known s a mac" "nifs s netif = Some n"
  shows "\<exists>c. output_unicast e netif q a s = etharp_send_ip e netif q (netif_hwaddr n) mac (s\<lparr>etharp_cached_entry := c\<rparr>)"
proof -
  obtain i where i: "i < ARP_TABLE_SIZE" "resolved (arp_table s ! i)" "arp_ipaddr (arp_table s ! i) = a" "arp_ethaddr (arp_table s ! i) = mac"
      "arp_state (arp_table s ! i) = ETHARP_STATE_STABLE_REREQUESTING \<or> arp_ctime (arp_table s ! i) < ARP_AGE_REREQUEST_USED"
    using assms(1,2) by (auto simp: known_def list_ex_length arp_ok_def)
  have len: "length (arp_table s) = ARP_TABLE_SIZE" "unat (etharp_cached_entry s) < ARP_TABLE_SIZE" using assms(1) by (simp_all add: arp_ok_def)
  have uniq: "k = i" if "k < ARP_TABLE_SIZE" "resolved (arp_table s ! k)" "arp_ipaddr (arp_table s ! k) = a" for k
  proof -
    have "used (arp_table s ! k)" "used (arp_table s ! i)" using that i(2) kinds(1) by blast+
    then show ?thesis using assms(1) that i(1,3) by (auto simp: arp_ok_def unique_def)
  qed
  let ?c = "unat (etharp_cached_entry s)" and ?s = "s\<lparr>etharp_cached_entry := of_nat i\<rparr>"
  have x: "arp_get ?c s = Some (arp_table s ! ?c)" "arp_get i ?s = Some (arp_table s ! i)" using len i(1) by (simp_all add: arp_get_def)
  show ?thesis
  proof (cases "resolved (arp_table s ! ?c) \<and> arp_ipaddr (arp_table s ! ?c) = a")
    case True
    then have c: "?c = i" using uniq len by blast
    have "output_unicast e netif q a s = etharp_output_to_arp_index e netif q i s"
      using True x(1) c by (simp add: output_unicast_def resolved_def)
    also have "\<dots> = etharp_send_ip e netif q (netif_hwaddr n) mac (s\<lparr>etharp_cached_entry := etharp_cached_entry s\<rparr>)"
      using to_arp_index_fresh [OF _ i(5) assms(3)] x(1) c i(4) by simp
    finally show ?thesis by blast
  next
    case False
    have "stable_loop a 0 (arp_table s) = Some (0 + i)"
      by (rule stable_loop_finds [OF _ i(2,3)]) (use i(1) len(1) uniq in \<open>auto\<close>)
    then have "output_unicast e netif q a s = etharp_output_to_arp_index e netif q i ?s"
      using False x(1) by (auto simp: output_unicast_def resolved_def)
    also have "\<dots> = etharp_send_ip e netif q (netif_hwaddr n) mac ?s"
      using to_arp_index_fresh [OF x(2) i(5)] assms(3) i(4) by simp
    finally show ?thesis by blast
  qed
qed

lemma etharp_output_known:
  assumes "arp_ok s" "holds (lw s) p as b B" "headroom (pram (lw s)) p b 14" "outside (pb (lw s)) as (payload b - 14) 14"
    and "nifs s netif = Some n" "length (netif_hwaddr n) = 6" "ip4_addr_isbroadcast a n = 0" "\<not> ip_addr_ismulticast a"
    and "next_hop n a = Some hop" "known s hop mac"
  shows "\<exists>l' c. etharp_output e netif p a s = a_link e netif p (s\<lparr>etharp_cached_entry := c, lw := l'\<rparr>)
    \<and> holds l' p as (longer 14 b) (mac @ netif_hwaddr n @ be16b ETHTYPE_IP @ B)"
proof -
  define l where "l = (lw s)\<lparr>pb := (pb (lw s))(p \<mapsto> longer 14 b)\<rparr>"
  obtain h where h: "length h = 14" "pbuf_header p 14 (lw s) = Some (0, l)" "holds l p as (longer 14 b) (h @ B)" "14 \<le> unat (pb_len (longer 14 b))"
    using reveal_eth [OF assms(2,3)] unfolding l_def by blast
  have "p \<notin> set as" using path_distinct [of "pb (lw s)" p "p # as"] assms(2) by (auto simp: holds_def packet_def)
  then have o: "outside (pb l) as (payload (longer 14 b)) 14" using outside_head [OF assms(4)] by (simp add: l_def longer_def)
  let ?s = "s\<lparr>lw := l\<rparr>"
  have ok: "arp_ok ?s" using assms(1) arp_ok_part [of ?s s] by simp
  have kn: "known ?s hop mac" "length mac = 6" using assms(10) by (simp_all add: known_def)
  obtain c where c: "output_unicast e netif p hop ?s = etharp_send_ip e netif p (netif_hwaddr n) mac (?s\<lparr>etharp_cached_entry := c\<rparr>)"
    using output_unicast_known [OF ok kn(1), of netif n e p] assms(5) by auto
  have "etharp_output e netif p a s = output_unicast e netif p hop ?s"
    using h(2) assms(5,7-9) by (simp add: etharp_output_def SIZEOF_ETH_HDR_def)
  then show ?thesis using c etharp_send_ip_frame [of "?s\<lparr>etharp_cached_entry := c\<rparr>" p as "longer 14 b" h B "netif_hwaddr n" mac e netif] h o assms(6) kn(2)
    by auto
qed

section \<open>Learning from a packet\<close>

lemma send_queue_empty: "arp_get i s = Some x \<Longrightarrow> arp_q x = [] \<Longrightarrow> send_queue e netif i mac s = Some s"
  by (subst send_queue.simps) simp

lemma update_arp_entry_idle:
  assumes "arp_ok s" "nifs s netif = Some n" "\<not> not_unicast a n" "list_ex (\<lambda>x. used x \<and> arp_ipaddr x = a \<and> arp_q x = []) (arp_table s)" "length mac = 6"
  shows "\<exists>t. update_arp_entry e netif a mac fl s = Some (ERR_OK, s\<lparr>arp_table := t\<rparr>) \<and> arp_ok (s\<lparr>arp_table := t\<rparr>) \<and> known (s\<lparr>arp_table := t\<rparr>) a mac"
proof -
  obtain i where i: "i < ARP_TABLE_SIZE" "arp_q (arp_table s ! i) = []" "a = arp_ipaddr (arp_table s ! i)" "length (arp_table s) = ARP_TABLE_SIZE"
      and u: "used (arp_table s ! i)"
    using assms(1,4) by (auto simp: list_ex_length arp_ok_def)
  define x where "x = (arp_table s ! i)\<lparr>arp_state := ETHARP_STATE_STABLE, arp_ethaddr := mac, arp_ctime := 0\<rparr>"
  have q: "arp_q x = []" using i(2) by (simp add: x_def)
  have "entry_ok x" using arp_ok_entry [OF assms(1) i(1)] q by (simp add: x_def entry_ok_def ARP_MAXAGE_def)
  then have ok: "arp_ok (arp_put i x s)" using arp_ok_change [OF assms(1) _ i(1)] u by (simp add: x_def)
  have "arp_get i (arp_put i x s) = Some x" using i by (simp add: arp_get_put)
  then have "update_arp_entry e netif a mac fl s = Some (ERR_OK, arp_put i x s)"
    using assms(2,3) find_entry_listed [OF assms(1) i(1) u] i(1,3,4) send_queue_empty [OF _ q]
    by (simp add: update_arp_entry_def arp_get_def x_def)
  moreover have "known (arp_put i x s) a mac"
    unfolding known_def list_ex_length using i assms(5)
    by (intro conjI exI [of _ i]) (simp_all add: arp_put_def x_def resolved_def ARP_AGE_REREQUEST_USED_def ARP_MAXAGE_def)
  ultimately show ?thesis using ok by (auto simp: arp_put_def)
qed

lemma holds_bytes:
  assumes "holds l p as b B" "i + n \<le> unat (pb_len b)"
  shows "get_bytes l (payload b + i) n = Some (take n (drop i B))"
proof -
  have v: "valid_range (pram l) (payload b + i) n" using holds_valid [OF assms] .
  have "length B = unat (tot_len b)" "unat (pb_len b) \<le> unat (tot_len b)"
    using assms(1) head_replaced(3) [of l p as b] packet_bytes_length [of l p "p # as"] by (auto simp: holds_def packet_def total_len_def)
  then have "bytes_at (pram l) (payload b + i) n = take n (drop i B)"
    using assms holds_nth [OF assms(1)] by (intro nth_equalityI) (auto simp: add.assoc)
  then show ?thesis using v by (simp add: get_bytes_def)
qed

lemma holds_ld16:
  assumes "holds l p as b B" "i + 1 < unat (pb_len b)" "B ! i = ucast (drop_bit 8 v)" "B ! (i + 1) = ucast v"
  shows "ld16 (pram l) (payload b + i) = Some (htons v)"
proof -
  have "pram l (payload b + i) = Some (ucast (drop_bit 8 v))" "pram l (payload b + i + 1) = Some (ucast v)"
    using holds_nth [OF assms(1), of i] holds_nth [OF assms(1), of "i + 1"] assms(2-4) by (simp_all add: add.assoc)
  then show ?thesis using join_bytes [of "htons v"] by (simp add: ld16_def htons_high htons_low)
qed

text \<open>The frame of an IP packet from a neighbour that is in the table, with no packets waiting: the table is refreshed and the packet goes to IP.\<close>

lemma ethernet_input_ip:
  assumes ok: "arp_ok s" and h: "holds (lw s) p as b (dmac @ smac @ be16b ETHTYPE_IP @ B)" "34 \<le> unat (pb_len b)"
    and len: "length dmac = 6" "length smac = 6" and src: "take 4 (drop 12 B) = addr_bytes src"
    and room: "headroom (pram (lw s)) p b 0"
    and n: "nifs s netif = Some n" "netif \<noteq> NULL" "netif_flags n AND NETIF_FLAG_ETHARP \<noteq> 0" "on_net src n" "\<not> not_unicast src n"
    and kn: "list_ex (\<lambda>x. used x \<and> arp_ipaddr x = src \<and> arp_q x = []) (arp_table s)"
  shows "\<exists>t. let u = s\<lparr>arp_table := t, lw := (lw s)\<lparr>pb := (pb (lw s))(p \<mapsto> shorter 14 b)\<rparr>\<rparr>
    in ethernet_input e ie p netif s = map_option (\<lambda>(_, s). (ERR_OK, s)) (ip_input ie p netif u)
      \<and> arp_ok u \<and> known u src smac \<and> holds (lw u) p as (shorter 14 b) B \<and> headroom (pram (lw u)) p (shorter 14 b) 14
      \<and> unat (pb_len (shorter 14 b)) = unat (pb_len b) - 14"
proof -
  let ?F = "dmac @ smac @ be16b ETHTYPE_IP @ B"
  have pk: "packet (lw s) p (p # as)" "readable (pram (lw s)) (pb (lw s)) (p # as)" "pb (lw s) p = Some b" "p \<noteq> NULL" "packet_bytes (lw s) (p # as) = ?F"
    using h(1) by (auto simp: holds_def packet_def)
  have tl: "unat (pb_len b) \<le> unat (tot_len b)" using head_replaced(3) [OF pk(1,3)] by simp
  have lb: "20 \<le> length B"
    using packet_bytes_length [OF pk(1)] pk(3,5) h(2) len tl pk(1) by (auto simp: packet_def total_len_def plen_def be16b_def)
  have ty: "ld16 (pram (lw s)) (payload b + 12) = Some (htons ETHTYPE_IP)"
    by (rule holds_ld16 [OF h(1)]) (use h(2) len in \<open>auto simp: nth_append be16b_def\<close>)
  have "pram (lw s) (payload b + 26 + i) = Some (addr_bytes src ! i)" if "i < 4" for i
  proof -
    have "addr_bytes src ! i = B ! (12 + i)" using that lb unfolding src [symmetric] by simp
    then show ?thesis using holds_nth [OF h(1), of "26 + i"] that h(2) len by (simp add: nth_append be16b_def add.assoc)
  qed
  then have sa: "ld32 (pram (lw s)) (payload b + 26) = Some src" by (rule ld32_addr)
  have mac: "get_bytes (lw s) (payload b + 6) 6 = Some smac" using holds_bytes [OF h(1), of 6 6] h(2) len by simp
  obtain t where t: "update_arp_entry e netif src smac ETHARP_FLAG_FIND_ONLY s = Some (ERR_OK, s\<lparr>arp_table := t\<rparr>)"
      "arp_ok (s\<lparr>arp_table := t\<rparr>)" "known (s\<lparr>arp_table := t\<rparr>) src smac"
    using update_arp_entry_idle [OF ok n(1,5) kn len(2)] by blast
  have ip: "etharp_ip_input e netif p s = Some (s\<lparr>arp_table := t\<rparr>)"
    using n sa mac t(1) pk(3,4) by (simp add: etharp_ip_input_def get_pb_def SIZEOF_ETH_HDR_def ETHARP_HWADDR_LEN_def on_net_def add.assoc)
  have hd: "hides p b" "14 \<le> unat (pb_len b)" using room h(2) by (auto simp: hides_def headroom_def)
  note hh = hide_header [OF pk(1-3) hd(1) _ hd(2), simplified]
  define u where "u = s\<lparr>arp_table := t, lw := (lw s)\<lparr>pb := (pb (lw s))(p \<mapsto> shorter 14 b)\<rparr>\<rparr>"
  have "\<not> unat (pb_len b) \<le> SIZEOF_ETH_HDR" using h(2) by (simp add: SIZEOF_ETH_HDR_def)
  then have "ethernet_input e ie p netif s = map_option (\<lambda>(_, s). (ERR_OK, s)) (ip_input ie p netif u)"
    using pk(3,4) ty n(1,3) ip hh(1) by (cases "ip_input ie p netif u") (auto simp: ethernet_input_def get_pb_def SIZEOF_ETH_HDR_def u_def)
  moreover have "arp_ok u" "known u src smac"
    using t(2,3) arp_ok_part [of u "s\<lparr>arp_table := t\<rparr>"] by (simp_all add: u_def arp_part_def known_def)
  moreover have "holds (lw u) p as (shorter 14 b) B" using hh(2-4) pk(5) len by (simp add: u_def holds_def be16b_def)
  moreover have "headroom (pram (lw u)) p (shorter 14 b) 14"
  proof -
    have "(14 :: u16) \<le> tot_len b" using hd(2) tl by (simp add: word_le_nat_alt)
    then have "unat (tot_len b - 14) + 14 < 65536" using unsigned_less [of "tot_len b", where 'a = nat] hd(2) tl by (simp add: unat_sub)
    then show ?thesis using room holds_valid [OF h(1), of 0 14] hd(2) by (auto simp: headroom_def shorter_def u_def)
  qed
  ultimately show ?thesis using hh(6) unfolding u_def Let_def by blast
qed

section \<open>ARP messages\<close>

text \<open>The message of RFC 826 for Ethernet and IP, in its frame.\<close>

definition arp_bytes :: "u8 list \<Rightarrow> u8 list \<Rightarrow> u16 \<Rightarrow> u8 list \<Rightarrow> u32 \<Rightarrow> u8 list \<Rightarrow> u32 \<Rightarrow> u8 list" where
  "arp_bytes eth_dst eth_src op smac sip tmac tip = eth_dst @ eth_src @ be16b ETHTYPE_ARP @ be16b HWTYPE_ETHERNET @ be16b ETHTYPE_IP
     @ [6, 4] @ be16b op @ smac @ addr_bytes sip @ tmac @ addr_bytes tip"

lemma field_lengths [simp]: "length (be16b v) = 2" "length (addr_bytes x) = 4" "length ethbroadcast = 6" "length ethzero = 6"
  by (simp_all add: be16b_def addr_bytes_def ethbroadcast_def ethzero_def)

lemma slice_nth: "k + n \<le> length B \<Longrightarrow> i < n \<Longrightarrow> take n (drop k B) ! i = B ! (k + i)"
  by simp

lemma arp_message:
  assumes h: "holds l p as b (arp_bytes ed es op smac sip tmac tip @ rest)" "42 \<le> unat (pb_len b)"
    and len: "length ed = 6" "length es = 6" "length smac = 6" "length tmac = 6"
  shows "arp_valid (payload b) l = Some True" "ld32 (pram l) (payload b + 28) = Some sip" "ld32 (pram l) (payload b + 38) = Some tip"
    "get_bytes l (payload b + 22) 6 = Some smac" "ld16 (pram l) (payload b + 20) = Some (htons op)"
proof -
  let ?B = "arp_bytes ed es op smac sip tmac tip @ rest"
  note eqs = arp_bytes_def be16b_def addr_bytes_def nth_append
  have f: "ld16 (pram l) (payload b + i) = Some (htons v)"
    if "i + 1 < 42" "?B ! i = ucast (drop_bit 8 v)" "?B ! (i + 1) = ucast v" for i v
    using holds_ld16 [OF h(1) _ that(2,3)] that(1) h(2) by simp
  have t: "ld16 (pram l) (payload b + 14) = Some (htons HWTYPE_ETHERNET)" "ld16 (pram l) (payload b + 16) = Some (htons ETHTYPE_IP)"
      "ld16 (pram l) (payload b + 12) = Some (htons ETHTYPE_ARP)"
    by (rule f; simp add: eqs len)+
  show "ld16 (pram l) (payload b + 20) = Some (htons op)" by (rule f) (simp_all add: eqs len)
  have "pram l (payload b + 18) = Some 6" "pram l (payload b + 19) = Some 4"
    using holds_nth [OF h(1), of 18] holds_nth [OF h(1), of 19] h(2) len by (simp_all add: eqs)
  then show "arp_valid (payload b) l = Some True" using t by (simp add: arp_valid_def ETHARP_HWADDR_LEN_def)
  show "get_bytes l (payload b + 22) 6 = Some smac"
    using holds_bytes [OF h(1), of 22 6] h(2) len by (simp add: arp_bytes_def be16b_def)
  have ip: "pram l (payload b + k + i) = Some (addr_bytes a ! i)"
    if "i < 4" "k + 4 \<le> 42" "take 4 (drop k ?B) = addr_bytes a" for i k a
  proof -
    have "42 \<le> length ?B" using len by (simp add: arp_bytes_def)
    then have "take 4 (drop k ?B) ! i = ?B ! (k + i)" using that(1,2) slice_nth [of k 4 ?B i] by (meson le_trans)
    then have "addr_bytes a ! i = ?B ! (k + i)" using that(3) by simp
    then show ?thesis using holds_nth [OF h(1), of "k + i"] that(1,2) h(2) by (simp add: add.assoc)
  qed
  have d: "take 4 (drop 28 ?B) = addr_bytes sip" "take 4 (drop 38 ?B) = addr_bytes tip"
    by (simp_all add: arp_bytes_def be16b_def addr_bytes_def len)
  show "ld32 (pram l) (payload b + 28) = Some sip" by (rule ld32_addr, rule ip) (use d in simp_all)
  show "ld32 (pram l) (payload b + 38) = Some tip" by (rule ld32_addr, rule ip) (use d in simp_all)
qed

text \<open>The request.\<close>

lemma arp_fields:
  assumes "length B = 42"
  shows "\<exists>ed es ty hw pr x y oc sm si tm ti. B = ed @ es @ ty @ hw @ pr @ [x, y] @ oc @ sm @ si @ tm @ ti
    \<and> length ed = 6 \<and> length es = 6 \<and> length ty = 2 \<and> length hw = 2 \<and> length pr = 2 \<and> length oc = 2 \<and> length sm = 6 \<and> length si = 4
    \<and> length tm = 6 \<and> length ti = 4"
proof -
  let ?f = "\<lambda>i n. take n (drop i B)"
  have c: "?f i n @ ?f (i + n) k = ?f i (n + k)" for i n k by (metis add.commute drop_drop take_add)
  have two: "?f 18 2 = [B ! 18, B ! 19]" using assms by (intro nth_equalityI) (auto simp: less_Suc_eq numeral_2_eq_2)
  have "?f 0 6 @ ?f 6 6 @ ?f 12 2 @ ?f 14 2 @ ?f 16 2 @ ?f 18 2 @ ?f 20 2 @ ?f 22 6 @ ?f 28 4 @ ?f 32 6 @ ?f 38 4 = B"
    using assms c [of 6 32 4] c [of 4 28 10] c [of 6 22 14] c [of 2 20 20] c [of 2 18 22] c [of 2 16 24] c [of 2 14 26] c [of 2 12 28] c [of 6 6 30] c [of 6 0 36]
    by simp
  then show ?thesis unfolding two using assms
    by (intro exI conjI) (erule sym, simp_all)
qed

lemma etharp_request_frame:
  assumes "pbuf_alloc (a_malloc e) PBUF_RAW 42 PBUF_RAM (lw s) = Some (p, l)" "holds l p [] b B" "unat (pb_len b) = 42" "length B = 42"
    and "nifs s netif = Some n" "length (netif_hwaddr n) = 6"
  shows "\<exists>l'. etharp_request e netif a s = do { (r, s) \<leftarrow> a_link e netif p (s\<lparr>lw := l'\<rparr>); s \<leftarrow> drop_pbuf p s; Some (r, s) }
    \<and> holds l' p [] b (arp_bytes ethbroadcast (netif_hwaddr n) ARP_REQUEST (netif_hwaddr n) (netif_ip_addr n) ethzero a)"
proof -
  let ?hw = "netif_hwaddr n" and ?ip = "netif_ip_addr n"
  have p: "pb l p = Some b" "p \<noteq> NULL" using assms(2) by (auto simp: holds_def packet_def)
  have o: "outside st [] x y" for st x y by (simp add: outside_def)
  have k: "42 \<le> unat (pb_len b)" using assms(3) by simp
  note w16 = put16_holds [OF _ o k] and w8 = put8_holds [OF _ o k] and w32 = put32_holds [OF _ o k] and wb = put_bytes_holds [OF _ o k]
  obtain ed es ty hw pr x y oc sm si tm ti where f: "B = ed @ es @ ty @ hw @ pr @ [x, y] @ oc @ sm @ si @ tm @ ti"
      "length ed = 6" "length es = 6" "length ty = 2" "length hw = 2" "length pr = 2" "length oc = 2" "length sm = 6" "length si = 4" "length tm = 6" "length ti = 4"
    using arp_fields [OF assms(4)] by blast
  note h = assms(2) [unfolded f(1)]
  obtain l1 where l1: "put_field (payload b + 20) (htons ARP_REQUEST) l = Some l1" "pb l1 = pb l"
      "holds l1 p [] b (ed @ es @ ty @ hw @ pr @ [x, y] @ be16b ARP_REQUEST @ sm @ si @ tm @ ti)"
    using w16 [OF h, of 20 "htons ARP_REQUEST"] f(2-) unfolding htons_bytes_list by auto
  obtain l2 where l2: "put_bytes (payload b + 22) ?hw l1 = Some l2" "pb l2 = pb l"
      "holds l2 p [] b (ed @ es @ ty @ hw @ pr @ [x, y] @ be16b ARP_REQUEST @ ?hw @ si @ tm @ ti)"
    using wb [OF l1(3), of 22 ?hw] l1(2) f(2-) assms(6) by auto
  obtain l3 where l3: "put_bytes (payload b + 32) ethzero l2 = Some l3" "pb l3 = pb l"
      "holds l3 p [] b (ed @ es @ ty @ hw @ pr @ [x, y] @ be16b ARP_REQUEST @ ?hw @ si @ ethzero @ ti)"
    using wb [OF l2(3), of 32 ethzero] l2(2) f(2-) assms(6) by auto
  obtain l4 where l4: "put_bytes (payload b) ethbroadcast l3 = Some l4" "pb l4 = pb l"
      "holds l4 p [] b (ethbroadcast @ es @ ty @ hw @ pr @ [x, y] @ be16b ARP_REQUEST @ ?hw @ si @ ethzero @ ti)"
    using wb [OF l3(3), of 0 ethbroadcast] l3(2) f(2-) assms(6) by auto
  obtain l5 where l5: "put_bytes (payload b + 6) ?hw l4 = Some l5" "pb l5 = pb l"
      "holds l5 p [] b (ethbroadcast @ ?hw @ ty @ hw @ pr @ [x, y] @ be16b ARP_REQUEST @ ?hw @ si @ ethzero @ ti)"
    using wb [OF l4(3), of 6 ?hw] l4(2) f(2-) assms(6) by auto
  obtain l6 where l6: "put32 (payload b + 28) ?ip l5 = Some l6" "pb l6 = pb l"
      "holds l6 p [] b (ethbroadcast @ ?hw @ ty @ hw @ pr @ [x, y] @ be16b ARP_REQUEST @ ?hw @ addr_bytes ?ip @ ethzero @ ti)"
    using w32 [OF l5(3), of 28 ?ip] l5(2) f(2-) assms(6) by auto
  obtain l7 where l7: "put32 (payload b + 38) a l6 = Some l7" "pb l7 = pb l"
      "holds l7 p [] b (ethbroadcast @ ?hw @ ty @ hw @ pr @ [x, y] @ be16b ARP_REQUEST @ ?hw @ addr_bytes ?ip @ ethzero @ addr_bytes a)"
    using w32 [OF l6(3), of 38 a] l6(2) f(2-) assms(6) by auto
  obtain l8 where l8: "put_field (payload b + 14) (htons HWTYPE_ETHERNET) l7 = Some l8" "pb l8 = pb l"
      "holds l8 p [] b (ethbroadcast @ ?hw @ ty @ be16b HWTYPE_ETHERNET @ pr @ [x, y] @ be16b ARP_REQUEST @ ?hw @ addr_bytes ?ip @ ethzero @ addr_bytes a)"
    using w16 [OF l7(3), of 14 "htons HWTYPE_ETHERNET"] l7(2) f(2-) assms(6) unfolding htons_bytes_list by auto
  obtain l9 where l9: "put_field (payload b + 16) (htons ETHTYPE_IP) l8 = Some l9" "pb l9 = pb l"
      "holds l9 p [] b (ethbroadcast @ ?hw @ ty @ be16b HWTYPE_ETHERNET @ be16b ETHTYPE_IP @ [x, y] @ be16b ARP_REQUEST @ ?hw @ addr_bytes ?ip @ ethzero @ addr_bytes a)"
    using w16 [OF l8(3), of 16 "htons ETHTYPE_IP"] l8(2) f(2-) assms(6) unfolding htons_bytes_list by auto
  obtain l10 where l10: "put8 (payload b + 18) 6 l9 = Some l10" "pb l10 = pb l"
      "holds l10 p [] b (ethbroadcast @ ?hw @ ty @ be16b HWTYPE_ETHERNET @ be16b ETHTYPE_IP @ [6, y] @ be16b ARP_REQUEST @ ?hw @ addr_bytes ?ip @ ethzero @ addr_bytes a)"
    using w8 [OF l9(3), of 18 6] l9(2) f(2-) assms(6) by auto
  obtain l11 where l11: "put8 (payload b + 19) 4 l10 = Some l11" "pb l11 = pb l"
      "holds l11 p [] b (ethbroadcast @ ?hw @ ty @ be16b HWTYPE_ETHERNET @ be16b ETHTYPE_IP @ [6, 4] @ be16b ARP_REQUEST @ ?hw @ addr_bytes ?ip @ ethzero @ addr_bytes a)"
    using w8 [OF l10(3), of 19 4] l10(2) f(2-) assms(6) by auto
  obtain l12 where l12: "put_field (payload b + 12) (htons ETHTYPE_ARP) l11 = Some l12" "pb l12 = pb l"
      "holds l12 p [] b (arp_bytes ethbroadcast ?hw ARP_REQUEST ?hw ?ip ethzero a)"
    using w16 [OF l11(3), of 12 "htons ETHTYPE_ARP"] l11(2) f(2-) assms(6) unfolding htons_bytes_list arp_bytes_def by auto
  have "etharp_request e netif a s = do { (r, s) \<leftarrow> a_link e netif p (s\<lparr>lw := l12\<rparr>); s \<leftarrow> drop_pbuf p s; Some (r, s) }"
    using assms(1,5) p l1(1) l2(1) l3(1) l4(1) l5(1) l6(1) l7(1) l8(1) l9(1) l10(1) l11(1) l12(1)
    by (simp add: etharp_request_def etharp_raw_def get_pb_def SIZEOF_ETHARP_PACKET_def SIZEOF_ETH_HDR_def SIZEOF_ETHARP_HDR_def ETHARP_HWADDR_LEN_def)
  then show ?thesis using l12(3) by blast
qed

text \<open>The answer over the request.\<close>

lemma MEMCPY_holds:
  assumes "holds l p as b B" "outside (pb l) as (payload b) k" "k \<le> unat (pb_len b)" "i + unat m \<le> k" "j + unat m \<le> k" "i + unat m \<le> j \<or> j + unat m \<le> i"
  shows "\<exists>l'. MEMCPY (payload b + i) (payload b + j) m l = Some l' \<and> pb l' = pb l \<and> holds l' p as b (take i B @ take (unat m) (drop j B) @ drop (i + unat m) B)"
proof -
  have v: "valid_range (pram l) (payload b + i) (unat m)" "valid_range (pram l) (payload b + j) (unat m)" using holds_valid [OF assms(1)] assms(3-5) by simp_all
  have d: "disjoint_ranges (payload b + i) (unat m) (payload b + j) (unat m)" using assms(6) by (auto simp: disjoint_ranges_def)
  have g: "bytes_at (pram l) (payload b + j) (unat m) = take (unat m) (drop j B)"
    using holds_bytes [OF assms(1), of j "unat m"] v(2) assms(3,5) by (simp add: get_bytes_def)
  have n: "length (take (unat m) (drop j B)) = unat m" unfolding g [symmetric] by simp
  show ?thesis using MEMCPY_stored [OF v d] holds_stored [OF assms(1), of i "take (unat m) (drop j B)"] outside_sub [OF assms(2,4)] assms(3,4)
    unfolding g n by simp
qed

lemma arp_answer_writes:
  assumes "holds l p as b (arp_bytes ed es op smac sip tmac tip @ rest)" "outside (pb l) as (payload b) 42" "42 \<le> unat (pb_len b)"
    and len: "length ed = 6" "length es = 6" "length smac = 6" "length tmac = 6" "length hw = 6"
  shows "\<exists>l'. arp_answer (payload b) ip hw l = Some l' \<and> pb l' = pb l \<and> holds l' p as b (arp_bytes smac hw ARP_REPLY hw ip smac sip @ rest)"
proof -
  let ?t = "be16b ETHTYPE_ARP @ be16b HWTYPE_ETHERNET @ be16b ETHTYPE_IP @ [6, 4]" and ?op = "be16b ARP_REPLY"
  have t: "length ?t = 8" by simp
  note h = assms(1) [unfolded arp_bytes_def]
  have six: "unat (of_nat ETHARP_HWADDR_LEN :: u16) = 6" by (simp add: ETHARP_HWADDR_LEN_def)
  obtain l1 where l1: "put_field (payload b + 20) (htons ARP_REPLY) l = Some l1" "pb l1 = pb l"
      "holds l1 p as b (ed @ es @ ?t @ ?op @ smac @ addr_bytes sip @ tmac @ addr_bytes tip @ rest)"
    using put16_holds [OF h assms(2,3), of 20 "htons ARP_REPLY"] len unfolding htons_bytes_list by auto
  obtain l2 where l2: "MEMCPY (payload b + 38) (payload b + 28) 4 l1 = Some l2" "pb l2 = pb l"
      "holds l2 p as b (ed @ es @ ?t @ ?op @ smac @ addr_bytes sip @ tmac @ addr_bytes sip @ rest)"
    using MEMCPY_holds [OF l1(3), of 42 38 4 28] l1(2) assms(2,3) len by auto
  obtain l3 where l3: "put32 (payload b + 28) ip l2 = Some l3" "pb l3 = pb l"
      "holds l3 p as b (ed @ es @ ?t @ ?op @ smac @ addr_bytes ip @ tmac @ addr_bytes sip @ rest)"
    using put32_holds [OF l2(3), of 42 28 ip] l2(2) assms(2,3) len by auto
  obtain l4 where l4: "MEMCPY (payload b + 32) (payload b + 22) (of_nat ETHARP_HWADDR_LEN) l3 = Some l4" "pb l4 = pb l"
      "holds l4 p as b (ed @ es @ ?t @ ?op @ smac @ addr_bytes ip @ smac @ addr_bytes sip @ rest)"
    using MEMCPY_holds [OF l3(3), of 42 32 "of_nat ETHARP_HWADDR_LEN" 22, unfolded six] l3(2) assms(2,3) len by auto
  obtain l5 where l5: "MEMCPY (payload b) (payload b + 22) (of_nat ETHARP_HWADDR_LEN) l4 = Some l5" "pb l5 = pb l"
      "holds l5 p as b (smac @ es @ ?t @ ?op @ smac @ addr_bytes ip @ smac @ addr_bytes sip @ rest)"
    using MEMCPY_holds [OF l4(3), of 42 0 "of_nat ETHARP_HWADDR_LEN" 22, unfolded six] l4(2) assms(2,3) len by auto
  obtain l6 where l6: "put_bytes (payload b + 22) hw l5 = Some l6" "pb l6 = pb l"
      "holds l6 p as b (smac @ es @ ?t @ ?op @ hw @ addr_bytes ip @ smac @ addr_bytes sip @ rest)"
    using put_bytes_holds [OF l5(3), of 42 22 hw] l5(2) assms(2,3) len by auto
  obtain l7 where l7: "put_bytes (payload b + 6) hw l6 = Some l7" "pb l7 = pb l"
      "holds l7 p as b (smac @ hw @ ?t @ ?op @ hw @ addr_bytes ip @ smac @ addr_bytes sip @ rest)"
    using put_bytes_holds [OF l6(3), of 42 6 hw] l6(2) assms(2,3) len by auto
  have "arp_answer (payload b) ip hw l = Some l7"
    using l1(1) l2(1) l3(1) l4(1) l5(1) l6(1) l7(1) by (simp add: arp_answer_def)
  then show ?thesis using l7(2,3) by (auto simp: arp_bytes_def)
qed

text \<open>What is relied on of the heap: for \<open>k\<close> bytes it gives the aligned block \<open>q\<close>, which no buffer is in, and touches nothing else.\<close>

definition free_block :: "malloc \<Rightarrow> nat \<Rightarrow> ptr \<Rightarrow> lwip \<Rightarrow> bool" where
  "free_block mem_malloc k q l \<longleftrightarrow> q \<noteq> NULL \<and> 4 dvd q \<and> pb l q = None
     \<and> (\<exists>b l1. mem_malloc k l = (q, l1) \<and> pb l1 = (pb l)(q \<mapsto> b)
          \<and> (\<forall>a. a < q \<or> q + k \<le> a \<longrightarrow> pram l1 a = pram l a) \<and> valid_range (pram l1) q k)"

text \<open>The heap block of a packet of \<open>n\<close> bytes without headers in front.\<close>

definition raw_block :: "nat \<Rightarrow> nat" where
  "raw_block n = LWIP_MEM_ALIGN_SIZE (SIZEOF_STRUCT_PBUF + EP_OFFSET) + LWIP_MEM_ALIGN_SIZE n"

lemma pbuf_alloc_raw:
  assumes "free_block ml (raw_block (unat n)) q l"
  shows "\<exists>l1 c. pbuf_alloc ml PBUF_RAW n PBUF_RAM l = Some (q, l1) \<and> pb l1 = (pb l)(q \<mapsto> c) \<and> payload c = q + 56
    \<and> pb_len c = n \<and> tot_len c = n \<and> pb_next c = NULL \<and> sole (pb l1) q \<and> valid_range (pram l1) (q + 56) (unat n)
    \<and> (\<forall>a. a < q \<or> q + raw_block (unat n) \<le> a \<longrightarrow> pram l1 a = pram l a)"
proof -
  obtain b l1 where m: "ml (raw_block (unat n)) l = (q, l1)" "pb l1 = (pb l)(q \<mapsto> b)" "valid_range (pram l1) q (raw_block (unat n))"
      "\<forall>a. a < q \<or> q + raw_block (unat n) \<le> a \<longrightarrow> pram l1 a = pram l a" and q: "q \<noteq> NULL" "4 dvd q"
    using assms by (auto simp: free_block_def)
  have a: "LWIP_MEM_ALIGN (q + SIZEOF_STRUCT_PBUF + EP_OFFSET) = q + 56"
    using q(2) by (auto simp: LWIP_MEM_ALIGN_def SIZEOF_STRUCT_PBUF_def EP_OFFSET_def)
  have "56 + unat n \<le> raw_block (unat n)" by (simp add: raw_block_def LWIP_MEM_ALIGN_SIZE_def SIZEOF_STRUCT_PBUF_def EP_OFFSET_def)
  then have "valid_range (pram l1) (q + 56) (unat n)" using valid_range_sub [OF m(3), of 56 "unat n"] by simp
  moreover define c where "c = b\<lparr>payload := q + 56, tot_len := n, pb_len := n, pb_next := NULL, pb_type := PBUF_RAM, pb_eb := NULL,
    pb_ref := 1, pb_flags := 0\<rparr>"
  have "pbuf_alloc ml PBUF_RAW n PBUF_RAM l = Some (q, l1\<lparr>pb := (pb l)(q \<mapsto> c)\<rparr>)"
    using m(1,2) q(1) a
    by (simp add: pbuf_alloc_def pbuf_alloc_ram_def pbuf_types layer_offset_def raw_block_def get_pb_def put_pb_def c_def)
  ultimately show ?thesis using m(4) by (intro exI [of _ "l1\<lparr>pb := (pb l)(q \<mapsto> c)\<rparr>"] exI [of _ c]) (simp add: c_def sole_def)
qed

text \<open>The copy that is sent, of a packet in one buffer.\<close>

lemma arp_send_copy_sends:
  assumes h: "holds (lw s) p [] b B" and m: "free_block (a_malloc e) (raw_block (unat (pb_len b))) q (lw s)"
    and d: "disjoint_ranges q (raw_block (unat (pb_len b))) (payload b) (unat (pb_len b))"
  shows "\<exists>l. arp_send_copy e netif p s = do { (_, r) \<leftarrow> a_link e netif q (s\<lparr>lw := l\<rparr>); drop_pbuf q r }
    \<and> packet l q [q] \<and> packet_bytes l [q] = B"
proof -
  let ?n = "unat (pb_len b)"
  have p: "pb (lw s) p = Some b" "p \<noteq> NULL" "pb_next b = NULL" "tot_len b = pb_len b" "valid_range (pram (lw s)) (payload b) ?n"
      "bytes_at (pram (lw s)) (payload b) ?n = B"
    using h by (auto simp: holds_def packet_def plen_def readable_def pbuf_valid_def packet_bytes_def pbuf_bytes_def word_unat_eq_iff)
  have q: "q \<noteq> NULL" "p \<noteq> q" using m p(1) by (auto simp: free_block_def)
  obtain l1 c where l1: "pbuf_alloc (a_malloc e) PBUF_RAW (pb_len b) PBUF_RAM (lw s) = Some (q, l1)" "pb l1 = (pb (lw s))(q \<mapsto> c)"
      "payload c = q + 56" "pb_len c = pb_len b" "tot_len c = pb_len b" "pb_next c = NULL" "valid_range (pram l1) (q + 56) ?n"
      "\<forall>a. a < q \<or> q + raw_block ?n \<le> a \<longrightarrow> pram l1 a = pram (lw s) a"
    using pbuf_alloc_raw [OF m] by blast
  have "56 + ?n \<le> raw_block ?n" by (simp add: raw_block_def LWIP_MEM_ALIGN_SIZE_def SIZEOF_STRUCT_PBUF_def EP_OFFSET_def)
  then have apart: "disjoint_ranges (q + 56) ?n (payload b) ?n" using disjoint_ranges_sub [OF d, of 56 ?n 0 ?n] by simp
  have same: "pram l1 (payload b + i) = pram (lw s) (payload b + i)" if "i < ?n" for i
    using l1(8) d that by (auto simp: disjoint_ranges_def)
  have src: "valid_range (pram l1) (payload b) ?n" "bytes_at (pram l1) (payload b) ?n = B"
    using p(5,6) same bytes_at_cong [of ?n "pram l1" "payload b" "pram (lw s)" "payload b"] by (simp_all add: valid_range_iff)
  let ?l = "l1\<lparr>pram := stored (q + 56) B (pram l1)\<rparr>"
  have cp: "MEMCPY (q + 56) (payload b) (pb_len b) l1 = Some ?l" using MEMCPY_stored [OF l1(7) src(1) apart] src(2) by simp
  have "copy_loop q 0 p 0 l1 = Some (ERR_OK, ?l)"
    using q p(1-3) l1(2-4,6) cp by (subst copy_loop.simps) (simp add: get_pb_def queue_follows_def Let_def)
  then have "pbuf_copy q p l1 = Some (ERR_OK, ?l)"
    using q p(1,2,4) l1(2,5) by (simp add: pbuf_copy_def get_pb_def)
  then have "arp_send_copy e netif p s = do { (_, r) \<leftarrow> a_link e netif q (s\<lparr>lw := ?l\<rparr>); drop_pbuf q r }"
    using p(1,2,4) q(1) l1(1) by (simp add: arp_send_copy_def get_pb_def)
  moreover have "length B = ?n" using p(6) by auto
  then have "packet ?l q [q]" "packet_bytes ?l [q] = B"
    using l1 q(1) bytes_at_stored_same [of "q + 56" B "pram l1"]
    by (simp_all add: packet_def plen_def packet_bytes_def pbuf_bytes_def)
  ultimately show ?thesis by blast
qed

lemma arp_input_start:
  assumes h: "holds (lw s) p as b (arp_bytes ed es op smac sip tmac tip @ rest)" "42 \<le> unat (pb_len b)"
    and len: "length ed = 6" "length es = 6" "length smac = 6" "length tmac = 6" and n: "nifs s netif = Some n" "netif \<noteq> NULL"
  defines "for_us \<equiv> \<not> ip_addr_isany (netif_ip_addr n) \<and> tip = netif_ip_addr n"
  shows "etharp_arp_input e netif hw p s =
    do { (_, s) \<leftarrow> update_arp_entry e netif sip smac (if for_us then ETHARP_FLAG_TRY_HARD else ETHARP_FLAG_FIND_ONLY) s;
         s \<leftarrow> arp_act e netif hw p (payload b) for_us sip s;
         drop_pbuf p s }"
proof -
  have "pb (lw s) p = Some b" "p \<noteq> NULL" using h(1) by (auto simp: holds_def packet_def)
  moreover have "\<not> unat (pb_len b) < SIZEOF_ETHARP_PACKET" using h(2) by (simp add: SIZEOF_ETHARP_PACKET_def SIZEOF_ETH_HDR_def SIZEOF_ETHARP_HDR_def)
  moreover have "(if ip_addr_isany (netif_ip_addr n) then False else tip = netif_ip_addr n) = for_us" by (simp add: for_us_def)
  ultimately show ?thesis using arp_message [OF h len] n by (simp add: etharp_arp_input_def get_pb_def ETHARP_HWADDR_LEN_def Let_def)
qed

section \<open>Properties\<close>

text \<open>C38. Ping, from frame to frame: an intact echo request from a neighbour that is in the table and has no packets waiting, for the address of the
  interface, makes the driver send one frame, to the hardware address the request came from: with the addresses exchanged,
  a full time to live and right checksums, and with identifier, sequence number and data unchanged. Then the packet is
  freed. The one exception is a request of nothing but zeros, whose answer has a checksum that a receiver refuses.\<close>

theorem ping_over_ethernet:
  assumes reach: "quiet e" "arp_reach e s"
    and frame: "holds (lw s) p as b (dmac @ smac @ be16b ETHTYPE_IP @ ip_hdr_bytes tos tot ident off ttl IP_PROTO_ICMP ck src dst @ icmp_bytes 8 code c rest)"
      "42 \<le> unat (pb_len b)" "length dmac = 6" "length smac = 6"
    and room: "headroom (pram (lw s)) p b 0" "outside (pb (lw s)) as (payload b) 38"
    and sums: "unat tot = 24 + length rest" "inet_sum (ip_hdr_bytes tos tot ident off ttl IP_PROTO_ICMP ck src dst) = 0xFFFF"
      "inet_sum (icmp_bytes 8 code c rest) = 0xFFFF" "off AND (IP_OFFMASK OR IP_MF) = 0"
    and n: "nifs s netif = Some n" "netif \<noteq> NULL" "netif_flags n AND NETIF_FLAG_ETHARP \<noteq> 0" "length (netif_hwaddr n) = 6"
    and addr: "for_interface n src dst" "ip4_addr_isbroadcast dst n = 0" "on_net src n" "\<not> ip_addr_isany src"
      "list_ex (\<lambda>x. used x \<and> arp_ipaddr x = src \<and> arp_q x = []) (arp_table s)"
    and ie: "i_raw ie = (\<lambda>_ _ t. Some (False, t))" "i_up ie Icmp_input = icmp_input m oe" "i_output oe = etharp_output e"
  shows "\<exists>u ck'. ethernet_input e ie p netif s = map_option (\<lambda>t. (ERR_OK, idle t)) (do { (_, r) \<leftarrow> a_link e netif p u; drop_pbuf p r })
    \<and> packet (lw u) p (p # as)
    \<and> packet_bytes (lw u) (p # as) = smac @ netif_hwaddr n @ be16b ETHTYPE_IP
         @ ip_hdr_bytes tos tot ident off ICMP_TTL IP_PROTO_ICMP ck' dst src @ icmp_bytes 0 code (icmp_adjust c) rest
    \<and> inet_sum (ip_hdr_bytes tos tot ident off ICMP_TTL IP_PROTO_ICMP ck' dst src) = 0xFFFF
    \<and> inet_sum (icmp_bytes 0 code (icmp_adjust c) rest) = (if code = 0 \<and> set rest \<subseteq> {0} then 0 else 0xFFFF)"
proof -
  let ?B = "ip_hdr_bytes tos tot ident off ttl IP_PROTO_ICMP ck src dst @ icmp_bytes 8 code c rest"
  have uni: "\<not> not_unicast src n" "ip4_addr_isbroadcast src n = 0" "\<not> ip_addr_ismulticast src"
    using addr(1,4) by (auto simp: for_interface_def bad_source_def not_unicast_def)
  have src: "take 4 (drop 12 ?B) = addr_bytes src" by (simp add: ip_hdr_bytes_def be16b_def addr_bytes_def)
  have l34: "34 \<le> unat (pb_len b)" using frame(2) by simp
  obtain t where t: "let u = s\<lparr>arp_table := t, lw := (lw s)\<lparr>pb := (pb (lw s))(p \<mapsto> shorter 14 b)\<rparr>\<rparr>
    in ethernet_input e ie p netif s = map_option (\<lambda>(_, s). (ERR_OK, s)) (ip_input ie p netif u)
      \<and> arp_ok u \<and> known u src smac \<and> holds (lw u) p as (shorter 14 b) ?B \<and> headroom (pram (lw u)) p (shorter 14 b) 14
      \<and> unat (pb_len (shorter 14 b)) = unat (pb_len b) - 14"
    using ethernet_input_ip [OF arp_reach_ok [OF reach(2,1)] frame(1) l34 frame(3,4) src room(1) n(1-3) addr(3) uni(1) addr(5)] by blast
  define u where "u = s\<lparr>arp_table := t, lw := (lw s)\<lparr>pb := (pb (lw s))(p \<mapsto> shorter 14 b)\<rparr>\<rparr>"
  note t = t [unfolded Let_def, folded u_def]
  have nin: "p \<notin> set as" using frame(1) path_distinct [of "pb (lw s)" p "p # as"] by (auto simp: holds_def packet_def)
  have o: "outside (pb (lw u)) as (payload b) 38" using outside_head [OF room(2) nin] by (simp add: u_def)
  have nu: "nifs u netif = Some n" using n(1) by (simp add: u_def)
  let ?b = "shorter 14 b" and ?u = "processing netif (payload (shorter 14 b)) src dst u"
  have b: "payload ?b = payload b + 14" "28 \<le> unat (pb_len ?b)" using t frame(2) by (simp_all add: shorter_def)
  obtain l' ck' where l': "ip_input ie p netif u = map_option (\<lambda>t. (ERR_OK, idle t)) (do { (_, r) \<leftarrow> i_output oe netif p src (?u\<lparr>lw := l'\<rparr>); drop_pbuf p r })"
      "pb l' = pb (lw u)" "dom (pram l') = dom (pram (lw u))"
      "holds l' p as ?b (ip_hdr_bytes tos tot ident off ICMP_TTL IP_PROTO_ICMP ck' dst src @ icmp_bytes 0 code (icmp_adjust c) rest)"
      "inet_sum (ip_hdr_bytes tos tot ident off ICMP_TTL IP_PROTO_ICMP ck' dst src) = 0xFFFF"
      "inet_sum (icmp_bytes 0 code (icmp_adjust c) rest) = (if code = 0 \<and> set rest \<subseteq> {0} then 0 else 0xFFFF)"
    using ping_goes_back [of u p as ?b tos tot ident off ttl ck src dst code c rest netif n ie m oe] t b outside_sub [OF o, of 14 24] sums nu n(2) addr(1,2) ie(1,2)
    by auto
  define v where "v = ?u\<lparr>lw := l'\<rparr>"
  have hr: "headroom (pram (lw v)) p ?b 14"
    using t l'(3) by (auto simp: headroom_def valid_range_iff v_def)
  have ov: "outside (pb (lw v)) as (payload ?b - 14) 14" using outside_sub [OF o, of 0 14] l'(2) b(1) by (simp add: v_def)
  have okv: "arp_ok v" "known v src smac" "nifs v netif = Some n"
    using t arp_ok_part [of v u] nu by (simp_all add: v_def processing_def arp_part_def known_def)
  have hop: "next_hop n src = Some src" using addr(3) by (simp add: next_hop_def on_net_def)
  have hv: "holds (lw v) p as ?b (ip_hdr_bytes tos tot ident off ICMP_TTL IP_PROTO_ICMP ck' dst src @ icmp_bytes 0 code (icmp_adjust c) rest)"
    using l'(4) by (simp add: v_def)
  obtain l'' d where l'': "etharp_output e netif p src v = a_link e netif p (v\<lparr>etharp_cached_entry := d, lw := l''\<rparr>)"
      "holds l'' p as (longer 14 ?b) (smac @ netif_hwaddr n @ be16b ETHTYPE_IP
         @ ip_hdr_bytes tos tot ident off ICMP_TTL IP_PROTO_ICMP ck' dst src @ icmp_bytes 0 code (icmp_adjust c) rest)"
    using etharp_output_known [OF okv(1) hv hr ov okv(3) n(4) uni(2,3) hop okv(2)] by blast
  have "ethernet_input e ie p netif s = map_option (\<lambda>t. (ERR_OK, idle t)) (do { (_, r) \<leftarrow> a_link e netif p (v\<lparr>etharp_cached_entry := d, lw := l''\<rparr>); drop_pbuf p r })"
    using t l'(1) l''(1) unfolding v_def [symmetric] ie(3) by (simp add: option.map_comp o_def)
  then show ?thesis using l''(2) l'(5,6) by (intro exI [of _ "v\<lparr>etharp_cached_entry := d, lw := l''\<rparr>"] exI [of _ ck']) (simp add: holds_def)
qed

text \<open>C39. The answer releases what waits: an ARP message from an address that packets wait for makes the driver send the first of
  them, with its data unchanged and the hardware address of the message as destination; then the other packets follow, the
  message itself is acted on and freed. The entry is resolved from then on.\<close>

theorem arp_resolves:
  assumes reach: "quiet e" "arp_reach e s"
    and message: "holds (lw s) p as b (arp_bytes ed es op smac sip tmac tip @ pad)" "42 \<le> unat (pb_len b)"
      "length ed = 6" "length es = 6" "length smac = 6" "length tmac = 6"
    and entry: "i < 10" "arp_state (arp_table s ! i) = ETHARP_STATE_PENDING" "arp_ipaddr (arp_table s ! i) = sip" "arp_q (arp_table s ! i) = q # rest"
    and packet: "holds (lw s) q qs bq (h @ B)" "length h = 14" "14 \<le> unat (pb_len bq)" "outside (pb (lw s)) qs (payload bq) 14"
    and n: "nifs s netif = Some n" "netif \<noteq> NULL" "length (netif_hwaddr n) = 6" "\<not> not_unicast sip n"
  shows "\<exists>u. etharp_arp_input e netif hw p s =
      do { (_, r) \<leftarrow> a_link e netif q u; r \<leftarrow> drop_pbuf q r; r \<leftarrow> send_queue e netif i smac r;
           r \<leftarrow> arp_act e netif hw p (payload b) (\<not> ip_addr_isany (netif_ip_addr n) \<and> tip = netif_ip_addr n) sip r;
           drop_pbuf p r }
    \<and> packet (lw u) q (q # qs) \<and> packet_bytes (lw u) (q # qs) = smac @ netif_hwaddr n @ be16b ETHTYPE_IP @ B
    \<and> arp_table u = (arp_table s)[i := (arp_table s ! i)\<lparr>arp_state := ETHARP_STATE_STABLE, arp_ethaddr := smac, arp_ctime := 0, arp_q := rest\<rparr>]"
proof -
  have ok: "arp_ok s" using arp_reach_ok [OF reach(2,1)] .
  have i: "i < ARP_TABLE_SIZE" "i < length (arp_table s)" "used (arp_table s ! i)" using ok entry(1,2) by (simp_all add: arp_ok_def ARP_TABLE_SIZE_def used_def)
  define x where "x = (arp_table s ! i)\<lparr>arp_state := ETHARP_STATE_STABLE, arp_ethaddr := smac, arp_ctime := 0\<rparr>"
  have f: "find_entry (Some sip) fl s = Some (int i, s)" for fl using find_entry_listed [OF ok i(1,3)] entry(3) by simp
  let ?s = "arp_put i (x\<lparr>arp_q := rest\<rparr>) s"
  have lw: "lw ?s = lw s" "nifs ?s = nifs s" by (simp_all add: arp_put_def)
  obtain l' where l': "etharp_send_ip e netif q (netif_hwaddr n) smac ?s = a_link e netif q (?s\<lparr>lw := l'\<rparr>)"
      "holds l' q qs bq (smac @ netif_hwaddr n @ be16b ETHTYPE_IP @ B)"
    using etharp_send_ip_frame [of ?s q qs bq h B "netif_hwaddr n" smac e netif, unfolded lw] packet n(3) message(5) by blast
  have sq: "send_queue e netif i smac (arp_put i x s) = do { (_, r) \<leftarrow> a_link e netif q (?s\<lparr>lw := l'\<rparr>); r \<leftarrow> drop_pbuf q r; send_queue e netif i smac r }"
    using n(1) l'(1) i(2) entry(4) lw(2) by (subst send_queue.simps) (simp add: arp_get_put x_def Let_def)
  have "update_arp_entry e netif sip smac fl s =
      do { (_, r) \<leftarrow> a_link e netif q (?s\<lparr>lw := l'\<rparr>); r \<leftarrow> drop_pbuf q r; r \<leftarrow> send_queue e netif i smac r; Some (ERR_OK, r) }" for fl
    using n(1,4) f i(2) sq by (simp add: update_arp_entry_def arp_get_def x_def [symmetric] case_prod_unfold)
  then have "etharp_arp_input e netif hw p s =
      do { (_, r) \<leftarrow> a_link e netif q (?s\<lparr>lw := l'\<rparr>); r \<leftarrow> drop_pbuf q r; r \<leftarrow> send_queue e netif i smac r;
           r \<leftarrow> arp_act e netif hw p (payload b) (\<not> ip_addr_isany (netif_ip_addr n) \<and> tip = netif_ip_addr n) sip r;
           drop_pbuf p r }"
    unfolding arp_input_start [OF message n(1,2)] by (simp add: case_prod_unfold)
  then show ?thesis using l'(2) by (intro exI [of _ "?s\<lparr>lw := l'\<rparr>"]) (simp add: holds_def arp_put_def x_def)
qed

text \<open>C40. A request is answered: an ARP request, in one buffer, for the address of the interface from a neighbour that is in the
  table with no packets waiting refreshes the entry, and the driver is called once: with a block the heap has given, as a
  packet of its own whose bytes are the answer, to the hardware address of the sender, with the hardware address of the interface as the
  one asked for. Then the answer and the request are freed. The heap is assumed to have memory; when it has none, the code
  calls the driver with a null pointer.\<close>

theorem arp_request_answered:
  assumes reach: "quiet e" "arp_reach e s"
    and message: "holds (lw s) p [] b (arp_bytes ed es ARP_REQUEST smac sip tmac (netif_ip_addr n) @ pad)" "42 \<le> unat (pb_len b)"
      "length ed = 6" "length es = 6" "length smac = 6" "length tmac = 6"
    and memory: "\<forall>l. pb l = pb (lw s) \<longrightarrow> free_block (a_malloc e) (raw_block (unat (pb_len b))) q l"
      "disjoint_ranges q (raw_block (unat (pb_len b))) (payload b) (unat (pb_len b))"
    and n: "nifs s netif = Some n" "netif \<noteq> NULL" "length (netif_hwaddr n) = 6" "\<not> ip_addr_isany (netif_ip_addr n)" "\<not> not_unicast sip n"
    and entry: "list_ex (\<lambda>x. used x \<and> arp_ipaddr x = sip \<and> arp_q x = []) (arp_table s)"
  shows "\<exists>u. etharp_arp_input e netif (netif_hwaddr n) p s
        = do { (_, r) \<leftarrow> a_link e netif q u; r \<leftarrow> drop_pbuf q r; drop_pbuf p r }
    \<and> packet (lw u) q [q]
    \<and> packet_bytes (lw u) [q] = arp_bytes smac (netif_hwaddr n) ARP_REPLY (netif_hwaddr n) (netif_ip_addr n) smac sip @ pad
    \<and> known u sip smac"
proof -
  let ?B = "arp_bytes smac (netif_hwaddr n) ARP_REPLY (netif_hwaddr n) (netif_ip_addr n) smac sip @ pad"
  obtain t where t: "update_arp_entry e netif sip smac ETHARP_FLAG_TRY_HARD s = Some (ERR_OK, s\<lparr>arp_table := t\<rparr>)" "known (s\<lparr>arp_table := t\<rparr>) sip smac"
    using update_arp_entry_idle [OF arp_reach_ok [OF reach(2,1)] n(1,5) entry message(5)] by blast
  have "outside (pb (lw s)) [] (payload b) 42" by (simp add: outside_def)
  then obtain l' where l': "arp_answer (payload b) (netif_ip_addr n) (netif_hwaddr n) (lw s) = Some l'" "pb l' = pb (lw s)" "holds l' p [] b ?B"
    using arp_answer_writes [OF message(1) _ message(2-6) n(3)] by blast
  let ?s = "s\<lparr>arp_table := t, lw := l'\<rparr>"
  have "arp_act e netif (netif_hwaddr n) p (payload b) True sip (s\<lparr>arp_table := t\<rparr>) = arp_send_copy e netif p ?s"
    using arp_message(5) [OF message] n(1) l'(1) by (simp add: arp_act_def)
  then have run: "etharp_arp_input e netif (netif_hwaddr n) p s = do { r \<leftarrow> arp_send_copy e netif p ?s; drop_pbuf p r }"
    unfolding arp_input_start [OF message n(1,2)] using n(4) t(1) by simp
  obtain l where l: "arp_send_copy e netif p ?s = do { (_, r) \<leftarrow> a_link e netif q (?s\<lparr>lw := l\<rparr>); drop_pbuf q r }"
      "packet l q [q]" "packet_bytes l [q] = ?B"
    using arp_send_copy_sends [of ?s p b ?B e q netif] l'(2,3) memory by auto
  show ?thesis using run l t(2) by (intro exI [of _ "?s\<lparr>lw := l\<rparr>"]) (simp add: known_def case_prod_unfold)
qed

section \<open>Examples\<close>

text \<open>One packet at 200, and an entry for 192.168.0.2 that is asked for.\<close>

definition demo_eth :: "u8 list \<Rightarrow> stack" where
  "demo_eth bs = (demo_stack bs)\<lparr>arp_table := arp_table demo_asked\<rparr>"

lemma demo_eth_reach: "arp_reach demo_arp (demo_eth bs)"
  by (rule arp_reach.other [OF demo_asked_reach]) (simp add: demo_eth_def arp_part_def demo_asked_def demo_stack_def)

lemma demo_eth_nif: "nifs (demo_eth bs) 40 = Some demo_nif" "lw (demo_eth bs) = lw (demo_stack bs)" "netif_hwaddr demo_nif = [2, 0, 0, 0, 0, 1]"
  by (simp_all add: demo_eth_def demo_stack_def demo_nif_def)

lemma demo_eth_entry: "list_ex (\<lambda>x. used x \<and> arp_ipaddr x = 0x0200A8C0 \<and> arp_q x = []) (arp_table (demo_eth bs))"
  by (simp add: demo_eth_def demo_asked_def used_def no_entry_def)

lemma demo_eth_holds:
  assumes "length bs = 42"
  shows "holds (lw (demo_eth bs)) 100 [] (demo_buf 0 200 42 42 1) bs" "unat (pb_len (demo_buf 0 200 42 42 1)) = 42"
    "headroom (pram (lw (demo_eth bs))) 100 (demo_buf 0 200 42 42 1) 0" "payload (demo_buf 0 200 42 42 1) = 200"
  using demo_holds [of bs] assms
  by (simp_all add: demo_eth_nif) (simp_all add: demo_buf_def headroom_def pbuf_types SIZEOF_STRUCT_PBUF_def EP_OFFSET_def valid_range_iff)

definition demo_eth_ip :: ip_env where
  "demo_eth_ip = demo_ip\<lparr>i_up := \<lambda>_. icmp_input (\<lambda>_ l. (NULL, l)) (demo_ip\<lparr>i_output := etharp_output demo_arp\<rparr>)\<rparr>"

definition demo_frame :: "u8 list" where
  "demo_frame = [2, 0, 0, 0, 0, 1] @ [2, 0, 0, 0, 0, 2] @ be16b ETHTYPE_IP @ ip_hdr_bytes 0 28 1 0 64 IP_PROTO_ICMP 36089 0x0200A8C0 0x0100A8C0
     @ icmp_bytes 8 0 65015 [0, 1, 0, 1]"

theorem ping_over_ethernet_witness:
  "\<exists>u ck'. ethernet_input demo_arp demo_eth_ip 100 40 (demo_eth demo_frame) = map_option (\<lambda>t. (ERR_OK, idle t)) (drop_pbuf 100 u)
    \<and> packet_bytes (lw u) [100] = [2, 0, 0, 0, 0, 2, 2, 0, 0, 0, 0, 1] @ be16b ETHTYPE_IP
         @ ip_hdr_bytes 0 28 1 0 ICMP_TTL IP_PROTO_ICMP ck' 0x0100A8C0 0x0200A8C0 @ icmp_bytes 0 0 65023 [0, 1, 0, 1]
    \<and> inet_sum (icmp_bytes 0 0 65023 [0, 1, 0, 1]) = 0xFFFF"
proof -
  have len: "length demo_frame = 42" by (simp add: demo_frame_def icmp_bytes_def)
  have h: "holds (lw (demo_eth demo_frame)) 100 [] (demo_buf 0 200 42 42 1) ([2, 0, 0, 0, 0, 1] @ [2, 0, 0, 0, 0, 2] @ be16b ETHTYPE_IP
      @ ip_hdr_bytes 0 28 1 0 64 IP_PROTO_ICMP 36089 0x0200A8C0 0x0100A8C0 @ icmp_bytes 8 0 65015 [0, 1, 0, 1])"
    using demo_eth_holds(1) [OF len] by (simp only: demo_frame_def [symmetric])
  have l: "42 \<le> unat (pb_len (demo_buf 0 200 42 42 1))" using demo_eth_holds(2) [OF len] by simp
  have f: "for_interface demo_nif 0x0200A8C0 0x0100A8C0" "ip4_addr_isbroadcast 0x0100A8C0 demo_nif = 0" "on_net 0x0200A8C0 demo_nif" "\<not> ip_addr_isany 0x0200A8C0"
      "netif_flags demo_nif AND NETIF_FLAG_ETHARP \<noteq> 0" by code_simp+
  have a: "icmp_adjust 65015 = 65023" by code_simp
  have up: "i_raw demo_eth_ip = (\<lambda>_ _ t. Some (False, t))" "i_up demo_eth_ip Icmp_input = icmp_input (\<lambda>_ l. (NULL, l)) (demo_ip\<lparr>i_output := etharp_output demo_arp\<rparr>)"
    by (simp_all add: demo_eth_ip_def demo_ip_def)
  have o: "outside st [] x y" for st x y by (simp add: outside_def)
  have hw: "length (netif_hwaddr demo_nif) = 6" by (simp add: demo_eth_nif)
  note p = ping_over_ethernet [OF demo_arp_quiet demo_eth_reach h l _ _ demo_eth_holds(3) [OF len] o _ demo_request_sums _ demo_eth_nif(1) _ f(5) hw f(1-4) demo_eth_entry up]
  show ?thesis using p by (auto simp: a demo_arp_def demo_eth_nif(3))
qed

text \<open>A heap with a block at 1000.\<close>

definition demo_heap :: arp_env where
  "demo_heap = demo_arp\<lparr>a_malloc := \<lambda>k l. (1000, l\<lparr>pb := (pb l)(1000 \<mapsto> demo_buf 0 0 0 0 0), pram := stored 1000 (replicate k 0) (pram l)\<rparr>)\<rparr>"

lemma demo_heap_quiet: "quiet demo_heap"
  by (simp add: quiet_def demo_heap_def demo_arp_def)

lemma demo_heap_block: "pb l 1000 = None \<Longrightarrow> free_block (a_malloc demo_heap) k 1000 l"
  by (auto simp: free_block_def demo_heap_def stored_def valid_range_iff)

lemma demo_heap_request:
  assumes "nifs s 40 = Some demo_nif" "pb (lw s) 1000 = None"
  shows "\<exists>t. etharp_request demo_heap 40 a s = Some (ERR_OK, t) \<and> arp_part t = arp_part s"
proof -
  have n: "unat (42 :: u16) = 42" by simp
  obtain l c where l: "pbuf_alloc (a_malloc demo_heap) PBUF_RAW 42 PBUF_RAM (lw s) = Some (1000, l)" "pb l = (pb (lw s))(1000 \<mapsto> c)"
      "payload c = 1056" "pb_len c = 42" "tot_len c = 42" "pb_next c = NULL" "sole (pb l) 1000" "valid_range (pram l) 1056 42"
    using pbuf_alloc_raw [OF demo_heap_block [OF assms(2)], of 42] unfolding n by auto
  have h: "holds l 1000 [] c (bytes_at (pram l) 1056 42)"
    using l by (simp add: holds_def packet_def plen_def readable_def pbuf_valid_def packet_bytes_def pbuf_bytes_def)
  have hw: "length (netif_hwaddr demo_nif) = 6" by (simp add: demo_nif_def)
  obtain l' where l': "etharp_request demo_heap 40 a s = do { (r, s) \<leftarrow> a_link demo_heap 40 1000 (s\<lparr>lw := l'\<rparr>); s \<leftarrow> drop_pbuf 1000 s; Some (r, s) }"
      "holds l' 1000 [] c (arp_bytes ethbroadcast (netif_hwaddr demo_nif) ARP_REQUEST (netif_hwaddr demo_nif) (netif_ip_addr demo_nif) ethzero a)"
    using etharp_request_frame [OF l(1) h _ _ assms(1) hw] l(4) unfolding n by fastforce
  have "path (pb l') 1000 [1000]" using l'(2) unfolding holds_def packet_def by blast
  then obtain k l2 where "pbuf_free 1000 l' = Some (k, l2)"
    using free_loop_effect [of l' 1000 "[1000]" 0] by (simp add: pbuf_free_def)
  then show ?thesis using l'(1) by (simp add: demo_heap_def demo_arp_def drop_pbuf_def arp_part_def)
qed

lemma demo_heap_reach: "arp_reach demo_heap (demo_eth bs)"
proof -
  let ?s = "demo_stack []" and ?e = "no_entry\<lparr>arp_ipaddr := 0x0200A8C0\<rparr>"
  have start: "arp_reach demo_heap ?s" by (rule arp_reach.start) (simp_all add: demo_stack_def ARP_TABLE_SIZE_def)
  have sw: "sweep_loop (Some 0x0200A8C0) 0 (arp_table ?s) sweep_start = (None, sweep_start\<lparr>sw_empty := 0\<rparr>)"
    by (simp add: demo_stack_def no_entry_def sweep_start_def sweep_entry_def ARP_TABLE_SIZE_def eval_nat_numeral)
  have f: "find_entry (Some 0x0200A8C0) ETHARP_FLAG_TRY_HARD ?s = Some (0, arp_put 0 ?e ?s)"
    unfolding find_entry_def sw
    by (simp add: ETHARP_FLAG_FIND_ONLY_def ETHARP_FLAG_TRY_HARD_def ARP_TABLE_SIZE_def sweep_start_def fresh_entry_def arp_get_def demo_stack_def no_entry_def)
  let ?t = "arp_put 0 (?e\<lparr>arp_state := ETHARP_STATE_PENDING\<rparr>) (arp_put 0 ?e ?s)"
  have g: "arp_get 0 (arp_put 0 x ?s) = Some x" "arp_get 0 (arp_put 0 y (arp_put 0 x ?s)) = Some y" for x y
    by (simp_all add: arp_get_def arp_put_def demo_stack_def)
  have n: "nifs ?t 40 = Some demo_nif" "nifs ?s 40 = Some demo_nif" "pb (lw ?t) 1000 = None" by (simp_all add: arp_put_def demo_stack_def)
  obtain u where u: "etharp_request demo_heap 40 0x0200A8C0 ?t = Some (ERR_OK, u)" "arp_part u = arp_part ?t"
    using demo_heap_request [OF n(1,3)] by blast
  have "\<not> not_unicast 0x0200A8C0 demo_nif" by code_simp
  then have "etharp_query demo_heap 40 0x0200A8C0 NULL ?s = Some (ERR_OK, u)"
    using f g n(2) u(1) by (simp add: etharp_query_def no_entry_def)
  then have "arp_reach demo_heap u" by (rule arp_reach.query [OF start])
  moreover have "arp_part (demo_eth bs) = arp_part u"
    unfolding u(2) by (simp add: demo_eth_def demo_asked_def arp_part_def arp_put_def demo_stack_def eval_nat_numeral)
  ultimately show ?thesis by (rule arp_reach.other)
qed

theorem arp_request_answered_witness:
  "\<exists>u. etharp_arp_input demo_heap 40 [2, 0, 0, 0, 0, 1] 100 (demo_eth (arp_bytes ethbroadcast [2, 0, 0, 0, 0, 2] ARP_REQUEST [2, 0, 0, 0, 0, 2] 0x0200A8C0 ethzero 0x0100A8C0))
      = do { r \<leftarrow> drop_pbuf 1000 u; drop_pbuf 100 r }
    \<and> packet_bytes (lw u) [1000] = arp_bytes [2, 0, 0, 0, 0, 2] [2, 0, 0, 0, 0, 1] ARP_REPLY [2, 0, 0, 0, 0, 1] 0x0100A8C0 [2, 0, 0, 0, 0, 2] 0x0200A8C0"
proof -
  let ?m = "arp_bytes ethbroadcast [2, 0, 0, 0, 0, 2] ARP_REQUEST [2, 0, 0, 0, 0, 2] 0x0200A8C0 ethzero 0x0100A8C0"
  let ?b = "demo_buf 0 200 42 42 1"
  have len: "length ?m = 42" by (simp add: arp_bytes_def)
  have ip: "netif_ip_addr demo_nif = 0x0100A8C0" by (simp add: demo_nif_def)
  have h: "holds (lw (demo_eth ?m)) 100 [] ?b (arp_bytes ethbroadcast [2, 0, 0, 0, 0, 2] ARP_REQUEST [2, 0, 0, 0, 0, 2] 0x0200A8C0 ethzero (netif_ip_addr demo_nif) @ [])"
    using demo_eth_holds(1) [OF len] by (simp add: ip)
  have f: "\<not> ip_addr_isany (netif_ip_addr demo_nif)" "\<not> not_unicast 0x0200A8C0 demo_nif" by code_simp+
  have "pb (lw (demo_eth ?m)) 1000 = None" by (simp add: demo_eth_def demo_stack_def)
  then have m: "\<forall>l. pb l = pb (lw (demo_eth ?m)) \<longrightarrow> free_block (a_malloc demo_heap) (raw_block (unat (pb_len ?b))) 1000 l"
    using demo_heap_block by metis
  have d: "disjoint_ranges 1000 (raw_block (unat (pb_len ?b))) (payload ?b) (unat (pb_len ?b))"
    by (simp add: disjoint_ranges_def demo_buf_def)
  have k: "42 \<le> unat (pb_len ?b)" "length ethbroadcast = 6" "length [2 :: u8, 0, 0, 0, 0, 2] = 6" "length ethzero = 6" "(40 :: ptr) \<noteq> NULL"
      "length (netif_hwaddr demo_nif) = 6"
    by (simp_all add: demo_eth_nif demo_buf_def)
  note p = arp_request_answered [OF demo_heap_quiet demo_heap_reach h k(1-3) k(3,4) m d demo_eth_nif(1) k(5,6) f demo_eth_entry]
  show ?thesis using p by (auto simp: ip demo_eth_nif(3) demo_heap_def demo_arp_def)
qed

text \<open>A packet of 34 bytes in read-only memory at 300 that waits for the answer at 200.\<close>

definition demo_answer :: "u8 list" where
  "demo_answer = arp_bytes [2, 0, 0, 0, 0, 1] [2, 0, 0, 0, 0, 2] ARP_REPLY [2, 0, 0, 0, 0, 2] 0x0200A8C0 [2, 0, 0, 0, 0, 1] 0x0100A8C0"

definition demo_rom :: "u16 \<Rightarrow> pbuf" where
  "demo_rom k = (demo_buf 0 300 34 34 k)\<lparr>pb_type := PBUF_ROM\<rparr>"

definition demo_two :: "u16 \<Rightarrow> lwip" where
  "demo_two k = \<lparr>pb = [100 \<mapsto> demo_buf 0 200 42 42 1, 120 \<mapsto> demo_rom k], pram = stored 200 demo_answer (stored 300 (replicate 34 7) Map.empty), calls = []\<rparr>"

definition demo_wait :: stack where
  "demo_wait = (demo_stack [])\<lparr>lw := demo_two 2,
     arp_table := no_entry\<lparr>arp_ipaddr := 0x0200A8C0, arp_state := ETHARP_STATE_PENDING, arp_q := [120]\<rparr> # replicate 9 no_entry\<rparr>"

lemma demo_wait_query: "etharp_query demo_arp 40 0x0200A8C0 120 (demo_asked\<lparr>lw := demo_two 1\<rparr>) = Some (ERR_OK, demo_wait)"
proof -
  let ?s = "demo_asked\<lparr>lw := demo_two 1\<rparr>" and ?x = "no_entry\<lparr>arp_ipaddr := 0x0200A8C0, arp_state := ETHARP_STATE_PENDING\<rparr>"
  have ok: "arp_ok ?s" using arp_reach_ok [OF demo_asked_reach demo_arp_quiet] arp_ok_part [of ?s demo_asked] by simp
  have x: "arp_table ?s = ?x # replicate 9 no_entry" by (simp add: demo_asked_def)
  have f: "find_entry (Some 0x0200A8C0) ETHARP_FLAG_TRY_HARD ?s = Some (0, ?s)"
    using find_entry_listed [OF ok, of 0 ETHARP_FLAG_TRY_HARD] by (simp add: x ARP_TABLE_SIZE_def used_def)
  have g: "arp_get 0 ?s = Some ?x" by (simp add: arp_get_def x)
  have u: "\<not> not_unicast 0x0200A8C0 demo_nif" by code_simp
  have n: "nifs ?s 40 = Some demo_nif" by (simp add: demo_asked_def demo_stack_def)
  have r: "etharp_request demo_arp 40 0x0200A8C0 ?s = Some (ERR_MEM, ?s)"
    using n by (simp add: etharp_request_def etharp_raw_def demo_arp_def pbuf_alloc_def pbuf_alloc_ram_def pbuf_types)
  have c: "copy_needed 120 (demo_two 1) = Some NULL"
    by (subst copy_needed.simps, subst copy_needed.simps) (simp add: get_pb_def demo_two_def demo_rom_def demo_buf_def)
  have "take_over demo_arp 120 (demo_two 1) = Some (120, demo_two 2)"
    using c by (simp add: take_over_def pbuf_ref_def get_pb_def put_pb_def demo_two_def demo_rom_def demo_buf_def fun_upd_twist)
  then have "query_packet demo_arp 40 0 120 ERR_MEM ?s = Some (ERR_OK, demo_wait)"
    using g by (simp add: query_packet_def queue_packet_def demo_arp_def demo_wait_def demo_asked_def arp_put_def no_entry_def Let_def)
  then show ?thesis using n u f g r by (simp add: etharp_query_def)
qed

lemma demo_wait_reach: "arp_reach demo_arp demo_wait"
  by (rule arp_reach.query [OF arp_reach.other [OF demo_asked_reach] demo_wait_query]) simp

lemma demo_wait_holds:
  "holds (lw demo_wait) 100 [] (demo_buf 0 200 42 42 1) demo_answer" "holds (lw demo_wait) 120 [] (demo_rom 2) (replicate 14 7 @ replicate 20 7)"
proof -
  have len: "length demo_answer = 42" by (simp add: demo_answer_def arp_bytes_def)
  have l: "lw demo_wait = demo_two 2" by (simp add: demo_wait_def)
  have v: "valid_range (pram (demo_two 2)) 200 42" "valid_range (pram (demo_two 2)) 300 34"
    using len by (auto simp: valid_range_iff demo_two_def stored_def)
  have b: "bytes_at (pram (demo_two 2)) 200 42 = demo_answer" "bytes_at (pram (demo_two 2)) 300 34 = replicate 34 7"
    using len by (auto intro!: nth_equalityI simp: demo_two_def stored_def)
  show "holds (lw demo_wait) 100 [] (demo_buf 0 200 42 42 1) demo_answer"
    unfolding l using v(1) b(1) by (simp add: holds_def packet_def readable_def pbuf_valid_def packet_bytes_def path_bytes_def pbuf_bytes_def
        plen_def total_len_def demo_two_def demo_buf_def)
  have "replicate 34 (7 :: u8) = replicate 14 7 @ replicate 20 7" by (simp add: replicate_add [symmetric])
  then show "holds (lw demo_wait) 120 [] (demo_rom 2) (replicate 14 7 @ replicate 20 7)"
    unfolding l using v(2) b(2) by (simp add: holds_def packet_def readable_def pbuf_valid_def packet_bytes_def path_bytes_def pbuf_bytes_def
        plen_def total_len_def demo_two_def demo_rom_def demo_buf_def)
qed

theorem arp_resolves_witness:
  "\<exists>u. etharp_arp_input demo_arp 40 [2, 0, 0, 0, 0, 1] 100 demo_wait =
      do { (_, r) \<leftarrow> a_link demo_arp 40 120 u; r \<leftarrow> drop_pbuf 120 r; r \<leftarrow> send_queue demo_arp 40 0 [2, 0, 0, 0, 0, 2] r;
           r \<leftarrow> arp_act demo_arp 40 [2, 0, 0, 0, 0, 1] 100 200 True 0x0200A8C0 r; drop_pbuf 100 r }
    \<and> packet_bytes (lw u) [120] = [2, 0, 0, 0, 0, 2, 2, 0, 0, 0, 0, 1] @ be16b ETHTYPE_IP @ replicate 20 7"
proof -
  have f: "\<not> ip_addr_isany (netif_ip_addr demo_nif) \<and> 0x0100A8C0 = netif_ip_addr demo_nif" "\<not> not_unicast 0x0200A8C0 demo_nif" by code_simp+
  have h: "holds (lw demo_wait) 100 [] (demo_buf 0 200 42 42 1)
      (arp_bytes [2, 0, 0, 0, 0, 1] [2, 0, 0, 0, 0, 2] ARP_REPLY [2, 0, 0, 0, 0, 2] 0x0200A8C0 [2, 0, 0, 0, 0, 1] 0x0100A8C0 @ [])"
    using demo_wait_holds(1) by (simp add: demo_answer_def)
  have l: "42 \<le> unat (pb_len (demo_buf 0 200 42 42 1))" "14 \<le> unat (pb_len (demo_rom 2))" "payload (demo_buf 0 200 42 42 1) = 200"
    by (simp_all add: demo_buf_def demo_rom_def)
  have e: "arp_state (arp_table demo_wait ! 0) = ETHARP_STATE_PENDING" "arp_ipaddr (arp_table demo_wait ! 0) = 0x0200A8C0" "arp_q (arp_table demo_wait ! 0) = [120]"
      "nifs demo_wait 40 = Some demo_nif"
    by (simp_all add: demo_wait_def demo_stack_def)
  have o: "outside st [] x y" for st x y by (simp add: outside_def)
  note p = arp_resolves [OF demo_arp_quiet demo_wait_reach h l(1) _ _ _ _ _ e(1-3) demo_wait_holds(2) _ l(2) o e(4) _ _ f(2), of "[2, 0, 0, 0, 0, 1]"]
  show ?thesis using p f(1) by (auto simp: l(3) demo_eth_nif(3))
qed

end
