(* ===== verification/Spec2Isabelle.thy ===== *)
theory Spec2Isabelle
  imports App_Proofs Hw_Timer I2c_Master Mqtt_Main Lwip_Chksum Lwip_Addr Espconn_Buf Lwip_Timers Lwip_Etharp_Proofs
begin

text \<open>
  A verification library for the firmware built on the ESP8266 non-OS SDK: the gateway between a Modbus serial
  line and the network (\<^verbatim>\<open>app/\<close>), the MQTT client (\<^verbatim>\<open>examples/esp_mqtt_proj/\<close>) and the base of the TCP/IP stack
  (\<^verbatim>\<open>examples/lwip_open_src_template_proj/\<close>).

  \<^bold>\<open>The program.\<close> The gateway reads frames from the UART in an interrupt handler, collects them in a ring buffer,
  checks their CRC and sends them through a TCP connection (uplink); data received from the network is checked and
  written to the serial line (downlink). Keys start the smart configuration, a UDP server answers searches. The MQTT
  client builds packets in a buffer, queues them in a byte ring with an escape framing, and drives a connection state
  machine from network callbacks, a one-second timer and a task. lwIP keeps packets in chains of buffers, protects
  them with the Internet checksum, runs timers and exchanges UDP datagrams and ICMP messages over IP, whose packets ARP puts into frames.

  \<^bold>\<open>Conventions.\<close> \<open>Prelude\<close> has the machine types (\<open>u8\<close>, \<open>u16\<close>, \<open>u32\<close> are words, so that arithmetic wraps as in C), the
  memory (a partial map from addresses to bytes), \<^verbatim>\<open>memcpy\<close> and friends, and the lemmas the components share. An
  access outside the mapped memory, a null pointer dereference or another undefined step of C is the result \<open>None\<close>; an
  error code of the source is a value. Loops that may not end are \<open>partial_function (option)\<close>, and theorems
  about them state that a result is returned. Callbacks that the source stores in variables are values of a datatype,
  run by an interpreter of the component; hardware registers, the heap, the flash and the closed SDK libraries are
  arguments of the definitions or calls recorded in a log.

  \<^bold>\<open>The gateway.\<close>
  \<^item> \<open>Ring_Buffer\<close> (\<^verbatim>\<open>user_ringbuffer.c\<close>) over the shared interface \<open>byte_fifo\<close> of \<open>Circular\<close>: put and get refine a queue of
    bytes, the lock ends after a bounded number of polls.
  \<^item> \<open>Modbus_Crc\<close>, \<open>Modbus\<close> (\<^verbatim>\<open>modbus.c\<close>): the table checksum is the bitwise CRC and detects any change of one byte;
    only frames with a correct checksum pass, in both directions.
  \<^item> \<open>Uart_Driver\<close>, \<open>Uart_Proofs\<close>, \<open>User_Uart\<close> (\<^verbatim>\<open>driver/uart.c\<close>, \<^verbatim>\<open>user_uart.c\<close>): registers and both FIFOs, the
    transmit and receive buffers, line settings, polling loops under a device that makes progress.
  \<^item> \<open>Peripherals\<close>, \<open>Key_Driver\<close>, \<open>Hw_Timer\<close>, \<open>I2c_Master\<close> (\<^verbatim>\<open>driver/\<close>): the registers, keys as a debouncing state machine,
    timer arithmetic, and I2C as the sequence of line levels.
  \<^item> \<open>Tcp_Client\<close>, \<open>Tcp_Proofs\<close>, \<open>Udp_Server\<close>, \<open>Smartconfig\<close> (\<^verbatim>\<open>user_tcp_client.c\<close>, \<^verbatim>\<open>user_udp_server.c\<close>,
    \<^verbatim>\<open>user_smartconfig.c\<close>): the connection with its reconnect counter, an invariant of all reachable states.
  \<^item> \<open>App\<close>, \<open>App_Proofs\<close> (\<^verbatim>\<open>user_main.c\<close>, \<^verbatim>\<open>user_net.c\<close>, \<^verbatim>\<open>user_key.c\<close>): start-up and the two data paths from end to
    end.

  \<^bold>\<open>The MQTT client.\<close>
  \<^item> \<open>Mqtt_Ringbuf\<close>, \<open>Mqtt_Proto\<close>, \<open>Mqtt_Queue\<close> (\<^verbatim>\<open>ringbuf.c\<close>, \<^verbatim>\<open>proto.c\<close>, \<^verbatim>\<open>queue.c\<close>): the queue refines a list of
    packets, torn frames included.
  \<^item> \<open>Mqtt_Msg\<close>, \<open>Mqtt_Msg_Proofs\<close>, \<open>Mqtt_Parse\<close>, \<open>Mqtt_Utils\<close> (\<^verbatim>\<open>mqtt_msg.c\<close>, \<^verbatim>\<open>utils.c\<close>): builders and parsers with
    round trips and the contents of connect packets.
  \<^item> \<open>Mqtt_Client\<close>, \<open>Mqtt_Client_Proofs\<close>, \<open>Mqtt_Recv\<close>, \<open>Mqtt_States\<close> (\<^verbatim>\<open>mqtt.c\<close>): every function; publishing
    returns and queues, received packets are acknowledged and delivered, the runs refine a state machine.
  \<^item> \<open>Mqtt_Config\<close>, \<open>Mqtt_Main\<close> (\<^verbatim>\<open>modules/config.c\<close>, \<^verbatim>\<open>modules/wifi.c\<close>, \<^verbatim>\<open>user_main.c\<close>): the configuration in flash
    survives a power failure during a save; the application's data callback returns on a delivered packet, and reads the null
    pointer on a publish header whose length is 65536, which without a callback locks the client.

  \<^bold>\<open>The TCP/IP stack.\<close>
  \<^item> \<open>Lwip_Base\<close> (\<^verbatim>\<open>core/def.c\<close>, \<^verbatim>\<open>arch/cc.h\<close>): byte order, loads that trap when unaligned, \<^verbatim>\<open>struct pbuf\<close>.
  \<^item> \<open>Lwip_Chksum\<close> (\<^verbatim>\<open>inet_chksum.c\<close>): the three algorithms equal the sum of RFC 1071; the sum over a chain is that of its
    bytes; a sealed packet verifies and one changed word is found.
  \<^item> \<open>Lwip_Addr\<close> (\<^verbatim>\<open>ip_addr.c\<close>): netmasks, broadcast addresses, printing and reading.
  \<^item> \<open>Lwip_Pbuf\<close>, \<open>Lwip_Pbuf_Proofs\<close>, \<open>Lwip_Pbuf_Data\<close> (\<^verbatim>\<open>pbuf.c\<close>): buffers, reference counts and chains; a packet is
    one sequence of bytes, whatever buffers it is divided into, for copying, comparing and searching.
  \<^item> \<open>Lwip_Timers\<close> (\<^verbatim>\<open>timers.c\<close>): the list of relative delays refines one of deadlines; the periodic timers of the stack
    run as often as they are due.
  \<^item> \<open>Lwip_Udp\<close>, \<open>Lwip_Udp_Proofs\<close> (\<^verbatim>\<open>udp.c\<close>): a sent datagram is one the receiver accepts, an intact one reaches its
    callback, a damaged one none; no two control blocks share an address and port as long as there are fewer blocks than local ports.
  \<^item> \<open>Lwip_Ip\<close>, \<open>Lwip_Ip_Proofs\<close> (\<^verbatim>\<open>ip.c\<close>): routes, the header with its checksum, the checks of a received packet; the
    interface \<open>ip_service\<close> carries UDP over IP, from \<^verbatim>\<open>udp_sendto_if\<close> to the interface and from there to the callback.
  \<^item> \<open>Espconn_Buf\<close> (\<^verbatim>\<open>espconn_buf.c\<close>): the overwriting byte ring of a connection.
  \<^item> \<open>Lwip_Icmp\<close>, \<open>Lwip_Icmp_Proofs\<close> (\<^verbatim>\<open>icmp.c\<close>): answers to pings and the messages about packets that cannot be delivered; an
    unreachable message changes the MTU of the interface.
  \<^item> \<open>Lwip_Etharp\<close>, \<open>Lwip_Arp_Table\<close>, \<open>Lwip_Etharp_Proofs\<close> (\<^verbatim>\<open>netif/etharp.c\<close>): the ARP table in all reachable states, its aging,
    the frames that are sent, the packets that wait for an address, the answer to a request as the driver gets it, and a ping from the received frame to
    the sent one.

  \<^bold>\<open>Bounds and fuel.\<close> Nothing is cut off by fuel: loops over a length or a counter are structural recursions, loops over
  memory, lists or hardware are partial functions with termination theorems where the code has a reason to end.
  Theorems on sizes assume what the C types force: 16-bit lengths and addresses below the end of memory.

  \<^bold>\<open>Not modelled.\<close> The cloud library of the gateway (\<^verbatim>\<open>xlink\<close>) and the radio, AT and TLS libraries are closed. The
  protocol engines of lwIP (TCP, DHCP, DNS, IGMP) and the connection layer above them are vendored code, of which
  the base layers, ARP, IP, ICMP and UDP are modelled; its thread API is compiled out without an operating system. The IoT demo, the AT examples and
  the radio examples are separate programs around calls of closed libraries. Concurrency of interrupt handlers is
  modelled at the points where the code allows them: between polls of a lock and between events.
\<close>

end
